(* ===== verification/Prelude.thy ===== *)
theory Prelude
  imports Main "HOL-Library.Word" "HOL-Library.Monad_Syntax"
begin

text \<open>
  Shared vocabulary of the development: the machine types, the growth rule of every dynamic
  array of the interpreter (\<^verbatim>\<open>FLUX_GROW_CAPACITY\<close> of \<^verbatim>\<open>include/flux/common.h\<close>), partial list
  access, and the lemmas on lists, options and power-of-two masks that the components share.

  Convention for the whole development: an operation of type \<open>'a option\<close> is \<^const>\<open>None\<close> where the
  C code does not return normally, that is, where it reads or writes outside an object, follows a
  dangling or mistyped pointer, overflows a signed integer, or loops for ever.  Errors that the
  interpreter reports are ordinary values.
\<close>

unbundle bit_operations_syntax

named_theorems flux_simps \<open>unfolding rules of the small accessors\<close>

type_synonym byte = "8 word"
type_synonym uint16 = "16 word"
type_synonym uint32 = "32 word"
type_synonym uint64 = "64 word"
type_synonym int64 = "64 word"

section \<open>Growth of dynamic arrays\<close>

definition flux_initial_capacity :: nat where
  "flux_initial_capacity = 8"

definition flux_grow_capacity :: "nat \<Rightarrow> nat" where
  "flux_grow_capacity cap = (if cap < flux_initial_capacity then flux_initial_capacity else cap * 2)"

lemma flux_grow_capacity_gt: "cap < flux_grow_capacity cap"
  by (simp add: flux_grow_capacity_def flux_initial_capacity_def)

lemma flux_grow_capacity_0 [simp]: "flux_grow_capacity 0 = 8"
  by (simp add: flux_grow_capacity_def flux_initial_capacity_def)

section \<open>Partial list access\<close>

definition nth_opt :: "'a list \<Rightarrow> nat \<Rightarrow> 'a option" where
  "nth_opt xs i = (if i < length xs then Some (xs ! i) else None)"

definition set_nth :: "'a list \<Rightarrow> nat \<Rightarrow> 'a \<Rightarrow> 'a list option" where
  "set_nth xs i x = (if i < length xs then Some (xs[i := x]) else None)"

lemma nth_opt_Some [simp]: "nth_opt xs i = Some x \<longleftrightarrow> i < length xs \<and> xs ! i = x"
  by (auto simp: nth_opt_def)

lemma nth_opt_None [simp]: "nth_opt xs i = None \<longleftrightarrow> length xs \<le> i"
  by (auto simp: nth_opt_def)

lemma nth_opt_append_length [simp]: "nth_opt (xs @ y # ys) (length xs) = Some y"
  by (simp add: nth_opt_def)

lemma nth_opt_less: "i < length xs \<Longrightarrow> nth_opt xs i = Some (xs ! i)"
  by (simp add: nth_opt_def)

section \<open>Options as computations\<close>

lemma bind_Some_iff: "Option.bind m f = Some y \<longleftrightarrow> (\<exists>x. m = Some x \<and> f x = Some y)"
  by (cases m) auto

lemma bind_SomeE:
  assumes "Option.bind m f = Some y"
  obtains x where "m = Some x" "f x = Some y"
  using assms by (cases m) auto

fun fold_opt :: "('a \<Rightarrow> 's \<Rightarrow> 's option) \<Rightarrow> 'a list \<Rightarrow> 's \<Rightarrow> 's option" where
  "fold_opt f [] s = Some s"
| "fold_opt f (x # xs) s = Option.bind (f x s) (fold_opt f xs)"

lemma fold_opt_append: "fold_opt f (xs @ ys) s = Option.bind (fold_opt f xs s) (fold_opt f ys)"
  by (induction xs arbitrary: s) (auto split: Option.bind_splits)

lemma fold_opt_invariant:
  assumes "fold_opt f xs s = Some s'" "P s"
    and "\<And>x s s'. x \<in> set xs \<Longrightarrow> f x s = Some s' \<Longrightarrow> P s \<Longrightarrow> P s'"
  shows "P s'"
  using assms
proof (induction xs arbitrary: s)
  case (Cons x xs)
  from Cons.prems(1) obtain t where t: "f x s = Some t" "fold_opt f xs t = Some s'"
    by (auto simp: bind_Some_iff)
  with Cons.prems have "P t" by auto
  with t(2) Cons.prems(3) show ?case by (intro Cons.IH) auto
qed simp

section \<open>Power-of-two tables\<close>

text \<open>
  The hash tables start a probe at \<open>hash & (capacity - 1)\<close> and step with
  \<open>(idx + 1) & (capacity - 1)\<close>, on \<open>uint32_t\<close>.
\<close>

definition slot_mask :: "uint32 \<Rightarrow> nat \<Rightarrow> uint32" where
  "slot_mask x cap = x AND (of_nat (cap - 1))"

definition pow2_capacity :: "nat \<Rightarrow> bool" where
  "pow2_capacity cap \<longleftrightarrow> (\<exists>k. 3 \<le> k \<and> k \<le> 30 \<and> cap = 2 ^ k)"

lemma pow2_capacity_pos: "pow2_capacity cap \<Longrightarrow> 8 \<le> cap \<and> cap \<le> 2 ^ 30"
proof -
  assume "pow2_capacity cap"
  then obtain k where k: "3 \<le> k" "k \<le> 30" "cap = 2 ^ k"
    by (auto simp: pow2_capacity_def)
  have "(2::nat) ^ 3 \<le> 2 ^ k" "(2::nat) ^ k \<le> 2 ^ 30"
    using k by (simp_all only: power_increasing)
  then show ?thesis unfolding k(3) by (simp only: eval_nat_numeral power_Suc power_0) simp
qed

lemma pow2_capacity_grow:
  "cap = 0 \<or> pow2_capacity cap \<Longrightarrow> cap < 2 ^ 30 \<Longrightarrow> pow2_capacity (flux_grow_capacity cap)"
proof -
  assume c: "cap = 0 \<or> pow2_capacity cap" and lt: "cap < 2 ^ 30"
  show ?thesis
  proof (cases "cap = 0")
    case True
    then show ?thesis by (auto simp: pow2_capacity_def intro!: exI [of _ 3])
  next
    case False
    with c obtain k where k: "3 \<le> k" "k \<le> 30" "cap = 2 ^ k"
      by (auto simp: pow2_capacity_def)
    have "8 \<le> cap" using c False pow2_capacity_pos by blast
    moreover have "k < 30" using k lt by (auto simp: le_less)
    ultimately show ?thesis
      using k by (auto simp: pow2_capacity_def flux_grow_capacity_def flux_initial_capacity_def
          intro!: exI [of _ "Suc k"])
  qed
qed

lemma slot_mask_mod:
  assumes "pow2_capacity cap"
  shows "unat (slot_mask x cap) = unat x mod cap"
proof -
  from assms obtain k where k: "3 \<le> k" "k \<le> 30" "cap = 2 ^ k"
    by (auto simp: pow2_capacity_def)
  have "(of_nat (cap - 1) :: uint32) = mask k"
    using k by (simp add: mask_eq_exp_minus_1 of_nat_diff)
  then have "slot_mask x cap = take_bit k x"
    by (simp add: slot_mask_def take_bit_eq_mask)
  then show ?thesis
    using k by (simp add: unsigned_take_bit_eq take_bit_eq_mod [where 'a = nat])
qed

lemma slot_mask_less: "pow2_capacity cap \<Longrightarrow> unat (slot_mask x cap) < cap"
  using slot_mask_mod [of cap x] pow2_capacity_pos [of cap] by simp

lemma slot_mask_Suc:
  assumes "pow2_capacity cap" "unat i < cap"
  shows "unat (slot_mask (i + 1) cap) = Suc (unat i) mod cap"
proof -
  have "unat i < 2 ^ 30" using assms pow2_capacity_pos [of cap] by linarith
  then have "unat (i + 1) = Suc (unat i)"
    by (simp add: unat_word_ariths)
  with assms show ?thesis by (simp only: slot_mask_mod)
qed

lemma cyclic_unique:
  fixes i j cap :: nat
  assumes "i < cap" "j < cap" "(s + i) mod cap = (s + j) mod cap"
  shows "i = j"
proof -
  have "i = j" if "i \<le> j" "i < cap" "j < cap" "(s + i) mod cap = (s + j) mod cap" for i j :: nat
  proof -
    have "cap dvd (s + j) - (s + i)"
      using that by (intro mod_eq_dvd_iff_nat [THEN iffD1]) auto
    then have "cap dvd j - i" by simp
    moreover have "j - i < cap" using that by simp
    ultimately have "j - i = 0" using dvd_imp_le leD by blast
    with that show ?thesis by simp
  qed
  with assms show ?thesis by (metis nle_le)
qed

lemma cyclic_reaches:
  fixes s i cap :: nat
  assumes "i < cap" "0 < cap"
  obtains n where "n < cap" "(s + n) mod cap = i"
proof -
  define n where "n = (i + cap - s mod cap) mod cap"
  have "s mod cap \<le> cap" using assms by (simp add: less_imp_le)
  have "(s + n) mod cap = (s mod cap + (i + cap - s mod cap)) mod cap"
    by (simp add: n_def mod_simps)
  also have "\<dots> = (i + cap) mod cap" using \<open>s mod cap \<le> cap\<close> by simp
  also have "\<dots> = i" using assms by simp
  finally have "(s + n) mod cap = i" .
  moreover have "n < cap" using assms by (simp add: n_def)
  ultimately show ?thesis using that by blast
qed

section \<open>Linear probing\<close>

text \<open>
  The loops \<open>while (not stop) idx = (idx + 1) & (capacity - 1)\<close> of the hash tables.  The sequence of
  slots repeats after \<open>capacity\<close> steps, so a scan that has not stopped by then does not end.
\<close>

fun probe_scan :: "nat \<Rightarrow> (nat \<Rightarrow> bool) \<Rightarrow> nat \<Rightarrow> uint32 \<Rightarrow> nat option" where
  "probe_scan 0 stop cap idx = None"
| "probe_scan (Suc n) stop cap idx =
     (if stop (unat idx) then Some (unat idx) else probe_scan n stop cap (slot_mask (idx + 1) cap))"

lemma probe_scan_from:
  assumes cap: "pow2_capacity cap" and "i < cap" "stop i"
    and "k \<le> cap" "unat idx = (s + k) mod cap" "\<forall>m < k. \<not> stop ((s + m) mod cap)" "fuel = cap - k"
  shows "\<exists>n < cap. probe_scan fuel stop cap idx = Some ((s + n) mod cap) \<and> stop ((s + n) mod cap) \<and>
    (\<forall>m < n. \<not> stop ((s + m) mod cap))"
  using assms(4-)
proof (induction fuel arbitrary: k idx)
  case 0
  have "0 < cap" using assms(2) by simp
  with assms(2) obtain m where "m < cap" "(s + m) mod cap = i" by (rule cyclic_reaches)
  with 0 assms(3) show ?case by auto
next
  case (Suc fuel)
  have k: "k < cap" "Suc k \<le> cap" "fuel = cap - Suc k" using Suc.prems(4) by auto
  show ?case
  proof (cases "stop ((s + k) mod cap)")
    case True
    then have "probe_scan (Suc fuel) stop cap idx = Some ((s + k) mod cap)"
      using Suc.prems(2) by simp
    then show ?thesis using True Suc.prems(3) k(1) by blast
  next
    case False
    have "unat idx < cap" using Suc.prems(2) k(1) by simp
    then have idx: "unat (slot_mask (idx + 1) cap) = (s + Suc k) mod cap"
      using slot_mask_Suc [OF cap, of idx] Suc.prems(2) by (simp add: mod_Suc_eq)
    have "\<forall>m < Suc k. \<not> stop ((s + m) mod cap)" using Suc.prems(3) False by (auto simp: less_Suc_eq)
    from Suc.IH [OF k(2) idx this k(3)] show ?thesis
      using False Suc.prems(2) by simp
  qed
qed

lemma probe_scan_spec:
  assumes "pow2_capacity cap" "i < cap" "stop i"
  obtains n where "n < cap" "probe_scan cap stop cap (slot_mask x cap) = Some ((unat x + n) mod cap)"
    "stop ((unat x + n) mod cap)" "\<And>m. m < n \<Longrightarrow> \<not> stop ((unat x + m) mod cap)"
  using probe_scan_from [where stop = stop and k = 0 and s = "unat x" and idx = "slot_mask x cap", OF assms]
    slot_mask_mod [OF assms(1)] by auto

end
