(* ===== verification/Floats.thy ===== *)
theory Floats
  imports Prelude
begin

text \<open>
  IEEE 754 binary64, the C type \<^verbatim>\<open>double\<close> of the interpreter's float values, as its 64-bit pattern.
  A finite double is an integer multiple of \<open>2 ^ -1074\<close>; the operations compute exactly on these
  integers and round once, to nearest, ties to even, as the hardware does.  NaN results are the
  canonical quiet NaN: payloads are not modelled.  Everything is executable.
\<close>

type_synonym double = "64 word"

section \<open>Fields of a bit pattern\<close>

definition dbl_sign :: "double \<Rightarrow> bool" where
  "dbl_sign d \<longleftrightarrow> bit d 63"

definition dbl_exponent :: "double \<Rightarrow> nat" where
  "dbl_exponent d = (unat d div 2 ^ 52) mod 2 ^ 11"

definition dbl_fraction :: "double \<Rightarrow> nat" where
  "dbl_fraction d = unat d mod 2 ^ 52"

definition dbl_is_nan :: "double \<Rightarrow> bool" where
  "dbl_is_nan d \<longleftrightarrow> dbl_exponent d = 2047 \<and> dbl_fraction d \<noteq> 0"

definition dbl_is_inf :: "double \<Rightarrow> bool" where
  "dbl_is_inf d \<longleftrightarrow> dbl_exponent d = 2047 \<and> dbl_fraction d = 0"

definition dbl_magnitude :: "double \<Rightarrow> nat" where
  "dbl_magnitude d =
     (if dbl_exponent d = 0 then dbl_fraction d
      else (2 ^ 52 + dbl_fraction d) * 2 ^ (dbl_exponent d - 1))"

text \<open>The value of a finite double in units of \<open>2 ^ -1074\<close>.\<close>

definition dbl_units :: "double \<Rightarrow> int" where
  "dbl_units d = (if dbl_sign d then - int (dbl_magnitude d) else int (dbl_magnitude d))"

definition dbl_is_zero :: "double \<Rightarrow> bool" where
  "dbl_is_zero d \<longleftrightarrow> dbl_exponent d = 0 \<and> dbl_fraction d = 0"

definition dbl_nan :: double where
  "dbl_nan = 0x7FF8000000000000"

definition dbl_inf :: "bool \<Rightarrow> double" where
  "dbl_inf s = (if s then 0xFFF0000000000000 else 0x7FF0000000000000)"

definition dbl_zero :: "bool \<Rightarrow> double" where
  "dbl_zero s = (if s then 0x8000000000000000 else 0)"

section \<open>Rounding\<close>

text \<open>The number of low bits to drop so that the quotient fits in 53 bits.\<close>

fun round_shift :: "nat \<Rightarrow> nat" where
  "round_shift q = (if q < 2 ^ 53 then 0 else Suc (round_shift (q div 2)))"

declare round_shift.simps [simp del]

definition round_half_even :: "nat \<Rightarrow> nat \<Rightarrow> nat" where
  "round_half_even num den =
     (let q = num div den; r = num mod den
      in if 2 * r < den then q else if den < 2 * r then Suc q
         else if even q then q else Suc q)"

text \<open>The double nearest to \<open>(-1)^s * num / den\<close> units.\<close>

definition dbl_round :: "bool \<Rightarrow> nat \<Rightarrow> nat \<Rightarrow> double" where
  "dbl_round s num den =
     (let sh = round_shift (num div den);
          m = round_half_even num (den * 2 ^ sh);
          enc = sh * 2 ^ 52 + m
      in if 0x7FF0000000000000 \<le> enc then dbl_inf s
         else (if s then 0x8000000000000000 else 0) + of_nat enc)"

definition dbl_of_units :: "int \<Rightarrow> double" where
  "dbl_of_units n = dbl_round (n < 0) (nat \<bar>n\<bar>) 1"

section \<open>The operations the interpreter uses\<close>

text \<open>\<^verbatim>\<open>(double)i\<close> for an \<^verbatim>\<open>int64_t\<close>.\<close>

definition dbl_of_int :: "int \<Rightarrow> double" where
  "dbl_of_int i = dbl_of_units (i * 2 ^ 1074)"

definition dbl_neg :: "double \<Rightarrow> double" where
  "dbl_neg d = d XOR 0x8000000000000000"

definition dbl_add :: "double \<Rightarrow> double \<Rightarrow> double" where
  "dbl_add a b =
     (if dbl_is_nan a \<or> dbl_is_nan b then dbl_nan
      else if dbl_is_inf a then (if dbl_is_inf b \<and> dbl_sign a \<noteq> dbl_sign b then dbl_nan else a)
      else if dbl_is_inf b then b
      else let n = dbl_units a + dbl_units b
           in if n = 0 then dbl_zero (dbl_sign a \<and> dbl_sign b \<and> dbl_is_zero a \<and> dbl_is_zero b)
              else dbl_of_units n)"

definition dbl_sub :: "double \<Rightarrow> double \<Rightarrow> double" where
  "dbl_sub a b = dbl_add a (dbl_neg b)"

definition dbl_mul :: "double \<Rightarrow> double \<Rightarrow> double" where
  "dbl_mul a b =
     (let s = (dbl_sign a \<noteq> dbl_sign b)
      in if dbl_is_nan a \<or> dbl_is_nan b then dbl_nan
         else if dbl_is_inf a then (if dbl_is_zero b then dbl_nan else dbl_inf s)
         else if dbl_is_inf b then (if dbl_is_zero a then dbl_nan else dbl_inf s)
         else dbl_round s (dbl_magnitude a * dbl_magnitude b) (2 ^ 1074))"

definition dbl_div :: "double \<Rightarrow> double \<Rightarrow> double" where
  "dbl_div a b =
     (let s = (dbl_sign a \<noteq> dbl_sign b)
      in if dbl_is_nan a \<or> dbl_is_nan b then dbl_nan
         else if dbl_is_inf a then (if dbl_is_inf b then dbl_nan else dbl_inf s)
         else if dbl_is_inf b then dbl_zero s
         else if dbl_is_zero b then (if dbl_is_zero a then dbl_nan else dbl_inf s)
         else dbl_round s (dbl_magnitude a * 2 ^ 1074) (dbl_magnitude b))"

text \<open>C's \<^verbatim>\<open>fmod\<close>: exact, with the sign of the dividend.\<close>

definition dbl_fmod :: "double \<Rightarrow> double \<Rightarrow> double" where
  "dbl_fmod a b =
     (if dbl_is_nan a \<or> dbl_is_nan b \<or> dbl_is_inf a \<or> dbl_is_zero b then dbl_nan
      else if dbl_is_inf b then a
      else dbl_round (dbl_sign a) (dbl_magnitude a mod dbl_magnitude b) 1)"

definition dbl_floor :: "double \<Rightarrow> double" where
  "dbl_floor a =
     (if dbl_is_nan a then dbl_nan
      else if dbl_is_inf a \<or> dbl_is_zero a then a
      else let n = dbl_units a div 2 ^ 1074
           in if n = 0 then dbl_zero (dbl_sign a) else dbl_of_int n)"

definition dbl_eq :: "double \<Rightarrow> double \<Rightarrow> bool" where
  "dbl_eq a b \<longleftrightarrow> \<not> dbl_is_nan a \<and> \<not> dbl_is_nan b \<and> dbl_units a = dbl_units b"

definition dbl_lt :: "double \<Rightarrow> double \<Rightarrow> bool" where
  "dbl_lt a b \<longleftrightarrow> \<not> dbl_is_nan a \<and> \<not> dbl_is_nan b \<and> dbl_units a < dbl_units b"

definition dbl_le :: "double \<Rightarrow> double \<Rightarrow> bool" where
  "dbl_le a b \<longleftrightarrow> \<not> dbl_is_nan a \<and> \<not> dbl_is_nan b \<and> dbl_units a \<le> dbl_units b"

text \<open>
  The infinities take part in the comparisons through the units of their exponent field 2047, which
  are larger in magnitude than those of every finite double.
\<close>

lemma dbl_eq_sym: "dbl_eq a b \<longleftrightarrow> dbl_eq b a"
  by (auto simp: dbl_eq_def)

lemma dbl_lt_irrefl [simp]: "\<not> dbl_lt a a"
  by (simp add: dbl_lt_def)

lemma dbl_le_iff_lt_or_eq: "dbl_le a b \<longleftrightarrow> dbl_lt a b \<or> dbl_eq a b"
  by (auto simp: dbl_le_def dbl_lt_def dbl_eq_def)

section \<open>Conversion of integers\<close>

text \<open>
  Below \<open>2 ^ 53\<close> the conversion of an integer is exact, so the comparisons of the converted
  doubles agree with those of the integers.
\<close>

lemma round_shift_mult: "2 ^ 52 \<le> m \<Longrightarrow> m < 2 ^ 53 \<Longrightarrow> round_shift (m * 2 ^ k) = k"
proof (induction k)
  case 0
  then show ?case by (simp add: round_shift.simps)
next
  case (Suc k)
  have "\<not> m * 2 ^ Suc k < 2 ^ 53"
  proof -
    have "2 ^ 52 * 2 ^ 1 \<le> m * 2 ^ Suc k"
      using Suc.prems by (intro mult_le_mono power_increasing) auto
    then show ?thesis by simp
  qed
  then have "round_shift (m * 2 ^ Suc k) = Suc (round_shift (m * 2 ^ Suc k div 2))"
    by (simp only: round_shift.simps [of "m * 2 ^ Suc k"] if_False)
  also have "m * 2 ^ Suc k div 2 = m * 2 ^ k" by simp
  finally show ?case using Suc by simp
qed

lemma round_half_even_exact: "0 < d \<Longrightarrow> round_half_even (m * d) d = m"
  by (simp add: round_half_even_def)

lemma dbl_round_exact:
  assumes "2 ^ 52 \<le> m" "m < 2 ^ 53" "k \<le> 2000"
  shows "dbl_round s (m * 2 ^ k) 1 =
    (if s then 0x8000000000000000 else 0) + of_nat (k * 2 ^ 52 + m)"
proof -
  have "k * 2 ^ 52 + m < 0x7FF0000000000000" using assms by simp
  then show ?thesis
    using assms round_half_even_exact [of "2 ^ k" m]
    by (simp add: dbl_round_def round_shift_mult Let_def)
qed

lemma unat_dbl_pattern:
  assumes "e < 2 ^ 63"
  shows "unat ((if s then 0x8000000000000000 else 0 :: double) + of_nat e) =
    (if s then 2 ^ 63 else 0) + e"
  using assms by (simp add: unat_word_ariths unat_of_nat)

lemma dbl_fields:
  fixes d :: double
  assumes d: "unat d = (if s then 2 ^ 63 else 0) + (x * 2 ^ 52 + f)" and x: "x < 2048" and f: "f < 2 ^ 52"
  shows "dbl_sign d = s" "dbl_exponent d = x" "dbl_fraction d = f"
proof -
  have small: "x * 2 ^ 52 + f < 2 ^ 63"
  proof -
    have "x * 2 ^ 52 \<le> 2047 * 2 ^ 52" using x by simp
    then show ?thesis using f by simp
  qed
  have "bit d 63 \<longleftrightarrow> odd (unat d div 2 ^ 63)"
  proof -
    have "bit d 63 \<longleftrightarrow> bit (unat d) 63" by (simp add: bit_unsigned_iff)
    then show ?thesis by (simp add: bit_iff_odd)
  qed
  moreover have "unat d div 2 ^ 63 = (if s then 1 else 0)"
    using small unfolding d by (simp only: div_add_self1 split: if_splits) (auto simp: div_add_self1)
  ultimately show "dbl_sign d = s"
    by (simp add: dbl_sign_def)
  have e: "unat d = f + ((if s then 2 ^ 11 else 0) + x) * 2 ^ 52"
    by (simp add: d)
  have "unat d div 2 ^ 52 = (if s then 2 ^ 11 else 0) + x"
    using f unfolding e by (subst div_mult_self1) simp_all
  then show "dbl_exponent d = x" using x by (auto simp: dbl_exponent_def)
  show "dbl_fraction d = f"
    using f unfolding dbl_fraction_def e by (simp only: mod_mult_self1) simp
qed

lemma dbl_units_round_exact:
  assumes "2 ^ 52 \<le> m" "m < 2 ^ 53" "k \<le> 2000"
  shows "dbl_units (dbl_round s (m * 2 ^ k) 1) = (if s then -1 else 1) * int (m * 2 ^ k)"
    and "\<not> dbl_is_nan (dbl_round s (m * 2 ^ k) 1)"
proof -
  let ?d = "dbl_round s (m * 2 ^ k) 1"
  have enc: "k * 2 ^ 52 + m = Suc k * 2 ^ 52 + (m - 2 ^ 52)" using assms by simp
  have "k * 2 ^ 52 + m < 2 ^ 63" using assms by simp
  then have d: "unat ?d = (if s then 2 ^ 63 else 0) + (Suc k * 2 ^ 52 + (m - 2 ^ 52))"
    using assms by (simp only: dbl_round_exact unat_dbl_pattern enc [symmetric])
  have x: "Suc k < 2048" and f: "m - 2 ^ 52 < 2 ^ 52" using assms by auto
  note fields = dbl_fields [OF d x f]
  show "dbl_units ?d = (if s then -1 else 1) * int (m * 2 ^ k)"
    using assms unfolding dbl_units_def dbl_magnitude_def fields by simp
  show "\<not> dbl_is_nan ?d"
    using assms unfolding dbl_is_nan_def fields by simp
qed

lemma normalise_53:
  fixes n :: nat
  assumes "0 < n" "n < 2 ^ 53"
  obtains b where "b \<le> 52" "2 ^ 52 \<le> n * 2 ^ b" "n * 2 ^ b < 2 ^ 53"
proof -
  have "\<exists>b \<le> c. 2 ^ c \<le> n * 2 ^ b \<and> n * 2 ^ b < 2 ^ Suc c" if "n < 2 ^ Suc c" for c
    using that
  proof (induction c)
    case 0
    with assms(1) show ?case by (auto intro!: exI [of _ 0])
  next
    case (Suc c)
    show ?case
    proof (cases "n < 2 ^ Suc c")
      case True
      with Suc.IH obtain b where "b \<le> c" "2 ^ c \<le> n * 2 ^ b" "n * 2 ^ b < 2 ^ Suc c" by blast
      then show ?thesis by (intro exI [of _ "Suc b"]) auto
    next
      case False
      with Suc.prems show ?thesis by (intro exI [of _ 0]) auto
    qed
  qed
  from this [of 52] assms(2) that show ?thesis by auto
qed

lemma dbl_of_int_exact:
  assumes "\<bar>i\<bar> < 2 ^ 53"
  shows "dbl_units (dbl_of_int i) = i * 2 ^ 1074" and "\<not> dbl_is_nan (dbl_of_int i)"
proof -
  have "dbl_units (dbl_of_int i) = i * 2 ^ 1074 \<and> \<not> dbl_is_nan (dbl_of_int i)"
  proof (cases "i = 0")
    case True
    have "dbl_of_int 0 = 0"
      by (simp add: dbl_of_int_def dbl_of_units_def dbl_round_def round_shift.simps
          round_half_even_def)
    then show ?thesis
      by (simp add: True dbl_units_def dbl_magnitude_def dbl_exponent_def dbl_fraction_def
          dbl_is_nan_def)
  next
    case False
    define n where "n = nat \<bar>i\<bar>"
    have n: "0 < n" "n < 2 ^ 53" using False assms by (auto simp: n_def)
    then obtain b where b: "b \<le> 52" "2 ^ 52 \<le> n * 2 ^ b" "n * 2 ^ b < 2 ^ 53"
      by (rule normalise_53)
    have pow: "(2::nat) ^ 1074 = 2 ^ b * 2 ^ (1074 - b)"
      using b by (simp flip: power_add)
    have eq: "nat \<bar>i * 2 ^ 1074\<bar> = n * 2 ^ b * 2 ^ (1074 - b)"
      by (simp only: abs_mult nat_mult_distrib abs_ge_zero n_def mult.assoc pow [symmetric]) simp
    have k: "1074 - b \<le> 2000" by simp
    have sgn: "i * 2 ^ 1074 < 0 \<longleftrightarrow> i < 0" by (simp add: mult_less_0_iff del: power_numeral)
    have val: "(if i < 0 then -1 else 1) * int (nat \<bar>i * 2 ^ 1074\<bar>) = i * 2 ^ 1074"
      by (auto simp del: power_numeral simp: abs_mult)
    show ?thesis
      using dbl_units_round_exact [OF b(2,3) k, of "i < 0"] val
      by (simp only: dbl_of_int_def dbl_of_units_def sgn eq) simp
  qed
  then show "dbl_units (dbl_of_int i) = i * 2 ^ 1074" and "\<not> dbl_is_nan (dbl_of_int i)"
    by auto
qed

lemma dbl_cmp_of_int_exact:
  assumes "\<bar>i\<bar> < 2 ^ 53" "\<bar>j\<bar> < 2 ^ 53"
  shows "dbl_eq (dbl_of_int i) (dbl_of_int j) \<longleftrightarrow> i = j"
    and "dbl_lt (dbl_of_int i) (dbl_of_int j) \<longleftrightarrow> i < j"
    and "dbl_le (dbl_of_int i) (dbl_of_int j) \<longleftrightarrow> i \<le> j"
  using assms
  by (simp_all only: dbl_eq_def dbl_lt_def dbl_le_def dbl_of_int_exact not_False_eq_True simp_thms
      mult_cancel_right mult_less_cancel_right_pos mult_le_cancel_right_pos zero_less_power zero_less_numeral) auto

end
