(* ===== verification/Values.thy ===== *)
theory Values
  imports Floats
begin

text \<open>
  The tagged union \<^verbatim>\<open>Value\<close> of \<^verbatim>\<open>include/flux/value.h\<close>, its predicates and accessors, and the dynamic
  array \<^verbatim>\<open>ValueArray\<close> (\<^verbatim>\<open>src/vm/chunk.c\<close>).  An object pointer is an index into the heap of
  theory \<open>Objects\<close>; integers are 64-bit words read as two's complement by \<^const>\<open>sint\<close>.
\<close>

type_synonym ptr = nat

datatype flux_value =
    VAL_INT int64
  | VAL_FLOAT double
  | VAL_BOOL bool
  | VAL_NULL
  | VAL_OBJECT ptr

fun value_is_int :: "flux_value \<Rightarrow> bool" where
  "value_is_int (VAL_INT _) = True"
| "value_is_int _ = False"

fun value_is_float :: "flux_value \<Rightarrow> bool" where
  "value_is_float (VAL_FLOAT _) = True"
| "value_is_float _ = False"

fun value_is_bool :: "flux_value \<Rightarrow> bool" where
  "value_is_bool (VAL_BOOL _) = True"
| "value_is_bool _ = False"

fun value_is_null :: "flux_value \<Rightarrow> bool" where
  "value_is_null VAL_NULL = True"
| "value_is_null _ = False"

fun value_is_object :: "flux_value \<Rightarrow> bool" where
  "value_is_object (VAL_OBJECT _) = True"
| "value_is_object _ = False"

definition value_is_number :: "flux_value \<Rightarrow> bool" where
  "value_is_number v \<longleftrightarrow> value_is_int v \<or> value_is_float v"

text \<open>
  \<^verbatim>\<open>v.as.integer\<close>: the accessor does not look at the tag.  On a float it reads the bit pattern, on null
  the stored 0; what it reads on a bool or an object is not determined by the source.
\<close>

fun value_as_int :: "flux_value \<Rightarrow> int64 option" where
  "value_as_int (VAL_INT i) = Some i"
| "value_as_int (VAL_FLOAT d) = Some d"
| "value_as_int VAL_NULL = Some 0"
| "value_as_int _ = None"

fun value_to_double :: "flux_value \<Rightarrow> double option" where
  "value_to_double (VAL_INT i) = Some (dbl_of_int (sint i))"
| "value_to_double (VAL_FLOAT d) = Some d"
| "value_to_double VAL_NULL = Some 0"
| "value_to_double _ = None"

text \<open>\<^verbatim>\<open>if (value_is_bool(a)) a = value_int(a.as.boolean ? 1 : 0)\<close>, the coercion of the operators.\<close>

fun coerce_bool :: "flux_value \<Rightarrow> flux_value" where
  "coerce_bool (VAL_BOOL b) = VAL_INT (if b then 1 else 0)"
| "coerce_bool v = v"

lemma value_is_int_iff: "value_is_int v \<longleftrightarrow> (\<exists>i. v = VAL_INT i)"
  by (cases v) auto

lemma value_is_float_iff: "value_is_float v \<longleftrightarrow> (\<exists>d. v = VAL_FLOAT d)"
  by (cases v) auto

lemma value_is_null_iff [simp]: "value_is_null v \<longleftrightarrow> v = VAL_NULL"
  by (cases v) auto

lemma value_is_object_iff: "value_is_object v \<longleftrightarrow> (\<exists>p. v = VAL_OBJECT p)"
  by (cases v) auto

section \<open>Dynamic arrays of values\<close>

text \<open>
  \<open>va_data\<close> is the initialised prefix of the buffer, so its length is the C field \<^verbatim>\<open>count\<close>.
\<close>

record value_array =
  va_data :: "flux_value list"
  va_capacity :: nat

abbreviation va_count :: "value_array \<Rightarrow> nat" where
  "va_count arr \<equiv> length (va_data arr)"

definition value_array_init :: value_array where
  "value_array_init = \<lparr>va_data = [], va_capacity = 0\<rparr>"

definition value_array_write :: "value_array \<Rightarrow> flux_value \<Rightarrow> value_array" where
  "value_array_write arr v =
     (let cap = (if va_capacity arr \<le> va_count arr then flux_grow_capacity (va_capacity arr)
                 else va_capacity arr)
      in arr\<lparr>va_data := va_data arr @ [v], va_capacity := cap\<rparr>)"

definition value_array_ok :: "value_array \<Rightarrow> bool" where
  "value_array_ok arr \<longleftrightarrow> va_count arr \<le> va_capacity arr"

lemma value_array_init_ok [simp]: "value_array_ok value_array_init"
  by (simp add: value_array_ok_def value_array_init_def)

lemma va_data_init [simp]: "va_data value_array_init = []" "va_capacity value_array_init = 0"
  by (simp_all add: value_array_init_def)

lemma va_data_write [simp]: "va_data (value_array_write arr v) = va_data arr @ [v]"
  by (simp add: value_array_write_def Let_def)

lemma value_array_write_ok: "value_array_ok arr \<Longrightarrow> value_array_ok (value_array_write arr v)"
  using flux_grow_capacity_gt [of "va_capacity arr"]
  by (auto simp: value_array_ok_def value_array_write_def Let_def)

end
