(* ===== verification/Chunk.thy ===== *)
theory Chunk
  imports Values
begin

text \<open>
  The bytecode chunk of \<^verbatim>\<open>include/flux/chunk.h\<close> and \<^verbatim>\<open>src/vm/chunk.c\<close>: the opcodes and their numbers,
  the emitters with the run-length encoded line table, the constant pool, jump patching, the binary
  search for a line, the operand readers of the interpreter (\<^verbatim>\<open>src/vm/vm.c\<close>) and the instruction
  lengths of the disassembler.
\<close>

section \<open>Opcodes\<close>

datatype (plugins only: code) opcode =
    OP_PUSH_INT | OP_PUSH_FLOAT | OP_PUSH_STRING | OP_PUSH_BOOL | OP_PUSH_NULL | OP_PUSH_CONST
  | OP_LOAD_LOCAL | OP_STORE_LOCAL | OP_LOAD_GLOBAL | OP_STORE_GLOBAL | OP_DEFINE_GLOBAL
  | OP_GET_UPVALUE | OP_SET_UPVALUE
  | OP_GET_ATTR | OP_SET_ATTR | OP_GET_INDEX | OP_SET_INDEX | OP_SLICE
  | OP_POP | OP_DUP
  | OP_ADD | OP_SUB | OP_MUL | OP_DIV | OP_MOD | OP_POW | OP_FLOOR_DIV | OP_NEGATE
  | OP_BIT_AND | OP_BIT_OR | OP_BIT_XOR | OP_BIT_NOT | OP_SHL | OP_SHR
  | OP_EQ | OP_NEQ | OP_LT | OP_LTE | OP_GT | OP_GTE
  | OP_NOT | OP_AND | OP_OR
  | OP_JUMP | OP_JUMP_IF_FALSE | OP_LOOP
  | OP_CALL | OP_RETURN | OP_CLOSURE | OP_CLOSE_UPVALUE
  | OP_CREATE_LIST | OP_CREATE_DICT
  | OP_CLASS | OP_METHOD | OP_INVOKE | OP_INHERIT | OP_MARK_STRUCT | OP_MARK_ENUM
  | OP_ISINSTANCE | OP_GET_SUPER
  | OP_GET_ITER
  | OP_CREATE_TASK | OP_SPAWN_CALL | OP_AWAIT | OP_YIELD
  | OP_PUSH_EXCEPTION_HANDLER | OP_POP_EXCEPTION_HANDLER | OP_RAISE
  | OP_IMPORT | OP_IMPORT_STAR | OP_HALT

text \<open>The enumerators in declaration order: the position is the C value.\<close>

definition opcodes :: "opcode list" where
  "opcodes =
    [OP_PUSH_INT, OP_PUSH_FLOAT, OP_PUSH_STRING, OP_PUSH_BOOL, OP_PUSH_NULL, OP_PUSH_CONST,
     OP_LOAD_LOCAL, OP_STORE_LOCAL, OP_LOAD_GLOBAL, OP_STORE_GLOBAL, OP_DEFINE_GLOBAL,
     OP_GET_UPVALUE, OP_SET_UPVALUE,
     OP_GET_ATTR, OP_SET_ATTR, OP_GET_INDEX, OP_SET_INDEX, OP_SLICE,
     OP_POP, OP_DUP,
     OP_ADD, OP_SUB, OP_MUL, OP_DIV, OP_MOD, OP_POW, OP_FLOOR_DIV, OP_NEGATE,
     OP_BIT_AND, OP_BIT_OR, OP_BIT_XOR, OP_BIT_NOT, OP_SHL, OP_SHR,
     OP_EQ, OP_NEQ, OP_LT, OP_LTE, OP_GT, OP_GTE,
     OP_NOT, OP_AND, OP_OR,
     OP_JUMP, OP_JUMP_IF_FALSE, OP_LOOP,
     OP_CALL, OP_RETURN, OP_CLOSURE, OP_CLOSE_UPVALUE,
     OP_CREATE_LIST, OP_CREATE_DICT,
     OP_CLASS, OP_METHOD, OP_INVOKE, OP_INHERIT, OP_MARK_STRUCT, OP_MARK_ENUM,
     OP_ISINSTANCE, OP_GET_SUPER,
     OP_GET_ITER,
     OP_CREATE_TASK, OP_SPAWN_CALL, OP_AWAIT, OP_YIELD,
     OP_PUSH_EXCEPTION_HANDLER, OP_POP_EXCEPTION_HANDLER, OP_RAISE,
     OP_IMPORT, OP_IMPORT_STAR, OP_HALT]"

definition opcode_number :: "opcode \<Rightarrow> nat" where
  "opcode_number op = length (takeWhile (\<lambda>x. x \<noteq> op) opcodes)"

definition opcode_byte :: "opcode \<Rightarrow> byte" where
  "opcode_byte op = of_nat (opcode_number op)"

definition opcode_of_byte :: "byte \<Rightarrow> opcode option" where
  "opcode_of_byte b = nth_opt opcodes (unat b)"

lemma opcode_in_opcodes: "op \<in> set opcodes"
  by (cases op) (simp_all add: opcodes_def)

lemma opcode_number_less: "opcode_number op < length opcodes"
proof -
  have "takeWhile (\<lambda>x. x \<noteq> op) opcodes \<noteq> opcodes"
    using opcode_in_opcodes [of op] by (auto simp: takeWhile_eq_all_conv)
  then show ?thesis
    by (metis length_takeWhile_le nat_less_le opcode_number_def take_all_iff takeWhile_eq_take)
qed

lemma length_opcodes: "length opcodes = 71"
  by (simp add: opcodes_def)

lemma opcode_of_byte_byte [simp]: "opcode_of_byte (opcode_byte op) = Some op"
proof -
  have "opcode_number op < 256"
    using opcode_number_less [of op] by (simp add: length_opcodes)
  then have "unat (opcode_byte op) = opcode_number op"
    by (simp add: opcode_byte_def unat_of_nat)
  moreover have "opcodes ! opcode_number op = op"
    using nth_length_takeWhile [of "\<lambda>x. x \<noteq> op" opcodes] opcode_number_less [of op]
    by (simp add: opcode_number_def)
  ultimately show ?thesis
    using opcode_number_less [of op] by (simp add: opcode_of_byte_def)
qed

section \<open>Chunks\<close>

record line_entry =
  le_offset :: nat
  le_line :: int

text \<open>As for \<^typ>\<open>value_array\<close>, the lists are the initialised prefixes: \<^verbatim>\<open>count\<close> and \<^verbatim>\<open>line_count\<close>
  are their lengths.\<close>

record chunk =
  ch_code :: "byte list"
  ch_capacity :: nat
  ch_constants :: value_array
  ch_lines :: "line_entry list"
  ch_line_capacity :: nat

definition chunk_init :: chunk where
  "chunk_init = \<lparr>ch_code = [], ch_capacity = 0, ch_constants = value_array_init,
                 ch_lines = [], ch_line_capacity = 0\<rparr>"

definition chunk_free :: "chunk \<Rightarrow> chunk" where
  "chunk_free c = chunk_init"

definition chunk_write :: "chunk \<Rightarrow> byte \<Rightarrow> int \<Rightarrow> chunk" where
  "chunk_write c b line =
     (let cap = (if ch_capacity c \<le> length (ch_code c) then flux_grow_capacity (ch_capacity c)
                 else ch_capacity c);
          c1 = c\<lparr>ch_code := ch_code c @ [b], ch_capacity := cap\<rparr>
      in if ch_lines c1 \<noteq> [] \<and> le_line (last (ch_lines c1)) = line then c1
         else
           let lcap = (if ch_line_capacity c1 \<le> length (ch_lines c1)
                       then flux_grow_capacity (ch_line_capacity c1) else ch_line_capacity c1)
           in c1\<lparr>ch_lines := ch_lines c1 @ [\<lparr>le_offset = length (ch_code c1) - 1, le_line = line\<rparr>],
                 ch_line_capacity := lcap\<rparr>)"

definition chunk_write_uint16 :: "chunk \<Rightarrow> uint16 \<Rightarrow> int \<Rightarrow> chunk" where
  "chunk_write_uint16 c v line =
     (let c1 = chunk_write c (ucast (v AND 0xFF)) line
      in chunk_write c1 (ucast (drop_bit 8 v AND 0xFF)) line)"

definition chunk_write_int16 :: "chunk \<Rightarrow> uint16 \<Rightarrow> int \<Rightarrow> chunk" where
  "chunk_write_int16 c v line = chunk_write_uint16 c v line"

fun chunk_write_bytes8 :: "nat \<Rightarrow> chunk \<Rightarrow> uint64 \<Rightarrow> int \<Rightarrow> chunk" where
  "chunk_write_bytes8 0 c v line = c"
| "chunk_write_bytes8 (Suc n) c v line =
     chunk_write_bytes8 n (chunk_write c (ucast (v AND 0xFF)) line) (signed_drop_bit 8 v) line"

text \<open>\<^verbatim>\<open>v >>= 8\<close> on \<^verbatim>\<open>int64_t\<close> is the arithmetic shift.\<close>

definition chunk_write_int64 :: "chunk \<Rightarrow> int64 \<Rightarrow> int \<Rightarrow> chunk" where
  "chunk_write_int64 c v line = chunk_write_bytes8 8 c v line"

fun chunk_write_bits8 :: "nat \<Rightarrow> chunk \<Rightarrow> uint64 \<Rightarrow> int \<Rightarrow> chunk" where
  "chunk_write_bits8 0 c v line = c"
| "chunk_write_bits8 (Suc n) c v line =
     chunk_write_bits8 n (chunk_write c (ucast (v AND 0xFF)) line) (drop_bit 8 v) line"

definition chunk_write_double :: "chunk \<Rightarrow> double \<Rightarrow> int \<Rightarrow> chunk" where
  "chunk_write_double c v line = chunk_write_bits8 8 c v line"

definition chunk_add_constant :: "chunk \<Rightarrow> flux_value \<Rightarrow> nat \<times> chunk" where
  "chunk_add_constant c v =
     (let arr = value_array_write (ch_constants c) v
      in (va_count arr - 1, c\<lparr>ch_constants := arr\<rparr>))"

definition chunk_patch_int16 :: "chunk \<Rightarrow> nat \<Rightarrow> uint16 \<Rightarrow> chunk option" where
  "chunk_patch_int16 c offset v = do {
     code1 \<leftarrow> set_nth (ch_code c) offset (ucast (v AND 0xFF));
     code2 \<leftarrow> set_nth code1 (offset + 1) (ucast (drop_bit 8 v AND 0xFF));
     Some (c\<lparr>ch_code := code2\<rparr>)
   }"

text \<open>The binary search of \<^verbatim>\<open>chunk_get_line\<close>, on the C \<^verbatim>\<open>int\<close> variables \<^verbatim>\<open>lo\<close>, \<^verbatim>\<open>hi\<close>, \<^verbatim>\<open>line\<close>.\<close>

function get_line_loop :: "line_entry list \<Rightarrow> nat \<Rightarrow> int \<Rightarrow> int \<Rightarrow> int \<Rightarrow> int" where
  "get_line_loop lines offset lo hi line =
     (if lo \<le> hi then
        let mid = (lo + hi) div 2 in
        if le_offset (lines ! nat mid) \<le> offset
        then get_line_loop lines offset (mid + 1) hi (le_line (lines ! nat mid))
        else get_line_loop lines offset lo (mid - 1) line
      else line)"
  by pat_completeness auto
termination
  by (relation "measure (\<lambda>(lines, offset, lo, hi, line). nat (hi - lo + 1))") auto

declare get_line_loop.simps [simp del]

definition chunk_get_line :: "chunk \<Rightarrow> nat \<Rightarrow> int" where
  "chunk_get_line c offset = get_line_loop (ch_lines c) offset 0 (int (length (ch_lines c)) - 1) 0"

section \<open>Operand readers of the interpreter\<close>

text \<open>Each reader takes the code and the instruction pointer and returns the operand and the
  advanced pointer.\<close>

definition read_byte :: "byte list \<Rightarrow> nat \<Rightarrow> (byte \<times> nat) option" where
  "read_byte code ip = do { b \<leftarrow> nth_opt code ip; Some (b, ip + 1) }"

definition read_uint16 :: "byte list \<Rightarrow> nat \<Rightarrow> (uint16 \<times> nat) option" where
  "read_uint16 code ip = do {
     b0 \<leftarrow> nth_opt code ip;
     b1 \<leftarrow> nth_opt code (ip + 1);
     Some (ucast b0 OR push_bit 8 (ucast b1), ip + 2)
   }"

definition read_int16 :: "byte list \<Rightarrow> nat \<Rightarrow> (int \<times> nat) option" where
  "read_int16 code ip = do { (v, ip') \<leftarrow> read_uint16 code ip; Some (sint v, ip') }"

fun read_le :: "nat \<Rightarrow> nat \<Rightarrow> byte list \<Rightarrow> nat \<Rightarrow> uint64 \<Rightarrow> uint64 option" where
  "read_le 0 i code ip acc = Some acc"
| "read_le (Suc n) i code ip acc = do {
     b \<leftarrow> nth_opt code (ip + i);
     read_le n (Suc i) code ip (acc OR push_bit (i * 8) (ucast b))
   }"

definition read_int64 :: "byte list \<Rightarrow> nat \<Rightarrow> (int64 \<times> nat) option" where
  "read_int64 code ip = do { v \<leftarrow> read_le 8 0 code ip 0; Some (v, ip + 8) }"

definition read_double :: "byte list \<Rightarrow> nat \<Rightarrow> (double \<times> nat) option" where
  "read_double code ip = do { v \<leftarrow> read_le 8 0 code ip 0; Some (v, ip + 8) }"

end
