(* ===== verification/Objects.thy ===== *)
theory Objects
  imports Chunk
begin

text \<open>
  The heap objects of \<^verbatim>\<open>include/flux/object.h\<close>, one record per C struct, and the heap.  The common
  header \<^verbatim>\<open>FluxObject\<close> is split: the tag is the constructor of \<open>payload\<close>, the mark bit is a field,
  and the intrusive list \<^verbatim>\<open>next\<close> is the list \<open>objects\<close> of the machine (theory \<open>VMState\<close>).
  A NULL pointer is \<^const>\<open>None\<close>.
\<close>

record flux_string =
  str_length :: nat
  str_hash :: uint32
  str_chars :: string

record flux_list =
  elements :: value_array

record dict_entry =
  de_key :: "ptr option"
  de_value :: flux_value

record flux_dict =
  d_count :: nat
  d_capacity :: nat
  d_entries :: "dict_entry list"

record flux_function =
  fn_arity :: nat
  fn_upvalue_count :: nat
  fn_chunk :: chunk
  fn_name :: "ptr option"
  fn_source_file :: "ptr option"
  fn_is_async :: bool
  fn_is_generator :: bool

text \<open>A native function is a C function pointer; the model keeps a number for it.\<close>

record flux_native =
  nat_fn :: nat
  nat_name :: ptr
  nat_arity :: int

text \<open>\<^verbatim>\<open>location\<close> points into the value stack while the upvalue is open and at its own \<^verbatim>\<open>closed\<close> field
  afterwards.\<close>

datatype upvalue_location = Open nat | Closed

record flux_upvalue =
  uv_location :: upvalue_location
  uv_closed :: flux_value

record flux_closure =
  cl_function :: ptr
  cl_upvalues :: "ptr option list"

record flux_class =
  k_name :: ptr
  k_methods :: "ptr option"
  k_superclass :: "ptr option"
  k_is_struct :: bool
  k_is_enum :: bool

record flux_instance =
  i_klass :: ptr
  i_fields :: "ptr option"

record flux_bound_method =
  bm_receiver :: flux_value
  bm_method :: ptr

text \<open>A call frame: \<^verbatim>\<open>ip\<close> is an offset into the function's code, \<^verbatim>\<open>slots\<close> an index into the stack.\<close>

record call_frame =
  fr_closure :: ptr
  fr_ip :: nat
  fr_slots :: nat

datatype coroutine_state = CORO_SUSPENDED | CORO_RUNNING | CORO_DEAD

text \<open>\<open>co_stack\<close> is the used part of the coroutine's own stack, from its base to \<^verbatim>\<open>stack_top\<close>;
  \<^verbatim>\<open>frame_count\<close> is the length of \<open>co_frames\<close>.\<close>

record flux_coroutine =
  co_state :: coroutine_state
  co_closure :: ptr
  co_stack :: "flux_value list"
  co_stack_capacity :: nat
  co_frames :: "call_frame list"
  co_frame_capacity :: nat
  co_slot_offsets :: "nat list"
  co_result :: flux_value
  co_awaited_by :: "ptr option"
  co_pending_future :: "ptr option"
  co_gather_future :: "ptr option"
  co_gather_slot :: nat

record flux_future =
  fut_resolved :: bool
  fut_result :: flux_value
  fut_waiting :: "ptr option"
  fut_gather_results :: "flux_value list option"
  fut_gather_count :: nat
  fut_gather_remaining :: int

datatype (plugins only: code) payload =
    OBJ_STRING flux_string
  | OBJ_LIST flux_list
  | OBJ_DICT flux_dict
  | OBJ_FUNCTION flux_function
  | OBJ_NATIVE flux_native
  | OBJ_CLOSURE flux_closure
  | OBJ_UPVALUE flux_upvalue
  | OBJ_CLASS flux_class
  | OBJ_INSTANCE flux_instance
  | OBJ_BOUND_METHOD flux_bound_method
  | OBJ_COROUTINE flux_coroutine
  | OBJ_FUTURE flux_future

record flux_object =
  marked :: bool
  payload :: payload

section \<open>The heap\<close>

text \<open>
  Address \<open>p\<close> is allocated when entry \<open>p\<close> of the heap holds an object.  A freed address keeps the
  entry \<^const>\<open>None\<close> and is not handed out again, so that a use after free is visible as such.
\<close>

type_synonym heap = "flux_object option list"

definition hget :: "heap \<Rightarrow> ptr \<Rightarrow> flux_object option" where
  "hget h p = (if p < length h then h ! p else None)"

definition hput :: "heap \<Rightarrow> ptr \<Rightarrow> payload \<Rightarrow> heap option" where
  "hput h p pl = do { ob \<leftarrow> hget h p; Some (h[p := Some (ob\<lparr>payload := pl\<rparr>)]) }"

definition hpayload :: "heap \<Rightarrow> ptr \<Rightarrow> payload option" where
  "hpayload h p = map_option payload (hget h p)"

text \<open>The casts \<^verbatim>\<open>AS_STRING\<close>, \<^verbatim>\<open>AS_LIST\<close>, \dots\ followed by an access: they need an object of that kind.\<close>

definition get_string :: "heap \<Rightarrow> ptr \<Rightarrow> flux_string option" where
  "get_string h p = (case hpayload h p of Some (OBJ_STRING s) \<Rightarrow> Some s | _ \<Rightarrow> None)"

definition get_list :: "heap \<Rightarrow> ptr \<Rightarrow> flux_list option" where
  "get_list h p = (case hpayload h p of Some (OBJ_LIST l) \<Rightarrow> Some l | _ \<Rightarrow> None)"

definition get_dict :: "heap \<Rightarrow> ptr \<Rightarrow> flux_dict option" where
  "get_dict h p = (case hpayload h p of Some (OBJ_DICT d) \<Rightarrow> Some d | _ \<Rightarrow> None)"

definition get_function :: "heap \<Rightarrow> ptr \<Rightarrow> flux_function option" where
  "get_function h p = (case hpayload h p of Some (OBJ_FUNCTION f) \<Rightarrow> Some f | _ \<Rightarrow> None)"

definition get_native :: "heap \<Rightarrow> ptr \<Rightarrow> flux_native option" where
  "get_native h p = (case hpayload h p of Some (OBJ_NATIVE n) \<Rightarrow> Some n | _ \<Rightarrow> None)"

definition get_closure :: "heap \<Rightarrow> ptr \<Rightarrow> flux_closure option" where
  "get_closure h p = (case hpayload h p of Some (OBJ_CLOSURE c) \<Rightarrow> Some c | _ \<Rightarrow> None)"

definition get_upvalue :: "heap \<Rightarrow> ptr \<Rightarrow> flux_upvalue option" where
  "get_upvalue h p = (case hpayload h p of Some (OBJ_UPVALUE u) \<Rightarrow> Some u | _ \<Rightarrow> None)"

definition get_class :: "heap \<Rightarrow> ptr \<Rightarrow> flux_class option" where
  "get_class h p = (case hpayload h p of Some (OBJ_CLASS k) \<Rightarrow> Some k | _ \<Rightarrow> None)"

definition get_instance :: "heap \<Rightarrow> ptr \<Rightarrow> flux_instance option" where
  "get_instance h p = (case hpayload h p of Some (OBJ_INSTANCE i) \<Rightarrow> Some i | _ \<Rightarrow> None)"

definition get_bound_method :: "heap \<Rightarrow> ptr \<Rightarrow> flux_bound_method option" where
  "get_bound_method h p = (case hpayload h p of Some (OBJ_BOUND_METHOD b) \<Rightarrow> Some b | _ \<Rightarrow> None)"

definition get_coroutine :: "heap \<Rightarrow> ptr \<Rightarrow> flux_coroutine option" where
  "get_coroutine h p = (case hpayload h p of Some (OBJ_COROUTINE c) \<Rightarrow> Some c | _ \<Rightarrow> None)"

definition get_future :: "heap \<Rightarrow> ptr \<Rightarrow> flux_future option" where
  "get_future h p = (case hpayload h p of Some (OBJ_FUTURE f) \<Rightarrow> Some f | _ \<Rightarrow> None)"

lemmas heap_simps = hget_def hput_def hpayload_def
lemmas get_simps = get_string_def get_list_def get_dict_def get_function_def get_native_def
  get_closure_def get_upvalue_def get_class_def get_instance_def get_bound_method_def
  get_coroutine_def get_future_def

lemma hget_update: "hget (h[p := x]) q = (if p = q \<and> p < length h then x else hget h q)"
  by (auto simp: hget_def)

lemma hget_append: "hget (h @ [x]) q = (if q = length h then x else hget h q)"
  by (auto simp: hget_def nth_append)

lemma hget_Some_less: "hget h p = Some ob \<Longrightarrow> p < length h"
  by (auto simp: hget_def split: if_splits)

lemma hget_hput:
  "hput h p pl = Some h' \<Longrightarrow>
    hget h' q = (if p = q then map_option (\<lambda>ob. ob\<lparr>payload := pl\<rparr>) (hget h p) else hget h q)"
  by (auto simp: hput_def bind_Some_iff hget_update dest: hget_Some_less)

lemma hpayload_hput:
  "hput h p pl = Some h' \<Longrightarrow> hpayload h' q = (if p = q then Some pl else hpayload h q)"
  by (auto simp: hpayload_def hget_hput) (auto simp: hput_def bind_Some_iff)

lemma hput_length: "hput h p pl = Some h' \<Longrightarrow> length h' = length h"
  by (auto simp: hput_def bind_Some_iff)

lemma hput_iff: "(\<exists>h'. hput h p pl = Some h') \<longleftrightarrow> hget h p \<noteq> None"
  by (auto simp: hput_def bind_Some_iff)

text \<open>
  The type tests \<^verbatim>\<open>IS_STRING(v)\<close>, \<^verbatim>\<open>IS_LIST(v)\<close>, \dots\ read the tag of an object value, so the pointer
  must be live.  \<open>view\<close> is the object behind a value, \<open>Some None\<close> for an immediate value.
\<close>

fun view :: "heap \<Rightarrow> flux_value \<Rightarrow> payload option option" where
  "view h (VAL_OBJECT p) = map_option Some (hpayload h p)"
| "view h _ = Some None"

section \<open>String hashing (FNV-1a)\<close>

fun hash_loop :: "string \<Rightarrow> uint32 \<Rightarrow> uint32" where
  "hash_loop [] hash = hash"
| "hash_loop (c # cs) hash = hash_loop cs ((hash XOR of_char c) * 16777619)"

definition hash_string :: "string \<Rightarrow> uint32" where
  "hash_string key = hash_loop key 2166136261"

section \<open>Type names and truthiness\<close>

definition payload_type_name :: "heap \<Rightarrow> payload \<Rightarrow> string option" where
  "payload_type_name h pl =
     (case pl of
        OBJ_STRING _ \<Rightarrow> Some ''string''
      | OBJ_LIST _ \<Rightarrow> Some ''list''
      | OBJ_DICT _ \<Rightarrow> Some ''dict''
      | OBJ_FUNCTION _ \<Rightarrow> Some ''function''
      | OBJ_NATIVE _ \<Rightarrow> Some ''native''
      | OBJ_CLOSURE _ \<Rightarrow> Some ''closure''
      | OBJ_UPVALUE _ \<Rightarrow> Some ''upvalue''
      | OBJ_CLASS _ \<Rightarrow> Some ''class''
      | OBJ_INSTANCE inst \<Rightarrow> do {
          k \<leftarrow> get_class h (i_klass inst);
          Some (if k_is_enum k then ''enum'' else if k_is_struct k then ''struct'' else ''instance'')
        }
      | OBJ_BOUND_METHOD _ \<Rightarrow> Some ''bound_method''
      | OBJ_COROUTINE _ \<Rightarrow> Some ''coroutine''
      | OBJ_FUTURE _ \<Rightarrow> Some ''future'')"

fun value_type_name :: "heap \<Rightarrow> flux_value \<Rightarrow> string option" where
  "value_type_name h (VAL_INT _) = Some ''int''"
| "value_type_name h (VAL_FLOAT _) = Some ''float''"
| "value_type_name h (VAL_BOOL _) = Some ''bool''"
| "value_type_name h VAL_NULL = Some ''null''"
| "value_type_name h (VAL_OBJECT p) = Option.bind (hpayload h p) (payload_type_name h)"

definition object_is_truthy :: "heap \<Rightarrow> ptr \<Rightarrow> bool option" where
  "object_is_truthy h p =
     (case hpayload h p of
        None \<Rightarrow> None
      | Some (OBJ_STRING s) \<Rightarrow> Some (0 < str_length s)
      | Some (OBJ_LIST l) \<Rightarrow> Some (0 < va_count (elements l))
      | Some _ \<Rightarrow> Some True)"

text \<open>\<^verbatim>\<open>v.as.floating != 0.0\<close> holds for NaN.\<close>

fun value_is_truthy :: "heap \<Rightarrow> flux_value \<Rightarrow> bool option" where
  "value_is_truthy h VAL_NULL = Some False"
| "value_is_truthy h (VAL_BOOL b) = Some b"
| "value_is_truthy h (VAL_INT i) = Some (i \<noteq> 0)"
| "value_is_truthy h (VAL_FLOAT d) = Some (\<not> dbl_eq d 0)"
| "value_is_truthy h (VAL_OBJECT p) = object_is_truthy h p"

end
