(* ===== verification/Dicts.thy ===== *)
theory Dicts
  imports Objects
begin

text \<open>
  The open-addressed dictionary of \<^verbatim>\<open>src/object/object.c\<close>: \<open>dict_find_entry\<close>, \<open>dict_grow\<close>,
  \<open>dict_get\<close>, \<open>dict_set\<close>, \<open>dict_delete\<close>.  Keys are interned string pointers compared by address;
  \<open>kh\<close> reads the hash stored in a key.  The accounting of the byte counter by \<open>dict_grow\<close> is in
  theory \<open>VMState\<close>, where the machine is known.
\<close>

type_synonym key_hash = "ptr \<Rightarrow> uint32 option"

section \<open>Operations\<close>

definition empty_entry :: dict_entry where
  "empty_entry = \<lparr>de_key = None, de_value = VAL_NULL\<rparr>"

definition dict_new :: flux_dict where
  "dict_new = \<lparr>d_count = 0, d_capacity = 0, d_entries = []\<rparr>"

text \<open>
  The probe loop.  After \<open>capacity\<close> steps every slot has been seen and the tombstone slot is fixed,
  so a loop that has not stopped by then never stops: \<^const>\<open>None\<close>.
\<close>

fun dict_find_loop ::
  "nat \<Rightarrow> dict_entry list \<Rightarrow> nat \<Rightarrow> ptr \<Rightarrow> uint32 \<Rightarrow> nat option \<Rightarrow> nat option" where
  "dict_find_loop 0 entries cap key idx tombstone = None"
| "dict_find_loop (Suc n) entries cap key idx tombstone =
     (case nth_opt entries (unat idx) of
        None \<Rightarrow> None
      | Some e \<Rightarrow>
          (case de_key e of
             None \<Rightarrow>
               if value_is_null (de_value e)
               then Some (case tombstone of Some t \<Rightarrow> t | None \<Rightarrow> unat idx)
               else dict_find_loop n entries cap key (slot_mask (idx + 1) cap)
                      (case tombstone of None \<Rightarrow> Some (unat idx) | Some t \<Rightarrow> Some t)
           | Some k \<Rightarrow>
               if k = key then Some (unat idx)
               else dict_find_loop n entries cap key (slot_mask (idx + 1) cap) tombstone))"

definition dict_find_entry :: "key_hash \<Rightarrow> dict_entry list \<Rightarrow> nat \<Rightarrow> ptr \<Rightarrow> nat option" where
  "dict_find_entry kh entries cap key = do {
     hash \<leftarrow> kh key;
     dict_find_loop cap entries cap key (slot_mask hash cap) None
   }"

text \<open>The re-insertion loop of \<open>dict_grow\<close>: the new entries and the count of live keys.\<close>

fun dict_rehash ::
  "key_hash \<Rightarrow> nat \<Rightarrow> dict_entry list \<Rightarrow> dict_entry list \<times> nat \<Rightarrow> (dict_entry list \<times> nat) option" where
  "dict_rehash kh new_cap [] acc = Some acc"
| "dict_rehash kh new_cap (src # srcs) (new_en, count) =
     (case de_key src of
        None \<Rightarrow> dict_rehash kh new_cap srcs (new_en, count)
      | Some key \<Rightarrow>
          Option.bind (dict_find_entry kh new_en new_cap key) (\<lambda>dst.
            dict_rehash kh new_cap srcs
              (new_en[dst := \<lparr>de_key = Some key, de_value = de_value src\<rparr>], count + 1)))"

definition dict_grow :: "key_hash \<Rightarrow> flux_dict \<Rightarrow> flux_dict option" where
  "dict_grow kh dict =
     (let new_cap = flux_grow_capacity (d_capacity dict) in do {
        (new_en, count) \<leftarrow> dict_rehash kh new_cap (d_entries dict) (replicate new_cap empty_entry, 0);
        Some \<lparr>d_count = count, d_capacity = new_cap, d_entries = new_en\<rparr>
      })"

text \<open>The outer option is \<^const>\<open>None\<close> when the probe does not return; the inner one is the C result.\<close>

definition dict_get :: "key_hash \<Rightarrow> flux_dict \<Rightarrow> ptr \<Rightarrow> flux_value option option" where
  "dict_get kh dict key =
     (if d_count dict = 0 then Some None
      else do {
        i \<leftarrow> dict_find_entry kh (d_entries dict) (d_capacity dict) key;
        e \<leftarrow> nth_opt (d_entries dict) i;
        Some (if de_key e = None then None else Some (de_value e))
      })"

definition dict_must_grow :: "flux_dict \<Rightarrow> bool" where
  "dict_must_grow dict \<longleftrightarrow> d_capacity dict * 3 div 4 < d_count dict + 1"

definition dict_set :: "key_hash \<Rightarrow> flux_dict \<Rightarrow> ptr \<Rightarrow> flux_value \<Rightarrow> flux_dict option" where
  "dict_set kh dict key v = do {
     dict1 \<leftarrow> (if dict_must_grow dict then dict_grow kh dict else Some dict);
     i \<leftarrow> dict_find_entry kh (d_entries dict1) (d_capacity dict1) key;
     e \<leftarrow> nth_opt (d_entries dict1) i;
     Some (dict1\<lparr>d_count := (if de_key e = None \<and> value_is_null (de_value e)
                               then d_count dict1 + 1 else d_count dict1),
                  d_entries := (d_entries dict1)[i := \<lparr>de_key = Some key, de_value = v\<rparr>]\<rparr>)
   }"

definition dict_delete :: "key_hash \<Rightarrow> flux_dict \<Rightarrow> ptr \<Rightarrow> (bool \<times> flux_dict) option" where
  "dict_delete kh dict key =
     (if d_count dict = 0 then Some (False, dict)
      else do {
        i \<leftarrow> dict_find_entry kh (d_entries dict) (d_capacity dict) key;
        e \<leftarrow> nth_opt (d_entries dict) i;
        Some (if de_key e = None then (False, dict)
              else (True, dict\<lparr>d_entries :=
                (d_entries dict)[i := \<lparr>de_key = None, de_value = VAL_BOOL True\<rparr>]\<rparr>))
      })"

text \<open>The entries in slot order, as the loops over \<^verbatim>\<open>capacity\<close> visit them.\<close>

fun entries_alist :: "dict_entry list \<Rightarrow> (ptr \<times> flux_value) list" where
  "entries_alist [] = []"
| "entries_alist (e # es) =
     (case de_key e of None \<Rightarrow> entries_alist es | Some k \<Rightarrow> (k, de_value e) # entries_alist es)"

definition dict_alist :: "flux_dict \<Rightarrow> (ptr \<times> flux_value) list" where
  "dict_alist dict = entries_alist (d_entries dict)"

text \<open>What a dictionary means: a finite map from key pointers to values.\<close>

definition dict_map :: "flux_dict \<Rightarrow> ptr \<Rightarrow> flux_value option" where
  "dict_map dict = map_of (dict_alist dict)"

section \<open>The table invariant\<close>

definition entry_free :: "dict_entry \<Rightarrow> bool" where
  "entry_free e \<longleftrightarrow> de_key e = None \<and> de_value e = VAL_NULL"

definition used_count :: "dict_entry list \<Rightarrow> nat" where
  "used_count es = length (filter (\<lambda>e. \<not> entry_free e) es)"

text \<open>Every slot from the key's home up to offset \<open>n\<close> is in use.\<close>

definition path_used :: "dict_entry list \<Rightarrow> nat \<Rightarrow> nat \<Rightarrow> nat \<Rightarrow> bool" where
  "path_used es cap s n \<longleftrightarrow> (\<forall>m < n. \<not> entry_free (es ! ((s + m) mod cap)))"

definition table_ok :: "key_hash \<Rightarrow> dict_entry list \<Rightarrow> nat \<Rightarrow> bool" where
  "table_ok kh es cap \<longleftrightarrow>
     pow2_capacity cap \<and> length es = cap \<and>
     (\<forall>i < cap. \<forall>j < cap. \<forall>k. de_key (es ! i) = Some k \<longrightarrow> de_key (es ! j) = Some k \<longrightarrow> i = j) \<and>
     (\<forall>i < cap. \<forall>k. de_key (es ! i) = Some k \<longrightarrow>
        (\<exists>hash. kh k = Some hash \<and>
           (\<forall>n < cap. (unat hash + n) mod cap = i \<longrightarrow> path_used es cap (unat hash) n)))"

text \<open>
  The count includes the tombstones; the load factor keeps a quarter of the slots free, which is what
  makes the probe loop end.
\<close>

definition dict_ok :: "key_hash \<Rightarrow> flux_dict \<Rightarrow> bool" where
  "dict_ok kh dict \<longleftrightarrow>
     d_count dict = used_count (d_entries dict) \<and>
     4 * d_count dict \<le> 3 * d_capacity dict \<and>
     (if d_capacity dict = 0 then d_entries dict = []
      else table_ok kh (d_entries dict) (d_capacity dict))"

text \<open>Room for \<open>n\<close> more insertions before the capacity could exceed the range of a C \<^verbatim>\<open>int\<close>.\<close>

definition dict_room :: "nat \<Rightarrow> flux_dict \<Rightarrow> bool" where
  "dict_room n dict \<longleftrightarrow> d_count dict + n \<le> 2 ^ 29"

section \<open>Basic facts\<close>

lemma entries_alist_iff:
  "(k, v) \<in> set (entries_alist es) \<longleftrightarrow> (\<exists>i < length es. es ! i = \<lparr>de_key = Some k, de_value = v\<rparr>)"
proof (induction es)
  case (Cons e es)
  have "(\<exists>i < length (e # es). (e # es) ! i = \<lparr>de_key = Some k, de_value = v\<rparr>) \<longleftrightarrow>
      e = \<lparr>de_key = Some k, de_value = v\<rparr> \<or> (\<exists>i < length es. es ! i = \<lparr>de_key = Some k, de_value = v\<rparr>)"
    by (auto simp: less_Suc_eq_0_disj)
  then show ?case using Cons by (cases e) (auto split: option.splits)
qed simp

lemma entries_alist_keys:
  "k \<in> fst ` set (entries_alist es) \<longleftrightarrow> (\<exists>i < length es. de_key (es ! i) = Some k)"
proof -
  have "k \<in> fst ` set (entries_alist es) \<longleftrightarrow> (\<exists>v. (k, v) \<in> set (entries_alist es))" by force
  also have "\<dots> \<longleftrightarrow> (\<exists>i < length es. de_key (es ! i) = Some k)"
    unfolding entries_alist_iff
    by (metis dict_entry.select_convs(1) dict_entry.surjective old.unit.exhaust)
  finally show ?thesis .
qed

lemma table_ok_uniq:
  assumes "table_ok kh es cap" "i < cap" "j < cap" "de_key (es ! i) = Some k" "de_key (es ! j) = Some k"
  shows "i = j"
  using assms unfolding table_ok_def by blast

lemma table_ok_cap: "table_ok kh es cap \<Longrightarrow> pow2_capacity cap \<and> length es = cap"
  unfolding table_ok_def by blast

lemma table_ok_lookup:
  assumes "table_ok kh es cap" "i < cap" "de_key (es ! i) = Some k"
  shows "map_of (entries_alist es) k = Some (de_value (es ! i))"
proof -
  have len: "length es = cap" using table_ok_cap [OF assms(1)] by simp
  have "k \<in> fst ` set (entries_alist es)" using assms len by (auto simp: entries_alist_keys)
  then obtain v where v: "map_of (entries_alist es) k = Some v"
    by (metis map_of_eq_None_iff option.exhaust)
  then have "(k, v) \<in> set (entries_alist es)" by (rule map_of_SomeD)
  then obtain j where j: "j < cap" "es ! j = \<lparr>de_key = Some k, de_value = v\<rparr>"
    using len by (auto simp: entries_alist_iff)
  then have "j = i" using assms table_ok_uniq by fastforce
  with v j show ?thesis by simp
qed

lemma table_ok_path:
  assumes "table_ok kh es cap" "i < cap" "de_key (es ! i) = Some k" "kh k = Some hash"
    "n < cap" "(unat hash + n) mod cap = i"
  shows "path_used es cap (unat hash) n"
  using assms unfolding table_ok_def by (metis option.inject)

lemma table_ok_hash:
  assumes "table_ok kh es cap" "i < cap" "de_key (es ! i) = Some k"
  shows "kh k \<noteq> None"
  using assms unfolding table_ok_def by (metis option.distinct(1))

lemma map_of_entries_None:
  "map_of (entries_alist es) k = None \<longleftrightarrow> (\<forall>i < length es. de_key (es ! i) \<noteq> Some k)"
  by (auto simp: map_of_eq_None_iff entries_alist_keys)

lemma used_count_le: "used_count es \<le> length es"
  by (simp add: used_count_def)

lemma used_count_free:
  assumes "used_count es < length es"
  obtains i where "i < length es" "entry_free (es ! i)"
proof -
  have "\<exists>i < length es. entry_free (es ! i)"
  proof (rule ccontr)
    assume "\<not> (\<exists>i < length es. entry_free (es ! i))"
    then have "filter (\<lambda>e. \<not> entry_free e) es = es" by (auto simp: filter_id_conv in_set_conv_nth)
    with assms show False by (simp add: used_count_def)
  qed
  with that show ?thesis by blast
qed

lemma used_count_update:
  assumes "i < length es"
  shows "used_count (es[i := e]) =
    used_count es - (if entry_free (es ! i) then 0 else 1) + (if entry_free e then 0 else 1)"
  using assms
proof (induction es arbitrary: i)
  case (Cons a es)
  have pos: "0 < used_count es" if "j < length es" "\<not> entry_free (es ! j)" for j
    using that by (auto simp: used_count_def length_greater_0_conv filter_empty_conv)
  show ?case
    using Cons pos by (cases i) (auto simp: used_count_def)
qed simp

section \<open>The probe loop\<close>

lemma dict_find_loop_spec:
  assumes ok: "table_ok kh es cap" and free: "used_count es < cap" and key: "kh key = Some hash"
    and "o' \<le> cap" "unat idx = (unat hash + o') mod cap" "fuel = cap - o'"
    and "\<forall>m < o'. \<not> entry_free (es ! ((unat hash + m) mod cap)) \<and>
      de_key (es ! ((unat hash + m) mod cap)) \<noteq> Some key"
    and "tomb = None \<longrightarrow> (\<forall>m < o'. de_key (es ! ((unat hash + m) mod cap)) \<noteq> None)"
    and "\<And>t. tomb = Some t \<Longrightarrow> \<exists>m < o'. t = (unat hash + m) mod cap \<and> de_key (es ! t) = None"
  shows "\<exists>i < cap. dict_find_loop fuel es cap key idx tomb = Some i \<and>
    (de_key (es ! i) = Some key \<or>
     de_key (es ! i) = None \<and> (\<forall>j < cap. de_key (es ! j) \<noteq> Some key) \<and>
     (\<exists>m < cap. i = (unat hash + m) mod cap \<and> path_used es cap (unat hash) m))"
  using assms(4-)
proof (induction fuel arbitrary: o' idx tomb)
  case 0
  from free ok obtain i where i: "i < cap" "entry_free (es ! i)"
    by (metis table_ok_def used_count_free)
  have "0 < cap" using i by simp
  with i(1) obtain m where "m < cap" "(unat hash + m) mod cap = i" by (rule cyclic_reaches)
  with 0 i show ?case by auto
next
  case (Suc fuel)
  have cap: "pow2_capacity cap" "length es = cap" using table_ok_cap [OF ok] by auto
  then have cpos: "0 < cap" using pow2_capacity_pos by fastforce
  have o': "o' < cap" using Suc.prems(3) by simp
  let ?i = "(unat hash + o') mod cap"
  have i: "?i < cap" using cpos by simp
  have nth: "nth_opt es (unat idx) = Some (es ! ?i)" using Suc.prems(2) i cap by simp
  have fuel: "fuel = cap - Suc o'" and le: "Suc o' \<le> cap" using Suc.prems(3) o' by auto
  have next_idx: "unat (slot_mask (idx + 1) cap) = (unat hash + Suc o') mod cap"
    using slot_mask_Suc [OF cap(1), of idx] i Suc.prems(2) by (simp add: mod_Suc_eq)
  have step: "\<forall>m < Suc o'. \<not> entry_free (es ! ((unat hash + m) mod cap)) \<and>
      de_key (es ! ((unat hash + m) mod cap)) \<noteq> Some key"
    if "\<not> entry_free (es ! ?i)" "de_key (es ! ?i) \<noteq> Some key"
    using Suc.prems(4) that by (auto simp: less_Suc_eq)
  show ?case
  proof (cases "de_key (es ! ?i)")
    case (Some k)
    show ?thesis
    proof (cases "k = key")
      case True
      then have "dict_find_loop (Suc fuel) es cap key idx tomb = Some ?i"
        using Some nth Suc.prems(2) by (simp del: nth_opt_Some)
      then show ?thesis using Some True i by blast
    next
      case False
      have nf: "\<not> entry_free (es ! ?i)" using Some by (simp add: entry_free_def)
      have "dict_find_loop (Suc fuel) es cap key idx tomb =
          dict_find_loop fuel es cap key (slot_mask (idx + 1) cap) tomb"
        using nth Some False by (simp del: nth_opt_Some)
      note loop = this
      have t1: "tomb = None \<longrightarrow> (\<forall>m < Suc o'. de_key (es ! ((unat hash + m) mod cap)) \<noteq> None)"
        using Suc.prems(5) Some by (auto simp: less_Suc_eq)
      have t2: "\<exists>m < Suc o'. t = (unat hash + m) mod cap \<and> de_key (es ! t) = None"
        if "tomb = Some t" for t using Suc.prems(6) [OF that] less_SucI by blast
      have neq: "de_key (es ! ?i) \<noteq> Some key" using Some False by simp
      show ?thesis
        unfolding loop by (rule Suc.IH [OF le next_idx fuel step [OF nf neq] t1 t2])
    qed
  next
    case None
    show ?thesis
    proof (cases "de_value (es ! ?i) = VAL_NULL")
      case True
      then have free_i: "entry_free (es ! ?i)" using None by (simp add: entry_free_def)
      have absent: "de_key (es ! j) \<noteq> Some key" if j: "j < cap" for j
      proof
        assume k: "de_key (es ! j) = Some key"
        from j cpos obtain n where n: "n < cap" "(unat hash + n) mod cap = j"
          by (rule cyclic_reaches)
        have "path_used es cap (unat hash) n"
          by (rule table_ok_path [OF ok j k key n])
        then have "n \<le> o'" using free_i unfolding path_used_def by (meson not_le)
        then show False
          using Suc.prems(4) n k free_i by (cases "n = o'") (auto simp: entry_free_def)
      qed
      define i where "i = (case tomb of Some t \<Rightarrow> t | None \<Rightarrow> unat idx)"
      have res: "dict_find_loop (Suc fuel) es cap key idx tomb = Some i"
        using nth None True by (simp add: i_def del: nth_opt_Some)
      have i_cases: "(tomb = None \<and> i = ?i) \<or> tomb = Some i"
        using Suc.prems(2) by (cases tomb) (simp_all add: i_def)
      have used: "path_used es cap (unat hash) m" if "m \<le> o'" for m
        using Suc.prems(4) that by (auto simp: path_used_def)
      have "\<exists>m \<le> o'. i = (unat hash + m) mod cap \<and> de_key (es ! i) = None"
      proof (cases tomb)
        case None
        then show ?thesis using i_cases \<open>de_key (es ! ?i) = None\<close> by auto
      next
        case (Some t)
        then have "tomb = Some i" using i_cases by simp
        from Suc.prems(6) [OF this] show ?thesis using less_imp_le by blast
      qed
      then obtain m where m: "m \<le> o'" "i = (unat hash + m) mod cap" "de_key (es ! i) = None"
        by blast
      have "m < cap" "i < cap" using m o' cpos by auto
      then show ?thesis using res absent m used [OF m(1)] by blast
    next
      case False
      have nf: "\<not> entry_free (es ! ?i)" using False by (simp add: entry_free_def)
      let ?tomb = "(case tomb of None \<Rightarrow> Some (unat idx) | Some t \<Rightarrow> Some t)"
      have "dict_find_loop (Suc fuel) es cap key idx tomb =
          dict_find_loop fuel es cap key (slot_mask (idx + 1) cap) ?tomb"
        using nth None False by (simp del: nth_opt_Some)
      note loop = this
      have t2: "\<exists>m < Suc o'. t = (unat hash + m) mod cap \<and> de_key (es ! t) = None"
        if "?tomb = Some t" for t
      proof (cases tomb)
        case None
        then show ?thesis using that \<open>de_key (es ! ?i) = None\<close> Suc.prems(2) by auto
      next
        case (Some t')
        then have "t = t'" using that by simp
        then show ?thesis using Suc.prems(6) [OF Some] less_SucI by blast
      qed
      have t1: "?tomb = None \<longrightarrow> (\<forall>m < Suc o'. de_key (es ! ((unat hash + m) mod cap)) \<noteq> None)"
        by (simp split: option.splits)
      have neq: "de_key (es ! ?i) \<noteq> Some key" using None by simp
      show ?thesis
        unfolding loop by (rule Suc.IH [OF le next_idx fuel step [OF nf neq] t1 t2])
    qed
  qed
qed

lemma dict_find_entry_spec:
  assumes "table_ok kh es cap" "used_count es < cap" "kh key = Some hash"
  obtains i where "i < cap" "dict_find_entry kh es cap key = Some i"
    "de_key (es ! i) = Some key \<or>
     de_key (es ! i) = None \<and> (\<forall>j < cap. de_key (es ! j) \<noteq> Some key) \<and>
     (\<exists>m < cap. i = (unat hash + m) mod cap \<and> path_used es cap (unat hash) m)"
proof -
  have cap: "pow2_capacity cap" using table_ok_cap [OF assms(1)] by simp
  have "\<exists>i < cap. dict_find_loop cap es cap key (slot_mask hash cap) None = Some i \<and>
    (de_key (es ! i) = Some key \<or>
     de_key (es ! i) = None \<and> (\<forall>j < cap. de_key (es ! j) \<noteq> Some key) \<and>
     (\<exists>m < cap. i = (unat hash + m) mod cap \<and> path_used es cap (unat hash) m))"
    by (rule dict_find_loop_spec [where o' = 0, OF assms]) (simp_all add: slot_mask_mod [OF cap])
  with assms(3) that show ?thesis by (auto simp: dict_find_entry_def)
qed


section \<open>Storing into a slot\<close>

lemma path_used_update:
  assumes "path_used es cap s n" "0 < cap" "length es = cap" "\<not> entry_free e"
  shows "path_used (es[i := e]) cap s n"
  using assms unfolding path_used_def
  by (metis mod_less_divisor nth_list_update_eq nth_list_update_neq)

lemma table_ok_set:
  assumes ok: "table_ok kh es cap" and key: "kh key = Some hash" and i: "i < cap"
    and slot: "de_key (es ! i) = Some key \<or>
     de_key (es ! i) = None \<and> (\<forall>j < cap. de_key (es ! j) \<noteq> Some key) \<and>
     (\<exists>m < cap. i = (unat hash + m) mod cap \<and> path_used es cap (unat hash) m)"
  shows "table_ok kh (es[i := \<lparr>de_key = Some key, de_value = v\<rparr>]) cap" (is "table_ok kh ?es cap")
proof -
  have cap: "pow2_capacity cap" "length es = cap" "0 < cap"
    using table_ok_cap [OF ok] i by auto
  have nf: "\<not> entry_free \<lparr>de_key = Some key, de_value = v\<rparr>" by (simp add: entry_free_def)
  have uniq: "j = l" if "j < cap" "l < cap" "de_key (?es ! j) = Some k" "de_key (?es ! l) = Some k" for j l k
    using that slot i cap table_ok_uniq [OF ok] by (auto simp: nth_list_update split: if_splits)
  have path: "\<exists>hs. kh k = Some hs \<and> (\<forall>n < cap. (unat hs + n) mod cap = j \<longrightarrow> path_used ?es cap (unat hs) n)"
    if j: "j < cap" and k: "de_key (?es ! j) = Some k" for j k
  proof (cases "de_key (es ! j) = Some k")
    case True
    then obtain hs where "kh k = Some hs"
      "\<forall>n < cap. (unat hs + n) mod cap = j \<longrightarrow> path_used es cap (unat hs) n"
      using ok j unfolding table_ok_def by blast
    then show ?thesis using path_used_update [OF _ cap(3,2) nf] by blast
  next
    case False
    with j k cap i have "j = i" "k = key" by (auto simp: nth_list_update split: if_splits)
    with slot False obtain m where m: "m < cap" "i = (unat hash + m) mod cap"
      "path_used es cap (unat hash) m" by auto
    then have "n = m" if "n < cap" "(unat hash + n) mod cap = i" for n
      using that cyclic_unique by blast
    then show ?thesis
      using key \<open>j = i\<close> \<open>k = key\<close> m path_used_update [OF m(3) cap(3,2) nf] by blast
  qed
  show ?thesis unfolding table_ok_def using cap(1,2) uniq path by (intro conjI allI impI) (assumption | simp)+
qed

lemma entry_map_set:
  assumes ok: "table_ok kh es cap" and i: "i < cap"
    and ok': "table_ok kh (es[i := \<lparr>de_key = Some key, de_value = v\<rparr>]) cap"
    and slot: "de_key (es ! i) = Some key \<or> de_key (es ! i) = None"
  shows "map_of (entries_alist (es[i := \<lparr>de_key = Some key, de_value = v\<rparr>])) =
    (map_of (entries_alist es))(key \<mapsto> v)" (is "map_of (entries_alist ?es) = _")
proof
  fix k
  have len: "length es = cap" using table_ok_cap [OF ok] by simp
  show "map_of (entries_alist ?es) k = ((map_of (entries_alist es))(key \<mapsto> v)) k"
  proof (cases "k = key")
    case True
    then show ?thesis using table_ok_lookup [OF ok' i, of key] i len by simp
  next
    case False
    show ?thesis
    proof (cases "\<exists>j < cap. de_key (es ! j) = Some k")
      case True
      then obtain j where j: "j < cap" "de_key (es ! j) = Some k" by blast
      with slot False have "j \<noteq> i" by auto
      then show ?thesis
        using table_ok_lookup [OF ok j] table_ok_lookup [OF ok' j(1), of k] j False by simp
    next
      case none: False
      then have "map_of (entries_alist es) k = None"
        using len by (simp add: map_of_entries_None)
      moreover have "map_of (entries_alist ?es) k = None"
        using none False len i by (auto simp: map_of_entries_None nth_list_update)
      ultimately show ?thesis using False by simp
    qed
  qed
qed

section \<open>Growing\<close>

lemma replicate_empty:
  assumes "pow2_capacity cap"
  shows "table_ok kh (replicate cap empty_entry) cap" "used_count (replicate cap empty_entry) = 0"
    "map_of (entries_alist (replicate cap empty_entry)) = Map.empty"
proof -
  show "table_ok kh (replicate cap empty_entry) cap"
    using assms by (simp add: table_ok_def empty_entry_def)
  show "used_count (replicate cap empty_entry) = 0"
    by (simp add: used_count_def empty_entry_def entry_free_def)
  have "map_of (entries_alist (replicate cap empty_entry)) k = None" for k
    by (auto simp: map_of_entries_None empty_entry_def)
  then show "map_of (entries_alist (replicate cap empty_entry)) = Map.empty" by (intro ext)
qed

lemma dict_rehash_spec:
  assumes "table_ok kh new_en cap" "used_count new_en = count" "count + length (entries_alist srcs) < cap"
    and "\<forall>k \<in> fst ` set (entries_alist srcs). kh k \<noteq> None"
    and "distinct (map fst (entries_alist srcs))"
    and "\<forall>k \<in> fst ` set (entries_alist srcs). map_of (entries_alist new_en) k = None"
    and "\<forall>j < cap. de_key (new_en ! j) = None \<longrightarrow> entry_free (new_en ! j)"
  shows "\<exists>new'. dict_rehash kh cap srcs (new_en, count) = Some (new', count + length (entries_alist srcs)) \<and>
     table_ok kh new' cap \<and> used_count new' = count + length (entries_alist srcs) \<and>
     map_of (entries_alist new') = map_of (entries_alist new_en) ++ map_of (entries_alist srcs)"
  using assms
proof (induction srcs arbitrary: new_en count)
  case (Cons src srcs)
  show ?case
  proof (cases "de_key src")
    case None
    then show ?thesis using Cons by simp
  next
    case (Some key)
    obtain hash where hash: "kh key = Some hash" using Cons.prems(4) Some by auto
    have free: "used_count new_en < cap" using Cons.prems(2,3) by simp
    obtain i where i: "i < cap" "dict_find_entry kh new_en cap key = Some i"
      and slot: "de_key (new_en ! i) = Some key \<or>
       de_key (new_en ! i) = None \<and> (\<forall>j < cap. de_key (new_en ! j) \<noteq> Some key) \<and>
       (\<exists>m < cap. i = (unat hash + m) mod cap \<and> path_used new_en cap (unat hash) m)"
      by (rule dict_find_entry_spec [OF Cons.prems(1) free hash])
    have len: "length new_en = cap" using table_ok_cap [OF Cons.prems(1)] by simp
    have absent: "de_key (new_en ! i) \<noteq> Some key"
      using Cons.prems(6) Some i len by (auto simp: map_of_entries_None)
    have was_free: "entry_free (new_en ! i)"
      using Cons.prems(7) slot absent i by auto
    let ?e = "\<lparr>de_key = Some key, de_value = de_value src\<rparr>"
    let ?new = "new_en[i := ?e]"
    have ok': "table_ok kh ?new cap" by (rule table_ok_set [OF Cons.prems(1) hash i(1) slot])
    have map': "map_of (entries_alist ?new) = (map_of (entries_alist new_en))(key \<mapsto> de_value src)"
      using slot by (intro entry_map_set [OF Cons.prems(1) i(1) ok']) auto
    have used': "used_count ?new = count + 1"
      using used_count_update [of i new_en ?e] i len Cons.prems(2) was_free
      by (simp add: entry_free_def)
    have cons: "entries_alist (src # srcs) = (key, de_value src) # entries_alist srcs"
      using Some by simp
    have "\<exists>new'. dict_rehash kh cap srcs (?new, count + 1) =
        Some (new', count + 1 + length (entries_alist srcs)) \<and>
      table_ok kh new' cap \<and> used_count new' = count + 1 + length (entries_alist srcs) \<and>
      map_of (entries_alist new') = map_of (entries_alist ?new) ++ map_of (entries_alist srcs)"
    proof (rule Cons.IH [OF ok' used'])
      show "\<forall>k \<in> fst ` set (entries_alist srcs). map_of (entries_alist ?new) k = None"
        using Cons.prems(5,6) unfolding map' cons by auto
      show "\<forall>j < cap. de_key (?new ! j) = None \<longrightarrow> entry_free (?new ! j)"
        using Cons.prems(7) len i by (auto simp: nth_list_update)
    qed (use Cons.prems(3-5) in \<open>auto simp: cons simp del: entries_alist.simps\<close>)
    then obtain new' where new': "dict_rehash kh cap srcs (?new, count + 1) =
        Some (new', count + 1 + length (entries_alist srcs))" "table_ok kh new' cap"
      "used_count new' = count + 1 + length (entries_alist srcs)"
      "map_of (entries_alist new') = map_of (entries_alist ?new) ++ map_of (entries_alist srcs)"
      by blast
    have "key \<notin> dom (map_of (entries_alist srcs))"
      using Cons.prems(5) unfolding cons by (auto simp: dom_map_of_conv_image_fst)
    then have "map_of (entries_alist new') =
        map_of (entries_alist new_en) ++ map_of (entries_alist (src # srcs))"
      unfolding new'(4) map' cons by (simp add: map_add_upd_left)
    moreover have "dict_rehash kh cap (src # srcs) (new_en, count) =
        Some (new', count + length (entries_alist (src # srcs)))"
      using new'(1) Some i unfolding cons by simp
    moreover have "used_count new' = count + length (entries_alist (src # srcs))"
      using new'(3) unfolding cons by simp
    ultimately show ?thesis using new'(2) by blast
  qed
qed simp

lemma table_ok_distinct:
  assumes "table_ok kh es cap"
  shows "distinct (map fst (entries_alist es))"
proof -
  have "\<forall>i < length es. \<forall>j < length es. \<forall>k. de_key (es ! i) = Some k \<longrightarrow> de_key (es ! j) = Some k \<longrightarrow> i = j"
    using table_ok_uniq [OF assms] table_ok_cap [OF assms] by blast
  then show ?thesis
  proof (induction es)
    case (Cons e es)
    have inj: "\<forall>i < length es. \<forall>j < length es. \<forall>k. de_key (es ! i) = Some k \<longrightarrow> de_key (es ! j) = Some k \<longrightarrow> i = j"
      using Cons.prems by (metis Suc_inject Suc_less_eq length_Cons nth_Cons_Suc)
    have "\<forall>j < length es. de_key (es ! j) \<noteq> Some k" if "de_key e = Some k" for k
      using Cons.prems that
      by (metis Suc_less_eq length_Cons nat.distinct(1) nth_Cons_0 nth_Cons_Suc zero_less_Suc)
    then show ?case
      using Cons.IH [OF inj] by (auto simp: entries_alist_keys split: option.splits)
  qed simp
qed

lemma length_entries_alist: "length (entries_alist es) \<le> used_count es"
  by (induction es) (auto simp: used_count_def entry_free_def split: option.splits)

lemma dict_ok_parts:
  assumes "dict_ok kh d" "d_capacity d \<noteq> 0"
  shows "table_ok kh (d_entries d) (d_capacity d)" "used_count (d_entries d) < d_capacity d"
    "d_count d = used_count (d_entries d)"
  using assms by (auto simp: dict_ok_def)

lemma dict_ok_keys:
  assumes "dict_ok kh d" "dict_map d k = Some v"
  shows "kh k \<noteq> None"
proof -
  have "k \<in> fst ` set (entries_alist (d_entries d))"
    using assms(2) by (force simp: dict_map_def dict_alist_def dest: map_of_SomeD)
  then obtain i where "i < length (d_entries d)" "de_key (d_entries d ! i) = Some k"
    by (auto simp: entries_alist_keys)
  moreover from this have "table_ok kh (d_entries d) (d_capacity d)"
    using assms(1) by (auto simp: dict_ok_def split: if_splits)
  ultimately show ?thesis
    using table_ok_hash table_ok_cap by metis
qed

lemma dict_grow_spec:
  assumes ok: "dict_ok kh d" and room: "dict_room 1 d" and grow: "dict_must_grow d"
  shows "\<exists>d'. dict_grow kh d = Some d' \<and> dict_ok kh d' \<and> dict_map d' = dict_map d \<and>
    d_count d' \<le> d_count d \<and> \<not> dict_must_grow d' \<and> d_capacity d' = flux_grow_capacity (d_capacity d)"
proof -
  let ?cap = "flux_grow_capacity (d_capacity d)"
  have cap_lt: "d_capacity d < 2 ^ 30"
    using room grow by (auto simp: dict_room_def dict_must_grow_def)
  have cap_ok: "d_capacity d = 0 \<or> pow2_capacity (d_capacity d)"
    using ok table_ok_cap by (auto simp: dict_ok_def split: if_splits)
  then have cap: "pow2_capacity ?cap" using cap_lt by (rule pow2_capacity_grow)
  have len: "length (entries_alist (d_entries d)) \<le> d_count d"
    using length_entries_alist ok by (auto simp: dict_ok_def)
  have count: "4 * d_count d \<le> 3 * d_capacity d" using ok by (simp add: dict_ok_def)
  have "d_capacity d = 0 \<or> 8 \<le> d_capacity d" using cap_ok pow2_capacity_pos by blast
  then have grow_cap: "2 * d_capacity d \<le> ?cap" "8 \<le> ?cap"
    by (auto simp: flux_grow_capacity_def flux_initial_capacity_def)
  have small: "length (entries_alist (d_entries d)) < ?cap" using len count grow_cap by linarith
  have keys: "kh k \<noteq> None" if "k \<in> fst ` set (entries_alist (d_entries d))" for k
  proof -
    from that obtain v where "dict_map d k = Some v"
      unfolding dict_map_def dict_alist_def by (metis map_of_eq_None_iff option.exhaust)
    with ok show ?thesis by (rule dict_ok_keys)
  qed
  have dist: "distinct (map fst (entries_alist (d_entries d)))"
    using ok table_ok_distinct by (auto simp: dict_ok_def split: if_splits)
  have "\<exists>new'. dict_rehash kh ?cap (d_entries d) (replicate ?cap empty_entry, 0) =
      Some (new', 0 + length (entries_alist (d_entries d))) \<and>
    table_ok kh new' ?cap \<and> used_count new' = 0 + length (entries_alist (d_entries d)) \<and>
    map_of (entries_alist new') = map_of (entries_alist (replicate ?cap empty_entry)) ++
      map_of (entries_alist (d_entries d))"
    by (rule dict_rehash_spec [OF replicate_empty(1,2) [OF cap]])
      (use keys dist small replicate_empty(3) [OF cap] in
        \<open>auto simp: entry_free_def simp flip: empty_entry_def, auto simp: empty_entry_def\<close>)
  then obtain new' where new': "dict_rehash kh ?cap (d_entries d) (replicate ?cap empty_entry, 0) =
      Some (new', length (entries_alist (d_entries d)))"
    "table_ok kh new' ?cap" "used_count new' = length (entries_alist (d_entries d))"
    "map_of (entries_alist new') = map_of (entries_alist (d_entries d))"
    by (auto simp: replicate_empty(3) [OF cap])
  let ?d = "\<lparr>d_count = length (entries_alist (d_entries d)), d_capacity = ?cap, d_entries = new'\<rparr>"
  have "dict_grow kh d = Some ?d" using new'(1) by (simp add: dict_grow_def Let_def)
  moreover have "dict_ok kh ?d"
    using new' len count grow_cap by (auto simp: dict_ok_def)
  moreover have "\<not> dict_must_grow ?d"
  proof -
    have "d_count d + 1 \<le> ?cap * 3 div 4" using count grow_cap by linarith
    then show ?thesis using len by (simp add: dict_must_grow_def)
  qed
  ultimately show ?thesis
    using new' len by (auto simp: dict_map_def dict_alist_def)
qed

section \<open>The operations against the map\<close>

lemma dict_new_ok: "dict_ok kh dict_new" "dict_map dict_new = Map.empty" "dict_room (2 ^ 29) dict_new"
  by (simp_all add: dict_ok_def dict_new_def used_count_def dict_map_def dict_alist_def dict_room_def)

lemma dict_get_spec:
  assumes ok: "dict_ok kh d" and key: "kh key \<noteq> None"
  shows "dict_get kh d key = Some (dict_map d key)"
proof (cases "d_count d = 0")
  case True
  have "dict_map d key = None"
  proof -
    have "length (entries_alist (d_entries d)) = 0"
      using True ok length_entries_alist [of "d_entries d"] by (simp add: dict_ok_def)
    then show ?thesis by (simp add: dict_map_def dict_alist_def)
  qed
  with True show ?thesis by (simp add: dict_get_def)
next
  case False
  then have cap: "d_capacity d \<noteq> 0" using ok by (auto simp: dict_ok_def)
  note parts = dict_ok_parts [OF ok cap]
  obtain hash where hash: "kh key = Some hash" using key by blast
  obtain i where i: "i < d_capacity d" "dict_find_entry kh (d_entries d) (d_capacity d) key = Some i"
    and slot: "de_key (d_entries d ! i) = Some key \<or>
     de_key (d_entries d ! i) = None \<and> (\<forall>j < d_capacity d. de_key (d_entries d ! j) \<noteq> Some key) \<and>
     (\<exists>m < d_capacity d. i = (unat hash + m) mod d_capacity d \<and>
        path_used (d_entries d) (d_capacity d) (unat hash) m)"
    by (rule dict_find_entry_spec [OF parts(1,2) hash])
  have len: "length (d_entries d) = d_capacity d" using table_ok_cap [OF parts(1)] by simp
  have "dict_map d key = (if de_key (d_entries d ! i) = None then None
      else Some (de_value (d_entries d ! i)))"
  proof (cases "de_key (d_entries d ! i) = Some key")
    case True
    then show ?thesis
      using table_ok_lookup [OF parts(1) i(1) True] by (simp add: dict_map_def dict_alist_def)
  next
    case False
    with slot have "dict_map d key = None"
      using len by (auto simp: dict_map_def dict_alist_def map_of_entries_None)
    with slot False show ?thesis by simp
  qed
  then show ?thesis
    using False i len by (simp add: dict_get_def nth_opt_def)
qed

lemma dict_set_spec:
  assumes ok: "dict_ok kh d" and room: "dict_room (Suc n) d" and key: "kh key \<noteq> None"
  shows "\<exists>d'. dict_set kh d key v = Some d' \<and> dict_ok kh d' \<and> dict_room n d' \<and>
    dict_map d' = (dict_map d)(key \<mapsto> v)"
proof -
  have room1: "dict_room 1 d" using room by (simp add: dict_room_def)
  obtain d1 where d1: "(if dict_must_grow d then dict_grow kh d else Some d) = Some d1"
    and ok1: "dict_ok kh d1" and map1: "dict_map d1 = dict_map d"
    and count1: "d_count d1 \<le> d_count d" and no_grow: "\<not> dict_must_grow d1"
    using dict_grow_spec [OF ok room1] ok by (cases "dict_must_grow d") auto
  have cap: "d_capacity d1 \<noteq> 0" using no_grow by (auto simp: dict_must_grow_def)
  note parts = dict_ok_parts [OF ok1 cap]
  obtain hash where hash: "kh key = Some hash" using key by blast
  obtain i where i: "i < d_capacity d1" "dict_find_entry kh (d_entries d1) (d_capacity d1) key = Some i"
    and slot: "de_key (d_entries d1 ! i) = Some key \<or>
     de_key (d_entries d1 ! i) = None \<and> (\<forall>j < d_capacity d1. de_key (d_entries d1 ! j) \<noteq> Some key) \<and>
     (\<exists>m < d_capacity d1. i = (unat hash + m) mod d_capacity d1 \<and>
        path_used (d_entries d1) (d_capacity d1) (unat hash) m)"
    by (rule dict_find_entry_spec [OF parts(1,2) hash])
  have len: "length (d_entries d1) = d_capacity d1" using table_ok_cap [OF parts(1)] by simp
  let ?e = "\<lparr>de_key = Some key, de_value = v\<rparr>"
  let ?free = "entry_free (d_entries d1 ! i)"
  let ?es = "(d_entries d1)[i := ?e]"
  let ?d = "d1\<lparr>d_count := (if ?free then d_count d1 + 1 else d_count d1), d_entries := ?es\<rparr>"
  have set: "dict_set kh d key v = Some ?d"
    using d1 i len by (simp add: dict_set_def nth_opt_def entry_free_def)
  have ok': "table_ok kh ?es (d_capacity d1)" by (rule table_ok_set [OF parts(1) hash i(1) slot])
  have pos: "0 < used_count (d_entries d1)" if "\<not> ?free"
    using that i len by (auto simp: used_count_def length_greater_0_conv filter_empty_conv)
  have used: "used_count ?es = d_count ?d"
    using used_count_update [of i "d_entries d1" ?e] i len parts(3) pos
    by (auto simp: entry_free_def)
  have "4 * d_count ?d \<le> 3 * d_capacity d1"
    using no_grow ok1 by (auto simp: dict_must_grow_def dict_ok_def)
  then have "dict_ok kh ?d" using used ok' cap by (simp add: dict_ok_def)
  moreover have "dict_room n ?d" using room count1 by (auto simp: dict_room_def)
  moreover have "dict_map ?d = (dict_map d)(key \<mapsto> v)"
    using entry_map_set [OF parts(1) i(1) ok'] slot map1 by (auto simp: dict_map_def dict_alist_def)
  ultimately show ?thesis using set by blast
qed

lemma table_ok_tombstone:
  assumes ok: "table_ok kh es cap" and i: "i < cap" "de_key (es ! i) \<noteq> None"
  shows "table_ok kh (es[i := \<lparr>de_key = None, de_value = VAL_BOOL True\<rparr>]) cap"
    (is "table_ok kh ?es cap")
proof -
  have cap: "pow2_capacity cap" "length es = cap" "0 < cap" using table_ok_cap [OF ok] i by auto
  have nf: "\<not> entry_free \<lparr>de_key = None, de_value = VAL_BOOL True\<rparr>" by (simp add: entry_free_def)
  have old: "de_key (es ! j) = Some k" if "j < cap" "de_key (?es ! j) = Some k" for j k
    using that cap i by (auto simp: nth_list_update split: if_splits)
  have "\<exists>hs. kh k = Some hs \<and> (\<forall>n < cap. (unat hs + n) mod cap = j \<longrightarrow> path_used ?es cap (unat hs) n)"
    if "j < cap" "de_key (?es ! j) = Some k" for j k
  proof -
    from ok that(1) old [OF that] obtain hs where "kh k = Some hs"
      "\<forall>n < cap. (unat hs + n) mod cap = j \<longrightarrow> path_used es cap (unat hs) n"
      unfolding table_ok_def by blast
    then show ?thesis using path_used_update [OF _ cap(3,2) nf] by blast
  qed
  moreover have "j = l" if "j < cap" "l < cap" "de_key (?es ! j) = Some k" "de_key (?es ! l) = Some k" for j l k
    using table_ok_uniq [OF ok that(1,2) old [OF that(1,3)] old [OF that(2,4)]] .
  ultimately show ?thesis
    unfolding table_ok_def using cap(1,2) by (intro conjI allI impI) (assumption | simp | blast)+
qed

lemma dict_delete_spec:
  assumes ok: "dict_ok kh d" and key: "kh key \<noteq> None"
  shows "\<exists>d'. dict_delete kh d key = Some (dict_map d key \<noteq> None, d') \<and> dict_ok kh d' \<and>
    dict_map d' = (dict_map d)(key := None) \<and> d_count d' = d_count d"
proof (cases "d_count d = 0")
  case True
  then have "dict_map d key = None"
    using dict_get_spec [OF ok key] by (simp add: dict_get_def)
  with True ok show ?thesis by (auto simp: dict_delete_def fun_upd_idem)
next
  case False
  then have cap: "d_capacity d \<noteq> 0" using ok by (auto simp: dict_ok_def)
  note parts = dict_ok_parts [OF ok cap]
  obtain hash where hash: "kh key = Some hash" using key by blast
  obtain i where i: "i < d_capacity d" "dict_find_entry kh (d_entries d) (d_capacity d) key = Some i"
    and slot: "de_key (d_entries d ! i) = Some key \<or>
     de_key (d_entries d ! i) = None \<and> (\<forall>j < d_capacity d. de_key (d_entries d ! j) \<noteq> Some key) \<and>
     (\<exists>m < d_capacity d. i = (unat hash + m) mod d_capacity d \<and>
        path_used (d_entries d) (d_capacity d) (unat hash) m)"
    by (rule dict_find_entry_spec [OF parts(1,2) hash])
  have len: "length (d_entries d) = d_capacity d" using table_ok_cap [OF parts(1)] by simp
  show ?thesis
  proof (cases "de_key (d_entries d ! i) = Some key")
    case False
    with slot have none: "de_key (d_entries d ! i) = None" "dict_map d key = None"
      using len by (auto simp: dict_map_def dict_alist_def map_of_entries_None)
    then show ?thesis
      using \<open>d_count d \<noteq> 0\<close> i len ok by (simp add: dict_delete_def nth_opt_def fun_upd_idem)
  next
    case True
    let ?t = "\<lparr>de_key = None, de_value = VAL_BOOL True\<rparr>"
    let ?es = "(d_entries d)[i := ?t]"
    let ?d = "d\<lparr>d_entries := ?es\<rparr>"
    have found: "dict_map d key \<noteq> None"
      using table_ok_lookup [OF parts(1) i(1) True] by (simp add: dict_map_def dict_alist_def)
    have res: "dict_delete kh d key = Some (True, ?d)"
      using \<open>d_count d \<noteq> 0\<close> i len True by (simp add: dict_delete_def nth_opt_def)
    have ok': "table_ok kh ?es (d_capacity d)"
      by (rule table_ok_tombstone [OF parts(1) i(1)]) (simp add: True)
    have "0 < used_count (d_entries d)" using \<open>d_count d \<noteq> 0\<close> parts(3) by simp
    then have used: "used_count ?es = used_count (d_entries d)"
      using used_count_update [of i "d_entries d" ?t] i len True by (simp add: entry_free_def)
    then have "dict_ok kh ?d" using ok ok' cap by (simp add: dict_ok_def)
    moreover have "dict_map ?d = (dict_map d)(key := None)"
    proof
      fix k
      show "dict_map ?d k = ((dict_map d)(key := None)) k"
      proof (cases "\<exists>j < d_capacity d. j \<noteq> i \<and> de_key (d_entries d ! j) = Some k")
        case True
        then obtain j where j: "j < d_capacity d" "j \<noteq> i" "de_key (d_entries d ! j) = Some k" by blast
        then have "k \<noteq> key"
          using \<open>de_key (d_entries d ! i) = Some key\<close> i table_ok_uniq [OF parts(1)] by blast
        then show ?thesis
          using table_ok_lookup [OF parts(1) j(1,3)] table_ok_lookup [OF ok' j(1), of k] j
          by (simp add: dict_map_def dict_alist_def)
      next
        case none: False
        have "dict_map ?d k = None"
          using none len i by (auto simp: dict_map_def dict_alist_def map_of_entries_None nth_list_update)
        moreover have "k = key \<or> dict_map d k = None"
          using none len True by (auto simp: dict_map_def dict_alist_def map_of_entries_None)
        ultimately show ?thesis by auto
      qed
    qed
    ultimately show ?thesis using res found by auto
  qed
qed

end
