(* ===== verification/StringTable.thy ===== *)
theory StringTable
  imports Objects
begin

text \<open>
  The string intern table of \<^verbatim>\<open>src/object/object.c\<close>: an open-addressed hash set of string objects with
  the tombstone \<^verbatim>\<open>(FluxString *)1\<close>.  The table does not keep its strings alive; the sweep removes a
  string from it before freeing the object.
\<close>

datatype st_slot = StNull | StTomb | StString ptr

record string_table =
  st_data :: "st_slot list"
  st_count :: nat
  st_capacity :: nat

definition string_table_new :: string_table where
  "string_table_new = \<lparr>st_data = [], st_count = 0, st_capacity = 0\<rparr>"

section \<open>Operations\<close>

fun string_table_find_loop ::
  "nat \<Rightarrow> heap \<Rightarrow> st_slot list \<Rightarrow> nat \<Rightarrow> string \<Rightarrow> uint32 \<Rightarrow> uint32 \<Rightarrow> ptr option option" where
  "string_table_find_loop 0 h data cap chars hash idx = None"
| "string_table_find_loop (Suc n) h data cap chars hash idx =
     (case nth_opt data (unat idx) of
        None \<Rightarrow> None
      | Some StNull \<Rightarrow> Some None
      | Some StTomb \<Rightarrow> string_table_find_loop n h data cap chars hash (slot_mask (idx + 1) cap)
      | Some (StString p) \<Rightarrow>
          (case get_string h p of
             None \<Rightarrow> None
           | Some s \<Rightarrow>
               if str_length s = length chars \<and> str_hash s = hash \<and>
                  take (length chars) (str_chars s) = chars
               then Some (Some p)
               else string_table_find_loop n h data cap chars hash (slot_mask (idx + 1) cap)))"

definition string_table_find :: "heap \<Rightarrow> string_table \<Rightarrow> string \<Rightarrow> uint32 \<Rightarrow> ptr option option" where
  "string_table_find h t chars hash =
     (if st_capacity t = 0 then Some None
      else string_table_find_loop (st_capacity t) h (st_data t) (st_capacity t) chars hash
             (slot_mask hash (st_capacity t)))"

fun string_table_rehash ::
  "heap \<Rightarrow> nat \<Rightarrow> st_slot list \<Rightarrow> st_slot list \<times> nat \<Rightarrow> (st_slot list \<times> nat) option" where
  "string_table_rehash h new_cap [] acc = Some acc"
| "string_table_rehash h new_cap (StString p # data) (new_data, new_count) =
     Option.bind (get_string h p) (\<lambda>s.
     Option.bind (probe_scan new_cap (\<lambda>i. new_data ! i = StNull) new_cap (slot_mask (str_hash s) new_cap)) (\<lambda>idx.
       string_table_rehash h new_cap data (new_data[idx := StString p], new_count + 1)))"
| "string_table_rehash h new_cap (_ # data) acc = string_table_rehash h new_cap data acc"

definition string_table_grow :: "heap \<Rightarrow> string_table \<Rightarrow> string_table option" where
  "string_table_grow h t =
     (let new_cap = flux_grow_capacity (st_capacity t) in do {
        (new_data, new_count) \<leftarrow> string_table_rehash h new_cap (st_data t) (replicate new_cap StNull, 0);
        Some \<lparr>st_data = new_data, st_count = new_count, st_capacity = new_cap\<rparr>
      })"

definition string_table_must_grow :: "string_table \<Rightarrow> bool" where
  "string_table_must_grow t \<longleftrightarrow> st_capacity t * 3 div 4 < st_count t + 1"

text \<open>The test multiplies the capacity by 3 in \<^verbatim>\<open>int\<close>, which must not overflow.\<close>

definition string_table_set :: "heap \<Rightarrow> string_table \<Rightarrow> ptr \<Rightarrow> string_table option" where
  "string_table_set h t p = (if 0x7FFFFFFF < int (st_capacity t) * 3 then None else do {
     t1 \<leftarrow> (if string_table_must_grow t then string_table_grow h t else Some t);
     s \<leftarrow> get_string h p;
     idx \<leftarrow> probe_scan (st_capacity t1) (\<lambda>i. st_data t1 ! i = StNull \<or> st_data t1 ! i = StTomb)
              (st_capacity t1) (slot_mask (str_hash s) (st_capacity t1));
     Some (t1\<lparr>st_count := (if st_data t1 ! idx = StNull then st_count t1 + 1 else st_count t1),
              st_data := (st_data t1)[idx := StString p]\<rparr>)
   })"

definition string_table_remove :: "heap \<Rightarrow> string_table \<Rightarrow> ptr \<Rightarrow> string_table option" where
  "string_table_remove h t p =
     (if st_capacity t = 0 then Some t
      else do {
        s \<leftarrow> get_string h p;
        idx \<leftarrow> probe_scan (st_capacity t) (\<lambda>i. st_data t ! i = StNull \<or> st_data t ! i = StString p)
                 (st_capacity t) (slot_mask (str_hash s) (st_capacity t));
        Some (if st_data t ! idx = StNull then t else t\<lparr>st_data := (st_data t)[idx := StTomb]\<rparr>)
      })"

section \<open>The table invariant\<close>

definition st_live :: "string_table \<Rightarrow> ptr set" where
  "st_live t = {p. StString p \<in> set (st_data t)}"

definition st_used :: "st_slot list \<Rightarrow> nat" where
  "st_used data = length (filter (\<lambda>s. s \<noteq> StNull) data)"

text \<open>A string object that carries its own length and hash.\<close>

definition string_ok :: "heap \<Rightarrow> ptr \<Rightarrow> bool" where
  "string_ok h p \<longleftrightarrow>
     (\<exists>s. get_string h p = Some s \<and> str_length s = length (str_chars s) \<and>
          str_hash s = hash_string (str_chars s))"

definition chars_of :: "heap \<Rightarrow> ptr \<Rightarrow> string" where
  "chars_of h p = (case get_string h p of Some s \<Rightarrow> str_chars s | None \<Rightarrow> [])"

definition hash_at :: "heap \<Rightarrow> ptr \<Rightarrow> nat" where
  "hash_at h p = unat (hash_string (chars_of h p))"

definition st_path :: "st_slot list \<Rightarrow> nat \<Rightarrow> nat \<Rightarrow> nat \<Rightarrow> bool" where
  "st_path data cap s n \<longleftrightarrow> (\<forall>m < n. data ! ((s + m) mod cap) \<noteq> StNull)"

definition data_ok :: "heap \<Rightarrow> st_slot list \<Rightarrow> nat \<Rightarrow> bool" where
  "data_ok h data cap \<longleftrightarrow>
     pow2_capacity cap \<and> length data = cap \<and>
     (\<forall>i < cap. \<forall>p. data ! i = StString p \<longrightarrow> string_ok h p \<and>
        (\<forall>n < cap. (hash_at h p + n) mod cap = i \<longrightarrow> st_path data cap (hash_at h p) n)) \<and>
     (\<forall>i < cap. \<forall>j < cap. \<forall>p q. data ! i = StString p \<longrightarrow> data ! j = StString q \<longrightarrow>
        chars_of h p = chars_of h q \<longrightarrow> i = j)"

definition intern_ok :: "heap \<Rightarrow> string_table \<Rightarrow> bool" where
  "intern_ok h t \<longleftrightarrow>
     st_count t = st_used (st_data t) \<and> 4 * st_count t \<le> 3 * st_capacity t \<and>
     (if st_capacity t = 0 then st_data t = [] else data_ok h (st_data t) (st_capacity t))"

definition st_room :: "nat \<Rightarrow> string_table \<Rightarrow> bool" where
  "st_room n t \<longleftrightarrow> st_count t + n \<le> 2 ^ 28 \<and> st_capacity t \<le> 2 ^ 29"

section \<open>Facts about the invariant\<close>

lemma data_ok_cap: "data_ok h data cap \<Longrightarrow> pow2_capacity cap \<and> length data = cap \<and> 0 < cap"
proof -
  assume "data_ok h data cap"
  then have "pow2_capacity cap" "length data = cap" unfolding data_ok_def by blast+
  then show ?thesis using pow2_capacity_pos [of cap] by auto
qed

lemma data_ok_string: "data_ok h data cap \<Longrightarrow> i < cap \<Longrightarrow> data ! i = StString p \<Longrightarrow> string_ok h p"
  unfolding data_ok_def by blast

lemma data_ok_path:
  "data_ok h data cap \<Longrightarrow> i < cap \<Longrightarrow> data ! i = StString p \<Longrightarrow> n < cap \<Longrightarrow>
    (hash_at h p + n) mod cap = i \<Longrightarrow> st_path data cap (hash_at h p) n"
  unfolding data_ok_def by blast

lemma data_ok_uniq:
  "data_ok h data cap \<Longrightarrow> i < cap \<Longrightarrow> j < cap \<Longrightarrow> data ! i = StString p \<Longrightarrow> data ! j = StString q \<Longrightarrow>
    chars_of h p = chars_of h q \<Longrightarrow> i = j"
  unfolding data_ok_def by blast

lemma string_okD:
  assumes "string_ok h p"
  obtains s where "get_string h p = Some s" "str_length s = length (str_chars s)"
    "str_hash s = hash_string (str_chars s)" "chars_of h p = str_chars s" "unat (str_hash s) = hash_at h p"
  using assms by (auto simp: string_ok_def chars_of_def hash_at_def)

lemma st_used_update:
  assumes "i < length data"
  shows "st_used (data[i := x]) =
    st_used data - (if data ! i = StNull then 0 else 1) + (if x = StNull then 0 else 1)"
  using assms
proof (induction data arbitrary: i)
  case (Cons a data)
  have pos: "0 < st_used data" if "j < length data" "data ! j \<noteq> StNull" for j
    using that by (auto simp: st_used_def length_greater_0_conv filter_empty_conv)
  show ?case using Cons pos by (cases i) (auto simp: st_used_def)
qed simp

lemma st_used_null:
  assumes "st_used data < length data"
  obtains i where "i < length data" "data ! i = StNull"
proof -
  have "\<exists>i < length data. data ! i = StNull"
  proof (rule ccontr)
    assume "\<not> (\<exists>i < length data. data ! i = StNull)"
    then have "filter (\<lambda>s. s \<noteq> StNull) data = data" by (auto simp: filter_id_conv in_set_conv_nth)
    with assms show False by (simp add: st_used_def)
  qed
  with that show ?thesis by blast
qed

lemma intern_ok_null:
  assumes "intern_ok h t" "st_capacity t \<noteq> 0"
  obtains i where "i < st_capacity t" "st_data t ! i = StNull" "data_ok h (st_data t) (st_capacity t)"
proof -
  have ok: "data_ok h (st_data t) (st_capacity t)" and len: "st_used (st_data t) < st_capacity t"
    using assms by (auto simp: intern_ok_def)
  with data_ok_cap [OF ok] that show ?thesis by (metis st_used_null)
qed

lemma st_live_iff: "p \<in> st_live t \<longleftrightarrow> (\<exists>i < length (st_data t). st_data t ! i = StString p)"
  by (auto simp: st_live_def in_set_conv_nth)

lemma st_path_update:
  assumes "st_path data cap s n" "0 < cap" "length data = cap" "x \<noteq> StNull"
  shows "st_path (data[i := x]) cap s n"
  using assms unfolding st_path_def
  by (metis mod_less_divisor nth_list_update_eq nth_list_update_neq)

section \<open>Lookup\<close>

lemma string_table_find_loop_scan:
  assumes ok: "data_ok h data cap" and "unat idx < cap"
  shows "string_table_find_loop n h data cap chars (hash_string chars) idx =
    map_option (\<lambda>i. case data ! i of StString p \<Rightarrow> Some p | _ \<Rightarrow> None)
      (probe_scan n (\<lambda>i. data ! i = StNull \<or> (\<exists>p. data ! i = StString p \<and> chars_of h p = chars)) cap idx)"
  using assms(2)
proof (induction n arbitrary: idx)
  case (Suc n)
  have cap: "pow2_capacity cap" "length data = cap" using data_ok_cap [OF ok] by auto
  note IH = Suc.IH [OF slot_mask_less [OF cap(1)]]
  show ?case
  proof (cases "data ! unat idx")
    case (StString p)
    then obtain s where s: "get_string h p = Some s" "str_length s = length (str_chars s)"
      "str_hash s = hash_string (str_chars s)" "chars_of h p = str_chars s"
      by (metis string_okD data_ok_string [OF ok Suc.prems])
    show ?thesis
      using StString s cap Suc.prems IH [of "idx + 1"]
      by (cases "str_chars s = chars") (auto simp: nth_opt_less)
  qed (use cap Suc.prems IH in \<open>auto simp: nth_opt_less\<close>)
qed simp

lemma string_table_find_spec:
  assumes ok: "intern_ok h t"
  obtains r where "string_table_find h t chars (hash_string chars) = Some r"
    "\<And>p. r = Some p \<Longrightarrow> p \<in> st_live t \<and> chars_of h p = chars"
    "r = None \<Longrightarrow> \<forall>p \<in> st_live t. chars_of h p \<noteq> chars"
proof (cases "st_capacity t = 0")
  case True
  then have "st_live t = {}" using ok by (simp add: intern_ok_def st_live_def)
  with True that show ?thesis by (simp add: string_table_find_def)
next
  case False
  let ?data = "st_data t" and ?cap = "st_capacity t" and ?hash = "hash_string chars"
  let ?stop = "\<lambda>i. ?data ! i = StNull \<or> (\<exists>p. ?data ! i = StString p \<and> chars_of h p = chars)"
  obtain i where i: "i < ?cap" "?data ! i = StNull" and dok: "data_ok h ?data ?cap"
    by (rule intern_ok_null [OF ok False])
  have cap: "pow2_capacity ?cap" "length ?data = ?cap" "0 < ?cap" using data_ok_cap [OF dok] by auto
  have stop: "?stop i" using i by simp
  obtain n where n: "n < ?cap"
    "probe_scan ?cap ?stop ?cap (slot_mask ?hash ?cap) = Some ((unat ?hash + n) mod ?cap)"
    "?stop ((unat ?hash + n) mod ?cap)" "\<And>m. m < n \<Longrightarrow> \<not> ?stop ((unat ?hash + m) mod ?cap)"
    by (rule probe_scan_spec [where stop = ?stop and x = ?hash, OF cap(1) i(1) stop]) blast
  let ?i = "(unat ?hash + n) mod ?cap"
  define r where "r = (case ?data ! ?i of StString p \<Rightarrow> Some p | _ \<Rightarrow> None)"
  have "string_table_find h t chars ?hash = Some r"
    using False n(2) string_table_find_loop_scan [OF dok slot_mask_less [OF cap(1)], of ?cap chars ?hash]
    by (simp add: string_table_find_def r_def)
  moreover have "p \<in> st_live t \<and> chars_of h p = chars" if "r = Some p" for p
  proof -
    have "?data ! ?i = StString p" using that by (simp add: r_def split: st_slot.splits)
    moreover have "?i < length ?data" using cap by simp
    ultimately show ?thesis using n(3) unfolding st_live_iff by auto
  qed
  moreover have "\<forall>p \<in> st_live t. chars_of h p \<noteq> chars" if "r = None"
  proof (intro ballI notI)
    fix p assume p: "p \<in> st_live t" "chars_of h p = chars"
    from p obtain j where j: "j < ?cap" "?data ! j = StString p" using cap by (auto simp: st_live_iff)
    have hp: "hash_at h p = unat ?hash" using p by (simp add: hash_at_def)
    obtain k where k: "k < ?cap" "(unat ?hash + k) mod ?cap = j"
      using cyclic_reaches [OF j(1) cap(3)] by metis
    have null: "?data ! ?i = StNull" using that n(3) by (auto simp: r_def split: st_slot.splits)
    have "st_path ?data ?cap (unat ?hash) k"
      using data_ok_path [OF dok j k(1)] k(2) by (simp add: hp)
    then have "k \<le> n" using null unfolding st_path_def by (meson not_le)
    moreover have "k \<noteq> n" using null j k by auto
    ultimately have "\<not> ?stop j" using n(4) [of k] k by auto
    with j p show False by auto
  qed
  ultimately show ?thesis using that by blast
qed

section \<open>Insertion\<close>

lemma data_ok_insert:
  assumes ok: "data_ok h data cap" and str: "string_ok h p" and n: "n < cap"
    and slot: "\<forall>q. data ! ((hash_at h p + n) mod cap) \<noteq> StString q"
    and path: "st_path data cap (hash_at h p) n"
    and fresh: "\<forall>q. StString q \<in> set data \<longrightarrow> chars_of h q \<noteq> chars_of h p"
  shows "data_ok h (data[(hash_at h p + n) mod cap := StString p]) cap"
proof -
  let ?i = "(hash_at h p + n) mod cap"
  let ?data = "data[?i := StString p]"
  have cap: "pow2_capacity cap" "length data = cap" "0 < cap" using data_ok_cap [OF ok] by auto
  have i: "?i < cap" using cap by simp
  have nth: "?data ! j = (if j = ?i then StString p else data ! j)" if "j < cap" for j
    using that cap by (simp add: nth_list_update)
  note path_upd = st_path_update [OF _ cap(3,2), where x = "StString p" and i = ?i]
  have 1: "string_ok h q \<and> (\<forall>m < cap. (hash_at h q + m) mod cap = j \<longrightarrow> st_path ?data cap (hash_at h q) m)"
    if j: "j < cap" "?data ! j = StString q" for j q
  proof (cases "j = ?i")
    case True
    then have q: "q = p" using j nth [OF j(1)] by simp
    have "st_path ?data cap (hash_at h p) m" if "m < cap" "(hash_at h p + m) mod cap = ?i" for m
      using cyclic_unique [OF that(1) n that(2)] path_upd path by auto
    with q True str show ?thesis by blast
  next
    case False
    then have "data ! j = StString q" using j nth [OF j(1)] by simp
    with data_ok_string [OF ok j(1)] data_ok_path [OF ok j(1)] path_upd show ?thesis by auto
  qed
  have 2: "j = l" if "j < cap" "l < cap" "?data ! j = StString q" "?data ! l = StString r"
    "chars_of h q = chars_of h r" for j l q r
  proof -
    have set: "StString x \<in> set data" if "m < cap" "data ! m = StString x" for m x
      using that cap by (metis nth_mem)
    have old: "data ! m = StString x \<and> chars_of h x \<noteq> chars_of h p"
      if "m < cap" "m \<noteq> ?i" "?data ! m = StString x" for m x
      using that fresh set [of m x] nth [OF that(1)] by simp
    show ?thesis
    proof (cases "j = ?i"; cases "l = ?i")
      assume "j \<noteq> ?i" "l \<noteq> ?i"
      then have "data ! j = StString q" "data ! l = StString r"
        using old [OF that(1) _ that(3)] old [OF that(2) _ that(4)] by auto
      then show ?thesis using that(5) by (rule data_ok_uniq [OF ok that(1,2)])
    next
      assume jl: "j = ?i" "l \<noteq> ?i"
      then have "q = p" using that(3) nth [OF that(1)] by simp
      with old [OF that(2) jl(2) that(4)] that(5) show ?thesis by simp
    next
      assume jl: "j \<noteq> ?i" "l = ?i"
      then have "r = p" using that(4) nth [OF that(2)] by simp
      with old [OF that(1) jl(1) that(3)] that(5) show ?thesis by simp
    qed simp
  qed
  show ?thesis
    unfolding data_ok_def
  proof (intro conjI)
    show "\<forall>i < cap. \<forall>p'. ?data ! i = StString p' \<longrightarrow> string_ok h p' \<and>
        (\<forall>n < cap. (hash_at h p' + n) mod cap = i \<longrightarrow> st_path ?data cap (hash_at h p') n)"
      using 1 by blast
    show "\<forall>i < cap. \<forall>j < cap. \<forall>p' q. ?data ! i = StString p' \<longrightarrow> ?data ! j = StString q \<longrightarrow>
        chars_of h p' = chars_of h q \<longrightarrow> i = j"
      using 2 by blast
  qed (use cap in simp_all)
qed

lemma set_update_slot:
  assumes "i < length data" "\<forall>q. data ! i \<noteq> StString q"
  shows "{q. StString q \<in> set (data[i := StString p])} = insert p {q. StString q \<in> set data}"
proof -
  have "StString q \<in> set (data[i := StString p]) \<longleftrightarrow> q = p \<or> StString q \<in> set data" for q
  proof
    assume "StString q \<in> set (data[i := StString p])"
    then show "q = p \<or> StString q \<in> set data"
      using set_update_subset_insert [of data i "StString p"] by auto
  next
    assume "q = p \<or> StString q \<in> set data"
    then show "StString q \<in> set (data[i := StString p])"
    proof
      assume "q = p"
      then show ?thesis using assms(1) by (simp add: set_update_memI)
    next
      assume "StString q \<in> set data"
      then obtain j where "j < length data" "data ! j = StString q" by (auto simp: in_set_conv_nth)
      then show ?thesis using assms by (metis length_list_update nth_list_update_neq nth_mem)
    qed
  qed
  then show ?thesis by auto
qed

lemma not_in_live_chars:
  "c \<notin> set (map (chars_of h) [p. StString p \<leftarrow> data]) \<Longrightarrow> StString q \<in> set data \<Longrightarrow> chars_of h q \<noteq> c"
  by (induction data) (auto split: st_slot.splits)

lemma string_table_rehash_spec:
  assumes "data_ok h new_data cap" "st_used new_data = count"
    and "count + length (filter (\<lambda>s. \<exists>p. s = StString p) data) < cap"
    and "\<forall>p. StString p \<in> set data \<longrightarrow> string_ok h p"
    and "distinct (map (chars_of h) [p. StString p \<leftarrow> data])"
    and "\<forall>p q. StString p \<in> set data \<longrightarrow> StString q \<in> set new_data \<longrightarrow> chars_of h p \<noteq> chars_of h q"
    and "StTomb \<notin> set new_data"
  shows "\<exists>new'. string_table_rehash h cap data (new_data, count) =
      Some (new', count + length (filter (\<lambda>s. \<exists>p. s = StString p) data)) \<and>
    data_ok h new' cap \<and> st_used new' = count + length (filter (\<lambda>s. \<exists>p. s = StString p) data) \<and>
    {q. StString q \<in> set new'} = {q. StString q \<in> set new_data} \<union> {q. StString q \<in> set data}"
  using assms
proof (induction data arbitrary: new_data count)
  case (Cons x data)
  show ?case
  proof (cases x)
    case (StString p)
    note ok = Cons.prems(1)
    have cap: "pow2_capacity cap" "length new_data = cap" "0 < cap" using data_ok_cap [OF ok] by auto
    have str: "string_ok h p" using Cons.prems(4) StString by simp
    then obtain s where s: "get_string h p = Some s" "unat (str_hash s) = hash_at h p"
      by (metis string_okD)
    have "st_used new_data < length new_data" using Cons.prems(2,3) cap by simp
    then obtain i where i: "i < cap" "new_data ! i = StNull" using cap by (metis st_used_null)
    obtain n where n: "n < cap"
      "probe_scan cap (\<lambda>i. new_data ! i = StNull) cap (slot_mask (str_hash s) cap) =
        Some ((unat (str_hash s) + n) mod cap)"
      "new_data ! ((unat (str_hash s) + n) mod cap) = StNull"
      "\<And>m. m < n \<Longrightarrow> new_data ! ((unat (str_hash s) + m) mod cap) \<noteq> StNull"
      by (rule probe_scan_spec [where stop = "\<lambda>i. new_data ! i = StNull" and x = "str_hash s", OF cap(1) i]) blast
    note n' = n [unfolded s(2)]
    let ?i = "(hash_at h p + n) mod cap"
    let ?new = "new_data[?i := StString p]"
    have ilt: "?i < length new_data" using cap by simp
    have fresh: "chars_of h q \<noteq> chars_of h p" if "StString q \<in> set new_data" for q
      using Cons.prems(6) StString that by (metis list.set_intros(1))
    have ok': "data_ok h ?new cap"
      using n' fresh by (intro data_ok_insert [OF ok str n(1)]) (auto simp: st_path_def)
    have used': "st_used ?new = count + 1"
      using st_used_update [OF ilt, of "StString p"] n'(3) Cons.prems(2) by simp
    have live': "{q. StString q \<in> set ?new} = insert p {q. StString q \<in> set new_data}"
      using n'(3) by (intro set_update_slot [OF ilt]) simp
    have "StTomb \<notin> set ?new"
      using Cons.prems(7) set_update_subset_insert [of new_data ?i "StString p"] by auto
    moreover have distinct_p: "chars_of h p \<notin> set (map (chars_of h) [p. StString p \<leftarrow> data])"
      using Cons.prems(5) StString by simp
    moreover have "chars_of h q \<noteq> chars_of h r"
      if "StString q \<in> set data" "StString r \<in> set ?new" for q r
    proof -
      from that(2) live' have "r = p \<or> StString r \<in> set new_data" by blast
      moreover have "chars_of h q \<noteq> chars_of h p"
        using distinct_p that(1) by (metis not_in_live_chars)
      ultimately show ?thesis using Cons.prems(6) that(1) by auto
    qed
    ultimately have "\<exists>new'. string_table_rehash h cap data (?new, count + 1) =
        Some (new', count + 1 + length (filter (\<lambda>s. \<exists>p. s = StString p) data)) \<and>
      data_ok h new' cap \<and> st_used new' = count + 1 + length (filter (\<lambda>s. \<exists>p. s = StString p) data) \<and>
      {q. StString q \<in> set new'} = {q. StString q \<in> set ?new} \<union> {q. StString q \<in> set data}"
      using Cons.prems(3-5) StString by (intro Cons.IH [OF ok' used']) auto
    then show ?thesis
      using StString s n'(2) unfolding live' by (auto simp: s(2))
  qed (use Cons in auto)
qed simp

lemma distinct_chars:
  assumes "\<forall>i < length data. \<forall>j < length data. \<forall>p q. data ! i = StString p \<longrightarrow>
    data ! j = StString q \<longrightarrow> chars_of h p = chars_of h q \<longrightarrow> i = j"
  shows "distinct (map (chars_of h) [p. StString p \<leftarrow> data])"
  using assms
proof (induction data)
  case (Cons x data)
  have IH: "distinct (map (chars_of h) [p. StString p \<leftarrow> data])"
  proof (rule Cons.IH, intro allI impI)
    fix i j p q
    assume "i < length data" "j < length data" "data ! i = StString p" "data ! j = StString q"
      "chars_of h p = chars_of h q"
    then show "i = j"
      using Cons.prems [rule_format, of "Suc i" "Suc j" p q] by simp
  qed
  have "chars_of h q \<noteq> chars_of h p" if "x = StString p" "StString q \<in> set data" for p q
  proof
    assume eq: "chars_of h q = chars_of h p"
    from that(2) obtain j where j: "j < length data" "data ! j = StString q"
      by (auto simp: in_set_conv_nth)
    then show False using Cons.prems [rule_format, of 0 "Suc j" p q] that(1) eq by simp
  qed
  then have "\<forall>p. x = StString p \<longrightarrow> chars_of h p \<notin> set (map (chars_of h) [p. StString p \<leftarrow> data])"
    by (force split: st_slot.splits)
  then show ?case using IH by (cases x) simp_all
qed simp

lemma filter_string_le: "length (filter (\<lambda>s. \<exists>p. s = StString p) data) \<le> st_used data"
  unfolding st_used_def by (induction data) auto

lemma replicate_null:
  assumes "pow2_capacity cap"
  shows "data_ok h (replicate cap StNull) cap" "st_used (replicate cap StNull) = 0"
  using assms unfolding data_ok_def by (simp_all add: st_used_def)

lemma replicate_no_string:
  "\<forall>p q. StString p \<in> A \<longrightarrow> StString q \<in> set (replicate n StNull) \<longrightarrow> chars_of h p \<noteq> chars_of h q"
  "StTomb \<notin> set (replicate n StNull)"
  by simp_all

lemma pow2_capacity_below:
  assumes "cap = 0 \<or> pow2_capacity cap" "cap * 3 div 4 \<le> 2 ^ 28"
  shows "cap \<le> 2 ^ 28"
proof (rule ccontr)
  assume big: "\<not> cap \<le> 2 ^ 28"
  then obtain k where k: "k \<le> 30" "cap = 2 ^ k" using assms(1) by (auto simp: pow2_capacity_def)
  have "28 < k" using big k(2) by (metis not_less one_le_numeral power_increasing)
  then have "(2::nat) ^ 29 \<le> cap" unfolding k(2) by (intro power_increasing) simp_all
  then show False using assms(2) by simp
qed

lemma string_table_grow_spec:
  assumes ok: "intern_ok h t" and room: "st_room 1 t" and grow: "string_table_must_grow t"
  shows "\<exists>t'. string_table_grow h t = Some t' \<and> intern_ok h t' \<and> st_live t' = st_live t \<and>
    st_count t' \<le> st_count t \<and> \<not> string_table_must_grow t' \<and> st_capacity t' \<le> 2 ^ 29"
proof -
  let ?cap = "flux_grow_capacity (st_capacity t)"
  let ?k = "length (filter (\<lambda>s. \<exists>p. s = StString p) (st_data t))"
  have cap_lt: "st_capacity t < 2 ^ 30"
    using room grow by (auto simp: st_room_def string_table_must_grow_def)
  have dok: "st_capacity t \<noteq> 0 \<Longrightarrow> data_ok h (st_data t) (st_capacity t)"
    using ok by (simp add: intern_ok_def)
  then have cap_ok: "st_capacity t = 0 \<or> pow2_capacity (st_capacity t)"
    using data_ok_cap by auto
  then have cap: "pow2_capacity ?cap" using cap_lt by (rule pow2_capacity_grow)
  have "st_capacity t * 3 div 4 \<le> 2 ^ 28" using room grow by (simp add: st_room_def string_table_must_grow_def)
  then have "st_capacity t \<le> 2 ^ 28" by (rule pow2_capacity_below [OF cap_ok])
  then have cap_max: "?cap \<le> 2 ^ 29" by (simp add: flux_grow_capacity_def flux_initial_capacity_def)
  have "st_capacity t = 0 \<or> 8 \<le> st_capacity t" using cap_ok pow2_capacity_pos by blast
  then have grow_cap: "2 * st_capacity t \<le> ?cap" "8 \<le> ?cap"
    by (auto simp: flux_grow_capacity_def flux_initial_capacity_def)
  have count: "?k \<le> st_count t" "4 * st_count t \<le> 3 * st_capacity t"
    using ok filter_string_le by (auto simp: intern_ok_def)
  then have small: "0 + ?k < ?cap" using grow_cap by linarith
  have strs: "\<forall>p. StString p \<in> set (st_data t) \<longrightarrow> string_ok h p"
    and uniq: "\<forall>i < length (st_data t). \<forall>j < length (st_data t). \<forall>p q. st_data t ! i = StString p \<longrightarrow>
      st_data t ! j = StString q \<longrightarrow> chars_of h p = chars_of h q \<longrightarrow> i = j"
  proof -
    show "\<forall>p. StString p \<in> set (st_data t) \<longrightarrow> string_ok h p"
    proof (cases "st_capacity t = 0")
      case False
      then show ?thesis
        using data_ok_string [OF dok] data_ok_cap [OF dok] by (auto simp: in_set_conv_nth)
    qed (use ok in \<open>simp add: intern_ok_def\<close>)
    show "\<forall>i < length (st_data t). \<forall>j < length (st_data t). \<forall>p q. st_data t ! i = StString p \<longrightarrow>
      st_data t ! j = StString q \<longrightarrow> chars_of h p = chars_of h q \<longrightarrow> i = j"
    proof (cases "st_capacity t = 0")
      case False
      then have d: "data_ok h (st_data t) (st_capacity t)" by (rule dok)
      show ?thesis
        unfolding data_ok_cap [OF d, THEN conjunct2, THEN conjunct1] using data_ok_uniq [OF d] by blast
    qed (use ok in \<open>simp add: intern_ok_def\<close>)
  qed
  obtain new' where new': "string_table_rehash h ?cap (st_data t) (replicate ?cap StNull, 0) = Some (new', 0 + ?k)"
    "data_ok h new' ?cap" "st_used new' = 0 + ?k"
    "{q. StString q \<in> set new'} = {q. StString q \<in> set (replicate ?cap StNull)} \<union> {q. StString q \<in> set (st_data t)}"
    using string_table_rehash_spec [OF replicate_null [OF cap] small strs distinct_chars [OF uniq]
        replicate_no_string] by (elim exE conjE) (rule that)
  let ?t = "\<lparr>st_data = new', st_count = ?k, st_capacity = ?cap\<rparr>"
  have "string_table_grow h t = Some ?t" using new'(1) by (simp add: string_table_grow_def Let_def)
  moreover have "intern_ok h ?t"
    using new' count grow_cap by (simp add: intern_ok_def)
  moreover have "st_live ?t = st_live t" using new'(4) by (auto simp: st_live_def)
  moreover have "\<not> string_table_must_grow ?t"
  proof -
    have "?k + 1 \<le> ?cap * 3 div 4" using count grow_cap by linarith
    then show ?thesis by (simp add: string_table_must_grow_def)
  qed
  ultimately show ?thesis using count cap_max by auto
qed

lemma string_table_set_spec:
  assumes ok: "intern_ok h t" and room: "st_room (Suc n) t" and str: "string_ok h p"
    and fresh: "\<forall>q \<in> st_live t. chars_of h q \<noteq> chars_of h p"
  shows "\<exists>t'. string_table_set h t p = Some t' \<and> intern_ok h t' \<and> st_room n t' \<and>
    st_live t' = insert p (st_live t)"
proof -
  have room1: "st_room 1 t" using room by (simp add: st_room_def)
  obtain t1 where t1: "(if string_table_must_grow t then string_table_grow h t else Some t) = Some t1"
    and ok1: "intern_ok h t1" and live1: "st_live t1 = st_live t"
    and count1: "st_count t1 \<le> st_count t" and no_grow: "\<not> string_table_must_grow t1"
    and max1: "st_capacity t1 \<le> 2 ^ 29"
    using string_table_grow_spec [OF ok room1] ok room1 st_room_def by (cases "string_table_must_grow t") auto
  let ?data = "st_data t1" and ?cap = "st_capacity t1"
  let ?stop = "\<lambda>i. ?data ! i = StNull \<or> ?data ! i = StTomb"
  have c0: "?cap \<noteq> 0" using no_grow by (auto simp: string_table_must_grow_def)
  obtain i where i: "i < ?cap" "?data ! i = StNull" and dok: "data_ok h ?data ?cap"
    by (rule intern_ok_null [OF ok1 c0])
  have cap: "pow2_capacity ?cap" "length ?data = ?cap" "0 < ?cap" using data_ok_cap [OF dok] by auto
  obtain s where s: "get_string h p = Some s" "unat (str_hash s) = hash_at h p"
    using str by (metis string_okD)
  have stop: "?stop i" using i by simp
  obtain n' where n': "n' < ?cap"
    "probe_scan ?cap ?stop ?cap (slot_mask (str_hash s) ?cap) = Some ((unat (str_hash s) + n') mod ?cap)"
    "?stop ((unat (str_hash s) + n') mod ?cap)" "\<And>m. m < n' \<Longrightarrow> \<not> ?stop ((unat (str_hash s) + m) mod ?cap)"
    by (rule probe_scan_spec [where stop = ?stop and x = "str_hash s", OF cap(1) i(1) stop]) blast
  note n' = n' [unfolded s(2)]
  let ?i = "(hash_at h p + n') mod ?cap"
  let ?new = "?data[?i := StString p]"
  have ilt: "?i < length ?data" using cap by simp
  have slot: "\<forall>q. ?data ! ?i \<noteq> StString q" using n'(3) by auto
  have dok': "data_ok h ?new ?cap"
    using n'(4) slot fresh live1
    by (intro data_ok_insert [OF dok str n'(1)]) (auto simp: st_path_def st_live_def)
  let ?t = "t1\<lparr>st_count := (if ?data ! ?i = StNull then st_count t1 + 1 else st_count t1), st_data := ?new\<rparr>"
  have "string_table_set h t p = Some ?t"
    using t1 s n'(2) room by (simp add: string_table_set_def st_room_def)
  moreover have "intern_ok h ?t"
  proof -
    have "0 < st_used ?data" if "?data ! ?i \<noteq> StNull"
      using that ilt nth_mem [OF ilt] by (auto simp: st_used_def length_greater_0_conv filter_empty_conv)
    then have "st_used ?new = st_count ?t"
      using st_used_update [OF ilt, of "StString p"] ok1 by (simp add: intern_ok_def)
    moreover have "4 * st_count ?t \<le> 3 * ?cap"
      using no_grow ok1 by (auto simp: string_table_must_grow_def intern_ok_def)
    ultimately show ?thesis using dok' c0 by (simp add: intern_ok_def)
  qed
  moreover have "st_room n ?t" using room count1 max1 by (auto simp: st_room_def)
  moreover have "st_live ?t = insert p (st_live t)"
    using set_update_slot [OF ilt slot, of p] live1 by (simp add: st_live_def)
  ultimately show ?thesis by blast
qed

section \<open>Removal\<close>

lemma data_ok_remove:
  assumes ok: "data_ok h data cap"
  shows "data_ok h (data[i := StTomb]) cap"
proof -
  let ?data = "data[i := StTomb]"
  have cap: "pow2_capacity cap" "length data = cap" "0 < cap" using data_ok_cap [OF ok] by auto
  have old: "data ! j = StString p" if "j < cap" "?data ! j = StString p" for j p
    using that cap by (cases "i = j") (auto simp: nth_list_update)
  note path_upd = st_path_update [OF _ cap(3,2), where x = StTomb and i = i]
  show ?thesis
    unfolding data_ok_def
  proof (intro conjI)
    show "\<forall>j < cap. \<forall>p. ?data ! j = StString p \<longrightarrow> string_ok h p \<and>
        (\<forall>n < cap. (hash_at h p + n) mod cap = j \<longrightarrow> st_path ?data cap (hash_at h p) n)"
      using old data_ok_string [OF ok] data_ok_path [OF ok] path_upd by (metis st_slot.distinct(1))
    show "\<forall>j < cap. \<forall>l < cap. \<forall>p q. ?data ! j = StString p \<longrightarrow> ?data ! l = StString q \<longrightarrow>
        chars_of h p = chars_of h q \<longrightarrow> j = l"
      using old data_ok_uniq [OF ok] by blast
  qed (use cap in simp_all)
qed

lemma string_table_remove_spec:
  assumes ok: "intern_ok h t" and str: "string_ok h p"
  shows "\<exists>t'. string_table_remove h t p = Some t' \<and> intern_ok h t' \<and> st_count t' = st_count t \<and>
    st_live t' = st_live t - {p}"
proof (cases "st_capacity t = 0")
  case True
  then have "st_live t = {}" using ok by (simp add: intern_ok_def st_live_def)
  with True ok show ?thesis by (simp add: string_table_remove_def)
next
  case False
  let ?data = "st_data t" and ?cap = "st_capacity t"
  let ?stop = "\<lambda>i. ?data ! i = StNull \<or> ?data ! i = StString p"
  obtain i where i: "i < ?cap" "?data ! i = StNull" and dok: "data_ok h ?data ?cap"
    by (rule intern_ok_null [OF ok False])
  have cap: "pow2_capacity ?cap" "length ?data = ?cap" "0 < ?cap" using data_ok_cap [OF dok] by auto
  obtain s where s: "get_string h p = Some s" "unat (str_hash s) = hash_at h p"
    using str by (metis string_okD)
  have stop: "?stop i" using i by simp
  obtain n where n: "n < ?cap"
    "probe_scan ?cap ?stop ?cap (slot_mask (str_hash s) ?cap) = Some ((unat (str_hash s) + n) mod ?cap)"
    "?stop ((unat (str_hash s) + n) mod ?cap)" "\<And>m. m < n \<Longrightarrow> \<not> ?stop ((unat (str_hash s) + m) mod ?cap)"
    by (rule probe_scan_spec [where stop = ?stop and x = "str_hash s", OF cap(1) i(1) stop]) blast
  note n = n [unfolded s(2)]
  let ?i = "(hash_at h p + n) mod ?cap"
  have ilt: "?i < ?cap" using cap by simp
  have where_p: "j = ?i" if j: "j < ?cap" "?data ! j = StString p" for j
  proof -
    obtain k where k: "k < ?cap" "(hash_at h p + k) mod ?cap = j"
      using cyclic_reaches [OF j(1) cap(3)] by metis
    have "\<not> k < n" using n(4) [of k] k j by auto
    moreover have "st_path ?data ?cap (hash_at h p) k" using data_ok_path [OF dok j k] .
    then have "\<not> n < k \<or> ?data ! ?i \<noteq> StNull" unfolding st_path_def by blast
    ultimately show ?thesis
      using n(3) data_ok_uniq [OF dok j(1) ilt j(2)] k by (metis linorder_neqE_nat)
  qed
  show ?thesis
  proof (cases "?data ! ?i = StNull")
    case True
    then have "p \<notin> st_live t" using where_p cap by (auto simp: st_live_iff)
    moreover have "string_table_remove h t p = Some t"
      using False s n(2) True by (simp add: string_table_remove_def)
    ultimately show ?thesis using ok by auto
  next
    case nonnull: False
    then have at: "?data ! ?i = StString p" using n(3) by simp
    let ?t = "t\<lparr>st_data := ?data[?i := StTomb]\<rparr>"
    have "string_table_remove h t p = Some ?t"
      using False s n(2) nonnull by (simp add: string_table_remove_def)
    moreover have "intern_ok h ?t"
    proof -
      have "0 < st_used ?data"
        using at ilt cap nth_mem [of ?i ?data]
        by (auto simp: st_used_def length_greater_0_conv filter_empty_conv)
      then have "st_used (?data[?i := StTomb]) = st_used ?data"
        using st_used_update [of ?i ?data StTomb] ilt cap nonnull by simp
      then show ?thesis using ok False data_ok_remove [OF dok] by (simp add: intern_ok_def)
    qed
    moreover have "q \<in> st_live ?t \<longleftrightarrow> q \<in> st_live t - {p}" for q
    proof -
      have "q \<in> st_live ?t \<longleftrightarrow> (\<exists>j < ?cap. j \<noteq> ?i \<and> ?data ! j = StString q)"
        using cap unfolding st_live_iff by (intro ex_cong1) (auto simp: nth_list_update)
      also have "\<dots> \<longleftrightarrow> (\<exists>j < ?cap. ?data ! j = StString q) \<and> q \<noteq> p"
        using where_p at by (metis st_slot.inject)
      finally show ?thesis using cap by (simp add: st_live_iff)
    qed
    ultimately show ?thesis by auto
  qed
qed

lemma string_table_new_ok: "intern_ok h string_table_new" "st_live string_table_new = {}"
  "st_room (2 ^ 28) string_table_new"
  by (simp_all add: intern_ok_def string_table_new_def st_used_def st_live_def st_room_def)

section \<open>The table and the heap\<close>

text \<open>The invariant depends on the heap only through the strings the table holds.\<close>

lemma data_ok_cong:
  assumes "\<And>p. StString p \<in> set data \<Longrightarrow> get_string h' p = get_string h p"
  shows "data_ok h' data cap \<longleftrightarrow> data_ok h data cap"
proof (cases "length data = cap")
  case True
  have "string_ok h' p = string_ok h p" "chars_of h' p = chars_of h p" "hash_at h' p = hash_at h p"
    if "i < cap" "data ! i = StString p" for i p
    using assms [of p] that True nth_mem [of i data]
    by (simp_all add: string_ok_def chars_of_def hash_at_def)
  then show ?thesis unfolding data_ok_def
    by (intro conj_cong refl arg_cong [where f = Not] all_cong1 imp_cong) simp_all
next
  case False
  then show ?thesis unfolding data_ok_def by blast
qed

lemma intern_ok_cong:
  assumes "\<And>p. p \<in> st_live t \<Longrightarrow> get_string h' p = get_string h p"
  shows "intern_ok h' t \<longleftrightarrow> intern_ok h t"
  using data_ok_cong [of "st_data t" h' h] assms by (simp add: intern_ok_def st_live_def)

lemma intern_ok_live_cap: "intern_ok h t \<Longrightarrow> p \<in> st_live t \<Longrightarrow> st_capacity t \<noteq> 0"
  by (cases "st_capacity t = 0") (simp_all add: intern_ok_def st_live_def)

lemma intern_ok_live_string:
  assumes "intern_ok h t" "p \<in> st_live t"
  shows "string_ok h p"
proof -
  have c: "st_capacity t \<noteq> 0" using assms(1,2) by (rule intern_ok_live_cap)
  then have dok: "data_ok h (st_data t) (st_capacity t)" using assms(1) by (simp add: intern_ok_def)
  then show ?thesis
    using assms(2) data_ok_string [OF dok] data_ok_cap [OF dok] by (auto simp: st_live_iff)
qed

lemma intern_ok_unique:
  assumes "intern_ok h t" "p \<in> st_live t" "q \<in> st_live t" "chars_of h p = chars_of h q"
  shows "p = q"
proof -
  have c: "st_capacity t \<noteq> 0" using assms(1,2) by (rule intern_ok_live_cap)
  then have dok: "data_ok h (st_data t) (st_capacity t)" using assms(1) by (simp add: intern_ok_def)
  obtain i j where "i < st_capacity t" "st_data t ! i = StString p"
    "j < st_capacity t" "st_data t ! j = StString q"
    using assms(2,3) data_ok_cap [OF dok] by (auto simp: st_live_iff)
  moreover from this have "i = j" using data_ok_uniq [OF dok] assms(4) by blast
  ultimately show ?thesis by simp
qed

lemma string_table_find_live:
  assumes "intern_ok h t" "q \<in> st_live t"
  shows "string_table_find h t (chars_of h q) (hash_string (chars_of h q)) = Some (Some q)"
proof -
  obtain r where r: "string_table_find h t (chars_of h q) (hash_string (chars_of h q)) = Some r"
    "\<And>p. r = Some p \<Longrightarrow> p \<in> st_live t \<and> chars_of h p = chars_of h q"
    "r = None \<Longrightarrow> \<forall>p \<in> st_live t. chars_of h p \<noteq> chars_of h q"
    by (rule string_table_find_spec [OF assms(1)]) (rule that)
  have "r = Some q"
  proof (cases r)
    case None
    then show ?thesis using r(3) assms(2) by blast
  next
    case (Some p)
    then have "p \<in> st_live t" "chars_of h p = chars_of h q" using r(2) by blast+
    then show ?thesis using intern_ok_unique [OF assms(1) _ assms(2)] Some by blast
  qed
  then show ?thesis using r(1) by simp
qed

lemma string_table_find_dead:
  assumes "intern_ok h t" "\<forall>q \<in> st_live t. chars_of h q \<noteq> cs"
  shows "string_table_find h t cs (hash_string cs) = Some None"
proof -
  obtain r where r: "string_table_find h t cs (hash_string cs) = Some r"
    "\<And>p. r = Some p \<Longrightarrow> p \<in> st_live t \<and> chars_of h p = cs"
    "r = None \<Longrightarrow> \<forall>p \<in> st_live t. chars_of h p \<noteq> cs"
    by (rule string_table_find_spec [OF assms(1)]) (rule that)
  have "r = None" using r(2) assms(2) by (metis not_None_eq)
  then show ?thesis using r(1) by simp
qed

end
