(* ===== verification/VMState.thy ===== *)
theory VMState
  imports Dicts StringTable
begin

text \<open>
  The machine \<^verbatim>\<open>FluxVM\<close> of \<^verbatim>\<open>include/flux/vm.h\<close> and its stack helpers.  The C arrays with a count
  field are lists of that length.  The intrusive lists \<^verbatim>\<open>objects\<close> (through \<^verbatim>\<open>obj->next\<close>) and
  \<^verbatim>\<open>open_upvalues\<close> (through \<^verbatim>\<open>uv->next\<close>) are pointer lists, head first; the grey stack is a list, top
  first.  Fields that only serve messages (\<^verbatim>\<open>source_text\<close>, \<^verbatim>\<open>source_file\<close>), the loop handle
  \<^verbatim>\<open>uv_loop\<close> and the \<^verbatim>\<open>dlopen\<close> handles are left out.
\<close>

definition FLUX_STACK_MAX :: nat where "FLUX_STACK_MAX = 256 * 64"
definition FLUX_FRAMES_MAX :: nat where "FLUX_FRAMES_MAX = 500"
definition FLUX_GC_HEAP_GROW_FACTOR :: uint64 where "FLUX_GC_HEAP_GROW_FACTOR = 2"
definition FLUX_IMPORT_DIR_MAX :: nat where "FLUX_IMPORT_DIR_MAX = 64"
definition FLUX_IMPORT_PATH_MAX :: nat where "FLUX_IMPORT_PATH_MAX = 900"
definition FLUX_EXCEPTION_HANDLER_MAX :: nat where "FLUX_EXCEPTION_HANDLER_MAX = 64"

text \<open>\<^verbatim>\<open>catch_slot\<close> is set to -1 and never read; it is left out.\<close>

record exception_handler =
  eh_handler_ip :: nat
  eh_frame_index :: int
  eh_base_frame_count :: nat
  eh_stack_depth :: nat

datatype vm_result = VM_OK | VM_RUNTIME_ERROR | VM_COMPILE_ERROR | VM_YIELD | VM_ASYNC_SPAWNED

record flux_vm =
  vm_stack :: "flux_value list"
  vm_frames :: "call_frame list"
  vm_globals :: "ptr option"
  vm_modules :: "ptr option"
  vm_import_dirs :: "string list"
  vm_import_stack_names :: "string list"
  vm_strings :: string_table
  vm_heap :: heap
  vm_objects :: "ptr list"
  vm_open_upvalues :: "ptr list"
  vm_bytes_allocated :: uint64
  vm_next_gc :: uint64
  vm_grey_stack :: "ptr list"
  vm_grey_capacity :: nat
  vm_class_string :: "ptr option"
  vm_class_list :: "ptr option"
  vm_class_dict :: "ptr option"
  vm_class_int :: "ptr option"
  vm_class_float :: "ptr option"
  vm_class_bool :: "ptr option"
  vm_class_enum_member :: "ptr option"
  vm_gen_yield_collector :: "ptr option"
  vm_ready_queue :: "ptr list"
  vm_ready_capacity :: nat
  vm_current_coroutine :: "ptr option"
  vm_main_coroutine :: "ptr option"
  vm_pending_io_count :: int
  vm_io_futures :: "ptr list"
  vm_io_future_capacity :: nat
  vm_error_msg :: string
  vm_has_error :: bool
  vm_error_printed :: bool
  vm_exception_handlers :: "exception_handler list"
  vm_current_exception :: flux_value
  vm_has_exception :: bool

section \<open>Stack helpers\<close>

definition stack_overflow_msg :: string where
  "stack_overflow_msg = ''Value stack overflow (FLUX_STACK_MAX=16384)''"

definition vm_push :: "flux_vm \<Rightarrow> flux_value \<Rightarrow> flux_vm" where
  "vm_push vm v =
     (if FLUX_STACK_MAX \<le> length (vm_stack vm)
      then if vm_has_error vm then vm
           else vm\<lparr>vm_has_error := True, vm_error_msg := stack_overflow_msg\<rparr>
      else vm\<lparr>vm_stack := vm_stack vm @ [v]\<rparr>)"

definition vm_pop :: "flux_vm \<Rightarrow> (flux_value \<times> flux_vm) option" where
  "vm_pop vm =
     (if vm_stack vm = [] then None
      else Some (last (vm_stack vm), vm\<lparr>vm_stack := butlast (vm_stack vm)\<rparr>))"

definition vm_peek :: "flux_vm \<Rightarrow> nat \<Rightarrow> flux_value option" where
  "vm_peek vm distance =
     (if distance < length (vm_stack vm)
      then Some (vm_stack vm ! (length (vm_stack vm) - 1 - distance)) else None)"

definition vm_poke :: "flux_vm \<Rightarrow> nat \<Rightarrow> flux_value \<Rightarrow> flux_vm option" where
  "vm_poke vm distance v =
     (if distance < length (vm_stack vm)
      then Some (vm\<lparr>vm_stack := (vm_stack vm)[length (vm_stack vm) - 1 - distance := v]\<rparr>) else None)"

lemma vm_push_pop:
  "length (vm_stack vm) < FLUX_STACK_MAX \<Longrightarrow> vm_pop (vm_push vm v) = Some (v, vm)"
  by (simp add: vm_push_def vm_pop_def)

lemma vm_push_peek:
  "length (vm_stack vm) < FLUX_STACK_MAX \<Longrightarrow>
    vm_peek (vm_push vm v) 0 = Some v \<and> vm_peek (vm_push vm v) (Suc n) = vm_peek vm n"
  by (auto simp: vm_push_def vm_peek_def nth_append)

lemma vm_push_length: "length (vm_stack (vm_push vm v)) \<le> max (length (vm_stack vm)) FLUX_STACK_MAX"
  by (auto simp: vm_push_def)

section \<open>The size of an object\<close>

text \<open>
  The \<^verbatim>\<open>sizeof\<close> values of an LP64 target.  \<open>headline_size\<close> is what the allocation added and the
  sweep subtracts; \<open>owned_size\<close> is what \<^verbatim>\<open>object_free\<close> subtracts for the arrays the object owns.
\<close>

definition sizeof_ptr :: nat where "sizeof_ptr = 8"
definition sizeof_value :: nat where "sizeof_value = 16"
definition sizeof_dict_entry :: nat where "sizeof_dict_entry = 24"
definition sizeof_call_frame :: nat where "sizeof_call_frame = 24"
definition sizeof_int :: nat where "sizeof_int = 4"
definition sizeof_flux_string :: nat where "sizeof_flux_string = 24"

fun headline_size :: "payload \<Rightarrow> nat" where
  "headline_size (OBJ_STRING s) = sizeof_flux_string + str_length s + 1"
| "headline_size (OBJ_LIST _) = 32"
| "headline_size (OBJ_DICT _) = 32"
| "headline_size (OBJ_FUNCTION _) = 96"
| "headline_size (OBJ_NATIVE _) = 40"
| "headline_size (OBJ_CLOSURE _) = 40"
| "headline_size (OBJ_UPVALUE _) = 48"
| "headline_size (OBJ_CLASS _) = 48"
| "headline_size (OBJ_INSTANCE _) = 32"
| "headline_size (OBJ_BOUND_METHOD _) = 40"
| "headline_size (OBJ_COROUTINE _) = 128"
| "headline_size (OBJ_FUTURE _) = 72"

fun owned_size :: "payload \<Rightarrow> nat" where
  "owned_size (OBJ_LIST l) = sizeof_value * va_capacity (elements l)"
| "owned_size (OBJ_DICT d) = sizeof_dict_entry * d_capacity d"
| "owned_size (OBJ_CLOSURE cl) = sizeof_ptr * length (cl_upvalues cl)"
| "owned_size (OBJ_COROUTINE co) = sizeof_value * co_stack_capacity co +
     sizeof_call_frame * co_frame_capacity co + sizeof_int * co_frame_capacity co"
| "owned_size _ = 0"

section \<open>Dictionaries of the machine\<close>

definition key_hash :: "heap \<Rightarrow> ptr \<Rightarrow> uint32 option" where
  "key_hash h p = map_option str_hash (get_string h p)"

definition heap_dict_get :: "heap \<Rightarrow> ptr \<Rightarrow> ptr \<Rightarrow> flux_value option option" where
  "heap_dict_get h d key = do { dict \<leftarrow> get_dict h d; dict_get (key_hash h) dict key }"

text \<open>\<open>dict_set(vm, dict, key, value)\<close> with the byte accounting of \<^verbatim>\<open>dict_grow\<close>.\<close>

definition vm_dict_set :: "flux_vm \<Rightarrow> ptr \<Rightarrow> ptr \<Rightarrow> flux_value \<Rightarrow> flux_vm option" where
  "vm_dict_set vm d key v = do {
     dict \<leftarrow> get_dict (vm_heap vm) d;
     dict' \<leftarrow> dict_set (key_hash (vm_heap vm)) dict key v;
     h' \<leftarrow> hput (vm_heap vm) d (OBJ_DICT dict');
     Some (vm\<lparr>vm_heap := h',
              vm_bytes_allocated := vm_bytes_allocated vm + of_nat (sizeof_dict_entry * d_capacity dict')
                - of_nat (sizeof_dict_entry * d_capacity dict)\<rparr>)
   }"

definition vm_dict_delete :: "flux_vm \<Rightarrow> ptr \<Rightarrow> ptr \<Rightarrow> (bool \<times> flux_vm) option" where
  "vm_dict_delete vm d key = do {
     dict \<leftarrow> get_dict (vm_heap vm) d;
     (found, dict') \<leftarrow> dict_delete (key_hash (vm_heap vm)) dict key;
     h' \<leftarrow> hput (vm_heap vm) d (OBJ_DICT dict');
     Some (found, vm\<lparr>vm_heap := h'\<rparr>)
   }"

definition vm_hput :: "flux_vm \<Rightarrow> ptr \<Rightarrow> payload \<Rightarrow> flux_vm option" where
  "vm_hput vm p pl = do { h \<leftarrow> hput (vm_heap vm) p pl; Some (vm\<lparr>vm_heap := h\<rparr>) }"

text \<open>The intern table of the machine; \<open>string_table_grow\<close> accounts for the swap of the buffers.\<close>

definition vm_string_table_set :: "flux_vm \<Rightarrow> ptr \<Rightarrow> flux_vm option" where
  "vm_string_table_set vm p = do {
     t \<leftarrow> string_table_set (vm_heap vm) (vm_strings vm) p;
     Some (vm\<lparr>vm_strings := t,
              vm_bytes_allocated := vm_bytes_allocated vm + of_nat (sizeof_ptr * st_capacity t)
                - of_nat (sizeof_ptr * st_capacity (vm_strings vm))\<rparr>)
   }"

definition vm_string_table_remove :: "flux_vm \<Rightarrow> ptr \<Rightarrow> flux_vm option" where
  "vm_string_table_remove vm p = do {
     t \<leftarrow> string_table_remove (vm_heap vm) (vm_strings vm) p;
     Some (vm\<lparr>vm_strings := t\<rparr>)
   }"

end
