(* ===== verification/GC.thy ===== *)
theory GC
  imports VMState
begin

text \<open>
  The mark-and-sweep collector of \<^verbatim>\<open>src/gc/gc.c\<close> and \<^verbatim>\<open>object_free\<close> of \<^verbatim>\<open>src/object/object.c\<close>.
\<close>

section \<open>Marking\<close>

text \<open>A NULL pointer is ignored; a dangling one is undefined.\<close>

definition gc_mark_object :: "flux_vm \<Rightarrow> ptr option \<Rightarrow> flux_vm option" where
  "gc_mark_object vm obj =
     (case obj of
        None \<Rightarrow> Some vm
      | Some p \<Rightarrow> (case hget (vm_heap vm) p of
          None \<Rightarrow> None
        | Some ob \<Rightarrow>
            if marked ob then Some vm
            else
              let vm1 = vm\<lparr>vm_heap := (vm_heap vm)[p := Some (ob\<lparr>marked := True\<rparr>)]\<rparr>;
                  old_cap = vm_grey_capacity vm;
                  vm2 = (if old_cap \<le> length (vm_grey_stack vm)
                         then vm1\<lparr>vm_grey_capacity := flux_grow_capacity old_cap,
                                  vm_bytes_allocated := vm_bytes_allocated vm +
                                    (of_nat (sizeof_ptr * flux_grow_capacity old_cap) - of_nat (sizeof_ptr * old_cap))\<rparr>
                         else vm1)
              in Some (vm2\<lparr>vm_grey_stack := p # vm_grey_stack vm\<rparr>)))"

definition gc_mark_value :: "flux_vm \<Rightarrow> flux_value \<Rightarrow> flux_vm option" where
  "gc_mark_value vm v = (case v of VAL_OBJECT p \<Rightarrow> gc_mark_object vm (Some p) | _ \<Rightarrow> Some vm)"

definition gc_mark_values :: "flux_vm \<Rightarrow> flux_value list \<Rightarrow> flux_vm option" where
  "gc_mark_values vm vs = fold_opt (\<lambda>v vm. gc_mark_value vm v) vs vm"

definition gc_mark_array :: "flux_vm \<Rightarrow> value_array \<Rightarrow> flux_vm option" where
  "gc_mark_array vm arr = gc_mark_values vm (va_data arr)"

definition gc_mark_objects :: "flux_vm \<Rightarrow> ptr option list \<Rightarrow> flux_vm option" where
  "gc_mark_objects vm ps = fold_opt (\<lambda>p vm. gc_mark_object vm p) ps vm"

definition mark_roots :: "flux_vm \<Rightarrow> flux_vm option" where
  "mark_roots vm0 = do {
     vm \<leftarrow> gc_mark_values vm0 (vm_stack vm0);
     vm \<leftarrow> gc_mark_objects vm (map (\<lambda>f. Some (fr_closure f)) (vm_frames vm0));
     vm \<leftarrow> gc_mark_objects vm (map Some (vm_open_upvalues vm0));
     vm \<leftarrow> gc_mark_object vm (vm_globals vm0);
     vm \<leftarrow> gc_mark_object vm (vm_modules vm0);
     vm \<leftarrow> gc_mark_object vm (vm_class_string vm0);
     vm \<leftarrow> gc_mark_object vm (vm_class_list vm0);
     vm \<leftarrow> gc_mark_object vm (vm_class_dict vm0);
     vm \<leftarrow> gc_mark_object vm (vm_class_int vm0);
     vm \<leftarrow> gc_mark_object vm (vm_class_float vm0);
     vm \<leftarrow> gc_mark_object vm (vm_class_bool vm0);
     vm \<leftarrow> gc_mark_object vm (vm_class_enum_member vm0);
     vm \<leftarrow> gc_mark_objects vm (map Some (vm_ready_queue vm0));
     vm \<leftarrow> gc_mark_object vm (vm_current_coroutine vm0);
     vm \<leftarrow> gc_mark_objects vm (map Some (vm_io_futures vm0));
     vm \<leftarrow> gc_mark_object vm (vm_main_coroutine vm0);
     vm \<leftarrow> gc_mark_value vm (vm_current_exception vm0);
     gc_mark_object vm (vm_gen_yield_collector vm0)
   }"

definition blacken_entry :: "dict_entry \<Rightarrow> flux_vm \<Rightarrow> flux_vm option" where
  "blacken_entry e vm =
     (case de_key e of
        None \<Rightarrow> Some vm
      | Some k \<Rightarrow> do { vm \<leftarrow> gc_mark_object vm (Some k); gc_mark_value vm (de_value e) })"

definition blacken_object :: "flux_vm \<Rightarrow> ptr \<Rightarrow> flux_vm option" where
  "blacken_object vm obj = do {
     pl \<leftarrow> hpayload (vm_heap vm) obj;
     case pl of
       OBJ_STRING _ \<Rightarrow> Some vm
     | OBJ_NATIVE _ \<Rightarrow> Some vm
     | OBJ_UPVALUE uv \<Rightarrow> gc_mark_value vm (uv_closed uv)
     | OBJ_FUNCTION fn \<Rightarrow> do {
         vm \<leftarrow> gc_mark_object vm (fn_name fn);
         vm \<leftarrow> gc_mark_object vm (fn_source_file fn);
         gc_mark_array vm (ch_constants (fn_chunk fn))
       }
     | OBJ_CLOSURE cl \<Rightarrow> do {
         vm \<leftarrow> gc_mark_object vm (Some (cl_function cl));
         gc_mark_objects vm (cl_upvalues cl)
       }
     | OBJ_LIST l \<Rightarrow> gc_mark_array vm (elements l)
     | OBJ_DICT d \<Rightarrow> fold_opt blacken_entry (d_entries d) vm
     | OBJ_CLASS k \<Rightarrow> do {
         vm \<leftarrow> gc_mark_object vm (Some (k_name k));
         vm \<leftarrow> gc_mark_object vm (k_methods k);
         gc_mark_object vm (k_superclass k)
       }
     | OBJ_INSTANCE inst \<Rightarrow> do {
         vm \<leftarrow> gc_mark_object vm (Some (i_klass inst));
         gc_mark_object vm (i_fields inst)
       }
     | OBJ_BOUND_METHOD bm \<Rightarrow> do {
         vm \<leftarrow> gc_mark_value vm (bm_receiver bm);
         gc_mark_object vm (Some (bm_method bm))
       }
     | OBJ_COROUTINE co \<Rightarrow> do {
         vm \<leftarrow> gc_mark_object vm (Some (co_closure co));
         vm \<leftarrow> gc_mark_values vm (co_stack co);
         vm \<leftarrow> gc_mark_objects vm (map (\<lambda>f. Some (fr_closure f)) (co_frames co));
         vm \<leftarrow> gc_mark_value vm (co_result co);
         vm \<leftarrow> gc_mark_object vm (co_awaited_by co);
         vm \<leftarrow> gc_mark_object vm (co_pending_future co);
         gc_mark_object vm (co_gather_future co)
       }
     | OBJ_FUTURE fut \<Rightarrow> do {
         vm \<leftarrow> gc_mark_value vm (fut_result fut);
         vm \<leftarrow> gc_mark_object vm (fut_waiting fut);
         gc_mark_values vm (case fut_gather_results fut of None \<Rightarrow> [] | Some rs \<Rightarrow> take (fut_gather_count fut) rs)
       }
   }"

section \<open>What marking does\<close>

text \<open>The pointers that marking an object visits, in order: the edges of the object graph.\<close>

fun value_refs :: "flux_value \<Rightarrow> ptr list" where
  "value_refs (VAL_OBJECT p) = [p]"
| "value_refs _ = []"

fun opt_refs :: "ptr option \<Rightarrow> ptr list" where
  "opt_refs (Some p) = [p]"
| "opt_refs None = []"

definition values_refs :: "flux_value list \<Rightarrow> ptr list" where
  "values_refs vs = concat (map value_refs vs)"

definition entry_refs :: "dict_entry \<Rightarrow> ptr list" where
  "entry_refs e = (case de_key e of None \<Rightarrow> [] | Some k \<Rightarrow> k # value_refs (de_value e))"

fun payload_refs :: "payload \<Rightarrow> ptr list" where
  "payload_refs (OBJ_STRING _) = []"
| "payload_refs (OBJ_NATIVE _) = []"
| "payload_refs (OBJ_UPVALUE uv) = value_refs (uv_closed uv)"
| "payload_refs (OBJ_FUNCTION fn) =
     opt_refs (fn_name fn) @ opt_refs (fn_source_file fn) @ values_refs (va_data (ch_constants (fn_chunk fn)))"
| "payload_refs (OBJ_CLOSURE cl) = cl_function cl # concat (map opt_refs (cl_upvalues cl))"
| "payload_refs (OBJ_LIST l) = values_refs (va_data (elements l))"
| "payload_refs (OBJ_DICT d) = concat (map entry_refs (d_entries d))"
| "payload_refs (OBJ_CLASS k) = k_name k # opt_refs (k_methods k) @ opt_refs (k_superclass k)"
| "payload_refs (OBJ_INSTANCE inst) = i_klass inst # opt_refs (i_fields inst)"
| "payload_refs (OBJ_BOUND_METHOD bm) = value_refs (bm_receiver bm) @ [bm_method bm]"
| "payload_refs (OBJ_COROUTINE co) =
     co_closure co # values_refs (co_stack co) @ map fr_closure (co_frames co) @
     value_refs (co_result co) @ opt_refs (co_awaited_by co) @ opt_refs (co_pending_future co) @
     opt_refs (co_gather_future co)"
| "payload_refs (OBJ_FUTURE fut) =
     value_refs (fut_result fut) @ opt_refs (fut_waiting fut) @
     values_refs (case fut_gather_results fut of None \<Rightarrow> [] | Some rs \<Rightarrow> take (fut_gather_count fut) rs)"

definition root_refs :: "flux_vm \<Rightarrow> ptr list" where
  "root_refs vm =
     values_refs (vm_stack vm) @ map fr_closure (vm_frames vm) @ vm_open_upvalues vm @
     opt_refs (vm_globals vm) @ opt_refs (vm_modules vm) @
     opt_refs (vm_class_string vm) @ opt_refs (vm_class_list vm) @ opt_refs (vm_class_dict vm) @
     opt_refs (vm_class_int vm) @ opt_refs (vm_class_float vm) @ opt_refs (vm_class_bool vm) @
     opt_refs (vm_class_enum_member vm) @ vm_ready_queue vm @ opt_refs (vm_current_coroutine vm) @
     vm_io_futures vm @ opt_refs (vm_main_coroutine vm) @ value_refs (vm_current_exception vm) @
     opt_refs (vm_gen_yield_collector vm)"

definition mark_refs :: "ptr list \<Rightarrow> flux_vm \<Rightarrow> flux_vm option" where
  "mark_refs = fold_opt (\<lambda>p vm. gc_mark_object vm (Some p))"

lemma mark_refs_simps [simp]:
  "mark_refs [] vm = Some vm"
  "mark_refs (p # ps) vm = Option.bind (gc_mark_object vm (Some p)) (mark_refs ps)"
  by (simp_all add: mark_refs_def)

lemma mark_refs_append: "mark_refs (ps @ qs) vm = Option.bind (mark_refs ps vm) (mark_refs qs)"
  by (simp add: mark_refs_def fold_opt_append)

lemma mark_refs_single: "mark_refs [p] vm = gc_mark_object vm (Some p)"
  by (cases "gc_mark_object vm (Some p)") simp_all

lemma gc_mark_object_refs: "gc_mark_object vm p = mark_refs (opt_refs p) vm"
  by (cases p) (simp_all add: mark_refs_single gc_mark_object_def del: mark_refs_simps(2))

lemma gc_mark_value_refs: "gc_mark_value vm v = mark_refs (value_refs v) vm"
  by (cases v) (simp_all add: gc_mark_value_def mark_refs_single del: mark_refs_simps(2))

lemma fold_opt_refs:
  assumes "\<And>x vm. f x vm = mark_refs (g x) vm"
  shows "fold_opt f xs vm = mark_refs (concat (map g xs)) vm"
proof -
  have "f = (\<lambda>x. mark_refs (g x))" using assms by (intro ext)
  moreover have "fold_opt (\<lambda>x. mark_refs (g x)) xs = mark_refs (concat (map g xs))"
    by (induction xs) (auto simp: mark_refs_append)
  ultimately show ?thesis by simp
qed

lemma gc_mark_values_refs: "gc_mark_values vm vs = mark_refs (values_refs vs) vm"
  unfolding gc_mark_values_def values_refs_def by (rule fold_opt_refs) (rule gc_mark_value_refs)

lemma gc_mark_objects_refs: "gc_mark_objects vm ps = mark_refs (concat (map opt_refs ps)) vm"
  unfolding gc_mark_objects_def by (rule fold_opt_refs) (rule gc_mark_object_refs)

lemma concat_map_Some: "concat (map opt_refs (map (\<lambda>x. Some (f x)) xs)) = map f xs"
  by (induction xs) simp_all

lemma blacken_entry_refs: "blacken_entry e vm = mark_refs (entry_refs e) vm"
  by (simp add: blacken_entry_def entry_refs_def gc_mark_value_refs [abs_def] split: option.split)

lemmas mark_refs_eqs = gc_mark_object_refs gc_mark_value_refs gc_mark_values_refs gc_mark_objects_refs
  gc_mark_array_def concat_map_Some

lemma mark_roots_refs: "mark_roots vm = mark_refs (root_refs vm) vm"
  unfolding mark_roots_def root_refs_def mark_refs_eqs mark_refs_append
  using concat_map_Some [of "\<lambda>x. x"] by simp

lemma mark_refs_fold:
  "mark_refs (opt_refs p) = (\<lambda>vm. gc_mark_object vm p)"
  "mark_refs (value_refs v) = (\<lambda>vm. gc_mark_value vm v)"
  "mark_refs (values_refs vs) = (\<lambda>vm. gc_mark_values vm vs)"
  "mark_refs (concat (map opt_refs ps)) = (\<lambda>vm. gc_mark_objects vm ps)"
  "mark_refs (map fr_closure fs) = (\<lambda>vm. gc_mark_objects vm (map (\<lambda>f. Some (fr_closure f)) fs))"
  "mark_refs (concat (map entry_refs es)) = fold_opt blacken_entry es"
  "mark_refs (rs @ qs) = (\<lambda>vm. Option.bind (mark_refs rs vm) (mark_refs qs))"
  using concat_map_Some [of fr_closure fs]
  by (simp_all add: fun_eq_iff mark_refs_eqs fold_opt_refs [OF blacken_entry_refs]
      mark_refs_append del: mark_refs_simps(2) map_map)

lemma mark_refs_Cons:
  "mark_refs (p # ps) = (\<lambda>vm. Option.bind (gc_mark_object vm (Some p)) (mark_refs ps))"
  "mark_refs [] = Some"
  "Option.bind m Some = m"
  by (simp_all add: fun_eq_iff)

lemma blacken_payload:
  "(case pl of
       OBJ_STRING _ \<Rightarrow> Some vm
     | OBJ_NATIVE _ \<Rightarrow> Some vm
     | OBJ_UPVALUE uv \<Rightarrow> gc_mark_value vm (uv_closed uv)
     | OBJ_FUNCTION fn \<Rightarrow> do {
         vm \<leftarrow> gc_mark_object vm (fn_name fn);
         vm \<leftarrow> gc_mark_object vm (fn_source_file fn);
         gc_mark_array vm (ch_constants (fn_chunk fn))
       }
     | OBJ_CLOSURE cl \<Rightarrow> do {
         vm \<leftarrow> gc_mark_object vm (Some (cl_function cl));
         gc_mark_objects vm (cl_upvalues cl)
       }
     | OBJ_LIST l \<Rightarrow> gc_mark_array vm (elements l)
     | OBJ_DICT d \<Rightarrow> fold_opt blacken_entry (d_entries d) vm
     | OBJ_CLASS k \<Rightarrow> do {
         vm \<leftarrow> gc_mark_object vm (Some (k_name k));
         vm \<leftarrow> gc_mark_object vm (k_methods k);
         gc_mark_object vm (k_superclass k)
       }
     | OBJ_INSTANCE inst \<Rightarrow> do {
         vm \<leftarrow> gc_mark_object vm (Some (i_klass inst));
         gc_mark_object vm (i_fields inst)
       }
     | OBJ_BOUND_METHOD bm \<Rightarrow> do {
         vm \<leftarrow> gc_mark_value vm (bm_receiver bm);
         gc_mark_object vm (Some (bm_method bm))
       }
     | OBJ_COROUTINE co \<Rightarrow> do {
         vm \<leftarrow> gc_mark_object vm (Some (co_closure co));
         vm \<leftarrow> gc_mark_values vm (co_stack co);
         vm \<leftarrow> gc_mark_objects vm (map (\<lambda>f. Some (fr_closure f)) (co_frames co));
         vm \<leftarrow> gc_mark_value vm (co_result co);
         vm \<leftarrow> gc_mark_object vm (co_awaited_by co);
         vm \<leftarrow> gc_mark_object vm (co_pending_future co);
         gc_mark_object vm (co_gather_future co)
       }
     | OBJ_FUTURE fut \<Rightarrow> do {
         vm \<leftarrow> gc_mark_value vm (fut_result fut);
         vm \<leftarrow> gc_mark_object vm (fut_waiting fut);
         gc_mark_values vm (case fut_gather_results fut of None \<Rightarrow> [] | Some rs \<Rightarrow> take (fut_gather_count fut) rs)
       }) = mark_refs (payload_refs pl) vm"
  by (cases pl) (simp_all only: payload.case payload_refs.simps mark_refs_simps(1) mark_refs_fold
      gc_mark_array_def mark_refs_Cons)

lemma blacken_object_refs:
  "blacken_object vm p = Option.bind (hpayload (vm_heap vm) p) (\<lambda>pl. mark_refs (payload_refs pl) vm)"
  unfolding blacken_object_def blacken_payload ..

section \<open>Tracing\<close>

definition unmarked_count :: "heap \<Rightarrow> nat" where
  "unmarked_count h = length (filter (\<lambda>x. \<exists>ob. x = Some ob \<and> \<not> marked ob) h)"

definition gc_work :: "flux_vm \<Rightarrow> nat" where
  "gc_work vm = 2 * unmarked_count (vm_heap vm) + length (vm_grey_stack vm)"

lemma unmarked_count_mark:
  assumes "hget h p = Some ob" "\<not> marked ob"
  shows "Suc (unmarked_count (h[p := Some (ob\<lparr>marked := True\<rparr>)])) = unmarked_count h"
proof -
  have p: "p < length h" "h ! p = Some ob" using assms by (auto simp: hget_def split: if_splits)
  let ?P = "\<lambda>x. \<exists>ob. x = Some ob \<and> \<not> marked ob"
  have "filter ?P (h[p := Some (ob\<lparr>marked := True\<rparr>)]) = filter ?P (take p h) @ filter ?P (drop (Suc p) h)"
    using p by (simp add: upd_conv_take_nth_drop)
  moreover have "filter ?P h = filter ?P (take p h) @ Some ob # filter ?P (drop (Suc p) h)"
    using p assms(2) by (subst id_take_nth_drop [OF p(1)]) simp
  ultimately show ?thesis by (simp add: unmarked_count_def)
qed

lemma gc_mark_object_work:
  "gc_mark_object vm p = Some vm' \<Longrightarrow> gc_work vm' \<le> gc_work vm"
  using unmarked_count_mark
  by (fastforce simp: gc_mark_object_def gc_work_def Let_def split: option.splits if_splits)

lemma mark_refs_work: "mark_refs ps vm = Some vm' \<Longrightarrow> gc_work vm' \<le> gc_work vm"
proof (induction ps arbitrary: vm)
  case (Cons p ps)
  then show ?case by (auto simp: bind_Some_iff) (meson gc_mark_object_work le_trans)
qed simp

function trace_references :: "flux_vm \<Rightarrow> flux_vm option" where
  "trace_references vm =
     (case vm_grey_stack vm of
        [] \<Rightarrow> Some vm
      | obj # rest \<Rightarrow>
          (case blacken_object (vm\<lparr>vm_grey_stack := rest\<rparr>) obj of
             None \<Rightarrow> None
           | Some vm' \<Rightarrow> trace_references vm'))"
  by pat_completeness auto
termination
proof (relation "measure gc_work")
  fix vm obj rest vm'
  assume grey: "vm_grey_stack vm = obj # rest"
    and b: "blacken_object (vm\<lparr>vm_grey_stack := rest\<rparr>) obj = Some vm'"
  from b have "gc_work vm' \<le> gc_work (vm\<lparr>vm_grey_stack := rest\<rparr>)"
    by (auto simp: blacken_object_refs bind_Some_iff dest: mark_refs_work)
  also have "\<dots> < gc_work vm" using grey by (simp add: gc_work_def)
  finally show "(vm', vm) \<in> measure gc_work" by simp
qed simp

declare trace_references.simps [simp del]

section \<open>Sweeping\<close>

definition object_free :: "flux_vm \<Rightarrow> ptr \<Rightarrow> flux_vm option" where
  "object_free vm p = do {
     ob \<leftarrow> hget (vm_heap vm) p;
     Some (vm\<lparr>vm_bytes_allocated := vm_bytes_allocated vm - of_nat (owned_size (payload ob)),
              vm_heap := (vm_heap vm)[p := None]\<rparr>)
   }"

fun is_string :: "payload \<Rightarrow> bool" where
  "is_string (OBJ_STRING _) = True"
| "is_string _ = False"

text \<open>The loop of \<open>sweep\<close>: the objects that stay linked, in order, and the machine.\<close>

fun sweep_loop :: "ptr list \<Rightarrow> flux_vm \<Rightarrow> (ptr list \<times> flux_vm) option" where
  "sweep_loop [] vm = Some ([], vm)"
| "sweep_loop (obj # objs) vm = do {
     ob \<leftarrow> hget (vm_heap vm) obj;
     if marked ob
     then do {
       (kept, vm') \<leftarrow> sweep_loop objs (vm\<lparr>vm_heap := (vm_heap vm)[obj := Some (ob\<lparr>marked := False\<rparr>)]\<rparr>);
       Some (obj # kept, vm')
     }
     else do {
       vm1 \<leftarrow> (if is_string (payload ob) then vm_string_table_remove vm obj else Some vm);
       vm2 \<leftarrow> object_free
         (vm1\<lparr>vm_bytes_allocated := vm_bytes_allocated vm1 - of_nat (headline_size (payload ob))\<rparr>) obj;
       sweep_loop objs vm2
     }
   }"

definition sweep :: "flux_vm \<Rightarrow> flux_vm option" where
  "sweep vm = do {
     (kept, vm') \<leftarrow> sweep_loop (vm_objects vm) vm;
     Some (vm'\<lparr>vm_objects := kept\<rparr>)
   }"

section \<open>Collection and allocation\<close>

definition gc_collect :: "flux_vm \<Rightarrow> flux_vm option" where
  "gc_collect vm = do {
     vm \<leftarrow> mark_roots vm;
     vm \<leftarrow> trace_references vm;
     vm \<leftarrow> sweep vm;
     Some (vm\<lparr>vm_next_gc := vm_bytes_allocated vm * FLUX_GC_HEAP_GROW_FACTOR\<rparr>)
   }"

text \<open>
  \<open>gc_alloc_object(vm, size, type)\<close> followed by the initialisation of the fields, which no caller
  separates by a collection: the new address is the next one of the heap.
\<close>

definition gc_alloc_object :: "flux_vm \<Rightarrow> payload \<Rightarrow> (ptr \<times> flux_vm) option" where
  "gc_alloc_object vm pl =
     (let vm1 = vm\<lparr>vm_bytes_allocated := vm_bytes_allocated vm + of_nat (headline_size pl)\<rparr> in do {
        vm2 \<leftarrow> (if vm_next_gc vm1 < vm_bytes_allocated vm1 then gc_collect vm1 else Some vm1);
        let p = length (vm_heap vm2);
        Some (p, vm2\<lparr>vm_heap := vm_heap vm2 @ [Some \<lparr>marked = False, payload = pl\<rparr>],
                     vm_objects := p # vm_objects vm2\<rparr>)
      })"

text \<open>The accounting of \<open>gc_realloc\<close>; the buffer itself belongs to the caller.\<close>

definition gc_realloc :: "flux_vm \<Rightarrow> nat \<Rightarrow> nat \<Rightarrow> flux_vm option" where
  "gc_realloc vm old_size new_size =
     (if old_size \<le> new_size
      then let vm1 = vm\<lparr>vm_bytes_allocated := vm_bytes_allocated vm + of_nat (new_size - old_size)\<rparr>
           in if vm_next_gc vm1 < vm_bytes_allocated vm1 then gc_collect vm1 else Some vm1
      else Some (vm\<lparr>vm_bytes_allocated := vm_bytes_allocated vm - of_nat (old_size - new_size)\<rparr>))"

text \<open>\<open>gc_value_array_write(vm, &list->elements, v)\<close> on the list at \<open>l\<close>, its only use.\<close>

definition gc_value_array_write :: "flux_vm \<Rightarrow> ptr \<Rightarrow> flux_value \<Rightarrow> flux_vm option" where
  "gc_value_array_write vm l v = do {
     lst \<leftarrow> get_list (vm_heap vm) l;
     vm1 \<leftarrow> (let cap = va_capacity (elements lst) in
       if cap \<le> va_count (elements lst)
       then let vm1 = vm\<lparr>vm_bytes_allocated := vm_bytes_allocated vm +
                   of_nat (sizeof_value * flux_grow_capacity cap - sizeof_value * cap)\<rparr>
            in if vm_next_gc vm1 < vm_bytes_allocated vm1 then gc_collect vm1 else Some vm1
       else Some vm);
     lst' \<leftarrow> get_list (vm_heap vm1) l;
     vm_hput vm1 l (OBJ_LIST (lst'\<lparr>elements := value_array_write (elements lst') v\<rparr>))
   }"

end
