(* ===== verification/GCProofs.thy ===== *)
theory GCProofs
  imports GC
begin

text \<open>
  Correctness of the collector: marking computes exactly the objects reachable from the roots,
  sweeping removes exactly the others, and the intern table loses exactly the strings that die.
\<close>

section \<open>The object graph\<close>

definition allocated :: "heap \<Rightarrow> ptr set" where
  "allocated h = {p. hget h p \<noteq> None}"

definition marked_set :: "heap \<Rightarrow> ptr set" where
  "marked_set h = {p. \<exists>ob. hget h p = Some ob \<and> marked ob}"

definition heap_refs :: "heap \<Rightarrow> ptr \<Rightarrow> ptr set" where
  "heap_refs h p = (case hpayload h p of None \<Rightarrow> {} | Some pl \<Rightarrow> set (payload_refs pl))"

definition edges :: "heap \<Rightarrow> (ptr \<times> ptr) set" where
  "edges h = {(p, q). q \<in> heap_refs h p}"

definition reachable :: "flux_vm \<Rightarrow> ptr set" where
  "reachable vm = (edges (vm_heap vm))\<^sup>* `` set (root_refs vm)"

definition heap_closed :: "heap \<Rightarrow> bool" where
  "heap_closed h \<longleftrightarrow> (\<forall>p \<in> allocated h. heap_refs h p \<subseteq> allocated h)"

definition strings_ok :: "heap \<Rightarrow> bool" where
  "strings_ok h \<longleftrightarrow> (\<forall>p s. get_string h p = Some s \<longrightarrow> string_ok h p)"

text \<open>The well-formedness of the machine between two operations.\<close>

definition gc_ok :: "flux_vm \<Rightarrow> bool" where
  "gc_ok vm \<longleftrightarrow>
     distinct (vm_objects vm) \<and> set (vm_objects vm) = allocated (vm_heap vm) \<and>
     heap_closed (vm_heap vm) \<and> set (root_refs vm) \<subseteq> allocated (vm_heap vm) \<and>
     marked_set (vm_heap vm) = {} \<and> vm_grey_stack vm = [] \<and>
     strings_ok (vm_heap vm) \<and> intern_ok (vm_heap vm) (vm_strings vm)"

text \<open>Two heaps with the same objects up to the mark bits.\<close>

definition same_payloads :: "heap \<Rightarrow> heap \<Rightarrow> bool" where
  "same_payloads h h' \<longleftrightarrow> length h' = length h \<and> (\<forall>p. hpayload h' p = hpayload h p)"

lemma string_ok_allocated: "string_ok h p \<Longrightarrow> p \<in> allocated h"
  by (cases "hget h p") (auto simp: allocated_def string_ok_def get_string_def hpayload_def)

lemma same_payloads_refl [simp]: "same_payloads h h"
  by (simp add: same_payloads_def)

lemma same_payloads_trans: "same_payloads h1 h2 \<Longrightarrow> same_payloads h2 h3 \<Longrightarrow> same_payloads h1 h3"
  by (simp add: same_payloads_def)

lemma same_payloads_mark:
  "hget h p = Some ob \<Longrightarrow> same_payloads h (h[p := Some (ob\<lparr>marked := b\<rparr>)])"
  by (auto simp: same_payloads_def hpayload_def hget_update dest: hget_Some_less)

lemma same_payloads_get:
  assumes "same_payloads h h'"
  shows "get_string h' = get_string h" "heap_refs h' = heap_refs h" "edges h' = edges h"
    "allocated h' = allocated h" "string_ok h' = string_ok h"
proof -
  show s: "get_string h' = get_string h" "heap_refs h' = heap_refs h"
    using assms by (simp_all add: fun_eq_iff same_payloads_def get_string_def heap_refs_def)
  show "edges h' = edges h" using s by (simp add: edges_def)
  show "string_ok h' = string_ok h" using s by (simp add: fun_eq_iff string_ok_def)
  have "hget h' p = None \<longleftrightarrow> hget h p = None" for p
    using assms by (auto simp: same_payloads_def hpayload_def) (metis option.map_disc_iff)+
  then show "allocated h' = allocated h" by (simp add: allocated_def)
qed

lemma same_payloads_intern:
  "same_payloads h h' \<Longrightarrow> intern_ok h' t \<longleftrightarrow> intern_ok h t"
  using same_payloads_get(1) by (intro intern_ok_cong) simp

section \<open>Marking\<close>

text \<open>Marking changes nothing but mark bits, the grey stack and the byte counter by the growth of
  the grey stack.\<close>

definition mark_frame :: "flux_vm \<Rightarrow> flux_vm \<Rightarrow> bool" where
  "mark_frame vm vm' \<longleftrightarrow>
     (\<exists>h g c b. vm' = vm\<lparr>vm_heap := h, vm_grey_stack := g, vm_grey_capacity := c, vm_bytes_allocated := b\<rparr> \<and>
        same_payloads (vm_heap vm) h \<and>
        b - of_nat (sizeof_ptr * c) = vm_bytes_allocated vm - of_nat (sizeof_ptr * vm_grey_capacity vm))"

lemma mark_frame_refl: "mark_frame vm vm"
  unfolding mark_frame_def
  by (intro exI [of _ "vm_heap vm"] exI [of _ "vm_grey_stack vm"] exI [of _ "vm_grey_capacity vm"]
      exI [of _ "vm_bytes_allocated vm"]) simp

lemma mark_frame_trans: "mark_frame vm1 vm2 \<Longrightarrow> mark_frame vm2 vm3 \<Longrightarrow> mark_frame vm1 vm3"
  unfolding mark_frame_def using same_payloads_trans by fastforce

lemma mark_frame_payloads: "mark_frame vm vm' \<Longrightarrow> same_payloads (vm_heap vm) (vm_heap vm')"
  by (auto simp: mark_frame_def)

lemma mark_frame_roots: "mark_frame vm vm' \<Longrightarrow> root_refs vm' = root_refs vm"
  by (auto simp: mark_frame_def root_refs_def)

lemma gc_mark_object_spec:
  assumes "p \<in> allocated (vm_heap vm)"
  shows "\<exists>vm'. gc_mark_object vm (Some p) = Some vm' \<and> mark_frame vm vm' \<and>
    marked_set (vm_heap vm') = insert p (marked_set (vm_heap vm)) \<and>
    set (vm_grey_stack vm') = set (vm_grey_stack vm) \<union> ({p} - marked_set (vm_heap vm))"
proof -
  from assms obtain ob where ob: "hget (vm_heap vm) p = Some ob" by (auto simp: allocated_def)
  show ?thesis
  proof (cases "marked ob")
    case True
    then show ?thesis using ob mark_frame_refl
      by (auto simp: gc_mark_object_def marked_set_def)
  next
    case False
    let ?h = "(vm_heap vm)[p := Some (ob\<lparr>marked := True\<rparr>)]"
    let ?c = "if vm_grey_capacity vm \<le> length (vm_grey_stack vm)
      then flux_grow_capacity (vm_grey_capacity vm) else vm_grey_capacity vm"
    let ?b = "if vm_grey_capacity vm \<le> length (vm_grey_stack vm)
      then vm_bytes_allocated vm + (of_nat (sizeof_ptr * flux_grow_capacity (vm_grey_capacity vm))
        - of_nat (sizeof_ptr * vm_grey_capacity vm)) else vm_bytes_allocated vm"
    let ?vm = "vm\<lparr>vm_heap := ?h, vm_grey_stack := p # vm_grey_stack vm, vm_grey_capacity := ?c,
      vm_bytes_allocated := ?b\<rparr>"
    have "gc_mark_object vm (Some p) = Some ?vm"
      using ob False by (simp add: gc_mark_object_def Let_def)
    moreover have "mark_frame vm ?vm"
      unfolding mark_frame_def
      by (intro exI [of _ ?h] exI [of _ "p # vm_grey_stack vm"] exI [of _ ?c] exI [of _ ?b] conjI refl
          same_payloads_mark [OF ob]) simp
    moreover have "marked_set ?h = insert p (marked_set (vm_heap vm))"
      using hget_Some_less [OF ob] by (auto simp: marked_set_def hget_update)
    moreover have "p \<notin> marked_set (vm_heap vm)" using ob False by (auto simp: marked_set_def)
    ultimately show ?thesis by auto
  qed
qed

lemma mark_refs_spec:
  assumes "set ps \<subseteq> allocated (vm_heap vm)"
  shows "\<exists>vm'. mark_refs ps vm = Some vm' \<and> mark_frame vm vm' \<and>
    marked_set (vm_heap vm') = set ps \<union> marked_set (vm_heap vm) \<and>
    set (vm_grey_stack vm') = set (vm_grey_stack vm) \<union> (set ps - marked_set (vm_heap vm))"
  using assms
proof (induction ps arbitrary: vm)
  case Nil
  then show ?case using mark_frame_refl by auto
next
  case (Cons p ps)
  then obtain vm1 where vm1: "gc_mark_object vm (Some p) = Some vm1" "mark_frame vm vm1"
    "marked_set (vm_heap vm1) = insert p (marked_set (vm_heap vm))"
    "set (vm_grey_stack vm1) = set (vm_grey_stack vm) \<union> ({p} - marked_set (vm_heap vm))"
    using gc_mark_object_spec [of p vm] by auto
  have "set ps \<subseteq> allocated (vm_heap vm1)"
    using Cons.prems same_payloads_get(4) [OF mark_frame_payloads [OF vm1(2)]] by simp
  from Cons.IH [OF this] obtain vm2 where vm2: "mark_refs ps vm1 = Some vm2" "mark_frame vm1 vm2"
    "marked_set (vm_heap vm2) = set ps \<union> marked_set (vm_heap vm1)"
    "set (vm_grey_stack vm2) = set (vm_grey_stack vm1) \<union> (set ps - marked_set (vm_heap vm1))"
    by auto
  then show ?case using vm1 mark_frame_trans [OF vm1(2) vm2(2)] by auto
qed

section \<open>Tracing\<close>

text \<open>The tricolour invariant: a marked object is grey, or all its references are marked.\<close>

definition tricolour :: "flux_vm \<Rightarrow> bool" where
  "tricolour vm \<longleftrightarrow>
     set (vm_grey_stack vm) \<subseteq> marked_set (vm_heap vm) \<and>
     (\<forall>p \<in> marked_set (vm_heap vm). p \<in> set (vm_grey_stack vm) \<or>
        heap_refs (vm_heap vm) p \<subseteq> marked_set (vm_heap vm))"

lemma marked_allocated: "marked_set h \<subseteq> allocated h"
  by (auto simp: marked_set_def allocated_def)

lemma trace_references_spec:
  assumes "heap_closed (vm_heap vm)" "tricolour vm" "marked_set (vm_heap vm) \<subseteq> R"
    and "\<And>p. p \<in> R \<Longrightarrow> heap_refs (vm_heap vm) p \<subseteq> R"
  shows "\<exists>vm'. trace_references vm = Some vm' \<and> mark_frame vm vm' \<and> vm_grey_stack vm' = [] \<and>
    marked_set (vm_heap vm) \<subseteq> marked_set (vm_heap vm') \<and> marked_set (vm_heap vm') \<subseteq> R \<and>
    tricolour vm'"
  using assms
proof (induction vm rule: trace_references.induct)
  case (1 vm)
  show ?case
  proof (cases "vm_grey_stack vm")
    case Nil
    then show ?thesis using 1 mark_frame_refl by (auto simp: trace_references.simps [of vm])
  next
    case (Cons p rest)
    let ?vm = "vm\<lparr>vm_grey_stack := rest\<rparr>"
    have frame0: "mark_frame vm ?vm"
      unfolding mark_frame_def
      by (intro exI [of _ "vm_heap vm"] exI [of _ rest] exI [of _ "vm_grey_capacity vm"]
          exI [of _ "vm_bytes_allocated vm"]) simp
    have p: "p \<in> marked_set (vm_heap vm)" using 1(3) Cons by (auto simp: tricolour_def)
    then obtain pl where pl: "hpayload (vm_heap vm) p = Some pl"
      by (auto simp: marked_set_def hpayload_def)
    have refs: "heap_refs (vm_heap vm) p = set (payload_refs pl)" using pl by (simp add: heap_refs_def)
    have "set (payload_refs pl) \<subseteq> allocated (vm_heap ?vm)"
      using 1(2) p refs marked_allocated by (auto simp: heap_closed_def)
    from mark_refs_spec [OF this] obtain vm1 where vm1: "mark_refs (payload_refs pl) ?vm = Some vm1"
      "mark_frame ?vm vm1" "marked_set (vm_heap vm1) = set (payload_refs pl) \<union> marked_set (vm_heap vm)"
      "set (vm_grey_stack vm1) = set rest \<union> (set (payload_refs pl) - marked_set (vm_heap vm))"
      by auto
    have b: "blacken_object ?vm p = Some vm1" using pl vm1(1) by (simp add: blacken_object_refs)
    have frame1: "mark_frame vm vm1" using mark_frame_trans [OF frame0 vm1(2)] .
    note same = same_payloads_get [OF mark_frame_payloads [OF frame1]]
    have closed1: "heap_closed (vm_heap vm1)" using 1(2) same by (simp add: heap_closed_def)
    have tri1: "tricolour vm1"
      using 1(3) Cons vm1(3,4) refs unfolding tricolour_def same by auto
    have "marked_set (vm_heap vm1) \<subseteq> R" using vm1(3) 1(4) 1(5) [of p] p refs by auto
    from 1(1) [OF Cons b closed1 tri1 this] 1(5) obtain vm2 where vm2:
      "trace_references vm1 = Some vm2" "mark_frame vm1 vm2" "vm_grey_stack vm2 = []"
      "marked_set (vm_heap vm1) \<subseteq> marked_set (vm_heap vm2)" "marked_set (vm_heap vm2) \<subseteq> R" "tricolour vm2"
      using same by auto
    have "trace_references vm = Some vm2"
      using Cons b vm2(1) by (simp add: trace_references.simps [of vm])
    then show ?thesis using vm2 vm1(3) mark_frame_trans [OF frame1 vm2(2)] by auto
  qed
qed

lemma mark_phase:
  assumes ok: "gc_ok vm"
  shows "\<exists>vm1 vm2. mark_roots vm = Some vm1 \<and> trace_references vm1 = Some vm2 \<and> mark_frame vm vm2 \<and>
    vm_grey_stack vm2 = [] \<and> marked_set (vm_heap vm2) = reachable vm"
proof -
  let ?R = "reachable vm"
  have closed: "heap_closed (vm_heap vm)" and roots: "set (root_refs vm) \<subseteq> allocated (vm_heap vm)"
    and nomark: "marked_set (vm_heap vm) = {}" and nogrey: "vm_grey_stack vm = []"
    using ok by (simp_all add: gc_ok_def)
  from mark_refs_spec [OF roots] obtain vm1 where vm1: "mark_refs (root_refs vm) vm = Some vm1"
    "mark_frame vm vm1" "marked_set (vm_heap vm1) = set (root_refs vm)"
    "set (vm_grey_stack vm1) = set (root_refs vm)"
    using nomark nogrey by auto
  note same = same_payloads_get [OF mark_frame_payloads [OF vm1(2)]]
  have R_roots: "set (root_refs vm) \<subseteq> ?R" by (auto simp: reachable_def)
  have R_closed: "heap_refs (vm_heap vm) p \<subseteq> ?R" if "p \<in> ?R" for p
    using that by (auto simp: reachable_def edges_def intro: rtrancl_into_rtrancl)
  have "heap_closed (vm_heap vm1)" using closed same by (simp add: heap_closed_def)
  moreover have "tricolour vm1" using vm1(3,4) by (simp add: tricolour_def)
  moreover have "marked_set (vm_heap vm1) \<subseteq> ?R" using vm1(3) R_roots by simp
  moreover have "heap_refs (vm_heap vm1) p \<subseteq> ?R" if "p \<in> ?R" for p using R_closed that same by simp
  ultimately obtain vm2 where vm2: "trace_references vm1 = Some vm2" "mark_frame vm1 vm2"
    "vm_grey_stack vm2 = []" "marked_set (vm_heap vm1) \<subseteq> marked_set (vm_heap vm2)"
    "marked_set (vm_heap vm2) \<subseteq> ?R" "tricolour vm2"
    using trace_references_spec [of vm1 ?R] by blast
  have frame2: "mark_frame vm vm2" using mark_frame_trans [OF vm1(2) vm2(2)] .
  note same2 = same_payloads_get [OF mark_frame_payloads [OF frame2]]
  have "q \<in> marked_set (vm_heap vm2)" if "(p, q) \<in> (edges (vm_heap vm))\<^sup>*" "p \<in> set (root_refs vm)" for p q
    using that
  proof (induction rule: rtrancl_induct)
    case base
    then show ?case using vm1(3) vm2(4) by auto
  next
    case (step q r)
    then have "heap_refs (vm_heap vm2) q \<subseteq> marked_set (vm_heap vm2)"
      using vm2(3,6) by (auto simp: tricolour_def)
    then show ?case using step.hyps(2) same2 by (auto simp: edges_def)
  qed
  then have "?R \<subseteq> marked_set (vm_heap vm2)" by (auto simp: reachable_def)
  then show ?thesis using vm1(1) vm2 frame2 by (auto simp: mark_roots_refs)
qed

section \<open>Sweeping\<close>

definition object_size :: "heap \<Rightarrow> ptr \<Rightarrow> nat" where
  "object_size h p = (case hpayload h p of None \<Rightarrow> 0 | Some pl \<Rightarrow> headline_size pl + owned_size pl)"

text \<open>The heap, intern table and byte counter after the objects \<open>objs\<close> were swept.\<close>

definition swept :: "flux_vm \<Rightarrow> ptr list \<Rightarrow> heap \<Rightarrow> string_table \<Rightarrow> uint64 \<Rightarrow> bool" where
  "swept vm objs h t b \<longleftrightarrow>
        (length h = length (vm_heap vm) \<and>
        (\<forall>q. hget h q = (if q \<in> set objs
           then if q \<in> marked_set (vm_heap vm) then map_option (marked_update (\<lambda>_. False)) (hget (vm_heap vm) q) else None
           else hget (vm_heap vm) q)) \<and>
        intern_ok h t \<and> st_capacity t = st_capacity (vm_strings vm) \<and> st_count t = st_count (vm_strings vm) \<and>
        st_live t = st_live (vm_strings vm) - (set objs - marked_set (vm_heap vm)) \<and>
        b + of_nat (\<Sum>p \<leftarrow> filter (\<lambda>p. p \<notin> marked_set (vm_heap vm)) objs. object_size (vm_heap vm) p) =
          vm_bytes_allocated vm)"

lemma string_table_remove_capacity:
  "string_table_remove h t p = Some t' \<Longrightarrow> st_capacity t' = st_capacity t"
  by (auto simp: string_table_remove_def bind_Some_iff split: if_splits)

text \<open>What one turn of the loop does to an object that was not marked.\<close>

lemma sweep_free:
  assumes ob: "hget (vm_heap vm) p = Some ob" and intern: "intern_ok (vm_heap vm) (vm_strings vm)"
    and str: "is_string (payload ob) \<Longrightarrow> string_ok (vm_heap vm) p"
  shows "\<exists>vm1 t. (if is_string (payload ob) then vm_string_table_remove vm p else Some vm) = Some vm1 \<and>
    vm1 = vm\<lparr>vm_strings := t\<rparr> \<and>
    object_free (vm1\<lparr>vm_bytes_allocated := vm_bytes_allocated vm1 - of_nat (headline_size (payload ob))\<rparr>) p =
      Some (vm\<lparr>vm_heap := (vm_heap vm)[p := None], vm_strings := t,
        vm_bytes_allocated := vm_bytes_allocated vm - of_nat (object_size (vm_heap vm) p)\<rparr>) \<and>
    intern_ok ((vm_heap vm)[p := None]) t \<and> st_capacity t = st_capacity (vm_strings vm) \<and> st_count t = st_count (vm_strings vm) \<and>
    st_live t = st_live (vm_strings vm) - {p}"
proof -
  have "\<exists>t. (if is_string (payload ob) then vm_string_table_remove vm p else Some vm) = Some (vm\<lparr>vm_strings := t\<rparr>) \<and>
    intern_ok (vm_heap vm) t \<and> st_capacity t = st_capacity (vm_strings vm) \<and> st_count t = st_count (vm_strings vm) \<and> st_live t = st_live (vm_strings vm) - {p}"
  proof (cases "is_string (payload ob)")
    case True
    then show ?thesis
      using string_table_remove_spec [OF intern str [OF True]] string_table_remove_capacity
      by (auto simp: vm_string_table_remove_def)
  next
    case False
    have "p \<notin> st_live (vm_strings vm)"
    proof
      assume "p \<in> st_live (vm_strings vm)"
      from intern_ok_live_string [OF intern this] show False
        using ob False by (cases "payload ob") (auto simp: string_ok_def get_string_def hpayload_def)
    qed
    then show ?thesis using False intern by (intro exI [of _ "vm_strings vm"]) simp
  qed
  then obtain t where t: "(if is_string (payload ob) then vm_string_table_remove vm p else Some vm) = Some (vm\<lparr>vm_strings := t\<rparr>)"
    "intern_ok (vm_heap vm) t" "st_capacity t = st_capacity (vm_strings vm) \<and> st_count t = st_count (vm_strings vm)" "st_live t = st_live (vm_strings vm) - {p}"
    by blast
  have "intern_ok ((vm_heap vm)[p := None]) t \<longleftrightarrow> intern_ok (vm_heap vm) t"
    using t(4) by (intro intern_ok_cong) (auto simp: get_string_def hpayload_def hget_update)
  then show ?thesis
    using t ob by (intro exI [of _ "vm\<lparr>vm_strings := t\<rparr>"] exI [of _ t])
      (simp add: object_free_def object_size_def hpayload_def diff_diff_eq)
qed

lemma sweep_loop_spec:
  assumes "distinct objs" "set objs \<subseteq> allocated (vm_heap vm)"
    "intern_ok (vm_heap vm) (vm_strings vm)"
    "\<And>p s. p \<in> set objs \<Longrightarrow> get_string (vm_heap vm) p = Some s \<Longrightarrow> string_ok (vm_heap vm) p"
  shows "\<exists>h t b. sweep_loop objs vm = Some (filter (\<lambda>p. p \<in> marked_set (vm_heap vm)) objs,
      vm\<lparr>vm_heap := h, vm_strings := t, vm_bytes_allocated := b\<rparr>) \<and> swept vm objs h t b"
  using assms
proof (induction objs arbitrary: vm)
  case Nil
  then show ?case
    by (auto simp: swept_def intro!: exI [of _ "vm_heap vm"] exI [of _ "vm_strings vm"]
        exI [of _ "vm_bytes_allocated vm"])
next
  case (Cons p objs)
  from Cons.prems(2) obtain ob where ob: "hget (vm_heap vm) p = Some ob" by (auto simp: allocated_def)
  have plt: "p < length (vm_heap vm)" using ob by (rule hget_Some_less)
  have pn: "p \<notin> set objs" "distinct objs" using Cons.prems(1) by simp_all
  let ?vm = "\<lambda>x t b. vm\<lparr>vm_heap := (vm_heap vm)[p := x], vm_strings := t, vm_bytes_allocated := b\<rparr>"
  have other: "hget ((vm_heap vm)[p := x]) q = hget (vm_heap vm) q"
    "(q \<in> marked_set ((vm_heap vm)[p := x])) = (q \<in> marked_set (vm_heap vm))"
    "object_size ((vm_heap vm)[p := x]) q = object_size (vm_heap vm) q"
    "string_ok ((vm_heap vm)[p := x]) q = string_ok (vm_heap vm) q"
    "get_string ((vm_heap vm)[p := x]) q = get_string (vm_heap vm) q" if "q \<noteq> p" for q x
    using that by (simp_all add: hget_update marked_set_def object_size_def hpayload_def string_ok_def get_string_def)
  have objs: "(q \<in> marked_set ((vm_heap vm)[p := x])) = (q \<in> marked_set (vm_heap vm))"
    "object_size ((vm_heap vm)[p := x]) q = object_size (vm_heap vm) q" if "q \<in> set objs" for q x
    using that pn(1) by (auto intro!: other)
  have IH: "\<exists>h' t' b'. sweep_loop objs (?vm x t b) = Some (filter (\<lambda>q. q \<in> marked_set (vm_heap vm)) objs,
      vm\<lparr>vm_heap := h', vm_strings := t', vm_bytes_allocated := b'\<rparr>) \<and> swept (?vm x t b) objs h' t' b'"
    if "intern_ok ((vm_heap vm)[p := x]) t" for x t b
  proof -
    have alloc: "set objs \<subseteq> allocated ((vm_heap vm)[p := x])"
      using Cons.prems(2) pn(1) by (auto simp: allocated_def hget_update)
    have "string_ok ((vm_heap vm)[p := x]) q" if "q \<in> set objs" "get_string ((vm_heap vm)[p := x]) q = Some s" for q s
      using that Cons.prems(4) pn(1) other by (metis list.set_intros(2))
    then have "\<exists>h' t' b'. sweep_loop objs (?vm x t b) =
        Some (filter (\<lambda>q. q \<in> marked_set (vm_heap (?vm x t b))) objs,
          (?vm x t b)\<lparr>vm_heap := h', vm_strings := t', vm_bytes_allocated := b'\<rparr>) \<and> swept (?vm x t b) objs h' t' b'"
      using that alloc pn(2) by (intro Cons.IH) simp_all
    moreover have "filter (\<lambda>q. q \<in> marked_set (vm_heap (?vm x t b))) objs =
        filter (\<lambda>q. q \<in> marked_set (vm_heap vm)) objs"
      by (intro filter_cong) (simp_all add: objs)
    ultimately show ?thesis by simp
  qed
  have sum: "(\<Sum>q \<leftarrow> filter (\<lambda>q. q \<notin> marked_set ((vm_heap vm)[p := x])) objs. object_size ((vm_heap vm)[p := x]) q) =
      (\<Sum>q \<leftarrow> filter (\<lambda>q. q \<notin> marked_set (vm_heap vm)) objs. object_size (vm_heap vm) q)" for x
  proof -
    have "filter (\<lambda>q. q \<notin> marked_set ((vm_heap vm)[p := x])) objs = filter (\<lambda>q. q \<notin> marked_set (vm_heap vm)) objs"
      by (intro filter_cong) (simp_all add: objs)
    then show ?thesis by (intro arg_cong [where f = sum_list] map_cong) (simp_all add: objs)
  qed
  have dead: "set objs - marked_set ((vm_heap vm)[p := x]) = set objs - marked_set (vm_heap vm)" for x
    using objs(1) by blast
  show ?case
  proof (cases "marked ob")
    case True
    let ?x = "Some (ob\<lparr>marked := False\<rparr>)"
    have pm: "p \<in> marked_set (vm_heap vm)" using ob True by (auto simp: marked_set_def)
    have "intern_ok ((vm_heap vm)[p := ?x]) (vm_strings vm)"
      using same_payloads_intern [OF same_payloads_mark [OF ob]] Cons.prems(3) by simp
    from IH [OF this, of "vm_bytes_allocated vm"] obtain h t b where
      vm': "sweep_loop objs (vm\<lparr>vm_heap := (vm_heap vm)[p := ?x]\<rparr>) =
          Some (filter (\<lambda>q. q \<in> marked_set (vm_heap vm)) objs,
            vm\<lparr>vm_heap := h, vm_strings := t, vm_bytes_allocated := b\<rparr>)"
        "swept (vm\<lparr>vm_heap := (vm_heap vm)[p := ?x]\<rparr>) objs h t b" by auto
    from vm'(2) have "swept vm (p # objs) h t b"
      unfolding swept_def using pn(1) plt ob pm sum [of ?x] dead [of ?x]
      by (auto simp: hget_update objs)
    then show ?thesis using ob True pm vm'(1) by auto
  next
    case False
    have pm: "p \<notin> marked_set (vm_heap vm)" using ob False by (auto simp: marked_set_def)
    have "is_string (payload ob) \<Longrightarrow> string_ok (vm_heap vm) p"
      using Cons.prems(4) [of p] ob by (cases "payload ob") (auto simp: get_string_def hpayload_def)
    from sweep_free [OF ob Cons.prems(3) this] obtain vm1 t where free:
      "(if is_string (payload ob) then vm_string_table_remove vm p else Some vm) = Some vm1"
      "object_free (vm1\<lparr>vm_bytes_allocated := vm_bytes_allocated vm1 - of_nat (headline_size (payload ob))\<rparr>) p =
        Some (?vm None t (vm_bytes_allocated vm - of_nat (object_size (vm_heap vm) p)))"
      "intern_ok ((vm_heap vm)[p := None]) t" "st_capacity t = st_capacity (vm_strings vm) \<and> st_count t = st_count (vm_strings vm)"
      "st_live t = st_live (vm_strings vm) - {p}"
      by (auto simp del: of_nat_add)
    from IH [OF free(3)] obtain h' t' b' where
      vm': "sweep_loop objs (?vm None t (vm_bytes_allocated vm - of_nat (object_size (vm_heap vm) p))) =
          Some (filter (\<lambda>q. q \<in> marked_set (vm_heap vm)) objs,
            vm\<lparr>vm_heap := h', vm_strings := t', vm_bytes_allocated := b'\<rparr>)"
        "swept (?vm None t (vm_bytes_allocated vm - of_nat (object_size (vm_heap vm) p))) objs h' t' b'" by blast
    from vm'(2) have "swept vm (p # objs) h' t' b'"
      unfolding swept_def using pn(1) plt ob pm sum [of None] dead [of None] free(4,5)
      by (auto simp: hget_update objs algebra_simps)
    then show ?thesis using ob False pm free(1,2) vm'(1) by auto
  qed
qed

section \<open>A whole collection\<close>

text \<open>The bytes the machine holds in objects, in the intern table and in the grey stack.\<close>

definition held_bytes :: "flux_vm \<Rightarrow> nat" where
  "held_bytes vm = (\<Sum>p \<leftarrow> vm_objects vm. object_size (vm_heap vm) p) +
     sizeof_ptr * st_capacity (vm_strings vm) + sizeof_ptr * vm_grey_capacity vm"

text \<open>What the counter has over the bytes held; a collection leaves it as it is.\<close>

definition byte_drift :: "flux_vm \<Rightarrow> uint64" where
  "byte_drift vm = vm_bytes_allocated vm - of_nat (held_bytes vm)"

text \<open>Two machines that agree on everything the collector and the allocator do not touch.\<close>

definition forget_heap :: "flux_vm \<Rightarrow> flux_vm" where
  "forget_heap vm = vm\<lparr>vm_heap := [], vm_objects := [], vm_strings := string_table_new,
     vm_bytes_allocated := 0, vm_next_gc := 0, vm_grey_capacity := 0\<rparr>"

definition gc_frame :: "flux_vm \<Rightarrow> flux_vm \<Rightarrow> bool" where
  "gc_frame vm vm' \<longleftrightarrow> forget_heap vm' = forget_heap vm"

lemma gc_frame_refl: "gc_frame vm vm"
  by (simp add: gc_frame_def)

lemma gc_frame_trans: "gc_frame vm1 vm2 \<Longrightarrow> gc_frame vm2 vm3 \<Longrightarrow> gc_frame vm1 vm3"
  by (simp add: gc_frame_def)

lemma forget_heap_roots: "root_refs (forget_heap vm) = root_refs vm"
  by (simp add: root_refs_def forget_heap_def)

lemma gc_frame_roots: "gc_frame vm vm' \<Longrightarrow> root_refs vm' = root_refs vm"
  by (metis gc_frame_def forget_heap_roots)

lemma forget_heap_sel:
  "vm_stack (forget_heap vm) = vm_stack vm" "vm_frames (forget_heap vm) = vm_frames vm"
  "vm_open_upvalues (forget_heap vm) = vm_open_upvalues vm" "vm_globals (forget_heap vm) = vm_globals vm"
  "vm_has_error (forget_heap vm) = vm_has_error vm"
  by (simp_all add: forget_heap_def)

lemma gc_frame_stack:
  assumes "gc_frame vm vm'"
  shows "vm_stack vm' = vm_stack vm" "vm_frames vm' = vm_frames vm"
    "vm_open_upvalues vm' = vm_open_upvalues vm" "vm_globals vm' = vm_globals vm"
    "vm_has_error vm' = vm_has_error vm"
  using assms forget_heap_sel by (metis gc_frame_def)+

lemma sum_list_filter_split:
  "(\<Sum>x \<leftarrow> xs. f x) = (\<Sum>x \<leftarrow> filter P xs. f x) + (\<Sum>x \<leftarrow> filter (\<lambda>x. \<not> P x) xs. (f x :: nat))"
  by (induction xs) auto

lemma gc_collect_full:
  assumes ok: "gc_ok vm"
  obtains vm' where "gc_collect vm = Some vm'" "gc_frame vm vm'" "gc_ok vm'"
    "vm_objects vm' = filter (\<lambda>p. p \<in> reachable vm) (vm_objects vm)"
    "\<And>p. hget (vm_heap vm') p = (if p \<in> reachable vm then hget (vm_heap vm) p else None)"
    "length (vm_heap vm') = length (vm_heap vm)"
    "st_live (vm_strings vm') = st_live (vm_strings vm) \<inter> reachable vm"
    "st_count (vm_strings vm') = st_count (vm_strings vm) \<and> st_capacity (vm_strings vm') = st_capacity (vm_strings vm)"
    "byte_drift vm' = byte_drift vm"
    "vm_next_gc vm' = vm_bytes_allocated vm' * FLUX_GC_HEAP_GROW_FACTOR"
proof -
  let ?R = "reachable vm"
  from mark_phase [OF ok] obtain vm1 vm2 where m: "mark_roots vm = Some vm1" "trace_references vm1 = Some vm2"
    "mark_frame vm vm2" "vm_grey_stack vm2 = []" "marked_set (vm_heap vm2) = ?R" by blast
  then obtain h2 c2 b2 where vm2: "vm2 = vm\<lparr>vm_heap := h2, vm_grey_stack := [], vm_grey_capacity := c2, vm_bytes_allocated := b2\<rparr>"
    and same: "same_payloads (vm_heap vm) h2"
    and b2: "b2 - of_nat (sizeof_ptr * c2) = vm_bytes_allocated vm - of_nat (sizeof_ptr * vm_grey_capacity vm)"
    unfolding mark_frame_def by auto
  note s = same_payloads_get [OF same]
  have R: "marked_set h2 = ?R" using m(5) vm2 by simp
  have unm: "marked_set (vm_heap vm) = {}" and ob: "distinct (vm_objects vm)" "set (vm_objects vm) = allocated (vm_heap vm)"
    and closed: "heap_closed (vm_heap vm)" and roots: "set (root_refs vm) \<subseteq> allocated (vm_heap vm)"
    and str: "strings_ok (vm_heap vm)" and int: "intern_ok (vm_heap vm) (vm_strings vm)" and gr: "vm_grey_stack vm = []"
    using ok by (simp_all add: gc_ok_def)
  have "\<exists>h t b. sweep_loop (vm_objects vm) vm2 = Some (filter (\<lambda>p. p \<in> marked_set (vm_heap vm2)) (vm_objects vm),
      vm2\<lparr>vm_heap := h, vm_strings := t, vm_bytes_allocated := b\<rparr>) \<and> swept vm2 (vm_objects vm) h t b"
    using ob s str same_payloads_intern [OF same] int
    by (intro sweep_loop_spec) (simp_all add: vm2 strings_ok_def)
  then obtain h t b where sw: "sweep_loop (vm_objects vm) vm2 = Some (filter (\<lambda>p. p \<in> ?R) (vm_objects vm),
      vm2\<lparr>vm_heap := h, vm_strings := t, vm_bytes_allocated := b\<rparr>)" "swept vm2 (vm_objects vm) h t b"
    unfolding m(5) by blast
  have R_alloc: "?R \<subseteq> allocated (vm_heap vm)" using R marked_allocated [of h2] s by simp
  have h: "hget h p = (if p \<in> ?R then hget (vm_heap vm) p else None)" for p
  proof -
    have "p \<notin> set (vm_objects vm) \<Longrightarrow> hget h2 p = None"
      unfolding ob(2) s(4) [symmetric] by (simp add: allocated_def)
    then have "hget h p = (if p \<in> ?R then map_option (marked_update (\<lambda>_. False)) (hget h2 p) else None)"
      using sw(2) R_alloc ob(2) by (auto simp: swept_def vm2 R)
    moreover have "map_option (marked_update (\<lambda>_. False)) (hget h2 p) = hget (vm_heap vm) p"
    proof -
      have "hpayload h2 p = hpayload (vm_heap vm) p" using same by (simp add: same_payloads_def)
      moreover have "p \<notin> marked_set (vm_heap vm)" using unm by simp
      ultimately show ?thesis
        by (cases "hget h2 p"; cases "hget (vm_heap vm) p") (auto simp: hpayload_def marked_set_def)
    qed
    ultimately show ?thesis by simp
  qed
  let ?vm' = "vm\<lparr>vm_heap := h, vm_objects := filter (\<lambda>p. p \<in> ?R) (vm_objects vm), vm_strings := t,
    vm_bytes_allocated := b, vm_next_gc := b * FLUX_GC_HEAP_GROW_FACTOR, vm_grey_capacity := c2\<rparr>"
  have coll: "gc_collect vm = Some ?vm'"
    using m(1,2) sw(1) gr by (simp add: gc_collect_def sweep_def vm2)
  have frame: "gc_frame vm ?vm'" by (simp add: gc_frame_def forget_heap_def)
  have alloc: "allocated h = ?R" using h R_alloc by (auto simp: allocated_def)
  have pay: "p \<in> ?R \<Longrightarrow> hpayload h p = hpayload (vm_heap vm) p" for p using h by (simp add: hpayload_def)
  have live: "st_live t = st_live (vm_strings vm) \<inter> ?R"
  proof -
    have "st_live (vm_strings vm) \<subseteq> allocated (vm_heap vm)"
      using intern_ok_live_string [OF int] string_ok_allocated by blast
    then show ?thesis using sw(2) ob(2) by (auto simp: swept_def vm2 R)
  qed
  have ok': "gc_ok ?vm'"
    unfolding gc_ok_def
  proof (intro conjI)
    show "set (vm_objects ?vm') = allocated (vm_heap ?vm')" using ob R_alloc alloc by auto
    have "heap_refs h p \<subseteq> ?R" if "p \<in> ?R" for p
      using that pay by (auto simp: reachable_def edges_def heap_refs_def intro: rtrancl_into_rtrancl)
    then show "heap_closed (vm_heap ?vm')" using alloc by (simp add: heap_closed_def)
    have "set (root_refs vm) \<subseteq> ?R" by (auto simp: reachable_def)
    then show "set (root_refs ?vm') \<subseteq> allocated (vm_heap ?vm')"
      using gc_frame_roots [OF frame] alloc by simp
    show "marked_set (vm_heap ?vm') = {}" using h unm by (auto simp: marked_set_def)
    have "get_string h p = (if p \<in> ?R then get_string (vm_heap vm) p else None)" for p
      using h by (simp add: get_string_def hpayload_def)
    then show "strings_ok (vm_heap ?vm')" using str by (auto simp: strings_ok_def string_ok_def)
    show "intern_ok (vm_heap ?vm') (vm_strings ?vm')" using sw(2) by (simp add: swept_def)
  qed (use ob gr in simp_all)
  have bytes: "byte_drift ?vm' = byte_drift vm"
  proof -
    have size2: "object_size h2 p = object_size (vm_heap vm) p" for p
      using same by (simp add: object_size_def same_payloads_def)
    have "(\<Sum>p \<leftarrow> filter (\<lambda>p. p \<in> ?R) (vm_objects vm). object_size h p) =
        (\<Sum>p \<leftarrow> filter (\<lambda>p. p \<in> ?R) (vm_objects vm). object_size (vm_heap vm) p)"
      using pay by (intro arg_cong [where f = sum_list] map_cong) (simp_all add: object_size_def)
    moreover have "b + of_nat (\<Sum>p \<leftarrow> filter (\<lambda>p. p \<notin> ?R) (vm_objects vm). object_size (vm_heap vm) p) = b2"
      "st_capacity t = st_capacity (vm_strings vm) \<and> st_count t = st_count (vm_strings vm)"
      using sw(2) by (simp_all add: swept_def vm2 R size2)
    moreover have "b2 = vm_bytes_allocated vm - of_nat (sizeof_ptr * vm_grey_capacity vm) + of_nat (sizeof_ptr * c2)"
      using b2 by (simp add: algebra_simps)
    ultimately show ?thesis
      unfolding byte_drift_def held_bytes_def
      using sum_list_filter_split [of "object_size (vm_heap vm)" "vm_objects vm" "\<lambda>p. p \<in> ?R"]
      by (auto simp: algebra_simps)
  qed
  have len: "length h = length (vm_heap vm)"
    using sw(2) same by (simp add: swept_def vm2 same_payloads_def)
  have count: "st_count t = st_count (vm_strings vm) \<and> st_capacity t = st_capacity (vm_strings vm)"
    using sw(2) by (simp add: swept_def vm2)
  show thesis
    by (rule that [OF coll frame ok' _ _ _ _ _ bytes]) (simp_all add: h live len count)
qed

end
