(* ===== verification/ObjectOps.thy ===== *)
theory ObjectOps
  imports GCProofs
begin

text \<open>
  The constructors of heap objects, string interning and structural equality
  (\<^verbatim>\<open>src/object/object.c\<close>).  Every constructor goes through \<open>gc_alloc_object\<close>, so it may run a
  collection first.
\<close>

section \<open>Strings\<close>

definition string_alloc :: "flux_vm \<Rightarrow> string \<Rightarrow> uint32 \<Rightarrow> (ptr \<times> flux_vm) option" where
  "string_alloc vm chars hash = do {
     (s, vm) \<leftarrow> gc_alloc_object vm
       (OBJ_STRING \<lparr>str_length = length chars, str_hash = hash, str_chars = chars\<rparr>);
     vm \<leftarrow> vm_string_table_set vm s;
     Some (s, vm)
   }"

definition object_string_copy :: "flux_vm \<Rightarrow> string \<Rightarrow> (ptr \<times> flux_vm) option" where
  "object_string_copy vm chars =
     (let hash = hash_string chars in do {
        interned \<leftarrow> string_table_find (vm_heap vm) (vm_strings vm) chars hash;
        case interned of
          Some p \<Rightarrow> Some (p, vm)
        | None \<Rightarrow> string_alloc vm chars hash
      })"

text \<open>\<open>object_string_take\<close> also frees the buffer, which the model does not represent.\<close>

definition object_string_take :: "flux_vm \<Rightarrow> string \<Rightarrow> (ptr \<times> flux_vm) option" where
  "object_string_take vm chars =
     (let hash = hash_string chars in do {
        interned \<leftarrow> string_table_find (vm_heap vm) (vm_strings vm) chars hash;
        case interned of
          Some p \<Rightarrow> Some (p, vm)
        | None \<Rightarrow> string_alloc vm chars hash
      })"

text \<open>The length is a C \<^verbatim>\<open>int\<close>.\<close>

definition object_string_concat :: "flux_vm \<Rightarrow> ptr \<Rightarrow> ptr \<Rightarrow> (ptr \<times> flux_vm) option" where
  "object_string_concat vm a b = do {
     sa \<leftarrow> get_string (vm_heap vm) a;
     sb \<leftarrow> get_string (vm_heap vm) b;
     if 2 ^ 31 \<le> str_length sa + str_length sb then None
     else let buf = take (str_length sa) (str_chars sa) @ take (str_length sb) (str_chars sb);
              hash = hash_string buf in do {
       interned \<leftarrow> string_table_find (vm_heap vm) (vm_strings vm) buf hash;
       case interned of
         Some p \<Rightarrow> Some (p, vm)
       | None \<Rightarrow> string_alloc vm buf hash
     }
   }"

section \<open>The other constructors\<close>

definition object_list_new :: "flux_vm \<Rightarrow> (ptr \<times> flux_vm) option" where
  "object_list_new vm = gc_alloc_object vm (OBJ_LIST \<lparr>elements = value_array_init\<rparr>)"

definition object_dict_new :: "flux_vm \<Rightarrow> (ptr \<times> flux_vm) option" where
  "object_dict_new vm = gc_alloc_object vm (OBJ_DICT dict_new)"

definition object_function_new :: "flux_vm \<Rightarrow> (ptr \<times> flux_vm) option" where
  "object_function_new vm = gc_alloc_object vm
     (OBJ_FUNCTION \<lparr>fn_arity = 0, fn_upvalue_count = 0, fn_chunk = chunk_init, fn_name = None,
                    fn_source_file = None, fn_is_async = False, fn_is_generator = False\<rparr>)"

text \<open>The name field is unset while the name is copied; it is not a reference the collector follows.\<close>

definition object_native_new :: "flux_vm \<Rightarrow> nat \<Rightarrow> string \<Rightarrow> int \<Rightarrow> (ptr \<times> flux_vm) option" where
  "object_native_new vm fn name arity = do {
     (n, vm) \<leftarrow> gc_alloc_object vm (OBJ_NATIVE \<lparr>nat_fn = fn, nat_name = 0, nat_arity = arity\<rparr>);
     (s, vm) \<leftarrow> object_string_copy vm name;
     nat \<leftarrow> get_native (vm_heap vm) n;
     vm \<leftarrow> vm_hput vm n (OBJ_NATIVE (nat\<lparr>nat_name := s\<rparr>));
     Some (n, vm)
   }"

definition object_upvalue_new :: "flux_vm \<Rightarrow> nat \<Rightarrow> (ptr \<times> flux_vm) option" where
  "object_upvalue_new vm slot =
     gc_alloc_object vm (OBJ_UPVALUE \<lparr>uv_location = Open slot, uv_closed = VAL_NULL\<rparr>)"

definition object_closure_new :: "flux_vm \<Rightarrow> ptr \<Rightarrow> (ptr \<times> flux_vm) option" where
  "object_closure_new vm fn = do {
     f \<leftarrow> get_function (vm_heap vm) fn;
     gc_alloc_object
       (vm\<lparr>vm_bytes_allocated := vm_bytes_allocated vm + of_nat (sizeof_ptr * fn_upvalue_count f)\<rparr>)
       (OBJ_CLOSURE \<lparr>cl_function = fn, cl_upvalues = replicate (fn_upvalue_count f) None\<rparr>)
   }"

definition object_class_new :: "flux_vm \<Rightarrow> ptr \<Rightarrow> (ptr \<times> flux_vm) option" where
  "object_class_new vm name = do {
     (k, vm) \<leftarrow> gc_alloc_object vm
       (OBJ_CLASS \<lparr>k_name = name, k_methods = None, k_superclass = None, k_is_struct = False, k_is_enum = False\<rparr>);
     (methods, vm) \<leftarrow> object_dict_new (vm_push vm (VAL_OBJECT k));
     klass \<leftarrow> get_class (vm_heap vm) k;
     vm \<leftarrow> vm_hput vm k (OBJ_CLASS (klass\<lparr>k_methods := Some methods\<rparr>));
     (_, vm) \<leftarrow> vm_pop vm;
     Some (k, vm)
   }"

definition object_instance_new :: "flux_vm \<Rightarrow> ptr \<Rightarrow> (ptr \<times> flux_vm) option" where
  "object_instance_new vm klass = do {
     (inst, vm) \<leftarrow> gc_alloc_object vm (OBJ_INSTANCE \<lparr>i_klass = klass, i_fields = None\<rparr>);
     (fields, vm) \<leftarrow> object_dict_new (vm_push vm (VAL_OBJECT inst));
     i \<leftarrow> get_instance (vm_heap vm) inst;
     vm \<leftarrow> vm_hput vm inst (OBJ_INSTANCE (i\<lparr>i_fields := Some fields\<rparr>));
     (_, vm) \<leftarrow> vm_pop vm;
     Some (inst, vm)
   }"

definition object_bound_method_new :: "flux_vm \<Rightarrow> flux_value \<Rightarrow> ptr \<Rightarrow> (ptr \<times> flux_vm) option" where
  "object_bound_method_new vm receiver method =
     gc_alloc_object vm (OBJ_BOUND_METHOD \<lparr>bm_receiver = receiver, bm_method = method\<rparr>)"

definition CORO_STACK_INITIAL :: nat where "CORO_STACK_INITIAL = 64"
definition CORO_FRAMES_INITIAL :: nat where "CORO_FRAMES_INITIAL = 8"

text \<open>The three buffers are accounted for after the allocation, without a check of the threshold.\<close>

definition object_coroutine_new :: "flux_vm \<Rightarrow> ptr \<Rightarrow> (ptr \<times> flux_vm) option" where
  "object_coroutine_new vm closure = do {
     (co, vm) \<leftarrow> gc_alloc_object vm
       (OBJ_COROUTINE \<lparr>co_state = CORO_SUSPENDED, co_closure = closure, co_stack = [],
          co_stack_capacity = CORO_STACK_INITIAL, co_frames = [], co_frame_capacity = CORO_FRAMES_INITIAL,
          co_slot_offsets = [], co_result = VAL_NULL, co_awaited_by = None,
          co_pending_future = None, co_gather_future = None, co_gather_slot = 0\<rparr>);
     Some (co, vm\<lparr>vm_bytes_allocated := vm_bytes_allocated vm +
       of_nat (sizeof_value * CORO_STACK_INITIAL + sizeof_call_frame * CORO_FRAMES_INITIAL +
               sizeof_int * CORO_FRAMES_INITIAL)\<rparr>)
   }"

definition object_future_new :: "flux_vm \<Rightarrow> (ptr \<times> flux_vm) option" where
  "object_future_new vm = gc_alloc_object vm
     (OBJ_FUTURE \<lparr>fut_resolved = False, fut_result = VAL_NULL, fut_waiting = None,
                  fut_gather_results = None, fut_gather_count = 0, fut_gather_remaining = 0\<rparr>)"

section \<open>Structural equality\<close>

definition VALUE_EQUAL_MAX_DEPTH :: nat where "VALUE_EQUAL_MAX_DEPTH = 200"

text \<open>The loop over the elements of two lists of equal length, with its early return.\<close>

fun equal_elements :: "(flux_value \<Rightarrow> flux_value \<Rightarrow> bool option) \<Rightarrow> flux_value list \<Rightarrow> flux_value list \<Rightarrow> bool option" where
  "equal_elements eq (a # as) (b # bs) = do { r \<leftarrow> eq a b; if r then equal_elements eq as bs else Some False }"
| "equal_elements eq _ _ = Some True"

text \<open>The loop over the entries of the first dictionary; \<open>get\<close> looks a key up in the second.\<close>

fun equal_entries ::
  "(flux_value \<Rightarrow> flux_value \<Rightarrow> bool option) \<Rightarrow> (ptr \<Rightarrow> flux_value option option) \<Rightarrow> dict_entry list \<Rightarrow> bool option" where
  "equal_entries eq get [] = Some True"
| "equal_entries eq get (e # es) =
     (case de_key e of
        None \<Rightarrow> equal_entries eq get es
      | Some k \<Rightarrow> do {
          bval \<leftarrow> get k;
          case bval of
            None \<Rightarrow> Some False
          | Some bv \<Rightarrow> do { r \<leftarrow> eq (de_value e) bv; if r then equal_entries eq get es else Some False }
        })"

lemma equal_elements_cong [fundef_cong]:
  assumes "as = as'" "bs = bs'" "\<And>a b. a \<in> set as' \<Longrightarrow> b \<in> set bs' \<Longrightarrow> eq a b = eq' a b"
  shows "equal_elements eq as bs = equal_elements eq' as' bs'"
  unfolding assms(1,2) using assms(3)
  by (induction eq' as' bs' rule: equal_elements.induct) (auto intro!: Option.bind_cong)

lemma equal_entries_cong [fundef_cong]:
  assumes "es = es'" "\<And>k. get k = get' k" "\<And>a b. eq a b = eq' a b"
  shows "equal_entries eq get es = equal_entries eq' get' es'"
proof -
  have "eq = eq'" "get = get'" using assms(2,3) by (simp_all add: fun_eq_iff)
  then show ?thesis using assms(1) by simp
qed

function value_equal_depth :: "heap \<Rightarrow> flux_value \<Rightarrow> flux_value \<Rightarrow> nat \<Rightarrow> bool option" where
  "value_equal_depth h a b depth =
     (case (a, b) of
        (VAL_NULL, VAL_NULL) \<Rightarrow> Some True
      | (VAL_BOOL x, VAL_BOOL y) \<Rightarrow> Some (x = y)
      | (VAL_INT x, VAL_INT y) \<Rightarrow> Some (x = y)
      | (VAL_FLOAT x, VAL_FLOAT y) \<Rightarrow> Some (dbl_eq x y)
      | (VAL_OBJECT oa, VAL_OBJECT ob) \<Rightarrow>
          if oa = ob then Some True
          else (case hpayload h oa of
              None \<Rightarrow> None
            | Some (OBJ_STRING _) \<Rightarrow> Some False
            | Some pa \<Rightarrow>
                if VALUE_EQUAL_MAX_DEPTH \<le> depth then Some False
                else (case pa of
                    OBJ_LIST la \<Rightarrow> (case hpayload h ob of
                      None \<Rightarrow> None
                    | Some (OBJ_LIST lb) \<Rightarrow>
                        if va_count (elements la) \<noteq> va_count (elements lb) then Some False
                        else equal_elements (\<lambda>x y. value_equal_depth h x y (depth + 1))
                               (va_data (elements la)) (va_data (elements lb))
                    | Some _ \<Rightarrow> Some False)
                  | OBJ_DICT da \<Rightarrow> (case hpayload h ob of
                      None \<Rightarrow> None
                    | Some (OBJ_DICT db) \<Rightarrow>
                        if d_count da \<noteq> d_count db then Some False
                        else equal_entries (\<lambda>x y. value_equal_depth h x y (depth + 1))
                               (dict_get (key_hash h) db) (d_entries da)
                    | Some _ \<Rightarrow> Some False)
                  | _ \<Rightarrow> Some False))
      | _ \<Rightarrow>
          if value_is_number a \<and> value_is_number b
          then do { x \<leftarrow> value_to_double a; y \<leftarrow> value_to_double b; Some (dbl_eq x y) }
          else Some False)"
  by pat_completeness auto
termination by (relation "measure (\<lambda>(h, a, b, depth). VALUE_EQUAL_MAX_DEPTH - depth)") auto

declare value_equal_depth.simps [simp del]

definition value_equal :: "heap \<Rightarrow> flux_value \<Rightarrow> flux_value \<Rightarrow> bool option" where
  "value_equal h a b = value_equal_depth h a b 0"

end
