(* ===== verification/ObjectProps.thy ===== *)
theory ObjectProps
  imports ObjectOps
begin

text \<open>
  Correctness of allocation, of string interning and of structural equality.
\<close>

section \<open>Allocation\<close>

text \<open>Every string object is in the intern table: the condition under which comparing string
  pointers compares strings.\<close>

definition interned :: "flux_vm \<Rightarrow> bool" where
  "interned vm \<longleftrightarrow> (\<forall>p s. get_string (vm_heap vm) p = Some s \<longrightarrow> p \<in> st_live (vm_strings vm))"

definition vm_ok :: "flux_vm \<Rightarrow> bool" where
  "vm_ok vm \<longleftrightarrow> gc_ok vm \<and> interned vm"

lemma reachable_allocated: "gc_ok vm \<Longrightarrow> reachable vm \<subseteq> allocated (vm_heap vm)"
  by (metis gc_collect_full mark_phase mark_frame_payloads marked_allocated same_payloads_get(4))

lemma interned_live:
  assumes "gc_ok vm" "interned vm"
  shows "st_live (vm_strings vm) = {p. get_string (vm_heap vm) p \<noteq> None}"
proof -
  have "p \<in> st_live (vm_strings vm) \<Longrightarrow> get_string (vm_heap vm) p \<noteq> None" for p
    using assms(1) intern_ok_live_string [of "vm_heap vm" "vm_strings vm" p]
    by (auto simp: gc_ok_def string_ok_def)
  then show ?thesis using assms(2) by (auto simp: interned_def)
qed

text \<open>The collection that an allocation may start.\<close>

definition maybe_collect :: "flux_vm \<Rightarrow> flux_vm option" where
  "maybe_collect vm = (if vm_next_gc vm < vm_bytes_allocated vm then gc_collect vm else Some vm)"

text \<open>What survives a step that may collect: the frame, the reachable objects, nothing new.\<close>

definition survives :: "flux_vm \<Rightarrow> flux_vm \<Rightarrow> bool" where
  "survives vm vm' \<longleftrightarrow>
     (\<forall>p \<in> reachable vm. hpayload (vm_heap vm') p = hpayload (vm_heap vm) p)"

lemma maybe_collect_spec:
  assumes ok: "gc_ok vm"
  obtains vm' where "maybe_collect vm = Some vm'" "gc_frame vm vm'" "gc_ok vm'"
    "\<And>p. p \<in> reachable vm \<Longrightarrow> hget (vm_heap vm') p = hget (vm_heap vm) p"
    "\<And>p ob. hget (vm_heap vm') p = Some ob \<Longrightarrow> hget (vm_heap vm) p = Some ob"
    "length (vm_heap vm') = length (vm_heap vm)"
    "st_live (vm_strings vm') \<subseteq> st_live (vm_strings vm)" "interned vm \<Longrightarrow> interned vm'"
    "byte_drift vm' = byte_drift vm" "st_count (vm_strings vm') = st_count (vm_strings vm) \<and> st_capacity (vm_strings vm') = st_capacity (vm_strings vm)"
proof (cases "vm_next_gc vm < vm_bytes_allocated vm")
  case False
  then show thesis using ok gc_frame_refl by (intro that [of vm]) (simp_all add: maybe_collect_def)
next
  case True
  obtain vm' where c: "gc_collect vm = Some vm'" "gc_frame vm vm'" "gc_ok vm'"
    "\<And>p. hget (vm_heap vm') p = (if p \<in> reachable vm then hget (vm_heap vm) p else None)"
    "length (vm_heap vm') = length (vm_heap vm)"
    "st_live (vm_strings vm') = st_live (vm_strings vm) \<inter> reachable vm"
    "st_count (vm_strings vm') = st_count (vm_strings vm) \<and> st_capacity (vm_strings vm') = st_capacity (vm_strings vm)" "byte_drift vm' = byte_drift vm"
    using gc_collect_full [OF ok] by metis
  have "interned vm'" if "interned vm"
  proof -
    have "get_string (vm_heap vm') p = (if p \<in> reachable vm then get_string (vm_heap vm) p else None)" for p
      using c(4) by (simp add: get_string_def hpayload_def)
    then show ?thesis using that c(6) by (auto simp: interned_def split: if_splits)
  qed
  then show thesis
    using c True by (intro that [of vm']) (auto simp: maybe_collect_def split: if_splits)
qed

lemma object_size_append:
  "p < length h \<Longrightarrow> object_size (h @ [x]) p = object_size h p"
  by (simp add: object_size_def hpayload_def hget_def nth_append)

lemma allocated_less: "p \<in> allocated h \<Longrightarrow> p < length h"
  by (auto simp: allocated_def dest: hget_Some_less)

lemma get_string_append_fresh:
  "p \<noteq> length h \<Longrightarrow> get_string (h @ [x]) p = get_string h p"
  by (simp add: get_string_def hpayload_def hget_append)

text \<open>
  Linking a new object in.  Its references must be allocated, which is what the callers have to
  ensure by keeping them rooted.
\<close>

definition link_object :: "flux_vm \<Rightarrow> payload \<Rightarrow> flux_vm" where
  "link_object vm pl = vm\<lparr>vm_heap := vm_heap vm @ [Some \<lparr>marked = False, payload = pl\<rparr>],
     vm_objects := length (vm_heap vm) # vm_objects vm\<rparr>"

lemma gc_alloc_object_eq:
  "gc_alloc_object vm pl =
     map_option (\<lambda>vm'. (length (vm_heap vm'), link_object vm' pl))
       (maybe_collect (vm\<lparr>vm_bytes_allocated := vm_bytes_allocated vm + of_nat (headline_size pl)\<rparr>))"
  unfolding gc_alloc_object_def maybe_collect_def link_object_def Let_def
  by (auto simp: map_option_case split: option.split)

lemma link_object_ok:
  assumes ok: "gc_ok vm" and refs: "set (payload_refs pl) \<subseteq> allocated (vm_heap vm)"
    and str: "\<And>s. pl = OBJ_STRING s \<Longrightarrow> str_length s = length (str_chars s) \<and> str_hash s = hash_string (str_chars s)"
  shows "gc_ok (link_object vm pl)"
proof -
  let ?h = "vm_heap vm @ [Some \<lparr>marked = False, payload = pl\<rparr>]"
  let ?n = "length (vm_heap vm)"
  have fresh: "?n \<notin> allocated (vm_heap vm)" using allocated_less by blast
  have get: "hget ?h p = (if p = ?n then Some \<lparr>marked = False, payload = pl\<rparr> else hget (vm_heap vm) p)" for p
    by (simp add: hget_append)
  have alloc: "allocated ?h = insert ?n (allocated (vm_heap vm))" by (auto simp: allocated_def get)
  have refs': "heap_refs ?h p = (if p = ?n then set (payload_refs pl) else heap_refs (vm_heap vm) p)" for p
    by (simp add: heap_refs_def hpayload_def get)
  have gs: "get_string ?h p = (if p = ?n then get_string ?h ?n else get_string (vm_heap vm) p)" for p
    by (simp add: get_string_append_fresh)
  have so: "string_ok ?h p" if "string_ok (vm_heap vm) p" for p
  proof -
    have "p \<noteq> ?n" using string_ok_allocated [OF that] fresh by blast
    from get_string_append_fresh [OF this] show ?thesis using that by (simp add: string_ok_def)
  qed
  have "string_ok ?h ?n" if "get_string ?h ?n = Some s" for s
    using that str by (auto simp: string_ok_def get_string_def hpayload_def get split: payload.splits)
  then have strs: "strings_ok ?h"
    using ok so gs unfolding gc_ok_def strings_ok_def by (metis (no_types, lifting))
  have live: "st_live (vm_strings vm) \<subseteq> allocated (vm_heap vm)"
    using ok intern_ok_live_string string_ok_allocated unfolding gc_ok_def by blast
  have "intern_ok ?h (vm_strings vm) \<longleftrightarrow> intern_ok (vm_heap vm) (vm_strings vm)"
  proof (rule intern_ok_cong)
    fix p assume "p \<in> st_live (vm_strings vm)"
    then have "p \<noteq> ?n" using live fresh by blast
    then show "get_string ?h p = get_string (vm_heap vm) p" by (rule get_string_append_fresh)
  qed
  moreover have "root_refs (link_object vm pl) = root_refs vm" by (simp add: root_refs_def link_object_def)
  moreover have "marked_set ?h = marked_set (vm_heap vm)"
    using get fresh by (auto simp: marked_set_def allocated_def)
  moreover have "heap_closed ?h"
    using ok refs refs' alloc by (auto simp: gc_ok_def heap_closed_def)
  ultimately show ?thesis
    using ok strs fresh alloc unfolding gc_ok_def by (auto simp: link_object_def)
qed

lemma link_object_drift:
  assumes "gc_ok vm"
  shows "byte_drift (link_object vm pl) + of_nat (headline_size pl + owned_size pl) = byte_drift vm"
proof -
  let ?n = "length (vm_heap vm)"
  have "object_size (vm_heap (link_object vm pl)) ?n = headline_size pl + owned_size pl"
    by (simp add: object_size_def hpayload_def hget_def link_object_def)
  moreover have "sum_list (map (object_size (vm_heap (link_object vm pl))) (vm_objects vm)) =
      sum_list (map (object_size (vm_heap vm)) (vm_objects vm))"
    using assms by (intro arg_cong [where f = sum_list] map_cong)
      (auto simp: gc_ok_def link_object_def object_size_append dest: allocated_less)
  moreover have "vm_objects (link_object vm pl) = ?n # vm_objects vm"
    "vm_strings (link_object vm pl) = vm_strings vm"
    "vm_grey_capacity (link_object vm pl) = vm_grey_capacity vm"
    by (simp_all add: link_object_def)
  ultimately have "held_bytes (link_object vm pl) = headline_size pl + owned_size pl + held_bytes vm"
    unfolding held_bytes_def by simp
  then show ?thesis by (simp add: byte_drift_def link_object_def algebra_simps)
qed

text \<open>
  What \<open>gc_alloc_object\<close> promises: a fresh object with the given contents, every object that was
  reachable unchanged, and a well-formed machine again.
\<close>

lemma gc_alloc_object_full:
  assumes ok: "gc_ok vm" and refs: "set (payload_refs pl) \<subseteq> reachable vm"
    and str: "\<And>s. pl = OBJ_STRING s \<Longrightarrow> str_length s = length (str_chars s) \<and> str_hash s = hash_string (str_chars s)"
  obtains p vm' where "gc_alloc_object vm pl = Some (p, vm')" "gc_frame vm vm'" "gc_ok vm'"
    "hpayload (vm_heap vm') p = Some pl" "p = length (vm_heap vm)"
    "\<And>q. q \<in> reachable vm \<Longrightarrow> hpayload (vm_heap vm') q = hpayload (vm_heap vm) q"
    "\<And>q ob. q \<noteq> p \<Longrightarrow> hget (vm_heap vm') q = Some ob \<Longrightarrow> hget (vm_heap vm) q = Some ob"
    "st_live (vm_strings vm') \<subseteq> st_live (vm_strings vm)"
    "\<And>q s. interned vm \<Longrightarrow> q \<noteq> p \<Longrightarrow> get_string (vm_heap vm') q = Some s \<Longrightarrow> q \<in> st_live (vm_strings vm')"
    "byte_drift vm' + of_nat (owned_size pl) = byte_drift vm"
    "st_count (vm_strings vm') = st_count (vm_strings vm) \<and> st_capacity (vm_strings vm') = st_capacity (vm_strings vm)"
proof -
  let ?vm = "vm\<lparr>vm_bytes_allocated := vm_bytes_allocated vm + of_nat (headline_size pl)\<rparr>"
  have same: "gc_ok ?vm = gc_ok vm" "reachable ?vm = reachable vm" "interned ?vm = interned vm"
    by (simp_all add: gc_ok_def reachable_def root_refs_def interned_def)
  have drift: "byte_drift ?vm = byte_drift vm + of_nat (headline_size pl)"
    by (simp add: byte_drift_def held_bytes_def)
  have ok': "gc_ok ?vm" using ok same by simp
  obtain vm1 where c0: "maybe_collect ?vm = Some vm1" "gc_frame ?vm vm1" "gc_ok vm1"
    "\<And>p. p \<in> reachable ?vm \<Longrightarrow> hget (vm_heap vm1) p = hget (vm_heap ?vm) p"
    "\<And>p ob. hget (vm_heap vm1) p = Some ob \<Longrightarrow> hget (vm_heap ?vm) p = Some ob"
    "length (vm_heap vm1) = length (vm_heap ?vm)"
    "st_live (vm_strings vm1) \<subseteq> st_live (vm_strings ?vm)" "interned ?vm \<Longrightarrow> interned vm1"
    "byte_drift vm1 = byte_drift ?vm" "st_count (vm_strings vm1) = st_count (vm_strings ?vm) \<and> st_capacity (vm_strings vm1) = st_capacity (vm_strings ?vm)"
    by (rule maybe_collect_spec [OF ok']) (rule that)
  have c: "maybe_collect ?vm = Some vm1" "gc_frame ?vm vm1" "gc_ok vm1"
    "\<And>p. p \<in> reachable vm \<Longrightarrow> hget (vm_heap vm1) p = hget (vm_heap vm) p"
    "\<And>p ob. hget (vm_heap vm1) p = Some ob \<Longrightarrow> hget (vm_heap vm) p = Some ob"
    "length (vm_heap vm1) = length (vm_heap vm)"
    "st_live (vm_strings vm1) \<subseteq> st_live (vm_strings vm)" "interned vm \<Longrightarrow> interned vm1"
    "byte_drift vm1 = byte_drift ?vm" "st_count (vm_strings vm1) = st_count (vm_strings vm) \<and> st_capacity (vm_strings vm1) = st_capacity (vm_strings vm)"
    using c0(1-3,9) c0(4-8,10) [simplified, unfolded same] by blast+
  let ?vm' = "link_object vm1 pl"
  have "q \<in> allocated (vm_heap vm1)" if "q \<in> reachable vm" for q
    using that c(4) reachable_allocated [OF ok] by (auto simp: allocated_def)
  then have refs1: "set (payload_refs pl) \<subseteq> allocated (vm_heap vm1)" using refs by blast
  have get: "hget (vm_heap ?vm') q = (if q = length (vm_heap vm) then Some \<lparr>marked = False, payload = pl\<rparr>
      else hget (vm_heap vm1) q)" for q
    using c(6) by (simp add: link_object_def hget_append)
  have frame: "gc_frame vm ?vm'"
    using c(2) by (simp add: gc_frame_def forget_heap_def link_object_def)
  show thesis
  proof (rule that [of "length (vm_heap vm1)" ?vm'])
    show "gc_alloc_object vm pl = Some (length (vm_heap vm1), ?vm')" by (simp add: gc_alloc_object_eq c(1))
    show "gc_ok ?vm'" using link_object_ok [OF c(3) refs1 str] .
    show "hpayload (vm_heap ?vm') (length (vm_heap vm1)) = Some pl" using c(6) get by (simp add: hpayload_def)
    show "hpayload (vm_heap ?vm') q = hpayload (vm_heap vm) q" if "q \<in> reachable vm" for q
      using c(4) [OF that] get allocated_less reachable_allocated [OF ok] that by (fastforce simp: hpayload_def)
    show "hget (vm_heap vm) q = Some ob" if "q \<noteq> length (vm_heap vm1)" "hget (vm_heap ?vm') q = Some ob" for q ob
      using that c(5,6) get by simp
    show "q \<in> st_live (vm_strings ?vm')"
      if "interned vm" "q \<noteq> length (vm_heap vm1)" "get_string (vm_heap ?vm') q = Some s" for q s
      using that c(6,8) get by (simp add: interned_def get_string_def hpayload_def link_object_def)
    show "byte_drift ?vm' + of_nat (owned_size pl) = byte_drift vm"
      using link_object_drift [OF c(3), of pl] c(9) drift by (simp add: algebra_simps)
  qed (use frame c in \<open>simp_all add: link_object_def\<close>)
qed

section \<open>Interning\<close>

definition is_str :: "heap \<Rightarrow> ptr \<Rightarrow> string \<Rightarrow> bool" where
  "is_str h p chars \<longleftrightarrow> get_string h p =
     Some \<lparr>str_length = length chars, str_hash = hash_string chars, str_chars = chars\<rparr>"

lemma is_str_iff: "is_str h p chars \<longleftrightarrow> string_ok h p \<and> chars_of h p = chars"
  by (auto simp: is_str_def string_ok_def chars_of_def)

lemma chars_of_hpayload: "hpayload h' p = hpayload h p \<Longrightarrow> chars_of h' p = chars_of h p"
  by (simp add: chars_of_def get_string_def)

lemma string_alloc_full:
  assumes ok: "vm_ok vm" and room: "st_room (Suc n) (vm_strings vm)"
    and fresh: "\<forall>q \<in> st_live (vm_strings vm). chars_of (vm_heap vm) q \<noteq> chars"
  obtains p vm' where "string_alloc vm chars (hash_string chars) = Some (p, vm')" "gc_frame vm vm'" "vm_ok vm'"
    "is_str (vm_heap vm') p chars" "st_room n (vm_strings vm')" "p \<notin> allocated (vm_heap vm)"
    "\<And>q. q \<in> reachable vm \<Longrightarrow> hpayload (vm_heap vm') q = hpayload (vm_heap vm) q"
    "byte_drift vm' = byte_drift vm"
proof -
  let ?pl = "OBJ_STRING \<lparr>str_length = length chars, str_hash = hash_string chars, str_chars = chars\<rparr>"
  have gc: "gc_ok vm" and int: "interned vm" using ok by (simp_all add: vm_ok_def)
  have refs: "set (payload_refs ?pl) \<subseteq> reachable vm" by simp
  obtain p vm1 where a: "gc_alloc_object vm ?pl = Some (p, vm1)" "gc_frame vm vm1" "gc_ok vm1"
    "hpayload (vm_heap vm1) p = Some ?pl" "p = length (vm_heap vm)"
    "\<And>q. q \<in> reachable vm \<Longrightarrow> hpayload (vm_heap vm1) q = hpayload (vm_heap vm) q"
    "\<And>q ob. q \<noteq> p \<Longrightarrow> hget (vm_heap vm1) q = Some ob \<Longrightarrow> hget (vm_heap vm) q = Some ob"
    "st_live (vm_strings vm1) \<subseteq> st_live (vm_strings vm)"
    "\<And>q s. interned vm \<Longrightarrow> q \<noteq> p \<Longrightarrow> get_string (vm_heap vm1) q = Some s \<Longrightarrow> q \<in> st_live (vm_strings vm1)"
    "byte_drift vm1 + of_nat (owned_size ?pl) = byte_drift vm"
    "st_count (vm_strings vm1) = st_count (vm_strings vm) \<and> st_capacity (vm_strings vm1) = st_capacity (vm_strings vm)"
    by (rule gc_alloc_object_full [OF gc refs]) (auto intro: that)
  have str: "is_str (vm_heap vm1) p chars" using a(4) by (simp add: is_str_def get_string_def)
  have intern1: "intern_ok (vm_heap vm1) (vm_strings vm1)" using a(3) by (simp add: gc_ok_def)
  have pnew: "p \<notin> allocated (vm_heap vm)" using a(5) allocated_less by blast
  have fresh1: "\<forall>q \<in> st_live (vm_strings vm1). chars_of (vm_heap vm1) q \<noteq> chars_of (vm_heap vm1) p"
  proof
    fix q assume q: "q \<in> st_live (vm_strings vm1)"
    have "q \<in> allocated (vm_heap vm)" "q \<in> allocated (vm_heap vm1)"
      using q a(8) intern_ok_live_string [OF intern1 q] intern_ok_live_string [of "vm_heap vm" "vm_strings vm" q] gc
      by (auto simp: gc_ok_def intro: string_ok_allocated)
    moreover from this have "q \<noteq> p" using pnew by blast
    ultimately have "hpayload (vm_heap vm1) q = hpayload (vm_heap vm) q"
      using a(7) [of q] by (auto simp: allocated_def hpayload_def)
    then show "chars_of (vm_heap vm1) q \<noteq> chars_of (vm_heap vm1) p"
      using fresh q a(8) str chars_of_hpayload [of "vm_heap vm1" q "vm_heap vm"]
      unfolding is_str_iff by (metis subsetD)
  qed
  have room1: "st_room (Suc n) (vm_strings vm1)" using room a(11) by (simp add: st_room_def)
  obtain t where t: "string_table_set (vm_heap vm1) (vm_strings vm1) p = Some t" "intern_ok (vm_heap vm1) t"
    "st_room n t" "st_live t = insert p (st_live (vm_strings vm1))"
    using string_table_set_spec [OF intern1 room1 _ fresh1] str by (auto simp: is_str_iff)
  let ?vm = "vm1\<lparr>vm_strings := t, vm_bytes_allocated := vm_bytes_allocated vm1 + of_nat (sizeof_ptr * st_capacity t)
    - of_nat (sizeof_ptr * st_capacity (vm_strings vm1))\<rparr>"
  show thesis
  proof (rule that [of p ?vm])
    show "string_alloc vm chars (hash_string chars) = Some (p, ?vm)"
      using a(1) t(1) by (simp add: string_alloc_def vm_string_table_set_def)
    show "gc_frame vm ?vm" using a(2) by (simp add: gc_frame_def forget_heap_def)
    have "gc_ok ?vm" using a(3) t(2) by (simp add: gc_ok_def root_refs_def)
    moreover have "interned ?vm" using a(9) [OF int] t(4) by (auto simp: interned_def)
    ultimately show "vm_ok ?vm" by (simp add: vm_ok_def)
    show "byte_drift ?vm = byte_drift vm" using a(10) by (simp add: byte_drift_def held_bytes_def algebra_simps)
  qed (use str t(3) pnew a(6) in simp_all)
qed

text \<open>
  \<open>object_string_copy\<close> returns a string object with the given characters; it allocates only when no
  live string has these characters.
\<close>

lemma object_string_copy_full:
  assumes ok: "vm_ok vm" and room: "st_room (Suc n) (vm_strings vm)"
  obtains p vm' where "object_string_copy vm chars = Some (p, vm')" "gc_frame vm vm'" "vm_ok vm'"
    "is_str (vm_heap vm') p chars" "st_room n (vm_strings vm')"
    "\<And>q. q \<in> reachable vm \<Longrightarrow> hpayload (vm_heap vm') q = hpayload (vm_heap vm) q"
    "byte_drift vm' = byte_drift vm"
    "\<And>q. is_str (vm_heap vm) q chars \<Longrightarrow> p = q \<and> vm' = vm"
proof -
  have int: "intern_ok (vm_heap vm) (vm_strings vm)" and live: "interned vm"
    using ok by (simp_all add: vm_ok_def gc_ok_def)
  obtain r where r: "string_table_find (vm_heap vm) (vm_strings vm) chars (hash_string chars) = Some r"
    "\<And>p. r = Some p \<Longrightarrow> p \<in> st_live (vm_strings vm) \<and> chars_of (vm_heap vm) p = chars"
    "r = None \<Longrightarrow> \<forall>p \<in> st_live (vm_strings vm). chars_of (vm_heap vm) p \<noteq> chars"
    by (rule string_table_find_spec [OF int]) (rule that)
  have is_live: "q \<in> st_live (vm_strings vm) \<and> chars_of (vm_heap vm) q = chars" if "is_str (vm_heap vm) q chars" for q
    using that live is_str_iff [of "vm_heap vm" q chars] by (auto simp: interned_def is_str_def)
  show thesis
  proof (cases r)
    case (Some p)
    note p = r(2) [OF Some]
    show thesis
    proof (rule that [of p vm])
      show "object_string_copy vm chars = Some (p, vm)" using r(1) Some by (simp add: object_string_copy_def Let_def)
      show "is_str (vm_heap vm) p chars" using p intern_ok_live_string [OF int] by (simp add: is_str_iff)
      show "p = q \<and> vm = vm" if "is_str (vm_heap vm) q chars" for q
        using is_live [OF that] p intern_ok_unique [OF int] by metis
    qed (use ok room gc_frame_refl in \<open>simp_all add: st_room_def\<close>)
  next
    case None
    obtain p vm' where s: "string_alloc vm chars (hash_string chars) = Some (p, vm')" "gc_frame vm vm'" "vm_ok vm'"
      "is_str (vm_heap vm') p chars" "st_room n (vm_strings vm')" "p \<notin> allocated (vm_heap vm)"
      "\<And>q. q \<in> reachable vm \<Longrightarrow> hpayload (vm_heap vm') q = hpayload (vm_heap vm) q"
      "byte_drift vm' = byte_drift vm"
      by (rule string_alloc_full [OF ok room r(3) [OF None]]) (rule that)
    show thesis
    proof (rule that [of p vm'])
      show "object_string_copy vm chars = Some (p, vm')" using r(1) None s(1) by (simp add: object_string_copy_def Let_def)
      show "p = q \<and> vm' = vm" if "is_str (vm_heap vm) q chars" for q
        using is_live [OF that] r(3) [OF None] by blast
    qed (use s in simp_all)
  qed
qed

text \<open>Pointer equality is string equality.\<close>

lemma interned_unique:
  assumes "vm_ok vm" "is_str (vm_heap vm) p cs" "is_str (vm_heap vm) q cs"
  shows "p = q"
proof -
  have "p \<in> st_live (vm_strings vm)" "q \<in> st_live (vm_strings vm)"
    using assms by (auto simp: vm_ok_def interned_def is_str_def)
  then show ?thesis
    using assms intern_ok_unique [of "vm_heap vm" "vm_strings vm" p q]
    by (auto simp: vm_ok_def gc_ok_def is_str_iff)
qed

lemma vm_ok_is_str:
  assumes "vm_ok vm" "get_string (vm_heap vm) p = Some s"
  shows "is_str (vm_heap vm) p (str_chars s)"
  using assms by (auto simp: vm_ok_def gc_ok_def strings_ok_def is_str_iff chars_of_def)

section \<open>Structural equality\<close>

text \<open>The dictionaries of the heap are well-formed hash tables.\<close>

definition dicts_ok :: "heap \<Rightarrow> bool" where
  "dicts_ok h \<longleftrightarrow> (\<forall>p d. get_dict h p = Some d \<longrightarrow> dict_ok (key_hash h) d)"

definition value_live :: "heap \<Rightarrow> flux_value \<Rightarrow> bool" where
  "value_live h v \<longleftrightarrow> set (value_refs v) \<subseteq> allocated h"

lemma equal_elements_total:
  assumes "\<And>a b. a \<in> set as \<Longrightarrow> b \<in> set bs \<Longrightarrow> eq a b \<noteq> None"
  shows "equal_elements eq as bs \<noteq> None"
  using assms
proof (induction eq as bs rule: equal_elements.induct)
  case (1 eq a as b bs)
  then obtain r where "eq a b = Some r" by (meson list.set_intros(1) not_None_eq)
  then show ?case using 1 by (cases r) simp_all
qed simp_all

lemma equal_entries_total:
  assumes "\<And>e k. e \<in> set es \<Longrightarrow> de_key e = Some k \<Longrightarrow> get k \<noteq> None"
    and "\<And>e k bv. e \<in> set es \<Longrightarrow> de_key e = Some k \<Longrightarrow> get k = Some (Some bv) \<Longrightarrow> eq (de_value e) bv \<noteq> None"
  shows "equal_entries eq get es \<noteq> None"
  using assms
proof (induction es)
  case (Cons e es)
  have IH: "equal_entries eq get es \<noteq> None"
    using Cons.prems by (intro Cons.IH) auto
  have head: "get k \<noteq> None" "get k = Some (Some bv) \<Longrightarrow> eq (de_value e) bv \<noteq> None" if "de_key e = Some k" for k bv
    using Cons.prems that by (meson list.set_intros(1))+
  show ?case using IH head by (fastforce split: option.splits simp: bind_eq_None_conv)
qed simp

lemma value_live_elements:
  "v \<in> set vs \<Longrightarrow> set (values_refs vs) \<subseteq> allocated h \<Longrightarrow> value_live h v"
  by (auto simp: value_live_def values_refs_def)

lemma heap_closed_payload:
  assumes "heap_closed h" "hpayload h p = Some pl"
  shows "set (payload_refs pl) \<subseteq> allocated h"
proof -
  have "p \<in> allocated h" "heap_refs h p = set (payload_refs pl)"
    using assms(2) by (auto simp: heap_refs_def allocated_def hpayload_def)
  then show ?thesis using assms(1) by (auto simp: heap_closed_def)
qed

lemma value_live_object: "value_live h (VAL_OBJECT p) \<longleftrightarrow> (\<exists>pl. hpayload h p = Some pl)"
  by (auto simp: value_live_def allocated_def hpayload_def)

lemma entry_refs_live:
  assumes "e \<in> set (d_entries d)" "de_key e = Some k" "set (payload_refs (OBJ_DICT d)) \<subseteq> allocated h"
  shows "value_live h (de_value e) \<and> k \<in> allocated h"
  using assms by (force simp: value_live_def entry_refs_def)

text \<open>A lookup in a dictionary of a closed heap gives a live value.\<close>

lemma dict_get_live:
  assumes "dict_ok kh d" "kh k \<noteq> None" "dict_get kh d k = Some (Some v)"
    "set (payload_refs (OBJ_DICT d)) \<subseteq> allocated h"
  shows "value_live h v"
proof -
  have "dict_map d k = Some v" using assms(1-3) dict_get_spec by simp
  then have "(k, v) \<in> set (entries_alist (d_entries d))"
    by (auto simp: dict_map_def dict_alist_def dest: map_of_SomeD)
  then obtain e where "e \<in> set (d_entries d)" "de_key e = Some k" "de_value e = v"
    unfolding entries_alist_iff by (metis dict_entry.select_convs(1,2) nth_mem)
  then show ?thesis using entry_refs_live [OF _ _ assms(4)] by blast
qed

lemma value_equal_depth_total:
  assumes closed: "heap_closed h" and dicts: "dicts_ok h" and "value_live h a" "value_live h b"
  shows "value_equal_depth h a b depth \<noteq> None"
  using assms(3,4)
proof (induction "VALUE_EQUAL_MAX_DEPTH - depth" arbitrary: a b depth rule: less_induct)
  case less
  show ?case
  proof (cases "\<exists>p q. a = VAL_OBJECT p \<and> b = VAL_OBJECT q")
    case False
    then show ?thesis
      by (cases a; cases b) (simp_all add: value_equal_depth.simps value_is_number_def)
  next
    case True
    then obtain p q where ab: "a = VAL_OBJECT p" "b = VAL_OBJECT q" by blast
    obtain pa pb where pl: "hpayload h p = Some pa" "hpayload h q = Some pb"
      using less.prems ab by (auto simp: value_live_object)
    note refs = heap_closed_payload [OF closed pl(1)] heap_closed_payload [OF closed pl(2)]
    have IH: "value_equal_depth h x y (depth + 1) \<noteq> None"
      if "\<not> VALUE_EQUAL_MAX_DEPTH \<le> depth" "value_live h x" "value_live h y" for x y
      using that by (intro less.hyps) auto
    show ?thesis
    proof (cases "p = q \<or> VALUE_EQUAL_MAX_DEPTH \<le> depth")
      case True
      then show ?thesis using ab pl by (auto simp: value_equal_depth.simps split: payload.split)
    next
      case deep: False
      have lists: "equal_elements (\<lambda>x y. value_equal_depth h x y (depth + 1)) (va_data (elements la)) (va_data (elements lb)) \<noteq> None"
        if "pa = OBJ_LIST la" "pb = OBJ_LIST lb" for la lb
        using that refs deep by (intro equal_elements_total IH) (auto intro: value_live_elements)
      have dicts: "equal_entries (\<lambda>x y. value_equal_depth h x y (depth + 1)) (dict_get (key_hash h) db) (d_entries da) \<noteq> None"
        if d: "pa = OBJ_DICT da" "pb = OBJ_DICT db" for da db
      proof (rule equal_entries_total)
        have "get_dict h p = Some da" "get_dict h q = Some db" using pl d by (simp_all add: get_dict_def)
        then have ok: "dict_ok (key_hash h) da" "dict_ok (key_hash h) db"
          using dicts unfolding dicts_ok_def by blast+
        fix e k assume e: "e \<in> set (d_entries da)" "de_key e = Some k"
        have "(k, de_value e) \<in> set (entries_alist (d_entries da))"
          using e unfolding entries_alist_iff by (metis dict_entry.surjective in_set_conv_nth old.unit.exhaust)
        then have "dict_map da k \<noteq> None"
          using weak_map_of_SomeI [of k] by (fastforce simp: dict_map_def dict_alist_def)
        then have kh: "key_hash h k \<noteq> None" using dict_ok_keys [OF ok(1)] by blast
        then show "dict_get (key_hash h) db k \<noteq> None" using dict_get_spec [OF ok(2)] by simp
        fix bv assume "dict_get (key_hash h) db k = Some (Some bv)"
        then show "value_equal_depth h (de_value e) bv (depth + 1) \<noteq> None"
          using deep refs d entry_refs_live [OF e] dict_get_live [OF ok(2) kh] by (intro IH) auto
      qed
      show ?thesis
        using pl deep lists dicts
        unfolding ab value_equal_depth.simps [of h "VAL_OBJECT p" "VAL_OBJECT q"]
        by (auto split: payload.split)
    qed
  qed
qed

text \<open>On trees of nulls, booleans, integers, strings and lists, equality is equality of what they denote.\<close>

datatype plain = P_Null | P_Bool bool | P_Int int64 | P_Str string | P_List "plain list"

fun reify :: "nat \<Rightarrow> heap \<Rightarrow> flux_value \<Rightarrow> plain option" where
  "reify n h VAL_NULL = Some P_Null"
| "reify n h (VAL_BOOL b) = Some (P_Bool b)"
| "reify n h (VAL_INT i) = Some (P_Int i)"
| "reify n h (VAL_FLOAT d) = None"
| "reify 0 h (VAL_OBJECT p) =
     (case hpayload h p of Some (OBJ_STRING s) \<Rightarrow> Some (P_Str (str_chars s)) | _ \<Rightarrow> None)"
| "reify (Suc n) h (VAL_OBJECT p) =
     (case hpayload h p of
        Some (OBJ_STRING s) \<Rightarrow> Some (P_Str (str_chars s))
      | Some (OBJ_LIST l) \<Rightarrow> map_option P_List (those (map (reify n h) (va_data (elements l))))
      | _ \<Rightarrow> None)"

lemma those_Some_iff: "those (map f xs) = Some ys \<longleftrightarrow> map f xs = map Some ys"
  by (induction xs arbitrary: ys) (auto split: option.splits simp: Cons_eq_map_conv)

lemma equal_elements_map:
  assumes "map f as = map Some ts" "map f bs = map Some us" "length as = length bs"
    and "\<And>x y t u. x \<in> set as \<Longrightarrow> y \<in> set bs \<Longrightarrow> f x = Some t \<Longrightarrow> f y = Some u \<Longrightarrow> eq x y = Some (t = u)"
  shows "equal_elements eq as bs = Some (ts = us)"
  using assms(3,1,2,4)
proof (induction as bs arbitrary: ts us rule: list_induct2)
  case (Cons a as b bs)
  then obtain t ts' u us' where tu: "ts = t # ts'" "us = u # us'" "f a = Some t" "f b = Some u"
    "map f as = map Some ts'" "map f bs = map Some us'" by (auto simp: Cons_eq_map_conv)
  have "equal_elements eq as bs = Some (ts' = us')" using Cons.prems(3) by (intro Cons.IH tu) auto
  moreover have "eq a b = Some (t = u)" using Cons.prems(3) tu by auto
  ultimately show ?case using tu by simp
qed simp

lemma value_equal_depth_plain:
  assumes ok: "vm_ok vm" and "reify n (vm_heap vm) a = Some ta" "reify n (vm_heap vm) b = Some tb"
    and "depth + n \<le> VALUE_EQUAL_MAX_DEPTH"
  shows "value_equal_depth (vm_heap vm) a b depth = Some (ta = tb)"
  using assms(2-)
proof (induction n arbitrary: a b ta tb depth)
  have str: "p = q \<longleftrightarrow> str_chars s = str_chars s'"
    if "hpayload (vm_heap vm) p = Some (OBJ_STRING s)" "hpayload (vm_heap vm) q = Some (OBJ_STRING s')" for p q s s'
    using that ok vm_ok_is_str [OF ok, of p s] vm_ok_is_str [OF ok, of q s'] interned_unique [OF ok, of p _ q]
    by (auto simp: get_string_def)
  {
    case 0
    then show ?case
      by (cases a; cases b) (auto simp: value_equal_depth.simps value_is_number_def str
          split: option.splits payload.splits)
  next
    case (Suc n)
    have IH: "value_equal_depth (vm_heap vm) x y (depth + 1) = Some (t = u)"
      if "reify n (vm_heap vm) x = Some t" "reify n (vm_heap vm) y = Some u" for x y t u
      using Suc.IH [OF that, of "depth + 1"] Suc.prems(3) by simp
    have lists: "(if length as \<noteq> length bs then Some False
        else equal_elements (\<lambda>x y. value_equal_depth (vm_heap vm) x y (depth + 1)) as bs) = Some (ts = us)"
      if "those (map (reify n (vm_heap vm)) as) = Some ts" "those (map (reify n (vm_heap vm)) bs) = Some us"
      for as bs ts us
    proof (cases "length as = length bs")
      case True
      then show ?thesis
        using that IH unfolding those_Some_iff by (simp add: equal_elements_map)
    next
      case False
      moreover have "length as = length ts" "length bs = length us"
        using that unfolding those_Some_iff by (metis length_map)+
      ultimately show ?thesis by auto
    qed
    have deep: "\<not> VALUE_EQUAL_MAX_DEPTH \<le> depth" using Suc.prems(3) by simp
    show ?case
    proof (cases "\<exists>p q. a = VAL_OBJECT p \<and> b = VAL_OBJECT q")
      case False
      then show ?thesis using Suc.prems
        by (cases a; cases b) (auto simp: value_equal_depth.simps value_is_number_def
            split: option.splits payload.splits)
    next
      case True
      then obtain p q where ab: "a = VAL_OBJECT p" "b = VAL_OBJECT q" by blast
      show ?thesis
      proof (cases "p = q")
        case True
        then show ?thesis using Suc.prems(1,2) ab by (simp add: value_equal_depth.simps)
      next
        case False
        show ?thesis
        proof (cases "\<exists>la lb. hpayload (vm_heap vm) p = Some (OBJ_LIST la) \<and> hpayload (vm_heap vm) q = Some (OBJ_LIST lb)")
          case True
          then obtain la lb where l: "hpayload (vm_heap vm) p = Some (OBJ_LIST la)"
            "hpayload (vm_heap vm) q = Some (OBJ_LIST lb)" by blast
          then obtain ts us where t: "those (map (reify n (vm_heap vm)) (va_data (elements la))) = Some ts"
            "those (map (reify n (vm_heap vm)) (va_data (elements lb))) = Some us" "ta = P_List ts" "tb = P_List us"
            using Suc.prems(1,2) ab by auto
          show ?thesis
            unfolding ab value_equal_depth.simps [of _ "VAL_OBJECT p" "VAL_OBJECT q"]
            using l t lists [OF t(1,2)] deep \<open>p \<noteq> q\<close> by simp
        next
          case other: False
          then show ?thesis using Suc.prems(1,2) deep str [of p _ q] \<open>p \<noteq> q\<close>
            unfolding ab value_equal_depth.simps [of _ "VAL_OBJECT p" "VAL_OBJECT q"]
            by (auto split: option.splits payload.splits)
        qed
      qed
    qed
  }
qed

section \<open>Equality of dictionaries\<close>

text \<open>When the values under common keys are equal, the loop decides whether every key is in the second dictionary.\<close>

lemma equal_entries_keys:
  assumes "\<And>e k. e \<in> set es \<Longrightarrow> de_key e = Some k \<Longrightarrow>
      get k = Some None \<or> (\<exists>bv. get k = Some (Some bv) \<and> eq (de_value e) bv = Some True)"
  shows "equal_entries eq get es = Some (\<forall>e \<in> set es. \<forall>k. de_key e = Some k \<longrightarrow> get k \<noteq> Some None)"
  using assms
proof (induction es)
  case (Cons e es)
  have "equal_entries eq get es = Some (\<forall>e \<in> set es. \<forall>k. de_key e = Some k \<longrightarrow> get k \<noteq> Some None)"
    using Cons.prems by (intro Cons.IH) auto
  moreover have "get k = Some None \<or> (\<exists>bv. get k = Some (Some bv) \<and> eq (de_value e) bv = Some True)" if "de_key e = Some k" for k
    using Cons.prems that by simp
  ultimately show ?case by (cases "de_key e") fastforce+
qed simp

lemma entry_of_key:
  assumes "dict_ok kh d" "e \<in> set (d_entries d)" "de_key e = Some k"
  shows "dict_map d k = Some (de_value e)"
proof -
  obtain i where i: "i < length (d_entries d)" "d_entries d ! i = e" using assms(2) by (metis in_set_conv_nth)
  then have cap: "d_capacity d \<noteq> 0" using assms(1) by (auto simp: dict_ok_def split: if_splits)
  note t = dict_ok_parts(1) [OF assms(1) cap]
  show ?thesis using table_ok_lookup [OF t, of i k] table_ok_cap [OF t] i assms(3) by (simp add: dict_map_def dict_alist_def)
qed

lemma key_of_entry:
  assumes "dict_map d k = Some v"
  shows "\<exists>e \<in> set (d_entries d). de_key e = Some k"
proof -
  have "k \<in> fst ` set (entries_alist (d_entries d))" using assms by (force simp: dict_map_def dict_alist_def dest: map_of_SomeD)
  then show ?thesis using nth_mem by (auto simp: entries_alist_keys)
qed

lemma get_dict_payload: "get_dict h p = Some d \<longleftrightarrow> hpayload h p = Some (OBJ_DICT d)"
  by (auto simp: get_dict_def split: option.splits payload.splits)

lemma dicts_compared:
  assumes "get_dict h p = Some da" "get_dict h q = Some db" "p \<noteq> q"
  shows "value_equal h (VAL_OBJECT p) (VAL_OBJECT q) =
    (if d_count da \<noteq> d_count db then Some False
     else equal_entries (\<lambda>x y. value_equal_depth h x y 1) (dict_get (key_hash h) db) (d_entries da))"
  using assms by (simp add: value_equal_def value_equal_depth.simps [of _ "VAL_OBJECT p"] get_dict_payload VALUE_EQUAL_MAX_DEPTH_def)

text \<open>Two dictionaries with the same count that agree on their common keys.\<close>

lemma dicts_equal_keys:
  assumes "get_dict h p = Some da" "get_dict h q = Some db" "p \<noteq> q" "dict_ok (key_hash h) da" "dict_ok (key_hash h) db"
    "d_count da = d_count db"
    "\<And>k v w. dict_map da k = Some v \<Longrightarrow> dict_map db k = Some w \<Longrightarrow> value_equal_depth h v w 1 = Some True"
  shows "value_equal h (VAL_OBJECT p) (VAL_OBJECT q) = Some (dom (dict_map da) \<subseteq> dom (dict_map db))"
proof -
  have get: "dict_get (key_hash h) db k = Some (dict_map db k)" if "dict_map da k = Some v" for k v
    using dict_get_spec [OF assms(5)] dict_ok_keys [OF assms(4) that] by blast
  have entry: "dict_map da k = Some (de_value e)" if "e \<in> set (d_entries da)" "de_key e = Some k" for e k
    by (rule entry_of_key [OF assms(4) that])
  have "equal_entries (\<lambda>x y. value_equal_depth h x y 1) (dict_get (key_hash h) db) (d_entries da) =
    Some (\<forall>e \<in> set (d_entries da). \<forall>k. de_key e = Some k \<longrightarrow> dict_get (key_hash h) db k \<noteq> Some None)"
    by (rule equal_entries_keys) (use entry get assms(7) in \<open>metis not_None_eq\<close>)
  also have "(\<forall>e \<in> set (d_entries da). \<forall>k. de_key e = Some k \<longrightarrow> dict_get (key_hash h) db k \<noteq> Some None) \<longleftrightarrow>
      dom (dict_map da) \<subseteq> dom (dict_map db)"
  proof
    assume l: "\<forall>e \<in> set (d_entries da). \<forall>k. de_key e = Some k \<longrightarrow> dict_get (key_hash h) db k \<noteq> Some None"
    show "dom (dict_map da) \<subseteq> dom (dict_map db)"
    proof
      fix k assume "k \<in> dom (dict_map da)"
      then obtain v where v: "dict_map da k = Some v" by blast
      then show "k \<in> dom (dict_map db)" using key_of_entry [OF v] l get [OF v] by auto
    qed
  next
    assume r: "dom (dict_map da) \<subseteq> dom (dict_map db)"
    show "\<forall>e \<in> set (d_entries da). \<forall>k. de_key e = Some k \<longrightarrow> dict_get (key_hash h) db k \<noteq> Some None"
    proof (intro ballI allI impI)
      fix e k assume "e \<in> set (d_entries da)" "de_key e = Some k"
      then have "dict_map da k = Some (de_value e)" by (rule entry)
      then show "dict_get (key_hash h) db k \<noteq> Some None" using r get by (metis domD domI option.inject option.simps(3) subsetD)
    qed
  qed
  finally show ?thesis using dicts_compared [OF assms(1-3)] assms(6) by simp
qed

lemma value_equal_depth_refl: "(\<And>x. v = VAL_FLOAT x \<Longrightarrow> \<not> dbl_is_nan x) \<Longrightarrow> value_equal_depth h v v depth = Some True"
  by (cases v) (simp_all add: value_equal_depth.simps dbl_eq_def)

text \<open>The count is the number of keys and of tombstones.\<close>

lemma card_dict_map:
  assumes "dict_ok kh d"
  shows "finite (dom (dict_map d))" "card (dom (dict_map d)) \<le> d_count d"
proof -
  have "dom (dict_map d) = fst ` set (entries_alist (d_entries d))" by (simp add: dict_map_def dict_alist_def dom_map_of_conv_image_fst)
  then have "card (dom (dict_map d)) \<le> length (entries_alist (d_entries d))"
    by (metis card_length length_map list.set_map)
  also have "\<dots> \<le> d_count d" using assms length_entries_alist by (simp add: dict_ok_def)
  finally show "card (dom (dict_map d)) \<le> d_count d" .
  show "finite (dom (dict_map d))" by (simp add: dict_map_def finite_dom_map_of)
qed

end
