(* ===== verification/VMCore.thy ===== *)
theory VMCore
  imports ObjectProps
begin

text \<open>
  The parts of \<^verbatim>\<open>src/vm/vm.c\<close> around the dispatch loop: creation and reset of the machine, errors,
  globals, upvalues, call frames and the import directory stack.
\<close>

section \<open>Text of messages\<close>

text \<open>A C string ends at its first NUL; \<open>snprintf\<close> into a buffer of 512 bytes keeps 511.\<close>

definition c_str :: "string \<Rightarrow> string" where
  "c_str s = takeWhile (\<lambda>c. c \<noteq> CHR 0x00) s"

fun show_digits :: "nat \<Rightarrow> nat \<Rightarrow> string" where
  "show_digits 0 n = []"
| "show_digits (Suc fuel) n =
     (if n < 10 then [char_of (48 + n)] else show_digits fuel (n div 10) @ [char_of (48 + n mod 10)])"

definition show_nat :: "nat \<Rightarrow> string" where
  "show_nat n = show_digits (Suc n) n"

definition show_int :: "int \<Rightarrow> string" where
  "show_int i = (if i < 0 then CHR ''-'' # show_nat (nat (- i)) else show_nat (nat i))"

definition message :: "string list \<Rightarrow> string" where
  "message parts = take 511 (concat parts)"

definition quoted :: "string \<Rightarrow> string" where
  "quoted s = CHR 0x27 # s @ [CHR 0x27]"

definition string_chars :: "heap \<Rightarrow> ptr \<Rightarrow> string option" where
  "string_chars h p = map_option (\<lambda>s. c_str (str_chars s)) (get_string h p)"

section \<open>Machine lifecycle\<close>

definition vm_zero :: flux_vm where
  "vm_zero = \<lparr>vm_stack = [], vm_frames = [], vm_globals = None, vm_modules = None,
     vm_import_dirs = [], vm_import_stack_names = [], vm_strings = string_table_new,
     vm_heap = [], vm_objects = [], vm_open_upvalues = [], vm_bytes_allocated = 0,
     vm_next_gc = 1024 * 1024, vm_grey_stack = [], vm_grey_capacity = 0,
     vm_class_string = None, vm_class_list = None, vm_class_dict = None, vm_class_int = None,
     vm_class_float = None, vm_class_bool = None, vm_class_enum_member = None,
     vm_gen_yield_collector = None, vm_ready_queue = [], vm_ready_capacity = 0,
     vm_current_coroutine = None, vm_main_coroutine = None, vm_pending_io_count = 0,
     vm_io_futures = [], vm_io_future_capacity = 0, vm_error_msg = [], vm_has_error = False,
     vm_error_printed = False, vm_exception_handlers = [], vm_current_exception = VAL_NULL,
     vm_has_exception = False\<rparr>"

definition vm_new :: "flux_vm option" where
  "vm_new = do {
     (globals, vm) \<leftarrow> object_dict_new vm_zero;
     (modules, vm) \<leftarrow> object_dict_new (vm\<lparr>vm_globals := Some globals\<rparr>);
     Some (vm\<lparr>vm_modules := Some modules\<rparr>)
   }"

definition vm_reset_stack :: "flux_vm \<Rightarrow> flux_vm" where
  "vm_reset_stack vm = vm\<lparr>vm_stack := [], vm_frames := [], vm_open_upvalues := []\<rparr>"

section \<open>Errors\<close>

text \<open>
  \<open>vm_runtime_error\<close> records the message and prints a report, for which it follows the closure and
  the function of the last 20 frames; the report itself is not modelled.
\<close>

definition frame_function :: "flux_vm \<Rightarrow> call_frame \<Rightarrow> flux_function option" where
  "frame_function vm f = do { cl \<leftarrow> get_closure (vm_heap vm) (fr_closure f); get_function (vm_heap vm) (cl_function cl) }"

definition vm_runtime_error :: "flux_vm \<Rightarrow> string \<Rightarrow> flux_vm option" where
  "vm_runtime_error vm msg =
     (if list_all (\<lambda>f. frame_function vm f \<noteq> None) (drop (length (vm_frames vm) - 20) (vm_frames vm))
      then Some (vm\<lparr>vm_error_msg := take 511 msg, vm_has_error := True, vm_error_printed := True\<rparr>)
      else None)"

section \<open>Globals\<close>

definition vm_get_global :: "flux_vm \<Rightarrow> ptr \<Rightarrow> flux_value option option" where
  "vm_get_global vm name = do { g \<leftarrow> vm_globals vm; heap_dict_get (vm_heap vm) g name }"

definition vm_set_global :: "flux_vm \<Rightarrow> ptr \<Rightarrow> flux_value \<Rightarrow> flux_vm option" where
  "vm_set_global vm name v = do { g \<leftarrow> vm_globals vm; vm_dict_set vm g name v }"

definition vm_register_native :: "flux_vm \<Rightarrow> string \<Rightarrow> nat \<Rightarrow> int \<Rightarrow> flux_vm option" where
  "vm_register_native vm name fn arity = do {
     (s, vm) \<leftarrow> object_string_copy vm name;
     (nat, vm) \<leftarrow> object_native_new (vm_push vm (VAL_OBJECT s)) fn name arity;
     vm \<leftarrow> vm_set_global (vm_push vm (VAL_OBJECT nat)) s (VAL_OBJECT nat);
     (_, vm) \<leftarrow> vm_pop vm;
     (_, vm) \<leftarrow> vm_pop vm;
     Some vm
   }"

section \<open>Upvalues\<close>

text \<open>The slot an open upvalue points at; the list of open upvalues holds no closed one.\<close>

definition open_slot :: "heap \<Rightarrow> ptr \<Rightarrow> nat option" where
  "open_slot h p = (case get_upvalue h p of Some uv \<Rightarrow> (case uv_location uv of Open n \<Rightarrow> Some n | Closed \<Rightarrow> None) | None \<Rightarrow> None)"

text \<open>The walk \<^verbatim>\<open>while (uv && uv->location > local)\<close>: the upvalues passed and the rest.\<close>

fun upvalue_walk :: "heap \<Rightarrow> nat \<Rightarrow> ptr list \<Rightarrow> (ptr list \<times> ptr list) option" where
  "upvalue_walk h slot [] = Some ([], [])"
| "upvalue_walk h slot (uv # uvs) = do {
     l \<leftarrow> open_slot h uv;
     if slot < l then do { (above, rest) \<leftarrow> upvalue_walk h slot uvs; Some (uv # above, rest) }
     else Some ([], uv # uvs)
   }"

definition capture_upvalue :: "flux_vm \<Rightarrow> nat \<Rightarrow> (ptr \<times> flux_vm) option" where
  "capture_upvalue vm slot = do {
     (above, rest) \<leftarrow> upvalue_walk (vm_heap vm) slot (vm_open_upvalues vm);
     if rest \<noteq> [] \<and> open_slot (vm_heap vm) (hd rest) = Some slot then Some (hd rest, vm)
     else do {
       (uv, vm) \<leftarrow> object_upvalue_new vm slot;
       Some (uv, vm\<lparr>vm_open_upvalues := above @ uv # rest\<rparr>)
     }
   }"

fun close_upvalues_loop :: "nat \<Rightarrow> ptr list \<Rightarrow> flux_vm \<Rightarrow> flux_vm option" where
  "close_upvalues_loop last_slot [] vm = Some (vm\<lparr>vm_open_upvalues := []\<rparr>)"
| "close_upvalues_loop last_slot (p # uvs) vm = do {
     l \<leftarrow> open_slot (vm_heap vm) p;
     if last_slot \<le> l then do {
       v \<leftarrow> nth_opt (vm_stack vm) l;
       vm \<leftarrow> vm_hput vm p (OBJ_UPVALUE \<lparr>uv_location = Closed, uv_closed = v\<rparr>);
       close_upvalues_loop last_slot uvs vm
     }
     else Some (vm\<lparr>vm_open_upvalues := p # uvs\<rparr>)
   }"

definition close_upvalues :: "flux_vm \<Rightarrow> nat \<Rightarrow> flux_vm option" where
  "close_upvalues vm last_slot = close_upvalues_loop last_slot (vm_open_upvalues vm) vm"

text \<open>Reading and writing through \<^verbatim>\<open>*uv->location\<close>.\<close>

definition upvalue_get :: "flux_vm \<Rightarrow> ptr \<Rightarrow> flux_value option" where
  "upvalue_get vm p = do {
     uv \<leftarrow> get_upvalue (vm_heap vm) p;
     case uv_location uv of Open n \<Rightarrow> nth_opt (vm_stack vm) n | Closed \<Rightarrow> Some (uv_closed uv)
   }"

definition upvalue_set :: "flux_vm \<Rightarrow> ptr \<Rightarrow> flux_value \<Rightarrow> flux_vm option" where
  "upvalue_set vm p v = do {
     uv \<leftarrow> get_upvalue (vm_heap vm) p;
     case uv_location uv of
       Open n \<Rightarrow> do { st \<leftarrow> set_nth (vm_stack vm) n v; Some (vm\<lparr>vm_stack := st\<rparr>) }
     | Closed \<Rightarrow> vm_hput vm p (OBJ_UPVALUE (uv\<lparr>uv_closed := v\<rparr>))
   }"

section \<open>Call frames\<close>

definition call_closure :: "flux_vm \<Rightarrow> ptr \<Rightarrow> nat \<Rightarrow> (bool \<times> flux_vm) option" where
  "call_closure vm closure argc = do {
     cl \<leftarrow> get_closure (vm_heap vm) closure;
     fn \<leftarrow> get_function (vm_heap vm) (cl_function cl);
     if argc \<noteq> fn_arity fn then do {
       vm \<leftarrow> vm_runtime_error vm (message [''Expected '', show_nat (fn_arity fn), '' arguments but got '', show_nat argc]);
       Some (False, vm)
     }
     else if FLUX_FRAMES_MAX \<le> length (vm_frames vm) then do {
       vm \<leftarrow> vm_runtime_error vm ''Stack overflow (max call depth 500)'';
       Some (False, vm)
     }
     else if FLUX_STACK_MAX < length (vm_stack vm) + 64 then do {
       vm \<leftarrow> vm_runtime_error vm ''Stack overflow (value stack exhausted)'';
       Some (False, vm)
     }
     else if length (vm_stack vm) < argc + 1 then None
     else Some (True, vm\<lparr>vm_frames := vm_frames vm @
            [\<lparr>fr_closure = closure, fr_ip = 0, fr_slots = length (vm_stack vm) - argc - 1\<rparr>]\<rparr>)
   }"

section \<open>Import directories and module paths\<close>

definition vm_push_import_dir :: "flux_vm \<Rightarrow> string \<Rightarrow> flux_vm" where
  "vm_push_import_dir vm dir =
     (if FLUX_IMPORT_DIR_MAX \<le> length (vm_import_dirs vm) then vm
      else vm\<lparr>vm_import_dirs := vm_import_dirs vm @ [take (FLUX_IMPORT_PATH_MAX - 1) dir]\<rparr>)"

definition vm_pop_import_dir :: "flux_vm \<Rightarrow> flux_vm" where
  "vm_pop_import_dir vm = vm\<lparr>vm_import_dirs := butlast (vm_import_dirs vm)\<rparr>"

definition vm_current_import_dir :: "flux_vm \<Rightarrow> string option" where
  "vm_current_import_dir vm = (if vm_import_dirs vm = [] then None else Some (last (vm_import_dirs vm)))"

text \<open>\<open>strrchr(path, '/')\<close>: the length of the part before the last slash.\<close>

definition last_slash :: "string \<Rightarrow> nat option" where
  "last_slash path =
     (if CHR ''/'' \<in> set path
      then Some (length path - length (takeWhile (\<lambda>c. c \<noteq> CHR ''/'') (rev path)) - 1) else None)"

definition path_dirname :: "string \<Rightarrow> nat \<Rightarrow> string" where
  "path_dirname path out_size =
     (case last_slash path of
        None \<Rightarrow> take (out_size - 1) ''.''
      | Some len \<Rightarrow>
          if len = 0 then take (out_size - 1) ''/''
          else take (if out_size \<le> len then out_size - 1 else len) path)"

definition module_name_to_relpath :: "string \<Rightarrow> nat \<Rightarrow> string" where
  "module_name_to_relpath module out_size =
     (let out = map (\<lambda>c. if c = CHR ''.'' then CHR ''/'' else c) (take (out_size - 5) module)
      in out @ take (out_size - length out - 1) ''.flx'')"

text \<open>\<open>exists\<close> is the file system test \<open>file_exists\<close>.\<close>

definition resolve_import_path :: "(string \<Rightarrow> bool) \<Rightarrow> flux_vm \<Rightarrow> string \<Rightarrow> nat \<Rightarrow> string option" where
  "resolve_import_path exists vm module out_size =
     (let relpath = module_name_to_relpath module FLUX_IMPORT_PATH_MAX;
          here = take (out_size - 1) relpath
      in case vm_current_import_dir vm of
           Some cur_dir \<Rightarrow>
             (let out = take (out_size - 1) (cur_dir @ ''/'' @ relpath)
              in if exists out then Some out else if exists here then Some here else None)
         | None \<Rightarrow> if exists here then Some here else None)"

end
