(* ===== verification/Coroutines.thy ===== *)
theory Coroutines
  imports VMCore
begin

text \<open>
  Coroutine contexts, the ready queue, futures and gather (\<^verbatim>\<open>src/vm/vm.c\<close>).  The step of the scheduler
  re-enters the dispatch loop; it takes the loop as the parameter \<open>run\<close>.  Allocation failures
  of \<^verbatim>\<open>malloc\<close> are not modelled.
\<close>

definition upd_coroutine :: "flux_vm \<Rightarrow> ptr \<Rightarrow> (flux_coroutine \<Rightarrow> flux_coroutine) \<Rightarrow> flux_vm option" where
  "upd_coroutine vm p f = do { co \<leftarrow> get_coroutine (vm_heap vm) p; vm_hput vm p (OBJ_COROUTINE (f co)) }"

definition upd_future :: "flux_vm \<Rightarrow> ptr \<Rightarrow> (flux_future \<Rightarrow> flux_future) \<Rightarrow> flux_vm option" where
  "upd_future vm p f = do { fut \<leftarrow> get_future (vm_heap vm) p; vm_hput vm p (OBJ_FUTURE (f fut)) }"

section \<open>Saving and restoring a context\<close>

definition save_context :: "flux_vm \<Rightarrow> flux_coroutine \<Rightarrow> flux_coroutine" where
  "save_context vm co =
     (let stack_size = length (vm_stack vm); fc = length (vm_frames vm) in
      co\<lparr>co_stack_capacity := (if co_stack_capacity co < stack_size then stack_size * 2 + 8 else co_stack_capacity co),
         co_stack := vm_stack vm,
         co_frame_capacity := (if co_frame_capacity co < fc then fc * 2 + 4 else co_frame_capacity co),
         co_frames := vm_frames vm,
         co_slot_offsets := map fr_slots (vm_frames vm)\<rparr>)"

definition coro_save :: "flux_vm \<Rightarrow> ptr \<Rightarrow> flux_vm option" where
  "coro_save vm co = upd_coroutine vm co (save_context vm)"

definition restore_context :: "flux_coroutine \<Rightarrow> flux_vm \<Rightarrow> flux_vm" where
  "restore_context co vm =
     vm\<lparr>vm_stack := co_stack co,
        vm_frames := map2 (\<lambda>f off. f\<lparr>fr_slots := off\<rparr>) (co_frames co) (co_slot_offsets co)\<rparr>"

definition coro_restore :: "flux_vm \<Rightarrow> ptr \<Rightarrow> flux_vm option" where
  "coro_restore vm co = do { c \<leftarrow> get_coroutine (vm_heap vm) co; Some (restore_context c vm) }"

section \<open>The ready queue\<close>

definition double_capacity :: "nat \<Rightarrow> nat" where
  "double_capacity cap = (if cap = 0 then 4 else cap * 2)"

definition vm_scheduler_enqueue :: "flux_vm \<Rightarrow> ptr \<Rightarrow> flux_vm" where
  "vm_scheduler_enqueue vm co =
     vm\<lparr>vm_ready_capacity := (if vm_ready_capacity vm \<le> length (vm_ready_queue vm)
                               then double_capacity (vm_ready_capacity vm) else vm_ready_capacity vm),
        vm_ready_queue := vm_ready_queue vm @ [co]\<rparr>"

definition vm_scheduler_dequeue :: "flux_vm \<Rightarrow> ptr option \<times> flux_vm" where
  "vm_scheduler_dequeue vm =
     (case vm_ready_queue vm of
        [] \<Rightarrow> (None, vm)
      | co # rest \<Rightarrow> (Some co, vm\<lparr>vm_ready_queue := rest\<rparr>))"

section \<open>Futures\<close>

text \<open>A value is pushed on the saved stack of a suspended coroutine.\<close>

definition push_saved :: "flux_value \<Rightarrow> flux_coroutine \<Rightarrow> flux_coroutine" where
  "push_saved v co =
     co\<lparr>co_stack_capacity := (if co_stack_capacity co \<le> length (co_stack co)
                               then co_stack_capacity co * 2 + 4 else co_stack_capacity co),
        co_stack := co_stack co @ [v]\<rparr>"

definition vm_io_future_register :: "flux_vm \<Rightarrow> ptr \<Rightarrow> flux_vm" where
  "vm_io_future_register vm fut =
     vm\<lparr>vm_io_future_capacity := (if vm_io_future_capacity vm \<le> length (vm_io_futures vm)
                                   then double_capacity (vm_io_future_capacity vm) else vm_io_future_capacity vm),
        vm_io_futures := vm_io_futures vm @ [fut],
        vm_pending_io_count := vm_pending_io_count vm + 1\<rparr>"

text \<open>The first occurrence is overwritten by the last entry and the count decreases.\<close>

definition io_remove :: "ptr \<Rightarrow> ptr list \<Rightarrow> ptr list" where
  "io_remove fut xs =
     (if fut \<in> set xs
      then butlast (xs[length (takeWhile (\<lambda>x. x \<noteq> fut) xs) := last xs]) else xs)"

definition vm_io_future_complete :: "flux_vm \<Rightarrow> ptr \<Rightarrow> flux_value \<Rightarrow> flux_vm option" where
  "vm_io_future_complete vm fut result = do {
     vm \<leftarrow> upd_future vm fut (\<lambda>f. f\<lparr>fut_resolved := True, fut_result := result\<rparr>);
     vm \<leftarrow> Some (vm\<lparr>vm_pending_io_count := vm_pending_io_count vm - 1,
                    vm_io_futures := io_remove fut (vm_io_futures vm)\<rparr>);
     f \<leftarrow> get_future (vm_heap vm) fut;
     case fut_waiting f of
       None \<Rightarrow> Some vm
     | Some co \<Rightarrow> do {
         vm \<leftarrow> upd_future vm fut (\<lambda>f. f\<lparr>fut_waiting := None\<rparr>);
         vm \<leftarrow> upd_coroutine vm co (\<lambda>c. (push_saved result c)\<lparr>co_pending_future := None, co_state := CORO_SUSPENDED\<rparr>);
         Some (vm_scheduler_enqueue vm co)
       }
   }"

section \<open>Gather\<close>

text \<open>The result list: the entries of \<^verbatim>\<open>gather_results\<close> are read again at every write.\<close>

fun gather_list_loop :: "nat list \<Rightarrow> ptr \<Rightarrow> ptr \<Rightarrow> flux_vm \<Rightarrow> flux_vm option" where
  "gather_list_loop [] gf lst vm = Some vm"
| "gather_list_loop (i # is) gf lst vm = do {
     f \<leftarrow> get_future (vm_heap vm) gf;
     rs \<leftarrow> fut_gather_results f;
     v \<leftarrow> nth_opt rs i;
     vm \<leftarrow> gc_value_array_write vm lst v;
     gather_list_loop is gf lst vm
   }"

definition gather_finish :: "flux_vm \<Rightarrow> ptr \<Rightarrow> flux_vm option" where
  "gather_finish vm gf = do {
     (lst, vm) \<leftarrow> object_list_new vm;
     vm \<leftarrow> Some (vm_push vm (VAL_OBJECT lst));
     f \<leftarrow> get_future (vm_heap vm) gf;
     vm \<leftarrow> gather_list_loop [0 ..< fut_gather_count f] gf lst vm;
     (_, vm) \<leftarrow> vm_pop vm;
     vm \<leftarrow> upd_future vm gf (\<lambda>f. f\<lparr>fut_gather_results := None\<rparr>);
     vm_io_future_complete vm gf (VAL_OBJECT lst)
   }"

definition gather_store :: "flux_vm \<Rightarrow> ptr \<Rightarrow> nat \<Rightarrow> flux_value \<Rightarrow> flux_vm option" where
  "gather_store vm gf i v = do {
     f \<leftarrow> get_future (vm_heap vm) gf;
     rs \<leftarrow> fut_gather_results f;
     rs' \<leftarrow> set_nth rs i v;
     vm_hput vm gf (OBJ_FUTURE (f\<lparr>fut_gather_results := Some rs'\<rparr>))
   }"

text \<open>The loop over the items: results of dead coroutines, links for the others; the count of
  coroutines still running.\<close>

fun gather_items :: "(nat \<times> flux_value) list \<Rightarrow> ptr \<Rightarrow> int \<Rightarrow> flux_vm \<Rightarrow> (int \<times> flux_vm) option" where
  "gather_items [] gf remaining vm = Some (remaining, vm)"
| "gather_items ((i, item) # items) gf remaining vm = do {
     obj \<leftarrow> view (vm_heap vm) item;
     case (item, obj) of
       (VAL_OBJECT p, Some (OBJ_COROUTINE co)) \<Rightarrow>
         if co_state co = CORO_DEAD
         then do { vm \<leftarrow> gather_store vm gf i (co_result co); gather_items items gf remaining vm }
         else do {
           vm \<leftarrow> upd_coroutine vm p (\<lambda>c. c\<lparr>co_gather_future := Some gf, co_gather_slot := i\<rparr>);
           gather_items items gf (remaining + 1) vm
         }
     | _ \<Rightarrow> do { vm \<leftarrow> gather_store vm gf i item; gather_items items gf remaining vm }
   }"

definition vm_gather_create :: "flux_vm \<Rightarrow> flux_value list \<Rightarrow> (ptr \<times> flux_vm) option" where
  "vm_gather_create vm items = do {
     (gf, vm) \<leftarrow> object_future_new vm;
     vm \<leftarrow> Some (vm_io_future_register vm gf);
     if items = [] then do {
       (lst, vm) \<leftarrow> object_list_new vm;
       vm \<leftarrow> vm_io_future_complete vm gf (VAL_OBJECT lst);
       Some (gf, vm)
     }
     else do {
       vm \<leftarrow> upd_future vm gf (\<lambda>f. f\<lparr>fut_gather_results := Some (replicate (length items) VAL_NULL),
                                      fut_gather_count := length items, fut_gather_remaining := 0\<rparr>);
       (remaining, vm) \<leftarrow> gather_items (zip [0 ..< length items] items) gf 0 vm;
       vm \<leftarrow> upd_future vm gf (\<lambda>f. f\<lparr>fut_gather_remaining := remaining\<rparr>);
       vm \<leftarrow> (if remaining = 0 then gather_finish vm gf else Some vm);
       Some (gf, vm)
     }
   }"

section \<open>Spawning\<close>

text \<open>A new coroutine is loaded with the callee and its arguments and one frame.\<close>

definition load_coroutine :: "ptr \<Rightarrow> flux_value list \<Rightarrow> flux_coroutine \<Rightarrow> flux_coroutine" where
  "load_coroutine closure window co =
     co\<lparr>co_stack_capacity := (if co_stack_capacity co < length window then length window * 2 + 8 else co_stack_capacity co),
        co_stack := window,
        co_frames := [\<lparr>fr_closure = closure, fr_ip = 0, fr_slots = 0\<rparr>],
        co_slot_offsets := [0],
        co_state := CORO_SUSPENDED\<rparr>"

text \<open>The stack window from the callee on is replaced by the coroutine handle.\<close>

definition spawn_window :: "flux_vm \<Rightarrow> ptr \<Rightarrow> nat \<Rightarrow> flux_vm option" where
  "spawn_window vm cl argc =
     (if length (vm_stack vm) < argc + 1 then None else do {
        (co, vm) \<leftarrow> object_coroutine_new vm cl;
        let base = length (vm_stack vm) - argc - 1;
        let window = drop base (vm_stack vm);
        vm \<leftarrow> Some (vm_push vm (VAL_OBJECT co));
        vm \<leftarrow> upd_coroutine vm co (load_coroutine cl window);
        (_, vm) \<leftarrow> vm_pop vm;
        vm \<leftarrow> Some (vm_push (vm\<lparr>vm_stack := take base (vm_stack vm)\<rparr>) (VAL_OBJECT co));
        Some (vm_scheduler_enqueue vm co)
      })"

definition spawn_async_closure :: "flux_vm \<Rightarrow> ptr \<Rightarrow> nat \<Rightarrow> (vm_result \<times> flux_vm) option" where
  "spawn_async_closure vm closure argc = do {
     cl \<leftarrow> get_closure (vm_heap vm) closure;
     fn \<leftarrow> get_function (vm_heap vm) (cl_function cl);
     if argc \<noteq> fn_arity fn then do {
       vm \<leftarrow> vm_runtime_error vm (message [''Expected '', show_nat (fn_arity fn), '' arguments but got '', show_nat argc]);
       Some (VM_RUNTIME_ERROR, vm)
     }
     else do { vm \<leftarrow> spawn_window vm closure argc; Some (VM_ASYNC_SPAWNED, vm) }
   }"

section \<open>One step of the scheduler\<close>

text \<open>\<open>run vm base preserve\<close> is the dispatch loop \<open>vm_run\<close>.\<close>

type_synonym runner = "flux_vm \<Rightarrow> nat \<Rightarrow> bool \<Rightarrow> (vm_result \<times> flux_vm) option"

definition coroutine_wake :: "flux_vm \<Rightarrow> ptr \<Rightarrow> flux_value \<Rightarrow> flux_vm option" where
  "coroutine_wake vm co result = do {
     c \<leftarrow> get_coroutine (vm_heap vm) co;
     case co_awaited_by c of
       None \<Rightarrow> Some vm
     | Some waiter \<Rightarrow> do {
         vm \<leftarrow> upd_coroutine vm co (\<lambda>c. c\<lparr>co_awaited_by := None\<rparr>);
         vm \<leftarrow> upd_coroutine vm waiter (\<lambda>w. (push_saved result w)\<lparr>co_state := CORO_SUSPENDED\<rparr>);
         Some (vm_scheduler_enqueue vm waiter)
       }
   }"

definition coroutine_gather :: "flux_vm \<Rightarrow> ptr \<Rightarrow> flux_value \<Rightarrow> flux_vm option" where
  "coroutine_gather vm co result = do {
     c \<leftarrow> get_coroutine (vm_heap vm) co;
     case co_gather_future c of
       None \<Rightarrow> Some vm
     | Some gf \<Rightarrow> do {
         vm \<leftarrow> upd_coroutine vm co (\<lambda>c. c\<lparr>co_gather_future := None\<rparr>);
         f \<leftarrow> get_future (vm_heap vm) gf;
         rs \<leftarrow> fut_gather_results f;
         rs' \<leftarrow> set_nth rs (co_gather_slot c) result;
         vm \<leftarrow> vm_hput vm gf (OBJ_FUTURE (f\<lparr>fut_gather_results := Some rs',
                 fut_gather_remaining := fut_gather_remaining f - 1\<rparr>));
         if fut_gather_remaining f - 1 = 0 then gather_finish vm gf else Some vm
       }
   }"

definition coroutine_finish :: "flux_vm \<Rightarrow> ptr \<Rightarrow> flux_vm option" where
  "coroutine_finish vm co = do {
     (result, vm) \<leftarrow> (if vm_stack vm \<noteq> [] then vm_pop vm else Some (VAL_NULL, vm));
     vm \<leftarrow> upd_coroutine vm co (\<lambda>c. c\<lparr>co_result := result, co_state := CORO_DEAD\<rparr>);
     vm \<leftarrow> coroutine_wake vm co result;
     coroutine_gather vm co result
   }"

definition vm_scheduler_run_step :: "runner \<Rightarrow> flux_vm \<Rightarrow> (vm_result \<times> flux_vm) option" where
  "vm_scheduler_run_step run vm =
     (case vm_scheduler_dequeue vm of
        (None, vm) \<Rightarrow> Some (VM_OK, vm)
      | (Some co, vm) \<Rightarrow> do {
          c \<leftarrow> get_coroutine (vm_heap vm) co;
          if co_state c = CORO_DEAD \<or> co_state c = CORO_RUNNING then Some (VM_OK, vm)
          else do {
            let saved_stack = vm_stack vm;
            let saved_frames = vm_frames vm;
            let restore_caller = (\<lambda>vm. vm\<lparr>vm_current_coroutine := None, vm_stack := saved_stack, vm_frames := saved_frames\<rparr>);
            vm \<leftarrow> coro_restore vm co;
            vm \<leftarrow> upd_coroutine (vm\<lparr>vm_current_coroutine := Some co\<rparr>) co (\<lambda>c. c\<lparr>co_state := CORO_RUNNING\<rparr>);
            (r, vm) \<leftarrow> run vm 0 True;
            if r = VM_RUNTIME_ERROR then Some (VM_RUNTIME_ERROR, restore_caller vm)
            else do {
              vm \<leftarrow> (if r = VM_OK then coroutine_finish vm co else Some vm);
              Some (VM_OK, restore_caller vm)
            }
          }
        })"

end
