(* ===== verification/Arith.thy ===== *)
theory Arith
  imports VMCore
begin

text \<open>
  The operators of the dispatch loop of \<^verbatim>\<open>src/vm/vm.c\<close> on values: the macros \<^verbatim>\<open>NUMERIC_BINOP\<close> and
  \<^verbatim>\<open>COMPARE_OP\<close> and the cases of the arithmetic and bitwise opcodes.  Results are nested options: the
  outer \<^const>\<open>None\<close> is undefined behaviour in C, the inner one an operand error that the opcode
  reports.  Integer arithmetic on \<^verbatim>\<open>int64_t\<close> that leaves the range is undefined: the build does not
  ask for wrap-around.
\<close>

definition int64_range :: "int \<Rightarrow> int64 option" where
  "int64_range i = (if - (2 ^ 63) \<le> i \<and> i < 2 ^ 63 then Some (word_of_int i) else None)"

definition int_result :: "int \<Rightarrow> flux_value option option" where
  "int_result i = map_option (\<lambda>w. Some (VAL_INT w)) (int64_range i)"

section \<open>Arithmetic\<close>

definition numeric_binop ::
  "(int \<Rightarrow> int \<Rightarrow> int) \<Rightarrow> (double \<Rightarrow> double \<Rightarrow> double) \<Rightarrow> flux_value \<Rightarrow> flux_value \<Rightarrow> flux_value option option" where
  "numeric_binop op_int op_float a b =
     (case (coerce_bool a, coerce_bool b) of
        (VAL_INT x, VAL_INT y) \<Rightarrow> int_result (op_int (sint x) (sint y))
      | (a, b) \<Rightarrow>
          if value_is_number a \<and> value_is_number b then do {
            x \<leftarrow> value_to_double a;
            y \<leftarrow> value_to_double b;
            Some (Some (VAL_FLOAT (op_float x y)))
          }
          else Some None)"

datatype op_error = Operand_Error | Zero_Division

text \<open>Division, modulo, floor division and power report a zero divisor apart from an operand error.\<close>

type_synonym op_result = "(op_error + flux_value) option"

definition float_binop :: "(double \<Rightarrow> double \<Rightarrow> double) \<Rightarrow> flux_value \<Rightarrow> flux_value \<Rightarrow> op_result" where
  "float_binop op a b =
     (if value_is_number a \<and> value_is_number b then do {
        x \<leftarrow> value_to_double a;
        y \<leftarrow> value_to_double b;
        Some (Inr (VAL_FLOAT (op x y)))
      }
      else Some (Inl Operand_Error))"

definition value_div :: "flux_value \<Rightarrow> flux_value \<Rightarrow> op_result" where
  "value_div a b =
     (case (a, b) of
        (VAL_INT x, VAL_INT y) \<Rightarrow>
          if y = 0 then Some (Inl Zero_Division)
          else Some (Inr (VAL_FLOAT (dbl_div (dbl_of_int (sint x)) (dbl_of_int (sint y)))))
      | _ \<Rightarrow> float_binop dbl_div a b)"

text \<open>C division truncates; \<^verbatim>\<open>INT64_MIN / -1\<close> and \<^verbatim>\<open>INT64_MIN % -1\<close> overflow.\<close>

definition c_div :: "int \<Rightarrow> int \<Rightarrow> int" where
  "c_div a b = sgn a * sgn b * (\<bar>a\<bar> div \<bar>b\<bar>)"

definition c_mod :: "int \<Rightarrow> int \<Rightarrow> int" where
  "c_mod a b = a - c_div a b * b"

definition value_mod :: "flux_value \<Rightarrow> flux_value \<Rightarrow> op_result" where
  "value_mod a b =
     (case (a, b) of
        (VAL_INT x, VAL_INT y) \<Rightarrow>
          if y = 0 then Some (Inl Zero_Division)
          else do {
            _ \<leftarrow> int64_range (c_div (sint x) (sint y));
            r \<leftarrow> int64_range (c_mod (sint x) (sint y));
            Some (Inr (VAL_INT r))
          }
      | _ \<Rightarrow> float_binop dbl_fmod a b)"

definition value_floor_div :: "flux_value \<Rightarrow> flux_value \<Rightarrow> op_result" where
  "value_floor_div a b =
     (case (a, b) of
        (VAL_INT x, VAL_INT y) \<Rightarrow>
          if y = 0 then Some (Inl Zero_Division)
          else do {
            q \<leftarrow> int64_range (c_div (sint x) (sint y));
            r \<leftarrow> int64_range (c_mod (sint x) (sint y));
            q' \<leftarrow> (if r \<noteq> 0 \<and> sint (r XOR y) < 0 then int64_range (sint q - 1) else Some q);
            Some (Inr (VAL_INT q'))
          }
      | _ \<Rightarrow> float_binop (\<lambda>x y. dbl_floor (dbl_div x y)) a b)"

fun int_pow_loop :: "nat \<Rightarrow> int64 \<Rightarrow> int64 \<Rightarrow> int64 option" where
  "int_pow_loop 0 base acc = Some acc"
| "int_pow_loop (Suc n) base acc = do { r \<leftarrow> int64_range (sint acc * sint base); int_pow_loop n base r }"

text \<open>\<open>powf\<close> is the C library function \<^verbatim>\<open>pow\<close>.\<close>

definition value_pow :: "(double \<Rightarrow> double \<Rightarrow> double) \<Rightarrow> flux_value \<Rightarrow> flux_value \<Rightarrow> op_result" where
  "value_pow powf a b =
     (case (a, b) of
        (VAL_INT x, VAL_INT y) \<Rightarrow>
          if sint y < 0 then Some (Inr (VAL_FLOAT (powf (dbl_of_int (sint x)) (dbl_of_int (sint y)))))
          else do { r \<leftarrow> int_pow_loop (nat (sint y)) x 1; Some (Inr (VAL_INT r)) }
      | _ \<Rightarrow> float_binop powf a b)"

definition value_negate :: "flux_value \<Rightarrow> flux_value option option" where
  "value_negate v =
     (case v of
        VAL_INT x \<Rightarrow> int_result (- sint x)
      | VAL_FLOAT d \<Rightarrow> Some (Some (VAL_FLOAT (dbl_neg d)))
      | _ \<Rightarrow> Some None)"

section \<open>Bitwise operators\<close>

definition int_binop :: "(int64 \<Rightarrow> int64 \<Rightarrow> int64 option) \<Rightarrow> flux_value \<Rightarrow> flux_value \<Rightarrow> flux_value option option" where
  "int_binop f a b =
     (case (a, b) of
        (VAL_INT x, VAL_INT y) \<Rightarrow> map_option (\<lambda>r. Some (VAL_INT r)) (f x y)
      | _ \<Rightarrow> Some None)"

text \<open>\<^verbatim>\<open>(int)value_as_int(b)\<close> keeps the low 32 bits; a count outside 0..63 is undefined.\<close>

definition int_of_int64 :: "int64 \<Rightarrow> int" where
  "int_of_int64 w = sint (ucast w :: 32 word)"

definition shift_count :: "int64 \<Rightarrow> nat option" where
  "shift_count w = (let n = int_of_int64 w in if 0 \<le> n \<and> n < 64 then Some (nat n) else None)"

text \<open>\<^verbatim>\<open><<\<close> on \<^verbatim>\<open>int64_t\<close>: undefined for a negative operand and for a result beyond \<^verbatim>\<open>INT64_MAX\<close>.\<close>

definition shift_left :: "nat \<Rightarrow> int64 \<Rightarrow> int64 option" where
  "shift_left n x = (if sint x < 0 then None else int64_range (sint x * 2 ^ n))"

definition value_shl :: "flux_value \<Rightarrow> flux_value \<Rightarrow> flux_value option option" where
  "value_shl = int_binop (\<lambda>x y. do { n \<leftarrow> shift_count y; shift_left n x })"

definition value_shr :: "flux_value \<Rightarrow> flux_value \<Rightarrow> flux_value option option" where
  "value_shr = int_binop (\<lambda>x y. map_option (\<lambda>n. signed_drop_bit n x) (shift_count y))"

definition value_bit_and :: "flux_value \<Rightarrow> flux_value \<Rightarrow> flux_value option option" where
  "value_bit_and = int_binop (\<lambda>x y. Some (x AND y))"

definition value_bit_or :: "flux_value \<Rightarrow> flux_value \<Rightarrow> flux_value option option" where
  "value_bit_or = int_binop (\<lambda>x y. Some (x OR y))"

definition value_bit_xor :: "flux_value \<Rightarrow> flux_value \<Rightarrow> flux_value option option" where
  "value_bit_xor = int_binop (\<lambda>x y. Some (x XOR y))"

definition value_bit_not :: "flux_value \<Rightarrow> flux_value option option" where
  "value_bit_not v = (case v of VAL_INT x \<Rightarrow> Some (Some (VAL_INT (NOT x))) | _ \<Rightarrow> Some None)"

section \<open>Comparison\<close>

text \<open>The sign of \<^verbatim>\<open>strcmp\<close>: bytes compared as unsigned characters up to the first NUL.\<close>

fun c_strcmp :: "string \<Rightarrow> string \<Rightarrow> int" where
  "c_strcmp [] [] = 0"
| "c_strcmp [] (b # bs) = -1"
| "c_strcmp (a # as) [] = 1"
| "c_strcmp (a # as) (b # bs) =
     (if (of_char a :: nat) < of_char b then -1 else if (of_char b :: nat) < of_char a then 1 else c_strcmp as bs)"

definition compare_op ::
  "(double \<Rightarrow> double \<Rightarrow> bool) \<Rightarrow> (int \<Rightarrow> int \<Rightarrow> bool) \<Rightarrow> heap \<Rightarrow> flux_value \<Rightarrow> flux_value \<Rightarrow> bool option option" where
  "compare_op dop iop h a b =
     (let a = coerce_bool a; b = coerce_bool b in
      if value_is_number a \<and> value_is_number b then do {
        x \<leftarrow> value_to_double a;
        y \<leftarrow> value_to_double b;
        Some (Some (dop x y))
      }
      else do {
        oa \<leftarrow> view h a;
        case oa of
          Some (OBJ_STRING s) \<Rightarrow> do {
            ob \<leftarrow> view h b;
            case ob of
              Some (OBJ_STRING t) \<Rightarrow> Some (Some (iop (c_strcmp (c_str (str_chars s)) (c_str (str_chars t))) 0))
            | _ \<Rightarrow> Some None
          }
        | _ \<Rightarrow> Some None
      })"

end
