(* ===== verification/Calls.thy ===== *)
theory Calls
  imports Coroutines Arith
begin

text \<open>
  Calls of \<^verbatim>\<open>src/vm/vm.c\<close>: natives, \<open>vm_call_value\<close>, \<open>vm_invoke\<close>, the scheduler loop and module
  import.  They re-enter the dispatch loop, natives re-enter \<open>vm_invoke\<close>: both are taken from a context
  and tied together in theory \<open>Machine\<close>.
\<close>

type_synonym invoker = "flux_vm \<Rightarrow> flux_value \<Rightarrow> flux_value list \<Rightarrow> (flux_value \<times> flux_vm) option"

datatype compiled = Parse_Failed | Compile_Failed | Compiled ptr

text \<open>
  What the machine uses of the outside: the native functions behind the C function pointers, the
  built-in methods of \<^verbatim>\<open>runtime.c\<close>, the libuv loop, \<^verbatim>\<open>pow\<close>, files, the compiler and \<^verbatim>\<open>dlopen\<close>.
\<close>

record vm_env =
  env_native :: "invoker \<Rightarrow> nat \<Rightarrow> nat \<Rightarrow> flux_vm \<Rightarrow> (flux_value \<times> flux_vm) option"
  env_invoke_builtin :: "invoker \<Rightarrow> flux_value \<Rightarrow> ptr \<Rightarrow> nat \<Rightarrow> flux_vm \<Rightarrow> (bool \<times> flux_vm) option"
  env_get_builtin_attr :: "flux_value \<Rightarrow> ptr \<Rightarrow> flux_vm \<Rightarrow> (flux_value option \<times> flux_vm) option"
  env_uv_run :: "flux_vm \<Rightarrow> (int \<times> flux_vm) option"
  env_pow :: "double \<Rightarrow> double \<Rightarrow> double"
  env_file_exists :: "string \<Rightarrow> bool"
  env_read_file :: "string \<Rightarrow> string option"
  env_compile :: "string \<Rightarrow> string \<Rightarrow> flux_vm \<Rightarrow> (compiled \<times> flux_vm) option"
  env_load_extension :: "string \<Rightarrow> flux_vm \<Rightarrow> (flux_value option \<times> flux_vm) option"

record ctx =
  c_env :: vm_env
  c_run :: runner
  c_invoke :: invoker
  c_fuel :: nat

section \<open>Calling a value\<close>

definition call_native :: "ctx \<Rightarrow> flux_vm \<Rightarrow> ptr \<Rightarrow> nat \<Rightarrow> (bool \<times> flux_vm) option" where
  "call_native c vm native argc = do {
     nat \<leftarrow> get_native (vm_heap vm) native;
     if 0 \<le> nat_arity nat \<and> int argc \<noteq> nat_arity nat then do {
       name \<leftarrow> string_chars (vm_heap vm) (nat_name nat);
       vm \<leftarrow> vm_runtime_error vm (message [''Native '', quoted name, '': expected '', show_int (nat_arity nat),
               '' args but got '', show_nat argc]);
       Some (False, vm)
     }
     else if length (vm_stack vm) < argc + 1 then None
     else do {
       (result, vm) \<leftarrow> env_native (c_env c) (c_invoke c) (nat_fn nat) argc vm;
       if vm_has_error vm then Some (False, vm)
       else if length (vm_stack vm) < argc + 1 then None
       else Some (True, vm_push (vm\<lparr>vm_stack := take (length (vm_stack vm) - (argc + 1)) (vm_stack vm)\<rparr>) result)
     }
   }"

definition bool_result :: "bool \<times> flux_vm \<Rightarrow> vm_result \<times> flux_vm" where
  "bool_result = (\<lambda>(ok, vm). (if ok then VM_OK else VM_RUNTIME_ERROR, vm))"

definition call_error :: "flux_vm \<Rightarrow> string list \<Rightarrow> (vm_result \<times> flux_vm) option" where
  "call_error vm parts = do { vm \<leftarrow> vm_runtime_error vm (message parts); Some (VM_RUNTIME_ERROR, vm) }"

text \<open>A generator: its body runs to completion, the yielded values are collected into a list.\<close>

definition call_generator :: "ctx \<Rightarrow> flux_vm \<Rightarrow> ptr \<Rightarrow> flux_function \<Rightarrow> nat \<Rightarrow> (vm_result \<times> flux_vm) option" where
  "call_generator c vm cl fn argc =
     (if argc \<noteq> fn_arity fn
      then call_error vm [''Expected '', show_nat (fn_arity fn), '' arguments but got '', show_nat argc]
      else do {
        let old_coll = vm_gen_yield_collector vm;
        (coll, vm) \<leftarrow> object_list_new vm;
        vm \<leftarrow> Some (vm\<lparr>vm_gen_yield_collector := Some coll\<rparr>);
        let fc = length (vm_frames vm);
        (ok, vm) \<leftarrow> call_closure vm cl argc;
        if \<not> ok then Some (VM_RUNTIME_ERROR, vm\<lparr>vm_gen_yield_collector := old_coll\<rparr>)
        else do {
          (r, vm) \<leftarrow> c_run c vm fc True;
          vm \<leftarrow> Some (vm\<lparr>vm_gen_yield_collector := old_coll\<rparr>);
          if r \<noteq> VM_OK then Some (r, vm)
          else do { vm \<leftarrow> vm_poke vm 0 (VAL_OBJECT coll); Some (VM_OK, vm) }
        }
      })"

definition class_methods_get :: "flux_vm \<Rightarrow> ptr \<Rightarrow> ptr \<Rightarrow> flux_value option option" where
  "class_methods_get vm klass name = do {
     k \<leftarrow> get_class (vm_heap vm) klass;
     m \<leftarrow> k_methods k;
     heap_dict_get (vm_heap vm) m name
   }"

definition instance_fields_get :: "flux_vm \<Rightarrow> ptr \<Rightarrow> ptr \<Rightarrow> flux_value option option" where
  "instance_fields_get vm inst name = do {
     i \<leftarrow> get_instance (vm_heap vm) inst;
     f \<leftarrow> i_fields i;
     heap_dict_get (vm_heap vm) f name
   }"

text \<open>The casts \<^verbatim>\<open>AS_CLOSURE(v)\<close> and \<^verbatim>\<open>AS_CLASS(v)\<close> of a value whose tag was not tested.\<close>

fun as_object :: "flux_value \<Rightarrow> ptr option" where
  "as_object (VAL_OBJECT p) = Some p"
| "as_object _ = None"

definition class_name :: "flux_vm \<Rightarrow> ptr \<Rightarrow> string option" where
  "class_name vm klass = do { k \<leftarrow> get_class (vm_heap vm) klass; string_chars (vm_heap vm) (k_name k) }"

definition call_class :: "flux_vm \<Rightarrow> ptr \<Rightarrow> nat \<Rightarrow> (vm_result \<times> flux_vm) option" where
  "call_class vm klass argc = do {
     k \<leftarrow> get_class (vm_heap vm) klass;
     if k_is_enum k
     then do {
       name \<leftarrow> class_name vm klass;
       call_error vm [''Enum '', quoted name, '' is not callable; access members with '', CHR 0x27 # name, ''.MemberName'', [CHR 0x27]]
     }
     else do {
       (inst, vm) \<leftarrow> object_instance_new vm klass;
       vm \<leftarrow> vm_poke vm argc (VAL_OBJECT inst);
       (init_name, vm) \<leftarrow> object_string_copy vm ''init'';
       found \<leftarrow> class_methods_get vm klass init_name;
       case found of
         Some init \<Rightarrow> do {
           obj \<leftarrow> view (vm_heap vm) init;
           case (init, obj) of
             (VAL_OBJECT cl, Some (OBJ_CLOSURE _)) \<Rightarrow> map_option bool_result (call_closure vm cl argc)
           | _ \<Rightarrow> do {
               name \<leftarrow> class_name vm klass;
               call_error vm [''Class '', quoted name, '': '', quoted ''init'', '' attribute is not a callable method'']
             }
         }
       | None \<Rightarrow>
           if argc \<noteq> 0
           then do { name \<leftarrow> class_name vm klass; call_error vm [''Class '', quoted name, '' takes no arguments''] }
           else Some (VM_OK, vm)
     }
   }"

definition not_callable :: "flux_vm \<Rightarrow> (vm_result \<times> flux_vm) option" where
  "not_callable vm = call_error vm [''Value is not callable'']"

definition call_instance :: "flux_vm \<Rightarrow> ptr \<Rightarrow> nat \<Rightarrow> (vm_result \<times> flux_vm) option" where
  "call_instance vm inst argc = do {
     (call_key, vm) \<leftarrow> object_string_copy vm ''on_call'';
     i \<leftarrow> get_instance (vm_heap vm) inst;
     found \<leftarrow> class_methods_get vm (i_klass i) call_key;
     case found of
       Some m \<Rightarrow> do { cl \<leftarrow> as_object m; map_option bool_result (call_closure vm cl argc) }
     | None \<Rightarrow> not_callable vm
   }"

definition vm_call_value :: "ctx \<Rightarrow> flux_vm \<Rightarrow> flux_value \<Rightarrow> nat \<Rightarrow> (vm_result \<times> flux_vm) option" where
  "vm_call_value c vm callee argc =
     (case callee of
        VAL_OBJECT p \<Rightarrow> do {
          pl \<leftarrow> hpayload (vm_heap vm) p;
          case pl of
            OBJ_CLOSURE cl \<Rightarrow> do {
              fn \<leftarrow> get_function (vm_heap vm) (cl_function cl);
              if fn_is_async fn then spawn_async_closure vm p argc
              else if fn_is_generator fn then call_generator c vm p fn argc
              else map_option bool_result (call_closure vm p argc)
            }
          | OBJ_NATIVE _ \<Rightarrow> map_option bool_result (call_native c vm p argc)
          | OBJ_CLASS _ \<Rightarrow> call_class vm p argc
          | OBJ_BOUND_METHOD bm \<Rightarrow> do {
              vm \<leftarrow> vm_poke vm argc (bm_receiver bm);
              map_option bool_result (call_closure vm (bm_method bm) argc)
            }
          | OBJ_INSTANCE _ \<Rightarrow> call_instance vm p argc
          | _ \<Rightarrow> not_callable vm
        }
      | _ \<Rightarrow> not_callable vm)"

section \<open>Driving the scheduler\<close>

text \<open>
  The loop \<^verbatim>\<open>while (!finished && !vm->has_error)\<close> of \<open>vm_invoke\<close> and \<^verbatim>\<open>OP_AWAIT\<close>: run a ready coroutine,
  else let the event loop run once, else give up.  True when a coroutine failed.
\<close>

fun drive_scheduler :: "nat \<Rightarrow> ctx \<Rightarrow> (flux_vm \<Rightarrow> bool option) \<Rightarrow> flux_vm \<Rightarrow> (bool \<times> flux_vm) option" where
  "drive_scheduler 0 c finished vm = None"
| "drive_scheduler (Suc n) c finished vm = do {
     d \<leftarrow> finished vm;
     if d \<or> vm_has_error vm then Some (False, vm)
     else if vm_ready_queue vm \<noteq> [] then do {
       (r, vm) \<leftarrow> vm_scheduler_run_step (c_run c) vm;
       if r = VM_RUNTIME_ERROR then Some (True, vm) else drive_scheduler n c finished vm
     }
     else if 0 < vm_pending_io_count vm then do {
       (_, vm) \<leftarrow> env_uv_run (c_env c) vm;
       drive_scheduler n c finished vm
     }
     else Some (False, vm)
   }"

definition coroutine_dead :: "ptr \<Rightarrow> flux_vm \<Rightarrow> bool option" where
  "coroutine_dead co vm = map_option (\<lambda>x. co_state x = CORO_DEAD) (get_coroutine (vm_heap vm) co)"

definition future_resolved :: "ptr \<Rightarrow> flux_vm \<Rightarrow> bool option" where
  "future_resolved fut vm = map_option fut_resolved (get_future (vm_heap vm) fut)"

text \<open>The two nested loops of \<open>vm_scheduler_run\<close>: the inner one empties the queue before the event loop
  runs.\<close>

fun vm_scheduler_run :: "nat \<Rightarrow> ctx \<Rightarrow> flux_vm \<Rightarrow> (vm_result \<times> flux_vm) option" where
  "vm_scheduler_run 0 c vm = None"
| "vm_scheduler_run (Suc n) c vm =
     (if vm_ready_queue vm \<noteq> [] then do {
        (r, vm) \<leftarrow> vm_scheduler_run_step (c_run c) vm;
        if r = VM_RUNTIME_ERROR then Some (r, vm) else vm_scheduler_run n c vm
      }
      else if 0 < vm_pending_io_count vm then do {
        (uv_r, vm) \<leftarrow> env_uv_run (c_env c) vm;
        if uv_r = 0 \<and> vm_ready_queue vm = [] \<and> 0 < vm_pending_io_count vm then Some (VM_OK, vm)
        else vm_scheduler_run n c vm
      }
      else Some (VM_OK, vm))"

section \<open>Invoking a value from C\<close>

definition vm_push_all :: "flux_vm \<Rightarrow> flux_value list \<Rightarrow> flux_vm" where
  "vm_push_all vm args = fold (\<lambda>v vm. vm_push vm v) args vm"

definition vm_invoke :: "ctx \<Rightarrow> flux_vm \<Rightarrow> flux_value \<Rightarrow> flux_value list \<Rightarrow> (flux_value \<times> flux_vm) option" where
  "vm_invoke c vm callee args = do {
     vm \<leftarrow> Some (vm_push_all (vm_push vm callee) args);
     let base = length (vm_frames vm);
     (r, vm) \<leftarrow> vm_call_value c vm callee (length args);
     if vm_has_error vm then Some (VAL_NULL, vm)
     else if r = VM_ASYNC_SPAWNED then do {
       handle \<leftarrow> vm_peek vm 0;
       co \<leftarrow> as_object handle;
       (failed, vm) \<leftarrow> drive_scheduler (c_fuel c) c (coroutine_dead co) vm;
       (_, vm) \<leftarrow> vm_pop vm;
       if failed \<or> vm_has_error vm then Some (VAL_NULL, vm)
       else do { x \<leftarrow> get_coroutine (vm_heap vm) co; Some (co_result x, vm) }
     }
     else do {
       (r, vm) \<leftarrow> (if r = VM_OK \<and> base < length (vm_frames vm) then c_run c vm base True else Some (r, vm));
       if r \<noteq> VM_OK \<or> vm_has_error vm then Some (VAL_NULL, vm) else vm_pop vm
     }
   }"

section \<open>Copying dictionary entries\<close>

text \<open>
  The loops \<^verbatim>\<open>for (i = 0; i < src->capacity; i++)\<close> that set entries of one dictionary in another:
  \<open>pick\<close> gives the value to store for a key, if any.  The source is read again at every turn, since it
  can be the dictionary that grows; it then grows at most once, so the bound
  \<open>2 * capacity + 9\<close> on the number of turns is never reached.
\<close>

fun copy_entries_loop ::
  "nat \<Rightarrow> ptr \<Rightarrow> ptr \<Rightarrow> (flux_vm \<Rightarrow> ptr \<Rightarrow> flux_value \<Rightarrow> flux_value option option) \<Rightarrow> nat \<Rightarrow> flux_vm \<Rightarrow> flux_vm option" where
  "copy_entries_loop 0 src dst pick i vm = None"
| "copy_entries_loop (Suc n) src dst pick i vm = do {
     d \<leftarrow> get_dict (vm_heap vm) src;
     if d_capacity d \<le> i then Some vm
     else do {
       e \<leftarrow> nth_opt (d_entries d) i;
       vm \<leftarrow> (case de_key e of
               None \<Rightarrow> Some vm
             | Some k \<Rightarrow> do {
                 p \<leftarrow> pick vm k (de_value e);
                 case p of None \<Rightarrow> Some vm | Some v \<Rightarrow> vm_dict_set vm dst k v
               });
       copy_entries_loop n src dst pick (i + 1) vm
     }
   }"

definition copy_entries ::
  "ptr \<Rightarrow> ptr \<Rightarrow> (flux_vm \<Rightarrow> ptr \<Rightarrow> flux_value \<Rightarrow> flux_value option option) \<Rightarrow> flux_vm \<Rightarrow> flux_vm option" where
  "copy_entries src dst pick vm = do {
     d \<leftarrow> get_dict (vm_heap vm) src;
     copy_entries_loop (2 * d_capacity d + 10) src dst pick 0 vm
   }"

section \<open>Import\<close>

definition import_error :: "flux_vm \<Rightarrow> string list \<Rightarrow> (flux_value option \<times> flux_vm) option" where
  "import_error vm parts = do { vm \<leftarrow> vm_runtime_error vm (message parts); Some (None, vm) }"

text \<open>The arrow of the cycle message, in UTF-8; \<^verbatim>\<open>chain\<close> has 1024 bytes.\<close>

definition import_chain :: "string list \<Rightarrow> string \<Rightarrow> string" where
  "import_chain names name =
     (let arrow = [CHR '' '', char_of (0xE2 :: nat), char_of (0x86 :: nat), char_of (0x92 :: nat), CHR '' '']
      in take 1023 (concat (map (\<lambda>n. n @ arrow) names) @ name))"

text \<open>The module was not found as a file: a native extension is tried.\<close>

definition import_extension :: "ctx \<Rightarrow> flux_vm \<Rightarrow> ptr \<Rightarrow> string \<Rightarrow> (flux_value option \<times> flux_vm) option" where
  "import_extension c vm module_name name = do {
     (ext, vm) \<leftarrow> env_load_extension (c_env c) name vm;
     case ext of
       Some ext_mod \<Rightarrow> do {
         vm \<leftarrow> vm_set_global (vm_push vm ext_mod) module_name ext_mod;
         (_, vm) \<leftarrow> vm_pop vm;
         Some (Some ext_mod, vm)
       }
     | None \<Rightarrow>
         if vm_has_error vm then Some (None, vm)
         else import_error vm [''Module '', quoted name, '' not found'']
   }"

text \<open>The module runs on the globals of the importer; the names it adds form its namespace.\<close>

definition import_run :: "ctx \<Rightarrow> flux_vm \<Rightarrow> string \<Rightarrow> ptr \<Rightarrow> ptr \<Rightarrow> (flux_value option \<times> flux_vm) option" where
  "import_run c vm resolved cache_key fn = do {
     vm \<leftarrow> Some (vm_push vm (VAL_OBJECT fn));
     globals \<leftarrow> vm_globals vm;
     modules \<leftarrow> vm_modules vm;
     (before, vm) \<leftarrow> object_dict_new vm;
     vm \<leftarrow> Some (vm_push vm (VAL_OBJECT before));
     vm \<leftarrow> copy_entries globals before (\<lambda>_ _ _. Some (Some (VAL_BOOL True))) vm;
     vm \<leftarrow> Some (vm_push_import_dir vm (path_dirname resolved FLUX_IMPORT_PATH_MAX));
     (closure, vm) \<leftarrow> object_closure_new vm fn;
     vm \<leftarrow> Some (vm_push vm (VAL_OBJECT closure));
     let base = length (vm_frames vm);
     (called, vm) \<leftarrow> call_closure vm closure 0;
     (r, vm) \<leftarrow> (if called then c_run c vm base False else Some (VM_RUNTIME_ERROR, vm));
     vm \<leftarrow> Some (vm_pop_import_dir vm);
     vm \<leftarrow> Some (vm\<lparr>vm_import_stack_names := butlast (vm_import_stack_names vm)\<rparr>);
     if r \<noteq> VM_OK then do {
       (_, vm) \<leftarrow> vm_dict_delete vm modules cache_key;
       Some (None, vm)
     }
     else do {
       (_, vm) \<leftarrow> vm_pop vm;
       (mod_dict, vm) \<leftarrow> object_dict_new vm;
       vm \<leftarrow> Some (vm_push vm (VAL_OBJECT mod_dict));
       vm \<leftarrow> copy_entries globals mod_dict
               (\<lambda>vm k v. do { tmp \<leftarrow> heap_dict_get (vm_heap vm) before k; Some (if tmp = None then Some v else None) }) vm;
       vm \<leftarrow> vm_dict_set vm modules cache_key (VAL_OBJECT mod_dict);
       (_, vm) \<leftarrow> vm_pop vm;
       (_, vm) \<leftarrow> vm_pop vm;
       (_, vm) \<leftarrow> vm_pop vm;
       Some (Some (VAL_OBJECT mod_dict), vm)
     }
   }"

definition import_load :: "ctx \<Rightarrow> flux_vm \<Rightarrow> string \<Rightarrow> string \<Rightarrow> ptr \<Rightarrow> (flux_value option \<times> flux_vm) option" where
  "import_load c vm resolved name cache_key = do {
     modules \<leftarrow> vm_modules vm;
     vm \<leftarrow> vm_dict_set vm modules cache_key (VAL_BOOL False);
     vm \<leftarrow> Some (if length (vm_import_stack_names vm) < 64
                 then vm\<lparr>vm_import_stack_names := vm_import_stack_names vm @ [take 255 name]\<rparr> else vm);
     let give_up = (\<lambda>vm parts. do {
           (_, vm) \<leftarrow> vm_pop vm;
           (_, vm) \<leftarrow> import_error vm parts;
           (_, vm) \<leftarrow> vm_dict_delete vm modules cache_key;
           Some (None, vm)
         });
     case env_read_file (c_env c) resolved of
       None \<Rightarrow> give_up vm [''Cannot open module file: '', resolved]
     | Some buf \<Rightarrow> do {
         (res, vm) \<leftarrow> env_compile (c_env c) resolved buf vm;
         case res of
           Parse_Failed \<Rightarrow> give_up vm [''Failed to parse module '', quoted name, '''']
         | Compile_Failed \<Rightarrow> give_up vm [''Failed to compile module '', quoted name, '''']
         | Compiled fn \<Rightarrow> import_run c vm resolved cache_key fn
       }
   }"

definition do_import :: "ctx \<Rightarrow> flux_vm \<Rightarrow> ptr \<Rightarrow> (flux_value option \<times> flux_vm) option" where
  "do_import c vm module_name = do {
     builtin \<leftarrow> vm_get_global vm module_name;
     isdict \<leftarrow> (case builtin of
                 None \<Rightarrow> Some False
               | Some v \<Rightarrow> do { obj \<leftarrow> view (vm_heap vm) v; Some (case obj of Some (OBJ_DICT _) \<Rightarrow> True | _ \<Rightarrow> False) });
     if isdict then Some (builtin, vm)
     else do {
       name \<leftarrow> string_chars (vm_heap vm) module_name;
       case resolve_import_path (env_file_exists (c_env c)) vm name FLUX_IMPORT_PATH_MAX of
         None \<Rightarrow> import_extension c vm module_name name
       | Some resolved \<Rightarrow> do {
           (cache_key, vm) \<leftarrow> object_string_copy vm resolved;
           vm \<leftarrow> Some (vm_push vm (VAL_OBJECT cache_key));
           modules \<leftarrow> vm_modules vm;
           cached \<leftarrow> heap_dict_get (vm_heap vm) modules cache_key;
           case cached of
             Some v \<Rightarrow> do {
               (_, vm) \<leftarrow> vm_pop vm;
               obj \<leftarrow> view (vm_heap vm) v;
               case obj of
                 Some (OBJ_DICT _) \<Rightarrow> Some (Some v, vm)
               | _ \<Rightarrow> import_error vm [''Circular import detected: '', import_chain (vm_import_stack_names vm) name]
             }
           | None \<Rightarrow> import_load c vm resolved name cache_key
         }
     }
   }"

section \<open>Running a script\<close>

definition vm_execute :: "ctx \<Rightarrow> flux_vm \<Rightarrow> ptr \<Rightarrow> (vm_result \<times> flux_vm) option" where
  "vm_execute c vm fn = do {
     (main_closure, vm) \<leftarrow> object_closure_new vm fn;
     vm \<leftarrow> Some (vm_push vm (VAL_OBJECT main_closure));
     let base = length (vm_frames vm);
     (_, vm) \<leftarrow> call_closure vm main_closure 0;
     (r, vm) \<leftarrow> c_run c vm base False;
     if r = VM_RUNTIME_ERROR then Some (r, vm) else vm_scheduler_run (c_fuel c) c vm
   }"

end
