(* ===== verification/Stores.thy ===== *)
theory Stores
  imports Calls
begin

text \<open>
  Dictionaries as stores.  The locale \<open>map_store\<close> is the contract between a hash table and its
  clients; the client lemmas are the refinement of any history of operations by a finite map and the
  effect of a run of insertions.  It is interpreted on the dictionaries of \<^verbatim>\<open>object.c\<close>, once as values
  and once as objects of the machine's heap.  The loops of \<^verbatim>\<open>vm.c\<close> that copy one dictionary into another
  (inheritance, imports) are a client of the second.
\<close>

section \<open>The contract\<close>

datatype ('k, 'v) store_op = Store_Set 'k 'v | Store_Delete 'k

fun op_key :: "('k, 'v) store_op \<Rightarrow> 'k" where
  "op_key (Store_Set k v) = k"
| "op_key (Store_Delete k) = k"

fun spec_op :: "('k, 'v) store_op \<Rightarrow> ('k \<Rightarrow> 'v option) \<Rightarrow> 'k \<Rightarrow> 'v option" where
  "spec_op (Store_Set k v) m = m(k \<mapsto> v)"
| "spec_op (Store_Delete k) m = m(k := None)"

fun run_ops ::
  "('s \<Rightarrow> 'k \<Rightarrow> 'v \<Rightarrow> 's option) \<Rightarrow> ('s \<Rightarrow> 'k \<Rightarrow> (bool \<times> 's) option) \<Rightarrow> ('k, 'v) store_op list \<Rightarrow> 's \<Rightarrow> 's option" where
  "run_ops set_op del_op [] s = Some s"
| "run_ops set_op del_op (Store_Set k v # ops) s = do { s \<leftarrow> set_op s k v; run_ops set_op del_op ops s }"
| "run_ops set_op del_op (Store_Delete k # ops) s = do { (_, s) \<leftarrow> del_op s k; run_ops set_op del_op ops s }"

locale map_store =
  fixes ok :: "'s \<Rightarrow> bool"
    and room :: "nat \<Rightarrow> 's \<Rightarrow> bool"
    and valid :: "'k \<Rightarrow> bool"
    and abs :: "'s \<Rightarrow> 'k \<Rightarrow> 'v option"
    and get_op :: "'s \<Rightarrow> 'k \<Rightarrow> 'v option option"
    and set_op :: "'s \<Rightarrow> 'k \<Rightarrow> 'v \<Rightarrow> 's option"
    and del_op :: "'s \<Rightarrow> 'k \<Rightarrow> (bool \<times> 's) option"
  assumes get_law: "ok s \<Longrightarrow> valid k \<Longrightarrow> get_op s k = Some (abs s k)"
    and set_law: "ok s \<Longrightarrow> room (Suc n) s \<Longrightarrow> valid k \<Longrightarrow>
      \<exists>s'. set_op s k v = Some s' \<and> ok s' \<and> room n s' \<and> abs s' = (abs s)(k \<mapsto> v)"
    and del_law: "ok s \<Longrightarrow> room n s \<Longrightarrow> valid k \<Longrightarrow>
      \<exists>s'. del_op s k = Some (abs s k \<noteq> None, s') \<and> ok s' \<and> room n s' \<and> abs s' = (abs s)(k := None)"
    and room_mono: "room (Suc n) s \<Longrightarrow> room n s"
begin

lemma run_refines:
  assumes "ok s" "room (length ops) s" "\<forall>a \<in> set ops. valid (op_key a)"
  shows "\<exists>s'. run_ops set_op del_op ops s = Some s' \<and> ok s' \<and> room 0 s' \<and> abs s' = fold spec_op ops (abs s)"
  using assms
proof (induction ops arbitrary: s)
  case (Cons a ops)
  show ?case
  proof (cases a)
    case (Store_Set k v)
    then obtain s1 where s1: "set_op s k v = Some s1" "ok s1" "room (length ops) s1" "abs s1 = (abs s)(k \<mapsto> v)"
      using set_law [OF Cons.prems(1), of "length ops" k v] Cons.prems(2,3) by auto
    then show ?thesis using Cons.IH [of s1] Cons.prems(3) Store_Set by (auto simp del: fun_upd_apply)
  next
    case (Store_Delete k)
    then obtain s1 where s1: "del_op s k = Some (abs s k \<noteq> None, s1)" "ok s1" "room (length ops) s1"
      "abs s1 = (abs s)(k := None)"
      using del_law [OF Cons.prems(1) room_mono, of "length ops" k] Cons.prems(2,3) by auto
    then show ?thesis using Cons.IH [of s1] Cons.prems(3) Store_Delete by (auto simp del: fun_upd_apply)
  qed
qed simp

lemma run_get:
  assumes "ok s" "room (length ops) s" "\<forall>a \<in> set ops. valid (op_key a)" "valid k"
  shows "\<exists>s'. run_ops set_op del_op ops s = Some s' \<and> get_op s' k = Some (fold spec_op ops (abs s) k)"
  using run_refines [OF assms(1-3)] get_law assms(4) by metis

end

section \<open>Dictionary values\<close>

interpretation dict_store: map_store "dict_ok kh" dict_room "\<lambda>k. kh k \<noteq> None" dict_map "dict_get kh" "dict_set kh" "dict_delete kh"
  for kh :: key_hash
proof
  fix d k v n
  show "dict_get kh d k = Some (dict_map d k)" if "dict_ok kh d" "kh k \<noteq> None"
    using that by (rule dict_get_spec)
  show "\<exists>s'. dict_set kh d k v = Some s' \<and> dict_ok kh s' \<and> dict_room n s' \<and> dict_map s' = (dict_map d)(k \<mapsto> v)"
    if "dict_ok kh d" "dict_room (Suc n) d" "kh k \<noteq> None" using that by (rule dict_set_spec)
  show "\<exists>s'. dict_delete kh d k = Some (dict_map d k \<noteq> None, s') \<and> dict_ok kh s' \<and> dict_room n s' \<and>
      dict_map s' = (dict_map d)(k := None)" if "dict_ok kh d" "dict_room n d" "kh k \<noteq> None"
    using dict_delete_spec [of kh d k] that by (auto simp: dict_room_def)
qed (simp add: dict_room_def)

section \<open>Dictionaries of the machine\<close>

definition vm_dict_ok :: "key_hash \<Rightarrow> ptr \<Rightarrow> flux_vm \<Rightarrow> bool" where
  "vm_dict_ok kh p vm \<longleftrightarrow> key_hash (vm_heap vm) = kh \<and> (\<exists>d. get_dict (vm_heap vm) p = Some d \<and> dict_ok kh d)"

definition vm_dict_room :: "ptr \<Rightarrow> nat \<Rightarrow> flux_vm \<Rightarrow> bool" where
  "vm_dict_room p n vm \<longleftrightarrow> (\<exists>d. get_dict (vm_heap vm) p = Some d \<and> dict_room n d)"

definition vm_dict_map :: "ptr \<Rightarrow> flux_vm \<Rightarrow> ptr \<Rightarrow> flux_value option" where
  "vm_dict_map p vm = (case get_dict (vm_heap vm) p of Some d \<Rightarrow> dict_map d | None \<Rightarrow> Map.empty)"

lemma get_dict_hput: "hput h p (OBJ_DICT d) = Some h' \<Longrightarrow> get_dict h' q = (if q = p then Some d else get_dict h q)"
  by (simp add: get_dict_def hpayload_hput)

lemma key_hash_hput:
  assumes "hput h p (OBJ_DICT d') = Some h'" "get_dict h p = Some d"
  shows "key_hash h' = key_hash h"
  using assms by (auto simp: key_hash_def fun_eq_iff get_string_def get_dict_def hpayload_hput split: option.splits payload.splits)

lemma key_hash_hput_other:
  assumes "hput h p pl = Some h'" "get_string h p = None" "\<And>s. pl \<noteq> OBJ_STRING s"
  shows "key_hash h' = key_hash h"
  using assms by (auto simp: key_hash_def fun_eq_iff get_string_def hpayload_hput split: option.splits payload.splits)

lemma get_dict_put: "get_dict h p = Some d \<Longrightarrow> \<exists>h'. hput h p pl = Some h'"
  by (auto simp: hput_iff get_dict_def hpayload_def split: option.splits)

lemma vm_dict_set_law:
  assumes "vm_dict_ok kh p vm" "vm_dict_room p (Suc n) vm" "kh k \<noteq> None"
  shows "\<exists>vm'. vm_dict_set vm p k v = Some vm' \<and> vm_dict_ok kh p vm' \<and> vm_dict_room p n vm' \<and>
    vm_dict_map p vm' = (vm_dict_map p vm)(k \<mapsto> v)"
proof -
  obtain d where d: "get_dict (vm_heap vm) p = Some d" "dict_ok kh d" "dict_room (Suc n) d" "key_hash (vm_heap vm) = kh"
    using assms by (auto simp: vm_dict_ok_def vm_dict_room_def)
  obtain d' where d': "dict_set kh d k v = Some d'" "dict_ok kh d'" "dict_room n d'" "dict_map d' = (dict_map d)(k \<mapsto> v)"
    using dict_set_spec [OF d(2,3) assms(3)] by blast
  obtain h' where h': "hput (vm_heap vm) p (OBJ_DICT d') = Some h'" using get_dict_put [OF d(1)] by blast
  show ?thesis
    using d d' h' by (simp add: vm_dict_set_def vm_dict_ok_def vm_dict_room_def vm_dict_map_def
        get_dict_hput [OF h'] key_hash_hput [OF h' d(1)])
qed

lemma vm_dict_delete_law:
  assumes "vm_dict_ok kh p vm" "vm_dict_room p n vm" "kh k \<noteq> None"
  shows "\<exists>vm'. vm_dict_delete vm p k = Some (vm_dict_map p vm k \<noteq> None, vm') \<and> vm_dict_ok kh p vm' \<and>
    vm_dict_room p n vm' \<and> vm_dict_map p vm' = (vm_dict_map p vm)(k := None)"
proof -
  obtain d where d: "get_dict (vm_heap vm) p = Some d" "dict_ok kh d" "dict_room n d" "key_hash (vm_heap vm) = kh"
    using assms by (auto simp: vm_dict_ok_def vm_dict_room_def)
  obtain d' where d': "dict_delete kh d k = Some (dict_map d k \<noteq> None, d')" "dict_ok kh d'" "d_count d' = d_count d"
    "dict_map d' = (dict_map d)(k := None)"
    using dict_delete_spec [OF d(2) assms(3)] by blast
  obtain h' where h': "hput (vm_heap vm) p (OBJ_DICT d') = Some h'" using get_dict_put [OF d(1)] by blast
  show ?thesis
    using d d' h' by (simp add: vm_dict_delete_def vm_dict_ok_def vm_dict_room_def vm_dict_map_def dict_room_def
        get_dict_hput [OF h'] key_hash_hput [OF h' d(1)])
qed

interpretation heap_dict: map_store "vm_dict_ok kh p" "vm_dict_room p" "\<lambda>k. kh k \<noteq> None" "vm_dict_map p"
  "\<lambda>vm. heap_dict_get (vm_heap vm) p" "\<lambda>vm. vm_dict_set vm p" "\<lambda>vm. vm_dict_delete vm p"
  for kh :: key_hash and p :: ptr
proof
  fix vm k v n
  show "heap_dict_get (vm_heap vm) p k = Some (vm_dict_map p vm k)" if "vm_dict_ok kh p vm" "kh k \<noteq> None"
    using that dict_get_spec by (auto simp: vm_dict_ok_def heap_dict_get_def vm_dict_map_def)
  show "vm_dict_room p n vm" if "vm_dict_room p (Suc n) vm"
    using that by (auto simp: vm_dict_room_def dict_room_def)
qed (fact vm_dict_set_law vm_dict_delete_law)+

text \<open>Setting a key touches no object but the dictionary.\<close>

lemma vm_dict_set_frame:
  assumes "vm_dict_set vm p k v = Some vm'"
  shows "q \<noteq> p \<Longrightarrow> hpayload (vm_heap vm') q = hpayload (vm_heap vm) q"
    and "vm_stack vm' = vm_stack vm" "vm_frames vm' = vm_frames vm" "vm_objects vm' = vm_objects vm"
    and "length (vm_heap vm') = length (vm_heap vm)"
  using assms by (auto simp: vm_dict_set_def bind_Some_iff hpayload_hput hput_length)

section \<open>Copying the entries of a dictionary\<close>

text \<open>The entries a copy stores, for a choice \<open>f\<close> that does not depend on the machine.\<close>

definition picked :: "(ptr \<Rightarrow> flux_value \<Rightarrow> flux_value option) \<Rightarrow> dict_entry list \<Rightarrow> (ptr \<times> flux_value) list" where
  "picked f es = [(k, w). (k, v) \<leftarrow> entries_alist es, w \<leftarrow> (case f k v of None \<Rightarrow> [] | Some w \<Rightarrow> [w])]"

lemma picked_Nil [simp]: "picked f [] = []"
  by (simp add: picked_def)

lemma picked_Cons:
  "picked f (e # es) = (case de_key e of None \<Rightarrow> picked f es
     | Some k \<Rightarrow> (case f k (de_value e) of None \<Rightarrow> picked f es | Some w \<Rightarrow> (k, w) # picked f es))"
  by (simp add: picked_def split: option.splits)

lemma picked_map:
  "distinct (map fst (entries_alist es)) \<Longrightarrow>
    map_of (picked f es) k = Option.bind (map_of (entries_alist es) k) (f k)"
proof (induction es)
  case (Cons e es)
  have none: "map_of (picked f es) k' = None" if "k' \<notin> fst ` set (entries_alist es)" for k'
    using that by (force simp: picked_def map_of_eq_None_iff split: option.splits)
  show ?case
    using Cons none by (auto simp: picked_Cons split: option.splits)
qed simp

definition set_all :: "(ptr \<times> flux_value) list \<Rightarrow> (ptr, flux_value) store_op list" where
  "set_all kvs = map (\<lambda>(k, v). Store_Set k v) kvs"

lemma fold_set_all: "fold spec_op (set_all kvs) m = m ++ map_of (rev kvs)"
proof (induction kvs arbitrary: m)
  case (Cons kv kvs)
  obtain k v where kv: "kv = (k, v)" by (cases kv)
  have "m(k \<mapsto> v) = m ++ [k \<mapsto> v]" by simp
  then show ?case using Cons [of "m(k \<mapsto> v)"] kv by (simp add: set_all_def map_of_append map_add_assoc del: fun_upd_apply)
qed (simp add: set_all_def)

lemma map_of_rev_distinct: "distinct (map fst kvs) \<Longrightarrow> map_of (rev kvs) = map_of kvs"
proof (induction kvs)
  case (Cons kv kvs)
  then have "map_of kvs (fst kv) = None" by (simp add: map_of_eq_None_iff)
  then show ?case using Cons by (auto simp: map_of_append map_add_def fun_eq_iff split: option.splits)
qed simp

text \<open>
  The loop over the slots of \<open>src\<close>, for two different dictionaries.  \<open>pick\<close> may read the machine, as the
  import does, as long as its answer does not depend on what the copy changes.
\<close>

definition copy_frame :: "ptr \<Rightarrow> flux_vm \<Rightarrow> flux_vm \<Rightarrow> bool" where
  "copy_frame dst vm vm' \<longleftrightarrow>
     length (vm_heap vm') = length (vm_heap vm) \<and>
     (\<forall>q. q \<noteq> dst \<longrightarrow> hpayload (vm_heap vm') q = hpayload (vm_heap vm) q) \<and>
     vm'\<lparr>vm_heap := [], vm_bytes_allocated := 0\<rparr> = vm\<lparr>vm_heap := [], vm_bytes_allocated := 0\<rparr>"

lemma copy_frame_refl: "copy_frame dst vm vm"
  by (simp add: copy_frame_def)

lemma copy_frame_set: "copy_frame dst vm vm1 \<Longrightarrow> vm_dict_set vm1 dst k v = Some vm2 \<Longrightarrow> copy_frame dst vm vm2"
  by (auto simp: copy_frame_def vm_dict_set_def bind_Some_iff hpayload_hput hput_length)

lemma copy_frame_dict: "copy_frame dst vm vm' \<Longrightarrow> src \<noteq> dst \<Longrightarrow> get_dict (vm_heap vm') src = get_dict (vm_heap vm) src"
  by (simp add: copy_frame_def get_dict_def)

lemma copy_entries_loop_spec:
  assumes "copy_frame dst vm0 vm" "src \<noteq> dst" "get_dict (vm_heap vm0) src = Some d" "length (d_entries d) = d_capacity d"
    and pick: "\<And>vm' k v. copy_frame dst vm0 vm' \<Longrightarrow> kh k \<noteq> None \<Longrightarrow> pick vm' k v = Some (f k v)"
    and keys: "\<forall>k \<in> fst ` set (entries_alist (d_entries d)). kh k \<noteq> None"
    and "vm_dict_ok kh dst vm" "vm_dict_room dst (d_capacity d - i) vm" "d_capacity d - i < n"
  shows "\<exists>vm'. copy_entries_loop n src dst pick i vm = Some vm' \<and> copy_frame dst vm0 vm' \<and> vm_dict_ok kh dst vm' \<and>
    vm_dict_map dst vm' = vm_dict_map dst vm ++ map_of (rev (picked f (drop i (d_entries d))))"
  using assms(1,7-)
proof (induction n arbitrary: i vm)
  case (Suc n)
  have src: "get_dict (vm_heap vm) src = Some d" using copy_frame_dict [OF Suc.prems(1) assms(2)] assms(3) by simp
  show ?case
  proof (cases "d_capacity d \<le> i")
    case True
    then show ?thesis using src Suc.prems assms(4) by simp
  next
    case False
    define e where "e = d_entries d ! i"
    have i: "i < length (d_entries d)" and left: "d_capacity d - i = Suc (d_capacity d - Suc i)"
      using False assms(4) by simp_all
    have drop: "drop i (d_entries d) = e # drop (Suc i) (d_entries d)"
      using i by (simp add: e_def Cons_nth_drop_Suc)
    have room: "vm_dict_room dst (d_capacity d - Suc i) vm" using heap_dict.room_mono Suc.prems(3) left by simp
    have step: "copy_entries_loop (Suc n) src dst pick i vm =
        do { vm \<leftarrow> (case de_key e of None \<Rightarrow> Some vm
               | Some k \<Rightarrow> do { p \<leftarrow> pick vm k (de_value e); case p of None \<Rightarrow> Some vm | Some v \<Rightarrow> vm_dict_set vm dst k v });
             copy_entries_loop n src dst pick (Suc i) vm }"
      using src False i by (simp add: nth_opt_def flip: e_def)
    show ?thesis
    proof (cases "\<exists>k w. de_key e = Some k \<and> f k (de_value e) = Some w")
      case True
      then obtain k w where k: "de_key e = Some k" "f k (de_value e) = Some w" by blast
      have kh: "kh k \<noteq> None"
        using keys k(1) i entries_alist_keys [of k "d_entries d"] unfolding e_def by blast
      obtain vm1 where vm1: "vm_dict_set vm dst k w = Some vm1" "vm_dict_ok kh dst vm1"
        "vm_dict_room dst (d_capacity d - Suc i) vm1" "vm_dict_map dst vm1 = (vm_dict_map dst vm)(k \<mapsto> w)"
        using vm_dict_set_law [where v = w, OF Suc.prems(2) _ kh] Suc.prems(3) left by metis
      have fr: "copy_frame dst vm0 vm1" using copy_frame_set [OF Suc.prems(1) vm1(1)] .
      have run: "copy_entries_loop (Suc n) src dst pick i vm = copy_entries_loop n src dst pick (Suc i) vm1"
        using step k pick [OF Suc.prems(1) kh] vm1(1) by simp
      have "d_capacity d - Suc i < n" using Suc.prems(4) left by simp
      from Suc.IH [OF fr vm1(2,3) this] obtain vm' where
        "copy_entries_loop n src dst pick (Suc i) vm1 = Some vm'" "copy_frame dst vm0 vm'" "vm_dict_ok kh dst vm'"
        "vm_dict_map dst vm' = (vm_dict_map dst vm)(k \<mapsto> w) ++ map_of (rev (picked f (drop (Suc i) (d_entries d))))"
        using vm1(4) by (auto simp del: fun_upd_apply)
      moreover have "vm_dict_map dst vm ++ map_of (rev (picked f (drop i (d_entries d)))) =
          (vm_dict_map dst vm)(k \<mapsto> w) ++ map_of (rev (picked f (drop (Suc i) (d_entries d))))"
        using drop k by (simp add: picked_Cons map_of_append del: fun_upd_apply)
      ultimately show ?thesis using run by (simp del: fun_upd_apply)
    next
      case False
      have "(case de_key e of None \<Rightarrow> Some vm
          | Some k \<Rightarrow> do { p \<leftarrow> pick vm k (de_value e); case p of None \<Rightarrow> Some vm | Some v \<Rightarrow> vm_dict_set vm dst k v }) = Some vm"
      proof (cases "de_key e")
        case (Some k)
        have kh: "kh k \<noteq> None"
          using keys Some i entries_alist_keys [of k "d_entries d"] unfolding e_def by blast
        then show ?thesis using False pick [OF Suc.prems(1) kh] Some by (cases "f k (de_value e)") auto
      qed simp
      then have run: "copy_entries_loop (Suc n) src dst pick i vm = copy_entries_loop n src dst pick (Suc i) vm"
        using step by simp
      have "picked f (drop i (d_entries d)) = picked f (drop (Suc i) (d_entries d))"
        using False drop by (auto simp: picked_Cons split: option.splits)
      then show ?thesis using Suc.IH [OF Suc.prems(1,2) room] Suc.prems(4) left run by simp
    qed
  qed
qed simp

lemma copy_entries_spec:
  assumes "src \<noteq> dst" "get_dict (vm_heap vm) src = Some d" "dict_ok kh d" "vm_dict_ok kh dst vm"
    and room: "vm_dict_room dst (d_capacity d) vm"
    and pick: "\<And>vm' k v. copy_frame dst vm vm' \<Longrightarrow> kh k \<noteq> None \<Longrightarrow> pick vm' k v = Some (f k v)"
  shows "\<exists>vm'. copy_entries src dst pick vm = Some vm' \<and> copy_frame dst vm vm' \<and> vm_dict_ok kh dst vm' \<and>
    vm_dict_map dst vm' = vm_dict_map dst vm ++ (\<lambda>k. Option.bind (dict_map d k) (f k))"
proof -
  have len: "length (d_entries d) = d_capacity d" using assms(3) table_ok_cap by (auto simp: dict_ok_def split: if_splits)
  have dist: "distinct (map fst (entries_alist (d_entries d)))"
    using assms(3) table_ok_distinct by (auto simp: dict_ok_def split: if_splits)
  have keys: "\<forall>k \<in> fst ` set (entries_alist (d_entries d)). kh k \<noteq> None"
  proof
    fix k assume "k \<in> fst ` set (entries_alist (d_entries d))"
    then obtain v where "dict_map d k = Some v"
      by (metis dict_map_def dict_alist_def map_of_eq_None_iff not_None_eq)
    then show "kh k \<noteq> None" using dict_ok_keys [OF assms(3)] by blast
  qed
  have dist_picked: "distinct (map fst (picked f es))" if "distinct (map fst (entries_alist es))" for es
    using that
  proof (induction es)
    case (Cons e es)
    have "fst ` set (picked f es) \<subseteq> fst ` set (entries_alist es)"
      by (force simp: picked_def split: option.splits)
    then show ?case using Cons by (auto simp: picked_Cons split: option.splits)
  qed simp
  have "map_of (rev (picked f (d_entries d))) = (\<lambda>k. Option.bind (dict_map d k) (f k))"
    using map_of_rev_distinct [OF dist_picked [OF dist]] picked_map [OF dist]
    by (simp add: dict_map_def dict_alist_def fun_eq_iff)
  then show ?thesis
    using copy_entries_loop_spec [where i = 0 and n = "2 * d_capacity d + 10" and f = f and pick = pick,
        OF copy_frame_refl assms(1,2) len _ keys assms(4)] pick room assms(2)
    by (simp add: copy_entries_def)
qed

end
