(* ===== verification/UpvalueProps.thy ===== *)
theory UpvalueProps
  imports VMCore
begin

text \<open>
  Captured variables: the list of open upvalues is sorted by slot without repetition, capturing a slot
  twice gives the same upvalue, and closing upvalues cannot be seen through them, even after the stack
  has been cut.
\<close>

definition upvalues_ok :: "flux_vm \<Rightarrow> bool" where
  "upvalues_ok vm \<longleftrightarrow>
     (\<exists>ls. map (open_slot (vm_heap vm)) (vm_open_upvalues vm) = map Some ls \<and>
           sorted_wrt (>) ls \<and> (\<forall>l \<in> set ls. l < length (vm_stack vm)))"

lemma open_slot_hpayload: "hpayload h' p = hpayload h p \<Longrightarrow> open_slot h' p = open_slot h p"
  by (simp add: open_slot_def get_upvalue_def)

lemma upvalues_distinct: "map (open_slot h) uvs = map Some ls \<Longrightarrow> sorted_wrt (>) ls \<Longrightarrow> distinct uvs"
proof (induction uvs arbitrary: ls)
  case (Cons p uvs)
  then obtain l ls' where l: "ls = l # ls'" "open_slot h p = Some l" "map (open_slot h) uvs = map Some ls'"
    by (cases ls) auto
  have "p \<notin> set uvs"
  proof
    assume "p \<in> set uvs"
    then have "Some l \<in> set (map (open_slot h) uvs)" using l(2) by force
    then have "l \<in> set ls'" using l(3) by auto
    then show False using Cons.prems(2) l(1) by auto
  qed
  then show ?case using Cons.IH l Cons.prems(2) by auto
qed simp

section \<open>Closing\<close>

definition same_except :: "ptr set \<Rightarrow> heap \<Rightarrow> heap \<Rightarrow> bool" where
  "same_except S h h' \<longleftrightarrow> length h' = length h \<and> (\<forall>p. p \<notin> S \<longrightarrow> hget h' p = hget h p)"

lemma open_slot_update:
  "get_upvalue h p \<noteq> None \<Longrightarrow> hput h p pl = Some h' \<Longrightarrow> q \<noteq> p \<Longrightarrow> open_slot h' q = open_slot h q"
  by (rule open_slot_hpayload) (simp add: hpayload_hput)

lemma open_slot_get: "open_slot h p = Some l \<Longrightarrow> \<exists>uv. get_upvalue h p = Some uv \<and> uv_location uv = Open l"
  by (auto simp: open_slot_def split: option.splits upvalue_location.splits)

lemma get_upvalue_alive: "get_upvalue h p = Some uv \<Longrightarrow> \<exists>ob. hget h p = Some ob"
  by (cases "hget h p") (auto simp: get_upvalue_def hpayload_def)

lemma close_upvalues_loop_spec:
  assumes "map (open_slot (vm_heap vm)) uvs = map Some ls" "sorted_wrt (>) ls"
    "\<forall>l \<in> set ls. l < length (vm_stack vm)"
  shows "\<exists>h. close_upvalues_loop d uvs vm =
      Some (vm\<lparr>vm_heap := h, vm_open_upvalues := filter (\<lambda>p. \<exists>l < d. open_slot (vm_heap vm) p = Some l) uvs\<rparr>) \<and>
    same_except {p \<in> set uvs. \<exists>l \<ge> d. open_slot (vm_heap vm) p = Some l} (vm_heap vm) h \<and>
    (\<forall>p \<in> set uvs. \<forall>l \<ge> d. open_slot (vm_heap vm) p = Some l \<longrightarrow>
       get_upvalue h p = Some \<lparr>uv_location = Closed, uv_closed = vm_stack vm ! l\<rparr>)"
  using assms
proof (induction uvs arbitrary: vm ls)
  case Nil
  then show ?case by (auto simp: same_except_def intro!: exI [of _ "vm_heap vm"])
next
  case (Cons p uvs)
  then obtain l ls' where l: "ls = l # ls'" "open_slot (vm_heap vm) p = Some l"
    "map (open_slot (vm_heap vm)) uvs = map Some ls'" by (cases ls) auto
  have pn: "p \<notin> set uvs" using upvalues_distinct [OF Cons.prems(1,2)] by simp
  have below: "l' < l" if "q \<in> set uvs" "open_slot (vm_heap vm) q = Some l'" for q l'
  proof -
    have "Some l' \<in> set (map Some ls')" using that l(3) by (metis image_eqI list.set_map)
    then show ?thesis using Cons.prems(2) l(1) by auto
  qed
  show ?case
  proof (cases "d \<le> l")
    case False
    have "\<exists>m < d. open_slot (vm_heap vm) q = Some m" if "q \<in> set (p # uvs)" for q
    proof -
      have "open_slot (vm_heap vm) q \<in> set (map Some ls)" using that Cons.prems(1) by (metis image_eqI list.set_map)
      then obtain m where "open_slot (vm_heap vm) q = Some m" "m \<in> set ls" by auto
      then show ?thesis using False Cons.prems(2) l(1) by auto
    qed
    moreover from this have "filter (\<lambda>q. \<exists>m < d. open_slot (vm_heap vm) q = Some m) (p # uvs) = p # uvs"
      by (simp add: filter_id_conv del: filter.simps)
    ultimately show ?thesis
      using False l(2) by (intro exI [of _ "vm_heap vm"]) (fastforce simp: same_except_def)
  next
    case True
    obtain uv where uv: "get_upvalue (vm_heap vm) p = Some uv" using open_slot_get [OF l(2)] by blast
    obtain ob where ob: "hget (vm_heap vm) p = Some ob" using get_upvalue_alive [OF uv] by blast
    have lt: "l < length (vm_stack vm)" using Cons.prems(3) l(1) by simp
    let ?pl = "OBJ_UPVALUE \<lparr>uv_location = Closed, uv_closed = vm_stack vm ! l\<rparr>"
    obtain h1 where h1: "hput (vm_heap vm) p ?pl = Some h1" using ob by (simp add: hput_def)
    let ?vm1 = "vm\<lparr>vm_heap := h1\<rparr>"
    have same1: "open_slot h1 q = open_slot (vm_heap vm) q" if "q \<in> set uvs" for q
      using that pn by (intro open_slot_hpayload) (auto simp: hpayload_hput [OF h1])
    have "map (open_slot (vm_heap ?vm1)) uvs = map Some ls'" using l(3) same1 by (simp cong: map_cong)
    from Cons.IH [OF this] obtain h where h:
      "close_upvalues_loop d uvs ?vm1 =
        Some (?vm1\<lparr>vm_heap := h, vm_open_upvalues := filter (\<lambda>p. \<exists>l < d. open_slot h1 p = Some l) uvs\<rparr>)"
      "same_except {p \<in> set uvs. \<exists>l \<ge> d. open_slot h1 p = Some l} h1 h"
      "\<forall>p \<in> set uvs. \<forall>l \<ge> d. open_slot h1 p = Some l \<longrightarrow>
         get_upvalue h p = Some \<lparr>uv_location = Closed, uv_closed = vm_stack vm ! l\<rparr>"
      using Cons.prems(2,3) l(1) by auto
    have f: "filter (\<lambda>p. \<exists>l < d. open_slot h1 p = Some l) uvs = filter (\<lambda>p. \<exists>l < d. open_slot (vm_heap vm) p = Some l) (p # uvs)"
      using True l(2) same1 by (auto intro: filter_cong)
    have hp: "get_upvalue h p = Some \<lparr>uv_location = Closed, uv_closed = vm_stack vm ! l\<rparr>"
    proof -
      have "hget h p = hget h1 p" using h(2) pn by (simp add: same_except_def)
      then have "hpayload h p = Some ?pl" using hpayload_hput [OF h1, of p] by (simp add: hpayload_def)
      then show ?thesis by (simp add: get_upvalue_def)
    qed
    have "close_upvalues_loop d (p # uvs) vm =
        Some (vm\<lparr>vm_heap := h, vm_open_upvalues := filter (\<lambda>p. \<exists>l < d. open_slot (vm_heap vm) p = Some l) (p # uvs)\<rparr>)"
      using l(2) True lt h1 h(1) f by (simp add: vm_hput_def nth_opt_less)
    moreover have "same_except {q \<in> set (p # uvs). \<exists>l \<ge> d. open_slot (vm_heap vm) q = Some l} (vm_heap vm) h"
    proof -
      have "hget h1 q = hget (vm_heap vm) q" if "q \<noteq> p" for q using that hget_hput [OF h1] by simp
      moreover have "hget h q = hget h1 q" if "\<not> (q \<in> set uvs \<and> (\<exists>m \<ge> d. open_slot (vm_heap vm) q = Some m))" for q
        using h(2) same1 that by (auto simp: same_except_def)
      ultimately have "hget h q = hget (vm_heap vm) q"
        if "q \<notin> {q \<in> set (p # uvs). \<exists>m \<ge> d. open_slot (vm_heap vm) q = Some m}" for q
        using that True l(2) by (cases "q = p") auto
      then show ?thesis using h(2) hput_length [OF h1] by (simp add: same_except_def)
    qed
    ultimately show ?thesis using h(3) same1 hp l(2) by (intro exI [of _ h]) auto
  qed
qed

lemma filter_slots:
  "map (open_slot h) uvs = map Some ls \<Longrightarrow>
    map (open_slot h) (filter (\<lambda>p. \<exists>l < d. open_slot h p = Some l) uvs) = map Some (filter (\<lambda>l. l < d) ls)"
proof (induction uvs arbitrary: ls)
  case (Cons p uvs)
  then show ?case by (cases ls) auto
qed simp

lemma get_upvalue_hget: "hget h' p = hget h p \<Longrightarrow> get_upvalue h' p = get_upvalue h p"
  by (simp add: get_upvalue_def hpayload_def)

text \<open>Reading through any upvalue gives the same value before and after closing.\<close>

lemma close_upvalues_spec:
  assumes ok: "upvalues_ok vm"
  obtains vm' h where "close_upvalues vm d = Some vm'"
    "vm' = vm\<lparr>vm_heap := h, vm_open_upvalues := filter (\<lambda>p. \<exists>l < d. open_slot (vm_heap vm) p = Some l) (vm_open_upvalues vm)\<rparr>"
    "same_except (set (vm_open_upvalues vm)) (vm_heap vm) h"
    "upvalues_ok (vm'\<lparr>vm_stack := take d (vm_stack vm)\<rparr>)" "upvalues_ok vm'"
    "\<And>p. upvalue_get vm' p = upvalue_get vm p"
    "\<And>p. p \<in> set (vm_open_upvalues vm) \<Longrightarrow> upvalue_get (vm'\<lparr>vm_stack := take d (vm_stack vm)\<rparr>) p = upvalue_get vm p"
proof -
  obtain ls where ls: "map (open_slot (vm_heap vm)) (vm_open_upvalues vm) = map Some ls" "sorted_wrt (>) ls"
    "\<forall>l \<in> set ls. l < length (vm_stack vm)" using ok by (auto simp: upvalues_ok_def)
  let ?uvs = "vm_open_upvalues vm"
  let ?keep = "filter (\<lambda>p. \<exists>l < d. open_slot (vm_heap vm) p = Some l) ?uvs"
  from close_upvalues_loop_spec [OF ls, of d] obtain h where h:
    "close_upvalues_loop d ?uvs vm = Some (vm\<lparr>vm_heap := h, vm_open_upvalues := ?keep\<rparr>)"
    "same_except {p \<in> set ?uvs. \<exists>l \<ge> d. open_slot (vm_heap vm) p = Some l} (vm_heap vm) h"
    "\<And>p l. p \<in> set ?uvs \<Longrightarrow> d \<le> l \<Longrightarrow> open_slot (vm_heap vm) p = Some l \<Longrightarrow>
       get_upvalue h p = Some \<lparr>uv_location = Closed, uv_closed = vm_stack vm ! l\<rparr>" by blast
  let ?vm' = "vm\<lparr>vm_heap := h, vm_open_upvalues := ?keep\<rparr>"
  have slot: "\<exists>l. open_slot (vm_heap vm) p = Some l \<and> l < length (vm_stack vm)" if "p \<in> set ?uvs" for p
  proof -
    have "open_slot (vm_heap vm) p \<in> Some ` set ls" using that ls(1) by (metis image_eqI list.set_map)
    then show ?thesis using ls(3) by auto
  qed
  have kept: "get_upvalue h p = get_upvalue (vm_heap vm) p"
    if "\<not> (p \<in> set ?uvs \<and> (\<exists>l \<ge> d. open_slot (vm_heap vm) p = Some l))" for p
    using h(2) that by (intro get_upvalue_hget) (auto simp: same_except_def)
  have open_kept: "open_slot h p = open_slot (vm_heap vm) p" if "p \<in> set ?keep" for p
    using that kept [of p] by (auto simp: open_slot_def)
  have "map (open_slot h) ?keep = map (open_slot (vm_heap vm)) ?keep" using open_kept by simp
  also have "\<dots> = map Some (filter (\<lambda>l. l < d) ls)"
    by (rule filter_slots [OF ls(1)])
  finally have keep_slots: "map (open_slot h) ?keep = map Some (filter (\<lambda>l. l < d) ls)" .
  have sorted: "sorted_wrt (>) (filter (\<lambda>l. l < d) ls)" using ls(2) by (rule sorted_wrt_filter)
  show thesis
  proof (rule that [of ?vm' h])
    show "close_upvalues vm d = Some ?vm'" using h(1) by (simp add: close_upvalues_def)
    show "same_except (set ?uvs) (vm_heap vm) h" using h(2) by (auto simp: same_except_def)
    show "upvalues_ok (?vm'\<lparr>vm_stack := take d (vm_stack vm)\<rparr>)" "upvalues_ok ?vm'"
      unfolding upvalues_ok_def using keep_slots sorted ls(3)
      by (intro exI [of _ "filter (\<lambda>l. l < d) ls"], simp)+
    show "upvalue_get ?vm' p = upvalue_get vm p" for p
    proof (cases "p \<in> set ?uvs \<and> (\<exists>l \<ge> d. open_slot (vm_heap vm) p = Some l)")
      case True
      then obtain l where l: "p \<in> set ?uvs" "d \<le> l" "open_slot (vm_heap vm) p = Some l" by blast
      then obtain uv where "get_upvalue (vm_heap vm) p = Some uv" "uv_location uv = Open l"
        using open_slot_get by blast
      then show ?thesis using h(3) [OF l] slot [OF l(1)] l(3) by (simp add: upvalue_get_def nth_opt_less)
    next
      case False
      then show ?thesis using kept [of p]
        by (simp add: upvalue_get_def cong: upvalue_location.case_cong)
    qed
    show "upvalue_get (?vm'\<lparr>vm_stack := take d (vm_stack vm)\<rparr>) p = upvalue_get vm p" if p: "p \<in> set ?uvs" for p
    proof -
      obtain l where l: "open_slot (vm_heap vm) p = Some l" "l < length (vm_stack vm)" using slot [OF p] by blast
      then obtain uv where uv: "get_upvalue (vm_heap vm) p = Some uv" "uv_location uv = Open l"
        using open_slot_get by blast
      show ?thesis
      proof (cases "d \<le> l")
        case True
        then show ?thesis using h(3) [OF p True l(1)] uv l by (simp add: upvalue_get_def nth_opt_less)
      next
        case False
        then have "get_upvalue h p = get_upvalue (vm_heap vm) p" using kept [of p] l(1) by auto
        then show ?thesis using uv l False by (simp add: upvalue_get_def nth_opt_less)
      qed
    qed
  qed simp
qed

section \<open>Capturing\<close>

lemma upvalue_walk_spec:
  assumes "map (open_slot h) uvs = map Some ls" "sorted_wrt (>) ls"
  shows "upvalue_walk h slot uvs =
    Some (filter (\<lambda>p. \<exists>l > slot. open_slot h p = Some l) uvs, filter (\<lambda>p. \<exists>l \<le> slot. open_slot h p = Some l) uvs)"
  using assms
proof (induction uvs arbitrary: ls)
  case (Cons p uvs)
  then obtain l ls' where l: "ls = l # ls'" "open_slot h p = Some l" "map (open_slot h) uvs = map Some ls'"
    by (cases ls) auto
  show ?case
  proof (cases "slot < l")
    case True
    then show ?thesis using Cons l by auto
  next
    case False
    have "\<exists>m \<le> slot. open_slot h q = Some m" if "q \<in> set uvs" for q
    proof -
      have "open_slot h q \<in> Some ` set ls'" using that l(3) by (metis image_eqI list.set_map)
      then show ?thesis using False Cons.prems(2) l(1) by auto
    qed
    moreover from this have "filter (\<lambda>q. \<exists>m \<le> slot. open_slot h q = Some m) uvs = uvs"
      by (simp add: filter_id_conv)
    moreover have "filter (\<lambda>q. \<exists>m > slot. open_slot h q = Some m) uvs = []"
      using calculation(1) by (fastforce simp: filter_empty_conv)
    ultimately show ?thesis using False l(2) by auto
  qed
qed simp

lemma gc_ok_open:
  assumes "gc_ok vm" "set uvs \<subseteq> allocated (vm_heap vm)"
  shows "gc_ok (vm\<lparr>vm_open_upvalues := uvs\<rparr>)"
  using assms by (simp add: gc_ok_def root_refs_def)

lemma open_roots: "set (vm_open_upvalues vm) \<subseteq> reachable vm"
  by (auto simp: reachable_def root_refs_def)

lemma sorted_insert:
  fixes ls :: "nat list"
  assumes "sorted_wrt (>) ls" "slot \<notin> set ls"
  shows "sorted_wrt (>) (filter (\<lambda>l. slot < l) ls @ slot # filter (\<lambda>l. l \<le> slot) ls)" (is "sorted_wrt _ ?xs")
proof -
  have "l < slot" if "l \<in> set ls" "l \<le> slot" for l using that assms(2) by (metis le_neq_implies_less)
  then show ?thesis
    using assms(1) by (auto simp: sorted_wrt_append sorted_wrt_filter)
qed

lemma sorted_distinct: "sorted_wrt (>) (ls :: nat list) \<Longrightarrow> distinct ls"
  by (induction ls) auto

lemma filter_slots_above:
  "map (open_slot h) uvs = map Some ls \<Longrightarrow>
    map (open_slot h) (filter (\<lambda>p. \<exists>l > d. open_slot h p = Some l) uvs) = map Some (filter (\<lambda>l. d < l) ls) \<and>
    map (open_slot h) (filter (\<lambda>p. \<exists>l \<le> d. open_slot h p = Some l) uvs) = map Some (filter (\<lambda>l. l \<le> d) ls)"
proof (induction uvs arbitrary: ls)
  case (Cons p uvs)
  then show ?case by (cases ls) auto
qed simp

text \<open>A slot that is captured twice gives the same upvalue; a new one joins the list in order.\<close>

lemma capture_upvalue_spec:
  assumes gc: "gc_ok vm" and ok: "upvalues_ok vm" and slot: "slot < length (vm_stack vm)"
  obtains p vm' where "capture_upvalue vm slot = Some (p, vm')" "gc_ok vm'" "upvalues_ok vm'"
    "vm_stack vm' = vm_stack vm" "vm_frames vm' = vm_frames vm"
    "set (vm_open_upvalues vm') = insert p (set (vm_open_upvalues vm))"
    "open_slot (vm_heap vm') p = Some slot"
    "\<And>q. q \<in> reachable vm \<Longrightarrow> hpayload (vm_heap vm') q = hpayload (vm_heap vm) q"
    "\<And>q. q \<in> set (vm_open_upvalues vm) \<Longrightarrow> open_slot (vm_heap vm) q = Some slot \<Longrightarrow> p = q \<and> vm' = vm"
proof -
  let ?h = "vm_heap vm" and ?uvs = "vm_open_upvalues vm"
  obtain ls where ls: "map (open_slot ?h) ?uvs = map Some ls" "sorted_wrt (>) ls"
    "\<forall>l \<in> set ls. l < length (vm_stack vm)" using ok by (auto simp: upvalues_ok_def)
  let ?above = "filter (\<lambda>p. \<exists>l > slot. open_slot ?h p = Some l) ?uvs"
  let ?rest = "filter (\<lambda>p. \<exists>l \<le> slot. open_slot ?h p = Some l) ?uvs"
  note walk = upvalue_walk_spec [OF ls(1,2), of slot]
  note maps = filter_slots_above [OF ls(1), of slot]
  have part: "set ?above \<union> set ?rest = set ?uvs"
  proof -
    have "\<exists>l. open_slot ?h q = Some l" if "q \<in> set ?uvs" for q
    proof -
      have "open_slot ?h q \<in> Some ` set ls" using that ls(1) by (metis image_eqI list.set_map)
      then show ?thesis by auto
    qed
    then show ?thesis by (auto simp: not_le_imp_less) (meson not_le_imp_less)
  qed
  show thesis
  proof (cases "slot \<in> set ls")
    case True
    have "?rest \<noteq> [] \<and> open_slot ?h (hd ?rest) = Some slot"
    proof -
      obtain l ls' where l: "filter (\<lambda>l. l \<le> slot) ls = l # ls'" using True by (cases "filter (\<lambda>l. l \<le> slot) ls") (auto simp: filter_empty_conv)
      have "sorted_wrt (>) (l # ls')" using sorted_wrt_filter [OF ls(2), of "\<lambda>l. l \<le> slot"] l by simp
      moreover have "slot \<in> set (l # ls')" "\<forall>m \<in> set (l # ls'). m \<le> slot" using True by (auto simp: l [symmetric])
      ultimately have "l = slot" by auto
      then show ?thesis using conjunct2 [OF maps] l by (cases ?rest) auto
    qed
    then have cap: "capture_upvalue vm slot = Some (hd ?rest, vm)"
      using walk by (simp add: capture_upvalue_def)
    have hd: "hd ?rest \<in> set ?uvs" "open_slot ?h (hd ?rest) = Some slot"
      using \<open>?rest \<noteq> [] \<and> _\<close> list.set_sel(1) [of ?rest] by auto
    have uniq: "p = q" if "p \<in> set ?uvs" "q \<in> set ?uvs" "open_slot ?h p = open_slot ?h q" for p q
    proof -
      have "distinct (map (open_slot ?h) ?uvs)"
        unfolding ls(1) using sorted_distinct [OF ls(2)] by (simp add: distinct_map)
      then show ?thesis using that by (simp add: distinct_map inj_on_def)
    qed
    show thesis
      by (rule that [OF cap gc ok]) (use hd uniq in auto)
  next
    case False
    have miss: "\<not> (?rest \<noteq> [] \<and> open_slot ?h (hd ?rest) = Some slot)"
    proof
      assume "?rest \<noteq> [] \<and> open_slot ?h (hd ?rest) = Some slot"
      then have "hd ?rest \<in> set ?rest" "Some slot = open_slot ?h (hd ?rest)" by (simp_all only: not_False_eq_True hd_in_set)
      then have "Some slot \<in> open_slot ?h ` set ?rest" by (rule rev_image_eqI)
      then have "Some slot \<in> set (map (open_slot ?h) ?rest)" by (simp only: list.set_map)
      then show False using conjunct2 [OF maps] False by auto
    qed
    let ?pl = "OBJ_UPVALUE \<lparr>uv_location = Open slot, uv_closed = VAL_NULL\<rparr>"
    have refs: "set (payload_refs ?pl) \<subseteq> reachable vm" by simp
    obtain p vm1 where b: "gc_alloc_object vm ?pl = Some (p, vm1)" "gc_frame vm vm1" "gc_ok vm1"
      "hpayload (vm_heap vm1) p = Some ?pl" "p = length ?h"
      "\<And>q. q \<in> reachable vm \<Longrightarrow> hpayload (vm_heap vm1) q = hpayload ?h q"
      "\<And>q ob. q \<noteq> p \<Longrightarrow> hget (vm_heap vm1) q = Some ob \<Longrightarrow> hget ?h q = Some ob"
      "st_live (vm_strings vm1) \<subseteq> st_live (vm_strings vm)"
      "\<And>q s. interned vm \<Longrightarrow> q \<noteq> p \<Longrightarrow> get_string (vm_heap vm1) q = Some s \<Longrightarrow> q \<in> st_live (vm_strings vm1)"
      "byte_drift vm1 + of_nat (owned_size ?pl) = byte_drift vm"
      "st_count (vm_strings vm1) = st_count (vm_strings vm)"
      by (rule gc_alloc_object_full [OF gc refs]) (auto intro: that)
    note a = b(1) [folded object_upvalue_new_def] b(2-6)
    let ?vm' = "vm1\<lparr>vm_open_upvalues := ?above @ p # ?rest\<rparr>"
    have cap: "capture_upvalue vm slot = Some (p, ?vm')"
      using walk miss a(1) by (auto simp: capture_upvalue_def)
    have alive: "p \<in> allocated (vm_heap vm1)" using a(4) by (auto simp: allocated_def hpayload_def)
    have uvs_alive: "set ?uvs \<subseteq> allocated (vm_heap vm1)"
      using a(3) gc_frame_stack(3) [OF a(2)] open_roots [of vm1] reachable_allocated [OF a(3)] by auto
    have gc': "gc_ok ?vm'" using alive uvs_alive part by (intro gc_ok_open [OF a(3)]) auto
    have same: "open_slot (vm_heap vm1) q = open_slot ?h q" if "q \<in> set ?uvs" for q
      using that a(6) open_roots [of vm] by (intro open_slot_hpayload) auto
    have slot_p: "open_slot (vm_heap vm1) p = Some slot" using a(4) by (simp add: open_slot_def get_upvalue_def)
    have ok': "upvalues_ok ?vm'"
    proof -
      have "map (open_slot (vm_heap vm1)) ?above = map (open_slot ?h) ?above"
        "map (open_slot (vm_heap vm1)) ?rest = map (open_slot ?h) ?rest"
        using same by simp_all
      then have "map (open_slot (vm_heap ?vm')) (vm_open_upvalues ?vm') =
          map Some (filter (\<lambda>l. slot < l) ls @ slot # filter (\<lambda>l. l \<le> slot) ls)"
        using maps slot_p by simp
      moreover have "\<forall>l \<in> set (filter (\<lambda>l. slot < l) ls @ slot # filter (\<lambda>l. l \<le> slot) ls). l < length (vm_stack ?vm')"
        using ls(3) slot gc_frame_stack(1) [OF a(2)] by auto
      ultimately show ?thesis using sorted_insert [OF ls(2) False] unfolding upvalues_ok_def by blast
    qed
    have none: "open_slot ?h q \<noteq> Some slot" if "q \<in> set ?uvs" for q
    proof -
      have "open_slot ?h q \<in> Some ` set ls" using that ls(1) by (metis image_eqI list.set_map)
      then show ?thesis using False by auto
    qed
    show thesis
      by (rule that [OF cap gc' ok']) (use a(6) gc_frame_stack [OF a(2)] part slot_p none in auto)
  qed
qed

end
