(* ===== verification/Handlers.thy ===== *)
theory Handlers
  imports Calls
begin

text \<open>
  The opcodes of the dispatch loop of \<^verbatim>\<open>src/vm/vm.c\<close> that work on the stack, on variables,
  attributes and indices: one definition per opcode.  A handler gets the machine and the local variable
  \<^verbatim>\<open>ip\<close>, which points past the opcode, and gives one of the three ways to leave a case of the switch:
  fall out of it, jump to \<^verbatim>\<open>flux_handle_exception\<close>, return from \<open>vm_run\<close>.
\<close>

datatype outcome = Continue flux_vm nat | Exception flux_vm nat | Return vm_result flux_vm

section \<open>The current frame and its operands\<close>

definition top_frame :: "flux_vm \<Rightarrow> call_frame option" where
  "top_frame vm = (if vm_frames vm = [] then None else Some (last (vm_frames vm)))"

definition sync_ip :: "flux_vm \<Rightarrow> nat \<Rightarrow> flux_vm option" where
  "sync_ip vm ip = do { f \<leftarrow> top_frame vm; Some (vm\<lparr>vm_frames := butlast (vm_frames vm) @ [f\<lparr>fr_ip := ip\<rparr>]\<rparr>) }"

text \<open>\<^verbatim>\<open>frame = &vm->frames[vm->frame_count - 1]; LOAD_IP();\<close>\<close>

definition load_frame :: "flux_vm \<Rightarrow> outcome option" where
  "load_frame vm = do { f \<leftarrow> top_frame vm; Some (Continue vm (fr_ip f)) }"

definition frame_code :: "flux_vm \<Rightarrow> byte list option" where
  "frame_code vm = do { f \<leftarrow> top_frame vm; fn \<leftarrow> frame_function vm f; Some (ch_code (fn_chunk fn)) }"

definition fetch_byte :: "flux_vm \<Rightarrow> nat \<Rightarrow> (nat \<times> nat) option" where
  "fetch_byte vm ip = do { code \<leftarrow> frame_code vm; (b, ip) \<leftarrow> read_byte code ip; Some (unat b, ip) }"

definition fetch_uint16 :: "flux_vm \<Rightarrow> nat \<Rightarrow> (nat \<times> nat) option" where
  "fetch_uint16 vm ip = do { code \<leftarrow> frame_code vm; (w, ip) \<leftarrow> read_uint16 code ip; Some (unat w, ip) }"

definition fetch_int16 :: "flux_vm \<Rightarrow> nat \<Rightarrow> (int \<times> nat) option" where
  "fetch_int16 vm ip = do { code \<leftarrow> frame_code vm; read_int16 code ip }"

definition read_constant :: "flux_vm \<Rightarrow> nat \<Rightarrow> flux_value option" where
  "read_constant vm idx = do {
     f \<leftarrow> top_frame vm;
     fn \<leftarrow> frame_function vm f;
     nth_opt (va_data (ch_constants (fn_chunk fn))) idx
   }"

text \<open>\<^verbatim>\<open>READ_STRING(READ_UINT16())\<close>\<close>

definition fetch_name :: "flux_vm \<Rightarrow> nat \<Rightarrow> (ptr \<times> nat) option" where
  "fetch_name vm ip = do {
     (idx, ip) \<leftarrow> fetch_uint16 vm ip;
     v \<leftarrow> read_constant vm idx;
     p \<leftarrow> as_object v;
     Some (p, ip)
   }"

definition frame_slots :: "flux_vm \<Rightarrow> nat option" where
  "frame_slots vm = map_option fr_slots (top_frame vm)"

section \<open>Leaving a case\<close>

text \<open>\<^verbatim>\<open>RUNTIME_ERROR(...)\<close>: the message becomes the exception value.\<close>

definition throw :: "flux_vm \<Rightarrow> nat \<Rightarrow> string list \<Rightarrow> outcome option" where
  "throw vm ip parts = do {
     (s, vm) \<leftarrow> object_string_copy vm (message parts);
     Some (Exception (vm\<lparr>vm_current_exception := VAL_OBJECT s, vm_has_exception := True\<rparr>) ip)
   }"

text \<open>\<^verbatim>\<open>HANDLE_NESTED_ERROR()\<close> followed by the rest of the case.\<close>

definition handle_nested_error :: "flux_vm \<Rightarrow> nat \<Rightarrow> (flux_vm \<Rightarrow> outcome option) \<Rightarrow> outcome option" where
  "handle_nested_error vm ip rest = do {
     vm \<leftarrow> (if vm_has_error vm \<and> \<not> vm_has_exception vm then do {
               (s, vm) \<leftarrow> object_string_copy vm (vm_error_msg vm);
               Some (vm\<lparr>vm_current_exception := VAL_OBJECT s, vm_has_exception := True, vm_has_error := False\<rparr>)
             }
             else Some vm);
     if vm_has_exception vm then Some (Exception vm ip) else rest vm
   }"

text \<open>What follows a \<open>vm_call_value\<close> in a case, and what follows a \<open>call_closure\<close>.\<close>

definition after_call :: "(vm_result \<times> flux_vm) \<Rightarrow> nat \<Rightarrow> outcome option" where
  "after_call = (\<lambda>(r, vm) ip.
     if r = VM_ASYNC_SPAWNED then Some (Continue vm ip)
     else if r \<noteq> VM_OK then handle_nested_error vm ip (\<lambda>vm. Some (Return r vm))
     else load_frame vm)"

definition after_closure :: "(bool \<times> flux_vm) \<Rightarrow> nat \<Rightarrow> outcome option" where
  "after_closure = (\<lambda>(ok, vm) ip.
     if \<not> ok then handle_nested_error vm ip (\<lambda>vm. Some (Return VM_RUNTIME_ERROR vm)) else load_frame vm)"

definition drop_stack :: "flux_vm \<Rightarrow> nat \<Rightarrow> flux_vm option" where
  "drop_stack vm n =
     (if length (vm_stack vm) < n then None
      else Some (vm\<lparr>vm_stack := take (length (vm_stack vm) - n) (vm_stack vm)\<rparr>))"

definition push_continue :: "flux_vm \<Rightarrow> nat \<Rightarrow> flux_value \<Rightarrow> outcome option" where
  "push_continue vm ip v = Some (Continue (vm_push vm v) ip)"

section \<open>Literals\<close>

definition op_push_null :: "flux_vm \<Rightarrow> nat \<Rightarrow> outcome option" where
  "op_push_null vm ip = push_continue vm ip VAL_NULL"

definition op_push_bool :: "flux_vm \<Rightarrow> nat \<Rightarrow> outcome option" where
  "op_push_bool vm ip = do { (b, ip) \<leftarrow> fetch_byte vm ip; push_continue vm ip (VAL_BOOL (b \<noteq> 0)) }"

definition op_push_int :: "flux_vm \<Rightarrow> nat \<Rightarrow> outcome option" where
  "op_push_int vm ip = do {
     code \<leftarrow> frame_code vm;
     (i, ip) \<leftarrow> read_int64 code ip;
     push_continue vm ip (VAL_INT i)
   }"

definition op_push_float :: "flux_vm \<Rightarrow> nat \<Rightarrow> outcome option" where
  "op_push_float vm ip = do {
     code \<leftarrow> frame_code vm;
     (d, ip) \<leftarrow> read_double code ip;
     push_continue vm ip (VAL_FLOAT d)
   }"

definition op_push_const :: "flux_vm \<Rightarrow> nat \<Rightarrow> outcome option" where
  "op_push_const vm ip = do {
     (idx, ip) \<leftarrow> fetch_uint16 vm ip;
     v \<leftarrow> read_constant vm idx;
     push_continue vm ip v
   }"

section \<open>Variables\<close>

definition op_load_local :: "flux_vm \<Rightarrow> nat \<Rightarrow> outcome option" where
  "op_load_local vm ip = do {
     (slot, ip) \<leftarrow> fetch_byte vm ip;
     base \<leftarrow> frame_slots vm;
     v \<leftarrow> nth_opt (vm_stack vm) (base + slot);
     push_continue vm ip v
   }"

definition op_store_local :: "flux_vm \<Rightarrow> nat \<Rightarrow> outcome option" where
  "op_store_local vm ip = do {
     (slot, ip) \<leftarrow> fetch_byte vm ip;
     base \<leftarrow> frame_slots vm;
     v \<leftarrow> vm_peek vm 0;
     st \<leftarrow> set_nth (vm_stack vm) (base + slot) v;
     Some (Continue (vm\<lparr>vm_stack := st\<rparr>) ip)
   }"

definition op_load_global :: "flux_vm \<Rightarrow> nat \<Rightarrow> outcome option" where
  "op_load_global vm ip = do {
     (name, ip) \<leftarrow> fetch_name vm ip;
     val \<leftarrow> vm_get_global vm name;
     case val of
       Some v \<Rightarrow> push_continue vm ip v
     | None \<Rightarrow> do {
         chars \<leftarrow> string_chars (vm_heap vm) name;
         throw vm ip [''Undefined variable '', quoted chars]
       }
   }"

definition op_store_global :: "flux_vm \<Rightarrow> nat \<Rightarrow> outcome option" where
  "op_store_global vm ip = do {
     (name, ip) \<leftarrow> fetch_name vm ip;
     v \<leftarrow> vm_peek vm 0;
     vm \<leftarrow> vm_set_global vm name v;
     Some (Continue vm ip)
   }"

definition op_define_global :: "flux_vm \<Rightarrow> nat \<Rightarrow> outcome option" where
  "op_define_global vm ip = do {
     (name, ip) \<leftarrow> fetch_name vm ip;
     v \<leftarrow> vm_peek vm 0;
     vm \<leftarrow> vm_set_global vm name v;
     (_, vm) \<leftarrow> vm_pop vm;
     Some (Continue vm ip)
   }"

text \<open>\<^verbatim>\<open>frame->closure->upvalues[slot]\<close>\<close>

definition frame_upvalue :: "flux_vm \<Rightarrow> nat \<Rightarrow> ptr option" where
  "frame_upvalue vm slot = do {
     f \<leftarrow> top_frame vm;
     cl \<leftarrow> get_closure (vm_heap vm) (fr_closure f);
     uv \<leftarrow> nth_opt (cl_upvalues cl) slot;
     uv
   }"

definition op_get_upvalue :: "flux_vm \<Rightarrow> nat \<Rightarrow> outcome option" where
  "op_get_upvalue vm ip = do {
     (slot, ip) \<leftarrow> fetch_byte vm ip;
     uv \<leftarrow> frame_upvalue vm slot;
     v \<leftarrow> upvalue_get vm uv;
     push_continue vm ip v
   }"

definition op_set_upvalue :: "flux_vm \<Rightarrow> nat \<Rightarrow> outcome option" where
  "op_set_upvalue vm ip = do {
     (slot, ip) \<leftarrow> fetch_byte vm ip;
     uv \<leftarrow> frame_upvalue vm slot;
     v \<leftarrow> vm_peek vm 0;
     vm \<leftarrow> upvalue_set vm uv v;
     Some (Continue vm ip)
   }"

definition op_close_upvalue :: "flux_vm \<Rightarrow> nat \<Rightarrow> outcome option" where
  "op_close_upvalue vm ip = do {
     vm \<leftarrow> close_upvalues vm (length (vm_stack vm) - 1);
     (_, vm) \<leftarrow> vm_pop vm;
     Some (Continue vm ip)
   }"

definition op_pop :: "flux_vm \<Rightarrow> nat \<Rightarrow> outcome option" where
  "op_pop vm ip = do { (_, vm) \<leftarrow> vm_pop vm; Some (Continue vm ip) }"

definition op_dup :: "flux_vm \<Rightarrow> nat \<Rightarrow> outcome option" where
  "op_dup vm ip = do { v \<leftarrow> vm_peek vm 0; push_continue vm ip v }"

section \<open>Attributes\<close>

text \<open>\<open>runtime_get_builtin_attr\<close> or the error of a value without the attribute.\<close>

definition builtin_attr :: "ctx \<Rightarrow> flux_vm \<Rightarrow> nat \<Rightarrow> flux_value \<Rightarrow> ptr \<Rightarrow> outcome option" where
  "builtin_attr c vm ip obj_val name = do {
     (found, vm) \<leftarrow> env_get_builtin_attr (c_env c) obj_val name vm;
     case found of
       Some attr \<Rightarrow> push_continue vm ip attr
     | None \<Rightarrow> do {
         t \<leftarrow> value_type_name (vm_heap vm) obj_val;
         chars \<leftarrow> string_chars (vm_heap vm) name;
         throw vm ip [quoted t, '' has no attribute '', quoted chars]
       }
   }"

definition get_attr_instance :: "flux_vm \<Rightarrow> nat \<Rightarrow> ptr \<Rightarrow> ptr \<Rightarrow> outcome option" where
  "get_attr_instance vm ip inst name = do {
     field \<leftarrow> instance_fields_get vm inst name;
     case field of
       Some v \<Rightarrow> push_continue vm ip v
     | None \<Rightarrow> do {
         i \<leftarrow> get_instance (vm_heap vm) inst;
         found \<leftarrow> class_methods_get vm (i_klass i) name;
         case found of
           Some m \<Rightarrow> do {
             method \<leftarrow> as_object m;
             (bm, vm) \<leftarrow> object_bound_method_new vm (VAL_OBJECT inst) method;
             push_continue vm ip (VAL_OBJECT bm)
           }
         | None \<Rightarrow> do {
             chars \<leftarrow> string_chars (vm_heap vm) name;
             throw vm ip [''Undefined property '', quoted chars]
           }
       }
   }"

definition op_get_attr :: "ctx \<Rightarrow> flux_vm \<Rightarrow> nat \<Rightarrow> outcome option" where
  "op_get_attr c vm ip = do {
     (name, ip) \<leftarrow> fetch_name vm ip;
     (obj_val, vm) \<leftarrow> vm_pop vm;
     obj \<leftarrow> view (vm_heap vm) obj_val;
     case (obj_val, obj) of
       (VAL_OBJECT p, Some (OBJ_INSTANCE _)) \<Rightarrow> get_attr_instance vm ip p name
     | (VAL_OBJECT p, Some (OBJ_CLASS _)) \<Rightarrow> do {
         found \<leftarrow> class_methods_get vm p name;
         case found of
           Some m \<Rightarrow> push_continue vm ip m
         | None \<Rightarrow> do {
             chars \<leftarrow> string_chars (vm_heap vm) name;
             throw vm ip [''Class has no attribute '', quoted chars]
           }
       }
     | (VAL_OBJECT p, Some (OBJ_DICT _)) \<Rightarrow> do {
         field \<leftarrow> heap_dict_get (vm_heap vm) p name;
         case field of
           Some v \<Rightarrow> push_continue vm ip v
         | None \<Rightarrow> builtin_attr c vm ip obj_val name
       }
     | (VAL_OBJECT p, Some (OBJ_STRING _)) \<Rightarrow> builtin_attr c vm ip obj_val name
     | (VAL_OBJECT p, Some (OBJ_LIST _)) \<Rightarrow> builtin_attr c vm ip obj_val name
     | _ \<Rightarrow> do {
         t \<leftarrow> value_type_name (vm_heap vm) obj_val;
         throw vm ip [quoted t, '' has no attributes'']
       }
   }"

definition op_set_attr :: "flux_vm \<Rightarrow> nat \<Rightarrow> outcome option" where
  "op_set_attr vm ip = do {
     (name, ip) \<leftarrow> fetch_name vm ip;
     (value, vm) \<leftarrow> vm_pop vm;
     (obj_val, vm) \<leftarrow> vm_pop vm;
     obj \<leftarrow> view (vm_heap vm) obj_val;
     case obj of
       Some (OBJ_INSTANCE i) \<Rightarrow> do {
         fields \<leftarrow> i_fields i;
         vm \<leftarrow> vm_dict_set vm fields name value;
         Some (Continue vm ip)
       }
     | _ \<Rightarrow> throw vm ip [''Only instances have fields'']
   }"

end
