(* ===== verification/IndexOps.thy ===== *)
theory IndexOps
  imports Handlers
begin

text \<open>Indexing, index assignment, slices and iteration: the cases \<^verbatim>\<open>OP_GET_INDEX\<close> to \<^verbatim>\<open>OP_GET_ITER\<close> of
  \<^verbatim>\<open>src/vm/vm.c\<close>.\<close>

section \<open>Index\<close>

text \<open>\<^verbatim>\<open>if (idx < 0) idx += count\<close>\<close>

definition wrap_index :: "int64 \<Rightarrow> nat \<Rightarrow> int" where
  "wrap_index w count = (if sint w < 0 then sint w + int count else sint w)"

definition in_bounds :: "int \<Rightarrow> nat \<Rightarrow> bool" where
  "in_bounds idx count \<longleftrightarrow> 0 \<le> idx \<and> idx < int count"

definition get_index_list :: "flux_vm \<Rightarrow> nat \<Rightarrow> flux_list \<Rightarrow> int64 \<Rightarrow> outcome option" where
  "get_index_list vm ip lst w =
     (let idx = wrap_index w (va_count (elements lst)) in
      if in_bounds idx (va_count (elements lst))
      then push_continue vm ip (va_data (elements lst) ! nat idx)
      else throw vm ip [''List index '', show_int idx, '' out of range (len='', show_nat (va_count (elements lst)), '')''])"

definition get_index_string :: "flux_vm \<Rightarrow> nat \<Rightarrow> flux_string \<Rightarrow> int64 \<Rightarrow> outcome option" where
  "get_index_string vm ip str w =
     (let idx = wrap_index w (str_length str) in
      if in_bounds idx (str_length str)
      then do {
        ch \<leftarrow> nth_opt (str_chars str) (nat idx);
        (s, vm) \<leftarrow> object_string_copy vm [ch];
        push_continue vm ip (VAL_OBJECT s)
      }
      else throw vm ip [''String index out of range''])"

definition get_index_instance :: "flux_vm \<Rightarrow> nat \<Rightarrow> flux_value \<Rightarrow> ptr \<Rightarrow> flux_value \<Rightarrow> outcome option" where
  "get_index_instance vm ip obj_val p idx_val = do {
     vm \<leftarrow> Some (vm_push (vm_push vm obj_val) idx_val);
     (get_key, vm) \<leftarrow> object_string_copy vm ''on_get'';
     i \<leftarrow> get_instance (vm_heap vm) p;
     found \<leftarrow> class_methods_get vm (i_klass i) get_key;
     vm \<leftarrow> drop_stack vm 2;
     case found of
       None \<Rightarrow> do {
         chars \<leftarrow> class_name vm (i_klass i);
         throw vm ip [quoted chars, '' instance does not support indexing (no on_get method)'']
       }
     | Some m \<Rightarrow> do {
         vm \<leftarrow> sync_ip (vm_push (vm_push vm obj_val) idx_val) ip;
         cl \<leftarrow> as_object m;
         r \<leftarrow> call_closure vm cl 1;
         after_closure r ip
       }
   }"

definition op_get_index :: "flux_vm \<Rightarrow> nat \<Rightarrow> outcome option" where
  "op_get_index vm ip = do {
     (idx_val, vm) \<leftarrow> vm_pop vm;
     (obj_val, vm) \<leftarrow> vm_pop vm;
     obj \<leftarrow> view (vm_heap vm) obj_val;
     case (obj_val, obj) of
       (VAL_OBJECT p, Some (OBJ_LIST lst)) \<Rightarrow>
         (case idx_val of VAL_INT w \<Rightarrow> get_index_list vm ip lst w | _ \<Rightarrow> throw vm ip [''Invalid index operation''])
     | (VAL_OBJECT p, Some (OBJ_DICT _)) \<Rightarrow> do {
         key \<leftarrow> view (vm_heap vm) idx_val;
         case (idx_val, key) of
           (VAL_OBJECT k, Some (OBJ_STRING _)) \<Rightarrow> do {
             found \<leftarrow> heap_dict_get (vm_heap vm) p k;
             case found of
               Some v \<Rightarrow> push_continue vm ip v
             | None \<Rightarrow> throw vm ip [''Key not found in dict'']
           }
         | _ \<Rightarrow> throw vm ip [''Invalid index operation'']
       }
     | (VAL_OBJECT p, Some (OBJ_STRING str)) \<Rightarrow>
         (case idx_val of VAL_INT w \<Rightarrow> get_index_string vm ip str w | _ \<Rightarrow> throw vm ip [''Invalid index operation''])
     | (VAL_OBJECT p, Some (OBJ_INSTANCE _)) \<Rightarrow> get_index_instance vm ip obj_val p idx_val
     | _ \<Rightarrow> throw vm ip [''Invalid index operation'']
   }"

section \<open>Index assignment\<close>

definition set_index_list :: "flux_vm \<Rightarrow> nat \<Rightarrow> ptr \<Rightarrow> flux_list \<Rightarrow> int64 \<Rightarrow> flux_value \<Rightarrow> outcome option" where
  "set_index_list vm ip p lst w val =
     (let idx = wrap_index w (va_count (elements lst)) in
      if in_bounds idx (va_count (elements lst))
      then do {
        vm \<leftarrow> vm_hput vm p (OBJ_LIST (lst\<lparr>elements := (elements lst)\<lparr>va_data := (va_data (elements lst))[nat idx := val]\<rparr>\<rparr>));
        Some (Continue vm ip)
      }
      else throw vm ip [''List index out of range''])"

definition set_index_instance ::
  "ctx \<Rightarrow> flux_vm \<Rightarrow> nat \<Rightarrow> flux_value \<Rightarrow> ptr \<Rightarrow> flux_value \<Rightarrow> flux_value \<Rightarrow> outcome option" where
  "set_index_instance c vm ip obj_val p idx_val val = do {
     vm \<leftarrow> Some (vm_push (vm_push (vm_push vm obj_val) idx_val) val);
     (set_key, vm) \<leftarrow> object_string_copy vm ''on_set'';
     i \<leftarrow> get_instance (vm_heap vm) p;
     found \<leftarrow> class_methods_get vm (i_klass i) set_key;
     vm \<leftarrow> drop_stack vm 3;
     case found of
       None \<Rightarrow> do {
         chars \<leftarrow> class_name vm (i_klass i);
         throw vm ip [quoted chars, '' instance does not support index assignment (no on_set method)'']
       }
     | Some m \<Rightarrow> do {
         vm \<leftarrow> sync_ip vm ip;
         method \<leftarrow> as_object m;
         (bm, vm) \<leftarrow> object_bound_method_new vm obj_val method;
         (_, vm) \<leftarrow> vm_invoke c vm (VAL_OBJECT bm) [idx_val, val];
         handle_nested_error vm ip load_frame
       }
   }"

definition op_set_index :: "ctx \<Rightarrow> flux_vm \<Rightarrow> nat \<Rightarrow> outcome option" where
  "op_set_index c vm ip = do {
     (val, vm) \<leftarrow> vm_pop vm;
     (idx_val, vm) \<leftarrow> vm_pop vm;
     (obj_val, vm) \<leftarrow> vm_pop vm;
     obj \<leftarrow> view (vm_heap vm) obj_val;
     case (obj_val, obj) of
       (VAL_OBJECT p, Some (OBJ_LIST lst)) \<Rightarrow>
         (case idx_val of VAL_INT w \<Rightarrow> set_index_list vm ip p lst w val | _ \<Rightarrow> throw vm ip [''Invalid index assignment''])
     | (VAL_OBJECT p, Some (OBJ_DICT _)) \<Rightarrow> do {
         key \<leftarrow> view (vm_heap vm) idx_val;
         case (idx_val, key) of
           (VAL_OBJECT k, Some (OBJ_STRING _)) \<Rightarrow> do { vm \<leftarrow> vm_dict_set vm p k val; Some (Continue vm ip) }
         | _ \<Rightarrow> throw vm ip [''Invalid index assignment'']
       }
     | (VAL_OBJECT p, Some (OBJ_INSTANCE _)) \<Rightarrow> set_index_instance c vm ip obj_val p idx_val val
     | _ \<Rightarrow> throw vm ip [''Invalid index assignment'']
   }"

section \<open>Slices\<close>

definition slice_operand :: "flux_value \<Rightarrow> int \<Rightarrow> int option" where
  "slice_operand v dflt = (if value_is_null v then Some dflt else map_option int_of_int64 (value_as_int v))"

text \<open>The bounds of a slice; for a negative step without an end, \<^verbatim>\<open>-(len + 1)\<close> stands for "past the start".\<close>

definition slice_bounds :: "int \<Rightarrow> int \<Rightarrow> flux_value \<Rightarrow> flux_value \<Rightarrow> (int \<times> int) option" where
  "slice_bounds step len start_val end_val =
     (if 0 < step then do {
        start \<leftarrow> slice_operand start_val 0;
        e \<leftarrow> slice_operand end_val len;
        let start = (if start < 0 then start + len else start);
        let e = (if e < 0 then e + len else e);
        Some (if start < 0 then 0 else start, if len < e then len else e)
      }
      else do {
        start \<leftarrow> slice_operand start_val (len - 1);
        e \<leftarrow> slice_operand end_val (- (len + 1));
        let start = (if start < 0 then start + len else start);
        let e = (if \<not> value_is_null end_val \<and> e < 0 then e + len else e);
        Some (if len \<le> start then len - 1 else start, e)
      })"

text \<open>The values of the loop variable \<^verbatim>\<open>int i\<close>; \<^verbatim>\<open>i += step\<close> must stay in range.\<close>

function slice_indices :: "int \<Rightarrow> int \<Rightarrow> int \<Rightarrow> int list option" where
  "slice_indices i e step =
     (if (0 < step \<and> i < e) \<or> (step < 0 \<and> e < i)
      then if - (2 ^ 31) \<le> i + step \<and> i + step < 2 ^ 31
           then map_option ((#) i) (slice_indices (i + step) e step) else None
      else Some [])"
  by pat_completeness auto
termination
  by (relation "measure (\<lambda>(i, e, step). nat (if 0 < step then e - i else i - e))") auto

declare slice_indices.simps [simp del]

text \<open>
  \<open>malloc(count + 1)\<close>, the characters in range, a NUL, and then \<open>count\<close> bytes are copied: when fewer
  than \<open>count - 1\<close> characters were written, the copy reads memory that was never initialised.
\<close>

definition slice_string :: "flux_string \<Rightarrow> int \<Rightarrow> int list \<Rightarrow> string option" where
  "slice_string str step is =
     (let len = int (str_length str) in
      if 0 < step then those (map (\<lambda>i. nth_opt (str_chars str) (nat i)) is)
      else do {
        buf \<leftarrow> those (map (\<lambda>i. nth_opt (str_chars str) (nat i)) (filter (\<lambda>i. 0 \<le> i \<and> i < len) is));
        if length is \<le> length buf + 1 then Some (take (length is) (buf @ [CHR 0x00])) else None
      })"

definition op_slice_string ::
  "flux_vm \<Rightarrow> nat \<Rightarrow> flux_value \<Rightarrow> flux_string \<Rightarrow> int \<Rightarrow> flux_value \<Rightarrow> flux_value \<Rightarrow> outcome option" where
  "op_slice_string vm ip obj_val str step start_val end_val = do {
     (start, e) \<leftarrow> slice_bounds step (int (str_length str)) start_val end_val;
     is \<leftarrow> slice_indices start e step;
     buf \<leftarrow> slice_string str step is;
     (res, vm) \<leftarrow> object_string_copy (vm_push vm obj_val) buf;
     (_, vm) \<leftarrow> vm_pop vm;
     push_continue vm ip (VAL_OBJECT res)
   }"

text \<open>The elements are appended with \<open>value_array_write\<close>, not with \<open>gc_value_array_write\<close>.\<close>

definition op_slice_list ::
  "flux_vm \<Rightarrow> nat \<Rightarrow> flux_value \<Rightarrow> ptr \<Rightarrow> int \<Rightarrow> flux_value \<Rightarrow> flux_value \<Rightarrow> outcome option" where
  "op_slice_list vm ip obj_val p step start_val end_val = do {
     src \<leftarrow> get_list (vm_heap vm) p;
     (start, e) \<leftarrow> slice_bounds step (int (va_count (elements src))) start_val end_val;
     (result, vm) \<leftarrow> object_list_new (vm_push vm obj_val);
     vm \<leftarrow> Some (vm_push vm (VAL_OBJECT result));
     src \<leftarrow> get_list (vm_heap vm) p;
     is \<leftarrow> slice_indices start e step;
     let picked = map (\<lambda>i. va_data (elements src) ! nat i) (filter (\<lambda>i. in_bounds i (va_count (elements src))) is);
     dst \<leftarrow> get_list (vm_heap vm) result;
     vm \<leftarrow> vm_hput vm result (OBJ_LIST (dst\<lparr>elements := fold (\<lambda>v arr. value_array_write arr v) picked (elements dst)\<rparr>));
     (_, vm) \<leftarrow> vm_pop vm;
     (_, vm) \<leftarrow> vm_pop vm;
     push_continue vm ip (VAL_OBJECT result)
   }"

definition op_slice :: "flux_vm \<Rightarrow> nat \<Rightarrow> outcome option" where
  "op_slice vm ip = do {
     (step_val, vm) \<leftarrow> vm_pop vm;
     (end_val, vm) \<leftarrow> vm_pop vm;
     (start_val, vm) \<leftarrow> vm_pop vm;
     (obj_val, vm) \<leftarrow> vm_pop vm;
     step \<leftarrow> slice_operand step_val 1;
     if step = 0 then throw vm ip [''Slice step cannot be zero'']
     else do {
       obj \<leftarrow> view (vm_heap vm) obj_val;
       case (obj_val, obj) of
         (_, Some (OBJ_STRING str)) \<Rightarrow> op_slice_string vm ip obj_val str step start_val end_val
       | (VAL_OBJECT p, Some (OBJ_LIST _)) \<Rightarrow> op_slice_list vm ip obj_val p step start_val end_val
       | _ \<Rightarrow> throw vm ip [''Slice not supported on this type'']
     }
   }"

section \<open>Iteration\<close>

definition op_get_iter :: "flux_vm \<Rightarrow> nat \<Rightarrow> outcome option" where
  "op_get_iter vm ip = do {
     obj_val \<leftarrow> vm_peek vm 0;
     obj \<leftarrow> view (vm_heap vm) obj_val;
     case obj of
       Some (OBJ_INSTANCE i) \<Rightarrow> do {
         (iter_key, vm) \<leftarrow> object_string_copy vm ''on_iter'';
         found \<leftarrow> class_methods_get vm (i_klass i) iter_key;
         case found of
           Some m \<Rightarrow> do {
             vm \<leftarrow> sync_ip vm ip;
             cl \<leftarrow> as_object m;
             r \<leftarrow> call_closure vm cl 0;
             after_closure r ip
           }
         | None \<Rightarrow> Some (Continue vm ip)
       }
     | _ \<Rightarrow> Some (Continue vm ip)
   }"

end
