(* ===== verification/CoreOps.thy ===== *)
theory CoreOps
  imports IndexOps
begin

text \<open>Operators, jumps, collections, functions and classes: the cases \<^verbatim>\<open>OP_ADD\<close> to \<^verbatim>\<open>OP_GET_SUPER\<close> of
  \<^verbatim>\<open>src/vm/vm.c\<close>.\<close>

section \<open>Operators\<close>

text \<open>One turn of the copy loops of a list concatenation: the source at distance \<open>d\<close>, the result on top.\<close>

fun append_elements :: "nat list \<Rightarrow> nat \<Rightarrow> flux_vm \<Rightarrow> flux_vm option" where
  "append_elements [] d vm = Some vm"
| "append_elements (i # is) d vm = do {
     src_val \<leftarrow> vm_peek vm d;
     src \<leftarrow> as_object src_val;
     lst \<leftarrow> get_list (vm_heap vm) src;
     v \<leftarrow> nth_opt (va_data (elements lst)) i;
     result_val \<leftarrow> vm_peek vm 0;
     result \<leftarrow> as_object result_val;
     vm \<leftarrow> gc_value_array_write vm result v;
     append_elements is d vm
   }"

definition list_length :: "flux_vm \<Rightarrow> nat \<Rightarrow> nat option" where
  "list_length vm d = do {
     v \<leftarrow> vm_peek vm d;
     p \<leftarrow> as_object v;
     lst \<leftarrow> get_list (vm_heap vm) p;
     Some (va_count (elements lst))
   }"

definition op_add_lists :: "flux_vm \<Rightarrow> nat \<Rightarrow> outcome option" where
  "op_add_lists vm ip = do {
     (result, vm) \<leftarrow> object_list_new vm;
     vm \<leftarrow> Some (vm_push vm (VAL_OBJECT result));
     na \<leftarrow> list_length vm 2;
     nb \<leftarrow> list_length vm 1;
     vm \<leftarrow> append_elements [0 ..< na] 2 vm;
     vm \<leftarrow> append_elements [0 ..< nb] 1 vm;
     (list_val, vm) \<leftarrow> vm_pop vm;
     (_, vm) \<leftarrow> vm_pop vm;
     (_, vm) \<leftarrow> vm_pop vm;
     push_continue vm ip list_val
   }"

definition is_list :: "payload option \<Rightarrow> bool" where
  "is_list obj = (case obj of Some (OBJ_LIST _) \<Rightarrow> True | _ \<Rightarrow> False)"

definition is_string_obj :: "payload option \<Rightarrow> bool" where
  "is_string_obj obj = (case obj of Some (OBJ_STRING _) \<Rightarrow> True | _ \<Rightarrow> False)"

text \<open>\<open>value_add\<close>: the inner option is the \<^verbatim>\<open>value_null()\<close> that signals an operand error.\<close>

definition value_add :: "flux_vm \<Rightarrow> flux_value \<Rightarrow> flux_value \<Rightarrow> (flux_value option \<times> flux_vm) option" where
  "value_add vm a b = do {
     r \<leftarrow> numeric_binop (+) dbl_add a b;
     case r of
       Some v \<Rightarrow> Some (Some v, vm)
     | None \<Rightarrow> do {
         oa \<leftarrow> view (vm_heap vm) (coerce_bool a);
         ob \<leftarrow> (if is_string_obj oa then view (vm_heap vm) (coerce_bool b) else Some None);
         case (a, b) of
           (VAL_OBJECT pa, VAL_OBJECT pb) \<Rightarrow>
             if is_string_obj oa \<and> is_string_obj ob then do {
               (s, vm) \<leftarrow> object_string_concat vm pa pb;
               Some (Some (VAL_OBJECT s), vm)
             }
             else Some (None, vm)
         | _ \<Rightarrow> Some (None, vm)
       }
   }"

definition op_add :: "flux_vm \<Rightarrow> nat \<Rightarrow> outcome option" where
  "op_add vm ip = do {
     a \<leftarrow> vm_peek vm 1;
     oa \<leftarrow> view (vm_heap vm) a;
     b \<leftarrow> vm_peek vm 0;
     ob \<leftarrow> (if is_list oa then view (vm_heap vm) b else Some None);
     if is_list oa \<and> is_list ob then op_add_lists vm ip
     else do {
       (b, vm) \<leftarrow> vm_pop vm;
       (a, vm) \<leftarrow> vm_pop vm;
       (r, vm) \<leftarrow> value_add vm a b;
       case r of
         Some v \<Rightarrow> push_continue vm ip v
       | None \<Rightarrow> do {
           ta \<leftarrow> value_type_name (vm_heap vm) a;
           tb \<leftarrow> value_type_name (vm_heap vm) b;
           throw vm ip [''Unsupported operand types for +: '', ta, '' and '', tb]
         }
     }
   }"

text \<open>The shape of every binary operator: two operands popped, a result pushed or an error thrown.\<close>

definition binary_op ::
  "(flux_value \<Rightarrow> flux_value \<Rightarrow> flux_value option option) \<Rightarrow> string \<Rightarrow> flux_vm \<Rightarrow> nat \<Rightarrow> outcome option" where
  "binary_op f err vm ip = do {
     (b, vm) \<leftarrow> vm_pop vm;
     (a, vm) \<leftarrow> vm_pop vm;
     r \<leftarrow> f a b;
     case r of Some v \<Rightarrow> push_continue vm ip v | None \<Rightarrow> throw vm ip [err]
   }"

definition op_sub :: "flux_vm \<Rightarrow> nat \<Rightarrow> outcome option" where
  "op_sub = binary_op (numeric_binop (-) dbl_sub) ''Operands must be numbers''"

definition op_mul :: "flux_vm \<Rightarrow> nat \<Rightarrow> outcome option" where
  "op_mul = binary_op (numeric_binop (*) dbl_mul) ''Operands must be numbers''"

definition division_op ::
  "(flux_value \<Rightarrow> flux_value \<Rightarrow> op_result) \<Rightarrow> string \<Rightarrow> string \<Rightarrow> flux_vm \<Rightarrow> nat \<Rightarrow> outcome option" where
  "division_op f zero err vm ip = do {
     (b, vm) \<leftarrow> vm_pop vm;
     (a, vm) \<leftarrow> vm_pop vm;
     r \<leftarrow> f a b;
     case r of
       Inr v \<Rightarrow> push_continue vm ip v
     | Inl Zero_Division \<Rightarrow> throw vm ip [zero]
     | Inl Operand_Error \<Rightarrow> throw vm ip [err]
   }"

definition op_div :: "flux_vm \<Rightarrow> nat \<Rightarrow> outcome option" where
  "op_div = division_op value_div ''Division by zero'' ''Operands must be numbers for /''"

definition op_mod :: "flux_vm \<Rightarrow> nat \<Rightarrow> outcome option" where
  "op_mod = division_op value_mod ''Modulo by zero'' ''Operands must be numbers for %''"

definition op_pow :: "ctx \<Rightarrow> flux_vm \<Rightarrow> nat \<Rightarrow> outcome option" where
  "op_pow c = division_op (value_pow (env_pow (c_env c))) [] ''Operands must be numbers for **''"

definition op_floor_div :: "flux_vm \<Rightarrow> nat \<Rightarrow> outcome option" where
  "op_floor_div = division_op value_floor_div ''Division by zero'' ''Operands must be numbers for //''"

definition unary_op ::
  "(flux_value \<Rightarrow> flux_value option option) \<Rightarrow> string \<Rightarrow> flux_vm \<Rightarrow> nat \<Rightarrow> outcome option" where
  "unary_op f err vm ip = do {
     (v, vm) \<leftarrow> vm_pop vm;
     r \<leftarrow> f v;
     case r of Some v \<Rightarrow> push_continue vm ip v | None \<Rightarrow> throw vm ip [err]
   }"

definition op_negate :: "flux_vm \<Rightarrow> nat \<Rightarrow> outcome option" where
  "op_negate = unary_op value_negate ''Operand must be a number for unary -''"

definition op_bit_and :: "flux_vm \<Rightarrow> nat \<Rightarrow> outcome option" where
  "op_bit_and = binary_op value_bit_and ''Operands must be int for &''"

definition op_bit_or :: "flux_vm \<Rightarrow> nat \<Rightarrow> outcome option" where
  "op_bit_or = binary_op value_bit_or ''Operands must be int for |''"

definition op_bit_xor :: "flux_vm \<Rightarrow> nat \<Rightarrow> outcome option" where
  "op_bit_xor = binary_op value_bit_xor ''Operands must be int for ^''"

definition op_bit_not :: "flux_vm \<Rightarrow> nat \<Rightarrow> outcome option" where
  "op_bit_not = unary_op value_bit_not ''Operand must be int for ~''"

definition op_shl :: "flux_vm \<Rightarrow> nat \<Rightarrow> outcome option" where
  "op_shl = binary_op value_shl ''Operands must be int for <<''"

definition op_shr :: "flux_vm \<Rightarrow> nat \<Rightarrow> outcome option" where
  "op_shr = binary_op value_shr ''Operands must be int for >>''"

text \<open>\<open>==\<close> and \<open>!=\<close>: an instance may define \<^verbatim>\<open>equals\<close>; the machine has popped both operands by then.\<close>

definition op_equality :: "bool \<Rightarrow> ctx \<Rightarrow> flux_vm \<Rightarrow> nat \<Rightarrow> outcome option" where
  "op_equality negate c vm ip = do {
     (b, vm) \<leftarrow> vm_pop vm;
     (a, vm) \<leftarrow> vm_pop vm;
     let structural = (\<lambda>vm. do {
           eq \<leftarrow> value_equal (vm_heap vm) a b;
           push_continue vm ip (VAL_BOOL (if negate then \<not> eq else eq))
         });
     obj \<leftarrow> view (vm_heap vm) a;
     case obj of
       Some (OBJ_INSTANCE i) \<Rightarrow> do {
         (eq_key, vm) \<leftarrow> object_string_copy vm ''equals'';
         found \<leftarrow> class_methods_get vm (i_klass i) eq_key;
         case found of
           None \<Rightarrow> structural vm
         | Some m \<Rightarrow> do {
             method \<leftarrow> as_object m;
             (bm, vm) \<leftarrow> object_bound_method_new vm a method;
             (eq_result, vm) \<leftarrow> vm_invoke c vm (VAL_OBJECT bm) [b];
             if vm_has_error vm then Some (Return VM_RUNTIME_ERROR vm)
             else do {
               t \<leftarrow> value_is_truthy (vm_heap vm) eq_result;
               push_continue vm ip (VAL_BOOL (if negate then \<not> t else t))
             }
           }
       }
     | _ \<Rightarrow> structural vm
   }"

definition op_eq :: "ctx \<Rightarrow> flux_vm \<Rightarrow> nat \<Rightarrow> outcome option" where
  "op_eq = op_equality False"

definition op_neq :: "ctx \<Rightarrow> flux_vm \<Rightarrow> nat \<Rightarrow> outcome option" where
  "op_neq = op_equality True"

definition op_compare ::
  "(double \<Rightarrow> double \<Rightarrow> bool) \<Rightarrow> (int \<Rightarrow> int \<Rightarrow> bool) \<Rightarrow> flux_vm \<Rightarrow> nat \<Rightarrow> outcome option" where
  "op_compare dop iop vm ip = do {
     (b, vm) \<leftarrow> vm_pop vm;
     (a, vm) \<leftarrow> vm_pop vm;
     r \<leftarrow> compare_op dop iop (vm_heap vm) a b;
     case r of
       Some t \<Rightarrow> push_continue vm ip (VAL_BOOL t)
     | None \<Rightarrow> throw vm ip [''Operands must be comparable types for comparison'']
   }"

definition op_lt :: "flux_vm \<Rightarrow> nat \<Rightarrow> outcome option" where
  "op_lt = op_compare dbl_lt (<)"

definition op_lte :: "flux_vm \<Rightarrow> nat \<Rightarrow> outcome option" where
  "op_lte = op_compare dbl_le (\<le>)"

definition op_gt :: "flux_vm \<Rightarrow> nat \<Rightarrow> outcome option" where
  "op_gt = op_compare (\<lambda>x y. dbl_lt y x) (>)"

definition op_gte :: "flux_vm \<Rightarrow> nat \<Rightarrow> outcome option" where
  "op_gte = op_compare (\<lambda>x y. dbl_le y x) (\<ge>)"

definition op_not :: "flux_vm \<Rightarrow> nat \<Rightarrow> outcome option" where
  "op_not vm ip = do {
     (v, vm) \<leftarrow> vm_pop vm;
     t \<leftarrow> value_is_truthy (vm_heap vm) v;
     push_continue vm ip (VAL_BOOL (\<not> t))
   }"

section \<open>Jumps\<close>

definition jump_to :: "flux_vm \<Rightarrow> int \<Rightarrow> outcome option" where
  "jump_to vm target = (if target < 0 then None else Some (Continue vm (nat target)))"

text \<open>\<open>and\<close>, \<open>or\<close> and the conditional jump test the top of the stack and leave it there.\<close>

definition jump_when :: "bool \<Rightarrow> flux_vm \<Rightarrow> nat \<Rightarrow> outcome option" where
  "jump_when truth vm ip = do {
     (offset, ip) \<leftarrow> fetch_int16 vm ip;
     v \<leftarrow> vm_peek vm 0;
     t \<leftarrow> value_is_truthy (vm_heap vm) v;
     if t = truth then jump_to vm (int ip + offset) else Some (Continue vm ip)
   }"

definition op_and :: "flux_vm \<Rightarrow> nat \<Rightarrow> outcome option" where
  "op_and = jump_when False"

definition op_or :: "flux_vm \<Rightarrow> nat \<Rightarrow> outcome option" where
  "op_or = jump_when True"

definition op_jump_if_false :: "flux_vm \<Rightarrow> nat \<Rightarrow> outcome option" where
  "op_jump_if_false = jump_when False"

definition op_jump :: "flux_vm \<Rightarrow> nat \<Rightarrow> outcome option" where
  "op_jump vm ip = do { (offset, ip) \<leftarrow> fetch_int16 vm ip; jump_to vm (int ip + offset) }"

definition op_loop :: "flux_vm \<Rightarrow> nat \<Rightarrow> outcome option" where
  "op_loop vm ip = do { (offset, ip) \<leftarrow> fetch_int16 vm ip; jump_to vm (int ip - offset) }"

section \<open>Collections\<close>

text \<open>The first list is pushed, popped and dropped; the elements stay on the stack below the second.\<close>

fun fill_list :: "nat list \<Rightarrow> ptr \<Rightarrow> flux_vm \<Rightarrow> flux_vm option" where
  "fill_list [] lst vm = Some vm"
| "fill_list (i # is) lst vm = do {
     v \<leftarrow> nth_opt (vm_stack vm) i;
     vm \<leftarrow> gc_value_array_write vm lst v;
     fill_list is lst vm
   }"

definition op_create_list :: "flux_vm \<Rightarrow> nat \<Rightarrow> outcome option" where
  "op_create_list vm ip = do {
     (count, ip) \<leftarrow> fetch_uint16 vm ip;
     (lst, vm) \<leftarrow> object_list_new vm;
     (_, vm) \<leftarrow> vm_pop (vm_push vm (VAL_OBJECT lst));
     if length (vm_stack vm) < count then None
     else do {
       let elems = length (vm_stack vm) - count;
       (lst, vm) \<leftarrow> object_list_new vm;
       vm \<leftarrow> fill_list [elems ..< elems + count] lst (vm_push vm (VAL_OBJECT lst));
       (list_val, vm) \<leftarrow> vm_pop vm;
       vm \<leftarrow> drop_stack vm count;
       push_continue vm ip list_val
     }
   }"

text \<open>The pairs; False when a key is not a string.\<close>

fun fill_dict :: "nat list \<Rightarrow> ptr \<Rightarrow> flux_vm \<Rightarrow> (bool \<times> flux_vm) option" where
  "fill_dict [] d vm = Some (True, vm)"
| "fill_dict (i # is) d vm = do {
     key_val \<leftarrow> nth_opt (vm_stack vm) i;
     val_val \<leftarrow> nth_opt (vm_stack vm) (i + 1);
     key \<leftarrow> view (vm_heap vm) key_val;
     case (key_val, key) of
       (VAL_OBJECT k, Some (OBJ_STRING _)) \<Rightarrow> do { vm \<leftarrow> vm_dict_set vm d k val_val; fill_dict is d vm }
     | _ \<Rightarrow> Some (False, vm)
   }"

definition op_create_dict :: "flux_vm \<Rightarrow> nat \<Rightarrow> outcome option" where
  "op_create_dict vm ip = do {
     (pairs, ip) \<leftarrow> fetch_uint16 vm ip;
     (d, vm) \<leftarrow> object_dict_new vm;
     (_, vm) \<leftarrow> vm_pop (vm_push vm (VAL_OBJECT d));
     if length (vm_stack vm) < pairs * 2 then None
     else do {
       let kv = length (vm_stack vm) - pairs * 2;
       (d, vm) \<leftarrow> object_dict_new vm;
       (ok, vm) \<leftarrow> fill_dict (map (\<lambda>i. kv + i * 2) [0 ..< pairs]) d (vm_push vm (VAL_OBJECT d));
       if \<not> ok then throw vm ip [''Dict keys must be strings'']
       else do {
         (dict_val, vm) \<leftarrow> vm_pop vm;
         vm \<leftarrow> drop_stack vm (pairs * 2);
         push_continue vm ip dict_val
       }
     }
   }"

section \<open>Functions\<close>

definition op_call :: "ctx \<Rightarrow> flux_vm \<Rightarrow> nat \<Rightarrow> outcome option" where
  "op_call c vm ip = do {
     (argc, ip) \<leftarrow> fetch_byte vm ip;
     vm \<leftarrow> sync_ip vm ip;
     callee \<leftarrow> vm_peek vm argc;
     r \<leftarrow> vm_call_value c vm callee argc;
     after_call r ip
   }"

definition cut_stack :: "flux_vm \<Rightarrow> nat \<Rightarrow> flux_vm option" where
  "cut_stack vm depth =
     (if depth \<le> length (vm_stack vm) then Some (vm\<lparr>vm_stack := take depth (vm_stack vm)\<rparr>) else None)"

definition op_return :: "nat \<Rightarrow> bool \<Rightarrow> flux_vm \<Rightarrow> nat \<Rightarrow> outcome option" where
  "op_return base preserve vm ip = do {
     (result, vm) \<leftarrow> vm_pop vm;
     slots \<leftarrow> frame_slots vm;
     vm \<leftarrow> close_upvalues vm slots;
     vm \<leftarrow> Some (vm\<lparr>vm_frames := butlast (vm_frames vm)\<rparr>);
     if length (vm_frames vm) = base then
       if preserve then do { vm \<leftarrow> cut_stack vm slots; Some (Return VM_OK (vm_push vm result)) }
       else do { (_, vm) \<leftarrow> vm_pop vm; Some (Return VM_OK vm) }
     else do {
       vm \<leftarrow> cut_stack vm slots;
       load_frame (vm_push vm result)
     }
   }"

fun capture_loop :: "nat list \<Rightarrow> ptr \<Rightarrow> nat \<Rightarrow> flux_vm \<Rightarrow> (flux_vm \<times> nat) option" where
  "capture_loop [] cl ip vm = Some (vm, ip)"
| "capture_loop (i # is) cl ip vm = do {
     (is_local, ip) \<leftarrow> fetch_byte vm ip;
     (uv_idx, ip) \<leftarrow> fetch_byte vm ip;
     (uv, vm) \<leftarrow> (if is_local \<noteq> 0 then do {
                     slots \<leftarrow> frame_slots vm;
                     (p, vm) \<leftarrow> capture_upvalue vm (slots + uv_idx);
                     Some (Some p, vm)
                   }
                   else do {
                     f \<leftarrow> top_frame vm;
                     fc \<leftarrow> get_closure (vm_heap vm) (fr_closure f);
                     u \<leftarrow> nth_opt (cl_upvalues fc) uv_idx;
                     Some (u, vm)
                   });
     c \<leftarrow> get_closure (vm_heap vm) cl;
     vm \<leftarrow> vm_hput vm cl (OBJ_CLOSURE (c\<lparr>cl_upvalues := (cl_upvalues c)[i := uv]\<rparr>));
     capture_loop is cl ip vm
   }"

definition op_closure :: "flux_vm \<Rightarrow> nat \<Rightarrow> outcome option" where
  "op_closure vm ip = do {
     (fn, ip) \<leftarrow> fetch_name vm ip;
     (cl, vm) \<leftarrow> object_closure_new vm fn;
     vm \<leftarrow> Some (vm_push vm (VAL_OBJECT cl));
     c \<leftarrow> get_closure (vm_heap vm) cl;
     (vm, ip) \<leftarrow> capture_loop [0 ..< length (cl_upvalues c)] cl ip vm;
     Some (Continue vm ip)
   }"

section \<open>Classes\<close>

definition op_class :: "flux_vm \<Rightarrow> nat \<Rightarrow> outcome option" where
  "op_class vm ip = do {
     (name, ip) \<leftarrow> fetch_name vm ip;
     (klass, vm) \<leftarrow> object_class_new vm name;
     push_continue vm ip (VAL_OBJECT klass)
   }"

definition op_method :: "flux_vm \<Rightarrow> nat \<Rightarrow> outcome option" where
  "op_method vm ip = do {
     (name, ip) \<leftarrow> fetch_name vm ip;
     method \<leftarrow> vm_peek vm 0;
     k \<leftarrow> vm_peek vm 1;
     p \<leftarrow> as_object k;
     klass \<leftarrow> get_class (vm_heap vm) p;
     methods \<leftarrow> k_methods klass;
     vm \<leftarrow> vm_dict_set vm methods name method;
     (_, vm) \<leftarrow> vm_pop vm;
     Some (Continue vm ip)
   }"

text \<open>\<open>runtime_invoke_builtin\<close>, which replaces receiver and arguments by the result.\<close>

definition invoke_builtin :: "ctx \<Rightarrow> flux_vm \<Rightarrow> nat \<Rightarrow> flux_value \<Rightarrow> ptr \<Rightarrow> nat \<Rightarrow> outcome option" where
  "invoke_builtin c vm ip receiver name argc = do {
     (ok, vm) \<leftarrow> env_invoke_builtin (c_env c) (c_invoke c) receiver name argc vm;
     if \<not> ok then do {
       t \<leftarrow> value_type_name (vm_heap vm) receiver;
       chars \<leftarrow> string_chars (vm_heap vm) name;
       throw vm ip [quoted t, '' has no method '', quoted chars]
     }
     else handle_nested_error vm ip (\<lambda>vm. Some (Continue vm ip))
   }"

definition invoke_instance :: "ctx \<Rightarrow> flux_vm \<Rightarrow> nat \<Rightarrow> ptr \<Rightarrow> ptr \<Rightarrow> nat \<Rightarrow> outcome option" where
  "invoke_instance c vm ip p name argc = do {
     field \<leftarrow> instance_fields_get vm p name;
     case field of
       Some v \<Rightarrow> do {
         vm \<leftarrow> vm_poke vm argc v;
         r \<leftarrow> vm_call_value c vm v argc;
         after_call r ip
       }
     | None \<Rightarrow> do {
         i \<leftarrow> get_instance (vm_heap vm) p;
         found \<leftarrow> class_methods_get vm (i_klass i) name;
         case found of
           None \<Rightarrow> do {
             chars \<leftarrow> string_chars (vm_heap vm) name;
             throw vm ip [''Undefined method '', quoted chars]
           }
         | Some m \<Rightarrow> do {
             vm \<leftarrow> vm_poke vm argc (VAL_OBJECT p);
             cl \<leftarrow> as_object m;
             r \<leftarrow> call_closure vm cl argc;
             after_closure r ip
           }
       }
   }"

definition op_invoke :: "ctx \<Rightarrow> flux_vm \<Rightarrow> nat \<Rightarrow> outcome option" where
  "op_invoke c vm ip = do {
     (idx, ip) \<leftarrow> fetch_uint16 vm ip;
     (argc, ip) \<leftarrow> fetch_byte vm ip;
     name_val \<leftarrow> read_constant vm idx;
     name \<leftarrow> as_object name_val;
     receiver \<leftarrow> vm_peek vm argc;
     vm \<leftarrow> sync_ip vm ip;
     obj \<leftarrow> view (vm_heap vm) receiver;
     case (receiver, obj) of
       (VAL_OBJECT p, Some (OBJ_INSTANCE _)) \<Rightarrow> invoke_instance c vm ip p name argc
     | (VAL_OBJECT p, Some (OBJ_DICT _)) \<Rightarrow> do {
         found \<leftarrow> heap_dict_get (vm_heap vm) p name;
         case found of
           Some dict_fn \<Rightarrow> do {
             vm \<leftarrow> vm_poke vm argc dict_fn;
             r \<leftarrow> vm_call_value c vm dict_fn argc;
             after_call r ip
           }
         | None \<Rightarrow> invoke_builtin c vm ip receiver name argc
       }
     | (VAL_OBJECT p, Some (OBJ_STRING _)) \<Rightarrow> invoke_builtin c vm ip receiver name argc
     | (VAL_OBJECT p, Some (OBJ_LIST _)) \<Rightarrow> invoke_builtin c vm ip receiver name argc
     | _ \<Rightarrow> do {
         t \<leftarrow> value_type_name (vm_heap vm) receiver;
         throw vm ip [quoted t, '' has no methods'']
       }
   }"

text \<open>Inheritance copies every method of the superclass into the subclass.\<close>

definition op_inherit :: "flux_vm \<Rightarrow> nat \<Rightarrow> outcome option" where
  "op_inherit vm ip = do {
     super_val \<leftarrow> vm_peek vm 1;
     obj \<leftarrow> view (vm_heap vm) super_val;
     case (super_val, obj) of
       (VAL_OBJECT sp, Some (OBJ_CLASS super)) \<Rightarrow>
         if k_is_struct super then do {
           chars \<leftarrow> class_name vm sp;
           throw vm ip [''Cannot inherit from a struct '', quoted chars]
         }
         else if k_is_enum super then do {
           chars \<leftarrow> class_name vm sp;
           throw vm ip [''Cannot inherit from an enum '', quoted chars]
         }
         else do {
           sub_val \<leftarrow> vm_peek vm 0;
           sub \<leftarrow> as_object sub_val;
           k \<leftarrow> get_class (vm_heap vm) sub;
           vm \<leftarrow> vm_hput vm sub (OBJ_CLASS (k\<lparr>k_superclass := Some sp\<rparr>));
           src \<leftarrow> k_methods super;
           dst \<leftarrow> k_methods k;
           vm \<leftarrow> copy_entries src dst (\<lambda>_ _ v. Some (Some v)) vm;
           (_, vm) \<leftarrow> vm_pop vm;
           (_, vm) \<leftarrow> vm_pop vm;
           Some (Continue vm ip)
         }
     | _ \<Rightarrow> throw vm ip [''Superclass must be a class'']
   }"

definition mark_class :: "(flux_class \<Rightarrow> flux_class) \<Rightarrow> string \<Rightarrow> flux_vm \<Rightarrow> nat \<Rightarrow> outcome option" where
  "mark_class f err vm ip = do {
     v \<leftarrow> vm_peek vm 0;
     obj \<leftarrow> view (vm_heap vm) v;
     case (v, obj) of
       (VAL_OBJECT p, Some (OBJ_CLASS k)) \<Rightarrow> do { vm \<leftarrow> vm_hput vm p (OBJ_CLASS (f k)); Some (Continue vm ip) }
     | _ \<Rightarrow> throw vm ip [err]
   }"

definition op_mark_struct :: "flux_vm \<Rightarrow> nat \<Rightarrow> outcome option" where
  "op_mark_struct = mark_class (\<lambda>k. k\<lparr>k_is_struct := True\<rparr>) ''MARK_STRUCT: TOS is not a class''"

definition op_mark_enum :: "flux_vm \<Rightarrow> nat \<Rightarrow> outcome option" where
  "op_mark_enum = mark_class (\<lambda>k. k\<lparr>k_is_enum := True\<rparr>) ''MARK_ENUM: TOS is not a class''"

definition op_isinstance :: "flux_vm \<Rightarrow> nat \<Rightarrow> outcome option" where
  "op_isinstance vm ip = do {
     (klass_val, vm) \<leftarrow> vm_pop vm;
     (obj_val, vm) \<leftarrow> vm_pop vm;
     k \<leftarrow> view (vm_heap vm) klass_val;
     case (klass_val, k) of
       (VAL_OBJECT klass, Some (OBJ_CLASS _)) \<Rightarrow> do {
         obj \<leftarrow> view (vm_heap vm) obj_val;
         push_continue vm ip (VAL_BOOL (case obj of Some (OBJ_INSTANCE i) \<Rightarrow> i_klass i = klass | _ \<Rightarrow> False))
       }
     | _ \<Rightarrow> push_continue vm ip (VAL_BOOL False)
   }"

definition op_get_super :: "flux_vm \<Rightarrow> nat \<Rightarrow> outcome option" where
  "op_get_super vm ip = do {
     (name, ip) \<leftarrow> fetch_name vm ip;
     (super_val, vm) \<leftarrow> vm_pop vm;
     super \<leftarrow> as_object super_val;
     receiver \<leftarrow> vm_peek vm 0;
     found \<leftarrow> class_methods_get vm super name;
     case found of
       Some m \<Rightarrow> do {
         method \<leftarrow> as_object m;
         (bm, vm) \<leftarrow> object_bound_method_new vm receiver method;
         (_, vm) \<leftarrow> vm_pop vm;
         push_continue vm ip (VAL_OBJECT bm)
       }
     | None \<Rightarrow> do {
         obj \<leftarrow> view (vm_heap vm) receiver;
         field \<leftarrow> (case (receiver, obj) of
                    (VAL_OBJECT p, Some (OBJ_INSTANCE _)) \<Rightarrow> instance_fields_get vm p name
                  | _ \<Rightarrow> Some None);
         case field of
           Some v \<Rightarrow> do { (_, vm) \<leftarrow> vm_pop vm; push_continue vm ip v }
         | None \<Rightarrow> do {
             super_chars \<leftarrow> class_name vm super;
             chars \<leftarrow> string_chars (vm_heap vm) name;
             throw vm ip [quoted super_chars, '' has no attribute '', quoted chars]
           }
       }
   }"

end
