(* ===== verification/ArithProps.thy ===== *)
theory ArithProps
  imports CoreOps
begin

text \<open>
  What the integer operators compute: each is exact where C defines it, and undefined exactly where the
  mathematical result leaves the range of \<^verbatim>\<open>int64_t\<close>.
\<close>

section \<open>The range of \<^verbatim>\<open>int64_t\<close>\<close>

lemma sint_bounds: "- (2 ^ 63) \<le> sint (w :: int64)" "sint (w :: int64) < 2 ^ 63"
  using sint_greater_eq [of w] sint_less [of w] by simp_all

lemma sint_zero_iff: "sint (w :: int64) = 0 \<longleftrightarrow> w = 0"
  by (metis sint_0 signed_word_eqI)

lemma int64_range_sint: "int64_range i = Some w \<longleftrightarrow> - (2 ^ 63) \<le> i \<and> i < 2 ^ 63 \<and> sint w = i"
proof -
  have "sint (word_of_int i :: int64) = i" if "- (2 ^ 63) \<le> i" "i < 2 ^ 63"
    using that signed_take_bit_int_eq_self [of 63 i] by (simp add: sint_sbintrunc')
  then show ?thesis by (auto simp: int64_range_def)
qed

lemma int64_range_word [simp]: "int64_range (sint (w :: int64)) = Some w"
  using sint_bounds [of w] by (simp add: int64_range_sint)

lemma int64_range_defined: "int64_range i \<noteq> None \<longleftrightarrow> - (2 ^ 63) \<le> i \<and> i < 2 ^ 63"
  by (simp add: int64_range_def)

lemma int64_range_of: "- (2 ^ 63) \<le> i \<Longrightarrow> i < 2 ^ 63 \<Longrightarrow> \<exists>w. int64_range i = Some w \<and> sint w = i"
  using int64_range_sint [of i] by (metis int64_range_defined not_None_eq)

lemma numeric_binop_int:
  "numeric_binop f g (VAL_INT x) (VAL_INT y) = int_result (f (sint x) (sint y))"
  by (simp add: numeric_binop_def)

section \<open>Division\<close>

lemma c_div_mod: "b \<noteq> 0 \<Longrightarrow> c_div a b * b + c_mod a b = a"
  by (simp add: c_mod_def)

lemma c_mod_abs: "b \<noteq> 0 \<Longrightarrow> c_mod a b = sgn a * (\<bar>a\<bar> mod \<bar>b\<bar>)"
proof -
  assume b: "b \<noteq> 0"
  have "c_div a b * b = sgn a * (\<bar>a\<bar> div \<bar>b\<bar> * \<bar>b\<bar>)"
    by (simp add: c_div_def abs_sgn [of b] mult.commute mult.left_commute mult.assoc)
  also have "\<dots> = sgn a * (\<bar>a\<bar> - \<bar>a\<bar> mod \<bar>b\<bar>)" by (simp add: minus_mod_eq_div_mult)
  finally show ?thesis by (simp add: c_mod_def right_diff_distrib mult_sgn_abs)
qed

lemma c_mod_bound: "b \<noteq> 0 \<Longrightarrow> \<bar>c_mod a b\<bar> < \<bar>b\<bar>"
  by (simp add: c_mod_abs abs_mult abs_sgn_eq)

lemma c_mod_sign: "b \<noteq> 0 \<Longrightarrow> c_mod a b \<noteq> 0 \<Longrightarrow> sgn (c_mod a b) = sgn a"
proof -
  assume b: "b \<noteq> 0" and nz: "c_mod a b \<noteq> 0"
  have "0 \<le> \<bar>a\<bar> mod \<bar>b\<bar>" using b by simp
  moreover have "\<bar>a\<bar> mod \<bar>b\<bar> \<noteq> 0" using nz c_mod_abs [OF b, of a] by auto
  ultimately have "sgn (\<bar>a\<bar> mod \<bar>b\<bar>) = 1" by simp
  then show ?thesis by (simp add: c_mod_abs [OF b] sgn_mult)
qed

lemma floor_div_correct:
  assumes b: "b \<noteq> 0"
  shows "(if c_mod a b \<noteq> 0 \<and> ((c_mod a b < 0) \<noteq> (b < 0)) then c_div a b - 1 else c_div a b) = a div b"
proof -
  let ?q = "if c_mod a b \<noteq> 0 \<and> ((c_mod a b < 0) \<noteq> (b < 0)) then c_div a b - 1 else c_div a b"
  let ?r = "a - ?q * b"
  have r: "?r = (if c_mod a b \<noteq> 0 \<and> ((c_mod a b < 0) \<noteq> (b < 0)) then c_mod a b + b else c_mod a b)"
    using c_div_mod [OF b, of a] by (auto simp: algebra_simps)
  have bd: "\<bar>c_mod a b\<bar> < \<bar>b\<bar>" by (rule c_mod_bound [OF b])
  have "if 0 < b then 0 \<le> ?r \<and> ?r < b else b < ?r \<and> ?r \<le> 0"
    unfolding r using bd b by (auto split: if_splits)
  moreover have "a = b * ?q + ?r" by simp
  ultimately have "a div b = ?q"
    using int_div_pos_eq [of a b ?q ?r] int_div_neg_eq [of a b ?q ?r] by (cases "0 < b") (simp_all only: if_True if_False)
  then show ?thesis ..
qed

lemma c_div_small: "2 \<le> \<bar>b\<bar> \<Longrightarrow> \<bar>c_div a b\<bar> \<le> \<bar>a\<bar> div 2"
proof -
  assume b: "2 \<le> \<bar>b\<bar>"
  have "\<bar>c_div a b\<bar> \<le> \<bar>a\<bar> div \<bar>b\<bar>" using b by (auto simp: c_div_def abs_mult abs_sgn_eq pos_imp_zdiv_nonneg_iff)
  also have "\<dots> \<le> \<bar>a\<bar> div 2" using b by (intro zdiv_mono2) simp_all
  finally show ?thesis .
qed

lemma c_div_bound:
  assumes "- (2 ^ 63) \<le> a" "a < 2 ^ 63" "b \<noteq> 0" "\<not> (a = - (2 ^ 63) \<and> b = -1)"
  shows "- (2 ^ 63) \<le> c_div a b \<and> c_div a b < 2 ^ 63"
proof -
  have abs: "\<bar>c_div a b\<bar> \<le> \<bar>a\<bar> div \<bar>b\<bar>" by (auto simp: c_div_def abs_mult abs_sgn_eq pos_imp_zdiv_nonneg_iff)
  have le: "\<bar>a\<bar> div \<bar>b\<bar> \<le> \<bar>a\<bar>" using zdiv_mono2 [of "\<bar>a\<bar>" 1 "\<bar>b\<bar>"] assms(3) by simp
  show ?thesis
  proof (cases "a = - (2 ^ 63)")
    case False
    then show ?thesis using abs le assms(1,2) by linarith
  next
    case True
    have "c_div a b < 2 ^ 63"
    proof (cases "\<bar>b\<bar> = 1")
      case True
      then have "b = 1" using assms(4) \<open>a = _\<close> by linarith
      then show ?thesis using \<open>a = _\<close> by (simp add: c_div_def)
    next
      case False
      then have "2 \<le> \<bar>b\<bar>" using assms(3) by linarith
      then have "\<bar>a\<bar> div \<bar>b\<bar> \<le> \<bar>a\<bar> div 2" by (intro zdiv_mono2) simp_all
      then show ?thesis using abs \<open>a = _\<close> by simp
    qed
    then show ?thesis using abs le \<open>a = _\<close> by simp
  qed
qed

lemma sint_xor_neg: "sint (x XOR y :: int64) < 0 \<longleftrightarrow> (sint x < 0) \<noteq> (sint y < 0)"
  unfolding bit_last_iff [symmetric] by (auto simp: bit_xor_iff)

section \<open>Power\<close>

definition in_range :: "int \<Rightarrow> bool" where
  "in_range i \<longleftrightarrow> - (2 ^ 63) \<le> i \<and> i < 2 ^ 63"

lemma int64_range_iff: "int64_range i = (if in_range i then Some (word_of_int i) else None)"
  by (simp add: int64_range_def in_range_def)

lemma int_pow_loop_range:
  assumes "in_range (sint acc * sint base ^ n) \<Longrightarrow> \<forall>k \<le> n. in_range (sint acc * sint base ^ k)"
  shows "int_pow_loop n base acc = int64_range (sint acc * sint base ^ n)"
  using assms
proof (induction n arbitrary: acc)
  case (Suc n)
  show ?case
  proof (cases "int64_range (sint acc * sint base)")
    case None
    then have "\<not> in_range (sint acc * sint base ^ 1)" by (auto simp: int64_range_iff split: if_splits)
    then have "\<not> in_range (sint acc * sint base ^ Suc n)" using Suc.prems le_add1 [of 1 n] by (metis plus_1_eq_Suc)
    then show ?thesis using None by (simp add: int64_range_iff)
  next
    case (Some r)
    then have r: "sint r = sint acc * sint base" by (simp add: int64_range_sint)
    have "int_pow_loop n base r = int64_range (sint r * sint base ^ n)"
    proof (rule Suc.IH)
      assume "in_range (sint r * sint base ^ n)"
      then have "\<forall>k \<le> Suc n. in_range (sint acc * sint base ^ k)" using Suc.prems by (simp add: r mult.assoc)
      then have "in_range (sint acc * sint base ^ Suc k)" if "k \<le> n" for k using that by blast
      then show "\<forall>k \<le> n. in_range (sint r * sint base ^ k)" by (simp add: r mult.assoc)
    qed
    then show ?thesis using Some r by (simp add: mult.assoc)
  qed
qed simp

lemma power_range_down:
  assumes "in_range (b ^ n)" "k \<le> n"
  shows "in_range (b ^ k)"
proof (cases "k = n \<or> \<bar>b\<bar> \<le> 1")
  case True
  then consider "k = n" | "\<bar>b\<bar> \<le> 1" by blast
  then show ?thesis
  proof cases
    case 2
    then have "\<bar>b ^ k\<bar> \<le> 1" by (simp add: power_abs power_le_one)
    then show ?thesis by (auto simp: abs_le_iff in_range_def)
  qed (use assms in simp)
next
  case False
  then have b: "2 \<le> \<bar>b\<bar>" and k: "Suc k \<le> n" using assms(2) by auto
  have "2 * \<bar>b\<bar> ^ k \<le> \<bar>b\<bar> ^ Suc k" using b by (simp add: mult_right_mono)
  also have "\<dots> \<le> \<bar>b\<bar> ^ n" using b k by (intro power_increasing) auto
  also have "\<dots> \<le> 2 ^ 63" using assms(1) by (simp add: abs_le_iff in_range_def flip: power_abs)
  finally have "\<bar>b ^ k\<bar> \<le> 2 ^ 62" by (simp add: power_abs)
  then show ?thesis by (auto simp: abs_le_iff in_range_def)
qed

lemma int_pow_loop_exact: "int_pow_loop n base 1 = int64_range (sint base ^ n)"
  using int_pow_loop_range [of 1 base n] power_range_down [of "sint base" n] by simp

section \<open>Comparison\<close>

lemma compare_op_int:
  "compare_op dop iop h (VAL_INT x) (VAL_INT y) = Some (Some (dop (dbl_of_int (sint x)) (dbl_of_int (sint y))))"
  by (simp add: compare_op_def value_is_number_def)

text \<open>Beyond \<open>2 ^ 53\<close> the doubles are \<open>2 ^ k\<close> apart.  An integer at most half of that above a double with an even
  significand \<open>m\<close> is rounded to it.\<close>

lemma round_shift_between: "2 ^ 52 * 2 ^ k \<le> n \<Longrightarrow> n < 2 ^ 53 * 2 ^ k \<Longrightarrow> round_shift n = k"
proof (induction k arbitrary: n)
  case 0
  then show ?case by (simp add: round_shift.simps)
next
  case (Suc k)
  have "(1::nat) \<le> 2 ^ k" by simp
  then have "(2::nat) ^ 53 \<le> 2 ^ 52 * 2 ^ Suc k" by simp
  then have "\<not> n < 2 ^ 53" using Suc.prems(1) by linarith
  then have "round_shift n = Suc (round_shift (n div 2))" by (simp only: round_shift.simps [of n] if_False)
  moreover have "round_shift (n div 2) = k" using Suc.prems by (intro Suc.IH) simp_all
  ultimately show ?case by simp
qed

lemma round_half_even_near: "even m \<Longrightarrow> 2 * r \<le> d \<Longrightarrow> 0 < d \<Longrightarrow> round_half_even (m * d + r) d = m"
  by (simp add: round_half_even_def Let_def)

lemma dbl_round_near:
  assumes "2 ^ 52 \<le> m" "m < 2 ^ 53" "even m" "2 * r \<le> 2 ^ k"
  shows "dbl_round False (m * 2 ^ k + r) 1 = dbl_round False (m * 2 ^ k) 1"
proof -
  have pos: "(0::nat) < 2 ^ k" by simp
  then have "r < 2 ^ k" using assms(4) by linarith
  then have "m * 2 ^ k + r < Suc m * 2 ^ k" by simp
  also have "\<dots> \<le> 2 ^ 53 * 2 ^ k" using assms(2) by (intro mult_le_mono) simp_all
  finally have "round_shift (m * 2 ^ k + r) = k" using assms(1) by (intro round_shift_between) (simp_all add: trans_le_add1)
  moreover have "round_shift (m * 2 ^ k) = k" by (rule round_shift_mult [OF assms(1,2)])
  moreover have "round_half_even (m * 2 ^ k + r) (2 ^ k) = m" by (rule round_half_even_near [OF assms(3,4) pos])
  moreover have "round_half_even (m * 2 ^ k) (2 ^ k) = m" by (rule round_half_even_exact [OF pos])
  ultimately show ?thesis by (simp only: dbl_round_def Let_def div_by_1 mult_1)
qed

lemma dbl_of_units_near:
  assumes "2 ^ 52 \<le> m" "m < 2 ^ 53" "even m" "0 < k" "int (m * 2 ^ k) \<le> i" "i \<le> int (m * 2 ^ k) + 2 ^ (k - 1)"
  shows "dbl_of_units (i * 2 ^ c) = dbl_round False (m * 2 ^ (k + c)) 1"
proof -
  define r where "r = nat (i - int (m * 2 ^ k))"
  have i: "i = int (m * 2 ^ k + r)" "r \<le> 2 ^ (k - 1)" using assms(5,6) by (simp_all add: r_def nat_le_iff)
  have "i * 2 ^ c = int ((m * 2 ^ k + r) * 2 ^ c)" by (simp add: i(1))
  then have "nat \<bar>i * 2 ^ c\<bar> = (m * 2 ^ k + r) * 2 ^ c" by (simp only: abs_of_nat nat_int)
  also have "\<dots> = m * 2 ^ (k + c) + r * 2 ^ c" by (simp add: power_add algebra_simps)
  finally have n: "nat \<bar>i * 2 ^ c\<bar> = m * 2 ^ (k + c) + r * 2 ^ c" .
  have "2 * r \<le> 2 * 2 ^ (k - 1)" using i(2) by simp
  also have "\<dots> = (2::nat) ^ k" using assms(4) by (cases k) simp_all
  finally have "2 * (r * 2 ^ c) \<le> 2 ^ (k + c)" by (simp add: power_add mult.assoc [symmetric])
  then have "dbl_round False (m * 2 ^ (k + c) + r * 2 ^ c) 1 = dbl_round False (m * 2 ^ (k + c)) 1"
    by (rule dbl_round_near [OF assms(1-3)])
  moreover have "\<not> i * 2 ^ c < 0" unfolding i(1) by (simp add: not_less)
  ultimately show ?thesis unfolding dbl_of_units_def n by simp
qed

lemma dbl_of_int_near:
  assumes "2 ^ 52 \<le> m" "m < 2 ^ 53" "even m" "0 < k" "k \<le> 900"
  shows "\<exists>d. \<not> dbl_is_nan d \<and> (\<forall>i. int (m * 2 ^ k) \<le> i \<longrightarrow> i \<le> int (m * 2 ^ k) + 2 ^ (k - 1) \<longrightarrow> dbl_of_int i = d)"
proof (intro exI conjI allI impI)
  show "\<not> dbl_is_nan (dbl_round False (m * 2 ^ (k + 1074)) 1)"
    by (rule dbl_units_round_exact(2) [OF assms(1,2)]) (use assms(5) in simp)
  fix i :: int assume "int (m * 2 ^ k) \<le> i" "i \<le> int (m * 2 ^ k) + 2 ^ (k - 1)"
  then show "dbl_of_int i = dbl_round False (m * 2 ^ (k + 1074)) 1"
    unfolding dbl_of_int_def by (rule dbl_of_units_near [OF assms(1-4)])
qed

end
