(* ===== verification/Samples.thy ===== *)
theory Samples
  imports Stores UpvalueProps ArithProps
begin

text \<open>
  Sample machines on which the properties are exercised.  They are built by the operations of the
  model, so that their well-formedness follows from the lemmas about these operations; their value is
  computed by evaluation.
\<close>

section \<open>Well-formedness along a construction\<close>

lemma gc_ok_zero: "gc_ok vm_zero"
  by (simp add: gc_ok_def vm_zero_def root_refs_def allocated_def heap_closed_def marked_set_def strings_ok_def
      hget_def get_string_def hpayload_def string_table_new_ok values_refs_def)

lemma vm_ok_zero: "vm_ok vm_zero"
  by (simp add: vm_ok_def gc_ok_zero interned_def) (simp add: vm_zero_def get_string_def hpayload_def hget_def)

lemma st_room_zero: "st_room (2 ^ 28) (vm_strings vm_zero)"
  using string_table_new_ok(3) by (simp add: vm_zero_def)

lemma vm_ok_stack:
  assumes "vm_ok vm" "set (concat (map value_refs st)) \<subseteq> allocated (vm_heap vm)"
  shows "vm_ok (vm\<lparr>vm_stack := st\<rparr>)"
  using assms by (auto simp: vm_ok_def gc_ok_def root_refs_def interned_def values_refs_def)

lemma string_copy_step:
  assumes "vm_ok vm" "st_room (Suc n) (vm_strings vm)" "object_string_copy vm cs = Some (p, vm')"
  shows "vm_ok vm' \<and> st_room n (vm_strings vm')"
  by (rule object_string_copy_full [OF assms(1,2), of cs]) (simp add: assms(3))

lemma alloc_step:
  assumes "vm_ok vm" "set (payload_refs pl) \<subseteq> reachable vm" "\<And>s. pl \<noteq> OBJ_STRING s"
    "gc_alloc_object vm pl = Some (p, vm')"
  shows "vm_ok vm'"
proof -
  have gc: "gc_ok vm" and int: "interned vm" using assms(1) by (simp_all add: vm_ok_def)
  have str: "pl = OBJ_STRING s \<Longrightarrow> str_length s = length (str_chars s) \<and> str_hash s = hash_string (str_chars s)" for s
    using assms(3) by blast
  obtain q vm1 where a: "gc_alloc_object vm pl = Some (q, vm1)" "gc_frame vm vm1" "gc_ok vm1"
    "hpayload (vm_heap vm1) q = Some pl" "q = length (vm_heap vm)"
    "\<And>r. r \<in> reachable vm \<Longrightarrow> hpayload (vm_heap vm1) r = hpayload (vm_heap vm) r"
    "\<And>r ob. r \<noteq> q \<Longrightarrow> hget (vm_heap vm1) r = Some ob \<Longrightarrow> hget (vm_heap vm) r = Some ob"
    "st_live (vm_strings vm1) \<subseteq> st_live (vm_strings vm)"
    "\<And>r s. interned vm \<Longrightarrow> r \<noteq> q \<Longrightarrow> get_string (vm_heap vm1) r = Some s \<Longrightarrow> r \<in> st_live (vm_strings vm1)"
    "byte_drift vm1 + of_nat (owned_size pl) = byte_drift vm"
    "st_count (vm_strings vm1) = st_count (vm_strings vm)"
    by (rule gc_alloc_object_full [OF gc assms(2) str]) (auto intro: that)
  have "get_string (vm_heap vm1) q = None"
    using a(4) assms(3) by (simp add: get_string_def split: payload.splits)
  then have "interned vm1" unfolding interned_def using a(9) [OF int] by (metis option.distinct(1))
  then show ?thesis using a(1,3) assms(4) by (simp add: vm_ok_def)
qed

section \<open>A machine with a live and a dead string\<close>

definition sample1 :: "(ptr \<times> flux_vm) option" where "sample1 = object_string_copy vm_zero ''ab''"
definition sample2 :: "(ptr \<times> flux_vm) option" where
  "sample2 = do { (a, vm) \<leftarrow> sample1; object_string_copy (vm\<lparr>vm_stack := [VAL_OBJECT a]\<rparr>) ''cd'' }"
definition sample3 :: "(ptr \<times> flux_vm) option" where
  "sample3 = do {
     (_, vm) \<leftarrow> sample2;
     gc_alloc_object vm (OBJ_LIST \<lparr>elements = \<lparr>va_data = [VAL_OBJECT 0, VAL_INT 7], va_capacity = 8\<rparr>\<rparr>)
   }"

text \<open>The list 2 holds the string 0; the string 1 is garbage.\<close>

definition sample_vm :: flux_vm where
  "sample_vm = (case sample3 of Some (l, vm) \<Rightarrow> vm\<lparr>vm_stack := [VAL_OBJECT l]\<rparr> | None \<Rightarrow> vm_zero)"

definition sample_string :: "string \<Rightarrow> payload" where
  "sample_string cs = OBJ_STRING \<lparr>str_length = length cs, str_hash = hash_string cs, str_chars = cs\<rparr>"

definition sample_list :: payload where
  "sample_list = OBJ_LIST \<lparr>elements = \<lparr>va_data = [VAL_OBJECT 0, VAL_INT 7], va_capacity = 8\<rparr>\<rparr>"

lemma sample_values:
  "map_option (\<lambda>(p, vm). (p, map (map_option payload) (vm_heap vm), vm_stack vm)) sample1 =
     Some (0, [Some (sample_string ''ab'')], [])"
  "map_option (\<lambda>(p, vm). (p, map (map_option payload) (vm_heap vm), vm_stack vm)) sample2 =
     Some (1, [Some (sample_string ''ab''), Some (sample_string ''cd'')], [VAL_OBJECT 0])"
  "map_option (\<lambda>(p, vm). (p, map (map_option payload) (vm_heap vm), vm_stack vm)) sample3 =
     Some (2, [Some (sample_string ''ab''), Some (sample_string ''cd''), Some sample_list], [VAL_OBJECT 0])"
  by code_simp+

lemma root_reachable: "p \<in> set (root_refs vm) \<Longrightarrow> p \<in> reachable vm"
  by (auto simp: reachable_def)

lemma sample1: "\<exists>vm. sample1 = Some (0, vm) \<and> vm_ok vm \<and> st_room 2 (vm_strings vm) \<and>
  map (map_option payload) (vm_heap vm) = [Some (sample_string ''ab'')]"
proof -
  obtain vm where vm: "sample1 = Some (0, vm)" "map (map_option payload) (vm_heap vm) = [Some (sample_string ''ab'')]"
    using sample_values(1) by auto
  have "st_room (Suc 2) (vm_strings vm_zero)" using st_room_zero by (simp add: st_room_def)
  from string_copy_step [OF vm_ok_zero this] vm show ?thesis by (auto simp: sample1_def)
qed

lemma sample2: "\<exists>vm. sample2 = Some (1, vm) \<and> vm_ok vm \<and> vm_stack vm = [VAL_OBJECT 0] \<and>
  map (map_option payload) (vm_heap vm) = [Some (sample_string ''ab''), Some (sample_string ''cd'')]"
proof -
  obtain vm1 where vm1: "sample1 = Some (0, vm1)" "vm_ok vm1" "st_room 2 (vm_strings vm1)"
    "map (map_option payload) (vm_heap vm1) = [Some (sample_string ''ab'')]" using sample1 by (elim exE conjE)
  obtain vm2 where vm2: "sample2 = Some (1, vm2)" "vm_stack vm2 = [VAL_OBJECT 0]"
    "map (map_option payload) (vm_heap vm2) = [Some (sample_string ''ab''), Some (sample_string ''cd'')]"
    using sample_values(2) by auto
  let ?vm = "vm1\<lparr>vm_stack := [VAL_OBJECT 0]\<rparr>"
  have "0 \<in> allocated (vm_heap vm1)"
    using vm1(4) by (cases "vm_heap vm1") (auto simp: allocated_def hget_def)
  then have ok: "vm_ok ?vm" by (intro vm_ok_stack [OF vm1(2)]) simp
  have room: "st_room (Suc 1) (vm_strings ?vm)" using vm1(3) by (simp add: st_room_def)
  have "object_string_copy ?vm ''cd'' = Some (1, vm2)" using vm2(1) unfolding sample2_def vm1(1) by simp
  from string_copy_step [OF ok room this] show ?thesis by (intro exI [of _ vm2] conjI vm2) simp
qed

lemma sample_vm_ok: "vm_ok sample_vm"
  and sample_vm_heap: "map (map_option payload) (vm_heap sample_vm) =
    [Some (sample_string ''ab''), Some (sample_string ''cd''), Some sample_list]"
  and sample_vm_stack: "vm_stack sample_vm = [VAL_OBJECT 2]"
proof -
  obtain vm2 where vm2: "sample2 = Some (1, vm2)" "vm_ok vm2" "vm_stack vm2 = [VAL_OBJECT 0]" using sample2 by (elim exE conjE)
  obtain vm3 where vm3: "sample3 = Some (2, vm3)"
    "map (map_option payload) (vm_heap vm3) =
      [Some (sample_string ''ab''), Some (sample_string ''cd''), Some sample_list]"
    using sample_values(3) by auto
  have alloc: "gc_alloc_object vm2 sample_list = Some (2, vm3)"
    using vm3(1) unfolding sample3_def sample_list_def vm2(1) by simp
  have "0 \<in> reachable vm2" by (rule root_reachable) (simp add: root_refs_def values_refs_def vm2(3))
  then have ok: "vm_ok vm3"
    by (intro alloc_step [OF vm2(2) _ _ alloc]) (simp_all add: sample_list_def values_refs_def)
  have "2 \<in> allocated (vm_heap vm3)"
    using vm3(2) by (auto simp: allocated_def hget_def Cons_eq_map_conv)
  then have "vm_ok (vm3\<lparr>vm_stack := [VAL_OBJECT 2]\<rparr>)" by (intro vm_ok_stack [OF ok]) simp
  then show "vm_ok sample_vm" "map (map_option payload) (vm_heap sample_vm) =
      [Some (sample_string ''ab''), Some (sample_string ''cd''), Some sample_list]"
    "vm_stack sample_vm = [VAL_OBJECT 2]"
    unfolding sample_vm_def vm3(1) by (simp_all add: vm3(2))
qed

section \<open>Two classes\<close>

definition class_key_hash :: key_hash where
  "class_key_hash p = (if p = 4 then Some (hash_string ''ab'') else None)"

definition sample_methods :: flux_dict where
  "sample_methods = (case dict_set class_key_hash dict_new 4 (VAL_INT 7) of Some d \<Rightarrow> d | None \<Rightarrow> dict_new)"

definition sample_class :: "ptr \<Rightarrow> flux_class" where
  "sample_class methods =
     \<lparr>k_name = 4, k_methods = Some methods, k_superclass = None, k_is_struct = False, k_is_enum = False\<rparr>"

text \<open>The class 0 with the method table 2, the class 1 with the empty method table 3, the name 4.\<close>

definition sample_class_payloads :: "payload list" where
  "sample_class_payloads = [OBJ_CLASS (sample_class 2), OBJ_CLASS (sample_class 3), OBJ_DICT sample_methods, OBJ_DICT dict_new,
     sample_string ''ab'']"

definition sample_classes :: flux_vm where
  "sample_classes = vm_zero\<lparr>
     vm_heap := map (\<lambda>pl. Some \<lparr>marked = False, payload = pl\<rparr>) sample_class_payloads,
     vm_stack := [VAL_NULL, VAL_OBJECT 0, VAL_OBJECT 1]\<rparr>"

lemma sample_methods: "dict_ok class_key_hash sample_methods" "dict_map sample_methods = [4 \<mapsto> VAL_INT 7]"
proof -
  have "dict_room (Suc 0) dict_new" by (simp add: dict_room_def dict_new_def)
  from dict_set_spec [OF dict_new_ok(1) this, of class_key_hash 4 "VAL_INT 7"] obtain d where
    "dict_set class_key_hash dict_new 4 (VAL_INT 7) = Some d" "dict_ok class_key_hash d" "dict_map d = [4 \<mapsto> VAL_INT 7]"
    by (auto simp: class_key_hash_def dict_new_ok)
  then show "dict_ok class_key_hash sample_methods" "dict_map sample_methods = [4 \<mapsto> VAL_INT 7]"
    by (simp_all add: sample_methods_def)
qed

lemma sample_classes_payload:
  "hpayload (vm_heap sample_classes) p = (if p < 5 then Some (sample_class_payloads ! p) else None)"
proof -
  have "length sample_class_payloads = 5" by (simp add: sample_class_payloads_def)
  then show ?thesis by (simp add: sample_classes_def hpayload_def hget_def)
qed

lemma sample_classes_key_hash: "key_hash (vm_heap sample_classes) = class_key_hash"
proof
  fix p :: ptr
  consider "p = 0" | "p = 1" | "p = 2" | "p = 3" | "p = 4" | "5 \<le> p" by linarith
  then show "key_hash (vm_heap sample_classes) p = class_key_hash p"
    by cases (simp_all add: key_hash_def class_key_hash_def get_string_def sample_classes_payload sample_class_payloads_def
        sample_string_def)
qed

lemma sample_methods_capacity: "d_capacity sample_methods = 8"
  by code_simp

end
