(* ===== verification/ChunkProps.thy ===== *)
theory ChunkProps
  imports Chunk
begin

text \<open>
  Correctness of the chunk operations: the run-length encoded line table is well formed after every
  write and the binary search decodes it; the emitters and the interpreter's operand readers are
  inverse to each other; a patched jump is read back.
\<close>

section \<open>The code array\<close>

lemma ch_code_write [simp]: "ch_code (chunk_write c b line) = ch_code c @ [b]"
  by (simp add: chunk_write_def Let_def)

lemma ch_constants_write [simp]: "ch_constants (chunk_write c b line) = ch_constants c"
  by (simp add: chunk_write_def Let_def)

lemma ch_code_write_uint16:
  "ch_code (chunk_write_uint16 c v line) = ch_code c @ [ucast (v AND 0xFF), ucast (drop_bit 8 v AND 0xFF)]"
  by (simp add: chunk_write_uint16_def Let_def)

fun write_all :: "chunk \<Rightarrow> (byte \<times> int) list \<Rightarrow> chunk" where
  "write_all c [] = c"
| "write_all c ((b, line) # ws) = write_all (chunk_write c b line) ws"

lemma write_all_append: "write_all c (us @ ws) = write_all (write_all c us) ws"
  by (induction c us rule: write_all.induct) auto

lemma ch_code_write_all: "ch_code (write_all c ws) = ch_code c @ map fst ws"
  by (induction c ws rule: write_all.induct) auto

section \<open>The line table\<close>

text \<open>The meaning of the table: the last entry that starts at or before the offset.\<close>

definition line_of :: "line_entry list \<Rightarrow> nat \<Rightarrow> int" where
  "line_of lines offset =
     (let es = filter (\<lambda>e. le_offset e \<le> offset) lines
      in if es = [] then 0 else le_line (last es))"

definition lines_ok :: "chunk \<Rightarrow> bool" where
  "lines_ok c \<longleftrightarrow> sorted_wrt (<) (map le_offset (ch_lines c)) \<and>
     (\<forall>e \<in> set (ch_lines c). le_offset e < length (ch_code c)) \<and>
     (ch_lines c = [] \<longrightarrow> ch_code c = [])"

lemma lines_ok_init: "lines_ok chunk_init"
  by (simp add: lines_ok_def chunk_init_def)

lemma lines_ok_write: "lines_ok c \<Longrightarrow> lines_ok (chunk_write c b line)"
  by (force simp: lines_ok_def chunk_write_def Let_def sorted_wrt_append less_Suc_eq)

lemma lines_ok_write_all: "lines_ok c \<Longrightarrow> lines_ok (write_all c ws)"
  by (induction c ws rule: write_all.induct) (auto simp: lines_ok_write)

lemma sorted_filter_take:
  assumes "sorted_wrt (<) (map le_offset lines)" "n \<le> length lines"
    and "\<forall>i < n. le_offset (lines ! i) \<le> x"
    and "\<forall>i. n \<le> i \<and> i < length lines \<longrightarrow> x < le_offset (lines ! i)"
  shows "filter (\<lambda>e. le_offset e \<le> x) lines = take n lines"
proof -
  have "filter (\<lambda>e. le_offset e \<le> x) (take n lines) = take n lines"
    using assms(2,3) by (auto simp: filter_id_conv in_set_conv_nth)
  moreover have "filter (\<lambda>e. le_offset e \<le> x) (drop n lines) = []"
    using assms(2,4) by (auto simp: filter_empty_conv in_set_conv_nth not_le)
  ultimately have "filter (\<lambda>e. le_offset e \<le> x) (take n lines @ drop n lines) = take n lines"
    by (simp only: filter_append append_Nil2)
  then show ?thesis by simp
qed

lemma get_line_loop_line_of:
  assumes "sorted_wrt (<) (map le_offset lines)"
    and "0 \<le> lo" "lo \<le> hi + 1" "hi < int (length lines)"
    and "\<forall>i < nat lo. le_offset (lines ! i) \<le> x"
    and "\<forall>i. hi < int i \<and> i < length lines \<longrightarrow> x < le_offset (lines ! i)"
    and "line = (if lo = 0 then 0 else le_line (lines ! nat (lo - 1)))"
  shows "get_line_loop lines x lo hi line = line_of lines x"
  using assms
proof (induction lines x lo hi line rule: get_line_loop.induct)
  case (1 lines x lo hi line)
  note sorted = "1.prems"(1)
  show ?case
  proof (cases "lo \<le> hi")
    case False
    with "1.prems" have hi: "hi = lo - 1" by simp
    have "filter (\<lambda>e. le_offset e \<le> x) lines = take (nat lo) lines"
      using "1.prems" hi by (intro sorted_filter_take) auto
    moreover have "get_line_loop lines x lo hi line = line"
      using False by (simp add: get_line_loop.simps [of lines x lo])
    moreover have "last (take (nat lo) lines) = lines ! nat (lo - 1)" if "lo \<noteq> 0"
    proof -
      have "nat lo \<le> length lines" "0 < nat lo" using "1.prems" hi that by auto
      moreover have "nat (lo - 1) = nat lo - 1" using "1.prems"(2) by simp
      ultimately show ?thesis by (subst last_conv_nth) auto
    qed
    ultimately show ?thesis
      using "1.prems" hi by (auto simp: line_of_def Let_def)
  next
    case True
    define mid where "mid = (lo + hi) div 2"
    have mid: "lo \<le> mid" "mid \<le> hi" "nat mid < length lines"
      using True "1.prems"(2,4) by (auto simp: mid_def)
    have mono: "le_offset (lines ! i) < le_offset (lines ! j)" if "i < j" "j < length lines" for i j
      using sorted that by (auto simp: sorted_wrt_iff_nth_less)
    show ?thesis
    proof (cases "le_offset (lines ! nat mid) \<le> x")
      case le: True
      have "le_offset (lines ! i) \<le> x" if "i < nat (mid + 1)" for i
      proof (cases "i = nat mid")
        case False
        with that have "i < nat mid" using mid "1.prems"(2) by linarith
        with mono [of i "nat mid"] mid le show ?thesis by simp
      qed (use le in simp)
      then have "get_line_loop lines x (mid + 1) hi (le_line (lines ! nat mid)) = line_of lines x"
        using "1.IH"(1) [OF True refl] "1.prems" mid le by (simp add: mid_def [symmetric])
      then show ?thesis
        using True le by (simp add: get_line_loop.simps [of lines x lo] mid_def [symmetric] Let_def)
    next
      case gt: False
      have "x < le_offset (lines ! i)" if "mid - 1 < int i" "i < length lines" for i
      proof (cases "i = nat mid")
        case False
        with that have "nat mid < i" using mid "1.prems"(2) by linarith
        with mono [of "nat mid" i] that gt show ?thesis by simp
      qed (use gt in simp)
      then have "get_line_loop lines x lo (mid - 1) line = line_of lines x"
        using "1.IH"(2) [OF True refl] "1.prems" mid gt by (simp add: mid_def [symmetric])
      then show ?thesis
        using True gt by (simp add: get_line_loop.simps [of lines x lo] mid_def [symmetric] Let_def)
    qed
  qed
qed

lemma chunk_get_line_line_of:
  assumes "lines_ok c"
  shows "chunk_get_line c i = line_of (ch_lines c) i"
  unfolding chunk_get_line_def
  using assms by (intro get_line_loop_line_of) (auto simp: lines_ok_def)

lemma line_of_append_later:
  "x < le_offset e \<Longrightarrow> line_of (lines @ [e]) x = line_of lines x"
  by (simp add: line_of_def)

lemma line_of_append_here:
  "le_offset e \<le> x \<Longrightarrow> line_of (lines @ [e]) x = le_line e"
  by (simp add: line_of_def Let_def)

lemma line_of_last:
  assumes "lines \<noteq> []" "\<forall>e \<in> set lines. le_offset e \<le> x"
  shows "line_of lines x = le_line (last lines)"
proof -
  have "filter (\<lambda>e. le_offset e \<le> x) lines = lines" using assms(2) by (simp add: filter_id_conv)
  with assms(1) show ?thesis by (simp add: line_of_def)
qed

lemma line_of_write:
  assumes "lines_ok c"
  shows "line_of (ch_lines (chunk_write c b line)) (length (ch_code c)) = line"
    and "i < length (ch_code c) \<Longrightarrow>
      line_of (ch_lines (chunk_write c b line)) i = line_of (ch_lines c) i"
  using assms
  by (auto simp: chunk_write_def Let_def line_of_append_here line_of_append_later lines_ok_def
      less_imp_le intro!: line_of_last)

lemma line_of_write_all_old:
  "lines_ok c \<Longrightarrow> i < length (ch_code c) \<Longrightarrow>
    line_of (ch_lines (write_all c ws)) i = line_of (ch_lines c) i"
  by (induction c ws rule: write_all.induct) (auto simp: lines_ok_write line_of_write)

lemma line_of_write_all:
  "lines_ok c \<Longrightarrow> j < length ws \<Longrightarrow>
    line_of (ch_lines (write_all c ws)) (length (ch_code c) + j) = snd (ws ! j)"
proof (induction c ws arbitrary: j rule: write_all.induct)
  case (2 c b line ws)
  show ?case
  proof (cases j)
    case 0
    then show ?thesis
      using 2 line_of_write_all_old [of "chunk_write c b line" "length (ch_code c)" ws]
      by (simp add: lines_ok_write line_of_write)
  next
    case (Suc j')
    then show ?thesis using 2 by (simp add: lines_ok_write)
  qed
qed simp

section \<open>Operands\<close>

text \<open>The low byte of a word; the emitters mask before they truncate.\<close>

lemma low_byte16: "(ucast (v AND 0xFF) :: byte) = ucast (v :: uint16)"
proof -
  have m: "(0xFF :: uint16) = mask 8" by (simp add: mask_eq_exp_minus_1)
  show ?thesis unfolding m by (auto intro!: bit_word_eqI simp: bit_simps)
qed

lemma low_byte64: "(ucast (v AND 0xFF) :: byte) = ucast (v :: uint64)"
proof -
  have m: "(0xFF :: uint64) = mask 8" by (simp add: mask_eq_exp_minus_1)
  show ?thesis unfolding m by (auto intro!: bit_word_eqI simp: bit_simps)
qed

lemma uint16_bytes:
  "(ucast (ucast v :: byte) :: uint16) OR push_bit 8 (ucast (ucast (drop_bit 8 v) :: byte)) = v"
  by (rule bit_word_eqI) (auto simp: bit_simps)

lemma take_bit_step:
  "take_bit k v OR push_bit k (ucast (ucast (drop_bit k v) :: byte)) = take_bit (k + 8) (v :: uint64)"
  by (rule bit_word_eqI) (auto simp: bit_simps)

lemma read_le_correct:
  assumes "\<And>j. j < i + n \<Longrightarrow> nth_opt code (ip + j) = Some (ucast (drop_bit (8 * j) v))"
    and "acc = take_bit (8 * i) v"
  shows "read_le n i code ip acc = Some (take_bit (8 * (i + n)) v)"
  using assms
proof (induction n arbitrary: i acc)
  case (Suc n)
  have "acc OR push_bit (i * 8) (ucast (ucast (drop_bit (8 * i) v) :: byte)) = take_bit (8 * Suc i) v"
    using take_bit_step [of "8 * i" v] Suc.prems(2) by (simp add: mult.commute algebra_simps)
  then show ?case
    using Suc.IH [of "Suc i"] Suc.prems(1) [of i] Suc.prems(1) by (simp del: nth_opt_Some)
qed simp

lemma ch_code_bits8:
  "ch_code (chunk_write_bits8 n c v line) =
     ch_code c @ map (\<lambda>j. ucast (drop_bit (8 * j) v)) [0..<n]"
proof (induction n arbitrary: c v)
  case (Suc n)
  have "[0..<Suc n] = 0 # map Suc [0..<n]" by (simp add: map_Suc_upt upt_conv_Cons del: upt_Suc)
  then show ?case
    by (simp add: Suc low_byte64 drop_bit_drop_bit o_def add.commute del: upt_Suc)
qed simp

text \<open>The arithmetic shift of \<^verbatim>\<open>chunk_write_int64\<close> produces the same bytes as a logical one.\<close>

lemma low_byte_signed_drop_bit:
  "k \<le> 56 \<Longrightarrow> (ucast (signed_drop_bit k v) :: byte) = ucast (drop_bit k (v :: uint64))"
  by (rule bit_word_eqI) (auto simp: bit_simps min_def)

lemma ch_code_bytes8:
  assumes "8 * n + k \<le> 64"
  shows "ch_code (chunk_write_bytes8 n c (signed_drop_bit k v) line) =
     ch_code c @ map (\<lambda>j. ucast (drop_bit (8 * j + k) v)) [0..<n]"
  using assms
proof (induction n arbitrary: c k)
  case (Suc n)
  have upt: "[0..<Suc n] = 0 # map Suc [0..<n]" by (simp add: map_Suc_upt upt_conv_Cons del: upt_Suc)
  have shift: "signed_drop_bit 8 (signed_drop_bit k v) = signed_drop_bit (k + 8) v"
    by (rule bit_word_eqI) (auto simp: bit_simps ac_simps)
  have "ch_code (chunk_write_bytes8 n (chunk_write c (ucast (signed_drop_bit k v AND 0xFF)) line)
      (signed_drop_bit (k + 8) v) line) =
    (ch_code c @ [ucast (signed_drop_bit k v AND 0xFF)]) @
      map (\<lambda>j. ucast (drop_bit (8 * j + (k + 8)) v)) [0..<n]"
    using Suc.prems by (subst Suc.IH) auto
  then show ?case
    using Suc.prems unfolding upt
    by (simp add: shift low_byte64 low_byte_signed_drop_bit o_def algebra_simps del: upt_Suc)
qed simp

lemma read_uint16_write:
  "read_uint16 (ch_code (chunk_write_uint16 c v line) @ rest) (length (ch_code c)) =
     Some (v, length (ch_code c) + 2)"
  by (simp add: read_uint16_def ch_code_write_uint16 low_byte16 nth_opt_def nth_append uint16_bytes)

lemma read_double_write:
  "read_double (ch_code (chunk_write_double c v line) @ rest) (length (ch_code c)) =
     Some (v, length (ch_code c) + 8)"
proof -
  have "read_le 8 0 (ch_code (chunk_write_double c v line) @ rest) (length (ch_code c)) 0 =
      Some (take_bit (8 * (0 + 8)) v)"
    by (rule read_le_correct)
      (auto simp: chunk_write_double_def ch_code_bits8 nth_append nth_opt_def simp del: upt_Suc)
  moreover have "take_bit 64 v = v" by (rule bit_word_eqI) (auto simp: bit_simps)
  ultimately show ?thesis by (simp add: read_double_def)
qed

lemma read_int64_write:
  "read_int64 (ch_code (chunk_write_int64 c v line) @ rest) (length (ch_code c)) =
     Some (v, length (ch_code c) + 8)"
proof -
  have code: "ch_code (chunk_write_int64 c v line) =
      ch_code c @ map (\<lambda>j. ucast (drop_bit (8 * j) v)) [0..<8]"
    using ch_code_bytes8 [of 8 0 c v line] by (simp add: chunk_write_int64_def del: upt_Suc)
  have "read_le 8 0 (ch_code (chunk_write_int64 c v line) @ rest) (length (ch_code c)) 0 =
      Some (take_bit (8 * (0 + 8)) v)"
    by (rule read_le_correct) (auto simp: code nth_append nth_opt_def simp del: upt_Suc)
  moreover have "take_bit 64 v = v" by (rule bit_word_eqI) (auto simp: bit_simps)
  ultimately show ?thesis by (simp add: read_int64_def)
qed

lemma chunk_patch_int16_read:
  assumes "chunk_patch_int16 c offset v = Some c'"
  shows "read_int16 (ch_code c') offset = Some (sint v, offset + 2)"
    and "j \<noteq> offset \<Longrightarrow> j \<noteq> offset + 1 \<Longrightarrow> nth_opt (ch_code c') j = nth_opt (ch_code c) j"
    and "ch_lines c' = ch_lines c"
  using assms
  by (auto simp: chunk_patch_int16_def set_nth_def bind_Some_iff read_int16_def read_uint16_def
      low_byte16 uint16_bytes nth_opt_def split: if_splits)

end
