(* ===== verification/Disasm.thy ===== *)
theory Disasm
  imports Chunk
begin

text \<open>
  The disassembler of \<^verbatim>\<open>src/vm/chunk.c\<close>.  What a helper prints is modelled as the mnemonic and the
  numbers shown; the layout of the text and the printed constant are not.  Each helper returns the
  offset of the next instruction, as the C functions do.
\<close>

type_synonym disasm_line = "string \<times> int list \<times> nat"

definition simple_instr :: "string \<Rightarrow> nat \<Rightarrow> disasm_line option" where
  "simple_instr name offset = Some (name, [], offset + 1)"

definition byte_instr :: "string \<Rightarrow> chunk \<Rightarrow> nat \<Rightarrow> disasm_line option" where
  "byte_instr name c offset = do {
     slot \<leftarrow> nth_opt (ch_code c) (offset + 1);
     Some (name, [uint slot], offset + 2)
   }"

definition uint16_instr :: "string \<Rightarrow> chunk \<Rightarrow> nat \<Rightarrow> disasm_line option" where
  "uint16_instr name c offset = do {
     (idx, _) \<leftarrow> read_uint16 (ch_code c) (offset + 1);
     Some (name, [uint idx], offset + 3)
   }"

definition jump_instr :: "string \<Rightarrow> int \<Rightarrow> chunk \<Rightarrow> nat \<Rightarrow> disasm_line option" where
  "jump_instr name sign c offset = do {
     (jump, _) \<leftarrow> read_int16 (ch_code c) (offset + 1);
     Some (name, [int offset, int offset + 3 + sign * jump], offset + 3)
   }"

definition const_instr_i64 :: "string \<Rightarrow> chunk \<Rightarrow> nat \<Rightarrow> disasm_line option" where
  "const_instr_i64 name c offset = do {
     (v, _) \<leftarrow> read_int64 (ch_code c) (offset + 1);
     Some (name, [sint v], offset + 9)
   }"

text \<open>The float operand is shown by its bit pattern.\<close>

definition const_instr_f64 :: "string \<Rightarrow> chunk \<Rightarrow> nat \<Rightarrow> disasm_line option" where
  "const_instr_f64 name c offset = do {
     (bits, _) \<leftarrow> read_double (ch_code c) (offset + 1);
     Some (name, [uint bits], offset + 9)
   }"

definition invoke_instr :: "chunk \<Rightarrow> nat \<Rightarrow> disasm_line option" where
  "invoke_instr c offset = do {
     (name_idx, _) \<leftarrow> read_uint16 (ch_code c) (offset + 1);
     argc \<leftarrow> nth_opt (ch_code c) (offset + 3);
     Some (''INVOKE'', [uint name_idx, uint argc], offset + 4)
   }"

definition handler_instr :: "chunk \<Rightarrow> nat \<Rightarrow> disasm_line option" where
  "handler_instr c offset = do {
     (off, _) \<leftarrow> read_int16 (ch_code c) (offset + 1);
     slot \<leftarrow> nth_opt (ch_code c) (offset + 3);
     Some (''PUSH_EXC_HANDLER'', (if slot = 0xFF then [] else [uint slot]) @ [int offset + 4 + off],
           offset + 4)
   }"

definition chunk_disassemble_op :: "chunk \<Rightarrow> nat \<Rightarrow> opcode \<Rightarrow> disasm_line option" where
  "chunk_disassemble_op c offset op =
     (case op of
        OP_PUSH_NULL \<Rightarrow> simple_instr ''PUSH_NULL'' offset
      | OP_PUSH_BOOL \<Rightarrow> byte_instr ''PUSH_BOOL'' c offset
      | OP_PUSH_INT \<Rightarrow> const_instr_i64 ''PUSH_INT'' c offset
      | OP_PUSH_FLOAT \<Rightarrow> const_instr_f64 ''PUSH_FLOAT'' c offset
      | OP_PUSH_CONST \<Rightarrow> uint16_instr ''PUSH_CONST'' c offset
      | OP_PUSH_STRING \<Rightarrow> uint16_instr ''PUSH_STRING'' c offset
      | OP_POP \<Rightarrow> simple_instr ''POP'' offset
      | OP_DUP \<Rightarrow> simple_instr ''DUP'' offset
      | OP_LOAD_LOCAL \<Rightarrow> byte_instr ''LOAD_LOCAL'' c offset
      | OP_STORE_LOCAL \<Rightarrow> byte_instr ''STORE_LOCAL'' c offset
      | OP_LOAD_GLOBAL \<Rightarrow> uint16_instr ''LOAD_GLOBAL'' c offset
      | OP_STORE_GLOBAL \<Rightarrow> uint16_instr ''STORE_GLOBAL'' c offset
      | OP_DEFINE_GLOBAL \<Rightarrow> uint16_instr ''DEFINE_GLOBAL'' c offset
      | OP_GET_UPVALUE \<Rightarrow> byte_instr ''GET_UPVALUE'' c offset
      | OP_SET_UPVALUE \<Rightarrow> byte_instr ''SET_UPVALUE'' c offset
      | OP_GET_ATTR \<Rightarrow> uint16_instr ''GET_ATTR'' c offset
      | OP_SET_ATTR \<Rightarrow> uint16_instr ''SET_ATTR'' c offset
      | OP_GET_INDEX \<Rightarrow> simple_instr ''GET_INDEX'' offset
      | OP_SET_INDEX \<Rightarrow> simple_instr ''SET_INDEX'' offset
      | OP_GET_ITER \<Rightarrow> simple_instr ''GET_ITER'' offset
      | OP_ADD \<Rightarrow> simple_instr ''ADD'' offset
      | OP_SUB \<Rightarrow> simple_instr ''SUB'' offset
      | OP_MUL \<Rightarrow> simple_instr ''MUL'' offset
      | OP_DIV \<Rightarrow> simple_instr ''DIV'' offset
      | OP_MOD \<Rightarrow> simple_instr ''MOD'' offset
      | OP_POW \<Rightarrow> simple_instr ''POW'' offset
      | OP_FLOOR_DIV \<Rightarrow> simple_instr ''FLOOR_DIV'' offset
      | OP_NEGATE \<Rightarrow> simple_instr ''NEGATE'' offset
      | OP_NOT \<Rightarrow> simple_instr ''NOT'' offset
      | OP_EQ \<Rightarrow> simple_instr ''EQ'' offset
      | OP_NEQ \<Rightarrow> simple_instr ''NEQ'' offset
      | OP_LT \<Rightarrow> simple_instr ''LT'' offset
      | OP_LTE \<Rightarrow> simple_instr ''LTE'' offset
      | OP_GT \<Rightarrow> simple_instr ''GT'' offset
      | OP_GTE \<Rightarrow> simple_instr ''GTE'' offset
      | OP_AND \<Rightarrow> jump_instr ''AND'' 1 c offset
      | OP_OR \<Rightarrow> jump_instr ''OR'' 1 c offset
      | OP_JUMP \<Rightarrow> jump_instr ''JUMP'' 1 c offset
      | OP_JUMP_IF_FALSE \<Rightarrow> jump_instr ''JUMP_IF_FALSE'' 1 c offset
      | OP_LOOP \<Rightarrow> jump_instr ''LOOP'' (-1) c offset
      | OP_CALL \<Rightarrow> byte_instr ''CALL'' c offset
      | OP_RETURN \<Rightarrow> simple_instr ''RETURN'' offset
      | OP_CREATE_LIST \<Rightarrow> uint16_instr ''CREATE_LIST'' c offset
      | OP_CREATE_DICT \<Rightarrow> uint16_instr ''CREATE_DICT'' c offset
      | OP_CLOSURE \<Rightarrow> uint16_instr ''CLOSURE'' c offset
      | OP_CLOSE_UPVALUE \<Rightarrow> simple_instr ''CLOSE_UPVALUE'' offset
      | OP_CLASS \<Rightarrow> uint16_instr ''CLASS'' c offset
      | OP_METHOD \<Rightarrow> uint16_instr ''METHOD'' c offset
      | OP_INHERIT \<Rightarrow> simple_instr ''INHERIT'' offset
      | OP_MARK_STRUCT \<Rightarrow> simple_instr ''MARK_STRUCT'' offset
      | OP_MARK_ENUM \<Rightarrow> simple_instr ''MARK_ENUM'' offset
      | OP_ISINSTANCE \<Rightarrow> simple_instr ''ISINSTANCE'' offset
      | OP_GET_SUPER \<Rightarrow> uint16_instr ''GET_SUPER'' c offset
      | OP_INVOKE \<Rightarrow> invoke_instr c offset
      | OP_CREATE_TASK \<Rightarrow> simple_instr ''CREATE_TASK'' offset
      | OP_SPAWN_CALL \<Rightarrow> byte_instr ''SPAWN_CALL'' c offset
      | OP_AWAIT \<Rightarrow> simple_instr ''AWAIT'' offset
      | OP_YIELD \<Rightarrow> simple_instr ''YIELD'' offset
      | OP_BIT_AND \<Rightarrow> simple_instr ''BIT_AND'' offset
      | OP_BIT_OR \<Rightarrow> simple_instr ''BIT_OR'' offset
      | OP_BIT_XOR \<Rightarrow> simple_instr ''BIT_XOR'' offset
      | OP_BIT_NOT \<Rightarrow> simple_instr ''BIT_NOT'' offset
      | OP_SHL \<Rightarrow> simple_instr ''SHL'' offset
      | OP_SHR \<Rightarrow> simple_instr ''SHR'' offset
      | OP_PUSH_EXCEPTION_HANDLER \<Rightarrow> handler_instr c offset
      | OP_POP_EXCEPTION_HANDLER \<Rightarrow> simple_instr ''POP_EXC_HANDLER'' offset
      | OP_RAISE \<Rightarrow> simple_instr ''RAISE'' offset
      | OP_IMPORT \<Rightarrow> uint16_instr ''IMPORT'' c offset
      | OP_IMPORT_STAR \<Rightarrow> simple_instr ''IMPORT_STAR'' offset
      | OP_HALT \<Rightarrow> simple_instr ''HALT'' offset
      | _ \<Rightarrow> Some (''Unknown opcode'', [int (opcode_number op)], offset + 1))"

definition chunk_disassemble_instruction :: "chunk \<Rightarrow> nat \<Rightarrow> disasm_line option" where
  "chunk_disassemble_instruction c offset = do {
     b \<leftarrow> nth_opt (ch_code c) offset;
     (case opcode_of_byte b of
        Some op \<Rightarrow> chunk_disassemble_op c offset op
      | None \<Rightarrow> Some (''Unknown opcode'', [uint b], offset + 1))
   }"

lemmas instr_defs = simple_instr_def byte_instr_def uint16_instr_def jump_instr_def
  const_instr_i64_def const_instr_f64_def invoke_instr_def handler_instr_def

lemma chunk_disassemble_op_advances:
  "chunk_disassemble_op c offset op = Some (name, ns, next) \<Longrightarrow> offset < next"
  by (cases op)
    (auto simp: chunk_disassemble_op_def instr_defs bind_Some_iff)

lemma chunk_disassemble_instruction_advances:
  "chunk_disassemble_instruction c offset = Some (name, ns, next) \<Longrightarrow> offset < next"
  by (auto simp: chunk_disassemble_instruction_def bind_Some_iff
      split: option.splits dest: chunk_disassemble_op_advances)

function chunk_disassemble_from :: "chunk \<Rightarrow> nat \<Rightarrow> disasm_line list option" where
  "chunk_disassemble_from c offset =
     (if offset < length (ch_code c) then
        (case chunk_disassemble_instruction c offset of
           None \<Rightarrow> None
         | Some (name, ns, next) \<Rightarrow>
             map_option ((#) (name, ns, next)) (chunk_disassemble_from c next))
      else Some [])"
  by pat_completeness auto
termination
  by (relation "measure (\<lambda>(c, offset). length (ch_code c) - offset)")
    (auto dest!: chunk_disassemble_instruction_advances)

declare chunk_disassemble_from.simps [simp del]

definition chunk_disassemble :: "chunk \<Rightarrow> disasm_line list option" where
  "chunk_disassemble c = chunk_disassemble_from c 0"

end
