(* ===== verification/Operands.thy ===== *)
theory Operands
  imports ChunkProps Disasm
begin

text \<open>
  The operands of instructions, as an interface between the emitters of \<^verbatim>\<open>chunk.c\<close> and the readers of
  the dispatch loop: what an emitter appends, the matching reader decodes at that offset, whatever code
  follows.
\<close>

locale operand_codec =
  fixes emit :: "chunk \<Rightarrow> 'a \<Rightarrow> int \<Rightarrow> chunk"
    and decode :: "byte list \<Rightarrow> nat \<Rightarrow> ('a \<times> nat) option"
    and width :: nat
  assumes emit_appends: "\<exists>bs. length bs = width \<and> ch_code (emit c v line) = ch_code c @ bs"
    and decode_emit: "decode (ch_code (emit c v line) @ rest) (length (ch_code c)) = Some (v, length (ch_code c) + width)"

text \<open>A run of operands, emitted with their lines and decoded one after the other.\<close>

fun emit_all :: "(chunk \<Rightarrow> 'a \<Rightarrow> int \<Rightarrow> chunk) \<Rightarrow> chunk \<Rightarrow> ('a \<times> int) list \<Rightarrow> chunk" where
  "emit_all emit c [] = c"
| "emit_all emit c ((v, line) # vs) = emit_all emit (emit c v line) vs"

fun decode_all :: "(byte list \<Rightarrow> nat \<Rightarrow> ('a \<times> nat) option) \<Rightarrow> nat \<Rightarrow> byte list \<Rightarrow> nat \<Rightarrow> ('a list \<times> nat) option" where
  "decode_all decode 0 code ip = Some ([], ip)"
| "decode_all decode (Suc n) code ip = do {
     (v, ip) \<leftarrow> decode code ip;
     (vs, ip) \<leftarrow> decode_all decode n code ip;
     Some (v # vs, ip)
   }"

context operand_codec
begin

lemma emit_length: "length (ch_code (emit c v line)) = length (ch_code c) + width"
proof -
  obtain bs where "length bs = width" "ch_code (emit c v line) = ch_code c @ bs" using emit_appends by blast
  then show ?thesis by simp
qed

lemma emit_all_appends: "\<exists>bs. length bs = length vs * width \<and> ch_code (emit_all emit c vs) = ch_code c @ bs"
proof (induction vs arbitrary: c)
  case (Cons x vs)
  obtain v line where x: "x = (v, line)" by (cases x)
  obtain as where as: "length as = width" "ch_code (emit c v line) = ch_code c @ as" using emit_appends by blast
  obtain bs where "length bs = length vs * width" "ch_code (emit_all emit (emit c v line) vs) = ch_code (emit c v line) @ bs"
    using Cons by blast
  then show ?case using as x by (intro exI [of _ "as @ bs"]) simp
qed simp

lemma decode_all_emit_all:
  "decode_all decode (length vs) (ch_code (emit_all emit c vs) @ rest) (length (ch_code c)) =
    Some (map fst vs, length (ch_code c) + length vs * width)"
proof (induction vs arbitrary: c)
  case (Cons x vs)
  obtain v line where x: "x = (v, line)" by (cases x)
  obtain bs where bs: "ch_code (emit_all emit (emit c v line) vs) = ch_code (emit c v line) @ bs"
    using emit_all_appends by blast
  then have "decode (ch_code (emit_all emit c (x # vs)) @ rest) (length (ch_code c)) = Some (v, length (ch_code c) + width)"
    using decode_emit [of c v line "bs @ rest"] x by simp
  then show ?case using Cons [of "emit c v line"] x by (simp add: emit_length ac_simps)
qed simp

end

section \<open>The operands of the instruction set\<close>

interpretation byte_operand: operand_codec chunk_write read_byte 1
proof
  show "\<exists>bs. length bs = 1 \<and> ch_code (chunk_write c v line) = ch_code c @ bs" for c v line
    by (intro exI [of _ "[v]"]) simp
  show "read_byte (ch_code (chunk_write c v line) @ rest) (length (ch_code c)) = Some (v, length (ch_code c) + 1)"
    for c v line rest by (simp add: read_byte_def nth_opt_def nth_append)
qed

interpretation uint16_operand: operand_codec chunk_write_uint16 read_uint16 2
proof
  show "\<exists>bs. length bs = 2 \<and> ch_code (chunk_write_uint16 c v line) = ch_code c @ bs" for c v line
    by (simp add: ch_code_write_uint16)
qed (rule read_uint16_write)

interpretation int64_operand: operand_codec chunk_write_int64 read_int64 8
proof
  show "\<exists>bs. length bs = 8 \<and> ch_code (chunk_write_int64 c v line) = ch_code c @ bs" for c v line
    using ch_code_bytes8 [of 8 0 c v line] by (simp add: chunk_write_int64_def del: upt_Suc)
qed (rule read_int64_write)

interpretation double_operand: operand_codec chunk_write_double read_double 8
proof
  show "\<exists>bs. length bs = 8 \<and> ch_code (chunk_write_double c v line) = ch_code c @ bs" for c v line
    by (simp add: chunk_write_double_def ch_code_bits8 del: upt_Suc)
qed (rule read_double_write)

end
