(* ===== verification/SliceProps.thy ===== *)
theory SliceProps
  imports IndexOps ObjectProps
begin

text \<open>
  Slices: the positions that \<open>a[start:end:step]\<close> means, and that the index arithmetic of \<^verbatim>\<open>OP_SLICE\<close> finds them.
\<close>

section \<open>Positions\<close>

definition wrapped :: "int \<Rightarrow> int \<Rightarrow> int" where
  "wrapped n i = (if i < 0 then i + n else i)"

text \<open>The positions of a slice of \<open>n\<close> elements: from the start, or from the end for a negative step; negative
  operands count from behind, and operands outside are cut to the range.\<close>

definition slice_positions :: "int \<Rightarrow> int option \<Rightarrow> int option \<Rightarrow> int \<Rightarrow> int list" where
  "slice_positions n a b k =
     (if 0 < k then
        let s = (case a of None \<Rightarrow> 0 | Some i \<Rightarrow> max 0 (wrapped n i)) in
        filter (\<lambda>i. s \<le> i \<and> (case b of None \<Rightarrow> True | Some j \<Rightarrow> i < wrapped n j) \<and> k dvd i - s) [0..n - 1]
      else
        let s = (case a of None \<Rightarrow> n - 1 | Some i \<Rightarrow> min (n - 1) (wrapped n i)) in
        rev (filter (\<lambda>i. i \<le> s \<and> (case b of None \<Rightarrow> True | Some j \<Rightarrow> wrapped n j < i) \<and> k dvd i - s) [0..n - 1]))"

text \<open>An operand of the opcode: null when it is left out.\<close>

definition operand_value :: "int64 option \<Rightarrow> flux_value" where
  "operand_value x = (case x of None \<Rightarrow> VAL_NULL | Some w \<Rightarrow> VAL_INT w)"

definition small_operand :: "int64 option \<Rightarrow> bool" where
  "small_operand x \<longleftrightarrow> (case x of None \<Rightarrow> True | Some w \<Rightarrow> \<bar>sint w\<bar> < 2 ^ 30)"

lemma int_of_int64_small:
  assumes "\<bar>sint w\<bar> < 2 ^ 30"
  shows "int_of_int64 w = sint w"
proof -
  have "sint (ucast w :: 32 word) = signed_take_bit 31 (sint w)"
    by (simp add: sint_uint signed_take_bit_take_bit uint_word_ariths(1) unsigned_ucast_eq)
  also have "\<dots> = sint w" using assms by (intro signed_take_bit_int_eq_self) simp_all
  finally show ?thesis by (simp add: int_of_int64_def)
qed

lemma operand_value_null [simp]: "operand_value x = VAL_NULL \<longleftrightarrow> x = None"
  by (cases x) (simp_all add: operand_value_def)

lemma slice_operand_value:
  "small_operand x \<Longrightarrow> slice_operand (operand_value x) d = Some (case x of None \<Rightarrow> d | Some w \<Rightarrow> sint w)"
  by (cases x) (simp_all add: slice_operand_def operand_value_def small_operand_def int_of_int64_small)

section \<open>The loop\<close>

lemma upto_filter_eq:
  "(\<And>x. a \<le> x \<and> x \<le> b \<and> P x \<longleftrightarrow> c \<le> x \<and> x \<le> d \<and> Q x) \<Longrightarrow> filter P [a..b] = filter Q [c..(d::int)]"
  by (intro sorted_distinct_set_unique sorted_wrt_filter) auto

lemma slice_indices_up:
  "0 < k \<Longrightarrow> - (2 ^ 31) \<le> i \<Longrightarrow> e + k \<le> 2 ^ 31 \<Longrightarrow> slice_indices i e k = Some (filter (\<lambda>x. k dvd x - i) [i..e - 1])"
proof (induction i e k rule: slice_indices.induct)
  case (1 i e k)
  show ?case
  proof (cases "i < e")
    case True
    have IH: "slice_indices (i + k) e k = Some (filter (\<lambda>x. k dvd x - (i + k)) [i + k..e - 1])"
      using "1.IH" "1.prems" True by simp
    have "filter (\<lambda>x. k dvd x - i) [i..e - 1] = i # filter (\<lambda>x. k dvd x - (i + k)) [i + k..e - 1]"
    proof (rule sorted_distinct_set_unique)
      show "set (filter (\<lambda>x. k dvd x - i) [i..e - 1]) = set (i # filter (\<lambda>x. k dvd x - (i + k)) [i + k..e - 1])"
        using True "1.prems"(1) by (auto simp: algebra_simps dest: zdvd_imp_le)
    qed (use "1.prems"(1) in \<open>auto intro: sorted_wrt_filter\<close>)
    then show ?thesis using IH True "1.prems" by (simp add: slice_indices.simps [of i])
  qed (use "1.prems"(1) in \<open>simp add: slice_indices.simps [of i]\<close>)
qed

lemma slice_indices_down:
  "k < 0 \<Longrightarrow> i < 2 ^ 31 \<Longrightarrow> - (2 ^ 31) \<le> e + k \<Longrightarrow> slice_indices i e k = Some (rev (filter (\<lambda>x. k dvd x - i) [e + 1..i]))"
proof (induction i e k rule: slice_indices.induct)
  case (1 i e k)
  show ?case
  proof (cases "e < i")
    case True
    have IH: "slice_indices (i + k) e k = Some (rev (filter (\<lambda>x. k dvd x - (i + k)) [e + 1..i + k]))"
      using "1.IH" "1.prems" True by simp
    have "filter (\<lambda>x. k dvd x - i) [e + 1..i] = filter (\<lambda>x. k dvd x - (i + k)) [e + 1..i + k] @ [i]"
    proof (rule sorted_distinct_set_unique)
      have "x \<le> i + k" if "k dvd x - i" "x \<le> i" "x \<noteq> i" for x
        using that zdvd_imp_le [of "- k" "i - x"] "1.prems"(1) by (simp add: dvd_diff_commute)
      then show "set (filter (\<lambda>x. k dvd x - i) [e + 1..i]) = set (filter (\<lambda>x. k dvd x - (i + k)) [e + 1..i + k] @ [i])"
        using True "1.prems"(1) by (auto simp: algebra_simps)
    qed (use "1.prems"(1) in \<open>auto simp: sorted_append intro: sorted_wrt_filter\<close>)
    then show ?thesis using IH True "1.prems" by (simp add: slice_indices.simps [of i])
  qed (use "1.prems"(1) in \<open>simp add: slice_indices.simps [of i]\<close>)
qed

lemma slice_loop_positions:
  assumes "k \<noteq> 0" "\<bar>k\<bar> < 2 ^ 30" "n < 2 ^ 30" "small_operand a" "small_operand b"
  obtains s e "is" where "slice_bounds k (int n) (operand_value a) (operand_value b) = Some (s, e)" "slice_indices s e k = Some is"
    "filter (\<lambda>i. in_bounds i n) is = slice_positions (int n) (map_option sint a) (map_option sint b) k"
    "0 < k \<or> (\<exists>w. b = Some w \<and> - 1 \<le> wrapped (int n) (sint w)) \<Longrightarrow> \<forall>i \<in> set is. in_bounds i n"
proof -
  let ?wrap = "\<lambda>x. if x < 0 then x + int n else x" and ?n = "int n"
  have n: "0 \<le> ?n" "?n < 2 ^ 30" using assms(3) by simp_all
  show thesis
  proof (cases "0 < k")
    case True
    define s where "s = (case a of None \<Rightarrow> 0 | Some w \<Rightarrow> max 0 (wrapped ?n (sint w)))"
    define e where "e = (case b of None \<Rightarrow> ?n | Some w \<Rightarrow> min ?n (wrapped ?n (sint w)))"
    have se: "0 \<le> s" "e \<le> ?n" "- (2 ^ 31) \<le> s" using n by (auto simp: s_def e_def split: option.splits)
    show thesis
    proof (rule that)
      show "slice_bounds k ?n (operand_value a) (operand_value b) = Some (s, e)"
        using True n assms(4,5) by (simp add: slice_bounds_def slice_operand_value s_def e_def wrapped_def Let_def split: option.split)
      show i: "slice_indices s e k = Some (filter (\<lambda>x. k dvd x - s) [s..e - 1])"
        using True se n assms(2) by (intro slice_indices_up) simp_all
      show "filter (\<lambda>i. in_bounds i n) (filter (\<lambda>x. k dvd x - s) [s..e - 1]) =
          slice_positions ?n (map_option sint a) (map_option sint b) k"
        using True se unfolding slice_positions_def Let_def filter_filter
        by (simp, intro upto_filter_eq) (auto simp: s_def e_def in_bounds_def split: option.splits)
      show "\<forall>i \<in> set (filter (\<lambda>x. k dvd x - s) [s..e - 1]). in_bounds i n" using se by (auto simp: in_bounds_def)
    qed
  next
    case False
    then have k: "k < 0" using assms(1) by simp
    define s where "s = (case a of None \<Rightarrow> ?n - 1 | Some w \<Rightarrow> min (?n - 1) (wrapped ?n (sint w)))"
    define e where "e = (case b of None \<Rightarrow> - (?n + 1) | Some w \<Rightarrow> wrapped ?n (sint w))"
    have se: "s \<le> ?n - 1" "- (2 ^ 30) \<le> e" "s < 2 ^ 31"
      using n assms(5) by (auto simp: s_def e_def wrapped_def small_operand_def split: option.splits)
    show thesis
    proof (rule that)
      show "slice_bounds k ?n (operand_value a) (operand_value b) = Some (s, e)"
        using k n assms(4,5) by (auto simp: slice_bounds_def slice_operand_value s_def e_def wrapped_def Let_def split: option.split)
      show i: "slice_indices s e k = Some (rev (filter (\<lambda>x. k dvd x - s) [e + 1..s]))"
        using k se n assms(2) by (intro slice_indices_down) simp_all
      show "filter (\<lambda>i. in_bounds i n) (rev (filter (\<lambda>x. k dvd x - s) [e + 1..s])) =
          slice_positions ?n (map_option sint a) (map_option sint b) k"
        using k se n unfolding slice_positions_def Let_def rev_filter [symmetric] filter_filter
        by (simp, intro upto_filter_eq) (auto simp: s_def e_def in_bounds_def split: option.splits)
      show "\<forall>i \<in> set (rev (filter (\<lambda>x. k dvd x - s) [e + 1..s])). in_bounds i n"
        if "0 < k \<or> (\<exists>w. b = Some w \<and> - 1 \<le> wrapped ?n (sint w))"
        using that k se by (auto simp: in_bounds_def e_def)
    qed
  qed
qed


section \<open>The heap\<close>

text \<open>Filling a list keeps the machine well formed as long as its elements are live.\<close>

lemma gc_ok_put_list:
  assumes ok: "gc_ok vm" and l: "hpayload (vm_heap vm) p = Some (OBJ_LIST l)"
    and live: "set (payload_refs (OBJ_LIST l')) \<subseteq> allocated (vm_heap vm)"
  obtains h where "hput (vm_heap vm) p (OBJ_LIST l') = Some h" "gc_ok (vm\<lparr>vm_heap := h\<rparr>)"
    "\<And>q. hpayload h q = (if q = p then Some (OBJ_LIST l') else hpayload (vm_heap vm) q)"
    "\<And>q. get_string h q = get_string (vm_heap vm) q" "allocated h = allocated (vm_heap vm)"
    "byte_drift (vm\<lparr>vm_heap := h\<rparr>) + of_nat (owned_size (OBJ_LIST l')) = byte_drift vm + of_nat (owned_size (OBJ_LIST l))"
proof -
  let ?h = "vm_heap vm"
  obtain ob where ob: "hget ?h p = Some ob" "payload ob = OBJ_LIST l" using l by (auto simp: hpayload_def)
  obtain h where h: "hput ?h p (OBJ_LIST l') = Some h" using ob hput_iff [of ?h p "OBJ_LIST l'"] by auto
  have pl: "hpayload h q = (if q = p then Some (OBJ_LIST l') else hpayload ?h q)" for q using hpayload_hput [OF h, of q] by (simp add: eq_commute)
  have str: "get_string h q = get_string ?h q" for q using l by (simp add: get_string_def pl)
  have alloc: "allocated h = allocated ?h"
  proof -
    have "q \<in> allocated g \<longleftrightarrow> hpayload g q \<noteq> None" for g q by (auto simp: allocated_def hpayload_def)
    then show ?thesis using l by (auto simp: pl split: if_splits)
  qed
  have "marked_set h = marked_set ?h"
    using h ob by (auto simp: marked_set_def hput_def hget_def nth_list_update split: option.splits if_splits)
  moreover have "heap_closed h"
    using ok live unfolding gc_ok_def heap_closed_def alloc by (auto simp: heap_refs_def pl)
  moreover have "strings_ok h" using ok by (simp add: gc_ok_def strings_ok_def string_ok_def str)
  moreover have "intern_ok h (vm_strings vm)"
    using ok intern_ok_cong [of "vm_strings vm" h ?h] by (simp add: gc_ok_def str)
  ultimately have "gc_ok (vm\<lparr>vm_heap := h\<rparr>)" using ok alloc by (simp add: gc_ok_def root_refs_def)
  moreover have "byte_drift (vm\<lparr>vm_heap := h\<rparr>) + of_nat (owned_size (OBJ_LIST l')) = byte_drift vm + of_nat (owned_size (OBJ_LIST l))"
  proof -
    have p: "p \<in> set (vm_objects vm)" and d: "distinct (vm_objects vm)"
      using ok ob by (auto simp: gc_ok_def allocated_def)
    have "(\<Sum>q \<in> set (vm_objects vm) - {p}. object_size h q) = (\<Sum>q \<in> set (vm_objects vm) - {p}. object_size ?h q)"
      by (intro sum.cong) (auto simp: object_size_def pl)
    moreover have "object_size h p + owned_size (OBJ_LIST l) = object_size ?h p + owned_size (OBJ_LIST l')"
      by (simp add: object_size_def pl l)
    ultimately have "held_bytes (vm\<lparr>vm_heap := h\<rparr>) + owned_size (OBJ_LIST l) = held_bytes vm + owned_size (OBJ_LIST l')"
      using sum.remove [OF _ p, of "object_size h"] sum.remove [OF _ p, of "object_size ?h"]
      by (simp add: held_bytes_def sum_list_distinct_conv_sum_set [OF d])
    then have "of_nat (held_bytes (vm\<lparr>vm_heap := h\<rparr>)) + of_nat (owned_size (OBJ_LIST l)) =
        (of_nat (held_bytes vm) + of_nat (owned_size (OBJ_LIST l')) :: uint64)"
      by (simp only: of_nat_add [symmetric])
    then show ?thesis by (simp add: byte_drift_def algebra_simps)
  qed
  ultimately show thesis by (intro that [OF h _ pl str alloc])
qed


lemma gc_ok_stack: "gc_ok vm \<Longrightarrow> set (values_refs vs) \<subseteq> allocated (vm_heap vm) \<Longrightarrow> gc_ok (vm\<lparr>vm_stack := vs\<rparr>)"
  by (simp add: gc_ok_def root_refs_def)

lemma gc_frame_stack_update: "gc_frame vm vm' \<Longrightarrow> gc_frame (vm\<lparr>vm_stack := vs\<rparr>) (vm'\<lparr>vm_stack := vs\<rparr>)"
proof -
  have "forget_heap (x\<lparr>vm_stack := vs\<rparr>) = (forget_heap x)\<lparr>vm_stack := vs\<rparr>" for x by (simp add: forget_heap_def)
  then show "gc_frame vm vm' \<Longrightarrow> gc_frame (vm\<lparr>vm_stack := vs\<rparr>) (vm'\<lparr>vm_stack := vs\<rparr>)" by (simp add: gc_frame_def)
qed

lemma values_refs_append [simp]: "values_refs (xs @ ys) = values_refs xs @ values_refs ys" "values_refs [] = []"
  "values_refs (v # ys) = value_refs v @ values_refs ys"
  by (simp_all add: values_refs_def)

lemma operand_value_refs [simp]: "value_refs (operand_value x) = []"
  by (cases x) (simp_all add: operand_value_def)

text \<open>The operands hold no objects, so nothing changes for the collector when they are popped.\<close>

lemma drop_operands:
  assumes "vm_stack vm = st @ [v, operand_value a, operand_value b, operand_value k]"
  shows "root_refs (vm\<lparr>vm_stack := st @ [v]\<rparr>) = root_refs vm" "reachable (vm\<lparr>vm_stack := st @ [v]\<rparr>) = reachable vm"
    "gc_ok (vm\<lparr>vm_stack := st @ [v]\<rparr>) = gc_ok vm" "interned (vm\<lparr>vm_stack := st @ [v]\<rparr>) = interned vm"
proof -
  show r: "root_refs (vm\<lparr>vm_stack := st @ [v]\<rparr>) = root_refs vm" using assms by (simp add: root_refs_def)
  show "reachable (vm\<lparr>vm_stack := st @ [v]\<rparr>) = reachable vm" "gc_ok (vm\<lparr>vm_stack := st @ [v]\<rparr>) = gc_ok vm"
    by (simp_all add: reachable_def gc_ok_def r)
  show "interned (vm\<lparr>vm_stack := st @ [v]\<rparr>) = interned vm" by (simp add: interned_def)
qed

section \<open>The opcode\<close>

definition slice_step :: "int64 option \<Rightarrow> int" where
  "slice_step k = (case k of None \<Rightarrow> 1 | Some w \<Rightarrow> sint w)"

lemma va_data_writes [simp]: "va_data (fold (\<lambda>v arr. value_array_write arr v) vs arr) = va_data arr @ vs"
  by (induction vs arbitrary: arr) simp_all

lemma op_slice_cases:
  assumes "vm_stack vm = st @ [VAL_OBJECT p, operand_value a, operand_value b, operand_value k]"
    "small_operand k" "slice_step k \<noteq> 0"
  shows "get_list (vm_heap vm) p = Some l \<Longrightarrow>
      op_slice vm ip = op_slice_list (vm\<lparr>vm_stack := st\<rparr>) ip (VAL_OBJECT p) p (slice_step k) (operand_value a) (operand_value b)"
    "get_string (vm_heap vm) p = Some s \<Longrightarrow>
      op_slice vm ip = op_slice_string (vm\<lparr>vm_stack := st\<rparr>) ip (VAL_OBJECT p) s (slice_step k) (operand_value a) (operand_value b)"
  using assms slice_operand_value [OF assms(2), of 1]
  by (auto simp: op_slice_def vm_pop_def butlast_append get_list_def get_string_def slice_step_def split: option.splits payload.splits)

lemma op_slice_list_full:
  assumes gc: "gc_ok vm" and st: "vm_stack vm = st @ [VAL_OBJECT p, operand_value a, operand_value b, operand_value k]"
    and l: "get_list (vm_heap vm) p = Some l" and small: "small_operand a" "small_operand b" "small_operand k"
    and n: "length (va_data (elements l)) < 2 ^ 30" and step: "slice_step k \<noteq> 0" and room: "length st + 2 \<le> FLUX_STACK_MAX"
  obtains r vm' l' where "op_slice vm ip = Some (Continue vm' ip)" "vm_stack vm' = st @ [VAL_OBJECT r]" "gc_ok vm'"
    "gc_frame (vm\<lparr>vm_stack := vm_stack vm'\<rparr>) vm'" "r \<notin> allocated (vm_heap vm)" "get_list (vm_heap vm') r = Some l'"
    "va_data (elements l') = map (\<lambda>i. va_data (elements l) ! nat i)
       (slice_positions (int (length (va_data (elements l)))) (map_option sint a) (map_option sint b) (slice_step k))"
    "\<And>q. q \<in> reachable vm \<Longrightarrow> hpayload (vm_heap vm') q = hpayload (vm_heap vm) q"
    "byte_drift vm' + of_nat (sizeof_value * va_capacity (elements l')) = byte_drift vm"
proof -
  let ?n = "length (va_data (elements l))"
  have k: "\<bar>slice_step k\<bar> < 2 ^ 30" using small(3) by (simp add: slice_step_def small_operand_def split: option.splits)
  obtain s e "is" where loop: "slice_bounds (slice_step k) (int ?n) (operand_value a) (operand_value b) = Some (s, e)"
    "slice_indices s e (slice_step k) = Some is"
    "filter (\<lambda>i. in_bounds i ?n) is = slice_positions (int ?n) (map_option sint a) (map_option sint b) (slice_step k)"
    by (rule slice_loop_positions [OF step k n small(1,2)]) (rule that)
  define picked where "picked = map (\<lambda>i. va_data (elements l) ! nat i) (filter (\<lambda>i. in_bounds i ?n) is)"
  let ?vm1 = "vm\<lparr>vm_stack := st @ [VAL_OBJECT p]\<rparr>" and ?pl = "OBJ_LIST \<lparr>elements = value_array_init\<rparr>"
  note drop = drop_operands [OF st]
  have gc1: "gc_ok ?vm1" using gc drop(3) by simp
  have p: "p \<in> reachable ?vm1" by (auto simp: reachable_def root_refs_def)
  have refs: "set (payload_refs ?pl) \<subseteq> reachable ?vm1" by (simp add: value_array_init_def)
  obtain r vm2 where a: "gc_alloc_object ?vm1 ?pl = Some (r, vm2)" "gc_frame ?vm1 vm2" "gc_ok vm2"
    "hpayload (vm_heap vm2) r = Some ?pl" "r = length (vm_heap ?vm1)"
    "\<And>q. q \<in> reachable ?vm1 \<Longrightarrow> hpayload (vm_heap vm2) q = hpayload (vm_heap ?vm1) q"
    "byte_drift vm2 + of_nat (owned_size ?pl) = byte_drift ?vm1"
    by (rule gc_alloc_object_full [OF gc1 refs]) (auto intro: that)
  have new: "r \<notin> allocated (vm_heap vm)" using a(5) allocated_less by fastforce
  have lp: "hpayload (vm_heap vm) p = Some (OBJ_LIST l)" using l by (auto simp: get_list_def split: option.splits payload.splits)
  then have lp2: "hpayload (vm_heap vm2) p = Some (OBJ_LIST l)" using a(6) [OF p] by simp
  have "p \<in> allocated (vm_heap vm2)" using lp2 by (auto simp: allocated_def hpayload_def)
  then have "set (values_refs (va_data (elements l))) \<subseteq> allocated (vm_heap vm2)"
    using bspec [OF a(3) [unfolded gc_ok_def heap_closed_def, THEN conjunct2, THEN conjunct2, THEN conjunct1], of p] lp2
    by (simp add: heap_refs_def)
  moreover have "set picked \<subseteq> set (va_data (elements l))" by (auto simp: picked_def in_bounds_def)
  ultimately have live: "set (values_refs picked) \<subseteq> allocated (vm_heap vm2)" by (auto simp: values_refs_def)
  define l' where "l' = \<lparr>elements = fold (\<lambda>v arr. value_array_write arr v) picked value_array_init\<rparr>"
  have data: "va_data (elements l') = picked" by (simp add: l'_def value_array_init_def)
  obtain h where h: "hput (vm_heap vm2) r (OBJ_LIST l') = Some h" "gc_ok (vm2\<lparr>vm_heap := h\<rparr>)"
    "\<And>q. hpayload h q = (if q = r then Some (OBJ_LIST l') else hpayload (vm_heap vm2) q)" "allocated h = allocated (vm_heap vm2)"
    "byte_drift (vm2\<lparr>vm_heap := h\<rparr>) + of_nat (owned_size (OBJ_LIST l')) = byte_drift vm2 + of_nat (owned_size ?pl)"
    by (rule gc_ok_put_list [OF a(3,4), of l']) (use live data in \<open>auto intro: that\<close>)
  let ?vm' = "vm2\<lparr>vm_heap := h, vm_stack := st @ [VAL_OBJECT r]\<rparr>"
  have stack2: "vm_stack vm2 = st @ [VAL_OBJECT p]" using gc_frame_stack(1) [OF a(2)] by simp
  have "set (values_refs st) \<subseteq> allocated (vm_heap vm2)"
    using a(3) stack2 by (auto simp: gc_ok_def root_refs_def)
  moreover have "r \<in> allocated (vm_heap vm2)" using a(4) by (auto simp: allocated_def hpayload_def)
  ultimately have gc': "gc_ok ?vm'" using gc_ok_stack [OF h(2), of "st @ [VAL_OBJECT r]"] h(4) by simp
  show thesis
  proof (rule that [of ?vm' r l'])
    show "op_slice vm ip = Some (Continue ?vm' ip)"
      using op_slice_cases(1) [OF st small(3) step l] room loop(1,2) l lp2 a(1,4) h(1) stack2
      by (simp add: op_slice_list_def object_list_new_def vm_push_def vm_pop_def push_continue_def get_list_def vm_hput_def butlast_append
          picked_def [symmetric] l'_def [symmetric] Let_def)
    show "gc_frame (vm\<lparr>vm_stack := vm_stack ?vm'\<rparr>) ?vm'"
      using gc_frame_stack_update [OF a(2), of "st @ [VAL_OBJECT r]"] by (simp add: gc_frame_def forget_heap_def)
    show "va_data (elements l') = map (\<lambda>i. va_data (elements l) ! nat i)
       (slice_positions (int ?n) (map_option sint a) (map_option sint b) (slice_step k))"
      using data loop(3) by (simp add: picked_def)
    show "hpayload (vm_heap ?vm') q = hpayload (vm_heap vm) q" if "q \<in> reachable vm" for q
      using that a(6) [of q] h(3) [of q] new drop(2) reachable_allocated [OF gc] by auto
    show "byte_drift ?vm' + of_nat (sizeof_value * va_capacity (elements l')) = byte_drift vm"
    proof -
      have "byte_drift ?vm' = byte_drift (vm2\<lparr>vm_heap := h\<rparr>)" "byte_drift ?vm1 = byte_drift vm"
        by (simp_all add: byte_drift_def held_bytes_def)
      moreover have "owned_size ?pl = 0" by (simp add: value_array_init_def)
      ultimately show ?thesis using h(5) a(7) by simp
    qed
  qed (use gc' new h(3) in \<open>simp_all add: get_list_def\<close>)
qed


lemma slice_string_picked:
  assumes "str_length s = length (str_chars s)" "\<forall>i \<in> set is. in_bounds i (str_length s)"
  shows "slice_string s k is = Some (map (\<lambda>i. str_chars s ! nat i) is)"
proof -
  have get: "those (map (\<lambda>i. nth_opt (str_chars s) (nat i)) is) = Some (map (\<lambda>i. str_chars s ! nat i) is)"
    unfolding those_Some_iff using assms by (auto simp: nth_opt_def in_bounds_def)
  have "filter (\<lambda>i. 0 \<le> i \<and> i < int (str_length s)) is = is"
    using assms(2) by (auto simp: filter_id_conv in_bounds_def)
  then show ?thesis by (simp add: slice_string_def Let_def get)
qed

lemma op_slice_string_full:
  assumes ok: "vm_ok vm" "st_room 1 (vm_strings vm)"
    and st: "vm_stack vm = st @ [VAL_OBJECT p, operand_value a, operand_value b, operand_value k]"
    and s: "get_string (vm_heap vm) p = Some s" and small: "small_operand a" "small_operand b" "small_operand k"
    and n: "length (str_chars s) < 2 ^ 30" and step: "slice_step k \<noteq> 0" and room: "length st < FLUX_STACK_MAX"
    and inside: "0 < slice_step k \<or> (\<exists>w. b = Some w \<and> - 1 \<le> wrapped (int (length (str_chars s))) (sint w))"
  obtains r vm' where "op_slice vm ip = Some (Continue vm' ip)" "vm_stack vm' = st @ [VAL_OBJECT r]" "vm_ok vm'"
    "gc_frame (vm\<lparr>vm_stack := vm_stack vm'\<rparr>) vm'"
    "is_str (vm_heap vm') r (map (\<lambda>i. str_chars s ! nat i)
       (slice_positions (int (length (str_chars s))) (map_option sint a) (map_option sint b) (slice_step k)))"
    "\<And>q. q \<in> reachable vm \<Longrightarrow> hpayload (vm_heap vm') q = hpayload (vm_heap vm) q"
    "byte_drift vm' = byte_drift vm"
proof -
  let ?n = "length (str_chars s)"
  have len: "str_length s = ?n"
    using ok(1) s by (auto simp: vm_ok_def gc_ok_def strings_ok_def string_ok_def)
  have k: "\<bar>slice_step k\<bar> < 2 ^ 30" using small(3) by (simp add: slice_step_def small_operand_def split: option.splits)
  obtain a' e "is" where loop: "slice_bounds (slice_step k) (int ?n) (operand_value a) (operand_value b) = Some (a', e)"
    "slice_indices a' e (slice_step k) = Some is"
    "filter (\<lambda>i. in_bounds i ?n) is = slice_positions (int ?n) (map_option sint a) (map_option sint b) (slice_step k)"
    "\<forall>i \<in> set is. in_bounds i ?n"
    by (rule slice_loop_positions [OF step k n small(1,2)]) (use inside in \<open>auto intro: that\<close>)
  have pos: "is = slice_positions (int ?n) (map_option sint a) (map_option sint b) (slice_step k)"
    using loop(3,4) by (simp add: filter_id_conv [THEN iffD2])
  have buf: "slice_string s (slice_step k) is = Some (map (\<lambda>i. str_chars s ! nat i) is)"
    using loop(4) len by (intro slice_string_picked) simp_all
  let ?vm1 = "vm\<lparr>vm_stack := st @ [VAL_OBJECT p]\<rparr>"
  note drop = drop_operands [OF st]
  have ok1: "vm_ok ?vm1" using ok(1) drop by (simp add: vm_ok_def)
  obtain r vm2 where c: "object_string_copy ?vm1 (map (\<lambda>i. str_chars s ! nat i) is) = Some (r, vm2)" "gc_frame ?vm1 vm2" "vm_ok vm2"
    "is_str (vm_heap vm2) r (map (\<lambda>i. str_chars s ! nat i) is)"
    "\<And>q. q \<in> reachable ?vm1 \<Longrightarrow> hpayload (vm_heap vm2) q = hpayload (vm_heap ?vm1) q" "byte_drift vm2 = byte_drift ?vm1"
    by (rule object_string_copy_full [OF ok1, of 0]) (use ok(2) in \<open>auto intro: that\<close>)
  let ?vm' = "vm2\<lparr>vm_stack := st @ [VAL_OBJECT r]\<rparr>"
  have stack2: "vm_stack vm2 = st @ [VAL_OBJECT p]" using gc_frame_stack(1) [OF c(2)] by simp
  have gc2: "gc_ok vm2" using c(3) by (simp add: vm_ok_def)
  have "set (values_refs st) \<subseteq> allocated (vm_heap vm2)" using gc2 stack2 by (auto simp: gc_ok_def root_refs_def)
  moreover have "r \<in> allocated (vm_heap vm2)" using c(4) by (intro string_ok_allocated) (simp add: is_str_iff)
  ultimately have "gc_ok ?vm'" using gc_ok_stack [OF gc2, of "st @ [VAL_OBJECT r]"] by simp
  then have ok': "vm_ok ?vm'" using c(3) by (simp add: vm_ok_def interned_def)
  show thesis
  proof (rule that [of ?vm' r])
    show "op_slice vm ip = Some (Continue ?vm' ip)"
      using op_slice_cases(2) [OF st small(3) step s] room loop(1,2) buf c(1) stack2 len
      by (simp add: op_slice_string_def vm_push_def vm_pop_def push_continue_def)
    show "gc_frame (vm\<lparr>vm_stack := vm_stack ?vm'\<rparr>) ?vm'"
      using gc_frame_stack_update [OF c(2), of "st @ [VAL_OBJECT r]"] by simp
    show "byte_drift ?vm' = byte_drift vm" using c(6) by (simp add: byte_drift_def held_bytes_def)
  qed (use ok' c(4,5) pos drop(2) in simp_all)
qed

lemma slice_string_short:
  assumes "k < 0" "length (filter (\<lambda>i. 0 \<le> i \<and> i < int (str_length s)) is) + 1 < length is"
  shows "slice_string s k is = None"
proof (cases "those (map (\<lambda>i. nth_opt (str_chars s) (nat i)) (filter (\<lambda>i. 0 \<le> i \<and> i < int (str_length s)) is))")
  case (Some buf)
  then have "length buf = length (filter (\<lambda>i. 0 \<le> i \<and> i < int (str_length s)) is)"
    by (metis length_map those_Some_iff)
  then show ?thesis using assms Some by (simp add: slice_string_def Let_def)
qed (use assms(1) in \<open>simp add: slice_string_def Let_def\<close>)

text \<open>A negative step without an end: the loop goes on below position 0 and counts positions it does not copy.\<close>

lemma op_slice_string_uninitialised:
  assumes st: "vm_stack vm = st @ [VAL_OBJECT p, VAL_NULL, VAL_NULL, VAL_INT k]" and s: "get_string (vm_heap vm) p = Some s"
    and len: "str_length s = length (str_chars s)" and k: "sint k < 0" "- (2 ^ 30) < sint k"
    and n: "2 * nat (- sint k) \<le> length (str_chars s)" "length (str_chars s) < 2 ^ 30"
  shows "op_slice vm ip = None"
proof -
  let ?n = "int (length (str_chars s))" and ?m = "- sint k"
  define all where "all = rev (filter (\<lambda>x. sint k dvd x - (?n - 1)) [- ?n..?n - 1])"
  let ?P = "\<lambda>i. 0 \<le> i \<and> i < ?n"
  have stk: "vm_stack vm = st @ [VAL_OBJECT p, operand_value None, operand_value None, operand_value (Some k)]"
    using st by (simp add: operand_value_def)
  have step: "slice_step (Some k) = sint k" "small_operand (Some k)" using k by (simp_all add: slice_step_def small_operand_def)
  have bounds: "slice_bounds (sint k) ?n VAL_NULL VAL_NULL = Some (?n - 1, - (?n + 1))"
    using k n by (auto simp: slice_bounds_def slice_operand_def)
  have loop: "slice_indices (?n - 1) (- (?n + 1)) (sint k) = Some all"
    using slice_indices_down [OF k(1), of "?n - 1" "- (?n + 1)"] k n by (simp add: all_def)
  define y where "y = (?n - 1) mod ?m - ?m"
  have "0 \<le> (?n - 1) mod ?m" "(?n - 1) mod ?m < ?m" using k by simp_all
  moreover have "2 * ?m \<le> ?n" using n(1) k by linarith
  moreover have "sint k dvd y - (?n - 1)" "sint k dvd (y - ?m) - (?n - 1)"
  proof -
    have "?n - 1 = ?m * ((?n - 1) div ?m) + (?n - 1) mod ?m" by (simp only: mult_div_mod_eq)
    then have "y - (?n - 1) = sint k * (1 + (?n - 1) div ?m)" unfolding y_def by (simp add: algebra_simps)
    then have "y - (?n - 1) = sint k * (1 + (?n - 1) div ?m)" "(y - ?m) - (?n - 1) = sint k * (2 + (?n - 1) div ?m)"
      by (simp_all add: algebra_simps)
    then show "sint k dvd y - (?n - 1)" "sint k dvd (y - ?m) - (?n - 1)" by (simp_all only: dvd_triv_left)
  qed
  ultimately have "{y, y - ?m} \<subseteq> set (filter (\<lambda>i. \<not> ?P i) all)" by (auto simp: y_def all_def)
  then have "card {y, y - ?m} \<le> card (set (filter (\<lambda>i. \<not> ?P i) all))" by (rule card_mono [OF finite_set])
  also have "\<dots> \<le> length (filter (\<lambda>i. \<not> ?P i) all)" by (rule card_length)
  also have "card {y, y - ?m} = 2" using k by simp
  finally have "length (filter ?P all) + 1 < length all" using sum_length_filter_compl [of ?P all] by linarith
  then have "slice_string s (sint k) all = None" by (intro slice_string_short [OF k(1)]) (simp only: len)
  then show ?thesis
    using op_slice_cases(2) [OF stk step(2) _ s] step(1) k(1) bounds loop
    by (simp only: op_slice_string_def len operand_value_def option.case bind.simps prod.case)
qed

end
