(* ===== verification/Data_Properties.thy ===== *)
theory Data_Properties
  imports Samples Operands SliceProps
begin

text \<open>
  The properties of the data layer: the collector and the allocator, interned strings, dictionaries,
  structural equality, byte code chunks, slices.  Witnesses run on the machines of theory \<open>Samples\<close>.
\<close>

section \<open>Memory\<close>

text \<open>C3: A collection ends, keeps exactly the objects reachable from the roots of \<open>mark_roots\<close> along the
  pointers that \<open>blacken_object\<close> follows (the name of a native is not among them), each with its
  contents and an unset mark bit, drops the dead strings from the intern table, touches nothing else of the
  machine, keeps the byte counter in step with the live objects and sets the next threshold.\<close>

theorem gc_collect_correct:
  assumes "gc_ok vm"
  shows "\<exists>vm'. gc_collect vm = Some vm' \<and> gc_ok vm' \<and> gc_frame vm vm' \<and>
    (\<forall>p. hget (vm_heap vm') p = (if p \<in> reachable vm then hget (vm_heap vm) p else None)) \<and>
    vm_objects vm' = filter (\<lambda>p. p \<in> reachable vm) (vm_objects vm) \<and>
    st_live (vm_strings vm') = st_live (vm_strings vm) \<inter> reachable vm \<and>
    byte_drift vm' = byte_drift vm \<and>
    vm_next_gc vm' = vm_bytes_allocated vm' * FLUX_GC_HEAP_GROW_FACTOR"
  by (rule gc_collect_full [OF assms]) blast

lemma sample_vm_gc_ok: "gc_ok sample_vm"
  using sample_vm_ok by (simp add: vm_ok_def)

lemma sample_vm_globals: "set (root_refs sample_vm) = {2}"
proof -
  have "root_refs sample_vm = [2]" by code_simp
  then show ?thesis by simp
qed

lemma sample_vm_payload:
  "hpayload (vm_heap sample_vm) 0 = Some (sample_string ''ab'')"
  "hpayload (vm_heap sample_vm) 1 = Some (sample_string ''cd'')"
  "hpayload (vm_heap sample_vm) 2 = Some sample_list"
  by code_simp+

lemma sample_vm_refs: "heap_refs (vm_heap sample_vm) p = (if p = 2 then {0} else {})"
proof -
  have len: "length (vm_heap sample_vm) = 3" using sample_vm_heap by (auto dest!: arg_cong [where f = length])
  consider "p = 0" | "p = 1" | "p = 2" | "3 \<le> p" by linarith
  then show ?thesis
  proof cases
    case 4
    then show ?thesis using len by (simp add: heap_refs_def hpayload_def hget_def)
  qed (simp_all add: heap_refs_def sample_vm_payload [unfolded One_nat_def] sample_string_def sample_list_def values_refs_def)
qed

lemma sample_vm_reachable: "reachable sample_vm = {0, 2}"
proof -
  have edges: "edges (vm_heap sample_vm) = {(2, 0)}" by (auto simp: edges_def sample_vm_refs split: if_splits)
  have "(edges (vm_heap sample_vm))\<^sup>* `` {2} = {0, 2}"
  proof
    show "(edges (vm_heap sample_vm))\<^sup>* `` {2} \<subseteq> {0, 2}"
    proof
      fix p assume "p \<in> (edges (vm_heap sample_vm))\<^sup>* `` {2}"
      then have "(2, p) \<in> (edges (vm_heap sample_vm))\<^sup>*" by simp
      then show "p \<in> {0, 2}" by (induction rule: rtrancl_induct) (auto simp: edges)
    qed
    show "{0, 2} \<subseteq> (edges (vm_heap sample_vm))\<^sup>* `` {2}" by (auto simp: edges)
  qed
  then show ?thesis by (simp add: reachable_def sample_vm_globals)
qed

theorem gc_collect_correct_witness:
  "\<exists>vm'. gc_collect sample_vm = Some vm' \<and> gc_ok vm' \<and>
    hpayload (vm_heap vm') 0 = Some (sample_string ''ab'') \<and> hget (vm_heap vm') 1 = None"
proof -
  obtain vm' where vm': "gc_collect sample_vm = Some vm'" "gc_ok vm'"
    "\<forall>p. hget (vm_heap vm') p = (if p \<in> reachable sample_vm then hget (vm_heap sample_vm) p else None)"
    using gc_collect_correct [OF sample_vm_gc_ok] by auto
  then have "hget (vm_heap vm') 0 = hget (vm_heap sample_vm) 0" "hget (vm_heap vm') 1 = None"
    by (simp_all add: sample_vm_reachable)
  then show ?thesis using vm'(1,2) sample_vm_payload(1) by (simp add: hpayload_def)
qed

text \<open>C4: An allocation always succeeds, possibly after a collection: it returns a fresh object with the given
  contents, keeps the machine well formed and every reachable object as it was, and accounts for the bytes of
  the new object.\<close>

theorem gc_alloc_object_correct:
  assumes "gc_ok vm" "set (payload_refs pl) \<subseteq> reachable vm"
    and "\<And>s. pl = OBJ_STRING s \<Longrightarrow> str_length s = length (str_chars s) \<and> str_hash s = hash_string (str_chars s)"
  shows "\<exists>p vm'. gc_alloc_object vm pl = Some (p, vm') \<and> gc_ok vm' \<and> gc_frame vm vm' \<and>
    p \<notin> allocated (vm_heap vm) \<and> hpayload (vm_heap vm') p = Some pl \<and>
    (\<forall>q \<in> reachable vm. hpayload (vm_heap vm') q = hpayload (vm_heap vm) q) \<and>
    byte_drift vm' + of_nat (owned_size pl) = byte_drift vm"
proof -
  have fresh: "length (vm_heap vm) \<notin> allocated (vm_heap vm)" using allocated_less by blast
  show ?thesis
    by (rule gc_alloc_object_full [OF assms(1,2)], erule assms(3)) (use fresh in blast)
qed

theorem gc_alloc_object_correct_witness:
  "\<exists>p vm'. gc_alloc_object sample_vm (OBJ_BOUND_METHOD \<lparr>bm_receiver = VAL_OBJECT 2, bm_method = 0\<rparr>) = Some (p, vm') \<and>
    gc_ok vm' \<and> hpayload (vm_heap vm') 2 = Some sample_list"
  using gc_alloc_object_correct [OF sample_vm_gc_ok, of "OBJ_BOUND_METHOD \<lparr>bm_receiver = VAL_OBJECT 2, bm_method = 0\<rparr>"]
  by (force simp: sample_vm_reachable sample_vm_payload)

section \<open>Strings\<close>

text \<open>C5: \<open>object_string_copy\<close> always returns a string object with the given characters; when a live string has
  these characters it returns that very object and changes nothing.\<close>

theorem object_string_copy_canonical:
  assumes "vm_ok vm" "st_room 1 (vm_strings vm)"
  shows "\<exists>p vm'. object_string_copy vm chars = Some (p, vm') \<and> vm_ok vm' \<and> gc_frame vm vm' \<and>
    is_str (vm_heap vm') p chars \<and> (\<forall>q. is_str (vm_heap vm) q chars \<longrightarrow> p = q \<and> vm' = vm) \<and>
    (\<forall>q \<in> reachable vm. hpayload (vm_heap vm') q = hpayload (vm_heap vm) q)"
  by (rule object_string_copy_full [where n = 0, OF assms(1)]) (use assms(2) in simp, blast)

lemma sample_vm_room: "st_room 1 (vm_strings sample_vm)"
proof -
  have "st_count (vm_strings sample_vm) = 2 \<and> st_capacity (vm_strings sample_vm) = 8" by code_simp
  then show ?thesis by (simp add: st_room_def)
qed

theorem object_string_copy_canonical_witness: "object_string_copy sample_vm ''ab'' = Some (0, sample_vm)"
proof -
  have "is_str (vm_heap sample_vm) 0 ''ab''"
    using sample_vm_payload(1) by (simp add: is_str_def get_string_def sample_string_def)
  then show ?thesis using object_string_copy_canonical [OF sample_vm_ok sample_vm_room, of "''ab''"] by auto
qed

text \<open>C6: Interning makes identity of string objects the same as equality of their characters, in the machine and
  for \<open>value_equal\<close>.\<close>

theorem string_identity:
  assumes "vm_ok vm" "is_str (vm_heap vm) p cs" "is_str (vm_heap vm) q ds"
  shows "(p = q \<longleftrightarrow> cs = ds) \<and> value_equal (vm_heap vm) (VAL_OBJECT p) (VAL_OBJECT q) = Some (cs = ds)"
proof -
  have iff: "p = q \<longleftrightarrow> cs = ds" using interned_unique [OF assms(1), of p cs q] assms(2,3) by (auto simp: is_str_def)
  obtain s where s: "hpayload (vm_heap vm) p = Some (OBJ_STRING s)"
    using assms(2) by (auto simp: is_str_def get_string_def split: option.splits payload.splits)
  show ?thesis using iff s
    by (simp add: value_equal_def value_equal_depth.simps [of _ "VAL_OBJECT p" "VAL_OBJECT q"])
qed

theorem string_identity_witness:
  "value_equal (vm_heap sample_vm) (VAL_OBJECT 0) (VAL_OBJECT 1) = Some False"
proof -
  have "is_str (vm_heap sample_vm) 0 ''ab''" "is_str (vm_heap sample_vm) 1 ''cd''"
    using sample_vm_payload by (simp_all add: is_str_def get_string_def sample_string_def)
  from string_identity [OF sample_vm_ok this] show ?thesis by simp
qed

text \<open>C7: Inserting a new string into the intern table keeps it well formed; the string is then found under its
  characters, and so is every string that was found before.\<close>

theorem string_table_insert_find:
  assumes "intern_ok h t" "st_room 1 t" "string_ok h p" "\<forall>q \<in> st_live t. chars_of h q \<noteq> chars_of h p"
  shows "\<exists>t'. string_table_set h t p = Some t' \<and> intern_ok h t' \<and>
    (\<forall>q \<in> insert p (st_live t). string_table_find h t' (chars_of h q) (hash_string (chars_of h q)) = Some (Some q))"
proof -
  obtain t' where t': "string_table_set h t p = Some t'" "intern_ok h t'" "st_live t' = insert p (st_live t)"
    using string_table_set_spec [of h t 0 p] assms by auto
  show ?thesis using t' string_table_find_live [OF t'(2)] by auto
qed

text \<open>C8: Removing a string from the intern table keeps it well formed; its characters are then not found, while
  every other string still is.\<close>

theorem string_table_remove_find:
  assumes "intern_ok h t" "string_ok h p"
  shows "\<exists>t'. string_table_remove h t p = Some t' \<and> intern_ok h t' \<and>
    (p \<in> st_live t \<longrightarrow> string_table_find h t' (chars_of h p) (hash_string (chars_of h p)) = Some None) \<and>
    (\<forall>q \<in> st_live t - {p}. string_table_find h t' (chars_of h q) (hash_string (chars_of h q)) = Some (Some q))"
proof -
  obtain t' where t': "string_table_remove h t p = Some t'" "intern_ok h t'" "st_live t' = st_live t - {p}"
    using string_table_remove_spec [OF assms] by blast
  have "string_table_find h t' (chars_of h p) (hash_string (chars_of h p)) = Some None" if "p \<in> st_live t"
    using string_table_find_dead [OF t'(2)] intern_ok_unique [OF assms(1) _ that] t'(3) by blast
  then show ?thesis using t' string_table_find_live [OF t'(2)] by auto
qed

lemma sample_vm_intern: "intern_ok (vm_heap sample_vm) (vm_strings sample_vm)"
  using sample_vm_gc_ok by (simp add: gc_ok_def)

lemma sample_vm_chars: "chars_of (vm_heap sample_vm) 0 = ''ab''" "chars_of (vm_heap sample_vm) 1 = ''cd''"
  "string_ok (vm_heap sample_vm) 0" "string_ok (vm_heap sample_vm) 1"
  using sample_vm_payload by (simp_all add: chars_of_def string_ok_def get_string_def sample_string_def)

lemma sample_vm_live: "st_live (vm_strings sample_vm) = {0, 1}"
proof -
  have "set (st_data (vm_strings sample_vm)) = {StNull, StString 0, StString 1}" by code_simp
  then show ?thesis by (auto simp: st_live_def)
qed

theorem string_table_insert_find_witness:
  "\<exists>t. string_table_set (vm_heap sample_vm) string_table_new 0 = Some t \<and>
    string_table_find (vm_heap sample_vm) t ''ab'' (hash_string ''ab'') = Some (Some 0)"
proof -
  have "st_room 1 string_table_new" by (simp add: st_room_def string_table_new_def)
  from string_table_insert_find [OF string_table_new_ok(1) this sample_vm_chars(3)] show ?thesis
    by (auto simp: string_table_new_ok(2) sample_vm_chars(1))
qed

theorem string_table_remove_find_witness:
  "\<exists>t. string_table_remove (vm_heap sample_vm) (vm_strings sample_vm) 0 = Some t \<and>
    string_table_find (vm_heap sample_vm) t ''ab'' (hash_string ''ab'') = Some None \<and>
    string_table_find (vm_heap sample_vm) t ''cd'' (hash_string ''cd'') = Some (Some 1)"
proof -
  have "0 \<in> st_live (vm_strings sample_vm)" "1 \<in> st_live (vm_strings sample_vm) - {0}" by (simp_all add: sample_vm_live)
  then show ?thesis
    using string_table_remove_find [OF sample_vm_intern sample_vm_chars(3)] sample_vm_chars(1,2) by metis
qed

section \<open>Dictionaries\<close>

text \<open>C9: Any history of insertions and deletions on a new dictionary succeeds and refines a finite map: a lookup
  afterwards answers what the map holds.  Growth, probing and tombstones are not observable.\<close>

theorem dict_history:
  assumes "length ops \<le> 2 ^ 29" "\<forall>a \<in> set ops. kh (op_key a) \<noteq> None" "kh key \<noteq> None"
  shows "\<exists>d. run_ops (dict_set kh) (dict_delete kh) ops dict_new = Some d \<and>
    dict_get kh d key = Some (fold spec_op ops Map.empty key)"
proof -
  have "dict_room (length ops) dict_new" using assms(1) by (simp add: dict_room_def dict_new_def)
  from dict_store.run_get [OF dict_new_ok(1) this assms(2,3)] show ?thesis by (simp add: dict_new_ok(2))
qed

theorem dict_history_witness:
  "\<exists>d. run_ops (dict_set (\<lambda>p. Some (of_nat p))) (dict_delete (\<lambda>p. Some (of_nat p)))
      [Store_Set 1 (VAL_INT 5), Store_Set 9 (VAL_INT 6), Store_Delete 1] dict_new = Some d \<and>
    dict_get (\<lambda>p. Some (of_nat p)) d 9 = Some (Some (VAL_INT 6))"
  using dict_history [of "[Store_Set 1 (VAL_INT 5), Store_Set 9 (VAL_INT 6), Store_Delete 1]" "\<lambda>p. Some (of_nat p)" 9]
  by simp

text \<open>C10: A deletion answers whether the key was there, removes exactly that key, and does not change the number
  of used slots (a tombstone stays counted).\<close>

theorem dict_delete_correct:
  assumes "dict_ok kh d" "kh key \<noteq> None"
  shows "\<exists>d'. dict_delete kh d key = Some (dict_map d key \<noteq> None, d') \<and> dict_ok kh d' \<and>
    dict_map d' = (dict_map d)(key := None) \<and> d_count d' = d_count d"
  using assms by (rule dict_delete_spec)

theorem dict_delete_correct_witness:
  "\<exists>d'. dict_delete class_key_hash sample_methods 4 = Some (True, d') \<and> dict_map d' = Map.empty"
  using dict_delete_correct [OF sample_methods(1), of 4] by (auto simp: sample_methods(2) class_key_hash_def)

section \<open>Equality\<close>

text \<open>C11: On a well-formed heap \<open>value_equal\<close> always returns: it follows no dangling pointer and the bound on the
  depth stops it on cyclic structures.\<close>

theorem value_equal_total:
  assumes "heap_closed h" "dicts_ok h" "value_live h a" "value_live h b"
  shows "value_equal h a b \<noteq> None"
  unfolding value_equal_def using assms by (rule value_equal_depth_total)

text \<open>C12: On acyclic values made of strings, integers, booleans, null and lists, at most 200 levels deep,
  \<open>value_equal\<close> is equality of the trees they denote.\<close>

theorem value_equal_trees:
  assumes "vm_ok vm" "reify n (vm_heap vm) a = Some ta" "reify n (vm_heap vm) b = Some tb" "n \<le> VALUE_EQUAL_MAX_DEPTH"
  shows "value_equal (vm_heap vm) a b = Some (ta = tb)"
  unfolding value_equal_def using assms by (intro value_equal_depth_plain) simp_all

lemma sample_vm_dicts: "dicts_ok (vm_heap sample_vm)"
proof -
  have "get_dict (vm_heap sample_vm) p = None" for p
  proof -
    have len: "length (vm_heap sample_vm) = 3" using sample_vm_heap by (auto dest!: arg_cong [where f = length])
    consider "p = 0" | "p = 1" | "p = 2" | "3 \<le> p" by linarith
    then show ?thesis
    proof cases
      case 4
      then show ?thesis using len by (simp add: get_dict_def hpayload_def hget_def)
    qed (simp_all add: get_dict_def sample_vm_payload [unfolded One_nat_def] sample_string_def sample_list_def)
  qed
  then show ?thesis by (simp add: dicts_ok_def)
qed

theorem value_equal_total_witness: "value_equal (vm_heap sample_vm) (VAL_OBJECT 2) (VAL_OBJECT 0) \<noteq> None"
proof -
  have "2 \<in> allocated (vm_heap sample_vm)" "0 \<in> allocated (vm_heap sample_vm)"
    using reachable_allocated [OF sample_vm_gc_ok] by (simp_all add: sample_vm_reachable)
  then show ?thesis
    using sample_vm_gc_ok sample_vm_dicts by (intro value_equal_total) (simp_all add: gc_ok_def value_live_def)
qed

theorem value_equal_trees_witness: "value_equal (vm_heap sample_vm) (VAL_OBJECT 2) (VAL_INT 7) = Some False"
proof -
  have "reify 1 (vm_heap sample_vm) (VAL_OBJECT 2) = Some (P_List [P_Str ''ab'', P_Int 7])"
    by (simp add: sample_vm_payload sample_list_def sample_string_def)
  from value_equal_trees [OF sample_vm_ok this, of "VAL_INT 7" "P_Int 7"] show ?thesis
    by (simp add: VALUE_EQUAL_MAX_DEPTH_def)
qed

text \<open>
  C13: Equality of dictionaries after a deletion is neither equality of their contents nor symmetric: the count
  compared first still includes the tombstone.  Take any dictionary \<open>d\<close>, and \<open>d'\<close>, the same without one of its keys.
  Then \<open>d'\<close> equals \<open>d\<close>, although a key is missing, while \<open>d\<close> does not equal \<open>d'\<close>; and a dictionary \<open>e\<close> with
  the very entries of \<open>d'\<close> and no tombstones does not equal it, in either direction.
\<close>

theorem value_equal_tombstones:
  assumes "get_dict h p = Some d'" "get_dict h q = Some d" "get_dict h r = Some e" "dict_ok (key_hash h) d"
    "key_hash h k \<noteq> None" "dict_delete (key_hash h) d k = Some (True, d')"
    and "\<And>x. VAL_FLOAT x \<in> ran (dict_map d) \<Longrightarrow> \<not> dbl_is_nan x"
    and "dict_map e = dict_map d'" "d_count e = card (dom (dict_map e))"
  shows "dict_map d k \<noteq> None \<and> dict_map d' = (dict_map d)(k := None) \<and>
    value_equal h (VAL_OBJECT p) (VAL_OBJECT q) = Some True \<and> value_equal h (VAL_OBJECT q) (VAL_OBJECT p) = Some False \<and>
    value_equal h (VAL_OBJECT p) (VAL_OBJECT r) = Some False \<and> value_equal h (VAL_OBJECT r) (VAL_OBJECT p) = Some False"
proof -
  have del: "dict_map d k \<noteq> None" "dict_ok (key_hash h) d'" "dict_map d' = (dict_map d)(k := None)" "d_count d' = d_count d"
    using dict_delete_spec [OF assms(4,5)] assms(6) by auto
  then have "d \<noteq> d'" by (metis fun_upd_same)
  then have pq: "p \<noteq> q" using assms(1,2) by (metis option.inject)
  have same: "value_equal_depth h v w 1 = Some True"
    if "dict_map d i = Some v" "dict_map d' i = Some w" for i v w
    using that assms(7) ranI [of "dict_map d" i v]
    by (auto simp: del(3) split: if_splits intro!: value_equal_depth_refl)
  have "value_equal h (VAL_OBJECT p) (VAL_OBJECT q) = Some (dom (dict_map d') \<subseteq> dom (dict_map d))"
    by (rule dicts_equal_keys [OF assms(1,2) pq del(2) assms(4) del(4)]) (use same del(3) in \<open>auto split: if_splits\<close>)
  moreover have "value_equal h (VAL_OBJECT q) (VAL_OBJECT p) = Some (dom (dict_map d) \<subseteq> dom (dict_map d'))"
    by (rule dicts_equal_keys [OF assms(2,1) pq [symmetric] assms(4) del(2) del(4) [symmetric]]) (rule same)
  moreover have "card (dom (dict_map d')) < card (dom (dict_map d))"
    using card_dict_map(1) [OF assms(4)] del(1) unfolding del(3) by (intro psubset_card_mono) auto
  then have "d_count e \<noteq> d_count d'" using card_dict_map(2) [OF assms(4)] assms(8,9) del(4) by simp
  moreover from this have "p \<noteq> r" using assms(1,3) by (metis option.inject)
  ultimately show ?thesis using del(1,3) dicts_compared [OF assms(1,3)] dicts_compared [OF assms(3,1)] by auto
qed

text \<open>Dictionary 4 had the keys 0 and 1 and lost 1, dictionary 5 has both, dictionary 6 the key 0 only.\<close>

definition tombstone_dict :: "(ptr, flux_value) store_op list \<Rightarrow> flux_dict" where
  "tombstone_dict ops =
     (let kh = (\<lambda>p. if p < 4 then Some (hash_string (replicate (p + 1) CHR ''k'')) else None)
      in case run_ops (dict_set kh) (dict_delete kh) ops dict_new of Some d \<Rightarrow> d | None \<Rightarrow> dict_new)"

definition tombstone_heap :: heap where
  "tombstone_heap =
     map (\<lambda>pl. Some \<lparr>marked = False, payload = pl\<rparr>)
       (map (\<lambda>i. sample_string (replicate (i + 1) CHR ''k'')) [0, 1, 2, 3] @
        [OBJ_DICT (tombstone_dict [Store_Set 0 VAL_NULL, Store_Set 1 VAL_NULL, Store_Delete 1]),
         OBJ_DICT (tombstone_dict [Store_Set 0 VAL_NULL, Store_Set 1 VAL_NULL]),
         OBJ_DICT (tombstone_dict [Store_Set 0 VAL_NULL])])"

lemma tombstone_key_hash: "key_hash tombstone_heap = (\<lambda>p. if p < 4 then Some (hash_string (replicate (p + 1) CHR ''k'')) else None)"
proof
  fix p :: ptr
  consider "p = 0" | "p = 1" | "p = 2" | "p = 3" | "p = 4" | "p = 5" | "p = 6" | "7 \<le> p" by linarith
  then show "key_hash tombstone_heap p = (if p < 4 then Some (hash_string (replicate (p + 1) CHR ''k'')) else None)"
    by cases (simp_all add: key_hash_def get_string_def hpayload_def hget_def tombstone_heap_def sample_string_def numeral_eq_Suc)
qed

lemma tombstone_run:
  assumes "list_all (\<lambda>a. op_key a < 4) ops" "length ops < 4"
  shows "run_ops (dict_set (key_hash tombstone_heap)) (dict_delete (key_hash tombstone_heap)) ops dict_new = Some (tombstone_dict ops)"
    "dict_ok (key_hash tombstone_heap) (tombstone_dict ops)" "dict_map (tombstone_dict ops) = fold spec_op ops Map.empty"
proof -
  have "dict_room (length ops) dict_new" using assms(2) by (simp add: dict_room_def dict_new_def)
  then obtain d where d: "run_ops (dict_set (key_hash tombstone_heap)) (dict_delete (key_hash tombstone_heap)) ops dict_new = Some d"
    "dict_ok (key_hash tombstone_heap) d" "dict_map d = fold spec_op ops Map.empty"
    using dict_store.run_refines [OF dict_new_ok(1), of ops "key_hash tombstone_heap"] assms(1)
    by (auto simp: dict_new_ok(2) list_all_iff tombstone_key_hash)
  then have "tombstone_dict ops = d" by (simp add: tombstone_dict_def tombstone_key_hash)
  then show "run_ops (dict_set (key_hash tombstone_heap)) (dict_delete (key_hash tombstone_heap)) ops dict_new = Some (tombstone_dict ops)"
    "dict_ok (key_hash tombstone_heap) (tombstone_dict ops)" "dict_map (tombstone_dict ops) = fold spec_op ops Map.empty"
    using d by simp_all
qed

theorem value_equal_tombstones_witness:
  "value_equal tombstone_heap (VAL_OBJECT 4) (VAL_OBJECT 5) = Some True \<and>
   value_equal tombstone_heap (VAL_OBJECT 5) (VAL_OBJECT 4) = Some False \<and>
   value_equal tombstone_heap (VAL_OBJECT 4) (VAL_OBJECT 6) = Some False"
proof -
  let ?kh = "key_hash tombstone_heap"
  let ?d = "tombstone_dict [Store_Set 0 VAL_NULL, Store_Set 1 VAL_NULL]"
  let ?d' = "tombstone_dict [Store_Set 0 VAL_NULL, Store_Set 1 VAL_NULL, Store_Delete 1]"
  let ?e = "tombstone_dict [Store_Set 0 VAL_NULL]"
  have get: "get_dict tombstone_heap 4 = Some ?d'" "get_dict tombstone_heap 5 = Some ?d" "get_dict tombstone_heap 6 = Some ?e"
    by (simp_all add: get_dict_def hpayload_def hget_def tombstone_heap_def)
  have d: "dict_ok ?kh ?d" "dict_map ?d = [0 \<mapsto> VAL_NULL, 1 \<mapsto> VAL_NULL]"
    using tombstone_run [of "[Store_Set 0 VAL_NULL, Store_Set 1 VAL_NULL]"] by simp_all
  have d': "dict_map ?d' = [0 \<mapsto> VAL_NULL]"
    using tombstone_run [of "[Store_Set 0 VAL_NULL, Store_Set 1 VAL_NULL, Store_Delete 1]"] by (simp add: fun_eq_iff)
  have e: "dict_map ?e = [0 \<mapsto> VAL_NULL]"
    using tombstone_run [of "[Store_Set 0 VAL_NULL]"] by simp
  have "dict_delete ?kh ?d 1 = Some (True, ?d')" unfolding tombstone_key_hash by code_simp
  moreover have "d_count ?e = 1" by code_simp
  then have "d_count ?e = card (dom (dict_map ?e))" by (simp add: e)
  moreover have "dict_map ?e = dict_map ?d'" by (simp only: e d')
  moreover have "\<not> dbl_is_nan x" if "VAL_FLOAT x \<in> ran (dict_map ?d)" for x
    using that unfolding d(2) by (simp add: ran_def split: if_splits)
  moreover have "?kh 1 \<noteq> None" by (simp add: tombstone_key_hash)
  ultimately show ?thesis using value_equal_tombstones [OF get d(1), of 1] by blast
qed

section \<open>Copies\<close>

text \<open>C14: \<open>OP_INHERIT\<close> on two different classes pops both, links the superclass, and leaves in the method table of the
  subclass its own entries overridden by all entries of the superclass; no other object changes.\<close>

theorem op_inherit_copies_methods:
  assumes "vm_stack vm = st @ [VAL_OBJECT sp, VAL_OBJECT sub]" "sp \<noteq> sub"
    "get_class (vm_heap vm) sp = Some super" "\<not> k_is_struct super" "\<not> k_is_enum super" "k_methods super = Some src"
    "get_class (vm_heap vm) sub = Some k" "k_methods k = Some dst" "src \<noteq> dst"
    "get_dict (vm_heap vm) src = Some d" "dict_ok (key_hash (vm_heap vm)) d"
    "vm_dict_ok (key_hash (vm_heap vm)) dst vm" "vm_dict_room dst (d_capacity d) vm"
  shows "\<exists>vm'. op_inherit vm ip = Some (Continue vm' ip) \<and> vm_stack vm' = st \<and>
    get_class (vm_heap vm') sub = Some (k\<lparr>k_superclass := Some sp\<rparr>) \<and>
    vm_dict_map dst vm' = vm_dict_map dst vm ++ dict_map d \<and>
    (\<forall>q. q \<noteq> sub \<longrightarrow> q \<noteq> dst \<longrightarrow> hpayload (vm_heap vm') q = hpayload (vm_heap vm) q)"
proof -
  let ?h = "vm_heap vm" and ?pl = "OBJ_CLASS (k\<lparr>k_superclass := Some sp\<rparr>)"
  have sub: "hpayload ?h sub = Some (OBJ_CLASS k)" and sup: "hpayload ?h sp = Some (OBJ_CLASS super)"
    and src: "hpayload ?h src = Some (OBJ_DICT d)"
    using assms(3,7,10) by (auto simp: get_class_def get_dict_def split: option.splits payload.splits)
  obtain dd where dst: "hpayload ?h dst = Some (OBJ_DICT dd)"
    using assms(12) by (auto simp: vm_dict_ok_def get_dict_def split: option.splits payload.splits)
  have ne: "sub \<noteq> dst" "sub \<noteq> src" using sub dst src by auto
  obtain h1 where h1: "hput ?h sub ?pl = Some h1"
    using sub by (metis hput_iff hpayload_def option.distinct(1) option.map_disc_iff)
  let ?vm = "vm\<lparr>vm_heap := h1\<rparr>"
  have kh: "key_hash h1 = key_hash ?h"
    by (rule key_hash_hput_other [OF h1]) (simp_all add: get_string_def sub)
  have same: "get_dict h1 q = get_dict ?h q" if "q \<noteq> sub" for q
    using that by (simp add: get_dict_def hpayload_hput [OF h1])
  have ok: "vm_dict_ok (key_hash ?h) dst ?vm" "vm_dict_room dst (d_capacity d) ?vm" "vm_dict_map dst ?vm = vm_dict_map dst vm"
    using assms(12,13) ne same kh by (simp_all add: vm_dict_ok_def vm_dict_room_def vm_dict_map_def)
  have "get_dict (vm_heap ?vm) src = Some d" using same ne assms(10) by simp
  from copy_entries_spec [where f = "\<lambda>_. Some" and pick = "\<lambda>_ _ v. Some (Some v)", OF assms(9) this assms(11) ok(1,2)]
  obtain vm2 where vm2: "copy_entries src dst (\<lambda>_ _ v. Some (Some v)) ?vm = Some vm2" "copy_frame dst ?vm vm2"
    "vm_dict_map dst vm2 = vm_dict_map dst vm ++ dict_map d"
    using ok(3) by auto
  have st2: "vm_stack vm2 = vm_stack vm" using vm2(2) by (auto simp: copy_frame_def dest: arg_cong [where f = vm_stack])
  have pl2: "hpayload (vm_heap vm2) q = hpayload h1 q" if "q \<noteq> dst" for q using vm2(2) that by (simp add: copy_frame_def)
  let ?vm' = "vm2\<lparr>vm_stack := st\<rparr>"
  have "op_inherit vm ip = Some (Continue ?vm' ip)"
    using assms(1,4-8) sup sub h1 vm2(1) st2
    by (simp add: op_inherit_def vm_peek_def nth_append vm_hput_def get_class_def vm_pop_def butlast_append)
  moreover have "get_class (vm_heap ?vm') sub = Some (k\<lparr>k_superclass := Some sp\<rparr>)"
    using pl2 ne h1 by (simp add: get_class_def hpayload_hput)
  moreover have "vm_dict_map dst ?vm' = vm_dict_map dst vm ++ dict_map d" using vm2(3) by (simp add: vm_dict_map_def)
  ultimately show ?thesis using pl2 h1 by (intro exI [of _ ?vm']) (simp add: hpayload_hput)
qed

theorem op_inherit_copies_methods_witness:
  "\<exists>vm'. op_inherit sample_classes 5 = Some (Continue vm' 5) \<and> vm_stack vm' = [VAL_NULL] \<and>
    vm_dict_map 3 vm' = [4 \<mapsto> VAL_INT 7]"
proof -
  have get: "get_class (vm_heap sample_classes) 0 = Some (sample_class 2)" "get_class (vm_heap sample_classes) 1 = Some (sample_class 3)"
    "get_dict (vm_heap sample_classes) 2 = Some sample_methods" "get_dict (vm_heap sample_classes) 3 = Some dict_new"
    by (simp_all add: get_class_def get_dict_def sample_classes_payload sample_class_payloads_def)
  have st: "vm_stack sample_classes = [VAL_NULL] @ [VAL_OBJECT 0, VAL_OBJECT 1]" by (simp add: sample_classes_def)
  have ok: "vm_dict_ok (key_hash (vm_heap sample_classes)) 3 sample_classes" "vm_dict_room 3 (d_capacity sample_methods) sample_classes"
    "vm_dict_map 3 sample_classes = Map.empty"
    using get(4) by (simp_all add: vm_dict_ok_def vm_dict_room_def vm_dict_map_def dict_new_ok dict_room_def sample_methods_capacity)
       (simp add: dict_new_def)
  show ?thesis
    using op_inherit_copies_methods [OF st _ get(1) _ _ _ get(2) _ _ get(3) _ ok(1,2), of 5]
    by (simp add: sample_class_def sample_classes_key_hash sample_methods ok(3)) blast
qed

section \<open>Byte code\<close>

text \<open>C18: \<open>chunk_get_line\<close>, a binary search in the run-length line table, returns for every byte of the code the
  line it was written with.\<close>

theorem chunk_get_line_correct:
  assumes "j < length ws"
  shows "chunk_get_line (write_all chunk_init ws) j = snd (ws ! j)"
  using line_of_write_all [OF lines_ok_init assms] chunk_get_line_line_of [OF lines_ok_write_all [OF lines_ok_init]]
  by (simp add: chunk_init_def)

theorem chunk_get_line_correct_witness:
  "chunk_get_line (write_all chunk_init [(7, 1), (8, 1), (9, 4)]) 2 = 4"
  using chunk_get_line_correct [of 2 "[(7, 1), (8, 1), (9, 4)]"] by simp

text \<open>C19: Operands survive the byte code: a run of 16-bit operands, of integers or of doubles, written anywhere and
  followed by any code, is read back as written, and the instruction pointer ends behind it.\<close>

theorem operands_roundtrip:
  "decode_all read_uint16 (length us) (ch_code (emit_all chunk_write_uint16 c us) @ rest) (length (ch_code c)) =
     Some (map fst us, length (ch_code c) + length us * 2) \<and>
   decode_all read_int64 (length is) (ch_code (emit_all chunk_write_int64 c is) @ rest) (length (ch_code c)) =
     Some (map fst is, length (ch_code c) + length is * 8) \<and>
   decode_all read_double (length ds) (ch_code (emit_all chunk_write_double c ds) @ rest) (length (ch_code c)) =
     Some (map fst ds, length (ch_code c) + length ds * 8)"
  by (intro conjI uint16_operand.decode_all_emit_all int64_operand.decode_all_emit_all double_operand.decode_all_emit_all)

text \<open>C20: Patching a jump distance after the fact changes only the two bytes of that operand, which then read as the
  signed distance; the line table stays.\<close>

theorem chunk_patch_int16_correct:
  assumes "chunk_patch_int16 c offset v = Some c'"
  shows "read_int16 (ch_code c') offset = Some (sint v, offset + 2) \<and>
    (\<forall>j. j \<noteq> offset \<and> j \<noteq> offset + 1 \<longrightarrow> nth_opt (ch_code c') j = nth_opt (ch_code c) j) \<and>
    ch_lines c' = ch_lines c"
  using chunk_patch_int16_read [OF assms] by blast

theorem chunk_patch_int16_correct_witness:
  "\<exists>c. chunk_patch_int16 (write_all chunk_init [(0, 1), (1, 1), (2, 2)]) 1 0xFFFE = Some c \<and>
    read_int16 (ch_code c) 1 = Some (-2, 3)"
proof -
  obtain c where c: "chunk_patch_int16 (write_all chunk_init [(0, 1), (1, 1), (2, 2)]) 1 0xFFFE = Some c"
    by (simp add: chunk_patch_int16_def set_nth_def)
  then show ?thesis using chunk_patch_int16_correct [OF c] by simp
qed

section \<open>Slices\<close>

text \<open>
  C15: \<open>OP_SLICE\<close> on a list leaves a new list with the elements at the positions the slice means, in their order, for
  every start, end and step that fit: negative operands count from behind, operands outside are cut.  Every reachable
  object stays as it was, whether a collection runs or not, and nothing else of the machine changes.  The buffer of
  the new list is not added to the byte counter, which stays behind by its size.
\<close>

theorem op_slice_list_correct:
  assumes "gc_ok vm" "vm_stack vm = st @ [VAL_OBJECT p, operand_value a, operand_value b, operand_value k]"
    "get_list (vm_heap vm) p = Some l" "small_operand a" "small_operand b" "small_operand k"
    "length (va_data (elements l)) < 2 ^ 30" "slice_step k \<noteq> 0" "length st + 2 \<le> FLUX_STACK_MAX"
  shows "\<exists>r vm' l'. op_slice vm ip = Some (Continue vm' ip) \<and> vm_stack vm' = st @ [VAL_OBJECT r] \<and> gc_ok vm' \<and>
    gc_frame (vm\<lparr>vm_stack := vm_stack vm'\<rparr>) vm' \<and> r \<notin> allocated (vm_heap vm) \<and> get_list (vm_heap vm') r = Some l' \<and>
    va_data (elements l') = map (\<lambda>i. va_data (elements l) ! nat i)
      (slice_positions (int (length (va_data (elements l)))) (map_option sint a) (map_option sint b) (slice_step k)) \<and>
    (\<forall>q \<in> reachable vm. hpayload (vm_heap vm') q = hpayload (vm_heap vm) q) \<and>
    byte_drift vm' + of_nat (sizeof_value * va_capacity (elements l')) = byte_drift vm"
  by (rule op_slice_list_full [OF assms]) blast

text \<open>The list reversed.\<close>

theorem op_slice_list_correct_witness:
  "\<exists>r vm' l'. op_slice (sample_vm\<lparr>vm_stack := [VAL_OBJECT 2, VAL_NULL, VAL_NULL, VAL_INT (-1)]\<rparr>) 5 = Some (Continue vm' 5) \<and>
    vm_stack vm' = [VAL_OBJECT r] \<and> get_list (vm_heap vm') r = Some l' \<and> va_data (elements l') = [VAL_INT 7, VAL_OBJECT 0]"
proof -
  let ?vm = "sample_vm\<lparr>vm_stack := [] @ [VAL_OBJECT 2, operand_value None, operand_value None, operand_value (Some (-1))]\<rparr>"
  have "2 \<in> allocated (vm_heap sample_vm)" using reachable_allocated [OF sample_vm_gc_ok] by (simp add: sample_vm_reachable)
  then have ok: "gc_ok ?vm" using vm_ok_stack [OF sample_vm_ok] by (simp add: vm_ok_def operand_value_def)
  have stk: "vm_stack ?vm = [] @ [VAL_OBJECT 2, operand_value None, operand_value None, operand_value (Some (-1))]" by simp
  have l: "get_list (vm_heap ?vm) 2 = Some \<lparr>elements = \<lparr>va_data = [VAL_OBJECT 0, VAL_INT 7], va_capacity = 8\<rparr>\<rparr>"
    by (simp add: get_list_def sample_vm_payload sample_list_def)
  have pos: "slice_positions 2 None None (-1) = [1, 0]" by code_simp
  show ?thesis
    using op_slice_list_correct [OF ok stk l, where ip = 5]
    by (simp add: small_operand_def slice_step_def operand_value_def FLUX_STACK_MAX_def pos) blast
qed

text \<open>
  C16: \<open>OP_SLICE\<close> on a string leaves the string object of the characters at the positions the slice means, when the step
  is positive, or negative with an end that is not before the beginning.
\<close>

theorem op_slice_string_correct:
  assumes "vm_ok vm" "st_room 1 (vm_strings vm)"
    "vm_stack vm = st @ [VAL_OBJECT p, operand_value a, operand_value b, operand_value k]"
    "get_string (vm_heap vm) p = Some s" "small_operand a" "small_operand b" "small_operand k"
    "length (str_chars s) < 2 ^ 30" "slice_step k \<noteq> 0" "length st < FLUX_STACK_MAX"
    and "0 < slice_step k \<or> (\<exists>w. b = Some w \<and> - 1 \<le> wrapped (int (length (str_chars s))) (sint w))"
  shows "\<exists>r vm'. op_slice vm ip = Some (Continue vm' ip) \<and> vm_stack vm' = st @ [VAL_OBJECT r] \<and> vm_ok vm' \<and>
    gc_frame (vm\<lparr>vm_stack := vm_stack vm'\<rparr>) vm' \<and>
    is_str (vm_heap vm') r (map (\<lambda>i. str_chars s ! nat i)
      (slice_positions (int (length (str_chars s))) (map_option sint a) (map_option sint b) (slice_step k))) \<and>
    (\<forall>q \<in> reachable vm. hpayload (vm_heap vm') q = hpayload (vm_heap vm) q) \<and> byte_drift vm' = byte_drift vm"
  by (rule op_slice_string_full [OF assms]) blast

text \<open>The string without its first character.\<close>

theorem op_slice_string_correct_witness:
  "\<exists>r vm'. op_slice (sample_vm\<lparr>vm_stack := [VAL_OBJECT 0, VAL_INT 1, VAL_NULL, VAL_NULL]\<rparr>) 5 = Some (Continue vm' 5) \<and>
    vm_stack vm' = [VAL_OBJECT r] \<and> is_str (vm_heap vm') r ''b''"
proof -
  let ?vm = "sample_vm\<lparr>vm_stack := [] @ [VAL_OBJECT 0, operand_value (Some 1), operand_value None, operand_value None]\<rparr>"
  have "0 \<in> allocated (vm_heap sample_vm)" using reachable_allocated [OF sample_vm_gc_ok] by (simp add: sample_vm_reachable)
  then have ok: "vm_ok ?vm" using vm_ok_stack [OF sample_vm_ok] by (simp add: operand_value_def)
  have stk: "vm_stack ?vm = [] @ [VAL_OBJECT 0, operand_value (Some 1), operand_value None, operand_value None]" by simp
  have room: "st_room 1 (vm_strings ?vm)" using sample_vm_room by simp
  have s: "get_string (vm_heap ?vm) 0 = Some \<lparr>str_length = 2, str_hash = hash_string ''ab'', str_chars = ''ab''\<rparr>"
    by (simp add: get_string_def sample_vm_payload sample_string_def)
  have pos: "slice_positions 2 (Some 1) None 1 = [1]" by code_simp
  show ?thesis
    using op_slice_string_correct [OF ok room stk s, where ip = 5]
    by (simp add: small_operand_def slice_step_def operand_value_def FLUX_STACK_MAX_def pos) blast
qed

text \<open>
  C17: A string cannot be reversed: with a negative step and neither start nor end, \<open>OP_SLICE\<close> on a string of at least twice the
  length of the step copies bytes that were never written, since its loop goes on below position 0 and counts the
  positions it does not copy.
\<close>

theorem string_reverse_undefined:
  assumes "vm_stack vm = st @ [VAL_OBJECT p, VAL_NULL, VAL_NULL, VAL_INT k]" "get_string (vm_heap vm) p = Some s"
    "str_length s = length (str_chars s)" "sint k < 0" "- (2 ^ 30) < sint k"
    "2 * nat (- sint k) \<le> length (str_chars s)" "length (str_chars s) < 2 ^ 30"
  shows "op_slice vm ip = None"
  using assms by (rule op_slice_string_uninitialised)

theorem string_reverse_undefined_witness:
  "op_slice (sample_vm\<lparr>vm_stack := [VAL_OBJECT 0, VAL_NULL, VAL_NULL, VAL_INT (-1)]\<rparr>) 5 = None"
proof -
  let ?vm = "sample_vm\<lparr>vm_stack := [] @ [VAL_OBJECT 0, VAL_NULL, VAL_NULL, VAL_INT (-1)]\<rparr>"
  have s: "get_string (vm_heap ?vm) 0 = Some \<lparr>str_length = 2, str_hash = hash_string ''ab'', str_chars = ''ab''\<rparr>"
    by (simp add: get_string_def sample_vm_payload sample_string_def)
  have "vm_stack ?vm = [] @ [VAL_OBJECT 0, VAL_NULL, VAL_NULL, VAL_INT (-1)]" by simp
  from string_reverse_undefined [OF this s, of 5] show ?thesis by simp
qed

end
