(* ===== verification/Machine.thy ===== *)
theory Machine
  imports CoreOps
begin

text \<open>
  Coroutine, exception and import opcodes, the exception handler of the dispatch loop, and the loop
  itself (\<^verbatim>\<open>src/vm/vm.c\<close>).
\<close>

section \<open>Coroutines\<close>

definition op_create_task :: "flux_vm \<Rightarrow> nat \<Rightarrow> outcome option" where
  "op_create_task vm ip = do {
     (callee, vm) \<leftarrow> vm_pop vm;
     obj \<leftarrow> view (vm_heap vm) callee;
     case (callee, obj) of
       (VAL_OBJECT p, Some (OBJ_CLOSURE _)) \<Rightarrow> do {
         (co, vm) \<leftarrow> object_coroutine_new vm p;
         cl \<leftarrow> get_closure (vm_heap vm) p;
         _ \<leftarrow> get_function (vm_heap vm) (cl_function cl);
         vm \<leftarrow> upd_coroutine vm co (load_coroutine p [callee]);
         vm \<leftarrow> Some (vm_push vm (VAL_OBJECT co));
         Some (Continue (vm_scheduler_enqueue vm co) ip)
       }
     | _ \<Rightarrow> throw vm ip [''spawn requires a function'']
   }"

definition op_spawn_call :: "flux_vm \<Rightarrow> nat \<Rightarrow> outcome option" where
  "op_spawn_call vm ip = do {
     (argc, ip) \<leftarrow> fetch_byte vm ip;
     callee \<leftarrow> vm_peek vm argc;
     obj \<leftarrow> view (vm_heap vm) callee;
     case (callee, obj) of
       (VAL_OBJECT p, Some (OBJ_CLOSURE cl)) \<Rightarrow> do {
         fn \<leftarrow> get_function (vm_heap vm) (cl_function cl);
         if argc \<noteq> fn_arity fn then do {
           name \<leftarrow> (case fn_name fn of None \<Rightarrow> Some ''?'' | Some s \<Rightarrow> string_chars (vm_heap vm) s);
           throw vm ip [quoted name, '' expects '', show_nat (fn_arity fn), '' argument(s) but got '', show_nat argc]
         }
         else do { vm \<leftarrow> spawn_window vm p argc; Some (Continue vm ip) }
       }
     | _ \<Rightarrow> throw vm ip [''spawn requires a function'']
   }"

text \<open>The current coroutine leaves the machine: its upvalues are closed and its context is saved.\<close>

definition suspend_current :: "flux_vm \<Rightarrow> nat \<Rightarrow> ptr \<Rightarrow> (flux_coroutine \<Rightarrow> flux_coroutine) \<Rightarrow> flux_vm option" where
  "suspend_current vm ip co f = do {
     vm \<leftarrow> sync_ip vm ip;
     vm \<leftarrow> close_upvalues vm 0;
     vm \<leftarrow> coro_save vm co;
     upd_coroutine vm co (\<lambda>c. f (c\<lparr>co_state := CORO_SUSPENDED\<rparr>))
   }"

definition leave_machine :: "flux_vm \<Rightarrow> flux_vm" where
  "leave_machine vm = vm\<lparr>vm_stack := [], vm_frames := [], vm_current_coroutine := None\<rparr>"

definition op_yield :: "nat \<Rightarrow> flux_vm \<Rightarrow> nat \<Rightarrow> outcome option" where
  "op_yield base vm ip = do {
     (result, vm) \<leftarrow> vm_pop vm;
     f \<leftarrow> top_frame vm;
     fn \<leftarrow> (if vm_gen_yield_collector vm = None then Some None else map_option Some (frame_function vm f));
     case (vm_gen_yield_collector vm, map_option fn_is_generator fn) of
       (Some coll, Some True) \<Rightarrow> do {
         vm \<leftarrow> Some (vm_push vm result);
         v \<leftarrow> vm_peek vm 0;
         vm \<leftarrow> gc_value_array_write vm coll v;
         (_, vm) \<leftarrow> vm_pop vm;
         Some (Continue vm ip)
       }
     | _ \<Rightarrow>
         (case vm_current_coroutine vm of
            None \<Rightarrow> do {
              vm \<leftarrow> sync_ip vm ip;
              vm \<leftarrow> close_upvalues vm (fr_slots f);
              vm \<leftarrow> Some (vm\<lparr>vm_frames := butlast (vm_frames vm)\<rparr>);
              if length (vm_frames vm) = base then Some (Return VM_OK vm)
              else do { vm \<leftarrow> cut_stack vm (fr_slots f); load_frame (vm_push vm result) }
            }
          | Some co \<Rightarrow> do {
              vm \<leftarrow> suspend_current vm ip co (\<lambda>c. c\<lparr>co_result := result\<rparr>);
              Some (Return VM_YIELD (leave_machine (vm_scheduler_enqueue vm co)))
            })
   }"

text \<open>Await a future: its result, a suspension, or (outside a coroutine) the scheduler until it resolves.\<close>

definition await_future :: "ctx \<Rightarrow> flux_vm \<Rightarrow> nat \<Rightarrow> ptr \<Rightarrow> outcome option" where
  "await_future c vm ip fut = do {
     f \<leftarrow> get_future (vm_heap vm) fut;
     if fut_resolved f then push_continue vm ip (fut_result f)
     else case vm_current_coroutine vm of
       Some co \<Rightarrow> do {
         vm \<leftarrow> suspend_current vm ip co (\<lambda>x. x\<lparr>co_pending_future := Some fut\<rparr>);
         vm \<leftarrow> upd_future vm fut (\<lambda>x. x\<lparr>fut_waiting := Some co\<rparr>);
         Some (Return VM_YIELD (leave_machine vm))
       }
     | None \<Rightarrow> do {
         (failed, vm) \<leftarrow> drive_scheduler (c_fuel c) c (future_resolved fut) (vm_push vm (VAL_OBJECT fut));
         (_, vm) \<leftarrow> vm_pop vm;
         if failed then handle_nested_error vm ip (\<lambda>vm. Some (Return VM_RUNTIME_ERROR vm))
         else handle_nested_error vm ip (\<lambda>vm. do {
           f \<leftarrow> get_future (vm_heap vm) fut;
           push_continue vm ip (if fut_resolved f then fut_result f else VAL_NULL)
         })
       }
   }"

definition await_coroutine :: "ctx \<Rightarrow> flux_vm \<Rightarrow> nat \<Rightarrow> ptr \<Rightarrow> outcome option" where
  "await_coroutine c vm ip target = do {
     t \<leftarrow> get_coroutine (vm_heap vm) target;
     if co_state t = CORO_DEAD then push_continue vm ip (co_result t)
     else case vm_current_coroutine vm of
       Some co \<Rightarrow> do {
         vm \<leftarrow> suspend_current vm ip co (\<lambda>x. x);
         vm \<leftarrow> upd_coroutine vm target (\<lambda>x. x\<lparr>co_awaited_by := Some co\<rparr>);
         Some (Return VM_YIELD (leave_machine vm))
       }
     | None \<Rightarrow> do {
         (failed, vm) \<leftarrow> drive_scheduler (c_fuel c) c (coroutine_dead target) vm;
         if failed then handle_nested_error vm ip (\<lambda>vm. Some (Return VM_RUNTIME_ERROR vm))
         else handle_nested_error vm ip (\<lambda>vm. do {
           t \<leftarrow> get_coroutine (vm_heap vm) target;
           push_continue vm ip (co_result t)
         })
       }
   }"

definition await_closure :: "ctx \<Rightarrow> flux_vm \<Rightarrow> nat \<Rightarrow> ptr \<Rightarrow> outcome option" where
  "await_closure c vm ip p = do {
     vm \<leftarrow> sync_ip vm ip;
     (r, vm) \<leftarrow> vm_call_value c vm (VAL_OBJECT p) 0;
     if r = VM_ASYNC_SPAWNED then do { f \<leftarrow> top_frame vm; Some (Continue vm (fr_ip f - 1)) }
     else if r \<noteq> VM_OK then handle_nested_error vm ip (\<lambda>vm. Some (Return r vm))
     else load_frame vm
   }"

text \<open>An instance awaits through its \<^verbatim>\<open>__await__\<close>; the caller is rewound so that the opcode runs again
  on what the method returns.\<close>

definition await_instance :: "flux_vm \<Rightarrow> nat \<Rightarrow> ptr \<Rightarrow> outcome option" where
  "await_instance vm ip p = do {
     (await_key, vm) \<leftarrow> object_string_copy (vm_push vm (VAL_OBJECT p)) ''__await__'';
     i \<leftarrow> get_instance (vm_heap vm) p;
     field \<leftarrow> instance_fields_get vm p await_key;
     method \<leftarrow> (if field = None then class_methods_get vm (i_klass i) await_key else Some field);
     case method of
       None \<Rightarrow> do {
         (_, vm) \<leftarrow> vm_pop vm;
         name \<leftarrow> class_name vm (i_klass i);
         throw vm ip [''object of type '', quoted name, '' is not awaitable (implement '', quoted ''__await__'',
           '' to make it awaitable)'']
       }
     | Some m \<Rightarrow> do {
         obj \<leftarrow> view (vm_heap vm) m;
         case (m, obj) of
           (VAL_OBJECT cl, Some (OBJ_CLOSURE _)) \<Rightarrow> do {
             vm \<leftarrow> sync_ip vm (ip - 1);
             (ok, vm) \<leftarrow> call_closure vm cl 0;
             if \<not> ok then do {
               vm \<leftarrow> sync_ip vm ip;
               handle_nested_error vm ip (\<lambda>vm. Some (Return VM_RUNTIME_ERROR vm))
             }
             else load_frame vm
           }
         | _ \<Rightarrow> do {
             (_, vm) \<leftarrow> vm_pop vm;
             name \<leftarrow> class_name vm (i_klass i);
             t \<leftarrow> value_type_name (vm_heap vm) m;
             throw vm ip [quoted ''__await__'', '' on '', quoted name, '' must be a method (got '', t, '')'']
           }
       }
   }"

definition op_await :: "ctx \<Rightarrow> flux_vm \<Rightarrow> nat \<Rightarrow> outcome option" where
  "op_await c vm ip = do {
     (val, vm) \<leftarrow> vm_pop vm;
     obj \<leftarrow> view (vm_heap vm) val;
     case (val, obj) of
       (VAL_OBJECT p, Some (OBJ_FUTURE _)) \<Rightarrow> await_future c vm ip p
     | (VAL_OBJECT p, Some (OBJ_COROUTINE _)) \<Rightarrow> await_coroutine c vm ip p
     | (VAL_OBJECT p, Some (OBJ_CLOSURE _)) \<Rightarrow> await_closure c vm ip p
     | (VAL_OBJECT p, Some (OBJ_INSTANCE _)) \<Rightarrow> await_instance vm ip p
     | _ \<Rightarrow> push_continue vm ip val
   }"

section \<open>Exceptions\<close>

definition op_push_exception_handler :: "nat \<Rightarrow> flux_vm \<Rightarrow> nat \<Rightarrow> outcome option" where
  "op_push_exception_handler base vm ip = do {
     (offset, ip) \<leftarrow> fetch_int16 vm ip;
     (_, ip) \<leftarrow> fetch_byte vm ip;
     if FLUX_EXCEPTION_HANDLER_MAX \<le> length (vm_exception_handlers vm)
     then throw vm ip [''Exception handler stack overflow'']
     else if int ip + offset < 0 then None
     else Some (Continue (vm\<lparr>vm_exception_handlers :=
            \<lparr>eh_handler_ip = nat (int ip + offset), eh_frame_index = int (length (vm_frames vm)) - 1,
             eh_base_frame_count = base, eh_stack_depth = length (vm_stack vm)\<rparr> # vm_exception_handlers vm\<rparr>) ip)
   }"

definition op_pop_exception_handler :: "flux_vm \<Rightarrow> nat \<Rightarrow> outcome option" where
  "op_pop_exception_handler vm ip =
     Some (Continue (vm\<lparr>vm_exception_handlers := tl (vm_exception_handlers vm)\<rparr>) ip)"

definition op_raise :: "flux_vm \<Rightarrow> nat \<Rightarrow> outcome option" where
  "op_raise vm ip = do {
     (v, vm) \<leftarrow> vm_pop vm;
     Some (Exception (vm\<lparr>vm_current_exception := v, vm_has_exception := True\<rparr>) ip)
   }"

text \<open>The search: handlers of inner invocations are discarded, one of this invocation is taken, one of
  an outer invocation ends the search.\<close>

fun find_handler :: "nat \<Rightarrow> exception_handler list \<Rightarrow> exception_handler option \<times> exception_handler list" where
  "find_handler base [] = (None, [])"
| "find_handler base (h # hs) =
     (if eh_base_frame_count h < base then (None, h # hs)
      else if base < eh_base_frame_count h then find_handler base hs
      else (Some h, hs))"

fun unwind_frames :: "nat \<Rightarrow> flux_vm \<Rightarrow> flux_vm option" where
  "unwind_frames 0 vm = Some vm"
| "unwind_frames (Suc n) vm = do {
     f \<leftarrow> top_frame vm;
     vm \<leftarrow> close_upvalues vm (fr_slots f);
     unwind_frames n (vm\<lparr>vm_frames := butlast (vm_frames vm)\<rparr>)
   }"

definition activate_handler :: "exception_handler \<Rightarrow> flux_vm \<Rightarrow> outcome option" where
  "activate_handler h vm = do {
     vm \<leftarrow> unwind_frames (nat (int (length (vm_frames vm)) - 1 - eh_frame_index h)) vm;
     _ \<leftarrow> top_frame vm;
     vm \<leftarrow> close_upvalues vm (eh_stack_depth h);
     vm \<leftarrow> cut_stack vm (eh_stack_depth h);
     vm \<leftarrow> Some (vm_push vm (vm_current_exception vm));
     Some (Continue (vm\<lparr>vm_has_exception := False, vm_error_printed := False\<rparr>) (eh_handler_ip h))
   }"

text \<open>The report of an exception nobody handles.\<close>

definition report_exception :: "flux_vm \<Rightarrow> flux_vm option" where
  "report_exception vm = do {
     obj \<leftarrow> view (vm_heap vm) (vm_current_exception vm);
     case (vm_current_exception vm, obj) of
       (_, Some (OBJ_STRING s)) \<Rightarrow> vm_runtime_error vm (c_str (str_chars s))
     | (VAL_OBJECT p, Some (OBJ_INSTANCE i)) \<Rightarrow> do {
         (msg_key, vm) \<leftarrow> object_string_copy vm ''message'';
         field \<leftarrow> instance_fields_get vm p msg_key;
         name \<leftarrow> class_name vm (i_klass i);
         msg \<leftarrow> (case field of
                  None \<Rightarrow> Some None
                | Some v \<Rightarrow> do {
                    m \<leftarrow> view (vm_heap vm) v;
                    Some (case m of Some (OBJ_STRING s) \<Rightarrow> Some (c_str (str_chars s)) | _ \<Rightarrow> None)
                  });
         vm_runtime_error vm (case msg of Some m \<Rightarrow> name @ '': '' @ m | None \<Rightarrow> name)
       }
     | _ \<Rightarrow> vm_runtime_error vm ''Unhandled exception''
   }"

definition flux_handle_exception :: "nat \<Rightarrow> flux_vm \<Rightarrow> nat \<Rightarrow> outcome option" where
  "flux_handle_exception base vm ip =
     (case find_handler base (vm_exception_handlers vm) of
        (Some h, hs) \<Rightarrow> activate_handler h (vm\<lparr>vm_exception_handlers := hs\<rparr>)
      | (None, hs) \<Rightarrow> do {
          let vm = vm\<lparr>vm_exception_handlers := hs\<rparr>;
          vm \<leftarrow> (if \<not> vm_has_error vm \<and> \<not> vm_error_printed vm
                  then do { vm \<leftarrow> sync_ip vm ip; report_exception vm } else Some vm);
          Some (Return VM_RUNTIME_ERROR (vm_reset_stack vm))
        })"

section \<open>Import\<close>

definition op_import :: "ctx \<Rightarrow> flux_vm \<Rightarrow> nat \<Rightarrow> outcome option" where
  "op_import c vm ip = do {
     (name, ip) \<leftarrow> fetch_name vm ip;
     vm \<leftarrow> sync_ip vm ip;
     (res, vm) \<leftarrow> do_import c vm name;
     case res of
       None \<Rightarrow> handle_nested_error vm ip (\<lambda>vm. Some (Return VM_RUNTIME_ERROR vm))
     | Some mod_val \<Rightarrow> do { f \<leftarrow> top_frame vm; push_continue vm (fr_ip f) mod_val }
   }"

definition op_import_star :: "flux_vm \<Rightarrow> nat \<Rightarrow> outcome option" where
  "op_import_star vm ip = do {
     (mod_val, vm) \<leftarrow> vm_pop vm;
     obj \<leftarrow> view (vm_heap vm) mod_val;
     case (mod_val, obj) of
       (VAL_OBJECT p, Some (OBJ_DICT _)) \<Rightarrow> do {
         globals \<leftarrow> vm_globals vm;
         vm \<leftarrow> copy_entries p globals (\<lambda>_ _ v. Some (Some v)) vm;
         Some (Continue vm ip)
       }
     | _ \<Rightarrow> throw vm ip [quoted ''from ... import *'', '' requires a module object'']
   }"

section \<open>The dispatch loop\<close>

definition dispatch :: "opcode \<Rightarrow> ctx \<Rightarrow> nat \<Rightarrow> bool \<Rightarrow> flux_vm \<Rightarrow> nat \<Rightarrow> outcome option" where
  "dispatch op c base preserve vm ip =
     (case op of
        OP_PUSH_NULL \<Rightarrow> op_push_null vm ip
      | OP_PUSH_BOOL \<Rightarrow> op_push_bool vm ip
      | OP_PUSH_INT \<Rightarrow> op_push_int vm ip
      | OP_PUSH_FLOAT \<Rightarrow> op_push_float vm ip
      | OP_PUSH_STRING \<Rightarrow> op_push_const vm ip
      | OP_PUSH_CONST \<Rightarrow> op_push_const vm ip
      | OP_LOAD_LOCAL \<Rightarrow> op_load_local vm ip
      | OP_STORE_LOCAL \<Rightarrow> op_store_local vm ip
      | OP_LOAD_GLOBAL \<Rightarrow> op_load_global vm ip
      | OP_STORE_GLOBAL \<Rightarrow> op_store_global vm ip
      | OP_DEFINE_GLOBAL \<Rightarrow> op_define_global vm ip
      | OP_GET_UPVALUE \<Rightarrow> op_get_upvalue vm ip
      | OP_SET_UPVALUE \<Rightarrow> op_set_upvalue vm ip
      | OP_CLOSE_UPVALUE \<Rightarrow> op_close_upvalue vm ip
      | OP_GET_ATTR \<Rightarrow> op_get_attr c vm ip
      | OP_SET_ATTR \<Rightarrow> op_set_attr vm ip
      | OP_GET_INDEX \<Rightarrow> op_get_index vm ip
      | OP_SET_INDEX \<Rightarrow> op_set_index c vm ip
      | OP_SLICE \<Rightarrow> op_slice vm ip
      | OP_GET_ITER \<Rightarrow> op_get_iter vm ip
      | OP_POP \<Rightarrow> op_pop vm ip
      | OP_DUP \<Rightarrow> op_dup vm ip
      | OP_ADD \<Rightarrow> op_add vm ip
      | OP_SUB \<Rightarrow> op_sub vm ip
      | OP_MUL \<Rightarrow> op_mul vm ip
      | OP_DIV \<Rightarrow> op_div vm ip
      | OP_MOD \<Rightarrow> op_mod vm ip
      | OP_POW \<Rightarrow> op_pow c vm ip
      | OP_FLOOR_DIV \<Rightarrow> op_floor_div vm ip
      | OP_NEGATE \<Rightarrow> op_negate vm ip
      | OP_BIT_AND \<Rightarrow> op_bit_and vm ip
      | OP_BIT_OR \<Rightarrow> op_bit_or vm ip
      | OP_BIT_XOR \<Rightarrow> op_bit_xor vm ip
      | OP_BIT_NOT \<Rightarrow> op_bit_not vm ip
      | OP_SHL \<Rightarrow> op_shl vm ip
      | OP_SHR \<Rightarrow> op_shr vm ip
      | OP_EQ \<Rightarrow> op_eq c vm ip
      | OP_NEQ \<Rightarrow> op_neq c vm ip
      | OP_LT \<Rightarrow> op_lt vm ip
      | OP_LTE \<Rightarrow> op_lte vm ip
      | OP_GT \<Rightarrow> op_gt vm ip
      | OP_GTE \<Rightarrow> op_gte vm ip
      | OP_NOT \<Rightarrow> op_not vm ip
      | OP_AND \<Rightarrow> op_and vm ip
      | OP_OR \<Rightarrow> op_or vm ip
      | OP_JUMP \<Rightarrow> op_jump vm ip
      | OP_JUMP_IF_FALSE \<Rightarrow> op_jump_if_false vm ip
      | OP_LOOP \<Rightarrow> op_loop vm ip
      | OP_CREATE_LIST \<Rightarrow> op_create_list vm ip
      | OP_CREATE_DICT \<Rightarrow> op_create_dict vm ip
      | OP_CALL \<Rightarrow> op_call c vm ip
      | OP_RETURN \<Rightarrow> op_return base preserve vm ip
      | OP_CLOSURE \<Rightarrow> op_closure vm ip
      | OP_CLASS \<Rightarrow> op_class vm ip
      | OP_METHOD \<Rightarrow> op_method vm ip
      | OP_INVOKE \<Rightarrow> op_invoke c vm ip
      | OP_INHERIT \<Rightarrow> op_inherit vm ip
      | OP_MARK_STRUCT \<Rightarrow> op_mark_struct vm ip
      | OP_MARK_ENUM \<Rightarrow> op_mark_enum vm ip
      | OP_ISINSTANCE \<Rightarrow> op_isinstance vm ip
      | OP_GET_SUPER \<Rightarrow> op_get_super vm ip
      | OP_CREATE_TASK \<Rightarrow> op_create_task vm ip
      | OP_SPAWN_CALL \<Rightarrow> op_spawn_call vm ip
      | OP_YIELD \<Rightarrow> op_yield base vm ip
      | OP_AWAIT \<Rightarrow> op_await c vm ip
      | OP_PUSH_EXCEPTION_HANDLER \<Rightarrow> op_push_exception_handler base vm ip
      | OP_POP_EXCEPTION_HANDLER \<Rightarrow> op_pop_exception_handler vm ip
      | OP_RAISE \<Rightarrow> op_raise vm ip
      | OP_IMPORT \<Rightarrow> op_import c vm ip
      | OP_IMPORT_STAR \<Rightarrow> op_import_star vm ip
      | OP_HALT \<Rightarrow> Some (Return VM_OK vm))"

text \<open>One turn of the loop: fetch, dispatch, and the jump to \<^verbatim>\<open>flux_handle_exception\<close>.\<close>

definition vm_step :: "ctx \<Rightarrow> nat \<Rightarrow> bool \<Rightarrow> flux_vm \<Rightarrow> nat \<Rightarrow> outcome option" where
  "vm_step c base preserve vm ip = do {
     code \<leftarrow> frame_code vm;
     (b, ip) \<leftarrow> read_byte code ip;
     r \<leftarrow> (case opcode_of_byte b of
            Some op \<Rightarrow> dispatch op c base preserve vm ip
          | None \<Rightarrow> throw vm ip [''Unknown opcode '', show_nat (unat b)]);
     case r of
       Exception vm ip \<Rightarrow> flux_handle_exception base vm ip
     | _ \<Rightarrow> Some r
   }"

text \<open>
  The loop with a bound on the number of turns.  Nested invocations, from natives through
  \<open>vm_invoke\<close>, from generators, imports and the scheduler, run with the remaining bound.  Theory \<open>Fuel\<close>
  shows that a result with some bound is the result with every larger one.
\<close>

fun vm_loop :: "nat \<Rightarrow> vm_env \<Rightarrow> nat \<Rightarrow> bool \<Rightarrow> flux_vm \<Rightarrow> nat \<Rightarrow> (vm_result \<times> flux_vm) option"
  and vm_invoke_rec :: "nat \<Rightarrow> vm_env \<Rightarrow> invoker" where
  "vm_loop 0 env base preserve vm ip = None"
| "vm_loop (Suc n) env base preserve vm ip =
     (case vm_step \<lparr>c_env = env,
                    c_run = (\<lambda>vm b p. do { f \<leftarrow> top_frame vm; vm_loop n env b p vm (fr_ip f) }),
                    c_invoke = vm_invoke_rec n env, c_fuel = n\<rparr> base preserve vm ip of
        None \<Rightarrow> None
      | Some (Continue vm' ip') \<Rightarrow> vm_loop n env base preserve vm' ip'
      | Some (Exception vm' ip') \<Rightarrow> None
      | Some (Return r vm') \<Rightarrow> Some (r, vm'))"
| "vm_invoke_rec 0 env vm callee args = None"
| "vm_invoke_rec (Suc n) env vm callee args =
     vm_invoke \<lparr>c_env = env,
                c_run = (\<lambda>vm b p. do { f \<leftarrow> top_frame vm; vm_loop n env b p vm (fr_ip f) }),
                c_invoke = vm_invoke_rec n env, c_fuel = n\<rparr> vm callee args"

definition vm_run :: "nat \<Rightarrow> vm_env \<Rightarrow> runner" where
  "vm_run n env vm base preserve = do { f \<leftarrow> top_frame vm; vm_loop n env base preserve vm (fr_ip f) }"

definition run_ctx :: "nat \<Rightarrow> vm_env \<Rightarrow> ctx" where
  "run_ctx n env = \<lparr>c_env = env, c_run = vm_run n env, c_invoke = vm_invoke_rec n env, c_fuel = n\<rparr>"

lemma vm_loop_Suc:
  "vm_loop (Suc n) env base preserve vm ip =
     (case vm_step (run_ctx n env) base preserve vm ip of
        None \<Rightarrow> None
      | Some (Continue vm' ip') \<Rightarrow> vm_loop n env base preserve vm' ip'
      | Some (Exception vm' ip') \<Rightarrow> None
      | Some (Return r vm') \<Rightarrow> Some (r, vm'))"
  by (simp add: run_ctx_def vm_run_def [abs_def])

lemma vm_invoke_rec_Suc: "vm_invoke_rec (Suc n) env = vm_invoke (run_ctx n env)"
  by (intro ext) (simp add: run_ctx_def vm_run_def [abs_def])

declare vm_loop.simps [simp del] vm_invoke_rec.simps [simp del]

end
