(* ===== verification/Fuel.thy ===== *)
theory Fuel
  imports Machine
begin

text \<open>
  The bound on the dispatch loop is not part of the program: a run that ends with some bound ends in the
  same way with every larger one.  The order \<open>opt_le\<close> says that a partial result is kept; every operation
  that re-enters the loop is monotone in it, provided the native code of the environment is.
\<close>

section \<open>The order on partial results\<close>

definition opt_le :: "'a option \<Rightarrow> 'a option \<Rightarrow> bool" where
  "opt_le a b \<longleftrightarrow> (\<forall>x. a = Some x \<longrightarrow> b = Some x)"

named_theorems opt_mono \<open>monotonicity rules for \<open>opt_le\<close>\<close>

lemma opt_le_refl [opt_mono]: "opt_le a a"
  by (simp add: opt_le_def)

lemma opt_leD: "opt_le a b \<Longrightarrow> a = Some x \<Longrightarrow> b = Some x"
  by (simp add: opt_le_def)

lemma opt_le_None [opt_mono]: "opt_le None b"
  by (simp add: opt_le_def)

lemma opt_le_bind [opt_mono]:
  "opt_le a b \<Longrightarrow> (\<And>x. opt_le (f x) (g x)) \<Longrightarrow> opt_le (Option.bind a f) (Option.bind b g)"
  by (auto simp: opt_le_def bind_Some_iff)

lemma opt_le_map [opt_mono]: "opt_le a b \<Longrightarrow> opt_le (map_option f a) (map_option f b)"
  by (auto simp: opt_le_def)

lemma opt_le_if [opt_mono]:
  "(P \<Longrightarrow> opt_le a b) \<Longrightarrow> (\<not> P \<Longrightarrow> opt_le a' b') \<Longrightarrow> opt_le (if P then a else a') (if P then b else b')"
  by simp

lemma opt_le_prod [opt_mono]:
  "(\<And>x y. opt_le (f x y) (g x y)) \<Longrightarrow> opt_le (case p of (x, y) \<Rightarrow> f x y) (case p of (x, y) \<Rightarrow> g x y)"
  by (cases p) simp

lemma opt_le_option [opt_mono]:
  "opt_le a b \<Longrightarrow> (\<And>x. opt_le (f x) (g x)) \<Longrightarrow>
    opt_le (case z of None \<Rightarrow> a | Some x \<Rightarrow> f x) (case z of None \<Rightarrow> b | Some x \<Rightarrow> g x)"
  by (cases z) simp_all

lemma opt_le_value [opt_mono]:
  "(\<And>i. opt_le (fi i) (gi i)) \<Longrightarrow> (\<And>d. opt_le (fd d) (gd d)) \<Longrightarrow> (\<And>b. opt_le (fb b) (gb b)) \<Longrightarrow> opt_le fn gn \<Longrightarrow>
    (\<And>p. opt_le (fo p) (go p)) \<Longrightarrow>
    opt_le (case_flux_value fi fd fb fn fo v) (case_flux_value gi gd gb gn go v)"
  by (cases v) simp_all

lemma opt_le_payload [opt_mono]:
  assumes "\<And>x. opt_le (f1 x) (g1 x)" "\<And>x. opt_le (f2 x) (g2 x)" "\<And>x. opt_le (f3 x) (g3 x)" "\<And>x. opt_le (f4 x) (g4 x)"
    "\<And>x. opt_le (f5 x) (g5 x)" "\<And>x. opt_le (f6 x) (g6 x)" "\<And>x. opt_le (f7 x) (g7 x)" "\<And>x. opt_le (f8 x) (g8 x)"
    "\<And>x. opt_le (f9 x) (g9 x)" "\<And>x. opt_le (f10 x) (g10 x)" "\<And>x. opt_le (f11 x) (g11 x)" "\<And>x. opt_le (f12 x) (g12 x)"
  shows "opt_le (case_payload f1 f2 f3 f4 f5 f6 f7 f8 f9 f10 f11 f12 pl) (case_payload g1 g2 g3 g4 g5 g6 g7 g8 g9 g10 g11 g12 pl)"
  using assms by (cases pl) simp_all

lemma opt_le_compiled [opt_mono]:
  "opt_le a b \<Longrightarrow> opt_le a' b' \<Longrightarrow> (\<And>x. opt_le (f x) (g x)) \<Longrightarrow> opt_le (case_compiled a a' f z) (case_compiled b b' g z)"
  by (cases z) simp_all

section \<open>Contexts\<close>

definition inv_le :: "invoker \<Rightarrow> invoker \<Rightarrow> bool" where
  "inv_le f g \<longleftrightarrow> (\<forall>vm callee args. opt_le (f vm callee args) (g vm callee args))"

definition env_mono :: "vm_env \<Rightarrow> bool" where
  "env_mono env \<longleftrightarrow>
     (\<forall>f g fn argc vm. inv_le f g \<longrightarrow> opt_le (env_native env f fn argc vm) (env_native env g fn argc vm)) \<and>
     (\<forall>f g v name argc vm. inv_le f g \<longrightarrow>
        opt_le (env_invoke_builtin env f v name argc vm) (env_invoke_builtin env g v name argc vm))"

definition ctx_le :: "ctx \<Rightarrow> ctx \<Rightarrow> bool" where
  "ctx_le c d \<longleftrightarrow> c_env d = c_env c \<and> env_mono (c_env c) \<and> inv_le (c_invoke c) (c_invoke d) \<and>
     (\<forall>vm base preserve. opt_le (c_run c vm base preserve) (c_run d vm base preserve)) \<and> c_fuel c \<le> c_fuel d"

lemma ctx_le_env: "ctx_le c d \<Longrightarrow> c_env d = c_env c"
  by (simp add: ctx_le_def)

lemma ctx_le_run [opt_mono]: "ctx_le c d \<Longrightarrow> opt_le (c_run c vm base preserve) (c_run d vm base preserve)"
  by (simp add: ctx_le_def)

lemma ctx_le_native [opt_mono]:
  "ctx_le c d \<Longrightarrow> opt_le (env_native (c_env c) (c_invoke c) fn argc vm) (env_native (c_env d) (c_invoke d) fn argc vm)"
  by (simp add: ctx_le_def env_mono_def)

lemma ctx_le_builtin [opt_mono]:
  "ctx_le c d \<Longrightarrow>
    opt_le (env_invoke_builtin (c_env c) (c_invoke c) v name argc vm) (env_invoke_builtin (c_env d) (c_invoke d) v name argc vm)"
  by (simp add: ctx_le_def env_mono_def)

section \<open>Calls and the scheduler\<close>

lemma call_native_mono [opt_mono]:
  assumes "ctx_le c d"
  shows "opt_le (call_native c vm p argc) (call_native d vm p argc)"
  unfolding call_native_def Let_def by (intro opt_mono assms)

lemma call_generator_mono [opt_mono]:
  assumes "ctx_le c d"
  shows "opt_le (call_generator c vm cl fn argc) (call_generator d vm cl fn argc)"
  unfolding call_generator_def Let_def by (intro opt_mono assms)

lemma vm_call_value_mono [opt_mono]:
  assumes "ctx_le c d"
  shows "opt_le (vm_call_value c vm callee argc) (vm_call_value d vm callee argc)"
  unfolding vm_call_value_def by (intro opt_mono assms)

lemma run_step_mono [opt_mono]:
  assumes "\<And>vm base preserve. opt_le (run vm base preserve) (run' vm base preserve)"
  shows "opt_le (vm_scheduler_run_step run vm) (vm_scheduler_run_step run' vm)"
  unfolding vm_scheduler_run_step_def Let_def
  by (cases "vm_scheduler_dequeue vm") (auto split: option.split intro!: opt_mono assms)

lemma drive_scheduler_mono [opt_mono]:
  assumes "ctx_le c d" "n \<le> m"
  shows "opt_le (drive_scheduler n c finished vm) (drive_scheduler m d finished vm)"
  using assms(2)
proof (induction n arbitrary: m vm)
  case (Suc n)
  then obtain k where m: "m = Suc k" "n \<le> k" by (cases m) auto
  show ?case
    unfolding m(1) drive_scheduler.simps ctx_le_env [OF assms(1)]
    by (intro opt_mono assms(1) Suc.IH m(2))
qed (simp add: opt_le_def)

lemma vm_scheduler_run_mono [opt_mono]:
  assumes "ctx_le c d" "n \<le> m"
  shows "opt_le (vm_scheduler_run n c vm) (vm_scheduler_run m d vm)"
  using assms(2)
proof (induction n arbitrary: m vm)
  case (Suc n)
  then obtain k where m: "m = Suc k" "n \<le> k" by (cases m) auto
  show ?case
    unfolding m(1) vm_scheduler_run.simps ctx_le_env [OF assms(1)]
    by (intro opt_mono assms(1) Suc.IH m(2))
qed (simp add: opt_le_def)

lemma ctx_le_fuel [opt_mono]: "ctx_le c d \<Longrightarrow> c_fuel c \<le> c_fuel d"
  by (simp add: ctx_le_def)

lemma vm_invoke_mono [opt_mono]:
  assumes "ctx_le c d"
  shows "opt_le (vm_invoke c vm callee args) (vm_invoke d vm callee args)"
  unfolding vm_invoke_def Let_def by (intro opt_mono assms)

lemma import_run_mono [opt_mono]:
  assumes "ctx_le c d"
  shows "opt_le (import_run c vm resolved key fn) (import_run d vm resolved key fn)"
  unfolding import_run_def Let_def by (intro opt_mono assms)

lemma import_extension_mono [opt_mono]:
  assumes "ctx_le c d"
  shows "opt_le (import_extension c vm m name) (import_extension d vm m name)"
  unfolding import_extension_def Let_def ctx_le_env [OF assms] by (intro opt_mono assms)

lemma import_load_mono [opt_mono]:
  assumes "ctx_le c d"
  shows "opt_le (import_load c vm resolved name key) (import_load d vm resolved name key)"
  unfolding import_load_def Let_def ctx_le_env [OF assms] by (intro opt_mono assms)

lemma do_import_mono [opt_mono]:
  assumes "ctx_le c d"
  shows "opt_le (do_import c vm name) (do_import d vm name)"
  unfolding do_import_def Let_def ctx_le_env [OF assms] by (intro opt_mono assms)

section \<open>The opcodes\<close>

lemma opt_le_nested [opt_mono]:
  "(\<And>vm. opt_le (f vm) (g vm)) \<Longrightarrow> opt_le (handle_nested_error vm ip f) (handle_nested_error vm ip g)"
  unfolding handle_nested_error_def by (intro opt_mono)

lemma builtin_attr_mono [opt_mono]:
  assumes "ctx_le c d"
  shows "opt_le (builtin_attr c vm ip v name) (builtin_attr d vm ip v name)"
  unfolding builtin_attr_def Let_def ctx_le_env [OF assms] by (intro opt_mono assms)

lemma op_get_attr_mono [opt_mono]:
  assumes "ctx_le c d"
  shows "opt_le (op_get_attr c vm ip) (op_get_attr d vm ip)"
  unfolding op_get_attr_def Let_def ctx_le_env [OF assms] by (intro opt_mono assms)

lemma set_index_instance_mono [opt_mono]:
  assumes "ctx_le c d"
  shows "opt_le (set_index_instance c vm ip obj p i v) (set_index_instance d vm ip obj p i v)"
  unfolding set_index_instance_def Let_def ctx_le_env [OF assms] by (intro opt_mono assms)

lemma op_set_index_mono [opt_mono]:
  assumes "ctx_le c d"
  shows "opt_le (op_set_index c vm ip) (op_set_index d vm ip)"
  unfolding op_set_index_def Let_def ctx_le_env [OF assms] by (intro opt_mono assms)

lemma op_pow_mono [opt_mono]:
  assumes "ctx_le c d"
  shows "opt_le (op_pow c vm ip) (op_pow d vm ip)"
  unfolding op_pow_def Let_def ctx_le_env [OF assms] by (intro opt_mono assms)

lemma op_equality_mono [opt_mono]:
  assumes "ctx_le c d"
  shows "opt_le (op_equality neg c vm ip) (op_equality neg d vm ip)"
  unfolding op_equality_def Let_def ctx_le_env [OF assms] by (intro opt_mono assms)

lemma op_eq_mono [opt_mono]:
  assumes "ctx_le c d"
  shows "opt_le (op_eq c vm ip) (op_eq d vm ip)"
  unfolding op_eq_def Let_def ctx_le_env [OF assms] by (intro opt_mono assms)

lemma op_neq_mono [opt_mono]:
  assumes "ctx_le c d"
  shows "opt_le (op_neq c vm ip) (op_neq d vm ip)"
  unfolding op_neq_def Let_def ctx_le_env [OF assms] by (intro opt_mono assms)

lemma op_call_mono [opt_mono]:
  assumes "ctx_le c d"
  shows "opt_le (op_call c vm ip) (op_call d vm ip)"
  unfolding op_call_def Let_def ctx_le_env [OF assms] by (intro opt_mono assms)

lemma invoke_builtin_mono [opt_mono]:
  assumes "ctx_le c d"
  shows "opt_le (invoke_builtin c vm ip v name argc) (invoke_builtin d vm ip v name argc)"
  unfolding invoke_builtin_def by (intro opt_mono assms)

lemma invoke_instance_mono [opt_mono]:
  assumes "ctx_le c d"
  shows "opt_le (invoke_instance c vm ip p name argc) (invoke_instance d vm ip p name argc)"
  unfolding invoke_instance_def Let_def ctx_le_env [OF assms] by (intro opt_mono assms)

lemma op_invoke_mono [opt_mono]:
  assumes "ctx_le c d"
  shows "opt_le (op_invoke c vm ip) (op_invoke d vm ip)"
  unfolding op_invoke_def Let_def ctx_le_env [OF assms] by (intro opt_mono assms)

lemma await_future_mono [opt_mono]:
  assumes "ctx_le c d"
  shows "opt_le (await_future c vm ip fut) (await_future d vm ip fut)"
  unfolding await_future_def Let_def ctx_le_env [OF assms] by (intro opt_mono assms)

lemma await_coroutine_mono [opt_mono]:
  assumes "ctx_le c d"
  shows "opt_le (await_coroutine c vm ip co) (await_coroutine d vm ip co)"
  unfolding await_coroutine_def Let_def ctx_le_env [OF assms] by (intro opt_mono assms)

lemma await_closure_mono [opt_mono]:
  assumes "ctx_le c d"
  shows "opt_le (await_closure c vm ip cl) (await_closure d vm ip cl)"
  unfolding await_closure_def Let_def ctx_le_env [OF assms] by (intro opt_mono assms)

lemma op_await_mono [opt_mono]:
  assumes "ctx_le c d"
  shows "opt_le (op_await c vm ip) (op_await d vm ip)"
  unfolding op_await_def Let_def ctx_le_env [OF assms] by (intro opt_mono assms)

lemma op_import_mono [opt_mono]:
  assumes "ctx_le c d"
  shows "opt_le (op_import c vm ip) (op_import d vm ip)"
  unfolding op_import_def Let_def ctx_le_env [OF assms] by (intro opt_mono assms)

lemma dispatch_mono [opt_mono]:
  assumes "ctx_le c d"
  shows "opt_le (dispatch op c base preserve vm ip) (dispatch op d base preserve vm ip)"
  by (cases op; simp only: dispatch_def opcode.case; intro opt_mono assms)

lemma vm_step_mono [opt_mono]:
  assumes "ctx_le c d"
  shows "opt_le (vm_step c base preserve vm ip) (vm_step d base preserve vm ip)"
  unfolding vm_step_def by (intro opt_mono assms)

section \<open>The loop\<close>

lemma loop_mono:
  assumes "env_mono env" "n \<le> m"
  shows "(\<forall>base preserve vm ip. opt_le (vm_loop n env base preserve vm ip) (vm_loop m env base preserve vm ip)) \<and>
    inv_le (vm_invoke_rec n env) (vm_invoke_rec m env)"
  using assms(2)
proof (induction n arbitrary: m)
  case 0
  then show ?case by (simp add: opt_le_def inv_le_def vm_loop.simps vm_invoke_rec.simps)
next
  case (Suc n)
  then obtain k where m: "m = Suc k" "n \<le> k" by (cases m) auto
  have le: "ctx_le (run_ctx n env) (run_ctx k env)"
    using Suc.IH [OF m(2)] assms(1) m(2)
    by (auto simp: ctx_le_def run_ctx_def vm_run_def intro!: opt_mono)
  have loop: "opt_le (vm_loop n env base preserve vm ip) (vm_loop k env base preserve vm ip)" for base preserve vm ip
    using Suc.IH [OF m(2)] by blast
  have "opt_le (vm_loop (Suc n) env base preserve vm ip) (vm_loop (Suc k) env base preserve vm ip)" for base preserve vm ip
    using vm_step_mono [OF le, of base preserve vm ip] loop
    by (auto simp: vm_loop_Suc opt_le_def split: option.splits outcome.splits)
  moreover have "inv_le (vm_invoke_rec (Suc n) env) (vm_invoke_rec (Suc k) env)"
    unfolding inv_le_def vm_invoke_rec_Suc by (intro allI opt_mono le)
  ultimately show ?case unfolding m(1) by blast
qed

lemmas vm_loop_mono = loop_mono [THEN conjunct1, rule_format]

lemma run_ctx_le:
  assumes "env_mono env" "n \<le> m"
  shows "ctx_le (run_ctx n env) (run_ctx m env)"
  using assms loop_mono [OF assms] by (auto simp: ctx_le_def run_ctx_def vm_run_def intro!: opt_mono)

lemma vm_run_mono: "env_mono env \<Longrightarrow> n \<le> m \<Longrightarrow> opt_le (vm_run n env vm base preserve) (vm_run m env vm base preserve)"
  unfolding vm_run_def by (intro opt_mono vm_loop_mono)

lemma vm_execute_mono:
  assumes "ctx_le c d"
  shows "opt_le (vm_execute c vm fn) (vm_execute d vm fn)"
  unfolding vm_execute_def Let_def by (intro opt_mono assms)

end
