(* ===== verification/FrameProps.thy ===== *)
theory FrameProps
  imports UpvalueProps Machine
begin

text \<open>
  Leaving frames: \<open>OP_RETURN\<close> and the unwinding of an exception.  The variables captured in the frames that
  disappear keep their values: an upvalue is settled when it is in the list of open upvalues or closed, and
  closing and cutting the stack changes what no settled upvalue reads.
\<close>

definition settled :: "flux_vm \<Rightarrow> ptr \<Rightarrow> bool" where
  "settled vm p \<longleftrightarrow> p \<in> set (vm_open_upvalues vm) \<or> (\<exists>uv. get_upvalue (vm_heap vm) p = Some uv \<and> uv_location uv = Closed)"

text \<open>The machine after \<open>vm\<close> with other heap and stack contents: what closing and cutting may change.\<close>

definition frame_same :: "flux_vm \<Rightarrow> flux_vm \<Rightarrow> bool" where
  "frame_same vm vm' \<longleftrightarrow>
     vm'\<lparr>vm_heap := [], vm_open_upvalues := [], vm_frames := [], vm_stack := []\<rparr> =
     vm\<lparr>vm_heap := [], vm_open_upvalues := [], vm_frames := [], vm_stack := []\<rparr>"

lemma frame_same_refl: "frame_same vm vm"
  by (simp add: frame_same_def)

lemma frame_same_trans: "frame_same vm vm1 \<Longrightarrow> frame_same vm1 vm2 \<Longrightarrow> frame_same vm vm2"
  by (simp add: frame_same_def)

lemma frame_same_updates [simp]:
  "frame_same vm (vm'\<lparr>vm_stack := st\<rparr>) = frame_same vm vm'"
  "frame_same vm (vm'\<lparr>vm_frames := fs\<rparr>) = frame_same vm vm'"
  by (simp_all add: frame_same_def)

lemma frame_same_fields:
  assumes "frame_same vm vm'"
  shows "vm_current_exception vm' = vm_current_exception vm" "vm_exception_handlers vm' = vm_exception_handlers vm"
    "vm_has_error vm' = vm_has_error vm"
  using arg_cong [OF assms [unfolded frame_same_def], of vm_current_exception]
    arg_cong [OF assms [unfolded frame_same_def], of vm_exception_handlers]
    arg_cong [OF assms [unfolded frame_same_def], of vm_has_error] by simp_all

lemma settled_updates [simp]:
  "settled (vm\<lparr>vm_stack := st\<rparr>) p = settled vm p"
  "settled (vm\<lparr>vm_frames := fs\<rparr>) p = settled vm p"
  by (simp_all add: settled_def)

lemma upvalue_get_frames [simp]: "upvalue_get (vm\<lparr>vm_frames := fs\<rparr>) p = upvalue_get vm p"
  by (simp add: upvalue_get_def cong: upvalue_location.case_cong)

lemma upvalues_ok_frames [simp]: "upvalues_ok (vm\<lparr>vm_frames := fs\<rparr>) = upvalues_ok vm"
  by (simp add: upvalues_ok_def)

lemma closed_get: "get_upvalue (vm_heap vm) p = Some uv \<Longrightarrow> uv_location uv = Closed \<Longrightarrow> upvalue_get vm p = Some (uv_closed uv)"
  by (simp add: upvalue_get_def)

lemma close_upvalues_full:
  assumes ok: "upvalues_ok vm"
  obtains vm' where "close_upvalues vm d = Some vm'" "vm_stack vm' = vm_stack vm" "vm_frames vm' = vm_frames vm"
    "frame_same vm vm'" "upvalues_ok vm'" "upvalues_ok (vm'\<lparr>vm_stack := take d (vm_stack vm)\<rparr>)"
    "\<And>p. settled vm p \<Longrightarrow> settled vm' p \<and> upvalue_get vm' p = upvalue_get vm p \<and>
       upvalue_get (vm'\<lparr>vm_stack := take d (vm_stack vm)\<rparr>) p = upvalue_get vm p"
proof -
  let ?uvs = "vm_open_upvalues vm"
  obtain vm' h where c: "close_upvalues vm d = Some vm'"
    "vm' = vm\<lparr>vm_heap := h, vm_open_upvalues := filter (\<lambda>p. \<exists>l < d. open_slot (vm_heap vm) p = Some l) ?uvs\<rparr>"
    "same_except (set ?uvs) (vm_heap vm) h"
    "upvalues_ok (vm'\<lparr>vm_stack := take d (vm_stack vm)\<rparr>)" "upvalues_ok vm'"
    "\<And>p. upvalue_get vm' p = upvalue_get vm p"
    "\<And>p. p \<in> set ?uvs \<Longrightarrow> upvalue_get (vm'\<lparr>vm_stack := take d (vm_stack vm)\<rparr>) p = upvalue_get vm p"
    by (rule close_upvalues_spec [OF ok]) (rule that)
  obtain ls where ls: "map (open_slot (vm_heap vm)) ?uvs = map Some ls" "sorted_wrt (>) ls"
    "\<forall>l \<in> set ls. l < length (vm_stack vm)" using ok by (auto simp: upvalues_ok_def)
  from close_upvalues_loop_spec [OF ls, of d] obtain h' where h':
    "close_upvalues_loop d ?uvs vm =
      Some (vm\<lparr>vm_heap := h', vm_open_upvalues := filter (\<lambda>p. \<exists>l < d. open_slot (vm_heap vm) p = Some l) ?uvs\<rparr>)"
    "\<And>p l. p \<in> set ?uvs \<Longrightarrow> d \<le> l \<Longrightarrow> open_slot (vm_heap vm) p = Some l \<Longrightarrow>
       get_upvalue h' p = Some \<lparr>uv_location = Closed, uv_closed = vm_stack vm ! l\<rparr>" by blast
  have h: "h = h'" using h'(1) c(1,2) by (auto simp: close_upvalues_def dest: arg_cong [where f = vm_heap])
  have closed: "get_upvalue h p = get_upvalue (vm_heap vm) p"
    if "get_upvalue (vm_heap vm) p = Some uv" "uv_location uv = Closed" for p uv
  proof -
    have "open_slot (vm_heap vm) p = None" using that by (simp add: open_slot_def)
    moreover have "open_slot (vm_heap vm) q \<in> Some ` set ls" if "q \<in> set ?uvs" for q
      using that ls(1) by (metis image_eqI list.set_map)
    ultimately have "p \<notin> set ?uvs" by force
    then show ?thesis using c(3) by (intro get_upvalue_hget) (simp add: same_except_def)
  qed
  have settled': "settled vm' p" if s: "settled vm p" for p
  proof (cases "p \<in> set ?uvs")
    case True
    then have "open_slot (vm_heap vm) p \<in> Some ` set ls" using ls(1) by (metis image_eqI list.set_map)
    then obtain l where l: "open_slot (vm_heap vm) p = Some l" by auto
    show ?thesis
    proof (cases "d \<le> l")
      case True
      then show ?thesis using h'(2) [OF \<open>p \<in> set ?uvs\<close> True l] by (simp add: settled_def c(2) h)
    next
      case False
      then show ?thesis using l \<open>p \<in> set ?uvs\<close> by (simp add: settled_def c(2))
    qed
  next
    case False
    then obtain uv where "get_upvalue (vm_heap vm) p = Some uv" "uv_location uv = Closed" using s by (auto simp: settled_def)
    then show ?thesis using closed by (simp add: settled_def c(2))
  qed
  have cut: "upvalue_get (vm'\<lparr>vm_stack := take d (vm_stack vm)\<rparr>) p = upvalue_get vm p" if s: "settled vm p" for p
  proof (cases "p \<in> set ?uvs")
    case False
    then obtain uv where uv: "get_upvalue (vm_heap vm) p = Some uv" "uv_location uv = Closed" using s by (auto simp: settled_def)
    then have "get_upvalue (vm_heap (vm'\<lparr>vm_stack := take d (vm_stack vm)\<rparr>)) p = Some uv" using closed [OF uv] by (simp add: c(2))
    then show ?thesis using closed_get uv by metis
  qed (rule c(7))
  show thesis
    by (rule that [OF c(1) _ _ _ c(5,4)]) (use settled' c(6) cut in \<open>auto simp: c(2) frame_same_def\<close>)
qed

text \<open>Pushing on top changes no read either.\<close>

lemma upvalue_get_push:
  assumes "upvalues_ok (vm\<lparr>vm_stack := st\<rparr>)" "settled vm p"
  shows "upvalue_get (vm\<lparr>vm_stack := st @ vs\<rparr>) p = upvalue_get (vm\<lparr>vm_stack := st\<rparr>) p"
proof (cases "p \<in> set (vm_open_upvalues vm)")
  case True
  obtain ls where ls: "map (open_slot (vm_heap vm)) (vm_open_upvalues vm) = map Some ls" "\<forall>l \<in> set ls. l < length st"
    using assms(1) by (auto simp: upvalues_ok_def)
  have "open_slot (vm_heap vm) p \<in> Some ` set ls" using True ls(1) by (metis image_eqI list.set_map)
  then obtain l where l: "open_slot (vm_heap vm) p = Some l" "l < length st" using ls(2) by auto
  then obtain uv where "get_upvalue (vm_heap vm) p = Some uv" "uv_location uv = Open l" using open_slot_get by blast
  then show ?thesis using l(2) by (simp add: upvalue_get_def nth_opt_less nth_append)
next
  case False
  then obtain uv where uv: "get_upvalue (vm_heap vm) p = Some uv" "uv_location uv = Closed"
    using assms(2) by (auto simp: settled_def)
  then show ?thesis by (simp add: upvalue_get_def)
qed

section \<open>Return\<close>

lemma op_return_spec:
  assumes frames: "vm_frames vm = fs @ [callee]" and stack: "vm_stack vm = st @ [result]"
    and slots: "fr_slots callee \<le> length st" "fr_slots callee < FLUX_STACK_MAX"
    and ok: "upvalues_ok (vm\<lparr>vm_stack := st\<rparr>)"
    and outer: "length fs \<noteq> base" "fs \<noteq> []"
  obtains vm' where "op_return base preserve vm ip = Some (Continue vm' (fr_ip (last fs)))"
    "vm_stack vm' = take (fr_slots callee) st @ [result]" "vm_frames vm' = fs" "upvalues_ok vm'" "frame_same vm vm'"
    "\<And>p. settled vm p \<Longrightarrow> settled vm' p \<and> upvalue_get vm' p = upvalue_get (vm\<lparr>vm_stack := st\<rparr>) p"
proof -
  let ?d = "fr_slots callee"
  obtain vm1 where c: "close_upvalues (vm\<lparr>vm_stack := st\<rparr>) ?d = Some vm1" "vm_stack vm1 = vm_stack (vm\<lparr>vm_stack := st\<rparr>)"
    "vm_frames vm1 = vm_frames (vm\<lparr>vm_stack := st\<rparr>)" "frame_same (vm\<lparr>vm_stack := st\<rparr>) vm1" "upvalues_ok vm1"
    "upvalues_ok (vm1\<lparr>vm_stack := take ?d (vm_stack (vm\<lparr>vm_stack := st\<rparr>))\<rparr>)"
    "\<And>p. settled (vm\<lparr>vm_stack := st\<rparr>) p \<Longrightarrow> settled vm1 p \<and> upvalue_get vm1 p = upvalue_get (vm\<lparr>vm_stack := st\<rparr>) p \<and>
       upvalue_get (vm1\<lparr>vm_stack := take ?d (vm_stack (vm\<lparr>vm_stack := st\<rparr>))\<rparr>) p = upvalue_get (vm\<lparr>vm_stack := st\<rparr>) p"
    by (rule close_upvalues_full [OF ok]) (rule that)
  let ?vm' = "vm1\<lparr>vm_frames := fs, vm_stack := take ?d st @ [result]\<rparr>"
  have push: "vm_push (vm1\<lparr>vm_frames := fs, vm_stack := take ?d st\<rparr>) result = ?vm'"
    using slots by (simp add: vm_push_def)
  have upd: "vm1\<lparr>vm_frames := fs, vm_stack := s\<rparr> = vm1\<lparr>vm_stack := s, vm_frames := fs\<rparr>" for s
    by simp
  have "op_return base preserve vm ip = Some (Continue ?vm' (fr_ip (last fs)))"
    using frames stack c(1-3) outer slots push
    by (simp add: op_return_def vm_pop_def frame_slots_def top_frame_def cut_stack_def load_frame_def)
  moreover have "upvalues_ok ?vm'"
    using c(6) slots unfolding upvalues_ok_def by fastforce
  moreover have "settled ?vm' p \<and> upvalue_get ?vm' p = upvalue_get (vm\<lparr>vm_stack := st\<rparr>) p" if "settled vm p" for p
  proof -
    have s: "settled vm1 p" "upvalue_get (vm1\<lparr>vm_stack := take ?d st\<rparr>) p = upvalue_get (vm\<lparr>vm_stack := st\<rparr>) p"
      using c(7) [of p] that by simp_all
    then have "upvalue_get ?vm' p = upvalue_get (vm1\<lparr>vm_stack := take ?d st\<rparr>) p"
      using upvalue_get_push [OF c(6) s(1)] by (simp add: upd)
    then show ?thesis using s by (simp add: upd)
  qed
  moreover have "frame_same vm ?vm'" using c(4) by (simp add: frame_same_def)
  ultimately show thesis by (intro that [of ?vm']) simp_all
qed

section \<open>Exceptions\<close>

lemma find_handler_innermost:
  assumes "\<forall>h \<in> set inner. base < eh_base_frame_count h" "eh_base_frame_count h = base"
  shows "find_handler base (inner @ h # hs) = (Some h, hs)"
  using assms by (induction inner) auto

lemma find_handler_none:
  assumes "\<forall>h \<in> set inner. base < eh_base_frame_count h" "outer = [] \<or> eh_base_frame_count (hd outer) < base"
  shows "find_handler base (inner @ outer) = (None, outer)"
  using assms
proof (induction inner)
  case Nil
  then show ?case by (cases outer) auto
qed auto

lemma unwind_frames_spec:
  assumes "vm_frames vm = fs @ rest" "upvalues_ok vm"
  shows "\<exists>vm'. unwind_frames (length rest) vm = Some vm' \<and> vm_frames vm' = fs \<and> vm_stack vm' = vm_stack vm \<and>
    frame_same vm vm' \<and> upvalues_ok vm' \<and>
    (\<forall>p. settled vm p \<longrightarrow> settled vm' p \<and> upvalue_get vm' p = upvalue_get vm p)"
  using assms
proof (induction rest arbitrary: vm rule: rev_induct)
  case Nil
  then show ?case by (simp add: frame_same_refl)
next
  case (snoc f rest)
  obtain vm1 where c: "close_upvalues vm (fr_slots f) = Some vm1" "vm_stack vm1 = vm_stack vm" "vm_frames vm1 = vm_frames vm"
    "frame_same vm vm1" "upvalues_ok vm1" "upvalues_ok (vm1\<lparr>vm_stack := take (fr_slots f) (vm_stack vm)\<rparr>)"
    "\<And>p. settled vm p \<Longrightarrow> settled vm1 p \<and> upvalue_get vm1 p = upvalue_get vm p \<and>
       upvalue_get (vm1\<lparr>vm_stack := take (fr_slots f) (vm_stack vm)\<rparr>) p = upvalue_get vm p"
    by (rule close_upvalues_full [OF snoc.prems(2)]) (rule that)
  let ?vm1 = "vm1\<lparr>vm_frames := fs @ rest\<rparr>"
  have step: "unwind_frames (length (rest @ [f])) vm = unwind_frames (length rest) ?vm1"
    using snoc.prems(1) c(1,3) by (simp add: top_frame_def butlast_append)
  have ok1: "upvalues_ok ?vm1" using c(5) by simp
  obtain vm' where vm': "unwind_frames (length rest) ?vm1 = Some vm'" "vm_frames vm' = fs" "vm_stack vm' = vm_stack ?vm1"
    "frame_same ?vm1 vm'" "upvalues_ok vm'"
    "\<forall>p. settled ?vm1 p \<longrightarrow> settled vm' p \<and> upvalue_get vm' p = upvalue_get ?vm1 p"
    using snoc.IH [OF _ ok1] by auto
  have "frame_same vm ?vm1" using c(4) by simp
  then have "frame_same vm vm'" using vm'(4) by (rule frame_same_trans)
  then show ?case
    unfolding step using vm' c(2,7) by (intro exI [of _ vm']) simp
qed

lemma flux_handle_exception_spec:
  assumes handlers: "vm_exception_handlers vm = inner @ h # hs" "\<forall>i \<in> set inner. base < eh_base_frame_count i"
    "eh_base_frame_count h = base"
    and frames: "vm_frames vm = fs @ rest" "fs \<noteq> []" "eh_frame_index h = int (length fs) - 1"
    and depth: "eh_stack_depth h \<le> length (vm_stack vm)" "eh_stack_depth h < FLUX_STACK_MAX"
    and ok: "upvalues_ok vm"
  obtains vm' where "flux_handle_exception base vm ip = Some (Continue vm' (eh_handler_ip h))"
    "vm_stack vm' = take (eh_stack_depth h) (vm_stack vm) @ [vm_current_exception vm]" "vm_frames vm' = fs"
    "vm_exception_handlers vm' = hs" "\<not> vm_has_exception vm'" "upvalues_ok vm'"
    "\<And>p. settled vm p \<Longrightarrow> settled vm' p \<and> upvalue_get vm' p = upvalue_get vm p"
proof -
  let ?d = "eh_stack_depth h" and ?vm0 = "vm\<lparr>vm_exception_handlers := hs\<rparr>"
  have find: "find_handler base (vm_exception_handlers vm) = (Some h, hs)"
    unfolding handlers(1) by (rule find_handler_innermost [OF handlers(2,3)])
  have ok0: "upvalues_ok ?vm0" using ok by (simp add: upvalues_ok_def)
  have set0: "settled ?vm0 p = settled vm p" "upvalue_get ?vm0 p = upvalue_get vm p" for p
    by (simp_all add: settled_def upvalue_get_def cong: upvalue_location.case_cong)
  have "vm_frames ?vm0 = fs @ rest" using frames(1) by simp
  from unwind_frames_spec [OF this ok0] obtain vm1 where u: "unwind_frames (length rest) ?vm0 = Some vm1" "vm_frames vm1 = fs"
    "vm_stack vm1 = vm_stack vm" "frame_same ?vm0 vm1" "upvalues_ok vm1"
    "\<And>p. settled vm p \<Longrightarrow> settled vm1 p \<and> upvalue_get vm1 p = upvalue_get vm p"
    by (auto simp: set0)
  obtain vm2 where c: "close_upvalues vm1 ?d = Some vm2" "vm_stack vm2 = vm_stack vm1" "vm_frames vm2 = vm_frames vm1"
    "frame_same vm1 vm2" "upvalues_ok vm2" "upvalues_ok (vm2\<lparr>vm_stack := take ?d (vm_stack vm1)\<rparr>)"
    "\<And>p. settled vm1 p \<Longrightarrow> settled vm2 p \<and> upvalue_get vm2 p = upvalue_get vm1 p \<and>
       upvalue_get (vm2\<lparr>vm_stack := take ?d (vm_stack vm1)\<rparr>) p = upvalue_get vm1 p"
    by (rule close_upvalues_full [OF u(5)]) (rule that)
  have fs2: "frame_same ?vm0 vm2" using u(4) c(4) by (rule frame_same_trans)
  have exc: "vm_current_exception vm2 = vm_current_exception vm" "vm_exception_handlers vm2 = hs"
    using frame_same_fields [OF fs2] by simp_all
  let ?st = "take ?d (vm_stack vm)" and ?e = "vm_current_exception vm"
  let ?vm' = "vm2\<lparr>vm_stack := ?st @ [?e], vm_has_exception := False, vm_error_printed := False\<rparr>"
  have n: "nat (int (length (vm_frames ?vm0)) - 1 - eh_frame_index h) = length rest" using frames by simp
  have "activate_handler h ?vm0 = Some (Continue ?vm' (eh_handler_ip h))"
    unfolding activate_handler_def n using u c(1-3) depth frames(2) exc
    by (simp add: top_frame_def cut_stack_def vm_push_def)
  then have run: "flux_handle_exception base vm ip = Some (Continue ?vm' (eh_handler_ip h))"
    by (simp add: flux_handle_exception_def find)
  have st1: "vm_stack vm1 = vm_stack vm" by (rule u(3))
  have ok': "upvalues_ok ?vm'" using c(6) depth st1 unfolding upvalues_ok_def by fastforce
  have keep: "settled ?vm' p \<and> upvalue_get ?vm' p = upvalue_get vm p" if "settled vm p" for p
  proof -
    have s: "settled vm2 p" "upvalue_get (vm2\<lparr>vm_stack := ?st\<rparr>) p = upvalue_get vm p"
      using u(6) [OF that] c(7) [of p] st1 by simp_all
    have "upvalue_get ?vm' p = upvalue_get (vm2\<lparr>vm_stack := ?st @ [?e]\<rparr>) p"
      by (simp add: upvalue_get_def cong: upvalue_location.case_cong)
    also have "\<dots> = upvalue_get (vm2\<lparr>vm_stack := ?st\<rparr>) p"
      by (rule upvalue_get_push [OF c(6) [unfolded st1] s(1)])
    finally show ?thesis using s by (simp add: settled_def)
  qed
  show thesis
    by (rule that [OF run _ _ _ _ ok' keep]) (simp_all add: c(3) u(2) exc)
qed

end
