(* ===== verification/SchedProps.thy ===== *)
theory SchedProps
  imports UpvalueProps Machine
begin

text \<open>
  Coroutines: the context switch, the steps of the scheduler as seen by the code that drives it, and waiting
  for a future.
\<close>

section \<open>The context switch\<close>

lemma restore_save [simp]:
  "restore_context (save_context vm co) vm' = vm'\<lparr>vm_stack := vm_stack vm, vm_frames := vm_frames vm\<rparr>"
proof -
  have "map2 (\<lambda>f off. f\<lparr>fr_slots := off\<rparr>) fs (map fr_slots fs) = fs" for fs :: "call_frame list"
    by (induction fs) simp_all
  from this [of "vm_frames vm"] show ?thesis by (simp add: restore_context_def save_context_def Let_def)
qed

lemma restore_push_saved:
  "restore_context (push_saved v co) vm =
    (restore_context co vm)\<lparr>vm_stack := co_stack co @ [v]\<rparr>"
  by (simp add: restore_context_def push_saved_def)

text \<open>What restoring reads of a coroutine.\<close>

lemma restore_context_cong:
  "co_stack c = co_stack d \<Longrightarrow> co_frames c = co_frames d \<Longrightarrow> co_slot_offsets c = co_slot_offsets d \<Longrightarrow>
    restore_context c vm = restore_context d vm"
  by (simp add: restore_context_def)

section \<open>Steps of the scheduler\<close>

lemma run_step_caller:
  assumes "vm_scheduler_run_step run vm = Some (r, vm')"
  shows "vm_stack vm' = vm_stack vm \<and> vm_frames vm' = vm_frames vm"
  using assms
  by (auto simp: vm_scheduler_run_step_def vm_scheduler_dequeue_def Let_def bind_Some_iff split: list.splits if_splits)

lemma drive_scheduler_caller:
  assumes "drive_scheduler n c finished vm = Some (failed, vm')"
    and uv: "\<And>vm x vm'. env_uv_run (c_env c) vm = Some (x, vm') \<Longrightarrow> vm_stack vm' = vm_stack vm \<and> vm_frames vm' = vm_frames vm"
  shows "vm_stack vm' = vm_stack vm \<and> vm_frames vm' = vm_frames vm"
  using assms(1)
proof (induction n arbitrary: vm)
  case (Suc n)
  then show ?case
    by (auto simp: bind_Some_iff split: if_splits dest!: run_step_caller uv)
qed simp

section \<open>Waiting for a future\<close>

lemma get_other_hput:
  assumes "hput h p pl = Some h'" "q \<noteq> p"
  shows "get_coroutine h' q = get_coroutine h q" "get_future h' q = get_future h q"
  using assms by (simp_all add: get_coroutine_def get_future_def hpayload_hput)

lemma get_put_coroutine: "get_coroutine h p = Some co \<Longrightarrow> \<exists>h'. hput h p pl = Some h'"
  and get_put_future: "get_future h p = Some fut \<Longrightarrow> \<exists>h'. hput h p pl = Some h'"
  by (auto simp: hput_iff get_coroutine_def get_future_def hpayload_def split: option.splits)

lemma get_coroutine_hput: "hput h p (OBJ_COROUTINE co) = Some h' \<Longrightarrow> get_coroutine h' p = Some co"
  and get_future_hput: "hput h p (OBJ_FUTURE fut) = Some h' \<Longrightarrow> get_future h' p = Some fut"
  by (simp_all add: get_coroutine_def get_future_def hpayload_hput)

lemma get_distinct: "get_coroutine h p = Some co \<Longrightarrow> get_future h q = Some fut \<Longrightarrow> p \<noteq> q"
  by (auto simp: get_coroutine_def get_future_def split: option.splits payload.splits)

lemma open_not_other:
  assumes "upvalues_ok vm" "p \<in> set (vm_open_upvalues vm)"
  shows "get_coroutine (vm_heap vm) p = None" "get_future (vm_heap vm) p = None"
proof -
  obtain ls where "map (open_slot (vm_heap vm)) (vm_open_upvalues vm) = map Some ls" using assms(1) by (auto simp: upvalues_ok_def)
  then have "open_slot (vm_heap vm) p \<in> Some ` set ls" using assms(2) by (metis image_eqI list.set_map)
  then obtain l where "open_slot (vm_heap vm) p = Some l" by auto
  then obtain uv where "get_upvalue (vm_heap vm) p = Some uv" using open_slot_get by blast
  then show "get_coroutine (vm_heap vm) p = None" "get_future (vm_heap vm) p = None"
    by (auto simp: get_upvalue_def get_coroutine_def get_future_def split: option.splits payload.splits)
qed

lemma await_future_resume:
  assumes stack: "vm_stack vm = st @ [VAL_OBJECT fut]" and frames: "vm_frames vm = fs @ [fr]"
    and fut: "get_future (vm_heap vm) fut = Some f" "\<not> fut_resolved f"
    and co: "vm_current_coroutine vm = Some co" "get_coroutine (vm_heap vm) co = Some c0"
    and ok: "upvalues_ok (vm\<lparr>vm_stack := st\<rparr>)"
  shows "\<exists>vm1 vm2 vm3. op_await c vm ip = Some (Return VM_YIELD vm1) \<and> vm_stack vm1 = [] \<and> vm_frames vm1 = [] \<and>
    vm_io_future_complete vm1 fut v = Some vm2 \<and> vm_ready_queue vm2 = vm_ready_queue vm @ [co] \<and>
    map_option co_state (get_coroutine (vm_heap vm2) co) = Some CORO_SUSPENDED \<and>
    coro_restore vm2 co = Some vm3 \<and> vm_stack vm3 = st @ [v] \<and> vm_frames vm3 = fs @ [fr\<lparr>fr_ip := ip\<rparr>]"
proof -
  let ?vm0 = "vm\<lparr>vm_stack := st, vm_frames := fs @ [fr\<lparr>fr_ip := ip\<rparr>]\<rparr>"
  have ok0: "upvalues_ok ?vm0" using ok by (simp add: upvalues_ok_def)
  obtain vma h where cl: "close_upvalues ?vm0 0 = Some vma"
    "vma = ?vm0\<lparr>vm_heap := h, vm_open_upvalues := filter (\<lambda>p. \<exists>l < 0. open_slot (vm_heap ?vm0) p = Some l) (vm_open_upvalues ?vm0)\<rparr>"
    "same_except (set (vm_open_upvalues ?vm0)) (vm_heap ?vm0) h"
    "upvalues_ok (vma\<lparr>vm_stack := take 0 (vm_stack ?vm0)\<rparr>)" "upvalues_ok vma"
    "\<And>p. upvalue_get vma p = upvalue_get ?vm0 p"
    "\<And>p. p \<in> set (vm_open_upvalues ?vm0) \<Longrightarrow> upvalue_get (vma\<lparr>vm_stack := take 0 (vm_stack ?vm0)\<rparr>) p = upvalue_get ?vm0 p"
    by (rule close_upvalues_spec [OF ok0]) (rule that)
  have "co \<notin> set (vm_open_upvalues ?vm0)" "fut \<notin> set (vm_open_upvalues ?vm0)"
    using open_not_other [OF ok0] co(2) fut(1) by fastforce+
  then have hh: "hget h co = hget (vm_heap vm) co" "hget h fut = hget (vm_heap vm) fut"
    using cl(3) by (simp_all add: same_except_def)
  have gh: "get_coroutine h co = Some c0" "get_future h fut = Some f"
    using co(2) fut(1) hh by (simp_all add: get_coroutine_def get_future_def hpayload_def)
  have ne: "co \<noteq> fut" by (rule get_distinct [OF gh])
  define saved where "saved = save_context vma c0"
  obtain h1 where h1: "hput h co (OBJ_COROUTINE saved) = Some h1" using get_put_coroutine [OF gh(1)] by blast
  note g1 = get_coroutine_hput [OF h1] get_other_hput [OF h1 ne [symmetric]]
  define waiting where "waiting = saved\<lparr>co_state := CORO_SUSPENDED, co_pending_future := Some fut\<rparr>"
  obtain h2 where h2: "hput h1 co (OBJ_COROUTINE waiting) = Some h2" using get_put_coroutine [OF g1(1)] by blast
  note g2 = get_coroutine_hput [OF h2] get_other_hput [OF h2 ne [symmetric]]
  have f2: "get_future h2 fut = Some f" using g2(3) g1(3) gh(2) by simp
  obtain h3 where h3: "hput h2 fut (OBJ_FUTURE (f\<lparr>fut_waiting := Some co\<rparr>)) = Some h3" using get_put_future [OF f2] by blast
  note g3 = get_future_hput [OF h3] get_other_hput [OF h3 ne]
  define vm1 where "vm1 = leave_machine (vma\<lparr>vm_heap := h3\<rparr>)"
  have pop: "vm_pop vm = Some (VAL_OBJECT fut, vm\<lparr>vm_stack := st\<rparr>)" using stack by (simp add: vm_pop_def)
  have view: "view (vm_heap vm) (VAL_OBJECT fut) = Some (Some (OBJ_FUTURE f))"
    using fut(1) by (auto simp: get_future_def split: option.splits payload.splits)
  have sync: "sync_ip (vm\<lparr>vm_stack := st\<rparr>) ip = Some ?vm0" using frames by (simp add: sync_ip_def top_frame_def)
  have save: "coro_save vma co = Some (vma\<lparr>vm_heap := h1\<rparr>)"
    using gh h1 cl(2) by (simp add: coro_save_def upd_coroutine_def vm_hput_def saved_def)
  have suspend: "suspend_current (vm\<lparr>vm_stack := st\<rparr>) ip co (\<lambda>x. x\<lparr>co_pending_future := Some fut\<rparr>) = Some (vma\<lparr>vm_heap := h2\<rparr>)"
    using sync cl(1) save g1(1) h2 by (simp add: suspend_current_def upd_coroutine_def vm_hput_def waiting_def)
  have await: "op_await c vm ip = Some (Return VM_YIELD vm1)"
    using pop view fut co(1) suspend f2 h3 cl(2)
    by (simp add: op_await_def await_future_def upd_future_def vm_hput_def vm1_def)
  define settled where "settled = f\<lparr>fut_waiting := Some co, fut_resolved := True, fut_result := v\<rparr>"
  obtain h4 where h4: "hput h3 fut (OBJ_FUTURE settled) = Some h4" using get_put_future [OF g3(1)] by blast
  note g4 = get_future_hput [OF h4] get_other_hput [OF h4 ne]
  obtain h5 where h5: "hput h4 fut (OBJ_FUTURE (settled\<lparr>fut_waiting := None\<rparr>)) = Some h5" using get_put_future [OF g4(1)] by blast
  note g5 = get_other_hput [OF h5 ne]
  have c5: "get_coroutine h5 co = Some waiting" using g5(1) g4(2) g3(2) g2(1) by simp
  define woken where "woken = (push_saved v waiting)\<lparr>co_pending_future := None, co_state := CORO_SUSPENDED\<rparr>"
  obtain h6 where h6: "hput h5 co (OBJ_COROUTINE woken) = Some h6" using get_put_coroutine [OF c5] by blast
  note g6 = get_coroutine_hput [OF h6]
  define vm2 where "vm2 = vm_scheduler_enqueue (vm1\<lparr>vm_pending_io_count := vm_pending_io_count vm - 1,
     vm_io_futures := io_remove fut (vm_io_futures vm), vm_heap := h6\<rparr>) co"
  have complete: "vm_io_future_complete vm1 fut v = Some vm2"
    using g3(1) h4 g4(1) h5 c5 h6 cl(2)
    by (simp add: vm_io_future_complete_def upd_future_def upd_coroutine_def vm_hput_def vm1_def vm2_def
        leave_machine_def settled_def woken_def)
  have st_waiting: "co_stack waiting = st" using cl(2) by (simp add: waiting_def saved_def save_context_def Let_def)
  have "restore_context woken vm2 = (restore_context saved vm2)\<lparr>vm_stack := co_stack waiting @ [v]\<rparr>"
    by (simp add: woken_def waiting_def restore_context_def push_saved_def)
  then have ctx: "restore_context woken vm2 = vm2\<lparr>vm_stack := st @ [v], vm_frames := fs @ [fr\<lparr>fr_ip := ip\<rparr>]\<rparr>"
    using st_waiting cl(2) by (simp add: saved_def)
  have "coro_restore vm2 co = Some (restore_context woken vm2)"
    using g6 by (simp add: coro_restore_def vm2_def vm_scheduler_enqueue_def)
  moreover have "map_option co_state (get_coroutine (vm_heap vm2) co) = Some CORO_SUSPENDED"
    using g6 by (simp add: vm2_def vm_scheduler_enqueue_def woken_def)
  moreover have "vm_ready_queue vm2 = vm_ready_queue vm @ [co]" "vm_stack vm1 = []" "vm_frames vm1 = []"
    using cl(2) by (simp_all add: vm2_def vm_scheduler_enqueue_def vm1_def leave_machine_def)
  moreover have "vm_stack (restore_context woken vm2) = st @ [v]"
    "vm_frames (restore_context woken vm2) = fs @ [fr\<lparr>fr_ip := ip\<rparr>]"
    unfolding ctx by simp_all
  ultimately show ?thesis using await complete by blast
qed

end
