(* ===== verification/Exec_Properties.thy ===== *)
theory Exec_Properties
  imports Samples Fuel FrameProps SchedProps
begin

text \<open>
  The properties of the execution layer: integer arithmetic and comparison, captured variables,
  exceptions, calls and returns, coroutines.
\<close>

section \<open>Arithmetic\<close>

lemma division_op_int:
  assumes "vm_stack vm = st @ [a, b]" "length st < FLUX_STACK_MAX" "f a b = Some (Inr v)"
  shows "division_op f zero err vm ip = Some (Continue (vm\<lparr>vm_stack := st @ [v]\<rparr>) ip)"
  using assms by (simp add: division_op_def vm_pop_def butlast_append push_continue_def vm_push_def)

text \<open>C21: On integers \<open>OP_FLOOR_DIV\<close> computes the floor of the quotient and \<open>OP_MOD\<close> the remainder of the
  truncated division, which has the sign of the dividend; both only fail for a zero divisor and are undefined
  only for the smallest integer divided by -1.\<close>

theorem op_floor_div_mod_correct:
  assumes "vm_stack vm = st @ [VAL_INT x, VAL_INT y]" "length st < FLUX_STACK_MAX"
    and "y \<noteq> 0" "\<not> (sint x = - (2 ^ 63) \<and> sint y = -1)"
  shows "\<exists>q r. op_floor_div vm ip = Some (Continue (vm\<lparr>vm_stack := st @ [VAL_INT q]\<rparr>) ip) \<and>
    op_mod vm ip = Some (Continue (vm\<lparr>vm_stack := st @ [VAL_INT r]\<rparr>) ip) \<and>
    sint q = sint x div sint y \<and> \<bar>sint r\<bar> < \<bar>sint y\<bar> \<and> sint y dvd sint x - sint r \<and>
    (sint r \<noteq> 0 \<longrightarrow> sgn (sint r) = sgn (sint x))"
proof -
  let ?x = "sint x" and ?y = "sint y"
  have y: "?y \<noteq> 0" using assms(3) by (simp add: sint_zero_iff)
  obtain q where q: "int64_range (c_div ?x ?y) = Some q" "sint q = c_div ?x ?y"
    using int64_range_of c_div_bound [OF sint_bounds y assms(4)] by blast
  have "\<bar>c_mod ?x ?y\<bar> < 2 ^ 63"
  proof -
    have "\<bar>c_mod ?x ?y\<bar> < \<bar>?y\<bar>" by (rule c_mod_bound [OF y])
    also have "\<bar>?y\<bar> \<le> 2 ^ 63" using sint_bounds [of y] by (simp add: abs_le_iff)
    finally show ?thesis .
  qed
  then have "- (2 ^ 63) \<le> c_mod ?x ?y \<and> c_mod ?x ?y < 2 ^ 63" by (simp add: abs_less_iff)
  then obtain r where r: "int64_range (c_mod ?x ?y) = Some r" "sint r = c_mod ?x ?y"
    using int64_range_of by blast
  let ?adjust = "r \<noteq> 0 \<and> sint (r XOR y) < 0"
  have adjust: "?adjust \<longleftrightarrow> c_mod ?x ?y \<noteq> 0 \<and> ((c_mod ?x ?y < 0) \<noteq> (?y < 0))"
    using r(2) sint_zero_iff [of r] by (auto simp: sint_xor_neg)
  have floor: "(if ?adjust then sint q - 1 else sint q) = ?x div ?y"
    unfolding adjust q(2) by (rule floor_div_correct [OF y])
  have "- (2 ^ 63) \<le> ?x div ?y \<and> ?x div ?y < 2 ^ 63"
  proof -
    have "?x div ?y \<le> c_div ?x ?y" using floor q(2) by (auto split: if_splits)
    moreover have "- (2 ^ 63) \<le> ?x div ?y"
    proof (cases "?adjust")
      case True
      then have "c_mod ?x ?y \<noteq> 0" by (simp add: adjust)
      then have "2 \<le> \<bar>?y\<bar>" using c_mod_bound [OF y, of ?x] by linarith
      then have "\<bar>c_div ?x ?y\<bar> \<le> \<bar>?x\<bar> div 2" by (rule c_div_small)
      moreover have "\<bar>?x\<bar> div 2 \<le> 2 ^ 63 div 2"
        using sint_bounds [of x] by (intro zdiv_mono1) (simp_all add: abs_le_iff)
      ultimately have "- (2 ^ 62) \<le> c_div ?x ?y" by (simp add: abs_le_iff)
      then show ?thesis using floor unfolding if_P [OF True] q(2) by simp
    next
      case False
      then have "?x div ?y = c_div ?x ?y" using floor unfolding if_not_P [OF False] q(2) by simp
      then show ?thesis using c_div_bound [OF sint_bounds y assms(4)] by simp
    qed
    ultimately show ?thesis using c_div_bound [OF sint_bounds y assms(4)] by linarith
  qed
  then obtain q' where q': "int64_range (?x div ?y) = Some q'" "sint q' = ?x div ?y" using int64_range_of by blast
  have "value_floor_div (VAL_INT x) (VAL_INT y) = Some (Inr (VAL_INT q'))"
    using assms(3) q r q'(1) floor int64_range_word [of q] by (auto simp: value_floor_div_def split: if_splits)
  then have d: "op_floor_div vm ip = Some (Continue (vm\<lparr>vm_stack := st @ [VAL_INT q']\<rparr>) ip)"
    unfolding op_floor_div_def by (rule division_op_int [OF assms(1,2)])
  have "value_mod (VAL_INT x) (VAL_INT y) = Some (Inr (VAL_INT r))"
    using assms(3) q r by (simp add: value_mod_def)
  then have m: "op_mod vm ip = Some (Continue (vm\<lparr>vm_stack := st @ [VAL_INT r]\<rparr>) ip)"
    unfolding op_mod_def by (rule division_op_int [OF assms(1,2)])
  have "?y dvd ?x - sint r" using c_div_mod [OF y, of ?x] r(2) by (metis add_diff_cancel_right' dvd_triv_right)
  then show ?thesis
    using d m q'(2) r(2) c_mod_bound [OF y, of ?x] c_mod_sign [OF y, of ?x]
    by (intro exI [of _ q'] exI [of _ r]) simp
qed

theorem op_floor_div_mod_correct_witness:
  "\<exists>q r. op_floor_div (vm_zero\<lparr>vm_stack := [VAL_INT (-7), VAL_INT 2]\<rparr>) 3 = Some (Continue (vm_zero\<lparr>vm_stack := [VAL_INT q]\<rparr>) 3) \<and>
    op_mod (vm_zero\<lparr>vm_stack := [VAL_INT (-7), VAL_INT 2]\<rparr>) 3 = Some (Continue (vm_zero\<lparr>vm_stack := [VAL_INT r]\<rparr>) 3) \<and>
    sint q = -4 \<and> sgn (sint r) \<noteq> 1"
proof -
  let ?vm = "vm_zero\<lparr>vm_stack := [VAL_INT (-7), VAL_INT 2]\<rparr>"
  have "vm_stack ?vm = [] @ [VAL_INT (-7), VAL_INT 2]" by simp
  from op_floor_div_mod_correct [OF this, of 3] obtain q r where
    "op_floor_div ?vm 3 = Some (Continue (?vm\<lparr>vm_stack := [] @ [VAL_INT q]\<rparr>) 3)"
    "op_mod ?vm 3 = Some (Continue (?vm\<lparr>vm_stack := [] @ [VAL_INT r]\<rparr>) 3)"
    "sint q = -7 div 2" "sint r \<noteq> 0 \<longrightarrow> sgn (sint r) = sgn (-7)"
    by (auto simp: FLUX_STACK_MAX_def)
  then show ?thesis by (intro exI [of _ q] exI [of _ r]) (cases "sint r = 0", simp_all)
qed

text \<open>C22: \<open>OP_POW\<close> on a non-negative integer exponent is exact power whenever the power fits 64 bits, and is
  undefined otherwise: no intermediate product overflows first.\<close>

theorem op_pow_correct:
  assumes "vm_stack vm = st @ [VAL_INT x, VAL_INT y]" "length st < FLUX_STACK_MAX" "0 \<le> sint y"
  shows "op_pow c vm ip = map_option (\<lambda>r. Continue (vm\<lparr>vm_stack := st @ [VAL_INT r]\<rparr>) ip) (int64_range (sint x ^ nat (sint y)))"
proof -
  have pw: "value_pow (env_pow (c_env c)) (VAL_INT x) (VAL_INT y) =
      map_option (\<lambda>r. Inr (VAL_INT r)) (int64_range (sint x ^ nat (sint y)))"
    using assms(3) by (cases "int64_range (sint x ^ nat (sint y))") (simp_all add: value_pow_def int_pow_loop_exact)
  show ?thesis
  proof (cases "int64_range (sint x ^ nat (sint y))")
    case None
    then show ?thesis using assms(1) pw by (simp add: op_pow_def division_op_def vm_pop_def butlast_append)
  next
    case (Some r)
    then show ?thesis using division_op_int [OF assms(1,2)] pw by (simp add: op_pow_def)
  qed
qed

theorem op_pow_correct_witness:
  "\<forall>c. op_pow c (vm_zero\<lparr>vm_stack := [VAL_INT (-2), VAL_INT 63]\<rparr>) 3 =
     Some (Continue (vm_zero\<lparr>vm_stack := [VAL_INT (- (2 ^ 63))]\<rparr>) 3)"
proof
  fix c
  let ?vm = "vm_zero\<lparr>vm_stack := [VAL_INT (-2), VAL_INT 63]\<rparr>"
  have st: "vm_stack ?vm = [] @ [VAL_INT (-2), VAL_INT 63]" by simp
  have "int64_range ((-2) ^ 63) = Some (- (2 ^ 63))" by (simp add: int64_range_def)
  then show "op_pow c ?vm 3 = Some (Continue (vm_zero\<lparr>vm_stack := [VAL_INT (- (2 ^ 63))]\<rparr>) 3)"
    using op_pow_correct [OF st, of c 3] by (simp add: FLUX_STACK_MAX_def)
qed

text \<open>C23: On integers below \<open>2 ^ 53\<close> in absolute value the four ordering opcodes compare the integers, although
  they go through doubles.\<close>

lemma op_compare_int:
  assumes "vm_stack vm = st @ [VAL_INT x, VAL_INT y]" "length st < FLUX_STACK_MAX"
  shows "op_compare dop iop vm ip =
    Some (Continue (vm\<lparr>vm_stack := st @ [VAL_BOOL (dop (dbl_of_int (sint x)) (dbl_of_int (sint y)))]\<rparr>) ip)"
  using assms by (simp add: op_compare_def vm_pop_def butlast_append compare_op_int push_continue_def vm_push_def)

theorem comparisons_exact:
  assumes "vm_stack vm = st @ [VAL_INT x, VAL_INT y]" "length st < FLUX_STACK_MAX"
    and small: "\<bar>sint x\<bar> < 2 ^ 53" "\<bar>sint y\<bar> < 2 ^ 53"
  shows "op_lt vm ip = Some (Continue (vm\<lparr>vm_stack := st @ [VAL_BOOL (sint x < sint y)]\<rparr>) ip) \<and>
    op_lte vm ip = Some (Continue (vm\<lparr>vm_stack := st @ [VAL_BOOL (sint x \<le> sint y)]\<rparr>) ip) \<and>
    op_gt vm ip = Some (Continue (vm\<lparr>vm_stack := st @ [VAL_BOOL (sint x > sint y)]\<rparr>) ip) \<and>
    op_gte vm ip = Some (Continue (vm\<lparr>vm_stack := st @ [VAL_BOOL (sint x \<ge> sint y)]\<rparr>) ip)"
  unfolding op_lt_def op_lte_def op_gt_def op_gte_def op_compare_int [OF assms(1,2)]
  by (simp only: dbl_cmp_of_int_exact [OF small] dbl_cmp_of_int_exact [OF small(2,1)])

theorem comparisons_exact_witness:
  "op_lt (vm_zero\<lparr>vm_stack := [VAL_INT (-3), VAL_INT 4]\<rparr>) 1 = Some (Continue (vm_zero\<lparr>vm_stack := [VAL_BOOL True]\<rparr>) 1)"
proof -
  have "vm_stack (vm_zero\<lparr>vm_stack := [VAL_INT (-3), VAL_INT 4]\<rparr>) = [] @ [VAL_INT (-3), VAL_INT 4]" by simp
  from comparisons_exact [OF this, of 1] show ?thesis by (simp add: FLUX_STACK_MAX_def)
qed

text \<open>C24: Beyond that bound they do not.  From \<open>2 ^ 53\<close> on doubles are \<open>2 ^ k\<close> apart, and all the integers from one with
  an even significand \<open>m\<close> to half way to the next are the same to the four opcodes: \<open>OP_LT\<close> and \<open>OP_GT\<close> are false
  for any two of them, \<open>OP_LTE\<close> and \<open>OP_GTE\<close> true.\<close>

theorem comparisons_inexact:
  assumes "vm_stack vm = st @ [VAL_INT x, VAL_INT y]" "length st < FLUX_STACK_MAX"
    and m: "2 ^ 52 \<le> m" "m < 2 ^ 53" "even m" "0 < k"
    and x: "sint x \<in> {int (m * 2 ^ k) .. int (m * 2 ^ k) + 2 ^ (k - 1)}"
    and y: "sint y \<in> {int (m * 2 ^ k) .. int (m * 2 ^ k) + 2 ^ (k - 1)}"
  shows "op_lt vm ip = Some (Continue (vm\<lparr>vm_stack := st @ [VAL_BOOL False]\<rparr>) ip) \<and>
    op_gt vm ip = Some (Continue (vm\<lparr>vm_stack := st @ [VAL_BOOL False]\<rparr>) ip) \<and>
    op_lte vm ip = Some (Continue (vm\<lparr>vm_stack := st @ [VAL_BOOL True]\<rparr>) ip) \<and>
    op_gte vm ip = Some (Continue (vm\<lparr>vm_stack := st @ [VAL_BOOL True]\<rparr>) ip)"
proof -
  have "(2::int) ^ (52 + k) = int (2 ^ 52 * 2 ^ k)" by (simp only: power_add of_nat_mult of_nat_power of_nat_numeral)
  also have "\<dots> \<le> int (m * 2 ^ k)" using m(1) by (simp only: of_nat_le_iff mult_le_mono1)
  also have "int (m * 2 ^ k) \<le> sint x" using x by (simp only: atLeastAtMost_iff)
  also have "sint x < 2 ^ 63" using sint_lt [of x] by simp
  finally have "(2::int) ^ (52 + k) < 2 ^ 63" .
  then have "52 + k < 63" by (rule power_less_imp_less_exp [rotated]) simp
  then have "k \<le> 900" by simp
  then obtain d where d: "\<not> dbl_is_nan d" "dbl_of_int (sint x) = d" "dbl_of_int (sint y) = d"
    using dbl_of_int_near [OF m] x y by (auto simp only: atLeastAtMost_iff)
  show ?thesis
    unfolding op_lt_def op_lte_def op_gt_def op_gte_def op_compare_int [OF assms(1,2)] d(2,3)
    using d(1) by (simp add: dbl_lt_def dbl_le_def)
qed

theorem comparisons_inexact_witness:
  "op_lt (vm_zero\<lparr>vm_stack := [VAL_INT (2 ^ 53), VAL_INT (2 ^ 53 + 1)]\<rparr>) 1 =
     Some (Continue (vm_zero\<lparr>vm_stack := [VAL_BOOL False]\<rparr>) 1)"
proof -
  have i: "sint (2 ^ 53 :: int64) = 2 ^ 53" "sint (2 ^ 53 + 1 :: int64) = 2 ^ 53 + 1" by (simp_all add: signed_take_bit_int_eq_self_iff sint_sbintrunc')
  have st: "vm_stack (vm_zero\<lparr>vm_stack := [VAL_INT (2 ^ 53), VAL_INT (2 ^ 53 + 1)]\<rparr>) = [] @ [VAL_INT (2 ^ 53), VAL_INT (2 ^ 53 + 1)]"
    by simp
  show ?thesis using comparisons_inexact [OF st, of "2 ^ 52" 1 1] i by (simp add: FLUX_STACK_MAX_def)
qed

section \<open>Captured variables\<close>

text \<open>C25: Capturing a local succeeds and yields an upvalue that reads the local; capturing the same local again
  yields the same upvalue and changes nothing, so that closures share it.\<close>

theorem capture_upvalue_shared:
  assumes "gc_ok vm" "upvalues_ok vm" "slot < length (vm_stack vm)"
  shows "\<exists>p vm'. capture_upvalue vm slot = Some (p, vm') \<and> gc_ok vm' \<and> upvalues_ok vm' \<and>
    upvalue_get vm' p = Some (vm_stack vm ! slot) \<and> capture_upvalue vm' slot = Some (p, vm') \<and>
    set (vm_open_upvalues vm') = insert p (set (vm_open_upvalues vm))"
proof -
  obtain p vm' where c: "capture_upvalue vm slot = Some (p, vm')" "gc_ok vm'" "upvalues_ok vm'"
    "vm_stack vm' = vm_stack vm" "vm_frames vm' = vm_frames vm"
    "set (vm_open_upvalues vm') = insert p (set (vm_open_upvalues vm))" "open_slot (vm_heap vm') p = Some slot"
    "\<And>q. q \<in> reachable vm \<Longrightarrow> hpayload (vm_heap vm') q = hpayload (vm_heap vm) q"
    "\<And>q. q \<in> set (vm_open_upvalues vm) \<Longrightarrow> open_slot (vm_heap vm) q = Some slot \<Longrightarrow> p = q \<and> vm' = vm"
    by (rule capture_upvalue_spec [OF assms]) (rule that)
  have slot': "slot < length (vm_stack vm')" using assms(3) c(4) by simp
  obtain p2 vm2 where d: "capture_upvalue vm' slot = Some (p2, vm2)" "gc_ok vm2" "upvalues_ok vm2"
    "vm_stack vm2 = vm_stack vm'" "vm_frames vm2 = vm_frames vm'"
    "set (vm_open_upvalues vm2) = insert p2 (set (vm_open_upvalues vm'))" "open_slot (vm_heap vm2) p2 = Some slot"
    "\<And>q. q \<in> reachable vm' \<Longrightarrow> hpayload (vm_heap vm2) q = hpayload (vm_heap vm') q"
    "\<And>q. q \<in> set (vm_open_upvalues vm') \<Longrightarrow> open_slot (vm_heap vm') q = Some slot \<Longrightarrow> p2 = q \<and> vm2 = vm'"
    by (rule capture_upvalue_spec [OF c(2,3) slot']) (rule that)
  have "p2 = p \<and> vm2 = vm'" using d(9) [OF _ c(7)] c(6) by simp
  moreover have "upvalue_get vm' p = Some (vm_stack vm ! slot)"
  proof -
    obtain uv where "get_upvalue (vm_heap vm') p = Some uv" "uv_location uv = Open slot" using open_slot_get [OF c(7)] by blast
    then show ?thesis using slot' c(4) by (simp add: upvalue_get_def nth_opt_less)
  qed
  ultimately show ?thesis using c d(1) by blast
qed

theorem capture_upvalue_shared_witness:
  "\<exists>p vm'. capture_upvalue sample_vm 0 = Some (p, vm') \<and> capture_upvalue vm' 0 = Some (p, vm') \<and>
    upvalue_get vm' p = Some (VAL_OBJECT 2)"
proof -
  have "gc_ok sample_vm" using sample_vm_ok by (simp add: vm_ok_def)
  moreover have "vm_open_upvalues sample_vm = []" by code_simp
  then have "upvalues_ok sample_vm" by (simp add: upvalues_ok_def)
  ultimately show ?thesis using capture_upvalue_shared [of sample_vm 0] sample_vm_stack by auto
qed

text \<open>C26: Leaving a scope keeps captured variables: closing the upvalues from a depth on and cutting the stack there
  succeeds, and every upvalue that closures hold reads the same value as before.\<close>

theorem close_upvalues_preserves:
  assumes "upvalues_ok vm"
  shows "\<exists>vm'. close_upvalues vm d = Some vm' \<and> vm_stack vm' = vm_stack vm \<and>
    upvalues_ok (vm'\<lparr>vm_stack := take d (vm_stack vm)\<rparr>) \<and>
    (\<forall>p. settled vm p \<longrightarrow> settled vm' p \<and> upvalue_get (vm'\<lparr>vm_stack := take d (vm_stack vm)\<rparr>) p = upvalue_get vm p)"
  by (rule close_upvalues_full [OF assms, of d]) blast

text \<open>One upvalue, object 0, for slot 2; two frames, the upper one from slot 1 on; a handler of the lower one.\<close>

definition sample_frames :: flux_vm where
  "sample_frames = vm_zero\<lparr>vm_stack := [VAL_NULL, VAL_INT 5, VAL_INT 6, VAL_INT 7],
     vm_heap := [Some \<lparr>marked = False, payload = OBJ_UPVALUE \<lparr>uv_location = Open 2, uv_closed = VAL_NULL\<rparr>\<rparr>],
     vm_open_upvalues := [0],
     vm_frames := [\<lparr>fr_closure = 1, fr_ip = 10, fr_slots = 0\<rparr>, \<lparr>fr_closure = 1, fr_ip = 3, fr_slots = 1\<rparr>],
     vm_exception_handlers := [\<lparr>eh_handler_ip = 40, eh_frame_index = 0, eh_base_frame_count = 0, eh_stack_depth = 1\<rparr>],
     vm_current_exception := VAL_INT 9, vm_has_exception := True\<rparr>"

lemma sample_frames_ok: "upvalues_ok (sample_frames\<lparr>vm_stack := [VAL_NULL, VAL_INT 5, VAL_INT 6]\<rparr>)" "upvalues_ok sample_frames"
  unfolding upvalues_ok_def
  by (rule exI [of _ "[2]"], simp add: sample_frames_def open_slot_def get_upvalue_def hpayload_def hget_def nth_opt_def)+

lemma sample_frames_settled: "settled sample_frames 0" "upvalue_get sample_frames 0 = Some (VAL_INT 6)"
  "upvalue_get (sample_frames\<lparr>vm_stack := [VAL_NULL, VAL_INT 5, VAL_INT 6]\<rparr>) 0 = Some (VAL_INT 6)"
  by (simp add: settled_def sample_frames_def, code_simp+)

theorem close_upvalues_preserves_witness:
  "\<exists>vm'. close_upvalues sample_frames 1 = Some vm' \<and> upvalue_get (vm'\<lparr>vm_stack := [VAL_NULL]\<rparr>) 0 = Some (VAL_INT 6)"
  using close_upvalues_preserves [OF sample_frames_ok(2), of 1] sample_frames_settled(1,2)
  by (auto simp: sample_frames_def)

section \<open>Returns and exceptions\<close>

text \<open>C27: \<open>OP_RETURN\<close> inside an invocation drops the frame of the callee with its whole stack window, pushes the
  result for the caller and resumes it; captured variables keep their values.\<close>

theorem op_return_correct:
  assumes "vm_frames vm = fs @ [callee]" "vm_stack vm = st @ [result]"
    and "fr_slots callee \<le> length st" "fr_slots callee < FLUX_STACK_MAX" "upvalues_ok (vm\<lparr>vm_stack := st\<rparr>)"
    and "length fs \<noteq> base" "fs \<noteq> []"
  shows "\<exists>vm'. op_return base preserve vm ip = Some (Continue vm' (fr_ip (last fs))) \<and>
    vm_stack vm' = take (fr_slots callee) st @ [result] \<and> vm_frames vm' = fs \<and> upvalues_ok vm' \<and>
    (\<forall>p. settled vm p \<longrightarrow> settled vm' p \<and> upvalue_get vm' p = upvalue_get (vm\<lparr>vm_stack := st\<rparr>) p)"
  by (rule op_return_spec [OF assms]) blast

theorem op_return_correct_witness:
  "\<exists>vm'. op_return 0 False sample_frames 4 = Some (Continue vm' 10) \<and> vm_stack vm' = [VAL_NULL, VAL_INT 7] \<and>
    upvalue_get vm' 0 = Some (VAL_INT 6)"
proof -
  have "vm_frames sample_frames = [\<lparr>fr_closure = 1, fr_ip = 10, fr_slots = 0\<rparr>] @ [\<lparr>fr_closure = 1, fr_ip = 3, fr_slots = 1\<rparr>]"
    "vm_stack sample_frames = [VAL_NULL, VAL_INT 5, VAL_INT 6] @ [VAL_INT 7]" by (simp_all add: sample_frames_def)
  from op_return_correct [OF this _ _ sample_frames_ok(1), of 0 False 4] show ?thesis
    using sample_frames_settled(1,3) by (auto simp: FLUX_STACK_MAX_def)
qed

text \<open>C28: An exception reaches the innermost handler of the running invocation, whatever handlers inner invocations
  left behind: the frames above the handler's frame are unwound, the stack is cut to the recorded depth, the exception
  is pushed, the handler is removed, execution continues at its address, and captured variables keep their values.\<close>

theorem exception_reaches_handler:
  assumes "vm_exception_handlers vm = inner @ h # hs" "\<forall>i \<in> set inner. base < eh_base_frame_count i"
    "eh_base_frame_count h = base" "vm_frames vm = fs @ rest" "fs \<noteq> []" "eh_frame_index h = int (length fs) - 1"
    and "eh_stack_depth h \<le> length (vm_stack vm)" "eh_stack_depth h < FLUX_STACK_MAX" "upvalues_ok vm"
  shows "\<exists>vm'. flux_handle_exception base vm ip = Some (Continue vm' (eh_handler_ip h)) \<and>
    vm_stack vm' = take (eh_stack_depth h) (vm_stack vm) @ [vm_current_exception vm] \<and> vm_frames vm' = fs \<and>
    vm_exception_handlers vm' = hs \<and> \<not> vm_has_exception vm' \<and> upvalues_ok vm' \<and>
    (\<forall>p. settled vm p \<longrightarrow> settled vm' p \<and> upvalue_get vm' p = upvalue_get vm p)"
  by (rule flux_handle_exception_spec [OF assms]) blast

theorem exception_reaches_handler_witness:
  "\<exists>vm'. flux_handle_exception 0 sample_frames 4 = Some (Continue vm' 40) \<and> vm_stack vm' = [VAL_NULL, VAL_INT 9] \<and>
    length (vm_frames vm') = 1 \<and> upvalue_get vm' 0 = Some (VAL_INT 6)"
proof -
  have "vm_exception_handlers sample_frames =
      [] @ \<lparr>eh_handler_ip = 40, eh_frame_index = 0, eh_base_frame_count = 0, eh_stack_depth = 1\<rparr> # []"
    "vm_frames sample_frames = [\<lparr>fr_closure = 1, fr_ip = 10, fr_slots = 0\<rparr>] @ [\<lparr>fr_closure = 1, fr_ip = 3, fr_slots = 1\<rparr>]"
    by (simp_all add: sample_frames_def)
  from exception_reaches_handler [OF this(1) _ _ this(2) _ _ _ _ sample_frames_ok(2), of 0 4] show ?thesis
    using sample_frames_settled(1,2) by (auto simp: sample_frames_def FLUX_STACK_MAX_def)
qed

end
