(* ===== verification/Steps.thy ===== *)
theory Steps
  imports Fuel
begin

text \<open>
  The dispatch loop as a step relation.  A configuration is a machine and an instruction pointer; a
  step runs one instruction, nested invocations included, with some bound on their turns.  The loop
  of \<open>Machine\<close> with its bound and the runs of this relation are the same thing.
\<close>

type_synonym config = "flux_vm \<times> nat"

section \<open>The relation\<close>

inductive flux_step :: "vm_env \<Rightarrow> nat \<Rightarrow> bool \<Rightarrow> config \<Rightarrow> config \<Rightarrow> bool" for env base preserve where
  continue: "vm_step (run_ctx n env) base preserve vm ip = Some (Continue vm' ip') \<Longrightarrow>
    flux_step env base preserve (vm, ip) (vm', ip')"

inductive_cases flux_stepE: "flux_step env base preserve (vm, ip) c"

inductive flux_stop :: "vm_env \<Rightarrow> nat \<Rightarrow> bool \<Rightarrow> config \<Rightarrow> vm_result \<Rightarrow> flux_vm \<Rightarrow> bool" for env base preserve where
  stop: "vm_step (run_ctx n env) base preserve vm ip = Some (Return r vm') \<Longrightarrow>
    flux_stop env base preserve (vm, ip) r vm'"

inductive_cases flux_stopE: "flux_stop env base preserve (vm, ip) r vm'"

inductive flux_reach :: "vm_env \<Rightarrow> nat \<Rightarrow> bool \<Rightarrow> config \<Rightarrow> config \<Rightarrow> bool" for env base preserve where
  refl: "flux_reach env base preserve c c"
| step: "flux_step env base preserve c d \<Longrightarrow> flux_reach env base preserve d e \<Longrightarrow> flux_reach env base preserve c e"

inductive_simps flux_step_simp: "flux_step env base preserve (vm, ip) c"
inductive_simps flux_stop_simp: "flux_stop env base preserve (vm, ip) r vm'"

lemma flux_reach_trans:
  "flux_reach env base preserve c d \<Longrightarrow> flux_reach env base preserve d e \<Longrightarrow> flux_reach env base preserve c e"
  by (induction rule: flux_reach.induct) (blast intro: flux_reach.step)+

section \<open>Determinism\<close>

lemma step_agree:
  assumes "env_mono env" "vm_step (run_ctx n env) base preserve vm ip = Some x" "vm_step (run_ctx m env) base preserve vm ip = Some y"
  shows "x = y"
proof -
  have "opt_le (vm_step (run_ctx k env) base preserve vm ip) (vm_step (run_ctx (max n m) env) base preserve vm ip)"
    if "k \<le> max n m" for k by (rule vm_step_mono [OF run_ctx_le [OF assms(1) that]])
  from this [of n] this [of m] show ?thesis using assms(2,3) by (simp add: opt_le_def)
qed

lemma flux_step_deterministic:
  assumes "env_mono env" "flux_step env base preserve c d" "flux_step env base preserve c e"
  shows "d = e"
  using assms by (cases c) (auto elim!: flux_stepE dest: step_agree [OF assms(1)])

lemma flux_step_stop: "env_mono env \<Longrightarrow> flux_step env base preserve c d \<Longrightarrow> flux_stop env base preserve c r vm \<Longrightarrow> False"
  by (cases c) (auto elim!: flux_stepE flux_stopE dest: step_agree)

section \<open>The loop follows the relation\<close>

lemma loop_reaches:
  "vm_loop n env base preserve vm ip = Some (r, vm') \<Longrightarrow>
    \<exists>c. flux_reach env base preserve (vm, ip) c \<and> flux_stop env base preserve c r vm'"
proof (induction n arbitrary: vm ip)
  case 0
  then show ?case by (simp add: vm_loop.simps)
next
  case (Suc n)
  show ?case
  proof (cases "vm_step (run_ctx n env) base preserve vm ip")
    case None
    then show ?thesis using Suc.prems by (simp add: vm_loop_Suc)
  next
    case (Some out)
    show ?thesis
    proof (cases out)
      case (Continue vm1 ip1)
      then have step: "flux_step env base preserve (vm, ip) (vm1, ip1)" using Some by (auto intro: flux_step.continue)
      have "vm_loop n env base preserve vm1 ip1 = Some (r, vm')" using Suc.prems Some Continue by (simp add: vm_loop_Suc)
      from Suc.IH [OF this] show ?thesis using step by (blast intro: flux_reach.step)
    next
      case (Return r1 vm1)
      then have "flux_stop env base preserve (vm, ip) r vm'"
        using Some Suc.prems by (auto simp: vm_loop_Suc intro: flux_stop.stop)
      then show ?thesis by (blast intro: flux_reach.refl)
    qed (use Suc.prems Some in \<open>simp add: vm_loop_Suc\<close>)
  qed
qed

lemma reach_loop:
  assumes env: "env_mono env"
  shows "flux_reach env base preserve c d \<Longrightarrow> vm_loop n env base preserve (fst d) (snd d) = Some x \<Longrightarrow>
    \<exists>m. vm_loop m env base preserve (fst c) (snd c) = Some x"
proof (induction rule: flux_reach.induct)
  case (step c d e)
  then obtain m where m: "vm_loop m env base preserve (fst d) (snd d) = Some x" by blast
  obtain vm ip vm1 ip1 where cd: "c = (vm, ip)" "d = (vm1, ip1)" by (cases c, cases d)
  then obtain k where k: "vm_step (run_ctx k env) base preserve vm ip = Some (Continue vm1 ip1)"
    using step.hyps(1) by (auto elim!: flux_stepE)
  have m': "vm_loop m env base preserve vm1 ip1 = Some x" using m cd by simp
  let ?n = "max k m"
  have "opt_le (vm_step (run_ctx k env) base preserve vm ip) (vm_step (run_ctx ?n env) base preserve vm ip)"
    by (rule vm_step_mono [OF run_ctx_le [OF env]]) simp
  then have s: "vm_step (run_ctx ?n env) base preserve vm ip = Some (Continue vm1 ip1)" using k by (simp add: opt_le_def)
  have "opt_le (vm_loop m env base preserve vm1 ip1) (vm_loop ?n env base preserve vm1 ip1)" by (rule vm_loop_mono [OF env]) simp
  then have "vm_loop ?n env base preserve vm1 ip1 = Some x" using m' unfolding opt_le_def by blast
  then have "vm_loop (Suc ?n) env base preserve vm ip = Some x" by (simp add: vm_loop_Suc s)
  then show ?case using cd by auto
qed auto

lemma loop_iff_reach:
  assumes "env_mono env"
  shows "(\<exists>n. vm_loop n env base preserve vm ip = Some (r, vm')) \<longleftrightarrow>
    (\<exists>c. flux_reach env base preserve (vm, ip) c \<and> flux_stop env base preserve c r vm')" (is "?L \<longleftrightarrow> ?R")
proof
  show "?L \<Longrightarrow> ?R" using loop_reaches by blast
  assume ?R
  then obtain vm1 ip1 k where c: "flux_reach env base preserve (vm, ip) (vm1, ip1)"
    "vm_step (run_ctx k env) base preserve vm1 ip1 = Some (Return r vm')" by (auto elim!: flux_stopE)
  then have "vm_loop (Suc k) env base preserve vm1 ip1 = Some (r, vm')" by (simp add: vm_loop_Suc)
  then show ?L using reach_loop [OF assms c(1)] by simp
qed

section \<open>Invariants\<close>

text \<open>A property of machines that every step keeps holds of everything reachable.\<close>

lemma flux_reach_invariant:
  assumes "\<And>n vm ip vm' ip'. P vm \<Longrightarrow> vm_step (run_ctx n env) base preserve vm ip = Some (Continue vm' ip') \<Longrightarrow> P vm'"
  shows "flux_reach env base preserve c d \<Longrightarrow> P (fst c) \<Longrightarrow> P (fst d)"
  by (induction rule: flux_reach.induct) (auto dest: assms elim!: flux_step.cases)

end
