(* ===== verification/Bounds.thy ===== *)
theory Bounds
  imports Steps
begin

text \<open>
  The fixed arrays of the machine never overflow: the frames, the exception handlers and the import
  directories stay within \<open>FLUX_FRAMES_MAX\<close>, \<open>FLUX_EXCEPTION_HANDLER_MAX\<close> and \<open>FLUX_IMPORT_DIR_MAX\<close>, and so do
  the saved frames of every coroutine.  Every operation keeps these bounds and any law of
  the ready queue that survives enqueueing and dequeueing; the rules of the collection \<open>keep\<close> follow the structure
  of its definition.
\<close>

section \<open>The invariant\<close>

definition coroutines_bounded :: "heap \<Rightarrow> bool" where
  "coroutines_bounded h \<longleftrightarrow> (\<forall>p co. hpayload h p = Some (OBJ_COROUTINE co) \<longrightarrow> length (co_frames co) \<le> FLUX_FRAMES_MAX)"

definition bounded :: "flux_vm \<Rightarrow> bool" where
  "bounded vm \<longleftrightarrow> length (vm_frames vm) \<le> FLUX_FRAMES_MAX \<and>
     length (vm_exception_handlers vm) \<le> FLUX_EXCEPTION_HANDLER_MAX \<and>
     length (vm_import_dirs vm) \<le> FLUX_IMPORT_DIR_MAX \<and> coroutines_bounded (vm_heap vm)"

text \<open>
  The ready queue is followed along: \<open>K\<close> is any predicate on it that survives \<open>vm_scheduler_enqueue\<close> and
  \<open>vm_scheduler_dequeue\<close>.  A machine is kept when it is within the bounds and its queue satisfies \<open>K\<close>.
\<close>

locale queue_law =
  fixes K :: "ptr list \<Rightarrow> bool"
  assumes K_enqueue: "K q \<Longrightarrow> K (q @ [co])"
    and K_dequeue: "K (co # q) \<Longrightarrow> K q"

definition kept :: "(ptr list \<Rightarrow> bool) \<Rightarrow> flux_vm \<Rightarrow> bool" where
  "kept K vm \<longleftrightarrow> bounded vm \<and> K (vm_ready_queue vm)"

text \<open>Partial results that keep it: a machine, a machine with a value, an outcome of an instruction.\<close>

definition keepV :: "(ptr list \<Rightarrow> bool) \<Rightarrow> flux_vm option \<Rightarrow> bool" where
  "keepV K m \<longleftrightarrow> (\<forall>vm. m = Some vm \<longrightarrow> kept K vm)"

definition keepP :: "(ptr list \<Rightarrow> bool) \<Rightarrow> ('a \<times> flux_vm) option \<Rightarrow> bool" where
  "keepP K m \<longleftrightarrow> (\<forall>x vm. m = Some (x, vm) \<longrightarrow> kept K vm)"

primrec kept_outcome :: "(ptr list \<Rightarrow> bool) \<Rightarrow> outcome \<Rightarrow> bool" where
  "kept_outcome K (Continue vm ip) = kept K vm"
| "kept_outcome K (Exception vm ip) = kept K vm"
| "kept_outcome K (Return r vm) = kept K vm"

definition keepO :: "(ptr list \<Rightarrow> bool) \<Rightarrow> outcome option \<Rightarrow> bool" where
  "keepO K m \<longleftrightarrow> (\<forall>out. m = Some out \<longrightarrow> kept_outcome K out)"

lemmas keep_defs = keepV_def keepP_def keepO_def

text \<open>Writing an object that is not a coroutine, or one with few enough frames.\<close>

definition small_payload :: "payload \<Rightarrow> bool" where
  "small_payload pl \<longleftrightarrow> (\<forall>co. pl = OBJ_COROUTINE co \<longrightarrow> length (co_frames co) \<le> FLUX_FRAMES_MAX)"

named_theorems keep \<open>rules for operations that keep the bounds\<close>

context queue_law
begin

section \<open>Rules for the combinators\<close>


lemma keep_None [keep]: "keepV K None" "keepP K None" "keepO K None"
  by (simp_all add: keep_defs)

lemma keep_Some [keep]: "kept K vm \<Longrightarrow> keepV K (Some vm)" "kept K vm \<Longrightarrow> keepP K (Some (x, vm))"
  "kept_outcome K out \<Longrightarrow> keepO K (Some out)"
  by (simp_all add: keep_defs)

lemma keep_bindV [keep]:
  "keepV K m \<Longrightarrow> (\<And>vm. kept K vm \<Longrightarrow> keepV K (f vm)) \<Longrightarrow> keepV K (Option.bind m f)"
  "keepV K m \<Longrightarrow> (\<And>vm. kept K vm \<Longrightarrow> keepP K (g vm)) \<Longrightarrow> keepP K (Option.bind m g)"
  "keepV K m \<Longrightarrow> (\<And>vm. kept K vm \<Longrightarrow> keepO K (k vm)) \<Longrightarrow> keepO K (Option.bind m k)"
  by (auto simp: keep_defs bind_Some_iff)

lemma keep_bindP [keep]:
  "keepP K m \<Longrightarrow> (\<And>x vm. kept K vm \<Longrightarrow> keepV K (f (x, vm))) \<Longrightarrow> keepV K (Option.bind m f)"
  "keepP K m \<Longrightarrow> (\<And>x vm. kept K vm \<Longrightarrow> keepP K (g (x, vm))) \<Longrightarrow> keepP K (Option.bind m g)"
  "keepP K m \<Longrightarrow> (\<And>x vm. kept K vm \<Longrightarrow> keepO K (k (x, vm))) \<Longrightarrow> keepO K (Option.bind m k)"
  by (auto simp: keep_defs bind_Some_iff)

lemma keep_bindO [keep]:
  "keepO K m \<Longrightarrow> (\<And>out. kept_outcome K out \<Longrightarrow> keepO K (f out)) \<Longrightarrow> keepO K (Option.bind m f)"
  by (auto simp: keep_defs bind_Some_iff)

text \<open>Everything else only reads; these rules come last.\<close>

lemma keep_bind:
  "(\<And>x. m = Some x \<Longrightarrow> keepV K (f x)) \<Longrightarrow> keepV K (Option.bind m f)"
  "(\<And>x. m = Some x \<Longrightarrow> keepP K (g x)) \<Longrightarrow> keepP K (Option.bind m g)"
  "(\<And>x. m = Some x \<Longrightarrow> keepO K (k x)) \<Longrightarrow> keepO K (Option.bind m k)"
  by (auto simp: keep_defs bind_Some_iff)

lemma keep_if [keep]:
  "(P \<Longrightarrow> keepV K a) \<Longrightarrow> (\<not> P \<Longrightarrow> keepV K b) \<Longrightarrow> keepV K (if P then a else b)"
  "(P \<Longrightarrow> keepP K a') \<Longrightarrow> (\<not> P \<Longrightarrow> keepP K b') \<Longrightarrow> keepP K (if P then a' else b')"
  "(P \<Longrightarrow> keepO K c) \<Longrightarrow> (\<not> P \<Longrightarrow> keepO K d) \<Longrightarrow> keepO K (if P then c else d)"
  by simp_all

lemma keep_prod [keep]:
  "(\<And>x y. z = (x, y) \<Longrightarrow> keepV K (f x y)) \<Longrightarrow> keepV K (case z of (x, y) \<Rightarrow> f x y)"
  "(\<And>x y. z = (x, y) \<Longrightarrow> keepP K (g x y)) \<Longrightarrow> keepP K (case z of (x, y) \<Rightarrow> g x y)"
  "(\<And>x y. z = (x, y) \<Longrightarrow> keepO K (k x y)) \<Longrightarrow> keepO K (case z of (x, y) \<Rightarrow> k x y)"
  by (cases z; simp)+

lemma keep_option [keep]:
  "keepV K a \<Longrightarrow> (\<And>x. z = Some x \<Longrightarrow> keepV K (f x)) \<Longrightarrow> keepV K (case z of None \<Rightarrow> a | Some x \<Rightarrow> f x)"
  "keepP K b \<Longrightarrow> (\<And>x. z = Some x \<Longrightarrow> keepP K (g x)) \<Longrightarrow> keepP K (case z of None \<Rightarrow> b | Some x \<Rightarrow> g x)"
  "keepO K c \<Longrightarrow> (\<And>x. z = Some x \<Longrightarrow> keepO K (k x)) \<Longrightarrow> keepO K (case z of None \<Rightarrow> c | Some x \<Rightarrow> k x)"
  by (cases z; simp)+

lemma keep_list [keep]:
  "keepV K a \<Longrightarrow> (\<And>x xs. keepV K (f x xs)) \<Longrightarrow> keepV K (case z of [] \<Rightarrow> a | x # xs \<Rightarrow> f x xs)"
  "keepP K b \<Longrightarrow> (\<And>x xs. keepP K (g x xs)) \<Longrightarrow> keepP K (case z of [] \<Rightarrow> b | x # xs \<Rightarrow> g x xs)"
  "keepO K c \<Longrightarrow> (\<And>x xs. keepO K (k x xs)) \<Longrightarrow> keepO K (case z of [] \<Rightarrow> c | x # xs \<Rightarrow> k x xs)"
  by (cases z; simp)+

lemma keep_value [keep]:
  "(\<And>i. keepV K (f1 i)) \<Longrightarrow> (\<And>d. keepV K (f2 d)) \<Longrightarrow> (\<And>b. keepV K (f3 b)) \<Longrightarrow> keepV K f4 \<Longrightarrow> (\<And>p. keepV K (f5 p)) \<Longrightarrow>
    keepV K (case_flux_value f1 f2 f3 f4 f5 v)"
  "(\<And>i. keepP K (g1 i)) \<Longrightarrow> (\<And>d. keepP K (g2 d)) \<Longrightarrow> (\<And>b. keepP K (g3 b)) \<Longrightarrow> keepP K g4 \<Longrightarrow> (\<And>p. keepP K (g5 p)) \<Longrightarrow>
    keepP K (case_flux_value g1 g2 g3 g4 g5 v)"
  "(\<And>i. keepO K (h1 i)) \<Longrightarrow> (\<And>d. keepO K (h2 d)) \<Longrightarrow> (\<And>b. keepO K (h3 b)) \<Longrightarrow> keepO K h4 \<Longrightarrow> (\<And>p. keepO K (h5 p)) \<Longrightarrow>
    keepO K (case_flux_value h1 h2 h3 h4 h5 v)"
  by (cases v; simp)+

lemma keep_payloadV [keep]:
  assumes "\<And>x. keepV K (f1 x)" "\<And>x. keepV K (f2 x)" "\<And>x. keepV K (f3 x)" "\<And>x. keepV K (f4 x)" "\<And>x. keepV K (f5 x)" "\<And>x. keepV K (f6 x)"
    "\<And>x. keepV K (f7 x)" "\<And>x. keepV K (f8 x)" "\<And>x. keepV K (f9 x)" "\<And>x. keepV K (f10 x)" "\<And>x. keepV K (f11 x)" "\<And>x. keepV K (f12 x)"
  shows "keepV K (case_payload f1 f2 f3 f4 f5 f6 f7 f8 f9 f10 f11 f12 pl)"
  using assms by (cases pl) simp_all

lemma keep_payloadP [keep]:
  assumes "\<And>x. keepP K (f1 x)" "\<And>x. keepP K (f2 x)" "\<And>x. keepP K (f3 x)" "\<And>x. keepP K (f4 x)" "\<And>x. keepP K (f5 x)" "\<And>x. keepP K (f6 x)"
    "\<And>x. keepP K (f7 x)" "\<And>x. keepP K (f8 x)" "\<And>x. keepP K (f9 x)" "\<And>x. keepP K (f10 x)" "\<And>x. keepP K (f11 x)" "\<And>x. keepP K (f12 x)"
  shows "keepP K (case_payload f1 f2 f3 f4 f5 f6 f7 f8 f9 f10 f11 f12 pl)"
  using assms by (cases pl) simp_all

lemma keep_payloadO [keep]:
  assumes "\<And>x. keepO K (f1 x)" "\<And>x. keepO K (f2 x)" "\<And>x. keepO K (f3 x)" "\<And>x. keepO K (f4 x)" "\<And>x. keepO K (f5 x)" "\<And>x. keepO K (f6 x)"
    "\<And>x. keepO K (f7 x)" "\<And>x. keepO K (f8 x)" "\<And>x. keepO K (f9 x)" "\<And>x. keepO K (f10 x)" "\<And>x. keepO K (f11 x)" "\<And>x. keepO K (f12 x)"
  shows "keepO K (case_payload f1 f2 f3 f4 f5 f6 f7 f8 f9 f10 f11 f12 pl)"
  using assms by (cases pl) simp_all

lemma keep_outcome [keep]:
  "kept_outcome K out \<Longrightarrow> (\<And>vm ip. kept K vm \<Longrightarrow> keepO K (f vm ip)) \<Longrightarrow> (\<And>vm ip. kept K vm \<Longrightarrow> keepO K (g vm ip)) \<Longrightarrow>
    (\<And>r vm. kept K vm \<Longrightarrow> keepO K (k r vm)) \<Longrightarrow> keepO K (case_outcome f g k out)"
  by (cases out) simp_all

lemma keep_sum [keep]:
  "(\<And>x. keepO K (f x)) \<Longrightarrow> (\<And>x. keepO K (g x)) \<Longrightarrow> keepO K (case_sum f g z)"
  by (cases z) simp_all

lemma keep_map [keep]: "keepP K m \<Longrightarrow> keepP K (map_option (\<lambda>(x, vm). (f x, vm)) m)"
  by (auto simp: keepP_def)

lemma keep_fold [keep]: "(\<And>x vm. kept K vm \<Longrightarrow> keepV K (f x vm)) \<Longrightarrow> kept K vm \<Longrightarrow> keepV K (fold_opt f xs vm)"
  by (induction xs arbitrary: vm) (auto intro!: keep)

text \<open>Updates of the fields the bounds do not read.\<close>

lemma bounded_updates [simp]:
  "kept K (vm\<lparr>vm_stack := a\<rparr>) = kept K vm" "kept K (vm\<lparr>vm_globals := b\<rparr>) = kept K vm"
  "kept K (vm\<lparr>vm_modules := b\<rparr>) = kept K vm" "kept K (vm\<lparr>vm_import_stack_names := c\<rparr>) = kept K vm"
  "kept K (vm\<lparr>vm_strings := d\<rparr>) = kept K vm" "kept K (vm\<lparr>vm_objects := e\<rparr>) = kept K vm"
  "kept K (vm\<lparr>vm_open_upvalues := e\<rparr>) = kept K vm" "kept K (vm\<lparr>vm_bytes_allocated := f\<rparr>) = kept K vm"
  "kept K (vm\<lparr>vm_next_gc := f\<rparr>) = kept K vm" "kept K (vm\<lparr>vm_grey_stack := e\<rparr>) = kept K vm"
  "kept K (vm\<lparr>vm_grey_capacity := g\<rparr>) = kept K vm" "kept K (vm\<lparr>vm_gen_yield_collector := b\<rparr>) = kept K vm"
  "kept K (vm\<lparr>vm_ready_capacity := g\<rparr>) = kept K vm"
  "kept K (vm\<lparr>vm_current_coroutine := b\<rparr>) = kept K vm" "kept K (vm\<lparr>vm_pending_io_count := i\<rparr>) = kept K vm"
  "kept K (vm\<lparr>vm_io_futures := e\<rparr>) = kept K vm" "kept K (vm\<lparr>vm_io_future_capacity := g\<rparr>) = kept K vm"
  "kept K (vm\<lparr>vm_error_msg := j\<rparr>) = kept K vm" "kept K (vm\<lparr>vm_has_error := k\<rparr>) = kept K vm"
  "kept K (vm\<lparr>vm_error_printed := k\<rparr>) = kept K vm" "kept K (vm\<lparr>vm_current_exception := l\<rparr>) = kept K vm"
  "kept K (vm\<lparr>vm_has_exception := k\<rparr>) = kept K vm"
  by (simp_all add: kept_def bounded_def)

lemma bounded_frames: "kept K vm \<Longrightarrow> length fs \<le> FLUX_FRAMES_MAX \<Longrightarrow> kept K (vm\<lparr>vm_frames := fs\<rparr>)"
  and bounded_handlers: "kept K vm \<Longrightarrow> length hs \<le> FLUX_EXCEPTION_HANDLER_MAX \<Longrightarrow> kept K (vm\<lparr>vm_exception_handlers := hs\<rparr>)"
  and bounded_heap: "kept K vm \<Longrightarrow> coroutines_bounded h \<Longrightarrow> kept K (vm\<lparr>vm_heap := h\<rparr>)"
  by (simp_all add: kept_def bounded_def)

lemma bounded_butlast [simp]: "kept K vm \<Longrightarrow> kept K (vm\<lparr>vm_frames := butlast (vm_frames vm)\<rparr>)"
  "kept K vm \<Longrightarrow> kept K (vm\<lparr>vm_frames := []\<rparr>)"
  "kept K vm \<Longrightarrow> kept K (vm\<lparr>vm_exception_handlers := tl (vm_exception_handlers vm)\<rparr>)"
  by (auto simp: kept_def bounded_def)

lemma vm_push_bounded [simp]: "kept K (vm_push vm v) = kept K vm"
  by (simp add: vm_push_def)

section \<open>The heap\<close>

lemma small_payload_simps [simp]:
  "small_payload (OBJ_STRING a)" "small_payload (OBJ_LIST b)" "small_payload (OBJ_DICT c)" "small_payload (OBJ_FUNCTION d)"
  "small_payload (OBJ_NATIVE e)" "small_payload (OBJ_CLOSURE f)" "small_payload (OBJ_UPVALUE g)" "small_payload (OBJ_CLASS h)"
  "small_payload (OBJ_INSTANCE i)" "small_payload (OBJ_BOUND_METHOD j)" "small_payload (OBJ_FUTURE k)"
  "small_payload (OBJ_COROUTINE co) \<longleftrightarrow> length (co_frames co) \<le> FLUX_FRAMES_MAX"
  by (simp_all add: small_payload_def)

lemma bounded_payload: "kept K vm \<Longrightarrow> hpayload (vm_heap vm) p = Some pl \<Longrightarrow> small_payload pl"
  by (auto simp: kept_def bounded_def coroutines_bounded_def small_payload_def)

lemma coroutines_bounded_hput: "coroutines_bounded h \<Longrightarrow> hput h p pl = Some h' \<Longrightarrow> small_payload pl \<Longrightarrow> coroutines_bounded h'"
  by (auto simp: coroutines_bounded_def small_payload_def hpayload_hput split: if_splits)

lemma kept_coroutines: "kept K vm \<Longrightarrow> coroutines_bounded (vm_heap vm)"
  by (simp add: kept_def bounded_def)

lemma keep_hput: "kept K vm \<Longrightarrow> hput (vm_heap vm) p pl = Some h \<Longrightarrow> small_payload pl \<Longrightarrow> kept K (vm\<lparr>vm_heap := h\<rparr>)"
  by (blast intro: bounded_heap coroutines_bounded_hput kept_coroutines)

lemma keep_vm_hput [keep]: "kept K vm \<Longrightarrow> small_payload pl \<Longrightarrow> keepV K (vm_hput vm p pl)"
  by (auto simp: vm_hput_def keepV_def bind_Some_iff intro: keep_hput)

text \<open>Changing a mark, freeing an object, adding one.\<close>

lemma hpayload_update:
  "hpayload (h[p := x]) q = (if q = p \<and> p < length h then map_option payload x else hpayload h q)"
  by (auto simp: hpayload_def hget_def)

lemma coroutines_bounded_update:
  assumes "coroutines_bounded h" "\<And>ob. x = Some ob \<Longrightarrow> small_payload (payload ob)"
  shows "coroutines_bounded (h[p := x])"
  using assms by (auto simp: coroutines_bounded_def hpayload_update small_payload_def split: if_splits)

lemma coroutines_bounded_append:
  "coroutines_bounded h \<Longrightarrow> small_payload pl \<Longrightarrow> coroutines_bounded (h @ [Some \<lparr>marked = m, payload = pl\<rparr>])"
  by (auto simp: coroutines_bounded_def hpayload_def hget_def small_payload_def nth_append split: if_splits)

lemma bounded_object: "kept K vm \<Longrightarrow> hget (vm_heap vm) p = Some ob \<Longrightarrow> small_payload (payload ob)"
  using bounded_payload [of vm p "payload ob"] by (simp add: hpayload_def)

lemma bounded_mark: "kept K vm \<Longrightarrow> hget (vm_heap vm) p = Some ob \<Longrightarrow> kept K (vm\<lparr>vm_heap := (vm_heap vm)[p := Some (ob\<lparr>marked := m\<rparr>)]\<rparr>)"
  by (intro bounded_heap coroutines_bounded_update kept_coroutines) (auto dest: bounded_object)

lemma bounded_alloc:
  "kept K vm \<Longrightarrow> small_payload pl \<Longrightarrow> kept K (vm\<lparr>vm_heap := vm_heap vm @ [Some \<lparr>marked = m, payload = pl\<rparr>]\<rparr>)"
  by (intro bounded_heap coroutines_bounded_append kept_coroutines)

section \<open>The collector\<close>

lemma gc_mark_object_keep [keep]: "kept K vm \<Longrightarrow> keepV K (gc_mark_object vm p)"
  using bounded_mark [where m = True]
  by (auto simp: gc_mark_object_def keepV_def Let_def split: option.splits)

lemma gc_mark_keep [keep]:
  assumes "kept K vm"
  shows "keepV K (gc_mark_value vm v)" "keepV K (gc_mark_values vm vs)" "keepV K (gc_mark_array vm arr)" "keepV K (gc_mark_objects vm ps)"
    "keepV K (blacken_entry e vm)"
  unfolding gc_mark_value_def gc_mark_values_def gc_mark_array_def gc_mark_objects_def blacken_entry_def
  using assms by (intro keep; simp)+

lemma gc_roots_keep [keep]: "kept K vm \<Longrightarrow> keepV K (mark_roots vm)" "kept K vm \<Longrightarrow> keepV K (blacken_object vm p)"
  unfolding mark_roots_def blacken_object_def by (intro keep keep_bind; simp)+

lemma trace_references_keep [keep]: "kept K vm \<Longrightarrow> keepV K (trace_references vm)"
proof (induction vm rule: trace_references.induct)
  case (1 vm)
  show ?case
  proof (cases "vm_grey_stack vm")
    case (Cons p rest)
    have "keepV K (blacken_object (vm\<lparr>vm_grey_stack := rest\<rparr>) p)" using "1.prems" by (intro keep) simp
    then show ?thesis
      using "1.IH" [OF Cons] Cons by (subst trace_references.simps) (auto simp: keepV_def split: option.splits)
  qed (use "1.prems" in \<open>subst trace_references.simps, simp add: keep\<close>)
qed

lemma string_table_keep [keep]:
  assumes "kept K vm"
  shows "keepV K (vm_string_table_set vm p)" "keepV K (vm_string_table_remove vm p)"
  unfolding vm_string_table_set_def vm_string_table_remove_def
  using assms by (intro keep keep_bind; simp)+

lemma object_free_keep [keep]: "kept K vm \<Longrightarrow> keepV K (object_free vm p)"
  unfolding object_free_def by (intro keep_bind keep bounded_heap coroutines_bounded_update) (simp_all add: kept_coroutines)

lemma sweep_loop_keep [keep]: "kept K vm \<Longrightarrow> keepP K (sweep_loop objs vm)"
proof (induction objs arbitrary: vm)
  case (Cons p objs)
  then show ?case
    by (simp only: sweep_loop.simps) (intro keep keep_bind; simp add: bounded_mark)
qed (simp add: keep)

lemma gc_keep [keep]:
  assumes "kept K vm"
  shows "keepV K (sweep vm)" "keepV K (gc_collect vm)" "small_payload pl \<Longrightarrow> keepP K (gc_alloc_object vm pl)"
    "keepV K (gc_realloc vm m n)" "keepV K (gc_value_array_write vm l v)"
proof -
  have collect: "keepV K (sweep vm)" "keepV K (gc_collect vm)" if "kept K vm" for vm
    unfolding sweep_def gc_collect_def sweep_def using that by (intro keep; simp)+
  show "keepV K (sweep vm)" "keepV K (gc_collect vm)" using collect assms by blast+
  show "small_payload pl \<Longrightarrow> keepP K (gc_alloc_object vm pl)"
    unfolding gc_alloc_object_def Let_def using assms
    by (intro keep collect; simp add: bounded_alloc)
  show "keepV K (gc_realloc vm m n)" "keepV K (gc_value_array_write vm l v)"
    unfolding gc_realloc_def gc_value_array_write_def Let_def using assms by (intro keep collect keep_bind; simp)+
qed

section \<open>Objects\<close>

lemma stack_keep [keep]:
  assumes "kept K vm"
  shows "keepP K (vm_pop vm)" "keepV K (vm_poke vm n v)" "keepV K (vm_dict_set vm d k v)" "keepP K (vm_dict_delete vm d k)"
  unfolding vm_pop_def vm_poke_def vm_dict_set_def vm_dict_delete_def
  using assms by (intro keep keep_bind; simp add: keep_hput)+

lemma string_keep [keep]:
  assumes "kept K vm"
  shows "keepP K (object_string_copy vm s)" "keepP K (object_string_take vm s)" "keepP K (object_string_concat vm a b)"
  unfolding object_string_copy_def object_string_take_def object_string_concat_def string_alloc_def Let_def
  using assms by (intro keep keep_bind; simp)+

lemma object_keep [keep]:
  assumes "kept K vm"
  shows "keepP K (object_list_new vm)" "keepP K (object_dict_new vm)" "keepP K (object_function_new vm)" "keepP K (object_upvalue_new vm slot)"
    "keepP K (object_closure_new vm fn)" "keepP K (object_bound_method_new vm v m)" "keepP K (object_coroutine_new vm cl)"
    "keepP K (object_future_new vm)"
  unfolding object_list_new_def object_dict_new_def object_function_new_def object_upvalue_new_def object_closure_new_def
    object_bound_method_new_def object_coroutine_new_def object_future_new_def
  using assms by (intro keep keep_bind; simp)+

lemma object_fields_keep [keep]:
  assumes "kept K vm"
  shows "keepP K (object_native_new vm n s a)" "keepP K (object_class_new vm k)" "keepP K (object_instance_new vm k)"
  unfolding object_native_new_def object_class_new_def object_instance_new_def
  using assms by (intro keep keep_bind; simp)+

end

end
