(* ===== verification/BoundsOps.thy ===== *)
theory BoundsOps
  imports Bounds
begin

text \<open>
  The bounds and the law of the queue through calls, coroutines and imports.  The native code behind the environment
  must keep them; it reaches the arrays and the queue only through the machine's own operations.
\<close>

section \<open>Contexts\<close>

definition keep_invoker :: "(ptr list \<Rightarrow> bool) \<Rightarrow> invoker \<Rightarrow> bool" where
  "keep_invoker K iv \<longleftrightarrow> (\<forall>vm callee args. kept K vm \<longrightarrow> keepP K (iv vm callee args))"

definition env_keeps :: "(ptr list \<Rightarrow> bool) \<Rightarrow> vm_env \<Rightarrow> bool" where
  "env_keeps K env \<longleftrightarrow> (\<forall>vm. kept K vm \<longrightarrow>
     (\<forall>iv fn argc. keep_invoker K iv \<longrightarrow> keepP K (env_native env iv fn argc vm)) \<and>
     (\<forall>iv v name argc. keep_invoker K iv \<longrightarrow> keepP K (env_invoke_builtin env iv v name argc vm)) \<and>
     (\<forall>v name. keepP K (env_get_builtin_attr env v name vm)) \<and> keepP K (env_uv_run env vm) \<and>
     (\<forall>path buf. keepP K (env_compile env path buf vm)) \<and> (\<forall>name. keepP K (env_load_extension env name vm)))"

definition ctx_keeps :: "(ptr list \<Rightarrow> bool) \<Rightarrow> ctx \<Rightarrow> bool" where
  "ctx_keeps K c \<longleftrightarrow> env_keeps K (c_env c) \<and> keep_invoker K (c_invoke c) \<and>
     (\<forall>vm base preserve. kept K vm \<longrightarrow> keepP K (c_run c vm base preserve))"

context queue_law
begin

section \<open>Frames and errors\<close>

lemma keep_location [keep]: "(\<And>n. keepV K (f n)) \<Longrightarrow> keepV K a \<Longrightarrow> keepV K (case_upvalue_location f a l)"
  by (cases l) simp_all

lemma keep_bool_result [keep]: "keepP K m \<Longrightarrow> keepP K (map_option bool_result m)"
  by (auto simp: keepP_def bool_result_def)

lemma vm_runtime_error_keep [keep]: "kept K vm \<Longrightarrow> keepV K (vm_runtime_error vm s)"
  unfolding vm_runtime_error_def by (intro keep) simp_all

lemma bounded_import_dir [simp]:
  "kept K vm \<Longrightarrow> kept K (vm_push_import_dir vm d)" "kept K vm \<Longrightarrow> kept K (vm_pop_import_dir vm)"
  "kept K vm \<Longrightarrow> kept K (vm_reset_stack vm)" "kept K vm \<Longrightarrow> kept K (leave_machine vm)"
  "kept K vm \<Longrightarrow> kept K (vm_scheduler_enqueue vm co)" "kept K vm \<Longrightarrow> kept K (vm_io_future_register vm fut)"
  by (auto simp: vm_push_import_dir_def vm_pop_import_dir_def vm_reset_stack_def leave_machine_def vm_scheduler_enqueue_def
      vm_io_future_register_def kept_def bounded_def FLUX_IMPORT_DIR_MAX_def K_enqueue)

lemma bounded_push_frame [simp]:
  "kept K vm \<Longrightarrow> length (vm_frames vm) < FLUX_FRAMES_MAX \<Longrightarrow> kept K (vm\<lparr>vm_frames := vm_frames vm @ [f]\<rparr>)"
  by (simp add: kept_def bounded_def)

lemma bounded_top_frame [simp]:
  "kept K vm \<Longrightarrow> top_frame vm = Some f \<Longrightarrow> kept K (vm\<lparr>vm_frames := butlast (vm_frames vm) @ [g]\<rparr>)"
  by (auto simp: kept_def bounded_def top_frame_def split: if_splits)

lemma frame_keep [keep]:
  assumes "kept K vm"
  shows "keepP K (call_closure vm cl argc)" "keepV K (sync_ip vm ip)" "keepV K (vm_set_global vm k v)" "keepV K (cut_stack vm n)"
    "keepV K (drop_stack vm n)" "keepP K (capture_upvalue vm slot)" "keepV K (upvalue_set vm p v)"
  unfolding call_closure_def sync_ip_def vm_set_global_def cut_stack_def drop_stack_def capture_upvalue_def upvalue_set_def
  using assms by (intro keep keep_bind; simp)+

lemma close_upvalues_loop_keep [keep]: "kept K vm \<Longrightarrow> keepV K (close_upvalues_loop d uvs vm)"
proof (induction uvs arbitrary: vm)
  case (Cons p uvs)
  show ?case unfolding close_upvalues_loop.simps by (intro keep keep_bind Cons.IH; simp add: Cons.prems)
qed (simp add: keep)

lemma close_upvalues_keep [keep]: "kept K vm \<Longrightarrow> keepV K (close_upvalues vm d)"
  unfolding close_upvalues_def by (rule close_upvalues_loop_keep)

section \<open>Coroutines\<close>

lemma get_coroutine_bounded: "kept K vm \<Longrightarrow> get_coroutine (vm_heap vm) p = Some co \<Longrightarrow> length (co_frames co) \<le> FLUX_FRAMES_MAX"
  using bounded_payload [of vm p "OBJ_COROUTINE co"] by (auto simp: get_coroutine_def split: option.splits payload.splits)

lemma upd_coroutine_keep:
  assumes "kept K vm" "\<And>co. length (co_frames co) \<le> FLUX_FRAMES_MAX \<Longrightarrow> length (co_frames (f co)) \<le> FLUX_FRAMES_MAX"
  shows "keepV K (upd_coroutine vm p f)"
  unfolding upd_coroutine_def using assms by (intro keep keep_bind) (auto dest: get_coroutine_bounded)

lemma coro_keep [keep]:
  assumes "kept K vm"
  shows "keepV K (coro_save vm co)" "keepV K (coro_restore vm co)" "keepV K (upd_future vm fut g)"
proof -
  show "keepV K (coro_save vm co)"
    unfolding coro_save_def using assms by (intro upd_coroutine_keep) (simp_all add: save_context_def kept_def bounded_def Let_def)
  show "keepV K (coro_restore vm co)" "keepV K (upd_future vm fut g)"
    unfolding coro_restore_def restore_context_def upd_future_def using assms
    by (intro keep keep_bind bounded_frames; auto dest: get_coroutine_bounded)+
qed

lemma push_saved_frames [simp]: "co_frames (push_saved v co) = co_frames co"
  by (simp add: push_saved_def)

lemma load_coroutine_frames [simp]: "length (co_frames (load_coroutine cl w co)) = 1"
  by (simp add: load_coroutine_def)

lemma frames_max_pos [simp]: "Suc 0 \<le> FLUX_FRAMES_MAX"
  by (simp add: FLUX_FRAMES_MAX_def)

lemma vm_io_future_complete_keep [keep]: "kept K vm \<Longrightarrow> keepV K (vm_io_future_complete vm fut v)"
  unfolding vm_io_future_complete_def by (intro keep keep_bind upd_coroutine_keep) simp_all

lemma gather_loops_keep [keep]:
  assumes "kept K vm"
  shows "keepV K (gather_list_loop is gf l vm)" "keepV K (gather_store vm gf i v)"
proof -
  show "keepV K (gather_list_loop is gf l vm)" using assms
  proof (induction "is" arbitrary: vm)
    case (Cons i "is")
    show ?case unfolding gather_list_loop.simps by (intro keep keep_bind Cons.IH; simp add: Cons.prems)
  qed (simp add: keep)
  show "keepV K (gather_store vm gf i v)"
    unfolding gather_store_def using assms by (intro keep keep_bind; simp)
qed

lemma gather_items_keep [keep]: "kept K vm \<Longrightarrow> keepP K (gather_items items gf n vm)"
proof (induction items arbitrary: n vm)
  case (Cons x items)
  obtain i v where "x = (i, v)" by (cases x)
  then show ?case by (simp only: gather_items.simps) (intro keep keep_bind upd_coroutine_keep Cons.IH; simp add: Cons.prems)
qed (simp add: keep)

lemma gather_keep [keep]:
  assumes "kept K vm"
  shows "keepV K (gather_finish vm gf)" "keepP K (vm_gather_create vm items)" "keepV K (coroutine_wake vm co v)"
    "keepV K (coroutine_gather vm co v)" "keepV K (coroutine_finish vm co)" "keepV K (spawn_window vm cl argc)"
    "keepP K (spawn_async_closure vm cl argc)"
proof -
  have finish: "keepV K (gather_finish vm gf)" if "kept K vm" for vm gf
    unfolding gather_finish_def using that by (intro keep keep_bind; simp)
  show "keepV K (gather_finish vm gf)" using assms by (rule finish)
  show "keepP K (vm_gather_create vm items)"
    unfolding vm_gather_create_def Let_def using assms by (intro keep keep_bind finish; simp)
  have wake: "keepV K (coroutine_wake vm co v)" "keepV K (coroutine_gather vm co v)" if "kept K vm" for vm co v
    unfolding coroutine_wake_def coroutine_gather_def using that by (intro keep keep_bind upd_coroutine_keep finish; simp)+
  show "keepV K (coroutine_wake vm co v)" "keepV K (coroutine_gather vm co v)" using assms by (rule wake)+
  show "keepV K (coroutine_finish vm co)"
    unfolding coroutine_finish_def using assms by (intro keep keep_bind upd_coroutine_keep wake; simp)
  have window: "keepV K (spawn_window vm cl argc)" if "kept K vm" for vm
    unfolding spawn_window_def Let_def using that by (intro keep keep_bind upd_coroutine_keep; simp)
  show "keepV K (spawn_window vm cl argc)" using assms by (rule window)
  show "keepP K (spawn_async_closure vm cl argc)"
    unfolding spawn_async_closure_def using assms by (intro keep keep_bind window; simp)
qed

section \<open>Calls out of the machine\<close>

lemma ctx_keep [keep]:
  assumes "ctx_keeps K c" "kept K vm"
  shows "keepP K (c_run c vm base preserve)" "keepP K (env_native (c_env c) (c_invoke c) fn argc vm)"
    "keepP K (env_invoke_builtin (c_env c) (c_invoke c) v name argc vm)" "keepP K (env_get_builtin_attr (c_env c) v name vm)"
    "keepP K (env_uv_run (c_env c) vm)" "keepP K (env_compile (c_env c) path buf vm)" "keepP K (env_load_extension (c_env c) s vm)"
  using assms by (simp_all add: ctx_keeps_def env_keeps_def)

section \<open>Calls\<close>

lemma call_error_keep [keep]: "kept K vm \<Longrightarrow> keepP K (call_error vm parts)" "kept K vm \<Longrightarrow> keepP K (import_error vm parts)"
  unfolding call_error_def import_error_def by (intro keep; simp)+

lemma call_kinds_keep [keep]:
  assumes "ctx_keeps K c" "kept K vm"
  shows "keepP K (call_native c vm p argc)" "keepP K (call_generator c vm cl fn argc)" "keepP K (call_class vm k argc)"
    "keepP K (not_callable vm)" "keepP K (call_instance vm p argc)"
  unfolding call_native_def call_generator_def call_class_def not_callable_def call_instance_def Let_def
  using assms by (intro keep keep_bind; simp)+

lemma vm_call_value_keep [keep]: "ctx_keeps K c \<Longrightarrow> kept K vm \<Longrightarrow> keepP K (vm_call_value c vm callee argc)"
  unfolding vm_call_value_def not_callable_def by (intro keep keep_bind; simp)

text \<open>A step of the scheduler: what it does with the queue behind the coroutine it takes.\<close>

lemma run_step_queue:
  assumes "\<And>vm base preserve. kept K vm \<Longrightarrow> keepP K (run vm base preserve)" "bounded vm" "vm_ready_queue vm = co # q" "K q"
  shows "keepP K (vm_scheduler_run_step run vm)"
  unfolding vm_scheduler_run_step_def vm_scheduler_dequeue_def Let_def assms(3) list.case prod.case option.case
  by (intro keep keep_bind upd_coroutine_keep assms(1) bounded_frames;
      use assms(2,4) in \<open>auto simp: kept_def bounded_def\<close>)

lemma run_step_keep [keep]:
  assumes "\<And>vm base preserve. kept K vm \<Longrightarrow> keepP K (run vm base preserve)" "kept K vm"
  shows "keepP K (vm_scheduler_run_step run vm)"
proof (cases "vm_ready_queue vm")
  case (Cons co q)
  with assms(2) have "bounded vm" "K q" by (auto simp: kept_def intro: K_dequeue)
  with assms(1) Cons show ?thesis by (intro run_step_queue)
qed (use assms(2) in \<open>simp add: vm_scheduler_run_step_def vm_scheduler_dequeue_def keep\<close>)

lemma drive_scheduler_keep [keep]: "ctx_keeps K c \<Longrightarrow> kept K vm \<Longrightarrow> keepP K (drive_scheduler n c finished vm)"
proof (induction n arbitrary: vm)
  case (Suc n)
  show ?case unfolding drive_scheduler.simps by (intro keep keep_bind Suc.IH; simp add: Suc.prems)
qed (simp add: keep)

lemma vm_scheduler_run_keep [keep]: "ctx_keeps K c \<Longrightarrow> kept K vm \<Longrightarrow> keepP K (vm_scheduler_run n c vm)"
proof (induction n arbitrary: vm)
  case (Suc n)
  show ?case unfolding vm_scheduler_run.simps by (intro keep keep_bind Suc.IH; simp add: Suc.prems)
qed (simp add: keep)

lemma vm_push_all_bounded [simp]: "kept K (vm_push_all vm args) = kept K vm"
  unfolding vm_push_all_def by (induction args arbitrary: vm) simp_all

lemma vm_invoke_keep [keep]: "ctx_keeps K c \<Longrightarrow> kept K vm \<Longrightarrow> keepP K (vm_invoke c vm callee args)"
  unfolding vm_invoke_def Let_def by (intro keep keep_bind; simp)

section \<open>Imports\<close>

lemma copy_entries_loop_keep [keep]: "kept K vm \<Longrightarrow> keepV K (copy_entries_loop n src dst pick i vm)"
proof (induction n arbitrary: i vm)
  case (Suc n)
  show ?case unfolding copy_entries_loop.simps by (intro keep keep_bind Suc.IH; simp add: Suc.prems)
qed (simp add: keep)

lemma copy_entries_keep [keep]: "kept K vm \<Longrightarrow> keepV K (copy_entries src dst pick vm)"
  unfolding copy_entries_def by (intro keep keep_bind)

lemma keep_compiled [keep]:
  "keepP K a \<Longrightarrow> keepP K b \<Longrightarrow> (\<And>fn. keepP K (f fn)) \<Longrightarrow> keepP K (case_compiled a b f z)"
  by (cases z) simp_all

lemma import_keep [keep]:
  assumes "ctx_keeps K c" "kept K vm"
  shows "keepP K (import_extension c vm m name)" "keepP K (import_run c vm resolved key fn)" "keepP K (import_load c vm resolved name key)"
    "keepP K (do_import c vm p)"
proof -
  have ext: "keepP K (import_extension c vm m name)" and run: "keepP K (import_run c vm resolved key fn)"
    if "kept K vm" for vm resolved name key fn m
    unfolding import_extension_def import_run_def Let_def using that assms(1) by (intro keep keep_bind; simp)+
  have load: "keepP K (import_load c vm resolved name key)" if "kept K vm" for vm resolved name key
    unfolding import_load_def Let_def using that assms(1) by (intro keep keep_bind run; simp)
  show "keepP K (do_import c vm p)"
    unfolding do_import_def using assms by (intro keep keep_bind ext load; simp)
  show "keepP K (import_extension c vm m name)" "keepP K (import_run c vm resolved key fn)" "keepP K (import_load c vm resolved name key)"
    using assms by (auto intro: ext run load)
qed

end

end
