(* ===== verification/BoundsStep.thy ===== *)
theory BoundsStep
  imports BoundsOps
begin

text \<open>
  The bounds and the law of the queue through every instruction, the handler search and the loop; the bounds of
  every reachable machine.
\<close>

context queue_law
begin

section \<open>Leaving a case\<close>

lemma throw_keep [keep]: "kept K vm \<Longrightarrow> keepO K (throw vm ip parts)"
  unfolding throw_def by (intro keep; simp)

lemma handle_nested_error_keep [keep]:
  "kept K vm \<Longrightarrow> (\<And>vm. kept K vm \<Longrightarrow> keepO K (f vm)) \<Longrightarrow> keepO K (handle_nested_error vm ip f)"
  unfolding handle_nested_error_def by (intro keep; simp)

lemma leave_keep [keep]:
  assumes "kept K vm"
  shows "keepO K (push_continue vm ip v)" "keepO K (load_frame vm)" "keepO K (after_call (r, vm) ip)" "keepO K (after_closure (ok, vm) ip)"
  unfolding push_continue_def load_frame_def after_call_def after_closure_def prod.case
  using assms by (intro keep keep_bind; simp)+

section \<open>Literals, variables, attributes\<close>

lemma op_literal_keep [keep]:
  assumes "kept K vm"
  shows "keepO K (op_push_null vm ip)" "keepO K (op_push_bool vm ip)" "keepO K (op_push_int vm ip)" "keepO K (op_push_float vm ip)"
    "keepO K (op_push_const vm ip)" "keepO K (op_pop vm ip)" "keepO K (op_dup vm ip)"
  unfolding op_push_null_def op_push_bool_def op_push_int_def op_push_float_def op_push_const_def op_pop_def op_dup_def
  using assms by (intro keep keep_bind; simp)+

lemma op_variable_keep [keep]:
  assumes "kept K vm"
  shows "keepO K (op_load_local vm ip)" "keepO K (op_store_local vm ip)" "keepO K (op_load_global vm ip)" "keepO K (op_store_global vm ip)"
    "keepO K (op_define_global vm ip)" "keepO K (op_get_upvalue vm ip)" "keepO K (op_set_upvalue vm ip)" "keepO K (op_close_upvalue vm ip)"
  unfolding op_load_local_def op_store_local_def op_load_global_def op_store_global_def op_define_global_def op_get_upvalue_def
    op_set_upvalue_def op_close_upvalue_def
  using assms by (intro keep keep_bind; simp)+

lemma op_attr_keep [keep]:
  assumes "ctx_keeps K c" "kept K vm"
  shows "keepO K (builtin_attr c vm ip v p)" "keepO K (get_attr_instance vm ip p q)" "keepO K (op_get_attr c vm ip)" "keepO K (op_set_attr vm ip)"
  unfolding op_get_attr_def builtin_attr_def get_attr_instance_def op_set_attr_def Let_def
  using assms by (intro keep keep_bind; simp)+

lemma op_index_keep [keep]:
  assumes "ctx_keeps K c" "kept K vm"
  shows "keepO K (op_get_index vm ip)" "keepO K (op_set_index c vm ip)"
  unfolding op_get_index_def get_index_list_def get_index_string_def get_index_instance_def op_set_index_def set_index_list_def
    set_index_instance_def Let_def
  using assms by (intro keep keep_bind; simp)+

lemma op_slice_keep [keep]:
  assumes "kept K vm"
  shows "keepO K (op_slice vm ip)" "keepO K (op_get_iter vm ip)"
  unfolding op_slice_def op_slice_string_def op_slice_list_def op_get_iter_def Let_def
  using assms by (intro keep keep_bind; simp)+

section \<open>Operators\<close>

lemma append_elements_keep [keep]: "kept K vm \<Longrightarrow> keepV K (append_elements is d vm)"
proof (induction "is" arbitrary: vm)
  case (Cons i "is")
  show ?case unfolding append_elements.simps by (intro keep keep_bind Cons.IH; simp add: Cons.prems)
qed (simp add: keep)

lemma op_add_keep [keep]: "kept K vm \<Longrightarrow> keepO K (op_add vm ip)"
  unfolding op_add_def op_add_lists_def value_add_def by (intro keep keep_bind; simp)

lemma keep_op_error [keep]: "keepO K a \<Longrightarrow> keepO K b \<Longrightarrow> keepO K (case_op_error a b z)"
  by (cases z) simp_all

lemma operator_keep [keep]:
  assumes "kept K vm"
  shows "keepO K (binary_op f err vm ip)" "keepO K (unary_op g err vm ip)" "keepO K (op_compare dop iop vm ip)"
    "keepO K (division_op h zero err vm ip)" "keepO K (jump_to vm t)" "keepO K (jump_when b vm ip)"
  unfolding binary_op_def unary_op_def op_compare_def division_op_def jump_to_def jump_when_def
  using assms by (intro keep keep_bind; simp)+

lemma op_arith_keep [keep]:
  assumes "kept K vm"
  shows "keepO K (op_sub vm ip)" "keepO K (op_mul vm ip)" "keepO K (op_div vm ip)" "keepO K (op_mod vm ip)" "keepO K (op_pow c vm ip)"
    "keepO K (op_floor_div vm ip)" "keepO K (op_negate vm ip)" "keepO K (op_bit_and vm ip)" "keepO K (op_bit_or vm ip)"
    "keepO K (op_bit_xor vm ip)" "keepO K (op_bit_not vm ip)" "keepO K (op_shl vm ip)" "keepO K (op_shr vm ip)" "keepO K (op_lt vm ip)"
    "keepO K (op_lte vm ip)" "keepO K (op_gt vm ip)" "keepO K (op_gte vm ip)"
  unfolding op_sub_def op_mul_def op_div_def op_mod_def op_pow_def op_floor_div_def op_negate_def op_bit_and_def op_bit_or_def
    op_bit_xor_def op_bit_not_def op_shl_def op_shr_def op_lt_def op_lte_def op_gt_def op_gte_def
  by (intro keep; fact assms)+

lemma op_logic_keep [keep]:
  assumes "ctx_keeps K c" "kept K vm"
  shows "keepO K (op_eq c vm ip)" "keepO K (op_neq c vm ip)" "keepO K (op_not vm ip)" "keepO K (op_and vm ip)" "keepO K (op_or vm ip)"
    "keepO K (op_jump vm ip)" "keepO K (op_jump_if_false vm ip)" "keepO K (op_loop vm ip)"
  unfolding op_eq_def op_neq_def op_equality_def op_not_def op_and_def op_or_def op_jump_def op_jump_if_false_def op_loop_def Let_def
  using assms by (intro keep keep_bind; simp)+

section \<open>Collections, functions, classes\<close>

lemma fill_keep [keep]: "kept K vm \<Longrightarrow> keepV K (fill_list is l vm)" "kept K vm \<Longrightarrow> keepP K (fill_dict is l vm)"
proof -
  show "kept K vm \<Longrightarrow> keepV K (fill_list is l vm)"
  proof (induction "is" arbitrary: vm)
    case (Cons i "is")
    show ?case unfolding fill_list.simps by (intro keep keep_bind Cons.IH; simp add: Cons.prems)
  qed (simp add: keep)
  show "kept K vm \<Longrightarrow> keepP K (fill_dict is l vm)"
  proof (induction "is" arbitrary: vm)
    case (Cons i "is")
    show ?case unfolding fill_dict.simps by (intro keep keep_bind Cons.IH; simp add: Cons.prems)
  qed (simp add: keep)
qed

lemma op_create_keep [keep]: "kept K vm \<Longrightarrow> keepO K (op_create_list vm ip)" "kept K vm \<Longrightarrow> keepO K (op_create_dict vm ip)"
  unfolding op_create_list_def op_create_dict_def by (intro keep keep_bind; simp)+

lemma op_call_keep [keep]:
  assumes "ctx_keeps K c" "kept K vm"
  shows "keepO K (op_call c vm ip)" "keepO K (op_return base preserve vm ip)"
  unfolding op_call_def op_return_def using assms by (intro keep keep_bind; simp)+

lemma capture_loop_bounded: "capture_loop is cl ip vm = Some (vm', ip') \<Longrightarrow> kept K vm \<Longrightarrow> kept K vm'"
proof (induction "is" arbitrary: ip vm)
  case (Cons i "is")
  let ?uv = "\<lambda>is_local uv_idx. if is_local \<noteq> 0 then do {
       slots \<leftarrow> frame_slots vm; (p, vm) \<leftarrow> capture_upvalue vm (slots + uv_idx); Some (Some p, vm) }
     else do { f \<leftarrow> top_frame vm; fc \<leftarrow> get_closure (vm_heap vm) (fr_closure f); u \<leftarrow> nth_opt (cl_upvalues fc) uv_idx; Some (u, vm) }"
  have "keepP K (?uv m n)" for m n :: nat using Cons.prems(2) by (intro keep keep_bind; simp)
  then obtain vm1 vm2 k uv c ip2 where "kept K vm1" and put: "vm_hput vm1 cl (OBJ_CLOSURE (c\<lparr>cl_upvalues := (cl_upvalues c)[i := uv]\<rparr>)) = Some vm2"
    and rest: "capture_loop is cl ip2 vm2 = Some (vm', ip')"
    using Cons.prems(1) by (simp add: bind_Some_iff keepP_def) metis
  have "keepV K (vm_hput vm1 cl (OBJ_CLOSURE (c\<lparr>cl_upvalues := (cl_upvalues c)[i := uv]\<rparr>)))" using \<open>kept K vm1\<close> by (intro keep) (simp_all add: small_payload_def)
  then have "kept K vm2" using put by (simp add: keepV_def)
  with rest show ?case by (rule Cons.IH)
qed simp

lemma op_closure_keep [keep]: "kept K vm \<Longrightarrow> keepO K (op_closure vm ip)"
  unfolding op_closure_def by (intro keep keep_bind) (auto dest: capture_loop_bounded)

lemma op_class_keep [keep]:
  assumes "kept K vm"
  shows "keepO K (op_class vm ip)" "keepO K (op_method vm ip)" "keepO K (op_inherit vm ip)" "keepO K (mark_class f err vm ip)"
    "keepO K (op_isinstance vm ip)" "keepO K (op_get_super vm ip)"
  unfolding op_class_def op_method_def op_inherit_def mark_class_def op_isinstance_def op_get_super_def
  using assms by (intro keep keep_bind; simp)+

lemma op_invoke_keep [keep]:
  assumes "ctx_keeps K c" "kept K vm"
  shows "keepO K (op_mark_struct vm ip)" "keepO K (op_mark_enum vm ip)" "keepO K (op_invoke c vm ip)"
  unfolding op_mark_struct_def op_mark_enum_def op_invoke_def invoke_builtin_def invoke_instance_def
  using assms by (intro keep keep_bind; simp)+

section \<open>Coroutines and exceptions\<close>

lemma op_task_keep [keep]:
  assumes "ctx_keeps K c" "kept K vm"
  shows "keepO K (op_create_task vm ip)" "keepO K (op_spawn_call vm ip)" "keepO K (op_raise vm ip)" "keepO K (op_pop_exception_handler vm ip)"
    "keepO K (op_import c vm ip)" "keepO K (op_import_star vm ip)"
  unfolding op_create_task_def op_spawn_call_def op_raise_def op_pop_exception_handler_def op_import_def op_import_star_def
  using assms by (intro keep keep_bind upd_coroutine_keep; simp)+

lemma suspend_current_keep [keep]:
  assumes "kept K vm" "\<And>co. co_frames (f co) = co_frames co"
  shows "keepV K (suspend_current vm ip co f)"
  unfolding suspend_current_def using assms by (intro keep upd_coroutine_keep; simp)

lemma keep_bool_case: "keepO K a \<Longrightarrow> keepO K b \<Longrightarrow> keepO K (case_bool a b z)"
  by (cases z) simp_all

lemma op_yield_keep [keep]: "kept K vm \<Longrightarrow> keepO K (op_yield base vm ip)"
  unfolding op_yield_def by (intro keep keep_bind keep_bool_case; simp)

lemma op_await_keep [keep]: "ctx_keeps K c \<Longrightarrow> kept K vm \<Longrightarrow> keepO K (op_await c vm ip)"
  unfolding op_await_def await_future_def await_coroutine_def await_closure_def await_instance_def
  by (intro keep keep_bind upd_coroutine_keep; simp)

lemma op_push_exception_handler_keep [keep]: "kept K vm \<Longrightarrow> keepO K (op_push_exception_handler base vm ip)"
  unfolding op_push_exception_handler_def by (intro keep keep_bind; simp add: kept_def bounded_def)

lemma unwind_frames_keep [keep]: "kept K vm \<Longrightarrow> keepV K (unwind_frames n vm)"
proof (induction n arbitrary: vm)
  case (Suc n)
  show ?case unfolding unwind_frames.simps by (intro keep keep_bind Suc.IH; simp add: Suc.prems)
qed (simp add: keep)

lemma find_handler_shorter: "length (snd (find_handler base hs)) \<le> length hs"
  by (induction hs) auto

lemma activate_handler_keep [keep]: "kept K vm \<Longrightarrow> keepO K (activate_handler h vm)" "kept K vm \<Longrightarrow> keepV K (report_exception vm)"
  unfolding activate_handler_def report_exception_def by (intro keep keep_bind; simp)+

lemma flux_handle_exception_keep [keep]:
  assumes "kept K vm"
  shows "keepO K (flux_handle_exception base vm ip)"
proof -
  obtain h hs where f: "find_handler base (vm_exception_handlers vm) = (h, hs)" by (cases "find_handler base (vm_exception_handlers vm)")
  then have "kept K (vm\<lparr>vm_exception_handlers := hs\<rparr>)"
    using assms find_handler_shorter [of base "vm_exception_handlers vm"] by (simp add: bounded_handlers kept_def bounded_def)
  then show ?thesis
    unfolding flux_handle_exception_def f Let_def prod.case by (intro keep keep_bind; simp)
qed

section \<open>The loop\<close>

lemma dispatch_keep [keep]: "ctx_keeps K c \<Longrightarrow> kept K vm \<Longrightarrow> keepO K (dispatch op c base preserve vm ip)"
  by (cases op; simp only: dispatch_def opcode.case; intro keep; simp)

lemma vm_step_keep [keep]: "ctx_keeps K c \<Longrightarrow> kept K vm \<Longrightarrow> keepO K (vm_step c base preserve vm ip)"
  unfolding vm_step_def by (intro keep keep_bind; simp)

lemma loop_keep:
  assumes "env_keeps K env"
  shows "(\<forall>base preserve vm ip. kept K vm \<longrightarrow> keepP K (vm_loop n env base preserve vm ip)) \<and> keep_invoker K (vm_invoke_rec n env)"
proof (induction n)
  case 0
  then show ?case by (simp add: vm_loop.simps vm_invoke_rec.simps keep_invoker_def keep)
next
  case (Suc n)
  have c: "ctx_keeps K (run_ctx n env)"
    unfolding ctx_keeps_def run_ctx_def vm_run_def using Suc.IH assms by (auto intro: keep_bind)
  have "keepP K (vm_loop (Suc n) env base preserve vm ip)" if "kept K vm" for base preserve vm ip
    using vm_step_keep [OF c that, of base preserve ip] Suc.IH
    by (auto simp: vm_loop_Suc keep_defs split: option.splits outcome.splits)
  then show ?case using vm_invoke_keep [OF c] by (simp add: keep_invoker_def vm_invoke_rec_Suc)
qed

lemma run_ctx_bounded: "env_keeps K env \<Longrightarrow> ctx_keeps K (run_ctx n env)"
  using loop_keep [of env n] by (auto simp: ctx_keeps_def run_ctx_def vm_run_def intro: keep_bind)

lemma vm_execute_keep: "ctx_keeps K c \<Longrightarrow> kept K vm \<Longrightarrow> keepP K (vm_execute c vm fn)"
  unfolding vm_execute_def Let_def by (intro keep keep_bind; simp)

lemma reach_bounded:
  assumes "env_keeps K env" "flux_reach env base preserve c d" "kept K (fst c)"
  shows "kept K (fst d)"
proof (rule flux_reach_invariant [where P = "kept K", OF _ assms(2,3)])
  fix n vm ip vm' ip'
  assume "kept K vm" "vm_step (run_ctx n env) base preserve vm ip = Some (Continue vm' ip')"
  then show "kept K vm'" using vm_step_keep [OF run_ctx_bounded [OF assms(1)]] by (fastforce simp: keepO_def)
qed

end

section \<open>The bounds\<close>

text \<open>The native code behind the environment keeps the bounds; it reaches the arrays only through the machine's own
  operations.\<close>

definition env_bounded :: "vm_env \<Rightarrow> bool" where
  "env_bounded env \<longleftrightarrow> env_keeps (\<lambda>_. True) env"

interpretation array_bounds: queue_law "\<lambda>_. True"
  by unfold_locales simp_all

lemma kept_True [simp]: "kept (\<lambda>_. True) vm = bounded vm"
  by (simp add: kept_def)

end
