(* ===== verification/Fairness.thy ===== *)
theory Fairness
  imports SchedProps BoundsStep
begin

text \<open>
  The ready queue under the whole machine: whatever the instructions do, coroutines leave it at the front and
  enter it at the end, so the turn of each one comes.
\<close>

section \<open>The order of the queue\<close>

text \<open>The queue \<open>q\<close> has advanced: some of it has been taken from the front, and new has been put at the end.\<close>

definition advanced :: "'a list \<Rightarrow> 'a list \<Rightarrow> bool" where
  "advanced q q' \<longleftrightarrow> (\<exists>j new. q' = drop j q @ new)"

lemma advanced_append: "advanced q q' \<Longrightarrow> advanced q (q' @ new)"
  unfolding advanced_def by (metis append.assoc)

lemma advanced_tail:
  assumes "advanced q (x # q')"
  shows "advanced q q'"
proof -
  obtain j new where q: "x # q' = drop j q @ new" using assms by (auto simp: advanced_def)
  show ?thesis
  proof (cases "drop j q")
    case Nil
    then have "q' = drop j q @ tl new" using q by (cases new) simp_all
    then show ?thesis unfolding advanced_def by blast
  next
    case (Cons y ys)
    then have "q' = drop (Suc j) q @ new" using q by (metis append_Cons drop_Suc list.sel(3) tl_drop)
    then show ?thesis unfolding advanced_def by blast
  qed
qed

lemma advanced_refl [simp]: "advanced q q"
  unfolding advanced_def by (metis append_Nil2 drop0)

interpretation ready_order: queue_law "advanced q" for q :: "ptr list"
  by unfold_locales (auto intro: advanced_append advanced_tail)

text \<open>The native code neither empties the ready queue nor inserts in it: it enqueues and, when it drives the scheduler,
  dequeues.\<close>

definition env_fair :: "vm_env \<Rightarrow> bool" where
  "env_fair env \<longleftrightarrow> (\<forall>q. env_keeps (advanced q) env)"

lemma vm_run_queue:
  assumes "env_fair env" "bounded vm" "vm_ready_queue vm = co # q" "vm_scheduler_run_step (vm_run n env) vm = Some (r, vm')"
  shows "bounded vm'" "advanced q (vm_ready_queue vm')"
proof -
  have "ctx_keeps (advanced q) (run_ctx n env)" using assms(1) by (intro ready_order.run_ctx_bounded) (simp add: env_fair_def)
  then have run: "keepP (advanced q) (vm_run n env vm base preserve)" if "kept (advanced q) vm" for vm base preserve
    using that by (simp add: ctx_keeps_def run_ctx_def)
  have "keepP (advanced q) (vm_scheduler_run_step (vm_run n env) vm)"
    by (rule ready_order.run_step_queue [OF run assms(2,3)]) simp_all
  then show "bounded vm'" "advanced q (vm_ready_queue vm')" using assms(4) by (simp_all add: keepP_def kept_def)
qed

section \<open>Turns\<close>

text \<open>Steps of the scheduler, one after the other.\<close>

primrec scheduler_steps :: "runner \<Rightarrow> nat \<Rightarrow> flux_vm \<Rightarrow> flux_vm option" where
  "scheduler_steps run 0 vm = Some vm"
| "scheduler_steps run (Suc k) vm = do { (_, vm) \<leftarrow> vm_scheduler_run_step run vm; scheduler_steps run k vm }"

text \<open>The coroutine at the front is the one whose context the loop runs.\<close>

lemma run_step_resumes:
  assumes "vm_scheduler_run_step run vm = Some (r, vm')" "vm_ready_queue vm = co # q"
    "get_coroutine (vm_heap vm) co = Some c" "co_state c \<noteq> CORO_DEAD" "co_state c \<noteq> CORO_RUNNING"
  shows "\<exists>vm1. vm_stack vm1 = co_stack c \<and> vm_frames vm1 = vm_frames (restore_context c vm) \<and> vm_ready_queue vm1 = q \<and>
    vm_current_coroutine vm1 = Some co \<and> map_option co_state (get_coroutine (vm_heap vm1) co) = Some CORO_RUNNING \<and>
    run vm1 0 True \<noteq> None"
proof -
  let ?vm = "(restore_context c (vm\<lparr>vm_ready_queue := q\<rparr>))\<lparr>vm_current_coroutine := Some co\<rparr>"
  obtain h where h: "hput (vm_heap vm) co (OBJ_COROUTINE (c\<lparr>co_state := CORO_RUNNING\<rparr>)) = Some h"
    using get_put_coroutine [OF assms(3)] by blast
  have "upd_coroutine ?vm co (\<lambda>c. c\<lparr>co_state := CORO_RUNNING\<rparr>) = Some (?vm\<lparr>vm_heap := h\<rparr>)"
    using assms(3) h by (simp add: upd_coroutine_def vm_hput_def restore_context_def)
  then have "run (?vm\<lparr>vm_heap := h\<rparr>) 0 True \<noteq> None"
    using assms by (auto simp: vm_scheduler_run_step_def vm_scheduler_dequeue_def coro_restore_def Let_def bind_Some_iff)
  moreover have "get_coroutine h co = Some (c\<lparr>co_state := CORO_RUNNING\<rparr>)" by (rule get_coroutine_hput [OF h])
  ultimately show ?thesis by (intro exI [of _ "?vm\<lparr>vm_heap := h\<rparr>"]) (simp add: restore_context_def)
qed

text \<open>With \<open>xs\<close> in front of it, a coroutine has its turn after at most as many steps.\<close>

lemma turn_comes:
  assumes "env_fair env"
  shows "bounded vm \<Longrightarrow> vm_ready_queue vm = xs @ co # ys \<Longrightarrow> length xs < m \<Longrightarrow>
    scheduler_steps (vm_run n env) m vm = Some vm' \<Longrightarrow>
    \<exists>i vm1 r vm2 zs new. i + length zs \<le> length xs \<and> scheduler_steps (vm_run n env) i vm = Some vm1 \<and>
      vm_ready_queue vm1 = zs @ co # ys @ new \<and> vm_scheduler_run_step (vm_run n env) vm1 = Some (r, vm2) \<and>
      advanced (ys @ new) (vm_ready_queue vm2)"
proof (induction m arbitrary: vm xs ys)
  case (Suc m)
  obtain r vma where step: "vm_scheduler_run_step (vm_run n env) vm = Some (r, vma)" "scheduler_steps (vm_run n env) m vma = Some vm'"
    using Suc.prems(4) by (auto simp: bind_Some_iff)
  obtain c0 q where q: "xs @ co # ys = c0 # q" "q = tl (xs @ co # ys)" by (cases xs) simp_all
  note adv = vm_run_queue [OF assms Suc.prems(1) Suc.prems(2) [unfolded q(1)] step(1)]
  then obtain j new where j: "vm_ready_queue vma = drop j (tl (xs @ co # ys)) @ new" by (auto simp: advanced_def q(2))
  show ?case
  proof (cases "j < length xs")
    case True
    then have q': "vm_ready_queue vma = drop j (tl xs) @ co # ys @ new" "length (drop j (tl xs)) < m" "length (drop j (tl xs)) < length xs"
      using j Suc.prems(3) by (cases xs; simp)+
    obtain i vm1 r vm2 zs new' where "i + length zs \<le> length (drop j (tl xs))" "scheduler_steps (vm_run n env) i vma = Some vm1"
      "vm_ready_queue vm1 = zs @ co # (ys @ new) @ new'" "vm_scheduler_run_step (vm_run n env) vm1 = Some (r, vm2)"
      "advanced ((ys @ new) @ new') (vm_ready_queue vm2)"
      using Suc.IH [OF adv(1) q'(1,2) step(2)] by blast
    then show ?thesis using step(1) q'(3)
      by (intro exI [of _ "Suc i"] exI [of _ vm1] exI [of _ r] exI [of _ vm2] exI [of _ zs] exI [of _ "new @ new'"]) simp
  next
    case False
    then have "drop j (tl (xs @ co # ys)) = drop (j - length xs) ys"
      by (cases xs) (auto simp: drop_Cons split: nat.split intro!: arg_cong2 [where f = drop])
    then have "advanced ys (vm_ready_queue vma)" using j by (auto simp: advanced_def)
    then show ?thesis using Suc.prems(2) step(1)
      by (intro exI [of _ 0] exI [of _ vm] exI [of _ r] exI [of _ vma] exI [of _ xs] exI [of _ "[]"]) simp
  qed
qed simp

end
