(* ===== verification/Machine_Properties.thy ===== *)
theory Machine_Properties
  imports Samples Fairness
begin

text \<open>
  The properties of the dispatch loop and of the scheduler as a whole: the bounds of the fixed arrays, context
  switches, the order in which coroutines run.
\<close>

section \<open>The scheduler\<close>

text \<open>C30: Whatever a coroutine does, a step of the scheduler gives its caller the value stack and the frames back.\<close>

theorem run_step_restores_caller:
  assumes "vm_scheduler_run_step run vm = Some (r, vm')"
  shows "vm_stack vm' = vm_stack vm \<and> vm_frames vm' = vm_frames vm"
  using assms by (rule run_step_caller)

text \<open>A coroutine, object 0, with nothing on its stack, ready to run.\<close>

definition sample_ready :: flux_vm where
  "sample_ready = vm_zero\<lparr>vm_ready_queue := [0], vm_stack := [VAL_INT 3],
     vm_heap := [Some \<lparr>marked = False, payload = OBJ_COROUTINE \<lparr>co_state = CORO_SUSPENDED, co_closure = 1, co_stack = [VAL_INT 8],
          co_stack_capacity = 64, co_frames = [\<lparr>fr_closure = 1, fr_ip = 5, fr_slots = 0\<rparr>], co_frame_capacity = 8,
          co_slot_offsets = [0], co_result = VAL_NULL, co_awaited_by = None,
          co_pending_future = None, co_gather_future = None, co_gather_slot = 0\<rparr>\<rparr>]\<rparr>"

theorem run_step_restores_caller_witness:
  "\<exists>r vm'. vm_scheduler_run_step (\<lambda>vm _ _. Some (VM_OK, vm)) sample_ready = Some (r, vm') \<and> vm_stack vm' = [VAL_INT 3]"
proof -
  have "vm_scheduler_run_step (\<lambda>vm _ _. Some (VM_OK, vm)) sample_ready \<noteq> None" by code_simp
  then obtain r vm' where run: "vm_scheduler_run_step (\<lambda>vm _ _. Some (VM_OK, vm)) sample_ready = Some (r, vm')" by auto
  then show ?thesis using run_step_restores_caller [OF run] by (auto simp: sample_ready_def)
qed

text \<open>C31: Awaiting an unresolved future leaves the machine to the scheduler; when the future completes the
  coroutine joins the ready queue, and when it is restored it has its stack and its frames back, with the result of the
  future in place of the future, behind the await instruction.\<close>

theorem await_resumes:
  assumes "vm_stack vm = st @ [VAL_OBJECT fut]" "vm_frames vm = fs @ [fr]"
    and "get_future (vm_heap vm) fut = Some f" "\<not> fut_resolved f"
    and "vm_current_coroutine vm = Some co" "get_coroutine (vm_heap vm) co = Some c0"
    and "upvalues_ok (vm\<lparr>vm_stack := st\<rparr>)"
  shows "\<exists>vm1 vm2 vm3. op_await c vm ip = Some (Return VM_YIELD vm1) \<and> vm_stack vm1 = [] \<and> vm_frames vm1 = [] \<and>
    vm_io_future_complete vm1 fut v = Some vm2 \<and> vm_ready_queue vm2 = vm_ready_queue vm @ [co] \<and>
    map_option co_state (get_coroutine (vm_heap vm2) co) = Some CORO_SUSPENDED \<and>
    coro_restore vm2 co = Some vm3 \<and> vm_stack vm3 = st @ [v] \<and> vm_frames vm3 = fs @ [fr\<lparr>fr_ip := ip\<rparr>]"
  using assms by (rule await_future_resume)

definition sample_await :: flux_vm where
  "sample_await = sample_ready\<lparr>vm_stack := [VAL_INT 8, VAL_OBJECT 1], vm_frames := [\<lparr>fr_closure = 1, fr_ip = 5, fr_slots = 0\<rparr>],
     vm_heap := vm_heap sample_ready @ [Some \<lparr>marked = False, payload = OBJ_FUTURE \<lparr>fut_resolved = False, fut_result = VAL_NULL,
       fut_waiting = None, fut_gather_results = None, fut_gather_count = 0, fut_gather_remaining = 0\<rparr>\<rparr>],
     vm_current_coroutine := Some 0, vm_ready_queue := []\<rparr>"

theorem await_resumes_witness:
  "\<forall>c. \<exists>vm1 vm2 vm3. op_await c sample_await 6 = Some (Return VM_YIELD vm1) \<and> vm_io_future_complete vm1 1 (VAL_INT 42) = Some vm2 \<and>
    coro_restore vm2 0 = Some vm3 \<and> vm_stack vm3 = [VAL_INT 8, VAL_INT 42]"
proof
  fix c
  have vm: "vm_stack sample_await = [VAL_INT 8] @ [VAL_OBJECT 1]" "vm_frames sample_await = [] @ [\<lparr>fr_closure = 1, fr_ip = 5, fr_slots = 0\<rparr>]"
    "vm_current_coroutine sample_await = Some 0" "upvalues_ok (sample_await\<lparr>vm_stack := [VAL_INT 8]\<rparr>)"
    by (simp_all add: sample_await_def sample_ready_def upvalues_ok_def vm_zero_def)
  obtain f where f: "get_future (vm_heap sample_await) 1 = Some f" "\<not> fut_resolved f"
    by (simp add: sample_await_def sample_ready_def get_future_def hpayload_def hget_def)
  obtain c0 where c0: "get_coroutine (vm_heap sample_await) 0 = Some c0"
    by (simp add: sample_await_def sample_ready_def get_coroutine_def hpayload_def hget_def)
  from await_resumes [OF vm(1,2) f vm(3) c0 vm(4), of c 6 "VAL_INT 42"]
  show "\<exists>vm1 vm2 vm3. op_await c sample_await 6 = Some (Return VM_YIELD vm1) \<and>
    vm_io_future_complete vm1 1 (VAL_INT 42) = Some vm2 \<and> coro_restore vm2 0 = Some vm3 \<and> vm_stack vm3 = [VAL_INT 8, VAL_INT 42]"
    by auto
qed

section \<open>The dispatch loop\<close>

text \<open>A function that returns null, called by nobody.\<close>

definition sample_code :: "byte list" where
  "sample_code = [opcode_byte OP_PUSH_NULL, opcode_byte OP_RETURN]"

definition sample_run :: flux_vm where
  "sample_run = vm_zero\<lparr>vm_stack := [VAL_OBJECT 1], vm_frames := [\<lparr>fr_closure = 1, fr_ip = 0, fr_slots = 0\<rparr>],
     vm_heap := [Some \<lparr>marked = False, payload = OBJ_FUNCTION \<lparr>fn_arity = 0, fn_upvalue_count = 0, fn_chunk = chunk_init\<lparr>ch_code := sample_code\<rparr>,
                    fn_name = None, fn_source_file = None, fn_is_async = False, fn_is_generator = False\<rparr>\<rparr>,
                 Some \<lparr>marked = False, payload = OBJ_CLOSURE \<lparr>cl_function = 0, cl_upvalues = []\<rparr>\<rparr>]\<rparr>"

definition sample_env :: vm_env where
  "sample_env = \<lparr>env_native = (\<lambda>_ _ _ vm. Some (VAL_NULL, vm)), env_invoke_builtin = (\<lambda>_ _ _ _ vm. Some (False, vm)),
    env_get_builtin_attr = (\<lambda>_ _ vm. Some (None, vm)), env_uv_run = (\<lambda>vm. Some (0, vm)), env_pow = (\<lambda>x _. x),
    env_file_exists = (\<lambda>_. False), env_read_file = (\<lambda>_. None), env_compile = (\<lambda>_ _ vm. Some (Parse_Failed, vm)),
    env_load_extension = (\<lambda>_ vm. Some (None, vm))\<rparr>"

lemma sample_env_ok: "env_bounded sample_env" "env_fair sample_env"
  by (simp_all add: env_bounded_def env_fair_def env_keeps_def sample_env_def keepP_def)

lemma sample_run_steps:
  "vm_step c 0 True sample_run 0 = Some (Continue (sample_run\<lparr>vm_stack := [VAL_OBJECT 1, VAL_NULL]\<rparr>) 1)"
  "vm_step c 0 True (sample_run\<lparr>vm_stack := [VAL_OBJECT 1, VAL_NULL]\<rparr>) 1 =
     Some (Return VM_OK (sample_run\<lparr>vm_stack := [VAL_NULL], vm_frames := []\<rparr>))"
  by (simp_all add: vm_step_def frame_code_def top_frame_def frame_function_def get_closure_def get_function_def hpayload_def hget_def
      sample_run_def read_byte_def nth_opt_def sample_code_def dispatch_def op_push_null_def push_continue_def vm_push_def
      op_return_def vm_pop_def frame_slots_def close_upvalues_def cut_stack_def vm_zero_def FLUX_STACK_MAX_def)

text \<open>C32: No execution overflows the fixed arrays of the machine: in every configuration reachable from a machine
  within the bounds, frames, exception handlers, import directories and the saved frames of coroutines are within
  \<open>FLUX_FRAMES_MAX\<close>, \<open>FLUX_EXCEPTION_HANDLER_MAX\<close> and \<open>FLUX_IMPORT_DIR_MAX\<close>.\<close>

theorem arrays_never_overflow:
  assumes "env_bounded env" "bounded vm" "flux_reach env base preserve (vm, ip) (vm', ip')"
  shows "length (vm_frames vm') \<le> FLUX_FRAMES_MAX \<and> length (vm_exception_handlers vm') \<le> FLUX_EXCEPTION_HANDLER_MAX \<and>
    length (vm_import_dirs vm') \<le> FLUX_IMPORT_DIR_MAX \<and>
    (\<forall>p co. get_coroutine (vm_heap vm') p = Some co \<longrightarrow> length (co_frames co) \<le> FLUX_FRAMES_MAX)"
  using array_bounds.reach_bounded [OF assms(1) [unfolded env_bounded_def] assms(3)] assms(2)
    array_bounds.get_coroutine_bounded [of vm'] by (auto simp: bounded_def)

theorem arrays_never_overflow_witness:
  "length (vm_frames (sample_run\<lparr>vm_stack := [VAL_OBJECT 1, VAL_NULL]\<rparr>)) \<le> FLUX_FRAMES_MAX"
proof -
  have "bounded sample_run"
    by (auto simp: bounded_def sample_run_def coroutines_bounded_def hpayload_def hget_def vm_zero_def less_Suc_eq FLUX_FRAMES_MAX_def nth_Cons')
  moreover have "flux_reach sample_env 0 True (sample_run, 0) (sample_run\<lparr>vm_stack := [VAL_OBJECT 1, VAL_NULL]\<rparr>, 1)"
    by (rule flux_reach.step [OF flux_step.continue [OF sample_run_steps(1)] flux_reach.refl])
  ultimately show ?thesis using arrays_never_overflow [OF sample_env_ok(1)] by blast
qed

section \<open>Turns\<close>





end
