(* ===== verification/Tokens.thy ===== *)
theory Tokens
  imports Prelude
begin

text \<open>
  Token kinds and tokens (\<^verbatim>\<open>include/flux/lexer.h\<close>), the keyword table and the names of
  \<^verbatim>\<open>src/lexer/lexer.c\<close>.
\<close>

section \<open>Kinds\<close>

datatype (plugins only:) token_kind =
    TOK_INT | TOK_FLOAT | TOK_STRING | TOK_FSTRING | TOK_TRUE | TOK_FALSE | TOK_NULL | TOK_IDENT |
    TOK_FUNC | TOK_ASYNC | TOK_AWAIT | TOK_YIELD | TOK_RETURN | TOK_IF | TOK_ELIF | TOK_ELSE |
    TOK_WHILE | TOK_FOR | TOK_IN | TOK_BREAK | TOK_CONTINUE | TOK_PASS | TOK_CLASS | TOK_SELF |
    TOK_SUPER | TOK_IMPORT | TOK_FROM | TOK_AS | TOK_AND | TOK_OR | TOK_NOT | TOK_IS | TOK_LET |
    TOK_CONST | TOK_MATCH | TOK_STRUCT | TOK_ENUM | TOK_SPAWN | TOK_NONLOCAL | TOK_WITH | TOK_TRY |
    TOK_CATCH | TOK_FINALLY | TOK_RAISE | TOK_PLUS | TOK_MINUS | TOK_STAR | TOK_SLASH |
    TOK_SLASH_SLASH | TOK_PERCENT | TOK_STAR_STAR | TOK_AMPERSAND | TOK_PIPE | TOK_CARET | TOK_TILDE
    | TOK_LSHIFT | TOK_RSHIFT | TOK_PIPE_ARROW | TOK_FAT_ARROW | TOK_AT_ARROW | TOK_QUESTION |
    TOK_ASSIGN | TOK_WALRUS | TOK_PLUS_ASSIGN | TOK_MINUS_ASSIGN | TOK_STAR_ASSIGN |
    TOK_SLASH_ASSIGN | TOK_PERCENT_ASSIGN | TOK_STAR_STAR_ASSIGN | TOK_SLASH_SLASH_ASSIGN |
    TOK_AMPERSAND_ASSIGN | TOK_PIPE_ASSIGN | TOK_CARET_ASSIGN | TOK_LSHIFT_ASSIGN |
    TOK_RSHIFT_ASSIGN | TOK_EQ | TOK_NEQ | TOK_LT | TOK_LTE | TOK_GT | TOK_GTE | TOK_LPAREN |
    TOK_RPAREN | TOK_LBRACKET | TOK_RBRACKET | TOK_LBRACE | TOK_RBRACE | TOK_COMMA | TOK_DOT |
    TOK_COLON | TOK_SEMICOLON | TOK_ARROW | TOK_ELLIPSIS | TOK_NEWLINE | TOK_INDENT | TOK_DEDENT |
    TOK_STRING3 | TOK_FSTRING3 | TOK_EOF | TOK_ERROR

text \<open>The enumerators in declaration order: the position is the C value.\<close>

definition token_kinds :: "token_kind list" where
  "token_kinds =
    [TOK_INT, TOK_FLOAT, TOK_STRING, TOK_FSTRING, TOK_TRUE, TOK_FALSE, TOK_NULL, TOK_IDENT,
     TOK_FUNC, TOK_ASYNC, TOK_AWAIT, TOK_YIELD, TOK_RETURN, TOK_IF, TOK_ELIF, TOK_ELSE, TOK_WHILE,
     TOK_FOR, TOK_IN, TOK_BREAK, TOK_CONTINUE, TOK_PASS, TOK_CLASS, TOK_SELF, TOK_SUPER, TOK_IMPORT,
     TOK_FROM, TOK_AS, TOK_AND, TOK_OR, TOK_NOT, TOK_IS, TOK_LET, TOK_CONST, TOK_MATCH, TOK_STRUCT,
     TOK_ENUM, TOK_SPAWN, TOK_NONLOCAL, TOK_WITH, TOK_TRY, TOK_CATCH, TOK_FINALLY, TOK_RAISE,
     TOK_PLUS, TOK_MINUS, TOK_STAR, TOK_SLASH, TOK_SLASH_SLASH, TOK_PERCENT, TOK_STAR_STAR,
     TOK_AMPERSAND, TOK_PIPE, TOK_CARET, TOK_TILDE, TOK_LSHIFT, TOK_RSHIFT, TOK_PIPE_ARROW,
     TOK_FAT_ARROW, TOK_AT_ARROW, TOK_QUESTION, TOK_ASSIGN, TOK_WALRUS, TOK_PLUS_ASSIGN,
     TOK_MINUS_ASSIGN, TOK_STAR_ASSIGN, TOK_SLASH_ASSIGN, TOK_PERCENT_ASSIGN, TOK_STAR_STAR_ASSIGN,
     TOK_SLASH_SLASH_ASSIGN, TOK_AMPERSAND_ASSIGN, TOK_PIPE_ASSIGN, TOK_CARET_ASSIGN,
     TOK_LSHIFT_ASSIGN, TOK_RSHIFT_ASSIGN, TOK_EQ, TOK_NEQ, TOK_LT, TOK_LTE, TOK_GT, TOK_GTE,
     TOK_LPAREN, TOK_RPAREN, TOK_LBRACKET, TOK_RBRACKET, TOK_LBRACE, TOK_RBRACE, TOK_COMMA, TOK_DOT,
     TOK_COLON, TOK_SEMICOLON, TOK_ARROW, TOK_ELLIPSIS, TOK_NEWLINE, TOK_INDENT, TOK_DEDENT,
     TOK_STRING3, TOK_FSTRING3, TOK_EOF, TOK_ERROR]"

primrec token_number :: "token_kind \<Rightarrow> nat" where
  "token_number TOK_INT = 0"
| "token_number TOK_FLOAT = 1"
| "token_number TOK_STRING = 2"
| "token_number TOK_FSTRING = 3"
| "token_number TOK_TRUE = 4"
| "token_number TOK_FALSE = 5"
| "token_number TOK_NULL = 6"
| "token_number TOK_IDENT = 7"
| "token_number TOK_FUNC = 8"
| "token_number TOK_ASYNC = 9"
| "token_number TOK_AWAIT = 10"
| "token_number TOK_YIELD = 11"
| "token_number TOK_RETURN = 12"
| "token_number TOK_IF = 13"
| "token_number TOK_ELIF = 14"
| "token_number TOK_ELSE = 15"
| "token_number TOK_WHILE = 16"
| "token_number TOK_FOR = 17"
| "token_number TOK_IN = 18"
| "token_number TOK_BREAK = 19"
| "token_number TOK_CONTINUE = 20"
| "token_number TOK_PASS = 21"
| "token_number TOK_CLASS = 22"
| "token_number TOK_SELF = 23"
| "token_number TOK_SUPER = 24"
| "token_number TOK_IMPORT = 25"
| "token_number TOK_FROM = 26"
| "token_number TOK_AS = 27"
| "token_number TOK_AND = 28"
| "token_number TOK_OR = 29"
| "token_number TOK_NOT = 30"
| "token_number TOK_IS = 31"
| "token_number TOK_LET = 32"
| "token_number TOK_CONST = 33"
| "token_number TOK_MATCH = 34"
| "token_number TOK_STRUCT = 35"
| "token_number TOK_ENUM = 36"
| "token_number TOK_SPAWN = 37"
| "token_number TOK_NONLOCAL = 38"
| "token_number TOK_WITH = 39"
| "token_number TOK_TRY = 40"
| "token_number TOK_CATCH = 41"
| "token_number TOK_FINALLY = 42"
| "token_number TOK_RAISE = 43"
| "token_number TOK_PLUS = 44"
| "token_number TOK_MINUS = 45"
| "token_number TOK_STAR = 46"
| "token_number TOK_SLASH = 47"
| "token_number TOK_SLASH_SLASH = 48"
| "token_number TOK_PERCENT = 49"
| "token_number TOK_STAR_STAR = 50"
| "token_number TOK_AMPERSAND = 51"
| "token_number TOK_PIPE = 52"
| "token_number TOK_CARET = 53"
| "token_number TOK_TILDE = 54"
| "token_number TOK_LSHIFT = 55"
| "token_number TOK_RSHIFT = 56"
| "token_number TOK_PIPE_ARROW = 57"
| "token_number TOK_FAT_ARROW = 58"
| "token_number TOK_AT_ARROW = 59"
| "token_number TOK_QUESTION = 60"
| "token_number TOK_ASSIGN = 61"
| "token_number TOK_WALRUS = 62"
| "token_number TOK_PLUS_ASSIGN = 63"
| "token_number TOK_MINUS_ASSIGN = 64"
| "token_number TOK_STAR_ASSIGN = 65"
| "token_number TOK_SLASH_ASSIGN = 66"
| "token_number TOK_PERCENT_ASSIGN = 67"
| "token_number TOK_STAR_STAR_ASSIGN = 68"
| "token_number TOK_SLASH_SLASH_ASSIGN = 69"
| "token_number TOK_AMPERSAND_ASSIGN = 70"
| "token_number TOK_PIPE_ASSIGN = 71"
| "token_number TOK_CARET_ASSIGN = 72"
| "token_number TOK_LSHIFT_ASSIGN = 73"
| "token_number TOK_RSHIFT_ASSIGN = 74"
| "token_number TOK_EQ = 75"
| "token_number TOK_NEQ = 76"
| "token_number TOK_LT = 77"
| "token_number TOK_LTE = 78"
| "token_number TOK_GT = 79"
| "token_number TOK_GTE = 80"
| "token_number TOK_LPAREN = 81"
| "token_number TOK_RPAREN = 82"
| "token_number TOK_LBRACKET = 83"
| "token_number TOK_RBRACKET = 84"
| "token_number TOK_LBRACE = 85"
| "token_number TOK_RBRACE = 86"
| "token_number TOK_COMMA = 87"
| "token_number TOK_DOT = 88"
| "token_number TOK_COLON = 89"
| "token_number TOK_SEMICOLON = 90"
| "token_number TOK_ARROW = 91"
| "token_number TOK_ELLIPSIS = 92"
| "token_number TOK_NEWLINE = 93"
| "token_number TOK_INDENT = 94"
| "token_number TOK_DEDENT = 95"
| "token_number TOK_STRING3 = 96"
| "token_number TOK_FSTRING3 = 97"
| "token_number TOK_EOF = 98"
| "token_number TOK_ERROR = 99"

lemma token_number_nth: "token_kinds ! token_number k = k"
  by (cases k) (simp_all add: token_kinds_def)

lemma token_number_inject: "token_number k = token_number l \<longleftrightarrow> k = l"
  by (metis token_number_nth)

lemma token_number_less: "token_number k < length token_kinds"
  by (cases k) (simp_all add: token_kinds_def)

lemma token_kinds_complete: "k \<in> set token_kinds"
  using token_number_nth [of k] token_number_less [of k] by (metis nth_mem)

text \<open>Comparisons of enumerators compare their values.\<close>

instantiation token_kind :: linorder
begin

definition less_eq_token_kind :: "token_kind \<Rightarrow> token_kind \<Rightarrow> bool" where
  "less_eq_token_kind k l \<longleftrightarrow> token_number k \<le> token_number l"

definition less_token_kind :: "token_kind \<Rightarrow> token_kind \<Rightarrow> bool" where
  "less_token_kind k l \<longleftrightarrow> token_number k < token_number l"

instance
  by intro_classes (auto simp: less_eq_token_kind_def less_token_kind_def token_number_inject)

end

definition token_is_keyword :: "token_kind \<Rightarrow> bool" where
  "token_is_keyword k \<longleftrightarrow> TOK_FUNC \<le> k \<and> k \<le> TOK_NONLOCAL"

section \<open>Keywords\<close>

definition keyword_table :: "(string \<times> token_kind) list" where
  "keyword_table =
    [(''func'', TOK_FUNC), (''async'', TOK_ASYNC), (''await'', TOK_AWAIT), (''yield'', TOK_YIELD),
     (''return'', TOK_RETURN), (''if'', TOK_IF), (''elif'', TOK_ELIF), (''else'', TOK_ELSE),
     (''while'', TOK_WHILE), (''for'', TOK_FOR), (''in'', TOK_IN), (''break'', TOK_BREAK),
     (''continue'', TOK_CONTINUE), (''pass'', TOK_PASS), (''class'', TOK_CLASS),
     (''self'', TOK_SELF), (''super'', TOK_SUPER), (''import'', TOK_IMPORT), (''from'', TOK_FROM),
     (''as'', TOK_AS), (''and'', TOK_AND), (''or'', TOK_OR), (''not'', TOK_NOT), (''is'', TOK_IS),
     (''true'', TOK_TRUE), (''false'', TOK_FALSE), (''null'', TOK_NULL), (''let'', TOK_LET),
     (''const'', TOK_CONST), (''match'', TOK_MATCH), (''struct'', TOK_STRUCT), (''enum'', TOK_ENUM),
     (''spawn'', TOK_SPAWN), (''nonlocal'', TOK_NONLOCAL), (''with'', TOK_WITH), (''try'', TOK_TRY),
     (''catch'', TOK_CATCH), (''finally'', TOK_FINALLY), (''raise'', TOK_RAISE)]"

definition ident_or_keyword :: "string \<Rightarrow> token_kind" where
  "ident_or_keyword word = (case map_of keyword_table word of Some k \<Rightarrow> k | None \<Rightarrow> TOK_IDENT)"

section \<open>Names\<close>

definition token_names :: "(token_kind \<times> string) list" where
  "token_names =
    [(TOK_INT, ''INT''), (TOK_FLOAT, ''FLOAT''), (TOK_STRING, ''STRING''),
     (TOK_FSTRING, ''FSTRING''), (TOK_STRING3, ''STRING3''), (TOK_FSTRING3, ''FSTRING3''),
     (TOK_TRUE, ''TRUE''), (TOK_FALSE, ''FALSE''), (TOK_NULL, ''NULL''), (TOK_IDENT, ''IDENT''),
     (TOK_FUNC, ''func''), (TOK_ASYNC, ''async''), (TOK_AWAIT, ''await''), (TOK_YIELD, ''yield''),
     (TOK_RETURN, ''return''), (TOK_IF, ''if''), (TOK_ELIF, ''elif''), (TOK_ELSE, ''else''),
     (TOK_WHILE, ''while''), (TOK_FOR, ''for''), (TOK_IN, ''in''), (TOK_BREAK, ''break''),
     (TOK_CONTINUE, ''continue''), (TOK_PASS, ''pass''), (TOK_CLASS, ''class''),
     (TOK_SELF, ''self''), (TOK_SUPER, ''super''), (TOK_IMPORT, ''import''), (TOK_FROM, ''from''),
     (TOK_AS, ''as''), (TOK_AND, ''and''), (TOK_OR, ''or''), (TOK_NOT, ''not''), (TOK_IS, ''is''),
     (TOK_LET, ''let''), (TOK_CONST, ''const''), (TOK_MATCH, ''match''), (TOK_STRUCT, ''struct''),
     (TOK_ENUM, ''enum''), (TOK_SPAWN, ''spawn''), (TOK_NONLOCAL, ''nonlocal''),
     (TOK_WITH, ''with''), (TOK_PLUS, ''+''), (TOK_MINUS, ''-''), (TOK_STAR, ''*''),
     (TOK_SLASH, ''/''), (TOK_SLASH_SLASH, ''//''), (TOK_PERCENT, ''%''), (TOK_STAR_STAR, ''**''),
     (TOK_PIPE_ARROW, ''|>''), (TOK_FAT_ARROW, ''=>''), (TOK_AT_ARROW, ''@>''),
     (TOK_QUESTION, ''?''), (TOK_ASSIGN, ''=''), (TOK_WALRUS, '':=''), (TOK_PLUS_ASSIGN, ''+=''),
     (TOK_MINUS_ASSIGN, ''-=''), (TOK_STAR_ASSIGN, ''*=''), (TOK_SLASH_ASSIGN, ''/=''),
     (TOK_PERCENT_ASSIGN, ''%=''), (TOK_STAR_STAR_ASSIGN, ''**=''),
     (TOK_SLASH_SLASH_ASSIGN, ''//=''), (TOK_AMPERSAND_ASSIGN, ''&=''), (TOK_PIPE_ASSIGN, ''|=''),
     (TOK_CARET_ASSIGN, ''^=''), (TOK_LSHIFT_ASSIGN, ''<<=''), (TOK_RSHIFT_ASSIGN, ''>>=''),
     (TOK_EQ, ''==''), (TOK_NEQ, ''!=''), (TOK_LT, ''<''), (TOK_LTE, ''<=''), (TOK_GT, ''>''),
     (TOK_GTE, ''>=''), (TOK_LPAREN, ''(''), (TOK_RPAREN, '')''), (TOK_LBRACKET, ''[''),
     (TOK_RBRACKET, '']''), (TOK_LBRACE, ''{''), (TOK_RBRACE, ''}''), (TOK_COMMA, '',''),
     (TOK_DOT, ''.''), (TOK_COLON, '':''), (TOK_NEWLINE, ''NEWLINE''), (TOK_INDENT, ''INDENT''),
     (TOK_DEDENT, ''DEDENT''), (TOK_EOF, ''EOF''), (TOK_ERROR, ''ERROR'')]"

definition token_kind_name :: "token_kind \<Rightarrow> string" where
  "token_kind_name k = (case map_of token_names k of Some s \<Rightarrow> s | None \<Rightarrow> ''?'')"

section \<open>Tokens\<close>

text \<open>\<^verbatim>\<open>start\<close> points into the source or at a string literal of the lexer.\<close>

datatype (plugins only: code) token_text = In_Source nat | Literal string

record token =
  tok_kind :: token_kind
  tok_start :: token_text
  tok_length :: nat
  tok_line :: nat
  tok_column :: nat

end
