(* ===== verification/Ast.thy ===== *)
theory Ast
  imports Tokens Floats
begin

text \<open>
  The syntax tree (\<^verbatim>\<open>include/flux/ast.h\<close>, \<^verbatim>\<open>src/ast/ast.c\<close>).  A constructor per node kind; its first argument
  is the line and column of the node, the others are the members of the union the C code uses for that kind.
  A pointer that may be NULL is an option, a growing array of nodes a list; nodes are built once and never
  changed, so the arena they live in is left out.
\<close>

type_synonym pos = "nat \<times> nat"

text \<open>A parameter: its name, the first token of its type hint, its default value.\<close>

datatype (plugins only:) ast =
    AST_INT pos int64
  | AST_FLOAT pos double
  | AST_STRING pos string
  | AST_BOOL pos bool
  | AST_NULL pos
  | AST_FSTRING pos "ast list"
  | AST_IDENT pos string
  | AST_ASSIGN pos ast ast
  | AST_WALRUS pos string ast
  | AST_AUGMENTED_ASSIGN pos ast ast token_kind
  | AST_LET_DECL pos string ast bool
  | AST_BINARY pos token_kind ast ast
  | AST_UNARY pos token_kind ast
  | AST_CALL pos ast "ast list"
  | AST_INDEX pos ast ast
  | AST_SLICE pos ast "ast option" "ast option" "ast option"
  | AST_ATTR pos ast string
  | AST_LIST pos "ast list"
  | AST_DICT pos "ast list" "ast list"
  | AST_LIST_COMP pos ast string ast "ast option"
  | AST_DICT_COMP pos ast ast string ast "ast option"
  | AST_LAMBDA pos "(string \<times> string option \<times> ast option) list" ast bool
  | AST_PIPELINE pos ast ast
  | AST_TERNARY pos ast ast ast
  | AST_SPAWN pos ast
  | AST_IF pos ast ast "ast list" "ast list" "ast option"
  | AST_WHILE pos ast ast
  | AST_FOR pos "string list" ast ast
  | AST_BREAK pos
  | AST_CONTINUE pos
  | AST_PASS pos
  | AST_RETURN pos "ast option"
  | AST_YIELD pos "ast option"
  | AST_MATCH pos ast "ast list" "ast list" "ast option list" "ast option" "ast option"
  | AST_WITH pos "string option" ast ast
  | AST_FUNC_DEF pos string "(string \<times> string option \<times> ast option) list" ast "ast list"
  | AST_CLASS_DEF pos string "string option" ast
  | AST_STRUCT_DEF pos string ast
  | AST_ENUM_DEF pos string "ast list" "ast option list"
  | AST_ASYNC_FUNC_DEF pos string "(string \<times> string option \<times> ast option) list" ast "ast list"
  | AST_AWAIT pos ast
  | AST_IMPORT pos string "string option"
  | AST_FROM_IMPORT pos string "ast list" "ast option list"
  | AST_NONLOCAL pos "ast list"
  | AST_TRY pos ast "string option" "ast option" "ast option"
  | AST_RAISE pos "ast option"
  | AST_BLOCK pos "ast list"
  | AST_EXPR_STMT pos ast
  | AST_MODULE pos "ast list"
  | AST_PATTERN_OR pos "ast list"
  | AST_PATTERN_RANGE pos ast ast
  | AST_PATTERN_TYPE pos string
  | AST_PATTERN_BIND pos string ast

text \<open>The tree without its positions.\<close>

primrec erase :: "ast \<Rightarrow> ast" where
  "erase (AST_INT p b) = AST_INT (0, 0) b"
| "erase (AST_FLOAT p b) = AST_FLOAT (0, 0) b"
| "erase (AST_STRING p b) = AST_STRING (0, 0) b"
| "erase (AST_BOOL p b) = AST_BOOL (0, 0) b"
| "erase (AST_NULL p) = AST_NULL (0, 0)"
| "erase (AST_FSTRING p b) = AST_FSTRING (0, 0) (map erase b)"
| "erase (AST_IDENT p b) = AST_IDENT (0, 0) b"
| "erase (AST_ASSIGN p b c) = AST_ASSIGN (0, 0) (erase b) (erase c)"
| "erase (AST_WALRUS p b c) = AST_WALRUS (0, 0) b (erase c)"
| "erase (AST_AUGMENTED_ASSIGN p b c d) = AST_AUGMENTED_ASSIGN (0, 0) (erase b) (erase c) d"
| "erase (AST_LET_DECL p b c d) = AST_LET_DECL (0, 0) b (erase c) d"
| "erase (AST_BINARY p b c d) = AST_BINARY (0, 0) b (erase c) (erase d)"
| "erase (AST_UNARY p b c) = AST_UNARY (0, 0) b (erase c)"
| "erase (AST_CALL p b c) = AST_CALL (0, 0) (erase b) (map erase c)"
| "erase (AST_INDEX p b c) = AST_INDEX (0, 0) (erase b) (erase c)"
| "erase (AST_SLICE p b c d e) = AST_SLICE (0, 0) (erase b) (map_option erase c) (map_option erase d) (map_option erase e)"
| "erase (AST_ATTR p b c) = AST_ATTR (0, 0) (erase b) c"
| "erase (AST_LIST p b) = AST_LIST (0, 0) (map erase b)"
| "erase (AST_DICT p b c) = AST_DICT (0, 0) (map erase b) (map erase c)"
| "erase (AST_LIST_COMP p b c d e) = AST_LIST_COMP (0, 0) (erase b) c (erase d) (map_option erase e)"
| "erase (AST_DICT_COMP p b c d e f) = AST_DICT_COMP (0, 0) (erase b) (erase c) d (erase e) (map_option erase f)"
| "erase (AST_LAMBDA p b c d) = AST_LAMBDA (0, 0) (map (map_prod id (map_prod id (map_option erase))) b) (erase c) d"
| "erase (AST_PIPELINE p b c) = AST_PIPELINE (0, 0) (erase b) (erase c)"
| "erase (AST_TERNARY p b c d) = AST_TERNARY (0, 0) (erase b) (erase c) (erase d)"
| "erase (AST_SPAWN p b) = AST_SPAWN (0, 0) (erase b)"
| "erase (AST_IF p b c d e f) = AST_IF (0, 0) (erase b) (erase c) (map erase d) (map erase e) (map_option erase f)"
| "erase (AST_WHILE p b c) = AST_WHILE (0, 0) (erase b) (erase c)"
| "erase (AST_FOR p b c d) = AST_FOR (0, 0) b (erase c) (erase d)"
| "erase (AST_BREAK p) = AST_BREAK (0, 0)"
| "erase (AST_CONTINUE p) = AST_CONTINUE (0, 0)"
| "erase (AST_PASS p) = AST_PASS (0, 0)"
| "erase (AST_RETURN p b) = AST_RETURN (0, 0) (map_option erase b)"
| "erase (AST_YIELD p b) = AST_YIELD (0, 0) (map_option erase b)"
| "erase (AST_MATCH p b c d e f g) = AST_MATCH (0, 0) (erase b) (map erase c) (map erase d) (map (map_option erase) e) (map_option erase f) (map_option erase g)"
| "erase (AST_WITH p b c d) = AST_WITH (0, 0) b (erase c) (erase d)"
| "erase (AST_FUNC_DEF p b c d e) = AST_FUNC_DEF (0, 0) b (map (map_prod id (map_prod id (map_option erase))) c) (erase d) (map erase e)"
| "erase (AST_CLASS_DEF p b c d) = AST_CLASS_DEF (0, 0) b c (erase d)"
| "erase (AST_STRUCT_DEF p b c) = AST_STRUCT_DEF (0, 0) b (erase c)"
| "erase (AST_ENUM_DEF p b c d) = AST_ENUM_DEF (0, 0) b (map erase c) (map (map_option erase) d)"
| "erase (AST_ASYNC_FUNC_DEF p b c d e) = AST_ASYNC_FUNC_DEF (0, 0) b (map (map_prod id (map_prod id (map_option erase))) c) (erase d) (map erase e)"
| "erase (AST_AWAIT p b) = AST_AWAIT (0, 0) (erase b)"
| "erase (AST_IMPORT p b c) = AST_IMPORT (0, 0) b c"
| "erase (AST_FROM_IMPORT p b c d) = AST_FROM_IMPORT (0, 0) b (map erase c) (map (map_option erase) d)"
| "erase (AST_NONLOCAL p b) = AST_NONLOCAL (0, 0) (map erase b)"
| "erase (AST_TRY p b c d e) = AST_TRY (0, 0) (erase b) c (map_option erase d) (map_option erase e)"
| "erase (AST_RAISE p b) = AST_RAISE (0, 0) (map_option erase b)"
| "erase (AST_BLOCK p b) = AST_BLOCK (0, 0) (map erase b)"
| "erase (AST_EXPR_STMT p b) = AST_EXPR_STMT (0, 0) (erase b)"
| "erase (AST_MODULE p b) = AST_MODULE (0, 0) (map erase b)"
| "erase (AST_PATTERN_OR p b) = AST_PATTERN_OR (0, 0) (map erase b)"
| "erase (AST_PATTERN_RANGE p b c) = AST_PATTERN_RANGE (0, 0) (erase b) (erase c)"
| "erase (AST_PATTERN_TYPE p b) = AST_PATTERN_TYPE (0, 0) b"
| "erase (AST_PATTERN_BIND p b c) = AST_PATTERN_BIND (0, 0) b (erase c)"

fun ident_name :: "ast \<Rightarrow> string option" where
  "ident_name (AST_IDENT p name) = Some name"
| "ident_name _ = None"

end
