(* ===== verification/Lexer.thy ===== *)
theory Lexer
  imports Tokens
begin

text \<open>
  The indentation-aware lexer (\<^verbatim>\<open>src/lexer/lexer.c\<close>).  The source is the list of its characters; the byte
  behind the last one is the terminating NUL, and reading further is undefined, so every access is an
  option.  The \<^verbatim>\<open>int\<close> counters of lines, columns and lengths are natural numbers: a source has less than
  \<open>2 ^ 31\<close> characters.
\<close>

section \<open>State\<close>

definition FLUX_INDENT_MAX :: nat where "FLUX_INDENT_MAX = 64"

text \<open>\<open>lx_indent_stack\<close> is the used part of the array, the innermost level last.  \<open>lx_pending\<close> is the ring
  of four tokens.\<close>

record lexer =
  lx_source :: string
  lx_start :: nat
  lx_current :: nat
  lx_line :: nat
  lx_column :: nat
  lx_indent_stack :: "nat list"
  lx_pending_dedents :: nat
  lx_at_line_start :: bool
  lx_pending :: "token list"
  lx_pending_count :: nat
  lx_pending_head :: nat
  lx_error_msg :: "string option"

definition NUL :: char where "NUL = CHR 0x00"

definition char_at :: "lexer \<Rightarrow> nat \<Rightarrow> char option" where
  "char_at lx i =
     (if i < length (lx_source lx) then Some (lx_source lx ! i)
      else if i = length (lx_source lx) then Some NUL else None)"

definition peek :: "lexer \<Rightarrow> char option" where
  "peek lx = char_at lx (lx_current lx)"

definition is_at_end :: "lexer \<Rightarrow> bool option" where
  "is_at_end lx = map_option (\<lambda>c. c = NUL) (peek lx)"

definition peek_next :: "lexer \<Rightarrow> char option" where
  "peek_next lx = do { e \<leftarrow> is_at_end lx; if e then Some NUL else char_at lx (lx_current lx + 1) }"

definition advance :: "lexer \<Rightarrow> (char \<times> lexer) option" where
  "advance lx = do {
     c \<leftarrow> peek lx;
     Some (c, if c = CHR 0x0A
              then lx\<lparr>lx_current := lx_current lx + 1, lx_line := lx_line lx + 1, lx_column := 1\<rparr>
              else lx\<lparr>lx_current := lx_current lx + 1, lx_column := lx_column lx + 1\<rparr>)
   }"

definition skip :: "lexer \<Rightarrow> lexer option" where
  "skip lx = map_option snd (advance lx)"

definition match_char :: "lexer \<Rightarrow> char \<Rightarrow> (bool \<times> lexer) option" where
  "match_char lx expected = do {
     c \<leftarrow> peek lx;
     if c = NUL \<or> c \<noteq> expected then Some (False, lx) else do { lx \<leftarrow> skip lx; Some (True, lx) }
   }"

section \<open>Tokens\<close>

definition make_token :: "lexer \<Rightarrow> token_kind \<Rightarrow> token" where
  "make_token lx k =
     \<lparr>tok_kind = k, tok_start = In_Source (lx_start lx), tok_length = lx_current lx - lx_start lx,
      tok_line = lx_line lx, tok_column = lx_column lx\<rparr>"

definition error_token :: "lexer \<Rightarrow> string \<Rightarrow> (token \<times> lexer) option" where
  "error_token lx msg =
     Some (\<lparr>tok_kind = TOK_ERROR, tok_start = Literal msg, tok_length = length msg,
            tok_line = lx_line lx, tok_column = lx_column lx\<rparr>, lx\<lparr>lx_error_msg := Some msg\<rparr>)"

definition emit :: "lexer \<Rightarrow> token_kind \<Rightarrow> (token \<times> lexer) option" where
  "emit lx k = Some (make_token lx k, lx)"

lemma advance_less:
  "advance lx = Some (c, lx') \<Longrightarrow> lx_current lx \<le> length (lx_source lx) \<and> lx_current lx' = lx_current lx + 1 \<and>
    lx_source lx' = lx_source lx"
  by (auto simp: advance_def peek_def char_at_def bind_Some_iff split: if_splits)

lemma skip_less:
  "skip lx = Some lx' \<Longrightarrow> lx_current lx \<le> length (lx_source lx) \<and> lx_current lx' = lx_current lx + 1 \<and>
    lx_source lx' = lx_source lx"
  by (auto simp: skip_def dest: advance_less)

text \<open>The number of reads of the source that are left.\<close>

definition remaining :: "lexer \<Rightarrow> nat" where
  "remaining lx = Suc (length (lx_source lx)) - lx_current lx"

lemma skip_remaining: "skip lx = Some lx' \<Longrightarrow> remaining lx' < remaining lx"
  by (auto simp: remaining_def dest!: skip_less)

text \<open>\<^verbatim>\<open>while (P(peek(lex))) advance(lex);\<close>\<close>

function skip_while :: "(char \<Rightarrow> bool) \<Rightarrow> lexer \<Rightarrow> lexer option" where
  "skip_while P lx = do { c \<leftarrow> peek lx; if P c then do { lx \<leftarrow> skip lx; skip_while P lx } else Some lx }"
  by pat_completeness auto
termination by (relation "measure (\<lambda>(P, lx). remaining lx)") (auto dest: skip_remaining)

declare skip_while.simps [simp del]

section \<open>White space and words\<close>

definition in_comment :: "char \<Rightarrow> bool" where
  "in_comment c \<longleftrightarrow> c \<noteq> NUL \<and> c \<noteq> CHR 0x0A"

lemma skip_while_remaining: "skip_while P lx = Some lx' \<Longrightarrow> remaining lx' \<le> remaining lx"
proof (induction P lx rule: skip_while.induct)
  case (1 P lx)
  from "1.prems" show ?case
    by (subst (asm) skip_while.simps) (auto simp: bind_Some_iff split: if_splits dest!: "1.IH" dest: skip_remaining)
qed

lemma skip_while_progress:
  "skip_while P lx = Some lx' \<Longrightarrow> peek lx = Some c \<Longrightarrow> P c \<Longrightarrow> remaining lx' < remaining lx"
  by (subst (asm) skip_while.simps)
     (auto simp: bind_Some_iff dest!: skip_while_remaining skip_remaining)

function skip_whitespace :: "lexer \<Rightarrow> lexer option" where
  "skip_whitespace lx = do {
     c \<leftarrow> peek lx;
     if c = CHR '' '' \<or> c = CHR 0x09 \<or> c = CHR 0x0D then do { lx \<leftarrow> skip lx; skip_whitespace lx }
     else if c = CHR ''#'' then do { lx \<leftarrow> skip_while in_comment lx; skip_whitespace lx }
     else Some lx
   }"
  by pat_completeness auto
termination
  by (relation "measure remaining")
     (auto dest: skip_remaining elim!: skip_while_progress simp: in_comment_def NUL_def)

declare skip_whitespace.simps [simp del]

text \<open>The classes of \<^verbatim>\<open>ctype.h\<close> in the C locale.\<close>

definition char_between :: "nat \<Rightarrow> nat \<Rightarrow> char \<Rightarrow> bool" where
  "char_between lo hi c \<longleftrightarrow> lo \<le> of_char c \<and> of_char c \<le> hi"

definition isdigit :: "char \<Rightarrow> bool" where
  "isdigit c \<longleftrightarrow> char_between 48 57 c"

definition isalpha :: "char \<Rightarrow> bool" where
  "isalpha c \<longleftrightarrow> char_between 97 122 c \<or> char_between 65 90 c"

definition isxdigit :: "char \<Rightarrow> bool" where
  "isxdigit c \<longleftrightarrow> isdigit c \<or> char_between 97 102 c \<or> char_between 65 70 c"

definition in_word :: "char \<Rightarrow> bool" where
  "in_word c \<longleftrightarrow> isalpha c \<or> isdigit c \<or> c = CHR ''_''"

section \<open>Strings\<close>

text \<open>The line is counted here and again by \<open>advance\<close>.\<close>

definition count_newline :: "lexer \<Rightarrow> lexer option" where
  "count_newline lx = do { c \<leftarrow> peek lx; Some (if c = CHR 0x0A then lx\<lparr>lx_line := lx_line lx + 1\<rparr> else lx) }"

lemma count_newline_remaining: "count_newline lx = Some lx' \<Longrightarrow> remaining lx' = remaining lx"
  by (auto simp: count_newline_def remaining_def bind_Some_iff split: if_splits)

definition skip_counting :: "lexer \<Rightarrow> lexer option" where
  "skip_counting lx = do { lx \<leftarrow> count_newline lx; skip lx }"

lemma skip_counting_remaining: "skip_counting lx = Some lx' \<Longrightarrow> remaining lx' < remaining lx"
  by (auto simp: skip_counting_def bind_Some_iff dest!: count_newline_remaining skip_remaining)

function scan_string_loop :: "char \<Rightarrow> lexer \<Rightarrow> lexer option" where
  "scan_string_loop quote lx = do {
     c \<leftarrow> peek lx;
     if c = NUL \<or> c = quote then Some lx
     else if c = CHR 0x5C then do { lx \<leftarrow> skip lx; lx \<leftarrow> skip_counting lx; scan_string_loop quote lx }
     else do { lx \<leftarrow> skip_counting lx; scan_string_loop quote lx }
   }"
  by pat_completeness auto
termination
  by (relation "measure (\<lambda>(quote, lx). remaining lx)")
     (auto dest!: skip_remaining skip_counting_remaining intro: less_trans)

declare scan_string_loop.simps [simp del]

definition scan_string :: "lexer \<Rightarrow> char \<Rightarrow> (token \<times> lexer) option" where
  "scan_string lx quote = do {
     lx \<leftarrow> scan_string_loop quote lx;
     e \<leftarrow> is_at_end lx;
     if e then error_token lx ''Unterminated string literal''
     else do { lx \<leftarrow> skip lx; emit lx TOK_STRING }
   }"

text \<open>\<^verbatim>\<open>peek == quote && current[1] == quote && current[2] == quote\<close>\<close>

definition closing_triple :: "lexer \<Rightarrow> char \<Rightarrow> bool option" where
  "closing_triple lx quote = do {
     a \<leftarrow> peek lx;
     if a \<noteq> quote then Some False
     else do {
       b \<leftarrow> char_at lx (lx_current lx + 1);
       if b \<noteq> quote then Some False
       else map_option (\<lambda>c. c = quote) (char_at lx (lx_current lx + 2))
     }
   }"

definition skip3 :: "lexer \<Rightarrow> lexer option" where
  "skip3 lx = do { lx \<leftarrow> skip lx; lx \<leftarrow> skip lx; skip lx }"

text \<open>An escape in a triple-quoted string: the character behind the backslash is skipped unless the source ends.\<close>

definition skip_escape :: "lexer \<Rightarrow> lexer option" where
  "skip_escape lx = do {
     lx \<leftarrow> skip lx;
     e \<leftarrow> is_at_end lx;
     if e then Some lx else skip_counting lx
   }"

lemma skip_escape_remaining: "skip_escape lx = Some lx' \<Longrightarrow> remaining lx' < remaining lx"
  by (auto simp: skip_escape_def bind_Some_iff split: if_splits dest!: skip_remaining skip_counting_remaining)

function scan_triple_string :: "char \<Rightarrow> lexer \<Rightarrow> (token \<times> lexer) option" where
  "scan_triple_string quote lx = do {
     e \<leftarrow> is_at_end lx;
     if e then error_token lx ''Unterminated triple-quoted string''
     else do {
       closing \<leftarrow> closing_triple lx quote;
       c \<leftarrow> peek lx;
       if closing then do { lx \<leftarrow> skip3 lx; emit lx TOK_STRING3 }
       else if c = CHR 0x5C then do { lx \<leftarrow> skip_escape lx; scan_triple_string quote lx }
       else do { lx \<leftarrow> skip_counting lx; scan_triple_string quote lx }
     }
   }"
  by pat_completeness auto
termination
  by (relation "measure (\<lambda>(quote, lx). remaining lx)") (auto dest: skip_escape_remaining skip_counting_remaining)

declare scan_triple_string.simps [simp del]

function scan_triple_fstring :: "char \<Rightarrow> nat \<Rightarrow> lexer \<Rightarrow> (token \<times> lexer) option" where
  "scan_triple_fstring quote depth lx = do {
     e \<leftarrow> is_at_end lx;
     if e then error_token lx ''Unterminated triple-quoted f-string''
     else do {
       c \<leftarrow> peek lx;
       if c = CHR 0x5C then do { lx \<leftarrow> skip_escape lx; scan_triple_fstring quote depth lx }
       else if c = CHR ''{'' then do { lx \<leftarrow> skip lx; scan_triple_fstring quote (depth + 1) lx }
       else if c = CHR ''}'' then do { lx \<leftarrow> skip lx; scan_triple_fstring quote (depth - 1) lx }
       else do {
         closing \<leftarrow> (if depth = 0 then closing_triple lx quote else Some False);
         if closing then do { lx \<leftarrow> skip3 lx; emit lx TOK_FSTRING3 }
         else do { lx \<leftarrow> skip_counting lx; scan_triple_fstring quote depth lx }
       }
     }
   }"
  by pat_completeness auto
termination
  by (relation "measure (\<lambda>(quote, depth, lx). remaining lx)")
     (auto dest: skip_escape_remaining skip_counting_remaining skip_remaining)

declare scan_triple_fstring.simps [simp del]

text \<open>In a plain f-string the line of an escaped newline is not counted twice.\<close>

definition skip_plain_escape :: "lexer \<Rightarrow> lexer option" where
  "skip_plain_escape lx = do { lx \<leftarrow> skip lx; e \<leftarrow> is_at_end lx; if e then Some lx else skip lx }"

lemma skip_plain_escape_remaining: "skip_plain_escape lx = Some lx' \<Longrightarrow> remaining lx' < remaining lx"
  by (auto simp: skip_plain_escape_def bind_Some_iff split: if_splits dest!: skip_remaining)

function scan_fstring :: "char \<Rightarrow> nat \<Rightarrow> lexer \<Rightarrow> (token \<times> lexer) option" where
  "scan_fstring quote depth lx = do {
     e \<leftarrow> is_at_end lx;
     if e then error_token lx ''Unterminated f-string literal''
     else do {
       c \<leftarrow> peek lx;
       if c = CHR 0x5C then do { lx \<leftarrow> skip_plain_escape lx; scan_fstring quote depth lx }
       else if c = CHR ''{'' then do { lx \<leftarrow> skip lx; scan_fstring quote (depth + 1) lx }
       else if c = CHR ''}'' then do { lx \<leftarrow> skip lx; scan_fstring quote (depth - 1) lx }
       else if c = quote \<and> depth = 0 then do { lx \<leftarrow> skip lx; emit lx TOK_FSTRING }
       else do { lx \<leftarrow> skip_counting lx; scan_fstring quote depth lx }
     }
   }"
  by pat_completeness auto
termination
  by (relation "measure (\<lambda>(quote, depth, lx). remaining lx)")
     (auto dest: skip_plain_escape_remaining skip_counting_remaining skip_remaining)

declare scan_fstring.simps [simp del]

section \<open>Numbers\<close>

definition digits :: "lexer \<Rightarrow> lexer option" where
  "digits = skip_while isdigit"

text \<open>A fraction needs a digit behind its point.\<close>

definition scan_fraction :: "lexer \<Rightarrow> (bool \<times> lexer) option" where
  "scan_fraction lx = do {
     c \<leftarrow> peek lx;
     d \<leftarrow> (if c = CHR ''.'' then peek_next lx else Some NUL);
     if c = CHR ''.'' \<and> isdigit d then do { lx \<leftarrow> skip lx; lx \<leftarrow> digits lx; Some (True, lx) }
     else Some (False, lx)
   }"

definition scan_number :: "lexer \<Rightarrow> (token \<times> lexer) option" where
  "scan_number lx = do {
     lx \<leftarrow> digits lx;
     (is_float, lx) \<leftarrow> scan_fraction lx;
     c \<leftarrow> peek lx;
     if c = CHR ''e'' \<or> c = CHR ''E'' then do {
       lx \<leftarrow> skip lx;
       c \<leftarrow> peek lx;
       lx \<leftarrow> (if c = CHR ''+'' \<or> c = CHR ''-'' then skip lx else Some lx);
       lx \<leftarrow> digits lx;
       emit lx TOK_FLOAT
     }
     else emit lx (if is_float then TOK_FLOAT else TOK_INT)
   }"

definition scan_hex :: "lexer \<Rightarrow> (token \<times> lexer) option" where
  "scan_hex lx = do { lx \<leftarrow> skip_while isxdigit lx; emit lx TOK_INT }"

section \<open>One raw token\<close>

text \<open>\<^verbatim>\<open>if (match(lex, c)) ... ; ...\<close>\<close>

definition accept ::
  "lexer \<Rightarrow> char \<Rightarrow> (lexer \<Rightarrow> (token \<times> lexer) option) \<Rightarrow> (lexer \<Rightarrow> (token \<times> lexer) option) \<Rightarrow> (token \<times> lexer) option" where
  "accept lx c yes no = do { (m, lx) \<leftarrow> match_char lx c; if m then yes lx else no lx }"

definition emit2 :: "lexer \<Rightarrow> char \<Rightarrow> token_kind \<Rightarrow> token_kind \<Rightarrow> (token \<times> lexer) option" where
  "emit2 lx c k l = accept lx c (\<lambda>lx. emit lx k) (\<lambda>lx. emit lx l)"

definition single_tokens :: "(char \<times> token_kind) list" where
  "single_tokens =
    [(CHR ''('', TOK_LPAREN), (CHR '')'', TOK_RPAREN), (CHR ''['', TOK_LBRACKET), (CHR '']'', TOK_RBRACKET),
     (CHR ''{'', TOK_LBRACE), (CHR ''}'', TOK_RBRACE), (CHR '','', TOK_COMMA), (CHR '';'', TOK_SEMICOLON),
     (CHR ''?'', TOK_QUESTION), (CHR ''~'', TOK_TILDE)]"

text \<open>The \<^verbatim>\<open>switch\<close> on the first character of an operator.\<close>

definition scan_operator :: "char \<Rightarrow> lexer \<Rightarrow> (token \<times> lexer) option" where
  "scan_operator c lx =
     (case map_of single_tokens c of
        Some k \<Rightarrow> emit lx k
      | None \<Rightarrow>
     if c = CHR '':'' then emit2 lx (CHR ''='') TOK_WALRUS TOK_COLON
     else if c = CHR ''.'' then emit2 lx (CHR ''.'') TOK_ELLIPSIS TOK_DOT
     else if c = CHR ''+'' then emit2 lx (CHR ''='') TOK_PLUS_ASSIGN TOK_PLUS
     else if c = CHR ''-'' then accept lx (CHR ''>'') (\<lambda>lx. emit lx TOK_ARROW) (\<lambda>lx. emit2 lx (CHR ''='') TOK_MINUS_ASSIGN TOK_MINUS)
     else if c = CHR ''*'' then accept lx (CHR ''*'') (\<lambda>lx. emit2 lx (CHR ''='') TOK_STAR_STAR_ASSIGN TOK_STAR_STAR)
       (\<lambda>lx. emit2 lx (CHR ''='') TOK_STAR_ASSIGN TOK_STAR)
     else if c = CHR ''/'' then accept lx (CHR ''/'') (\<lambda>lx. emit2 lx (CHR ''='') TOK_SLASH_SLASH_ASSIGN TOK_SLASH_SLASH)
       (\<lambda>lx. emit2 lx (CHR ''='') TOK_SLASH_ASSIGN TOK_SLASH)
     else if c = CHR ''%'' then emit2 lx (CHR ''='') TOK_PERCENT_ASSIGN TOK_PERCENT
     else if c = CHR ''&'' then emit2 lx (CHR ''='') TOK_AMPERSAND_ASSIGN TOK_AMPERSAND
     else if c = CHR ''|'' then accept lx (CHR ''>'') (\<lambda>lx. emit lx TOK_PIPE_ARROW) (\<lambda>lx. emit2 lx (CHR ''='') TOK_PIPE_ASSIGN TOK_PIPE)
     else if c = CHR ''^'' then emit2 lx (CHR ''='') TOK_CARET_ASSIGN TOK_CARET
     else if c = CHR ''<'' then accept lx (CHR ''<'') (\<lambda>lx. emit2 lx (CHR ''='') TOK_LSHIFT_ASSIGN TOK_LSHIFT)
       (\<lambda>lx. emit2 lx (CHR ''='') TOK_LTE TOK_LT)
     else if c = CHR ''>'' then accept lx (CHR ''>'') (\<lambda>lx. emit2 lx (CHR ''='') TOK_RSHIFT_ASSIGN TOK_RSHIFT)
       (\<lambda>lx. emit2 lx (CHR ''='') TOK_GTE TOK_GT)
     else if c = CHR ''='' then accept lx (CHR ''>'') (\<lambda>lx. emit lx TOK_FAT_ARROW) (\<lambda>lx. emit2 lx (CHR ''='') TOK_EQ TOK_ASSIGN)
     else if c = CHR ''@'' then accept lx (CHR ''>'') (\<lambda>lx. emit lx TOK_AT_ARROW)
       (\<lambda>lx. error_token lx (''Expected '' @ CHR 0x27 # ''>'' @ CHR 0x27 # '' after '' @ CHR 0x27 # ''@'' @ CHR 0x27 #
          '' (decorator syntax is '' @ CHR 0x27 # ''@>'' @ CHR 0x27 # '')''))
     else if c = CHR ''!'' then accept lx (CHR ''='') (\<lambda>lx. emit lx TOK_NEQ)
       (\<lambda>lx. error_token lx (''Expected '' @ CHR 0x27 # ''='' @ CHR 0x27 # '' after '' @ CHR 0x27 # ''!'' @ [CHR 0x27]))
     else error_token lx ''Unexpected character'')"

definition is_quote :: "char \<Rightarrow> bool" where
  "is_quote c \<longleftrightarrow> c = CHR 0x22 \<or> c = CHR 0x27"

text \<open>\<^verbatim>\<open>if (peek(lex) == q && peek_next(lex) == q) { advance(lex); advance(lex); ... }\<close>\<close>

definition if_triple ::
  "char \<Rightarrow> (lexer \<Rightarrow> (token \<times> lexer) option) \<Rightarrow> (lexer \<Rightarrow> (token \<times> lexer) option) \<Rightarrow> lexer \<Rightarrow> (token \<times> lexer) option" where
  "if_triple q yes no lx = do {
     a \<leftarrow> peek lx;
     b \<leftarrow> (if a = q then peek_next lx else Some NUL);
     if a = q \<and> b = q then do { lx \<leftarrow> skip lx; lx \<leftarrow> skip lx; yes lx } else no lx
   }"

text \<open>A word: an identifier, a keyword, or the prefix of an f-string.\<close>

definition scan_word :: "lexer \<Rightarrow> (token \<times> lexer) option" where
  "scan_word lx = do {
     lx \<leftarrow> skip_while in_word lx;
     let word = take (lx_current lx - lx_start lx) (drop (lx_start lx) (lx_source lx));
     let kind = ident_or_keyword word;
     q \<leftarrow> peek lx;
     if word = ''f'' \<and> kind = TOK_IDENT \<and> is_quote q then do {
       lx \<leftarrow> skip lx;
       if_triple q (scan_triple_fstring q 0) (scan_fstring q 0) lx
     }
     else emit lx kind
   }"

text \<open>The quote itself is consumed.\<close>

definition scan_quoted :: "char \<Rightarrow> lexer \<Rightarrow> (token \<times> lexer) option" where
  "scan_quoted q lx = if_triple q (scan_triple_string q) (\<lambda>lx. scan_string lx q) lx"

definition scan_raw_token :: "lexer \<Rightarrow> (token \<times> lexer) option" where
  "scan_raw_token lx = do {
     lx \<leftarrow> skip_whitespace lx;
     lx \<leftarrow> Some (lx\<lparr>lx_start := lx_current lx\<rparr>);
     e \<leftarrow> is_at_end lx;
     if e then emit lx TOK_EOF
     else do {
       (c, lx) \<leftarrow> advance lx;
       if isalpha c \<or> c = CHR ''_'' then scan_word lx
       else if isdigit c then do {
         x \<leftarrow> peek lx;
         if c = CHR ''0'' \<and> (x = CHR ''x'' \<or> x = CHR ''X'') then do { lx \<leftarrow> skip lx; scan_hex lx }
         else scan_number lx
       }
       else if is_quote c then scan_quoted c lx
       else if c = CHR 0x0A then emit lx TOK_NEWLINE
       else scan_operator c lx
     }
   }"

section \<open>Layout\<close>

text \<open>The characters a token points at.\<close>

definition lexeme :: "string \<Rightarrow> token \<Rightarrow> string" where
  "lexeme source t = (case tok_start t of In_Source i \<Rightarrow> take (tok_length t) (drop i source) | Literal s \<Rightarrow> take (tok_length t) s)"

definition blank_token :: token where
  "blank_token = \<lparr>tok_kind = TOK_INT, tok_start = Literal [], tok_length = 0, tok_line = 0, tok_column = 0\<rparr>"

text \<open>The ring of pending tokens is not initialised; its entries are read only after they were written.\<close>

definition lexer_init :: "string \<Rightarrow> lexer" where
  "lexer_init source =
     \<lparr>lx_source = source, lx_start = 0, lx_current = 0, lx_line = 1, lx_column = 1, lx_indent_stack = [0],
      lx_pending_dedents = 0, lx_at_line_start = True, lx_pending = replicate 4 blank_token,
      lx_pending_count = 0, lx_pending_head = 0, lx_error_msg = None\<rparr>"

definition push_pending :: "token \<Rightarrow> lexer \<Rightarrow> lexer" where
  "push_pending t lx =
     lx\<lparr>lx_pending := (lx_pending lx)[(lx_pending_head lx + lx_pending_count lx) mod 4 := t],
        lx_pending_count := lx_pending_count lx + 1\<rparr>"

definition pop_pending :: "lexer \<Rightarrow> token \<times> lexer" where
  "pop_pending lx =
     (lx_pending lx ! lx_pending_head lx,
      lx\<lparr>lx_pending_head := (lx_pending_head lx + 1) mod 4, lx_pending_count := lx_pending_count lx - 1\<rparr>)"

text \<open>The columns and the end of the indentation from position \<open>p\<close> on.\<close>

function measure_indent :: "lexer \<Rightarrow> nat \<Rightarrow> nat \<Rightarrow> (nat \<times> nat) option" where
  "measure_indent lx p cols = do {
     c \<leftarrow> char_at lx p;
     if c = CHR '' '' then measure_indent lx (p + 1) (cols + 1)
     else if c = CHR 0x09 then measure_indent lx (p + 1) (cols + 4)
     else Some (p, cols)
   }"
  by pat_completeness auto
termination
  by (relation "measure (\<lambda>(lx, p, cols). Suc (length (lx_source lx)) - p)") (auto simp: char_at_def split: if_splits)

declare measure_indent.simps [simp del]

text \<open>\<^verbatim>\<open>while (lex->current != p) advance(lex);\<close>\<close>

function advance_to :: "nat \<Rightarrow> lexer \<Rightarrow> lexer option" where
  "advance_to p lx = (if lx_current lx = p then Some lx else do { lx \<leftarrow> skip lx; advance_to p lx })"
  by pat_completeness auto
termination by (relation "measure (\<lambda>(p, lx). remaining lx)") (auto dest: skip_remaining)

declare advance_to.simps [simp del]

text \<open>The levels above \<open>cols\<close> are popped, one pending DEDENT each; the bottom level stays.\<close>

function dedent_loop :: "nat \<Rightarrow> token \<Rightarrow> lexer \<Rightarrow> lexer" where
  "dedent_loop cols t lx =
     (if 1 < length (lx_indent_stack lx) \<and> cols < last (lx_indent_stack lx)
      then dedent_loop cols t (push_pending t (lx\<lparr>lx_indent_stack := butlast (lx_indent_stack lx)\<rparr>)) else lx)"
  by pat_completeness auto
termination
  by (relation "measure (\<lambda>(cols, t, lx). length (lx_indent_stack lx))") (auto simp: push_pending_def)

declare dedent_loop.simps [simp del]

text \<open>A line with content: INDENT, DEDENTs, an error, or nothing (the inner option).\<close>

definition layout_token :: "token_kind \<Rightarrow> lexer \<Rightarrow> token" where
  "layout_token k lx =
     \<lparr>tok_kind = k, tok_start = In_Source (lx_current lx), tok_length = 0, tok_line = lx_line lx, tok_column = lx_column lx\<rparr>"

definition indent_change :: "nat \<Rightarrow> lexer \<Rightarrow> (token option \<times> lexer) option" where
  "indent_change cols lx =
     (let top = last (lx_indent_stack lx) in
      if top < cols then
        if FLUX_INDENT_MAX \<le> length (lx_indent_stack lx)
        then map_option (\<lambda>(t, lx). (Some t, lx)) (error_token lx ''Indentation too deep'')
        else let lx = lx\<lparr>lx_indent_stack := lx_indent_stack lx @ [cols]\<rparr> in Some (Some (layout_token TOK_INDENT lx), lx)
      else if cols < top then
        let lx = dedent_loop cols (layout_token TOK_DEDENT lx) lx in
        if last (lx_indent_stack lx) \<noteq> cols
        then map_option (\<lambda>(t, lx). (Some t, lx)) (error_token lx ''Inconsistent indentation'')
        else let (t, lx) = pop_pending lx in Some (Some t, lx)
      else Some (None, lx))"

text \<open>The end of the source at the start of a line: every level is closed.\<close>

definition end_token :: "token_kind \<Rightarrow> lexer \<Rightarrow> token" where
  "end_token k lx = \<lparr>tok_kind = k, tok_start = Literal [], tok_length = 0, tok_line = lx_line lx, tok_column = lx_column lx\<rparr>"

fun close_levels :: "nat \<Rightarrow> token \<Rightarrow> lexer \<Rightarrow> lexer" where
  "close_levels 0 t lx = lx"
| "close_levels (Suc n) t lx = close_levels n t (push_pending t (lx\<lparr>lx_indent_stack := butlast (lx_indent_stack lx)\<rparr>))"

definition end_of_source :: "lexer \<Rightarrow> token \<times> lexer" where
  "end_of_source lx =
     pop_pending (push_pending (end_token TOK_EOF lx)
       (close_levels (length (lx_indent_stack lx) - 1) (end_token TOK_DEDENT lx) lx))"

text \<open>Blank lines and comment lines are skipped; then the indentation of the first other line counts.\<close>

definition skip_blank_line :: "nat \<Rightarrow> lexer \<Rightarrow> lexer option" where
  "skip_blank_line p lx = do {
     lx \<leftarrow> advance_to p lx;
     c \<leftarrow> peek lx;
     lx \<leftarrow> (if c = CHR ''#'' then skip_while in_comment lx else Some lx);
     c \<leftarrow> peek lx;
     if c = CHR 0x0A \<or> c = CHR 0x0D then skip lx else Some lx
   }"

lemma advance_to_current: "advance_to p lx = Some lx' \<Longrightarrow> lx_current lx' = p \<and> lx_source lx' = lx_source lx \<and> remaining lx' \<le> remaining lx"
proof (induction p lx rule: advance_to.induct)
  case (1 p lx)
  show ?case
  proof (cases "lx_current lx = p")
    case True
    then show ?thesis using "1.prems" by (simp add: advance_to.simps)
  next
    case False
    then obtain lx1 where "skip lx = Some lx1" "advance_to p lx1 = Some lx'"
      using "1.prems" by (subst (asm) advance_to.simps) (auto simp: bind_Some_iff)
    then show ?thesis using "1.IH" [OF False] skip_less [of lx lx1] skip_remaining [of lx lx1] by fastforce
  qed
qed

definition blank_end :: "char \<Rightarrow> bool" where
  "blank_end c \<longleftrightarrow> c = CHR 0x0A \<or> c = CHR 0x0D \<or> c = CHR ''#'' \<or> c = NUL"

lemma skip_blank_line_remaining:
  assumes "skip_blank_line p lx = Some lx'" "char_at lx p = Some c" "blank_end c" "is_at_end lx' = Some False"
  shows "remaining lx' < remaining lx"
proof -
  obtain lx1 c1 where a: "advance_to p lx = Some lx1" and c1: "peek lx1 = Some c1"
    using assms(1) by (auto simp: skip_blank_line_def bind_Some_iff)
  have "c1 = c" using advance_to_current [OF a] c1 assms(2) by (auto simp: peek_def char_at_def split: if_splits)
  have le: "remaining lx1 \<le> remaining lx" using advance_to_current [OF a] by simp
  obtain lx2 c2 where b: "(if c1 = CHR ''#'' then skip_while in_comment lx1 else Some lx1) = Some lx2" and c2: "peek lx2 = Some c2"
    and rest: "(if c2 = CHR 0x0A \<or> c2 = CHR 0x0D then skip lx2 else Some lx2) = Some lx'"
    using assms(1) a c1 by (auto simp: skip_blank_line_def bind_Some_iff)
  consider "c1 = CHR ''#''" | "c1 = CHR 0x0A \<or> c1 = CHR 0x0D" | "c1 = NUL"
    using assms(3) \<open>c1 = c\<close> by (auto simp: blank_end_def)
  then show ?thesis
  proof cases
    case 1
    then have "remaining lx2 < remaining lx1"
      using b skip_while_progress [OF _ c1, of in_comment lx2] by (simp add: in_comment_def NUL_def)
    moreover have "remaining lx' \<le> remaining lx2" using rest skip_remaining [of lx2 lx'] by (auto split: if_splits)
    ultimately show ?thesis using le by simp
  next
    case 2
    then have "lx2 = lx1" "c2 = c1" using b c1 c2 by auto
    then have "skip lx1 = Some lx'" using rest 2 by auto
    then show ?thesis using skip_remaining [of lx1 lx'] le by simp
  next
    case 3
    then have "lx2 = lx1" "c2 = c1" using b c1 c2 by (auto simp: NUL_def)
    then have "lx' = lx1" using rest 3 by (auto simp: NUL_def)
    then show ?thesis using assms(4) c1 3 by (simp add: is_at_end_def)
  qed
qed

function line_start :: "lexer \<Rightarrow> (token option \<times> lexer) option" where
  "line_start lx = do {
     (p, cols) \<leftarrow> measure_indent lx (lx_current lx) 0;
     c \<leftarrow> char_at lx p;
     if blank_end c then do {
       lx' \<leftarrow> skip_blank_line p lx;
       e \<leftarrow> is_at_end lx';
       if e then let (t, lx'') = end_of_source lx' in Some (Some t, lx'') else line_start lx'
     }
     else do { lx' \<leftarrow> advance_to p lx; indent_change cols lx' }
   }"
  by pat_completeness auto
termination by (relation "measure remaining") (auto dest: skip_blank_line_remaining)

declare line_start.simps [simp del]

section \<open>The interface\<close>

definition scan_and_note :: "lexer \<Rightarrow> (token \<times> lexer) option" where
  "scan_and_note lx = do {
     (t, lx) \<leftarrow> scan_raw_token lx;
     Some (t, if tok_kind t = TOK_NEWLINE then lx\<lparr>lx_at_line_start := True\<rparr> else lx)
   }"

definition lexer_next :: "lexer \<Rightarrow> (token \<times> lexer) option" where
  "lexer_next lx =
     (if 0 < lx_pending_count lx then Some (pop_pending lx)
      else if lx_at_line_start lx then do {
        (t, lx) \<leftarrow> line_start (lx\<lparr>lx_at_line_start := False\<rparr>);
        case t of Some t \<Rightarrow> Some (t, lx) | None \<Rightarrow> scan_and_note lx
      }
      else scan_and_note lx)"

text \<open>The token is read on a copy and then pushed on the original, whose position does not change.\<close>

definition lexer_peek :: "lexer \<Rightarrow> (token \<times> lexer) option" where
  "lexer_peek lx = do { (t, _) \<leftarrow> lexer_next lx; Some (t, push_pending t lx) }"

text \<open>The tokens up to the end of the source or the first error; the fuel bounds their number.\<close>

fun tokens :: "nat \<Rightarrow> lexer \<Rightarrow> token list option" where
  "tokens 0 lx = None"
| "tokens (Suc n) lx = do {
     (t, lx) \<leftarrow> lexer_next lx;
     if tok_kind t = TOK_EOF \<or> tok_kind t = TOK_ERROR then Some [t]
     else do { ts \<leftarrow> tokens n lx; Some (t # ts) }
   }"

end
