(* ===== verification/Parser.thy ===== *)
theory Parser
  imports Ast Lexer
begin

text \<open>
  The recursive-descent parser (\<^verbatim>\<open>src/parser/parser.c\<close>), expressions.  The C functions call each other
  without bound; here each function takes the functions it calls recursively as the record \<open>calls\<close>, and \<open>n\<close> bounds
  its own loops.  \<^verbatim>\<open>ParserModule\<close> ties the knot: \<open>parse_calls n\<close> is the recursion to depth \<open>n\<close>.
\<close>

section \<open>Parser state\<close>

definition FLUX_PARSER_MAX_ERRORS :: nat where "FLUX_PARSER_MAX_ERRORS = 32"

text \<open>An error is its message, line and column; \<^verbatim>\<open>error_count\<close> is the length of the list.\<close>

record parser =
  ps_lex :: lexer
  ps_current :: token
  ps_previous :: token
  ps_had_error :: bool
  ps_panic_mode :: bool
  ps_errors :: "(string \<times> nat \<times> nat) list"

type_synonym 'a parses = "parser \<Rightarrow> ('a \<times> parser) option"

abbreviation p_kind :: "parser \<Rightarrow> token_kind" where
  "p_kind p \<equiv> tok_kind (ps_current p)"

definition pos_current :: "parser \<Rightarrow> pos" where
  "pos_current p = (tok_line (ps_current p), tok_column (ps_current p))"

definition pos_previous :: "parser \<Rightarrow> pos" where
  "pos_previous p = (tok_line (ps_previous p), tok_column (ps_previous p))"

definition previous_text :: "parser \<Rightarrow> string" where
  "previous_text p = lexeme (lx_source (ps_lex p)) (ps_previous p)"

definition current_text :: "parser \<Rightarrow> string" where
  "current_text p = lexeme (lx_source (ps_lex p)) (ps_current p)"

section \<open>Helpers\<close>

text \<open>A message is cut to the 255 characters its buffer holds.\<close>

definition parser_error :: "parser \<Rightarrow> string \<Rightarrow> parser" where
  "parser_error p msg =
     (if ps_panic_mode p then p
      else p\<lparr>ps_panic_mode := True, ps_had_error := True,
             ps_errors := (if length (ps_errors p) < FLUX_PARSER_MAX_ERRORS
                           then ps_errors p @ [(take 255 msg, tok_line (ps_current p), tok_column (ps_current p))]
                           else ps_errors p)\<rparr>)"

text \<open>Error tokens of the lexer are reported and skipped; each of them lies further in the source, which bounds
  their number.\<close>

fun skip_errors :: "nat \<Rightarrow> parser \<Rightarrow> parser option" where
  "skip_errors 0 p = None"
| "skip_errors (Suc n) p = do {
     (t, lx) \<leftarrow> lexer_next (ps_lex p);
     let p = p\<lparr>ps_lex := lx, ps_current := t\<rparr>;
     if tok_kind t \<noteq> TOK_ERROR then Some p
     else skip_errors n (parser_error p (case lx_error_msg lx of Some m \<Rightarrow> m | None \<Rightarrow> ''Lexer error''))
   }"

definition token_bound :: "lexer \<Rightarrow> nat" where
  "token_bound lx = 2 * length (lx_source lx) + lx_pending_count lx + length (lx_indent_stack lx) + 2"

definition p_advance :: "parser \<Rightarrow> parser option" where
  "p_advance p = skip_errors (token_bound (ps_lex p)) (p\<lparr>ps_previous := ps_current p\<rparr>)"

definition p_check :: "parser \<Rightarrow> token_kind \<Rightarrow> bool" where
  "p_check p k \<longleftrightarrow> p_kind p = k"

definition p_match :: "parser \<Rightarrow> token_kind \<Rightarrow> (bool \<times> parser) option" where
  "p_match p k = (if p_check p k then do { p \<leftarrow> p_advance p; Some (True, p) } else Some (False, p))"

definition got_message :: "string \<Rightarrow> token_kind \<Rightarrow> string" where
  "got_message msg k = take 255 (msg @ '' (got '' @ CHR 0x27 # token_kind_name k @ CHR 0x27 # '')'')"

definition p_consume :: "parser \<Rightarrow> token_kind \<Rightarrow> string \<Rightarrow> parser option" where
  "p_consume p k msg =
     (if p_check p k then p_advance p else Some (parser_error p (got_message msg (p_kind p))))"

fun skip_newlines :: "nat \<Rightarrow> parser \<Rightarrow> parser option" where
  "skip_newlines 0 p = None"
| "skip_newlines (Suc n) p =
     (if p_check p TOK_NEWLINE then do { p \<leftarrow> p_advance p; skip_newlines n p } else Some p)"

definition sync_kinds :: "token_kind list" where
  "sync_kinds = [TOK_FUNC, TOK_CLASS, TOK_IF, TOK_WHILE, TOK_FOR, TOK_RETURN, TOK_LET, TOK_CONST, TOK_MATCH, TOK_STRUCT,
     TOK_ENUM, TOK_TRY, TOK_RAISE]"

fun synchronize_loop :: "nat \<Rightarrow> parser \<Rightarrow> parser option" where
  "synchronize_loop 0 p = None"
| "synchronize_loop (Suc n) p =
     (if p_check p TOK_EOF then Some p
      else if tok_kind (ps_previous p) = TOK_NEWLINE then Some p
      else if p_kind p \<in> set sync_kinds then Some p
      else do { p \<leftarrow> p_advance p; synchronize_loop n p })"

definition synchronize :: "nat \<Rightarrow> parser \<Rightarrow> parser option" where
  "synchronize n p = synchronize_loop n (p\<lparr>ps_panic_mode := False\<rparr>)"

fun skip_to_eol :: "nat \<Rightarrow> parser \<Rightarrow> parser option" where
  "skip_to_eol 0 p = None"
| "skip_to_eol (Suc n) p =
     (if \<not> p_check p TOK_NEWLINE \<and> \<not> p_check p TOK_EOF then do { p \<leftarrow> p_advance p; skip_to_eol n p } else Some p)"

fun skip_orphan_loop :: "nat \<Rightarrow> nat \<Rightarrow> parser \<Rightarrow> parser option" where
  "skip_orphan_loop 0 depth p = None"
| "skip_orphan_loop (Suc n) depth p =
     (if depth = 0 \<or> p_check p TOK_EOF then Some p
      else if p_check p TOK_INDENT then do { p \<leftarrow> p_advance p; skip_orphan_loop n (depth + 1) p }
      else if p_check p TOK_DEDENT then
        (if 0 < depth - 1 then do { p \<leftarrow> p_advance p; skip_orphan_loop n (depth - 1) p } else skip_orphan_loop n (depth - 1) p)
      else do { p \<leftarrow> p_advance p; skip_orphan_loop n depth p })"

definition skip_orphan_block :: "nat \<Rightarrow> parser \<Rightarrow> parser option" where
  "skip_orphan_block n p =
     (if \<not> p_check p TOK_INDENT then Some p
      else do {
        p \<leftarrow> p_advance p;
        p \<leftarrow> skip_orphan_loop n 1 p;
        if p_check p TOK_DEDENT then p_advance p else Some p
      })"

text \<open>The token behind the current one, read on a copy of the lexer.\<close>

definition look_ahead :: "parser \<Rightarrow> token_kind option" where
  "look_ahead p = do { (t, _) \<leftarrow> lexer_next (ps_lex p); Some (tok_kind t) }"

section \<open>Type annotations\<close>

fun skip_type_path :: "nat \<Rightarrow> parser \<Rightarrow> parser option" where
  "skip_type_path 0 p = None"
| "skip_type_path (Suc n) p =
     (if p_check p TOK_DOT then do {
        k \<leftarrow> look_ahead p;
        if k \<noteq> TOK_IDENT then Some p
        else do { p \<leftarrow> p_advance p; p \<leftarrow> p_advance p; skip_type_path n p }
      }
      else Some p)"

fun skip_generics :: "nat \<Rightarrow> nat \<Rightarrow> parser \<Rightarrow> parser option" where
  "skip_generics 0 depth p = None"
| "skip_generics (Suc n) depth p =
     (if 0 < depth \<and> \<not> p_check p TOK_EOF \<and> \<not> p_check p TOK_NEWLINE then
        if p_check p TOK_LT then do { p \<leftarrow> p_advance p; skip_generics n (depth + 1) p }
        else if p_check p TOK_GT then do { p \<leftarrow> p_advance p; skip_generics n (depth - 1) p }
        else do { p \<leftarrow> p_advance p; skip_generics n depth p }
      else Some p)"

definition skip_type_annotation :: "nat \<Rightarrow> parser \<Rightarrow> parser option" where
  "skip_type_annotation n p =
     (if \<not> p_check p TOK_IDENT \<and> \<not> token_is_keyword (p_kind p) then Some p
      else do {
        p \<leftarrow> p_advance p;
        p \<leftarrow> skip_type_path n p;
        p \<leftarrow> (if p_check p TOK_LT then do { p \<leftarrow> p_advance p; skip_generics n 1 p } else Some p);
        (_, p) \<leftarrow> p_match p TOK_QUESTION;
        Some p
      })"

text \<open>A colon and an annotation, or nothing; the first token of the annotation is kept.\<close>

definition skip_typed :: "nat \<Rightarrow> string option parses" where
  "skip_typed n p = do {
     (there, p) \<leftarrow> p_match p TOK_COLON;
     if there then do { q \<leftarrow> skip_type_annotation n p; Some (Some (current_text p), q) } else Some (None, p)
   }"

section \<open>Literals\<close>

definition char_value :: "char \<Rightarrow> nat" where
  "char_value c =
     (if char_between 48 57 c then of_char c - 48
      else if char_between 97 122 c then of_char c - 87
      else if char_between 65 90 c then of_char c - 55
      else 99)"

text \<open>The number a prefix of digits denotes, and the text behind it.\<close>

fun digits_prefix :: "nat \<Rightarrow> nat \<Rightarrow> string \<Rightarrow> nat \<times> string" where
  "digits_prefix base v [] = (v, [])"
| "digits_prefix base v (c # cs) =
     (if char_value c < base then digits_prefix base (base * v + char_value c) cs else (v, c # cs))"

text \<open>\<^verbatim>\<open>strtoll(s, NULL, 0)\<close> on a text that begins with a digit: the prefix decides the base, and a value that does not
  fit saturates.\<close>

definition strtoll :: "string \<Rightarrow> int64" where
  "strtoll s =
     (let v = (case s of
          CHR ''0'' # x # t \<Rightarrow> if x = CHR ''x'' \<or> x = CHR ''X'' then fst (digits_prefix 16 0 t) else fst (digits_prefix 8 0 s)
        | _ \<Rightarrow> fst (digits_prefix 10 0 s))
      in of_nat (min v (2 ^ 63 - 1)))"

text \<open>\<^verbatim>\<open>strtod\<close> on digits with an optional fraction and an optional exponent: the nearest double.\<close>

definition decimal_double :: "nat \<Rightarrow> int \<Rightarrow> double" where
  "decimal_double m e =
     (if 0 \<le> e then dbl_round False (m * 10 ^ nat e * 2 ^ 1074) 1 else dbl_round False (m * 2 ^ 1074) (10 ^ nat (- e)))"

definition exponent_part :: "string \<Rightarrow> int" where
  "exponent_part s =
     (case s of
        c # t \<Rightarrow>
          if c = CHR ''e'' \<or> c = CHR ''E'' then
            (case t of
               CHR ''-'' # u \<Rightarrow> - int (fst (digits_prefix 10 0 u))
             | CHR ''+'' # u \<Rightarrow> int (fst (digits_prefix 10 0 u))
             | u \<Rightarrow> int (fst (digits_prefix 10 0 u)))
          else 0
      | [] \<Rightarrow> 0)"

definition strtod :: "string \<Rightarrow> double" where
  "strtod s =
     (let (m, t) = digits_prefix 10 0 s in
      case t of
        CHR ''.'' # u \<Rightarrow> (let (m, v) = digits_prefix 10 m u in decimal_double m (exponent_part v - int (length u - length v)))
      | _ \<Rightarrow> decimal_double m (exponent_part t))"

text \<open>The number token is copied into a buffer of 64 bytes first.\<close>

definition number_text :: "parser \<Rightarrow> string" where
  "number_text p = take 63 (previous_text p)"

fun unescape :: "string \<Rightarrow> string" where
  "unescape [] = []"
| "unescape [c] = [c]"
| "unescape (c # d # cs) =
     (if c = CHR 0x5C then
        (if d = CHR ''n'' then [CHR 0x0A]
         else if d = CHR ''t'' then [CHR 0x09]
         else if d = CHR ''r'' then [CHR 0x0D]
         else if d = CHR 0x5C then [CHR 0x5C]
         else if d = CHR 0x22 then [CHR 0x22]
         else if d = CHR 0x27 then [CHR 0x27]
         else if d = CHR ''0'' then [NUL]
         else [CHR 0x5C, d]) @ unescape cs
      else c # unescape (d # cs))"

text \<open>The content of a token between \<open>front\<close> and \<open>back\<close> characters of quotes.\<close>

definition inner :: "nat \<Rightarrow> nat \<Rightarrow> string \<Rightarrow> string" where
  "inner front back s = take (length s - (front + back)) (drop front s)"

definition parse_string_literal :: "ast parses" where
  "parse_string_literal p =
     (let q = (if tok_kind (ps_previous p) = TOK_STRING3 then 3 else 1) in
      Some (AST_STRING (pos_previous p) (unescape (inner q q (previous_text p))), p))"

section \<open>Recursive calls\<close>

record calls =
  c_expr :: "ast parses"
  c_ternary :: "ast parses"
  c_not :: "ast parses"
  c_unary :: "ast parses"
  c_power :: "ast parses"
  c_pattern :: "ast parses"
  c_block :: "ast parses"
  c_stmt :: "ast option parses"

text \<open>An expression behind a token, if the token is there.\<close>

definition optional_expr :: "token_kind \<Rightarrow> calls \<Rightarrow> ast option parses" where
  "optional_expr k c p = do {
     (there, p) \<leftarrow> p_match p k;
     if there then do { (e, p) \<leftarrow> c_expr c p; Some (Some e, p) } else Some (None, p)
   }"

section \<open>F-strings\<close>

text \<open>The escapes of a literal segment; an escaped quote is the quote of the token.\<close>

fun unescape_segment :: "char \<Rightarrow> string \<Rightarrow> string" where
  "unescape_segment quote [] = []"
| "unescape_segment quote [c] = [c]"
| "unescape_segment quote (c # d # cs) =
     (if c = CHR 0x5C then
        (if d = CHR ''n'' then [CHR 0x0A]
         else if d = CHR ''t'' then [CHR 0x09]
         else if d = CHR ''r'' then [CHR 0x0D]
         else if d = CHR 0x5C then [CHR 0x5C]
         else if d = CHR 0x22 then [quote]
         else [CHR 0x5C, d]) @ unescape_segment quote cs
      else c # unescape_segment quote (d # cs))"

text \<open>The text up to the brace that closes \<open>depth\<close> open ones, and the rest from this brace on.\<close>

fun fstring_expr :: "nat \<Rightarrow> string \<Rightarrow> string \<times> string" where
  "fstring_expr depth [] = ([], [])"
| "fstring_expr depth (c # cs) =
     (let depth' = (if c = CHR ''{'' then depth + 1 else if c = CHR ''}'' then depth - 1 else depth) in
      if depth' = 0 then ([], c # cs) else let (e, r) = fstring_expr depth' cs in (c # e, r))"

definition parse_fstring_subexpr :: "calls \<Rightarrow> string \<Rightarrow> pos \<Rightarrow> ast parses" where
  "parse_fstring_subexpr c src pos p = do {
     (t, lx) \<leftarrow> lexer_next (lexer_init src);
     (e, sub) \<leftarrow> c_expr c \<lparr>ps_lex = lx, ps_current = t, ps_previous = blank_token\<lparr>tok_kind := TOK_EOF\<rparr>,
                   ps_had_error = False, ps_panic_mode = False, ps_errors = []\<rparr>;
     Some (e, if ps_had_error sub
              then p\<lparr>ps_had_error := True,
                     ps_errors := ps_errors p @ take (FLUX_PARSER_MAX_ERRORS - length (ps_errors p))
                       (map (\<lambda>(msg, _). (msg, pos)) (ps_errors sub))\<rparr>
              else p)
   }"

definition segment :: "char \<Rightarrow> pos \<Rightarrow> string \<Rightarrow> ast list" where
  "segment quote pos seg = (if seg = [] then [] else [AST_STRING pos (unescape_segment quote seg)])"

fun fstring_loop :: "nat \<Rightarrow> calls \<Rightarrow> char \<Rightarrow> pos \<Rightarrow> string \<Rightarrow> string \<Rightarrow> ast list \<Rightarrow> ast list parses" where
  "fstring_loop 0 c quote pos seg cs parts p = None"
| "fstring_loop (Suc n) c quote pos seg cs parts p =
     (case cs of
        [] \<Rightarrow> Some (parts @ segment quote pos seg, p)
      | x # xs \<Rightarrow>
          if x = CHR ''{'' \<and> xs \<noteq> [] \<and> hd xs = CHR ''{''
          then fstring_loop n c quote pos [] (tl xs) (parts @ [AST_STRING pos (seg @ ''{'')]) p
          else if x = CHR ''}'' \<and> xs \<noteq> [] \<and> hd xs = CHR ''}''
          then fstring_loop n c quote pos [] (tl xs) (parts @ [AST_STRING pos (seg @ ''}'')]) p
          else if x = CHR ''{'' then
            (let (src, ys) = fstring_expr 1 xs in do {
               (e, p) \<leftarrow> parse_fstring_subexpr c src pos p;
               fstring_loop n c quote pos [] (drop 1 ys) (parts @ segment quote pos seg @ [e]) p
             })
          else fstring_loop n c quote pos (seg @ [x]) xs parts p)"

definition parse_fstring :: "calls \<Rightarrow> ast parses" where
  "parse_fstring c p =
     (let text = previous_text p;
          q = (if tok_kind (ps_previous p) = TOK_FSTRING3 then 3 else 1);
          content = inner (1 + q) q text
      in do {
        quote \<leftarrow> nth_opt text 1;
        (parts, p') \<leftarrow> fstring_loop (Suc (length content)) c quote (pos_previous p) [] content [] p;
        Some (AST_FSTRING (pos_previous p) parts, p')
      })"

section \<open>Lambda\<close>

type_synonym ast_param = "string \<times> string option \<times> ast option"

fun lambda_params :: "nat \<Rightarrow> ast_param list parses" where
  "lambda_params 0 p = None"
| "lambda_params (Suc n) p =
     (if \<not> p_check p TOK_PIPE \<and> \<not> p_check p TOK_EOF then do {
        p \<leftarrow> p_consume p TOK_IDENT ''Expected parameter name in lambda'';
        let name = previous_text p;
        (_, p) \<leftarrow> skip_typed n p;
        (more, p) \<leftarrow> p_match p TOK_COMMA;
        (params, p) \<leftarrow> (if more then lambda_params n p else Some ([], p));
        Some ((name, None, None) # params, p)
      }
      else Some ([], p))"

definition parse_lambda :: "nat \<Rightarrow> calls \<Rightarrow> ast parses" where
  "parse_lambda n c p0 = do {
     (params, p) \<leftarrow> lambda_params n p0;
     p \<leftarrow> p_consume p TOK_PIPE (''Expected '' @ CHR 0x27 # ''|'' @ CHR 0x27 # '' after lambda parameters'');
     p \<leftarrow> p_consume p TOK_FAT_ARROW (''Expected '' @ CHR 0x27 # ''=>'' @ CHR 0x27 # '' after lambda parameters'');
     if p_check p TOK_COLON then do {
       p \<leftarrow> p_advance p;
       (body, p) \<leftarrow> c_block c p;
       Some (AST_LAMBDA (pos_previous p0) params body False, p)
     }
     else do {
       (body, p) \<leftarrow> c_expr c p;
       Some (AST_LAMBDA (pos_previous p0) params body True, p)
     }
   }"

section \<open>Primary expressions\<close>

text \<open>The elements behind the first comma of a list, up to the closing token.\<close>

fun parse_elements :: "nat \<Rightarrow> calls \<Rightarrow> token_kind \<Rightarrow> ast list parses" where
  "parse_elements 0 c close p = None"
| "parse_elements (Suc n) c close p =
     (if \<not> p_check p close \<and> \<not> p_check p TOK_EOF then do {
        (e, p) \<leftarrow> c_expr c p;
        (more, p) \<leftarrow> p_match p TOK_COMMA;
        if more then do {
          p \<leftarrow> skip_newlines n p;
          (es, p) \<leftarrow> parse_elements n c close p;
          Some (e # es, p)
        }
        else Some ([e], p)
      }
      else Some ([], p))"

definition colon_message :: string where
  "colon_message = ''Expected '' @ CHR 0x27 # '':'' @ CHR 0x27 # '' in dict literal''"

fun parse_entries :: "nat \<Rightarrow> calls \<Rightarrow> (ast \<times> ast) list parses" where
  "parse_entries 0 c p = None"
| "parse_entries (Suc n) c p =
     (if \<not> p_check p TOK_RBRACE \<and> \<not> p_check p TOK_EOF then do {
        (k, p) \<leftarrow> c_expr c p;
        p \<leftarrow> p_consume p TOK_COLON colon_message;
        (v, p) \<leftarrow> c_expr c p;
        (more, p) \<leftarrow> p_match p TOK_COMMA;
        if more then do {
          p \<leftarrow> skip_newlines n p;
          (es, p) \<leftarrow> parse_entries n c p;
          Some ((k, v) # es, p)
        }
        else Some ([(k, v)], p)
      }
      else Some ([], p))"

text \<open>The tail of a comprehension behind \<^verbatim>\<open>for\<close>; None inside when the variable is missing.\<close>

definition parse_comprehension :: "calls \<Rightarrow> string \<Rightarrow> token_kind \<Rightarrow> string \<Rightarrow> (string \<times> ast \<times> ast option) option parses" where
  "parse_comprehension c what close close_msg p =
     (if \<not> p_check p TOK_IDENT
      then Some (None, parser_error p (''Expected variable name after '' @ CHR 0x27 # ''for'' @ CHR 0x27 # '' in '' @ what @ '' comprehension''))
      else do {
        p \<leftarrow> p_advance p;
        let var = previous_text p;
        p \<leftarrow> p_consume p TOK_IN (''Expected '' @ CHR 0x27 # ''in'' @ CHR 0x27 # '' after variable in '' @ what @ '' comprehension'');
        (iterable, p) \<leftarrow> c_expr c p;
        (cond, p) \<leftarrow> optional_expr TOK_IF c p;
        p \<leftarrow> p_consume p close close_msg;
        Some (Some (var, iterable, cond), p)
      })"

definition bracket_message :: "string \<Rightarrow> string \<Rightarrow> string" where
  "bracket_message close what = ''Expected '' @ CHR 0x27 # close @ CHR 0x27 # '' after '' @ what"

text \<open>Behind \<^verbatim>\<open>[\<close>.\<close>

definition parse_list :: "nat \<Rightarrow> calls \<Rightarrow> pos \<Rightarrow> ast parses" where
  "parse_list n c pos p = do {
     p \<leftarrow> skip_newlines n p;
     if p_check p TOK_RBRACKET then do { p \<leftarrow> p_advance p; Some (AST_LIST pos [], p) }
     else do {
       (e, p) \<leftarrow> c_expr c p;
       (comp, p) \<leftarrow> p_match p TOK_FOR;
       if comp then do {
         (r, p) \<leftarrow> parse_comprehension c ''list'' TOK_RBRACKET (bracket_message '']'' ''list comprehension'') p;
         Some (case r of None \<Rightarrow> AST_NULL pos | Some (var, iterable, cond) \<Rightarrow> AST_LIST_COMP pos e var iterable cond, p)
       }
       else do {
         (more, p) \<leftarrow> p_match p TOK_COMMA;
         (es, p) \<leftarrow> (if more then do { p \<leftarrow> skip_newlines n p; parse_elements n c TOK_RBRACKET p } else Some ([], p));
         p \<leftarrow> skip_newlines n p;
         p \<leftarrow> p_consume p TOK_RBRACKET (bracket_message '']'' ''list'');
         Some (AST_LIST pos (e # es), p)
       }
     }
   }"

text \<open>Behind \<^verbatim>\<open>{\<close>.\<close>

definition parse_dict :: "nat \<Rightarrow> calls \<Rightarrow> pos \<Rightarrow> ast parses" where
  "parse_dict n c pos p = do {
     p \<leftarrow> skip_newlines n p;
     if p_check p TOK_RBRACE then do { p \<leftarrow> p_advance p; Some (AST_DICT pos [] [], p) }
     else do {
       (k, p) \<leftarrow> c_expr c p;
       p \<leftarrow> p_consume p TOK_COLON colon_message;
       (v, p) \<leftarrow> c_expr c p;
       (comp, p) \<leftarrow> p_match p TOK_FOR;
       if comp then do {
         (r, p) \<leftarrow> parse_comprehension c ''dict'' TOK_RBRACE (bracket_message ''}'' ''dict comprehension'') p;
         Some (case r of None \<Rightarrow> AST_NULL pos | Some (var, iterable, cond) \<Rightarrow> AST_DICT_COMP pos k v var iterable cond, p)
       }
       else do {
         (more, p) \<leftarrow> p_match p TOK_COMMA;
         (es, p) \<leftarrow> (if more then do { p \<leftarrow> skip_newlines n p; parse_entries n c p } else Some ([], p));
         p \<leftarrow> skip_newlines n p;
         p \<leftarrow> p_consume p TOK_RBRACE (bracket_message ''}'' ''dict'');
         Some (AST_DICT pos (k # map fst es) (v # map snd es), p)
       }
     }
   }"

definition parse_primary :: "nat \<Rightarrow> calls \<Rightarrow> ast parses" where
  "parse_primary n c p0 =
     (let pos = pos_current p0; k = p_kind p0 in
      if k = TOK_PIPE then do { p \<leftarrow> p_advance p0; parse_lambda n c p }
      else if k = TOK_INT then do { p \<leftarrow> p_advance p0; Some (AST_INT pos (strtoll (number_text p)), p) }
      else if k = TOK_FLOAT then do { p \<leftarrow> p_advance p0; Some (AST_FLOAT pos (strtod (number_text p)), p) }
      else if k = TOK_STRING \<or> k = TOK_STRING3 then do { p \<leftarrow> p_advance p0; parse_string_literal p }
      else if k = TOK_FSTRING \<or> k = TOK_FSTRING3 then do { p \<leftarrow> p_advance p0; parse_fstring c p }
      else if k = TOK_TRUE then do { p \<leftarrow> p_advance p0; Some (AST_BOOL pos True, p) }
      else if k = TOK_FALSE then do { p \<leftarrow> p_advance p0; Some (AST_BOOL pos False, p) }
      else if k = TOK_NULL then do { p \<leftarrow> p_advance p0; Some (AST_NULL pos, p) }
      else if k = TOK_IDENT \<or> k = TOK_SELF \<or> k = TOK_SUPER then do { p \<leftarrow> p_advance p0; Some (AST_IDENT pos (previous_text p), p) }
      else if k = TOK_LPAREN then do {
        p \<leftarrow> p_advance p0;
        (e, p) \<leftarrow> c_expr c p;
        p \<leftarrow> p_consume p TOK_RPAREN (bracket_message '')'' ''expression'');
        Some (e, p)
      }
      else if k = TOK_LBRACKET then do { p \<leftarrow> p_advance p0; parse_list n c pos p }
      else if k = TOK_LBRACE then do { p \<leftarrow> p_advance p0; parse_dict n c pos p }
      else do {
        let p = parser_error p0 ''Expected expression'';
        p \<leftarrow> (if k \<noteq> TOK_EOF \<and> k \<noteq> TOK_DEDENT \<and> k \<noteq> TOK_NEWLINE then p_advance p else Some p);
        Some (AST_NULL pos, p)
      })"

section \<open>Postfix expressions\<close>

text \<open>A bound of a slice in front of a colon or the closing bracket.\<close>

definition bound_expr :: "calls \<Rightarrow> ast option parses" where
  "bound_expr c p = (if p_check p TOK_RBRACKET \<or> p_check p TOK_COLON then Some (None, p)
     else do { (e, p) \<leftarrow> c_expr c p; Some (Some e, p) })"

text \<open>The bounds of a slice behind its first colon, up to the closing bracket.\<close>

definition slice_rest :: "calls \<Rightarrow> (ast option \<times> ast option) parses" where
  "slice_rest c p = do {
     (stop, p) \<leftarrow> bound_expr c p;
     (stepped, p) \<leftarrow> p_match p TOK_COLON;
     (step, p) \<leftarrow> (if stepped \<and> \<not> p_check p TOK_RBRACKET then do { (e, p) \<leftarrow> c_expr c p; Some (Some e, p) } else Some (None, p));
     p \<leftarrow> p_consume p TOK_RBRACKET (bracket_message '']'' ''slice'');
     Some ((stop, step), p)
   }"

text \<open>Behind \<^verbatim>\<open>[\<close>: an index or a slice.\<close>

definition parse_subscript :: "calls \<Rightarrow> pos \<Rightarrow> ast \<Rightarrow> ast parses" where
  "parse_subscript c pos node p = do {
     (from_start, p) \<leftarrow> p_match p TOK_COLON;
     if from_start then do {
       ((stop, step), p) \<leftarrow> slice_rest c p;
       Some (AST_SLICE pos node None stop step, p)
     }
     else do {
       (first, p) \<leftarrow> c_expr c p;
       (slice, p) \<leftarrow> p_match p TOK_COLON;
       if slice then do {
         ((stop, step), p) \<leftarrow> slice_rest c p;
         Some (AST_SLICE pos node (Some first) stop step, p)
       }
       else do {
         p \<leftarrow> p_consume p TOK_RBRACKET (bracket_message '']'' ''index'');
         Some (AST_INDEX pos node first, p)
       }
     }
   }"

fun postfix_loop :: "nat \<Rightarrow> calls \<Rightarrow> ast \<Rightarrow> ast parses" where
  "postfix_loop 0 c node p = None"
| "postfix_loop (Suc n) c node p =
     (let pos = pos_current p in
      if p_check p TOK_LPAREN then do {
        p \<leftarrow> p_advance p;
        p \<leftarrow> skip_newlines n p;
        (args, p) \<leftarrow> parse_elements n c TOK_RPAREN p;
        p \<leftarrow> skip_newlines n p;
        p \<leftarrow> p_consume p TOK_RPAREN (bracket_message '')'' ''arguments'');
        postfix_loop n c (AST_CALL pos node args) p
      }
      else if p_check p TOK_LBRACKET then do {
        p \<leftarrow> p_advance p;
        (node, p) \<leftarrow> parse_subscript c pos node p;
        postfix_loop n c node p
      }
      else if p_check p TOK_DOT then do {
        p \<leftarrow> p_advance p;
        if \<not> p_check p TOK_IDENT \<and> \<not> token_is_keyword (p_kind p)
        then Some (node, parser_error p (''Expected attribute name after '' @ CHR 0x27 # ''.'' @ [CHR 0x27]))
        else do {
          p \<leftarrow> p_advance p;
          postfix_loop n c (AST_ATTR pos node (previous_text p)) p
        }
      }
      else Some (node, p))"

definition parse_postfix :: "nat \<Rightarrow> calls \<Rightarrow> ast parses" where
  "parse_postfix n c p = do { (node, p) \<leftarrow> parse_primary n c p; postfix_loop n c node p }"

section \<open>Operators\<close>

definition parse_power :: "nat \<Rightarrow> calls \<Rightarrow> ast parses" where
  "parse_power n c p = do {
     (base, p) \<leftarrow> parse_postfix n c p;
     (power, p) \<leftarrow> p_match p TOK_STAR_STAR;
     if power then do {
       let pos = pos_previous p;
       (exponent, p) \<leftarrow> c_power c p;
       Some (AST_BINARY pos TOK_STAR_STAR base exponent, p)
     }
     else Some (base, p)
   }"

definition parse_unary :: "nat \<Rightarrow> calls \<Rightarrow> ast parses" where
  "parse_unary n c p =
     (let pos = pos_current p; k = p_kind p in
      if k = TOK_MINUS \<or> k = TOK_TILDE \<or> k = TOK_NOT then do {
        p \<leftarrow> p_advance p;
        (e, p) \<leftarrow> c_unary c p;
        Some (AST_UNARY pos k e, p)
      }
      else if k = TOK_AWAIT then do { p \<leftarrow> p_advance p; (e, p) \<leftarrow> c_unary c p; Some (AST_AWAIT pos e, p) }
      else if k = TOK_SPAWN then do { p \<leftarrow> p_advance p; (e, p) \<leftarrow> c_unary c p; Some (AST_SPAWN pos e, p) }
      else parse_power n c p)"

text \<open>The macro \<open>BINARY_LEFT\<close>: a left-associative level with operators \<open>ops\<close> above the level \<open>next\<close>.\<close>

fun binary_loop :: "nat \<Rightarrow> token_kind list \<Rightarrow> ast parses \<Rightarrow> ast \<Rightarrow> ast parses" where
  "binary_loop 0 ops next left p = None"
| "binary_loop (Suc n) ops next left p =
     (let pos = pos_current p; op = p_kind p in
      if op \<notin> set ops then Some (left, p)
      else do {
        p \<leftarrow> p_advance p;
        (right, p) \<leftarrow> next p;
        binary_loop n ops next (AST_BINARY pos op left right) p
      })"

definition binary_left :: "nat \<Rightarrow> token_kind list \<Rightarrow> ast parses \<Rightarrow> ast parses" where
  "binary_left n ops next p = do { (left, p) \<leftarrow> next p; binary_loop n ops next left p }"

definition parse_mul :: "nat \<Rightarrow> calls \<Rightarrow> ast parses" where
  "parse_mul n c = binary_left n [TOK_STAR, TOK_SLASH, TOK_SLASH_SLASH, TOK_PERCENT] (parse_unary n c)"

definition parse_add :: "nat \<Rightarrow> calls \<Rightarrow> ast parses" where
  "parse_add n c = binary_left n [TOK_PLUS, TOK_MINUS] (parse_mul n c)"

definition parse_shift :: "nat \<Rightarrow> calls \<Rightarrow> ast parses" where
  "parse_shift n c = binary_left n [TOK_LSHIFT, TOK_RSHIFT] (parse_add n c)"

definition parse_bitand :: "nat \<Rightarrow> calls \<Rightarrow> ast parses" where
  "parse_bitand n c = binary_left n [TOK_AMPERSAND] (parse_shift n c)"

definition parse_bitxor :: "nat \<Rightarrow> calls \<Rightarrow> ast parses" where
  "parse_bitxor n c = binary_left n [TOK_CARET] (parse_bitand n c)"

definition parse_bitor :: "nat \<Rightarrow> calls \<Rightarrow> ast parses" where
  "parse_bitor n c = binary_left n [TOK_PIPE] (parse_bitxor n c)"

definition parse_comparison :: "nat \<Rightarrow> calls \<Rightarrow> ast parses" where
  "parse_comparison n c =
     binary_left n [TOK_EQ, TOK_NEQ, TOK_LT, TOK_LTE, TOK_GT, TOK_GTE, TOK_IS] (parse_bitor n c)"

definition parse_not :: "nat \<Rightarrow> calls \<Rightarrow> ast parses" where
  "parse_not n c p =
     (if p_check p TOK_NOT then do {
        let pos = pos_current p;
        p \<leftarrow> p_advance p;
        (e, p) \<leftarrow> c_not c p;
        Some (AST_UNARY pos TOK_NOT e, p)
      }
      else parse_comparison n c p)"

definition parse_and :: "nat \<Rightarrow> calls \<Rightarrow> ast parses" where
  "parse_and n c = binary_left n [TOK_AND] (parse_not n c)"

definition parse_or :: "nat \<Rightarrow> calls \<Rightarrow> ast parses" where
  "parse_or n c = binary_left n [TOK_OR] (parse_and n c)"

section \<open>Pipelines, conditional expressions, assignments\<close>

text \<open>A pipeline may go on behind a line end when the next token is the arrow.\<close>

fun pipeline_loop :: "nat \<Rightarrow> calls \<Rightarrow> ast \<Rightarrow> ast parses" where
  "pipeline_loop 0 c left p = None"
| "pipeline_loop (Suc n) c left p = do {
     (goes_on, p) \<leftarrow>
       (if p_check p TOK_PIPE_ARROW then Some (True, p)
        else if p_check p TOK_NEWLINE then do {
          k \<leftarrow> look_ahead p;
          if k \<noteq> TOK_PIPE_ARROW then Some (False, p) else do { p \<leftarrow> p_advance p; Some (True, p) }
        }
        else Some (False, p));
     if goes_on then do {
       let pos = pos_current p;
       p \<leftarrow> p_advance p;
       (right, p) \<leftarrow> parse_or n c p;
       pipeline_loop n c (AST_PIPELINE pos left right) p
     }
     else Some (left, p)
   }"

definition parse_pipeline :: "nat \<Rightarrow> calls \<Rightarrow> ast parses" where
  "parse_pipeline n c p = do { (left, p) \<leftarrow> parse_or n c p; pipeline_loop n c left p }"

definition parse_ternary :: "nat \<Rightarrow> calls \<Rightarrow> ast parses" where
  "parse_ternary n c p = do {
     (cond, p) \<leftarrow> parse_pipeline n c p;
     if \<not> p_check p TOK_QUESTION then Some (cond, p)
     else do {
       let pos = pos_current p;
       p \<leftarrow> p_advance p;
       (then_expr, p) \<leftarrow> c_ternary c p;
       if \<not> p_check p TOK_COLON
       then Some (cond, parser_error p (''expected '' @ CHR 0x27 # '':'' @ CHR 0x27 # '' in ternary expression''))
       else do {
         p \<leftarrow> p_advance p;
         (else_expr, p) \<leftarrow> c_ternary c p;
         Some (AST_TERNARY pos cond then_expr else_expr, p)
       }
     }
   }"

definition aug_ops :: "token_kind list" where
  "aug_ops = [TOK_PLUS_ASSIGN, TOK_MINUS_ASSIGN, TOK_STAR_ASSIGN, TOK_SLASH_ASSIGN, TOK_PERCENT_ASSIGN, TOK_STAR_STAR_ASSIGN,
     TOK_SLASH_SLASH_ASSIGN, TOK_AMPERSAND_ASSIGN, TOK_PIPE_ASSIGN, TOK_CARET_ASSIGN, TOK_LSHIFT_ASSIGN, TOK_RSHIFT_ASSIGN]"

definition parse_expr :: "nat \<Rightarrow> calls \<Rightarrow> ast parses" where
  "parse_expr n c p = do {
     (left, p) \<leftarrow> parse_ternary n c p;
     let pos = pos_current p;
     let k = p_kind p;
     case (if k = TOK_WALRUS then ident_name left else None) of
       Some name \<Rightarrow> do { p \<leftarrow> p_advance p; (v, p) \<leftarrow> c_expr c p; Some (AST_WALRUS pos name v, p) }
     | None \<Rightarrow>
         if k = TOK_ASSIGN then do { p \<leftarrow> p_advance p; (v, p) \<leftarrow> c_expr c p; Some (AST_ASSIGN pos left v, p) }
         else if k \<in> set aug_ops then do { p \<leftarrow> p_advance p; (v, p) \<leftarrow> c_expr c p; Some (AST_AUGMENTED_ASSIGN pos left v k, p) }
         else Some (left, p)
   }"

end
