(* ===== verification/ParserStmts.thy ===== *)
theory ParserStmts
  imports Parser
begin

text \<open>
  Statements, blocks, patterns and whole modules (\<^verbatim>\<open>src/parser/parser.c\<close>), and the recursion \<open>parse_calls\<close>
  through which all the functions call each other.
\<close>

section \<open>Words of other languages\<close>

definition keyword_suggestions :: "(string list \<times> string) list" where
  "keyword_suggestions =
    [([''def'', ''fun'', ''method'', ''function'', ''proc'', ''sub'', ''void''], ''func''),
     ([''klass'', ''type'', ''interface'', ''trait'', ''impl'', ''abstract'', ''record''], ''class''),
     ([''var'', ''val'', ''auto'', ''dim'', ''int'', ''float'', ''string'', ''bool''], ''let''),
     ([''include'', ''require'', ''use''], ''import''),
     ([''yield_''], ''return'')]"

definition keyword_suggestion :: "string \<Rightarrow> string option" where
  "keyword_suggestion word = map_option snd (find (\<lambda>(words, s). word \<in> set words) keyword_suggestions)"

section \<open>Parameters and blocks\<close>

fun params_loop :: "nat \<Rightarrow> calls \<Rightarrow> ast_param list parses" where
  "params_loop 0 c p = None"
| "params_loop (Suc n) c p =
     (if \<not> p_check p TOK_RPAREN \<and> \<not> p_check p TOK_EOF then do {
        p \<leftarrow> (if p_check p TOK_SELF \<or> p_check p TOK_SUPER then p_advance p
             else p_consume p TOK_IDENT ''Expected parameter name'');
        let name = previous_text p;
        (hint, p) \<leftarrow> skip_typed n p;
        (default, p) \<leftarrow> optional_expr TOK_ASSIGN c p;
        (more, p) \<leftarrow> p_match p TOK_COMMA;
        (params, p) \<leftarrow> (if more then params_loop n c p else Some ([], p));
        Some ((name, hint, default) # params, p)
      }
      else Some ([], p))"

definition parse_params :: "nat \<Rightarrow> calls \<Rightarrow> ast_param list parses" where
  "parse_params n c p = do {
     p \<leftarrow> p_consume p TOK_LPAREN (bracket_message ''('' ''function name'');
     (params, p) \<leftarrow> params_loop n c p;
     p \<leftarrow> p_consume p TOK_RPAREN (bracket_message '')'' ''parameters'');
     Some (params, p)
   }"

definition at_block_end :: "parser \<Rightarrow> bool" where
  "at_block_end p \<longleftrightarrow> p_check p TOK_DEDENT \<or> p_check p TOK_EOF"

fun block_loop :: "nat \<Rightarrow> calls \<Rightarrow> ast list parses" where
  "block_loop 0 c p = None"
| "block_loop (Suc n) c p =
     (if at_block_end p then Some ([], p)
      else do {
        p \<leftarrow> skip_newlines n p;
        if at_block_end p then Some ([], p)
        else if p_check p TOK_INDENT then do { p \<leftarrow> skip_orphan_block n p; block_loop n c p }
        else do {
          (stmt, p) \<leftarrow> c_stmt c p;
          p \<leftarrow> (if ps_panic_mode p then synchronize n p else Some p);
          (stmts, p) \<leftarrow> block_loop n c p;
          Some (case stmt of None \<Rightarrow> stmts | Some s \<Rightarrow> s # stmts, p)
        }
      })"

definition parse_block :: "nat \<Rightarrow> calls \<Rightarrow> ast parses" where
  "parse_block n c p0 = do {
     p \<leftarrow> p_consume p0 TOK_NEWLINE ''Expected newline before block'';
     p \<leftarrow> p_consume p TOK_INDENT ''Expected indented block'';
     (stmts, p) \<leftarrow> block_loop n c p;
     p \<leftarrow> p_consume p TOK_DEDENT ''Expected end of block'';
     Some (AST_BLOCK (pos_current p0) stmts, p)
   }"

section \<open>Definitions\<close>

definition parse_func_def :: "nat \<Rightarrow> calls \<Rightarrow> bool \<Rightarrow> ast list \<Rightarrow> ast parses" where
  "parse_func_def n c is_async decorators p0 = do {
     p \<leftarrow> p_consume p0 TOK_IDENT ''Expected function name'';
     let name = previous_text p;
     (params, p) \<leftarrow> parse_params n c p;
     (arrow, p) \<leftarrow> p_match p TOK_ARROW;
     p \<leftarrow> (if arrow then skip_type_annotation n p else Some p);
     p \<leftarrow> p_consume p TOK_COLON (bracket_message '':'' ''function signature'');
     (body, p) \<leftarrow> c_block c p;
     Some ((if is_async then AST_ASYNC_FUNC_DEF else AST_FUNC_DEF) (pos_previous p0) name params body decorators, p)
   }"

definition parse_class_def :: "calls \<Rightarrow> ast parses" where
  "parse_class_def c p0 = do {
     p \<leftarrow> p_consume p0 TOK_IDENT ''Expected class name'';
     let name = previous_text p;
     (derived, p) \<leftarrow> p_match p TOK_LPAREN;
     (super, p) \<leftarrow> (if derived then do {
         p \<leftarrow> p_consume p TOK_IDENT ''Expected base class name'';
         let super = previous_text p;
         p \<leftarrow> p_consume p TOK_RPAREN (bracket_message '')'' ''base class'');
         Some (Some super, p)
       } else Some (None, p));
     p \<leftarrow> p_consume p TOK_COLON (bracket_message '':'' ''class name'');
     (body, p) \<leftarrow> c_block c p;
     Some (AST_CLASS_DEF (pos_previous p0) name super body, p)
   }"

definition parse_let_decl :: "nat \<Rightarrow> calls \<Rightarrow> bool \<Rightarrow> ast parses" where
  "parse_let_decl n c is_const p0 = do {
     p \<leftarrow> p_consume p0 TOK_IDENT
           (''Expected variable name after '' @ CHR 0x27 # ''let'' @ CHR 0x27 # ''/'' @ CHR 0x27 # ''const'' @ [CHR 0x27]);
     let name = previous_text p;
     (_, p) \<leftarrow> skip_typed n p;
     (assigned, p) \<leftarrow> p_match p TOK_ASSIGN;
     (v, p) \<leftarrow> (if assigned then c_expr c p else Some (AST_NULL (pos_previous p0), p));
     Some (AST_LET_DECL (pos_previous p0) name v is_const, p)
   }"

definition parse_struct_def :: "calls \<Rightarrow> ast parses" where
  "parse_struct_def c p0 = do {
     p \<leftarrow> p_consume p0 TOK_IDENT ''Expected struct name'';
     let name = previous_text p;
     p \<leftarrow> p_consume p TOK_COLON (bracket_message '':'' ''struct name'');
     (body, p) \<leftarrow> c_block c p;
     Some (AST_STRUCT_DEF (pos_previous p0) name body, p)
   }"

fun enum_loop :: "nat \<Rightarrow> calls \<Rightarrow> (ast \<times> ast option) list parses" where
  "enum_loop 0 c p = None"
| "enum_loop (Suc n) c p =
     (if at_block_end p then Some ([], p)
      else do {
        p \<leftarrow> skip_newlines n p;
        if at_block_end p then Some ([], p)
        else if p_check p TOK_IDENT then do {
          let member = AST_IDENT (pos_current p) (current_text p);
          p \<leftarrow> p_advance p;
          (v, p) \<leftarrow> optional_expr TOK_ASSIGN c p;
          (_, p) \<leftarrow> p_match p TOK_NEWLINE;
          (members, p) \<leftarrow> enum_loop n c p;
          Some ((member, v) # members, p)
        }
        else do {
          p \<leftarrow> p_advance (parser_error p ''Expected enum member name'');
          enum_loop n c p
        }
      })"

definition parse_enum_def :: "nat \<Rightarrow> calls \<Rightarrow> ast parses" where
  "parse_enum_def n c p0 = do {
     p \<leftarrow> p_consume p0 TOK_IDENT ''Expected enum name'';
     let name = previous_text p;
     p \<leftarrow> p_consume p TOK_COLON (bracket_message '':'' ''enum name'');
     p \<leftarrow> p_consume p TOK_NEWLINE ''Expected newline before enum body'';
     p \<leftarrow> p_consume p TOK_INDENT ''Expected indented enum body'';
     (members, p) \<leftarrow> enum_loop n c p;
     p \<leftarrow> p_consume p TOK_DEDENT ''Expected end of enum body'';
     Some (AST_ENUM_DEF (pos_previous p0) name (map fst members) (map snd members), p)
   }"

section \<open>Match\<close>

definition parse_pattern_base :: "nat \<Rightarrow> calls \<Rightarrow> ast parses" where
  "parse_pattern_base n c p0 =
     (let pos = pos_current p0 in do {
        (typed, p) \<leftarrow> p_match p0 TOK_IS;
        if typed then
          if \<not> p_check p TOK_IDENT
          then Some (AST_NULL pos, parser_error p (''Expected type name after '' @ CHR 0x27 # ''is'' @ CHR 0x27 # '' in pattern''))
          else do { let name = current_text p; p \<leftarrow> p_advance p; Some (AST_PATTERN_TYPE pos name, p) }
        else do {
          (base, p) \<leftarrow> parse_bitxor n c p;
          (range, p) \<leftarrow> p_match p TOK_ELLIPSIS;
          if range then do {
            (high, p) \<leftarrow> parse_bitxor n c p;
            Some (AST_PATTERN_RANGE pos base high, p)
          }
          else case (if p_check p TOK_AS then ident_name base else None) of
            Some name \<Rightarrow> do { p \<leftarrow> p_advance p; (sub, p) \<leftarrow> c_pattern c p; Some (AST_PATTERN_BIND pos name sub, p) }
          | None \<Rightarrow> Some (base, p)
        }
      })"

fun alternatives_loop :: "nat \<Rightarrow> calls \<Rightarrow> ast list parses" where
  "alternatives_loop 0 c p = None"
| "alternatives_loop (Suc n) c p = do {
     (more, p) \<leftarrow> p_match p TOK_PIPE;
     if more then do {
       (a, p) \<leftarrow> parse_pattern_base n c p;
       (as, p) \<leftarrow> alternatives_loop n c p;
       Some (a # as, p)
     }
     else Some ([], p)
   }"

definition parse_pattern :: "nat \<Rightarrow> calls \<Rightarrow> ast parses" where
  "parse_pattern n c p0 = do {
     (first, p) \<leftarrow> parse_pattern_base n c p0;
     if \<not> p_check p TOK_PIPE then Some (first, p)
     else do {
       (others, p) \<leftarrow> alternatives_loop n c p;
       Some (AST_PATTERN_OR (pos_current p0) (first # others), p)
     }
   }"

text \<open>The arms (pattern, body, guard) and the body and guard of the wildcard arm, which ends the loop.\<close>

fun match_loop :: "nat \<Rightarrow> calls \<Rightarrow> ((ast \<times> ast \<times> ast option) list \<times> (ast \<times> ast option) option) parses" where
  "match_loop 0 c p = None"
| "match_loop (Suc n) c p =
     (if at_block_end p then Some (([], None), p)
      else do {
        p \<leftarrow> skip_newlines n p;
        if at_block_end p then Some (([], None), p)
        else do {
          p \<leftarrow> (if p_check p TOK_IDENT \<and> current_text p = ''case'' then p_advance p else Some p);
          let wild = (p_check p TOK_IDENT \<and> current_text p = ''_'');
          (pattern, p) \<leftarrow> (if wild then do { p \<leftarrow> p_advance p; Some (None, p) }
                          else do { (a, p) \<leftarrow> parse_pattern n c p; Some (Some a, p) });
          (guard, p) \<leftarrow> optional_expr TOK_IF c p;
          p \<leftarrow> p_consume p TOK_COLON (bracket_message '':'' ''match pattern'');
          (body, p) \<leftarrow> c_block c p;
          p \<leftarrow> skip_newlines n p;
          case pattern of
            None \<Rightarrow> Some (([], Some (body, guard)), p)
          | Some a \<Rightarrow> do {
              ((arms, wildcard), p) \<leftarrow> match_loop n c p;
              Some (((a, body, guard) # arms, wildcard), p)
            }
        }
      })"

definition parse_match :: "nat \<Rightarrow> calls \<Rightarrow> ast parses" where
  "parse_match n c p0 = do {
     (subject, p) \<leftarrow> c_expr c p0;
     p \<leftarrow> p_consume p TOK_COLON (bracket_message '':'' ''match subject'');
     p \<leftarrow> p_consume p TOK_NEWLINE ''Expected newline before match body'';
     p \<leftarrow> p_consume p TOK_INDENT ''Expected indented match body'';
     ((arms, wildcard), p) \<leftarrow> match_loop n c p;
     p \<leftarrow> p_consume p TOK_DEDENT ''Expected end of match body'';
     Some (AST_MATCH (pos_previous p0) subject (map fst arms) (map (fst \<circ> snd) arms) (map (snd \<circ> snd) arms)
             (map_option fst wildcard) (case wildcard of None \<Rightarrow> None | Some (_, g) \<Rightarrow> g), p)
   }"

end
