(* ===== verification/ParserModule.thy ===== *)
theory ParserModule
  imports ParserStmts
begin

text \<open>
  Control statements, imports, the dispatch on a statement's first token, and the module loop
  (\<^verbatim>\<open>src/parser/parser.c\<close>, from \<^verbatim>\<open>parse_if\<close> on).  \<open>parse_calls n\<close> ties the recursion of all the functions at
  depth \<open>n\<close>.
\<close>

definition quoted :: "string \<Rightarrow> string" where
  "quoted s = CHR 0x27 # s @ [CHR 0x27]"

section \<open>Control statements\<close>

fun elif_loop :: "nat \<Rightarrow> calls \<Rightarrow> (ast \<times> ast) list parses" where
  "elif_loop 0 c p = None"
| "elif_loop (Suc n) c p =
     (if p_check p TOK_ELIF then do {
        p \<leftarrow> p_advance p;
        (cond, p) \<leftarrow> c_expr c p;
        p \<leftarrow> p_consume p TOK_COLON (bracket_message '':'' ''elif condition'');
        (branch, p) \<leftarrow> c_block c p;
        p \<leftarrow> skip_newlines n p;
        (es, p) \<leftarrow> elif_loop n c p;
        Some ((cond, branch) # es, p)
      }
      else Some ([], p))"

text \<open>A block behind a keyword and a colon, if the keyword is there.\<close>

definition clause_block :: "token_kind \<Rightarrow> string \<Rightarrow> calls \<Rightarrow> ast option parses" where
  "clause_block k what c p =
     (if p_check p k then do {
        p \<leftarrow> p_advance p;
        p \<leftarrow> p_consume p TOK_COLON (bracket_message '':'' what);
        (b, p) \<leftarrow> c_block c p;
        Some (Some b, p)
      }
      else Some (None, p))"

definition parse_if :: "nat \<Rightarrow> calls \<Rightarrow> ast parses" where
  "parse_if n c p0 = do {
     (cond, p) \<leftarrow> c_expr c p0;
     p \<leftarrow> p_consume p TOK_COLON (bracket_message '':'' ''if condition'');
     (branch, p) \<leftarrow> c_block c p;
     p \<leftarrow> skip_newlines n p;
     (elifs, p) \<leftarrow> elif_loop n c p;
     (others, p) \<leftarrow> clause_block TOK_ELSE ''else'' c p;
     Some (AST_IF (pos_previous p0) cond branch (map fst elifs) (map snd elifs) others, p)
   }"

definition parse_while :: "calls \<Rightarrow> ast parses" where
  "parse_while c p0 = do {
     (cond, p) \<leftarrow> c_expr c p0;
     p \<leftarrow> p_consume p TOK_COLON (bracket_message '':'' ''while condition'');
     (body, p) \<leftarrow> c_block c p;
     Some (AST_WHILE (pos_previous p0) cond body, p)
   }"

text \<open>A list of names with at least one member, separated by commas; \<open>msg\<close> is the error of a missing name.\<close>

fun names_loop :: "nat \<Rightarrow> string \<Rightarrow> (pos \<times> string) list parses" where
  "names_loop 0 msg p = None"
| "names_loop (Suc n) msg p = do {
     p \<leftarrow> p_consume p TOK_IDENT msg;
     let name = (pos_previous p, previous_text p);
     (more, p) \<leftarrow> p_match p TOK_COMMA;
     if more then do { (names, p) \<leftarrow> names_loop n msg p; Some (name # names, p) }
     else Some ([name], p)
   }"

definition parse_for :: "nat \<Rightarrow> calls \<Rightarrow> ast parses" where
  "parse_for n c p0 = do {
     (vars, p) \<leftarrow> names_loop n ''Expected loop variable name'' p0;
     p \<leftarrow> p_consume p TOK_IN (bracket_message ''in'' ''loop variable(s)'');
     (iterable, p) \<leftarrow> c_expr c p;
     p \<leftarrow> p_consume p TOK_COLON (bracket_message '':'' ''for iterable'');
     (body, p) \<leftarrow> c_block c p;
     Some (AST_FOR (pos_previous p0) (map snd vars) iterable body, p)
   }"

definition parse_with :: "calls \<Rightarrow> ast parses" where
  "parse_with c p0 = do {
     (manager, p) \<leftarrow> c_expr c p0;
     (named, p) \<leftarrow> p_match p TOK_AS;
     (var, p) \<leftarrow> (if named then do {
         p \<leftarrow> p_consume p TOK_IDENT (''Expected variable name after '' @ quoted ''as'');
         Some (Some (previous_text p), p)
       } else Some (None, p));
     p \<leftarrow> p_consume p TOK_COLON (bracket_message '':'' (quoted ''with'' @ '' expression''));
     (body, p) \<leftarrow> c_block c p;
     Some (AST_WITH (pos_previous p0) var manager body, p)
   }"

text \<open>The optional value of a return or raise statement.\<close>

definition optional_value :: "calls \<Rightarrow> ast option parses" where
  "optional_value c p =
     (if \<not> p_check p TOK_NEWLINE \<and> \<not> p_check p TOK_EOF \<and> \<not> p_check p TOK_DEDENT
      then do { (e, p) \<leftarrow> c_expr c p; Some (Some e, p) }
      else Some (None, p))"

definition parse_return :: "calls \<Rightarrow> ast parses" where
  "parse_return c p0 = do { (v, p) \<leftarrow> optional_value c p0; Some (AST_RETURN (pos_previous p0) v, p) }"

definition parse_raise :: "calls \<Rightarrow> ast parses" where
  "parse_raise c p0 = do { (v, p) \<leftarrow> optional_value c p0; Some (AST_RAISE (pos_previous p0) v, p) }"

definition catch_block :: "nat \<Rightarrow> calls \<Rightarrow> (string option \<times> ast option) parses" where
  "catch_block n c p =
     (if p_check p TOK_CATCH then do {
        p \<leftarrow> p_advance p;
        (var, p) \<leftarrow> (if p_check p TOK_IDENT then do { q \<leftarrow> p_advance p; Some (Some (current_text p), q) } else Some (None, p));
        p \<leftarrow> p_consume p TOK_COLON (bracket_message '':'' (quoted ''catch''));
        (b, p) \<leftarrow> c_block c p;
        p \<leftarrow> skip_newlines n p;
        Some ((var, Some b), p)
      }
      else Some ((None, None), p))"

definition parse_try :: "nat \<Rightarrow> calls \<Rightarrow> ast parses" where
  "parse_try n c p0 = do {
     p \<leftarrow> p_consume p0 TOK_COLON (bracket_message '':'' (quoted ''try''));
     (body, p) \<leftarrow> c_block c p;
     p \<leftarrow> skip_newlines n p;
     ((var, handler), p) \<leftarrow> catch_block n c p;
     (cleanup, p) \<leftarrow> clause_block TOK_FINALLY (quoted ''finally'') c p;
     let p = (if handler = None \<and> cleanup = None
              then parser_error p (''try statement requires at least '' @ quoted ''catch'' @ '' or '' @ quoted ''finally'') else p);
     Some (AST_TRY (pos_previous p0) body var handler cleanup, p)
   }"

section \<open>Imports\<close>

text \<open>The further parts of a dotted module name, each with the dot before it.\<close>

fun dotted_loop :: "nat \<Rightarrow> string \<Rightarrow> string parses" where
  "dotted_loop 0 module p = None"
| "dotted_loop (Suc n) module p =
     (if p_check p TOK_DOT then do {
        p \<leftarrow> p_advance p;
        if \<not> p_check p TOK_IDENT then Some (module, p)
        else do { q \<leftarrow> p_advance p; dotted_loop n (module @ ''.'' @ current_text p) q }
      }
      else Some (module, p))"

fun import_names :: "nat \<Rightarrow> (ast \<times> ast option) list parses" where
  "import_names 0 p = None"
| "import_names (Suc n) p = do {
     p \<leftarrow> p_consume p TOK_IDENT (''Expected name after '' @ quoted ''import'');
     let name = AST_IDENT (pos_previous p) (previous_text p);
     (aliased, p) \<leftarrow> p_match p TOK_AS;
     (alias, p) \<leftarrow> (if aliased then do {
         p \<leftarrow> p_consume p TOK_IDENT (''Expected alias after '' @ quoted ''as'');
         Some (Some (AST_IDENT (pos_previous p) (previous_text p)), p)
       } else Some (None, p));
     (more, p) \<leftarrow> p_match p TOK_COMMA;
     if more then do { (names, p) \<leftarrow> import_names n p; Some ((name, alias) # names, p) }
     else Some ([(name, alias)], p)
   }"

definition parse_from_import :: "nat \<Rightarrow> ast parses" where
  "parse_from_import n p0 = do {
     p \<leftarrow> p_consume p0 TOK_IDENT (''Expected module name after '' @ quoted ''from'');
     (module, p) \<leftarrow> dotted_loop n (previous_text p) p;
     p \<leftarrow> p_consume p TOK_IMPORT
           (''Expected '' @ quoted ''import'' @ '' after module name in '' @ quoted ''from'' @ '' statement'');
     (star, p) \<leftarrow> p_match p TOK_STAR;
     if star then Some (AST_FROM_IMPORT (pos_previous p0) module [AST_IDENT (pos_previous p0) ''*''] [None], p)
     else do {
       (names, p) \<leftarrow> import_names n p;
       Some (AST_FROM_IMPORT (pos_previous p0) module (map fst names) (map snd names), p)
     }
   }"

definition parse_import :: "nat \<Rightarrow> ast parses" where
  "parse_import n p0 = do {
     p \<leftarrow> (if p_check p0 TOK_IDENT \<or> token_is_keyword (p_kind p0) then p_advance p0
          else p_consume p0 TOK_IDENT ''Expected module name'');
     (module, p) \<leftarrow> dotted_loop n (previous_text p) p;
     (aliased, p) \<leftarrow> p_match p TOK_AS;
     (alias, p) \<leftarrow> (if aliased then do {
         p \<leftarrow> p_consume p TOK_IDENT (''Expected alias after '' @ quoted ''as'');
         Some (Some (previous_text p), p)
       } else Some (None, p));
     Some (AST_IMPORT (pos_previous p0) module alias, p)
   }"

section \<open>Statements\<close>

text \<open>A word of another language followed by the start of a declaration is reported and its line and block are
  skipped.  The message holds a dash of three bytes.\<close>

definition unknown_keyword_message :: "string \<Rightarrow> string \<Rightarrow> string" where
  "unknown_keyword_message word suggestion =
     ''unknown keyword '' @ quoted word @ [CHR '' '', CHR 0xE2, CHR 0x80, CHR 0x94] @ '' did you mean '' @ quoted suggestion @ ''?''"

definition declaration_follows :: "token_kind list" where
  "declaration_follows = [TOK_IDENT, TOK_LPAREN, TOK_COLON, TOK_NEWLINE, TOK_EOF]"

definition unknown_keyword :: "parser \<Rightarrow> string option option" where
  "unknown_keyword p =
     (case (if p_check p TOK_IDENT then keyword_suggestion (current_text p) else None) of
        None \<Rightarrow> Some None
      | Some s \<Rightarrow> do { k \<leftarrow> look_ahead p; Some (if k \<in> set declaration_follows then Some s else None) })"

definition skip_unknown :: "nat \<Rightarrow> string \<Rightarrow> parser \<Rightarrow> parser option" where
  "skip_unknown n suggestion p = do {
     let p = parser_error p (unknown_keyword_message (current_text p) suggestion);
     p \<leftarrow> skip_to_eol n p;
     (_, p) \<leftarrow> p_match p TOK_NEWLINE;
     p \<leftarrow> skip_orphan_block n p;
     Some (p\<lparr>ps_panic_mode := False\<rparr>)
   }"

fun decorators_loop :: "nat \<Rightarrow> calls \<Rightarrow> ast list parses" where
  "decorators_loop 0 c p = None"
| "decorators_loop (Suc n) c p = do {
     (more, p) \<leftarrow> p_match p TOK_AT_ARROW;
     if more then do {
       (d, p) \<leftarrow> c_expr c p;
       (_, p) \<leftarrow> p_match p TOK_NEWLINE;
       p \<leftarrow> skip_newlines n p;
       (ds, p) \<leftarrow> decorators_loop n c p;
       Some (d # ds, p)
     }
     else Some ([], p)
   }"

definition end_line :: "ast \<Rightarrow> ast option parses" where
  "end_line node p = do { (_, p) \<leftarrow> p_match p TOK_NEWLINE; Some (Some node, p) }"

definition parse_decorated :: "nat \<Rightarrow> calls \<Rightarrow> ast option parses" where
  "parse_decorated n c p = do {
     (decorators, p) \<leftarrow> decorators_loop n c p;
     (is_async, p) \<leftarrow> p_match p TOK_ASYNC;
     (ok, p) \<leftarrow> (if is_async then do {
         p \<leftarrow> p_consume p TOK_FUNC (''Expected '' @ quoted ''func'' @ '' after '' @ quoted ''async'' @ '' in decorated definition'');
         Some (True, p)
       } else p_match p TOK_FUNC);
     if \<not> ok then Some (None, parser_error p (''Expected '' @ quoted ''func'' @ '' or '' @ quoted ''async func'' @ '' after ''
                                            @ quoted ''@>'' @ '' decorator''))
     else do { (node, p) \<leftarrow> parse_func_def n c is_async decorators p; end_line node p }
   }"

text \<open>The statement behind its keyword \<open>k\<close>; \<open>pos\<close> is the position of the keyword.\<close>

definition parse_keyword_stmt :: "nat \<Rightarrow> calls \<Rightarrow> pos \<Rightarrow> token_kind \<Rightarrow> ast parses option" where
  "parse_keyword_stmt n c pos k =
     (if k = TOK_FUNC then Some (parse_func_def n c False [])
      else if k = TOK_ASYNC then Some (\<lambda>p. do {
        p \<leftarrow> p_consume p TOK_FUNC (''Expected '' @ quoted ''func'' @ '' after '' @ quoted ''async'');
        parse_func_def n c True [] p
      })
      else if k = TOK_CLASS then Some (parse_class_def c)
      else if k = TOK_STRUCT then Some (parse_struct_def c)
      else if k = TOK_ENUM then Some (parse_enum_def n c)
      else if k = TOK_LET then Some (parse_let_decl n c False)
      else if k = TOK_CONST then Some (parse_let_decl n c True)
      else if k = TOK_MATCH then Some (parse_match n c)
      else if k = TOK_IF then Some (parse_if n c)
      else if k = TOK_WHILE then Some (parse_while c)
      else if k = TOK_FOR then Some (parse_for n c)
      else if k = TOK_WITH then Some (parse_with c)
      else if k = TOK_RETURN then Some (parse_return c)
      else if k = TOK_IMPORT then Some (parse_import n)
      else if k = TOK_FROM then Some (parse_from_import n)
      else if k = TOK_BREAK then Some (\<lambda>p. Some (AST_BREAK pos, p))
      else if k = TOK_CONTINUE then Some (\<lambda>p. Some (AST_CONTINUE pos, p))
      else if k = TOK_PASS then Some (\<lambda>p. Some (AST_PASS pos, p))
      else if k = TOK_YIELD then Some (\<lambda>p.
        if \<not> p_check p TOK_NEWLINE \<and> \<not> p_check p TOK_EOF
        then do { (e, p) \<leftarrow> c_expr c p; Some (AST_YIELD pos (Some e), p) }
        else Some (AST_YIELD pos None, p))
      else if k = TOK_TRY then Some (parse_try n c)
      else if k = TOK_RAISE then Some (parse_raise c)
      else if k = TOK_NONLOCAL then Some (\<lambda>p. do {
        (names, p) \<leftarrow> names_loop n (''Expected variable name after '' @ quoted ''nonlocal'') p;
        Some (AST_NONLOCAL pos (map (\<lambda>(q, name). AST_IDENT q name) names), p)
      })
      else None)"

definition parse_stmt :: "nat \<Rightarrow> calls \<Rightarrow> ast option parses" where
  "parse_stmt n c p = do {
     p \<leftarrow> skip_newlines n p;
     let pos = pos_current p;
     unknown \<leftarrow> unknown_keyword p;
     case unknown of
       Some suggestion \<Rightarrow> do { p \<leftarrow> skip_unknown n suggestion p; Some (None, p) }
     | None \<Rightarrow>
         if p_check p TOK_AT_ARROW then parse_decorated n c p
         else case parse_keyword_stmt n c pos (p_kind p) of
           Some f \<Rightarrow> do { p \<leftarrow> p_advance p; (node, p) \<leftarrow> f p; end_line node p }
         | None \<Rightarrow> do { (e, p) \<leftarrow> c_expr c p; end_line (AST_EXPR_STMT pos e) p }
   }"

section \<open>The recursion\<close>

primrec parse_calls :: "nat \<Rightarrow> calls" where
  "parse_calls 0 =
     \<lparr>c_expr = \<lambda>p. None, c_ternary = \<lambda>p. None, c_not = \<lambda>p. None, c_unary = \<lambda>p. None, c_power = \<lambda>p. None,
      c_pattern = \<lambda>p. None, c_block = \<lambda>p. None, c_stmt = \<lambda>p. None\<rparr>"
| "parse_calls (Suc n) =
     (let c = parse_calls n in
      \<lparr>c_expr = parse_expr n c, c_ternary = parse_ternary n c, c_not = parse_not n c, c_unary = parse_unary n c,
       c_power = parse_power n c, c_pattern = parse_pattern n c, c_block = parse_block n c, c_stmt = parse_stmt n c\<rparr>)"

section \<open>Modules\<close>

definition parser_init :: "lexer \<Rightarrow> parser option" where
  "parser_init lx =
     p_advance \<lparr>ps_lex = lx, ps_current = blank_token, ps_previous = blank_token,
                ps_had_error = False, ps_panic_mode = False, ps_errors = []\<rparr>"

fun module_loop :: "nat \<Rightarrow> calls \<Rightarrow> ast list parses" where
  "module_loop 0 c p = None"
| "module_loop (Suc n) c p =
     (if p_check p TOK_EOF then Some ([], p)
      else if p_check p TOK_INDENT \<or> p_check p TOK_DEDENT then do {
        p \<leftarrow> p_advance p;
        p \<leftarrow> skip_newlines n p;
        module_loop n c p
      }
      else do {
        (stmt, p) \<leftarrow> c_stmt c p;
        p \<leftarrow> (if ps_panic_mode p then synchronize n p else Some p);
        p \<leftarrow> skip_newlines n p;
        (stmts, p) \<leftarrow> module_loop n c p;
        Some (case stmt of None \<Rightarrow> stmts | Some s \<Rightarrow> s # stmts, p)
      })"

definition parser_parse :: "nat \<Rightarrow> ast parses" where
  "parser_parse n p = do {
     p \<leftarrow> skip_newlines n p;
     (stmts, p) \<leftarrow> module_loop n (parse_calls n) p;
     Some (AST_MODULE (1, 1) stmts, p)
   }"

definition parse_source :: "nat \<Rightarrow> string \<Rightarrow> (ast \<times> parser) option" where
  "parse_source n src = do { p \<leftarrow> parser_init (lexer_init src); parser_parse n p }"

end
