(* ===== verification/Grammar.thy ===== *)
theory Grammar
  imports ParserModule
begin

text \<open>
  The grammar of the language as an inductive definition over token kinds and texts, with the tree of each phrase.
  It is the specification the parser is proved to implement; positions are \<open>nowhere\<close>.
\<close>

type_synonym item = "token_kind \<times> string"

abbreviation nowhere :: pos where "nowhere \<equiv> (0, 0)"

section \<open>Levels\<close>

datatype (plugins only:) level =
    Expr | Ternary | Pipeline | Or | And | Not | Comparison | Bitor | Bitxor | Bitand | Shift | Add | Mul
  | Unary | Power | Postfix | Primary

primrec below :: "level \<Rightarrow> level" where
  "below Expr = Ternary"
| "below Ternary = Pipeline"
| "below Pipeline = Or"
| "below Or = And"
| "below And = Not"
| "below Not = Comparison"
| "below Comparison = Bitor"
| "below Bitor = Bitxor"
| "below Bitxor = Bitand"
| "below Bitand = Shift"
| "below Shift = Add"
| "below Add = Mul"
| "below Mul = Unary"
| "below Unary = Power"
| "below Power = Postfix"
| "below Postfix = Primary"
| "below Primary = Primary"

text \<open>The operators of the left-associative levels.\<close>

primrec level_ops :: "level \<Rightarrow> token_kind list" where
  "level_ops Expr = []"
| "level_ops Ternary = []"
| "level_ops Pipeline = []"
| "level_ops Or = [TOK_OR]"
| "level_ops And = [TOK_AND]"
| "level_ops Not = []"
| "level_ops Comparison = [TOK_EQ, TOK_NEQ, TOK_LT, TOK_LTE, TOK_GT, TOK_GTE, TOK_IS]"
| "level_ops Bitor = [TOK_PIPE]"
| "level_ops Bitxor = [TOK_CARET]"
| "level_ops Bitand = [TOK_AMPERSAND]"
| "level_ops Shift = [TOK_LSHIFT, TOK_RSHIFT]"
| "level_ops Add = [TOK_PLUS, TOK_MINUS]"
| "level_ops Mul = [TOK_STAR, TOK_SLASH, TOK_SLASH_SLASH, TOK_PERCENT]"
| "level_ops Unary = []"
| "level_ops Power = []"
| "level_ops Postfix = []"
| "level_ops Primary = []"

section \<open>Types, names\<close>

text \<open>Annotations are skipped by the parser: a dotted path, type arguments in angle brackets, a question mark.\<close>

inductive type_path :: "item list \<Rightarrow> bool" where
  path_end: "type_path []"
| path_dot: "type_path ws \<Longrightarrow> type_path ((TOK_DOT, s) # (TOK_IDENT, s') # ws)"

fun type_args :: "nat \<Rightarrow> item list \<Rightarrow> bool" where
  "type_args d [] = (d = 0)"
| "type_args d ((k, s) # ws) =
     (0 < d \<and> k \<noteq> TOK_NEWLINE \<and> k \<noteq> TOK_EOF \<and>
      type_args (if k = TOK_LT then d + 1 else if k = TOK_GT then d - 1 else d) ws)"

inductive annotation :: "item list \<Rightarrow> bool" where
  "k = TOK_IDENT \<or> token_is_keyword k \<Longrightarrow> type_path ps \<Longrightarrow> gs = [] \<or> (\<exists>s' us. gs = (TOK_LT, s') # us \<and> type_args 1 us) \<Longrightarrow>
    qs = [] \<or> (\<exists>s'. qs = [(TOK_QUESTION, s')]) \<Longrightarrow> annotation ((k, s) # ps @ gs @ qs)"

inductive typed :: "item list \<Rightarrow> string option \<Rightarrow> bool" where
  typed_none: "typed [] None"
| typed_some: "annotation ws \<Longrightarrow> typed ((TOK_COLON, s) # ws) (Some (snd (hd ws)))"

inductive returns :: "item list \<Rightarrow> bool" where
  returns_none: "returns []"
| returns_some: "annotation ws \<Longrightarrow> returns ((TOK_ARROW, s) # ws)"

inductive names :: "item list \<Rightarrow> string list \<Rightarrow> bool" where
  names_one: "names [(TOK_IDENT, v)] [v]"
| names_more: "names ws vs \<Longrightarrow> names ((TOK_IDENT, v) # (TOK_COMMA, s) # ws) (v # vs)"

inductive lambda_names :: "item list \<Rightarrow> ast_param list \<Rightarrow> bool" where
  lnames_nil: "lambda_names [] []"
| lnames_one: "typed ts h \<Longrightarrow> lambda_names ((TOK_IDENT, v) # ts) [(v, None, None)]"
| lnames_more: "typed ts h \<Longrightarrow> lambda_names ws ps \<Longrightarrow> lambda_names ((TOK_IDENT, v) # ts @ (TOK_COMMA, s) # ws) ((v, None, None) # ps)"

inductive dots :: "item list \<Rightarrow> string \<Rightarrow> bool" where
  dots_end: "dots [] []"
| dots_more: "dots ws m \<Longrightarrow> dots ((TOK_DOT, s) # (TOK_IDENT, v) # ws) (''.'' @ v @ m)"

inductive alias_name :: "item list \<Rightarrow> string option \<Rightarrow> bool" where
  alias_none: "alias_name [] None"
| alias_some: "alias_name [(TOK_AS, s), (TOK_IDENT, v)] (Some v)"

inductive imported :: "item list \<Rightarrow> ast list \<Rightarrow> ast option list \<Rightarrow> bool" where
  imported_one: "alias_name as a \<Longrightarrow> imported ((TOK_IDENT, v) # as) [AST_IDENT nowhere v] [map_option (AST_IDENT nowhere) a]"
| imported_more: "alias_name as a \<Longrightarrow> imported ws vs bs \<Longrightarrow>
    imported ((TOK_IDENT, v) # as @ (TOK_COMMA, s) # ws) (AST_IDENT nowhere v # vs) (map_option (AST_IDENT nowhere) a # bs)"

inductive base_class :: "item list \<Rightarrow> string option \<Rightarrow> bool" where
  base_none: "base_class [] None"
| base_some: "base_class [(TOK_LPAREN, s), (TOK_IDENT, v), (TOK_RPAREN, s')] (Some v)"

section \<open>Statement ends\<close>

text \<open>A statement that begins like a declaration of another language is rejected.\<close>

definition foreign :: "item list \<Rightarrow> bool" where
  "foreign ws \<longleftrightarrow> fst (hd ws) = TOK_IDENT \<and> keyword_suggestion (snd (hd ws)) \<noteq> None \<and>
     (tl ws = [] \<or> fst (hd (tl ws)) \<in> set declaration_follows)"

text \<open>The line end behind a simple statement may be missing when the next token cannot continue it.\<close>

definition line_end :: "bool \<Rightarrow> item list" where
  "line_end b = (if b then [] else [(TOK_NEWLINE, [])])"

inductive case_word :: "item list \<Rightarrow> bool" where
  case_none: "case_word []"
| case_some: "case_word [(TOK_IDENT, ''case'')]"

section \<open>Phrases\<close>

text \<open>
  \<open>expr L b ws t\<close>: the tokens \<open>ws\<close> are an expression of level \<open>L\<close> with tree \<open>t\<close>; \<open>b\<close> marks one that ends with the
  body of a lambda, which takes every operator that follows.
\<close>

inductive
  expr :: "level \<Rightarrow> bool \<Rightarrow> item list \<Rightarrow> ast \<Rightarrow> bool" and
  exprs :: "item list \<Rightarrow> ast list \<Rightarrow> bool" and
  entries :: "item list \<Rightarrow> ast list \<Rightarrow> ast list \<Rightarrow> bool" and
  optional :: "token_kind \<Rightarrow> item list \<Rightarrow> ast option \<Rightarrow> bool" and
  bound :: "item list \<Rightarrow> ast option \<Rightarrow> bool" and
  params :: "item list \<Rightarrow> ast_param list \<Rightarrow> bool" and
  signature :: "item list \<Rightarrow> string \<Rightarrow> ast_param list \<Rightarrow> ast \<Rightarrow> bool" and
  decorators :: "item list \<Rightarrow> ast list \<Rightarrow> bool" and
  stmt :: "bool \<Rightarrow> item list \<Rightarrow> ast \<Rightarrow> bool" and
  stmts :: "item list \<Rightarrow> ast list \<Rightarrow> bool" and
  block :: "item list \<Rightarrow> ast \<Rightarrow> bool" and
  elifs :: "item list \<Rightarrow> ast list \<Rightarrow> ast list \<Rightarrow> bool" and
  clause :: "token_kind \<Rightarrow> item list \<Rightarrow> ast option \<Rightarrow> bool" and
  catcher :: "item list \<Rightarrow> string option \<Rightarrow> ast option \<Rightarrow> bool" and
  members :: "item list \<Rightarrow> ast list \<Rightarrow> ast option list \<Rightarrow> bool" and
  pattern :: "bool \<Rightarrow> item list \<Rightarrow> ast \<Rightarrow> bool" and
  patterns :: "item list \<Rightarrow> ast list \<Rightarrow> bool" and
  arms :: "item list \<Rightarrow> (ast \<times> ast \<times> ast option) list \<Rightarrow> (ast \<times> ast option) option \<Rightarrow> bool"
where
  e_below: "expr (below L) b ws t \<Longrightarrow> L \<noteq> Primary \<Longrightarrow> L = Not \<longrightarrow> fst (hd ws) \<noteq> TOK_NOT \<Longrightarrow> expr L b ws t"
| e_int: "expr Primary False [(TOK_INT, s)] (AST_INT nowhere (strtoll (take 63 s)))"
| e_float: "expr Primary False [(TOK_FLOAT, s)] (AST_FLOAT nowhere (strtod (take 63 s)))"
| e_string: "expr Primary False [(TOK_STRING, s)] (AST_STRING nowhere (unescape (inner 1 1 s)))"
| e_string3: "expr Primary False [(TOK_STRING3, s)] (AST_STRING nowhere (unescape (inner 3 3 s)))"
| e_true: "expr Primary False [(TOK_TRUE, s)] (AST_BOOL nowhere True)"
| e_false: "expr Primary False [(TOK_FALSE, s)] (AST_BOOL nowhere False)"
| e_null: "expr Primary False [(TOK_NULL, s)] (AST_NULL nowhere)"
| e_ident: "k \<in> {TOK_IDENT, TOK_SELF, TOK_SUPER} \<Longrightarrow> expr Primary False [(k, s)] (AST_IDENT nowhere s)"
| e_paren: "expr Expr b ws t \<Longrightarrow> expr Primary False ((TOK_LPAREN, s) # ws @ [(TOK_RPAREN, s')]) t"
| e_list: "exprs ws ts \<Longrightarrow> expr Primary False ((TOK_LBRACKET, s) # ws @ [(TOK_RBRACKET, s')]) (AST_LIST nowhere ts)"
| e_list_comp: "expr Expr False ws t \<Longrightarrow> expr Expr b us i \<Longrightarrow> optional TOK_IF cs c \<Longrightarrow>
    expr Primary False ((TOK_LBRACKET, s1) # ws @ (TOK_FOR, s2) # (TOK_IDENT, v) # (TOK_IN, s3) # us @ cs @ [(TOK_RBRACKET, s4)])
      (AST_LIST_COMP nowhere t v i c)"
| e_dict: "entries ws ks vs \<Longrightarrow> expr Primary False ((TOK_LBRACE, s) # ws @ [(TOK_RBRACE, s')]) (AST_DICT nowhere ks vs)"
| e_dict_comp: "expr Expr bk ks k \<Longrightarrow> expr Expr bv vs t \<Longrightarrow> expr Expr b us i \<Longrightarrow> optional TOK_IF cs c \<Longrightarrow>
    expr Primary False
      ((TOK_LBRACE, s1) # ks @ (TOK_COLON, s5) # vs @ (TOK_FOR, s2) # (TOK_IDENT, v) # (TOK_IN, s3) # us @ cs @ [(TOK_RBRACE, s4)])
      (AST_DICT_COMP nowhere k t v i c)"
| e_lambda: "lambda_names ps qs \<Longrightarrow> expr Expr b us t \<Longrightarrow>
    expr Primary True ((TOK_PIPE, s1) # ps @ (TOK_PIPE, s2) # (TOK_FAT_ARROW, s3) # us) (AST_LAMBDA nowhere qs t True)"
| e_lambda_block: "lambda_names ps qs \<Longrightarrow> block us t \<Longrightarrow>
    expr Primary False ((TOK_PIPE, s1) # ps @ (TOK_PIPE, s2) # (TOK_FAT_ARROW, s3) # (TOK_COLON, s4) # us)
      (AST_LAMBDA nowhere qs t False)"
| e_call: "expr Postfix False us f \<Longrightarrow> exprs ws ts \<Longrightarrow>
    expr Postfix False (us @ (TOK_LPAREN, s) # ws @ [(TOK_RPAREN, s')]) (AST_CALL nowhere f ts)"
| e_index: "expr Postfix False us a \<Longrightarrow> expr Expr b ws i \<Longrightarrow>
    expr Postfix False (us @ (TOK_LBRACKET, s) # ws @ [(TOK_RBRACKET, s')]) (AST_INDEX nowhere a i)"
| e_slice: "expr Postfix False us a \<Longrightarrow> bound ws1 start \<Longrightarrow> bound ws2 stop \<Longrightarrow>
    expr Postfix False (us @ (TOK_LBRACKET, s) # ws1 @ (TOK_COLON, s2) # ws2 @ [(TOK_RBRACKET, s')])
      (AST_SLICE nowhere a start stop None)"
| e_slice_step: "expr Postfix False us a \<Longrightarrow> bound ws1 start \<Longrightarrow> bound ws2 stop \<Longrightarrow> bound ws3 step \<Longrightarrow>
    expr Postfix False (us @ (TOK_LBRACKET, s) # ws1 @ (TOK_COLON, s2) # ws2 @ (TOK_COLON, s3) # ws3 @ [(TOK_RBRACKET, s')])
      (AST_SLICE nowhere a start stop step)"
| e_attr: "expr Postfix False us a \<Longrightarrow> k = TOK_IDENT \<or> token_is_keyword k \<Longrightarrow>
    expr Postfix False (us @ [(TOK_DOT, s), (k, v)]) (AST_ATTR nowhere a v)"
| e_power: "expr Postfix False us a \<Longrightarrow> expr Power b ws t \<Longrightarrow>
    expr Power b (us @ (TOK_STAR_STAR, s) # ws) (AST_BINARY nowhere TOK_STAR_STAR a t)"
| e_unary: "k \<in> {TOK_MINUS, TOK_TILDE, TOK_NOT} \<Longrightarrow> expr Unary b ws t \<Longrightarrow> expr Unary b ((k, s) # ws) (AST_UNARY nowhere k t)"
| e_await: "expr Unary b ws t \<Longrightarrow> expr Unary b ((TOK_AWAIT, s) # ws) (AST_AWAIT nowhere t)"
| e_spawn: "expr Unary b ws t \<Longrightarrow> expr Unary b ((TOK_SPAWN, s) # ws) (AST_SPAWN nowhere t)"
| e_binary: "expr L False us a \<Longrightarrow> expr (below L) b ws t \<Longrightarrow> k \<in> set (level_ops L) \<Longrightarrow>
    expr L b (us @ (k, s) # ws) (AST_BINARY nowhere k a t)"
| e_not: "expr Not b ws t \<Longrightarrow> expr Not b ((TOK_NOT, s) # ws) (AST_UNARY nowhere TOK_NOT t)"
| e_pipe: "expr Pipeline False us a \<Longrightarrow> expr Or b ws t \<Longrightarrow> nl = [] \<or> nl = [(TOK_NEWLINE, [])] \<Longrightarrow>
    expr Pipeline b (us @ nl @ (TOK_PIPE_ARROW, s) # ws) (AST_PIPELINE nowhere a t)"
| e_ternary: "expr Pipeline False us c \<Longrightarrow> expr Ternary b' ws1 t1 \<Longrightarrow> expr Ternary b ws2 t2 \<Longrightarrow>
    expr Ternary b (us @ (TOK_QUESTION, s) # ws1 @ (TOK_COLON, s') # ws2) (AST_TERNARY nowhere c t1 t2)"
| e_walrus: "expr Ternary False us (AST_IDENT nowhere v) \<Longrightarrow> expr Expr b ws t \<Longrightarrow>
    expr Expr b (us @ (TOK_WALRUS, s) # ws) (AST_WALRUS nowhere v t)"
| e_assign: "expr Ternary False us a \<Longrightarrow> expr Expr b ws t \<Longrightarrow> expr Expr b (us @ (TOK_ASSIGN, s) # ws) (AST_ASSIGN nowhere a t)"
| e_aug: "expr Ternary False us a \<Longrightarrow> expr Expr b ws t \<Longrightarrow> k \<in> set aug_ops \<Longrightarrow>
    expr Expr b (us @ (k, s) # ws) (AST_AUGMENTED_ASSIGN nowhere a t k)"
| exprs_nil: "exprs [] []"
| exprs_one: "expr Expr b ws t \<Longrightarrow> exprs ws [t]"
| exprs_more: "expr Expr b ws t \<Longrightarrow> exprs us ts \<Longrightarrow> exprs (ws @ (TOK_COMMA, s) # us) (t # ts)"
| entries_nil: "entries [] [] []"
| entries_one: "expr Expr b ks k \<Longrightarrow> expr Expr b' vs v \<Longrightarrow> entries (ks @ (TOK_COLON, s) # vs) [k] [v]"
| entries_more: "expr Expr b ks k \<Longrightarrow> expr Expr b' vs v \<Longrightarrow> entries us kts vts \<Longrightarrow>
    entries (ks @ (TOK_COLON, s) # vs @ (TOK_COMMA, s') # us) (k # kts) (v # vts)"
| optional_none: "optional k [] None"
| optional_some: "expr Expr b ws t \<Longrightarrow> optional k ((k, s) # ws) (Some t)"
| bound_none: "bound [] None"
| bound_some: "expr Expr b ws t \<Longrightarrow> bound ws (Some t)"
| params_nil: "params [] []"
| params_one: "k \<in> {TOK_IDENT, TOK_SELF, TOK_SUPER} \<Longrightarrow> typed ts h \<Longrightarrow> optional TOK_ASSIGN ds d \<Longrightarrow>
    params ((k, v) # ts @ ds) [(v, h, d)]"
| params_more: "k \<in> {TOK_IDENT, TOK_SELF, TOK_SUPER} \<Longrightarrow> typed ts h \<Longrightarrow> optional TOK_ASSIGN ds d \<Longrightarrow> params ws ps \<Longrightarrow>
    params ((k, v) # ts @ ds @ (TOK_COMMA, s) # ws) ((v, h, d) # ps)"
| signature_intro: "params ws ps \<Longrightarrow> returns rs \<Longrightarrow> block bs t \<Longrightarrow>
    signature ((TOK_IDENT, v) # (TOK_LPAREN, s1) # ws @ (TOK_RPAREN, s2) # rs @ (TOK_COLON, s3) # bs) v ps t"
| decorators_one: "expr Expr b ws t \<Longrightarrow> decorators ((TOK_AT_ARROW, s) # ws @ [(TOK_NEWLINE, [])]) [t]"
| decorators_more: "expr Expr b ws t \<Longrightarrow> decorators us ts \<Longrightarrow>
    decorators ((TOK_AT_ARROW, s) # ws @ (TOK_NEWLINE, []) # us) (t # ts)"
| s_expr: "expr Expr b0 ws t \<Longrightarrow> \<not> foreign ws \<Longrightarrow> stmt b (ws @ line_end b) (AST_EXPR_STMT nowhere t)"
| s_let: "k \<in> {TOK_LET, TOK_CONST} \<Longrightarrow> typed ts h \<Longrightarrow> expr Expr b0 ws t \<Longrightarrow>
    stmt b ((k, s) # (TOK_IDENT, v) # ts @ (TOK_ASSIGN, s') # ws @ line_end b) (AST_LET_DECL nowhere v t (k = TOK_CONST))"
| s_let_null: "k \<in> {TOK_LET, TOK_CONST} \<Longrightarrow> typed ts h \<Longrightarrow>
    stmt False ((k, s) # (TOK_IDENT, v) # ts @ [(TOK_NEWLINE, [])]) (AST_LET_DECL nowhere v (AST_NULL nowhere) (k = TOK_CONST))"
| s_return: "expr Expr b0 ws t \<Longrightarrow> stmt b ((TOK_RETURN, s) # ws @ line_end b) (AST_RETURN nowhere (Some t))"
| s_return_none: "stmt False [(TOK_RETURN, s), (TOK_NEWLINE, [])] (AST_RETURN nowhere None)"
| s_raise: "expr Expr b0 ws t \<Longrightarrow> stmt b ((TOK_RAISE, s) # ws @ line_end b) (AST_RAISE nowhere (Some t))"
| s_raise_none: "stmt False [(TOK_RAISE, s), (TOK_NEWLINE, [])] (AST_RAISE nowhere None)"
| s_yield: "expr Expr b0 ws t \<Longrightarrow> stmt b ((TOK_YIELD, s) # ws @ line_end b) (AST_YIELD nowhere (Some t))"
| s_yield_none: "stmt False [(TOK_YIELD, s), (TOK_NEWLINE, [])] (AST_YIELD nowhere None)"
| s_break: "stmt False [(TOK_BREAK, s), (TOK_NEWLINE, [])] (AST_BREAK nowhere)"
| s_continue: "stmt False [(TOK_CONTINUE, s), (TOK_NEWLINE, [])] (AST_CONTINUE nowhere)"
| s_pass: "stmt False [(TOK_PASS, s), (TOK_NEWLINE, [])] (AST_PASS nowhere)"
| s_nonlocal: "names ws vs \<Longrightarrow>
    stmt False ((TOK_NONLOCAL, s) # ws @ [(TOK_NEWLINE, [])]) (AST_NONLOCAL nowhere (map (AST_IDENT nowhere) vs))"
| s_import: "k = TOK_IDENT \<or> token_is_keyword k \<Longrightarrow> dots ds m \<Longrightarrow> alias_name as a \<Longrightarrow>
    stmt False ((TOK_IMPORT, s) # (k, v) # ds @ as @ [(TOK_NEWLINE, [])]) (AST_IMPORT nowhere (v @ m) a)"
| s_from_star: "dots ds m \<Longrightarrow>
    stmt False ((TOK_FROM, s) # (TOK_IDENT, v) # ds @ [(TOK_IMPORT, s1), (TOK_STAR, s2), (TOK_NEWLINE, [])])
      (AST_FROM_IMPORT nowhere (v @ m) [AST_IDENT nowhere ''*''] [None])"
| s_from: "dots ds m \<Longrightarrow> imported ws vs as \<Longrightarrow>
    stmt False ((TOK_FROM, s) # (TOK_IDENT, v) # ds @ (TOK_IMPORT, s1) # ws @ [(TOK_NEWLINE, [])])
      (AST_FROM_IMPORT nowhere (v @ m) vs as)"
| s_if: "expr Expr b0 ws c \<Longrightarrow> block bs t \<Longrightarrow> elifs es cs ts \<Longrightarrow> clause TOK_ELSE us e \<Longrightarrow>
    stmt False ((TOK_IF, s) # ws @ (TOK_COLON, s') # bs @ es @ us) (AST_IF nowhere c t cs ts e)"
| s_while: "expr Expr b0 ws c \<Longrightarrow> block bs t \<Longrightarrow> stmt False ((TOK_WHILE, s) # ws @ (TOK_COLON, s') # bs) (AST_WHILE nowhere c t)"
| s_for: "names ns vs \<Longrightarrow> expr Expr b0 ws i \<Longrightarrow> block bs t \<Longrightarrow>
    stmt False ((TOK_FOR, s) # ns @ (TOK_IN, s1) # ws @ (TOK_COLON, s2) # bs) (AST_FOR nowhere vs i t)"
| s_with: "expr Expr b0 ws m \<Longrightarrow> alias_name as a \<Longrightarrow> block bs t \<Longrightarrow>
    stmt False ((TOK_WITH, s) # ws @ as @ (TOK_COLON, s') # bs) (AST_WITH nowhere a m t)"
| s_func: "signature ws v ps t \<Longrightarrow> stmt False ((TOK_FUNC, s) # ws) (AST_FUNC_DEF nowhere v ps t [])"
| s_async: "signature ws v ps t \<Longrightarrow> stmt False ((TOK_ASYNC, s) # (TOK_FUNC, s') # ws) (AST_ASYNC_FUNC_DEF nowhere v ps t [])"
| s_decorated: "decorators ds ts \<Longrightarrow> signature ws v ps t \<Longrightarrow> stmt False (ds @ (TOK_FUNC, s) # ws) (AST_FUNC_DEF nowhere v ps t ts)"
| s_decorated_async: "decorators ds ts \<Longrightarrow> signature ws v ps t \<Longrightarrow>
    stmt False (ds @ (TOK_ASYNC, s) # (TOK_FUNC, s') # ws) (AST_ASYNC_FUNC_DEF nowhere v ps t ts)"
| s_class: "base_class cs c \<Longrightarrow> block bs t \<Longrightarrow>
    stmt False ((TOK_CLASS, s) # (TOK_IDENT, v) # cs @ (TOK_COLON, s') # bs) (AST_CLASS_DEF nowhere v c t)"
| s_struct: "block bs t \<Longrightarrow> stmt False ((TOK_STRUCT, s) # (TOK_IDENT, v) # (TOK_COLON, s') # bs) (AST_STRUCT_DEF nowhere v t)"
| s_enum: "members ms vs ts \<Longrightarrow>
    stmt False ((TOK_ENUM, s) # (TOK_IDENT, v) # (TOK_COLON, s') # (TOK_NEWLINE, []) # (TOK_INDENT, []) # ms @ [(TOK_DEDENT, [])])
      (AST_ENUM_DEF nowhere v vs ts)"
| s_try: "block bs t \<Longrightarrow> catcher cs v h \<Longrightarrow> clause TOK_FINALLY fs f \<Longrightarrow> h \<noteq> None \<or> f \<noteq> None \<Longrightarrow>
    stmt False ((TOK_TRY, s) # (TOK_COLON, s') # bs @ cs @ fs) (AST_TRY nowhere t v h f)"
| s_match: "expr Expr b0 ws t \<Longrightarrow> arms us as w \<Longrightarrow>
    stmt False ((TOK_MATCH, s) # ws @ (TOK_COLON, s') # (TOK_NEWLINE, []) # (TOK_INDENT, []) # us @ [(TOK_DEDENT, [])])
      (AST_MATCH nowhere t (map fst as) (map (fst \<circ> snd) as) (map (snd \<circ> snd) as)
        (map_option fst w) (case w of None \<Rightarrow> None | Some (_, g) \<Rightarrow> g))"
| stmts_nil: "stmts [] []"
| stmts_more: "stmt False ws t \<Longrightarrow> stmts us ts \<Longrightarrow> stmts (ws @ us) (t # ts)"
| stmts_open: "stmt True ws t \<Longrightarrow> stmts us ts \<Longrightarrow> us = [] \<or> fst (hd us) \<notin> {TOK_LPAREN, TOK_LBRACKET, TOK_MINUS, TOK_PIPE} \<Longrightarrow>
    stmts (ws @ us) (t # ts)"
| block_intro: "stmts ws ts \<Longrightarrow> block ((TOK_NEWLINE, []) # (TOK_INDENT, []) # ws @ [(TOK_DEDENT, [])]) (AST_BLOCK nowhere ts)"
| elifs_nil: "elifs [] [] []"
| elifs_more: "expr Expr b0 ws c \<Longrightarrow> block bs t \<Longrightarrow> elifs es cs ts \<Longrightarrow>
    elifs ((TOK_ELIF, s) # ws @ (TOK_COLON, s') # bs @ es) (c # cs) (t # ts)"
| clause_none: "clause k [] None"
| clause_some: "block bs t \<Longrightarrow> clause k ((k, s) # (TOK_COLON, s') # bs) (Some t)"
| catcher_none: "catcher [] None None"
| catcher_some: "block bs t \<Longrightarrow> catcher ((TOK_CATCH, s) # (TOK_COLON, s') # bs) None (Some t)"
| catcher_named: "block bs t \<Longrightarrow> catcher ((TOK_CATCH, s) # (TOK_IDENT, v) # (TOK_COLON, s') # bs) (Some v) (Some t)"
| members_nil: "members [] [] []"
| members_more: "optional TOK_ASSIGN ds d \<Longrightarrow> members ms vs ts \<Longrightarrow>
    members ((TOK_IDENT, v) # ds @ (TOK_NEWLINE, []) # ms) (AST_IDENT nowhere v # vs) (d # ts)"
| p_type: "pattern False [(TOK_IS, s), (TOK_IDENT, v)] (AST_PATTERN_TYPE nowhere v)"
| p_value: "expr Bitxor False ws t \<Longrightarrow> pattern False ws t"
| p_range: "expr Bitxor False us a \<Longrightarrow> expr Bitxor False ws t \<Longrightarrow> pattern False (us @ (TOK_ELLIPSIS, s) # ws) (AST_PATTERN_RANGE nowhere a t)"
| p_bind: "expr Bitxor False us (AST_IDENT nowhere v) \<Longrightarrow> patterns ws ts \<Longrightarrow>
    pattern True (us @ (TOK_AS, s) # ws) (AST_PATTERN_BIND nowhere v (if length ts = 1 then hd ts else AST_PATTERN_OR nowhere ts))"
| patterns_one: "pattern b ws t \<Longrightarrow> patterns ws [t]"
| patterns_more: "pattern False ws t \<Longrightarrow> patterns us ts \<Longrightarrow> patterns (ws @ (TOK_PIPE, s) # us) (t # ts)"
| arms_nil: "arms [] [] None"
| arms_wild: "case_word cw \<Longrightarrow> optional TOK_IF gs g \<Longrightarrow> block bs t \<Longrightarrow>
    arms (cw @ (TOK_IDENT, ''_'') # gs @ (TOK_COLON, s) # bs) [] (Some (t, g))"
| arms_more: "case_word cw \<Longrightarrow> patterns ps ts \<Longrightarrow> hd ps \<noteq> (TOK_IDENT, ''_'') \<Longrightarrow> cw = [] \<longrightarrow> hd ps \<noteq> (TOK_IDENT, ''case'') \<Longrightarrow>
    optional TOK_IF gs g \<Longrightarrow> block bs t \<Longrightarrow> arms us as w \<Longrightarrow>
    arms (cw @ ps @ gs @ (TOK_COLON, s) # bs @ us)
      ((if length ts = 1 then hd ts else AST_PATTERN_OR nowhere ts, t, g) # as) w"

text \<open>A module is a sequence of statements up to the end of the source.\<close>

definition program :: "item list \<Rightarrow> ast \<Rightarrow> bool" where
  "program ws t \<longleftrightarrow> (\<exists>us ts. stmts us ts \<and> ws = us @ [(TOK_EOF, [])] \<and> t = AST_MODULE nowhere ts)"

end
