(* ===== verification/LexerProps.thy ===== *)
theory LexerProps
  imports Lexer
begin

text \<open>
  The lexer always answers: on a source that does not end in a backslash no function reads behind the
  terminating NUL, and every token but the last brings the end of the source nearer.
\<close>

section \<open>Movement\<close>

text \<open>Scanning changes the position, its line and column, the start of the token and the message.\<close>

definition fixed_part :: "lexer \<Rightarrow> lexer" where
  "fixed_part lx = lx\<lparr>lx_start := 0, lx_current := 0, lx_line := 0, lx_column := 0, lx_error_msg := None\<rparr>"

definition moves :: "lexer \<Rightarrow> lexer \<Rightarrow> bool" where
  "moves lx lx' \<longleftrightarrow> fixed_part lx' = fixed_part lx \<and> lx_current lx \<le> lx_current lx' \<and> lx_current lx' \<le> length (lx_source lx)"

lemma fixed_part_fields:
  assumes "fixed_part lx' = fixed_part lx"
  shows "lx_source lx' = lx_source lx" "lx_indent_stack lx' = lx_indent_stack lx" "lx_pending lx' = lx_pending lx"
    "lx_pending_count lx' = lx_pending_count lx" "lx_pending_head lx' = lx_pending_head lx" "lx_at_line_start lx' = lx_at_line_start lx"
  using assms [THEN arg_cong, of lx_source] assms [THEN arg_cong, of lx_indent_stack] assms [THEN arg_cong, of lx_pending]
    assms [THEN arg_cong, of lx_pending_count] assms [THEN arg_cong, of lx_pending_head] assms [THEN arg_cong, of lx_at_line_start]
  by (simp_all add: fixed_part_def)

definition sound :: "lexer \<Rightarrow> bool" where
  "sound lx \<longleftrightarrow> lx_current lx \<le> length (lx_source lx) \<and> (lx_source lx = [] \<or> last (lx_source lx) \<noteq> CHR 0x5C)"

lemma moves_refl: "sound lx \<Longrightarrow> moves lx lx"
  by (simp add: moves_def sound_def)

lemma moves_trans:
  assumes "moves lx lx'" "moves lx' lx''"
  shows "moves lx lx''"
  using assms fixed_part_fields(1) [of lx' lx] unfolding moves_def by (intro conjI) simp_all

lemma moves_fields:
  assumes "moves lx lx'"
  shows "lx_source lx' = lx_source lx" "lx_indent_stack lx' = lx_indent_stack lx" "lx_pending lx' = lx_pending lx"
    "lx_pending_count lx' = lx_pending_count lx" "lx_pending_head lx' = lx_pending_head lx" "lx_at_line_start lx' = lx_at_line_start lx"
    "lx_current lx \<le> lx_current lx'" "lx_current lx' \<le> length (lx_source lx)"
  using assms fixed_part_fields [of lx' lx] by (simp_all add: moves_def)

lemma moves_sound: "moves lx lx' \<Longrightarrow> sound lx \<Longrightarrow> sound lx'"
  by (simp add: sound_def moves_fields)

definition total :: "lexer \<Rightarrow> lexer option \<Rightarrow> bool" where
  "total lx m \<longleftrightarrow> (\<exists>lx'. m = Some lx' \<and> moves lx lx')"

text \<open>Kinds that a scanner can produce inside a line.\<close>

definition raw_kind :: "token_kind \<Rightarrow> bool" where
  "raw_kind k \<longleftrightarrow> k \<noteq> TOK_EOF \<and> k \<noteq> TOK_INDENT \<and> k \<noteq> TOK_DEDENT"

definition totalT :: "lexer \<Rightarrow> (token \<times> lexer) option \<Rightarrow> bool" where
  "totalT lx m \<longleftrightarrow> (\<exists>t lx'. m = Some (t, lx') \<and> moves lx lx' \<and> raw_kind (tok_kind t))"

lemmas total_defs = total_def totalT_def

section \<open>Rules\<close>

named_theorems lex_total \<open>rules for functions that return\<close>

lemma total_bind [lex_total]:
  "total lx m \<Longrightarrow> sound lx \<Longrightarrow> (\<And>lx'. m = Some lx' \<Longrightarrow> sound lx' \<Longrightarrow> moves lx lx' \<Longrightarrow> total lx' (f lx')) \<Longrightarrow> total lx (Option.bind m f)"
  "total lx m \<Longrightarrow> sound lx \<Longrightarrow> (\<And>lx'. m = Some lx' \<Longrightarrow> sound lx' \<Longrightarrow> moves lx lx' \<Longrightarrow> totalT lx' (g lx')) \<Longrightarrow> totalT lx (Option.bind m g)"
  unfolding total_defs by (auto simp: bind_Some_iff dest: moves_sound intro: moves_trans) (meson moves_sound moves_trans)+

lemma sound_peek: "sound lx \<Longrightarrow> \<exists>c. peek lx = Some c"
  by (auto simp: sound_def peek_def char_at_def)

lemma total_peek [lex_total]:
  "sound lx \<Longrightarrow> (\<And>c. peek lx = Some c \<Longrightarrow> total lx (f c)) \<Longrightarrow> total lx (Option.bind (peek lx) f)"
  "sound lx \<Longrightarrow> (\<And>c. peek lx = Some c \<Longrightarrow> totalT lx (g c)) \<Longrightarrow> totalT lx (Option.bind (peek lx) g)"
  using sound_peek by fastforce+

lemma total_at_end [lex_total]:
  "sound lx \<Longrightarrow> (\<And>c. peek lx = Some c \<Longrightarrow> total lx (f (c = NUL))) \<Longrightarrow> total lx (Option.bind (is_at_end lx) f)"
  "sound lx \<Longrightarrow> (\<And>c. peek lx = Some c \<Longrightarrow> totalT lx (g (c = NUL))) \<Longrightarrow> totalT lx (Option.bind (is_at_end lx) g)"
  using sound_peek by (fastforce simp: is_at_end_def)+

lemma char_inside: "peek lx = Some c \<Longrightarrow> c \<noteq> NUL \<Longrightarrow> lx_current lx < length (lx_source lx)"
  by (auto simp: peek_def char_at_def split: if_splits)

lemma char_behind: "lx_current lx < length (lx_source lx) \<Longrightarrow> \<exists>b. char_at lx (lx_current lx + 1) = Some b"
  by (simp add: char_at_def)

lemma total_peek_next [lex_total]:
  "sound lx \<Longrightarrow> (\<And>c. totalT lx (g c)) \<Longrightarrow> totalT lx (Option.bind (peek_next lx) g)"
  using sound_peek [of lx] char_inside [of lx] by (auto simp: peek_next_def is_at_end_def char_at_def)

lemma total_if [lex_total]:
  "(P \<Longrightarrow> total lx a) \<Longrightarrow> (\<not> P \<Longrightarrow> total lx b) \<Longrightarrow> total lx (if P then a else b)"
  "(P \<Longrightarrow> totalT lx c) \<Longrightarrow> (\<not> P \<Longrightarrow> totalT lx d) \<Longrightarrow> totalT lx (if P then c else d)"
  by simp_all

lemma total_Some [lex_total]: "sound lx \<Longrightarrow> total lx (Some lx)"
  by (simp add: total_def moves_refl)

lemma raw_kinds [simp]:
  "raw_kind TOK_STRING" "raw_kind TOK_STRING3" "raw_kind TOK_FSTRING" "raw_kind TOK_FSTRING3" "raw_kind TOK_INT"
  "raw_kind TOK_FLOAT" "raw_kind TOK_NEWLINE" "raw_kind TOK_ERROR"
  by (simp_all add: raw_kind_def)

lemma total_emit [lex_total]: "sound lx \<Longrightarrow> raw_kind k \<Longrightarrow> totalT lx (emit lx k)"
  by (simp add: totalT_def emit_def make_token_def moves_refl)

lemma total_error [lex_total]: "sound lx \<Longrightarrow> totalT lx (error_token lx msg)"
  by (simp add: totalT_def error_token_def moves_def sound_def fixed_part_def)

lemma advance_moves:
  assumes "sound lx" "peek lx = Some c" "c \<noteq> NUL"
  shows "\<exists>lx'. advance lx = Some (c, lx') \<and> moves lx lx' \<and> lx_current lx' = lx_current lx + 1"
proof -
  obtain lx' where a: "advance lx = Some (c, lx')" using assms(2) by (simp add: advance_def)
  have "moves lx lx'"
    using a assms(2) char_inside [OF assms(2,3)] by (auto simp: advance_def moves_def fixed_part_def split: if_splits)
  then show ?thesis using a advance_less by blast
qed

lemma total_skip [lex_total]: "sound lx \<Longrightarrow> peek lx = Some c \<Longrightarrow> c \<noteq> NUL \<Longrightarrow> total lx (skip lx)"
  using advance_moves [of lx c] by (auto simp: total_def skip_def)

section \<open>Loops\<close>

lemma char_NUL [simp]: "CHR '' '' \<noteq> NUL" "CHR 0x09 \<noteq> NUL" "CHR 0x0D \<noteq> NUL" "CHR 0x5C \<noteq> NUL" "CHR 0x0A \<noteq> NUL" "CHR ''{'' \<noteq> NUL" "CHR ''}'' \<noteq> NUL" "CHR ''#'' \<noteq> NUL"
  by (simp_all add: NUL_def)

lemmas NUL_char [simp] = char_NUL [symmetric]

lemma skip_while_total [lex_total]: "sound lx \<Longrightarrow> \<not> P NUL \<Longrightarrow> total lx (skip_while P lx)"
proof (induction lx rule: measure_induct_rule [where f = remaining])
  case (less lx)
  show ?case
    by (subst skip_while.simps, intro lex_total less.IH)
      (use less.prems in \<open>auto simp: skip_remaining\<close>)
qed

lemma class_NUL [simp]: "\<not> in_comment NUL" "\<not> isdigit NUL" "\<not> isxdigit NUL" "\<not> in_word NUL" "\<not> isalpha NUL"
  by (simp_all add: in_comment_def isdigit_def isxdigit_def in_word_def isalpha_def char_between_def NUL_def)

lemma count_newline_total [lex_total]: "sound lx \<Longrightarrow> total lx (count_newline lx)"
  unfolding count_newline_def by (intro lex_total) (simp_all add: total_def moves_def sound_def fixed_part_def)

text \<open>Unless the source ends.\<close>

lemma skip_counting_total: "sound lx \<Longrightarrow> peek lx = Some c \<Longrightarrow> c \<noteq> NUL \<Longrightarrow> total lx (skip_counting lx)"
  unfolding skip_counting_def count_newline_def
  by (auto simp: total_def peek_def char_at_def sound_def skip_def advance_def moves_def fixed_part_def split: if_splits)

text \<open>The character behind a backslash is not the end of the source.\<close>

lemma behind_backslash:
  assumes "sound lx" "peek lx = Some (CHR 0x5C)" "skip lx = Some lx'"
  shows "lx_current lx' < length (lx_source lx')"
proof -
  have i: "lx_current lx < length (lx_source lx)" using char_inside [OF assms(2)] by (simp add: NUL_def)
  then have "lx_source lx ! lx_current lx = CHR 0x5C" using assms(2) by (simp add: peek_def char_at_def)
  moreover have "last (lx_source lx) \<noteq> CHR 0x5C" using assms(1) i by (auto simp: sound_def)
  ultimately have "lx_current lx \<noteq> length (lx_source lx) - 1" using i last_conv_nth [of "lx_source lx"] by force
  then show ?thesis using i skip_less [OF assms(3)] by simp
qed

lemma skip_counting_inside: "sound lx \<Longrightarrow> lx_current lx < length (lx_source lx) \<Longrightarrow> total lx (skip_counting lx)"
  unfolding skip_counting_def count_newline_def
  by (auto simp: total_def peek_def char_at_def sound_def skip_def advance_def moves_def fixed_part_def split: if_splits)

lemma escape_total [lex_total]:
  assumes "sound lx" "peek lx = Some (CHR 0x5C)"
  shows "total lx (Option.bind (skip lx) skip_counting)" "total lx (skip_escape lx)" "total lx (skip_plain_escape lx)"
proof -
  have s: "total lx (skip lx)" by (rule total_skip [OF assms]) simp
  then obtain lx1 where lx1: "skip lx = Some lx1" "moves lx lx1" by (auto simp: total_def)
  have s1: "sound lx1" by (rule moves_sound [OF lx1(2) assms(1)])
  have i1: "lx_current lx1 < length (lx_source lx1)" by (rule behind_backslash [OF assms lx1(1)])
  have c: "total lx1 (skip_counting lx1)" by (rule skip_counting_inside [OF s1 i1])
  show "total lx (Option.bind (skip lx) skip_counting)" using lx1 c by (auto simp: total_def intro: moves_trans)
  show "total lx (skip_escape lx)" using lx1 c s1 by (auto simp: skip_escape_def total_def is_at_end_def peek_def char_at_def i1 intro: moves_trans)
  have "total lx1 (do { e \<leftarrow> is_at_end lx1; if e then Some lx1 else skip lx1 })" by (intro lex_total s1) simp_all
  then show "total lx (skip_plain_escape lx)" using lx1 by (auto simp: skip_plain_escape_def total_def intro: moves_trans)
qed

lemma total_escape [lex_total]:
  assumes "sound lx" "peek lx = Some (CHR 0x5C)"
    "\<And>lx'. remaining lx' < remaining lx \<Longrightarrow> sound lx' \<Longrightarrow> total lx' (f lx')"
  shows "total lx (do { lx \<leftarrow> skip lx; lx \<leftarrow> skip_counting lx; f lx })"
proof -
  obtain lx1 lx2 where l: "skip lx = Some lx1" "skip_counting lx1 = Some lx2" "moves lx lx2"
    using escape_total(1) [OF assms(1,2)] by (auto simp: total_def bind_Some_iff)
  have "remaining lx2 < remaining lx"
    using skip_remaining [OF l(1)] skip_counting_remaining [OF l(2)] by simp
  from assms(3) [OF this moves_sound [OF l(3) assms(1)]] show ?thesis
    using l by (auto simp: total_def intro: moves_trans)
qed

lemma scan_string_loop_total [lex_total]: "sound lx \<Longrightarrow> total lx (scan_string_loop quote lx)"
proof (induction lx rule: measure_induct_rule [where f = remaining])
  case (less lx)
  show ?case
    by (subst scan_string_loop.simps, intro lex_total skip_counting_total less.IH)
      (use less.prems in \<open>auto simp: skip_counting_remaining\<close>)
qed

lemma scan_string_total [lex_total]: "sound lx \<Longrightarrow> totalT lx (scan_string lx quote)"
  unfolding scan_string_def by (intro lex_total) simp_all

text \<open>The comparison with a closing triple reads behind a character only if that is a quote.\<close>

lemma moves_inside:
  assumes "peek lx = Some c" "c \<noteq> NUL" "sound lx" "skip lx = Some lx1"
  shows "moves lx lx1" "peek lx1 = char_at lx (lx_current lx + 1)" "sound lx1"
proof -
  show m: "moves lx lx1" using advance_moves [OF assms(3,1,2)] assms(4) by (auto simp: skip_def)
  show "sound lx1" by (rule moves_sound [OF m assms(3)])
  show "peek lx1 = char_at lx (lx_current lx + 1)"
    using skip_less [OF assms(4)] by (simp add: peek_def char_at_def)
qed

lemma skip3_total:
  assumes "sound lx" "quote \<noteq> NUL" "closing_triple lx quote = Some True"
  shows "total lx (skip3 lx)"
proof -
  have a: "peek lx = Some quote" and b: "char_at lx (lx_current lx + 1) = Some quote"
    and c: "char_at lx (lx_current lx + 2) = Some quote"
    using assms(3) by (auto simp: closing_triple_def bind_Some_iff split: if_splits)
  obtain lx1 where l1: "skip lx = Some lx1" using total_skip [OF assms(1) a assms(2)] by (auto simp: total_def)
  note m1 = moves_inside [OF a assms(2,1) l1]
  have p1: "peek lx1 = Some quote" using m1(2) b by simp
  obtain lx2 where l2: "skip lx1 = Some lx2" using total_skip [OF m1(3) p1 assms(2)] by (auto simp: total_def)
  note m2 = moves_inside [OF p1 assms(2) m1(3) l2]
  have p2: "peek lx2 = Some quote"
    using m2(2) c skip_less [OF l1] by (simp add: char_at_def split: if_splits)
  obtain lx3 where l3: "skip lx2 = Some lx3" using total_skip [OF m2(3) p2 assms(2)] by (auto simp: total_def)
  note m3 = moves_inside [OF p2 assms(2) m2(3) l3]
  show ?thesis using l1 l2 l3 m1(1) m2(1) m3(1) by (auto simp: skip3_def total_def intro: moves_trans)
qed

lemma closing_triple_total [lex_total]:
  assumes "sound lx" "quote \<noteq> NUL" "\<And>r. (r \<Longrightarrow> total lx (skip3 lx)) \<Longrightarrow> totalT lx (g r)"
  shows "totalT lx (Option.bind (closing_triple lx quote) g)"
proof -
  have "\<exists>r. closing_triple lx quote = Some r"
  proof (cases "peek lx = Some quote")
    case True
    then have i: "lx_current lx < length (lx_source lx)" using char_inside assms(2) by blast
    then obtain b where b: "char_at lx (lx_current lx + 1) = Some b" using char_behind by blast
    then show ?thesis
      using i True assms(2) by (cases "b = quote") (auto simp: closing_triple_def char_at_def split: if_splits)
  next
    case False
    then show ?thesis using sound_peek [OF assms(1)] by (auto simp: closing_triple_def)
  qed
  then obtain r where r: "closing_triple lx quote = Some r" by auto
  then show ?thesis using assms(3) [of r] skip3_total [OF assms(1,2)] by auto
qed

lemma closing_triple_at_0 [lex_total]:
  "sound lx \<Longrightarrow> quote \<noteq> NUL \<Longrightarrow> (\<And>r. (r \<Longrightarrow> total lx (skip3 lx)) \<Longrightarrow> totalT lx (g r)) \<Longrightarrow>
    totalT lx (Option.bind (if depth = 0 then closing_triple lx quote else Some False) g)"
  using closing_triple_total by auto

lemma scan_triple_string_total [lex_total]: "sound lx \<Longrightarrow> quote \<noteq> NUL \<Longrightarrow> totalT lx (scan_triple_string quote lx)"
proof (induction lx rule: measure_induct_rule [where f = remaining])
  case (less lx)
  show ?case
    by (subst scan_triple_string.simps, intro lex_total skip_counting_total less.IH)
      (use less.prems in \<open>auto simp: skip_counting_remaining skip_escape_remaining\<close>)
qed

lemma scan_triple_fstring_total [lex_total]:
  "sound lx \<Longrightarrow> quote \<noteq> NUL \<Longrightarrow> totalT lx (scan_triple_fstring quote depth lx)"
proof (induction lx arbitrary: depth rule: measure_induct_rule [where f = remaining])
  case (less lx)
  show ?case
    by (subst scan_triple_fstring.simps, intro lex_total skip_counting_total less.IH)
      (use less.prems in \<open>auto simp: skip_counting_remaining skip_escape_remaining skip_remaining\<close>)
qed

lemma scan_fstring_total [lex_total]: "sound lx \<Longrightarrow> totalT lx (scan_fstring quote depth lx)"
proof (induction lx arbitrary: depth rule: measure_induct_rule [where f = remaining])
  case (less lx)
  show ?case
    by (subst scan_fstring.simps, intro lex_total skip_counting_total less.IH)
      (use less.prems in \<open>auto simp: skip_counting_remaining skip_plain_escape_remaining skip_remaining\<close>)
qed

lemma total_match [lex_total]:
  assumes "sound lx" "\<And>lx'. sound lx' \<Longrightarrow> totalT lx' (yes lx')" "totalT lx (no lx)"
  shows "totalT lx (accept lx c yes no)"
proof -
  obtain d where d: "peek lx = Some d" using sound_peek [OF assms(1)] by auto
  show ?thesis
  proof (cases "d = NUL \<or> d \<noteq> c")
    case True
    then show ?thesis using assms(3) d by (simp add: accept_def match_char_def)
  next
    case False
    then have "totalT lx (Option.bind (skip lx) yes)"
      using assms(2) d by (intro lex_total assms(1)) auto
    moreover have "accept lx c yes no = Option.bind (skip lx) yes"
      using d False by (cases "skip lx") (auto simp: accept_def match_char_def)
    ultimately show ?thesis by simp
  qed
qed

lemma emit2_total [lex_total]: "sound lx \<Longrightarrow> raw_kind k \<Longrightarrow> raw_kind l \<Longrightarrow> totalT lx (emit2 lx c k l)"
  unfolding emit2_def by (intro lex_total)

lemma digits_total [lex_total]: "sound lx \<Longrightarrow> total lx (digits lx)"
  unfolding digits_def by (intro lex_total) simp_all

lemma scan_hex_total [lex_total]: "sound lx \<Longrightarrow> totalT lx (scan_hex lx)"
  unfolding scan_hex_def by (intro lex_total) simp_all

lemma total_triple [lex_total]:
  assumes "sound lx" "q \<noteq> NUL" "\<And>lx'. sound lx' \<Longrightarrow> totalT lx' (yes lx')" "totalT lx (no lx)"
  shows "totalT lx (if_triple q yes no lx)"
proof (cases "peek lx = Some q")
  case True
  obtain b where b: "peek_next lx = Some b" "char_at lx (lx_current lx + 1) = Some b"
    using char_behind [OF char_inside [OF True assms(2)]] True assms(2) by (auto simp: peek_next_def is_at_end_def)
  show ?thesis
  proof (cases "b = q")
    case eq: True
    have "totalT lx (do { lx \<leftarrow> skip lx; lx \<leftarrow> skip lx; yes lx })"
    proof (intro lex_total assms(1,3))
      show "peek lx = Some q" "q \<noteq> NUL" by fact+
      show "peek lx' = Some q" if "skip lx = Some lx'" for lx'
        using moves_inside(2) [OF True assms(2,1) that] b eq by simp
    qed (simp_all add: assms(2))
    then show ?thesis using True b eq by (simp add: if_triple_def)
  next
    case False
    then show ?thesis using True b assms(4) by (simp add: if_triple_def)
  qed
next
  case False
  obtain a where "peek lx = Some a" using sound_peek [OF assms(1)] by auto
  then show ?thesis using assms(4) False by (auto simp: if_triple_def)
qed

lemma total_Let [lex_total]: "totalT lx (f x) \<Longrightarrow> totalT lx (Let x f)"
  by simp

lemma is_quote_NUL [simp]: "\<not> is_quote NUL" "is_quote q \<Longrightarrow> q \<noteq> NUL"
  by (auto simp: is_quote_def NUL_def)

lemma scan_quoted_total [lex_total]: "sound lx \<Longrightarrow> is_quote q \<Longrightarrow> totalT lx (scan_quoted q lx)"
  unfolding scan_quoted_def by (intro lex_total) simp_all

lemma keyword_raw [simp]: "raw_kind (ident_or_keyword w)"
  by (simp add: ident_or_keyword_def keyword_table_def raw_kind_def)

lemma scan_word_total [lex_total]: "sound lx \<Longrightarrow> totalT lx (scan_word lx)"
  unfolding scan_word_def by (intro lex_total) auto

lemma total_fraction [lex_total]:
  assumes "sound lx" "\<And>r lx'. sound lx' \<Longrightarrow> totalT lx' (g r lx')"
  shows "totalT lx (Option.bind (scan_fraction lx) (\<lambda>(r, lx). g r lx))"
proof -
  obtain c where c: "peek lx = Some c" using sound_peek [OF assms(1)] by auto
  have "\<exists>r lx'. scan_fraction lx = Some (r, lx') \<and> moves lx lx'"
  proof (cases "c = CHR ''.''")
    case True
    then have "c \<noteq> NUL" by (simp add: NUL_def)
    then obtain d where d: "peek_next lx = Some d"
      using char_behind [OF char_inside [OF c]] c by (auto simp: peek_next_def is_at_end_def)
    have "total lx (Option.bind (skip lx) digits)"
      by (intro lex_total assms(1) digits_total) (use c \<open>c \<noteq> NUL\<close> in auto)
    then show ?thesis
      using c d True assms(1) moves_refl by (auto simp: scan_fraction_def total_def bind_Some_iff)
  next
    case False
    then have "scan_fraction lx = Some (False, lx)" using c by (simp add: scan_fraction_def)
    then show ?thesis using moves_refl [OF assms(1)] by blast
  qed
  then obtain r lx' where f: "scan_fraction lx = Some (r, lx')" and m: "moves lx lx'" by auto
  have "totalT lx' (g r lx')" by (rule assms(2) [OF moves_sound [OF m assms(1)]])
  then show ?thesis using f moves_trans [OF m] by (auto simp: totalT_def)
qed

lemma scan_number_total [lex_total]: "sound lx \<Longrightarrow> totalT lx (scan_number lx)"
  unfolding scan_number_def by (intro lex_total) (auto simp: NUL_def)

lemma single_raw: "map_of single_tokens c = Some k \<Longrightarrow> raw_kind k"
  by (auto simp: single_tokens_def raw_kind_def split: if_splits)

lemma scan_operator_total [lex_total]: "sound lx \<Longrightarrow> totalT lx (scan_operator c lx)"
  unfolding scan_operator_def
  by (cases "map_of single_tokens c") (simp_all add: lex_total single_raw, simp_all add: lex_total raw_kind_def)

section \<open>One token\<close>

lemma total_whitespace [lex_total]: "sound lx \<Longrightarrow> total lx (skip_whitespace lx)"
proof (induction lx rule: measure_induct_rule [where f = remaining])
  case (less lx)
  show ?case
  proof (subst skip_whitespace.simps, intro lex_total less.IH)
    fix c lx' assume c: "peek lx = Some c" "c = CHR ''#''" and w: "skip_while in_comment lx = Some lx'"
    then show "remaining lx' < remaining lx"
      using skip_while_progress [OF w c(1)] by (simp add: in_comment_def NUL_def)
  qed (use less.prems in \<open>auto simp: skip_remaining\<close>)
qed

text \<open>A token other than the end of the source takes at least one character.\<close>

lemma scan_raw_token_total:
  assumes "sound lx"
  shows "\<exists>t lx'. scan_raw_token lx = Some (t, lx') \<and> moves lx lx' \<and>
    (tok_kind t = TOK_EOF \<and> (\<exists>lx1. skip_whitespace lx = Some lx1 \<and> peek lx1 = Some NUL) \<or> raw_kind (tok_kind t) \<and> lx_current lx < lx_current lx')"
proof -
  obtain lx1 where w: "skip_whitespace lx = Some lx1" and m1: "moves lx lx1"
    using total_whitespace [OF assms] by (auto simp: total_def)
  define lx2 where "lx2 = lx1\<lparr>lx_start := lx_current lx1\<rparr>"
  have m2: "moves lx lx2"
    using m1 by (simp add: lx2_def moves_def fixed_part_def)
  then have s2: "sound lx2" using moves_sound assms by blast
  obtain c where c: "peek lx2 = Some c" using sound_peek [OF s2] by auto
  show ?thesis
  proof (cases "c = NUL")
    case True
    moreover have "peek lx1 = peek lx2" by (simp add: lx2_def peek_def char_at_def)
    ultimately show ?thesis
      using w c m2 by (auto simp: scan_raw_token_def is_at_end_def emit_def make_token_def simp flip: lx2_def)
  next
    case False
    obtain lx3 where a: "advance lx2 = Some (c, lx3)" and m3: "moves lx2 lx3" and l3: "lx_current lx3 = lx_current lx2 + 1"
      using advance_moves [OF s2 c False] by auto
    have s3: "sound lx3" by (rule moves_sound [OF m3 s2])
    define rest where "rest =
      (if isalpha c \<or> c = CHR ''_'' then scan_word lx3
       else if isdigit c then do {
         x \<leftarrow> peek lx3;
         if c = CHR ''0'' \<and> (x = CHR ''x'' \<or> x = CHR ''X'') then do { lx \<leftarrow> skip lx3; scan_hex lx }
         else scan_number lx3
       }
       else if is_quote c then scan_quoted c lx3
       else if c = CHR 0x0A then emit lx3 TOK_NEWLINE
       else scan_operator c lx3)"
    have "totalT lx3 rest"
      unfolding rest_def by (intro lex_total s3) (auto simp: NUL_def)
    then obtain t lx' where r: "rest = Some (t, lx')" "moves lx3 lx'" "raw_kind (tok_kind t)" by (auto simp: totalT_def)
    have "scan_raw_token lx = rest"
      using w c a False by (simp add: scan_raw_token_def is_at_end_def rest_def flip: lx2_def)
    moreover have "moves lx lx'" using m2 m3 r(2) moves_trans by blast
    moreover have "lx_current lx < lx_current lx'"
      using moves_fields(7) [OF m2] l3 moves_fields(7) [OF r(2)] by simp
    ultimately show ?thesis using r by auto
  qed
qed

section \<open>The start of a line\<close>

lemma measure_indent_total:
  "p \<le> length (lx_source lx) \<Longrightarrow>
    \<exists>q n c. measure_indent lx p cols = Some (q, n) \<and> p \<le> q \<and> q \<le> length (lx_source lx) \<and> (cols < n \<longrightarrow> p < q)"
proof (induction lx p cols rule: measure_indent.induct)
  case (1 lx p cols)
  have "\<exists>c. char_at lx p = Some c" using "1.prems" by (simp add: char_at_def)
  then obtain c where c: "char_at lx p = Some c" ..
  consider "c = CHR '' ''" | "c = CHR 0x09" | "c \<noteq> CHR '' ''" "c \<noteq> CHR 0x09" by blast
  then show ?case
  proof cases
    case 1
    then have "p < length (lx_source lx)" using c "1.prems" by (auto simp: char_at_def NUL_def split: if_splits)
    then show ?thesis using "1.IH"(1) [OF c 1] c 1 by (subst measure_indent.simps) fastforce
  next
    case 2
    then have "p < length (lx_source lx)" "c \<noteq> CHR '' ''" using c "1.prems" by (auto simp: char_at_def NUL_def split: if_splits)
    then show ?thesis using "1.IH"(2) [OF c _ 2] c 2 by (subst measure_indent.simps) fastforce
  next
    case 3
    then show ?thesis using c "1.prems" by (subst measure_indent.simps) simp
  qed
qed

lemma skip_inside: "sound lx \<Longrightarrow> lx_current lx < length (lx_source lx) \<Longrightarrow> total lx (skip lx)"
  by (simp add: total_def skip_def advance_def peek_def char_at_def moves_def fixed_part_def)

lemma advance_to_total: "sound lx \<Longrightarrow> lx_current lx \<le> p \<Longrightarrow> p \<le> length (lx_source lx) \<Longrightarrow> total lx (advance_to p lx)"
proof (induction p lx rule: advance_to.induct)
  case (1 p lx)
  show ?case
  proof (cases "lx_current lx = p")
    case True
    then show ?thesis using "1.prems" by (simp add: advance_to.simps total_Some)
  next
    case False
    then have "lx_current lx < length (lx_source lx)" using "1.prems"(2,3) by simp
    then obtain lx1 where s: "skip lx = Some lx1" and m: "moves lx lx1"
      using skip_inside [OF "1.prems"(1)] by (auto simp: total_def)
    have "total lx1 (advance_to p lx1)"
      using "1.IH" [OF False s moves_sound [OF m "1.prems"(1)]] skip_less [OF s] False "1.prems"(2,3) by simp
    then show ?thesis using False s m by (subst advance_to.simps) (auto simp: total_def intro: moves_trans)
  qed
qed

lemma skip_blank_line_total:
  assumes "sound lx" "lx_current lx \<le> p" "p \<le> length (lx_source lx)"
  shows "total lx (skip_blank_line p lx)"
  unfolding skip_blank_line_def
  by (intro lex_total advance_to_total assms) auto

end
