(* ===== verification/LexerLayout.thy ===== *)
theory LexerLayout
  imports LexerProps
begin

text \<open>
  Indentation: the stack of open levels, the ring of tokens that wait to be delivered, and what
  \<^const>\<open>lexer_next\<close> does to both.  Every step keeps the invariant \<open>lexer_ok\<close> and lowers \<open>weight\<close>, and the
  DEDENTs delivered never outnumber the INDENTs.
\<close>

section \<open>The indentation stack\<close>

definition layout_ok :: "lexer \<Rightarrow> bool" where
  "layout_ok lx \<longleftrightarrow>
     (\<exists>levels. lx_indent_stack lx = 0 # levels) \<and> sorted_wrt (<) (lx_indent_stack lx) \<and>
     length (lx_indent_stack lx) \<le> FLUX_INDENT_MAX \<and> length (lx_pending lx) = 4 \<and> lx_pending_head lx < 4"

lemma push_pending_fields [simp]:
  "lx_indent_stack (push_pending t lx) = lx_indent_stack lx" "lx_source (push_pending t lx) = lx_source lx"
  "lx_current (push_pending t lx) = lx_current lx" "lx_pending_head (push_pending t lx) = lx_pending_head lx"
  "lx_pending_count (push_pending t lx) = Suc (lx_pending_count lx)" "length (lx_pending (push_pending t lx)) = length (lx_pending lx)"
  "lx_at_line_start (push_pending t lx) = lx_at_line_start lx"
  by (simp_all add: push_pending_def)

text \<open>The effect of both loops that pop levels and push a token for each of them.\<close>

definition popped :: "nat \<Rightarrow> token \<Rightarrow> lexer \<Rightarrow> lexer \<Rightarrow> bool" where
  "popped n t lx lx' \<longleftrightarrow>
     n < length (lx_indent_stack lx) \<and> lx_indent_stack lx' = take (length (lx_indent_stack lx) - n) (lx_indent_stack lx) \<and>
     lx_pending_count lx' = lx_pending_count lx + n \<and> length (lx_pending lx') = length (lx_pending lx) \<and>
     lx_pending_head lx' = lx_pending_head lx \<and> lx_source lx' = lx_source lx \<and> lx_current lx' = lx_current lx \<and>
     lx_at_line_start lx' = lx_at_line_start lx \<and>
     (length (lx_pending lx) = 4 \<longrightarrow>
       (\<forall>j<4. lx_pending lx' ! j = lx_pending lx ! j \<or> lx_pending lx' ! j = t) \<and>
       (\<forall>i<n. lx_pending lx' ! ((lx_pending_head lx + lx_pending_count lx + i) mod 4) = t))"

lemma popped_0: "lx_indent_stack lx \<noteq> [] \<Longrightarrow> popped 0 t lx lx"
  by (simp add: popped_def)

abbreviation pop_level :: "token \<Rightarrow> lexer \<Rightarrow> lexer" where
  "pop_level t lx \<equiv> push_pending t (lx\<lparr>lx_indent_stack := butlast (lx_indent_stack lx)\<rparr>)"

lemma popped_Suc:
  assumes "popped n t (pop_level t lx) lx'" "1 < length (lx_indent_stack lx)"
  shows "popped (Suc n) t lx lx'"
proof -
  let ?i = "(lx_pending_head lx + lx_pending_count lx) mod 4"
  have "lx_pending lx' ! ((lx_pending_head lx + lx_pending_count lx + i) mod 4) = t"
    if "length (lx_pending lx) = 4" "i < Suc n" for i
  proof (cases i)
    case 0
    then show ?thesis using assms(1) that(1) by (auto simp: popped_def push_pending_def nth_list_update split: if_splits)
  next
    case (Suc k)
    then show ?thesis using assms(1) that by (simp add: popped_def push_pending_def)
  qed
  moreover have "lx_pending lx' ! j = lx_pending lx ! j \<or> lx_pending lx' ! j = t" if "length (lx_pending lx) = 4" "j < 4" for j
    using assms(1) that by (auto simp: popped_def push_pending_def nth_list_update split: if_splits)
  ultimately show ?thesis
    using assms by (cases "lx_indent_stack lx" rule: rev_cases) (simp_all add: popped_def Suc_diff_le)
qed

lemma dedent_loop_popped:
  "lx_indent_stack lx \<noteq> [] \<Longrightarrow> \<exists>n. popped n t lx (dedent_loop cols t lx) \<and>
    (cols < last (lx_indent_stack lx) \<and> 1 < length (lx_indent_stack lx) \<longrightarrow> 0 < n)"
proof (induction cols t lx rule: dedent_loop.induct)
  case (1 cols t lx)
  show ?case
  proof (cases "1 < length (lx_indent_stack lx) \<and> cols < last (lx_indent_stack lx)")
    case True
    have "lx_indent_stack (pop_level t lx) \<noteq> []" using True by (cases "lx_indent_stack lx") auto
    then obtain n where "popped n t (pop_level t lx) (dedent_loop cols t (pop_level t lx))" using "1.IH" [OF True] by auto
    then show ?thesis using popped_Suc [of n t lx] True by (subst dedent_loop.simps) auto
  next
    case False
    then show ?thesis using popped_0 "1.prems" by (subst dedent_loop.simps) auto
  qed
qed

lemma close_levels_popped: "n < length (lx_indent_stack lx) \<Longrightarrow> popped n t lx (close_levels n t lx)"
proof (induction n arbitrary: lx)
  case 0
  then show ?case using popped_0 by auto
next
  case (Suc n)
  then show ?case using popped_Suc [of n t lx] Suc.IH [of "pop_level t lx"] by simp
qed

lemma popped_layout:
  assumes "popped n t lx lx'" "layout_ok lx"
  shows "layout_ok lx'"
proof -
  obtain levels where l: "lx_indent_stack lx = 0 # levels" using assms(2) by (auto simp: layout_ok_def)
  have p: "n < Suc (length levels)" "lx_indent_stack lx' = take (Suc (length levels) - n) (0 # levels)"
    "length (lx_pending lx') = length (lx_pending lx)" "lx_pending_head lx' = lx_pending_head lx"
    using assms(1) l by (simp_all add: popped_def)
  have "sorted_wrt (<) (take k (lx_indent_stack lx))" for k
    using assms(2) by (simp add: layout_ok_def sorted_wrt_take)
  then have "sorted_wrt (<) (lx_indent_stack lx')" using p(2) l by simp
  moreover have "Suc (length levels) \<le> FLUX_INDENT_MAX" using assms(2) l by (simp add: layout_ok_def)
  then have "Suc (length levels - n) \<le> FLUX_INDENT_MAX" by simp
  ultimately show ?thesis
    using assms(2) l p by (simp add: layout_ok_def Suc_diff_le)
qed

text \<open>Queued tokens, the next one first.\<close>

definition queued :: "lexer \<Rightarrow> token list" where
  "queued lx = map (\<lambda>i. lx_pending lx ! ((lx_pending_head lx + i) mod 4)) [0..<lx_pending_count lx]"

lemma pop_pending_queued:
  assumes "0 < lx_pending_count lx" "lx_pending_head lx < 4"
  shows "queued lx = fst (pop_pending lx) # queued (snd (pop_pending lx))"
proof -
  obtain n where n: "lx_pending_count lx = Suc n" using assms(1) by (cases "lx_pending_count lx") auto
  have u: "[0..<Suc n] = 0 # map Suc [0..<n]" by (simp add: upt_conv_Cons map_Suc_upt del: upt_Suc)
  have "(lx_pending_head lx + Suc i) mod 4 = ((lx_pending_head lx + 1) mod 4 + i) mod 4" for i
    unfolding mod_add_left_eq by simp
  then show ?thesis using assms(2) by (simp add: queued_def pop_pending_def n u del: upt_Suc)
qed

lemma popped_queued:
  assumes "popped n t lx lx'" "lx_pending_count lx = 0" "length (lx_pending lx) = 4"
  shows "queued lx' = replicate n t"
  using assms by (intro nth_equalityI) (auto simp: queued_def popped_def)

section \<open>The start of a line\<close>

definition lexer_ok :: "lexer \<Rightarrow> bool" where
  "lexer_ok lx \<longleftrightarrow> sound lx \<and> layout_ok lx"

lemma layout_ok_moves: "moves lx lx' \<Longrightarrow> layout_ok lx \<Longrightarrow> layout_ok lx'"
  by (simp add: layout_ok_def moves_fields)

lemma lexer_ok_moves: "moves lx lx' \<Longrightarrow> lexer_ok lx \<Longrightarrow> lexer_ok lx'"
  by (auto simp: lexer_ok_def intro: layout_ok_moves moves_sound)

text \<open>The ring after \<open>n\<close> DEDENTs and the end of the source were written to its four slots.\<close>

definition ending :: "nat \<Rightarrow> token \<Rightarrow> token \<Rightarrow> token list" where
  "ending n d e = map (\<lambda>i. if i mod 4 = n mod 4 then e else d) [0..<Suc n]"

lemma mod_4_cancel: "(a + i) mod 4 = (a + j) mod 4 \<longleftrightarrow> i mod 4 = j mod (4 :: nat)"
proof -
  have e: "m mod 4 = n mod 4 \<longleftrightarrow> int m mod 4 = int n mod 4" for m n :: nat
    using zmod_int [of m 4] zmod_int [of n 4] by auto
  show ?thesis unfolding e of_nat_add mod_eq_dvd_iff by simp
qed

lemma close_levels_ending:
  assumes "layout_ok lx" "lx_pending_count lx = 0" "n < length (lx_indent_stack lx)"
  shows "queued (push_pending e (close_levels n t lx)) = ending n t e"
proof -
  let ?lx = "close_levels n t lx"
  have p: "popped n t lx ?lx" by (rule close_levels_popped [OF assms(3)])
  have len: "length (lx_pending lx) = 4" using assms(1) by (simp add: layout_ok_def)
  have f: "lx_pending_head ?lx = lx_pending_head lx" "lx_pending_count ?lx = n" "length (lx_pending ?lx) = 4"
    and t: "\<And>i. i < n \<Longrightarrow> lx_pending ?lx ! ((lx_pending_head lx + i) mod 4) = t"
    using p len assms(2) by (simp_all add: popped_def)
  show ?thesis
  proof (rule nth_equalityI)
    show "length (queued (push_pending e ?lx)) = length (ending n t e)"
      by (simp add: queued_def ending_def f del: upt_Suc)
    fix i assume "i < length (queued (push_pending e ?lx))"
    then have i: "i < Suc n" by (simp add: queued_def f del: upt_Suc)
    then have "i = n \<or> i < n" by auto
    then show "queued (push_pending e ?lx) ! i = ending n t e ! i"
      using i t f by (auto simp: queued_def ending_def push_pending_def nth_list_update mod_4_cancel simp del: upt_Suc)
  qed
qed

text \<open>The lexer stands at a character that starts a token other than a line end.\<close>

definition at_content :: "lexer \<Rightarrow> bool" where
  "at_content lx \<longleftrightarrow> (\<exists>c. peek lx = Some c \<and> \<not> blank_end c \<and> c \<noteq> CHR '' '' \<and> c \<noteq> CHR 0x09)"

lemma at_content_cong: "lx_source lx' = lx_source lx \<Longrightarrow> lx_current lx' = lx_current lx \<Longrightarrow> at_content lx' = at_content lx"
  by (simp add: at_content_def peek_def char_at_def)

text \<open>The five outcomes of the first token of a line.\<close>

inductive line_outcome :: "lexer \<Rightarrow> token option \<Rightarrow> lexer \<Rightarrow> bool" where
  same_level: "lx_indent_stack lx' = lx_indent_stack lx \<Longrightarrow> lx_pending_count lx' = 0 \<Longrightarrow> at_content lx' \<Longrightarrow> line_outcome lx None lx'"
| failed: "tok_kind t = TOK_ERROR \<Longrightarrow> queued lx' = replicate n d \<Longrightarrow> tok_kind d = TOK_DEDENT \<Longrightarrow>
    length (lx_indent_stack lx') + n = length (lx_indent_stack lx) \<Longrightarrow> at_content lx' \<Longrightarrow> line_outcome lx (Some t) lx'"
| indent: "tok_kind t = TOK_INDENT \<Longrightarrow> lx_indent_stack lx' = lx_indent_stack lx @ [n] \<Longrightarrow> lx_pending_count lx' = 0 \<Longrightarrow>
    lx_current lx < lx_current lx' \<Longrightarrow> at_content lx' \<Longrightarrow> line_outcome lx (Some t) lx'"
| dedent: "tok_kind t = TOK_DEDENT \<Longrightarrow> t # queued lx' = replicate n t \<Longrightarrow> n < length (lx_indent_stack lx) \<Longrightarrow>
    length (lx_indent_stack lx') + n = length (lx_indent_stack lx) \<Longrightarrow> at_content lx' \<Longrightarrow> line_outcome lx (Some t) lx'"
| end_of_source: "tok_kind d = TOK_DEDENT \<Longrightarrow> tok_kind e = TOK_EOF \<Longrightarrow>
    t # queued lx' = ending (length (lx_indent_stack lx) - 1) d e \<Longrightarrow> length (lx_indent_stack lx') = 1 \<Longrightarrow>
    line_outcome lx (Some t) lx'"

inductive_cases line_outcome_cases: "line_outcome lx (Some t) lx'" "line_outcome lx None lx'"

text \<open>What a step keeps, and how far it goes.\<close>

definition step_ok :: "lexer \<Rightarrow> lexer \<Rightarrow> bool" where
  "step_ok lx lx' \<longleftrightarrow> lexer_ok lx' \<and> lx_source lx' = lx_source lx \<and> lx_current lx \<le> lx_current lx' \<and>
     lx_at_line_start lx' = lx_at_line_start lx"

lemma step_ok_moves: "moves lx lx' \<Longrightarrow> lexer_ok lx \<Longrightarrow> step_ok lx lx'"
  by (simp add: step_ok_def lexer_ok_moves moves_fields)

lemma step_ok_trans: "step_ok lx lx' \<Longrightarrow> step_ok lx' lx'' \<Longrightarrow> step_ok lx lx''"
  unfolding step_ok_def by auto

lemma line_outcome_moves: "line_outcome lx1 r lx' \<Longrightarrow> moves lx lx1 \<Longrightarrow> line_outcome lx r lx'"
  by (induction rule: line_outcome.induct) (auto simp: moves_fields(1-6) intro: line_outcome.intros dest: moves_fields(7) less_le_trans le_less_trans)

lemma popped_step:
  assumes "popped n t lx lx'" "lexer_ok lx"
  shows "step_ok lx lx'"
proof -
  have "layout_ok lx'" by (rule popped_layout) (use assms in \<open>auto simp: lexer_ok_def\<close>)
  moreover have "lx_source lx' = lx_source lx" "lx_current lx' = lx_current lx" "lx_at_line_start lx' = lx_at_line_start lx"
    using assms(1) by (auto simp: popped_def)
  ultimately show ?thesis using assms(2) by (simp add: step_ok_def lexer_ok_def sound_def)
qed

lemma pop_pending_step: "lexer_ok lx \<Longrightarrow> step_ok lx (snd (pop_pending lx))"
  by (simp add: step_ok_def lexer_ok_def layout_ok_def sound_def pop_pending_def)

lemma push_pending_step: "lexer_ok lx \<Longrightarrow> step_ok lx (push_pending t lx)"
  by (simp add: step_ok_def lexer_ok_def layout_ok_def sound_def)

lemma indent_change_spec:
  assumes "lexer_ok lx" "lx_pending_count lx = 0" "moves lx0 lx" "0 < cols \<Longrightarrow> lx_current lx0 < lx_current lx"
    "at_content lx"
  shows "\<exists>r lx'. indent_change cols lx = Some (r, lx') \<and> line_outcome lx0 r lx' \<and> step_ok lx lx'"
proof -
  define top where "top = last (lx_indent_stack lx)"
  obtain levels where l: "lx_indent_stack lx = 0 # levels" and lay: "layout_ok lx"
    using assms(1) by (auto simp: lexer_ok_def layout_ok_def)
  have st: "lx_indent_stack lx0 = lx_indent_stack lx" using assms(3) by (simp add: moves_fields)
  consider "top < cols" "FLUX_INDENT_MAX \<le> length (lx_indent_stack lx)" | "top < cols" "length (lx_indent_stack lx) < FLUX_INDENT_MAX"
    | "cols < top" | "cols = top" by linarith
  then show ?thesis
  proof cases
    case 1
    then have "indent_change cols lx = Some (Some (fst (the (error_token lx ''Indentation too deep''))), lx\<lparr>lx_error_msg := Some ''Indentation too deep''\<rparr>)"
      by (simp add: indent_change_def top_def Let_def error_token_def)
    moreover have "step_ok lx (lx\<lparr>lx_error_msg := Some ''Indentation too deep''\<rparr>)"
      using assms(1) by (simp add: step_ok_def lexer_ok_def layout_ok_def sound_def)
    moreover have "line_outcome lx0 (Some t) (lx\<lparr>lx_error_msg := Some ''Indentation too deep''\<rparr>)" if "tok_kind t = TOK_ERROR" for t
      by (rule failed [OF that, of _ 0 "layout_token TOK_DEDENT lx"])
        (use assms(2,5) st at_content_cong [of "lx\<lparr>lx_error_msg := Some ''Indentation too deep''\<rparr>" lx] in
          \<open>simp_all add: queued_def layout_token_def\<close>)
    ultimately show ?thesis by (intro exI conjI) (auto simp: error_token_def)
  next
    case 2
    let ?lx = "lx\<lparr>lx_indent_stack := lx_indent_stack lx @ [cols]\<rparr>"
    have "indent_change cols lx = Some (Some (layout_token TOK_INDENT ?lx), ?lx)"
      using 2 by (simp add: indent_change_def top_def Let_def)
    moreover have "x < cols" if "x \<in> set (lx_indent_stack lx)" for x
    proof -
      have "x \<le> top" using that lay l unfolding top_def layout_ok_def
        by (cases levels rule: rev_cases) (auto simp: sorted_wrt_append)
      then show ?thesis using 2 by simp
    qed
    then have "layout_ok ?lx" using lay 2 by (auto simp: layout_ok_def sorted_wrt_append)
    then have "step_ok lx ?lx" using assms(1) by (simp add: step_ok_def lexer_ok_def sound_def)
    moreover have "line_outcome lx0 (Some (layout_token TOK_INDENT ?lx)) ?lx"
      by (rule indent) (use assms 2 st at_content_cong [of ?lx lx] in \<open>auto simp: layout_token_def\<close>)
    ultimately show ?thesis by blast
  next
    case 3
    let ?t = "layout_token TOK_DEDENT lx"
    let ?lx = "dedent_loop cols ?t lx"
    have "1 < length (lx_indent_stack lx)" using 3 l by (cases levels) (auto simp: top_def)
    then obtain n where p: "popped n ?t lx ?lx" and n: "0 < n"
      using dedent_loop_popped [of lx ?t cols] 3 l by (auto simp: top_def)
    have s: "step_ok lx ?lx" by (rule popped_step [OF p assms(1)])
    show ?thesis
    proof (cases "last (lx_indent_stack ?lx) = cols")
      case True
      have len: "length (lx_pending lx) = 4" using lay by (simp add: layout_ok_def)
      have q: "queued ?lx = replicate n ?t" by (rule popped_queued [OF p assms(2) len])
      have c: "0 < lx_pending_count ?lx" "lx_pending_head ?lx < 4" "n < length (lx_indent_stack lx)"
        "length (lx_indent_stack ?lx) + n = length (lx_indent_stack lx)"
        using p n lay assms(2) by (auto simp: popped_def layout_ok_def)
      obtain t lx' where pp: "pop_pending ?lx = (t, lx')" by fastforce
      have q': "t # queued lx' = replicate n ?t" using pop_pending_queued [OF c(1,2)] q pp by simp
      then have "t = ?t" using n by (cases n) auto
      have "line_outcome lx0 (Some t) lx'"
      proof (rule dedent)
        show "tok_kind t = TOK_DEDENT" using \<open>t = ?t\<close> by (simp add: layout_token_def)
        show "t # queued lx' = replicate n t" using q' \<open>t = ?t\<close> by simp
        show "n < length (lx_indent_stack lx0)" using c(3) st by simp
        show "length (lx_indent_stack lx') + n = length (lx_indent_stack lx0)" using c(4) st pp by (auto simp: pop_pending_def)
        have "lx_source lx' = lx_source lx" "lx_current lx' = lx_current lx" using p pp by (auto simp: popped_def pop_pending_def)
        then show "at_content lx'" using at_content_cong assms(5) by blast
      qed
      moreover have "step_ok lx lx'"
        using step_ok_trans [OF s pop_pending_step [of ?lx]] s pp by (simp add: step_ok_def)
      moreover have "indent_change cols lx = Some (Some t, lx')"
        using 3 True pp by (simp add: indent_change_def top_def Let_def)
      ultimately show ?thesis by blast
    next
      case False
      let ?lx' = "?lx\<lparr>lx_error_msg := Some ''Inconsistent indentation''\<rparr>"
      obtain t where "error_token ?lx ''Inconsistent indentation'' = Some (t, ?lx')" "tok_kind t = TOK_ERROR"
        by (simp add: error_token_def)
      moreover have "step_ok lx ?lx'" using s by (auto simp: step_ok_def lexer_ok_def layout_ok_def sound_def)
      moreover have "line_outcome lx0 (Some t) ?lx'" if "tok_kind t = TOK_ERROR" for t
      proof (rule failed [OF that, of _ n ?t])
        have len: "length (lx_pending lx) = 4" using lay by (simp add: layout_ok_def)
        show "queued ?lx' = replicate n ?t" using popped_queued [OF p assms(2) len] by (simp add: queued_def)
        show "tok_kind ?t = TOK_DEDENT" by (simp add: layout_token_def)
        show "length (lx_indent_stack ?lx') + n = length (lx_indent_stack lx0)" using p n st by (auto simp: popped_def)
        have "lx_source ?lx' = lx_source lx" "lx_current ?lx' = lx_current lx" using p by (auto simp: popped_def)
        then show "at_content ?lx'" using at_content_cong assms(5) by blast
      qed
      ultimately show ?thesis
        using 3 False by (auto simp: indent_change_def top_def Let_def)
    qed
  next
    case 4
    have "line_outcome lx0 None lx" by (rule same_level) (use st assms(2,5) in auto)
    moreover have "step_ok lx lx" using assms(1) by (simp add: step_ok_def)
    ultimately show ?thesis using 4 by (auto simp: indent_change_def top_def)
  qed
qed

lemma end_of_source_spec:
  assumes "lexer_ok lx" "lx_pending_count lx = 0" "end_of_source lx = (t, lx')"
  shows "line_outcome lx (Some t) lx'" "step_ok lx lx'"
proof -
  let ?n = "length (lx_indent_stack lx) - 1"
  let ?d = "end_token TOK_DEDENT lx" and ?e = "end_token TOK_EOF lx"
  let ?lx = "push_pending ?e (close_levels ?n ?d lx)"
  have lay: "layout_ok lx" and n: "?n < length (lx_indent_stack lx)"
    using assms(1) by (auto simp: lexer_ok_def layout_ok_def)
  have p: "popped ?n ?d lx (close_levels ?n ?d lx)" by (rule close_levels_popped [OF n])
  have q: "queued ?lx = ending ?n ?d ?e" by (rule close_levels_ending [OF lay assms(2) n])
  have s: "step_ok lx ?lx"
    using popped_step [OF p assms(1)] push_pending_step step_ok_trans unfolding step_ok_def by metis
  have pp: "pop_pending ?lx = (t, lx')" using assms(3) by (simp add: end_of_source_def)
  have h: "lx_pending_head ?lx < 4" using s by (simp add: step_ok_def lexer_ok_def layout_ok_def)
  have "t # queued lx' = ending ?n ?d ?e" using pop_pending_queued [of ?lx] h pp q by simp
  moreover have "length (lx_indent_stack lx') = 1" using pp p n by (auto simp: pop_pending_def popped_def)
  ultimately show "line_outcome lx (Some t) lx'"
    using line_outcome.end_of_source [of ?d ?e t lx' lx] by (simp add: end_token_def)
  show "step_ok lx lx'"
    using step_ok_trans [OF s pop_pending_step [of ?lx]] s pp by (simp add: step_ok_def)
qed

lemma measure_indent_stop: "measure_indent lx p cols = Some (q, n) \<Longrightarrow> char_at lx q \<noteq> Some (CHR '' '') \<and> char_at lx q \<noteq> Some (CHR 0x09)"
proof (induction lx p cols rule: measure_indent.induct)
  case (1 lx p cols)
  obtain c where c: "char_at lx p = Some c" using "1.prems" by (subst (asm) measure_indent.simps) (auto simp: bind_Some_iff)
  consider "c = CHR '' ''" | "c \<noteq> CHR '' ''" "c = CHR 0x09" | "c \<noteq> CHR '' ''" "c \<noteq> CHR 0x09" by blast
  then show ?case
  proof cases
    case 1
    have "measure_indent lx (p + 1) (cols + 1) = Some (q, n)" using "1.prems" by (subst (asm) measure_indent.simps) (simp add: c 1)
    then show ?thesis by (rule "1.IH"(1) [OF c 1])
  next
    case 2
    have "measure_indent lx (p + 1) (cols + 4) = Some (q, n)" using "1.prems" by (subst (asm) measure_indent.simps) (simp add: c 2)
    then show ?thesis by (rule "1.IH"(2) [OF c 2])
  next
    case 3
    then have "q = p" using "1.prems" by (subst (asm) measure_indent.simps) (simp add: c)
    then show ?thesis using c 3 by simp
  qed
qed

lemma line_start_spec:
  "lexer_ok lx \<Longrightarrow> lx_pending_count lx = 0 \<Longrightarrow>
    \<exists>r lx'. line_start lx = Some (r, lx') \<and> line_outcome lx r lx' \<and> step_ok lx lx'"
proof (induction lx rule: measure_induct_rule [where f = remaining])
  case (less lx)
  have s: "sound lx" using less.prems(1) by (simp add: lexer_ok_def)
  obtain p cols c where m: "measure_indent lx (lx_current lx) 0 = Some (p, cols)" and p: "lx_current lx \<le> p" "p \<le> length (lx_source lx)"
    "0 < cols \<longrightarrow> lx_current lx < p"
    using measure_indent_total [of "lx_current lx" lx 0] s by (auto simp: sound_def)
  have "\<exists>c. char_at lx p = Some c" using p(2) by (simp add: char_at_def)
  then obtain c where c: "char_at lx p = Some c" ..
  show ?case
  proof (cases "blank_end c")
    case True
    obtain lx1 where b: "skip_blank_line p lx = Some lx1" and m1: "moves lx lx1"
      using skip_blank_line_total [OF s p(1,2)] by (auto simp: total_def)
    have ok1: "lexer_ok lx1" by (rule lexer_ok_moves [OF m1 less.prems(1)])
    have n1: "lx_pending_count lx1 = 0" using less.prems(2) m1 by (simp add: moves_fields)
    obtain e where e: "is_at_end lx1 = Some e" using sound_peek [of lx1] ok1 by (auto simp: lexer_ok_def is_at_end_def)
    have st: "step_ok lx lx1" by (rule step_ok_moves [OF m1 less.prems(1)])
    show ?thesis
    proof (cases e)
      case at_end: True
      obtain t lx' where f: "end_of_source lx1 = (t, lx')" by fastforce
      have "line_start lx = Some (Some t, lx')" using m c True b e at_end f by (subst line_start.simps) simp
      moreover have "line_outcome lx (Some t) lx'" "step_ok lx lx'"
        using end_of_source_spec [OF ok1 n1 f] line_outcome_moves [OF _ m1] step_ok_trans [OF st] by blast+
      ultimately show ?thesis by blast
    next
      case False
      have "remaining lx1 < remaining lx" by (rule skip_blank_line_remaining [OF b c True]) (use e False in simp)
      then obtain r lx' where r: "line_start lx1 = Some (r, lx')" "line_outcome lx1 r lx'" "step_ok lx1 lx'"
        using less.IH [OF _ ok1 n1] by blast
      have "line_start lx = Some (r, lx')" using m c True b e False r(1) by (subst line_start.simps) simp
      then show ?thesis using line_outcome_moves [OF r(2) m1] step_ok_trans [OF st r(3)] by blast
    qed
  next
    case False
    obtain lx1 where a: "advance_to p lx = Some lx1" and m1: "moves lx lx1"
      using advance_to_total [OF s p(1,2)] by (auto simp: total_def)
    have ok1: "lexer_ok lx1" by (rule lexer_ok_moves [OF m1 less.prems(1)])
    have n1: "lx_pending_count lx1 = 0" using less.prems(2) m1 by (simp add: moves_fields)
    have "0 < cols \<Longrightarrow> lx_current lx < lx_current lx1" using advance_to_current [OF a] p(3) by simp
    moreover have "peek lx1 = char_at lx p" using advance_to_current [OF a] by (simp add: peek_def char_at_def)
    then have "peek lx1 = Some c" using c by simp
    then have "at_content lx1" using c False measure_indent_stop [OF m] by (simp add: at_content_def)
    ultimately obtain r lx' where r: "indent_change cols lx1 = Some (r, lx')" "line_outcome lx r lx'" "step_ok lx1 lx'"
      using indent_change_spec [OF ok1 n1 m1] by blast
    have "line_start lx = Some (r, lx')" using m c False a r(1) by (subst line_start.simps) simp
    then show ?thesis using r(2) step_ok_trans [OF step_ok_moves [OF m1 less.prems(1)] r(3)] by blast
  qed
qed

section \<open>One token\<close>

text \<open>Levels that are open or wait to be closed before the end of the source.\<close>

definition owed :: "lexer \<Rightarrow> nat" where
  "owed lx = length (lx_indent_stack lx) - 1 + length (takeWhile (\<lambda>t. tok_kind t \<noteq> TOK_EOF) (queued lx))"

definition weight :: "lexer \<Rightarrow> nat" where
  "weight lx = lx_pending_count lx + length (lx_indent_stack lx) + 2 * (length (lx_source lx) - lx_current lx) +
     (if lx_at_line_start lx then 1 else 0)"

definition last_token :: "token \<Rightarrow> bool" where
  "last_token t \<longleftrightarrow> tok_kind t = TOK_EOF \<or> tok_kind t = TOK_ERROR"

text \<open>Only DEDENTs and the end of the source wait, and once the end waits no level is open; otherwise the lexer
  stands at the content of the line.\<close>

definition ending_queued :: "lexer \<Rightarrow> bool" where
  "ending_queued lx \<longleftrightarrow> (\<exists>t \<in> set (queued lx). tok_kind t = TOK_EOF)"

definition queue_ok :: "lexer \<Rightarrow> bool" where
  "queue_ok lx \<longleftrightarrow> (\<forall>t \<in> set (queued lx). tok_kind t = TOK_DEDENT \<or> tok_kind t = TOK_EOF \<and> length (lx_indent_stack lx) = 1) \<and>
     (queued lx \<noteq> [] \<longrightarrow> ending_queued lx \<or> at_content lx)"

lemma queued_empty: "lx_pending_count lx = 0 \<Longrightarrow> queued lx = []"
  by (simp add: queued_def)

lemma queue_length: "length (queued lx) = lx_pending_count lx"
  by (simp add: queued_def)

abbreviation is_indent :: "token \<Rightarrow> bool" where "is_indent t \<equiv> tok_kind t = TOK_INDENT"
abbreviation is_dedent :: "token \<Rightarrow> bool" where "is_dedent t \<equiv> tok_kind t = TOK_DEDENT"

text \<open>The account of one token.\<close>

definition balanced_step :: "lexer \<Rightarrow> token \<Rightarrow> lexer \<Rightarrow> bool" where
  "balanced_step lx t lx' \<longleftrightarrow>
     owed lx' + of_bool (is_dedent t) \<le> owed lx + of_bool (is_indent t) \<and>
     (owed lx \<le> 3 \<longrightarrow> owed lx' + of_bool (is_dedent t) = owed lx + of_bool (is_indent t))"

lemma takeWhile_ending:
  assumes "tok_kind d = TOK_DEDENT" "tok_kind e = TOK_EOF"
  shows "takeWhile (\<lambda>t. tok_kind t \<noteq> TOK_EOF) (ending n d e) = replicate (n mod 4) d"
proof -
  let ?f = "\<lambda>i. if i mod 4 = n mod 4 then e else d"
  have "[0..<Suc n] = [0..<n mod 4] @ [n mod 4..<Suc n]" by (metis le0 le_SucI mod_less_eq_dividend upt_add_eq_append le_add_diff_inverse)
  moreover have "[n mod 4..<Suc n] = n mod 4 # [Suc (n mod 4)..<Suc n]" by (rule upt_conv_Cons) (simp add: le_imp_less_Suc)
  ultimately have "ending n d e = map ?f [0..<n mod 4] @ e # map ?f [Suc (n mod 4)..<Suc n]" by (simp add: ending_def del: upt_Suc)
  moreover have "map ?f [0..<n mod 4] = replicate (n mod 4) d"
  proof (rule nth_equalityI)
    show "map ?f [0..<n mod 4] ! i = replicate (n mod 4) d ! i" if "i < length (map ?f [0..<n mod 4])" for i
    proof -
      have "i < n mod 4" using that by simp
      moreover have "n mod 4 < 4" by simp
      ultimately have "i mod 4 \<noteq> n mod 4" by simp
      then show ?thesis using \<open>i < n mod 4\<close> by simp
    qed
  qed simp
  moreover have "takeWhile (\<lambda>t. tok_kind t \<noteq> TOK_EOF) (replicate k d @ e # ts) = replicate k d" for k ts
    by (induction k) (simp_all add: assms)
  ultimately show ?thesis by metis
qed

text \<open>What is known of a token and the state behind it.\<close>

definition step_facts :: "lexer \<Rightarrow> token \<Rightarrow> lexer \<Rightarrow> bool" where
  "step_facts lx t lx' \<longleftrightarrow>
     lexer_ok lx' \<and> lx_source lx' = lx_source lx \<and>
     (tok_kind t = TOK_EOF \<or> weight lx' < weight lx \<and> queue_ok lx') \<and>
     (last_token t \<or> balanced_step lx t lx') \<and>
     (tok_kind t = TOK_EOF \<longrightarrow> 0 < lx_pending_count lx \<or> lx_at_line_start lx \<or> \<not> at_content lx) \<and>
     (tok_kind t = TOK_EOF \<and> (0 < lx_pending_count lx \<or> lx_at_line_start lx) \<and> owed lx \<le> 3 \<longrightarrow> owed lx = 0) \<and>
     (is_dedent t \<longrightarrow> ending_queued lx' \<or> at_content lx') \<and>
     (tok_kind t = TOK_NEWLINE \<longrightarrow> lx_at_line_start lx')"

lemma pop_facts:
  assumes "lexer_ok lx" "queue_ok lx" "0 < lx_pending_count lx"
  shows "step_facts lx (fst (pop_pending lx)) (snd (pop_pending lx))"
proof -
  obtain t lx' where pp: "pop_pending lx = (t, lx')" by fastforce
  have q: "queued lx = t # queued lx'"
    using pop_pending_queued [OF assms(3)] assms(1) pp by (simp add: lexer_ok_def layout_ok_def)
  have f: "lx_indent_stack lx' = lx_indent_stack lx" "lx_source lx' = lx_source lx" "lx_current lx' = lx_current lx"
    "lx_at_line_start lx' = lx_at_line_start lx" "lx_pending_count lx' = lx_pending_count lx - 1"
    using pp by (auto simp: pop_pending_def)
  have c: "at_content lx' = at_content lx" by (rule at_content_cong) (simp_all add: f)
  have "lexer_ok lx'" using pop_pending_step [OF assms(1)] pp by (simp add: step_ok_def)
  moreover have "tok_kind t = TOK_DEDENT \<or> tok_kind t = TOK_EOF \<and> length (lx_indent_stack lx) = 1"
    using assms(2) q by (simp add: queue_ok_def)
  ultimately show ?thesis
    using assms(2,3) q f c pp
    by (auto simp: step_facts_def queue_ok_def ending_queued_def last_token_def weight_def balanced_step_def owed_def)
qed

lemma scan_facts:
  assumes "lexer_ok lx" "lx_pending_count lx = 0" "\<not> lx_at_line_start lx"
  shows "\<exists>t lx'. scan_and_note lx = Some (t, lx') \<and> step_facts lx t lx'"
proof -
  obtain t lx1 where s: "scan_raw_token lx = Some (t, lx1)" and m: "moves lx lx1"
    and k: "tok_kind t = TOK_EOF \<or> raw_kind (tok_kind t) \<and> lx_current lx < lx_current lx1"
    and eof: "tok_kind t = TOK_EOF \<Longrightarrow> \<exists>lx1. skip_whitespace lx = Some lx1 \<and> peek lx1 = Some NUL"
    using scan_raw_token_total [of lx] assms(1) by (auto simp: lexer_ok_def raw_kind_def)
  define lx' where "lx' = (if tok_kind t = TOK_NEWLINE then lx1\<lparr>lx_at_line_start := True\<rparr> else lx1)"
  have ok: "lexer_ok lx'"
    using lexer_ok_moves [OF m assms(1)] by (auto simp: lx'_def lexer_ok_def sound_def layout_ok_def)
  have f: "lx_indent_stack lx' = lx_indent_stack lx" "lx_pending_count lx' = 0" "lx_source lx' = lx_source lx"
    "lx_current lx' = lx_current lx1" "lx_current lx1 \<le> length (lx_source lx)"
    using moves_fields [OF m] assms(2) by (auto simp: lx'_def)
  have q: "queued lx' = []" "queued lx = []" using f(2) assms(2) by (simp_all add: queued_empty)
  have e: "\<not> at_content lx" if "tok_kind t = TOK_EOF"
  proof
    assume "at_content lx"
    then obtain c where c: "peek lx = Some c" "\<not> blank_end c" "c \<noteq> CHR '' ''" "c \<noteq> CHR 0x09" by (auto simp: at_content_def)
    have "skip_whitespace lx = Some lx"
      using c by (subst skip_whitespace.simps) (auto simp: blank_end_def)
    moreover have "c \<noteq> NUL" using c by (auto simp: blank_end_def)
    ultimately show False using eof [OF that] c by simp
  qed
  have "weight lx' < weight lx" if "tok_kind t \<noteq> TOK_EOF"
    using that k f assms(2,3) by (auto simp: weight_def last_token_def)
  then have "step_facts lx t lx'"
    using ok k f q e assms by (auto simp: step_facts_def queue_ok_def balanced_step_def owed_def last_token_def raw_kind_def lx'_def)
  then show ?thesis using s by (auto simp: scan_and_note_def lx'_def)
qed

lemma line_facts:
  assumes "lexer_ok lx" "lx_pending_count lx = 0" "lx_at_line_start lx" "line_outcome lx (Some t) lx'"
    "step_ok (lx\<lparr>lx_at_line_start := False\<rparr>) lx'"
  shows "step_facts lx t lx'"
  using assms(4)
proof cases
  case (failed n d)
  have c: "lx_pending_count lx' = n" using failed(2) queue_length [of lx'] by simp
  have "length (lx_source lx) - lx_current lx' \<le> length (lx_source lx) - lx_current lx"
    by (rule diff_le_mono2) (use assms(5) in \<open>simp add: step_ok_def\<close>)
  then have "weight lx' < weight lx" using assms(2,3,5) failed(4) c by (simp add: weight_def step_ok_def)
  moreover have "queue_ok lx'" using failed by (simp add: queue_ok_def)
  ultimately show ?thesis using assms(5) failed(1) by (simp add: step_facts_def last_token_def step_ok_def)
next
  case (indent n)
  have "lx_indent_stack lx \<noteq> []" "lx_current lx' \<le> length (lx_source lx)"
    using assms(1,5) by (auto simp: lexer_ok_def layout_ok_def step_ok_def sound_def)
  then show ?thesis
    using assms indent by (simp add: step_facts_def last_token_def step_ok_def weight_def queue_ok_def balanced_step_def owed_def queued_empty)
next
  case (dedent n)
  have q: "queued lx' = replicate (n - 1) t" using dedent(2) by (cases n) simp_all
  have c: "lx_pending_count lx' = n - 1" using q queue_length [of lx'] by simp
  have n: "0 < n" using dedent(2) by (cases n) simp_all
  have tw: "takeWhile (\<lambda>t. tok_kind t \<noteq> TOK_EOF) (replicate k t) = replicate k t" for k
    by (induction k) (simp_all add: dedent(1))
  show ?thesis
    using assms dedent n c q
    by (auto simp: step_facts_def last_token_def step_ok_def weight_def queue_ok_def balanced_step_def owed_def queued_empty tw)
next
  case (end_of_source d e)
  let ?n = "length (lx_indent_stack lx) - 1"
  have st: "length (lx_indent_stack lx) = Suc ?n" using assms(1) by (auto simp: lexer_ok_def layout_ok_def)
  have tw: "takeWhile (\<lambda>t. tok_kind t \<noteq> TOK_EOF) (t # queued lx') = replicate (?n mod 4) d"
    unfolding end_of_source(3) by (rule takeWhile_ending) (use end_of_source in simp_all)
  have m: "set (t # queued lx') \<subseteq> {d, e}" unfolding end_of_source(3) by (auto simp: ending_def)
  have l: "last (t # queued lx') = e" unfolding end_of_source(3) by (simp add: ending_def last_map)
  have len: "length (t # queued lx') = Suc ?n" unfolding end_of_source(3) by (simp add: ending_def del: upt_Suc)
  have c: "lx_pending_count lx' = ?n" using len queue_length [of lx'] by simp
  have e: "ending_queued lx'" if "queued lx' \<noteq> []"
    using l that end_of_source(2) last_in_set [OF that] by (auto simp: ending_queued_def)
  have qo: "queue_ok lx'" using m end_of_source(1,2,4) e by (auto simp: queue_ok_def)
  have o: "owed lx = ?n" using assms(2) by (simp add: owed_def queued_empty)
  have "length (lx_source lx) - lx_current lx' \<le> length (lx_source lx) - lx_current lx"
    by (rule diff_le_mono2) (use assms(5) in \<open>simp add: step_ok_def\<close>)
  then have w: "weight lx' < weight lx"
    using assms(2,3,5) end_of_source(4) c st by (simp add: weight_def step_ok_def)
  have f: "lexer_ok lx'" using assms(5) by (simp add: step_ok_def)
  show ?thesis
  proof (cases "tok_kind t = TOK_EOF")
    case True
    then have "?n mod 4 = 0" using tw by simp
    then have "?n \<le> 3 \<Longrightarrow> ?n = 0" by (simp add: mod_less)
    then show ?thesis using True f o assms(3,5) by (auto simp: step_facts_def last_token_def step_ok_def)
  next
    case False
    then have t: "t = d" "queued lx' \<noteq> []" using m l end_of_source(1,2) by (auto simp: last_ConsL)
    have "Suc (length (takeWhile (\<lambda>t. tok_kind t \<noteq> TOK_EOF) (queued lx'))) = ?n mod 4"
      using arg_cong [OF tw, of length] False by simp
    then have "owed lx' + 1 = ?n mod 4" using end_of_source(4) by (simp add: owed_def)
    then have "balanced_step lx t lx'" using t(1) end_of_source(1) o mod_less [of ?n 4] by (auto simp: balanced_step_def)
    then show ?thesis using f qo w e t end_of_source(1) assms(5) by (simp add: step_facts_def step_ok_def)
  qed
qed

theorem lexer_next_facts:
  assumes "lexer_ok lx" "queue_ok lx"
  shows "\<exists>t lx'. lexer_next lx = Some (t, lx') \<and> step_facts lx t lx'"
proof (cases "0 < lx_pending_count lx")
  case True
  then show ?thesis using pop_facts [OF assms] by (cases "pop_pending lx") (simp add: lexer_next_def)
next
  case empty: False
  then have n: "lx_pending_count lx = 0" by simp
  show ?thesis
  proof (cases "lx_at_line_start lx")
    case False
    then show ?thesis using scan_facts [OF assms(1) n False] empty by (simp add: lexer_next_def)
  next
    case True
    let ?lx = "lx\<lparr>lx_at_line_start := False\<rparr>"
    have ok: "lexer_ok ?lx" using assms(1) by (simp add: lexer_ok_def sound_def layout_ok_def)
    obtain r lx1 where r: "line_start ?lx = Some (r, lx1)" "line_outcome ?lx r lx1" "step_ok ?lx lx1"
      using line_start_spec [OF ok] n by auto
    have out: "line_outcome lx r lx1" using r(2) by (cases rule: line_outcome.cases) (auto intro: line_outcome.intros)
    show ?thesis
    proof (cases r)
      case (Some t)
      then show ?thesis
        using line_facts [OF assms(1) n True _ r(3)] out r(1) empty True by (auto simp: lexer_next_def)
    next
      case None
      have st: "lx_indent_stack lx1 = lx_indent_stack lx" "lx_pending_count lx1 = 0" "at_content lx1"
        using out None by (auto elim: line_outcome_cases(2))
      have ok1: "lexer_ok lx1" and nl: "\<not> lx_at_line_start lx1" using r(3) by (auto simp: step_ok_def)
      obtain t lx' where s: "scan_and_note lx1 = Some (t, lx')" "step_facts lx1 t lx'"
        using scan_facts [OF ok1 st(2) nl] by blast
      have "weight lx1 < weight lx" "owed lx1 = owed lx" "lx_source lx1 = lx_source lx"
        using st n True nl r(3) by (auto simp: weight_def owed_def queued_empty step_ok_def)
      moreover have "tok_kind t \<noteq> TOK_EOF" using s(2) st nl by (auto simp: step_facts_def)
      ultimately have "step_facts lx t lx'" using s(2) by (auto simp: step_facts_def balanced_step_def)
      then show ?thesis using s r(1) None empty True by (auto simp: lexer_next_def)
    qed
  qed
qed

section \<open>Runs\<close>

lemma lexer_init_ok: "source = [] \<or> last source \<noteq> CHR 0x5C \<Longrightarrow> lexer_ok (lexer_init source)"
  by (simp add: lexer_ok_def sound_def layout_ok_def lexer_init_def FLUX_INDENT_MAX_def)

lemma lexer_init_queue: "queue_ok (lexer_init source)" "owed (lexer_init source) = 0" "lx_at_line_start (lexer_init source)"
  "weight (lexer_init source) = 2 * length source + 2"
  by (simp_all add: queue_ok_def owed_def queued_def lexer_init_def weight_def)

text \<open>A run that has not delivered its last token.\<close>

inductive lexer_reach :: "string \<Rightarrow> lexer \<Rightarrow> bool" for source where
  reach_init: "lexer_reach source (lexer_init source)"
| reach_next: "lexer_reach source lx \<Longrightarrow> lexer_next lx = Some (t, lx') \<Longrightarrow> \<not> last_token t \<Longrightarrow> lexer_reach source lx'"

lemma lexer_reach_ok:
  assumes "lexer_reach source lx" "source = [] \<or> last source \<noteq> CHR 0x5C"
  shows "lexer_ok lx \<and> queue_ok lx"
  using assms(1)
proof induction
  case reach_init
  then show ?case using lexer_init_ok assms(2) lexer_init_queue(1) by blast
next
  case (reach_next lx t lx')
  then show ?case using lexer_next_facts [of lx] by (auto simp: step_facts_def last_token_def)
qed

lemma tokens_run:
  "lexer_ok lx \<Longrightarrow> queue_ok lx \<Longrightarrow> weight lx < n \<Longrightarrow>
    \<exists>ts t. tokens n lx = Some (ts @ [t]) \<and> last_token t \<and> (\<forall>u \<in> set ts. \<not> last_token u)"
proof (induction n arbitrary: lx)
  case 0
  then show ?case by simp
next
  case (Suc n)
  obtain t lx' where n: "lexer_next lx = Some (t, lx')" and f: "step_facts lx t lx'"
    using lexer_next_facts [OF Suc.prems(1,2)] by blast
  show ?case
  proof (cases "last_token t")
    case True
    then have "tokens (Suc n) lx = Some ([] @ [t])" using n by (simp add: last_token_def)
    then show ?thesis using True by (metis empty_iff empty_set)
  next
    case False
    then have "lexer_ok lx'" "queue_ok lx'" "weight lx' < n" using f Suc.prems(3) by (auto simp: step_facts_def last_token_def)
    then obtain ts u where r: "tokens n lx' = Some (ts @ [u])" "last_token u" "\<forall>u \<in> set ts. \<not> last_token u" using Suc.IH by blast
    have "tokens (Suc n) lx = Some ((t # ts) @ [u])" using n r(1) False by (simp add: last_token_def)
    then show ?thesis using r False by (metis set_ConsD)
  qed
qed

definition indents :: "token list \<Rightarrow> nat" where
  "indents ts = length (filter is_indent ts)"

definition dedents :: "token list \<Rightarrow> nat" where
  "dedents ts = length (filter is_dedent ts)"

lemma counts [simp]:
  "indents [] = 0" "dedents [] = 0" "indents (t # ts) = of_bool (is_indent t) + indents ts"
  "dedents (t # ts) = of_bool (is_dedent t) + dedents ts"
  by (simp_all add: indents_def dedents_def)

lemma counts_append [simp]: "indents (ts @ us) = indents ts + indents us" "dedents (ts @ us) = dedents ts + dedents us"
  by (simp_all add: indents_def dedents_def)

lemma tokens_Suc_cases:
  assumes "tokens (Suc n) lx = Some ts" "lexer_ok lx" "queue_ok lx"
  obtains t where "ts = [t]" "last_token t"
    "tok_kind t = TOK_EOF \<Longrightarrow> (lx_at_line_start lx \<or> ending_queued lx \<or> at_content lx) \<Longrightarrow> owed lx \<le> 3 \<Longrightarrow> owed lx = 0"
  | t lx' us where "ts = t # us" "\<not> last_token t" "tokens n lx' = Some us" "step_facts lx t lx'" "lexer_ok lx'" "queue_ok lx'"
    "balanced_step lx t lx'"
proof -
  obtain t lx' where n: "lexer_next lx = Some (t, lx')" and f: "step_facts lx t lx'"
    using lexer_next_facts [OF assms(2,3)] by blast
  show thesis
  proof (cases "last_token t")
    case True
    have "ending_queued lx \<Longrightarrow> 0 < lx_pending_count lx" using queue_length [of lx] by (cases "queued lx") (auto simp: ending_queued_def)
    then show ?thesis using that(1) [of t] True assms(1) n f by (auto simp: last_token_def step_facts_def)
  next
    case False
    then obtain us where "tokens n lx' = Some us" "ts = t # us"
      using assms(1) n by (auto simp: last_token_def bind_Some_iff)
    then show ?thesis using that(2) [of t us lx'] False f by (auto simp: step_facts_def last_token_def)
  qed
qed

lemma tokens_prefix:
  "tokens n lx = Some ts \<Longrightarrow> lexer_ok lx \<Longrightarrow> queue_ok lx \<Longrightarrow> dedents (take k ts) \<le> indents (take k ts) + owed lx"
proof (induction n arbitrary: lx ts k)
  case 0
  then show ?case by simp
next
  case (Suc n)
  from Suc.prems show ?case
  proof (cases rule: tokens_Suc_cases)
    case (1 t)
    then show ?thesis by (cases k) (auto simp: last_token_def)
  next
    case (2 t lx' us)
    show ?thesis
    proof (cases k)
      case (Suc j)
      have "dedents (take j us) \<le> indents (take j us) + owed lx'" by (rule Suc.IH) (use 2 in auto)
      then show ?thesis using 2 Suc by (simp add: balanced_step_def)
    qed simp
  qed
qed

text \<open>Behind the last line end only the levels still owed are closed.\<close>

lemma tokens_closing:
  "tokens n lx = Some (ds @ [e]) \<Longrightarrow> lexer_ok lx \<Longrightarrow> queue_ok lx \<Longrightarrow> \<forall>d \<in> set ds. is_dedent d \<Longrightarrow> tok_kind e = TOK_EOF \<Longrightarrow>
    owed lx \<le> 3 \<Longrightarrow> lx_at_line_start lx \<or> ending_queued lx \<or> at_content lx \<Longrightarrow> length ds = owed lx"
proof (induction n arbitrary: lx ds)
  case 0
  then show ?case by simp
next
  case (Suc n)
  from Suc.prems(1,2,3) show ?case
  proof (cases rule: tokens_Suc_cases)
    case (1 t)
    then show ?thesis using Suc.prems by simp
  next
    case (2 t lx' us)
    have "ds \<noteq> []"
    proof
      assume "ds = []"
      then have "last_token t" using 2(1) Suc.prems(5) by (simp add: last_token_def)
      then show False using 2(2) by simp
    qed
    then obtain ds' where ds: "ds = t # ds'" "us = ds' @ [e]" using 2(1) by (cases ds) auto
    then have d: "is_dedent t" using Suc.prems(4) by simp
    then have o: "owed lx' + 1 = owed lx" using 2(7) Suc.prems(6) by (auto simp: balanced_step_def)
    have "ending_queued lx' \<or> at_content lx'" using 2(4) d by (simp add: step_facts_def)
    then have "length ds' = owed lx'" using Suc.IH [of lx' ds'] 2 ds Suc.prems o by auto
    then show ?thesis using ds o by simp
  qed
qed

lemma tokens_closed:
  "tokens n lx = Some (us @ nl # ds @ [e]) \<Longrightarrow> lexer_ok lx \<Longrightarrow> queue_ok lx \<Longrightarrow> tok_kind nl = TOK_NEWLINE \<Longrightarrow>
    \<forall>d \<in> set ds. is_dedent d \<Longrightarrow> tok_kind e = TOK_EOF \<Longrightarrow>
    \<forall>k. owed lx + indents (take k us) \<le> dedents (take k us) + 3 \<Longrightarrow> dedents us + length ds = owed lx + indents us"
proof (induction n arbitrary: lx us)
  case 0
  then show ?case by simp
next
  case (Suc n)
  from Suc.prems(1,2,3) show ?case
  proof (cases rule: tokens_Suc_cases)
    case (1 t)
    then show ?thesis by (cases us) simp_all
  next
    case (2 t lx' ts)
    have o3: "owed lx \<le> 3" using Suc.prems(7) [rule_format, of 0] by simp
    then have o: "owed lx' + of_bool (is_dedent t) = owed lx + of_bool (is_indent t)" using 2(7) by (simp add: balanced_step_def)
    show ?thesis
    proof (cases us)
      case Nil
      then have t: "t = nl" "ts = ds @ [e]" using 2(1) by auto
      then have "lx_at_line_start lx'" "owed lx' = owed lx" using 2(4) o Suc.prems(4) by (auto simp: step_facts_def)
      then have "length ds = owed lx" using tokens_closing [of n lx' ds e] 2 t Suc.prems o3 by simp
      then show ?thesis using Nil by simp
    next
      case (Cons u us')
      then have u: "t = u" "ts = us' @ nl # ds @ [e]" using 2(1) by auto
      have "owed lx' + indents (take k us') \<le> dedents (take k us') + 3" for k
        using Suc.prems(7) [rule_format, of "Suc k"] o Cons u(1) by simp
      then have "dedents us' + length ds = owed lx' + indents us'" using Suc.IH [of lx' us'] 2 u Suc.prems by simp
      then show ?thesis using Cons u o by simp
    qed
  qed
qed

end
