(* ===== verification/LexerWords.thy ===== *)
theory LexerWords
  imports LexerLayout
begin

text \<open>
  Lexemes: what the scanner does with a spelled token that is followed by white space.
\<close>

section \<open>The rest of the source\<close>

definition rest :: "lexer \<Rightarrow> string" where
  "rest lx = drop (lx_current lx) (lx_source lx)"

text \<open>The lexer \<open>n\<close> characters of the same line further.\<close>

definition fwd :: "nat \<Rightarrow> lexer \<Rightarrow> lexer" where
  "fwd n lx = lx\<lparr>lx_current := lx_current lx + n, lx_column := lx_column lx + n\<rparr>"

lemma fwd_fwd [simp]: "fwd m (fwd n lx) = fwd (n + m) lx" "fwd 0 lx = lx"
  by (simp_all add: fwd_def add.assoc)

lemma rest_fwd [simp]: "rest (fwd n lx) = drop n (rest lx)"
  by (simp add: rest_def fwd_def add.commute)

lemma fwd_fields [simp]:
  "lx_source (fwd n lx) = lx_source lx" "lx_start (fwd n lx) = lx_start lx" "lx_current (fwd n lx) = lx_current lx + n"
  "lx_line (fwd n lx) = lx_line lx" "lx_column (fwd n lx) = lx_column lx + n" "lx_indent_stack (fwd n lx) = lx_indent_stack lx"
  "lx_pending (fwd n lx) = lx_pending lx" "lx_pending_count (fwd n lx) = lx_pending_count lx"
  "lx_pending_head (fwd n lx) = lx_pending_head lx" "lx_at_line_start (fwd n lx) = lx_at_line_start lx"
  by (simp_all add: fwd_def)

lemma rest_start [simp]: "rest (lx\<lparr>lx_start := k\<rparr>) = rest lx"
  by (simp add: rest_def)

lemma rest_nth:
  assumes "rest lx = u @ c # s"
  shows "char_at lx (lx_current lx + length u) = Some c"
proof -
  have "length (u @ c # s) = length (lx_source lx) - lx_current lx" using assms by (simp add: rest_def flip: assms)
  then have i: "lx_current lx + length u < length (lx_source lx)" by simp
  have "lx_source lx ! (lx_current lx + length u) = rest lx ! length u" using i by (simp add: rest_def)
  then show ?thesis using i assms by (simp add: char_at_def)
qed

lemma peek_rest: "rest lx = c # s \<Longrightarrow> peek lx = Some c"
  using rest_nth [of lx "[]"] by (simp add: peek_def)

lemma next_rest: "rest lx = b # c # s \<Longrightarrow> char_at lx (Suc (lx_current lx)) = Some c"
  using rest_nth [of lx "[b]"] by simp

lemma peek_next_rest: "rest lx = b # c # s \<Longrightarrow> b \<noteq> NUL \<Longrightarrow> peek_next lx = Some c"
  by (simp add: peek_next_def is_at_end_def peek_rest next_rest)

lemma advance_rest: "rest lx = c # s \<Longrightarrow> c \<noteq> CHR 0x0A \<Longrightarrow> advance lx = Some (c, fwd 1 lx)"
  by (simp add: advance_def peek_rest fwd_def)

lemma skip_rest: "rest lx = c # s \<Longrightarrow> c \<noteq> CHR 0x0A \<Longrightarrow> skip lx = Some (fwd 1 lx)"
  by (simp add: skip_def advance_rest)

lemma skip_while_rest:
  "rest lx = w @ c # s \<Longrightarrow> \<forall>x \<in> set w. P x \<and> x \<noteq> CHR 0x0A \<Longrightarrow> \<not> P c \<Longrightarrow> skip_while P lx = Some (fwd (length w) lx)"
proof (induction w arbitrary: lx)
  case Nil
  then show ?case by (subst skip_while.simps) (simp add: peek_rest)
next
  case (Cons x w)
  have "skip_while P (fwd 1 lx) = Some (fwd (length w) (fwd 1 lx))"
    by (rule Cons.IH) (use Cons.prems in simp_all)
  then show ?case using Cons.prems by (subst skip_while.simps) (simp add: peek_rest skip_rest)
qed

lemma match_rest:
  "rest lx = d # s \<Longrightarrow> d \<noteq> NUL \<Longrightarrow> c \<noteq> CHR 0x0A \<Longrightarrow> accept lx c yes no = (if d = c then yes (fwd 1 lx) else no lx)"
  by (auto simp: accept_def match_char_def peek_rest skip_rest)

section \<open>Spellings\<close>

definition operators :: "(string \<times> token_kind) list" where
  "operators =
    [(''('', TOK_LPAREN), ('')'', TOK_RPAREN), (''['', TOK_LBRACKET), ('']'', TOK_RBRACKET), (''{'', TOK_LBRACE),
     (''}'', TOK_RBRACE), ('','', TOK_COMMA), ('';'', TOK_SEMICOLON), (''?'', TOK_QUESTION), (''~'', TOK_TILDE),
     ('':'', TOK_COLON), ('':='', TOK_WALRUS), (''.'', TOK_DOT), (''..'', TOK_ELLIPSIS),
     (''+'', TOK_PLUS), (''+='', TOK_PLUS_ASSIGN), (''-'', TOK_MINUS), (''-='', TOK_MINUS_ASSIGN), (''->'', TOK_ARROW),
     (''*'', TOK_STAR), (''*='', TOK_STAR_ASSIGN), (''**'', TOK_STAR_STAR), (''**='', TOK_STAR_STAR_ASSIGN),
     (''/'', TOK_SLASH), (''/='', TOK_SLASH_ASSIGN), (''//'', TOK_SLASH_SLASH), (''//='', TOK_SLASH_SLASH_ASSIGN),
     (''%'', TOK_PERCENT), (''%='', TOK_PERCENT_ASSIGN), (''&'', TOK_AMPERSAND), (''&='', TOK_AMPERSAND_ASSIGN),
     (''|'', TOK_PIPE), (''|='', TOK_PIPE_ASSIGN), (''|>'', TOK_PIPE_ARROW), (''^'', TOK_CARET), (''^='', TOK_CARET_ASSIGN),
     (''<'', TOK_LT), (''<='', TOK_LTE), (''<<'', TOK_LSHIFT), (''<<='', TOK_LSHIFT_ASSIGN),
     (''>'', TOK_GT), (''>='', TOK_GTE), (''>>'', TOK_RSHIFT), (''>>='', TOK_RSHIFT_ASSIGN),
     (''='', TOK_ASSIGN), (''=='', TOK_EQ), (''=>'', TOK_FAT_ARROW), (''@>'', TOK_AT_ARROW), (''!='', TOK_NEQ)]"

definition plain_char :: "char \<Rightarrow> char \<Rightarrow> bool" where
  "plain_char q c \<longleftrightarrow> c \<noteq> q \<and> c \<noteq> NUL \<and> c \<noteq> CHR 0x0A \<and> c \<noteq> CHR 0x5C"

inductive spells :: "string \<Rightarrow> token_kind \<Rightarrow> bool" where
  word: "isalpha c \<or> c = CHR ''_'' \<Longrightarrow> \<forall>x \<in> set w. in_word x \<Longrightarrow> spells (c # w) (ident_or_keyword (c # w))"
| decimal: "w \<noteq> [] \<Longrightarrow> \<forall>x \<in> set w. isdigit x \<Longrightarrow> spells w TOK_INT"
| hexadecimal: "x = CHR ''x'' \<or> x = CHR ''X'' \<Longrightarrow> \<forall>x \<in> set w. isxdigit x \<Longrightarrow> spells (CHR ''0'' # x # w) TOK_INT"
| fraction: "u \<noteq> [] \<Longrightarrow> v \<noteq> [] \<Longrightarrow> \<forall>x \<in> set (u @ v). isdigit x \<Longrightarrow> spells (u @ CHR ''.'' # v) TOK_FLOAT"
| quoted: "is_quote q \<Longrightarrow> \<forall>x \<in> set w. plain_char q x \<Longrightarrow> spells (q # w @ [q]) TOK_STRING"
| operator: "(w, k) \<in> set operators \<Longrightarrow> spells w k"

definition blank_char :: "char \<Rightarrow> bool" where
  "blank_char c \<longleftrightarrow> c = CHR '' '' \<or> c = CHR 0x0A"

text \<open>The token of a lexeme and the lexer behind it.\<close>

definition scanned :: "lexer \<Rightarrow> nat \<Rightarrow> token_kind \<Rightarrow> token \<times> lexer" where
  "scanned lx n k =
     (\<lparr>tok_kind = k, tok_start = In_Source (lx_current lx), tok_length = n, tok_line = lx_line lx, tok_column = lx_column lx + n\<rparr>,
      (fwd n lx)\<lparr>lx_start := lx_current lx\<rparr>)"

lemma emit_scanned: "emit (fwd n (lx\<lparr>lx_start := lx_current lx\<rparr>)) k = Some (scanned lx n k)"
  by (simp add: emit_def make_token_def scanned_def fwd_def)

text \<open>The scanner inside a line, at a character that is neither blank nor a comment.\<close>

definition scan_first :: "char \<Rightarrow> lexer \<Rightarrow> (token \<times> lexer) option" where
  "scan_first c lx =
     (if isalpha c \<or> c = CHR ''_'' then scan_word lx
      else if isdigit c then do {
        x \<leftarrow> peek lx;
        if c = CHR ''0'' \<and> (x = CHR ''x'' \<or> x = CHR ''X'') then do { lx \<leftarrow> skip lx; scan_hex lx }
        else scan_number lx
      }
      else if is_quote c then scan_quoted c lx
      else if c = CHR 0x0A then emit lx TOK_NEWLINE
      else scan_operator c lx)"

definition first_char :: "char \<Rightarrow> bool" where
  "first_char c \<longleftrightarrow> c \<notin> {CHR '' '', CHR 0x09, CHR 0x0D, CHR ''#'', CHR 0x0A, NUL}"

lemma scan_raw_first:
  assumes "rest lx = c # s" "first_char c"
  shows "scan_raw_token lx = scan_first c (fwd 1 (lx\<lparr>lx_start := lx_current lx\<rparr>))"
proof -
  have "skip_whitespace lx = Some lx"
    using assms by (subst skip_whitespace.simps) (simp add: peek_rest first_char_def)
  moreover have "peek (lx\<lparr>lx_start := lx_current lx\<rparr>) = Some c" using peek_rest [of "lx\<lparr>lx_start := lx_current lx\<rparr>"] assms by simp
  moreover have "advance (lx\<lparr>lx_start := lx_current lx\<rparr>) = Some (c, fwd 1 (lx\<lparr>lx_start := lx_current lx\<rparr>))"
    by (rule advance_rest) (use assms in \<open>auto simp: first_char_def\<close>)
  ultimately show ?thesis using assms(2) by (simp add: scan_raw_token_def is_at_end_def first_char_def scan_first_def)
qed

lemma class_first: "isalpha c \<Longrightarrow> first_char c" "isdigit c \<Longrightarrow> first_char c" "is_quote c \<Longrightarrow> first_char c" "first_char (CHR ''_'')"
  by (auto simp: isalpha_def isdigit_def is_quote_def first_char_def char_between_def NUL_def)

lemma in_word_same_line: "in_word c \<Longrightarrow> c \<noteq> CHR 0x0A" "isdigit c \<Longrightarrow> c \<noteq> CHR 0x0A" "isxdigit c \<Longrightarrow> c \<noteq> CHR 0x0A"
  by (auto simp: in_word_def isalpha_def isdigit_def isxdigit_def char_between_def)

lemma blank_class: "blank_char c \<Longrightarrow> \<not> in_word c \<and> \<not> isdigit c \<and> \<not> isxdigit c \<and> \<not> is_quote c \<and> c \<noteq> NUL \<and> c \<noteq> CHR ''.'' \<and> c \<noteq> CHR ''e'' \<and> c \<noteq> CHR ''E'' \<and> c \<noteq> CHR ''x'' \<and> c \<noteq> CHR ''X''"
  by (auto simp: blank_char_def in_word_def isalpha_def isdigit_def isxdigit_def is_quote_def char_between_def NUL_def)

section \<open>Scanning a spelling\<close>

text \<open>The lexer behind the first character of a lexeme.\<close>

abbreviation started :: "lexer \<Rightarrow> lexer" where
  "started lx \<equiv> lx\<lparr>lx_start := lx_current lx\<rparr>"

lemma scan_word_spelled:
  assumes "rest lx = (c # w) @ b # s" "isalpha c \<or> c = CHR ''_''" "\<forall>x \<in> set w. in_word x" "blank_char b"
  shows "scan_first c (fwd 1 (started lx)) = Some (scanned lx (Suc (length w)) (ident_or_keyword (c # w)))"
proof -
  let ?lx = "fwd 1 (started lx)"
  have r: "rest ?lx = w @ b # s" using assms(1) by simp
  have k: "skip_while in_word ?lx = Some (fwd (length w) ?lx)"
    by (rule skip_while_rest [OF r]) (use assms in_word_same_line blank_class in auto)
  have "peek (fwd (length w) ?lx) = Some b" by (rule peek_rest [of _ b s]) (simp add: assms(1))
  moreover have "take (lx_current (fwd (length w) ?lx) - lx_start (fwd (length w) ?lx)) (drop (lx_start (fwd (length w) ?lx)) (lx_source lx)) = c # w"
    using assms(1) by (simp add: rest_def)
  ultimately have "scan_word ?lx = emit (fwd (length w) ?lx) (ident_or_keyword (c # w))"
    using k blank_class [OF assms(4)] by (simp add: scan_word_def Let_def)
  then show ?thesis using assms(2) emit_scanned [of "Suc (length w)" lx] by (simp add: scan_first_def)
qed

lemma digits_rest:
  "rest lx = w @ b # s \<Longrightarrow> \<forall>x \<in> set w. isdigit x \<Longrightarrow> \<not> isdigit b \<Longrightarrow> digits lx = Some (fwd (length w) lx)"
  unfolding digits_def by (rule skip_while_rest) (auto simp: in_word_same_line)

lemma scan_number_integer:
  assumes "rest lx = w @ b # s" "\<forall>x \<in> set w. isdigit x" "blank_char b"
  shows "scan_number lx = emit (fwd (length w) lx) TOK_INT"
proof -
  have "digits lx = Some (fwd (length w) lx)" by (rule digits_rest [OF assms(1,2)]) (simp add: blank_class [OF assms(3)])
  moreover have "peek (fwd (length w) lx) = Some b" by (rule peek_rest) (simp add: assms(1))
  ultimately show ?thesis using blank_class [OF assms(3)] by (simp add: scan_number_def scan_fraction_def)
qed

lemma scan_number_fraction:
  assumes "rest lx = u @ CHR ''.'' # v @ b # s" "\<forall>x \<in> set (u @ v). isdigit x" "v \<noteq> []" "blank_char b"
  shows "scan_number lx = emit (fwd (length u + length v + 1) lx) TOK_FLOAT"
proof -
  let ?lx = "fwd (length u) lx"
  have d: "\<not> isdigit (CHR ''.'')" by (simp add: isdigit_def char_between_def)
  have 1: "digits lx = Some ?lx" by (rule digits_rest [OF assms(1)]) (use assms(2) d in auto)
  have r: "rest ?lx = CHR ''.'' # v @ b # s" by (simp add: assms(1))
  obtain x v' where v: "v = x # v'" "isdigit x" using assms(2,3) by (cases v) auto
  have 2: "peek_next ?lx = Some x" by (rule peek_next_rest) (use r v in \<open>auto simp: NUL_def\<close>)
  have 3: "skip ?lx = Some (fwd 1 ?lx)" by (rule skip_rest [OF r]) simp
  have 4: "digits (fwd 1 ?lx) = Some (fwd (length v) (fwd 1 ?lx))"
    by (rule digits_rest [of _ v b s]) (use assms(1,2) blank_class [OF assms(4)] in auto)
  have 5: "peek (fwd (length v) (fwd 1 ?lx)) = Some b" by (rule peek_rest) (simp add: assms(1))
  have f: "scan_fraction ?lx = Some (True, fwd (length u + length v + 1) lx)"
    using peek_rest [OF r] 2 3 4 v by (simp add: scan_fraction_def add.assoc add.commute)
  then show ?thesis
    using 1 5 blank_class [OF assms(4)] by (simp add: scan_number_def add.assoc add.commute)
qed

lemma class_disjoint:
  "isdigit c \<Longrightarrow> \<not> isalpha c \<and> c \<noteq> CHR ''_'' \<and> c \<noteq> CHR ''x'' \<and> c \<noteq> CHR ''X''"
  "is_quote c \<Longrightarrow> \<not> isalpha c \<and> c \<noteq> CHR ''_'' \<and> \<not> isdigit c"
  by (auto simp: isalpha_def isdigit_def is_quote_def char_between_def)

lemma scan_decimal_spelled:
  assumes "rest lx = (c # w) @ b # s" "\<forall>x \<in> set (c # w). isdigit x" "blank_char b"
  shows "scan_first c (fwd 1 (started lx)) = Some (scanned lx (Suc (length w)) TOK_INT)"
proof -
  let ?lx = "fwd 1 (started lx)"
  have r: "rest ?lx = w @ b # s" using assms(1) by simp
  have "\<exists>x. peek ?lx = Some x \<and> x \<noteq> CHR ''x'' \<and> x \<noteq> CHR ''X''"
    using r assms(2) blank_class [OF assms(3)] class_disjoint(1) peek_rest by (cases w) force+
  then show ?thesis
    using scan_number_integer [OF r _ assms(3)] assms(2) class_disjoint(1) [of c] emit_scanned [of "Suc (length w)" lx]
    by (auto simp: scan_first_def)
qed

lemma scan_hex_spelled:
  assumes "rest lx = (CHR ''0'' # x # w) @ b # s" "x = CHR ''x'' \<or> x = CHR ''X''" "\<forall>x \<in> set w. isxdigit x" "blank_char b"
  shows "scan_first (CHR ''0'') (fwd 1 (started lx)) = Some (scanned lx (Suc (Suc (length w))) TOK_INT)"
proof -
  let ?lx = "fwd 1 (started lx)"
  have r: "rest ?lx = x # w @ b # s" using assms(1) by simp
  have "skip ?lx = Some (fwd 1 ?lx)" by (rule skip_rest [OF r]) (use assms(2) in auto)
  moreover have "skip_while isxdigit (fwd 1 ?lx) = Some (fwd (length w) (fwd 1 ?lx))"
    by (rule skip_while_rest [of _ w b s]) (use assms(1,3) blank_class [OF assms(4)] in \<open>auto simp: in_word_same_line\<close>)
  moreover have "isdigit (CHR ''0'')" "\<not> isalpha (CHR ''0'')" by (simp_all add: isdigit_def isalpha_def char_between_def)
  ultimately show ?thesis
    using peek_rest [OF r] assms(2) emit_scanned [of "Suc (Suc (length w))" lx] by (auto simp: scan_first_def scan_hex_def)
qed

lemma scan_fraction_spelled:
  assumes "rest lx = (c # u) @ CHR ''.'' # v @ b # s" "\<forall>x \<in> set (c # u @ v). isdigit x" "v \<noteq> []" "blank_char b"
  shows "scan_first c (fwd 1 (started lx)) = Some (scanned lx (length u + length v + 2) TOK_FLOAT)"
proof -
  let ?lx = "fwd 1 (started lx)"
  have r: "rest ?lx = u @ CHR ''.'' # v @ b # s" using assms(1) by simp
  have "\<exists>x. peek ?lx = Some x \<and> x \<noteq> CHR ''x'' \<and> x \<noteq> CHR ''X''"
    using r assms(2) class_disjoint(1) peek_rest by (cases u) force+
  then show ?thesis
    using scan_number_fraction [OF r _ assms(3,4)] assms(2) class_disjoint(1) [of c] emit_scanned [of "length u + length v + 2" lx]
    by (auto simp: scan_first_def)
qed

lemma string_loop_rest:
  "rest lx = w @ q # s \<Longrightarrow> \<forall>x \<in> set w. plain_char q x \<Longrightarrow> scan_string_loop q lx = Some (fwd (length w) lx)"
proof (induction w arbitrary: lx)
  case Nil
  then show ?case by (subst scan_string_loop.simps) (simp add: peek_rest)
next
  case (Cons x w)
  have "scan_string_loop q (fwd 1 lx) = Some (fwd (length w) (fwd 1 lx))"
    by (rule Cons.IH) (use Cons.prems in simp_all)
  moreover have "skip_counting lx = Some (fwd 1 lx)"
    using Cons.prems by (simp add: skip_counting_def count_newline_def peek_rest skip_rest plain_char_def)
  ultimately show ?case
    using Cons.prems by (subst scan_string_loop.simps) (simp add: peek_rest plain_char_def)
qed

lemma scan_quoted_spelled:
  assumes "rest lx = (q # w @ [q]) @ b # s" "is_quote q" "\<forall>x \<in> set w. plain_char q x" "blank_char b"
  shows "scan_first q (fwd 1 (started lx)) = Some (scanned lx (length w + 2) TOK_STRING)"
proof -
  let ?lx = "fwd 1 (started lx)"
  have r: "rest ?lx = w @ q # b # s" using assms(1) by simp
  have q: "q \<noteq> NUL" "q \<noteq> CHR 0x0A" "b \<noteq> q" using assms(2) blank_class [OF assms(4)] by (auto simp: is_quote_def)
  have "if_triple q f g ?lx = g ?lx" for f g
  proof (cases w)
    case Nil
    then show ?thesis using r q peek_next_rest [of ?lx q b s] by (simp add: if_triple_def peek_rest)
  next
    case (Cons x w')
    then have "peek ?lx = Some x" "x \<noteq> q" using peek_rest r assms(3) by (auto simp: plain_char_def)
    then show ?thesis by (simp add: if_triple_def)
  qed
  moreover have "scan_string_loop q ?lx = Some (fwd (length w) ?lx)"
    by (rule string_loop_rest [OF r assms(3)])
  moreover have r2: "rest (fwd (length w) ?lx) = q # b # s" using assms(1) by simp
  moreover have "skip (fwd (length w) ?lx) = Some (fwd 1 (fwd (length w) ?lx))" by (rule skip_rest [OF r2 q(2)])
  ultimately have "scan_quoted q ?lx = emit (fwd (length w + 2) (started lx)) TOK_STRING"
    using peek_rest [OF r2] q by (simp add: scan_quoted_def scan_string_def is_at_end_def)
  then show ?thesis
    using class_disjoint(2) [OF assms(2)] assms(2) emit_scanned [of "length w + 2" lx] by (simp add: scan_first_def)
qed

lemma operator_class:
  "(w, k) \<in> set operators \<Longrightarrow> \<exists>c v. w = c # v \<and> first_char c \<and> \<not> isalpha c \<and> c \<noteq> CHR ''_'' \<and> \<not> isdigit c \<and> \<not> is_quote c \<and> length v \<le> 2"
  unfolding operators_def
  by (simp only: list.set insert_iff prod.inject, elim disjE; simp add: first_char_def isalpha_def isdigit_def is_quote_def char_between_def NUL_def)

lemma scan_operator_rest:
  assumes "(c # v, k) \<in> set operators" "rest lx = v @ b # s" "blank_char b"
  shows "scan_operator c lx = emit (fwd (length v) lx) k"
proof -
  have b: "b = CHR '' '' \<or> b = CHR 0x0A" using assms(3) by (simp add: blank_char_def)
  show ?thesis
    using assms(1) unfolding operators_def
    by (simp only: list.set insert_iff prod.inject list.inject, elim disjE conjE)
      (use assms(2) b in \<open>auto simp: scan_operator_def single_tokens_def emit2_def match_rest NUL_def\<close>)
qed

lemma scan_operator_spelled:
  assumes "rest lx = (c # v) @ b # s" "(c # v, k) \<in> set operators" "blank_char b"
  shows "scan_first c (fwd 1 (started lx)) = Some (scanned lx (Suc (length v)) k)"
  using operator_class [OF assms(2)] scan_operator_rest [OF assms(2) _ assms(3), of "fwd 1 (started lx)" s] assms(1)
    emit_scanned [of "Suc (length v)" lx]
  by (simp add: scan_first_def first_char_def)

lemma scan_spelled:
  assumes "spells w k" "rest lx = w @ b # s" "blank_char b"
  shows "scan_raw_token lx = Some (scanned lx (length w) k)"
  using assms(1)
proof cases
  case (word c w')
  have "first_char c" using word(3) class_first by auto
  then show ?thesis
    using scan_raw_first [of lx c "w' @ b # s"] scan_word_spelled [of lx c w' b s] word assms by simp
next
  case decimal
  then obtain c w' where w: "w = c # w'" by (cases w) auto
  then have "first_char c" using decimal(3) class_first(2) by simp
  then show ?thesis
    using scan_raw_first [of lx c "w' @ b # s"] scan_decimal_spelled [of lx c w' b s] decimal w assms by simp
next
  case (hexadecimal x w')
  have "first_char (CHR ''0'')" by (simp add: first_char_def NUL_def)
  then show ?thesis
    using scan_raw_first [of lx "CHR ''0''" "x # w' @ b # s"] scan_hex_spelled [of lx x w' b s] hexadecimal assms by simp
next
  case (fraction u v)
  then obtain c u' where u: "u = c # u'" by (cases u) auto
  then have "first_char c" using fraction(5) class_first(2) by simp
  then show ?thesis
    using scan_raw_first [of lx c "u' @ CHR ''.'' # v @ b # s"] scan_fraction_spelled [of lx c u' v b s] fraction u assms by simp
next
  case (quoted q w')
  have "first_char q" using quoted(3) class_first(3) by simp
  then show ?thesis
    using scan_raw_first [of lx q "w' @ q # b # s"] scan_quoted_spelled [of lx q w' b s] quoted assms by simp
next
  case operator
  then obtain c v where w: "w = c # v" "first_char c" using operator_class by blast
  then show ?thesis
    using scan_raw_first [of lx c "v @ b # s"] scan_operator_spelled [of lx c v b s k] operator assms by simp
qed

lemma spells_first: "spells w k \<Longrightarrow> \<exists>c v. w = c # v \<and> first_char c"
proof (induction rule: spells.induct)
  case (decimal w)
  then show ?case using class_first(2) by (cases w) auto
next
  case (fraction u v)
  then show ?case using class_first(2) by (cases u) auto
next
  case (operator w k)
  then show ?case using operator_class by blast
next
  case (word c w)
  then show ?case using class_first(1,4) by auto
next
  case (hexadecimal x w)
  then show ?case by (simp add: first_char_def NUL_def)
next
  case (quoted q w)
  then show ?case using class_first(3) by simp
qed

definition layout_kind :: "token_kind \<Rightarrow> bool" where
  "layout_kind k \<longleftrightarrow> k \<in> {TOK_NEWLINE, TOK_INDENT, TOK_DEDENT, TOK_EOF, TOK_ERROR}"

lemma spells_kind: "spells w k \<Longrightarrow> \<not> layout_kind k"
proof (induction rule: spells.induct)
  case (word c w)
  then show ?case by (simp add: ident_or_keyword_def keyword_table_def layout_kind_def)
next
  case (operator w k)
  have "\<forall>(w, k) \<in> set operators. \<not> layout_kind k" by (simp add: operators_def layout_kind_def)
  then show ?case using operator by blast
qed (simp_all add: layout_kind_def)

lemma scan_raw_space: "rest lx = CHR '' '' # s \<Longrightarrow> scan_raw_token lx = scan_raw_token (fwd 1 lx)"
  unfolding scan_raw_token_def by (subst skip_whitespace.simps) (simp add: peek_rest skip_rest)

lemma scan_raw_newline:
  assumes "rest lx = CHR 0x0A # s"
  obtains t lx' where "scan_raw_token lx = Some (t, lx')" "tok_kind t = TOK_NEWLINE" "fixed_part lx' = fixed_part lx" "rest lx' = s"
    "lx_current lx' = lx_current lx + 1"
proof -
  define lx1 where "lx1 = lx\<lparr>lx_start := lx_current lx\<rparr>"
  let ?lx = "lx1\<lparr>lx_current := lx_current lx + 1, lx_line := lx_line lx + 1, lx_column := 1\<rparr>"
  have "skip_whitespace lx = Some lx"
    using assms by (subst skip_whitespace.simps) (simp add: peek_rest)
  moreover have p: "peek lx1 = Some (CHR 0x0A)" using peek_rest [of lx1] assms by (simp add: lx1_def)
  moreover have "advance lx1 = Some (CHR 0x0A, ?lx)" using p by (simp add: advance_def) (simp add: lx1_def)
  ultimately have "scan_raw_token lx = emit ?lx TOK_NEWLINE"
    by (simp add: scan_raw_token_def is_at_end_def isalpha_def isdigit_def is_quote_def char_between_def flip: lx1_def)
  moreover have "rest ?lx = s" using assms by (simp add: rest_def lx1_def drop_Suc flip: tl_drop)
  ultimately show thesis
    using that [of "make_token ?lx TOK_NEWLINE" ?lx] by (simp add: emit_def make_token_def fixed_part_def lx1_def)
qed

end
