(* ===== verification/LexerLines.thy ===== *)
theory LexerLines
  imports LexerWords
begin

text \<open>
  Whole sources: lines of lexemes, indented by spaces.  \<open>offside\<close> is the layout rule as a function of the
  indentations; the lexer delivers exactly the tokens it prescribes.
\<close>

section \<open>Printing\<close>

fun spaced :: "string list \<Rightarrow> string" where
  "spaced [] = [CHR 0x0A]"
| "spaced (w # ws) = w @ (if ws = [] then [CHR 0x0A] else CHR '' '' # spaced ws)"

fun print_lines :: "(nat \<times> string list) list \<Rightarrow> string" where
  "print_lines [] = []"
| "print_lines ((n, ws) # ls) = replicate n (CHR '' '') @ spaced ws @ print_lines ls"

text \<open>The layout rule: the tokens in front of a line indented by \<open>n\<close>, and the levels open behind them.\<close>

definition shift :: "nat list \<Rightarrow> nat \<Rightarrow> (token_kind list \<times> nat list) option" where
  "shift levels n =
     (if last levels < n
      then if length levels < FLUX_INDENT_MAX then Some ([TOK_INDENT], levels @ [n]) else None
      else let outer = takeWhile (\<lambda>m. m \<le> n) levels in
        if last outer = n then Some (replicate (length levels - length outer) TOK_DEDENT, outer) else None)"

text \<open>At the end at most three levels may be open, because the lexer keeps four tokens.\<close>

fun offside :: "nat list \<Rightarrow> (nat \<times> token_kind list) list \<Rightarrow> token_kind list option" where
  "offside levels [] =
     (if length levels \<le> 4 then Some (replicate (length levels - 1) TOK_DEDENT @ [TOK_EOF]) else None)"
| "offside levels ((n, ks) # ls) = do {
     (lead, levels') \<leftarrow> shift levels n;
     r \<leftarrow> offside levels' ls;
     Some (lead @ ks @ [TOK_NEWLINE] @ r)
   }"

definition lexemes :: "string \<Rightarrow> token list \<Rightarrow> string list" where
  "lexemes source ts = map (lexeme source) (filter (\<lambda>t. \<not> layout_kind (tok_kind t)) ts)"

lemma lexemes_simps [simp]:
  "lexemes source [] = []" "lexemes source (ts @ us) = lexemes source ts @ lexemes source us"
  "lexemes source (t # ts) = (if layout_kind (tok_kind t) then lexemes source ts else lexeme source t # lexemes source ts)"
  by (simp_all add: lexemes_def)

section \<open>Parts of a run\<close>

inductive runs :: "lexer \<Rightarrow> token list \<Rightarrow> lexer \<Rightarrow> bool" where
  runs_refl: "runs lx [] lx"
| runs_step: "lexer_next lx = Some (t, lx1) \<Longrightarrow> \<not> last_token t \<Longrightarrow> runs lx1 ts lx' \<Longrightarrow> runs lx (t # ts) lx'"

lemma runs_append: "runs lx ts lx1 \<Longrightarrow> runs lx1 us lx' \<Longrightarrow> runs lx (ts @ us) lx'"
  by (induction rule: runs.induct) (auto intro: runs_step)

lemma runs_tokens: "runs lx ts lx' \<Longrightarrow> tokens n lx' = Some us \<Longrightarrow> tokens (length ts + n) lx = Some (ts @ us)"
  by (induction rule: runs.induct) (simp_all add: last_token_def)

text \<open>The lexer with open levels \<open>levels\<close>, nothing waiting and \<open>s\<close> in front of it.\<close>

definition ready :: "lexer \<Rightarrow> nat list \<Rightarrow> string \<Rightarrow> bool" where
  "ready lx levels s \<longleftrightarrow> lx_indent_stack lx = levels \<and> lx_pending_count lx = 0 \<and> length (lx_pending lx) = 4 \<and>
     lx_pending_head lx < 4 \<and> rest lx = s \<and> lx_current lx \<le> length (lx_source lx)"

lemma ready_fwd:
  assumes "ready lx levels (w @ s)"
  shows "ready (fwd (length w) lx) levels s"
proof -
  have "length (drop (lx_current lx) (lx_source lx)) = length (w @ s)" using assms by (simp add: ready_def rest_def)
  moreover have "lx_current lx \<le> length (lx_source lx)" using assms by (simp add: ready_def)
  ultimately have "lx_current lx + length w \<le> length (lx_source lx)" by simp
  then show ?thesis using assms by (simp add: ready_def)
qed

lemma next_inside: "lx_pending_count lx = 0 \<Longrightarrow> \<not> lx_at_line_start lx \<Longrightarrow> lexer_next lx = scan_and_note lx"
  by (simp add: lexer_next_def)

lemma rest_nonempty: "rest lx = c # s \<Longrightarrow> lx_current lx < length (lx_source lx)"
  by (rule ccontr) (simp add: rest_def)

text \<open>The words of one line.\<close>

definition padding :: "string \<Rightarrow> bool" where
  "padding p \<longleftrightarrow> p = [] \<or> p = '' ''"

lemma scan_padded: "padding p \<Longrightarrow> rest lx = p @ s \<Longrightarrow> scan_raw_token lx = scan_raw_token (fwd (length p) lx)"
  using scan_raw_space [of lx s] by (auto simp: padding_def)

lemma run_words:
  "list_all2 spells ws ks \<Longrightarrow> padding p \<Longrightarrow> ready lx levels (p @ spaced ws @ s) \<Longrightarrow> ws = [] \<longrightarrow> p = [] \<Longrightarrow> \<not> lx_at_line_start lx \<Longrightarrow>
    \<exists>ts lx'. runs lx ts lx' \<and> map tok_kind ts = ks @ [TOK_NEWLINE] \<and> lexemes (lx_source lx) ts = ws \<and>
      ready lx' levels s \<and> lx_at_line_start lx' \<and> lx_source lx' = lx_source lx"
proof (induction ws ks arbitrary: p lx rule: list_all2_induct)
  case Nil
  then have r: "rest lx = CHR 0x0A # s" by (simp add: ready_def)
  obtain t lx1 where t: "scan_raw_token lx = Some (t, lx1)" "tok_kind t = TOK_NEWLINE" "fixed_part lx1 = fixed_part lx" "rest lx1 = s"
    "lx_current lx1 = lx_current lx + 1"
    by (rule scan_raw_newline [OF r])
  define lx' where "lx' = lx1\<lparr>lx_at_line_start := True\<rparr>"
  have "lexer_next lx = Some (t, lx')"
    using Nil.prems next_inside [of lx] t by (simp add: scan_and_note_def lx'_def ready_def)
  then have "runs lx [t] lx'" using t(2) runs_refl by (intro runs_step) (simp_all add: last_token_def)
  moreover have "ready lx' levels s" "lx_source lx' = lx_source lx"
    using Nil.prems(2) t(4,5) fixed_part_fields [OF t(3)] rest_nonempty [OF r] by (simp_all add: ready_def lx'_def rest_def)
  moreover have "map tok_kind [t] = [] @ [TOK_NEWLINE]" "lexemes (lx_source lx) [t] = []" "lx_at_line_start lx'"
    using t(2) by (simp_all add: layout_kind_def lx'_def)
  ultimately show ?case by blast
next
  case (Cons w ws k ks)
  define p' where "p' = (if ws = [] then [] else '' '')"
  have p': "padding p'" "ws = [] \<longrightarrow> p' = []" by (simp_all add: p'_def padding_def)
  have sp: "spaced (w # ws) = w @ p' @ spaced ws" by (simp add: p'_def)
  let ?lx = "fwd (length p) lx"
  have r1: "ready ?lx levels (w @ p' @ spaced ws @ s)" using Cons.prems(2) unfolding sp append_assoc by (rule ready_fwd)
  obtain b s' where b: "p' @ spaced ws @ s = b # s'" "blank_char b" by (cases ws) (auto simp: p'_def blank_char_def)
  have "scan_raw_token ?lx = Some (scanned ?lx (length w) k)"
    by (rule scan_spelled [OF Cons.hyps(1) _ b(2), of _ s']) (use r1 b(1) in \<open>simp add: ready_def\<close>)
  then have sc: "scan_raw_token lx = Some (scanned ?lx (length w) k)"
    using scan_padded [OF Cons.prems(1), of lx] Cons.prems(2) by (simp add: ready_def)
  obtain t lx1 where t: "scanned ?lx (length w) k = (t, lx1)" by fastforce
  have k: "tok_kind t = k" "\<not> layout_kind k" using t spells_kind [OF Cons.hyps(1)] by (auto simp: scanned_def)
  have lx1: "lx1 = (fwd (length w) ?lx)\<lparr>lx_start := lx_current ?lx\<rparr>" using t by (simp add: scanned_def)
  have "ready (fwd (length w) ?lx) levels (p' @ spaced ws @ s)" by (rule ready_fwd [OF r1])
  then have r2: "ready lx1 levels (p' @ spaced ws @ s)" by (simp add: ready_def lx1)
  have nl: "\<not> lx_at_line_start lx1" using Cons.prems(4) by (simp add: lx1 fwd_def)
  obtain ts lx' where ts: "runs lx1 ts lx'" "map tok_kind ts = ks @ [TOK_NEWLINE]" "lexemes (lx_source lx1) ts = ws"
    "ready lx' levels s" "lx_at_line_start lx'" "lx_source lx' = lx_source lx1"
    using Cons.IH [OF p'(1) r2 p'(2) nl] by blast
  have src: "lx_source lx1 = lx_source lx" by (simp add: lx1)
  have nk: "k \<noteq> TOK_NEWLINE" "\<not> last_token t" using k by (auto simp: layout_kind_def last_token_def)
  have "lexer_next lx = Some (t, lx1)"
    using next_inside [of lx] Cons.prems(2,4) sc t k(1) nk(1) by (simp add: scan_and_note_def ready_def)
  then have run: "runs lx (t # ts) lx'" using ts(1) nk(2) by (intro runs_step)
  have "lexeme (lx_source lx) t = w" using t r1 by (auto simp: scanned_def lexeme_def ready_def rest_def)
  then have "map tok_kind (t # ts) = (k # ks) @ [TOK_NEWLINE]" "lexemes (lx_source lx) (t # ts) = w # ws"
    using ts src k by simp_all
  then show ?case using run ts src by metis
qed

section \<open>Indentation\<close>

lemma drop_char: "drop p (lx_source lx) = x # s \<Longrightarrow> char_at lx p = Some x \<and> drop (Suc p) (lx_source lx) = s"
  by (metis char_at_def drop_eq_Nil drop_Suc linorder_not_less list.sel(3) list.simps(3) nth_via_drop tl_drop)

lemma measure_spaces:
  "drop p (lx_source lx) = replicate n (CHR '' '') @ c # s \<Longrightarrow> c \<noteq> CHR '' '' \<Longrightarrow> c \<noteq> CHR 0x09 \<Longrightarrow>
    measure_indent lx p cols = Some (p + n, cols + n)"
proof (induction n arbitrary: p cols)
  case 0
  then show ?case using drop_char [of p lx c s] by (subst measure_indent.simps) simp
next
  case (Suc n)
  then have d: "drop p (lx_source lx) = CHR '' '' # replicate n (CHR '' '') @ c # s" by simp
  have "measure_indent lx (p + 1) (cols + 1) = Some (p + 1 + n, cols + 1 + n)"
    by (rule Suc.IH) (use drop_char [OF d] Suc.prems in simp_all)
  then show ?case using drop_char [OF d] by (subst measure_indent.simps) simp
qed

lemma advance_spaces:
  "rest lx = replicate n (CHR '' '') @ s \<Longrightarrow> advance_to (lx_current lx + n) lx = Some (fwd n lx)"
proof (induction n arbitrary: lx)
  case 0
  then show ?case by (subst advance_to.simps) simp
next
  case (Suc n)
  have "skip lx = Some (fwd 1 lx)" by (rule skip_rest [of _ "CHR '' ''" "replicate n (CHR '' '') @ s"]) (simp_all add: Suc.prems)
  moreover have "advance_to (lx_current (fwd 1 lx) + n) (fwd 1 lx) = Some (fwd n (fwd 1 lx))"
    by (rule Suc.IH) (simp add: Suc.prems)
  ultimately show ?case by (subst advance_to.simps) simp
qed

lemma line_start_indented:
  assumes "rest lx = replicate n (CHR '' '') @ c # s" "first_char c"
  shows "line_start lx = indent_change n (fwd n lx)"
proof -
  have "measure_indent lx (lx_current lx) 0 = Some (lx_current lx + n, n)"
    using measure_spaces [of "lx_current lx" lx n c s 0] assms by (simp add: rest_def first_char_def)
  moreover have "char_at lx (lx_current lx + n) = Some c" using rest_nth [of lx "replicate n (CHR '' '')"] assms(1) by simp
  moreover have "\<not> blank_end c" using assms(2) by (simp add: first_char_def blank_end_def)
  ultimately show ?thesis using advance_spaces [OF assms(1)] by (subst line_start.simps) simp
qed

section \<open>Closing levels\<close>

lemma dedent_loop_levels:
  "sorted_wrt (<) (lx_indent_stack lx) \<Longrightarrow> lx_indent_stack lx = 0 # levels \<Longrightarrow>
    lx_indent_stack (dedent_loop n t lx) = takeWhile (\<lambda>m. m \<le> n) (lx_indent_stack lx)"
proof (induction n t lx arbitrary: levels rule: dedent_loop.induct)
  case (1 n t lx)
  obtain xs x where st: "lx_indent_stack lx = xs @ [x]" by (rule rev_exhaust [of "lx_indent_stack lx"]) (use "1.prems"(2) in auto)
  show ?case
  proof (cases "1 < length (lx_indent_stack lx) \<and> n < last (lx_indent_stack lx)")
    case True
    then obtain levels' where l: "xs = 0 # levels'" using "1.prems"(2) st by (cases xs) auto
    have "lx_indent_stack (dedent_loop n t (pop_level t lx)) = takeWhile (\<lambda>m. m \<le> n) xs"
      using "1.IH" [OF True, of levels'] "1.prems"(1) st l by (simp add: sorted_wrt_append)
    also have "\<dots> = takeWhile (\<lambda>m. m \<le> n) (xs @ [x])"
      using True st by (cases "\<forall>m \<in> set xs. m \<le> n") (auto simp: takeWhile_append)
    finally show ?thesis using True st by (subst dedent_loop.simps) simp
  next
    case False
    have "\<forall>m \<in> set (lx_indent_stack lx). m \<le> n"
    proof (cases "length (lx_indent_stack lx) = 1")
      case True
      then show ?thesis using "1.prems"(2) by simp
    next
      case len: False
      then have "x \<le> n" using False st by (auto simp: not_less Suc_lessI)
      then show ?thesis using "1.prems"(1) st by (auto simp: sorted_wrt_append)
    qed
    then have tw: "takeWhile (\<lambda>m. m \<le> n) (lx_indent_stack lx) = lx_indent_stack lx" by (simp add: takeWhile_eq_all_conv)
    show ?thesis by (subst dedent_loop.simps) (simp only: False if_False tw)
  qed
qed

text \<open>Tokens that wait are delivered in order.\<close>

lemma runs_queued:
  "queued lx = ts @ us \<Longrightarrow> \<forall>t \<in> set ts. \<not> last_token t \<Longrightarrow> lx_pending_head lx < 4 \<Longrightarrow>
    \<exists>lx'. runs lx ts lx' \<and> queued lx' = us \<and> lx_pending_head lx' < 4 \<and> lx_pending lx' = lx_pending lx \<and>
      lx_indent_stack lx' = lx_indent_stack lx \<and> lx_source lx' = lx_source lx \<and> lx_current lx' = lx_current lx \<and>
      lx_at_line_start lx' = lx_at_line_start lx"
proof (induction ts arbitrary: lx)
  case Nil
  then show ?case using runs_refl by auto
next
  case (Cons t ts)
  have n: "0 < lx_pending_count lx" using queue_length [of lx] Cons.prems(1) by simp
  obtain t' lx1 where p: "pop_pending lx = (t', lx1)" by fastforce
  have q: "t' = t" "queued lx1 = ts @ us" using pop_pending_queued [OF n Cons.prems(3)] p Cons.prems(1) by auto
  have f: "lx_pending_head lx1 < 4" "lx_pending lx1 = lx_pending lx" "lx_indent_stack lx1 = lx_indent_stack lx"
    "lx_source lx1 = lx_source lx" "lx_current lx1 = lx_current lx" "lx_at_line_start lx1 = lx_at_line_start lx"
    using p by (auto simp: pop_pending_def)
  have "lexer_next lx = Some (t, lx1)" using n p q by (simp add: lexer_next_def)
  then have "runs lx (t # ts) lx'" if "runs lx1 ts lx'" for lx' using that Cons.prems(2) by (simp add: runs_step)
  moreover obtain lx' where "runs lx1 ts lx'" "queued lx' = us" "lx_pending_head lx' < 4" "lx_pending lx' = lx_pending lx1"
      "lx_indent_stack lx' = lx_indent_stack lx1" "lx_source lx' = lx_source lx1" "lx_current lx' = lx_current lx1"
      "lx_at_line_start lx' = lx_at_line_start lx1"
    using Cons.IH [OF q(2) _ f(1)] Cons.prems(2) by auto
  ultimately show ?case using f by metis
qed

text \<open>The start of a printed line: the tokens of the layout, and the lexer at the words.\<close>

lemma spaced_first:
  assumes "list_all2 spells ws ks" "ws \<noteq> []"
  obtains c s' where "spaced ws @ s = c # s'" "first_char c"
proof -
  obtain w ws' k where "ws = w # ws'" "spells w k" using assms by (cases ws; cases ks) auto
  moreover from this(2) obtain c v where "w = c # v" "first_char c" using spells_first by blast
  ultimately show thesis using that by simp
qed

lemma next_at_start:
  assumes "lx_at_line_start lx" "lx_pending_count lx = 0" "rest lx = replicate n (CHR '' '') @ c # s" "first_char c"
  shows "lexer_next lx =
    (case indent_change n (fwd n (lx\<lparr>lx_at_line_start := False\<rparr>)) of
       None \<Rightarrow> None | Some (Some t, lx') \<Rightarrow> Some (t, lx') | Some (None, lx') \<Rightarrow> scan_and_note lx')"
proof -
  have "rest (lx\<lparr>lx_at_line_start := False\<rparr>) = replicate n (CHR '' '') @ c # s" using assms(3) by (simp add: rest_def)
  from line_start_indented [OF this assms(4)] show ?thesis
    using assms(1,2) by (auto simp: lexer_next_def split: option.splits)
qed

definition levels_ok :: "nat list \<Rightarrow> bool" where
  "levels_ok levels \<longleftrightarrow> (\<exists>ls. levels = 0 # ls) \<and> sorted_wrt (<) levels"

lemma levels_ok_take: "levels_ok levels \<Longrightarrow> levels_ok (takeWhile (\<lambda>m. m \<le> n) levels)"
  by (auto simp: levels_ok_def sorted_wrt_append)

lemma levels_le_last: "levels_ok levels \<Longrightarrow> x \<in> set levels \<Longrightarrow> x \<le> last levels"
  by (rule rev_exhaust [of levels]) (auto simp: levels_ok_def sorted_wrt_append)

lemma levels_ok_append: "levels_ok levels \<Longrightarrow> last levels < n \<Longrightarrow> levels_ok (levels @ [n])"
  using levels_le_last [of levels] by (force simp: levels_ok_def sorted_wrt_append)

lemma dedent_runs:
  assumes "ready lx levels s" "levels_ok levels" "outer = takeWhile (\<lambda>m. m \<le> n) levels" "length outer < length levels" "last outer = n"
  shows "\<exists>t lx1 ts lx'. indent_change n lx = Some (Some t, lx1) \<and> is_dedent t \<and> runs lx1 ts lx' \<and>
    map tok_kind (t # ts) = replicate (length levels - length outer) TOK_DEDENT \<and> ready lx' outer s \<and>
    lx_source lx' = lx_source lx \<and> lx_at_line_start lx' = lx_at_line_start lx"
proof -
  let ?t = "layout_token TOK_DEDENT lx"
  let ?lx = "dedent_loop n ?t lx"
  obtain ls where l: "levels = 0 # ls" and sorted: "sorted_wrt (<) levels" using assms(2) by (auto simp: levels_ok_def)
  have st: "lx_indent_stack lx = levels" using assms(1) by (simp add: ready_def)
  have o: "lx_indent_stack ?lx = outer" using dedent_loop_levels [of lx ls n ?t] sorted l st assms(3) by simp
  obtain m where p: "popped m ?t lx ?lx" using dedent_loop_popped [of lx ?t n] l st by auto
  have m: "m = length levels - length outer" "0 < m"
    using p st o assms(4) by (auto simp: popped_def dest: arg_cong [where f = length])
  have q: "queued ?lx = replicate m ?t" by (rule popped_queued [OF p]) (use assms(1) in \<open>simp_all add: ready_def\<close>)
  have f: "lx_pending_head ?lx < 4" "length (lx_pending ?lx) = 4" "lx_source ?lx = lx_source lx" "lx_current ?lx = lx_current lx"
    "lx_at_line_start ?lx = lx_at_line_start lx"
    using p assms(1) by (auto simp: popped_def ready_def)
  have d: "tok_kind ?t = TOK_DEDENT" by (simp add: layout_token_def)
  then have nl: "\<not> last_token ?t" by (simp add: last_token_def)
  have top: "n < last levels"
  proof (rule ccontr)
    assume "\<not> n < last levels"
    then have "\<forall>x \<in> set levels. x \<le> n"
      using levels_le_last [OF assms(2)] by fastforce
    then have "outer = levels" using assms(3) by (simp add: takeWhile_eq_all_conv)
    then show False using assms(4) by simp
  qed
  obtain u lx1 where pp: "pop_pending ?lx = (u, lx1)" by fastforce
  have c: "0 < lx_pending_count ?lx" using queue_length [of ?lx] q m(2) by simp
  have q1: "u # queued lx1 = replicate m ?t" using pop_pending_queued [OF c f(1)] q pp by simp
  then have u: "u = ?t" "queued lx1 = replicate (m - 1) ?t @ []" using m(2) by (cases m; simp)+
  have f1: "lx_pending_head lx1 < 4" "length (lx_pending lx1) = 4" "lx_source lx1 = lx_source lx" "lx_current lx1 = lx_current lx"
    "lx_at_line_start lx1 = lx_at_line_start lx" "lx_indent_stack lx1 = outer"
    using pp f o by (auto simp: pop_pending_def)
  obtain lx' where r: "runs lx1 (replicate (m - 1) ?t) lx'" "queued lx' = []" "lx_pending_head lx' < 4" "lx_pending lx' = lx_pending lx1"
    "lx_indent_stack lx' = outer" "lx_source lx' = lx_source lx" "lx_current lx' = lx_current lx" "lx_at_line_start lx' = lx_at_line_start lx"
    using runs_queued [OF u(2) _ f1(1)] nl f1 by auto
  have "indent_change n lx = Some (Some u, lx1)"
    using top st o assms(5) pp by (simp add: indent_change_def Let_def)
  moreover have "ready lx' outer s" using r f1 assms(1) queue_length [of lx'] by (simp add: ready_def rest_def)
  moreover have "map tok_kind (u # replicate (m - 1) ?t) = replicate m TOK_DEDENT"
    using u d m(2) by (cases m) simp_all
  ultimately show ?thesis using r d u m(1) by blast
qed

lemma lexemes_layout: "\<forall>k \<in> set (map tok_kind ts). layout_kind k \<Longrightarrow> lexemes source ts = []"
  by (induction ts) simp_all

lemma ready_line_start [simp]: "ready (lx\<lparr>lx_at_line_start := b\<rparr>) levels s = ready lx levels s"
  by (simp add: ready_def rest_def)

lemma shift_runs:
  assumes "ready lx levels (replicate n (CHR '' '') @ c # s)" "first_char c" "levels_ok levels" "lx_at_line_start lx"
    "shift levels n = Some (lead, levels')"
  shows "\<exists>ts lx'. (\<forall>us lx''. us \<noteq> [] \<longrightarrow> runs lx' us lx'' \<longrightarrow> runs lx (ts @ us) lx'') \<and> map tok_kind ts = lead \<and>
    ready lx' levels' (c # s) \<and> \<not> lx_at_line_start lx' \<and> lx_source lx' = lx_source lx \<and> levels_ok levels'"
proof -
  let ?lx = "fwd n (lx\<lparr>lx_at_line_start := False\<rparr>)"
  have r0: "ready (lx\<lparr>lx_at_line_start := False\<rparr>) levels (replicate n (CHR '' '') @ c # s)" using assms(1) by simp
  have r: "ready ?lx levels (c # s)" using ready_fwd [OF r0] by simp
  have st: "lx_indent_stack ?lx = levels" using r by (simp add: ready_def)
  have next1: "lexer_next lx = (case indent_change n ?lx of
       None \<Rightarrow> None | Some (Some t, lx') \<Rightarrow> Some (t, lx') | Some (None, lx') \<Rightarrow> scan_and_note lx')"
    using next_at_start [OF assms(4) _ _ assms(2), of n s] assms(1) by (simp add: ready_def)
  have nl: "\<not> lx_at_line_start ?lx" "lx_source ?lx = lx_source lx" by simp_all
  show ?thesis
  proof (cases "last levels < n")
    case True
    then have l: "length levels < FLUX_INDENT_MAX" "lead = [TOK_INDENT]" "levels' = levels @ [n]"
      using assms(5) by (auto simp: shift_def split: if_splits)
    let ?lx1 = "?lx\<lparr>lx_indent_stack := levels @ [n]\<rparr>"
    obtain t where i: "indent_change n ?lx = Some (Some t, ?lx1)" "tok_kind t = TOK_INDENT"
      using True l(1) st by (auto simp: indent_change_def Let_def layout_token_def)
    then have step: "runs lx ([t] @ us) lx''" if "runs ?lx1 us lx''" for us lx''
      using next1 that by (auto simp: last_token_def intro: runs_step)
    have "ready ?lx1 levels' (c # s)" using r l by (simp add: ready_def rest_def)
    moreover have "levels_ok levels'" using levels_ok_append [OF assms(3) True] l by simp
    moreover have "map tok_kind [t] = lead" using i l by simp
    moreover have "\<not> lx_at_line_start ?lx1" "lx_source ?lx1 = lx_source lx" by simp_all
    ultimately show ?thesis using step by blast
  next
    case False
    define outer where "outer = takeWhile (\<lambda>m. m \<le> n) levels"
    have l: "last outer = n" "lead = replicate (length levels - length outer) TOK_DEDENT" "levels' = outer"
      using assms(5) False by (auto simp: shift_def outer_def Let_def split: if_splits)
    have ok: "levels_ok levels'" using levels_ok_take [OF assms(3)] l(3) by (simp add: outer_def)
    show ?thesis
    proof (cases "length outer < length levels")
      case True
      obtain t lx1 ts lx' where d: "indent_change n ?lx = Some (Some t, lx1)" "is_dedent t" "runs lx1 ts lx'"
        "map tok_kind (t # ts) = lead" "ready lx' outer (c # s)" "lx_source lx' = lx_source lx" "\<not> lx_at_line_start lx'"
        using dedent_runs [OF r assms(3) outer_def True l(1)] nl l(2) by auto
      then have "runs lx ((t # ts) @ us) lx''" if "runs lx' us lx''" for us lx''
        using next1 runs_append [OF d(3) that] by (auto simp: last_token_def intro: runs_step)
      then show ?thesis using d l ok by blast
    next
      case False
      have "outer = levels"
        using False takeWhile_dropWhile_id [of "\<lambda>m. m \<le> n" levels] unfolding outer_def
        by (metis append_Nil2 length_append less_add_same_cancel1 length_greater_0_conv)
      then have "indent_change n ?lx = Some (None, ?lx)" using l(1) st by (simp add: indent_change_def)
      then have e: "lexer_next lx = lexer_next ?lx" using next1 next_inside [of ?lx] r nl by (simp add: ready_def)
      have "runs lx us lx''" if "us \<noteq> []" "runs ?lx us lx''" for us lx''
        using that(2,1) by cases (use e in \<open>auto intro: runs_step\<close>)
      moreover have "lead = []" using l \<open>outer = levels\<close> by simp
      ultimately show ?thesis using r nl l ok \<open>outer = levels\<close> by (intro exI [of _ "[]"] exI [of _ ?lx]) simp
    qed
  qed
qed

lemma tokens_next_eq: "lexer_next lx = lexer_next lx1 \<Longrightarrow> tokens n lx = tokens n lx1"
  by (cases n) simp_all

lemma ending_small:
  assumes "n \<le> 3"
  shows "ending n d e = replicate n d @ [e]"
proof -
  have "map (\<lambda>i. if i mod 4 = n mod 4 then e else d) [0..<n] = replicate n d"
  proof (rule nth_equalityI)
    fix i assume "i < length (map (\<lambda>i. if i mod 4 = n mod 4 then e else d) [0..<n])"
    then have "i < n" "i mod 4 = i" "n mod 4 = n" using assms by simp_all
    then show "map (\<lambda>i. if i mod 4 = n mod 4 then e else d) [0..<n] ! i = replicate n d ! i" by simp
  qed simp
  then show ?thesis by (simp add: ending_def)
qed

lemma end_runs:
  assumes "ready lx levels []" "levels_ok levels" "lx_at_line_start lx" "length levels \<le> 4"
  shows "\<exists>ts. tokens (length levels) lx = Some ts \<and> map tok_kind ts = replicate (length levels - 1) TOK_DEDENT @ [TOK_EOF]"
proof -
  let ?at = "lx\<lparr>lx_at_line_start := False\<rparr>"
  let ?n = "length levels - 1" and ?d = "end_token TOK_DEDENT ?at" and ?e = "end_token TOK_EOF ?at"
  let ?lx = "push_pending ?e (close_levels ?n ?d ?at)"
  have p: "lx_pending_count lx = 0" "lx_indent_stack lx = levels" "length (lx_pending lx) = 4" "lx_pending_head lx < 4"
    using assms(1) by (simp_all add: ready_def)
  have n: "length levels = Suc ?n" using assms(2) by (auto simp: levels_ok_def)
  have c: "lx_current lx = length (lx_source lx)" using assms(1) by (simp add: ready_def rest_def)
  have pk: "char_at ?at (lx_current lx) = Some NUL" using c by (simp add: char_at_def)
  have "skip_blank_line (lx_current lx) ?at = Some ?at"
    using pk by (simp add: skip_blank_line_def advance_to.simps peek_def)
  moreover have "measure_indent ?at (lx_current lx) 0 = Some (lx_current lx, 0)"
    using pk by (subst measure_indent.simps) simp
  moreover have "is_at_end ?at = Some True" "blank_end NUL" using pk by (simp_all add: is_at_end_def peek_def blank_end_def)
  ultimately have "lexer_next lx = Some (pop_pending ?lx)"
    using assms(3) pk p
    by (simp add: lexer_next_def, subst line_start.simps) (simp add: end_of_source_def split: prod.split)
  moreover have lay: "layout_ok ?at"
    using assms(2,4) p by (auto simp: layout_ok_def levels_ok_def FLUX_INDENT_MAX_def)
  have q: "queued ?lx = replicate ?n ?d @ [?e]"
    using close_levels_ending [OF lay, of ?n ?e ?d] ending_small [of ?n ?d ?e] p n assms(4) by simp
  have cnt: "0 < lx_pending_count ?lx" by simp
  ultimately have nx: "lexer_next lx = lexer_next ?lx" by (simp add: lexer_next_def)
  have d: "tok_kind ?d = TOK_DEDENT" "tok_kind ?e = TOK_EOF" by (simp_all add: end_token_def)
  have "popped ?n ?d ?at (close_levels ?n ?d ?at)" by (rule close_levels_popped) (use n p in simp)
  then have h: "lx_pending_head ?lx < 4" using p by (simp add: popped_def)
  obtain lx3 where r: "runs ?lx (replicate ?n ?d) lx3" "queued lx3 = [?e]" "lx_pending_head lx3 < 4"
    using runs_queued [OF q _ h] d by (auto simp: last_token_def)
  have c3: "0 < lx_pending_count lx3" using queue_length [of lx3] r(2) by simp
  have "fst (pop_pending lx3) = ?e" using pop_pending_queued [OF c3 r(3)] r(2) by simp
  then have "tokens 1 lx3 = Some [?e]" using c3 d by (cases "pop_pending lx3") (simp add: lexer_next_def)
  from runs_tokens [OF r(1) this] have "tokens (length levels) ?lx = Some (replicate ?n ?d @ [?e])"
    using n by (simp del: tokens.simps)
  then show ?thesis using tokens_next_eq [OF nx] d by (simp del: tokens.simps)
qed

lemma shift_lead: "shift levels n = Some (lead, levels') \<Longrightarrow> \<forall>k \<in> set lead. layout_kind k"
  by (auto simp: shift_def layout_kind_def Let_def split: if_splits)

lemma lines_run:
  "list_all2 (\<lambda>(n, ws) (m, ks). n = m \<and> ws \<noteq> [] \<and> list_all2 spells ws ks) ls ms \<Longrightarrow> ready lx levels (print_lines ls) \<Longrightarrow>
    levels_ok levels \<Longrightarrow> lx_at_line_start lx \<Longrightarrow> offside levels ms = Some ks \<Longrightarrow>
    \<exists>ts. tokens (length ks) lx = Some ts \<and> map tok_kind ts = ks \<and> lexemes (lx_source lx) ts = concat (map snd ls)"
proof (induction ls ms arbitrary: lx levels ks rule: list_all2_induct)
  case Nil
  then have lv: "length levels \<le> 4" "ks = replicate (length levels - 1) TOK_DEDENT @ [TOK_EOF]" by (auto split: if_splits)
  moreover have "levels \<noteq> []" using Nil.prems(2) by (auto simp: levels_ok_def)
  ultimately have "length ks = length levels" by simp
  then obtain ts where ts: "tokens (length ks) lx = Some ts" "map tok_kind ts = ks"
    using end_runs [of lx levels] Nil.prems(1,2,3) lv by (auto simp del: tokens.simps)
  moreover have "lexemes (lx_source lx) ts = []"
    by (rule lexemes_layout) (simp add: ts(2) lv(2) layout_kind_def)
  ultimately show ?case by simp
next
  case (Cons l ls m ms)
  obtain n ws ks1 where l: "l = (n, ws)" "m = (n, ks1)" "ws \<noteq> []" "list_all2 spells ws ks1" using Cons.hyps(1) by auto
  obtain lead levels' r where o: "shift levels n = Some (lead, levels')" "offside levels' ms = Some r"
    "ks = lead @ ks1 @ [TOK_NEWLINE] @ r"
    using Cons.prems(4) l by (auto simp: bind_Some_iff)
  obtain c s where c: "spaced ws @ print_lines ls = c # s" "first_char c" using spaced_first [OF l(4,3)] by blast
  have rdy: "ready lx levels (replicate n (CHR '' '') @ c # s)" using Cons.prems(1) l c(1) by simp
  obtain ts1 lx1 where ts1: "\<forall>us lx''. us \<noteq> [] \<longrightarrow> runs lx1 us lx'' \<longrightarrow> runs lx (ts1 @ us) lx''" "map tok_kind ts1 = lead"
    "ready lx1 levels' (c # s)" "\<not> lx_at_line_start lx1" "lx_source lx1 = lx_source lx" "levels_ok levels'"
    using shift_runs [OF rdy c(2) Cons.prems(2,3) o(1)] by blast
  have rdy1: "ready lx1 levels' ([] @ spaced ws @ print_lines ls)" using ts1(3) c(1) by simp
  obtain ts2 lx2 where ts2: "runs lx1 ts2 lx2" "map tok_kind ts2 = ks1 @ [TOK_NEWLINE]" "lexemes (lx_source lx1) ts2 = ws"
    "ready lx2 levels' (print_lines ls)" "lx_at_line_start lx2" "lx_source lx2 = lx_source lx1"
    using run_words [OF l(4) _ rdy1 _ ts1(4)] by (auto simp: padding_def)
  obtain ts3 where ts3: "tokens (length r) lx2 = Some ts3" "map tok_kind ts3 = r" "lexemes (lx_source lx2) ts3 = concat (map snd ls)"
    using Cons.IH [OF ts2(4) ts1(6) ts2(5) o(2)] by blast
  have "ts2 \<noteq> []" using ts2(2) by auto
  then have run: "runs lx (ts1 @ ts2) lx2" using ts1(1) ts2(1) by blast
  have len: "length (ts1 @ ts2) + length r = length ks"
    using arg_cong [OF ts1(2), of length] arg_cong [OF ts2(2), of length] o(3) by simp
  have "tokens (length ks) lx = Some ((ts1 @ ts2) @ ts3)" using runs_tokens [OF run ts3(1)] len by simp
  moreover have "lexemes (lx_source lx) ts1 = []"
    by (rule lexemes_layout) (use shift_lead [OF o(1)] ts1(2) in simp)
  ultimately show ?case using ts1 ts2 ts3 o l by auto
qed

end
