(* ===== verification/ParserWords.thy ===== *)
theory ParserWords
  imports Grammar LexerLines
begin

text \<open>
  The parser seen through the tokens it still has to read: \<open>items p\<close> are their kinds and texts, the current token
  first, and empty when an error has been reported or one lies ahead.  Every helper of the parser is a function of
  these.  \<open>ev\<close> says that enough fuel gives a result.
\<close>

section \<open>The tokens ahead\<close>

definition item_of :: "string \<Rightarrow> token \<Rightarrow> item" where
  "item_of source t = (tok_kind t, if layout_kind (tok_kind t) then [] else lexeme source t)"

inductive ahead :: "lexer \<Rightarrow> item list \<Rightarrow> bool" where
  ahead_end: "lexer_next lx = Some (t, lx') \<Longrightarrow> tok_kind t = TOK_EOF \<Longrightarrow> lx_source lx' = lx_source lx \<Longrightarrow>
    ahead lx [(TOK_EOF, [])]"
| ahead_next: "lexer_next lx = Some (t, lx') \<Longrightarrow> \<not> last_token t \<Longrightarrow> lx_source lx' = lx_source lx \<Longrightarrow> ahead lx' ws \<Longrightarrow>
    ahead lx (item_of (lx_source lx) t # ws)"

lemma ahead_nonempty: "ahead lx ws \<Longrightarrow> ws \<noteq> []"
  by (induction rule: ahead.induct) simp_all

lemma ahead_unique: "ahead lx ws \<Longrightarrow> ahead lx us \<Longrightarrow> us = ws"
proof (induction arbitrary: us rule: ahead.induct)
  case (ahead_end lx t lx')
  show ?case using ahead_end.prems by cases (use ahead_end.hyps in \<open>auto simp: last_token_def\<close>)
next
  case (ahead_next lx t lx' ws)
  show ?case using ahead_next.prems
  proof cases
    case (ahead_end t' lx'')
    then show ?thesis using ahead_next.hyps by (simp add: last_token_def)
  next
    case (ahead_next t' lx'' ws')
    have "t' = t" "lx'' = lx'" using ahead_next(2) ahead_next.hyps(1) by auto
    then show ?thesis using ahead_next ahead_next.IH by auto
  qed
qed

text \<open>The state of a parser that has reported nothing.\<close>

definition calm :: "parser \<Rightarrow> bool" where
  "calm p \<longleftrightarrow> \<not> ps_had_error p \<and> \<not> ps_panic_mode p \<and> ps_errors p = []"

definition offers :: "parser \<Rightarrow> item list \<Rightarrow> bool" where
  "offers p ws \<longleftrightarrow> calm p \<and>
     (if p_kind p = TOK_EOF then ws = [(TOK_EOF, [])]
      else p_kind p \<noteq> TOK_ERROR \<and> (\<exists>us. ahead (ps_lex p) us \<and> ws = item_of (lx_source (ps_lex p)) (ps_current p) # us))"

definition items :: "parser \<Rightarrow> item list" where
  "items p = (if \<exists>ws. offers p ws then THE ws. offers p ws else [])"

lemma offers_items: "offers p ws \<Longrightarrow> items p = ws"
  by (auto simp: items_def offers_def intro!: the_equality dest: ahead_unique split: if_splits)

lemma items_offers: "items p \<noteq> [] \<Longrightarrow> offers p (items p)"
  using offers_items [of p] by (metis items_def)

lemma items_calm: "items p \<noteq> [] \<Longrightarrow> calm p"
  using items_offers by (simp add: offers_def)

lemma items_current:
  assumes "items p \<noteq> []"
  shows "p_kind p = fst (hd (items p))" "\<not> layout_kind (p_kind p) \<Longrightarrow> current_text p = snd (hd (items p))"
proof -
  have o: "offers p (items p)" by (rule items_offers [OF assms])
  show "p_kind p = fst (hd (items p))" using o by (auto simp: offers_def item_of_def split: if_splits)
  assume "\<not> layout_kind (p_kind p)"
  then show "current_text p = snd (hd (items p))"
    using o by (auto simp: offers_def item_of_def current_text_def layout_kind_def split: if_splits)
qed

lemma items_end: "items p \<noteq> [] \<Longrightarrow> fst (hd (items p)) = TOK_EOF \<Longrightarrow> tl (items p) = []"
  using items_offers [of p] items_current(1) [of p] by (auto simp: offers_def)

section \<open>Advancing\<close>

definition adv :: "parser \<Rightarrow> parser" where
  "adv p = (case p_advance p of Some q \<Rightarrow> q | None \<Rightarrow> p)"

lemma advance_items:
  assumes "tl (items p) \<noteq> []"
  shows "p_advance p = Some (adv p) \<and> items (adv p) = tl (items p) \<and> ps_previous (adv p) = ps_current p \<and>
    lx_source (ps_lex (adv p)) = lx_source (ps_lex p)"
proof -
  have ne: "items p \<noteq> []" using assms by auto
  have o: "offers p (items p)" by (rule items_offers [OF ne])
  have k: "p_kind p \<noteq> TOK_EOF" using items_end [OF ne] items_current(1) [OF ne] assms by auto
  then have a: "ahead (ps_lex p) (tl (items p))" using o by (auto simp: offers_def)
  then obtain t lx' where n: "lexer_next (ps_lex p) = Some (t, lx')" and s: "lx_source lx' = lx_source (ps_lex p)"
    and e: "tok_kind t \<noteq> TOK_ERROR"
    and i: "tok_kind t = TOK_EOF \<and> tl (items p) = [(TOK_EOF, [])] \<or>
       tok_kind t \<noteq> TOK_EOF \<and> (\<exists>us. ahead lx' us \<and> tl (items p) = item_of (lx_source lx') t # us)"
    by cases (auto simp: last_token_def)
  let ?q = "p\<lparr>ps_previous := ps_current p, ps_lex := lx', ps_current := t\<rparr>"
  have q: "p_advance p = Some ?q" using n e by (simp add: p_advance_def token_bound_def numeral_2_eq_2)
  then have adv: "adv p = ?q" by (simp add: adv_def)
  have "offers ?q (tl (items p))" using o i e by (auto simp: offers_def calm_def)
  then have "items ?q = tl (items p)" by (rule offers_items)
  then show ?thesis using q adv s by simp
qed

text \<open>What the helpers do at given tokens.\<close>

named_theorems feed

lemma adv_simps [feed]:
  assumes "tl (items p) \<noteq> []"
  shows "p_advance p = Some (adv p)" "items (adv p) = tl (items p)" "tok_kind (ps_previous (adv p)) = fst (hd (items p))"
    "look_ahead p = Some (fst (hd (tl (items p))))"
proof -
  have ne: "items p \<noteq> []" using assms by auto
  show "p_advance p = Some (adv p)" "items (adv p) = tl (items p)" using advance_items [OF assms] by simp_all
  show "tok_kind (ps_previous (adv p)) = fst (hd (items p))" using advance_items [OF assms] items_current(1) [OF ne] by simp
  have "p_kind p \<noteq> TOK_EOF" using items_end [OF ne] items_current(1) [OF ne] assms by auto
  then obtain us where "ahead (ps_lex p) us" "tl (items p) = us"
    using items_offers [OF ne] by (auto simp: offers_def)
  then show "look_ahead p = Some (fst (hd (tl (items p))))"
    by (cases rule: ahead.cases) (auto simp: look_ahead_def item_of_def)
qed

lemma previous_text_adv [feed]:
  assumes "tl (items p) \<noteq> []" "\<not> layout_kind (fst (hd (items p)))"
  shows "previous_text (adv p) = snd (hd (items p))"
proof -
  have ne: "items p \<noteq> []" using assms by auto
  then show ?thesis
    using advance_items [OF assms(1)] items_current [OF ne] assms(2) by (simp add: previous_text_def current_text_def)
qed

lemma current_text_items [feed]: "items p \<noteq> [] \<Longrightarrow> \<not> layout_kind (fst (hd (items p))) \<Longrightarrow> current_text p = snd (hd (items p))"
  by (simp add: items_current)

lemma kind_items [feed]:
  "items p \<noteq> [] \<Longrightarrow> p_kind p = fst (hd (items p))" "items p \<noteq> [] \<Longrightarrow> p_check p k \<longleftrightarrow> fst (hd (items p)) = k"
  by (simp_all add: items_current p_check_def)

lemma panic_items [feed]: "items p \<noteq> [] \<Longrightarrow> ps_panic_mode p = False"
  using items_calm by (simp add: calm_def)

lemma match_items [feed]:
  "items p \<noteq> [] \<Longrightarrow> fst (hd (items p)) \<noteq> k \<Longrightarrow> p_match p k = Some (False, p)"
  "tl (items p) \<noteq> [] \<Longrightarrow> fst (hd (items p)) = k \<Longrightarrow> p_match p k = Some (True, adv p)"
  by (cases "items p"; simp add: p_match_def feed)+

lemma consume_items [feed]: "tl (items p) \<noteq> [] \<Longrightarrow> fst (hd (items p)) = k \<Longrightarrow> p_consume p k msg = Some (adv p)"
  by (cases "items p"; simp add: p_consume_def feed)

lemma skip_newlines_stop [feed]:
  "0 < n \<Longrightarrow> items p \<noteq> [] \<Longrightarrow> fst (hd (items p)) \<noteq> TOK_NEWLINE \<Longrightarrow> skip_newlines n p = Some p"
  by (cases n) (simp_all add: feed)

section \<open>Enough fuel\<close>

definition ev :: "(nat \<Rightarrow> nat \<Rightarrow> bool) \<Rightarrow> bool" where
  "ev P \<longleftrightarrow> (\<exists>m. \<forall>n>m. \<forall>k>m. P n k)"

lemma ev_all: "(\<And>n k. 0 < n \<Longrightarrow> 0 < k \<Longrightarrow> P n k) \<Longrightarrow> ev P"
  by (auto simp: ev_def intro: exI [of _ 0])

lemma ev_elim1:
  assumes "ev P" "\<And>n k. P n k \<Longrightarrow> 0 < n \<Longrightarrow> 0 < k \<Longrightarrow> Q n k"
  shows "ev Q"
proof -
  obtain m where "\<forall>n>m. \<forall>k>m. P n k" using assms(1) by (auto simp: ev_def)
  then have "\<forall>n>m. \<forall>k>m. Q n k" using assms(2) by auto
  then show ?thesis by (auto simp: ev_def)
qed

lemma ev_conj: "ev P \<Longrightarrow> ev Q \<Longrightarrow> ev (\<lambda>n k. P n k \<and> Q n k)"
  unfolding ev_def
proof clarify
  fix m m' assume "\<forall>n>m. \<forall>k>m. P n k" "\<forall>n>m'. \<forall>k>m'. Q n k"
  then have "\<forall>n>max m m'. \<forall>k>max m m'. P n k \<and> Q n k" by simp
  then show "\<exists>m. \<forall>n>m. \<forall>k>m. P n k \<and> Q n k" ..
qed

lemma ev_elim2: "ev P \<Longrightarrow> ev Q \<Longrightarrow> (\<And>n k. P n k \<Longrightarrow> Q n k \<Longrightarrow> 0 < n \<Longrightarrow> 0 < k \<Longrightarrow> R n k) \<Longrightarrow> ev R"
  by (erule (1) ev_elim1 [OF ev_conj]) blast

lemma ev_elim3:
  "ev P \<Longrightarrow> ev Q \<Longrightarrow> ev R \<Longrightarrow> (\<And>n k. P n k \<Longrightarrow> Q n k \<Longrightarrow> R n k \<Longrightarrow> 0 < n \<Longrightarrow> 0 < k \<Longrightarrow> S n k) \<Longrightarrow> ev S"
  by (erule (2) ev_elim2 [OF ev_conj]) blast

lemma ev_elim4:
  "ev P \<Longrightarrow> ev Q \<Longrightarrow> ev R \<Longrightarrow> ev S \<Longrightarrow> (\<And>n k. P n k \<Longrightarrow> Q n k \<Longrightarrow> R n k \<Longrightarrow> S n k \<Longrightarrow> 0 < n \<Longrightarrow> 0 < k \<Longrightarrow> T n k) \<Longrightarrow> ev T"
  by (erule (3) ev_elim3 [OF ev_conj]) blast

text \<open>One unit of the loop's fuel, or of the depth, is used.\<close>

lemma ev_loop: "ev (\<lambda>n k. P (Suc n) k) \<Longrightarrow> ev P"
  unfolding ev_def
proof clarify
  fix m assume a: "\<forall>n>m. \<forall>k>m. P (Suc n) k"
  have "P n k" if "n > Suc m" "k > Suc m" for n k using that a by (cases n) auto
  then show "\<exists>m. \<forall>n>m. \<forall>k>m. P n k" by blast
qed

text \<open>The two fuels agree.\<close>

lemma ev_same: "ev P \<Longrightarrow> \<exists>m. \<forall>n>m. P n n"
  by (auto simp: ev_def)

lemma ev_depth:
  assumes "ev (\<lambda>n k. f n (parse_calls k) = r)" "\<And>k. g (parse_calls (Suc k)) = f k (parse_calls k)"
  shows "ev (\<lambda>n k. g (parse_calls k) = r)"
proof -
  obtain m where "\<forall>n>m. \<forall>k>m. f n (parse_calls k) = r" using assms(1) by (auto simp: ev_def)
  then have "g (parse_calls k) = r" if "k > Suc m" for k using that assms(2) [of "k - 1"] by (cases k) auto
  then show ?thesis by (auto simp: ev_def)
qed

lemma ev_c_expr: "ev (\<lambda>n k. parse_expr n (parse_calls k) p = r) \<Longrightarrow> ev (\<lambda>n k. c_expr (parse_calls k) p = r)"
  by (rule ev_depth [of "\<lambda>n c. parse_expr n c p"]) (simp_all add: Let_def)

lemma ev_c_ternary: "ev (\<lambda>n k. parse_ternary n (parse_calls k) p = r) \<Longrightarrow> ev (\<lambda>n k. c_ternary (parse_calls k) p = r)"
  by (rule ev_depth [of "\<lambda>n c. parse_ternary n c p"]) (simp_all add: Let_def)

lemma ev_c_not: "ev (\<lambda>n k. parse_not n (parse_calls k) p = r) \<Longrightarrow> ev (\<lambda>n k. c_not (parse_calls k) p = r)"
  by (rule ev_depth [of "\<lambda>n c. parse_not n c p"]) (simp_all add: Let_def)

lemma ev_c_unary: "ev (\<lambda>n k. parse_unary n (parse_calls k) p = r) \<Longrightarrow> ev (\<lambda>n k. c_unary (parse_calls k) p = r)"
  by (rule ev_depth [of "\<lambda>n c. parse_unary n c p"]) (simp_all add: Let_def)

lemma ev_c_power: "ev (\<lambda>n k. parse_power n (parse_calls k) p = r) \<Longrightarrow> ev (\<lambda>n k. c_power (parse_calls k) p = r)"
  by (rule ev_depth [of "\<lambda>n c. parse_power n c p"]) (simp_all add: Let_def)

lemma ev_c_pattern: "ev (\<lambda>n k. parse_pattern n (parse_calls k) p = r) \<Longrightarrow> ev (\<lambda>n k. c_pattern (parse_calls k) p = r)"
  by (rule ev_depth [of "\<lambda>n c. parse_pattern n c p"]) (simp_all add: Let_def)

lemma ev_c_block: "ev (\<lambda>n k. parse_block n (parse_calls k) p = r) \<Longrightarrow> ev (\<lambda>n k. c_block (parse_calls k) p = r)"
  by (rule ev_depth [of "\<lambda>n c. parse_block n c p"]) (simp_all add: Let_def)

lemma ev_c_stmt: "ev (\<lambda>n k. parse_stmt n (parse_calls k) p = r) \<Longrightarrow> ev (\<lambda>n k. c_stmt (parse_calls k) p = r)"
  by (rule ev_depth [of "\<lambda>n c. parse_stmt n c p"]) (simp_all add: Let_def)

lemmas ev_calls = ev_c_expr ev_c_ternary ev_c_not ev_c_unary ev_c_power ev_c_pattern ev_c_block ev_c_stmt

end
