(* ===== verification/ParserExprs.thy ===== *)
theory ParserExprs
  imports ParserWords
begin

text \<open>
  The parser accepts every expression of the grammar.  The left-associative levels are loops in the code; \<open>accepts\<close>
  therefore says that parsing a phrase arrives at the loop of its level with the tree of the phrase, which serves for
  the phrase as a whole and as the left operand of a longer one.
\<close>

section \<open>What may follow\<close>

primrec own :: "level \<Rightarrow> token_kind list" where
  "own Expr = TOK_ASSIGN # TOK_WALRUS # aug_ops"
| "own Ternary = [TOK_QUESTION]"
| "own Pipeline = [TOK_PIPE_ARROW]"
| "own Or = level_ops Or"
| "own And = level_ops And"
| "own Not = []"
| "own Comparison = level_ops Comparison"
| "own Bitor = level_ops Bitor"
| "own Bitxor = level_ops Bitxor"
| "own Bitand = level_ops Bitand"
| "own Shift = level_ops Shift"
| "own Add = level_ops Add"
| "own Mul = level_ops Mul"
| "own Unary = []"
| "own Power = [TOK_STAR_STAR]"
| "own Postfix = [TOK_LPAREN, TOK_LBRACKET, TOK_DOT]"
| "own Primary = []"

primrec height :: "level \<Rightarrow> nat" where
  "height Expr = 16" | "height Ternary = 15" | "height Pipeline = 14" | "height Or = 13" | "height And = 12"
| "height Not = 11" | "height Comparison = 10" | "height Bitor = 9" | "height Bitxor = 8" | "height Bitand = 7"
| "height Shift = 6" | "height Add = 5" | "height Mul = 4" | "height Unary = 3" | "height Power = 2"
| "height Postfix = 1" | "height Primary = 0"

lemma height_below: "L \<noteq> Primary \<Longrightarrow> height L = Suc (height (below L))"
  by (cases L) simp_all

function conts :: "level \<Rightarrow> token_kind set" where
  "conts L = set (own L) \<union> (if L = Primary then {} else conts (below L))"
  by pat_completeness auto
termination by (relation "measure height") (simp_all add: height_below)

declare conts.simps [simp del]

lemma conts_below: "L \<noteq> Primary \<Longrightarrow> conts L = set (own L) \<union> conts (below L)"
  by (subst conts.simps) simp

lemma conts_Primary: "conts Primary = {}"
  by (subst conts.simps) simp

lemmas conts_all = conts_below [of Expr] conts_below [of Ternary] conts_below [of Pipeline] conts_below [of Or] conts_below [of And]
  conts_below [of Not] conts_below [of Comparison] conts_below [of Bitor] conts_below [of Bitxor] conts_below [of Bitand]
  conts_below [of Shift] conts_below [of Add] conts_below [of Mul] conts_below [of Unary] conts_below [of Power] conts_below [of Postfix]
  conts_Primary

lemma conts_Expr: "conts L \<subseteq> conts Expr"
  by (cases L) (auto simp: conts_all)

text \<open>The tokens behind a phrase of level \<open>L\<close> do not continue it.\<close>

definition stops :: "level \<Rightarrow> item list \<Rightarrow> bool" where
  "stops L ws \<longleftrightarrow> ws \<noteq> [] \<and> fst (hd ws) \<notin> conts L \<and>
     (L \<in> {Expr, Ternary, Pipeline} \<and> fst (hd ws) = TOK_NEWLINE \<longrightarrow> tl ws \<noteq> [] \<and> fst (hd (tl ws)) \<noteq> TOK_PIPE_ARROW)"

lemma stops_below: "stops L ws \<Longrightarrow> stops (below L) ws"
  by (cases L) (auto simp: stops_def conts_all)

lemma stops_Expr: "stops Expr ws \<Longrightarrow> stops L ws"
  using conts_Expr by (auto simp: stops_def)

definition closers :: "token_kind list" where
  "closers = [TOK_RPAREN, TOK_RBRACKET, TOK_RBRACE, TOK_COMMA, TOK_COLON, TOK_FOR, TOK_IN, TOK_IF, TOK_AS, TOK_DEDENT, TOK_EOF]"

lemma stops_closer: "k \<in> set closers \<Longrightarrow> stops L ((k, s) # ws)"
  by (rule stops_Expr) (auto simp: stops_def conts_all closers_def aug_ops_def)

lemma stops_newline: "ws \<noteq> [] \<Longrightarrow> fst (hd ws) \<noteq> TOK_PIPE_ARROW \<Longrightarrow> stops L ((TOK_NEWLINE, s) # ws)"
  by (rule stops_Expr) (auto simp: stops_def conts_all aug_ops_def)

section \<open>Levels of the parser\<close>

primrec level_fun :: "level \<Rightarrow> nat \<Rightarrow> calls \<Rightarrow> ast parses" where
  "level_fun Expr = parse_expr"
| "level_fun Ternary = parse_ternary"
| "level_fun Pipeline = parse_pipeline"
| "level_fun Or = parse_or"
| "level_fun And = parse_and"
| "level_fun Not = parse_not"
| "level_fun Comparison = parse_comparison"
| "level_fun Bitor = parse_bitor"
| "level_fun Bitxor = parse_bitxor"
| "level_fun Bitand = parse_bitand"
| "level_fun Shift = parse_shift"
| "level_fun Add = parse_add"
| "level_fun Mul = parse_mul"
| "level_fun Unary = parse_unary"
| "level_fun Power = parse_power"
| "level_fun Postfix = parse_postfix"
| "level_fun Primary = parse_primary"

text \<open>The loop of a level: \<open>n\<close> bounds it, \<open>j\<close> is the bound its operands get.\<close>

definition loop_fun :: "level \<Rightarrow> nat \<Rightarrow> nat \<Rightarrow> calls \<Rightarrow> ast \<Rightarrow> ast parses" where
  "loop_fun L n j c a =
     (if level_ops L \<noteq> [] then binary_loop n (level_ops L) (level_fun (below L) j c) a
      else if L = Pipeline then pipeline_loop n c a
      else if L = Postfix then postfix_loop n c a
      else (\<lambda>p. Some (a, p)))"

definition looping :: "level \<Rightarrow> bool" where
  "looping L \<longleftrightarrow> level_ops L \<noteq> [] \<or> L = Pipeline \<or> L = Postfix"

lemma looping_fun: "looping L \<Longrightarrow> level_fun L n c p = do { (a, q) \<leftarrow> level_fun (below L) n c p; loop_fun L n n c a q }"
  by (cases L) (simp_all add: looping_def loop_fun_def parse_mul_def parse_add_def parse_shift_def parse_bitand_def
      parse_bitxor_def parse_bitor_def parse_comparison_def parse_and_def parse_or_def binary_left_def parse_pipeline_def parse_postfix_def)

lemma loop_stops:
  assumes "looping L" "0 < n" "items q = ws" "stops L ws"
  shows "loop_fun L n j c a q = Some (a, q)"
proof -
  have np: "L \<noteq> Primary" using assms(1) by (auto simp: looping_def)
  have q: "items q \<noteq> []" "fst (hd (items q)) \<notin> set (own L)"
    using assms(3,4) conts_below [OF np] by (auto simp: stops_def)
  obtain n' where n: "n = Suc n'" using assms(2) by (cases n) auto
  consider (ops) "level_ops L \<noteq> []" | (pipe) "L = Pipeline" | (postfix) "L = Postfix" using assms(1) by (auto simp: looping_def)
  then show ?thesis
  proof cases
    case ops
    then have "own L = level_ops L" by (cases L) simp_all
    then show ?thesis using ops q n by (simp add: loop_fun_def feed)
  next
    case pipe
    then show ?thesis using q n assms(3,4) by (simp add: loop_fun_def feed stops_def)
  next
    case postfix
    then show ?thesis using q n by (simp add: loop_fun_def feed)
  qed
qed

definition cover :: "bool \<Rightarrow> level \<Rightarrow> level" where
  "cover b L = (if b then Expr else L)"

definition entry :: "bool \<Rightarrow> level \<Rightarrow> level" where
  "entry b L = (if b then Expr else if looping L then below L else L)"

text \<open>The first tokens of expressions.\<close>

definition starters :: "level \<Rightarrow> token_kind list" where
  "starters L = [TOK_INT, TOK_FLOAT, TOK_STRING, TOK_STRING3, TOK_TRUE, TOK_FALSE, TOK_NULL, TOK_IDENT, TOK_SELF, TOK_SUPER,
     TOK_LPAREN, TOK_LBRACKET, TOK_LBRACE, TOK_PIPE] @
     (if height L \<le> 2 then [] else [TOK_MINUS, TOK_TILDE, TOK_NOT, TOK_AWAIT, TOK_SPAWN])"

lemma starters_below: "k \<in> set (starters (below L)) \<Longrightarrow> k \<in> set (starters L)"
  by (cases L) (auto simp: starters_def)

definition accepts :: "level \<Rightarrow> bool \<Rightarrow> item list \<Rightarrow> ast \<Rightarrow> bool" where
  "accepts L b ws t \<longleftrightarrow> ws \<noteq> [] \<and> fst (hd ws) \<in> set (starters L) \<and>
     (\<forall>p tail. items p = ws @ tail \<longrightarrow> stops (entry b L) tail \<longrightarrow>
       (\<exists>a q d. erase a = t \<and> items q = tail \<and>
          ev (\<lambda>n k. level_fun L (d + n) (parse_calls k) p = loop_fun L n (d + n) (parse_calls k) a q)))"

lemma acceptsI:
  assumes "ws \<noteq> []" "fst (hd ws) \<in> set (starters L)"
    "\<And>p tail. items p = ws @ tail \<Longrightarrow> stops (entry b L) tail \<Longrightarrow>
       \<exists>a q d. erase a = t \<and> items q = tail \<and>
          ev (\<lambda>n k. level_fun L (d + n) (parse_calls k) p = loop_fun L n (d + n) (parse_calls k) a q)"
  shows "accepts L b ws t"
  using assms by (simp add: accepts_def)

lemma acceptsE:
  assumes "accepts L b ws t" "items p = ws @ tail" "stops (entry b L) tail"
  obtains a q d where "erase a = t" "items q = tail"
    "ev (\<lambda>n k. level_fun L (d + n) (parse_calls k) p = loop_fun L n (d + n) (parse_calls k) a q)"
  using assms unfolding accepts_def by blast

text \<open>At a level without a loop.\<close>

lemma accepts_plainI:
  assumes "\<not> looping L" "ws \<noteq> []" "fst (hd ws) \<in> set (starters L)"
    "\<And>p tail. items p = ws @ tail \<Longrightarrow> stops (cover b L) tail \<Longrightarrow>
       \<exists>a q. erase a = t \<and> items q = tail \<and> ev (\<lambda>n k. level_fun L n (parse_calls k) p = Some (a, q))"
  shows "accepts L b ws t"
proof (rule acceptsI)
  fix p tail assume p: "items p = ws @ tail" "stops (entry b L) tail"
  have "stops (cover b L) tail" using p(2) assms(1) by (simp add: entry_def cover_def split: if_splits)
  then obtain a q where "erase a = t" "items q = tail" "ev (\<lambda>n k. level_fun L n (parse_calls k) p = Some (a, q))"
    using assms(4) [OF p(1)] by blast
  then show "\<exists>a q d. erase a = t \<and> items q = tail \<and>
      ev (\<lambda>n k. level_fun L (d + n) (parse_calls k) p = loop_fun L n (d + n) (parse_calls k) a q)"
    using assms(1) by (intro exI [of _ a] exI [of _ q] exI [of _ 0]) (simp add: loop_fun_def looping_def)
qed (use assms in auto)

text \<open>The result of a phrase that is not continued.\<close>

lemma accepts_result:
  assumes "accepts L b ws t" "items p = ws @ tail" "stops (cover b L) tail"
  obtains a q where "erase a = t" "items q = tail" "ev (\<lambda>n k. level_fun L n (parse_calls k) p = Some (a, q))"
proof -
  have "stops (entry b L) tail"
    using assms(3) stops_below by (auto simp: entry_def cover_def split: if_splits)
  then obtain a q d where a: "erase a = t" "items q = tail"
    "ev (\<lambda>n k. level_fun L (d + n) (parse_calls k) p = loop_fun L n (d + n) (parse_calls k) a q)"
    using assms(1,2) unfolding accepts_def by blast
  have s: "stops L tail" using assms(3) stops_Expr by (auto simp: cover_def split: if_splits)
  have l: "loop_fun L n j c a q = Some (a, q)" if "0 < n" for n j c
    using loop_stops [OF _ that a(2) s] by (cases "looping L") (auto simp: loop_fun_def looping_def)
  have "ev (\<lambda>n k. level_fun L (d + n) (parse_calls k) p = Some (a, q))"
    by (rule ev_elim1 [OF a(3)]) (simp add: l)
  then obtain m where m: "\<forall>n>m. \<forall>k>m. level_fun L (d + n) (parse_calls k) p = Some (a, q)" by (auto simp: ev_def)
  have "level_fun L n (parse_calls k) p = Some (a, q)" if "n > m + d" "k > m + d" for n k
    using m [rule_format, of "n - d" k] that by simp
  then have "ev (\<lambda>n k. level_fun L n (parse_calls k) p = Some (a, q))" by (auto simp: ev_def)
  then show thesis using that a by blast
qed

section \<open>The levels above the primaries\<close>

lemma accepts_below:
  assumes "accepts (below L) b ws t" "L \<noteq> Primary" "L = Not \<longrightarrow> fst (hd ws) \<noteq> TOK_NOT"
  shows "accepts L b ws t"
proof -
  have ws: "ws \<noteq> []" "fst (hd ws) \<in> set (starters (below L))" using assms(1) by (simp_all add: accepts_def)
  show ?thesis
  proof (cases "looping L")
    case True
    show ?thesis
    proof (rule acceptsI)
      fix p tail assume p: "items p = ws @ tail" "stops (entry b L) tail"
      have "stops (cover b (below L)) tail" using p(2) by (cases b) (simp_all add: entry_def cover_def True)
      then obtain a q where a: "erase a = t" "items q = tail" "ev (\<lambda>n k. level_fun (below L) n (parse_calls k) p = Some (a, q))"
        using accepts_result [OF assms(1) p(1)] by blast
      have "ev (\<lambda>n k. level_fun L (0 + n) (parse_calls k) p = loop_fun L n (0 + n) (parse_calls k) a q)"
        by (rule ev_elim1 [OF a(3)]) (simp add: looping_fun [OF True])
      then show "\<exists>a q d. erase a = t \<and> items q = tail \<and>
          ev (\<lambda>n k. level_fun L (d + n) (parse_calls k) p = loop_fun L n (d + n) (parse_calls k) a q)"
        using a by blast
    qed (use ws starters_below in auto)
  next
    case False
    show ?thesis
    proof (rule accepts_plainI [OF False])
      fix p tail assume p: "items p = ws @ tail" "stops (cover b L) tail"
      have sL: "stops L tail" using p(2) stops_Expr by (auto simp: cover_def split: if_splits)
      have "stops (cover b (below L)) tail" using p(2) stops_below by (auto simp: cover_def split: if_splits)
      then obtain a q where a: "erase a = t" "items q = tail" "ev (\<lambda>n k. level_fun (below L) n (parse_calls k) p = Some (a, q))"
        using accepts_result [OF assms(1) p(1)] by blast
      have t: "tail \<noteq> []" "fst (hd tail) \<notin> set (own L)" using sL conts_below [OF assms(2)] by (auto simp: stops_def)
      have "ev (\<lambda>n k. level_fun L n (parse_calls k) p = Some (a, q))"
      proof (rule ev_elim1 [OF a(3)])
        fix n k assume r: "level_fun (below L) n (parse_calls k) p = Some (a, q)" "0 < n"
        consider "L = Expr" | "L = Ternary" | "L = Not" | "L = Unary" | "L = Power"
          using False assms(2) by (cases L) (simp_all add: looping_def)
        then show "level_fun L n (parse_calls k) p = Some (a, q)"
        proof cases
          case 1
          then show ?thesis using r(1) t a(2) by (simp add: parse_expr_def feed)
        next
          case 2
          then show ?thesis using r(1) t a(2) by (simp add: parse_ternary_def feed)
        next
          case 3
          then show ?thesis using r(1) assms(3) p(1) ws(1) by (simp add: parse_not_def feed)
        next
          case 4
          then show ?thesis using r(1) ws p(1) by (auto simp: parse_unary_def feed starters_def)
        next
          case 5
          then show ?thesis using r(1) t a(2) by (simp add: parse_power_def feed)
        qed
      qed
      then show "\<exists>a q. erase a = t \<and> items q = tail \<and> ev (\<lambda>n k. level_fun L n (parse_calls k) p = Some (a, q))"
        using a by blast
    qed (use ws starters_below in auto)
  qed
qed

text \<open>A further operand of a left-associative level.\<close>

lemma accepts_binary:
  assumes "accepts L False us a" "accepts (below L) b ws t" "op \<in> set (level_ops L)"
  shows "accepts L b (us @ (op, s) # ws) (AST_BINARY nowhere op a t)"
proof (rule acceptsI)
  have ops: "level_ops L \<noteq> []" and loop: "looping L" using assms(3) by (auto simp: looping_def)
  fix p tail assume p: "items p = (us @ (op, s) # ws) @ tail" "stops (entry b L) tail"
  have ws: "ws \<noteq> []" "us \<noteq> []" using assms by (simp_all add: accepts_def)
  have "op \<notin> conts (below L)" using assms(3) by (cases L) (auto simp: conts_all)
  moreover have "op \<noteq> TOK_NEWLINE" using assms(3) by (cases L) auto
  ultimately have "stops (entry False L) ((op, s) # ws @ tail)" using loop by (simp add: entry_def stops_def)
  then obtain a' q d where l: "erase a' = a" "items q = (op, s) # ws @ tail"
    "ev (\<lambda>n k. level_fun L (d + n) (parse_calls k) p = loop_fun L n (d + n) (parse_calls k) a' q)"
    using acceptsE [OF assms(1), of p "(op, s) # ws @ tail"] p(1) by auto
  have "stops (cover b (below L)) tail" using p(2) by (cases b) (simp_all add: entry_def cover_def loop)
  moreover have "items (adv q) = ws @ tail" using l(2) ws by (simp add: feed)
  ultimately obtain t' q' where r: "erase t' = t" "items q' = tail"
    "ev (\<lambda>n k. level_fun (below L) n (parse_calls k) (adv q) = Some (t', q'))"
    using accepts_result [OF assms(2)] by blast
  let ?a = "AST_BINARY (pos_current q) op a' t'"
  obtain m1 where m1: "\<forall>n>m1. \<forall>k>m1. level_fun L (d + n) (parse_calls k) p = loop_fun L n (d + n) (parse_calls k) a' q"
    using l(3) by (auto simp: ev_def)
  obtain m2 where m2: "\<forall>n>m2. \<forall>k>m2. level_fun (below L) n (parse_calls k) (adv q) = Some (t', q')"
    using r(3) by (auto simp: ev_def)
  have "level_fun L (Suc d + n) (parse_calls k) p = loop_fun L n (Suc d + n) (parse_calls k) ?a q'"
    if n: "n > m1 + m2" "k > m1 + m2" for n k
  proof -
    have "level_fun L (d + Suc n) (parse_calls k) p = loop_fun L (Suc n) (d + Suc n) (parse_calls k) a' q"
      using n by (intro m1 [rule_format]) simp_all
    also have "\<dots> = loop_fun L n (d + Suc n) (parse_calls k) ?a q'"
      using ops l(2) assms(3) m2 [rule_format, of "d + Suc n" k] n ws by (simp add: loop_fun_def feed)
    finally show ?thesis by simp
  qed
  then have "ev (\<lambda>n k. level_fun L (Suc d + n) (parse_calls k) p = loop_fun L n (Suc d + n) (parse_calls k) ?a q')"
    by (auto simp: ev_def)
  moreover have "erase ?a = AST_BINARY nowhere op a t" using l(1) r(1) by simp
  ultimately show "\<exists>a' q d. erase a' = AST_BINARY nowhere op a t \<and> items q = tail \<and>
      ev (\<lambda>n k. level_fun L (d + n) (parse_calls k) p = loop_fun L n (d + n) (parse_calls k) a' q)"
    using r(2) by blast
qed (use assms(1) in \<open>auto simp: accepts_def\<close>)

text \<open>Prefix operators, powers, pipelines and the levels above them.\<close>

lemma items_ne: "items p = ws @ tail \<Longrightarrow> ws \<noteq> [] \<Longrightarrow> items p \<noteq> []"
  by simp

lemma accepts_nonempty: "accepts L b ws t \<Longrightarrow> ws \<noteq> []"
  by (simp add: accepts_def)

text \<open>A phrase behind a token, at the same or another level.\<close>

lemma accepts_behind:
  assumes "accepts L b ws t" "items p = x # ws @ tail" "stops (cover b L) tail"
  obtains a q where "erase a = t" "items q = tail" "ev (\<lambda>n k. level_fun L n (parse_calls k) (adv p) = Some (a, q))"
proof -
  have "items (adv p) = ws @ tail" using assms(2) accepts_nonempty [OF assms(1)] by (simp add: feed)
  then show thesis using accepts_result [OF assms(1) _ assms(3)] that by blast
qed

lemma accepts_prefix:
  assumes "accepts L b ws t" "\<not> looping L" "op \<in> set (starters L)"
    and call: "\<And>p r. ev (\<lambda>n k. level_fun L n (parse_calls k) p = r) \<Longrightarrow> ev (\<lambda>n k. call (parse_calls k) p = r)"
    and step: "\<And>n c p. items p \<noteq> [] \<Longrightarrow> tl (items p) \<noteq> [] \<Longrightarrow> fst (hd (items p)) = op \<Longrightarrow>
      level_fun L n c p = do { (e, q) \<leftarrow> call c (adv p); Some (node (pos_current p) e, q) }"
    and node: "\<And>x e. erase (node x e) = node nowhere (erase e)"
  shows "accepts L b ((op, s) # ws) (node nowhere t)"
proof (rule accepts_plainI [OF assms(2)])
  fix p tail assume "items p = ((op, s) # ws) @ tail" and st: "stops (cover b L) tail"
  then have p: "items p = (op, s) # ws @ tail" by simp
  have ws: "ws \<noteq> []" by (rule accepts_nonempty [OF assms(1)])
  obtain a q where a: "erase a = t" "items q = tail" "ev (\<lambda>n k. level_fun L n (parse_calls k) (adv p) = Some (a, q))"
    by (rule accepts_behind [OF assms(1) p st])
  have "ev (\<lambda>n k. level_fun L n (parse_calls k) p = Some (node (pos_current p) a, q))"
    by (rule ev_elim1 [OF call [OF a(3)]]) (use ws in \<open>simp add: step p\<close>)
  then show "\<exists>a q. erase a = node nowhere t \<and> items q = tail \<and> ev (\<lambda>n k. level_fun L n (parse_calls k) p = Some (a, q))"
    using a node by blast
qed (use assms(3) in simp_all)

lemma accepts_unary:
  assumes "accepts Unary b ws t" "op \<in> {TOK_MINUS, TOK_TILDE, TOK_NOT}"
  shows "accepts Unary b ((op, s) # ws) (AST_UNARY nowhere op t)"
  by (rule accepts_prefix [OF assms(1), where call = c_unary and node = "\<lambda>x. AST_UNARY x op"])
    (use assms(2) in \<open>auto simp: looping_def starters_def parse_unary_def feed intro: ev_calls\<close>)

lemma accepts_await: "accepts Unary b ws t \<Longrightarrow> accepts Unary b ((TOK_AWAIT, s) # ws) (AST_AWAIT nowhere t)"
  by (rule accepts_prefix [where call = c_unary and node = "AST_AWAIT"])
    (auto simp: looping_def starters_def parse_unary_def feed intro: ev_calls)

lemma accepts_spawn: "accepts Unary b ws t \<Longrightarrow> accepts Unary b ((TOK_SPAWN, s) # ws) (AST_SPAWN nowhere t)"
  by (rule accepts_prefix [where call = c_unary and node = "AST_SPAWN"])
    (auto simp: looping_def starters_def parse_unary_def feed intro: ev_calls)

lemma accepts_not: "accepts Not b ws t \<Longrightarrow> accepts Not b ((TOK_NOT, s) # ws) (AST_UNARY nowhere TOK_NOT t)"
  by (rule accepts_prefix [where call = c_not and node = "\<lambda>x. AST_UNARY x TOK_NOT"])
    (auto simp: looping_def starters_def parse_not_def feed intro: ev_calls)

lemma accepts_infix:
  assumes "accepts (below L) False us a" "accepts L b ws t" "\<not> looping L" "L \<noteq> Primary" "op \<in> set (own L)"
    and call: "\<And>p r. ev (\<lambda>n k. level_fun L n (parse_calls k) p = r) \<Longrightarrow> ev (\<lambda>n k. call (parse_calls k) p = r)"
    and step: "\<And>n c p q a'. level_fun (below L) n c p = Some (a', q) \<Longrightarrow> erase a' = a \<Longrightarrow> items q \<noteq> [] \<Longrightarrow> tl (items q) \<noteq> [] \<Longrightarrow>
      fst (hd (items q)) = op \<Longrightarrow> level_fun L n c p = do { (e, q') \<leftarrow> call c (adv q); Some (node (pos q) a' e, q') }"
    and node: "\<And>x a' e. erase a' = a \<Longrightarrow> erase (node x a' e) = node nowhere a (erase e)"
  shows "accepts L b (us @ (op, s) # ws) (node nowhere a t)"
proof (rule accepts_plainI [OF assms(3)])
  fix p tail assume p: "items p = (us @ (op, s) # ws) @ tail" and st: "stops (cover b L) tail"
  have ws: "ws \<noteq> []" by (rule accepts_nonempty [OF assms(2)])
  have "op \<notin> conts (below L)" using assms(3,4,5) by (cases L) (auto simp: looping_def conts_all aug_ops_def)
  moreover have "op \<noteq> TOK_NEWLINE" using assms(5) by (cases L) (auto simp: aug_ops_def)
  ultimately have "stops (cover False (below L)) ((op, s) # ws @ tail)" by (simp add: cover_def stops_def)
  then obtain a' q where a: "erase a' = a" "items q = (op, s) # ws @ tail"
    "ev (\<lambda>n k. level_fun (below L) n (parse_calls k) p = Some (a', q))"
    using accepts_result [OF assms(1), of p "(op, s) # ws @ tail"] p by auto
  obtain e q' where e: "erase e = t" "items q' = tail" "ev (\<lambda>n k. level_fun L n (parse_calls k) (adv q) = Some (e, q'))"
    by (rule accepts_behind [OF assms(2) a(2) st])
  have "ev (\<lambda>n k. level_fun L n (parse_calls k) p = Some (node (pos q) a' e, q'))"
    by (rule ev_elim2 [OF a(3) call [OF e(3)]]) (use ws a in \<open>simp add: step\<close>)
  then show "\<exists>e q. erase e = node nowhere a t \<and> items q = tail \<and> ev (\<lambda>n k. level_fun L n (parse_calls k) p = Some (e, q))"
    using a(1) e(1,2) node by blast
qed (use assms(1) accepts_nonempty [OF assms(1)] starters_below in \<open>auto simp: accepts_def\<close>)

lemma accepts_power:
  "accepts Postfix False us a \<Longrightarrow> accepts Power b ws t \<Longrightarrow>
    accepts Power b (us @ (TOK_STAR_STAR, s) # ws) (AST_BINARY nowhere TOK_STAR_STAR a t)"
  by (rule accepts_infix [where call = c_power and node = "\<lambda>x. AST_BINARY x TOK_STAR_STAR" and pos = "\<lambda>q. pos_previous (adv q)"])
    (simp_all add: looping_def parse_power_def feed ev_calls)

lemma accepts_assign:
  "accepts Ternary False us a \<Longrightarrow> accepts Expr b ws t \<Longrightarrow> accepts Expr b (us @ (TOK_ASSIGN, s) # ws) (AST_ASSIGN nowhere a t)"
  by (rule accepts_infix [where call = c_expr and node = AST_ASSIGN and pos = pos_current])
    (simp_all add: looping_def parse_expr_def feed ev_calls)

lemma accepts_augmented:
  "accepts Ternary False us a \<Longrightarrow> accepts Expr b ws t \<Longrightarrow> op \<in> set aug_ops \<Longrightarrow>
    accepts Expr b (us @ (op, s) # ws) (AST_AUGMENTED_ASSIGN nowhere a t op)"
  by (rule accepts_infix [where call = c_expr and node = "\<lambda>x a t. AST_AUGMENTED_ASSIGN x a t op" and pos = pos_current])
    (auto simp: looping_def parse_expr_def feed ev_calls aug_ops_def)

lemma erase_ident: "erase a = AST_IDENT x v \<Longrightarrow> ident_name a = Some v"
  by (cases a) simp_all

lemma accepts_walrus:
  "accepts Ternary False us (AST_IDENT nowhere v) \<Longrightarrow> accepts Expr b ws t \<Longrightarrow>
    accepts Expr b (us @ (TOK_WALRUS, s) # ws) (AST_WALRUS nowhere v t)"
  by (rule accepts_infix [where call = c_expr and node = "\<lambda>x a t. AST_WALRUS x v t" and pos = pos_current])
    (auto simp: looping_def parse_expr_def feed ev_calls dest!: erase_ident)

lemma accepts_ternary:
  assumes "accepts Pipeline False us c" "accepts Ternary b' ws1 t1" "accepts Ternary b ws2 t2"
  shows "accepts Ternary b (us @ (TOK_QUESTION, s) # ws1 @ (TOK_COLON, s') # ws2) (AST_TERNARY nowhere c t1 t2)"
proof (rule accepts_plainI)
  fix p tail assume "items p = (us @ (TOK_QUESTION, s) # ws1 @ (TOK_COLON, s') # ws2) @ tail" and st: "stops (cover b Ternary) tail"
  then have p: "items p = us @ (TOK_QUESTION, s) # ws1 @ (TOK_COLON, s') # ws2 @ tail" by simp
  have ws: "ws1 \<noteq> []" "ws2 \<noteq> []" using assms accepts_nonempty by blast+
  have "stops (cover False Pipeline) ((TOK_QUESTION, s) # ws1 @ (TOK_COLON, s') # ws2 @ tail)"
    by (simp add: cover_def stops_def conts_all)
  then obtain c' q where c: "erase c' = c" "items q = (TOK_QUESTION, s) # ws1 @ (TOK_COLON, s') # ws2 @ tail"
    "ev (\<lambda>n k. level_fun Pipeline n (parse_calls k) p = Some (c', q))"
    using accepts_result [OF assms(1) p] by auto
  obtain e1 q1 where e1: "erase e1 = t1" "items q1 = (TOK_COLON, s') # ws2 @ tail"
    "ev (\<lambda>n k. level_fun Ternary n (parse_calls k) (adv q) = Some (e1, q1))"
    by (rule accepts_behind [OF assms(2) c(2)]) (rule stops_closer, simp add: closers_def)
  obtain e2 q2 where e2: "erase e2 = t2" "items q2 = tail" "ev (\<lambda>n k. level_fun Ternary n (parse_calls k) (adv q1) = Some (e2, q2))"
    by (rule accepts_behind [OF assms(3) e1(2) st])
  have d: "ev (\<lambda>n k. c_ternary (parse_calls k) (adv q) = Some (e1, q1))" "ev (\<lambda>n k. c_ternary (parse_calls k) (adv q1) = Some (e2, q2))"
    using e1(3) e2(3) by (auto intro: ev_calls)
  have "ev (\<lambda>n k. level_fun Ternary n (parse_calls k) p = Some (AST_TERNARY (pos_current q) c' e1 e2, q2))"
    by (rule ev_elim3 [OF c(3) d]) (use ws c(2) e1(2) in \<open>simp add: parse_ternary_def feed\<close>)
  moreover have "erase (AST_TERNARY (pos_current q) c' e1 e2) = AST_TERNARY nowhere c t1 t2" using c e1 e2 by simp
  ultimately show "\<exists>e q. erase e = AST_TERNARY nowhere c t1 t2 \<and> items q = tail \<and>
      ev (\<lambda>n k. level_fun Ternary n (parse_calls k) p = Some (e, q))"
    using e2(2) by blast
qed (use assms(1) in \<open>auto simp: looping_def accepts_def starters_def\<close>)

lemma accepts_pipe:
  assumes "accepts Pipeline False us a" "accepts Or b ws t" "nl = [] \<or> nl = [(TOK_NEWLINE, [])]"
  shows "accepts Pipeline b (us @ nl @ (TOK_PIPE_ARROW, s) # ws) (AST_PIPELINE nowhere a t)"
proof (rule acceptsI)
  fix p tail assume "items p = (us @ nl @ (TOK_PIPE_ARROW, s) # ws) @ tail" and st: "stops (entry b Pipeline) tail"
  then have p: "items p = us @ nl @ (TOK_PIPE_ARROW, s) # ws @ tail" by simp
  have ws: "ws \<noteq> []" using assms accepts_nonempty by blast
  have "stops (entry False Pipeline) (nl @ (TOK_PIPE_ARROW, s) # ws @ tail)"
    using assms(3) by (auto simp: entry_def looping_def stops_def conts_all)
  then obtain a' q d where a: "erase a' = a" "items q = nl @ (TOK_PIPE_ARROW, s) # ws @ tail"
    "ev (\<lambda>n k. level_fun Pipeline (d + n) (parse_calls k) p = loop_fun Pipeline n (d + n) (parse_calls k) a' q)"
    by (rule acceptsE [OF assms(1) p])
  define q1 where "q1 = (if nl = [] then q else adv q)"
  have q1: "items q1 = (TOK_PIPE_ARROW, s) # ws @ tail" using a(2) assms(3) by (auto simp: q1_def feed)
  have "stops (cover b Or) tail" using st by (auto simp: entry_def cover_def looping_def split: if_splits)
  then obtain e q2 where e: "erase e = t" "items q2 = tail" "ev (\<lambda>n k. level_fun Or n (parse_calls k) (adv q1) = Some (e, q2))"
    using accepts_behind [OF assms(2) q1] by blast
  let ?a = "AST_PIPELINE (pos_current q1) a' e"
  obtain m1 where m1: "\<forall>n>m1. \<forall>k>m1. level_fun Pipeline (d + n) (parse_calls k) p = loop_fun Pipeline n (d + n) (parse_calls k) a' q"
    using a(3) by (auto simp: ev_def)
  obtain m2 where m2: "\<forall>n>m2. \<forall>k>m2. level_fun Or n (parse_calls k) (adv q1) = Some (e, q2)"
    using e(3) by (auto simp: ev_def)
  have "level_fun Pipeline (Suc d + n) (parse_calls k) p = loop_fun Pipeline n (Suc d + n) (parse_calls k) ?a q2"
    if n: "n > m1 + m2" "k > m1 + m2" for n k
  proof -
    have "level_fun Pipeline (d + Suc n) (parse_calls k) p = loop_fun Pipeline (Suc n) (d + Suc n) (parse_calls k) a' q"
      using n by (intro m1 [rule_format]) simp_all
    also have "\<dots> = pipeline_loop n (parse_calls k) ?a q2"
      using a(2) assms(3) m2 [rule_format, of n k] n q1 ws by (auto simp: loop_fun_def feed q1_def split: if_splits)
    finally show ?thesis by (simp add: loop_fun_def)
  qed
  then have "ev (\<lambda>n k. level_fun Pipeline (Suc d + n) (parse_calls k) p = loop_fun Pipeline n (Suc d + n) (parse_calls k) ?a q2)"
    by (auto simp: ev_def)
  moreover have "erase ?a = AST_PIPELINE nowhere a t" using a(1) e(1) by simp
  ultimately show "\<exists>a' q d. erase a' = AST_PIPELINE nowhere a t \<and> items q = tail \<and>
      ev (\<lambda>n k. level_fun Pipeline (d + n) (parse_calls k) p = loop_fun Pipeline n (d + n) (parse_calls k) a' q)"
    using e(2) by blast
qed (use assms(1) in \<open>auto simp: accepts_def\<close>)

end
