(* ===== verification/ParserPrimaries.thy ===== *)
theory ParserPrimaries
  imports ParserExprs
begin

text \<open>
  The parser accepts the primary and postfix expressions of the grammar: literals, brackets, comprehensions, lambdas,
  calls, subscripts and attributes.
\<close>

section \<open>Calls of the expression parser\<close>

lemma accepts_expr:
  assumes "accepts Expr b ws t" "items p = ws @ tail" "stops Expr tail"
  obtains a q where "erase a = t" "items q = tail" "ev (\<lambda>n k. c_expr (parse_calls k) p = Some (a, q))"
proof -
  have "stops (cover b Expr) tail" using assms(3) by (simp add: cover_def)
  then obtain a q where "erase a = t" "items q = tail" "ev (\<lambda>n k. level_fun Expr n (parse_calls k) p = Some (a, q))"
    by (rule accepts_result [OF assms(1,2)])
  then show thesis using that by (simp add: ev_calls)
qed

lemma accepts_expr_behind:
  assumes "accepts Expr b ws t" "items p = x # ws @ tail" "stops Expr tail"
  obtains a q where "erase a = t" "items q = tail" "ev (\<lambda>n k. c_expr (parse_calls k) (adv p) = Some (a, q))"
proof -
  have "items (adv p) = ws @ tail" using assms(2) accepts_nonempty [OF assms(1)] by (simp add: feed)
  then show thesis using accepts_expr [OF assms(1) _ assms(3)] that by blast
qed

lemma starters_neq:
  assumes "k \<in> set (starters L)"
  shows "k \<noteq> TOK_NEWLINE" "k \<noteq> TOK_INDENT" "k \<noteq> TOK_DEDENT" "k \<noteq> TOK_EOF" "k \<noteq> TOK_RPAREN" "k \<noteq> TOK_RBRACKET"
    "k \<noteq> TOK_RBRACE" "k \<noteq> TOK_COLON" "k \<noteq> TOK_IF" "k \<noteq> TOK_IS" "k \<noteq> TOK_ELLIPSIS" "k \<noteq> TOK_PIPE_ARROW" "k \<noteq> TOK_ELIF"
    "k \<noteq> TOK_ELSE" "k \<noteq> TOK_CATCH" "k \<noteq> TOK_FINALLY" "k \<noteq> TOK_AT_ARROW"
  using assms by (auto simp: starters_def split: if_splits)

lemma accepts_first: "accepts L b ws t \<Longrightarrow> fst (hd ws) \<in> set (starters L)"
  by (simp add: accepts_def)

lemma accepts_head: "accepts L b ws t \<Longrightarrow> ws \<noteq> [] \<and> fst (hd ws) \<noteq> TOK_NEWLINE"
  using starters_neq(1) by (auto simp: accepts_def)

text \<open>A comma-separated list of expressions.\<close>

inductive accepts_exprs :: "item list \<Rightarrow> ast list \<Rightarrow> bool" where
  "accepts_exprs [] []"
| "accepts Expr b ws t \<Longrightarrow> accepts_exprs ws [t]"
| "accepts Expr b ws t \<Longrightarrow> accepts_exprs us ts \<Longrightarrow> accepts_exprs (ws @ (TOK_COMMA, s) # us) (t # ts)"

lemma accepts_exprs_first: "accepts_exprs ws ts \<Longrightarrow> ws \<noteq> [] \<Longrightarrow> fst (hd ws) \<in> set (starters Expr)"
  by (induction rule: accepts_exprs.induct) (auto simp: accepts_def)

lemma exprs_head:
  assumes "accepts_exprs ws ts" "items p = ws @ (close, s) # tail" "close \<noteq> TOK_NEWLINE"
  shows "items p \<noteq> []" "fst (hd (items p)) \<noteq> TOK_NEWLINE"
proof -
  show "items p \<noteq> []" using assms by simp
  show "fst (hd (items p)) \<noteq> TOK_NEWLINE"
    using accepts_exprs_first [OF assms(1)] starters_neq(1) assms(2,3) by (cases ws) auto
qed

lemma elements_ok:
  "accepts_exprs ws ts \<Longrightarrow> items p = ws @ (close, s) # tail \<Longrightarrow> close = TOK_RPAREN \<or> close = TOK_RBRACKET \<Longrightarrow>
    \<exists>as q. map erase as = ts \<and> items q = (close, s) # tail \<and> ev (\<lambda>n k. parse_elements n (parse_calls k) close p = Some (as, q))"
proof (induction arbitrary: p rule: accepts_exprs.induct)
  case 1
  have "ev (\<lambda>n k. parse_elements n (parse_calls k) close p = Some ([], p))"
    by (rule ev_loop, rule ev_all) (use 1 in \<open>simp add: feed\<close>)
  then show ?case using 1 by auto
next
  case (2 b ws t)
  have c: "stops Expr ((close, s) # tail)" using 2 by (auto intro: stops_closer simp: closers_def)
  obtain a q where a: "erase a = t" "items q = (close, s) # tail" "ev (\<lambda>n k. c_expr (parse_calls k) p = Some (a, q))"
    by (rule accepts_expr [OF 2(1,2) c])
  have h: "items p \<noteq> []" "fst (hd (items p)) = fst (hd ws)" using 2 accepts_nonempty by auto
  note f = starters_neq [OF accepts_first [OF 2(1)]]
  have "ev (\<lambda>n k. parse_elements n (parse_calls k) close p = Some ([a], q))"
    by (rule ev_loop, rule ev_elim1 [OF a(3)]) (use h f a(2) 2(3) in \<open>auto simp: feed\<close>)
  then show ?case using a by (intro exI [of _ "[a]"] exI [of _ q]) simp
next
  case (3 b ws t us ts s')
  have c: "stops Expr ((TOK_COMMA, s') # us @ (close, s) # tail)" by (rule stops_closer) (simp add: closers_def)
  have p: "items p = ws @ (TOK_COMMA, s') # us @ (close, s) # tail" using 3 by simp
  obtain a q where a: "erase a = t" "items q = (TOK_COMMA, s') # us @ (close, s) # tail" "ev (\<lambda>n k. c_expr (parse_calls k) p = Some (a, q))"
    by (rule accepts_expr [OF 3(1) p c])
  have q: "items (adv q) = us @ (close, s) # tail" using a(2) by (simp add: feed)
  obtain as q' where as: "map erase as = ts" "items q' = (close, s) # tail"
    "ev (\<lambda>n k. parse_elements n (parse_calls k) close (adv q) = Some (as, q'))"
    using "3.IH" [OF q "3.prems"(2)] by blast
  have h: "items p \<noteq> []" "fst (hd (items p)) = fst (hd ws)" using p accepts_nonempty [OF 3(1)] by auto
  note f = starters_neq [OF accepts_first [OF 3(1)]]
  have cl: "close \<noteq> TOK_NEWLINE" using 3 by auto
  note e = exprs_head [OF 3(2) q cl]
  have "ev (\<lambda>n k. parse_elements n (parse_calls k) close p = Some (a # as, q'))"
    by (rule ev_loop, rule ev_elim2 [OF a(3) as(3)]) (use h f e a(2) "3.prems"(2) in \<open>auto simp: feed\<close>)
  then show ?case using a as by (intro exI [of _ "a # as"] exI [of _ q']) simp
qed

definition accepts_optional :: "token_kind \<Rightarrow> item list \<Rightarrow> ast option \<Rightarrow> bool" where
  "accepts_optional k ws r \<longleftrightarrow> (case r of None \<Rightarrow> ws = [] | Some t \<Rightarrow> \<exists>b s us. ws = (k, s) # us \<and> accepts Expr b us t)"

lemma optional_ok:
  assumes "accepts_optional k ws r" "items p = ws @ tail" "stops Expr tail" "fst (hd tail) \<noteq> k"
  obtains a q where "map_option erase a = r" "items q = tail" "ev (\<lambda>n c. optional_expr k (parse_calls c) p = Some (a, q))"
proof (cases r)
  case None
  then have p: "items p = tail" "tail \<noteq> []" using assms by (auto simp: accepts_optional_def stops_def)
  have "ev (\<lambda>n c. optional_expr k (parse_calls c) p = Some (None, p))"
    by (rule ev_all) (use p assms(4) in \<open>simp add: optional_expr_def feed\<close>)
  then show thesis using that [of None p] None p by simp
next
  case (Some t)
  then obtain b s us where w: "ws = (k, s) # us" "accepts Expr b us t" using assms(1) by (auto simp: accepts_optional_def)
  have p: "items p = (k, s) # us @ tail" using assms(2) w by simp
  obtain a q where a: "erase a = t" "items q = tail" "ev (\<lambda>n c. c_expr (parse_calls c) (adv p) = Some (a, q))"
    by (rule accepts_expr_behind [OF w(2) p assms(3)])
  have "us \<noteq> []" by (rule accepts_nonempty [OF w(2)])
  then have "ev (\<lambda>n c. optional_expr k (parse_calls c) p = Some (Some a, q))"
    by (intro ev_elim1 [OF a(3)]) (use p in \<open>simp add: optional_expr_def feed\<close>)
  then show thesis using that [of "Some a" q] Some a by simp
qed

section \<open>Comprehensions, lists, dictionaries\<close>

lemma comprehension_ok:
  assumes "accepts Expr b us i" "accepts_optional TOK_IF cs cond"
    "items p = (TOK_IDENT, v) # (TOK_IN, s) # us @ cs @ (close, s') # tail" "close = TOK_RBRACKET \<or> close = TOK_RBRACE" "tail \<noteq> []"
  obtains i' cond' q where "erase i' = i" "map_option erase cond' = cond" "items q = tail"
    "ev (\<lambda>n k. parse_comprehension (parse_calls k) what close msg p = Some (Some (v, i', cond'), q))"
proof -
  have c: "stops Expr ((close, s') # tail)" using assms(4) by (auto intro: stops_closer simp: closers_def)
  have st: "stops Expr (cs @ (close, s') # tail)"
    using assms(2) c by (cases cond) (auto simp: accepts_optional_def closers_def intro!: stops_closer)
  have us: "us \<noteq> []" by (rule accepts_nonempty [OF assms(1)])
  have p1: "items (adv p) = (TOK_IN, s) # us @ cs @ (close, s') # tail" using assms(3) by (simp add: feed)
  obtain i' q1 where i: "erase i' = i" "items q1 = cs @ (close, s') # tail" "ev (\<lambda>n k. c_expr (parse_calls k) (adv (adv p)) = Some (i', q1))"
    by (rule accepts_expr_behind [OF assms(1) p1 st])
  have "fst (hd ((close, s') # tail)) \<noteq> TOK_IF" using assms(4) by auto
  then obtain cond' q2 where g: "map_option erase cond' = cond" "items q2 = (close, s') # tail"
    "ev (\<lambda>n k. optional_expr TOK_IF (parse_calls k) q1 = Some (cond', q2))"
    by (rule optional_ok [OF assms(2) i(2) c])
  have "ev (\<lambda>n k. parse_comprehension (parse_calls k) what close msg p = Some (Some (v, i', cond'), adv q2))"
    by (rule ev_elim2 [OF i(3) g(3)])
      (use assms(3-5) us p1 g(2) in \<open>auto simp: parse_comprehension_def feed layout_kind_def\<close>)
  moreover have "items (adv q2) = tail" using g(2) assms(5) by (simp add: feed)
  ultimately show thesis using that i g by blast
qed

lemma accepts_primaryI:
  assumes "fst (hd ws) \<in> set (starters Primary)" "ws \<noteq> []"
    "\<And>p tail. items p = ws @ tail \<Longrightarrow> tail \<noteq> [] \<Longrightarrow>
       \<exists>a q. erase a = t \<and> items q = tail \<and> ev (\<lambda>n k. parse_primary n (parse_calls k) p = Some (a, q))"
  shows "accepts Primary False ws t"
proof (rule accepts_plainI)
  show "\<not> looping Primary" by (simp add: looping_def)
next
  fix p tail assume "items p = ws @ tail" "stops (cover False Primary) tail"
  then show "\<exists>a q. erase a = t \<and> items q = tail \<and> ev (\<lambda>n k. level_fun Primary n (parse_calls k) p = Some (a, q))"
    using assms(3) by (simp add: stops_def)
qed (use assms in auto)

lemma accepts_token:
  assumes "k \<in> {TOK_INT, TOK_FLOAT, TOK_STRING, TOK_STRING3, TOK_TRUE, TOK_FALSE, TOK_NULL, TOK_IDENT, TOK_SELF, TOK_SUPER}"
    and e: "\<And>x. erase (node x) = node nowhere"
    and parse: "\<And>n c p. items p \<noteq> [] \<Longrightarrow> tl (items p) \<noteq> [] \<Longrightarrow> fst (hd (items p)) = k \<Longrightarrow> snd (hd (items p)) = s \<Longrightarrow>
      parse_primary n c p = Some (node (pos_current p), adv p)"
  shows "accepts Primary False [(k, s)] (node nowhere)"
proof (rule accepts_primaryI)
  fix p tail assume p: "items p = [(k, s)] @ tail" "tail \<noteq> []"
  have "ev (\<lambda>n c. parse_primary n (parse_calls c) p = Some (node (pos_current p), adv p))"
    by (rule ev_all, rule parse) (use p in simp_all)
  moreover have "items (adv p) = tail" using p by (simp add: feed)
  ultimately show "\<exists>a q. erase a = node nowhere \<and> items q = tail \<and> ev (\<lambda>n c. parse_primary n (parse_calls c) p = Some (a, q))"
    using e by blast
qed (use assms(1) in \<open>auto simp: starters_def\<close>)

lemma pos_adv: "tl (items p) \<noteq> [] \<Longrightarrow> pos_previous (adv p) = pos_current p"
  using advance_items by (simp add: pos_previous_def pos_current_def)

lemma accepts_literals:
  "accepts Primary False [(TOK_INT, s)] (AST_INT nowhere (strtoll (take 63 s)))"
  "accepts Primary False [(TOK_FLOAT, s)] (AST_FLOAT nowhere (strtod (take 63 s)))"
  "accepts Primary False [(TOK_STRING, s)] (AST_STRING nowhere (unescape (inner 1 1 s)))"
  "accepts Primary False [(TOK_STRING3, s)] (AST_STRING nowhere (unescape (inner 3 3 s)))"
  "accepts Primary False [(TOK_TRUE, s)] (AST_BOOL nowhere True)"
  "accepts Primary False [(TOK_FALSE, s)] (AST_BOOL nowhere False)"
  "accepts Primary False [(TOK_NULL, s)] (AST_NULL nowhere)"
  by (rule accepts_token [where node = "\<lambda>x. AST_INT x (strtoll (take 63 s))"]
        accepts_token [where node = "\<lambda>x. AST_FLOAT x (strtod (take 63 s))"]
        accepts_token [where node = "\<lambda>x. AST_STRING x (unescape (inner 1 1 s))"]
        accepts_token [where node = "\<lambda>x. AST_STRING x (unescape (inner 3 3 s))"]
        accepts_token [where node = "\<lambda>x. AST_BOOL x True"] accepts_token [where node = "\<lambda>x. AST_BOOL x False"]
        accepts_token [where node = AST_NULL];
      simp add: parse_primary_def number_text_def parse_string_literal_def feed layout_kind_def pos_adv Let_def)+

lemma accepts_ident: "k \<in> {TOK_IDENT, TOK_SELF, TOK_SUPER} \<Longrightarrow> accepts Primary False [(k, s)] (AST_IDENT nowhere s)"
  by (rule accepts_token [where node = "\<lambda>x. AST_IDENT x s"]) (auto simp: parse_primary_def feed layout_kind_def Let_def)

lemma accepts_paren:
  assumes "accepts Expr b ws t"
  shows "accepts Primary False ((TOK_LPAREN, s) # ws @ [(TOK_RPAREN, s')]) t"
proof (rule accepts_primaryI)
  fix p tail assume "items p = ((TOK_LPAREN, s) # ws @ [(TOK_RPAREN, s')]) @ tail" and tl: "tail \<noteq> []"
  then have p: "items p = (TOK_LPAREN, s) # ws @ (TOK_RPAREN, s') # tail" by simp
  obtain a q where a: "erase a = t" "items q = (TOK_RPAREN, s') # tail" "ev (\<lambda>n k. c_expr (parse_calls k) (adv p) = Some (a, q))"
    by (rule accepts_expr_behind [OF assms p]) (rule stops_closer, simp add: closers_def)
  have "ev (\<lambda>n k. parse_primary n (parse_calls k) p = Some (a, adv q))"
    by (rule ev_elim1 [OF a(3)]) (use p a(2) tl in \<open>simp add: parse_primary_def feed\<close>)
  moreover have "items (adv q) = tail" using a(2) tl by (simp add: feed)
  ultimately show "\<exists>a q. erase a = t \<and> items q = tail \<and> ev (\<lambda>n k. parse_primary n (parse_calls k) p = Some (a, q))"
    using a(1) by blast
qed (simp_all add: starters_def)

text \<open>Behind the first element of a list.\<close>

lemma accepts_list:
  assumes "accepts_exprs ws ts"
  shows "accepts Primary False ((TOK_LBRACKET, s) # ws @ [(TOK_RBRACKET, s')]) (AST_LIST nowhere ts)"
proof (rule accepts_primaryI)
  fix p tail assume "items p = ((TOK_LBRACKET, s) # ws @ [(TOK_RBRACKET, s')]) @ tail" and tl: "tail \<noteq> []"
  then have p: "items p = (TOK_LBRACKET, s) # ws @ (TOK_RBRACKET, s') # tail" by simp
  then have p1: "items (adv p) = ws @ (TOK_RBRACKET, s') # tail" by (simp add: feed)
  have "\<exists>as q. map erase as = ts \<and> items q = tail \<and>
      ev (\<lambda>n k. parse_list n (parse_calls k) (pos_current p) (adv p) = Some (AST_LIST (pos_current p) as, q))"
    using assms(1)
  proof cases
    case 1
    have "ev (\<lambda>n k. parse_list n (parse_calls k) (pos_current p) (adv p) = Some (AST_LIST (pos_current p) [], adv (adv p)))"
      by (rule ev_all) (use p1 1 tl in \<open>simp add: parse_list_def feed\<close>)
    then show ?thesis using p1 1 tl by (intro exI [of _ "[]"] exI [of _ "adv (adv p)"]) (simp add: feed)
  next
    case (2 b t)
    obtain a q where a: "erase a = t" "items q = (TOK_RBRACKET, s') # tail" "ev (\<lambda>n k. c_expr (parse_calls k) (adv p) = Some (a, q))"
      by (rule accepts_expr [OF 2(2) p1]) (rule stops_closer, simp add: closers_def)
    note f = starters_neq [OF accepts_first [OF 2(2)]] and ne = accepts_nonempty [OF 2(2)]
    have "ev (\<lambda>n k. parse_list n (parse_calls k) (pos_current p) (adv p) = Some (AST_LIST (pos_current p) [a], adv q))"
      by (rule ev_elim1 [OF a(3)]) (use p1 f ne a(2) tl in \<open>simp add: parse_list_def feed\<close>)
    then show ?thesis using a 2 tl by (intro exI [of _ "[a]"] exI [of _ "adv q"]) (simp add: feed)
  next
    case (3 b us t us' vs s1)
    have p2: "items (adv p) = us @ (TOK_COMMA, s1) # us' @ (TOK_RBRACKET, s') # tail" using p1 3 by simp
    obtain a q where a: "erase a = t" "items q = (TOK_COMMA, s1) # us' @ (TOK_RBRACKET, s') # tail"
      "ev (\<lambda>n k. c_expr (parse_calls k) (adv p) = Some (a, q))"
      by (rule accepts_expr [OF 3(3) p2]) (rule stops_closer, simp add: closers_def)
    note f = starters_neq [OF accepts_first [OF 3(3)]] and ne = accepts_nonempty [OF 3(3)]
    have q: "items (adv q) = us' @ (TOK_RBRACKET, s') # tail" using a(2) by (simp add: feed)
    obtain as q' where as: "map erase as = vs" "items q' = (TOK_RBRACKET, s') # tail"
      "ev (\<lambda>n k. parse_elements n (parse_calls k) TOK_RBRACKET (adv q) = Some (as, q'))"
      using elements_ok [OF 3(4) q] by blast
    have h: "items (adv q) \<noteq> []" "fst (hd (items (adv q))) \<noteq> TOK_NEWLINE" by (rule exprs_head [OF 3(4) q]; simp)+
    have "ev (\<lambda>n k. parse_list n (parse_calls k) (pos_current p) (adv p) = Some (AST_LIST (pos_current p) (a # as), adv q'))"
      by (rule ev_elim2 [OF a(3) as(3)]) (use p2 f ne h a(2) as(2) tl in \<open>simp add: parse_list_def feed\<close>)
    then show ?thesis using a as 3 tl by (intro exI [of _ "a # as"] exI [of _ "adv q'"]) (simp add: feed)
  qed
  then obtain as q where as: "map erase as = ts" "items q = tail"
      "ev (\<lambda>n k. parse_list n (parse_calls k) (pos_current p) (adv p) = Some (AST_LIST (pos_current p) as, q))" by blast
  have "ev (\<lambda>n k. parse_primary n (parse_calls k) p = Some (AST_LIST (pos_current p) as, q))"
    by (rule ev_elim1 [OF as(3)]) (use p in \<open>simp add: parse_primary_def feed\<close>)
  then show "\<exists>a q. erase a = AST_LIST nowhere ts \<and> items q = tail \<and> ev (\<lambda>n k. parse_primary n (parse_calls k) p = Some (a, q))"
    using as by (intro exI [of _ "AST_LIST (pos_current p) as"] exI [of _ q]) simp
qed (simp_all add: starters_def)

lemma accepts_list_comp:
  assumes "accepts Expr b0 ws t" "accepts Expr b us i" "accepts_optional TOK_IF cs cond"
  shows "accepts Primary False ((TOK_LBRACKET, s1) # ws @ (TOK_FOR, s2) # (TOK_IDENT, v) # (TOK_IN, s3) # us @ cs @ [(TOK_RBRACKET, s4)])
    (AST_LIST_COMP nowhere t v i cond)"
proof (rule accepts_primaryI)
  fix p tail
  assume i0: "items p = ((TOK_LBRACKET, s1) # ws @ (TOK_FOR, s2) # (TOK_IDENT, v) # (TOK_IN, s3) # us @ cs @ [(TOK_RBRACKET, s4)]) @ tail"
    and tl: "tail \<noteq> []"
  let ?r = "(TOK_IDENT, v) # (TOK_IN, s3) # us @ cs @ (TOK_RBRACKET, s4) # tail"
  have p: "items p = (TOK_LBRACKET, s1) # ws @ (TOK_FOR, s2) # ?r" using i0 by simp
  obtain a q where a: "erase a = t" "items q = (TOK_FOR, s2) # ?r" "ev (\<lambda>n k. c_expr (parse_calls k) (adv p) = Some (a, q))"
    by (rule accepts_expr_behind [OF assms(1) p]) (rule stops_closer, simp add: closers_def)
  have q: "items (adv q) = ?r" using a(2) by (simp add: feed)
  obtain i' cond' q1 where c: "erase i' = i" "map_option erase cond' = cond" "items q1 = tail"
    "ev (\<lambda>n k. parse_comprehension (parse_calls k) ''list'' TOK_RBRACKET (bracket_message '']'' ''list comprehension'') (adv q) = Some (Some (v, i', cond'), q1))"
    by (rule comprehension_ok [OF assms(2,3) q]) (use tl in simp_all)
  note f = starters_neq [OF accepts_first [OF assms(1)]] and ne = accepts_nonempty [OF assms(1)]
  have "ev (\<lambda>n k. parse_primary n (parse_calls k) p = Some (AST_LIST_COMP (pos_current p) a v i' cond', q1))"
    by (rule ev_elim2 [OF a(3) c(4)]) (use p f ne a(2) in \<open>simp add: parse_primary_def parse_list_def feed\<close>)
  then show "\<exists>a q. erase a = AST_LIST_COMP nowhere t v i cond \<and> items q = tail \<and> ev (\<lambda>n k. parse_primary n (parse_calls k) p = Some (a, q))"
    using a c by (intro exI [of _ "AST_LIST_COMP (pos_current p) a v i' cond'"] exI [of _ q1]) simp
qed (simp_all add: starters_def)

inductive accepts_entries :: "item list \<Rightarrow> ast list \<Rightarrow> ast list \<Rightarrow> bool" where
  "accepts_entries [] [] []"
| "accepts Expr b ks k \<Longrightarrow> accepts Expr b' vs v \<Longrightarrow> accepts_entries (ks @ (TOK_COLON, s) # vs) [k] [v]"
| "accepts Expr b ks k \<Longrightarrow> accepts Expr b' vs v \<Longrightarrow> accepts_entries us kts vts \<Longrightarrow>
    accepts_entries (ks @ (TOK_COLON, s) # vs @ (TOK_COMMA, s') # us) (k # kts) (v # vts)"

lemma entries_head:
  assumes "accepts_entries ws kts vts" "items p = ws @ (TOK_RBRACE, s) # tail"
  shows "items p \<noteq> []" "fst (hd (items p)) \<noteq> TOK_NEWLINE"
proof -
  show "items p \<noteq> []" using assms by simp
  have "fst (hd ws) \<noteq> TOK_NEWLINE" if "ws \<noteq> []"
    using assms(1) that by cases (auto dest!: accepts_head)
  then show "fst (hd (items p)) \<noteq> TOK_NEWLINE" using assms(2) by (cases ws) auto
qed

text \<open>A key, the colon and the value.\<close>

lemma entry_ok:
  assumes "accepts Expr b ks k" "accepts Expr b' vs v" "items p = ks @ (TOK_COLON, s) # vs @ tail" "stops Expr tail"
  obtains a q e q' where "erase a = k" "items q = (TOK_COLON, s) # vs @ tail" "ev (\<lambda>n d. c_expr (parse_calls d) p = Some (a, q))"
    "erase e = v" "items q' = tail" "ev (\<lambda>n d. c_expr (parse_calls d) (adv q) = Some (e, q'))" "vs \<noteq> []"
    "fst (hd (items p)) \<noteq> TOK_NEWLINE" "fst (hd (items p)) \<noteq> TOK_RBRACE" "fst (hd (items p)) \<noteq> TOK_EOF"
proof -
  obtain a q where a: "erase a = k" "items q = (TOK_COLON, s) # vs @ tail" "ev (\<lambda>n d. c_expr (parse_calls d) p = Some (a, q))"
    by (rule accepts_expr [OF assms(1,3)]) (rule stops_closer, simp add: closers_def)
  obtain e q' where e: "erase e = v" "items q' = tail" "ev (\<lambda>n d. c_expr (parse_calls d) (adv q) = Some (e, q'))"
    by (rule accepts_expr_behind [OF assms(2) a(2) assms(4)])
  have "fst (hd (items p)) = fst (hd ks)" using assms(3) accepts_nonempty [OF assms(1)] by simp
  then show thesis using that a e accepts_nonempty [OF assms(2)] starters_neq [OF accepts_first [OF assms(1)]] by metis
qed

lemma entries_ok:
  "accepts_entries ws kts vts \<Longrightarrow> items p = ws @ (TOK_RBRACE, s) # tail \<Longrightarrow>
    \<exists>es q. map (erase \<circ> fst) es = kts \<and> map (erase \<circ> snd) es = vts \<and> items q = (TOK_RBRACE, s) # tail \<and>
      ev (\<lambda>n k. parse_entries n (parse_calls k) p = Some (es, q))"
proof (induction arbitrary: p rule: accepts_entries.induct)
  case 1
  have "ev (\<lambda>n k. parse_entries n (parse_calls k) p = Some ([], p))"
    by (rule ev_loop, rule ev_all) (use 1 in \<open>simp add: feed\<close>)
  then show ?case using 1 by auto
next
  case (2 b ks k b' vs v s')
  have p: "items p = ks @ (TOK_COLON, s') # vs @ (TOK_RBRACE, s) # tail" using 2 by simp
  have c: "stops Expr ((TOK_RBRACE, s) # tail)" by (rule stops_closer) (simp add: closers_def)
  obtain a q e q' where e: "erase a = k" "items q = (TOK_COLON, s') # vs @ (TOK_RBRACE, s) # tail" "ev (\<lambda>n d. c_expr (parse_calls d) p = Some (a, q))"
    "erase e = v" "items q' = (TOK_RBRACE, s) # tail" "ev (\<lambda>n d. c_expr (parse_calls d) (adv q) = Some (e, q'))" "vs \<noteq> []"
    "fst (hd (items p)) \<noteq> TOK_NEWLINE" "fst (hd (items p)) \<noteq> TOK_RBRACE" "fst (hd (items p)) \<noteq> TOK_EOF"
    by (rule entry_ok [OF 2(1,2) p c])
  have "ev (\<lambda>n k. parse_entries n (parse_calls k) p = Some ([(a, e)], q'))"
    by (rule ev_loop, rule ev_elim2 [OF e(3,6)]) (use p e in \<open>simp add: feed\<close>)
  then show ?case using e by (intro exI [of _ "[(a, e)]"] exI [of _ q']) simp
next
  case (3 b ks k b' vs v us kts vts s1 s2)
  let ?r = "(TOK_COMMA, s2) # us @ (TOK_RBRACE, s) # tail"
  have p: "items p = ks @ (TOK_COLON, s1) # vs @ ?r" using 3 by simp
  have c: "stops Expr ?r" by (rule stops_closer) (simp add: closers_def)
  obtain a q e q' where e: "erase a = k" "items q = (TOK_COLON, s1) # vs @ ?r" "ev (\<lambda>n d. c_expr (parse_calls d) p = Some (a, q))"
    "erase e = v" "items q' = ?r" "ev (\<lambda>n d. c_expr (parse_calls d) (adv q) = Some (e, q'))" "vs \<noteq> []"
    "fst (hd (items p)) \<noteq> TOK_NEWLINE" "fst (hd (items p)) \<noteq> TOK_RBRACE" "fst (hd (items p)) \<noteq> TOK_EOF"
    by (rule entry_ok [OF 3(1,2) p c])
  have q: "items (adv q') = us @ (TOK_RBRACE, s) # tail" using e(5) by (simp add: feed)
  obtain es q2 where es: "map (erase \<circ> fst) es = kts" "map (erase \<circ> snd) es = vts" "items q2 = (TOK_RBRACE, s) # tail"
    "ev (\<lambda>n k. parse_entries n (parse_calls k) (adv q') = Some (es, q2))"
    using "3.IH" [OF q] by blast
  note h = entries_head [OF 3(3) q]
  have "ev (\<lambda>n k. parse_entries n (parse_calls k) p = Some ((a, e) # es, q2))"
    by (rule ev_loop, rule ev_elim3 [OF e(3,6) es(4)]) (use p e h in \<open>simp add: feed\<close>)
  then show ?case using e es by (intro exI [of _ "(a, e) # es"] exI [of _ q2]) (simp add: o_def)
qed

lemma accepts_dict:
  assumes "accepts_entries ws kts vts"
  shows "accepts Primary False ((TOK_LBRACE, s) # ws @ [(TOK_RBRACE, s')]) (AST_DICT nowhere kts vts)"
proof (rule accepts_primaryI)
  fix p tail assume "items p = ((TOK_LBRACE, s) # ws @ [(TOK_RBRACE, s')]) @ tail" and tl: "tail \<noteq> []"
  then have p: "items p = (TOK_LBRACE, s) # ws @ (TOK_RBRACE, s') # tail" by simp
  then have p1: "items (adv p) = ws @ (TOK_RBRACE, s') # tail" by (simp add: feed)
  have c: "stops Expr ((TOK_RBRACE, s') # tail)" by (rule stops_closer) (simp add: closers_def)
  have "\<exists>es q. map (erase \<circ> fst) es = kts \<and> map (erase \<circ> snd) es = vts \<and> items q = tail \<and>
      ev (\<lambda>n k. parse_dict n (parse_calls k) (pos_current p) (adv p) = Some (AST_DICT (pos_current p) (map fst es) (map snd es), q))"
    using assms(1)
  proof cases
    case 1
    have "ev (\<lambda>n k. parse_dict n (parse_calls k) (pos_current p) (adv p) = Some (AST_DICT (pos_current p) [] [], adv (adv p)))"
      by (rule ev_all) (use p1 1 tl in \<open>simp add: parse_dict_def feed\<close>)
    then show ?thesis using p1 1 tl by (intro exI [of _ "[]"] exI [of _ "adv (adv p)"]) (simp add: feed)
  next
    case (2 b ks k b' vs v s1)
    have p2: "items (adv p) = ks @ (TOK_COLON, s1) # vs @ (TOK_RBRACE, s') # tail" using p1 2 by simp
    obtain a q e q' where e: "erase a = k" "items q = (TOK_COLON, s1) # vs @ (TOK_RBRACE, s') # tail"
      "ev (\<lambda>n d. c_expr (parse_calls d) (adv p) = Some (a, q))" "erase e = v" "items q' = (TOK_RBRACE, s') # tail"
      "ev (\<lambda>n d. c_expr (parse_calls d) (adv q) = Some (e, q'))" "vs \<noteq> []"
      "fst (hd (items (adv p))) \<noteq> TOK_NEWLINE" "fst (hd (items (adv p))) \<noteq> TOK_RBRACE" "fst (hd (items (adv p))) \<noteq> TOK_EOF"
      by (rule entry_ok [OF 2(4,5) p2 c])
    have "ev (\<lambda>n k. parse_dict n (parse_calls k) (pos_current p) (adv p) = Some (AST_DICT (pos_current p) [a] [e], adv q'))"
      by (rule ev_elim2 [OF e(3,6)]) (use p2 e tl in \<open>simp add: parse_dict_def feed\<close>)
    then show ?thesis using e 2 tl by (intro exI [of _ "[(a, e)]"] exI [of _ "adv q'"]) (simp add: feed)
  next
    case (3 b ks k b' vs v us kts' vts' s1 s2)
    let ?r = "(TOK_COMMA, s2) # us @ (TOK_RBRACE, s') # tail"
    have p2: "items (adv p) = ks @ (TOK_COLON, s1) # vs @ ?r" using p1 3 by simp
    have c2: "stops Expr ?r" by (rule stops_closer) (simp add: closers_def)
    obtain a q e q' where e: "erase a = k" "items q = (TOK_COLON, s1) # vs @ ?r"
      "ev (\<lambda>n d. c_expr (parse_calls d) (adv p) = Some (a, q))" "erase e = v" "items q' = ?r"
      "ev (\<lambda>n d. c_expr (parse_calls d) (adv q) = Some (e, q'))" "vs \<noteq> []"
      "fst (hd (items (adv p))) \<noteq> TOK_NEWLINE" "fst (hd (items (adv p))) \<noteq> TOK_RBRACE" "fst (hd (items (adv p))) \<noteq> TOK_EOF"
      by (rule entry_ok [OF 3(4,5) p2 c2])
    have q: "items (adv q') = us @ (TOK_RBRACE, s') # tail" using e(5) by (simp add: feed)
    obtain es q2 where es: "map (erase \<circ> fst) es = kts'" "map (erase \<circ> snd) es = vts'" "items q2 = (TOK_RBRACE, s') # tail"
      "ev (\<lambda>n k. parse_entries n (parse_calls k) (adv q') = Some (es, q2))"
      using entries_ok [OF 3(6) q] by blast
    note h = entries_head [OF 3(6) q]
    have "ev (\<lambda>n k. parse_dict n (parse_calls k) (pos_current p) (adv p) =
        Some (AST_DICT (pos_current p) (a # map fst es) (e # map snd es), adv q2))"
      by (rule ev_elim3 [OF e(3,6) es(4)]) (use p2 e h es(3) tl in \<open>simp add: parse_dict_def feed\<close>)
    then show ?thesis using e es 3 tl by (intro exI [of _ "(a, e) # es"] exI [of _ "adv q2"]) (simp add: feed o_def)
  qed
  then obtain es q where es: "map (erase \<circ> fst) es = kts" "map (erase \<circ> snd) es = vts" "items q = tail"
      "ev (\<lambda>n k. parse_dict n (parse_calls k) (pos_current p) (adv p) = Some (AST_DICT (pos_current p) (map fst es) (map snd es), q))"
    by blast
  have "ev (\<lambda>n k. parse_primary n (parse_calls k) p = Some (AST_DICT (pos_current p) (map fst es) (map snd es), q))"
    by (rule ev_elim1 [OF es(4)]) (use p in \<open>simp add: parse_primary_def feed\<close>)
  then show "\<exists>a q. erase a = AST_DICT nowhere kts vts \<and> items q = tail \<and> ev (\<lambda>n k. parse_primary n (parse_calls k) p = Some (a, q))"
    using es by (intro exI [of _ "AST_DICT (pos_current p) (map fst es) (map snd es)"] exI [of _ q]) (simp add: o_def)
qed (simp_all add: starters_def)

lemma accepts_dict_comp:
  assumes "accepts Expr bk ks kt" "accepts Expr bv vs t" "accepts Expr b us i" "accepts_optional TOK_IF cs cond"
  shows "accepts Primary False
    ((TOK_LBRACE, s1) # ks @ (TOK_COLON, s5) # vs @ (TOK_FOR, s2) # (TOK_IDENT, v) # (TOK_IN, s3) # us @ cs @ [(TOK_RBRACE, s4)])
    (AST_DICT_COMP nowhere kt t v i cond)"
proof (rule accepts_primaryI)
  fix p tail
  assume i0: "items p = ((TOK_LBRACE, s1) # ks @ (TOK_COLON, s5) # vs @ (TOK_FOR, s2) # (TOK_IDENT, v) # (TOK_IN, s3) # us @ cs @ [(TOK_RBRACE, s4)]) @ tail"
    and tl: "tail \<noteq> []"
  let ?r = "(TOK_IDENT, v) # (TOK_IN, s3) # us @ cs @ (TOK_RBRACE, s4) # tail"
  have p: "items (adv p) = ks @ (TOK_COLON, s5) # vs @ (TOK_FOR, s2) # ?r" using i0 by (simp add: feed)
  have c: "stops Expr ((TOK_FOR, s2) # ?r)" by (rule stops_closer) (simp add: closers_def)
  obtain a q e q' where e: "erase a = kt" "items q = (TOK_COLON, s5) # vs @ (TOK_FOR, s2) # ?r"
    "ev (\<lambda>n d. c_expr (parse_calls d) (adv p) = Some (a, q))" "erase e = t" "items q' = (TOK_FOR, s2) # ?r"
    "ev (\<lambda>n d. c_expr (parse_calls d) (adv q) = Some (e, q'))" "vs \<noteq> []"
    "fst (hd (items (adv p))) \<noteq> TOK_NEWLINE" "fst (hd (items (adv p))) \<noteq> TOK_RBRACE" "fst (hd (items (adv p))) \<noteq> TOK_EOF"
    by (rule entry_ok [OF assms(1,2) p c])
  have q: "items (adv q') = ?r" using e(5) by (simp add: feed)
  obtain i' cond' q1 where g: "erase i' = i" "map_option erase cond' = cond" "items q1 = tail"
    "ev (\<lambda>n k. parse_comprehension (parse_calls k) ''dict'' TOK_RBRACE (bracket_message ''}'' ''dict comprehension'') (adv q') = Some (Some (v, i', cond'), q1))"
    by (rule comprehension_ok [OF assms(3,4) q]) (use tl in simp_all)
  have "ev (\<lambda>n k. parse_primary n (parse_calls k) p = Some (AST_DICT_COMP (pos_current p) a e v i' cond', q1))"
    by (rule ev_elim3 [OF e(3,6) g(4)]) (use i0 p e in \<open>simp add: parse_primary_def parse_dict_def feed\<close>)
  then show "\<exists>a q. erase a = AST_DICT_COMP nowhere kt t v i cond \<and> items q = tail \<and> ev (\<lambda>n k. parse_primary n (parse_calls k) p = Some (a, q))"
    using e g by (intro exI [of _ "AST_DICT_COMP (pos_current p) a e v i' cond'"] exI [of _ q1]) simp
qed (simp_all add: starters_def)

end
