(* ===== verification/ParserPostfix.thy ===== *)
theory ParserPostfix
  imports ParserPrimaries
begin

text \<open>
  The parser accepts annotations, lambdas and the postfix expressions of the grammar.
\<close>

section \<open>Annotations\<close>

lemma type_path_ok:
  "type_path ws \<Longrightarrow> items p = ws @ tail \<Longrightarrow> tail \<noteq> [] \<Longrightarrow> fst (hd tail) \<noteq> TOK_DOT \<Longrightarrow>
    \<exists>q. items q = tail \<and> ev (\<lambda>n k. skip_type_path n p = Some q)"
proof (induction arbitrary: p rule: type_path.induct)
  case path_end
  have "ev (\<lambda>n k. skip_type_path n p = Some p)" by (rule ev_loop, rule ev_all) (use path_end in \<open>simp add: feed\<close>)
  then show ?case using path_end by auto
next
  case (path_dot ws s s')
  have q: "items (adv (adv p)) = ws @ tail" using path_dot.prems by (simp add: feed)
  obtain q where q: "items q = tail" "ev (\<lambda>n k. skip_type_path n (adv (adv p)) = Some q)"
    using path_dot.IH [OF q path_dot.prems(2,3)] by blast
  have "ev (\<lambda>n k. skip_type_path n p = Some q)"
    by (rule ev_loop, rule ev_elim1 [OF q(2)]) (use path_dot.prems in \<open>simp add: feed\<close>)
  then show ?case using q by blast
qed

lemma type_args_ok:
  "type_args d ws \<Longrightarrow> items p = ws @ tail \<Longrightarrow> tail \<noteq> [] \<Longrightarrow> \<exists>q. items q = tail \<and> ev (\<lambda>n k. skip_generics n d p = Some q)"
proof (induction d ws arbitrary: p rule: type_args.induct)
  case (1 d)
  have "ev (\<lambda>n k. skip_generics n d p = Some p)" by (rule ev_loop, rule ev_all) (use 1 in simp)
  then show ?case using 1 by auto
next
  case (2 d k s ws)
  let ?d = "if k = TOK_LT then d + 1 else if k = TOK_GT then d - 1 else d"
  have h: "0 < d" "k \<noteq> TOK_NEWLINE" "k \<noteq> TOK_EOF" "type_args ?d ws" using "2.prems"(1) by simp_all
  have p: "items p \<noteq> []" "tl (items p) \<noteq> []" "fst (hd (items p)) = k" and a: "items (adv p) = ws @ tail"
    using "2.prems" by (simp_all add: feed)
  obtain q where q: "items q = tail" "ev (\<lambda>n c. skip_generics n ?d (adv p) = Some q)"
    using "2.IH" [OF h(4) a "2.prems"(3)] by blast
  have "ev (\<lambda>n c. skip_generics n d p = Some q)"
    by (rule ev_loop, rule ev_elim1 [OF q(2)]) (use p h(1-3) in \<open>auto simp: feed split: if_splits\<close>)
  then show ?case using q by blast
qed

definition ends_annotation :: "item list \<Rightarrow> bool" where
  "ends_annotation ws \<longleftrightarrow> ws \<noteq> [] \<and> fst (hd ws) \<notin> {TOK_DOT, TOK_LT, TOK_QUESTION}"

lemma annotation_ok:
  assumes "annotation ws" "items p = ws @ tail" "ends_annotation tail"
  obtains q where "items q = tail" "ev (\<lambda>n k. skip_type_annotation n p = Some q)"
  using assms(1)
proof cases
  case (1 k ps gs qs s)
  have tl: "tail \<noteq> []" "fst (hd tail) \<noteq> TOK_DOT" "fst (hd tail) \<noteq> TOK_LT" "fst (hd tail) \<noteq> TOK_QUESTION"
    using assms(3) by (auto simp: ends_annotation_def)
  have p: "items (adv p) = ps @ gs @ qs @ tail" using assms(2) 1 tl(1) by (simp add: feed)
  have "fst (hd (gs @ qs @ tail)) \<noteq> TOK_DOT" using 1(4,5) tl by auto
  then obtain q1 where q1: "items q1 = gs @ qs @ tail" "ev (\<lambda>n k. skip_type_path n (adv p) = Some q1)"
    using type_path_ok [OF 1(3) p] tl(1) by auto
  obtain q2 where q2: "items q2 = qs @ tail"
    "ev (\<lambda>n k. (if p_check q1 TOK_LT then do { p \<leftarrow> p_advance q1; skip_generics n 1 p } else Some q1) = Some q2)"
  proof (cases "gs = []")
    case True
    have "fst (hd (qs @ tail)) \<noteq> TOK_LT" "qs @ tail \<noteq> []" using 1(5) tl by auto
    then show thesis using that [of q1] q1 True by (simp add: feed ev_all)
  next
    case False
    then obtain s' us where g: "gs = (TOK_LT, s') # us" "type_args 1 us" using 1(4) by auto
    have a: "items (adv q1) = us @ qs @ tail" using q1(1) g(1) tl(1) by (simp add: feed)
    obtain q2 where q2: "items q2 = qs @ tail" "ev (\<lambda>n k. skip_generics n 1 (adv q1) = Some q2)"
      using type_args_ok [OF g(2) a] tl(1) by auto
    have "ev (\<lambda>n k. (if p_check q1 TOK_LT then do { p \<leftarrow> p_advance q1; skip_generics n 1 p } else Some q1) = Some q2)"
      by (rule ev_elim1 [OF q2(2)]) (use q1(1) g(1) tl(1) in \<open>simp add: feed\<close>)
    then show thesis using that q2(1) by blast
  qed
  define q3 where "q3 = (if qs = [] then q2 else adv q2)"
  have q3: "items q3 = tail" using q2(1) 1(5) tl(1) by (auto simp: q3_def feed)
  have m: "p_match q2 TOK_QUESTION = Some (qs \<noteq> [], q3)" using q2(1) 1(5) tl by (auto simp: q3_def feed)
  have "ev (\<lambda>n k. skip_type_annotation n p = Some q3)"
    by (rule ev_elim2 [OF q1(2) q2(2)]) (use assms(2) 1(1,2) tl(1) m in \<open>auto simp: skip_type_annotation_def feed\<close>)
  then show thesis using that q3 by blast
qed

lemma annotation_head: "annotation ws \<Longrightarrow> ws \<noteq> [] \<and> \<not> layout_kind (fst (hd ws))"
  by (induction rule: annotation.induct) (auto simp: layout_kind_def token_is_keyword_def less_eq_token_kind_def)

lemma typed_ok:
  assumes "typed ws h" "items p = ws @ tail" "ends_annotation tail" "fst (hd tail) \<noteq> TOK_COLON"
  obtains q where "items q = tail" "ev (\<lambda>n k. skip_typed n p = Some (h, q))"
  using assms(1)
proof cases
  case typed_none
  have "ev (\<lambda>n k. skip_typed n p = Some (h, p))"
    by (rule ev_all) (use assms(2-4) typed_none in \<open>simp add: skip_typed_def ends_annotation_def feed\<close>)
  then show thesis using that assms(2) typed_none by simp
next
  case (typed_some us s)
  note head = annotation_head [OF typed_some(3)]
  have p: "items (adv p) = us @ tail" using assms(2) typed_some head by (simp add: feed)
  obtain q where q: "items q = tail" "ev (\<lambda>n k. skip_type_annotation n (adv p) = Some q)"
    by (rule annotation_ok [OF typed_some(3) p assms(3)])
  have "ev (\<lambda>n k. skip_typed n p = Some (h, q))"
    by (rule ev_elim1 [OF q(2)]) (use assms(2) typed_some head p in \<open>simp add: skip_typed_def feed\<close>)
  then show thesis using that q(1) by blast
qed

section \<open>Lambdas\<close>

lemma lambda_names_ok:
  "lambda_names ws ps \<Longrightarrow> items p = ws @ (TOK_PIPE, s) # tail \<Longrightarrow>
    \<exists>q. items q = (TOK_PIPE, s) # tail \<and> ev (\<lambda>n k. lambda_params n p = Some (ps, q))"
proof (induction arbitrary: p rule: lambda_names.induct)
  case lnames_nil
  have "ev (\<lambda>n k. lambda_params n p = Some ([], p))" by (rule ev_loop, rule ev_all) (use lnames_nil in \<open>simp add: feed\<close>)
  then show ?case using lnames_nil by auto
next
  case (lnames_one ts h v)
  have p: "items (adv p) = ts @ (TOK_PIPE, s) # tail" using lnames_one by (simp add: feed)
  obtain q where q: "items q = (TOK_PIPE, s) # tail" "ev (\<lambda>n k. skip_typed n (adv p) = Some (h, q))"
    by (rule typed_ok [OF lnames_one(1) p]) (simp_all add: ends_annotation_def)
  have "ev (\<lambda>n k. lambda_params n p = Some ([(v, None, None)], q))"
    by (rule ev_loop, rule ev_elim1 [OF q(2)])
      (use lnames_one q(1) in \<open>simp add: feed layout_kind_def\<close>)
  then show ?case using q(1) by blast
next
  case (lnames_more ts h ws ps v s')
  have p: "items (adv p) = ts @ (TOK_COMMA, s') # ws @ (TOK_PIPE, s) # tail" using lnames_more.prems by (simp add: feed)
  obtain q where q: "items q = (TOK_COMMA, s') # ws @ (TOK_PIPE, s) # tail" "ev (\<lambda>n k. skip_typed n (adv p) = Some (h, q))"
    by (rule typed_ok [OF lnames_more(1) p]) (simp_all add: ends_annotation_def)
  have q1: "items (adv q) = ws @ (TOK_PIPE, s) # tail" using q(1) by (simp add: feed)
  obtain q2 where q2: "items q2 = (TOK_PIPE, s) # tail" "ev (\<lambda>n k. lambda_params n (adv q) = Some (ps, q2))"
    using lnames_more.IH [OF q1] by blast
  have "ev (\<lambda>n k. lambda_params n p = Some ((v, None, None) # ps, q2))"
    by (rule ev_loop, rule ev_elim2 [OF q(2) q2(2)])
      (use lnames_more.prems q(1) in \<open>simp add: feed layout_kind_def\<close>)
  then show ?case using q2(1) by blast
qed

lemma params_erase: "lambda_names ws ps \<Longrightarrow> map (map_prod id (map_prod id (map_option erase))) ps = ps"
  by (induction rule: lambda_names.induct) simp_all

definition accepts_block :: "item list \<Rightarrow> ast \<Rightarrow> bool" where
  "accepts_block ws t \<longleftrightarrow> ws \<noteq> [] \<and> (\<forall>p tail. items p = ws @ tail \<longrightarrow> tail \<noteq> [] \<longrightarrow>
     (\<exists>a q. erase a = t \<and> items q = tail \<and> ev (\<lambda>n k. parse_block n (parse_calls k) p = Some (a, q))))"

lemma block_behind:
  assumes "accepts_block ws t" "items p = x # ws @ tail" "tail \<noteq> []"
  obtains a q where "erase a = t" "items q = tail" "ev (\<lambda>n k. c_block (parse_calls k) (adv p) = Some (a, q))"
proof -
  have "items (adv p) = ws @ tail" using assms by (simp add: feed accepts_block_def)
  then obtain a q where "erase a = t" "items q = tail" "ev (\<lambda>n k. parse_block n (parse_calls k) (adv p) = Some (a, q))"
    using assms(1,3) unfolding accepts_block_def by blast
  then show thesis using that ev_c_block by blast
qed

lemma accepts_lambda_block:
  assumes "lambda_names ps qs" "accepts_block us t"
  shows "accepts Primary False ((TOK_PIPE, s1) # ps @ (TOK_PIPE, s2) # (TOK_FAT_ARROW, s3) # (TOK_COLON, s4) # us)
    (AST_LAMBDA nowhere qs t False)"
proof (rule accepts_primaryI)
  fix p tail assume i0: "items p = ((TOK_PIPE, s1) # ps @ (TOK_PIPE, s2) # (TOK_FAT_ARROW, s3) # (TOK_COLON, s4) # us) @ tail" and tl: "tail \<noteq> []"
  have p: "items (adv p) = ps @ (TOK_PIPE, s2) # (TOK_FAT_ARROW, s3) # (TOK_COLON, s4) # us @ tail" using i0 by (simp add: feed)
  obtain q where q: "items q = (TOK_PIPE, s2) # (TOK_FAT_ARROW, s3) # (TOK_COLON, s4) # us @ tail"
    "ev (\<lambda>n k. lambda_params n (adv p) = Some (qs, q))"
    using lambda_names_ok [OF assms(1) p] by blast
  have q1: "items (adv (adv q)) = (TOK_COLON, s4) # us @ tail" using q(1) by (simp add: feed)
  obtain a q2 where a: "erase a = t" "items q2 = tail" "ev (\<lambda>n k. c_block (parse_calls k) (adv (adv (adv q))) = Some (a, q2))"
    by (rule block_behind [OF assms(2) q1 tl])
  have us: "us \<noteq> []" using assms(2) by (simp add: accepts_block_def)
  have "ev (\<lambda>n k. parse_primary n (parse_calls k) p = Some (AST_LAMBDA (pos_previous (adv p)) qs a False, q2))"
    by (rule ev_elim2 [OF q(2) a(3)]) (use i0 q(1) us in \<open>simp add: parse_primary_def parse_lambda_def feed\<close>)
  then show "\<exists>a q. erase a = AST_LAMBDA nowhere qs t False \<and> items q = tail \<and> ev (\<lambda>n k. parse_primary n (parse_calls k) p = Some (a, q))"
    using a params_erase [OF assms(1)] by (intro exI [of _ "AST_LAMBDA (pos_previous (adv p)) qs a False"] exI [of _ q2]) simp
qed (simp_all add: starters_def)

lemma accepts_lambda:
  assumes "lambda_names ps qs" "accepts Expr b us t"
  shows "accepts Primary True ((TOK_PIPE, s1) # ps @ (TOK_PIPE, s2) # (TOK_FAT_ARROW, s3) # us) (AST_LAMBDA nowhere qs t True)"
proof (rule accepts_plainI)
  fix p tail assume i0: "items p = ((TOK_PIPE, s1) # ps @ (TOK_PIPE, s2) # (TOK_FAT_ARROW, s3) # us) @ tail" and tl: "stops (cover True Primary) tail"
  have p: "items (adv p) = ps @ (TOK_PIPE, s2) # (TOK_FAT_ARROW, s3) # us @ tail" using i0 by (simp add: feed)
  obtain q where q: "items q = (TOK_PIPE, s2) # (TOK_FAT_ARROW, s3) # us @ tail"
    "ev (\<lambda>n k. lambda_params n (adv p) = Some (qs, q))"
    using lambda_names_ok [OF assms(1) p] by blast
  have q1: "items (adv q) = (TOK_FAT_ARROW, s3) # us @ tail" using q(1) by (simp add: feed)
  obtain a q2 where a: "erase a = t" "items q2 = tail" "ev (\<lambda>n k. c_expr (parse_calls k) (adv (adv q)) = Some (a, q2))"
    by (rule accepts_expr_behind [OF assms(2) q1]) (use tl in \<open>simp add: cover_def\<close>)
  note h = accepts_nonempty [OF assms(2)] starters_neq(8) [OF accepts_first [OF assms(2)]]
  have "ev (\<lambda>n k. parse_primary n (parse_calls k) p = Some (AST_LAMBDA (pos_previous (adv p)) qs a True, q2))"
    by (rule ev_elim2 [OF q(2) a(3)]) (use i0 q(1) h in \<open>simp add: parse_primary_def parse_lambda_def feed\<close>)
  then show "\<exists>a q. erase a = AST_LAMBDA nowhere qs t True \<and> items q = tail \<and> ev (\<lambda>n k. level_fun Primary n (parse_calls k) p = Some (a, q))"
    using a params_erase [OF assms(1)] by (intro exI [of _ "AST_LAMBDA (pos_previous (adv p)) qs a True"] exI [of _ q2]) simp
qed (simp_all add: starters_def looping_def)

section \<open>Calls, subscripts, attributes\<close>

lemma accepts_postfix:
  assumes "accepts Postfix False us a" "xs \<noteq> []"
    and step: "\<And>a' q tail. erase a' = a \<Longrightarrow> items q = xs @ tail \<Longrightarrow> tail \<noteq> [] \<Longrightarrow>
      \<exists>e q'. erase e = t \<and> items q' = tail \<and>
        ev (\<lambda>n k. postfix_loop (Suc n) (parse_calls k) a' q = postfix_loop n (parse_calls k) e q')"
  shows "accepts Postfix False (us @ xs) t"
proof (rule acceptsI)
  fix p tail assume i: "items p = (us @ xs) @ tail" and "stops (entry False Postfix) tail"
  then have p: "items p = us @ xs @ tail" and tl: "tail \<noteq> []" by (simp_all add: stops_def)
  have "stops (entry False Postfix) (xs @ tail)" using assms(2) by (simp add: entry_def looping_def stops_def conts_Primary)
  then obtain a' q d where a: "erase a' = a" "items q = xs @ tail"
    "ev (\<lambda>n k. level_fun Postfix (d + n) (parse_calls k) p = loop_fun Postfix n (d + n) (parse_calls k) a' q)"
    by (rule acceptsE [OF assms(1) p])
  obtain e q' where e: "erase e = t" "items q' = tail" "ev (\<lambda>n k. postfix_loop (Suc n) (parse_calls k) a' q = postfix_loop n (parse_calls k) e q')"
    using step [OF a(1,2) tl] by blast
  obtain m1 where m1: "\<forall>n>m1. \<forall>k>m1. level_fun Postfix (d + n) (parse_calls k) p = loop_fun Postfix n (d + n) (parse_calls k) a' q"
    using a(3) by (auto simp: ev_def)
  obtain m2 where m2: "\<forall>n>m2. \<forall>k>m2. postfix_loop (Suc n) (parse_calls k) a' q = postfix_loop n (parse_calls k) e q'"
    using e(3) by (auto simp: ev_def)
  have "level_fun Postfix (Suc d + n) (parse_calls k) p = loop_fun Postfix n (Suc d + n) (parse_calls k) e q'"
    if n: "n > m1 + m2" "k > m1 + m2" for n k
  proof -
    have "level_fun Postfix (d + Suc n) (parse_calls k) p = loop_fun Postfix (Suc n) (d + Suc n) (parse_calls k) a' q"
      using n by (intro m1 [rule_format]) simp_all
    also have "\<dots> = postfix_loop (Suc n) (parse_calls k) a' q" by (simp add: loop_fun_def)
    also have "\<dots> = postfix_loop n (parse_calls k) e q'" using n by (intro m2 [rule_format]) simp_all
    finally show ?thesis by (simp add: loop_fun_def)
  qed
  then have "ev (\<lambda>n k. level_fun Postfix (Suc d + n) (parse_calls k) p = loop_fun Postfix n (Suc d + n) (parse_calls k) e q')"
    by (auto simp: ev_def)
  then show "\<exists>a q d. erase a = t \<and> items q = tail \<and>
      ev (\<lambda>n k. level_fun Postfix (d + n) (parse_calls k) p = loop_fun Postfix n (d + n) (parse_calls k) a q)"
    using e(1,2) by blast
qed (use assms(1) in \<open>auto simp: accepts_def\<close>)

lemma accepts_call:
  assumes "accepts Postfix False us f" "accepts_exprs ws ts"
  shows "accepts Postfix False (us @ (TOK_LPAREN, s) # ws @ [(TOK_RPAREN, s')]) (AST_CALL nowhere f ts)"
proof (rule accepts_postfix [OF assms(1)])
  fix a' q tail assume a: "erase a' = f" and i: "items q = ((TOK_LPAREN, s) # ws @ [(TOK_RPAREN, s')]) @ tail" and tl: "tail \<noteq> []"
  have q: "items (adv q) = ws @ (TOK_RPAREN, s') # tail" using i by (simp add: feed)
  obtain as q1 where as: "map erase as = ts" "items q1 = (TOK_RPAREN, s') # tail"
    "ev (\<lambda>n k. parse_elements n (parse_calls k) TOK_RPAREN (adv q) = Some (as, q1))"
    using elements_ok [OF assms(2) q] by blast
  have h: "items (adv q) \<noteq> []" "fst (hd (items (adv q))) \<noteq> TOK_NEWLINE" by (rule exprs_head [OF assms(2) q]; simp)+
  have "ev (\<lambda>n k. postfix_loop (Suc n) (parse_calls k) a' q = postfix_loop n (parse_calls k) (AST_CALL (pos_current q) a' as) (adv q1))"
    by (rule ev_elim1 [OF as(3)]) (use i h as(2) tl in \<open>simp add: feed\<close>)
  moreover have "items (adv q1) = tail" using as(2) tl by (simp add: feed)
  ultimately show "\<exists>e q'. erase e = AST_CALL nowhere f ts \<and> items q' = tail \<and>
      ev (\<lambda>n k. postfix_loop (Suc n) (parse_calls k) a' q = postfix_loop n (parse_calls k) e q')"
    using a as(1) by (intro exI [of _ "AST_CALL (pos_current q) a' as"] exI [of _ "adv q1"]) simp
qed simp

lemma accepts_attr:
  assumes "accepts Postfix False us a" "k = TOK_IDENT \<or> token_is_keyword k"
  shows "accepts Postfix False (us @ [(TOK_DOT, s), (k, v)]) (AST_ATTR nowhere a v)"
proof (rule accepts_postfix [OF assms(1)])
  fix a' q tail assume a: "erase a' = a" and i: "items q = [(TOK_DOT, s), (k, v)] @ tail" and tl: "tail \<noteq> []"
  have l: "\<not> layout_kind k" using assms(2) by (auto simp: layout_kind_def token_is_keyword_def less_eq_token_kind_def)
  have "ev (\<lambda>n c. postfix_loop (Suc n) (parse_calls c) a' q = postfix_loop n (parse_calls c) (AST_ATTR (pos_current q) a' v) (adv (adv q)))"
    by (rule ev_all) (use i tl l assms(2) in \<open>auto simp: feed\<close>)
  moreover have "items (adv (adv q)) = tail" using i tl by (simp add: feed)
  ultimately show "\<exists>e q'. erase e = AST_ATTR nowhere a v \<and> items q' = tail \<and>
      ev (\<lambda>n k. postfix_loop (Suc n) (parse_calls k) a' q = postfix_loop n (parse_calls k) e q')"
    using a by (intro exI [of _ "AST_ATTR (pos_current q) a' v"] exI [of _ "adv (adv q)"]) simp
qed simp

text \<open>A subscript: what \<^verbatim>\<open>parse_subscript\<close> does behind the bracket.\<close>

lemma accepts_subscript:
  assumes "accepts Postfix False us a"
    and step: "\<And>q tail. items q = ws @ (TOK_RBRACKET, s') # tail \<Longrightarrow> tail \<noteq> [] \<Longrightarrow>
      \<exists>node q'. (\<forall>x a'. erase a' = a \<longrightarrow> erase (node x a') = t) \<and> items q' = tail \<and>
        ev (\<lambda>n k. \<forall>x a'. parse_subscript (parse_calls k) x a' q = Some (node x a', q'))"
  shows "accepts Postfix False (us @ (TOK_LBRACKET, s) # ws @ [(TOK_RBRACKET, s')]) t"
proof (rule accepts_postfix [OF assms(1)])
  fix a' q tail assume a: "erase a' = a" and i: "items q = ((TOK_LBRACKET, s) # ws @ [(TOK_RBRACKET, s')]) @ tail" and tl: "tail \<noteq> []"
  have q: "items (adv q) = ws @ (TOK_RBRACKET, s') # tail" using i by (simp add: feed)
  obtain node q1 where n: "\<forall>x a'. erase a' = a \<longrightarrow> erase (node x a') = t" "items q1 = tail"
    "ev (\<lambda>n k. \<forall>x a'. parse_subscript (parse_calls k) x a' (adv q) = Some (node x a', q1))"
    using step [OF q tl] by blast
  have "ev (\<lambda>n k. postfix_loop (Suc n) (parse_calls k) a' q = postfix_loop n (parse_calls k) (node (pos_current q) a') q1)"
    by (rule ev_elim1 [OF n(3)]) (use i in \<open>simp add: feed del: split_paired_All\<close>)
  then show "\<exists>e q'. erase e = t \<and> items q' = tail \<and>
      ev (\<lambda>n k. postfix_loop (Suc n) (parse_calls k) a' q = postfix_loop n (parse_calls k) e q')"
    using a n by blast
qed simp

lemma accepts_index:
  assumes "accepts Postfix False us a" "accepts Expr b ws i"
  shows "accepts Postfix False (us @ (TOK_LBRACKET, s) # ws @ [(TOK_RBRACKET, s')]) (AST_INDEX nowhere a i)"
proof (rule accepts_subscript [OF assms(1)])
  fix q tail assume q: "items q = ws @ (TOK_RBRACKET, s') # tail" and tl: "tail \<noteq> []"
  obtain e q1 where e: "erase e = i" "items q1 = (TOK_RBRACKET, s') # tail" "ev (\<lambda>n k. c_expr (parse_calls k) q = Some (e, q1))"
    by (rule accepts_expr [OF assms(2) q]) (rule stops_closer, simp add: closers_def)
  note h = accepts_nonempty [OF assms(2)] starters_neq(8) [OF accepts_first [OF assms(2)]]
  have "ev (\<lambda>n k. \<forall>x a'. parse_subscript (parse_calls k) x a' q = Some (AST_INDEX x a' e, adv q1))"
    by (rule ev_elim1 [OF e(3)]) (use q h e(2) tl in \<open>simp add: parse_subscript_def feed\<close>)
  moreover have "items (adv q1) = tail" using e(2) tl by (simp add: feed)
  ultimately show "\<exists>node q'. (\<forall>x a'. erase a' = a \<longrightarrow> erase (node x a') = AST_INDEX nowhere a i) \<and> items q' = tail \<and>
        ev (\<lambda>n k. \<forall>x a'. parse_subscript (parse_calls k) x a' q = Some (node x a', q'))"
    using e(1) by (intro exI [of _ "\<lambda>x a'. AST_INDEX x a' e"] exI [of _ "adv q1"]) simp
qed

definition accepts_bound :: "item list \<Rightarrow> ast option \<Rightarrow> bool" where
  "accepts_bound ws r \<longleftrightarrow> (case r of None \<Rightarrow> ws = [] | Some t \<Rightarrow> \<exists>b. accepts Expr b ws t)"

lemma bound_ok:
  assumes "accepts_bound ws r" "items p = ws @ (k, s) # tail" "k = TOK_RBRACKET \<or> k = TOK_COLON"
  obtains e q where "map_option erase e = r" "items q = (k, s) # tail" "ev (\<lambda>n d. bound_expr (parse_calls d) p = Some (e, q))"
    "e = None \<longleftrightarrow> r = None"
proof (cases r)
  case None
  then have p: "items p = (k, s) # tail" using assms by (simp add: accepts_bound_def)
  have "ev (\<lambda>n d. bound_expr (parse_calls d) p = Some (None, p))" by (rule ev_all) (use p assms(3) in \<open>auto simp: bound_expr_def feed\<close>)
  then show thesis using that [of None p] None p by simp
next
  case (Some t)
  then obtain b where w: "accepts Expr b ws t" using assms(1) by (auto simp: accepts_bound_def)
  have c: "stops Expr ((k, s) # tail)" using assms(3) by (auto intro!: stops_closer simp: closers_def)
  obtain e q where e: "erase e = t" "items q = (k, s) # tail" "ev (\<lambda>n d. c_expr (parse_calls d) p = Some (e, q))"
    by (rule accepts_expr [OF w assms(2) c])
  note h = accepts_nonempty [OF w] starters_neq [OF accepts_first [OF w]]
  have "ev (\<lambda>n d. bound_expr (parse_calls d) p = Some (Some e, q))"
    by (rule ev_elim1 [OF e(3)]) (use assms(2) h in \<open>simp add: bound_expr_def feed\<close>)
  then show thesis using that [of "Some e" q] Some e by simp
qed

lemma bound_head:
  assumes "accepts_bound ws r" "items p = ws @ (k, s) # tail" "k = TOK_RBRACKET \<or> k = TOK_COLON"
  shows "items p \<noteq> []" "fst (hd (items p)) = TOK_RBRACKET \<longleftrightarrow> r = None \<and> k = TOK_RBRACKET"
    "fst (hd (items p)) = TOK_COLON \<longleftrightarrow> r = None \<and> k = TOK_COLON"
proof -
  have "ws \<noteq> [] \<and> fst (hd ws) \<noteq> TOK_RBRACKET \<and> fst (hd ws) \<noteq> TOK_COLON" if "r = Some t" for t
    using assms(1) that starters_neq(6,8) accepts_nonempty accepts_first by (fastforce simp: accepts_bound_def)
  then show "items p \<noteq> []" "fst (hd (items p)) = TOK_RBRACKET \<longleftrightarrow> r = None \<and> k = TOK_RBRACKET"
    "fst (hd (items p)) = TOK_COLON \<longleftrightarrow> r = None \<and> k = TOK_COLON"
    using assms by (cases r; auto simp: accepts_bound_def)+
qed

lemma slice_rest_stop:
  assumes "accepts_bound ws r" "items p = ws @ (TOK_RBRACKET, s) # tail" "tail \<noteq> []"
  obtains e q where "map_option erase e = r" "items q = tail" "ev (\<lambda>n k. slice_rest (parse_calls k) p = Some ((e, None), q))"
proof -
  obtain e q where e: "map_option erase e = r" "items q = (TOK_RBRACKET, s) # tail" "ev (\<lambda>n d. bound_expr (parse_calls d) p = Some (e, q))"
    by (rule bound_ok [OF assms(1,2)]) simp
  have "ev (\<lambda>n k. slice_rest (parse_calls k) p = Some ((e, None), adv q))"
    by (rule ev_elim1 [OF e(3)]) (use e(2) assms(3) in \<open>simp add: slice_rest_def feed\<close>)
  moreover have "items (adv q) = tail" using e(2) assms(3) by (simp add: feed)
  ultimately show thesis using that e(1) by blast
qed

lemma slice_rest_step:
  assumes "accepts_bound ws r" "accepts_bound us r'" "items p = ws @ (TOK_COLON, s) # us @ (TOK_RBRACKET, s') # tail" "tail \<noteq> []"
  obtains e e' q where "map_option erase e = r" "map_option erase e' = r'" "items q = tail"
    "ev (\<lambda>n k. slice_rest (parse_calls k) p = Some ((e, e'), q))"
proof -
  obtain e q where e: "map_option erase e = r" "items q = (TOK_COLON, s) # us @ (TOK_RBRACKET, s') # tail"
    "ev (\<lambda>n d. bound_expr (parse_calls d) p = Some (e, q))"
    by (rule bound_ok [OF assms(1,3)]) simp
  have q: "items (adv q) = us @ (TOK_RBRACKET, s') # tail" using e(2) by (simp add: feed)
  obtain e' q1 where e': "map_option erase e' = r'" "items q1 = (TOK_RBRACKET, s') # tail"
    "ev (\<lambda>n d. bound_expr (parse_calls d) (adv q) = Some (e', q1))"
    by (rule bound_ok [OF assms(2) q]) simp
  note h = bound_head [OF assms(2) q]
  have "ev (\<lambda>n k. slice_rest (parse_calls k) p = Some ((e, e'), adv q1))"
  proof (rule ev_elim2 [OF e(3) e'(3)])
    fix n k assume *: "bound_expr (parse_calls k) p = Some (e, q)" "bound_expr (parse_calls k) (adv q) = Some (e', q1)"
    have "(if \<not> p_check (adv q) TOK_RBRACKET then do { (e, p) \<leftarrow> c_expr (parse_calls k) (adv q); Some (Some e, p) } else Some (None, adv q))
        = Some (e', q1)"
      using *(2) h by (auto simp: bound_expr_def feed split: if_splits)
    then show "slice_rest (parse_calls k) p = Some ((e, e'), adv q1)"
      using *(1) e(2) e'(2) assms(4) by (simp add: slice_rest_def feed)
  qed
  moreover have "items (adv q1) = tail" using e'(2) assms(4) by (simp add: feed)
  ultimately show thesis using that e(1) e'(1) by blast
qed

text \<open>The first bound decides between the two branches of the code.\<close>

lemma subscript_slice:
  assumes "accepts_bound ws r" "items p = ws @ (TOK_COLON, s) # us" "us \<noteq> []"
  obtains e q where "map_option erase e = r" "items q = us"
    "ev (\<lambda>n k. \<forall>x a. parse_subscript (parse_calls k) x a p =
       do { ((stop, step), p) \<leftarrow> slice_rest (parse_calls k) q; Some (AST_SLICE x a e stop step, p) })"
proof (cases r)
  case None
  then have p: "items p = (TOK_COLON, s) # us" using assms by (simp add: accepts_bound_def)
  have "ev (\<lambda>n k. \<forall>x a. parse_subscript (parse_calls k) x a p =
       do { ((stop, step), p) \<leftarrow> slice_rest (parse_calls k) (adv p); Some (AST_SLICE x a None stop step, p) })"
    by (rule ev_all) (use p assms(3) in \<open>simp add: parse_subscript_def feed\<close>)
  then show thesis using that [of None "adv p"] None p assms(3) by (simp add: feed)
next
  case (Some t)
  then obtain b where w: "accepts Expr b ws t" using assms(1) by (auto simp: accepts_bound_def)
  obtain e q where e: "erase e = t" "items q = (TOK_COLON, s) # us" "ev (\<lambda>n k. c_expr (parse_calls k) p = Some (e, q))"
    by (rule accepts_expr [OF w assms(2)]) (rule stops_closer, simp add: closers_def)
  note h = accepts_nonempty [OF w] starters_neq(8) [OF accepts_first [OF w]]
  have "ev (\<lambda>n k. \<forall>x a. parse_subscript (parse_calls k) x a p =
       do { ((stop, step), p) \<leftarrow> slice_rest (parse_calls k) (adv q); Some (AST_SLICE x a (Some e) stop step, p) })"
    by (rule ev_elim1 [OF e(3)]) (use assms(2,3) h e(2) in \<open>simp add: parse_subscript_def feed\<close>)
  then show thesis using that [of "Some e" "adv q"] Some e assms(3) by (simp add: feed)
qed

lemma accepts_slice:
  assumes "accepts Postfix False us a" "accepts_bound ws1 start" "accepts_bound ws2 stop"
  shows "accepts Postfix False (us @ (TOK_LBRACKET, s) # ws1 @ (TOK_COLON, s2) # ws2 @ [(TOK_RBRACKET, s')]) (AST_SLICE nowhere a start stop None)"
proof -
  have "accepts Postfix False (us @ (TOK_LBRACKET, s) # (ws1 @ (TOK_COLON, s2) # ws2) @ [(TOK_RBRACKET, s')]) (AST_SLICE nowhere a start stop None)"
  proof (rule accepts_subscript [OF assms(1)])
    fix q tail assume i: "items q = (ws1 @ (TOK_COLON, s2) # ws2) @ (TOK_RBRACKET, s') # tail" and tl: "tail \<noteq> []"
    then have q: "items q = ws1 @ (TOK_COLON, s2) # ws2 @ (TOK_RBRACKET, s') # tail" by simp
    obtain e q1 where e: "map_option erase e = start" "items q1 = ws2 @ (TOK_RBRACKET, s') # tail"
      "ev (\<lambda>n k. \<forall>x a. parse_subscript (parse_calls k) x a q =
         do { ((stop, step), p) \<leftarrow> slice_rest (parse_calls k) q1; Some (AST_SLICE x a e stop step, p) })"
      by (rule subscript_slice [OF assms(2) q]) simp
    obtain f q2 where f: "map_option erase f = stop" "items q2 = tail" "ev (\<lambda>n k. slice_rest (parse_calls k) q1 = Some ((f, None), q2))"
      by (rule slice_rest_stop [OF assms(3) e(2) tl])
    have "ev (\<lambda>n k. \<forall>x a. parse_subscript (parse_calls k) x a q = Some (AST_SLICE x a e f None, q2))"
      by (rule ev_elim2 [OF e(3) f(3)]) simp
    then show "\<exists>node q'. (\<forall>x a'. erase a' = a \<longrightarrow> erase (node x a') = AST_SLICE nowhere a start stop None) \<and> items q' = tail \<and>
        ev (\<lambda>n k. \<forall>x a'. parse_subscript (parse_calls k) x a' q = Some (node x a', q'))"
      using e f by (intro exI [of _ "\<lambda>x a'. AST_SLICE x a' e f None"] exI [of _ q2]) simp
  qed
  then show ?thesis by simp
qed

lemma accepts_slice_step:
  assumes "accepts Postfix False us a" "accepts_bound ws1 start" "accepts_bound ws2 stop" "accepts_bound ws3 step"
  shows "accepts Postfix False (us @ (TOK_LBRACKET, s) # ws1 @ (TOK_COLON, s2) # ws2 @ (TOK_COLON, s3) # ws3 @ [(TOK_RBRACKET, s')])
    (AST_SLICE nowhere a start stop step)"
proof -
  have "accepts Postfix False (us @ (TOK_LBRACKET, s) # (ws1 @ (TOK_COLON, s2) # ws2 @ (TOK_COLON, s3) # ws3) @ [(TOK_RBRACKET, s')])
    (AST_SLICE nowhere a start stop step)"
  proof (rule accepts_subscript [OF assms(1)])
    fix q tail assume i: "items q = (ws1 @ (TOK_COLON, s2) # ws2 @ (TOK_COLON, s3) # ws3) @ (TOK_RBRACKET, s') # tail" and tl: "tail \<noteq> []"
    then have q: "items q = ws1 @ (TOK_COLON, s2) # ws2 @ (TOK_COLON, s3) # ws3 @ (TOK_RBRACKET, s') # tail" by simp
    obtain e q1 where e: "map_option erase e = start" "items q1 = ws2 @ (TOK_COLON, s3) # ws3 @ (TOK_RBRACKET, s') # tail"
      "ev (\<lambda>n k. \<forall>x a. parse_subscript (parse_calls k) x a q =
         do { ((stop, step), p) \<leftarrow> slice_rest (parse_calls k) q1; Some (AST_SLICE x a e stop step, p) })"
      by (rule subscript_slice [OF assms(2) q]) simp
    obtain f f' q2 where f: "map_option erase f = stop" "map_option erase f' = step" "items q2 = tail"
      "ev (\<lambda>n k. slice_rest (parse_calls k) q1 = Some ((f, f'), q2))"
      by (rule slice_rest_step [OF assms(3,4) e(2) tl])
    have "ev (\<lambda>n k. \<forall>x a. parse_subscript (parse_calls k) x a q = Some (AST_SLICE x a e f f', q2))"
      by (rule ev_elim2 [OF e(3) f(4)]) simp
    then show "\<exists>node q'. (\<forall>x a'. erase a' = a \<longrightarrow> erase (node x a') = AST_SLICE nowhere a start stop step) \<and> items q' = tail \<and>
        ev (\<lambda>n k. \<forall>x a'. parse_subscript (parse_calls k) x a' q = Some (node x a', q'))"
      using e f by (intro exI [of _ "\<lambda>x a'. AST_SLICE x a' e f f'"] exI [of _ q2]) simp
  qed
  then show ?thesis by simp
qed

end
