(* ===== verification/ParserBlocks.thy ===== *)
theory ParserBlocks
  imports ParserPostfix
begin

text \<open>
  The parser accepts the statements and blocks of the grammar.
\<close>

section \<open>Statements in general\<close>

definition stmt_keywords :: "token_kind list" where
  "stmt_keywords = [TOK_LET, TOK_CONST, TOK_RETURN, TOK_RAISE, TOK_YIELD, TOK_BREAK, TOK_CONTINUE, TOK_PASS, TOK_NONLOCAL,
     TOK_IMPORT, TOK_FROM, TOK_IF, TOK_WHILE, TOK_FOR, TOK_WITH, TOK_FUNC, TOK_ASYNC, TOK_CLASS, TOK_STRUCT, TOK_ENUM,
     TOK_TRY, TOK_MATCH]"

definition stmt_starters :: "token_kind list" where
  "stmt_starters = TOK_AT_ARROW # stmt_keywords @ starters Expr"

definition follows :: "bool \<Rightarrow> item list \<Rightarrow> bool" where
  "follows b ws \<longleftrightarrow> ws \<noteq> [] \<and>
     fst (hd ws) \<notin> {TOK_NEWLINE, TOK_INDENT, TOK_PIPE_ARROW, TOK_ELIF, TOK_ELSE, TOK_CATCH, TOK_FINALLY} \<and> (b \<longrightarrow> stops Expr ws)"

lemma follows_stops: "follows b tail \<Longrightarrow> stops Expr (line_end b @ tail)"
  by (cases b) (auto simp: follows_def line_end_def intro!: stops_newline)

lemma follows_nonempty: "follows b tail \<Longrightarrow> tail \<noteq> []"
  by (simp add: follows_def)

lemma follows_weaken: "follows b tail \<Longrightarrow> follows False tail"
  by (simp add: follows_def)

definition accepts_stmt :: "bool \<Rightarrow> item list \<Rightarrow> ast \<Rightarrow> bool" where
  "accepts_stmt b ws t \<longleftrightarrow> ws \<noteq> [] \<and> fst (hd ws) \<in> set stmt_starters \<and>
     (\<forall>p tail. items p = ws @ tail \<longrightarrow> follows b tail \<longrightarrow>
       (\<exists>a q. erase a = t \<and> items q = tail \<and> ev (\<lambda>n k. parse_stmt n (parse_calls k) p = Some (Some a, q))))"

lemma starters_stmt: "k \<in> set (starters Expr) \<Longrightarrow> k \<noteq> TOK_AT_ARROW \<and> k \<notin> set stmt_keywords \<and> k \<noteq> TOK_NEWLINE"
  by (auto simp: starters_def stmt_keywords_def)

lemma end_line_ok:
  assumes "items q = line_end e @ tail" "follows b tail"
  obtains q' where "\<forall>a. end_line a q = Some (Some a, q')" "items q' = tail"
proof
  show "\<forall>a. end_line a q = Some (Some a, if e then q else adv q)"
    using assms by (auto simp: end_line_def line_end_def follows_def feed)
  show "items (if e then q else adv q) = tail"
    using assms by (auto simp: line_end_def follows_def feed)
qed

lemma accepts_keyword:
  assumes kw: "k \<in> set stmt_keywords"
    and body: "\<And>p tail. items p = (k, s) # xs @ line_end e @ tail \<Longrightarrow> follows b tail \<Longrightarrow>
      \<exists>a q. erase a = t \<and> items q = line_end e @ tail \<and>
        ev (\<lambda>n c. \<exists>f. parse_keyword_stmt n (parse_calls c) (pos_current p) k = Some f \<and> f (adv p) = Some (a, q))"
  shows "accepts_stmt b ((k, s) # xs @ line_end e) t"
  unfolding accepts_stmt_def
proof (intro conjI allI impI)
  fix p tail assume i: "items p = ((k, s) # xs @ line_end e) @ tail" and fo: "follows b tail"
  have p: "items p = (k, s) # xs @ line_end e @ tail" using i by simp
  obtain a q where a: "erase a = t" "items q = line_end e @ tail"
    "ev (\<lambda>n c. \<exists>f. parse_keyword_stmt n (parse_calls c) (pos_current p) k = Some f \<and> f (adv p) = Some (a, q))"
    using body [OF p fo] by blast
  obtain q' where q': "\<forall>a. end_line a q = Some (Some a, q')" "items q' = tail" by (rule end_line_ok [OF a(2) fo])
  have k: "k \<noteq> TOK_NEWLINE" "k \<noteq> TOK_IDENT" "k \<noteq> TOK_AT_ARROW" using kw by (auto simp: stmt_keywords_def)
  have "ev (\<lambda>n c. parse_stmt n (parse_calls c) p = Some (Some a, q'))"
    by (rule ev_elim1 [OF a(3)])
      (use p k q' follows_nonempty [OF fo] in \<open>auto simp: parse_stmt_def unknown_keyword_def feed\<close>)
  then show "\<exists>a q. erase a = t \<and> items q = tail \<and> ev (\<lambda>n k. parse_stmt n (parse_calls k) p = Some (Some a, q))"
    using a(1) q'(2) by blast
qed (use kw in \<open>auto simp: stmt_starters_def\<close>)

text \<open>Expression statements.\<close>

lemma accepts_expr_stmt:
  assumes "accepts Expr b0 ws t" "\<not> foreign ws"
  shows "accepts_stmt b (ws @ line_end b) (AST_EXPR_STMT nowhere t)"
  unfolding accepts_stmt_def
proof (intro conjI allI impI)
  fix p tail assume i: "items p = (ws @ line_end b) @ tail" and fo: "follows b tail"
  have p: "items p = ws @ line_end b @ tail" using i by simp
  obtain a q where a: "erase a = t" "items q = line_end b @ tail" "ev (\<lambda>n k. c_expr (parse_calls k) p = Some (a, q))"
    by (rule accepts_expr [OF assms(1) p follows_stops [OF fo]])
  obtain q' where q': "\<forall>a. end_line a q = Some (Some a, q')" "items q' = tail" by (rule end_line_ok [OF a(2) fo])
  have ws: "ws \<noteq> []" and st: "fst (hd ws) \<in> set (starters Expr)" using assms(1) by (auto simp: accepts_def)
  have h: "items p \<noteq> []" "tl (items p) \<noteq> []" "hd (items p) = hd ws" "fst (hd ws) \<noteq> TOK_NEWLINE"
    "fst (hd ws) \<noteq> TOK_AT_ARROW" "fst (hd ws) \<notin> set stmt_keywords"
    using p ws follows_nonempty [OF fo] starters_stmt [OF st] by (cases ws; simp)+
  have u: "unknown_keyword p = Some None"
  proof (cases "fst (hd ws) = TOK_IDENT \<and> keyword_suggestion (snd (hd ws)) \<noteq> None")
    case True
    then have "tl ws \<noteq> []" "fst (hd (tl ws)) \<notin> set declaration_follows" using assms(2) by (auto simp: foreign_def)
    then have "fst (hd (tl (items p))) \<notin> set declaration_follows" using p ws by simp
    then show ?thesis using h True by (auto simp: unknown_keyword_def feed layout_kind_def split: option.split)
  next
    case False
    then show ?thesis using h by (auto simp: unknown_keyword_def feed layout_kind_def split: option.split)
  qed
  have "parse_keyword_stmt n c x (fst (hd ws)) = None" for n c x
    using h(6) by (auto simp: parse_keyword_stmt_def stmt_keywords_def)
  then have "ev (\<lambda>n k. parse_stmt n (parse_calls k) p = Some (Some (AST_EXPR_STMT (pos_current p) a), q'))"
    by (intro ev_elim1 [OF a(3)]) (use h u q' in \<open>simp add: parse_stmt_def feed\<close>)
  moreover have "erase (AST_EXPR_STMT (pos_current p) a) = AST_EXPR_STMT nowhere t" using a(1) by simp
  ultimately show "\<exists>a q. erase a = AST_EXPR_STMT nowhere t \<and> items q = tail \<and> ev (\<lambda>n k. parse_stmt n (parse_calls k) p = Some (Some a, q))"
    using q'(2) by blast
qed (use assms(1) in \<open>auto simp: accepts_def stmt_starters_def\<close>)

section \<open>Simple statements\<close>

lemma accepts_value:
  assumes "accepts Expr b0 ws t" "k \<in> set stmt_keywords"
    and step: "\<And>n c x p. items p \<noteq> [] \<Longrightarrow> fst (hd (items p)) \<notin> {TOK_NEWLINE, TOK_EOF, TOK_DEDENT} \<Longrightarrow>
      \<exists>f. parse_keyword_stmt n c x k = Some f \<and> f p = do { (e, q) \<leftarrow> c_expr c p; Some (node (pos x p) (Some e), q) }"
    and node: "\<And>x e. erase (node x (Some e)) = node nowhere (Some (erase e))"
  shows "accepts_stmt b ((k, s) # ws @ line_end b) (node nowhere (Some t))"
proof (rule accepts_keyword [OF assms(2)])
  fix p tail assume p: "items p = (k, s) # ws @ line_end b @ tail" and fo: "follows b tail"
  obtain a q where a: "erase a = t" "items q = line_end b @ tail" "ev (\<lambda>n k. c_expr (parse_calls k) (adv p) = Some (a, q))"
    by (rule accepts_expr_behind [OF assms(1) p follows_stops [OF fo]])
  note h = accepts_nonempty [OF assms(1)] starters_neq [OF accepts_first [OF assms(1)]]
  have i: "items (adv p) \<noteq> []" "fst (hd (items (adv p))) \<notin> {TOK_NEWLINE, TOK_EOF, TOK_DEDENT}" using p h by (simp_all add: feed)
  have "ev (\<lambda>n c. \<exists>f. parse_keyword_stmt n (parse_calls c) (pos_current p) k = Some f \<and>
      f (adv p) = Some (node (pos (pos_current p) (adv p)) (Some a), q))"
  proof (rule ev_elim1 [OF a(3)])
    fix n c assume e: "c_expr (parse_calls c) (adv p) = Some (a, q)"
    obtain f where "parse_keyword_stmt n (parse_calls c) (pos_current p) k = Some f"
      "f (adv p) = do { (e, q) \<leftarrow> c_expr (parse_calls c) (adv p); Some (node (pos (pos_current p) (adv p)) (Some e), q) }"
      using step [OF i] by blast
    then show "\<exists>f. parse_keyword_stmt n (parse_calls c) (pos_current p) k = Some f \<and>
        f (adv p) = Some (node (pos (pos_current p) (adv p)) (Some a), q)"
      using e by simp
  qed
  then show "\<exists>a q. erase a = node nowhere (Some t) \<and> items q = line_end b @ tail \<and>
        ev (\<lambda>n c. \<exists>f. parse_keyword_stmt n (parse_calls c) (pos_current p) k = Some f \<and> f (adv p) = Some (a, q))"
    using a node by blast
qed

lemma accepts_return: "accepts Expr b0 ws t \<Longrightarrow> accepts_stmt b ((TOK_RETURN, s) # ws @ line_end b) (AST_RETURN nowhere (Some t))"
  by (rule accepts_value [where node = AST_RETURN and pos = "\<lambda>x. pos_previous"])
    (auto simp: stmt_keywords_def parse_keyword_stmt_def parse_return_def optional_value_def feed bind_assoc split_def)

lemma accepts_raise: "accepts Expr b0 ws t \<Longrightarrow> accepts_stmt b ((TOK_RAISE, s) # ws @ line_end b) (AST_RAISE nowhere (Some t))"
  by (rule accepts_value [where node = AST_RAISE and pos = "\<lambda>x. pos_previous"])
    (auto simp: stmt_keywords_def parse_keyword_stmt_def parse_raise_def optional_value_def feed bind_assoc split_def)

lemma accepts_yield: "accepts Expr b0 ws t \<Longrightarrow> accepts_stmt b ((TOK_YIELD, s) # ws @ line_end b) (AST_YIELD nowhere (Some t))"
  by (rule accepts_value [where node = AST_YIELD and pos = "\<lambda>x p. x"])
    (auto simp: stmt_keywords_def parse_keyword_stmt_def feed bind_assoc split_def)

lemma accepts_bare:
  assumes "k \<in> set stmt_keywords"
    and step: "\<And>n c x p. items p \<noteq> [] \<Longrightarrow> fst (hd (items p)) = TOK_NEWLINE \<Longrightarrow>
      \<exists>f. parse_keyword_stmt n c x k = Some f \<and> f p = Some (node (pos x p), p)"
    and node: "\<And>x. erase (node x) = node nowhere"
  shows "accepts_stmt False [(k, s), (TOK_NEWLINE, [])] (node nowhere)"
proof -
  have "accepts_stmt False ((k, s) # [] @ line_end False) (node nowhere)"
  proof (rule accepts_keyword [OF assms(1)])
    fix p tail assume p: "items p = (k, s) # [] @ line_end False @ tail"
    then have i: "items (adv p) \<noteq> []" "fst (hd (items (adv p))) = TOK_NEWLINE" "items (adv p) = line_end False @ tail"
      by (simp_all add: feed line_end_def)
    have "ev (\<lambda>n c. \<exists>f. parse_keyword_stmt n (parse_calls c) (pos_current p) k = Some f \<and>
        f (adv p) = Some (node (pos (pos_current p) (adv p)), adv p))"
      by (rule ev_all) (rule step [OF i(1,2)])
    then show "\<exists>a q. erase a = node nowhere \<and> items q = line_end False @ tail \<and>
        ev (\<lambda>n c. \<exists>f. parse_keyword_stmt n (parse_calls c) (pos_current p) k = Some f \<and> f (adv p) = Some (a, q))"
      using i(3) node by blast
  qed
  then show ?thesis by (simp add: line_end_def)
qed

lemma accepts_bare_stmts:
  "accepts_stmt False [(TOK_RETURN, s), (TOK_NEWLINE, [])] (AST_RETURN nowhere None)"
  "accepts_stmt False [(TOK_RAISE, s), (TOK_NEWLINE, [])] (AST_RAISE nowhere None)"
  "accepts_stmt False [(TOK_YIELD, s), (TOK_NEWLINE, [])] (AST_YIELD nowhere None)"
  "accepts_stmt False [(TOK_BREAK, s), (TOK_NEWLINE, [])] (AST_BREAK nowhere)"
  "accepts_stmt False [(TOK_CONTINUE, s), (TOK_NEWLINE, [])] (AST_CONTINUE nowhere)"
  "accepts_stmt False [(TOK_PASS, s), (TOK_NEWLINE, [])] (AST_PASS nowhere)"
  by (rule accepts_bare [where node = "\<lambda>x. AST_RETURN x None" and pos = "\<lambda>x. pos_previous"]
        accepts_bare [where node = "\<lambda>x. AST_RAISE x None" and pos = "\<lambda>x. pos_previous"]
        accepts_bare [where node = "\<lambda>x. AST_YIELD x None" and pos = "\<lambda>x p. x"]
        accepts_bare [where node = AST_BREAK and pos = "\<lambda>x p. x"] accepts_bare [where node = AST_CONTINUE and pos = "\<lambda>x p. x"]
        accepts_bare [where node = AST_PASS and pos = "\<lambda>x p. x"];
      simp add: stmt_keywords_def parse_keyword_stmt_def parse_return_def parse_raise_def optional_value_def feed)+

lemma accepts_let:
  assumes "k \<in> {TOK_LET, TOK_CONST}" "typed ts h" "accepts Expr b0 ws t"
  shows "accepts_stmt b ((k, s) # (TOK_IDENT, v) # ts @ (TOK_ASSIGN, s') # ws @ line_end b) (AST_LET_DECL nowhere v t (k = TOK_CONST))"
proof -
  have kw: "k \<in> set stmt_keywords" using assms(1) by (auto simp: stmt_keywords_def)
  have "accepts_stmt b ((k, s) # ((TOK_IDENT, v) # ts @ (TOK_ASSIGN, s') # ws) @ line_end b) (AST_LET_DECL nowhere v t (k = TOK_CONST))"
  proof (rule accepts_keyword [OF kw])
    fix p tail assume i: "items p = (k, s) # ((TOK_IDENT, v) # ts @ (TOK_ASSIGN, s') # ws) @ line_end b @ tail" and fo: "follows b tail"
    have p: "items (adv (adv p)) = ts @ (TOK_ASSIGN, s') # ws @ line_end b @ tail" using i by (simp add: feed)
    obtain q where q: "items q = (TOK_ASSIGN, s') # ws @ line_end b @ tail" "ev (\<lambda>n k. skip_typed n (adv (adv p)) = Some (h, q))"
      by (rule typed_ok [OF assms(2) p]) (simp_all add: ends_annotation_def)
    obtain a q2 where a: "erase a = t" "items q2 = line_end b @ tail" "ev (\<lambda>n k. c_expr (parse_calls k) (adv q) = Some (a, q2))"
      by (rule accepts_expr_behind [OF assms(3) q(1) follows_stops [OF fo]])
    have "ev (\<lambda>n c. \<exists>f. parse_keyword_stmt n (parse_calls c) (pos_current p) k = Some f \<and>
        f (adv p) = Some (AST_LET_DECL (pos_previous (adv p)) v a (k = TOK_CONST), q2))"
      by (rule ev_elim2 [OF q(2) a(3)])
        (use i q(1) accepts_nonempty [OF assms(3)] assms(1) in
          \<open>auto simp: parse_keyword_stmt_def parse_let_decl_def feed layout_kind_def\<close>)
    then show "\<exists>a q. erase a = AST_LET_DECL nowhere v t (k = TOK_CONST) \<and> items q = line_end b @ tail \<and>
        ev (\<lambda>n c. \<exists>f. parse_keyword_stmt n (parse_calls c) (pos_current p) k = Some f \<and> f (adv p) = Some (a, q))"
      using a by (intro exI [of _ "AST_LET_DECL (pos_previous (adv p)) v a (k = TOK_CONST)"] exI [of _ q2]) simp
  qed
  then show ?thesis by simp
qed

lemma accepts_let_null:
  assumes "k \<in> {TOK_LET, TOK_CONST}" "typed ts h"
  shows "accepts_stmt False ((k, s) # (TOK_IDENT, v) # ts @ [(TOK_NEWLINE, [])]) (AST_LET_DECL nowhere v (AST_NULL nowhere) (k = TOK_CONST))"
proof -
  have kw: "k \<in> set stmt_keywords" using assms(1) by (auto simp: stmt_keywords_def)
  have "accepts_stmt False ((k, s) # ((TOK_IDENT, v) # ts) @ line_end False) (AST_LET_DECL nowhere v (AST_NULL nowhere) (k = TOK_CONST))"
  proof (rule accepts_keyword [OF kw])
    fix p tail assume i: "items p = (k, s) # ((TOK_IDENT, v) # ts) @ line_end False @ tail"
    have p: "items (adv (adv p)) = ts @ (TOK_NEWLINE, []) # tail" using i by (simp add: feed line_end_def)
    obtain q where q: "items q = (TOK_NEWLINE, []) # tail" "ev (\<lambda>n k. skip_typed n (adv (adv p)) = Some (h, q))"
      by (rule typed_ok [OF assms(2) p]) (simp_all add: ends_annotation_def)
    let ?x = "pos_previous (adv p)"
    have "ev (\<lambda>n c. \<exists>f. parse_keyword_stmt n (parse_calls c) (pos_current p) k = Some f \<and>
        f (adv p) = Some (AST_LET_DECL ?x v (AST_NULL ?x) (k = TOK_CONST), q))"
      by (rule ev_elim1 [OF q(2)])
        (use i q(1) assms(1) in \<open>auto simp: parse_keyword_stmt_def parse_let_decl_def feed layout_kind_def line_end_def\<close>)
    then show "\<exists>a q. erase a = AST_LET_DECL nowhere v (AST_NULL nowhere) (k = TOK_CONST) \<and> items q = line_end False @ tail \<and>
        ev (\<lambda>n c. \<exists>f. parse_keyword_stmt n (parse_calls c) (pos_current p) k = Some f \<and> f (adv p) = Some (a, q))"
      using q(1) by (intro exI [of _ "AST_LET_DECL ?x v (AST_NULL ?x) (k = TOK_CONST)"] exI [of _ q]) (simp add: line_end_def)
  qed
  then show ?thesis by (simp add: line_end_def)
qed

lemma names_ok:
  "names ws vs \<Longrightarrow> items p = ws @ tail \<Longrightarrow> tail \<noteq> [] \<Longrightarrow> fst (hd tail) \<noteq> TOK_COMMA \<Longrightarrow>
    \<exists>xs q. map snd xs = vs \<and> items q = tail \<and> ev (\<lambda>n k. names_loop n msg p = Some (xs, q))"
proof (induction arbitrary: p rule: names.induct)
  case (names_one v)
  have q: "items (adv p) = tail" using names_one by (simp add: feed)
  have "ev (\<lambda>n k. names_loop n msg p = Some ([(pos_previous (adv p), v)], adv p))"
    by (rule ev_loop, rule ev_all) (use names_one in \<open>simp add: feed layout_kind_def\<close>)
  then show ?case using q by (intro exI [of _ "[(pos_previous (adv p), v)]"] exI [of _ "adv p"]) simp
next
  case (names_more ws vs v s)
  have ne: "ws \<noteq> []" using names_more(1) by (cases rule: names.cases) simp_all
  have q: "items (adv (adv p)) = ws @ tail" using names_more.prems by (simp add: feed)
  obtain xs q where r: "map snd xs = vs" "items q = tail" "ev (\<lambda>n k. names_loop n msg (adv (adv p)) = Some (xs, q))"
    using names_more.IH [OF q names_more.prems(2,3)] by blast
  have "ev (\<lambda>n k. names_loop n msg p = Some ((pos_previous (adv p), v) # xs, q))"
    by (rule ev_loop, rule ev_elim1 [OF r(3)]) (use names_more.prems ne in \<open>simp add: feed layout_kind_def\<close>)
  then show ?case using r by (intro exI [of _ "(pos_previous (adv p), v) # xs"] exI [of _ q]) simp
qed

lemma accepts_nonlocal:
  assumes "names ws vs"
  shows "accepts_stmt False ((TOK_NONLOCAL, s) # ws @ [(TOK_NEWLINE, [])]) (AST_NONLOCAL nowhere (map (AST_IDENT nowhere) vs))"
proof -
  have "accepts_stmt False ((TOK_NONLOCAL, s) # ws @ line_end False) (AST_NONLOCAL nowhere (map (AST_IDENT nowhere) vs))"
  proof (rule accepts_keyword)
    fix p tail assume i: "items p = (TOK_NONLOCAL, s) # ws @ line_end False @ tail"
    have p: "items (adv p) = ws @ (TOK_NEWLINE, []) # tail" using i by (simp add: feed line_end_def)
    obtain xs q where x: "map snd xs = vs" "items q = (TOK_NEWLINE, []) # tail"
      "ev (\<lambda>n k. names_loop n (''Expected variable name after '' @ quoted ''nonlocal'') (adv p) = Some (xs, q))"
      using names_ok [OF assms p] by force
    let ?a = "AST_NONLOCAL (pos_current p) (map (\<lambda>(q, name). AST_IDENT q name) xs)"
    have "ev (\<lambda>n c. \<exists>f. parse_keyword_stmt n (parse_calls c) (pos_current p) TOK_NONLOCAL = Some f \<and> f (adv p) = Some (?a, q))"
      by (rule ev_elim1 [OF x(3)]) (simp add: parse_keyword_stmt_def)
    moreover have "erase ?a = AST_NONLOCAL nowhere (map (AST_IDENT nowhere) vs)" using x(1) by (auto simp: split_def)
    ultimately show "\<exists>a q. erase a = AST_NONLOCAL nowhere (map (AST_IDENT nowhere) vs) \<and> items q = line_end False @ tail \<and>
        ev (\<lambda>n c. \<exists>f. parse_keyword_stmt n (parse_calls c) (pos_current p) TOK_NONLOCAL = Some f \<and> f (adv p) = Some (a, q))"
      using x(2) by (intro exI [of _ ?a] exI [of _ q]) (simp add: line_end_def)
  qed (simp add: stmt_keywords_def)
  then show ?thesis by (simp add: line_end_def)
qed

end
