(* ===== verification/ParserCompound.thy ===== *)
theory ParserCompound
  imports ParserBlocks
begin

text \<open>
  The parser accepts imports, compound statements, definitions, match arms and whole modules of the grammar.
\<close>

section \<open>Imports\<close>

lemma dots_ok:
  "dots ws m \<Longrightarrow> items p = ws @ tail \<Longrightarrow> tail \<noteq> [] \<Longrightarrow> fst (hd tail) \<noteq> TOK_DOT \<Longrightarrow>
    \<exists>q. items q = tail \<and> ev (\<lambda>n k. \<forall>v. dotted_loop n v p = Some (v @ m, q))"
proof (induction arbitrary: p rule: dots.induct)
  case dots_end
  have "ev (\<lambda>n k. \<forall>v. dotted_loop n v p = Some (v @ [], p))" by (rule ev_loop, rule ev_all) (use dots_end in \<open>simp add: feed\<close>)
  then show ?case using dots_end by auto
next
  case (dots_more ws m s v)
  have q: "items (adv (adv p)) = ws @ tail" using dots_more.prems by (simp add: feed)
  obtain q where q: "items q = tail" "ev (\<lambda>n k. \<forall>v. dotted_loop n v (adv (adv p)) = Some (v @ m, q))"
    using dots_more.IH [OF q dots_more.prems(2,3)] by blast
  have "ev (\<lambda>n k. \<forall>u. dotted_loop n u p = Some (u @ ''.'' @ v @ m, q))"
    by (rule ev_loop, rule ev_elim1 [OF q(2)]) (use dots_more.prems in \<open>simp add: feed layout_kind_def\<close>)
  then show ?case using q(1) by auto
qed

text \<open>The alias behind \<^verbatim>\<open>as\<close>, with its position.\<close>

definition alias_step :: "string \<Rightarrow> (pos \<times> string) option parses" where
  "alias_step msg p = do {
     (aliased, p) \<leftarrow> p_match p TOK_AS;
     if aliased then do { p \<leftarrow> p_consume p TOK_IDENT msg; Some (Some (pos_previous p, previous_text p), p) }
     else Some (None, p)
   }"

lemma alias_ok:
  assumes "alias_name ws a" "items p = ws @ tail" "tail \<noteq> []" "fst (hd tail) \<noteq> TOK_AS"
  obtains x q where "alias_step msg p = Some (x, q)" "map_option snd x = a" "items q = tail"
  using assms(1)
proof cases
  case alias_none
  then show thesis using that [of None p] assms by (simp add: alias_step_def feed)
next
  case (alias_some s v)
  then show thesis using that [of "Some (pos_previous (adv (adv p)), v)" "adv (adv p)"] assms
    by (simp add: alias_step_def feed layout_kind_def)
qed

lemma import_inline:
  "parse_import n p0 = do {
     p \<leftarrow> (if p_check p0 TOK_IDENT \<or> token_is_keyword (p_kind p0) then p_advance p0
          else p_consume p0 TOK_IDENT ''Expected module name'');
     (module, p) \<leftarrow> dotted_loop n (previous_text p) p;
     (x, p) \<leftarrow> alias_step (''Expected alias after '' @ quoted ''as'') p;
     Some (AST_IMPORT (pos_previous p0) module (map_option snd x), p)
   }"
  by (auto simp: parse_import_def alias_step_def bind_assoc split_def intro!: Option.bind_cong)

lemma with_inline:
  "parse_with c p0 = do {
     (manager, p) \<leftarrow> c_expr c p0;
     (x, p) \<leftarrow> alias_step (''Expected variable name after '' @ quoted ''as'') p;
     p \<leftarrow> p_consume p TOK_COLON (bracket_message '':'' (quoted ''with'' @ '' expression''));
     (body, p) \<leftarrow> c_block c p;
     Some (AST_WITH (pos_previous p0) (map_option snd x) manager body, p)
   }"
  by (auto simp: parse_with_def alias_step_def bind_assoc split_def intro!: Option.bind_cong)

lemma import_names_inline:
  "import_names (Suc n) p = do {
     p \<leftarrow> p_consume p TOK_IDENT (''Expected name after '' @ quoted ''import'');
     let name = AST_IDENT (pos_previous p) (previous_text p);
     (x, p) \<leftarrow> alias_step (''Expected alias after '' @ quoted ''as'') p;
     (more, p) \<leftarrow> p_match p TOK_COMMA;
     if more then do { (names, p) \<leftarrow> import_names n p; Some ((name, map_option (\<lambda>(q, v). AST_IDENT q v) x) # names, p) }
     else Some ([(name, map_option (\<lambda>(q, v). AST_IDENT q v) x)], p)
   }"
  by (auto simp: alias_step_def bind_assoc split_def Let_def intro!: Option.bind_cong)

lemma accepts_import:
  assumes "k = TOK_IDENT \<or> token_is_keyword k" "dots ds m" "alias_name as a"
  shows "accepts_stmt False ((TOK_IMPORT, s) # (k, v) # ds @ as @ [(TOK_NEWLINE, [])]) (AST_IMPORT nowhere (v @ m) a)"
proof -
  have l: "\<not> layout_kind k" using assms(1) by (auto simp: layout_kind_def token_is_keyword_def less_eq_token_kind_def)
  have "accepts_stmt False ((TOK_IMPORT, s) # ((k, v) # ds @ as) @ line_end False) (AST_IMPORT nowhere (v @ m) a)"
  proof (rule accepts_keyword)
    fix p tail assume i: "items p = (TOK_IMPORT, s) # ((k, v) # ds @ as) @ line_end False @ tail"
    let ?r = "as @ (TOK_NEWLINE, []) # tail"
    have p: "items (adv (adv p)) = ds @ ?r" using i by (simp add: feed line_end_def)
    have "fst (hd ?r) \<noteq> TOK_DOT" using assms(3) by (cases rule: alias_name.cases) simp_all
    then obtain q where q: "items q = ?r" "ev (\<lambda>n k. \<forall>v. dotted_loop n v (adv (adv p)) = Some (v @ m, q))"
      using dots_ok [OF assms(2) p] by auto
    obtain x q2 where x: "alias_step (''Expected alias after '' @ quoted ''as'') q = Some (x, q2)" "map_option snd x = a" "items q2 = (TOK_NEWLINE, []) # tail"
      by (rule alias_ok [OF assms(3) q(1)]) simp_all
    have "ev (\<lambda>n c. \<exists>f. parse_keyword_stmt n (parse_calls c) (pos_current p) TOK_IMPORT = Some f \<and>
        f (adv p) = Some (AST_IMPORT (pos_previous (adv p)) (v @ m) a, q2))"
      by (rule ev_elim1 [OF q(2)]) (use i x l assms(1) in \<open>auto simp: parse_keyword_stmt_def import_inline feed line_end_def\<close>)
    then show "\<exists>b q. erase b = AST_IMPORT nowhere (v @ m) a \<and> items q = line_end False @ tail \<and>
        ev (\<lambda>n c. \<exists>f. parse_keyword_stmt n (parse_calls c) (pos_current p) TOK_IMPORT = Some f \<and> f (adv p) = Some (b, q))"
      using x(3) by (intro exI [of _ "AST_IMPORT (pos_previous (adv p)) (v @ m) a"] exI [of _ q2]) (simp add: line_end_def)
  qed (simp add: stmt_keywords_def)
  then show ?thesis by (simp add: line_end_def)
qed

lemma accepts_from_star:
  assumes "dots ds m"
  shows "accepts_stmt False ((TOK_FROM, s) # (TOK_IDENT, v) # ds @ [(TOK_IMPORT, s1), (TOK_STAR, s2), (TOK_NEWLINE, [])])
      (AST_FROM_IMPORT nowhere (v @ m) [AST_IDENT nowhere ''*''] [None])" (is "accepts_stmt False ?ws ?t")
proof -
  have "accepts_stmt False ((TOK_FROM, s) # ((TOK_IDENT, v) # ds @ [(TOK_IMPORT, s1), (TOK_STAR, s2)]) @ line_end False) ?t"
  proof (rule accepts_keyword)
    fix p tail assume i: "items p = (TOK_FROM, s) # ((TOK_IDENT, v) # ds @ [(TOK_IMPORT, s1), (TOK_STAR, s2)]) @ line_end False @ tail"
    let ?r = "(TOK_IMPORT, s1) # (TOK_STAR, s2) # (TOK_NEWLINE, []) # tail"
    have p: "items (adv (adv p)) = ds @ ?r" using i by (simp add: feed line_end_def)
    obtain q where q: "items q = ?r" "ev (\<lambda>n k. \<forall>v. dotted_loop n v (adv (adv p)) = Some (v @ m, q))"
      using dots_ok [OF assms(1) p] by auto
    let ?a = "AST_FROM_IMPORT (pos_previous (adv p)) (v @ m) [AST_IDENT (pos_previous (adv p)) ''*''] [None]"
    have "ev (\<lambda>n c. \<exists>f. parse_keyword_stmt n (parse_calls c) (pos_current p) TOK_FROM = Some f \<and> f (adv p) = Some (?a, adv (adv q)))"
      by (rule ev_elim1 [OF q(2)]) (use i q(1) in \<open>simp add: parse_keyword_stmt_def parse_from_import_def feed layout_kind_def line_end_def\<close>)
    then show "\<exists>b q. erase b = ?t \<and> items q = line_end False @ tail \<and>
        ev (\<lambda>n c. \<exists>f. parse_keyword_stmt n (parse_calls c) (pos_current p) TOK_FROM = Some f \<and> f (adv p) = Some (b, q))"
      using q(1) by (intro exI [of _ ?a] exI [of _ "adv (adv q)"]) (simp add: line_end_def feed)
  qed (simp add: stmt_keywords_def)
  then show ?thesis by (simp add: line_end_def)
qed

lemma imported_ok:
  "imported ws vs as \<Longrightarrow> items p = ws @ tail \<Longrightarrow> tail \<noteq> [] \<Longrightarrow> fst (hd tail) \<notin> {TOK_COMMA, TOK_AS} \<Longrightarrow>
    \<exists>xs q. map (erase \<circ> fst) xs = vs \<and> map (map_option erase \<circ> snd) xs = as \<and> items q = tail \<and> ev (\<lambda>n k. import_names n p = Some (xs, q))"
proof (induction arbitrary: p rule: imported.induct)
  case (imported_one as a v)
  have p: "items (adv p) = as @ tail" using imported_one by (simp add: feed)
  have "fst (hd tail) \<noteq> TOK_AS" using imported_one.prems(3) by simp
  then obtain x q where x: "alias_step (''Expected alias after '' @ quoted ''as'') (adv p) = Some (x, q)" "map_option snd x = a" "items q = tail"
    using alias_ok [OF imported_one(1) p imported_one.prems(2)] by blast
  let ?n = "(AST_IDENT (pos_previous (adv p)) v, map_option (\<lambda>(q, v). AST_IDENT q v) x)"
  have "ev (\<lambda>n k. import_names n p = Some ([?n], q))"
    by (rule ev_loop, rule ev_all) (use imported_one x in \<open>simp add: import_names_inline feed layout_kind_def del: import_names.simps\<close>)
  then show ?case using x(2,3) by (intro exI [of _ "[?n]"] exI [of _ q]) (cases x; auto)
next
  case (imported_more as a ws vs bs v s)
  have ne: "ws \<noteq> []" using imported_more(2) by (cases rule: imported.cases) simp_all
  have p: "items (adv p) = as @ (TOK_COMMA, s) # ws @ tail" using imported_more.prems by (simp add: feed)
  obtain x q where x: "alias_step (''Expected alias after '' @ quoted ''as'') (adv p) = Some (x, q)" "map_option snd x = a" "items q = (TOK_COMMA, s) # ws @ tail"
    by (rule alias_ok [OF imported_more(1) p]) simp_all
  have q: "items (adv q) = ws @ tail" using x(3) ne by (simp add: feed)
  obtain xs q2 where xs: "map (erase \<circ> fst) xs = vs" "map (map_option erase \<circ> snd) xs = bs" "items q2 = tail" "ev (\<lambda>n k. import_names n (adv q) = Some (xs, q2))"
    using imported_more.IH [OF q imported_more.prems(2,3)] by blast
  let ?n = "(AST_IDENT (pos_previous (adv p)) v, map_option (\<lambda>(q, v). AST_IDENT q v) x)"
  have "ev (\<lambda>n k. import_names n p = Some (?n # xs, q2))"
    by (rule ev_loop, rule ev_elim1 [OF xs(4)])
      (use imported_more.prems x ne in \<open>simp add: import_names_inline feed layout_kind_def del: import_names.simps\<close>)
  then show ?case using x(2) xs by (intro exI [of _ "?n # xs"] exI [of _ q2]) (cases x; auto simp: o_def)
qed

lemma accepts_from:
  assumes "dots ds m" "imported ws vs as"
  shows "accepts_stmt False ((TOK_FROM, s) # (TOK_IDENT, v) # ds @ (TOK_IMPORT, s1) # ws @ [(TOK_NEWLINE, [])])
      (AST_FROM_IMPORT nowhere (v @ m) vs as)" (is "accepts_stmt False ?ws ?t")
proof -
  have "accepts_stmt False ((TOK_FROM, s) # ((TOK_IDENT, v) # ds @ (TOK_IMPORT, s1) # ws) @ line_end False) ?t"
  proof (rule accepts_keyword)
    fix p tail assume i: "items p = (TOK_FROM, s) # ((TOK_IDENT, v) # ds @ (TOK_IMPORT, s1) # ws) @ line_end False @ tail"
    let ?r = "(TOK_IMPORT, s1) # ws @ (TOK_NEWLINE, []) # tail"
    have p: "items (adv (adv p)) = ds @ ?r" using i by (simp add: feed line_end_def)
    obtain q where q: "items q = ?r" "ev (\<lambda>n k. \<forall>v. dotted_loop n v (adv (adv p)) = Some (v @ m, q))"
      using dots_ok [OF assms(1) p] by auto
    have w: "ws \<noteq> []" "fst (hd ws) = TOK_IDENT" using assms(2) by (cases rule: imported.cases; simp)+
    have q1: "items (adv q) = ws @ (TOK_NEWLINE, []) # tail" using q(1) by (simp add: feed)
    obtain xs q2 where xs: "map (erase \<circ> fst) xs = vs" "map (map_option erase \<circ> snd) xs = as" "items q2 = (TOK_NEWLINE, []) # tail"
      "ev (\<lambda>n k. import_names n (adv q) = Some (xs, q2))"
      using imported_ok [OF assms(2) q1] by auto
    let ?a = "AST_FROM_IMPORT (pos_previous (adv p)) (v @ m) (map fst xs) (map snd xs)"
    have "ev (\<lambda>n c. \<exists>f. parse_keyword_stmt n (parse_calls c) (pos_current p) TOK_FROM = Some f \<and> f (adv p) = Some (?a, q2))"
      by (rule ev_elim2 [OF q(2) xs(4)]) (use i q(1) w in \<open>simp add: parse_keyword_stmt_def parse_from_import_def feed layout_kind_def line_end_def\<close>)
    then show "\<exists>b q. erase b = ?t \<and> items q = line_end False @ tail \<and>
        ev (\<lambda>n c. \<exists>f. parse_keyword_stmt n (parse_calls c) (pos_current p) TOK_FROM = Some f \<and> f (adv p) = Some (b, q))"
      using xs by (intro exI [of _ ?a] exI [of _ q2]) (simp add: line_end_def o_def)
  qed (simp add: stmt_keywords_def)
  then show ?thesis by (simp add: line_end_def)
qed

section \<open>Conditions and loops\<close>

lemma stops_colon: "stops Expr ((TOK_COLON, s) # ws)"
  by (rule stops_closer) (simp add: closers_def)

lemma block_nonempty: "accepts_block ws t \<Longrightarrow> ws \<noteq> []"
  by (simp add: accepts_block_def)

text \<open>An expression, a colon and a block behind a token.\<close>

lemma head_block_ok:
  assumes "accepts Expr b ws c" "accepts_block bs t" "items p = x # ws @ (TOK_COLON, s) # bs @ tail" "tail \<noteq> []"
  obtains a q e q' where "erase a = c" "erase e = t" "items q' = tail" "items q = (TOK_COLON, s) # bs @ tail"
    "ev (\<lambda>n k. c_expr (parse_calls k) (adv p) = Some (a, q))" "ev (\<lambda>n k. c_block (parse_calls k) (adv q) = Some (e, q'))"
proof -
  obtain a q where a: "erase a = c" "items q = (TOK_COLON, s) # bs @ tail" "ev (\<lambda>n k. c_expr (parse_calls k) (adv p) = Some (a, q))"
    by (rule accepts_expr_behind [OF assms(1,3) stops_colon])
  obtain e q' where e: "erase e = t" "items q' = tail" "ev (\<lambda>n k. c_block (parse_calls k) (adv q) = Some (e, q'))"
    by (rule block_behind [OF assms(2) a(2) assms(4)])
  show thesis using that a e by blast
qed

definition accepts_elifs :: "item list \<Rightarrow> ast list \<Rightarrow> ast list \<Rightarrow> bool" where
  "accepts_elifs es cs ts \<longleftrightarrow> (es = [] \<or> fst (hd es) = TOK_ELIF) \<and>
     (\<forall>p tail. items p = es @ tail \<longrightarrow> tail \<noteq> [] \<longrightarrow> fst (hd tail) \<notin> {TOK_ELIF, TOK_NEWLINE} \<longrightarrow>
       (\<exists>xs q. map (erase \<circ> fst) xs = cs \<and> map (erase \<circ> snd) xs = ts \<and> items q = tail \<and>
          ev (\<lambda>n k. elif_loop n (parse_calls k) p = Some (xs, q))))"

lemma elifs_ok:
  assumes "accepts_elifs es cs ts" "items p = es @ tail" "tail \<noteq> []" "fst (hd tail) \<notin> {TOK_ELIF, TOK_NEWLINE}"
  obtains xs q where "map (erase \<circ> fst) xs = cs" "map (erase \<circ> snd) xs = ts" "items q = tail"
    "ev (\<lambda>n k. elif_loop n (parse_calls k) p = Some (xs, q))"
  using assms unfolding accepts_elifs_def by blast

lemma accepts_elifs_nil: "accepts_elifs [] [] []"
  unfolding accepts_elifs_def
proof (intro conjI allI impI)
  fix p tail assume p: "items p = [] @ tail" "tail \<noteq> []" "fst (hd tail) \<notin> {TOK_ELIF, TOK_NEWLINE}"
  have "ev (\<lambda>n k. elif_loop n (parse_calls k) p = Some ([], p))" by (rule ev_loop, rule ev_all) (use p in \<open>simp add: feed\<close>)
  then show "\<exists>xs q. map (erase \<circ> fst) xs = [] \<and> map (erase \<circ> snd) xs = [] \<and> items q = tail \<and>
      ev (\<lambda>n k. elif_loop n (parse_calls k) p = Some (xs, q))" using p(1) by auto
qed simp

lemma accepts_elifs_more:
  assumes "accepts Expr b ws c" "accepts_block bs t" "accepts_elifs es cs ts"
  shows "accepts_elifs ((TOK_ELIF, s) # ws @ (TOK_COLON, s') # bs @ es) (c # cs) (t # ts)"
  unfolding accepts_elifs_def
proof (intro conjI allI impI)
  fix p tail assume i: "items p = ((TOK_ELIF, s) # ws @ (TOK_COLON, s') # bs @ es) @ tail" and tl: "tail \<noteq> []" "fst (hd tail) \<notin> {TOK_ELIF, TOK_NEWLINE}"
  have p: "items p = (TOK_ELIF, s) # ws @ (TOK_COLON, s') # bs @ (es @ tail)" using i by simp
  obtain a q e q' where a: "erase a = c" "erase e = t" "items q' = es @ tail" "items q = (TOK_COLON, s') # bs @ es @ tail"
    "ev (\<lambda>n k. c_expr (parse_calls k) (adv p) = Some (a, q))" "ev (\<lambda>n k. c_block (parse_calls k) (adv q) = Some (e, q'))"
    by (rule head_block_ok [OF assms(1,2) p]) (use tl in simp)
  obtain xs q2 where xs: "map (erase \<circ> fst) xs = cs" "map (erase \<circ> snd) xs = ts" "items q2 = tail"
    "ev (\<lambda>n k. elif_loop n (parse_calls k) q' = Some (xs, q2))"
    by (rule elifs_ok [OF assms(3) a(3) tl])
  have h: "items q' \<noteq> []" "fst (hd (items q')) \<noteq> TOK_NEWLINE" using assms(3) a(3) tl by (cases es; auto simp: accepts_elifs_def)+
  have "ev (\<lambda>n k. elif_loop n (parse_calls k) p = Some ((a, e) # xs, q2))"
    by (rule ev_loop, rule ev_elim3 [OF a(5,6) xs(4)])
      (use p a(4) h accepts_nonempty [OF assms(1)] block_nonempty [OF assms(2)] in \<open>simp add: feed\<close>)
  then show "\<exists>xs q. map (erase \<circ> fst) xs = c # cs \<and> map (erase \<circ> snd) xs = t # ts \<and> items q = tail \<and>
      ev (\<lambda>n k. elif_loop n (parse_calls k) p = Some (xs, q))"
    using a xs by (intro exI [of _ "(a, e) # xs"] exI [of _ q2]) (simp add: o_def)
qed simp

definition accepts_clause :: "token_kind \<Rightarrow> item list \<Rightarrow> ast option \<Rightarrow> bool" where
  "accepts_clause k ws r \<longleftrightarrow>
     (case r of None \<Rightarrow> ws = [] | Some t \<Rightarrow> \<exists>s s' bs. ws = (k, s) # (TOK_COLON, s') # bs \<and> accepts_block bs t)"

lemma clause_ok:
  assumes "accepts_clause k ws r" "items p = ws @ tail" "tail \<noteq> []" "fst (hd tail) \<noteq> k"
  obtains e q where "map_option erase e = r" "items q = tail" "ev (\<lambda>n c. clause_block k what (parse_calls c) p = Some (e, q))"
proof (cases r)
  case None
  then have p: "items p = tail" using assms by (simp add: accepts_clause_def)
  have "ev (\<lambda>n c. clause_block k what (parse_calls c) p = Some (None, p))"
    by (rule ev_all) (use p assms(3,4) in \<open>simp add: clause_block_def feed\<close>)
  then show thesis using that [of None p] None p by simp
next
  case (Some t)
  then obtain s s' bs where w: "ws = (k, s) # (TOK_COLON, s') # bs" "accepts_block bs t" using assms(1) by (auto simp: accepts_clause_def)
  have p: "items p = (k, s) # (TOK_COLON, s') # bs @ tail" using assms(2) w by simp
  then have p1: "items (adv p) = (TOK_COLON, s') # bs @ tail" by (simp add: feed)
  obtain e q where e: "erase e = t" "items q = tail" "ev (\<lambda>n c. c_block (parse_calls c) (adv (adv p)) = Some (e, q))"
    by (rule block_behind [OF w(2) p1 assms(3)])
  have "ev (\<lambda>n c. clause_block k what (parse_calls c) p = Some (Some e, q))"
    by (rule ev_elim1 [OF e(3)]) (use p p1 block_nonempty [OF w(2)] in \<open>simp add: clause_block_def feed\<close>)
  then show thesis using that [of "Some e" q] Some e by simp
qed

lemma clause_head:
  assumes "accepts_clause k ws r" "ws @ tail \<noteq> []"
  shows "fst (hd (ws @ tail)) = (if r = None then fst (hd tail) else k)"
  using assms by (cases r) (auto simp: accepts_clause_def)

text \<open>A statement with its keyword and body and no line end of its own.\<close>

lemma accepts_compound:
  assumes kw: "k \<in> set stmt_keywords"
    and body: "\<And>p tail. items p = (k, s) # xs @ tail \<Longrightarrow> follows False tail \<Longrightarrow>
      \<exists>a q. erase a = t \<and> items q = tail \<and>
        ev (\<lambda>n c. \<exists>f. parse_keyword_stmt n (parse_calls c) (pos_current p) k = Some f \<and> f (adv p) = Some (a, q))"
  shows "accepts_stmt False ((k, s) # xs) t"
proof -
  have "accepts_stmt False ((k, s) # xs @ line_end True) t"
    by (rule accepts_keyword [OF kw]) (use body in \<open>simp add: line_end_def\<close>)
  then show ?thesis by (simp add: line_end_def)
qed

lemma accepts_if:
  assumes "accepts Expr b ws c" "accepts_block bs t" "accepts_elifs es cs ts" "accepts_clause TOK_ELSE us e"
  shows "accepts_stmt False ((TOK_IF, s) # ws @ (TOK_COLON, s') # bs @ es @ us) (AST_IF nowhere c t cs ts e)"
proof (rule accepts_compound)
  fix p tail assume i: "items p = (TOK_IF, s) # (ws @ (TOK_COLON, s') # bs @ es @ us) @ tail" and fo: "follows False tail"
  have p: "items p = (TOK_IF, s) # ws @ (TOK_COLON, s') # bs @ (es @ us @ tail)" using i by simp
  have tl: "tail \<noteq> []" "fst (hd tail) \<notin> {TOK_ELIF, TOK_NEWLINE, TOK_ELSE}" using fo by (auto simp: follows_def)
  obtain a q f q' where a: "erase a = c" "erase f = t" "items q' = es @ us @ tail" "items q = (TOK_COLON, s') # bs @ es @ us @ tail"
    "ev (\<lambda>n k. c_expr (parse_calls k) (adv p) = Some (a, q))" "ev (\<lambda>n k. c_block (parse_calls k) (adv q) = Some (f, q'))"
    by (rule head_block_ok [OF assms(1,2) p]) (use tl in simp)
  have u: "us @ tail \<noteq> []" "fst (hd (us @ tail)) \<notin> {TOK_ELIF, TOK_NEWLINE}" using clause_head [OF assms(4), of tail] tl by auto
  obtain xs q2 where xs: "map (erase \<circ> fst) xs = cs" "map (erase \<circ> snd) xs = ts" "items q2 = us @ tail"
    "ev (\<lambda>n k. elif_loop n (parse_calls k) q' = Some (xs, q2))"
    by (rule elifs_ok [OF assms(3) a(3) u])
  have he: "fst (hd tail) \<noteq> TOK_ELSE" using tl(2) by simp
  obtain g q3 where g: "map_option erase g = e" "items q3 = tail" "ev (\<lambda>n k. clause_block TOK_ELSE ''else'' (parse_calls k) q2 = Some (g, q3))"
    by (rule clause_ok [OF assms(4) xs(3) tl(1) he])
  have h: "items q' \<noteq> []" "fst (hd (items q')) \<noteq> TOK_NEWLINE" using assms(3) a(3) u by (cases es; auto simp: accepts_elifs_def)+
  let ?a = "AST_IF (pos_previous (adv p)) a f (map fst xs) (map snd xs) g"
  have "ev (\<lambda>n c. \<exists>f. parse_keyword_stmt n (parse_calls c) (pos_current p) TOK_IF = Some f \<and> f (adv p) = Some (?a, q3))"
    by (rule ev_elim4 [OF a(5,6) xs(4) g(3)])
      (use a(4) h block_nonempty [OF assms(2)] in \<open>simp add: parse_keyword_stmt_def parse_if_def feed\<close>)
  moreover have "erase ?a = AST_IF nowhere c t cs ts e" using a(1,2) xs(1,2) g(1) by (simp add: o_def)
  ultimately show "\<exists>a q. erase a = AST_IF nowhere c t cs ts e \<and> items q = tail \<and>
      ev (\<lambda>n c. \<exists>f. parse_keyword_stmt n (parse_calls c) (pos_current p) TOK_IF = Some f \<and> f (adv p) = Some (a, q))"
    using g(2) by blast
qed (simp add: stmt_keywords_def)

lemma accepts_while:
  assumes "accepts Expr b ws c" "accepts_block bs t"
  shows "accepts_stmt False ((TOK_WHILE, s) # ws @ (TOK_COLON, s') # bs) (AST_WHILE nowhere c t)"
proof (rule accepts_compound)
  fix p tail assume i: "items p = (TOK_WHILE, s) # (ws @ (TOK_COLON, s') # bs) @ tail" and fo: "follows False tail"
  have p: "items p = (TOK_WHILE, s) # ws @ (TOK_COLON, s') # bs @ tail" using i by simp
  obtain a q f q' where a: "erase a = c" "erase f = t" "items q' = tail" "items q = (TOK_COLON, s') # bs @ tail"
    "ev (\<lambda>n k. c_expr (parse_calls k) (adv p) = Some (a, q))" "ev (\<lambda>n k. c_block (parse_calls k) (adv q) = Some (f, q'))"
    by (rule head_block_ok [OF assms(1,2) p follows_nonempty [OF fo]])
  have "ev (\<lambda>n c. \<exists>g. parse_keyword_stmt n (parse_calls c) (pos_current p) TOK_WHILE = Some g \<and>
      g (adv p) = Some (AST_WHILE (pos_previous (adv p)) a f, q'))"
    by (rule ev_elim2 [OF a(5,6)]) (use a(4) block_nonempty [OF assms(2)] in \<open>simp add: parse_keyword_stmt_def parse_while_def feed\<close>)
  then show "\<exists>a q. erase a = AST_WHILE nowhere c t \<and> items q = tail \<and>
      ev (\<lambda>n c. \<exists>f. parse_keyword_stmt n (parse_calls c) (pos_current p) TOK_WHILE = Some f \<and> f (adv p) = Some (a, q))"
    using a by (intro exI [of _ "AST_WHILE (pos_previous (adv p)) a f"] exI [of _ q']) simp
qed (simp add: stmt_keywords_def)

lemma accepts_for:
  assumes "names ns vs" "accepts Expr b ws i" "accepts_block bs t"
  shows "accepts_stmt False ((TOK_FOR, s) # ns @ (TOK_IN, s1) # ws @ (TOK_COLON, s2) # bs) (AST_FOR nowhere vs i t)"
proof (rule accepts_compound)
  fix p tail assume i0: "items p = (TOK_FOR, s) # (ns @ (TOK_IN, s1) # ws @ (TOK_COLON, s2) # bs) @ tail" and fo: "follows False tail"
  have p: "items (adv p) = ns @ (TOK_IN, s1) # ws @ (TOK_COLON, s2) # bs @ tail" using i0 by (simp add: feed)
  obtain xs q where x: "map snd xs = vs" "items q = (TOK_IN, s1) # ws @ (TOK_COLON, s2) # bs @ tail"
    "ev (\<lambda>n k. names_loop n ''Expected loop variable name'' (adv p) = Some (xs, q))"
    using names_ok [OF assms(1) p] by force
  obtain a q1 f q2 where a: "erase a = i" "erase f = t" "items q2 = tail" "items q1 = (TOK_COLON, s2) # bs @ tail"
    "ev (\<lambda>n k. c_expr (parse_calls k) (adv q) = Some (a, q1))" "ev (\<lambda>n k. c_block (parse_calls k) (adv q1) = Some (f, q2))"
    by (rule head_block_ok [OF assms(2,3) x(2) follows_nonempty [OF fo]])
  have "ev (\<lambda>n c. \<exists>g. parse_keyword_stmt n (parse_calls c) (pos_current p) TOK_FOR = Some g \<and>
      g (adv p) = Some (AST_FOR (pos_previous (adv p)) vs a f, q2))"
    by (rule ev_elim3 [OF x(3) a(5,6)])
      (use a(4) x(1,2) accepts_nonempty [OF assms(2)] block_nonempty [OF assms(3)] in \<open>simp add: parse_keyword_stmt_def parse_for_def feed\<close>)
  then show "\<exists>a q. erase a = AST_FOR nowhere vs i t \<and> items q = tail \<and>
      ev (\<lambda>n c. \<exists>f. parse_keyword_stmt n (parse_calls c) (pos_current p) TOK_FOR = Some f \<and> f (adv p) = Some (a, q))"
    using a by (intro exI [of _ "AST_FOR (pos_previous (adv p)) vs a f"] exI [of _ q2]) simp
qed (simp add: stmt_keywords_def)

lemma accepts_with:
  assumes "accepts Expr b ws m" "alias_name as v" "accepts_block bs t"
  shows "accepts_stmt False ((TOK_WITH, s) # ws @ as @ (TOK_COLON, s') # bs) (AST_WITH nowhere v m t)"
proof (rule accepts_compound)
  fix p tail assume i0: "items p = (TOK_WITH, s) # (ws @ as @ (TOK_COLON, s') # bs) @ tail" and fo: "follows False tail"
  have p: "items p = (TOK_WITH, s) # ws @ (as @ (TOK_COLON, s') # bs @ tail)" using i0 by simp
  have st: "stops Expr (as @ (TOK_COLON, s') # bs @ tail)"
    using assms(2) by (cases rule: alias_name.cases) (auto intro!: stops_closer simp: closers_def)
  obtain a q where a: "erase a = m" "items q = as @ (TOK_COLON, s') # bs @ tail" "ev (\<lambda>n k. c_expr (parse_calls k) (adv p) = Some (a, q))"
    by (rule accepts_expr_behind [OF assms(1) p st])
  obtain x q1 where x: "alias_step (''Expected variable name after '' @ quoted ''as'') q = Some (x, q1)" "map_option snd x = v"
    "items q1 = (TOK_COLON, s') # bs @ tail"
    by (rule alias_ok [OF assms(2) a(2)]) simp_all
  obtain f q2 where f: "erase f = t" "items q2 = tail" "ev (\<lambda>n k. c_block (parse_calls k) (adv q1) = Some (f, q2))"
    by (rule block_behind [OF assms(3) x(3) follows_nonempty [OF fo]])
  have "ev (\<lambda>n c. \<exists>g. parse_keyword_stmt n (parse_calls c) (pos_current p) TOK_WITH = Some g \<and>
      g (adv p) = Some (AST_WITH (pos_previous (adv p)) v a f, q2))"
    by (rule ev_elim2 [OF a(3) f(3)])
      (use x block_nonempty [OF assms(3)] in \<open>simp add: parse_keyword_stmt_def with_inline feed\<close>)
  then show "\<exists>a q. erase a = AST_WITH nowhere v m t \<and> items q = tail \<and>
      ev (\<lambda>n c. \<exists>f. parse_keyword_stmt n (parse_calls c) (pos_current p) TOK_WITH = Some f \<and> f (adv p) = Some (a, q))"
    using a f by (intro exI [of _ "AST_WITH (pos_previous (adv p)) v a f"] exI [of _ q2]) simp
qed (simp add: stmt_keywords_def)

end
