(* ===== verification/ParserDefs.thy ===== *)
theory ParserDefs
  imports ParserCompound
begin

text \<open>
  The parser accepts function, class, struct and enum definitions, try statements and match statements of the grammar.
\<close>

section \<open>Functions\<close>

definition erase_param :: "ast_param \<Rightarrow> ast_param" where
  "erase_param = map_prod id (map_prod id (map_option erase))"

lemma erase_param [simp]: "erase_param (v, h, d) = (v, h, map_option erase d)"
  by (simp add: erase_param_def)

definition accepts_params :: "item list \<Rightarrow> ast_param list \<Rightarrow> bool" where
  "accepts_params ws ps \<longleftrightarrow> (\<forall>p s tail. items p = ws @ (TOK_RPAREN, s) # tail \<longrightarrow>
     (\<exists>qs q. map erase_param qs = ps \<and> items q = (TOK_RPAREN, s) # tail \<and> ev (\<lambda>n k. params_loop n (parse_calls k) p = Some (qs, q))))"

lemma accepts_params_nil: "accepts_params [] []"
  unfolding accepts_params_def
proof (intro allI impI)
  fix p s tail assume p: "items p = [] @ (TOK_RPAREN, s) # tail"
  have "ev (\<lambda>n k. params_loop n (parse_calls k) p = Some ([], p))" by (rule ev_loop, rule ev_all) (use p in \<open>simp add: feed\<close>)
  then show "\<exists>qs q. map erase_param qs = [] \<and> items q = (TOK_RPAREN, s) # tail \<and> ev (\<lambda>n k. params_loop n (parse_calls k) p = Some (qs, q))"
    using p by auto
qed

text \<open>A parameter up to the comma or the closing parenthesis.\<close>

lemma param_ok:
  assumes "k \<in> {TOK_IDENT, TOK_SELF, TOK_SUPER}" "typed ts h" "accepts_optional TOK_ASSIGN ds d"
    "items p = (k, v) # ts @ ds @ (c, s) # tail" "c = TOK_COMMA \<or> c = TOK_RPAREN"
  obtains q e q' where "map_option erase e = d" "items q' = (c, s) # tail"
    "(if p_check p TOK_SELF \<or> p_check p TOK_SUPER then p_advance p else p_consume p TOK_IDENT ''Expected parameter name'') = Some (adv p)"
    "previous_text (adv p) = v" "ev (\<lambda>n k. skip_typed n (adv p) = Some (h, q))" "ev (\<lambda>n k. optional_expr TOK_ASSIGN (parse_calls k) q = Some (e, q'))"
    "\<not> p_check p TOK_RPAREN" "\<not> p_check p TOK_EOF"
proof -
  have p: "items (adv p) = ts @ ds @ (c, s) # tail" using assms(4) by (simp add: feed)
  have t: "ends_annotation (ds @ (c, s) # tail)" "fst (hd (ds @ (c, s) # tail)) \<noteq> TOK_COLON"
    using assms(3,5) by (cases d; auto simp: accepts_optional_def ends_annotation_def)+
  obtain q where q: "items q = ds @ (c, s) # tail" "ev (\<lambda>n k. skip_typed n (adv p) = Some (h, q))"
    by (rule typed_ok [OF assms(2) p t])
  have st: "stops Expr ((c, s) # tail)" "fst (hd ((c, s) # tail)) \<noteq> TOK_ASSIGN"
    using assms(5) by (auto intro!: stops_closer simp: closers_def)
  obtain e q' where e: "map_option erase e = d" "items q' = (c, s) # tail" "ev (\<lambda>n k. optional_expr TOK_ASSIGN (parse_calls k) q = Some (e, q'))"
    by (rule optional_ok [OF assms(3) q(1) st])
  have "(if p_check p TOK_SELF \<or> p_check p TOK_SUPER then p_advance p else p_consume p TOK_IDENT ''Expected parameter name'') = Some (adv p)"
    "previous_text (adv p) = v" "\<not> p_check p TOK_RPAREN" "\<not> p_check p TOK_EOF"
    using assms(1,4) by (auto simp: feed layout_kind_def)
  then show thesis using that e q(2) by blast
qed

lemma accepts_params_one:
  assumes "k \<in> {TOK_IDENT, TOK_SELF, TOK_SUPER}" "typed ts h" "accepts_optional TOK_ASSIGN ds d"
  shows "accepts_params ((k, v) # ts @ ds) [(v, h, d)]"
  unfolding accepts_params_def
proof (intro allI impI)
  fix p s tail assume i: "items p = ((k, v) # ts @ ds) @ (TOK_RPAREN, s) # tail"
  then have p: "items p = (k, v) # ts @ ds @ (TOK_RPAREN, s) # tail" by simp
  obtain q e q' where e: "map_option erase e = d" "items q' = (TOK_RPAREN, s) # tail"
    "(if p_check p TOK_SELF \<or> p_check p TOK_SUPER then p_advance p else p_consume p TOK_IDENT ''Expected parameter name'') = Some (adv p)"
    "previous_text (adv p) = v" "ev (\<lambda>n k. skip_typed n (adv p) = Some (h, q))" "ev (\<lambda>n k. optional_expr TOK_ASSIGN (parse_calls k) q = Some (e, q'))"
    "\<not> p_check p TOK_RPAREN" "\<not> p_check p TOK_EOF"
    by (rule param_ok [OF assms p]) simp
  have "ev (\<lambda>n k. params_loop n (parse_calls k) p = Some ([(v, h, e)], q'))"
    by (rule ev_loop, rule ev_elim2 [OF e(5,6)]) (use e(2,4,7,8) in \<open>simp add: e(3) feed(10,11)\<close>)
  then show "\<exists>qs q. map erase_param qs = [(v, h, d)] \<and> items q = (TOK_RPAREN, s) # tail \<and> ev (\<lambda>n k. params_loop n (parse_calls k) p = Some (qs, q))"
    using e(1,2) by (intro exI [of _ "[(v, h, e)]"] exI [of _ q']) simp
qed

lemma accepts_params_more:
  assumes "k \<in> {TOK_IDENT, TOK_SELF, TOK_SUPER}" "typed ts h" "accepts_optional TOK_ASSIGN ds d" "accepts_params ws ps"
  shows "accepts_params ((k, v) # ts @ ds @ (TOK_COMMA, s') # ws) ((v, h, d) # ps)"
  unfolding accepts_params_def
proof (intro allI impI)
  fix p s tail assume i: "items p = ((k, v) # ts @ ds @ (TOK_COMMA, s') # ws) @ (TOK_RPAREN, s) # tail"
  then have p: "items p = (k, v) # ts @ ds @ (TOK_COMMA, s') # ws @ (TOK_RPAREN, s) # tail" by simp
  obtain q e q' where e: "map_option erase e = d" "items q' = (TOK_COMMA, s') # ws @ (TOK_RPAREN, s) # tail"
    "(if p_check p TOK_SELF \<or> p_check p TOK_SUPER then p_advance p else p_consume p TOK_IDENT ''Expected parameter name'') = Some (adv p)"
    "previous_text (adv p) = v" "ev (\<lambda>n k. skip_typed n (adv p) = Some (h, q))" "ev (\<lambda>n k. optional_expr TOK_ASSIGN (parse_calls k) q = Some (e, q'))"
    "\<not> p_check p TOK_RPAREN" "\<not> p_check p TOK_EOF"
    by (rule param_ok [OF assms(1-3) p]) simp
  have q: "items (adv q') = ws @ (TOK_RPAREN, s) # tail" using e(2) by (simp add: feed)
  obtain qs q2 where r: "map erase_param qs = ps" "items q2 = (TOK_RPAREN, s) # tail" "ev (\<lambda>n k. params_loop n (parse_calls k) (adv q') = Some (qs, q2))"
    using assms(4) q unfolding accepts_params_def by blast
  have "ev (\<lambda>n k. params_loop n (parse_calls k) p = Some ((v, h, e) # qs, q2))"
    by (rule ev_loop, rule ev_elim3 [OF e(5,6) r(3)]) (use e(2,4,7,8) in \<open>simp add: e(3) feed(10,11)\<close>)
  then show "\<exists>qs q. map erase_param qs = (v, h, d) # ps \<and> items q = (TOK_RPAREN, s) # tail \<and> ev (\<lambda>n k. params_loop n (parse_calls k) p = Some (qs, q))"
    using e(1) r by (intro exI [of _ "(v, h, e) # qs"] exI [of _ q2]) simp
qed

definition accepts_signature :: "item list \<Rightarrow> string \<Rightarrow> ast_param list \<Rightarrow> ast \<Rightarrow> bool" where
  "accepts_signature ws v ps t \<longleftrightarrow> ws \<noteq> [] \<and> (\<forall>p tail. items p = ws @ tail \<longrightarrow> tail \<noteq> [] \<longrightarrow>
     (\<exists>qs a q. map erase_param qs = ps \<and> erase a = t \<and> items q = tail \<and>
        ev (\<lambda>n k. \<forall>f ds. parse_func_def n (parse_calls k) f ds p =
          Some ((if f then AST_ASYNC_FUNC_DEF else AST_FUNC_DEF) (pos_previous p) v qs a ds, q))))"

lemma accepts_signature_intro:
  assumes "accepts_params ws ps" "returns rs" "accepts_block bs t"
  shows "accepts_signature ((TOK_IDENT, v) # (TOK_LPAREN, s1) # ws @ (TOK_RPAREN, s2) # rs @ (TOK_COLON, s3) # bs) v ps t"
  unfolding accepts_signature_def
proof (intro conjI allI impI)
  fix p tail assume i: "items p = ((TOK_IDENT, v) # (TOK_LPAREN, s1) # ws @ (TOK_RPAREN, s2) # rs @ (TOK_COLON, s3) # bs) @ tail" and tl: "tail \<noteq> []"
  let ?r = "rs @ (TOK_COLON, s3) # bs @ tail"
  have p: "items (adv (adv p)) = ws @ (TOK_RPAREN, s2) # ?r" using i by (simp add: feed)
  obtain qs q where q: "map erase_param qs = ps" "items q = (TOK_RPAREN, s2) # ?r" "ev (\<lambda>n k. params_loop n (parse_calls k) (adv (adv p)) = Some (qs, q))"
    using assms(1) p unfolding accepts_params_def by blast
  have q1: "items (adv q) = ?r" using q(2) by (simp add: feed)
  obtain x q' q2 where q2: "items q2 = (TOK_COLON, s3) # bs @ tail"
    "ev (\<lambda>n k. (if x then skip_type_annotation n q' else Some q') = Some q2)" and x: "p_match (adv q) TOK_ARROW = Some (x, q')"
    using assms(2)
  proof cases
    case returns_none
    then show thesis using that [of "adv q" False "adv q"] q1 by (simp add: feed ev_all)
  next
    case (returns_some us s)
    note h = annotation_head [OF returns_some(2)]
    have p2: "items (adv (adv q)) = us @ (TOK_COLON, s3) # bs @ tail" using q1 returns_some h by (simp add: feed)
    obtain q2 where "items q2 = (TOK_COLON, s3) # bs @ tail" "ev (\<lambda>n k. skip_type_annotation n (adv (adv q)) = Some q2)"
      by (rule annotation_ok [OF returns_some(2) p2]) (simp add: ends_annotation_def)
    then show thesis using that [of q2 True "adv (adv q)"] q1 returns_some h by (simp add: feed)
  qed
  obtain a q3 where a: "erase a = t" "items q3 = tail" "ev (\<lambda>n k. c_block (parse_calls k) (adv q2) = Some (a, q3))"
    by (rule block_behind [OF assms(3) q2(1) tl])
  have "ev (\<lambda>n k. \<forall>f ds. parse_func_def n (parse_calls k) f ds p =
      Some ((if f then AST_ASYNC_FUNC_DEF else AST_FUNC_DEF) (pos_previous p) v qs a ds, q3))"
    by (rule ev_elim3 [OF q(3) q2(2) a(3)])
      (use i q(2) q1 q2(1) x block_nonempty [OF assms(3)] in
        \<open>simp add: parse_func_def_def parse_params_def feed layout_kind_def\<close>)
  then show "\<exists>qs a q. map erase_param qs = ps \<and> erase a = t \<and> items q = tail \<and>
        ev (\<lambda>n k. \<forall>f ds. parse_func_def n (parse_calls k) f ds p =
          Some ((if f then AST_ASYNC_FUNC_DEF else AST_FUNC_DEF) (pos_previous p) v qs a ds, q))"
    using q(1) a by blast
qed simp

lemma signature_ok:
  assumes "accepts_signature ws v ps t" "items p = x # ws @ tail" "tail \<noteq> []"
  obtains qs a q where "map erase_param qs = ps" "erase a = t" "items q = tail"
    "ev (\<lambda>n k. \<forall>f ds. parse_func_def n (parse_calls k) f ds (adv p) =
       Some ((if f then AST_ASYNC_FUNC_DEF else AST_FUNC_DEF) (pos_previous (adv p)) v qs a ds, q))"
proof -
  have "items (adv p) = ws @ tail" using assms by (simp add: feed accepts_signature_def)
  then show thesis using assms(1,3) that unfolding accepts_signature_def by blast
qed

lemma erase_func:
  "map erase_param qs = ps \<Longrightarrow> erase a = t \<Longrightarrow> map erase xs = ds \<Longrightarrow>
    erase ((if f then AST_ASYNC_FUNC_DEF else AST_FUNC_DEF) x v qs a xs) = (if f then AST_ASYNC_FUNC_DEF else AST_FUNC_DEF) nowhere v ps t ds"
  by (auto simp: erase_param_def)

lemma accepts_func:
  assumes "accepts_signature ws v ps t"
  shows "accepts_stmt False ((TOK_FUNC, s) # ws) (AST_FUNC_DEF nowhere v ps t [])"
proof (rule accepts_compound)
  fix p tail assume p: "items p = (TOK_FUNC, s) # ws @ tail" and fo: "follows False tail"
  obtain qs a q where a: "map erase_param qs = ps" "erase a = t" "items q = tail"
    "ev (\<lambda>n k. \<forall>f ds. parse_func_def n (parse_calls k) f ds (adv p) =
       Some ((if f then AST_ASYNC_FUNC_DEF else AST_FUNC_DEF) (pos_previous (adv p)) v qs a ds, q))"
    by (rule signature_ok [OF assms p follows_nonempty [OF fo]])
  have "ev (\<lambda>n c. \<exists>f. parse_keyword_stmt n (parse_calls c) (pos_current p) TOK_FUNC = Some f \<and>
      f (adv p) = Some (AST_FUNC_DEF (pos_previous (adv p)) v qs a [], q))"
    by (rule ev_elim1 [OF a(4)]) (simp add: parse_keyword_stmt_def)
  then show "\<exists>a q. erase a = AST_FUNC_DEF nowhere v ps t [] \<and> items q = tail \<and>
      ev (\<lambda>n c. \<exists>f. parse_keyword_stmt n (parse_calls c) (pos_current p) TOK_FUNC = Some f \<and> f (adv p) = Some (a, q))"
    using a(3) erase_func [OF a(1,2), where xs = "[]" and ds = "[]" and f = False and x = "pos_previous (adv p)" and v = v]
    by (intro exI [of _ "AST_FUNC_DEF (pos_previous (adv p)) v qs a []"] exI [of _ q] conjI) simp_all
qed (simp add: stmt_keywords_def)

lemma accepts_async:
  assumes "accepts_signature ws v ps t"
  shows "accepts_stmt False ((TOK_ASYNC, s) # (TOK_FUNC, s') # ws) (AST_ASYNC_FUNC_DEF nowhere v ps t [])"
proof (rule accepts_compound)
  fix p tail assume i: "items p = (TOK_ASYNC, s) # ((TOK_FUNC, s') # ws) @ tail" and fo: "follows False tail"
  have p: "items (adv p) = (TOK_FUNC, s') # ws @ tail" using i by (simp add: feed)
  obtain qs a q where a: "map erase_param qs = ps" "erase a = t" "items q = tail"
    "ev (\<lambda>n k. \<forall>f ds. parse_func_def n (parse_calls k) f ds (adv (adv p)) =
       Some ((if f then AST_ASYNC_FUNC_DEF else AST_FUNC_DEF) (pos_previous (adv (adv p))) v qs a ds, q))"
    by (rule signature_ok [OF assms p follows_nonempty [OF fo]])
  have ne: "ws \<noteq> []" using assms by (simp add: accepts_signature_def)
  have "ev (\<lambda>n c. \<exists>f. parse_keyword_stmt n (parse_calls c) (pos_current p) TOK_ASYNC = Some f \<and>
      f (adv p) = Some (AST_ASYNC_FUNC_DEF (pos_previous (adv (adv p))) v qs a [], q))"
    by (rule ev_elim1 [OF a(4)]) (use p ne in \<open>simp add: parse_keyword_stmt_def feed\<close>)
  then show "\<exists>a q. erase a = AST_ASYNC_FUNC_DEF nowhere v ps t [] \<and> items q = tail \<and>
      ev (\<lambda>n c. \<exists>f. parse_keyword_stmt n (parse_calls c) (pos_current p) TOK_ASYNC = Some f \<and> f (adv p) = Some (a, q))"
    using a(3) erase_func [OF a(1,2), where xs = "[]" and ds = "[]" and f = True and x = "pos_previous (adv (adv p))" and v = v]
    by (intro exI [of _ "AST_ASYNC_FUNC_DEF (pos_previous (adv (adv p))) v qs a []"] exI [of _ q] conjI) simp_all
qed (simp add: stmt_keywords_def)

definition accepts_decorators :: "item list \<Rightarrow> ast list \<Rightarrow> bool" where
  "accepts_decorators ds ts \<longleftrightarrow> ds \<noteq> [] \<and> fst (hd ds) = TOK_AT_ARROW \<and>
     (\<forall>p tail. items p = ds @ tail \<longrightarrow> tail \<noteq> [] \<longrightarrow> fst (hd tail) \<in> {TOK_FUNC, TOK_ASYNC} \<longrightarrow>
       (\<exists>xs q. map erase xs = ts \<and> items q = tail \<and> ev (\<lambda>n k. decorators_loop n (parse_calls k) p = Some (xs, q))))"

lemma accepts_decorators_one:
  assumes "accepts Expr b ws t"
  shows "accepts_decorators ((TOK_AT_ARROW, s) # ws @ [(TOK_NEWLINE, [])]) [t]"
  unfolding accepts_decorators_def
proof (intro conjI allI impI)
  fix p tail assume i: "items p = ((TOK_AT_ARROW, s) # ws @ [(TOK_NEWLINE, [])]) @ tail" and tl: "tail \<noteq> []" "fst (hd tail) \<in> {TOK_FUNC, TOK_ASYNC}"
  have p: "items p = (TOK_AT_ARROW, s) # ws @ ((TOK_NEWLINE, []) # tail)" using i by simp
  have st: "stops Expr ((TOK_NEWLINE, []) # tail)" by (rule stops_newline) (use tl in auto)
  obtain a q where a: "erase a = t" "items q = (TOK_NEWLINE, []) # tail" "ev (\<lambda>n k. c_expr (parse_calls k) (adv p) = Some (a, q))"
    by (rule accepts_expr_behind [OF assms p st])
  have q: "items (adv q) = tail" using a(2) tl by (simp add: feed)
  have n: "ev (\<lambda>n k. decorators_loop n (parse_calls k) (adv q) = Some ([], adv q))"
    by (rule ev_loop, rule ev_all) (use q tl in \<open>auto simp: feed\<close>)
  have "ev (\<lambda>n k. decorators_loop n (parse_calls k) p = Some ([a], adv q))"
    by (rule ev_loop, rule ev_elim2 [OF a(3) n]) (use p a(2) q tl accepts_nonempty [OF assms] in \<open>auto simp: feed\<close>)
  then show "\<exists>xs q. map erase xs = [t] \<and> items q = tail \<and> ev (\<lambda>n k. decorators_loop n (parse_calls k) p = Some (xs, q))"
    using a(1) q by (intro exI [of _ "[a]"] exI [of _ "adv q"]) simp
qed simp_all

lemma accepts_decorators_more:
  assumes "accepts Expr b ws t" "accepts_decorators us ts"
  shows "accepts_decorators ((TOK_AT_ARROW, s) # ws @ (TOK_NEWLINE, []) # us) (t # ts)"
  unfolding accepts_decorators_def
proof (intro conjI allI impI)
  fix p tail assume i: "items p = ((TOK_AT_ARROW, s) # ws @ (TOK_NEWLINE, []) # us) @ tail" and tl: "tail \<noteq> []" "fst (hd tail) \<in> {TOK_FUNC, TOK_ASYNC}"
  have p: "items p = (TOK_AT_ARROW, s) # ws @ ((TOK_NEWLINE, []) # us @ tail)" using i by simp
  have u: "us \<noteq> []" "fst (hd us) = TOK_AT_ARROW" using assms(2) by (simp_all add: accepts_decorators_def)
  have st: "stops Expr ((TOK_NEWLINE, []) # us @ tail)" by (rule stops_newline) (use u in auto)
  obtain a q where a: "erase a = t" "items q = (TOK_NEWLINE, []) # us @ tail" "ev (\<lambda>n k. c_expr (parse_calls k) (adv p) = Some (a, q))"
    by (rule accepts_expr_behind [OF assms(1) p st])
  have q: "items (adv q) = us @ tail" using a(2) u by (simp add: feed)
  obtain xs q2 where xs: "map erase xs = ts" "items q2 = tail" "ev (\<lambda>n k. decorators_loop n (parse_calls k) (adv q) = Some (xs, q2))"
    using assms(2) q tl unfolding accepts_decorators_def by blast
  have "ev (\<lambda>n k. decorators_loop n (parse_calls k) p = Some (a # xs, q2))"
    by (rule ev_loop, rule ev_elim2 [OF a(3) xs(3)]) (use p a(2) q u accepts_nonempty [OF assms(1)] in \<open>auto simp: feed\<close>)
  then show "\<exists>xs q. map erase xs = t # ts \<and> items q = tail \<and> ev (\<lambda>n k. decorators_loop n (parse_calls k) p = Some (xs, q))"
    using a(1) xs by (intro exI [of _ "a # xs"] exI [of _ q2]) simp
qed simp_all

lemma accepts_decorated:
  assumes "accepts_decorators ds ts" "accepts_signature ws v ps t"
    "as = [] \<and> \<not> f \<or> (\<exists>s. as = [(TOK_ASYNC, s)]) \<and> f"
  shows "accepts_stmt False (ds @ as @ (TOK_FUNC, s') # ws) ((if f then AST_ASYNC_FUNC_DEF else AST_FUNC_DEF) nowhere v ps t ts)"
  unfolding accepts_stmt_def
proof (intro conjI allI impI)
  fix p tail assume i: "items p = (ds @ as @ (TOK_FUNC, s') # ws) @ tail" and fo: "follows False tail"
  have p: "items p = ds @ (as @ (TOK_FUNC, s') # ws @ tail)" using i by simp
  have d: "ds \<noteq> []" "fst (hd ds) = TOK_AT_ARROW" using assms(1) by (simp_all add: accepts_decorators_def)
  have ne: "as @ (TOK_FUNC, s') # ws @ tail \<noteq> []" "fst (hd (as @ (TOK_FUNC, s') # ws @ tail)) \<in> {TOK_FUNC, TOK_ASYNC}" "ws \<noteq> []"
    using assms(2,3) by (auto simp: accepts_signature_def)
  obtain xs q where xs: "map erase xs = ts" "items q = as @ (TOK_FUNC, s') # ws @ tail" "ev (\<lambda>n k. decorators_loop n (parse_calls k) p = Some (xs, q))"
    using assms(1) p ne(1,2) unfolding accepts_decorators_def by blast
  define q1 where "q1 = (if f then adv q else q)"
  have q1: "items q1 = (TOK_FUNC, s') # ws @ tail" "p_match q TOK_ASYNC = Some (f, q1)"
    using assms(3) xs(2) ne(3) by (auto simp: q1_def feed)
  obtain qs a q2 where a: "map erase_param qs = ps" "erase a = t" "items q2 = tail"
    "ev (\<lambda>n k. \<forall>f ds. parse_func_def n (parse_calls k) f ds (adv q1) =
       Some ((if f then AST_ASYNC_FUNC_DEF else AST_FUNC_DEF) (pos_previous (adv q1)) v qs a ds, q2))"
    by (rule signature_ok [OF assms(2) q1(1) follows_nonempty [OF fo]])
  have h: "items p \<noteq> []" "hd (items p) = hd ds" using p d(1) by simp_all
  have e: "end_line b q2 = Some (Some b, q2)" for b using a(3) fo by (simp add: end_line_def follows_def feed)
  let ?a = "(if f then AST_ASYNC_FUNC_DEF else AST_FUNC_DEF) (pos_previous (adv q1)) v qs a xs"
  have "ev (\<lambda>n k. parse_stmt n (parse_calls k) p = Some (Some ?a, q2))"
    by (rule ev_elim2 [OF xs(3) a(4)])
      (use h d(2) q1 ne(3) e in \<open>simp add: parse_stmt_def unknown_keyword_def parse_decorated_def feed\<close>)
  moreover have "erase ?a = (if f then AST_ASYNC_FUNC_DEF else AST_FUNC_DEF) nowhere v ps t ts" by (rule erase_func [OF a(1,2) xs(1)])
  ultimately show "\<exists>a q. erase a = (if f then AST_ASYNC_FUNC_DEF else AST_FUNC_DEF) nowhere v ps t ts \<and> items q = tail \<and>
      ev (\<lambda>n k. parse_stmt n (parse_calls k) p = Some (Some a, q))"
    using a(3) by blast
qed (use assms(1) in \<open>auto simp: accepts_decorators_def stmt_starters_def\<close>)

section \<open>Classes, structs, enums, try\<close>

lemma accepts_class:
  assumes "base_class cs c" "accepts_block bs t"
  shows "accepts_stmt False ((TOK_CLASS, s) # (TOK_IDENT, v) # cs @ (TOK_COLON, s') # bs) (AST_CLASS_DEF nowhere v c t)"
proof (rule accepts_compound)
  fix p tail assume i: "items p = (TOK_CLASS, s) # ((TOK_IDENT, v) # cs @ (TOK_COLON, s') # bs) @ tail" and fo: "follows False tail"
  note ne = block_nonempty [OF assms(2)]
  obtain q where q: "items q = (TOK_COLON, s') # bs @ tail"
    "\<forall>d. parse_class_def d (adv p) = do { r \<leftarrow> p_consume q TOK_COLON (bracket_message '':'' ''class name'');
       (body, r) \<leftarrow> c_block d r; Some (AST_CLASS_DEF (pos_previous (adv p)) v c body, r) }"
    using assms(1)
  proof cases
    case base_none
    then show thesis using that [of "adv (adv p)"] i by (simp add: parse_class_def_def feed layout_kind_def)
  next
    case (base_some s1 v1 s2)
    then show thesis using that [of "adv (adv (adv (adv (adv p))))"] i by (simp add: parse_class_def_def feed layout_kind_def)
  qed
  obtain a q2 where a: "erase a = t" "items q2 = tail" "ev (\<lambda>n k. c_block (parse_calls k) (adv q) = Some (a, q2))"
    by (rule block_behind [OF assms(2) q(1) follows_nonempty [OF fo]])
  have "ev (\<lambda>n d. \<exists>f. parse_keyword_stmt n (parse_calls d) (pos_current p) TOK_CLASS = Some f \<and>
      f (adv p) = Some (AST_CLASS_DEF (pos_previous (adv p)) v c a, q2))"
    by (rule ev_elim1 [OF a(3)])
      (use q ne in \<open>simp add: parse_keyword_stmt_def feed\<close>)
  then show "\<exists>a q. erase a = AST_CLASS_DEF nowhere v c t \<and> items q = tail \<and>
      ev (\<lambda>n d. \<exists>f. parse_keyword_stmt n (parse_calls d) (pos_current p) TOK_CLASS = Some f \<and> f (adv p) = Some (a, q))"
    using a by (intro exI [of _ "AST_CLASS_DEF (pos_previous (adv p)) v c a"] exI [of _ q2]) simp
qed (simp add: stmt_keywords_def)

lemma accepts_struct:
  assumes "accepts_block bs t"
  shows "accepts_stmt False ((TOK_STRUCT, s) # (TOK_IDENT, v) # (TOK_COLON, s') # bs) (AST_STRUCT_DEF nowhere v t)"
proof (rule accepts_compound)
  fix p tail assume i: "items p = (TOK_STRUCT, s) # ((TOK_IDENT, v) # (TOK_COLON, s') # bs) @ tail" and fo: "follows False tail"
  have p: "items (adv (adv p)) = (TOK_COLON, s') # bs @ tail" using i by (simp add: feed)
  obtain a q where a: "erase a = t" "items q = tail" "ev (\<lambda>n k. c_block (parse_calls k) (adv (adv (adv p))) = Some (a, q))"
    by (rule block_behind [OF assms p follows_nonempty [OF fo]])
  have "ev (\<lambda>n d. \<exists>f. parse_keyword_stmt n (parse_calls d) (pos_current p) TOK_STRUCT = Some f \<and>
      f (adv p) = Some (AST_STRUCT_DEF (pos_previous (adv p)) v a, q))"
    by (rule ev_elim1 [OF a(3)])
      (use i p block_nonempty [OF assms] in \<open>simp add: parse_keyword_stmt_def parse_struct_def_def feed layout_kind_def\<close>)
  then show "\<exists>a q. erase a = AST_STRUCT_DEF nowhere v t \<and> items q = tail \<and>
      ev (\<lambda>n d. \<exists>f. parse_keyword_stmt n (parse_calls d) (pos_current p) TOK_STRUCT = Some f \<and> f (adv p) = Some (a, q))"
    using a by (intro exI [of _ "AST_STRUCT_DEF (pos_previous (adv p)) v a"] exI [of _ q]) simp
qed (simp add: stmt_keywords_def)

end
