(* ===== verification/ParserAccepts.thy ===== *)
theory ParserAccepts
  imports ParserDefs
begin

text \<open>
  Blocks, enums, try and match statements, and the induction over the grammar: the parser accepts every program of the
  grammar and builds its tree.
\<close>

section \<open>Sequences of statements\<close>

inductive accepts_stmts :: "item list \<Rightarrow> ast list \<Rightarrow> bool" where
  "accepts_stmts [] []"
| "accepts_stmt b ws t \<Longrightarrow> accepts_stmts us ts \<Longrightarrow> b \<longrightarrow> us = [] \<or> fst (hd us) \<notin> {TOK_LPAREN, TOK_LBRACKET, TOK_MINUS, TOK_PIPE} \<Longrightarrow>
    accepts_stmts (ws @ us) (t # ts)"

lemma accepts_stmts_first: "accepts_stmts ws ts \<Longrightarrow> ws \<noteq> [] \<Longrightarrow> fst (hd ws) \<in> set stmt_starters"
  by (induction rule: accepts_stmts.induct) (auto simp: accepts_stmt_def)

lemma starter_follows:
  assumes "k \<in> set stmt_starters"
  shows "k \<notin> {TOK_NEWLINE, TOK_INDENT, TOK_DEDENT, TOK_EOF, TOK_PIPE_ARROW, TOK_ELIF, TOK_ELSE, TOK_CATCH, TOK_FINALLY}"
    "k \<notin> {TOK_LPAREN, TOK_LBRACKET, TOK_MINUS, TOK_PIPE} \<Longrightarrow> k \<notin> conts Expr"
proof -
  have "\<forall>k \<in> set stmt_starters.
    k \<notin> {TOK_NEWLINE, TOK_INDENT, TOK_DEDENT, TOK_EOF, TOK_PIPE_ARROW, TOK_ELIF, TOK_ELSE, TOK_CATCH, TOK_FINALLY}"
    by (simp add: stmt_starters_def stmt_keywords_def starters_def)
  then show "k \<notin> {TOK_NEWLINE, TOK_INDENT, TOK_DEDENT, TOK_EOF, TOK_PIPE_ARROW, TOK_ELIF, TOK_ELSE, TOK_CATCH, TOK_FINALLY}"
    using assms by blast
  have "\<forall>k \<in> set stmt_starters. k \<in> {TOK_LPAREN, TOK_LBRACKET, TOK_MINUS, TOK_PIPE} \<or> k \<notin> conts Expr"
    by (simp add: stmt_starters_def stmt_keywords_def starters_def conts_all aug_ops_def)
  then show "k \<notin> {TOK_LPAREN, TOK_LBRACKET, TOK_MINUS, TOK_PIPE} \<Longrightarrow> k \<notin> conts Expr" using assms by blast
qed

lemma stmts_follow:
  assumes "accepts_stmts us ts" "fst x = TOK_DEDENT \<or> fst x = TOK_EOF"
    "b \<longrightarrow> us = [] \<or> fst (hd us) \<notin> {TOK_LPAREN, TOK_LBRACKET, TOK_MINUS, TOK_PIPE}"
  shows "follows b (us @ x # tail)"
proof (cases "us = []")
  case True
  have "stops Expr ((fst x, snd x) # tail)" by (rule stops_closer) (use assms(2) in \<open>auto simp: closers_def\<close>)
  then show ?thesis using True assms(2) by (auto simp: follows_def)
next
  case False
  note f = starter_follows [OF accepts_stmts_first [OF assms(1) False]]
  then show ?thesis using False assms(3) by (auto simp: follows_def stops_def)
qed

lemma block_loop_ok:
  "accepts_stmts ws ts \<Longrightarrow> items p = ws @ (TOK_DEDENT, s) # tail \<Longrightarrow>
    \<exists>as q. map erase as = ts \<and> items q = (TOK_DEDENT, s) # tail \<and> ev (\<lambda>n k. block_loop n (parse_calls k) p = Some (as, q))"
proof (induction arbitrary: p rule: accepts_stmts.induct)
  case 1
  have "ev (\<lambda>n k. block_loop n (parse_calls k) p = Some ([], p))"
    by (rule ev_loop, rule ev_all) (use 1 in \<open>simp add: at_block_end_def feed\<close>)
  then show ?case using 1 by auto
next
  case (2 b ws t us ts)
  have p: "items p = ws @ us @ (TOK_DEDENT, s) # tail" using "2.prems" by simp
  have fo: "follows b (us @ (TOK_DEDENT, s) # tail)" by (rule stmts_follow [OF 2(2) _ 2(3)]) simp
  obtain a q where a: "erase a = t" "items q = us @ (TOK_DEDENT, s) # tail" "ev (\<lambda>n k. parse_stmt n (parse_calls k) p = Some (Some a, q))"
    using 2(1) p fo unfolding accepts_stmt_def by blast
  obtain as q' where as: "map erase as = ts" "items q' = (TOK_DEDENT, s) # tail" "ev (\<lambda>n k. block_loop n (parse_calls k) q = Some (as, q'))"
    using "2.IH" [OF a(2)] by blast
  have ws: "ws \<noteq> []" "fst (hd ws) \<in> set stmt_starters" using 2(1) by (auto simp: accepts_stmt_def)
  have h: "items p \<noteq> []" "fst (hd (items p)) = fst (hd ws)" using p ws(1) by simp_all
  have "ev (\<lambda>n k. block_loop n (parse_calls k) p = Some (a # as, q'))"
    by (rule ev_loop, rule ev_elim2 [OF ev_c_stmt [OF a(3)] as(3)])
      (use h starter_follows(1) [OF ws(2)] a(2) in \<open>simp add: at_block_end_def feed\<close>)
  then show ?case using a as by (intro exI [of _ "a # as"] exI [of _ q']) simp
qed

lemma accepts_block_intro:
  assumes "accepts_stmts ws ts"
  shows "accepts_block ((TOK_NEWLINE, []) # (TOK_INDENT, []) # ws @ [(TOK_DEDENT, [])]) (AST_BLOCK nowhere ts)"
  unfolding accepts_block_def
proof (intro conjI allI impI)
  fix p tail assume i: "items p = ((TOK_NEWLINE, []) # (TOK_INDENT, []) # ws @ [(TOK_DEDENT, [])]) @ tail" and tl: "tail \<noteq> []"
  have p: "items (adv (adv p)) = ws @ (TOK_DEDENT, []) # tail" using i by (simp add: feed)
  obtain as q where as: "map erase as = ts" "items q = (TOK_DEDENT, []) # tail" "ev (\<lambda>n k. block_loop n (parse_calls k) (adv (adv p)) = Some (as, q))"
    using block_loop_ok [OF assms p] by blast
  have "ev (\<lambda>n k. parse_block n (parse_calls k) p = Some (AST_BLOCK (pos_current p) as, adv q))"
    by (rule ev_elim1 [OF as(3)]) (use i as(2) tl in \<open>simp add: parse_block_def feed\<close>)
  then show "\<exists>a q. erase a = AST_BLOCK nowhere ts \<and> items q = tail \<and> ev (\<lambda>n k. parse_block n (parse_calls k) p = Some (a, q))"
    using as(1,2) tl by (intro exI [of _ "AST_BLOCK (pos_current p) as"] exI [of _ "adv q"]) (simp add: feed)
qed simp

section \<open>Enums and try\<close>

definition accepts_members :: "item list \<Rightarrow> ast list \<Rightarrow> ast option list \<Rightarrow> bool" where
  "accepts_members ms vs ts \<longleftrightarrow> (ms = [] \<or> fst (hd ms) = TOK_IDENT) \<and> (\<forall>p s tail. items p = ms @ (TOK_DEDENT, s) # tail \<longrightarrow>
     (\<exists>xs q. map (erase \<circ> fst) xs = vs \<and> map (map_option erase \<circ> snd) xs = ts \<and> items q = (TOK_DEDENT, s) # tail \<and>
        ev (\<lambda>n k. enum_loop n (parse_calls k) p = Some (xs, q))))"

lemma accepts_members_nil: "accepts_members [] [] []"
  unfolding accepts_members_def
proof (intro conjI allI impI)
  fix p s tail assume p: "items p = [] @ (TOK_DEDENT, s) # tail"
  have "ev (\<lambda>n k. enum_loop n (parse_calls k) p = Some ([], p))" by (rule ev_loop, rule ev_all) (use p in \<open>simp add: at_block_end_def feed\<close>)
  then show "\<exists>xs q. map (erase \<circ> fst) xs = [] \<and> map (map_option erase \<circ> snd) xs = [] \<and> items q = (TOK_DEDENT, s) # tail \<and>
        ev (\<lambda>n k. enum_loop n (parse_calls k) p = Some (xs, q))" using p by auto
qed simp

lemma accepts_members_more:
  assumes "accepts_optional TOK_ASSIGN ds d" "accepts_members ms vs ts"
  shows "accepts_members ((TOK_IDENT, v) # ds @ (TOK_NEWLINE, []) # ms) (AST_IDENT nowhere v # vs) (d # ts)"
  unfolding accepts_members_def
proof (intro conjI allI impI)
  fix p s tail assume i: "items p = ((TOK_IDENT, v) # ds @ (TOK_NEWLINE, []) # ms) @ (TOK_DEDENT, s) # tail"
  have p: "items (adv p) = ds @ (TOK_NEWLINE, []) # ms @ (TOK_DEDENT, s) # tail" using i by (simp add: feed)
  have m: "fst (hd (ms @ (TOK_DEDENT, s) # tail)) \<in> {TOK_IDENT, TOK_DEDENT}" using assms(2) by (cases ms) (auto simp: accepts_members_def)
  have st: "stops Expr ((TOK_NEWLINE, []) # ms @ (TOK_DEDENT, s) # tail)" by (rule stops_newline) (use m in auto)
  obtain e q where e: "map_option erase e = d" "items q = (TOK_NEWLINE, []) # ms @ (TOK_DEDENT, s) # tail"
    "ev (\<lambda>n k. optional_expr TOK_ASSIGN (parse_calls k) (adv p) = Some (e, q))"
    by (rule optional_ok [OF assms(1) p st]) simp
  have q: "items (adv q) = ms @ (TOK_DEDENT, s) # tail" using e(2) by (simp add: feed)
  obtain xs q2 where xs: "map (erase \<circ> fst) xs = vs" "map (map_option erase \<circ> snd) xs = ts" "items q2 = (TOK_DEDENT, s) # tail"
    "ev (\<lambda>n k. enum_loop n (parse_calls k) (adv q) = Some (xs, q2))"
    using assms(2) q unfolding accepts_members_def by blast
  let ?m = "(AST_IDENT (pos_current p) v, e)"
  have "ev (\<lambda>n k. enum_loop n (parse_calls k) p = Some (?m # xs, q2))"
    by (rule ev_loop, rule ev_elim2 [OF e(3) xs(4)]) (use i e(2) in \<open>simp add: at_block_end_def feed layout_kind_def\<close>)
  then show "\<exists>xs q. map (erase \<circ> fst) xs = AST_IDENT nowhere v # vs \<and> map (map_option erase \<circ> snd) xs = d # ts \<and> items q = (TOK_DEDENT, s) # tail \<and>
        ev (\<lambda>n k. enum_loop n (parse_calls k) p = Some (xs, q))"
    using e(1) xs by (intro exI [of _ "?m # xs"] exI [of _ q2]) (simp add: o_def)
qed simp

lemma accepts_enum:
  assumes "accepts_members ms vs ts"
  shows "accepts_stmt False ((TOK_ENUM, s) # (TOK_IDENT, v) # (TOK_COLON, s') # (TOK_NEWLINE, []) # (TOK_INDENT, []) # ms @ [(TOK_DEDENT, [])])
      (AST_ENUM_DEF nowhere v vs ts)"
proof (rule accepts_compound)
  fix p tail
  assume i: "items p = (TOK_ENUM, s) # ((TOK_IDENT, v) # (TOK_COLON, s') # (TOK_NEWLINE, []) # (TOK_INDENT, []) # ms @ [(TOK_DEDENT, [])]) @ tail"
    and fo: "follows False tail"
  have p: "items (adv (adv (adv (adv (adv p))))) = ms @ (TOK_DEDENT, []) # tail" using i by (simp add: feed)
  obtain xs q where xs: "map (erase \<circ> fst) xs = vs" "map (map_option erase \<circ> snd) xs = ts" "items q = (TOK_DEDENT, []) # tail"
    "ev (\<lambda>n k. enum_loop n (parse_calls k) (adv (adv (adv (adv (adv p))))) = Some (xs, q))"
    using assms p unfolding accepts_members_def by blast
  let ?a = "AST_ENUM_DEF (pos_previous (adv p)) v (map fst xs) (map snd xs)"
  have "ev (\<lambda>n c. \<exists>f. parse_keyword_stmt n (parse_calls c) (pos_current p) TOK_ENUM = Some f \<and> f (adv p) = Some (?a, adv q))"
    by (rule ev_elim1 [OF xs(4)])
      (use i xs(3) follows_nonempty [OF fo] in \<open>simp add: parse_keyword_stmt_def parse_enum_def_def feed layout_kind_def\<close>)
  then show "\<exists>a q. erase a = AST_ENUM_DEF nowhere v vs ts \<and> items q = tail \<and>
      ev (\<lambda>n c. \<exists>f. parse_keyword_stmt n (parse_calls c) (pos_current p) TOK_ENUM = Some f \<and> f (adv p) = Some (a, q))"
    using xs follows_nonempty [OF fo] by (intro exI [of _ ?a] exI [of _ "adv q"]) (simp add: feed o_def)
qed (simp add: stmt_keywords_def)

definition accepts_catcher :: "item list \<Rightarrow> string option \<Rightarrow> ast option \<Rightarrow> bool" where
  "accepts_catcher ws v r \<longleftrightarrow>
     (case r of None \<Rightarrow> ws = [] \<and> v = None
      | Some t \<Rightarrow> \<exists>s s' vs bs. ws = (TOK_CATCH, s) # vs @ (TOK_COLON, s') # bs \<and> accepts_block bs t \<and>
          vs = (case v of None \<Rightarrow> [] | Some x \<Rightarrow> [(TOK_IDENT, x)]))"

lemma accepts_try:
  assumes "accepts_block bs t" "accepts_catcher cs v h" "accepts_clause TOK_FINALLY fs f" "h \<noteq> None \<or> f \<noteq> None"
  shows "accepts_stmt False ((TOK_TRY, s) # (TOK_COLON, s') # bs @ cs @ fs) (AST_TRY nowhere t v h f)"
proof (rule accepts_compound)
  fix p tail assume i: "items p = (TOK_TRY, s) # ((TOK_COLON, s') # bs @ cs @ fs) @ tail" and fo: "follows False tail"
  have tl: "tail \<noteq> []" "fst (hd tail) \<notin> {TOK_NEWLINE, TOK_CATCH, TOK_FINALLY}" using fo by (auto simp: follows_def)
  have p: "items (adv p) = (TOK_COLON, s') # bs @ (cs @ fs @ tail)" using i by (simp add: feed)
  obtain a q where a: "erase a = t" "items q = cs @ fs @ tail" "ev (\<lambda>n k. c_block (parse_calls k) (adv (adv p)) = Some (a, q))"
    by (rule block_behind [OF assms(1) p]) (use tl in simp)
  have f1: "fs @ tail \<noteq> []" "fst (hd (fs @ tail)) \<notin> {TOK_NEWLINE, TOK_CATCH}"
    using clause_head [OF assms(3), of tail] tl by auto
  have hq: "items q \<noteq> []" "fst (hd (items q)) \<noteq> TOK_NEWLINE" "fst (hd (items q)) = TOK_CATCH \<longleftrightarrow> h \<noteq> None"
    using assms(2) a(2) f1 by (cases h; auto simp: accepts_catcher_def)+
  obtain g q1 where g: "map_option erase g = h" "items q1 = fs @ tail" "ev (\<lambda>n k. catch_block n (parse_calls k) q = Some ((v, g), q1))"
  proof (cases h)
    case None
    have "ev (\<lambda>n k. catch_block n (parse_calls k) q = Some ((v, None), q))"
      by (rule ev_all) (use None assms(2) hq in \<open>simp add: accepts_catcher_def catch_block_def feed\<close>)
    then show thesis using that [of None q] None assms(2) a(2) by (simp add: accepts_catcher_def)
  next
    case (Some u)
    then obtain s1 s2 vs us where w: "cs = (TOK_CATCH, s1) # vs @ (TOK_COLON, s2) # us" "accepts_block us u"
      "vs = (case v of None \<Rightarrow> [] | Some x \<Rightarrow> [(TOK_IDENT, x)])"
      using assms(2) by (auto simp: accepts_catcher_def)
    define r where "r = (if v = None then adv q else adv (adv q))"
    have r: "items r = (TOK_COLON, s2) # us @ fs @ tail" using a(2) w(1,3) by (cases v) (simp_all add: r_def feed)
    obtain b q1 where b: "erase b = u" "items q1 = fs @ tail" "ev (\<lambda>n k. c_block (parse_calls k) (adv r) = Some (b, q1))"
      by (rule block_behind [OF w(2) r f1(1)])
    have l: "(if p_check (adv q) TOK_IDENT then do { q' \<leftarrow> p_advance (adv q); Some (Some (current_text (adv q)), q') } else Some (None, adv q)) = Some (v, r)"
      using a(2) w(1,3) by (cases v) (simp_all add: r_def feed layout_kind_def)
    have h1: "p_check q TOK_CATCH" "p_advance q = Some (adv q)" using a(2) w(1) by (simp_all add: feed)
    have h2: "p_consume r TOK_COLON msg = Some (adv r)" for msg using r block_nonempty [OF w(2)] by (simp add: feed)
    have h3: "0 < n \<Longrightarrow> skip_newlines n q1 = Some q1" for n using b(2) f1 by (simp add: feed)
    have "ev (\<lambda>n k. catch_block n (parse_calls k) q = Some ((v, Some b), q1))"
      by (rule ev_elim1 [OF b(3)]) (simp add: catch_block_def h1 l h2 h3)
    then show thesis using that [of "Some b" q1] Some b by simp
  qed
  have ff: "fst (hd tail) \<noteq> TOK_FINALLY" using tl(2) by simp
  obtain e q2 where e: "map_option erase e = f" "items q2 = tail" "ev (\<lambda>n k. clause_block TOK_FINALLY (quoted ''finally'') (parse_calls k) q1 = Some (e, q2))"
    by (rule clause_ok [OF assms(3) g(2) tl(1) ff])
  have nn: "\<not> (g = None \<and> e = None)" using g(1) e(1) assms(4) by auto
  let ?a = "AST_TRY (pos_previous (adv p)) a v g e"
  have "ev (\<lambda>n c. \<exists>f. parse_keyword_stmt n (parse_calls c) (pos_current p) TOK_TRY = Some f \<and> f (adv p) = Some (?a, q2))"
    by (rule ev_elim3 [OF a(3) g(3) e(3)])
      (use p hq(1,2) nn block_nonempty [OF assms(1)] in \<open>auto simp: parse_keyword_stmt_def parse_try_def feed\<close>)
  moreover have "erase ?a = AST_TRY nowhere t v h f" using a(1) g(1) e(1) by simp
  ultimately show "\<exists>a q. erase a = AST_TRY nowhere t v h f \<and> items q = tail \<and>
      ev (\<lambda>n c. \<exists>f. parse_keyword_stmt n (parse_calls c) (pos_current p) TOK_TRY = Some f \<and> f (adv p) = Some (a, q))"
    using e(2) by blast
qed (simp add: stmt_keywords_def)

section \<open>Match\<close>

definition accepts_pattern :: "bool \<Rightarrow> item list \<Rightarrow> ast \<Rightarrow> bool" where
  "accepts_pattern b ws t \<longleftrightarrow> ws \<noteq> [] \<and> (fst (hd ws) = TOK_IS \<or> fst (hd ws) \<in> set (starters Expr)) \<and>
     (\<forall>p k s tail. items p = ws @ (k, s) # tail \<longrightarrow> k = TOK_IF \<or> k = TOK_COLON \<or> k = TOK_PIPE \<and> \<not> b \<longrightarrow>
       (\<exists>a q. erase a = t \<and> items q = (k, s) # tail \<and> ev (\<lambda>n c. parse_pattern_base n (parse_calls c) p = Some (a, q))))"

lemma pattern_ok:
  assumes "accepts_pattern b ws t" "items p = ws @ (k, s) # tail" "k = TOK_IF \<or> k = TOK_COLON \<or> k = TOK_PIPE \<and> \<not> b"
  obtains a q where "erase a = t" "items q = (k, s) # tail" "ev (\<lambda>n c. parse_pattern_base n (parse_calls c) p = Some (a, q))"
  using assms unfolding accepts_pattern_def by blast

lemma bitxor_starters: "k \<in> set (starters Bitxor) \<Longrightarrow> k \<in> set (starters Expr)"
  by (simp add: starters_def)

lemma stops_bitxor: "k \<in> {TOK_IF, TOK_COLON, TOK_PIPE, TOK_ELLIPSIS, TOK_AS} \<Longrightarrow> stops Bitxor ((k, s) # ws)"
  by (auto simp: stops_def conts_all)

text \<open>The operand of a pattern.\<close>

lemma operand_ok:
  assumes "accepts Bitxor False ws t" "items p = ws @ (k, s) # tail" "k \<in> {TOK_IF, TOK_COLON, TOK_PIPE, TOK_ELLIPSIS, TOK_AS}"
  obtains a q where "erase a = t" "items q = (k, s) # tail" "ev (\<lambda>n c. parse_bitxor n (parse_calls c) p = Some (a, q))"
    "items p \<noteq> []" "fst (hd (items p)) \<noteq> TOK_IS"
proof -
  have "stops (cover False Bitxor) ((k, s) # tail)" unfolding cover_def if_False by (rule stops_bitxor [OF assms(3)])
  then obtain a q where "erase a = t" "items q = (k, s) # tail" "ev (\<lambda>n c. level_fun Bitxor n (parse_calls c) p = Some (a, q))"
    by (rule accepts_result [OF assms(1,2)])
  moreover have "items p \<noteq> []" "fst (hd (items p)) \<noteq> TOK_IS"
    using assms(2) accepts_nonempty [OF assms(1)] starters_neq(10) [OF accepts_first [OF assms(1)]] by simp_all
  ultimately show thesis using that by simp
qed

lemma accepts_pattern_type: "accepts_pattern False [(TOK_IS, s), (TOK_IDENT, v)] (AST_PATTERN_TYPE nowhere v)"
  unfolding accepts_pattern_def
proof (intro conjI allI impI)
  fix p k s' tail assume p: "items p = [(TOK_IS, s), (TOK_IDENT, v)] @ (k, s') # tail"
  have "ev (\<lambda>n c. parse_pattern_base n (parse_calls c) p = Some (AST_PATTERN_TYPE (pos_current p) v, adv (adv p)))"
    by (rule ev_all) (use p in \<open>simp add: parse_pattern_base_def feed layout_kind_def\<close>)
  then show "\<exists>a q. erase a = AST_PATTERN_TYPE nowhere v \<and> items q = (k, s') # tail \<and>
      ev (\<lambda>n c. parse_pattern_base n (parse_calls c) p = Some (a, q))"
    using p by (intro exI [of _ "AST_PATTERN_TYPE (pos_current p) v"] exI [of _ "adv (adv p)"]) (simp add: feed)
qed simp_all

lemma accepts_pattern_value:
  assumes "accepts Bitxor False ws t"
  shows "accepts_pattern False ws t"
  unfolding accepts_pattern_def
proof (intro conjI allI impI)
  fix p k s tail assume p: "items p = ws @ (k, s) # tail" and k: "k = TOK_IF \<or> k = TOK_COLON \<or> k = TOK_PIPE \<and> \<not> False"
  have "k \<in> {TOK_IF, TOK_COLON, TOK_PIPE, TOK_ELLIPSIS, TOK_AS}" using k by auto
  then obtain a q where a: "erase a = t" "items q = (k, s) # tail" "ev (\<lambda>n c. parse_bitxor n (parse_calls c) p = Some (a, q))"
    "items p \<noteq> []" "fst (hd (items p)) \<noteq> TOK_IS"
    by (rule operand_ok [OF assms p])
  have "ev (\<lambda>n c. parse_pattern_base n (parse_calls c) p = Some (a, q))"
    by (rule ev_elim1 [OF a(3)]) (use a(2,4,5) k in \<open>auto simp: parse_pattern_base_def feed\<close>)
  then show "\<exists>a q. erase a = t \<and> items q = (k, s) # tail \<and> ev (\<lambda>n c. parse_pattern_base n (parse_calls c) p = Some (a, q))"
    using a(1,2) by blast
qed (use assms bitxor_starters in \<open>auto simp: accepts_def\<close>)

lemma accepts_pattern_range:
  assumes "accepts Bitxor False us a" "accepts Bitxor False ws t"
  shows "accepts_pattern False (us @ (TOK_ELLIPSIS, s) # ws) (AST_PATTERN_RANGE nowhere a t)"
  unfolding accepts_pattern_def
proof (intro conjI allI impI)
  fix p k s' tail assume i: "items p = (us @ (TOK_ELLIPSIS, s) # ws) @ (k, s') # tail" and k: "k = TOK_IF \<or> k = TOK_COLON \<or> k = TOK_PIPE \<and> \<not> False"
  have p: "items p = us @ (TOK_ELLIPSIS, s) # ws @ (k, s') # tail" using i by simp
  obtain a' q where a: "erase a' = a" "items q = (TOK_ELLIPSIS, s) # ws @ (k, s') # tail" "ev (\<lambda>n c. parse_bitxor n (parse_calls c) p = Some (a', q))"
    "items p \<noteq> []" "fst (hd (items p)) \<noteq> TOK_IS"
    by (rule operand_ok [OF assms(1) p]) simp
  have ws: "ws \<noteq> []" by (rule accepts_nonempty [OF assms(2)])
  have q: "items (adv q) = ws @ (k, s') # tail" using a(2) by (simp add: feed)
  have kk: "k \<in> {TOK_IF, TOK_COLON, TOK_PIPE, TOK_ELLIPSIS, TOK_AS}" using k by auto
  obtain t' q' where t: "erase t' = t" "items q' = (k, s') # tail" "ev (\<lambda>n c. parse_bitxor n (parse_calls c) (adv q) = Some (t', q'))"
    "items (adv q) \<noteq> []" "fst (hd (items (adv q))) \<noteq> TOK_IS"
    by (rule operand_ok [OF assms(2) q kk])
  let ?a = "AST_PATTERN_RANGE (pos_current p) a' t'"
  have "ev (\<lambda>n c. parse_pattern_base n (parse_calls c) p = Some (?a, q'))"
    by (rule ev_elim2 [OF a(3) t(3)]) (use a(2,4,5) ws in \<open>simp add: parse_pattern_base_def feed\<close>)
  then show "\<exists>b q. erase b = AST_PATTERN_RANGE nowhere a t \<and> items q = (k, s') # tail \<and>
      ev (\<lambda>n c. parse_pattern_base n (parse_calls c) p = Some (b, q))"
    using a(1) t(1,2) by (intro exI [of _ ?a] exI [of _ q']) simp
qed (use assms(1) bitxor_starters in \<open>auto simp: accepts_def\<close>)

text \<open>Alternatives.\<close>

definition alternatives :: "ast list \<Rightarrow> ast" where
  "alternatives ts = (if length ts = 1 then hd ts else AST_PATTERN_OR nowhere ts)"

inductive accepts_patterns :: "item list \<Rightarrow> ast list \<Rightarrow> bool" where
  "accepts_pattern b ws t \<Longrightarrow> accepts_patterns ws [t]"
| "accepts_pattern False ws t \<Longrightarrow> accepts_patterns us ts \<Longrightarrow> accepts_patterns (ws @ (TOK_PIPE, s) # us) (t # ts)"

lemma patterns_first:
  "accepts_patterns ws ts \<Longrightarrow> ws \<noteq> [] \<and> (fst (hd ws) = TOK_IS \<or> fst (hd ws) \<in> set (starters Expr)) \<and> ts \<noteq> []"
  by (induction rule: accepts_patterns.induct) (auto simp: accepts_pattern_def)

lemma alternatives_ok:
  "accepts_patterns ws ts \<Longrightarrow> items p = (TOK_PIPE, s') # ws @ (k, s) # tail \<Longrightarrow> k = TOK_IF \<or> k = TOK_COLON \<Longrightarrow>
    \<exists>as q. map erase as = ts \<and> items q = (k, s) # tail \<and> ev (\<lambda>n c. alternatives_loop n (parse_calls c) p = Some (as, q))"
proof (induction arbitrary: p s' rule: accepts_patterns.induct)
  case (1 b ws t)
  have ws: "ws \<noteq> []" using 1(1) by (simp add: accepts_pattern_def)
  have p: "items (adv p) = ws @ (k, s) # tail" using 1 by (simp add: feed)
  obtain a q where a: "erase a = t" "items q = (k, s) # tail" "ev (\<lambda>n c. parse_pattern_base n (parse_calls c) (adv p) = Some (a, q))"
    by (rule pattern_ok [OF 1(1) p]) (use 1(3) in auto)
  have n: "ev (\<lambda>n c. alternatives_loop n (parse_calls c) q = Some ([], q))"
    by (rule ev_loop, rule ev_all) (use a(2) 1(3) in \<open>auto simp: feed\<close>)
  have "ev (\<lambda>n c. alternatives_loop n (parse_calls c) p = Some ([a], q))"
    by (rule ev_loop, rule ev_elim2 [OF a(3) n]) (use 1(2) ws in \<open>simp add: feed\<close>)
  then show ?case using a(1,2) by (intro exI [of _ "[a]"] exI [of _ q]) simp
next
  case (2 ws t us ts s1)
  have ws: "ws \<noteq> []" using 2(1) by (simp add: accepts_pattern_def)
  have p: "items (adv p) = ws @ (TOK_PIPE, s1) # us @ (k, s) # tail" using "2.prems"(1) by (simp add: feed)
  obtain a q where a: "erase a = t" "items q = (TOK_PIPE, s1) # us @ (k, s) # tail" "ev (\<lambda>n c. parse_pattern_base n (parse_calls c) (adv p) = Some (a, q))"
    by (rule pattern_ok [OF 2(1) p]) simp
  obtain as q' where as: "map erase as = ts" "items q' = (k, s) # tail" "ev (\<lambda>n c. alternatives_loop n (parse_calls c) q = Some (as, q'))"
    using "2.IH" [OF a(2) "2.prems"(2)] by blast
  have "ev (\<lambda>n c. alternatives_loop n (parse_calls c) p = Some (a # as, q'))"
    by (rule ev_loop, rule ev_elim2 [OF a(3) as(3)]) (use "2.prems"(1) ws in \<open>simp add: feed\<close>)
  then show ?case using a(1) as by (intro exI [of _ "a # as"] exI [of _ q']) simp
qed

lemma patterns_ok:
  assumes "accepts_patterns ws ts" "items p = ws @ (k, s) # tail" "k = TOK_IF \<or> k = TOK_COLON"
  obtains a q where "erase a = alternatives ts" "items q = (k, s) # tail" "ev (\<lambda>n c. parse_pattern n (parse_calls c) p = Some (a, q))"
  using assms(1)
proof cases
  case (1 b t)
  obtain a q where a: "erase a = t" "items q = (k, s) # tail" "ev (\<lambda>n c. parse_pattern_base n (parse_calls c) p = Some (a, q))"
    by (rule pattern_ok [OF 1(2) assms(2)]) (use assms(3) in auto)
  have "ev (\<lambda>n c. parse_pattern n (parse_calls c) p = Some (a, q))"
    by (rule ev_elim1 [OF a(3)]) (use a(2) assms(3) in \<open>auto simp: parse_pattern_def feed\<close>)
  then show thesis using that a 1(1) by (simp add: alternatives_def)
next
  case (2 ws' t us ts' s1)
  have p: "items p = ws' @ (TOK_PIPE, s1) # us @ (k, s) # tail" using assms(2) 2(1) by simp
  obtain a q where a: "erase a = t" "items q = (TOK_PIPE, s1) # us @ (k, s) # tail" "ev (\<lambda>n c. parse_pattern_base n (parse_calls c) p = Some (a, q))"
    by (rule pattern_ok [OF 2(3) p]) simp
  obtain as q' where as: "map erase as = ts'" "items q' = (k, s) # tail" "ev (\<lambda>n c. alternatives_loop n (parse_calls c) q = Some (as, q'))"
    using alternatives_ok [OF 2(4) a(2) assms(3)] by blast
  have "ev (\<lambda>n c. parse_pattern n (parse_calls c) p = Some (AST_PATTERN_OR (pos_current p) (a # as), q'))"
    by (rule ev_elim2 [OF a(3) as(3)]) (use a(2) in \<open>simp add: parse_pattern_def feed\<close>)
  moreover have "ts' \<noteq> []" using patterns_first [OF 2(4)] by simp
  ultimately show thesis using that [of "AST_PATTERN_OR (pos_current p) (a # as)" q'] a(1) as(1,2) 2(2) by (simp add: alternatives_def)
qed

lemma accepts_pattern_bind:
  assumes "accepts Bitxor False us (AST_IDENT nowhere v)" "accepts_patterns ws ts"
  shows "accepts_pattern True (us @ (TOK_AS, s) # ws) (AST_PATTERN_BIND nowhere v (alternatives ts))"
  unfolding accepts_pattern_def
proof (intro conjI allI impI)
  fix p k s' tail assume i: "items p = (us @ (TOK_AS, s) # ws) @ (k, s') # tail" and k: "k = TOK_IF \<or> k = TOK_COLON \<or> k = TOK_PIPE \<and> \<not> True"
  have p: "items p = us @ (TOK_AS, s) # ws @ (k, s') # tail" using i by simp
  obtain a q where a: "erase a = AST_IDENT nowhere v" "items q = (TOK_AS, s) # ws @ (k, s') # tail" "ev (\<lambda>n c. parse_bitxor n (parse_calls c) p = Some (a, q))"
    "items p \<noteq> []" "fst (hd (items p)) \<noteq> TOK_IS"
    by (rule operand_ok [OF assms(1) p]) simp
  have ws: "ws \<noteq> []" using patterns_first [OF assms(2)] by simp
  have q: "items (adv q) = ws @ (k, s') # tail" using a(2) by (simp add: feed)
  have kk: "k = TOK_IF \<or> k = TOK_COLON" using k by auto
  obtain e q' where e: "erase e = alternatives ts" "items q' = (k, s') # tail" "ev (\<lambda>n c. parse_pattern n (parse_calls c) (adv q) = Some (e, q'))"
    by (rule patterns_ok [OF assms(2) q kk])
  note id = erase_ident [OF a(1)]
  have "ev (\<lambda>n c. parse_pattern_base n (parse_calls c) p = Some (AST_PATTERN_BIND (pos_current p) v e, q'))"
    by (rule ev_elim2 [OF a(3) ev_c_pattern [OF e(3)]]) (use a(2,4,5) ws id in \<open>simp add: parse_pattern_base_def feed\<close>)
  then show "\<exists>b q. erase b = AST_PATTERN_BIND nowhere v (alternatives ts) \<and> items q = (k, s') # tail \<and>
      ev (\<lambda>n c. parse_pattern_base n (parse_calls c) p = Some (b, q))"
    using e(1,2) by (intro exI [of _ "AST_PATTERN_BIND (pos_current p) v e"] exI [of _ q']) simp
qed (use assms(1) bitxor_starters in \<open>auto simp: accepts_def\<close>)

definition erase_arm :: "ast \<times> ast \<times> ast option \<Rightarrow> ast \<times> ast \<times> ast option" where
  "erase_arm = map_prod erase (map_prod erase (map_option erase))"

lemma erase_arm [simp]: "erase_arm (a, b, g) = (erase a, erase b, map_option erase g)"
  by (simp add: erase_arm_def)

definition accepts_arms :: "item list \<Rightarrow> (ast \<times> ast \<times> ast option) list \<Rightarrow> (ast \<times> ast option) option \<Rightarrow> bool" where
  "accepts_arms ws as w \<longleftrightarrow> (ws = [] \<or> fst (hd ws) = TOK_IS \<or> fst (hd ws) \<in> set (starters Expr)) \<and>
     (\<forall>p s tail. items p = ws @ (TOK_DEDENT, s) # tail \<longrightarrow>
       (\<exists>bs x q. map erase_arm bs = as \<and> map_option (map_prod erase (map_option erase)) x = w \<and> items q = (TOK_DEDENT, s) # tail \<and>
          ev (\<lambda>n k. match_loop n (parse_calls k) p = Some ((bs, x), q))))"

lemma accepts_arms_nil: "accepts_arms [] [] None"
  unfolding accepts_arms_def
proof (intro conjI allI impI)
  fix p s tail assume p: "items p = [] @ (TOK_DEDENT, s) # tail"
  have "ev (\<lambda>n k. match_loop n (parse_calls k) p = Some (([], None), p))"
    by (rule ev_loop, rule ev_all) (use p in \<open>simp add: at_block_end_def feed\<close>)
  then show "\<exists>bs x q. map erase_arm bs = [] \<and> map_option (map_prod erase (map_option erase)) x = None \<and> items q = (TOK_DEDENT, s) # tail \<and>
          ev (\<lambda>n k. match_loop n (parse_calls k) p = Some ((bs, x), q))"
    using p by auto
qed simp

text \<open>The guard, the colon and the block of an arm.\<close>

lemma arm_rest_ok:
  assumes "accepts_optional TOK_IF gs g" "accepts_block bs t" "items p = gs @ (TOK_COLON, s) # bs @ tail" "tail \<noteq> []"
  obtains g' q a q' where "map_option erase g' = g" "erase a = t" "items q' = tail" "items q = (TOK_COLON, s) # bs @ tail"
    "ev (\<lambda>n k. optional_expr TOK_IF (parse_calls k) p = Some (g', q))" "ev (\<lambda>n k. c_block (parse_calls k) (adv q) = Some (a, q'))"
proof -
  obtain g' q where g: "map_option erase g' = g" "items q = (TOK_COLON, s) # bs @ tail"
    "ev (\<lambda>n k. optional_expr TOK_IF (parse_calls k) p = Some (g', q))"
    by (rule optional_ok [OF assms(1,3) stops_colon]) simp
  obtain a q' where a: "erase a = t" "items q' = tail" "ev (\<lambda>n k. c_block (parse_calls k) (adv q) = Some (a, q'))"
    by (rule block_behind [OF assms(2) g(2) assms(4)])
  show thesis using that g a by blast
qed

text \<open>The optional word in front of a pattern.\<close>

lemma case_word_ok:
  assumes "case_word cw" "items p = cw @ ws @ tail" "ws \<noteq> []" "cw = [] \<longrightarrow> hd ws \<noteq> (TOK_IDENT, ''case'')"
    "fst (hd ws) = TOK_IS \<or> fst (hd ws) \<in> set (starters Expr)"
  obtains q where "(if p_check p TOK_IDENT \<and> current_text p = ''case'' then p_advance p else Some p) = Some q" "items q = ws @ tail"
    "\<not> at_block_end p" "\<And>n. 0 < n \<Longrightarrow> skip_newlines n p = Some p"
proof -
  have h: "fst (hd ws) \<notin> {TOK_NEWLINE, TOK_DEDENT, TOK_EOF}" using assms(5) starters_neq by fastforce
  have hp: "items p \<noteq> []" "fst (hd (items p)) \<notin> {TOK_NEWLINE, TOK_DEDENT, TOK_EOF}"
    using assms(1-3) h by (auto elim!: case_word.cases)
  obtain k v ws' where w: "ws = (k, v) # ws'" using assms(3) by (cases ws) auto
  have "(if p_check p TOK_IDENT \<and> current_text p = ''case'' then p_advance p else Some p) = Some (if cw = [] then p else adv p)"
    using assms(1)
  proof cases
    case case_none
    then have "\<not> (p_check p TOK_IDENT \<and> current_text p = ''case'')" using assms(2,4) w by (auto simp: feed layout_kind_def)
    then have "(if p_check p TOK_IDENT \<and> current_text p = ''case'' then p_advance p else Some p) = Some p" by (rule if_not_P)
    then show ?thesis using case_none by simp
  next
    case case_some
    then show ?thesis using assms(2,3) by (simp add: feed layout_kind_def)
  qed
  moreover have "items (if cw = [] then p else adv p) = ws @ tail"
    using assms(1-3) by cases (simp_all add: feed)
  moreover have "\<not> at_block_end p" "0 < n \<Longrightarrow> skip_newlines n p = Some p" for n using hp by (simp_all add: at_block_end_def feed)
  ultimately show thesis using that by blast
qed

lemma case_word_first:
  assumes "case_word cw" "ws \<noteq> []" "fst (hd ws) = TOK_IS \<or> fst (hd ws) \<in> set (starters Expr)"
  shows "fst (hd (cw @ ws)) = TOK_IS \<or> fst (hd (cw @ ws)) \<in> set (starters Expr)"
  using assms by cases (simp_all add: starters_def)

lemma accepts_arms_wild:
  assumes "case_word cw" "accepts_optional TOK_IF gs g" "accepts_block bs t"
  shows "accepts_arms (cw @ (TOK_IDENT, ''_'') # gs @ (TOK_COLON, s) # bs) [] (Some (t, g))"
  unfolding accepts_arms_def
proof (intro conjI allI impI)
  fix p s' tail assume i: "items p = (cw @ (TOK_IDENT, ''_'') # gs @ (TOK_COLON, s) # bs) @ (TOK_DEDENT, s') # tail"
  let ?r = "gs @ (TOK_COLON, s) # bs @ (TOK_DEDENT, s') # tail"
  have p: "items p = cw @ [(TOK_IDENT, ''_'')] @ ?r" using i by simp
  obtain q where q: "(if p_check p TOK_IDENT \<and> current_text p = ''case'' then p_advance p else Some p) = Some q"
    "items q = [(TOK_IDENT, ''_'')] @ ?r" "\<not> at_block_end p" "\<And>n. 0 < n \<Longrightarrow> skip_newlines n p = Some p"
    by (rule case_word_ok [OF assms(1) p]) (simp_all add: starters_def)
  have q1: "items (adv q) = ?r" using q(2) by (simp add: feed)
  obtain g' q2 a q3 where a: "map_option erase g' = g" "erase a = t" "items q3 = (TOK_DEDENT, s') # tail" "items q2 = (TOK_COLON, s) # bs @ (TOK_DEDENT, s') # tail"
    "ev (\<lambda>n k. optional_expr TOK_IF (parse_calls k) (adv q) = Some (g', q2))" "ev (\<lambda>n k. c_block (parse_calls k) (adv q2) = Some (a, q3))"
    by (rule arm_rest_ok [OF assms(2,3) q1]) simp
  have w: "p_check q TOK_IDENT" "current_text q = ''_''" "p_advance q = Some (adv q)" "p_consume q2 TOK_COLON msg = Some (adv q2)" for msg
    using q(2) a(4) block_nonempty [OF assms(3)] by (simp_all add: feed layout_kind_def)
  have n: "0 < n \<Longrightarrow> skip_newlines n q3 = Some q3" for n using a(3) by (simp add: feed)
  have "ev (\<lambda>n k. match_loop n (parse_calls k) p = Some (([], Some (a, g')), q3))"
    by (rule ev_loop, rule ev_elim2 [OF a(5,6)]) (simp add: q(1,3,4) w n)
  then show "\<exists>bs x q. map erase_arm bs = [] \<and> map_option (map_prod erase (map_option erase)) x = Some (t, g) \<and> items q = (TOK_DEDENT, s') # tail \<and>
          ev (\<lambda>n k. match_loop n (parse_calls k) p = Some ((bs, x), q))"
    using a(1-3) by (intro exI [of _ "[]"] exI [of _ "Some (a, g')"] exI [of _ q3]) simp
qed (use case_word_first [OF assms(1), of "(TOK_IDENT, ''_'') # gs @ (TOK_COLON, s) # bs"] in \<open>simp add: starters_def\<close>)

lemma accepts_arms_more:
  assumes "case_word cw" "accepts_patterns ps ts" "hd ps \<noteq> (TOK_IDENT, ''_'')" "cw = [] \<longrightarrow> hd ps \<noteq> (TOK_IDENT, ''case'')"
    "accepts_optional TOK_IF gs g" "accepts_block bs t" "accepts_arms us as w"
  shows "accepts_arms (cw @ ps @ gs @ (TOK_COLON, s) # bs @ us) ((alternatives ts, t, g) # as) w"
  unfolding accepts_arms_def
proof (intro conjI allI impI)
  note pf = patterns_first [OF assms(2)]
  fix p s' tail assume i: "items p = (cw @ ps @ gs @ (TOK_COLON, s) # bs @ us) @ (TOK_DEDENT, s') # tail"
  let ?u = "us @ (TOK_DEDENT, s') # tail"
  let ?r = "gs @ (TOK_COLON, s) # bs @ ?u"
  have p: "items p = cw @ ps @ ?r" using i by simp
  obtain q where q: "(if p_check p TOK_IDENT \<and> current_text p = ''case'' then p_advance p else Some p) = Some q"
    "items q = ps @ ?r" "\<not> at_block_end p" "\<And>n. 0 < n \<Longrightarrow> skip_newlines n p = Some p"
    by (rule case_word_ok [OF assms(1) p]) (use pf assms(4) in simp_all)
  obtain k v r where r: "?r = (k, v) # r" "k = TOK_IF \<or> k = TOK_COLON"
    using assms(5) by (cases g) (auto simp: accepts_optional_def)
  have qr: "items q = ps @ (k, v) # r" using q(2) r(1) by simp
  obtain e q1 where e: "erase e = alternatives ts" "items q1 = (k, v) # r" "ev (\<lambda>n c. parse_pattern n (parse_calls c) q = Some (e, q1))"
    by (rule patterns_ok [OF assms(2) qr r(2)])
  have q1: "items q1 = ?r" using e(2) r(1) by simp
  obtain g' q2 a q3 where a: "map_option erase g' = g" "erase a = t" "items q3 = ?u" "items q2 = (TOK_COLON, s) # bs @ ?u"
    "ev (\<lambda>n k. optional_expr TOK_IF (parse_calls k) q1 = Some (g', q2))" "ev (\<lambda>n k. c_block (parse_calls k) (adv q2) = Some (a, q3))"
    by (rule arm_rest_ok [OF assms(5,6) q1]) simp
  obtain xs x q4 where xs: "map erase_arm xs = as" "map_option (map_prod erase (map_option erase)) x = w" "items q4 = (TOK_DEDENT, s') # tail"
    "ev (\<lambda>n k. match_loop n (parse_calls k) q3 = Some ((xs, x), q4))"
    using assms(7) a(3) unfolding accepts_arms_def by blast
  have "hd (items q) = hd ps" "items q \<noteq> []" using q(2) pf by auto
  then have w: "\<not> (p_check q TOK_IDENT \<and> current_text q = ''_'')" "p_consume q2 TOK_COLON msg = Some (adv q2)" for msg
    using assms(3) a(4) block_nonempty [OF assms(6)] by (auto simp: feed layout_kind_def prod_eq_iff)
  have "fst (hd ?u) \<noteq> TOK_NEWLINE" using assms(7) starters_neq(1) by (cases us) (auto simp: accepts_arms_def)
  then have n: "0 < n \<Longrightarrow> skip_newlines n q3 = Some q3" for n using a(3) by (simp add: feed)
  have "ev (\<lambda>n k. match_loop n (parse_calls k) p = Some (((e, a, g') # xs, x), q4))"
    by (rule ev_loop, rule ev_elim4 [OF e(3) a(5,6) xs(4)]) (simp add: q(1,3,4) w n)
  then show "\<exists>bs x q. map erase_arm bs = (alternatives ts, t, g) # as \<and> map_option (map_prod erase (map_option erase)) x = w \<and>
      items q = (TOK_DEDENT, s') # tail \<and> ev (\<lambda>n k. match_loop n (parse_calls k) p = Some ((bs, x), q))"
    using e(1) a(1,2) xs(1-3) by (intro exI [of _ "(e, a, g') # xs"] exI [of _ x] exI [of _ q4]) simp
qed (use case_word_first [OF assms(1), of "ps @ gs @ (TOK_COLON, s) # bs @ us"] patterns_first [OF assms(2)] in simp)

lemma accepts_match:
  assumes "accepts Expr b ws t" "accepts_arms us as w"
  shows "accepts_stmt False ((TOK_MATCH, s) # ws @ (TOK_COLON, s') # (TOK_NEWLINE, []) # (TOK_INDENT, []) # us @ [(TOK_DEDENT, [])])
      (AST_MATCH nowhere t (map fst as) (map (fst \<circ> snd) as) (map (snd \<circ> snd) as)
        (map_option fst w) (case w of None \<Rightarrow> None | Some (_, g) \<Rightarrow> g))" (is "accepts_stmt False ?ws ?t")
proof (rule accepts_compound)
  fix p tail
  assume i: "items p = (TOK_MATCH, s) # (ws @ (TOK_COLON, s') # (TOK_NEWLINE, []) # (TOK_INDENT, []) # us @ [(TOK_DEDENT, [])]) @ tail"
    and fo: "follows False tail"
  let ?r = "(TOK_NEWLINE, []) # (TOK_INDENT, []) # us @ (TOK_DEDENT, []) # tail"
  have p: "items p = (TOK_MATCH, s) # ws @ (TOK_COLON, s') # ?r" using i by simp
  obtain a q where a: "erase a = t" "items q = (TOK_COLON, s') # ?r" "ev (\<lambda>n k. c_expr (parse_calls k) (adv p) = Some (a, q))"
    by (rule accepts_expr_behind [OF assms(1) p stops_colon])
  have q: "items (adv (adv (adv q))) = us @ (TOK_DEDENT, []) # tail" using a(2) by (simp add: feed)
  obtain bs x q2 where x: "map erase_arm bs = as" "map_option (map_prod erase (map_option erase)) x = w" "items q2 = (TOK_DEDENT, []) # tail"
    "ev (\<lambda>n k. match_loop n (parse_calls k) (adv (adv (adv q))) = Some ((bs, x), q2))"
    using assms(2) q unfolding accepts_arms_def by blast
  let ?a = "AST_MATCH (pos_previous (adv p)) a (map fst bs) (map (fst \<circ> snd) bs) (map (snd \<circ> snd) bs)
        (map_option fst x) (case x of None \<Rightarrow> None | Some (_, g) \<Rightarrow> g)"
  have "ev (\<lambda>n c. \<exists>f. parse_keyword_stmt n (parse_calls c) (pos_current p) TOK_MATCH = Some f \<and> f (adv p) = Some (?a, adv q2))"
    by (rule ev_elim2 [OF a(3) x(4)])
      (use a(2) x(3) follows_nonempty [OF fo] in \<open>simp add: parse_keyword_stmt_def parse_match_def feed\<close>)
  moreover have "erase ?a = ?t"
    using a(1) unfolding x(1) [symmetric] x(2) [symmetric] by (cases x) (auto simp: erase_arm_def)
  moreover have "items (adv q2) = tail" using x(3) follows_nonempty [OF fo] by (simp add: feed)
  ultimately show "\<exists>b q. erase b = ?t \<and> items q = tail \<and>
      ev (\<lambda>n c. \<exists>f. parse_keyword_stmt n (parse_calls c) (pos_current p) TOK_MATCH = Some f \<and> f (adv p) = Some (b, q))"
    by blast
qed (simp add: stmt_keywords_def)

end
