(* ===== verification/ParserSound.thy ===== *)
theory ParserSound
  imports ParserAccepts
begin

text \<open>
  The induction over the grammar: the parser accepts every program of the grammar and builds its tree; and the tokens
  the parser finds ahead of it are those the lexer delivers for the source.
\<close>

section \<open>Every phrase is accepted\<close>

lemma accepts_parts:
  "accepts_optional k [] None"
  "accepts Expr b ws t \<Longrightarrow> accepts_optional k ((k, s) # ws) (Some t)"
  "accepts_bound [] None"
  "accepts Expr b ws t \<Longrightarrow> accepts_bound ws (Some t)"
  "accepts_clause k [] None"
  "accepts_block bs t \<Longrightarrow> accepts_clause k ((k, s) # (TOK_COLON, s') # bs) (Some t)"
  "accepts_catcher [] None None"
  "accepts_block bs t \<Longrightarrow> accepts_catcher ((TOK_CATCH, s) # (TOK_COLON, s') # bs) None (Some t)"
  "accepts_block bs t \<Longrightarrow> accepts_catcher ((TOK_CATCH, s) # (TOK_IDENT, v) # (TOK_COLON, s') # bs) (Some v) (Some t)"
  by (auto simp: accepts_optional_def accepts_bound_def accepts_clause_def accepts_catcher_def)

lemma accepts_stmts_closed: "accepts_stmt False ws t \<Longrightarrow> accepts_stmts us ts \<Longrightarrow> accepts_stmts (ws @ us) (t # ts)"
  by (rule accepts_stmts.intros(2) [of False]) simp_all

lemma accepts_stmts_open:
  "accepts_stmt True ws t \<Longrightarrow> accepts_stmts us ts \<Longrightarrow> us = [] \<or> fst (hd us) \<notin> {TOK_LPAREN, TOK_LBRACKET, TOK_MINUS, TOK_PIPE} \<Longrightarrow>
    accepts_stmts (ws @ us) (t # ts)"
  by (rule accepts_stmts.intros(2) [of True]) simp_all

lemma accepts_decorated_func:
  assumes "accepts_decorators ds ts" "accepts_signature ws v ps t"
  shows "accepts_stmt False (ds @ (TOK_FUNC, s) # ws) (AST_FUNC_DEF nowhere v ps t ts)"
    "accepts_stmt False (ds @ (TOK_ASYNC, s) # (TOK_FUNC, s') # ws) (AST_ASYNC_FUNC_DEF nowhere v ps t ts)"
  using accepts_decorated [OF assms, of "[]" False s] accepts_decorated [OF assms, of "[(TOK_ASYNC, s)]" True s'] by simp_all

lemmas accepts_rules =
  accepts_below accepts_literals accepts_ident accepts_paren accepts_list accepts_list_comp accepts_dict accepts_dict_comp
  accepts_lambda accepts_lambda_block accepts_call accepts_index accepts_slice accepts_slice_step accepts_attr accepts_power
  accepts_unary accepts_await accepts_spawn accepts_binary accepts_not accepts_pipe accepts_ternary accepts_walrus accepts_assign
  accepts_augmented accepts_exprs.intros accepts_entries.intros accepts_parts accepts_params_nil accepts_params_one
  accepts_params_more accepts_signature_intro accepts_decorators_one accepts_decorators_more accepts_expr_stmt accepts_let
  accepts_let_null accepts_return accepts_raise accepts_yield accepts_bare_stmts accepts_nonlocal accepts_import
  accepts_from_star accepts_from accepts_if accepts_while accepts_for accepts_with accepts_func accepts_async
  accepts_decorated_func accepts_class accepts_struct accepts_enum accepts_try accepts_match accepts_stmts.intros(1)
  accepts_stmts_closed accepts_stmts_open accepts_block_intro accepts_elifs_nil accepts_elifs_more accepts_members_nil
  accepts_members_more accepts_pattern_type accepts_pattern_value accepts_pattern_range
  accepts_pattern_bind [unfolded alternatives_def] accepts_patterns.intros accepts_arms_nil accepts_arms_wild
  accepts_arms_more [unfolded alternatives_def]

lemma grammar_accepted:
  "expr L b ws t \<Longrightarrow> accepts L b ws t"
  "exprs ws ts \<Longrightarrow> accepts_exprs ws ts"
  "entries ws ks vs \<Longrightarrow> accepts_entries ws ks vs"
  "optional k ws r \<Longrightarrow> accepts_optional k ws r"
  "bound ws r \<Longrightarrow> accepts_bound ws r"
  "params ws ps \<Longrightarrow> accepts_params ws ps"
  "signature ws v ps t \<Longrightarrow> accepts_signature ws v ps t"
  "decorators ws ts \<Longrightarrow> accepts_decorators ws ts"
  "stmt b ws t \<Longrightarrow> accepts_stmt b ws t"
  "stmts ws ts \<Longrightarrow> accepts_stmts ws ts"
  "block ws t \<Longrightarrow> accepts_block ws t"
  "elifs ws cs ts \<Longrightarrow> accepts_elifs ws cs ts"
  "clause k ws r \<Longrightarrow> accepts_clause k ws r"
  "catcher ws w r \<Longrightarrow> accepts_catcher ws w r"
  "members ws vs xs \<Longrightarrow> accepts_members ws vs xs"
  "pattern b ws t \<Longrightarrow> accepts_pattern b ws t"
  "patterns ws ts \<Longrightarrow> accepts_patterns ws ts"
  "arms ws as w' \<Longrightarrow> accepts_arms ws as w'"
  by (induction rule: expr_exprs_entries_optional_bound_params_signature_decorators_stmt_stmts_block_elifs_clause_catcher_members_pattern_patterns_arms.inducts)
    (rule accepts_rules; assumption)+

section \<open>The module\<close>

lemma module_loop_ok:
  "accepts_stmts ws ts \<Longrightarrow> items p = ws @ [(TOK_EOF, s)] \<Longrightarrow>
    \<exists>as q. map erase as = ts \<and> items q = [(TOK_EOF, s)] \<and> ev (\<lambda>n k. module_loop n (parse_calls k) p = Some (as, q))"
proof (induction arbitrary: p rule: accepts_stmts.induct)
  case 1
  have "ev (\<lambda>n k. module_loop n (parse_calls k) p = Some ([], p))"
    by (rule ev_loop, rule ev_all) (use 1 in \<open>simp add: feed\<close>)
  then show ?case using 1 by auto
next
  case (2 b ws t us ts)
  have p: "items p = ws @ us @ [(TOK_EOF, s)]" using "2.prems" by simp
  have fo: "follows b (us @ [(TOK_EOF, s)])" by (rule stmts_follow [OF 2(2) _ 2(3)]) simp
  obtain a q where a: "erase a = t" "items q = us @ [(TOK_EOF, s)]" "ev (\<lambda>n k. parse_stmt n (parse_calls k) p = Some (Some a, q))"
    using 2(1) p fo unfolding accepts_stmt_def by blast
  obtain as q' where as: "map erase as = ts" "items q' = [(TOK_EOF, s)]" "ev (\<lambda>n k. module_loop n (parse_calls k) q = Some (as, q'))"
    using "2.IH" [OF a(2)] by blast
  have ws: "ws \<noteq> []" "fst (hd ws) \<in> set stmt_starters" using 2(1) by (auto simp: accepts_stmt_def)
  have h: "items p \<noteq> []" "fst (hd (items p)) = fst (hd ws)" using p ws(1) by simp_all
  have hq: "items q \<noteq> []" "fst (hd (items q)) \<noteq> TOK_NEWLINE" using a(2) fo by (simp_all add: follows_def)
  have "ev (\<lambda>n k. module_loop n (parse_calls k) p = Some (a # as, q'))"
    by (rule ev_loop, rule ev_elim2 [OF ev_c_stmt [OF a(3)] as(3)])
      (use h starter_follows(1) [OF ws(2)] hq in \<open>simp add: feed\<close>)
  then show ?case using a as by (intro exI [of _ "a # as"] exI [of _ q']) simp
qed

lemma program_parsed:
  assumes "program ws t" "items p = ws"
  obtains a q m where "erase a = t" "items q = [(TOK_EOF, [])]" "\<forall>n>m. parser_parse n p = Some (a, q)"
proof -
  obtain us ts where u: "stmts us ts" "ws = us @ [(TOK_EOF, [])]" "t = AST_MODULE nowhere ts"
    using assms(1) by (auto simp: program_def)
  have acc: "accepts_stmts us ts" by (rule grammar_accepted(10) [OF u(1)])
  obtain as q where as: "map erase as = ts" "items q = [(TOK_EOF, [])]" "ev (\<lambda>n k. module_loop n (parse_calls k) p = Some (as, q))"
    using module_loop_ok [OF acc] assms(2) u(2) by blast
  have "fst (hd (items p)) \<noteq> TOK_NEWLINE"
    using accepts_stmts_first [OF acc] starter_follows(1) assms(2) u(2) by (cases us) auto
  then have h: "items p \<noteq> []" "fst (hd (items p)) \<noteq> TOK_NEWLINE" using assms(2) u(2) by simp_all
  have "ev (\<lambda>n k. skip_newlines n p = Some p \<and> module_loop n (parse_calls k) p = Some (as, q))"
    by (rule ev_elim1 [OF as(3)]) (use h in \<open>simp add: feed\<close>)
  then obtain m where m: "\<forall>n>m. skip_newlines n p = Some p \<and> module_loop n (parse_calls n) p = Some (as, q)"
    using ev_same by blast
  show thesis
  proof
    show "\<forall>n>m. parser_parse n p = Some (AST_MODULE (1, 1) as, q)" using m by (simp add: parser_parse_def)
    show "items q = [(TOK_EOF, [])]" by (rule as(2))
    show "erase (AST_MODULE (1, 1) as) = t" using as(1) u(3) by simp
  qed
qed

section \<open>The tokens of a source\<close>

text \<open>The kinds of the tokens with the texts of those that have one.\<close>

fun texts :: "token_kind list \<Rightarrow> string list \<Rightarrow> item list" where
  "texts [] ws = []"
| "texts (k # ks) ws = (if layout_kind k then (k, []) # texts ks ws else (k, hd ws) # texts ks (tl ws))"

lemma texts_lexemes: "texts (map tok_kind ts) (lexemes source ts) = map (item_of source) ts"
  by (induction ts) (simp_all add: item_of_def)

lemma tokens_ahead:
  "tokens n lx = Some ts \<Longrightarrow> lexer_ok lx \<Longrightarrow> queue_ok lx \<Longrightarrow> tok_kind (last ts) = TOK_EOF \<Longrightarrow>
    ahead lx (map (item_of (lx_source lx)) ts)"
proof (induction n arbitrary: lx ts)
  case 0
  then show ?case by simp
next
  case (Suc n)
  obtain t lx' where n: "lexer_next lx = Some (t, lx')" and f: "step_facts lx t lx'"
    using lexer_next_facts [OF Suc.prems(2,3)] by blast
  have s: "lx_source lx' = lx_source lx" using f by (simp add: step_facts_def)
  show ?case
  proof (cases "last_token t")
    case True
    then have ts: "ts = [t]" using Suc.prems(1) n by (auto simp: last_token_def)
    then have k: "tok_kind t = TOK_EOF" using Suc.prems(4) by simp
    then show ?thesis using ahead_end [OF n k s] ts by (simp add: item_of_def layout_kind_def)
  next
    case False
    then obtain us where u: "tokens n lx' = Some us" "ts = t # us" using Suc.prems(1) n by (auto simp: last_token_def bind_Some_iff)
    have "us \<noteq> []" using u(1) by (cases n) (auto simp: bind_Some_iff split: if_splits)
    then have "ahead lx' (map (item_of (lx_source lx')) us)"
      using Suc.IH [OF u(1)] f Suc.prems(4) u(2) False by (simp add: step_facts_def last_token_def)
    then show ?thesis using ahead_next [OF n False s] u(2) s by simp
  qed
qed

lemma parser_init_items:
  assumes "ahead lx ws"
  obtains p where "parser_init lx = Some p" "items p = ws"
proof -
  obtain t lx' where n: "lexer_next lx = Some (t, lx')" and s: "lx_source lx' = lx_source lx" and e: "tok_kind t \<noteq> TOK_ERROR"
    and i: "tok_kind t = TOK_EOF \<and> ws = [(TOK_EOF, [])] \<or>
       tok_kind t \<noteq> TOK_EOF \<and> (\<exists>us. ahead lx' us \<and> ws = item_of (lx_source lx') t # us)"
    using assms by cases (auto simp: last_token_def)
  let ?p = "\<lparr>ps_lex = lx', ps_current = t, ps_previous = blank_token, ps_had_error = False, ps_panic_mode = False, ps_errors = []\<rparr>"
  have "parser_init lx = Some ?p" using n e by (simp add: parser_init_def p_advance_def token_bound_def numeral_2_eq_2)
  moreover have "items ?p = ws" by (rule offers_items) (use i e in \<open>auto simp: offers_def calm_def\<close>)
  ultimately show thesis using that by blast
qed

lemma spaced_last: "spaced ws \<noteq> [] \<and> last (spaced ws) = CHR 0x0A"
  by (induction ws) auto

lemma print_lines_last: "ls \<noteq> [] \<Longrightarrow> print_lines ls \<noteq> [] \<and> last (print_lines ls) = CHR 0x0A"
proof (induction ls)
  case (Cons l ls)
  then show ?case using spaced_last [of "snd l"] by (cases l; cases "ls = []") (simp_all add: last_append)
qed simp

lemma lines_parsed:
  assumes "list_all2 (\<lambda>(n, ws) (m, ks). n = m \<and> ws \<noteq> [] \<and> list_all2 spells ws ks) ls ms" "offside [0] ms = Some ks"
    "program (texts ks (concat (map snd ls))) t"
  shows "\<exists>a p m. erase a = t \<and> calm p \<and> p_kind p = TOK_EOF \<and> (\<forall>n>m. parse_source n (print_lines ls) = Some (a, p))"
proof -
  let ?lx = "lexer_init (print_lines ls)"
  have r: "ready ?lx [0] (print_lines ls)" "levels_ok [0]" by (simp_all add: ready_def lexer_init_def rest_def levels_ok_def)
  have src: "lx_source ?lx = print_lines ls" by (simp add: lexer_init_def)
  obtain ts where ts: "tokens (length ks) ?lx = Some ts" "map tok_kind ts = ks" "lexemes (print_lines ls) ts = concat (map snd ls)"
    using lines_run [OF assms(1) r _ assms(2)] src by (auto simp: lexer_init_queue)
  obtain us where us: "texts ks (concat (map snd ls)) = us @ [(TOK_EOF, [])]" using assms(3) by (auto simp: program_def)
  have w: "map (item_of (print_lines ls)) ts = us @ [(TOK_EOF, [])]"
    using texts_lexemes [of ts "print_lines ls"] ts(2,3) us by simp
  have ne: "ts \<noteq> []" using w by auto
  have "item_of (print_lines ls) (last ts) = (TOK_EOF, [])"
    using last_map [OF ne, of "item_of (print_lines ls)"] unfolding w by simp
  then have e: "tok_kind (last ts) = TOK_EOF" by (simp add: item_of_def)
  have src_ok: "print_lines ls = [] \<or> last (print_lines ls) \<noteq> CHR 0x5C" using print_lines_last [of ls] by (cases "ls = []") simp_all
  have "ahead ?lx (map (item_of (lx_source ?lx)) ts)"
    by (rule tokens_ahead [OF ts(1) lexer_init_ok [OF src_ok] lexer_init_queue(1) e])
  then have "ahead ?lx (texts ks (concat (map snd ls)))" using src w us by simp
  then obtain p where p: "parser_init ?lx = Some p" "items p = texts ks (concat (map snd ls))"
    by (rule parser_init_items)
  obtain a q m where a: "erase a = t" "items q = [(TOK_EOF, [])]" "\<forall>n>m. parser_parse n p = Some (a, q)"
    by (rule program_parsed [OF assms(3) p(2)])
  have "\<forall>n>m. parse_source n (print_lines ls) = Some (a, q)" using a(3) p(1) by (simp add: parse_source_def)
  moreover have "calm q" "p_kind q = TOK_EOF" using a(2) items_calm [of q] items_current(1) [of q] by simp_all
  ultimately show ?thesis using a(1) by blast
qed

end
