(* ===== verification/Lexer_Properties.thy ===== *)
theory Lexer_Properties
  imports LexerLines
begin

text \<open>
  The properties of the lexer: it always ends, its indentation stack and its queue stay well formed, layout
  tokens balance, and a source printed from lexemes is read back as these lexemes with the layout tokens the
  indentation prescribes.
\<close>

declare tokens.simps [simp del]

lemma indents_take: "indents (take k ts) \<le> indents ts"
  by (metis append_take_drop_id counts_append(1) le_add1)

text \<open>A block of one line.\<close>

definition sample_lines :: "(nat \<times> string list) list" where
  "sample_lines = [(0, [''if'', ''x'', '':'']), (2, [''y'', ''+='', ''1''])]"

definition sample_kinds :: "(nat \<times> token_kind list) list" where
  "sample_kinds = [(0, [TOK_IF, TOK_IDENT, TOK_COLON]), (2, [TOK_IDENT, TOK_PLUS_ASSIGN, TOK_INT])]"

definition sample_tokens :: "token_kind list" where
  "sample_tokens = [TOK_IF, TOK_IDENT, TOK_COLON, TOK_NEWLINE, TOK_INDENT, TOK_IDENT, TOK_PLUS_ASSIGN, TOK_INT, TOK_NEWLINE,
     TOK_DEDENT, TOK_EOF]"

lemma sample_length: "length sample_tokens = 11"
  by (simp add: sample_tokens_def)

lemma sample_words: "concat (map snd sample_lines) = [''if'', ''x'', '':'', ''y'', ''+='', ''1'']"
  by (simp add: sample_lines_def)

lemma sample_spelled: "list_all2 (\<lambda>(n, ws) (m, ks). n = m \<and> ws \<noteq> [] \<and> list_all2 spells ws ks) sample_lines sample_kinds"
proof -
  have "spells ''if'' TOK_IF" "spells ''x'' TOK_IDENT" "spells ''y'' TOK_IDENT"
    using spells.word [of "CHR ''i''" "''f''"] spells.word [of "CHR ''x''" "[]"] spells.word [of "CHR ''y''" "[]"]
    by (simp_all add: isalpha_def in_word_def char_between_def ident_or_keyword_def keyword_table_def)
  moreover have "spells '':'' TOK_COLON" "spells ''+='' TOK_PLUS_ASSIGN"
    by (rule spells.operator; simp add: operators_def)+
  moreover have "spells ''1'' TOK_INT" by (rule spells.decimal) (simp_all add: isdigit_def char_between_def)
  ultimately show ?thesis by (simp add: sample_lines_def sample_kinds_def)
qed

lemma sample_offside: "offside [0] sample_kinds = Some sample_tokens"
  by (simp add: sample_kinds_def sample_tokens_def shift_def FLUX_INDENT_MAX_def)

text \<open>C33: The lexer ends: on a source that does not end in a backslash it never reads behind the terminating
  NUL, and after at most twice as many tokens as characters it delivers the end of the source or an error.\<close>

theorem lexer_terminates:
  assumes "source = [] \<or> last source \<noteq> CHR 0x5C"
  shows "\<exists>ts t. tokens (2 * length source + 3) (lexer_init source) = Some (ts @ [t]) \<and> last_token t \<and> (\<forall>u \<in> set ts. \<not> last_token u)"
proof (rule tokens_run)
  show "lexer_ok (lexer_init source)" by (rule lexer_init_ok [OF assms])
  show "queue_ok (lexer_init source)" by (rule lexer_init_queue)
  show "weight (lexer_init source) < 2 * length source + 3" by (simp add: lexer_init_queue)
qed

theorem lexer_terminates_witness:
  "\<exists>ts t. tokens 9 (lexer_init ''a+1'') = Some (ts @ [t]) \<and> last_token t \<and> (\<forall>u \<in> set ts. \<not> last_token u)"
  using lexer_terminates [of "''a+1''"] by simp

text \<open>C34: In every reachable state the indentation stack begins with column 0, rises strictly and has at most 64
  levels, the ring has four slots with its head inside, and the position lies inside the source.\<close>

theorem lexer_state_invariant:
  assumes "lexer_reach source lx" "source = [] \<or> last source \<noteq> CHR 0x5C"
  shows "\<exists>levels. lx_indent_stack lx = 0 # levels \<and> sorted_wrt (<) (0 # levels) \<and> length (0 # levels) \<le> FLUX_INDENT_MAX \<and>
    length (lx_pending lx) = 4 \<and> lx_pending_head lx < 4 \<and> lx_current lx \<le> length (lx_source lx)"
  using lexer_reach_ok [OF assms] by (auto simp: lexer_ok_def layout_ok_def sound_def)

theorem lexer_state_invariant_witness:
  "\<exists>levels. lx_indent_stack (lexer_init ''a'') = 0 # levels \<and> sorted_wrt (<) (0 # levels) \<and> length (0 # levels) \<le> FLUX_INDENT_MAX \<and>
    length (lx_pending (lexer_init ''a'')) = 4 \<and> lx_pending_head (lexer_init ''a'') < 4 \<and>
    lx_current (lexer_init ''a'') \<le> length (lx_source (lexer_init ''a''))"
  using lexer_state_invariant [OF reach_init [of "''a''"]] by simp

text \<open>C35: No DEDENT without its INDENT: no prefix of the tokens has more DEDENTs than INDENTs.  When the source ends
  with a line end and at most three levels were ever open, every INDENT is closed before the end of the source.\<close>

theorem layout_balanced:
  assumes "source = [] \<or> last source \<noteq> CHR 0x5C" "tokens n (lexer_init source) = Some ts"
  shows "(\<forall>k. dedents (take k ts) \<le> indents (take k ts)) \<and>
    (\<forall>us nl ds e. ts = us @ nl # ds @ [e] \<and> tok_kind nl = TOK_NEWLINE \<and> (\<forall>d \<in> set ds. is_dedent d) \<and> tok_kind e = TOK_EOF \<and>
      (\<forall>k. indents (take k us) \<le> dedents (take k us) + 3) \<longrightarrow> dedents ts = indents ts)"
proof (intro conjI allI impI)
  note ok = lexer_init_ok [OF assms(1)] lexer_init_queue(1) [of source]
  fix k show "dedents (take k ts) \<le> indents (take k ts)"
    using tokens_prefix [OF assms(2) ok] lexer_init_queue(2) by simp
next
  note ok = lexer_init_ok [OF assms(1)] lexer_init_queue(1) [of source]
  fix us nl ds e
  assume h: "ts = us @ nl # ds @ [e] \<and> tok_kind nl = TOK_NEWLINE \<and> (\<forall>d \<in> set ds. is_dedent d) \<and> tok_kind e = TOK_EOF \<and>
      (\<forall>k. indents (take k us) \<le> dedents (take k us) + 3)"
  then have "dedents us + length ds = indents us"
    using tokens_closed [of n "lexer_init source" us nl ds e] assms(2) ok lexer_init_queue(2) [of source] by simp
  moreover have "dedents ds = length ds" "indents ds = 0"
    using h by (auto simp: dedents_def indents_def filter_empty_conv)
  ultimately show "dedents ts = indents ts" using h by simp
qed

theorem layout_balanced_witness:
  "\<exists>ts. tokens 11 (lexer_init (print_lines sample_lines)) = Some ts \<and> map tok_kind ts = sample_tokens \<and> dedents ts = indents ts"
proof -
  let ?s = "print_lines sample_lines"
  have "ready (lexer_init ?s) [0] ?s" "levels_ok [0]" by (simp_all add: ready_def lexer_init_def rest_def levels_ok_def)
  then obtain ts where ts: "tokens (length sample_tokens) (lexer_init ?s) = Some ts" "map tok_kind ts = sample_tokens"
    using lines_run [OF sample_spelled _ _ _ sample_offside, of "lexer_init ?s"] by (auto simp: lexer_init_queue)
  have src: "?s = [] \<or> last ?s \<noteq> CHR 0x5C" by (simp add: sample_lines_def)
  obtain a b c d e f g h i j k where l: "ts = [a, b, c, d, e, f, g, h] @ i # [j] @ [k]"
    using ts(2) by (auto simp: sample_tokens_def map_eq_Cons_conv)
  then have k: "indents [a, b, c, d, e, f, g, h] = 1" "tok_kind i = TOK_NEWLINE" "is_dedent j" "tok_kind k = TOK_EOF"
    using ts(2) by (auto simp: sample_tokens_def)
  have "\<forall>m. indents (take m [a, b, c, d, e, f, g, h]) \<le> dedents (take m [a, b, c, d, e, f, g, h]) + 3"
    by (intro allI trans_le_add2 le_trans [OF indents_take]) (simp only: k(1))
  then have "dedents ts = indents ts"
    using k(2-) l by (intro layout_balanced [OF src ts(1), THEN conjunct2, rule_format, of "[a, b, c, d, e, f, g, h]" i "[j]" k] conjI)
      simp_all
  then show ?thesis using ts unfolding sample_length by blast
qed

text \<open>C36: What was printed is read back: the tokens of a source made of indented lines of lexemes are the kinds of
  these lexemes with NEWLINE, INDENT, DEDENT and EOF where the layout rule puts them, and the tokens between point at
  exactly the characters of the lexemes.\<close>

theorem lexer_reads_back:
  assumes "list_all2 (\<lambda>(n, ws) (m, ks). n = m \<and> ws \<noteq> [] \<and> list_all2 spells ws ks) ls ms" "offside [0] ms = Some ks"
  shows "\<exists>ts. tokens (length ks) (lexer_init (print_lines ls)) = Some ts \<and> map tok_kind ts = ks \<and>
    lexemes (print_lines ls) ts = concat (map snd ls)"
proof -
  have "ready (lexer_init (print_lines ls)) [0] (print_lines ls)" "levels_ok [0]"
    by (simp_all add: ready_def lexer_init_def rest_def levels_ok_def)
  then show ?thesis using lines_run [OF assms(1) _ _ _ assms(2), of "lexer_init (print_lines ls)"]
    by (simp add: lexer_init_queue) (simp add: lexer_init_def)
qed

theorem lexer_reads_back_witness:
  "\<exists>ts. tokens 11 (lexer_init (print_lines sample_lines)) = Some ts \<and> map tok_kind ts = sample_tokens \<and>
    lexemes (print_lines sample_lines) ts = [''if'', ''x'', '':'', ''y'', ''+='', ''1'']"
  using lexer_reads_back [OF sample_spelled sample_offside] unfolding sample_length sample_words .

section \<open>Two limits\<close>

text \<open>The ring has four slots: with \<open>n\<close> open levels at the end of the source only \<open>n mod 4\<close> DEDENTs come before the
  end of the source, none of them for four levels.\<close>

lemma closing_tokens:
  assumes "lexer_ok lx" "lx_pending_count lx = 0" "end_of_source lx = (t, lx')"
  shows "map tok_kind (takeWhile (\<lambda>t. tok_kind t \<noteq> TOK_EOF) (t # queued lx')) =
    replicate ((length (lx_indent_stack lx) - 1) mod 4) TOK_DEDENT"
proof -
  let ?n = "length (lx_indent_stack lx) - 1" and ?d = "end_token TOK_DEDENT lx" and ?e = "end_token TOK_EOF lx"
  let ?lx = "push_pending ?e (close_levels ?n ?d lx)"
  have lay: "layout_ok lx" and n: "?n < length (lx_indent_stack lx)"
    using assms(1) by (auto simp: lexer_ok_def layout_ok_def)
  have h: "lx_pending_head ?lx < 4"
    using close_levels_popped [OF n, of ?d] lay by (simp add: popped_def layout_ok_def)
  have "t # queued lx' = ending ?n ?d ?e"
    using pop_pending_queued [of ?lx] h close_levels_ending [OF lay assms(2) n, of ?e ?d] assms(3) by (simp add: end_of_source_def)
  then show ?thesis
    using takeWhile_ending [of ?d ?e ?n] by (simp only:) (simp add: end_token_def)
qed

text \<open>A backslash at the end of the source hides the terminating NUL from the scanner of strings.\<close>

lemma string_loop_backslash:
  "rest lx = w @ [CHR 0x5C] \<Longrightarrow> \<forall>x \<in> set w. plain_char q x \<Longrightarrow> is_quote q \<Longrightarrow> scan_string_loop q lx = None"
proof (induction w arbitrary: lx)
  case Nil
  then have r: "rest lx = CHR 0x5C # []" by simp
  have e: "lx_current lx + 1 = length (lx_source lx)" using arg_cong [OF r, of length] by (simp add: rest_def)
  have s: "skip lx = Some (fwd 1 lx)" by (rule skip_rest [OF r]) simp
  have p: "peek (fwd 1 lx) = Some NUL" using e by (simp add: peek_def char_at_def)
  then have "skip_counting (fwd 1 lx) = Some (fwd 2 lx)"
    by (simp add: skip_counting_def count_newline_def skip_def advance_def) (simp add: fwd_def)
  moreover have "peek (fwd 2 lx) = None" using e by (simp add: peek_def char_at_def)
  then have "scan_string_loop q (fwd 2 lx) = None" by (subst scan_string_loop.simps) simp
  ultimately show ?case using peek_rest [OF r] s Nil.prems(3) by (subst scan_string_loop.simps) (auto simp: is_quote_def)
next
  case (Cons x w)
  have "scan_string_loop q (fwd 1 lx) = None" by (rule Cons.IH) (use Cons.prems in simp_all)
  moreover have "skip_counting lx = Some (fwd 1 lx)"
    using Cons.prems by (simp add: skip_counting_def count_newline_def peek_rest skip_rest plain_char_def)
  ultimately show ?case using Cons.prems by (subst scan_string_loop.simps) (simp add: peek_rest plain_char_def)
qed

end
