(* ===== verification/Parser_Properties.thy ===== *)
theory Parser_Properties
  imports ParserSound Lexer_Properties
begin

text \<open>
  The properties of the parser: it builds the tree of every program of the grammar, from the characters of the source
  on.
\<close>

text \<open>A primary is an expression of every level above.\<close>

lemma level_up: "expr M b ws t \<Longrightarrow> M = below L \<Longrightarrow> L \<noteq> Primary \<Longrightarrow> fst (hd ws) \<noteq> TOK_NOT \<Longrightarrow> expr L b ws t"
  by (auto intro: e_below)

lemma primary_up:
  assumes "expr Primary b ws t" "fst (hd ws) \<noteq> TOK_NOT"
  shows "expr Ternary b ws t" "expr Expr b ws t"
proof -
  note up = level_up [OF _ _ _ assms(2)]
  have "expr Postfix b ws t" by (rule up [OF assms(1)]) simp_all
  then have "expr Power b ws t" by (rule up) simp_all
  then have "expr Unary b ws t" by (rule up) simp_all
  then have "expr Mul b ws t" by (rule up) simp_all
  then have "expr Add b ws t" by (rule up) simp_all
  then have "expr Shift b ws t" by (rule up) simp_all
  then have "expr Bitand b ws t" by (rule up) simp_all
  then have "expr Bitxor b ws t" by (rule up) simp_all
  then have "expr Bitor b ws t" by (rule up) simp_all
  then have "expr Comparison b ws t" by (rule up) simp_all
  then have "expr Not b ws t" by (rule up) simp_all
  then have "expr And b ws t" by (rule up) simp_all
  then have "expr Or b ws t" by (rule up) simp_all
  then have "expr Pipeline b ws t" by (rule up) simp_all
  then show "expr Ternary b ws t" by (rule up) simp_all
  then show "expr Expr b ws t" by (rule up) simp_all
qed

definition sample_tree :: ast where
  "sample_tree = AST_MODULE nowhere [AST_IF nowhere (AST_IDENT nowhere ''x'')
     (AST_BLOCK nowhere [AST_EXPR_STMT nowhere (AST_AUGMENTED_ASSIGN nowhere (AST_IDENT nowhere ''y'') (AST_INT nowhere 1) TOK_PLUS_ASSIGN)])
     [] [] None]"

lemma sample_program: "program (texts sample_tokens (concat (map snd sample_lines))) sample_tree"
proof -
  have x: "expr Expr False [(TOK_IDENT, ''x'')] (AST_IDENT nowhere ''x'')"
    and y: "expr Ternary False [(TOK_IDENT, ''y'')] (AST_IDENT nowhere ''y'')"
    by (rule primary_up, rule e_ident; simp)+
  have "expr Expr False [(TOK_INT, ''1'')] (AST_INT nowhere (strtoll (take 63 ''1'')))" by (rule primary_up(2) [OF e_int]) simp
  moreover have "strtoll (take 63 ''1'') = 1" by (simp add: strtoll_def char_value_def char_between_def)
  ultimately have "expr Expr False [(TOK_INT, ''1'')] (AST_INT nowhere 1)" by simp
  from e_aug [OF y this, of TOK_PLUS_ASSIGN "''+=''"]
  have a: "expr Expr False [(TOK_IDENT, ''y''), (TOK_PLUS_ASSIGN, ''+=''), (TOK_INT, ''1'')]
    (AST_AUGMENTED_ASSIGN nowhere (AST_IDENT nowhere ''y'') (AST_INT nowhere 1) TOK_PLUS_ASSIGN)" by (simp add: aug_ops_def)
  have "\<not> foreign [(TOK_IDENT, ''y''), (TOK_PLUS_ASSIGN, ''+=''), (TOK_INT, ''1'')]"
    by (simp add: foreign_def declaration_follows_def)
  from block_intro [OF stmts_more [OF s_expr [OF a this, of False] stmts_nil]]
  have b: "block ((TOK_NEWLINE, []) # (TOK_INDENT, []) # [(TOK_IDENT, ''y''), (TOK_PLUS_ASSIGN, ''+=''), (TOK_INT, ''1''), (TOK_NEWLINE, []), (TOK_DEDENT, [])])
    (AST_BLOCK nowhere [AST_EXPR_STMT nowhere (AST_AUGMENTED_ASSIGN nowhere (AST_IDENT nowhere ''y'') (AST_INT nowhere 1) TOK_PLUS_ASSIGN)])"
    by (simp add: line_end_def)
  note s = stmts_more [OF s_if [OF x b elifs_nil clause_none, of "''if''" "'':''"] stmts_nil]
  show ?thesis
    unfolding program_def
    by (rule exI, rule exI, rule conjI [OF s]) (simp add: sample_tree_def sample_tokens_def sample_words layout_kind_def)
qed

text \<open>C2: The parser implements the grammar, from the characters on: a source of indented lines of lexemes whose tokens
  are a program of the grammar is parsed, with enough fuel, to the tree of this program, with no error reported and
  all its tokens read.\<close>

theorem parser_builds_tree:
  assumes "list_all2 (\<lambda>(n, ws) (m, ks). n = m \<and> ws \<noteq> [] \<and> list_all2 spells ws ks) ls ms" "offside [0] ms = Some ks"
    "program (texts ks (concat (map snd ls))) t"
  shows "\<exists>a p m. erase a = t \<and> ps_errors p = [] \<and> \<not> ps_had_error p \<and> p_kind p = TOK_EOF \<and>
    (\<forall>n>m. parse_source n (print_lines ls) = Some (a, p))"
  using lines_parsed [OF assms] by (auto simp: calm_def)

theorem parser_builds_tree_witness:
  "\<exists>a p m. erase a = sample_tree \<and> ps_errors p = [] \<and> \<not> ps_had_error p \<and> p_kind p = TOK_EOF \<and>
    (\<forall>n>m. parse_source n (print_lines sample_lines) = Some (a, p))"
  by (rule parser_builds_tree [OF sample_spelled sample_offside sample_program])

end
