(* ===== verification/Compiler.thy ===== *)
theory Compiler
  imports Ast Arith
begin

text \<open>
  The state of the compiler (\<^verbatim>\<open>include/flux/compiler.h\<close>) and its helpers (\<^verbatim>\<open>src/compiler/compiler.c\<close> up to the
  compilation of expressions): emitting and patching code, constants, scopes, local variables, upvalues, function
  frames and the access to a variable.

  The function being built is an object of the heap of the machine, as in the code; \<^verbatim>\<open>current_chunk(c)\<close> is its chunk.
  A slot or an index that is \<^verbatim>\<open>-1\<close> in C is \<^const>\<open>None\<close>.  The chain \<^verbatim>\<open>c->frame\<close>, \<^verbatim>\<open>frame->enclosing\<close> is a list,
  innermost first.  The arrays of fixed size are the lists of their initialised entries; names are lexemes and hold no
  NUL.  Reports go to \<^verbatim>\<open>stderr\<close>; what remains of them is \<open>cp_had_error\<close>.
\<close>

section \<open>State\<close>

definition FLUX_MAX_LOCALS :: nat where "FLUX_MAX_LOCALS = 256"
definition FLUX_MAX_UPVALUES :: nat where "FLUX_MAX_UPVALUES = 256"
definition FLUX_TRY_DEPTH_MAX :: nat where "FLUX_TRY_DEPTH_MAX = 32"
definition MAX_GLOBAL_NAMES :: nat where "MAX_GLOBAL_NAMES = 1024"
definition MAX_BREAK_JUMPS :: nat where "MAX_BREAK_JUMPS = 64"

record local_var =
  lo_name :: string
  lo_depth :: int
  lo_captured :: bool
  lo_is_const :: bool

record upvalue_desc =
  ud_index :: byte
  ud_is_local :: bool

datatype (plugins only: code) func_kind = FUNC_SCRIPT | FUNC_FUNCTION | FUNC_METHOD | FUNC_INIT | FUNC_ASYNC

record compiler_frame =
  cf_function :: ptr
  cf_kind :: func_kind
  cf_has_yield :: bool
  cf_locals :: "local_var list"
  cf_scope_depth :: int
  cf_upvalues :: "upvalue_desc list"
  cf_nonlocals :: "string list"

record class_compiler =
  cc_name :: ptr
  cc_superclass_name :: "string option"

record try_context =
  tc_finally_body :: "ast option"
  tc_with_mgr_slot :: "nat option"
  tc_in_catch :: bool
  tc_outer_locals_to_pop :: nat

record compiler =
  cp_vm :: flux_vm
  cp_frames :: "compiler_frame list"
  cp_class_ctx :: "class_compiler list"
  cp_had_error :: bool
  cp_source_name :: "string option"
  cp_loop_start :: int
  cp_loop_depth :: nat
  cp_break_jumps :: "nat list"
  cp_break_count :: nat
  cp_globals :: "(string \<times> bool) list"
  cp_current_exc_slot :: "nat option"
  cp_try_stack :: "try_context list"
  cp_try_depth :: nat
  cp_try_depth_at_loop :: nat

text \<open>Writing \<^verbatim>\<open>a[i]\<close> of an array whose first entries are initialised.\<close>

definition array_put :: "'a list \<Rightarrow> nat \<Rightarrow> 'a \<Rightarrow> 'a list option" where
  "array_put xs i x =
     (if i < length xs then Some (xs[i := x]) else if i = length xs then Some (xs @ [x]) else None)"

definition compile_error :: "compiler \<Rightarrow> compiler" where
  "compile_error c = c\<lparr>cp_had_error := True\<rparr>"

section \<open>The current frame and its chunk\<close>

definition cur_frame :: "compiler \<Rightarrow> compiler_frame option" where
  "cur_frame c = (case cp_frames c of [] \<Rightarrow> None | f # fs \<Rightarrow> Some f)"

definition upd_frame :: "(compiler_frame \<Rightarrow> compiler_frame) \<Rightarrow> compiler \<Rightarrow> compiler option" where
  "upd_frame g c = (case cp_frames c of [] \<Rightarrow> None | f # fs \<Rightarrow> Some (c\<lparr>cp_frames := g f # fs\<rparr>))"

definition cur_function :: "compiler \<Rightarrow> flux_function option" where
  "cur_function c = do { f \<leftarrow> cur_frame c; get_function (vm_heap (cp_vm c)) (cf_function f) }"

definition upd_function :: "(flux_function \<Rightarrow> flux_function) \<Rightarrow> compiler \<Rightarrow> compiler option" where
  "upd_function g c = do {
     f \<leftarrow> cur_frame c;
     fn \<leftarrow> get_function (vm_heap (cp_vm c)) (cf_function f);
     vm \<leftarrow> vm_hput (cp_vm c) (cf_function f) (OBJ_FUNCTION (g fn));
     Some (c\<lparr>cp_vm := vm\<rparr>)
   }"

definition current_chunk :: "compiler \<Rightarrow> chunk option" where
  "current_chunk c = map_option fn_chunk (cur_function c)"

definition upd_chunk :: "(chunk \<Rightarrow> chunk) \<Rightarrow> compiler \<Rightarrow> compiler option" where
  "upd_chunk g = upd_function (\<lambda>fn. fn\<lparr>fn_chunk := g (fn_chunk fn)\<rparr>)"

definition code_count :: "compiler \<Rightarrow> nat option" where
  "code_count c = map_option (\<lambda>ch. length (ch_code ch)) (current_chunk c)"

section \<open>Emitting code\<close>

definition emit_byte :: "compiler \<Rightarrow> byte \<Rightarrow> int \<Rightarrow> compiler option" where
  "emit_byte c b line = upd_chunk (\<lambda>ch. chunk_write ch b line) c"

definition emit_op :: "compiler \<Rightarrow> opcode \<Rightarrow> int \<Rightarrow> compiler option" where
  "emit_op c op line = emit_byte c (opcode_byte op) line"

definition emit_uint16 :: "compiler \<Rightarrow> uint16 \<Rightarrow> int \<Rightarrow> compiler option" where
  "emit_uint16 c v line = upd_chunk (\<lambda>ch. chunk_write_uint16 ch v line) c"

definition emit_int64 :: "compiler \<Rightarrow> int64 \<Rightarrow> int \<Rightarrow> compiler option" where
  "emit_int64 c v line = upd_chunk (\<lambda>ch. chunk_write_int64 ch v line) c"

definition emit_double :: "compiler \<Rightarrow> double \<Rightarrow> int \<Rightarrow> compiler option" where
  "emit_double c v line = upd_chunk (\<lambda>ch. chunk_write_double ch v line) c"

text \<open>An opcode with a byte operand.\<close>

definition emit_op_byte :: "compiler \<Rightarrow> opcode \<Rightarrow> byte \<Rightarrow> int \<Rightarrow> compiler option" where
  "emit_op_byte c op b line = do { c \<leftarrow> emit_op c op line; emit_byte c b line }"

text \<open>\<^verbatim>\<open>(uint8_t)slot\<close>.\<close>

definition slot_byte :: "nat option \<Rightarrow> byte" where
  "slot_byte s = (case s of None \<Rightarrow> 0xFF | Some n \<Rightarrow> of_nat n)"

definition emit_jump :: "compiler \<Rightarrow> opcode \<Rightarrow> int \<Rightarrow> (nat \<times> compiler) option" where
  "emit_jump c op line = do {
     c \<leftarrow> emit_op c op line;
     offset \<leftarrow> code_count c;
     c \<leftarrow> emit_uint16 c 0xFFFF line;
     Some (offset, c)
   }"

definition patch_int16 :: "compiler \<Rightarrow> nat \<Rightarrow> int \<Rightarrow> compiler option" where
  "patch_int16 c offset jump = do {
     ch \<leftarrow> current_chunk c;
     ch \<leftarrow> chunk_patch_int16 ch offset (word_of_int jump);
     upd_chunk (\<lambda>_. ch) c
   }"

definition patch_jump :: "compiler \<Rightarrow> nat \<Rightarrow> compiler option" where
  "patch_jump c offset = do {
     count \<leftarrow> code_count c;
     let jump = int count - int offset - 2;
     let c = (if 0x7FFF < jump then compile_error c else c);
     patch_int16 c offset jump
   }"

definition emit_exception_handler :: "compiler \<Rightarrow> nat option \<Rightarrow> int \<Rightarrow> (nat \<times> compiler) option" where
  "emit_exception_handler c catch_slot line = do {
     c \<leftarrow> emit_op c OP_PUSH_EXCEPTION_HANDLER line;
     offset_pos \<leftarrow> code_count c;
     c \<leftarrow> emit_uint16 c 0xFFFF line;
     c \<leftarrow> emit_byte c (slot_byte catch_slot) line;
     Some (offset_pos, c)
   }"

definition patch_exception_handler :: "compiler \<Rightarrow> nat \<Rightarrow> compiler option" where
  "patch_exception_handler c offset_pos = do {
     count \<leftarrow> code_count c;
     let jump = int count - int offset_pos - 3;
     if 0x7FFF < jump \<or> jump < -0x8000 then Some (compile_error c)
     else patch_int16 c offset_pos jump
   }"

definition emit_loop :: "compiler \<Rightarrow> int \<Rightarrow> int \<Rightarrow> compiler option" where
  "emit_loop c loop_start line = do {
     c \<leftarrow> emit_op c OP_LOOP line;
     count \<leftarrow> code_count c;
     let offset = int count - loop_start + 2;
     let c = (if 0x7FFF < offset then compile_error c else c);
     emit_uint16 c (word_of_int offset) line
   }"

section \<open>Constants\<close>

definition make_constant :: "compiler \<Rightarrow> flux_value \<Rightarrow> (uint16 \<times> compiler) option" where
  "make_constant c v = do {
     ch \<leftarrow> current_chunk c;
     let (idx, ch) = chunk_add_constant ch v;
     c \<leftarrow> upd_chunk (\<lambda>_. ch) c;
     if 0xFFFF < idx then Some (0, compile_error c) else Some (of_nat idx, c)
   }"

definition string_constant :: "compiler \<Rightarrow> string \<Rightarrow> (uint16 \<times> compiler) option" where
  "string_constant c s = do {
     (p, vm) \<leftarrow> object_string_copy (cp_vm c) s;
     make_constant (c\<lparr>cp_vm := vm\<rparr>) (VAL_OBJECT p)
   }"

definition identifier_constant :: "compiler \<Rightarrow> string \<Rightarrow> (uint16 \<times> compiler) option" where
  "identifier_constant c name = string_constant c name"

text \<open>\<^verbatim>\<open>emit_uint16(c, identifier_constant(c, name, ...), line)\<close>.\<close>

definition emit_identifier :: "compiler \<Rightarrow> string \<Rightarrow> int \<Rightarrow> compiler option" where
  "emit_identifier c name line = do { (idx, c) \<leftarrow> identifier_constant c name; emit_uint16 c idx line }"

text \<open>An opcode whose operand is the constant of a name.\<close>

definition emit_op_name :: "compiler \<Rightarrow> opcode \<Rightarrow> string \<Rightarrow> int \<Rightarrow> compiler option" where
  "emit_op_name c op name line = do { c \<leftarrow> emit_op c op line; emit_identifier c name line }"

section \<open>Scopes and local variables\<close>

definition scope_begin :: "compiler \<Rightarrow> compiler option" where
  "scope_begin = upd_frame (\<lambda>f. f\<lparr>cf_scope_depth := cf_scope_depth f + 1\<rparr>)"

text \<open>The loop pops the locals from the last one; the argument is the list of locals reversed.\<close>

fun scope_pops :: "local_var list \<Rightarrow> compiler \<Rightarrow> int \<Rightarrow> compiler option" where
  "scope_pops [] c line = Some c"
| "scope_pops (l # ls) c line = do {
     f \<leftarrow> cur_frame c;
     if cf_scope_depth f < lo_depth l then do {
       c \<leftarrow> emit_op c (if lo_captured l then OP_CLOSE_UPVALUE else OP_POP) line;
       c \<leftarrow> upd_frame (\<lambda>f. f\<lparr>cf_locals := butlast (cf_locals f)\<rparr>) c;
       scope_pops ls c line
     }
     else Some c
   }"

definition scope_end :: "compiler \<Rightarrow> int \<Rightarrow> compiler option" where
  "scope_end c line = do {
     c \<leftarrow> upd_frame (\<lambda>f. f\<lparr>cf_scope_depth := cf_scope_depth f - 1\<rparr>) c;
     f \<leftarrow> cur_frame c;
     scope_pops (rev (cf_locals f)) c line
   }"

definition add_local :: "compiler \<Rightarrow> string \<Rightarrow> (nat option \<times> compiler) option" where
  "add_local c name = do {
     f \<leftarrow> cur_frame c;
     if FLUX_MAX_LOCALS \<le> length (cf_locals f) then Some (None, compile_error c)
     else do {
       c \<leftarrow> upd_frame (\<lambda>f. f\<lparr>cf_locals := cf_locals f @
              [\<lparr>lo_name = take 255 name, lo_depth = cf_scope_depth f, lo_captured = False, lo_is_const = False\<rparr>]\<rparr>) c;
       Some (Some (length (cf_locals f)), c)
     }
   }"

definition add_local_tok :: "compiler \<Rightarrow> string \<Rightarrow> (nat option \<times> compiler) option" where
  "add_local_tok c name = add_local c (take 255 name)"

definition frame_is_nonlocal :: "compiler_frame \<Rightarrow> string \<Rightarrow> bool" where
  "frame_is_nonlocal f name = (name \<in> set (cf_nonlocals f))"

definition compiler_has_global :: "compiler \<Rightarrow> string \<Rightarrow> bool" where
  "compiler_has_global c name = (name \<in> fst ` set (cp_globals c))"

definition compiler_declare_global :: "compiler \<Rightarrow> string \<Rightarrow> compiler" where
  "compiler_declare_global c name =
     (if compiler_has_global c name then c
      else if MAX_GLOBAL_NAMES \<le> length (cp_globals c) then c
      else c\<lparr>cp_globals := cp_globals c @ [(take 255 name, False)]\<rparr>)"

fun mark_const :: "string \<Rightarrow> (string \<times> bool) list \<Rightarrow> (string \<times> bool) list" where
  "mark_const name [] = []"
| "mark_const name ((n, b) # gs) = (if n = name then (n, True) # gs else (n, b) # mark_const name gs)"

definition compiler_mark_global_const :: "compiler \<Rightarrow> string \<Rightarrow> compiler" where
  "compiler_mark_global_const c name = c\<lparr>cp_globals := mark_const name (cp_globals c)\<rparr>"

text \<open>The last local of that name.\<close>

definition resolve_local :: "compiler_frame \<Rightarrow> string \<Rightarrow> nat option" where
  "resolve_local f name = find (\<lambda>i. lo_name (cf_locals f ! i) = name) (rev [0 ..< length (cf_locals f)])"

definition local_is_const :: "compiler_frame \<Rightarrow> nat \<Rightarrow> bool" where
  "local_is_const f i = lo_is_const (cf_locals f ! i)"

text \<open>The first frame of the list that has the name, else the globals.\<close>

fun const_in_frames :: "compiler_frame list \<Rightarrow> string \<Rightarrow> bool option" where
  "const_in_frames [] name = None"
| "const_in_frames (f # fs) name =
     (case resolve_local f name of Some i \<Rightarrow> Some (local_is_const f i) | None \<Rightarrow> const_in_frames fs name)"

definition const_from :: "compiler_frame list \<Rightarrow> compiler \<Rightarrow> string \<Rightarrow> bool" where
  "const_from fs c name =
     (case const_in_frames fs name of
        Some b \<Rightarrow> b
      | None \<Rightarrow> (case map_of (cp_globals c) name of Some b \<Rightarrow> b | None \<Rightarrow> False))"

definition var_is_const :: "compiler \<Rightarrow> string \<Rightarrow> bool" where
  "var_is_const c name = const_from (cp_frames c) c name"

definition enclosing_or_global_is_const :: "compiler \<Rightarrow> string \<Rightarrow> bool" where
  "enclosing_or_global_is_const c name = const_from (tl (cp_frames c)) c name"

section \<open>Upvalues\<close>

definition same_upvalue :: "byte \<Rightarrow> bool \<Rightarrow> upvalue_desc \<Rightarrow> bool" where
  "same_upvalue index is_local u = (ud_index u = index \<and> ud_is_local u = is_local)"

text \<open>The count is \<^verbatim>\<open>function->upvalue_count\<close>; the limit is reported on \<^verbatim>\<open>stderr\<close> only.\<close>

definition add_upvalue :: "flux_vm \<Rightarrow> compiler_frame \<Rightarrow> byte \<Rightarrow> bool \<Rightarrow> (nat \<times> compiler_frame \<times> flux_vm) option" where
  "add_upvalue vm f index is_local = do {
     fn \<leftarrow> get_function (vm_heap vm) (cf_function f);
     let count = fn_upvalue_count fn;
     let seen = takeWhile (\<lambda>u. \<not> same_upvalue index is_local u) (take count (cf_upvalues f));
     if length (cf_upvalues f) < count then None
     else if length seen < count then Some (length seen, f, vm)
     else if FLUX_MAX_UPVALUES \<le> count then Some (0, f, vm)
     else do {
       ups \<leftarrow> array_put (cf_upvalues f) count \<lparr>ud_index = index, ud_is_local = is_local\<rparr>;
       vm \<leftarrow> vm_hput vm (cf_function f) (OBJ_FUNCTION (fn\<lparr>fn_upvalue_count := count + 1\<rparr>));
       Some (count, f\<lparr>cf_upvalues := ups\<rparr>, vm)
     }
   }"

definition capture_local :: "nat \<Rightarrow> compiler_frame \<Rightarrow> compiler_frame" where
  "capture_local i f = f\<lparr>cf_locals := (cf_locals f)[i := (cf_locals f ! i)\<lparr>lo_captured := True\<rparr>]\<rparr>"

fun upvalue_in :: "flux_vm \<Rightarrow> compiler_frame list \<Rightarrow> string \<Rightarrow> (nat option \<times> compiler_frame list \<times> flux_vm) option" where
  "upvalue_in vm [] name = None"
| "upvalue_in vm [f] name = Some (None, [f], vm)"
| "upvalue_in vm (f # g # fs) name =
     (case resolve_local g name of
        Some i \<Rightarrow> do {
          (u, f, vm) \<leftarrow> add_upvalue vm f (of_nat i) True;
          Some (Some u, f # capture_local i g # fs, vm)
        }
      | None \<Rightarrow> do {
          (r, gs, vm) \<leftarrow> upvalue_in vm (g # fs) name;
          case r of
            Some j \<Rightarrow> do { (u, f, vm) \<leftarrow> add_upvalue vm f (of_nat j) False; Some (Some u, f # gs, vm) }
          | None \<Rightarrow> Some (None, f # gs, vm)
        })"

definition resolve_upvalue :: "compiler \<Rightarrow> string \<Rightarrow> (nat option \<times> compiler) option" where
  "resolve_upvalue c name = do {
     (r, fs, vm) \<leftarrow> upvalue_in (cp_vm c) (cp_frames c) name;
     Some (r, c\<lparr>cp_frames := fs, cp_vm := vm\<rparr>)
   }"

section \<open>Frames\<close>

text \<open>The name is \<^const>\<open>None\<close> or empty for the script.  The function is complete before its name is copied.\<close>

definition copy_field :: "flux_vm \<Rightarrow> ptr \<Rightarrow> string \<Rightarrow> (ptr \<Rightarrow> flux_function \<Rightarrow> flux_function) \<Rightarrow> flux_vm option" where
  "copy_field vm p s upd = do {
     (q, vm) \<leftarrow> object_string_copy vm s;
     fn \<leftarrow> get_function (vm_heap vm) p;
     vm_hput vm p (OBJ_FUNCTION (upd q fn))
   }"

definition frame_init :: "compiler \<Rightarrow> func_kind \<Rightarrow> string \<Rightarrow> compiler option" where
  "frame_init c kind name = do {
     (p, vm) \<leftarrow> object_function_new (cp_vm c);
     fn \<leftarrow> get_function (vm_heap vm) p;
     vm \<leftarrow> vm_hput vm p (OBJ_FUNCTION (fn\<lparr>fn_is_async := (kind = FUNC_ASYNC)\<rparr>));
     vm \<leftarrow> (if name \<noteq> [] then copy_field vm p name (\<lambda>q fn. fn\<lparr>fn_name := Some q\<rparr>) else Some vm);
     vm \<leftarrow> (case cp_source_name c of
              None \<Rightarrow> Some vm
            | Some s \<Rightarrow> copy_field vm p s (\<lambda>q fn. fn\<lparr>fn_source_file := Some q\<rparr>));
     let slot0 = \<lparr>lo_name = (if kind = FUNC_METHOD \<or> kind = FUNC_INIT then ''self'' else []),
                  lo_depth = 0, lo_captured = False, lo_is_const = False\<rparr>;
     Some (c\<lparr>cp_vm := vm, cp_frames :=
       \<lparr>cf_function = p, cf_kind = kind, cf_has_yield = False, cf_locals = [slot0], cf_scope_depth = 0,
        cf_upvalues = [], cf_nonlocals = []\<rparr> # cp_frames c\<rparr>)
   }"

text \<open>The frame that ends is returned for its upvalues.\<close>

definition frame_end :: "compiler \<Rightarrow> int \<Rightarrow> (compiler_frame \<times> compiler) option" where
  "frame_end c line = do {
     c \<leftarrow> emit_op c OP_PUSH_NULL line;
     c \<leftarrow> emit_op c OP_RETURN line;
     f \<leftarrow> cur_frame c;
     c \<leftarrow> upd_function (\<lambda>fn. fn\<lparr>fn_is_generator := cf_has_yield f\<rparr>) c;
     Some (f, c\<lparr>cp_frames := tl (cp_frames c)\<rparr>)
   }"

text \<open>\<^verbatim>\<open>OP_CLOSURE\<close> with the function and its upvalues, as every definition of a function ends.\<close>

definition emit_upvalue :: "int \<Rightarrow> upvalue_desc \<Rightarrow> compiler \<Rightarrow> compiler option" where
  "emit_upvalue line u c = do {
     c \<leftarrow> emit_byte c (if ud_is_local u then 1 else 0) line;
     emit_byte c (ud_index u) line
   }"

definition emit_closure :: "compiler \<Rightarrow> compiler_frame \<Rightarrow> int \<Rightarrow> compiler option" where
  "emit_closure c inner line = do {
     (idx, c) \<leftarrow> make_constant c (VAL_OBJECT (cf_function inner));
     c \<leftarrow> emit_op c OP_CLOSURE line;
     c \<leftarrow> emit_uint16 c idx line;
     fn \<leftarrow> get_function (vm_heap (cp_vm c)) (cf_function inner);
     if length (cf_upvalues inner) < fn_upvalue_count fn then None
     else fold_opt (emit_upvalue line) (take (fn_upvalue_count fn) (cf_upvalues inner)) c
   }"

section \<open>Access to variables\<close>

definition emit_access :: "opcode \<Rightarrow> opcode \<Rightarrow> opcode \<Rightarrow> compiler \<Rightarrow> string \<Rightarrow> int \<Rightarrow> compiler option" where
  "emit_access local_op upvalue_op global_op c name line = do {
     f \<leftarrow> cur_frame c;
     case resolve_local f name of
       Some slot \<Rightarrow> emit_op_byte c local_op (of_nat slot) line
     | None \<Rightarrow> do {
         (upv, c) \<leftarrow> resolve_upvalue c name;
         case upv of
           Some u \<Rightarrow> emit_op_byte c upvalue_op (of_nat u) line
         | None \<Rightarrow> emit_op_name c global_op name line
       }
   }"

definition emit_load_var :: "compiler \<Rightarrow> string \<Rightarrow> int \<Rightarrow> compiler option" where
  "emit_load_var = emit_access OP_LOAD_LOCAL OP_GET_UPVALUE OP_LOAD_GLOBAL"

definition emit_store_var :: "compiler \<Rightarrow> string \<Rightarrow> int \<Rightarrow> compiler option" where
  "emit_store_var = emit_access OP_STORE_LOCAL OP_SET_UPVALUE OP_STORE_GLOBAL"

section \<open>Calls between the parts of the compiler\<close>

text \<open>
  The functions of the compiler that call each other recursively, and the library function \<^verbatim>\<open>pow\<close>, are passed to
  the parts as a record; the module theory closes the recursion.
\<close>

record compile_calls =
  cc_pow :: "double \<Rightarrow> double \<Rightarrow> double"
  cc_expr :: "compiler \<Rightarrow> ast \<Rightarrow> compiler option"
  cc_node :: "compiler \<Rightarrow> ast \<Rightarrow> compiler option"
  cc_predeclare :: "compiler \<Rightarrow> ast \<Rightarrow> int \<Rightarrow> compiler option"

text \<open>A node pointer that may be NULL.\<close>

definition cc_opt :: "(compiler \<Rightarrow> 'a \<Rightarrow> compiler option) \<Rightarrow> compiler \<Rightarrow> 'a option \<Rightarrow> compiler option" where
  "cc_opt f c node = (case node of None \<Rightarrow> Some c | Some n \<Rightarrow> f c n)"

definition cc_exprs :: "compile_calls \<Rightarrow> compiler \<Rightarrow> ast list \<Rightarrow> compiler option" where
  "cc_exprs k c nodes = fold_opt (\<lambda>n c. cc_expr k c n) nodes c"

definition cc_nodes :: "compile_calls \<Rightarrow> compiler \<Rightarrow> ast list \<Rightarrow> compiler option" where
  "cc_nodes k c nodes = fold_opt (\<lambda>n c. cc_node k c n) nodes c"

text \<open>The clean-up of the try contexts that a jump leaves, from the innermost one down to \<open>stop_depth\<close>.\<close>

definition emit_invoke_exit :: "compiler \<Rightarrow> nat option \<Rightarrow> int \<Rightarrow> compiler option" where
  "emit_invoke_exit c mgr line = do {
     c \<leftarrow> emit_op_byte c OP_LOAD_LOCAL (slot_byte mgr) line;
     c \<leftarrow> emit_op_name c OP_INVOKE ''__exit__'' line;
     c \<leftarrow> emit_byte c 0 line;
     emit_op c OP_POP line
   }"

definition emit_ops :: "compiler \<Rightarrow> opcode list \<Rightarrow> int \<Rightarrow> compiler option" where
  "emit_ops c ops line = fold_opt (\<lambda>op c. emit_op c op line) ops c"

definition unwind_context :: "compile_calls \<Rightarrow> int \<Rightarrow> bool \<Rightarrow> nat \<Rightarrow> compiler \<Rightarrow> compiler option" where
  "unwind_context k line pop_outer_locals i c = do {
     tc \<leftarrow> nth_opt (cp_try_stack c) i;
     c \<leftarrow> (if tc_in_catch tc then Some c else emit_op c OP_POP_EXCEPTION_HANDLER line);
     c \<leftarrow> (case tc_finally_body tc of
             Some body \<Rightarrow> do {
               let original_depth = cp_try_depth c;
               c \<leftarrow> cc_node k (c\<lparr>cp_try_depth := i\<rparr>) body;
               Some (c\<lparr>cp_try_depth := original_depth\<rparr>)
             }
           | None \<Rightarrow> if tc_with_mgr_slot tc \<noteq> None then emit_invoke_exit c (tc_with_mgr_slot tc) line else Some c);
     if pop_outer_locals then do {
       tc \<leftarrow> nth_opt (cp_try_stack c) i;
       emit_ops c (replicate (tc_outer_locals_to_pop tc) OP_POP) line
     }
     else Some c
   }"

definition emit_try_unwind :: "compile_calls \<Rightarrow> compiler \<Rightarrow> nat \<Rightarrow> int \<Rightarrow> bool \<Rightarrow> compiler option" where
  "emit_try_unwind k c stop_depth line pop_outer_locals =
     fold_opt (unwind_context k line pop_outer_locals) (rev [stop_depth ..< cp_try_depth c]) c"

end
