(* ===== verification/CompilerExprs.thy ===== *)
theory CompilerExprs
  imports Compiler
begin

text \<open>
  \<^verbatim>\<open>compile_expr\<close> of \<^verbatim>\<open>src/compiler/compiler.c\<close>, a definition per case.  Code that several cases repeat (the
  loop over an iterable, the operand of a method, the body of a function) is a definition of its own.
\<close>

section \<open>Constant folding\<close>

text \<open>\<^verbatim>\<open>(int64_t)d\<close>: towards zero, undefined out of range.\<close>

definition dbl_to_int64 :: "double \<Rightarrow> int64 option" where
  "dbl_to_int64 d = (if dbl_exponent d = 2047 then None else int64_range (c_div (dbl_units d) (2 ^ 1074)))"

fun is_int_literal :: "ast \<Rightarrow> bool" where
  "is_int_literal (AST_INT p i) = True"
| "is_int_literal _ = False"

fun is_float_literal :: "ast \<Rightarrow> bool" where
  "is_float_literal (AST_FLOAT p d) = True"
| "is_float_literal _ = False"

fun literal_int :: "ast \<Rightarrow> int64 option" where
  "literal_int (AST_INT p i) = Some i"
| "literal_int (AST_FLOAT p d) = dbl_to_int64 d"
| "literal_int _ = None"

fun literal_double :: "ast \<Rightarrow> double option" where
  "literal_double (AST_INT p i) = Some (dbl_of_int (sint i))"
| "literal_double (AST_FLOAT p d) = Some d"
| "literal_double _ = None"

text \<open>The results: the outer option is undefined behaviour, the inner one that nothing is folded.\<close>

definition fold_float :: "(double \<Rightarrow> double \<Rightarrow> double) \<Rightarrow> token_kind \<Rightarrow> double \<Rightarrow> double \<Rightarrow> flux_value option option" where
  "fold_float powf op lf rf =
     (let float = (\<lambda>d. Some (Some (VAL_FLOAT d))) in
      if op = TOK_PLUS then float (dbl_add lf rf)
      else if op = TOK_MINUS then float (dbl_sub lf rf)
      else if op = TOK_STAR then float (dbl_mul lf rf)
      else if op = TOK_SLASH then float (if dbl_is_zero rf then dbl_zero False else dbl_div lf rf)
      else if op = TOK_SLASH_SLASH then
        (if dbl_is_zero rf then float (dbl_zero False)
         else do { q \<leftarrow> dbl_to_int64 (dbl_div lf rf); float (dbl_of_int (sint q)) })
      else if op = TOK_PERCENT then
        (if dbl_is_zero rf then float (dbl_zero False)
         else do { q \<leftarrow> dbl_to_int64 (dbl_div lf rf); float (dbl_sub lf (dbl_mul (dbl_of_int (sint q)) rf)) })
      else if op = TOK_STAR_STAR then float (powf lf rf)
      else Some None)"

text \<open>Square and multiply; the base is squared once more after the last bit.\<close>

fun fold_pow :: "nat \<Rightarrow> int64 \<Rightarrow> int64 \<Rightarrow> int64 option" where
  "fold_pow n base acc =
     (if n = 0 then Some acc
      else do {
        acc \<leftarrow> (if odd n then int64_range (sint acc * sint base) else Some acc);
        base \<leftarrow> int64_range (sint base * sint base);
        fold_pow (n div 2) base acc
      })"

declare fold_pow.simps [simp del]

definition fold_shift :: "(nat \<Rightarrow> int64 \<Rightarrow> int64 option) \<Rightarrow> int64 \<Rightarrow> int64 \<Rightarrow> flux_value option option" where
  "fold_shift f li ri =
     (if 0 \<le> sint ri \<and> sint ri < 64 then map_option (\<lambda>r. Some (VAL_INT r)) (f (nat (sint ri)) li) else None)"

definition fold_int :: "token_kind \<Rightarrow> int64 \<Rightarrow> int64 \<Rightarrow> flux_value option option" where
  "fold_int op li ri =
     (let int = (\<lambda>i. Some (Some (VAL_INT i))); bool = (\<lambda>b. Some (Some (VAL_BOOL b))) in
      if op = TOK_PLUS then int_result (sint li + sint ri)
      else if op = TOK_MINUS then int_result (sint li - sint ri)
      else if op = TOK_STAR then int_result (sint li * sint ri)
      else if op = TOK_SLASH_SLASH then (if ri = 0 then int 0 else int_result (c_div (sint li) (sint ri)))
      else if op = TOK_PERCENT then
        (if ri = 0 then int 0
         else do { _ \<leftarrow> int64_range (c_div (sint li) (sint ri)); int_result (c_mod (sint li) (sint ri)) })
      else if op = TOK_STAR_STAR then
        (if sint ri < 0 then Some None else do { r \<leftarrow> fold_pow (nat (sint ri)) li 1; int r })
      else if op = TOK_AMPERSAND then int (li AND ri)
      else if op = TOK_PIPE then int (li OR ri)
      else if op = TOK_CARET then int (li XOR ri)
      else if op = TOK_LSHIFT then fold_shift shift_left li ri
      else if op = TOK_RSHIFT then fold_shift (\<lambda>n x. Some (signed_drop_bit n x)) li ri
      else if op = TOK_EQ \<or> op = TOK_IS then bool (li = ri)
      else if op = TOK_NEQ then bool (li \<noteq> ri)
      else if op = TOK_LT then bool (sint li < sint ri)
      else if op = TOK_LTE then bool (sint li \<le> sint ri)
      else if op = TOK_GT then bool (sint ri < sint li)
      else if op = TOK_GTE then bool (sint ri \<le> sint li)
      else Some None)"

definition fold_binary :: "(double \<Rightarrow> double \<Rightarrow> double) \<Rightarrow> token_kind \<Rightarrow> ast \<Rightarrow> ast \<Rightarrow> flux_value option option" where
  "fold_binary powf op l r =
     (if (is_int_literal l \<or> is_float_literal l) \<and> (is_int_literal r \<or> is_float_literal r) then do {
        li \<leftarrow> literal_int l;
        ri \<leftarrow> literal_int r;
        lf \<leftarrow> literal_double l;
        rf \<leftarrow> literal_double r;
        if is_float_literal l \<or> is_float_literal r \<or> op = TOK_SLASH then fold_float powf op lf rf
        else fold_int op li ri
      }
      else Some None)"

definition emit_int :: "compiler \<Rightarrow> int64 \<Rightarrow> int \<Rightarrow> compiler option" where
  "emit_int c i line = do { c \<leftarrow> emit_op c OP_PUSH_INT line; emit_int64 c i line }"

definition emit_float :: "compiler \<Rightarrow> double \<Rightarrow> int \<Rightarrow> compiler option" where
  "emit_float c d line = do { c \<leftarrow> emit_op c OP_PUSH_FLOAT line; emit_double c d line }"

definition emit_bool :: "compiler \<Rightarrow> bool \<Rightarrow> int \<Rightarrow> compiler option" where
  "emit_bool c b line = emit_op_byte c OP_PUSH_BOOL (if b then 1 else 0) line"

definition emit_folded :: "compiler \<Rightarrow> flux_value \<Rightarrow> int \<Rightarrow> compiler option" where
  "emit_folded c v line =
     (case v of
        VAL_INT i \<Rightarrow> emit_int c i line
      | VAL_FLOAT d \<Rightarrow> emit_float c d line
      | VAL_BOOL b \<Rightarrow> emit_bool c b line
      | _ \<Rightarrow> None)"

section \<open>Operators\<close>

definition compile_string :: "compiler \<Rightarrow> string \<Rightarrow> int \<Rightarrow> compiler option" where
  "compile_string c s line = do {
     (idx, c) \<leftarrow> string_constant c s;
     c \<leftarrow> emit_op c OP_PUSH_STRING line;
     emit_uint16 c idx line
   }"

definition compile_short_circuit :: "compile_calls \<Rightarrow> opcode \<Rightarrow> compiler \<Rightarrow> ast \<Rightarrow> ast \<Rightarrow> int \<Rightarrow> compiler option" where
  "compile_short_circuit k op c l r line = do {
     c \<leftarrow> cc_expr k c l;
     (end_jump, c) \<leftarrow> emit_jump c op line;
     c \<leftarrow> emit_op c OP_POP line;
     c \<leftarrow> cc_expr k c r;
     patch_jump c end_jump
   }"

definition binary_opcode :: "token_kind \<Rightarrow> opcode option" where
  "binary_opcode = map_of
     [(TOK_PLUS, OP_ADD), (TOK_MINUS, OP_SUB), (TOK_STAR, OP_MUL), (TOK_SLASH, OP_DIV), (TOK_PERCENT, OP_MOD),
      (TOK_STAR_STAR, OP_POW), (TOK_SLASH_SLASH, OP_FLOOR_DIV), (TOK_EQ, OP_EQ), (TOK_NEQ, OP_NEQ), (TOK_LT, OP_LT),
      (TOK_LTE, OP_LTE), (TOK_GT, OP_GT), (TOK_GTE, OP_GTE), (TOK_IS, OP_EQ), (TOK_AMPERSAND, OP_BIT_AND),
      (TOK_PIPE, OP_BIT_OR), (TOK_CARET, OP_BIT_XOR), (TOK_LSHIFT, OP_SHL), (TOK_RSHIFT, OP_SHR)]"

definition unary_opcode :: "token_kind \<Rightarrow> opcode option" where
  "unary_opcode = map_of [(TOK_MINUS, OP_NEGATE), (TOK_NOT, OP_NOT), (TOK_TILDE, OP_BIT_NOT)]"

definition emit_operator :: "compiler \<Rightarrow> opcode option \<Rightarrow> int \<Rightarrow> compiler option" where
  "emit_operator c op line = (case op of Some op \<Rightarrow> emit_op c op line | None \<Rightarrow> Some (compile_error c))"

definition compile_binary :: "compile_calls \<Rightarrow> compiler \<Rightarrow> token_kind \<Rightarrow> ast \<Rightarrow> ast \<Rightarrow> int \<Rightarrow> compiler option" where
  "compile_binary k c op l r line =
     (if op = TOK_AND then compile_short_circuit k OP_AND c l r line
      else if op = TOK_OR then compile_short_circuit k OP_OR c l r line
      else do {
        folded \<leftarrow> fold_binary (cc_pow k) op l r;
        case folded of
          Some v \<Rightarrow> emit_folded c v line
        | None \<Rightarrow> do {
            c \<leftarrow> cc_expr k c l;
            c \<leftarrow> cc_expr k c r;
            emit_operator c (binary_opcode op) line
          }
      })"

definition compile_unary :: "compile_calls \<Rightarrow> compiler \<Rightarrow> token_kind \<Rightarrow> ast \<Rightarrow> int \<Rightarrow> compiler option" where
  "compile_unary k c op operand line = do {
     c \<leftarrow> cc_expr k c operand;
     emit_operator c (unary_opcode op) line
   }"

definition compile_ternary :: "compile_calls \<Rightarrow> compiler \<Rightarrow> ast \<Rightarrow> ast \<Rightarrow> ast \<Rightarrow> int \<Rightarrow> compiler option" where
  "compile_ternary k c condition then_expr else_expr line = do {
     c \<leftarrow> cc_expr k c condition;
     (else_jump, c) \<leftarrow> emit_jump c OP_JUMP_IF_FALSE line;
     c \<leftarrow> emit_op c OP_POP line;
     c \<leftarrow> cc_expr k c then_expr;
     (end_jump, c) \<leftarrow> emit_jump c OP_JUMP line;
     c \<leftarrow> patch_jump c else_jump;
     c \<leftarrow> emit_op c OP_POP line;
     c \<leftarrow> cc_expr k c else_expr;
     patch_jump c end_jump
   }"

section \<open>Calls, attributes, elements\<close>

fun attr_parts :: "ast \<Rightarrow> (ast \<times> string) option" where
  "attr_parts (AST_ATTR p obj attr) = Some (obj, attr)"
| "attr_parts _ = None"

fun index_parts :: "ast \<Rightarrow> (ast \<times> ast) option" where
  "index_parts (AST_INDEX p obj i) = Some (obj, i)"
| "index_parts _ = None"

fun call_parts :: "ast \<Rightarrow> (ast \<times> ast list) option" where
  "call_parts (AST_CALL p callee args) = Some (callee, args)"
| "call_parts _ = None"

fun is_string_literal :: "ast \<Rightarrow> bool" where
  "is_string_literal (AST_STRING p s) = True"
| "is_string_literal _ = False"

text \<open>The superclass that \<^verbatim>\<open>super\<close> names inside a method.\<close>

definition super_of :: "compiler \<Rightarrow> ast \<Rightarrow> string option" where
  "super_of c obj =
     (if ident_name obj = Some ''super''
      then (case cp_class_ctx c of [] \<Rightarrow> None | cc # _ \<Rightarrow> cc_superclass_name cc) else None)"

definition emit_get_super :: "compiler \<Rightarrow> string \<Rightarrow> string \<Rightarrow> int \<Rightarrow> compiler option" where
  "emit_get_super c super attr line = do {
     c \<leftarrow> emit_op_byte c OP_LOAD_LOCAL 0 line;
     c \<leftarrow> emit_load_var c super line;
     emit_op_name c OP_GET_SUPER attr line
   }"

definition emit_invoke :: "compiler \<Rightarrow> string \<Rightarrow> nat \<Rightarrow> int \<Rightarrow> compiler option" where
  "emit_invoke c attr argc line = do {
     c \<leftarrow> emit_op_name c OP_INVOKE attr line;
     emit_byte c (of_nat argc) line
   }"

definition emit_call :: "compiler \<Rightarrow> nat \<Rightarrow> int \<Rightarrow> compiler option" where
  "emit_call c argc line = emit_op_byte c OP_CALL (of_nat argc) line"

definition compile_call :: "compile_calls \<Rightarrow> compiler \<Rightarrow> ast \<Rightarrow> ast list \<Rightarrow> int \<Rightarrow> compiler option" where
  "compile_call k c callee args line =
     (case attr_parts callee of
        Some (obj, attr) \<Rightarrow>
          (case super_of c obj of
             Some super \<Rightarrow> do {
               c \<leftarrow> emit_get_super c super attr line;
               c \<leftarrow> cc_exprs k c args;
               emit_call c (length args) line
             }
           | None \<Rightarrow> do {
               c \<leftarrow> cc_expr k c obj;
               c \<leftarrow> cc_exprs k c args;
               emit_invoke c attr (length args) line
             })
      | None \<Rightarrow> do {
          c \<leftarrow> cc_expr k c callee;
          c \<leftarrow> cc_exprs k c args;
          emit_call c (length args) line
        })"

definition compile_index :: "compile_calls \<Rightarrow> compiler \<Rightarrow> ast \<Rightarrow> ast \<Rightarrow> int \<Rightarrow> compiler option" where
  "compile_index k c obj i line = do {
     c \<leftarrow> cc_expr k c obj;
     c \<leftarrow> cc_expr k c i;
     emit_op c OP_GET_INDEX line
   }"

definition compile_bound :: "compile_calls \<Rightarrow> int \<Rightarrow> compiler \<Rightarrow> ast option \<Rightarrow> compiler option" where
  "compile_bound k line c bound =
     (case bound of Some e \<Rightarrow> cc_expr k c e | None \<Rightarrow> emit_op c OP_PUSH_NULL line)"

definition compile_slice :: "compile_calls \<Rightarrow> compiler \<Rightarrow> ast \<Rightarrow> ast option \<Rightarrow> ast option \<Rightarrow> ast option \<Rightarrow> int \<Rightarrow> compiler option" where
  "compile_slice k c obj start stop step line = do {
     c \<leftarrow> cc_expr k c obj;
     c \<leftarrow> compile_bound k line c start;
     c \<leftarrow> compile_bound k line c stop;
     c \<leftarrow> compile_bound k line c step;
     emit_op c OP_SLICE line
   }"

definition compile_attr :: "compile_calls \<Rightarrow> compiler \<Rightarrow> ast \<Rightarrow> string \<Rightarrow> int \<Rightarrow> compiler option" where
  "compile_attr k c obj attr line =
     (case super_of c obj of
        Some super \<Rightarrow> emit_get_super c super attr line
      | None \<Rightarrow> do { c \<leftarrow> cc_expr k c obj; emit_op_name c OP_GET_ATTR attr line })"

definition compile_list :: "compile_calls \<Rightarrow> compiler \<Rightarrow> ast list \<Rightarrow> int \<Rightarrow> compiler option" where
  "compile_list k c es line = do {
     c \<leftarrow> cc_exprs k c es;
     c \<leftarrow> emit_op c OP_CREATE_LIST line;
     emit_uint16 c (of_nat (length es)) line
   }"

fun compile_entries :: "compile_calls \<Rightarrow> compiler \<Rightarrow> ast list \<Rightarrow> ast list \<Rightarrow> compiler option" where
  "compile_entries k c [] vs = Some c"
| "compile_entries k c (key # ks) [] = None"
| "compile_entries k c (key # ks) (v # vs) = do {
     c \<leftarrow> cc_expr k c key;
     c \<leftarrow> cc_expr k c v;
     compile_entries k c ks vs
   }"

definition compile_dict :: "compile_calls \<Rightarrow> compiler \<Rightarrow> ast list \<Rightarrow> ast list \<Rightarrow> int \<Rightarrow> compiler option" where
  "compile_dict k c ks vs line = do {
     c \<leftarrow> compile_entries k c ks vs;
     c \<leftarrow> emit_op c OP_CREATE_DICT line;
     emit_uint16 c (of_nat (length ks)) line
   }"

definition compile_fstring_part :: "compile_calls \<Rightarrow> int \<Rightarrow> compiler \<Rightarrow> ast \<Rightarrow> compiler option" where
  "compile_fstring_part k line c part =
     (if is_string_literal part then cc_expr k c part
      else do {
        c \<leftarrow> emit_load_var c ''str'' line;
        c \<leftarrow> cc_expr k c part;
        emit_call c 1 line
      })"

definition compile_fstring :: "compile_calls \<Rightarrow> compiler \<Rightarrow> ast list \<Rightarrow> int \<Rightarrow> compiler option" where
  "compile_fstring k c parts line =
     (case parts of
        [] \<Rightarrow> do {
          (p, vm) \<leftarrow> object_string_copy (cp_vm c) [];
          c \<leftarrow> emit_op (c\<lparr>cp_vm := vm\<rparr>) OP_PUSH_STRING line;
          (idx, c) \<leftarrow> make_constant c (VAL_OBJECT p);
          emit_uint16 c idx line
        }
      | first # rest \<Rightarrow> do {
          c \<leftarrow> compile_fstring_part k line c first;
          fold_opt (\<lambda>part c. do { c \<leftarrow> compile_fstring_part k line c part; emit_op c OP_ADD line }) rest c
        })"

definition compile_spawn :: "compile_calls \<Rightarrow> compiler \<Rightarrow> ast \<Rightarrow> int \<Rightarrow> compiler option" where
  "compile_spawn k c e line =
     (case call_parts e of
        Some (callee, args) \<Rightarrow> do {
          c \<leftarrow> cc_expr k c callee;
          c \<leftarrow> cc_exprs k c args;
          emit_op_byte c OP_SPAWN_CALL (of_nat (length args)) line
        }
      | None \<Rightarrow> do { c \<leftarrow> cc_expr k c e; emit_op c OP_CREATE_TASK line })"

definition compile_pipeline :: "compile_calls \<Rightarrow> compiler \<Rightarrow> ast \<Rightarrow> ast \<Rightarrow> int \<Rightarrow> compiler option" where
  "compile_pipeline k c left right line =
     (case call_parts right of
        Some (callee, args) \<Rightarrow>
          (case attr_parts callee of
             Some (obj, attr) \<Rightarrow> do {
               c \<leftarrow> cc_expr k c obj;
               c \<leftarrow> cc_expr k c left;
               c \<leftarrow> cc_exprs k c args;
               emit_invoke c attr (length args + 1) line
             }
           | None \<Rightarrow> do {
               c \<leftarrow> cc_expr k c callee;
               c \<leftarrow> cc_expr k c left;
               c \<leftarrow> cc_exprs k c args;
               emit_call c (length args + 1) line
             })
      | None \<Rightarrow> do {
          c \<leftarrow> cc_expr k c right;
          c \<leftarrow> cc_expr k c left;
          emit_call c 1 line
        })"

section \<open>Assignments\<close>

text \<open>\<^verbatim>\<open>resolve_local(...) == -1 && resolve_upvalue(...) == -1\<close>; looking for an upvalue may capture one.\<close>

definition unresolved :: "compiler \<Rightarrow> string \<Rightarrow> (bool \<times> compiler) option" where
  "unresolved c name = do {
     f \<leftarrow> cur_frame c;
     if resolve_local f name \<noteq> None then Some (False, c)
     else do { (upv, c) \<leftarrow> resolve_upvalue c name; Some (upv = None, c) }
   }"

definition store_unless :: "bool \<Rightarrow> compiler \<Rightarrow> compiler option \<Rightarrow> compiler option" where
  "store_unless is_const c store = (if is_const then Some (compile_error c) else store)"

definition store_nonlocal :: "compiler \<Rightarrow> string \<Rightarrow> int \<Rightarrow> compiler option" where
  "store_nonlocal c name line = do {
     (upv, c) \<leftarrow> resolve_upvalue c name;
     case upv of
       Some u \<Rightarrow> store_unless (enclosing_or_global_is_const c name) c (emit_op_byte c OP_SET_UPVALUE (of_nat u) line)
     | None \<Rightarrow>
         if compiler_has_global c name
         then store_unless (enclosing_or_global_is_const c name) c (emit_op_name c OP_STORE_GLOBAL name line)
         else Some (compile_error c)
   }"

text \<open>The binding of a name that is a local, an upvalue or a global.\<close>

definition store_existing :: "compiler \<Rightarrow> string \<Rightarrow> int \<Rightarrow> compiler option" where
  "store_existing c name line = do {
     f \<leftarrow> cur_frame c;
     let is_const_target = (case resolve_local f name of Some slot \<Rightarrow> local_is_const f slot | None \<Rightarrow> var_is_const c name);
     store_unless is_const_target c (emit_store_var c name line)
   }"

definition define_global :: "compiler \<Rightarrow> string \<Rightarrow> int \<Rightarrow> compiler option" where
  "define_global c name line = do {
     c \<leftarrow> emit_op_name c OP_DEFINE_GLOBAL name line;
     Some (compiler_declare_global c name)
   }"

definition new_global :: "compiler \<Rightarrow> string \<Rightarrow> int \<Rightarrow> compiler option" where
  "new_global c name line = do { c \<leftarrow> define_global c name line; emit_load_var c name line }"

text \<open>In a function and outside loops the local belongs to the function's scope.\<close>

definition new_local :: "compiler \<Rightarrow> string \<Rightarrow> int \<Rightarrow> compiler option" where
  "new_local c name line = do {
     f \<leftarrow> cur_frame c;
     c \<leftarrow> (if tl (cp_frames c) \<noteq> [] \<and> 1 < cf_scope_depth f \<and> cp_loop_depth c = 0 then do {
              c \<leftarrow> upd_frame (\<lambda>f. f\<lparr>cf_scope_depth := 1\<rparr>) c;
              (_, c) \<leftarrow> add_local c name;
              upd_frame (\<lambda>g. g\<lparr>cf_scope_depth := cf_scope_depth f\<rparr>) c
            }
            else do { (_, c) \<leftarrow> add_local c name; Some c });
     emit_load_var c name line
   }"

definition assign_name :: "compiler \<Rightarrow> string \<Rightarrow> int \<Rightarrow> compiler option" where
  "assign_name c name line = do {
     f \<leftarrow> cur_frame c;
     if frame_is_nonlocal f name then store_nonlocal c name line
     else do {
       (free, c) \<leftarrow> (if tl (cp_frames c) = [] then unresolved c name else Some (False, c));
       if free \<and> compiler_has_global c name
       then store_unless (var_is_const c name) c (emit_store_var c name line)
       else do {
         (free, c) \<leftarrow> (if cf_scope_depth f = 0 then unresolved c name else Some (False, c));
         if free then new_global c name line
         else do {
           (free, c) \<leftarrow> unresolved c name;
           if free \<and> 0 < cf_scope_depth f then new_local c name line
           else store_existing c name line
         }
       }
     }
   }"

definition compile_assign :: "compile_calls \<Rightarrow> compiler \<Rightarrow> ast \<Rightarrow> ast \<Rightarrow> int \<Rightarrow> compiler option" where
  "compile_assign k c target value line =
     (case (ident_name target, attr_parts target, index_parts target) of
        (Some name, _) \<Rightarrow> do { c \<leftarrow> cc_expr k c value; assign_name c name line }
      | (_, Some (obj, attr), _) \<Rightarrow> do {
          c \<leftarrow> cc_expr k c obj;
          c \<leftarrow> cc_expr k c value;
          c \<leftarrow> emit_op_name c OP_SET_ATTR attr line;
          emit_op c OP_PUSH_NULL line
        }
      | (_, _, Some (obj, i)) \<Rightarrow> do {
          c \<leftarrow> cc_expr k c obj;
          c \<leftarrow> cc_expr k c i;
          c \<leftarrow> cc_expr k c value;
          c \<leftarrow> emit_op c OP_SET_INDEX line;
          emit_op c OP_PUSH_NULL line
        }
      | _ \<Rightarrow> Some (compile_error c))"

definition aug_opcode :: "token_kind \<Rightarrow> opcode option" where
  "aug_opcode = map_of
     [(TOK_PLUS_ASSIGN, OP_ADD), (TOK_MINUS_ASSIGN, OP_SUB), (TOK_STAR_ASSIGN, OP_MUL), (TOK_SLASH_ASSIGN, OP_DIV),
      (TOK_PERCENT_ASSIGN, OP_MOD), (TOK_STAR_STAR_ASSIGN, OP_POW), (TOK_SLASH_SLASH_ASSIGN, OP_FLOOR_DIV),
      (TOK_AMPERSAND_ASSIGN, OP_BIT_AND), (TOK_PIPE_ASSIGN, OP_BIT_OR), (TOK_CARET_ASSIGN, OP_BIT_XOR),
      (TOK_LSHIFT_ASSIGN, OP_SHL), (TOK_RSHIFT_ASSIGN, OP_SHR)]"

definition emit_aug_op :: "compiler \<Rightarrow> token_kind \<Rightarrow> int \<Rightarrow> compiler option" where
  "emit_aug_op c op line = (case aug_opcode op of Some op \<Rightarrow> emit_op c op line | None \<Rightarrow> Some c)"

definition compile_aug_assign :: "compile_calls \<Rightarrow> compiler \<Rightarrow> ast \<Rightarrow> ast \<Rightarrow> token_kind \<Rightarrow> int \<Rightarrow> compiler option" where
  "compile_aug_assign k c target value op line =
     (case (ident_name target, attr_parts target, index_parts target) of
        (Some name, _) \<Rightarrow>
          if var_is_const c name then Some (compile_error c)
          else do {
            c \<leftarrow> emit_load_var c name line;
            c \<leftarrow> cc_expr k c value;
            c \<leftarrow> emit_aug_op c op line;
            emit_store_var c name line
          }
      | (_, Some (obj, attr), _) \<Rightarrow> do {
          c \<leftarrow> cc_expr k c obj;
          c \<leftarrow> emit_op c OP_DUP line;
          c \<leftarrow> emit_op_name c OP_GET_ATTR attr line;
          c \<leftarrow> cc_expr k c value;
          c \<leftarrow> emit_aug_op c op line;
          c \<leftarrow> emit_op_name c OP_SET_ATTR attr line;
          emit_op c OP_PUSH_NULL line
        }
      | (_, _, Some (obj, i)) \<Rightarrow> do {
          c \<leftarrow> cc_exprs k c [obj, i, obj, i];
          c \<leftarrow> emit_op c OP_GET_INDEX line;
          c \<leftarrow> cc_expr k c value;
          c \<leftarrow> emit_aug_op c op line;
          c \<leftarrow> emit_op c OP_SET_INDEX line;
          emit_op c OP_PUSH_NULL line
        }
      | _ \<Rightarrow> emit_op (compile_error c) OP_PUSH_NULL line)"

definition walrus_name :: "compiler \<Rightarrow> string \<Rightarrow> int \<Rightarrow> compiler option" where
  "walrus_name c name line = do {
     f \<leftarrow> cur_frame c;
     if frame_is_nonlocal f name then store_nonlocal c name line
     else do {
       (free, c) \<leftarrow> unresolved c name;
       if \<not> free then store_existing c name line
       else if tl (cp_frames c) = [] \<and> compiler_has_global c name
       then store_unless (var_is_const c name) c (emit_op_name c OP_STORE_GLOBAL name line)
       else if cf_scope_depth f = 0 then new_global c name line
       else do { (_, c) \<leftarrow> add_local c name; emit_load_var c name line }
     }
   }"

definition compile_walrus :: "compile_calls \<Rightarrow> compiler \<Rightarrow> string \<Rightarrow> ast \<Rightarrow> int \<Rightarrow> compiler option" where
  "compile_walrus k c name value line = do { c \<leftarrow> cc_expr k c value; walrus_name c name line }"

section \<open>Functions\<close>

definition add_locals :: "string list \<Rightarrow> compiler \<Rightarrow> compiler option" where
  "add_locals names c = fold_opt (\<lambda>name c. do { (_, c) \<leftarrow> add_local_tok c name; Some c }) names c"

definition open_function :: "compiler \<Rightarrow> func_kind \<Rightarrow> string \<Rightarrow> string list \<Rightarrow> compiler option" where
  "open_function c kind name params = do {
     c \<leftarrow> frame_init c kind name;
     c \<leftarrow> scope_begin c;
     c \<leftarrow> upd_function (\<lambda>fn. fn\<lparr>fn_arity := length params\<rparr>) c;
     add_locals params c
   }"

definition close_function :: "compiler \<Rightarrow> int \<Rightarrow> (compiler_frame \<times> compiler) option" where
  "close_function c line = do { c \<leftarrow> scope_end c line; frame_end c line }"

definition compile_lambda :: "compile_calls \<Rightarrow> compiler \<Rightarrow> string list \<Rightarrow> ast \<Rightarrow> bool \<Rightarrow> int \<Rightarrow> compiler option" where
  "compile_lambda k c params body is_expr_body line = do {
     c \<leftarrow> open_function c FUNC_FUNCTION ''<lambda>'' params;
     c \<leftarrow> (if is_expr_body then do { c \<leftarrow> cc_expr k c body; emit_op c OP_RETURN line }
            else do { c \<leftarrow> cc_predeclare k c body line; cc_node k c body });
     (inner, c) \<leftarrow> close_function c line;
     emit_closure c inner line
   }"

definition compile_function :: "compile_calls \<Rightarrow> compiler \<Rightarrow> func_kind \<Rightarrow> string \<Rightarrow> string list \<Rightarrow> ast \<Rightarrow> int \<Rightarrow> compiler option" where
  "compile_function k c kind name params body line = do {
     c \<leftarrow> open_function c kind name params;
     c \<leftarrow> cc_predeclare k c body line;
     c \<leftarrow> cc_node k c body;
     (inner, c) \<leftarrow> close_function c line;
     emit_closure c inner line
   }"

section \<open>Loops over an iterable\<close>

text \<open>The exit condition \<^verbatim>\<open>__idx >= len(__iter)\<close> and the jump out of the loop.\<close>

definition emit_local_load :: "compiler \<Rightarrow> nat option \<Rightarrow> int \<Rightarrow> compiler option" where
  "emit_local_load c slot line = emit_op_byte c OP_LOAD_LOCAL (slot_byte slot) line"

definition emit_local_store :: "compiler \<Rightarrow> nat option \<Rightarrow> int \<Rightarrow> compiler option" where
  "emit_local_store c slot line = do {
     c \<leftarrow> emit_op_byte c OP_STORE_LOCAL (slot_byte slot) line;
     emit_op c OP_POP line
   }"

definition emit_iter_exit :: "compiler \<Rightarrow> nat option \<Rightarrow> nat option \<Rightarrow> int \<Rightarrow> (nat \<times> compiler) option" where
  "emit_iter_exit c iter_slot idx_slot line = do {
     c \<leftarrow> emit_local_load c idx_slot line;
     (len_idx, c) \<leftarrow> string_constant c ''len'';
     c \<leftarrow> emit_op c OP_LOAD_GLOBAL line;
     c \<leftarrow> emit_uint16 c len_idx line;
     c \<leftarrow> emit_local_load c iter_slot line;
     c \<leftarrow> emit_call c 1 line;
     c \<leftarrow> emit_op c OP_GTE line;
     (cont_jump, c) \<leftarrow> emit_jump c OP_JUMP_IF_FALSE line;
     c \<leftarrow> emit_op c OP_POP line;
     (exit_jump, c) \<leftarrow> emit_jump c OP_JUMP line;
     c \<leftarrow> patch_jump c cont_jump;
     c \<leftarrow> emit_op c OP_POP line;
     Some (exit_jump, c)
   }"

text \<open>\<^verbatim>\<open>var = __iter[__idx]\<close> and \<^verbatim>\<open>__idx += 1\<close>.\<close>

definition emit_iter_element :: "compiler \<Rightarrow> nat option \<Rightarrow> nat option \<Rightarrow> nat option \<Rightarrow> int \<Rightarrow> compiler option" where
  "emit_iter_element c iter_slot idx_slot var_slot line = do {
     c \<leftarrow> emit_local_load c iter_slot line;
     c \<leftarrow> emit_local_load c idx_slot line;
     c \<leftarrow> emit_op c OP_GET_INDEX line;
     emit_local_store c var_slot line
   }"

definition emit_iter_next :: "compiler \<Rightarrow> nat option \<Rightarrow> int \<Rightarrow> compiler option" where
  "emit_iter_next c idx_slot line = do {
     c \<leftarrow> emit_local_load c idx_slot line;
     c \<leftarrow> emit_int c 1 line;
     c \<leftarrow> emit_op c OP_ADD line;
     emit_local_store c idx_slot line
   }"

section \<open>Comprehensions\<close>

definition comp_enter :: "compiler \<Rightarrow> compiler" where
  "comp_enter c = c\<lparr>cp_loop_start := -1, cp_loop_depth := 0, cp_break_count := 0, cp_try_depth := 0,
                    cp_try_depth_at_loop := 0, cp_current_exc_slot := None\<rparr>"

definition comp_leave :: "compiler \<Rightarrow> compiler \<Rightarrow> compiler" where
  "comp_leave old c = c\<lparr>cp_loop_start := cp_loop_start old, cp_loop_depth := cp_loop_depth old,
     cp_break_count := cp_break_count old, cp_try_depth := cp_try_depth old,
     cp_try_depth_at_loop := cp_try_depth_at_loop old, cp_current_exc_slot := cp_current_exc_slot old\<rparr>"

text \<open>What one turn does with the element, under the optional condition.\<close>

definition comp_body :: "compile_calls \<Rightarrow> compiler \<Rightarrow> ast option \<Rightarrow> (compiler \<Rightarrow> compiler option) \<Rightarrow> int \<Rightarrow> compiler option" where
  "comp_body k c condition add line =
     (case condition of
        None \<Rightarrow> add c
      | Some e \<Rightarrow> do {
          c \<leftarrow> cc_expr k c e;
          (skip, c) \<leftarrow> emit_jump c OP_JUMP_IF_FALSE line;
          c \<leftarrow> emit_op c OP_POP line;
          c \<leftarrow> add c;
          (after_skip, c) \<leftarrow> emit_jump c OP_JUMP line;
          c \<leftarrow> patch_jump c skip;
          c \<leftarrow> emit_op c OP_POP line;
          patch_jump c after_skip
        })"

definition compile_comp ::
  "compile_calls \<Rightarrow> compiler \<Rightarrow> string \<Rightarrow> opcode \<Rightarrow> string \<Rightarrow> string \<Rightarrow> string \<Rightarrow> ast \<Rightarrow> ast option \<Rightarrow>
    (nat option \<Rightarrow> compiler \<Rightarrow> compiler option) \<Rightarrow> int \<Rightarrow> compiler option" where
  "compile_comp k c0 fname create var iter_name idx_name iterable condition add line = do {
     c \<leftarrow> frame_init (comp_enter c0) FUNC_FUNCTION fname;
     c \<leftarrow> scope_begin c;
     c \<leftarrow> emit_op c create line;
     c \<leftarrow> emit_uint16 c 0 line;
     (comp_slot, c) \<leftarrow> add_local c ''__comp'';
     c \<leftarrow> emit_op c OP_PUSH_NULL line;
     (var_slot, c) \<leftarrow> add_local c var;
     c \<leftarrow> cc_expr k c iterable;
     c \<leftarrow> emit_op c OP_GET_ITER line;
     (iter_slot, c) \<leftarrow> add_local c iter_name;
     c \<leftarrow> emit_int c 0 line;
     (idx_slot, c) \<leftarrow> add_local c idx_name;
     loop_start \<leftarrow> code_count c;
     (exit_jump, c) \<leftarrow> emit_iter_exit c iter_slot idx_slot line;
     c \<leftarrow> emit_iter_element c iter_slot idx_slot var_slot line;
     c \<leftarrow> emit_iter_next c idx_slot line;
     c \<leftarrow> comp_body k c condition (add comp_slot) line;
     c \<leftarrow> emit_loop c (int loop_start) line;
     c \<leftarrow> patch_jump c exit_jump;
     c \<leftarrow> emit_local_load c comp_slot line;
     c \<leftarrow> emit_op c OP_RETURN line;
     (inner, c) \<leftarrow> close_function c line;
     c \<leftarrow> emit_closure (comp_leave c0 c) inner line;
     emit_call c 0 line
   }"

definition list_comp_add :: "compile_calls \<Rightarrow> ast \<Rightarrow> int \<Rightarrow> nat option \<Rightarrow> compiler \<Rightarrow> compiler option" where
  "list_comp_add k e line comp_slot c = do {
     c \<leftarrow> emit_local_load c comp_slot line;
     c \<leftarrow> cc_expr k c e;
     (append_idx, c) \<leftarrow> string_constant c ''append'';
     c \<leftarrow> emit_op c OP_INVOKE line;
     c \<leftarrow> emit_uint16 c append_idx line;
     c \<leftarrow> emit_byte c 1 line;
     emit_op c OP_POP line
   }"

definition compile_list_comp :: "compile_calls \<Rightarrow> compiler \<Rightarrow> ast \<Rightarrow> string \<Rightarrow> ast \<Rightarrow> ast option \<Rightarrow> int \<Rightarrow> compiler option" where
  "compile_list_comp k c e var iterable condition line =
     compile_comp k c ''<listcomp>'' OP_CREATE_LIST var ''__lc_iter'' ''__lc_idx'' iterable condition
       (list_comp_add k e line) line"

definition dict_comp_add :: "compile_calls \<Rightarrow> ast \<Rightarrow> ast \<Rightarrow> int \<Rightarrow> nat option \<Rightarrow> compiler \<Rightarrow> compiler option" where
  "dict_comp_add k key val line comp_slot c = do {
     c \<leftarrow> emit_local_load c comp_slot line;
     c \<leftarrow> cc_expr k c key;
     c \<leftarrow> cc_expr k c val;
     emit_ops c [OP_SET_INDEX, OP_PUSH_NULL, OP_POP] line
   }"

definition compile_dict_comp :: "compile_calls \<Rightarrow> compiler \<Rightarrow> ast \<Rightarrow> ast \<Rightarrow> string \<Rightarrow> ast \<Rightarrow> ast option \<Rightarrow> int \<Rightarrow> compiler option" where
  "compile_dict_comp k c key val var iterable condition line =
     compile_comp k c ''<dictcomp>'' OP_CREATE_DICT var ''__dc_iter'' ''__dc_idx'' iterable condition
       (dict_comp_add k key val line) line"

section \<open>The cases of an expression\<close>

definition param_names :: "(string \<times> string option \<times> ast option) list \<Rightarrow> string list" where
  "param_names = map fst"

fun expr_case :: "compile_calls \<Rightarrow> compiler \<Rightarrow> ast \<Rightarrow> compiler option" where
  "expr_case k c (AST_INT p i) = emit_int c i (int (fst p))"
| "expr_case k c (AST_FLOAT p d) = emit_float c d (int (fst p))"
| "expr_case k c (AST_STRING p s) = compile_string c s (int (fst p))"
| "expr_case k c (AST_BOOL p b) = emit_bool c b (int (fst p))"
| "expr_case k c (AST_NULL p) = emit_op c OP_PUSH_NULL (int (fst p))"
| "expr_case k c (AST_IDENT p name) = emit_load_var c name (int (fst p))"
| "expr_case k c (AST_BINARY p op l r) = compile_binary k c op l r (int (fst p))"
| "expr_case k c (AST_UNARY p op e) = compile_unary k c op e (int (fst p))"
| "expr_case k c (AST_CALL p callee args) = compile_call k c callee args (int (fst p))"
| "expr_case k c (AST_INDEX p obj i) = compile_index k c obj i (int (fst p))"
| "expr_case k c (AST_SLICE p obj s e st) = compile_slice k c obj s e st (int (fst p))"
| "expr_case k c (AST_ATTR p obj attr) = compile_attr k c obj attr (int (fst p))"
| "expr_case k c (AST_LIST p es) = compile_list k c es (int (fst p))"
| "expr_case k c (AST_DICT p ks vs) = compile_dict k c ks vs (int (fst p))"
| "expr_case k c (AST_ASSIGN p t v) = compile_assign k c t v (int (fst p))"
| "expr_case k c (AST_AUGMENTED_ASSIGN p t v op) = compile_aug_assign k c t v op (int (fst p))"
| "expr_case k c (AST_AWAIT p e) = do { c \<leftarrow> cc_expr k c e; emit_op c OP_AWAIT (int (fst p)) }"
| "expr_case k c (AST_SPAWN p e) = compile_spawn k c e (int (fst p))"
| "expr_case k c (AST_FSTRING p parts) = compile_fstring k c parts (int (fst p))"
| "expr_case k c (AST_LAMBDA p params body b) = compile_lambda k c (param_names params) body b (int (fst p))"
| "expr_case k c (AST_PIPELINE p l r) = compile_pipeline k c l r (int (fst p))"
| "expr_case k c (AST_FUNC_DEF p name params body decs) =
     compile_function k c FUNC_FUNCTION name (param_names params) body (int (fst p))"
| "expr_case k c (AST_ASYNC_FUNC_DEF p name params body decs) =
     compile_function k c FUNC_ASYNC name (param_names params) body (int (fst p))"
| "expr_case k c (AST_TERNARY p cond t e) = compile_ternary k c cond t e (int (fst p))"
| "expr_case k c (AST_WALRUS p name v) = compile_walrus k c name v (int (fst p))"
| "expr_case k c (AST_LIST_COMP p e var it cond) = compile_list_comp k c e var it cond (int (fst p))"
| "expr_case k c (AST_DICT_COMP p key v var it cond) = compile_dict_comp k c key v var it cond (int (fst p))"
| "expr_case k c _ = Some (compile_error c)"

definition compile_expr :: "compile_calls \<Rightarrow> compiler \<Rightarrow> ast \<Rightarrow> compiler option" where
  "compile_expr k c node = (if cp_had_error c then Some c else expr_case k c node)"

end
