(* ===== verification/CompilerStmts.thy ===== *)
theory CompilerStmts
  imports CompilerExprs
begin

text \<open>
  Statements of \<^verbatim>\<open>src/compiler/compiler.c\<close>: the scan for variables that a body assigns first
  (\<^verbatim>\<open>predeclare_node_locals\<close>), control flow with its jumps, exceptions and \<^verbatim>\<open>with\<close>.
\<close>

section \<open>Variables declared ahead\<close>

definition push_local :: "compiler \<Rightarrow> string \<Rightarrow> int \<Rightarrow> (nat option \<times> compiler) option" where
  "push_local c name line = do { c \<leftarrow> emit_op c OP_PUSH_NULL line; add_local c name }"

definition predeclare_name :: "compiler \<Rightarrow> string \<Rightarrow> int \<Rightarrow> compiler option" where
  "predeclare_name c name line = do {
     f \<leftarrow> cur_frame c;
     if frame_is_nonlocal f name then Some c
     else do {
       (free, c) \<leftarrow> unresolved c name;
       if free \<and> \<not> compiler_has_global c name then do { (_, c) \<leftarrow> push_local c name line; Some c } else Some c
     }
   }"

definition predeclare_loop_var :: "int \<Rightarrow> string \<Rightarrow> compiler \<Rightarrow> compiler option" where
  "predeclare_loop_var line name c = do {
     f \<leftarrow> cur_frame c;
     case resolve_local f name of
       Some i \<Rightarrow> Some (if local_is_const f i then compile_error c else c)
     | None \<Rightarrow> do {
         (upv, c) \<leftarrow> resolve_upvalue c name;
         if upv = None then do { (_, c) \<leftarrow> push_local c name line; Some c } else Some c
       }
   }"

definition predeclare_all :: "compile_calls \<Rightarrow> int \<Rightarrow> ast list \<Rightarrow> compiler \<Rightarrow> compiler option" where
  "predeclare_all k line nodes c = fold_opt (\<lambda>n c. cc_predeclare k c n line) nodes c"

fun predeclare_case :: "compile_calls \<Rightarrow> compiler \<Rightarrow> ast \<Rightarrow> int \<Rightarrow> compiler option" where
  "predeclare_case k c (AST_ASSIGN p target value) line =
     (case ident_name target of Some name \<Rightarrow> predeclare_name c name (int (fst p)) | None \<Rightarrow> Some c)"
| "predeclare_case k c (AST_IF p cond t elif_conds elif_branches e) line =
     predeclare_all k line (t # elif_branches @ (case e of None \<Rightarrow> [] | Some b \<Rightarrow> [b])) c"
| "predeclare_case k c (AST_WHILE p cond body) line = predeclare_all k line [cond, body] c"
| "predeclare_case k c (AST_FOR p vars iterable body) line = do {
     c \<leftarrow> fold_opt (predeclare_loop_var (int (fst p))) vars c;
     cc_predeclare k c body line
   }"
| "predeclare_case k c (AST_BLOCK p stmts) line = predeclare_all k line stmts c"
| "predeclare_case k c (AST_MODULE p stmts) line = predeclare_all k line stmts c"
| "predeclare_case k c (AST_EXPR_STMT p e) line = cc_predeclare k c e line"
| "predeclare_case k c (AST_MATCH p subject pats bodies guards wild wguard) line =
     predeclare_all k line (bodies @ (case wild of None \<Rightarrow> [] | Some b \<Rightarrow> [b])) c"
| "predeclare_case k c (AST_WITH p var manager body) line = cc_predeclare k c body line"
| "predeclare_case k c (AST_WALRUS p name value) line = do {
     c \<leftarrow> predeclare_name c name (int (fst p));
     cc_predeclare k c value line
   }"
| "predeclare_case k c (AST_BINARY p op l r) line = predeclare_all k line [l, r] c"
| "predeclare_case k c (AST_UNARY p op e) line = cc_predeclare k c e line"
| "predeclare_case k c (AST_TERNARY p cond t e) line = predeclare_all k line [cond, t, e] c"
| "predeclare_case k c _ line = Some c"

section \<open>Blocks\<close>

definition compile_scoped :: "compile_calls \<Rightarrow> compiler \<Rightarrow> ast \<Rightarrow> int \<Rightarrow> compiler option" where
  "compile_scoped k c body line = do {
     c \<leftarrow> scope_begin c;
     c \<leftarrow> cc_node k c body;
     scope_end c line
   }"

definition compile_expr_stmt :: "compile_calls \<Rightarrow> compiler \<Rightarrow> ast \<Rightarrow> int \<Rightarrow> compiler option" where
  "compile_expr_stmt k c e line = do { c \<leftarrow> cc_expr k c e; emit_op c OP_POP line }"

section \<open>Return, yield, raise\<close>

definition compile_value :: "compile_calls \<Rightarrow> compiler \<Rightarrow> ast option \<Rightarrow> int \<Rightarrow> compiler option" where
  "compile_value k c value line = (case value of Some e \<Rightarrow> cc_expr k c e | None \<Rightarrow> emit_op c OP_PUSH_NULL line)"

definition compile_return :: "compile_calls \<Rightarrow> compiler \<Rightarrow> ast option \<Rightarrow> int \<Rightarrow> compiler option" where
  "compile_return k c value line = do {
     c \<leftarrow> compile_value k c value line;
     c \<leftarrow> (if 0 < cp_try_depth c then emit_try_unwind k c 0 line False else Some c);
     emit_op c OP_RETURN line
   }"

definition compile_yield :: "compile_calls \<Rightarrow> compiler \<Rightarrow> ast option \<Rightarrow> int \<Rightarrow> compiler option" where
  "compile_yield k c value line = do {
     c \<leftarrow> compile_value k c value line;
     c \<leftarrow> upd_frame (\<lambda>f. f\<lparr>cf_has_yield := True\<rparr>) c;
     emit_op c OP_YIELD line
   }"

definition raise_value :: "compile_calls \<Rightarrow> compiler \<Rightarrow> ast option \<Rightarrow> int \<Rightarrow> compiler option" where
  "raise_value k c value line =
     (case value of
        Some e \<Rightarrow> cc_expr k c e
      | None \<Rightarrow>
          if cp_current_exc_slot c \<noteq> None then emit_op_byte c OP_LOAD_LOCAL (slot_byte (cp_current_exc_slot c)) line
          else emit_op_name c OP_PUSH_STRING ''RuntimeError: no active exception to re-raise'' line)"

definition compile_raise :: "compile_calls \<Rightarrow> compiler \<Rightarrow> ast option \<Rightarrow> int \<Rightarrow> compiler option" where
  "compile_raise k c value line = do {
     c \<leftarrow> raise_value k c value line;
     body \<leftarrow> (if 0 < cp_try_depth c then do {
                tc \<leftarrow> nth_opt (cp_try_stack c) (cp_try_depth c - 1);
                Some (if tc_in_catch tc then tc_finally_body tc else None)
              }
              else Some None);
     c \<leftarrow> (case body of
             Some b \<Rightarrow> do {
               let ctx_idx = cp_try_depth c - 1;
               c \<leftarrow> cc_node k (c\<lparr>cp_try_depth := ctx_idx\<rparr>) b;
               Some (c\<lparr>cp_try_depth := ctx_idx + 1\<rparr>)
             }
           | None \<Rightarrow> Some c);
     emit_op c OP_RAISE line
   }"

section \<open>Try and with\<close>

text \<open>The context that early exits unwind; the nesting limit ends the statement with an error.\<close>

definition put_context :: "compiler \<Rightarrow> nat \<Rightarrow> try_context \<Rightarrow> compiler option" where
  "put_context c i tc = do {
     ts \<leftarrow> array_put (cp_try_stack c) i tc;
     Some (c\<lparr>cp_try_stack := ts, cp_try_depth := i + 1\<rparr>)
   }"

definition store_exception :: "compiler \<Rightarrow> nat option \<Rightarrow> int \<Rightarrow> compiler option" where
  "store_exception c slot line = do {
     c \<leftarrow> emit_op_byte c OP_STORE_LOCAL (slot_byte slot) line;
     emit_op c OP_POP line
   }"

definition exception_slot :: "compiler \<Rightarrow> ast option \<Rightarrow> string option \<Rightarrow> ast option \<Rightarrow> int \<Rightarrow> (nat option \<times> compiler) option" where
  "exception_slot c catch_body catch_var finally_body line =
     (if catch_body \<noteq> None then push_local c (case catch_var of Some v \<Rightarrow> v | None \<Rightarrow> ''__flux_catch_exc__'') line
      else if finally_body \<noteq> None then push_local c ''__flux_exc__'' line
      else Some (None, c))"

definition compile_catch ::
  "compile_calls \<Rightarrow> compiler \<Rightarrow> nat \<Rightarrow> nat \<Rightarrow> nat option \<Rightarrow> ast \<Rightarrow> ast option \<Rightarrow> int \<Rightarrow> compiler option" where
  "compile_catch k c ctx_idx handler_offset slot catch_body finally_body line = do {
     c \<leftarrow> cc_opt (cc_node k) c finally_body;
     (jump_past, c) \<leftarrow> emit_jump c OP_JUMP line;
     c \<leftarrow> patch_exception_handler c handler_offset;
     c \<leftarrow> store_exception c slot line;
     let saved_exc_slot = cp_current_exc_slot c;
     tc \<leftarrow> nth_opt (cp_try_stack c) ctx_idx;
     c \<leftarrow> put_context (c\<lparr>cp_current_exc_slot := slot\<rparr>) ctx_idx (tc\<lparr>tc_in_catch := True\<rparr>);
     c \<leftarrow> compile_scoped k c catch_body line;
     c \<leftarrow> cc_opt (cc_node k) (c\<lparr>cp_try_depth := ctx_idx, cp_current_exc_slot := saved_exc_slot\<rparr>) finally_body;
     patch_jump c jump_past
   }"

definition compile_finally ::
  "compile_calls \<Rightarrow> compiler \<Rightarrow> nat \<Rightarrow> nat option \<Rightarrow> ast option \<Rightarrow> int \<Rightarrow> compiler option" where
  "compile_finally k c handler_offset slot finally_body line = do {
     c \<leftarrow> cc_opt (cc_node k) c finally_body;
     (jump_past, c) \<leftarrow> emit_jump c OP_JUMP line;
     c \<leftarrow> patch_exception_handler c handler_offset;
     c \<leftarrow> store_exception c slot line;
     c \<leftarrow> cc_opt (cc_node k) c finally_body;
     c \<leftarrow> emit_op_byte c OP_LOAD_LOCAL (slot_byte slot) line;
     c \<leftarrow> emit_op c OP_RAISE line;
     patch_jump c jump_past
   }"

definition local_count :: "compiler \<Rightarrow> nat option" where
  "local_count c = map_option (\<lambda>f. length (cf_locals f)) (cur_frame c)"

definition compile_try ::
  "compile_calls \<Rightarrow> compiler \<Rightarrow> ast \<Rightarrow> string option \<Rightarrow> ast option \<Rightarrow> ast option \<Rightarrow> int \<Rightarrow> compiler option" where
  "compile_try k c try_body catch_var catch_body finally_body line = do {
     n0 \<leftarrow> local_count c;
     c \<leftarrow> scope_begin c;
     (slot, c) \<leftarrow> exception_slot c catch_body catch_var finally_body line;
     (handler_offset, c) \<leftarrow> emit_exception_handler c slot line;
     if FLUX_TRY_DEPTH_MAX \<le> cp_try_depth c then Some (compile_error c)
     else do {
       let ctx_idx = cp_try_depth c;
       n1 \<leftarrow> local_count c;
       c \<leftarrow> put_context c ctx_idx
              \<lparr>tc_finally_body = finally_body, tc_with_mgr_slot = None, tc_in_catch = False,
               tc_outer_locals_to_pop = n1 - n0\<rparr>;
       c \<leftarrow> compile_scoped k c try_body line;
       c \<leftarrow> emit_op (c\<lparr>cp_try_depth := ctx_idx\<rparr>) OP_POP_EXCEPTION_HANDLER line;
       c \<leftarrow> (case catch_body of
               Some b \<Rightarrow> compile_catch k c ctx_idx handler_offset slot b finally_body line
             | None \<Rightarrow> compile_finally k c handler_offset slot finally_body line);
       scope_end c line
     }
   }"

definition enter_result :: "compiler \<Rightarrow> string option \<Rightarrow> int \<Rightarrow> compiler option" where
  "enter_result c var line =
     (case var of
        Some v \<Rightarrow> do { (_, c) \<leftarrow> add_local c v; Some c }
      | None \<Rightarrow> emit_op c OP_POP line)"

definition compile_with :: "compile_calls \<Rightarrow> compiler \<Rightarrow> string option \<Rightarrow> ast \<Rightarrow> ast \<Rightarrow> int \<Rightarrow> compiler option" where
  "compile_with k c var manager body line = do {
     c \<leftarrow> scope_begin c;
     n0 \<leftarrow> local_count c;
     c \<leftarrow> cc_expr k c manager;
     (mgr_slot, c) \<leftarrow> add_local c ''__with_mgr'';
     c \<leftarrow> emit_local_load c mgr_slot line;
     c \<leftarrow> emit_invoke c ''__enter__'' 0 line;
     c \<leftarrow> enter_result c var line;
     (exc_slot, c) \<leftarrow> push_local c ''__with_exc__'' line;
     (handler_offset, c) \<leftarrow> emit_exception_handler c exc_slot line;
     if FLUX_TRY_DEPTH_MAX \<le> cp_try_depth c then Some (compile_error c)
     else do {
       let ctx_idx = cp_try_depth c;
       n1 \<leftarrow> local_count c;
       c \<leftarrow> put_context c ctx_idx
              \<lparr>tc_finally_body = None, tc_with_mgr_slot = mgr_slot, tc_in_catch = False,
               tc_outer_locals_to_pop = n1 - n0\<rparr>;
       c \<leftarrow> cc_node k c body;
       c \<leftarrow> emit_op (c\<lparr>cp_try_depth := ctx_idx\<rparr>) OP_POP_EXCEPTION_HANDLER line;
       c \<leftarrow> emit_invoke_exit c mgr_slot line;
       (jump_past, c) \<leftarrow> emit_jump c OP_JUMP line;
       c \<leftarrow> patch_exception_handler c handler_offset;
       c \<leftarrow> store_exception c exc_slot line;
       c \<leftarrow> emit_invoke_exit c mgr_slot line;
       c \<leftarrow> emit_local_load c exc_slot line;
       c \<leftarrow> emit_op c OP_RAISE line;
       c \<leftarrow> patch_jump c jump_past;
       scope_end c line
     }
   }"

section \<open>Branches\<close>

text \<open>A condition and the block it guards: the jump taken when the condition is false, and the one that ends
  the block.\<close>

definition compile_guarded :: "compile_calls \<Rightarrow> compiler \<Rightarrow> ast \<Rightarrow> ast \<Rightarrow> int \<Rightarrow> (nat \<times> compiler) option" where
  "compile_guarded k c condition body line = do {
     c \<leftarrow> cc_expr k c condition;
     (false_jump, c) \<leftarrow> emit_jump c OP_JUMP_IF_FALSE line;
     c \<leftarrow> emit_op c OP_POP line;
     c \<leftarrow> compile_scoped k c body line;
     (end_jump, c) \<leftarrow> emit_jump c OP_JUMP line;
     c \<leftarrow> patch_jump c false_jump;
     c \<leftarrow> emit_op c OP_POP line;
     Some (end_jump, c)
   }"

fun compile_elifs :: "compile_calls \<Rightarrow> int \<Rightarrow> ast list \<Rightarrow> ast list \<Rightarrow> compiler \<Rightarrow> compiler option" where
  "compile_elifs k line [] bs c = Some c"
| "compile_elifs k line (e # es) [] c = None"
| "compile_elifs k line (e # es) (b # bs) c = do {
     (elif_end, c) \<leftarrow> compile_guarded k c e b line;
     c \<leftarrow> patch_jump c elif_end;
     compile_elifs k line es bs c
   }"

definition compile_if ::
  "compile_calls \<Rightarrow> compiler \<Rightarrow> ast \<Rightarrow> ast \<Rightarrow> ast \<Rightarrow> ast list \<Rightarrow> ast list \<Rightarrow> ast option \<Rightarrow> int \<Rightarrow> compiler option" where
  "compile_if k c node condition then_branch elif_conditions elif_branches else_branch line = do {
     c \<leftarrow> cc_predeclare k c node line;
     (else_jump, c) \<leftarrow> compile_guarded k c condition then_branch line;
     c \<leftarrow> compile_elifs k line elif_conditions elif_branches c;
     c \<leftarrow> (case else_branch of Some b \<Rightarrow> compile_scoped k c b line | None \<Rightarrow> Some c);
     patch_jump c else_jump
   }"

section \<open>Loops\<close>

definition loop_enter :: "compiler \<Rightarrow> nat \<Rightarrow> compiler" where
  "loop_enter c start = c\<lparr>cp_loop_start := int start, cp_loop_depth := cp_loop_depth c + 1\<rparr>"

text \<open>The jumps of the breaks are patched and the context of the outer loop returns.\<close>

definition loop_leave :: "compiler \<Rightarrow> compiler \<Rightarrow> compiler option" where
  "loop_leave old c = do {
     c \<leftarrow> fold_opt (\<lambda>i c. do { j \<leftarrow> nth_opt (cp_break_jumps c) i; patch_jump c j })
            [cp_break_count old ..< cp_break_count c] c;
     Some (c\<lparr>cp_loop_start := cp_loop_start old, cp_loop_depth := cp_loop_depth old,
             cp_break_count := cp_break_count old, cp_try_depth_at_loop := cp_try_depth_at_loop old\<rparr>)
   }"

definition compile_break :: "compile_calls \<Rightarrow> compiler \<Rightarrow> int \<Rightarrow> compiler option" where
  "compile_break k c line =
     (if cp_loop_depth c = 0 then Some (compile_error c)
      else do {
        c \<leftarrow> emit_try_unwind k c (cp_try_depth_at_loop c) line True;
        if cp_break_count c < MAX_BREAK_JUMPS then do {
          (j, c) \<leftarrow> emit_jump c OP_JUMP line;
          js \<leftarrow> array_put (cp_break_jumps c) (cp_break_count c) j;
          Some (c\<lparr>cp_break_jumps := js, cp_break_count := cp_break_count c + 1\<rparr>)
        }
        else Some c
      })"

definition compile_continue :: "compile_calls \<Rightarrow> compiler \<Rightarrow> int \<Rightarrow> compiler option" where
  "compile_continue k c line =
     (if cp_loop_depth c = 0 then Some (compile_error c)
      else do {
        c \<leftarrow> emit_try_unwind k c (cp_try_depth_at_loop c) line True;
        emit_loop c (cp_loop_start c) line
      })"

definition compile_while :: "compile_calls \<Rightarrow> compiler \<Rightarrow> ast \<Rightarrow> ast \<Rightarrow> int \<Rightarrow> compiler option" where
  "compile_while k c0 condition body line = do {
     c \<leftarrow> cc_predeclare k (c0\<lparr>cp_try_depth_at_loop := cp_try_depth c0\<rparr>) condition line;
     c \<leftarrow> cc_predeclare k c body line;
     start \<leftarrow> code_count c;
     c \<leftarrow> cc_expr k (loop_enter c start) condition;
     (exit_jump, c) \<leftarrow> emit_jump c OP_JUMP_IF_FALSE line;
     c \<leftarrow> emit_op c OP_POP line;
     c \<leftarrow> compile_scoped k c body line;
     c \<leftarrow> emit_loop c (cp_loop_start c) line;
     c \<leftarrow> patch_jump c exit_jump;
     c \<leftarrow> emit_op c OP_POP line;
     loop_leave c0 c
   }"

fun declare_loop_vars :: "int \<Rightarrow> string list \<Rightarrow> compiler \<Rightarrow> (nat option list \<times> compiler) option" where
  "declare_loop_vars line [] c = Some ([], c)"
| "declare_loop_vars line (name # names) c = do {
     f \<leftarrow> cur_frame c;
     (slot, c) \<leftarrow>
       (case resolve_local f name of
          Some i \<Rightarrow> Some (Some i, if local_is_const f i then compile_error c else c)
        | None \<Rightarrow> do {
            (upv, c) \<leftarrow> resolve_upvalue c name;
            if upv = None then push_local c name line else Some (None, c)
          });
     (slots, c) \<leftarrow> declare_loop_vars line names c;
     Some (slot # slots, c)
   }"

definition emit_unpack :: "compiler \<Rightarrow> nat option \<Rightarrow> nat option \<Rightarrow> nat \<Rightarrow> nat option \<Rightarrow> int \<Rightarrow> compiler option" where
  "emit_unpack c iter_slot idx_slot i var_slot line = do {
     c \<leftarrow> emit_local_load c iter_slot line;
     c \<leftarrow> emit_local_load c idx_slot line;
     c \<leftarrow> emit_op c OP_GET_INDEX line;
     c \<leftarrow> emit_int c (of_nat i) line;
     c \<leftarrow> emit_op c OP_GET_INDEX line;
     emit_local_store c var_slot line
   }"

definition emit_loop_vars :: "compiler \<Rightarrow> nat option \<Rightarrow> nat option \<Rightarrow> nat option list \<Rightarrow> int \<Rightarrow> compiler option" where
  "emit_loop_vars c iter_slot idx_slot slots line =
     (case slots of
        [s] \<Rightarrow> emit_iter_element c iter_slot idx_slot s line
      | _ \<Rightarrow> fold_opt (\<lambda>(i, s) c. emit_unpack c iter_slot idx_slot i s line) (enumerate 0 slots) c)"

definition compile_for :: "compile_calls \<Rightarrow> compiler \<Rightarrow> string list \<Rightarrow> ast \<Rightarrow> ast \<Rightarrow> int \<Rightarrow> compiler option" where
  "compile_for k c vars iterable body line = do {
     c \<leftarrow> cc_predeclare k c body line;
     (slots, c) \<leftarrow> declare_loop_vars line vars c;
     c \<leftarrow> scope_begin c;
     c \<leftarrow> cc_expr k c iterable;
     c \<leftarrow> emit_op c OP_GET_ITER line;
     (iter_slot, c) \<leftarrow> add_local c ''__iter'';
     c \<leftarrow> emit_int c 0 line;
     (idx_slot, c) \<leftarrow> add_local c ''__idx'';
     let c0 = c;
     start \<leftarrow> code_count c;
     (exit_jump, c) \<leftarrow> emit_iter_exit (loop_enter (c\<lparr>cp_try_depth_at_loop := cp_try_depth c\<rparr>) start) iter_slot idx_slot line;
     c \<leftarrow> emit_loop_vars c iter_slot idx_slot slots line;
     c \<leftarrow> emit_iter_next c idx_slot line;
     c \<leftarrow> compile_scoped k c body line;
     c \<leftarrow> emit_loop c (cp_loop_start c) line;
     c \<leftarrow> patch_jump c exit_jump;
     c \<leftarrow> loop_leave c0 c;
     scope_end c line
   }"

section \<open>Declarations of names\<close>

definition set_local_const :: "compiler \<Rightarrow> nat option \<Rightarrow> bool \<Rightarrow> compiler option" where
  "set_local_const c slot is_const =
     (case slot of
        None \<Rightarrow> Some c
      | Some i \<Rightarrow> upd_frame (\<lambda>f. f\<lparr>cf_locals := (cf_locals f)[i := (cf_locals f ! i)\<lparr>lo_is_const := is_const\<rparr>]\<rparr>) c)"

definition compile_let :: "compile_calls \<Rightarrow> compiler \<Rightarrow> string \<Rightarrow> ast \<Rightarrow> bool \<Rightarrow> int \<Rightarrow> compiler option" where
  "compile_let k c name value is_const line = do {
     c \<leftarrow> cc_expr k c value;
     f \<leftarrow> cur_frame c;
     if cf_scope_depth f = 0 then do {
       c \<leftarrow> define_global c name line;
       Some (if is_const then compiler_mark_global_const c name else c)
     }
     else do { (slot, c) \<leftarrow> add_local c name; set_local_const c slot is_const }
   }"

definition declare_nonlocal :: "ast \<Rightarrow> compiler \<Rightarrow> compiler option" where
  "declare_nonlocal node c = do {
     name \<leftarrow> ident_name node;
     c \<leftarrow> upd_frame (\<lambda>f. if length (cf_nonlocals f) < FLUX_MAX_LOCALS
                          then f\<lparr>cf_nonlocals := cf_nonlocals f @ [take 255 name]\<rparr> else f) c;
     (upv, c) \<leftarrow> resolve_upvalue c name;
     Some (if upv = None \<and> \<not> compiler_has_global c name then compile_error c else c)
   }"

definition compile_nonlocal :: "compiler \<Rightarrow> ast list \<Rightarrow> compiler option" where
  "compile_nonlocal c names =
     (if tl (cp_frames c) = [] then Some (compile_error c) else fold_opt declare_nonlocal names c)"

section \<open>Imports\<close>

definition emit_import :: "compiler \<Rightarrow> string \<Rightarrow> int \<Rightarrow> compiler option" where
  "emit_import c module line = do {
     (idx, c) \<leftarrow> identifier_constant c module;
     c \<leftarrow> emit_op c OP_IMPORT line;
     emit_uint16 c idx line
   }"

definition compile_import :: "compiler \<Rightarrow> string \<Rightarrow> string option \<Rightarrow> int \<Rightarrow> compiler option" where
  "compile_import c module alias line = do {
     c \<leftarrow> emit_import c module line;
     define_global c (case alias of Some a \<Rightarrow> a | None \<Rightarrow> module) line
   }"

fun emit_import_names :: "int \<Rightarrow> ast list \<Rightarrow> ast option list \<Rightarrow> compiler \<Rightarrow> compiler option" where
  "emit_import_names line [] as c = Some c"
| "emit_import_names line (n # ns) [] c = None"
| "emit_import_names line (n # ns) (a # as) c = do {
     name \<leftarrow> ident_name n;
     bound \<leftarrow> (case a of Some an \<Rightarrow> ident_name an | None \<Rightarrow> Some name);
     c \<leftarrow> emit_op c OP_DUP line;
     c \<leftarrow> emit_op_name c OP_GET_ATTR name line;
     c \<leftarrow> define_global c bound line;
     emit_import_names line ns as c
   }"

definition compile_from_import :: "compiler \<Rightarrow> string \<Rightarrow> ast list \<Rightarrow> ast option list \<Rightarrow> int \<Rightarrow> compiler option" where
  "compile_from_import c module names aliases line = do {
     c \<leftarrow> emit_import c module line;
     if length names = 1 \<and> ident_name (hd names) = Some ''*'' then emit_op c OP_IMPORT_STAR line
     else do {
       c \<leftarrow> emit_import_names line names aliases c;
       emit_op c OP_POP line
     }
   }"

end
