(* ===== verification/CompilerDefs.thy ===== *)
theory CompilerDefs
  imports CompilerStmts
begin

text \<open>
  The rest of \<^verbatim>\<open>compile_node\<close>: functions with decorators, classes, structs and enums, the arms of \<^verbatim>\<open>match\<close>;
  the recursion between the parts and the entry points of \<^verbatim>\<open>src/compiler/compiler.c\<close>.
\<close>

section \<open>Functions and classes\<close>

definition apply_decorator :: "compile_calls \<Rightarrow> string \<Rightarrow> int \<Rightarrow> ast \<Rightarrow> compiler \<Rightarrow> compiler option" where
  "apply_decorator k name line dec c = do {
     c \<leftarrow> cc_expr k c dec;
     c \<leftarrow> emit_load_var c name line;
     c \<leftarrow> emit_call c 1 line;
     c \<leftarrow> emit_store_var c name line;
     emit_op c OP_POP line
   }"

definition compile_func_def ::
  "compile_calls \<Rightarrow> compiler \<Rightarrow> func_kind \<Rightarrow> string \<Rightarrow> string list \<Rightarrow> ast \<Rightarrow> ast list \<Rightarrow> int \<Rightarrow> compiler option" where
  "compile_func_def k c kind name params body decorators line = do {
     c \<leftarrow> compile_function k c kind name params body line;
     f \<leftarrow> cur_frame c;
     c \<leftarrow> (if cf_scope_depth f = 0 then define_global c name line
            else do { (_, c) \<leftarrow> add_local c name; Some c });
     fold_opt (apply_decorator k name line) (rev decorators) c
   }"

text \<open>The statements of a block; other nodes have no such list.\<close>

fun block_stmts :: "ast \<Rightarrow> ast list option" where
  "block_stmts (AST_BLOCK p stmts) = Some stmts"
| "block_stmts (AST_MODULE p stmts) = Some stmts"
| "block_stmts _ = None"

text \<open>A function definition in the body of a class: its line, name, parameters, body and whether it is async.\<close>

fun method_parts :: "ast \<Rightarrow> (int \<times> string \<times> string list \<times> ast \<times> bool) option" where
  "method_parts (AST_FUNC_DEF p name params body decs) = Some (int (fst p), name, param_names params, body, False)"
| "method_parts (AST_ASYNC_FUNC_DEF p name params body decs) = Some (int (fst p), name, param_names params, body, True)"
| "method_parts _ = None"

definition skip_self :: "string list \<Rightarrow> string list" where
  "skip_self params = (case params of p # ps \<Rightarrow> if p = ''self'' then ps else params | [] \<Rightarrow> [])"

definition emit_return_self :: "compiler \<Rightarrow> int \<Rightarrow> compiler option" where
  "emit_return_self c line = do { c \<leftarrow> emit_op_byte c OP_LOAD_LOCAL 0 line; emit_op c OP_RETURN line }"

definition emit_method :: "compiler \<Rightarrow> compiler_frame \<Rightarrow> string \<Rightarrow> int \<Rightarrow> compiler option" where
  "emit_method c inner name line = do {
     c \<leftarrow> emit_closure c inner line;
     emit_op_name c OP_METHOD name line
   }"

definition compile_method :: "compile_calls \<Rightarrow> int \<Rightarrow> ast \<Rightarrow> compiler \<Rightarrow> compiler option" where
  "compile_method k line stmt c =
     (case method_parts stmt of
        None \<Rightarrow> Some c
      | Some (sline, mname, params, body, is_async) \<Rightarrow> do {
          let is_init = (mname = ''init'' \<or> mname = ''__init__'');
          let name = (if is_init then ''init'' else mname);
          let kind = (if is_init then FUNC_INIT else if is_async then FUNC_ASYNC else FUNC_METHOD);
          c \<leftarrow> open_function c kind name (skip_self params);
          c \<leftarrow> cc_node k c body;
          c \<leftarrow> (if is_init then emit_return_self c sline else Some c);
          (inner, c) \<leftarrow> close_function c sline;
          emit_method c inner name line
        })"

text \<open>The class object, bound to its name.\<close>

definition emit_class :: "compiler \<Rightarrow> string \<Rightarrow> int \<Rightarrow> compiler option" where
  "emit_class c name line = do {
     (idx, c) \<leftarrow> identifier_constant c name;
     c \<leftarrow> emit_op c OP_CLASS line;
     c \<leftarrow> emit_uint16 c idx line;
     f \<leftarrow> cur_frame c;
     if cf_scope_depth f = 0 then do {
       c \<leftarrow> emit_op c OP_DEFINE_GLOBAL line;
       c \<leftarrow> emit_uint16 c idx line;
       Some (compiler_declare_global c name)
     }
     else do { (_, c) \<leftarrow> add_local c name; Some c }
   }"

definition set_superclass :: "string \<Rightarrow> compiler \<Rightarrow> compiler" where
  "set_superclass super c =
     c\<lparr>cp_class_ctx := (case cp_class_ctx c of [] \<Rightarrow> [] | cc # ccs \<Rightarrow> cc\<lparr>cc_superclass_name := Some super\<rparr> # ccs)\<rparr>"

definition compile_class :: "compile_calls \<Rightarrow> compiler \<Rightarrow> string \<Rightarrow> string option \<Rightarrow> ast \<Rightarrow> int \<Rightarrow> compiler option" where
  "compile_class k c name superclass body line = do {
     c \<leftarrow> emit_class c name line;
     (p, vm) \<leftarrow> object_string_copy (cp_vm c) name;
     let c = c\<lparr>cp_vm := vm, cp_class_ctx := \<lparr>cc_name = p, cc_superclass_name = None\<rparr> # cp_class_ctx c\<rparr>;
     c \<leftarrow> (case superclass of
             None \<Rightarrow> Some c
           | Some super \<Rightarrow> do {
               c \<leftarrow> emit_load_var c super line;
               c \<leftarrow> emit_load_var c name line;
               c \<leftarrow> emit_op c OP_INHERIT line;
               Some (set_superclass super c)
             });
     c \<leftarrow> emit_load_var c name line;
     stmts \<leftarrow> block_stmts body;
     c \<leftarrow> fold_opt (compile_method k line) stmts c;
     c \<leftarrow> emit_op c OP_POP line;
     Some (c\<lparr>cp_class_ctx := tl (cp_class_ctx c)\<rparr>)
   }"

section \<open>Structs and enums\<close>

fun field_name :: "ast \<Rightarrow> string option" where
  "field_name (AST_LET_DECL p name value is_const) = Some name"
| "field_name (AST_EXPR_STMT p e) = ident_name e"
| "field_name _ = None"

definition emit_field_init :: "int \<Rightarrow> nat \<times> string \<Rightarrow> compiler \<Rightarrow> compiler option" where
  "emit_field_init line f c = do {
     c \<leftarrow> emit_op_byte c OP_LOAD_LOCAL 0 line;
     c \<leftarrow> emit_op_byte c OP_LOAD_LOCAL (of_nat (fst f)) line;
     emit_op_name c OP_SET_ATTR (snd f) line
   }"

text \<open>The generated \<^verbatim>\<open>init\<close>: a parameter per field, in slots from 1.\<close>

definition compile_auto_init :: "compiler \<Rightarrow> string list \<Rightarrow> int \<Rightarrow> compiler option" where
  "compile_auto_init c fnames line = do {
     c \<leftarrow> open_function c FUNC_INIT ''init'' fnames;
     c \<leftarrow> fold_opt (emit_field_init line) (enumerate 1 fnames) c;
     c \<leftarrow> emit_return_self c line;
     (inner, c) \<leftarrow> close_function c line;
     emit_method c inner ''init'' line
   }"

definition compile_struct :: "compile_calls \<Rightarrow> compiler \<Rightarrow> string \<Rightarrow> ast \<Rightarrow> int \<Rightarrow> compiler option" where
  "compile_struct k c name body line = do {
     stmts \<leftarrow> block_stmts body;
     let fnames = List.map_filter field_name stmts;
     c \<leftarrow> emit_class c name line;
     c \<leftarrow> emit_load_var c name line;
     c \<leftarrow> emit_op c OP_MARK_STRUCT line;
     c \<leftarrow> (if fnames \<noteq> [] then compile_auto_init c fnames line else Some c);
     c \<leftarrow> fold_opt (compile_method k line) stmts c;
     emit_op c OP_POP line
   }"

definition compile_member :: "compile_calls \<Rightarrow> string \<Rightarrow> ast option list \<Rightarrow> int \<Rightarrow> nat \<times> ast \<Rightarrow> compiler \<Rightarrow> compiler option" where
  "compile_member k name values line m c = do {
     mname \<leftarrow> ident_name (snd m);
     c \<leftarrow> emit_load_var c name line;
     (idx, c) \<leftarrow> string_constant c mname;
     c \<leftarrow> emit_op c OP_PUSH_CONST line;
     c \<leftarrow> emit_uint16 c idx line;
     c \<leftarrow> (case nth_opt values (fst m) of
             Some (Some e) \<Rightarrow> cc_expr k c e
           | _ \<Rightarrow> emit_int c (of_nat (fst m)) line);
     c \<leftarrow> emit_call c 2 line;
     emit_op_name c OP_METHOD mname line
   }"

definition compile_enum :: "compile_calls \<Rightarrow> compiler \<Rightarrow> string \<Rightarrow> ast list \<Rightarrow> ast option list \<Rightarrow> int \<Rightarrow> compiler option" where
  "compile_enum k c name members values line = do {
     c \<leftarrow> emit_class c name line;
     c \<leftarrow> emit_load_var c name line;
     c \<leftarrow> compile_auto_init c [''name'', ''value''] line;
     c \<leftarrow> fold_opt (compile_member k name values line) (enumerate 0 members) c;
     c \<leftarrow> emit_op c OP_MARK_ENUM line;
     emit_op c OP_POP line
   }"

section \<open>Match\<close>

fun or_parts :: "ast \<Rightarrow> ast list option" where
  "or_parts (AST_PATTERN_OR p alts) = Some alts"
| "or_parts _ = None"

fun range_parts :: "ast \<Rightarrow> (ast \<times> ast) option" where
  "range_parts (AST_PATTERN_RANGE p low high) = Some (low, high)"
| "range_parts _ = None"

fun type_part :: "ast \<Rightarrow> string option" where
  "type_part (AST_PATTERN_TYPE p name) = Some name"
| "type_part _ = None"

fun bind_parts :: "ast \<Rightarrow> (string \<times> ast) option" where
  "bind_parts (AST_PATTERN_BIND p name sub) = Some (name, sub)"
| "bind_parts _ = None"

text \<open>\<^verbatim>\<open>TypeName(var1, var2, ...)\<close> with bare names only.\<close>

definition destruct_parts :: "ast \<Rightarrow> (string \<times> string list) option" where
  "destruct_parts pat = do {
     (callee, args) \<leftarrow> call_parts pat;
     type \<leftarrow> ident_name callee;
     vars \<leftarrow> those (map ident_name args);
     if vars = [] then None else Some (type, vars)
   }"

text \<open>A test leaves its jump for failure, where the false value is still on the stack.\<close>

definition emit_test_jump :: "compiler \<Rightarrow> int \<Rightarrow> (nat \<times> compiler) option" where
  "emit_test_jump c line = do {
     (fail, c) \<leftarrow> emit_jump c OP_JUMP_IF_FALSE line;
     c \<leftarrow> emit_op c OP_POP line;
     Some (fail, c)
   }"

definition compile_compare :: "compile_calls \<Rightarrow> opcode \<Rightarrow> compiler \<Rightarrow> nat option \<Rightarrow> ast \<Rightarrow> int \<Rightarrow> compiler option" where
  "compile_compare k op c subject e line = do {
     c \<leftarrow> emit_local_load c subject line;
     c \<leftarrow> cc_expr k c e;
     emit_op c op line
   }"

definition compile_isinstance :: "compiler \<Rightarrow> nat option \<Rightarrow> string \<Rightarrow> int \<Rightarrow> (nat \<times> compiler) option" where
  "compile_isinstance c subject type line = do {
     c \<leftarrow> emit_local_load c subject line;
     c \<leftarrow> emit_load_var c type line;
     c \<leftarrow> emit_op c OP_ISINSTANCE line;
     emit_test_jump c line
   }"

definition compile_range :: "compile_calls \<Rightarrow> compiler \<Rightarrow> nat option \<Rightarrow> ast \<Rightarrow> ast \<Rightarrow> int \<Rightarrow> (nat \<times> nat \<times> compiler) option" where
  "compile_range k c subject low high line = do {
     c \<leftarrow> compile_compare k OP_GTE c subject low line;
     (fail1, c) \<leftarrow> emit_test_jump c line;
     c \<leftarrow> compile_compare k OP_LTE c subject high line;
     (fail2, c) \<leftarrow> emit_test_jump c line;
     Some (fail1, fail2, c)
   }"

text \<open>The alternatives: the jumps to the body and the failure of the last one.\<close>

fun compile_alternatives :: "compile_calls \<Rightarrow> nat option \<Rightarrow> int \<Rightarrow> ast list \<Rightarrow> compiler \<Rightarrow> (nat list \<times> nat option \<times> compiler) option" where
  "compile_alternatives k subject line [] c = Some ([], None, c)"
| "compile_alternatives k subject line [alt] c = do {
     c \<leftarrow> compile_compare k OP_EQ c subject alt line;
     (fail, c) \<leftarrow> emit_test_jump c line;
     Some ([], Some fail, c)
   }"
| "compile_alternatives k subject line (alt # alt' # alts) c = do {
     c \<leftarrow> compile_compare k OP_EQ c subject alt line;
     (alt_fail, c) \<leftarrow> emit_test_jump c line;
     (to_body, c) \<leftarrow> emit_jump c OP_JUMP line;
     c \<leftarrow> patch_jump c alt_fail;
     c \<leftarrow> emit_op c OP_POP line;
     (to_bodies, fail, c) \<leftarrow> compile_alternatives k subject line (alt' # alts) c;
     Some (to_body # to_bodies, fail, c)
   }"

definition patch_jumps :: "nat list \<Rightarrow> compiler \<Rightarrow> compiler option" where
  "patch_jumps js c = fold_opt (\<lambda>j c. patch_jump c j) js c"

definition compile_or :: "compile_calls \<Rightarrow> compiler \<Rightarrow> nat option \<Rightarrow> ast list \<Rightarrow> int \<Rightarrow> (nat option \<times> compiler) option" where
  "compile_or k c subject alts line = do {
     (to_bodies, fail, c) \<leftarrow> compile_alternatives k subject line alts c;
     c \<leftarrow> patch_jumps to_bodies c;
     Some (fail, c)
   }"

text \<open>Where the tests of an arm fail: every failure pops its false value and continues behind the arm.\<close>

fun emit_fails :: "nat list \<Rightarrow> int \<Rightarrow> compiler \<Rightarrow> compiler option" where
  "emit_fails [] line c = Some c"
| "emit_fails [fail] line c = do { c \<leftarrow> patch_jump c fail; emit_op c OP_POP line }"
| "emit_fails (fail # fail' # fails) line c = do {
     c \<leftarrow> patch_jump c fail;
     c \<leftarrow> emit_op c OP_POP line;
     (skip, c) \<leftarrow> emit_jump c OP_JUMP line;
     c \<leftarrow> emit_fails (fail' # fails) line c;
     patch_jump c skip
   }"

text \<open>The guard and the body of an arm whose tests are done; the jump to the end of the statement.\<close>

definition compile_arm :: "compile_calls \<Rightarrow> compiler \<Rightarrow> nat list \<Rightarrow> ast option \<Rightarrow> ast \<Rightarrow> int \<Rightarrow> (nat \<times> compiler) option" where
  "compile_arm k c fails guard body line =
     (case guard of
        Some g \<Rightarrow> do {
          c \<leftarrow> cc_expr k c g;
          (guard_fail, c) \<leftarrow> emit_test_jump c line;
          c \<leftarrow> compile_scoped k c body line;
          (end_jump, c) \<leftarrow> emit_jump c OP_JUMP line;
          c \<leftarrow> emit_fails (guard_fail # fails) line c;
          Some (end_jump, c)
        }
      | None \<Rightarrow> do {
          c \<leftarrow> compile_scoped k c body line;
          (end_jump, c) \<leftarrow> emit_jump c OP_JUMP line;
          c \<leftarrow> emit_fails fails line c;
          Some (end_jump, c)
        })"

definition bind_field :: "nat option \<Rightarrow> int \<Rightarrow> string \<Rightarrow> compiler \<Rightarrow> compiler option" where
  "bind_field subject line name c = do {
     c \<leftarrow> emit_local_load c subject line;
     c \<leftarrow> emit_op_name c OP_GET_ATTR name line;
     (_, c) \<leftarrow> add_local c name;
     Some c
   }"

definition compile_destruct ::
  "compile_calls \<Rightarrow> compiler \<Rightarrow> nat option \<Rightarrow> string \<Rightarrow> string list \<Rightarrow> ast option \<Rightarrow> ast \<Rightarrow> int \<Rightarrow> (nat \<times> compiler) option" where
  "compile_destruct k c subject type vars guard body line = do {
     (isinstance_fail, c) \<leftarrow> compile_isinstance c subject type line;
     c \<leftarrow> scope_begin c;
     c \<leftarrow> fold_opt (bind_field subject line) vars c;
     case guard of
       Some g \<Rightarrow> do {
         c \<leftarrow> cc_expr k c g;
         (guard_fail, c) \<leftarrow> emit_test_jump c line;
         c \<leftarrow> cc_node k c body;
         c \<leftarrow> scope_end c line;
         (end_jump, c) \<leftarrow> emit_jump c OP_JUMP line;
         c \<leftarrow> patch_jump c guard_fail;
         c \<leftarrow> emit_op c OP_POP line;
         c \<leftarrow> emit_ops c (replicate (length vars) OP_POP) line;
         (skip_fail, c) \<leftarrow> emit_jump c OP_JUMP line;
         c \<leftarrow> patch_jump c isinstance_fail;
         c \<leftarrow> emit_op c OP_POP line;
         c \<leftarrow> patch_jump c skip_fail;
         Some (end_jump, c)
       }
     | None \<Rightarrow> do {
         c \<leftarrow> cc_node k c body;
         c \<leftarrow> scope_end c line;
         (end_jump, c) \<leftarrow> emit_jump c OP_JUMP line;
         c \<leftarrow> patch_jump c isinstance_fail;
         c \<leftarrow> emit_op c OP_POP line;
         Some (end_jump, c)
       }
   }"

text \<open>The tests of a pattern that binds nothing: the jumps of its failures.\<close>

definition compile_tests :: "compile_calls \<Rightarrow> compiler \<Rightarrow> nat option \<Rightarrow> ast \<Rightarrow> int \<Rightarrow> (nat list \<times> compiler) option" where
  "compile_tests k c subject pat line =
     (case (or_parts pat, range_parts pat, type_part pat) of
        (Some alts, _) \<Rightarrow> do {
          (fail, c) \<leftarrow> compile_or k c subject alts line;
          Some (case fail of Some j \<Rightarrow> [j] | None \<Rightarrow> [], c)
        }
      | (_, Some (low, high), _) \<Rightarrow> do {
          (fail1, fail2, c) \<leftarrow> compile_range k c subject low high line;
          Some ([fail1, fail2], c)
        }
      | (_, _, Some type) \<Rightarrow> do { (fail, c) \<leftarrow> compile_isinstance c subject type line; Some ([fail], c) }
      | _ \<Rightarrow> do {
          c \<leftarrow> compile_compare k OP_EQ c subject pat line;
          (fail, c) \<leftarrow> emit_test_jump c line;
          Some ([fail], c)
        })"

definition compile_bind ::
  "compile_calls \<Rightarrow> compiler \<Rightarrow> nat option \<Rightarrow> string \<Rightarrow> ast \<Rightarrow> ast option \<Rightarrow> ast \<Rightarrow> int \<Rightarrow> (nat \<times> compiler) option" where
  "compile_bind k c subject name sub guard body line = do {
     c \<leftarrow> scope_begin c;
     c \<leftarrow> emit_local_load c subject line;
     (_, c) \<leftarrow> add_local c name;
     (sub_fails, c) \<leftarrow> compile_tests k c subject sub line;
     (guard_fails, c) \<leftarrow> (case guard of
                            Some g \<Rightarrow> do {
                              c \<leftarrow> cc_expr k c g;
                              (fail, c) \<leftarrow> emit_test_jump c line;
                              Some ([fail], c)
                            }
                          | None \<Rightarrow> Some ([], c));
     c \<leftarrow> cc_node k c body;
     c \<leftarrow> scope_end c line;
     (end_jump, c) \<leftarrow> emit_jump c OP_JUMP line;
     c \<leftarrow> patch_jumps (guard_fails @ sub_fails) c;
     c \<leftarrow> emit_ops c [OP_POP, OP_POP] line;
     Some (end_jump, c)
   }"

text \<open>An OR pattern without alternatives has no jump to patch.\<close>

definition match_arm :: "compile_calls \<Rightarrow> compiler \<Rightarrow> nat option \<Rightarrow> ast \<Rightarrow> ast option \<Rightarrow> ast \<Rightarrow> int \<Rightarrow> (nat \<times> compiler) option" where
  "match_arm k c subject pat guard body line =
     (case (destruct_parts pat, bind_parts pat) of
        (Some (type, vars), _) \<Rightarrow> compile_destruct k c subject type vars guard body line
      | (_, Some (name, sub)) \<Rightarrow> compile_bind k c subject name sub guard body line
      | _ \<Rightarrow> do {
          (fails, c) \<leftarrow> compile_tests k c subject pat line;
          if fails = [] then None else compile_arm k c fails guard body line
        })"

fun match_arms :: "compile_calls \<Rightarrow> nat option \<Rightarrow> int \<Rightarrow> ast list \<Rightarrow> ast list \<Rightarrow> ast option list \<Rightarrow> compiler \<Rightarrow> (nat list \<times> compiler) option" where
  "match_arms k subject line [] bs gs c = Some ([], c)"
| "match_arms k subject line (p # ps) [] gs c = None"
| "match_arms k subject line (p # ps) (b # bs) gs c = do {
     (end_jump, c) \<leftarrow> match_arm k c subject p (case gs of [] \<Rightarrow> None | g # _ \<Rightarrow> g) b line;
     (end_jumps, c) \<leftarrow> match_arms k subject line ps bs (tl gs) c;
     Some (end_jump # end_jumps, c)
   }"

definition compile_wildcard :: "compile_calls \<Rightarrow> compiler \<Rightarrow> ast option \<Rightarrow> ast option \<Rightarrow> int \<Rightarrow> compiler option" where
  "compile_wildcard k c body guard line =
     (case (body, guard) of
        (None, _) \<Rightarrow> Some c
      | (Some b, Some g) \<Rightarrow> do {
          (end_jump, c) \<leftarrow> compile_guarded k c g b line;
          patch_jump c end_jump
        }
      | (Some b, None) \<Rightarrow> compile_scoped k c b line)"

definition compile_match ::
  "compile_calls \<Rightarrow> compiler \<Rightarrow> ast \<Rightarrow> ast list \<Rightarrow> ast list \<Rightarrow> ast option list \<Rightarrow> ast option \<Rightarrow> ast option \<Rightarrow> int \<Rightarrow> compiler option" where
  "compile_match k c subject patterns bodies guards wild wguard line = do {
     c \<leftarrow> scope_begin c;
     c \<leftarrow> cc_expr k c subject;
     (subject_slot, c) \<leftarrow> add_local c ''__match__'';
     (end_jumps, c) \<leftarrow> match_arms k subject_slot line patterns bodies guards c;
     c \<leftarrow> compile_wildcard k c wild wguard line;
     c \<leftarrow> patch_jumps end_jumps c;
     scope_end c line
   }"

section \<open>The cases of a statement\<close>

text \<open>The expressions that may stand as statements without a node of their own.\<close>

fun plain_expr :: "ast \<Rightarrow> bool" where
  "plain_expr (AST_INT p i) = True"
| "plain_expr (AST_FLOAT p d) = True"
| "plain_expr (AST_STRING p s) = True"
| "plain_expr (AST_FSTRING p parts) = True"
| "plain_expr (AST_BOOL p b) = True"
| "plain_expr (AST_NULL p) = True"
| "plain_expr (AST_IDENT p name) = True"
| "plain_expr (AST_BINARY p op l r) = True"
| "plain_expr (AST_UNARY p op e) = True"
| "plain_expr (AST_CALL p callee args) = True"
| "plain_expr (AST_INDEX p obj i) = True"
| "plain_expr (AST_ATTR p obj attr) = True"
| "plain_expr (AST_LIST p es) = True"
| "plain_expr (AST_DICT p ks vs) = True"
| "plain_expr (AST_ASSIGN p t v) = True"
| "plain_expr (AST_AUGMENTED_ASSIGN p t v op) = True"
| "plain_expr (AST_AWAIT p e) = True"
| "plain_expr (AST_SPAWN p e) = True"
| "plain_expr (AST_LAMBDA p params body b) = True"
| "plain_expr (AST_PIPELINE p l r) = True"
| "plain_expr _ = False"

fun ast_pos :: "ast \<Rightarrow> pos" where
  "ast_pos (AST_INT p i) = p"
| "ast_pos (AST_FLOAT p d) = p"
| "ast_pos (AST_STRING p s) = p"
| "ast_pos (AST_FSTRING p parts) = p"
| "ast_pos (AST_BOOL p b) = p"
| "ast_pos (AST_NULL p) = p"
| "ast_pos (AST_IDENT p name) = p"
| "ast_pos (AST_BINARY p op l r) = p"
| "ast_pos (AST_UNARY p op e) = p"
| "ast_pos (AST_CALL p callee args) = p"
| "ast_pos (AST_INDEX p obj i) = p"
| "ast_pos (AST_ATTR p obj attr) = p"
| "ast_pos (AST_LIST p es) = p"
| "ast_pos (AST_DICT p ks vs) = p"
| "ast_pos (AST_ASSIGN p t v) = p"
| "ast_pos (AST_AUGMENTED_ASSIGN p t v op) = p"
| "ast_pos (AST_AWAIT p e) = p"
| "ast_pos (AST_SPAWN p e) = p"
| "ast_pos (AST_LAMBDA p params body b) = p"
| "ast_pos (AST_PIPELINE p l r) = p"
| "ast_pos _ = (0, 0)"

fun node_case :: "compile_calls \<Rightarrow> compiler \<Rightarrow> ast \<Rightarrow> compiler option" where
  "node_case k c (AST_MODULE p stmts) = cc_nodes k c stmts"
| "node_case k c (AST_BLOCK p stmts) = cc_nodes k c stmts"
| "node_case k c (AST_EXPR_STMT p e) = compile_expr_stmt k c e (int (fst p))"
| "node_case k c (AST_RETURN p v) = compile_return k c v (int (fst p))"
| "node_case k c (AST_YIELD p v) = compile_yield k c v (int (fst p))"
| "node_case k c (AST_PASS p) = Some c"
| "node_case k c (AST_RAISE p v) = compile_raise k c v (int (fst p))"
| "node_case k c (AST_TRY p b v cb fb) = compile_try k c b v cb fb (int (fst p))"
| "node_case k c (AST_BREAK p) = compile_break k c (int (fst p))"
| "node_case k c (AST_CONTINUE p) = compile_continue k c (int (fst p))"
| "node_case k c (AST_IF p cond t ecs ebs e) =
     compile_if k c (AST_IF p cond t ecs ebs e) cond t ecs ebs e (int (fst p))"
| "node_case k c (AST_WHILE p cond body) = compile_while k c cond body (int (fst p))"
| "node_case k c (AST_FOR p vars iterable body) = compile_for k c vars iterable body (int (fst p))"
| "node_case k c (AST_FUNC_DEF p name params body decs) =
     compile_func_def k c FUNC_FUNCTION name (param_names params) body decs (int (fst p))"
| "node_case k c (AST_ASYNC_FUNC_DEF p name params body decs) =
     compile_func_def k c FUNC_ASYNC name (param_names params) body decs (int (fst p))"
| "node_case k c (AST_CLASS_DEF p name super body) = compile_class k c name super body (int (fst p))"
| "node_case k c (AST_IMPORT p module alias) = compile_import c module alias (int (fst p))"
| "node_case k c (AST_FROM_IMPORT p module names aliases) = compile_from_import c module names aliases (int (fst p))"
| "node_case k c (AST_LET_DECL p name v is_const) = compile_let k c name v is_const (int (fst p))"
| "node_case k c (AST_WITH p var manager body) = compile_with k c var manager body (int (fst p))"
| "node_case k c (AST_MATCH p subject pats bodies guards wild wguard) =
     compile_match k c subject pats bodies guards wild wguard (int (fst p))"
| "node_case k c (AST_STRUCT_DEF p name body) = compile_struct k c name body (int (fst p))"
| "node_case k c (AST_ENUM_DEF p name members values) = compile_enum k c name members values (int (fst p))"
| "node_case k c (AST_NONLOCAL p names) = compile_nonlocal c names"
| "node_case k c node =
     (if plain_expr node then compile_expr_stmt k c node (int (fst (ast_pos node))) else Some (compile_error c))"

definition compile_node :: "compile_calls \<Rightarrow> compiler \<Rightarrow> ast \<Rightarrow> compiler option" where
  "compile_node k c node = (if cp_had_error c then Some c else node_case k c node)"

section \<open>Recursion and entry points\<close>

text \<open>\<open>compile_calls n\<close> follows calls to depth \<open>n\<close>.\<close>

primrec calls_to :: "nat \<Rightarrow> (double \<Rightarrow> double \<Rightarrow> double) \<Rightarrow> compile_calls" where
  "calls_to 0 powf = \<lparr>cc_pow = powf, cc_expr = (\<lambda>_ _. None), cc_node = (\<lambda>_ _. None), cc_predeclare = (\<lambda>_ _ _. None)\<rparr>"
| "calls_to (Suc n) powf =
     (let k = calls_to n powf
      in \<lparr>cc_pow = powf, cc_expr = compile_expr k, cc_node = compile_node k, cc_predeclare = predeclare_case k\<rparr>)"

definition compiler_init :: "flux_vm \<Rightarrow> string option \<Rightarrow> compiler" where
  "compiler_init vm source_name =
     \<lparr>cp_vm = vm, cp_frames = [], cp_class_ctx = [], cp_had_error = False, cp_source_name = source_name,
      cp_loop_start = 0, cp_loop_depth = 0, cp_break_jumps = [], cp_break_count = 0, cp_globals = [],
      cp_current_exc_slot = None, cp_try_stack = [], cp_try_depth = 0, cp_try_depth_at_loop = 0\<rparr>"

text \<open>The function and the machine; no function on a compile error.\<close>

definition compiler_compile ::
  "nat \<Rightarrow> (double \<Rightarrow> double \<Rightarrow> double) \<Rightarrow> flux_vm \<Rightarrow> ast \<Rightarrow> string option \<Rightarrow> (ptr option \<times> flux_vm) option" where
  "compiler_compile n powf vm module_ast source_name = do {
     c \<leftarrow> frame_init (compiler_init vm source_name) FUNC_SCRIPT [];
     c \<leftarrow> cc_node (calls_to n powf) c module_ast;
     c \<leftarrow> emit_op c OP_PUSH_NULL 0;
     c \<leftarrow> emit_op c OP_RETURN 0;
     f \<leftarrow> cur_frame c;
     Some (if cp_had_error c then None else Some (cf_function f), cp_vm c)
   }"

end
