(* ===== verification/CompilerEmit.thy ===== *)
theory CompilerEmit
  imports CompilerDefs Operands
begin

text \<open>
  The emitters of the compiler append to the code of the current function and change nothing else.  \<open>grows c bs c'\<close>
  says that \<open>c'\<close> is \<open>c\<close> with \<open>bs\<close> appended; \<open>gives m P\<close> that \<open>m\<close> returns and its result satisfies \<open>P\<close>.  The rules of
  the collection \<open>emit\<close> follow the structure of a definition.
\<close>

section \<open>Results\<close>

definition gives :: "'a option \<Rightarrow> ('a \<Rightarrow> bool) \<Rightarrow> bool" where
  "gives m P \<longleftrightarrow> (\<exists>x. m = Some x \<and> P x)"

named_theorems emit \<open>rules for definitions that emit code\<close>

lemma gives_Some [emit]: "P x \<Longrightarrow> gives (Some x) P"
  by (simp add: gives_def)

lemma gives_bind [emit]: "gives m (\<lambda>x. gives (f x) P) \<Longrightarrow> gives (Option.bind m f) P"
  by (auto simp: gives_def bind_Some_iff)

lemma gives_mono: "gives m P \<Longrightarrow> (\<And>x. P x \<Longrightarrow> Q x) \<Longrightarrow> gives m Q"
  by (auto simp: gives_def)

lemma givesD: "gives m P \<Longrightarrow> m = Some x \<Longrightarrow> P x"
  by (simp add: gives_def)

section \<open>Appending to the code\<close>

definition grows :: "compiler \<Rightarrow> byte list \<Rightarrow> compiler \<Rightarrow> bool" where
  "grows c bs c' \<longleftrightarrow>
     (\<exists>f fs ob fn ch. cp_frames c = f # fs \<and> hget (vm_heap (cp_vm c)) (cf_function f) = Some ob \<and>
        payload ob = OBJ_FUNCTION fn \<and> ch_code ch = ch_code (fn_chunk fn) @ bs \<and> ch_constants ch = ch_constants (fn_chunk fn) \<and>
        c' = c\<lparr>cp_vm := (cp_vm c)\<lparr>vm_heap := (vm_heap (cp_vm c))
               [cf_function f := Some (ob\<lparr>payload := OBJ_FUNCTION (fn\<lparr>fn_chunk := ch\<rparr>)\<rparr>)]\<rparr>\<rparr>)"

text \<open>A frame is open and its function is alive.\<close>

definition chunk_open :: "compiler \<Rightarrow> bool" where
  "chunk_open c \<longleftrightarrow> current_chunk c \<noteq> None"

lemma current_chunk_def2:
  "current_chunk c = Some ch \<longleftrightarrow>
    (\<exists>f fs ob fn. cp_frames c = f # fs \<and> hget (vm_heap (cp_vm c)) (cf_function f) = Some ob \<and>
      payload ob = OBJ_FUNCTION fn \<and> ch = fn_chunk fn)"
  by (auto simp: current_chunk_def cur_function_def cur_frame_def get_function_def hpayload_def bind_Some_iff
      split: list.splits payload.splits option.splits)

lemma grows_refl: "chunk_open c \<Longrightarrow> grows c [] c"
proof -
  assume "chunk_open c"
  then obtain ch where "current_chunk c = Some ch" by (auto simp: chunk_open_def)
  then obtain f fs ob fn where a: "cp_frames c = f # fs" "hget (vm_heap (cp_vm c)) (cf_function f) = Some ob" "payload ob = OBJ_FUNCTION fn"
    unfolding current_chunk_def2 by blast
  have "vm_heap (cp_vm c) ! cf_function f = Some ob" using a(2) by (simp add: hget_def split: if_splits)
  then have "(vm_heap (cp_vm c))[cf_function f := Some ob] = vm_heap (cp_vm c)" by (metis list_update_id)
  moreover have ob: "ob\<lparr>payload := OBJ_FUNCTION fn\<rparr> = ob" by (simp add: a(3)[symmetric])
  ultimately show ?thesis unfolding grows_def using a
    by (intro exI [of _ f] exI [of _ fs] exI [of _ ob] exI [of _ fn] exI [of _ "fn_chunk fn"]) (simp add: ob)
qed

lemma grows_code: "grows c bs c' \<Longrightarrow> \<exists>ch ch'. current_chunk c = Some ch \<and> current_chunk c' = Some ch' \<and> ch_code ch' = ch_code ch @ bs \<and>
    ch_constants ch' = ch_constants ch"
proof -
  assume "grows c bs c'"
  then obtain f fs ob fn ch where a: "cp_frames c = f # fs" "hget (vm_heap (cp_vm c)) (cf_function f) = Some ob"
    "payload ob = OBJ_FUNCTION fn" "ch_code ch = ch_code (fn_chunk fn) @ bs" "ch_constants ch = ch_constants (fn_chunk fn)"
    "c' = c\<lparr>cp_vm := (cp_vm c)\<lparr>vm_heap := (vm_heap (cp_vm c))
               [cf_function f := Some (ob\<lparr>payload := OBJ_FUNCTION (fn\<lparr>fn_chunk := ch\<rparr>)\<rparr>)]\<rparr>\<rparr>" unfolding grows_def by blast
  have "cf_function f < length (vm_heap (cp_vm c))" using a(2) by (rule hget_Some_less)
  then have "current_chunk c' = Some ch" unfolding current_chunk_def2
    by (intro exI [of _ f] exI [of _ fs] exI [of _ "ob\<lparr>payload := OBJ_FUNCTION (fn\<lparr>fn_chunk := ch\<rparr>)\<rparr>"]
        exI [of _ "fn\<lparr>fn_chunk := ch\<rparr>"]) (simp add: a hget_update)
  moreover have "current_chunk c = Some (fn_chunk fn)" unfolding current_chunk_def2
    by (intro exI [of _ f] exI [of _ fs] exI [of _ ob] exI [of _ fn]) (simp add: a)
  ultimately show ?thesis using a by simp
qed

lemma grows_chunk_open: "grows c bs c' \<Longrightarrow> chunk_open c'" "grows c bs c' \<Longrightarrow> chunk_open c"
  using grows_code unfolding chunk_open_def by blast+

lemma grows_keeps:
  assumes "grows c bs c'"
  shows "cp_frames c' = cp_frames c" "cp_had_error c' = cp_had_error c" "cp_globals c' = cp_globals c"
    "cp_loop_start c' = cp_loop_start c" "cp_loop_depth c' = cp_loop_depth c" "cp_try_depth c' = cp_try_depth c"
    "cp_break_count c' = cp_break_count c" "cp_try_depth_at_loop c' = cp_try_depth_at_loop c"
    "cp_class_ctx c' = cp_class_ctx c" "cp_break_jumps c' = cp_break_jumps c"
  using assms by (auto simp: grows_def)

lemma grows_count:
  assumes "grows c bs c'" "code_count c = Some n"
  shows "code_count c' = Some (n + length bs)"
  using grows_code [OF assms(1)] assms(2) by (auto simp: code_count_def)

lemma grows_trans:
  assumes "grows c bs c1" "grows c1 bs' c2"
  shows "grows c (bs @ bs') c2"
proof -
  obtain f fs ob fn ch where a: "cp_frames c = f # fs" "hget (vm_heap (cp_vm c)) (cf_function f) = Some ob"
    "payload ob = OBJ_FUNCTION fn" "ch_code ch = ch_code (fn_chunk fn) @ bs" "ch_constants ch = ch_constants (fn_chunk fn)"
    "c1 = c\<lparr>cp_vm := (cp_vm c)\<lparr>vm_heap := (vm_heap (cp_vm c))
               [cf_function f := Some (ob\<lparr>payload := OBJ_FUNCTION (fn\<lparr>fn_chunk := ch\<rparr>)\<rparr>)]\<rparr>\<rparr>" using assms(1) unfolding grows_def by blast
  obtain f' fs' ob' fn' ch' where b: "cp_frames c1 = f' # fs'" "hget (vm_heap (cp_vm c1)) (cf_function f') = Some ob'"
    "payload ob' = OBJ_FUNCTION fn'" "ch_code ch' = ch_code (fn_chunk fn') @ bs'" "ch_constants ch' = ch_constants (fn_chunk fn')"
    "c2 = c1\<lparr>cp_vm := (cp_vm c1)\<lparr>vm_heap := (vm_heap (cp_vm c1))
               [cf_function f' := Some (ob'\<lparr>payload := OBJ_FUNCTION (fn'\<lparr>fn_chunk := ch'\<rparr>)\<rparr>)]\<rparr>\<rparr>" using assms(2) unfolding grows_def by blast
  have l: "cf_function f < length (vm_heap (cp_vm c))" using a(2) by (rule hget_Some_less)
  have f: "f' = f" "fs' = fs" using b(1) a(1,6) by simp_all
  have ob: "ob' = ob\<lparr>payload := OBJ_FUNCTION (fn\<lparr>fn_chunk := ch\<rparr>)\<rparr>" using b(2) l by (simp add: f a(6) hget_update)
  then have fn: "fn' = fn\<lparr>fn_chunk := ch\<rparr>" using b(3) by simp
  show ?thesis unfolding grows_def
    by (intro exI [of _ f] exI [of _ fs] exI [of _ ob] exI [of _ fn] exI [of _ ch'])
      (simp add: a b(4-6) f ob fn)
qed

section \<open>The emitters\<close>

lemma upd_chunk_eq:
  assumes "cp_frames c = f # fs" "hget (vm_heap (cp_vm c)) (cf_function f) = Some ob" "payload ob = OBJ_FUNCTION fn"
  shows "upd_chunk g c = Some (c\<lparr>cp_vm := (cp_vm c)\<lparr>vm_heap := (vm_heap (cp_vm c))
    [cf_function f := Some (ob\<lparr>payload := OBJ_FUNCTION (fn\<lparr>fn_chunk := g (fn_chunk fn)\<rparr>)\<rparr>)]\<rparr>\<rparr>)"
  using assms by (simp add: upd_chunk_def upd_function_def cur_frame_def get_function_def hpayload_def vm_hput_def hput_def)

lemma gives_upd_chunk:
  assumes "grows c0 bs c" and "\<And>ch. ch_code (g ch) = ch_code ch @ bs' \<and> ch_constants (g ch) = ch_constants ch"
    and "\<And>c'. grows c0 (bs @ bs') c' \<Longrightarrow> P c'"
  shows "gives (upd_chunk g c) P"
proof -
  obtain ch where "current_chunk c = Some ch" using grows_chunk_open(1) [OF assms(1)] by (auto simp: chunk_open_def)
  then obtain f fs ob fn where a: "cp_frames c = f # fs" "hget (vm_heap (cp_vm c)) (cf_function f) = Some ob" "payload ob = OBJ_FUNCTION fn"
    unfolding current_chunk_def2 by blast
  let ?c = "c\<lparr>cp_vm := (cp_vm c)\<lparr>vm_heap := (vm_heap (cp_vm c))
    [cf_function f := Some (ob\<lparr>payload := OBJ_FUNCTION (fn\<lparr>fn_chunk := g (fn_chunk fn)\<rparr>)\<rparr>)]\<rparr>\<rparr>"
  have "grows c bs' ?c" unfolding grows_def
    by (intro exI [of _ f] exI [of _ fs] exI [of _ ob] exI [of _ fn] exI [of _ "g (fn_chunk fn)"]) (simp add: a assms(2))
  then have "grows c0 (bs @ bs') ?c" by (rule grows_trans [OF assms(1)])
  then show ?thesis using assms(3) upd_chunk_eq [OF a, of g] by (simp add: gives_def)
qed

lemma emit_byte [emit]: "grows c0 bs c \<Longrightarrow> (\<And>c'. grows c0 (bs @ [b]) c' \<Longrightarrow> P c') \<Longrightarrow> gives (emit_byte c b line) P"
  unfolding emit_byte_def by (rule gives_upd_chunk) auto

lemma emit_op [emit]:
  "grows c0 bs c \<Longrightarrow> (\<And>c'. grows c0 (bs @ [opcode_byte op]) c' \<Longrightarrow> P c') \<Longrightarrow> gives (emit_op c op line) P"
  unfolding emit_op_def by (rule emit_byte)

lemma emit_op_byte [emit]:
  "grows c0 bs c \<Longrightarrow> (\<And>c'. grows c0 (bs @ [opcode_byte op, b]) c' \<Longrightarrow> P c') \<Longrightarrow> gives (emit_op_byte c op b line) P"
  unfolding emit_op_byte_def by (rule gives_bind, erule emit_op, erule emit_byte) simp

text \<open>The bytes of an operand.\<close>

definition le16 :: "uint16 \<Rightarrow> byte list" where
  "le16 v = [ucast (v AND 0xFF), ucast (drop_bit 8 v AND 0xFF)]"

definition le64 :: "uint64 \<Rightarrow> byte list" where
  "le64 v = map (\<lambda>i. ucast (drop_bit (8 * i) v)) [0 ..< 8]"

lemma length_le16 [simp]: "length (le16 v) = 2" by (simp add: le16_def)
lemma length_le64 [simp]: "length (le64 v) = 8" by (simp add: le64_def del: upt_Suc)

lemma emit_uint16 [emit]: "grows c0 bs c \<Longrightarrow> (\<And>c'. grows c0 (bs @ le16 v) c' \<Longrightarrow> P c') \<Longrightarrow> gives (emit_uint16 c v line) P"
  unfolding emit_uint16_def by (rule gives_upd_chunk) (auto simp: le16_def ch_code_write_uint16 chunk_write_uint16_def Let_def)

lemma ch_constants_bytes8: "ch_constants (chunk_write_bytes8 n ch v line) = ch_constants ch"
  by (induction n ch v line rule: chunk_write_bytes8.induct) simp_all

lemma ch_constants_bits8: "ch_constants (chunk_write_bits8 n ch v line) = ch_constants ch"
  by (induction n ch v line rule: chunk_write_bits8.induct) simp_all

lemma emit_int64 [emit]:
  assumes "grows c0 bs c" "\<And>c'. grows c0 (bs @ le64 v) c' \<Longrightarrow> P c'"
  shows "gives (emit_int64 c v line) P"
proof -
  have w: "ch_code (chunk_write_int64 ch v line) = ch_code ch @ le64 v \<and> ch_constants (chunk_write_int64 ch v line) = ch_constants ch" for ch
    using ch_code_bytes8 [of 8 0 ch v line] ch_constants_bytes8 [of 8 ch v line] by (simp add: chunk_write_int64_def le64_def del: upt_Suc)
  show ?thesis unfolding emit_int64_def by (rule gives_upd_chunk [OF assms(1) w assms(2)])
qed

lemma emit_double [emit]:
  assumes "grows c0 bs c" "\<And>c'. grows c0 (bs @ le64 v) c' \<Longrightarrow> P c'"
  shows "gives (emit_double c v line) P"
proof -
  have w: "ch_code (chunk_write_double ch v line) = ch_code ch @ le64 v \<and> ch_constants (chunk_write_double ch v line) = ch_constants ch" for ch
    using ch_constants_bits8 [of 8 ch v line] by (simp add: chunk_write_double_def ch_code_bits8 le64_def del: upt_Suc)
  show ?thesis unfolding emit_double_def by (rule gives_upd_chunk [OF assms(1) w assms(2)])
qed

section \<open>Jumps\<close>

lemma code_count_grows: "grows c0 bs c \<Longrightarrow> code_count c0 = Some n \<Longrightarrow> code_count c = Some (n + length bs)"
  by (rule grows_count)

lemma emit_jump [emit]:
  assumes "grows c0 bs c" "code_count c0 = Some n"
    and "\<And>c'. grows c0 (bs @ opcode_byte op # le16 0xFFFF) c' \<Longrightarrow> P (n + length bs + 1, c')"
  shows "gives (emit_jump c op line) P"
  unfolding emit_jump_def
proof (rule gives_bind, rule emit_op [OF assms(1)], rule gives_bind)
  fix c1 assume c1: "grows c0 (bs @ [opcode_byte op]) c1"
  have n: "code_count c1 = Some (n + length bs + 1)" using grows_count [OF c1 assms(2)] by simp
  have "gives (do { c \<leftarrow> emit_uint16 c1 0xFFFF line; Some (n + length bs + 1, c) }) P"
    by (rule gives_bind, rule emit_uint16 [OF c1], rule gives_Some, rule assms(3)) simp
  then show "gives (code_count c1) (\<lambda>offset. gives (do { c \<leftarrow> emit_uint16 c1 0xFFFF line; Some (offset, c) }) P)"
    unfolding n by (rule gives_Some)
qed

lemma grows_patch:
  assumes "grows c0 (pre @ old @ post) c" "current_chunk c = Some ch" "length old = length new"
    and "ch_code ch' = ch0 @ pre @ new @ post" "ch_code ch = ch0 @ pre @ old @ post" "ch_constants ch' = ch_constants ch"
  shows "gives (upd_chunk (\<lambda>_. ch') c) (grows c0 (pre @ new @ post))"
proof -
  obtain f fs ob fn ch1 where a: "cp_frames c0 = f # fs" "hget (vm_heap (cp_vm c0)) (cf_function f) = Some ob"
    "payload ob = OBJ_FUNCTION fn" "ch_code ch1 = ch_code (fn_chunk fn) @ pre @ old @ post" "ch_constants ch1 = ch_constants (fn_chunk fn)"
    "c = c0\<lparr>cp_vm := (cp_vm c0)\<lparr>vm_heap := (vm_heap (cp_vm c0))
               [cf_function f := Some (ob\<lparr>payload := OBJ_FUNCTION (fn\<lparr>fn_chunk := ch1\<rparr>)\<rparr>)]\<rparr>\<rparr>" using assms(1) unfolding grows_def by blast
  have l: "cf_function f < length (vm_heap (cp_vm c0))" using a(2) by (rule hget_Some_less)
  let ?ob = "ob\<lparr>payload := OBJ_FUNCTION (fn\<lparr>fn_chunk := ch1\<rparr>)\<rparr>"
  have c: "cp_frames c = f # fs" "hget (vm_heap (cp_vm c)) (cf_function f) = Some ?ob" "payload ?ob = OBJ_FUNCTION (fn\<lparr>fn_chunk := ch1\<rparr>)"
    using a(1,6) l by (simp_all add: hget_update)
  then have "current_chunk c = Some ch1" unfolding current_chunk_def2 by auto
  then have ch: "ch = ch1" using assms(2) by simp
  then have ch0: "ch0 = ch_code (fn_chunk fn)" using a(4) assms(5) by simp
  show ?thesis unfolding upd_chunk_eq [OF c] gives_def grows_def
    by (rule exI, rule conjI, rule refl)
      (intro exI [of _ f] exI [of _ fs] exI [of _ ob] exI [of _ fn] exI [of _ ch'], simp add: a(1-3,5,6) assms(4,6) ch ch0)
qed

lemma chunk_patch_code:
  assumes "ch_code ch = pre @ old @ post" "length old = 2" "offset = length pre"
  shows "\<exists>ch'. chunk_patch_int16 ch offset v = Some ch' \<and> ch_code ch' = pre @ le16 v @ post \<and> ch_constants ch' = ch_constants ch"
proof -
  obtain a b where "old = [a, b]" using assms(2) by (auto simp: length_Suc_conv numeral_2_eq_2)
  then show ?thesis using assms(1,3) by (simp add: chunk_patch_int16_def set_nth_def list_update_append le16_def)
qed

lemma patch_int16:
  assumes g: "grows c0 (pre @ old @ post) c" and n: "code_count c0 = Some n" and "length old = 2" "offset = n + length pre"
    and P: "\<And>c'. grows c0 (pre @ le16 (word_of_int jump) @ post) c' \<Longrightarrow> P c'"
  shows "gives (patch_int16 c offset jump) P"
proof -
  obtain ch ch0 where ch: "current_chunk c0 = Some ch0" "current_chunk c = Some ch" "ch_code ch = ch_code ch0 @ pre @ old @ post"
    using grows_code [OF g] by blast
  have n': "n = length (ch_code ch0)" using n ch(1) by (simp add: code_count_def)
  obtain ch' where p: "chunk_patch_int16 ch offset (word_of_int jump) = Some ch'"
    "ch_code ch' = (ch_code ch0 @ pre) @ le16 (word_of_int jump) @ post" "ch_constants ch' = ch_constants ch"
    using chunk_patch_code [of ch "ch_code ch0 @ pre" old post offset "word_of_int jump"] ch(3) assms(3,4) n' by auto
  have "gives (upd_chunk (\<lambda>_. ch') c) (grows c0 (pre @ le16 (word_of_int jump) @ post))"
    by (rule grows_patch [OF g ch(2), of _ _ "ch_code ch0"]) (use p ch(3) assms(3) in simp_all)
  then show ?thesis unfolding patch_int16_def
    by (simp add: ch(2) p(1)) (rule gives_mono, assumption, rule P)
qed

text \<open>A jump that ends here, within the range of its operand.\<close>

lemma patch_jump:
  assumes g: "grows c0 bs c" and n: "code_count c0 = Some n" and bs: "bs = pre @ le16 0xFFFF @ post" and off: "offset = n + length pre"
    and small: "length post \<le> 0x7FFF"
    and P: "\<And>c'. grows c0 (pre @ le16 (of_nat (length post)) @ post) c' \<Longrightarrow> P c'"
  shows "gives (patch_jump c offset) P"
proof -
  have "code_count c = Some (n + length pre + 2 + length post)" using grows_count [OF g n] by (simp add: bs)
  then have "patch_jump c offset = patch_int16 c offset (int (length post))"
    using small by (simp add: patch_jump_def off)
  also have "gives \<dots> P"
    by (rule patch_int16 [OF g [unfolded bs] n _ off]) (simp_all add: P)
  finally show ?thesis .
qed

lemma emit_loop:
  assumes g: "grows c0 bs c" and n: "code_count c0 = Some n" and start: "start = int n + int (length pre)" and bs: "bs = pre @ body"
    and small: "length body + 3 \<le> 0x7FFF"
    and P: "\<And>c'. grows c0 (bs @ opcode_byte OP_LOOP # le16 (of_nat (length body + 3))) c' \<Longrightarrow> P c'"
  shows "gives (emit_loop c start line) P"
  unfolding emit_loop_def
proof (rule gives_bind, rule emit_op [OF g])
  fix c1 assume c1: "grows c0 (bs @ [opcode_byte OP_LOOP]) c1"
  have cnt: "code_count c1 = Some (n + length bs + 1)" using grows_count [OF c1 n] by simp
  have off: "int (n + length bs + 1) - start + 2 = int (length body + 3)" by (simp add: start bs)
  have "gives (emit_uint16 c1 (word_of_int (int (length body + 3))) line) P"
    by (rule emit_uint16 [OF c1], rule P) simp
  moreover have "\<not> 0x7FFF < int (length body + 3)" using small by simp
  ultimately show "gives (do {
      count \<leftarrow> code_count c1;
      let offset = int count - start + 2;
      let c = (if 0x7FFF < offset then compile_error c1 else c1);
      emit_uint16 c (word_of_int offset) line }) P"
    unfolding cnt Option.bind.bind_lunit Let_def off by (simp only: if_False)
qed

end
