(* ===== verification/CoreLang.thy ===== *)
theory CoreLang
  imports CompilerEmit CoreOps "HOL-Library.AList"
begin

text \<open>
  A core of the language with its meaning and its code: numbers, booleans, null, local variables, operators, short
  circuits, conditionals, assignments; \<^verbatim>\<open>let\<close>, blocks, \<^verbatim>\<open>if\<close>/\<^verbatim>\<open>else\<close> and \<^verbatim>\<open>while\<close>.  \<open>evals\<close> and \<open>execs\<close> say what a program
  means on an environment of named values, innermost first, without code, slots or stack.  \<open>expr_code\<close> and \<open>stmt_code\<close>
  say which bytes stand for it.  \<open>CompilerCode\<close> proves that the compiler emits these bytes and \<open>CodeRun\<close> that the
  machine does what the program means when it runs them.
\<close>

section \<open>Values\<close>

type_synonym env = "(string \<times> flux_value) list"

type_synonym power = "double \<Rightarrow> double \<Rightarrow> double"

fun immediate :: "flux_value \<Rightarrow> bool" where
  "immediate (VAL_OBJECT p) = False"
| "immediate _ = True"

definition truth :: "flux_value \<Rightarrow> bool option" where
  "truth v = (if immediate v then value_is_truthy [] v else None)"

text \<open>Results of operators: no value where the machine reports an error or C has no answer.\<close>

definition operand_result :: "'a option option \<Rightarrow> 'a option" where
  "operand_result r = (case r of Some (Some v) \<Rightarrow> Some v | _ \<Rightarrow> None)"

definition division_result :: "op_result \<Rightarrow> flux_value option" where
  "division_result r = (case r of Some (Inr v) \<Rightarrow> Some v | _ \<Rightarrow> None)"

definition compared :: "(double \<Rightarrow> double \<Rightarrow> bool) \<Rightarrow> (int \<Rightarrow> int \<Rightarrow> bool) \<Rightarrow> flux_value \<Rightarrow> flux_value \<Rightarrow> flux_value option" where
  "compared dop iop a b = map_option VAL_BOOL (operand_result (compare_op dop iop [] a b))"

definition equality :: "bool \<Rightarrow> flux_value \<Rightarrow> flux_value \<Rightarrow> flux_value option" where
  "equality negate a b = map_option (\<lambda>eq. VAL_BOOL (if negate then \<not> eq else eq)) (value_equal [] a b)"

section \<open>Meaning\<close>

text \<open>What the operators mean, without the tables of the compiler.\<close>

definition binary_value :: "power \<Rightarrow> token_kind \<Rightarrow> flux_value \<Rightarrow> flux_value \<Rightarrow> flux_value option" where
  "binary_value pw op a b =
     (if \<not> immediate a \<or> \<not> immediate b then None
      else case op of
        TOK_PLUS \<Rightarrow> operand_result (numeric_binop (+) dbl_add a b)
      | TOK_MINUS \<Rightarrow> operand_result (numeric_binop (-) dbl_sub a b)
      | TOK_STAR \<Rightarrow> operand_result (numeric_binop (*) dbl_mul a b)
      | TOK_SLASH \<Rightarrow> division_result (value_div a b)
      | TOK_PERCENT \<Rightarrow> division_result (value_mod a b)
      | TOK_STAR_STAR \<Rightarrow> division_result (value_pow pw a b)
      | TOK_SLASH_SLASH \<Rightarrow> division_result (value_floor_div a b)
      | TOK_AMPERSAND \<Rightarrow> operand_result (value_bit_and a b)
      | TOK_PIPE \<Rightarrow> operand_result (value_bit_or a b)
      | TOK_CARET \<Rightarrow> operand_result (value_bit_xor a b)
      | TOK_LSHIFT \<Rightarrow> operand_result (value_shl a b)
      | TOK_RSHIFT \<Rightarrow> operand_result (value_shr a b)
      | TOK_EQ \<Rightarrow> equality False a b
      | TOK_IS \<Rightarrow> equality False a b
      | TOK_NEQ \<Rightarrow> equality True a b
      | TOK_LT \<Rightarrow> compared dbl_lt (<) a b
      | TOK_LTE \<Rightarrow> compared dbl_le (\<le>) a b
      | TOK_GT \<Rightarrow> compared (\<lambda>x y. dbl_lt y x) (>) a b
      | TOK_GTE \<Rightarrow> compared (\<lambda>x y. dbl_le y x) (\<ge>) a b
      | _ \<Rightarrow> None)"

text \<open>\<^verbatim>\<open>x op= e\<close> means \<^verbatim>\<open>x = x op e\<close>.\<close>

definition aug_value :: "power \<Rightarrow> token_kind \<Rightarrow> flux_value \<Rightarrow> flux_value \<Rightarrow> flux_value option" where
  "aug_value pw op a b =
     (case op of
        TOK_PLUS_ASSIGN \<Rightarrow> binary_value pw TOK_PLUS a b
      | TOK_MINUS_ASSIGN \<Rightarrow> binary_value pw TOK_MINUS a b
      | TOK_STAR_ASSIGN \<Rightarrow> binary_value pw TOK_STAR a b
      | TOK_SLASH_ASSIGN \<Rightarrow> binary_value pw TOK_SLASH a b
      | TOK_PERCENT_ASSIGN \<Rightarrow> binary_value pw TOK_PERCENT a b
      | TOK_STAR_STAR_ASSIGN \<Rightarrow> binary_value pw TOK_STAR_STAR a b
      | TOK_SLASH_SLASH_ASSIGN \<Rightarrow> binary_value pw TOK_SLASH_SLASH a b
      | TOK_AMPERSAND_ASSIGN \<Rightarrow> binary_value pw TOK_AMPERSAND a b
      | TOK_PIPE_ASSIGN \<Rightarrow> binary_value pw TOK_PIPE a b
      | TOK_CARET_ASSIGN \<Rightarrow> binary_value pw TOK_CARET a b
      | TOK_LSHIFT_ASSIGN \<Rightarrow> binary_value pw TOK_LSHIFT a b
      | TOK_RSHIFT_ASSIGN \<Rightarrow> binary_value pw TOK_RSHIFT a b
      | _ \<Rightarrow> None)"

definition prefix_value :: "token_kind \<Rightarrow> flux_value \<Rightarrow> flux_value option" where
  "prefix_value op v =
     (if \<not> immediate v then None
      else case op of
        TOK_MINUS \<Rightarrow> operand_result (value_negate v)
      | TOK_TILDE \<Rightarrow> operand_result (value_bit_not v)
      | TOK_NOT \<Rightarrow> map_option (\<lambda>t. VAL_BOOL (\<not> t)) (truth v)
      | _ \<Rightarrow> None)"

inductive evals :: "power \<Rightarrow> env \<Rightarrow> ast \<Rightarrow> flux_value \<Rightarrow> env \<Rightarrow> bool" for pw where
  int: "evals pw s (AST_INT p i) (VAL_INT i) s"
| float: "evals pw s (AST_FLOAT p d) (VAL_FLOAT d) s"
| bool: "evals pw s (AST_BOOL p b) (VAL_BOOL b) s"
| null: "evals pw s (AST_NULL p) VAL_NULL s"
| ident: "map_of s x = Some v \<Longrightarrow> evals pw s (AST_IDENT p x) v s"
| binary: "op \<noteq> TOK_AND \<Longrightarrow> op \<noteq> TOK_OR \<Longrightarrow> evals pw s l a s1 \<Longrightarrow> evals pw s1 r b s2 \<Longrightarrow>
    binary_value pw op a b = Some v \<Longrightarrow> evals pw s (AST_BINARY p op l r) v s2"
| and_stop: "evals pw s l a s1 \<Longrightarrow> truth a = Some False \<Longrightarrow> evals pw s (AST_BINARY p TOK_AND l r) a s1"
| and_go: "evals pw s l a s1 \<Longrightarrow> truth a = Some True \<Longrightarrow> evals pw s1 r b s2 \<Longrightarrow>
    evals pw s (AST_BINARY p TOK_AND l r) b s2"
| or_stop: "evals pw s l a s1 \<Longrightarrow> truth a = Some True \<Longrightarrow> evals pw s (AST_BINARY p TOK_OR l r) a s1"
| or_go: "evals pw s l a s1 \<Longrightarrow> truth a = Some False \<Longrightarrow> evals pw s1 r b s2 \<Longrightarrow>
    evals pw s (AST_BINARY p TOK_OR l r) b s2"
| unary: "evals pw s e a s1 \<Longrightarrow> prefix_value op a = Some v \<Longrightarrow> evals pw s (AST_UNARY p op e) v s1"
| ternary_then: "evals pw s c a s1 \<Longrightarrow> truth a = Some True \<Longrightarrow> evals pw s1 t v s2 \<Longrightarrow>
    evals pw s (AST_TERNARY p c t e) v s2"
| ternary_else: "evals pw s c a s1 \<Longrightarrow> truth a = Some False \<Longrightarrow> evals pw s1 e v s2 \<Longrightarrow>
    evals pw s (AST_TERNARY p c t e) v s2"
| assign: "evals pw s e v s1 \<Longrightarrow> x \<in> fst ` set s1 \<Longrightarrow>
    evals pw s (AST_ASSIGN p (AST_IDENT q x) e) v (AList.update x v s1)"
| walrus: "evals pw s e v s1 \<Longrightarrow> x \<in> fst ` set s1 \<Longrightarrow> evals pw s (AST_WALRUS p x e) v (AList.update x v s1)"
| augmented: "map_of s x = Some a \<Longrightarrow> evals pw s e b s1 \<Longrightarrow> aug_value pw op a b = Some v \<Longrightarrow>
    evals pw s (AST_AUGMENTED_ASSIGN p (AST_IDENT q x) e op) v (AList.update x v s1)"

text \<open>The end of a scope forgets the variables declared in it.\<close>

definition leave_scope :: "env \<Rightarrow> env \<Rightarrow> env" where
  "leave_scope outer inner = drop (length inner - length outer) inner"

inductive execs :: "power \<Rightarrow> env \<Rightarrow> ast \<Rightarrow> env \<Rightarrow> bool"
  and execs_all :: "power \<Rightarrow> env \<Rightarrow> ast list \<Rightarrow> env \<Rightarrow> bool" for pw where
  pass: "execs pw s (AST_PASS p) s"
| expr: "evals pw s e v s' \<Longrightarrow> execs pw s (AST_EXPR_STMT p e) s'"
| decl: "evals pw s e v s' \<Longrightarrow> execs pw s (AST_LET_DECL p x e False) ((x, v) # s')"
| block: "execs_all pw s stmts s' \<Longrightarrow> execs pw s (AST_BLOCK p stmts) s'"
| if_then: "evals pw s c v s1 \<Longrightarrow> truth v = Some True \<Longrightarrow> execs pw s1 t s2 \<Longrightarrow>
    execs pw s (AST_IF p c t [] [] e) (leave_scope s1 s2)"
| if_skip: "evals pw s c v s1 \<Longrightarrow> truth v = Some False \<Longrightarrow> execs pw s (AST_IF p c t [] [] None) s1"
| if_else: "evals pw s c v s1 \<Longrightarrow> truth v = Some False \<Longrightarrow> execs pw s1 e s2 \<Longrightarrow>
    execs pw s (AST_IF p c t [] [] (Some e)) (leave_scope s1 s2)"
| while_end: "evals pw s c v s1 \<Longrightarrow> truth v = Some False \<Longrightarrow> execs pw s (AST_WHILE p c b) s1"
| while_turn: "evals pw s c v s1 \<Longrightarrow> truth v = Some True \<Longrightarrow> execs pw s1 b s2 \<Longrightarrow>
    execs pw (leave_scope s1 s2) (AST_WHILE p c b) s3 \<Longrightarrow> execs pw s (AST_WHILE p c b) s3"
| all_nil: "execs_all pw s [] s"
| all_cons: "execs pw s stmt s1 \<Longrightarrow> execs_all pw s1 stmts s2 \<Longrightarrow> execs_all pw s (stmt # stmts) s2"

section \<open>Opcodes\<close>

text \<open>The operator an opcode stands for; the tables of the compiler give every operator of the language the opcode
  that computes it.\<close>

definition operator_value :: "power \<Rightarrow> opcode \<Rightarrow> flux_value \<Rightarrow> flux_value \<Rightarrow> flux_value option" where
  "operator_value pw op a b =
     (if \<not> immediate a \<or> \<not> immediate b then None
      else case op of
        OP_ADD \<Rightarrow> operand_result (numeric_binop (+) dbl_add a b)
      | OP_SUB \<Rightarrow> operand_result (numeric_binop (-) dbl_sub a b)
      | OP_MUL \<Rightarrow> operand_result (numeric_binop (*) dbl_mul a b)
      | OP_DIV \<Rightarrow> division_result (value_div a b)
      | OP_MOD \<Rightarrow> division_result (value_mod a b)
      | OP_POW \<Rightarrow> division_result (value_pow pw a b)
      | OP_FLOOR_DIV \<Rightarrow> division_result (value_floor_div a b)
      | OP_BIT_AND \<Rightarrow> operand_result (value_bit_and a b)
      | OP_BIT_OR \<Rightarrow> operand_result (value_bit_or a b)
      | OP_BIT_XOR \<Rightarrow> operand_result (value_bit_xor a b)
      | OP_SHL \<Rightarrow> operand_result (value_shl a b)
      | OP_SHR \<Rightarrow> operand_result (value_shr a b)
      | OP_EQ \<Rightarrow> equality False a b
      | OP_NEQ \<Rightarrow> equality True a b
      | OP_LT \<Rightarrow> compared dbl_lt (<) a b
      | OP_LTE \<Rightarrow> compared dbl_le (\<le>) a b
      | OP_GT \<Rightarrow> compared (\<lambda>x y. dbl_lt y x) (>) a b
      | OP_GTE \<Rightarrow> compared (\<lambda>x y. dbl_le y x) (\<ge>) a b
      | _ \<Rightarrow> None)"

definition unary_value :: "opcode \<Rightarrow> flux_value \<Rightarrow> flux_value option" where
  "unary_value op v =
     (if \<not> immediate v then None
      else case op of
        OP_NEGATE \<Rightarrow> operand_result (value_negate v)
      | OP_BIT_NOT \<Rightarrow> operand_result (value_bit_not v)
      | OP_NOT \<Rightarrow> map_option (\<lambda>t. VAL_BOOL (\<not> t)) (truth v)
      | _ \<Rightarrow> None)"

lemma binary_value_code: "binary_value pw op a b = do { opc \<leftarrow> binary_opcode op; operator_value pw opc a b }"
  by (cases op) (simp_all add: binary_value_def binary_opcode_def operator_value_def)

lemma aug_value_code: "aug_value pw op a b = do { opc \<leftarrow> aug_opcode op; operator_value pw opc a b }"
  by (cases op) (simp_all add: aug_value_def binary_value_def aug_opcode_def operator_value_def)

lemma prefix_value_code: "prefix_value op v = do { opc \<leftarrow> unary_opcode op; unary_value opc v }"
  by (cases op) (simp_all add: prefix_value_def unary_opcode_def unary_value_def)

section \<open>Code\<close>

text \<open>The slot of a name: names are listed innermost first, slots count from the outermost.\<close>

fun slot_of :: "string list \<Rightarrow> string \<Rightarrow> nat option" where
  "slot_of [] x = None"
| "slot_of (y # ys) x = (if y = x then Some (length ys) else slot_of ys x)"

definition jump_code :: "opcode \<Rightarrow> nat \<Rightarrow> byte list" where
  "jump_code op n = opcode_byte op # le16 (of_nat n)"

definition slot_code :: "opcode \<Rightarrow> nat \<Rightarrow> byte list" where
  "slot_code op i = [opcode_byte op, of_nat i]"

abbreviation pop_code :: "byte list" where
  "pop_code \<equiv> [opcode_byte OP_POP]"

definition literal_code :: "flux_value \<Rightarrow> byte list" where
  "literal_code v =
     (case v of
        VAL_INT i \<Rightarrow> opcode_byte OP_PUSH_INT # le64 i
      | VAL_FLOAT d \<Rightarrow> opcode_byte OP_PUSH_FLOAT # le64 d
      | VAL_BOOL b \<Rightarrow> [opcode_byte OP_PUSH_BOOL, if b then 1 else 0]
      | _ \<Rightarrow> [opcode_byte OP_PUSH_NULL])"

definition branch_code :: "byte list \<Rightarrow> byte list \<Rightarrow> byte list \<Rightarrow> byte list" where
  "branch_code c t e =
     c @ jump_code OP_JUMP_IF_FALSE (length t + 4) @ pop_code @ t @ jump_code OP_JUMP (length e + 1) @ pop_code @ e"

definition while_code :: "byte list \<Rightarrow> byte list \<Rightarrow> byte list" where
  "while_code c b =
     c @ jump_code OP_JUMP_IF_FALSE (length b + 4) @ pop_code @ b @
       jump_code OP_LOOP (length c + length b + 7) @ pop_code"

text \<open>Operators for which folding two literals gives what the opcode gives.\<close>

definition exact_folds :: "token_kind list" where
  "exact_folds = [TOK_PLUS, TOK_MINUS, TOK_STAR, TOK_AMPERSAND, TOK_PIPE, TOK_CARET, TOK_LSHIFT, TOK_RSHIFT]"

text \<open>Literals for which folding gives what the opcode gives: all for the operators above, else integers that are not
  negative (as the parser makes them), with a divisor other than zero, and within the exact range of doubles where
  the machine goes through doubles.\<close>

fun literal_value :: "ast \<Rightarrow> flux_value option" where
  "literal_value (AST_INT p i) = Some (VAL_INT i)"
| "literal_value (AST_FLOAT p d) = Some (VAL_FLOAT d)"
| "literal_value _ = None"

definition plain_ints :: "token_kind \<Rightarrow> int64 \<Rightarrow> int64 \<Rightarrow> bool" where
  "plain_ints op x y \<longleftrightarrow> 0 \<le> sint x \<and> 0 \<le> sint y \<and> (op \<in> {TOK_SLASH, TOK_SLASH_SLASH, TOK_PERCENT} \<longrightarrow> y \<noteq> 0) \<and>
     (op \<in> {TOK_SLASH, TOK_LT, TOK_LTE, TOK_GT, TOK_GTE} \<longrightarrow> sint x < 2 ^ 53 \<and> sint y < 2 ^ 53)"

fun plain_operands :: "token_kind \<Rightarrow> flux_value option \<Rightarrow> flux_value option \<Rightarrow> bool" where
  "plain_operands op (Some (VAL_INT x)) (Some (VAL_INT y)) \<longleftrightarrow> plain_ints op x y"
| "plain_operands op _ _ \<longleftrightarrow> False"

definition exact_fold :: "token_kind \<Rightarrow> ast \<Rightarrow> ast \<Rightarrow> bool" where
  "exact_fold op l r \<longleftrightarrow> op \<in> set exact_folds \<or> plain_operands op (literal_value l) (literal_value r)"

inductive expr_code :: "power \<Rightarrow> string list \<Rightarrow> ast \<Rightarrow> byte list \<Rightarrow> bool" for pw ns where
  int: "expr_code pw ns (AST_INT p i) (literal_code (VAL_INT i))"
| float: "expr_code pw ns (AST_FLOAT p d) (literal_code (VAL_FLOAT d))"
| bool: "expr_code pw ns (AST_BOOL p b) (literal_code (VAL_BOOL b))"
| null: "expr_code pw ns (AST_NULL p) (literal_code VAL_NULL)"
| ident: "slot_of ns x = Some i \<Longrightarrow> expr_code pw ns (AST_IDENT p x) (slot_code OP_LOAD_LOCAL i)"
| folded: "exact_fold op l r \<Longrightarrow> fold_binary pw op l r = Some (Some v) \<Longrightarrow>
    expr_code pw ns (AST_BINARY p op l r) (literal_code v)"
| binary: "op \<noteq> TOK_AND \<Longrightarrow> op \<noteq> TOK_OR \<Longrightarrow> fold_binary pw op l r = Some None \<Longrightarrow> binary_opcode op = Some opc \<Longrightarrow>
    expr_code pw ns l cl \<Longrightarrow> expr_code pw ns r cr \<Longrightarrow> expr_code pw ns (AST_BINARY p op l r) (cl @ cr @ [opcode_byte opc])"
| and_also: "expr_code pw ns l cl \<Longrightarrow> expr_code pw ns r cr \<Longrightarrow>
    expr_code pw ns (AST_BINARY p TOK_AND l r) (cl @ jump_code OP_AND (length cr + 1) @ pop_code @ cr)"
| or_else: "expr_code pw ns l cl \<Longrightarrow> expr_code pw ns r cr \<Longrightarrow>
    expr_code pw ns (AST_BINARY p TOK_OR l r) (cl @ jump_code OP_OR (length cr + 1) @ pop_code @ cr)"
| unary: "unary_opcode op = Some opc \<Longrightarrow> expr_code pw ns e ce \<Longrightarrow>
    expr_code pw ns (AST_UNARY p op e) (ce @ [opcode_byte opc])"
| ternary: "expr_code pw ns c cc \<Longrightarrow> expr_code pw ns t ct \<Longrightarrow> expr_code pw ns e ce \<Longrightarrow>
    expr_code pw ns (AST_TERNARY p c t e) (branch_code cc ct ce)"
| assign: "slot_of ns x = Some i \<Longrightarrow> expr_code pw ns e ce \<Longrightarrow>
    expr_code pw ns (AST_ASSIGN p (AST_IDENT q x) e) (ce @ slot_code OP_STORE_LOCAL i)"
| walrus: "slot_of ns x = Some i \<Longrightarrow> expr_code pw ns e ce \<Longrightarrow>
    expr_code pw ns (AST_WALRUS p x e) (ce @ slot_code OP_STORE_LOCAL i)"
| augmented: "slot_of ns x = Some i \<Longrightarrow> expr_code pw ns e ce \<Longrightarrow> aug_opcode op = Some opc \<Longrightarrow>
    expr_code pw ns (AST_AUGMENTED_ASSIGN p (AST_IDENT q x) e op)
      (slot_code OP_LOAD_LOCAL i @ ce @ [opcode_byte opc] @ slot_code OP_STORE_LOCAL i)"

text \<open>The names a statement assigns.  Control flow declares the unknown ones ahead; in the core they are known.\<close>

inductive assigns_known :: "string list \<Rightarrow> ast \<Rightarrow> bool" for ns where
  "assigns_known ns (AST_INT p i)"
| "assigns_known ns (AST_FLOAT p d)"
| "assigns_known ns (AST_BOOL p b)"
| "assigns_known ns (AST_NULL p)"
| "assigns_known ns (AST_IDENT p x)"
| "assigns_known ns l \<Longrightarrow> assigns_known ns r \<Longrightarrow> assigns_known ns (AST_BINARY p op l r)"
| "assigns_known ns e \<Longrightarrow> assigns_known ns (AST_UNARY p op e)"
| "assigns_known ns c \<Longrightarrow> assigns_known ns t \<Longrightarrow> assigns_known ns e \<Longrightarrow> assigns_known ns (AST_TERNARY p c t e)"
| "x \<in> set ns \<Longrightarrow> assigns_known ns (AST_ASSIGN p (AST_IDENT q x) e)"
| "x \<in> set ns \<Longrightarrow> assigns_known ns e \<Longrightarrow> assigns_known ns (AST_WALRUS p x e)"
| "assigns_known ns (AST_AUGMENTED_ASSIGN p (AST_IDENT q x) e op)"
| "assigns_known ns (AST_PASS p)"
| "assigns_known ns e \<Longrightarrow> assigns_known ns (AST_EXPR_STMT p e)"
| "assigns_known ns (AST_LET_DECL p x e b)"
| "(\<And>stmt. stmt \<in> set stmts \<Longrightarrow> assigns_known ns stmt) \<Longrightarrow> assigns_known ns (AST_BLOCK p stmts)"
| "assigns_known ns t \<Longrightarrow> assigns_known ns (AST_IF p c t [] [] None)"
| "assigns_known ns t \<Longrightarrow> assigns_known ns e \<Longrightarrow> assigns_known ns (AST_IF p c t [] [] (Some e))"
| "assigns_known ns c \<Longrightarrow> assigns_known ns b \<Longrightarrow> assigns_known ns (AST_WHILE p c b)"

text \<open>The last argument is the list of names after the statement.\<close>

definition end_scope_code :: "string list \<Rightarrow> string list \<Rightarrow> byte list" where
  "end_scope_code outer inner = replicate (length inner - length outer) (opcode_byte OP_POP)"

inductive stmt_code :: "power \<Rightarrow> string list \<Rightarrow> ast \<Rightarrow> byte list \<Rightarrow> string list \<Rightarrow> bool"
  and stmts_code :: "power \<Rightarrow> string list \<Rightarrow> ast list \<Rightarrow> byte list \<Rightarrow> string list \<Rightarrow> bool" for pw where
  pass: "stmt_code pw ns (AST_PASS p) [] ns"
| expr: "expr_code pw ns e ce \<Longrightarrow> stmt_code pw ns (AST_EXPR_STMT p e) (ce @ pop_code) ns"
| decl: "expr_code pw ns e ce \<Longrightarrow> length ns < FLUX_MAX_LOCALS \<Longrightarrow> length x \<le> 255 \<Longrightarrow>
    stmt_code pw ns (AST_LET_DECL p x e False) ce (x # ns)"
| block: "stmts_code pw ns stmts cs ns' \<Longrightarrow> stmt_code pw ns (AST_BLOCK p stmts) cs ns'"
| if_then: "assigns_known ns t \<Longrightarrow> expr_code pw ns c cc \<Longrightarrow> stmt_code pw ns t ct ns1 \<Longrightarrow>
    stmt_code pw ns (AST_IF p c t [] [] None) (branch_code cc (ct @ end_scope_code ns ns1) []) ns"
| if_else: "assigns_known ns t \<Longrightarrow> assigns_known ns e \<Longrightarrow> expr_code pw ns c cc \<Longrightarrow> stmt_code pw ns t ct ns1 \<Longrightarrow>
    stmt_code pw ns e ce ns2 \<Longrightarrow>
    stmt_code pw ns (AST_IF p c t [] [] (Some e))
      (branch_code cc (ct @ end_scope_code ns ns1) (ce @ end_scope_code ns ns2)) ns"
| while_loop: "assigns_known ns c \<Longrightarrow> assigns_known ns b \<Longrightarrow> expr_code pw ns c cc \<Longrightarrow> stmt_code pw ns b cb ns1 \<Longrightarrow>
    stmt_code pw ns (AST_WHILE p c b) (while_code cc (cb @ end_scope_code ns ns1)) ns"
| all_nil: "stmts_code pw ns [] [] ns"
| all_cons: "stmt_code pw ns stmt cs ns1 \<Longrightarrow> stmts_code pw ns1 stmts cs' ns2 \<Longrightarrow>
    stmts_code pw ns (stmt # stmts) (cs @ cs') ns2"

lemma stmt_code_names:
  "stmt_code pw ns s bs ns' \<Longrightarrow> length ns \<le> FLUX_MAX_LOCALS \<Longrightarrow> length ns' \<le> FLUX_MAX_LOCALS"
  "stmts_code pw ns ss bs ns' \<Longrightarrow> length ns \<le> FLUX_MAX_LOCALS \<Longrightarrow> length ns' \<le> FLUX_MAX_LOCALS"
  by (induction rule: stmt_code_stmts_code.inducts) auto

lemma stmt_code_extends:
  "stmt_code pw ns a bs ns' \<Longrightarrow> \<exists>ms. ns' = ms @ ns"
  "stmts_code pw ns as bs ns' \<Longrightarrow> \<exists>ms. ns' = ms @ ns"
  by (induction rule: stmt_code_stmts_code.inducts) auto

end
