(* ===== verification/Folding.thy ===== *)
theory Folding
  imports CoreLang ArithProps
begin

text \<open>
  Constant folding and the machine: where \<open>exact_fold\<close> holds, the literal the compiler emits is the value the opcode
  computes from the two operands.
\<close>

lemma fold_immediate: "fold_binary pw op l r = Some (Some v) \<Longrightarrow> immediate v \<and> v \<noteq> VAL_NULL"
  by (auto simp: fold_binary_def fold_float_def fold_int_def fold_shift_def int_result_def Let_def bind_Some_iff split: if_splits)

lemma fold_not_short: "fold_binary pw op l r = Some (Some v) \<Longrightarrow> op \<noteq> TOK_AND \<and> op \<noteq> TOK_OR"
  by (auto simp: fold_binary_def fold_float_def fold_int_def Let_def bind_Some_iff split: if_splits)

section \<open>Operators on any operands\<close>

lemma operand_result_Some: "operand_result r = Some v \<longleftrightarrow> r = Some (Some v)"
  by (auto simp: operand_result_def split: option.splits)

lemma division_result_Some: "division_result r = Some v \<longleftrightarrow> r = Some (Inr v)"
  by (auto simp: division_result_def split: option.splits sum.splits)

lemma shift_count_small: "0 \<le> sint r \<Longrightarrow> sint r < 64 \<Longrightarrow> shift_count r = Some (nat (sint r))"
proof -
  assume r: "0 \<le> sint r" "sint r < 64"
  have "sint (ucast r :: 32 word) = signed_take_bit 31 (sint r)"
    by transfer (simp add: signed_take_bit_take_bit)
  also have "\<dots> = sint r" using r by (intro signed_take_bit_int_eq_self) simp_all
  finally show ?thesis using r by (simp add: shift_count_def int_of_int64_def Let_def)
qed

lemma exact_opcodes:
  "binary_opcode TOK_PLUS = Some OP_ADD" "binary_opcode TOK_MINUS = Some OP_SUB" "binary_opcode TOK_STAR = Some OP_MUL"
  "binary_opcode TOK_AMPERSAND = Some OP_BIT_AND" "binary_opcode TOK_PIPE = Some OP_BIT_OR"
  "binary_opcode TOK_CARET = Some OP_BIT_XOR" "binary_opcode TOK_LSHIFT = Some OP_SHL" "binary_opcode TOK_RSHIFT = Some OP_SHR"
  by (simp_all add: binary_opcode_def)

lemma fold_exact_int_simps:
  "fold_int TOK_PLUS x y = int_result (sint x + sint y)" "fold_int TOK_MINUS x y = int_result (sint x - sint y)"
  "fold_int TOK_STAR x y = int_result (sint x * sint y)" "fold_int TOK_AMPERSAND x y = Some (Some (VAL_INT (x AND y)))"
  "fold_int TOK_PIPE x y = Some (Some (VAL_INT (x OR y)))" "fold_int TOK_CARET x y = Some (Some (VAL_INT (x XOR y)))"
  "fold_int TOK_LSHIFT x y = fold_shift shift_left x y"
  "fold_int TOK_RSHIFT x y = fold_shift (\<lambda>n x. Some (signed_drop_bit n x)) x y"
  by (simp_all add: fold_int_def)

lemma fold_exact_float_simps:
  "fold_float pw TOK_PLUS x y = Some (Some (VAL_FLOAT (dbl_add x y)))" "fold_float pw TOK_MINUS x y = Some (Some (VAL_FLOAT (dbl_sub x y)))"
  "fold_float pw TOK_STAR x y = Some (Some (VAL_FLOAT (dbl_mul x y)))" "fold_float pw TOK_AMPERSAND x y = Some None"
  "fold_float pw TOK_PIPE x y = Some None" "fold_float pw TOK_CARET x y = Some None"
  "fold_float pw TOK_LSHIFT x y = Some None" "fold_float pw TOK_RSHIFT x y = Some None"
  by (simp_all add: fold_float_def)

lemma exact_foldsE:
  assumes "op \<in> set exact_folds"
    and "op = TOK_PLUS \<Longrightarrow> P" "op = TOK_MINUS \<Longrightarrow> P" "op = TOK_STAR \<Longrightarrow> P" "op = TOK_AMPERSAND \<Longrightarrow> P" "op = TOK_PIPE \<Longrightarrow> P"
    "op = TOK_CARET \<Longrightarrow> P" "op = TOK_LSHIFT \<Longrightarrow> P" "op = TOK_RSHIFT \<Longrightarrow> P"
  shows P
  using assms by (auto simp: exact_folds_def)

lemmas exact_value_defs = binary_value_code exact_opcodes operator_value_def operand_result_Some numeric_binop_def value_is_number_def
  value_bit_and_def value_bit_or_def value_bit_xor_def value_shl_def value_shr_def int_binop_def

lemma fold_exact_ints:
  assumes "op \<in> set exact_folds" "fold_int op x y = Some (Some v)"
  shows "binary_value pw op (VAL_INT x) (VAL_INT y) = Some v"
  by (rule exact_foldsE [OF assms(1)])
    (use assms(2) in \<open>auto simp: exact_value_defs fold_exact_int_simps fold_shift_def shift_count_small split: if_splits\<close>)

lemma fold_exact_floats:
  assumes "op \<in> set exact_folds" "fold_float pw op x y = Some (Some v)"
    and "value_to_double a = Some x" "value_to_double b = Some y" "value_is_number a" "value_is_number b"
    "value_is_float a \<or> value_is_float b"
  shows "binary_value pw op a b = Some v"
  by (rule exact_foldsE [OF assms(1)]; cases a; cases b)
    (use assms(2-) in \<open>auto simp: exact_value_defs fold_exact_float_simps\<close>)

lemma literal_cases:
  "is_int_literal e \<or> is_float_literal e \<Longrightarrow> (\<And>p i. e = AST_INT p i \<Longrightarrow> P) \<Longrightarrow> (\<And>p d. e = AST_FLOAT p d \<Longrightarrow> P) \<Longrightarrow> P"
  by (cases e) auto

lemma fold_exact_any:
  assumes "op \<in> set exact_folds" "fold_binary pw op l r = Some (Some v)"
  shows "\<exists>a b. literal_value l = Some a \<and> literal_value r = Some b \<and> binary_value pw op a b = Some v"
proof -
  have slash: "op \<noteq> TOK_SLASH" by (rule exact_foldsE [OF assms(1)]) simp_all
  have "is_int_literal l \<or> is_float_literal l" "is_int_literal r \<or> is_float_literal r"
    using assms(2) by (auto simp: fold_binary_def split: if_splits)
  then show ?thesis using assms slash
    by (elim literal_cases)
      (auto simp: fold_binary_def bind_Some_iff value_is_number_def intro: fold_exact_ints fold_exact_floats)
qed

section \<open>Operators on integers\<close>

lemma fold_pow_exact: "fold_pow n b acc = Some r \<Longrightarrow> sint r = sint acc * sint b ^ n"
proof (induction n b acc rule: fold_pow.induct)
  case (1 n b acc)
  show ?case
  proof (cases "n = 0")
    case True
    then show ?thesis using 1(2) by (simp add: fold_pow.simps)
  next
    case False
    obtain acc' b' where s: "(if odd n then int64_range (sint acc * sint b) else Some acc) = Some acc'"
      "int64_range (sint b * sint b) = Some b'" "fold_pow (n div 2) b' acc' = Some r"
      using 1(2) False by (subst (asm) fold_pow.simps) (auto simp: bind_Some_iff)
    have r: "sint r = sint acc' * sint b' ^ (n div 2)" by (rule 1(1) [OF False s(1,2,3)])
    have b': "sint b' = sint b * sint b" using s(2) by (simp add: int64_range_sint)
    have "sint acc' = sint acc * sint b ^ (n mod 2)" using s(1) by (auto simp: int64_range_sint odd_iff_mod_2_eq_one split: if_splits)
    then have "sint r = sint acc * (sint b ^ (n mod 2) * (sint b * sint b) ^ (n div 2))" by (simp add: r b' mult.assoc)
    also have "(sint b * sint b) ^ (n div 2) = sint b ^ (2 * (n div 2))" by (simp add: power_mult power2_eq_square)
    finally show ?thesis by (simp add: power_add [symmetric])
  qed
qed

lemma fold_pow_loop: "fold_pow n b 1 = Some r \<Longrightarrow> int_pow_loop n b 1 = Some r"
  using fold_pow_exact [of n b 1 r] by (simp add: int_pow_loop_exact flip: int64_range_word)

lemma dbl_is_zero_units: "dbl_is_zero d \<Longrightarrow> dbl_units d = 0"
  by (simp add: dbl_is_zero_def dbl_units_def dbl_magnitude_def)

lemma dbl_of_int_nonzero: "y \<noteq> 0 \<Longrightarrow> \<bar>y\<bar> < 2 ^ 53 \<Longrightarrow> \<not> dbl_is_zero (dbl_of_int y)"
  using dbl_of_int_exact(1) [of y] dbl_is_zero_units [of "dbl_of_int y"] by auto

lemma fold_floor_div:
  assumes "0 \<le> sint x" "0 \<le> sint y" "y \<noteq> 0" "int_result (c_div (sint x) (sint y)) = Some (Some v)"
  shows "value_floor_div (VAL_INT x) (VAL_INT y) = Some (Inr v)"
proof -
  have y: "sint y \<noteq> 0" using assms(3) by (simp add: sint_zero_iff)
  obtain q where q: "int64_range (c_div (sint x) (sint y)) = Some q" "v = VAL_INT q" using assms(4) by (auto simp: int_result_def)
  have pos: "0 \<le> c_mod (sint x) (sint y)" using assms(1) y pos_mod_sign [of "\<bar>sint y\<bar>" "sint x"] by (simp add: c_mod_abs [OF y] sgn_if)
  moreover have "c_mod (sint x) (sint y) < 2 ^ 63" using c_mod_bound [OF y, of "sint x"] sint_bounds(2) [of y] assms(2) pos by linarith
  ultimately obtain r where r: "int64_range (c_mod (sint x) (sint y)) = Some r" "sint r = c_mod (sint x) (sint y)"
    using int64_range_of [of "c_mod (sint x) (sint y)"] by force
  have "\<not> sint (r XOR y) < 0" using pos assms(2) r(2) by (simp add: sint_xor_neg)
  then show ?thesis using q r(1) assms(3) by (simp add: value_floor_div_def)
qed

lemma other_opcodes:
  "binary_opcode TOK_SLASH = Some OP_DIV" "binary_opcode TOK_SLASH_SLASH = Some OP_FLOOR_DIV" "binary_opcode TOK_PERCENT = Some OP_MOD"
  "binary_opcode TOK_STAR_STAR = Some OP_POW" "binary_opcode TOK_EQ = Some OP_EQ" "binary_opcode TOK_IS = Some OP_EQ"
  "binary_opcode TOK_NEQ = Some OP_NEQ" "binary_opcode TOK_LT = Some OP_LT" "binary_opcode TOK_LTE = Some OP_LTE"
  "binary_opcode TOK_GT = Some OP_GT" "binary_opcode TOK_GTE = Some OP_GTE"
  by (simp_all add: binary_opcode_def)

lemma fold_other_simps:
  "fold_int TOK_SLASH_SLASH x y = (if y = 0 then Some (Some (VAL_INT 0)) else int_result (c_div (sint x) (sint y)))"
  "fold_int TOK_PERCENT x y = (if y = 0 then Some (Some (VAL_INT 0))
     else do { _ \<leftarrow> int64_range (c_div (sint x) (sint y)); int_result (c_mod (sint x) (sint y)) })"
  "fold_int TOK_STAR_STAR x y = (if sint y < 0 then Some None else do { r \<leftarrow> fold_pow (nat (sint y)) x 1; Some (Some (VAL_INT r)) })"
  "fold_int TOK_EQ x y = Some (Some (VAL_BOOL (x = y)))" "fold_int TOK_IS x y = Some (Some (VAL_BOOL (x = y)))"
  "fold_int TOK_NEQ x y = Some (Some (VAL_BOOL (x \<noteq> y)))"
  "fold_int TOK_LT x y = Some (Some (VAL_BOOL (sint x < sint y)))" "fold_int TOK_LTE x y = Some (Some (VAL_BOOL (sint x \<le> sint y)))"
  "fold_int TOK_GT x y = Some (Some (VAL_BOOL (sint y < sint x)))" "fold_int TOK_GTE x y = Some (Some (VAL_BOOL (sint y \<le> sint x)))"
  "fold_float pw TOK_SLASH lf rf = Some (Some (VAL_FLOAT (if dbl_is_zero rf then dbl_zero False else dbl_div lf rf)))"
  by (simp_all add: fold_int_def fold_float_def)

lemma fold_intE:
  assumes "fold_int op x y = Some (Some v)"
    and "op \<in> set exact_folds \<Longrightarrow> P" "op = TOK_SLASH_SLASH \<Longrightarrow> P" "op = TOK_PERCENT \<Longrightarrow> P" "op = TOK_STAR_STAR \<Longrightarrow> P" "op = TOK_EQ \<Longrightarrow> P"
    "op = TOK_IS \<Longrightarrow> P" "op = TOK_NEQ \<Longrightarrow> P" "op = TOK_LT \<Longrightarrow> P" "op = TOK_LTE \<Longrightarrow> P" "op = TOK_GT \<Longrightarrow> P" "op = TOK_GTE \<Longrightarrow> P"
  shows P
  using assms by (auto simp: fold_int_def exact_folds_def Let_def split: if_splits)

lemma fold_ints:
  assumes "plain_ints op x y" "fold_int op x y = Some (Some v)"
  shows "binary_value pw op (VAL_INT x) (VAL_INT y) = Some v"
proof (rule fold_intE [OF assms(2)])
  show "op \<in> set exact_folds \<Longrightarrow> ?thesis" using fold_exact_ints assms(2) by blast
  show "op = TOK_SLASH_SLASH \<Longrightarrow> ?thesis" using assms fold_floor_div [of x y v]
    by (simp add: plain_ints_def fold_other_simps binary_value_code other_opcodes operator_value_def division_result_Some)
  show "op = TOK_PERCENT \<Longrightarrow> ?thesis" using assms
    by (auto simp: plain_ints_def fold_other_simps binary_value_code other_opcodes operator_value_def division_result_Some
        value_mod_def bind_Some_iff int_result_def)
  show "op = TOK_STAR_STAR \<Longrightarrow> ?thesis" using assms
    by (auto simp: plain_ints_def fold_other_simps binary_value_code other_opcodes operator_value_def division_result_Some
        value_pow_def bind_Some_iff dest: fold_pow_loop)
  show "op = TOK_EQ \<Longrightarrow> ?thesis" "op = TOK_IS \<Longrightarrow> ?thesis" "op = TOK_NEQ \<Longrightarrow> ?thesis" using assms(2)
    by (auto simp: fold_other_simps binary_value_code other_opcodes operator_value_def equality_def value_equal_def value_equal_depth.simps)
  have cmp: "op \<in> {TOK_LT, TOK_LTE, TOK_GT, TOK_GTE} \<Longrightarrow> \<bar>sint x\<bar> < 2 ^ 53 \<and> \<bar>sint y\<bar> < 2 ^ 53"
    using assms(1) by (auto simp: plain_ints_def)
  show "op = TOK_LT \<Longrightarrow> ?thesis" "op = TOK_LTE \<Longrightarrow> ?thesis" "op = TOK_GT \<Longrightarrow> ?thesis" "op = TOK_GTE \<Longrightarrow> ?thesis" using assms(2) cmp
    by (simp_all add: fold_other_simps binary_value_code other_opcodes operator_value_def compared_def compare_op_int
        operand_result_def dbl_cmp_of_int_exact)
qed

lemma literal_value_int: "literal_value e = Some (VAL_INT x) \<Longrightarrow> \<exists>p. e = AST_INT p x"
  by (cases e) auto

lemma fold_exact:
  assumes "exact_fold op l r" "fold_binary pw op l r = Some (Some v)"
  shows "\<exists>a b. literal_value l = Some a \<and> literal_value r = Some b \<and> binary_value pw op a b = Some v"
proof (cases "op \<in> set exact_folds")
  case True
  then show ?thesis using fold_exact_any assms(2) by blast
next
  case False
  obtain x y where xy: "literal_value l = Some (VAL_INT x)" "literal_value r = Some (VAL_INT y)" "plain_ints op x y"
    using assms(1) False unfolding exact_fold_def by (auto elim!: plain_operands.elims)
  obtain p q where lr: "l = AST_INT p x" "r = AST_INT q y" using literal_value_int xy(1,2) by blast
  have "binary_value pw op (VAL_INT x) (VAL_INT y) = Some v"
  proof (cases "op = TOK_SLASH")
    case True
    then have "\<not> dbl_is_zero (dbl_of_int (sint y))" "y \<noteq> 0"
      using xy(3) dbl_of_int_nonzero [of "sint y"] by (auto simp: plain_ints_def sint_zero_iff)
    then show ?thesis using assms(2) True
      by (simp add: lr fold_binary_def fold_other_simps binary_value_code other_opcodes operator_value_def value_div_def division_result_def)
  next
    case False
    then have "fold_int op x y = Some (Some v)" using assms(2) by (simp add: lr fold_binary_def)
    then show ?thesis by (rule fold_ints [OF xy(3)])
  qed
  then show ?thesis using xy(1,2) by blast
qed

end
