(* ===== verification/CompilerCode.thy ===== *)
theory CompilerCode
  imports Folding
begin

text \<open>
  The compiler emits the code of \<open>CoreLang\<close>: for a program of the core whose code is within the range of a jump,
  \<^verbatim>\<open>compile_expr\<close> and \<^verbatim>\<open>compile_node\<close> return, report nothing and append exactly these bytes.
\<close>

section \<open>Scopes\<close>

text \<open>The current frame declares the names \<open>ns\<close>, innermost first, none of them constant or nonlocal.\<close>

definition in_scope :: "string list \<Rightarrow> compiler \<Rightarrow> bool" where
  "in_scope ns c \<longleftrightarrow>
     (\<exists>f fs. cp_frames c = f # fs \<and> map lo_name (cf_locals f) = rev ns \<and> cf_nonlocals f = [] \<and> 0 < cf_scope_depth f \<and>
        (\<forall>l \<in> set (cf_locals f). \<not> lo_is_const l \<and> lo_depth l \<le> cf_scope_depth f) \<and> length ns \<le> FLUX_MAX_LOCALS) \<and>
     \<not> cp_had_error c"

lemma in_scope_grows: "grows c bs c' \<Longrightarrow> in_scope ns c' \<longleftrightarrow> in_scope ns c"
  by (simp add: in_scope_def grows_keeps)

lemma find_last:
  "find (\<lambda>i. f (xs @ [x]) i) (rev [0 ..< Suc n]) = (if f (xs @ [x]) n then Some n else find (\<lambda>i. f (xs @ [x]) i) (rev [0 ..< n]))"
  by simp

lemma find_cong: "(\<And>x. x \<in> set xs \<Longrightarrow> P x = Q x) \<Longrightarrow> find P xs = find Q xs"
  by (induction xs) auto

lemma slot_of_find: "find (\<lambda>i. rev ns ! i = x) (rev [0 ..< length ns]) = slot_of ns x"
proof (induction ns)
  case (Cons y ys)
  have "find (\<lambda>i. rev (y # ys) ! i = x) (rev [0 ..< length ys]) = find (\<lambda>i. rev ys ! i = x) (rev [0 ..< length ys])"
    by (rule find_cong) (simp add: nth_append)
  then show ?case using Cons by (simp add: nth_append)
qed simp

lemma slot_of_less: "slot_of ns x = Some i \<Longrightarrow> i < length ns"
  by (induction ns) (auto split: if_splits)

lemma slot_of_known: "x \<in> set ns \<Longrightarrow> \<exists>i. slot_of ns x = Some i"
  by (induction ns) auto

lemma resolve_local_slot: "map lo_name (cf_locals f) = rev ns \<Longrightarrow> resolve_local f x = slot_of ns x"
proof -
  assume ns: "map lo_name (cf_locals f) = rev ns"
  then have len: "length (cf_locals f) = length ns" by (metis length_map length_rev)
  have "find (\<lambda>i. lo_name (cf_locals f ! i) = x) (rev [0 ..< length ns]) = find (\<lambda>i. rev ns ! i = x) (rev [0 ..< length ns])"
    by (rule find_cong) (use len in \<open>simp add: ns [symmetric]\<close>)
  then show ?thesis by (simp add: resolve_local_def len slot_of_find)
qed

lemma in_scopeE:
  assumes "in_scope ns c"
  obtains f fs where "cur_frame c = Some f" "cp_frames c = f # fs" "\<And>x. resolve_local f x = slot_of ns x" "cf_nonlocals f = []"
    "0 < cf_scope_depth f" "\<And>i. i < length ns \<Longrightarrow> \<not> local_is_const f i" "\<And>name. \<not> frame_is_nonlocal f name"
proof -
  obtain f fs where f: "cp_frames c = f # fs" "map lo_name (cf_locals f) = rev ns" "cf_nonlocals f = []" "0 < cf_scope_depth f"
    "\<forall>l \<in> set (cf_locals f). \<not> lo_is_const l" using assms by (auto simp: in_scope_def)
  have "length (cf_locals f) = length ns" using f(2) by (metis length_map length_rev)
  then have "\<not> local_is_const f i" if "i < length ns" for i using f(5) that by (simp add: local_is_const_def)
  then show ?thesis
    by (intro that [of f fs]) (simp_all add: f cur_frame_def resolve_local_slot frame_is_nonlocal_def)
qed

section \<open>Variables\<close>

lemma emit_slot: "grows c0 bs c \<Longrightarrow> (\<And>c'. grows c0 (bs @ slot_code op i) c' \<Longrightarrow> P c') \<Longrightarrow> gives (emit_op_byte c op (of_nat i) line) P"
  unfolding slot_code_def by (rule emit_op_byte)

lemma emit_load_slot:
  assumes "in_scope ns c" "slot_of ns x = Some i" "grows c0 bs c" "\<And>c'. grows c0 (bs @ slot_code OP_LOAD_LOCAL i) c' \<Longrightarrow> P c'"
  shows "gives (emit_load_var c x line) P"
  using assms(1)
proof (rule in_scopeE)
  fix f fs assume "cur_frame c = Some f" "\<And>x. resolve_local f x = slot_of ns x"
  then show ?thesis using assms(2) by (simp add: emit_load_var_def emit_access_def) (rule emit_slot [OF assms(3,4)])
qed

lemma emit_store_slot:
  assumes "in_scope ns c" "slot_of ns x = Some i" "grows c0 bs c" "\<And>c'. grows c0 (bs @ slot_code OP_STORE_LOCAL i) c' \<Longrightarrow> P c'"
  shows "gives (emit_store_var c x line) P"
  using assms(1)
proof (rule in_scopeE)
  fix f fs assume "cur_frame c = Some f" "\<And>x. resolve_local f x = slot_of ns x"
  then show ?thesis using assms(2) by (simp add: emit_store_var_def emit_access_def) (rule emit_slot [OF assms(3,4)])
qed

lemma known_resolved:
  assumes "in_scope ns c" "slot_of ns x = Some i"
  shows "unresolved c x = Some (False, c)" "predeclare_name c x line = Some c" "\<not> var_is_const c x"
    "store_existing c x line = emit_store_var c x line" "assign_name c x line = emit_store_var c x line"
    "walrus_name c x line = emit_store_var c x line"
proof -
  obtain f fs where f: "cur_frame c = Some f" "cp_frames c = f # fs" "resolve_local f x = Some i" "0 < cf_scope_depth f"
    "\<not> local_is_const f i" "\<not> frame_is_nonlocal f x"
    using in_scopeE [OF assms(1)] assms(2) slot_of_less [OF assms(2)] by metis
  show u: "unresolved c x = Some (False, c)" using f(1,3) by (simp add: unresolved_def)
  show "predeclare_name c x line = Some c" using f(1,6) u by (simp add: predeclare_name_def)
  show "\<not> var_is_const c x" using f(2,3,5) by (simp add: var_is_const_def const_from_def)
  show e: "store_existing c x line = emit_store_var c x line"
    using f by (simp add: store_existing_def store_unless_def)
  show "assign_name c x line = emit_store_var c x line" using f u e by (simp add: assign_name_def)
  show "walrus_name c x line = emit_store_var c x line" using f u e by (simp add: walrus_name_def)
qed

section \<open>Expressions\<close>

text \<open>With enough depth of recursion, the compiler appends \<open>bs\<close> for the expression \<open>e\<close>.\<close>

definition compiles_to :: "nat \<Rightarrow> power \<Rightarrow> string list \<Rightarrow> ast \<Rightarrow> byte list \<Rightarrow> bool" where
  "compiles_to n pw ns e bs \<longleftrightarrow>
     (\<forall>c0 pre c. grows c0 pre c \<longrightarrow> in_scope ns c \<longrightarrow> gives (cc_expr (calls_to n pw) c e) (grows c0 (pre @ bs)))"

lemma compiles_toD:
  "compiles_to n pw ns e bs \<Longrightarrow> grows c0 pre c \<Longrightarrow> in_scope ns c \<Longrightarrow> (\<And>c'. grows c0 (pre @ bs) c' \<Longrightarrow> in_scope ns c' \<Longrightarrow> P c') \<Longrightarrow>
    gives (cc_expr (calls_to n pw) c e) P"
  unfolding compiles_to_def using in_scope_grows [of c0 pre c ns] in_scope_grows [of c0 "pre @ bs" _ ns]
  by (blast intro: gives_mono)

definition eventually_compiles :: "power \<Rightarrow> string list \<Rightarrow> ast \<Rightarrow> byte list \<Rightarrow> bool" where
  "eventually_compiles pw ns e bs \<longleftrightarrow> (\<exists>N. \<forall>n \<ge> N. compiles_to n pw ns e bs)"

lemma calls_to_simps:
  "cc_expr (calls_to (Suc n) pw) = compile_expr (calls_to n pw)"
  "cc_node (calls_to (Suc n) pw) = compile_node (calls_to n pw)"
  "cc_predeclare (calls_to (Suc n) pw) = predeclare_case (calls_to n pw)"
  "cc_pow (calls_to n pw) = pw"
  by (simp_all add: Let_def) (cases n; simp add: Let_def)

declare calls_to.simps(2) [simp del]

lemma compiles_toI:
  assumes "\<And>c0 pre c. grows c0 pre c \<Longrightarrow> in_scope ns c \<Longrightarrow> gives (expr_case (calls_to n pw) c e) (grows c0 (pre @ bs))"
  shows "compiles_to (Suc n) pw ns e bs"
  unfolding compiles_to_def using assms by (simp add: calls_to_simps compile_expr_def in_scope_def)

lemma eventually_compiles0:
  assumes "\<And>n c0 pre c. grows c0 pre c \<Longrightarrow> in_scope ns c \<Longrightarrow> gives (expr_case (calls_to n pw) c e) (grows c0 (pre @ bs))"
  shows "eventually_compiles pw ns e bs"
  unfolding eventually_compiles_def
proof (intro exI allI impI)
  fix n :: nat assume "1 \<le> n"
  then obtain m where "n = Suc m" by (cases n) auto
  then show "compiles_to n pw ns e bs" using assms by (auto intro: compiles_toI)
qed

lemma eventually_compiles1:
  assumes "eventually_compiles pw ns a ca"
    and "\<And>n c0 pre c. compiles_to n pw ns a ca \<Longrightarrow> grows c0 pre c \<Longrightarrow> in_scope ns c \<Longrightarrow>
      gives (expr_case (calls_to n pw) c e) (grows c0 (pre @ bs))"
  shows "eventually_compiles pw ns e bs"
proof -
  obtain N where N: "\<And>n. N \<le> n \<Longrightarrow> compiles_to n pw ns a ca" using assms(1) by (auto simp: eventually_compiles_def)
  show ?thesis unfolding eventually_compiles_def
  proof (intro exI allI impI)
    fix n assume "Suc N \<le> n"
    then obtain m where m: "n = Suc m" "N \<le> m" by (cases n) auto
    then show "compiles_to n pw ns e bs" using assms(2) [OF N [OF m(2)]] by (auto intro: compiles_toI)
  qed
qed

lemma eventually_compiles2:
  assumes "eventually_compiles pw ns a ca" "eventually_compiles pw ns b cb"
    and "\<And>n c0 pre c. compiles_to n pw ns a ca \<Longrightarrow> compiles_to n pw ns b cb \<Longrightarrow> grows c0 pre c \<Longrightarrow> in_scope ns c \<Longrightarrow>
      gives (expr_case (calls_to n pw) c e) (grows c0 (pre @ bs))"
  shows "eventually_compiles pw ns e bs"
proof -
  obtain N M where "\<And>n. N \<le> n \<Longrightarrow> compiles_to n pw ns a ca" "\<And>n. M \<le> n \<Longrightarrow> compiles_to n pw ns b cb"
    using assms(1,2) unfolding eventually_compiles_def by metis
  then have NM: "\<And>n. max N M \<le> n \<Longrightarrow> compiles_to n pw ns a ca \<and> compiles_to n pw ns b cb" by simp
  show ?thesis unfolding eventually_compiles_def
  proof (intro exI allI impI)
    fix n assume "Suc (max N M) \<le> n"
    then obtain m where m: "n = Suc m" "max N M \<le> m" by (cases n) auto
    then show "compiles_to n pw ns e bs" using assms(3) NM [OF m(2)] by (auto intro: compiles_toI)
  qed
qed

lemma literal_compiles:
  assumes "grows c0 pre c" "immediate v" "v \<noteq> VAL_NULL"
  shows "gives (emit_folded c v line) (grows c0 (pre @ literal_code v))"
  using assms(2,3)
  by (cases v) (auto simp: emit_folded_def literal_code_def emit_int_def emit_float_def emit_bool_def intro!: emit assms(1))

lemma code_count_open: "chunk_open c \<Longrightarrow> \<exists>n. code_count c = Some n"
  by (auto simp: chunk_open_def code_count_def)

lemma grows_start: "grows c0 bs c \<Longrightarrow> \<exists>n. code_count c0 = Some n"
  by (rule code_count_open, rule grows_chunk_open(2))

lemma short_circuit_compiles:
  assumes l: "compiles_to n pw ns l cl" and r: "compiles_to n pw ns r cr" and g: "grows c0 pre c" and s: "in_scope ns c"
    and small: "length cr + 1 \<le> 0x7FFF"
  shows "gives (compile_short_circuit (calls_to n pw) op c l r line)
    (grows c0 (pre @ cl @ jump_code op (length cr + 1) @ pop_code @ cr))"
proof -
  obtain m where m: "code_count c0 = Some m" using grows_start [OF g] by blast
  show ?thesis unfolding compile_short_circuit_def
  proof (rule gives_bind, rule compiles_toD [OF l g s], rule gives_bind, rule emit_jump, assumption, rule m,
      simp only: prod.case, rule gives_bind, rule emit_op, assumption, rule gives_bind)
    fix c1 c2 c3
    assume s1: "in_scope ns c1"
      and g1: "grows c0 (pre @ cl) c1" and g2: "grows c0 ((pre @ cl) @ opcode_byte op # le16 0xFFFF) c2"
      and g3: "grows c0 (((pre @ cl) @ opcode_byte op # le16 0xFFFF) @ [opcode_byte OP_POP]) c3"
    have s3: "in_scope ns c3" using s1 g1 g3 by (simp add: in_scope_def grows_keeps)
    show "gives (cc_expr (calls_to n pw) c3 r) (\<lambda>c. gives (patch_jump c (m + length (pre @ cl) + 1))
        (grows c0 (pre @ cl @ jump_code op (length cr + 1) @ pop_code @ cr)))"
      by (rule compiles_toD [OF r g3 s3], rule patch_jump [where pre = "(pre @ cl) @ [opcode_byte op]" and post = "pop_code @ cr"])
        (use m small in \<open>auto simp: jump_code_def\<close>)
  qed
qed


lemma branch_compiles:
  assumes c: "\<And>c0 pre c P. grows c0 pre c \<Longrightarrow> in_scope ns c \<Longrightarrow> (\<And>c'. grows c0 (pre @ cc) c' \<Longrightarrow> in_scope ns c' \<Longrightarrow> P c') \<Longrightarrow> gives (fc c) P"
    and t: "\<And>c0 pre c P. grows c0 pre c \<Longrightarrow> in_scope ns c \<Longrightarrow> (\<And>c'. grows c0 (pre @ ct) c' \<Longrightarrow> in_scope ns c' \<Longrightarrow> P c') \<Longrightarrow> gives (ft c) P"
    and e: "\<And>c0 pre c P. grows c0 pre c \<Longrightarrow> in_scope ns c \<Longrightarrow> (\<And>c'. grows c0 (pre @ ce) c' \<Longrightarrow> in_scope ns c' \<Longrightarrow> P c') \<Longrightarrow> gives (fe c) P"
    and g: "grows c0 pre c" and s: "in_scope ns c" and small: "length ct + 4 \<le> 0x7FFF" "length ce + 1 \<le> 0x7FFF"
  shows "gives (do {
     c \<leftarrow> fc c;
     (else_jump, c) \<leftarrow> emit_jump c OP_JUMP_IF_FALSE line;
     c \<leftarrow> emit_op c OP_POP line;
     c \<leftarrow> ft c;
     (end_jump, c) \<leftarrow> emit_jump c OP_JUMP line;
     c \<leftarrow> patch_jump c else_jump;
     c \<leftarrow> emit_op c OP_POP line;
     c \<leftarrow> fe c;
     patch_jump c end_jump
   }) (grows c0 (pre @ branch_code cc ct ce))"
proof -
  obtain m where m: "code_count c0 = Some m" using grows_start [OF g] by blast
  have sc: "in_scope ns c'" if "grows c0 bs c'" for bs c' using in_scope_grows [OF g] in_scope_grows [OF that] s by blast
  show ?thesis
  proof (rule gives_bind, rule c [OF g s], rule gives_bind, rule emit_jump, assumption, rule m,
      simp only: prod.case, rule gives_bind, rule emit_op, assumption, rule gives_bind)
    fix c1 c2 c3
    assume "grows c0 ((((pre @ cc) @ opcode_byte OP_JUMP_IF_FALSE # le16 0xFFFF)) @ [opcode_byte OP_POP]) c3"
    then have g3: "grows c0 (pre @ cc @ opcode_byte OP_JUMP_IF_FALSE # le16 0xFFFF @ pop_code) c3" by simp
    show "gives (ft c3) (\<lambda>c. gives (do {
        (end_jump, c) \<leftarrow> emit_jump c OP_JUMP line;
        c \<leftarrow> patch_jump c (m + length (pre @ cc) + 1);
        c \<leftarrow> emit_op c OP_POP line;
        c \<leftarrow> fe c;
        patch_jump c end_jump }) (grows c0 (pre @ branch_code cc ct ce)))"
    proof (rule t [OF g3 sc [OF g3]], rule gives_bind, rule emit_jump, assumption, rule m, simp only: prod.case, rule gives_bind)
      fix c4 c5
      assume g5: "grows c0 (((pre @ cc @ opcode_byte OP_JUMP_IF_FALSE # le16 0xFFFF @ pop_code) @ ct) @ opcode_byte OP_JUMP # le16 0xFFFF) c5"
      let ?pre = "pre @ cc @ jump_code OP_JUMP_IF_FALSE (length ct + 4) @ pop_code @ ct @ [opcode_byte OP_JUMP]"
      have len: "length ((pre @ cc @ opcode_byte OP_JUMP_IF_FALSE # le16 0xFFFF @ pop_code) @ ct) + 1 = length ?pre" by (simp add: jump_code_def)
      show "gives (patch_jump c5 (m + length (pre @ cc) + 1)) (\<lambda>c. gives (do {
          c \<leftarrow> emit_op c OP_POP line;
          c \<leftarrow> fe c;
          patch_jump c (m + length ((pre @ cc @ opcode_byte OP_JUMP_IF_FALSE # le16 0xFFFF @ pop_code) @ ct) + 1)
        }) (grows c0 (pre @ branch_code cc ct ce)))"
      proof (rule patch_jump [OF g5 m, where pre = "pre @ cc @ [opcode_byte OP_JUMP_IF_FALSE]" and post = "pop_code @ ct @ opcode_byte OP_JUMP # le16 0xFFFF"])
        fix c6
        assume "grows c0 ((pre @ cc @ [opcode_byte OP_JUMP_IF_FALSE]) @ le16 (of_nat (length (pop_code @ ct @ opcode_byte OP_JUMP # le16 0xFFFF))) @
          pop_code @ ct @ opcode_byte OP_JUMP # le16 0xFFFF) c6"
        then have g6: "grows c0 (?pre @ le16 0xFFFF) c6" by (simp add: jump_code_def ac_simps)
        show "gives (do {
            c \<leftarrow> emit_op c6 OP_POP line;
            c \<leftarrow> fe c;
            patch_jump c (m + length ((pre @ cc @ opcode_byte OP_JUMP_IF_FALSE # le16 0xFFFF @ pop_code) @ ct) + 1)
          }) (grows c0 (pre @ branch_code cc ct ce))"
          by (rule gives_bind, rule emit_op [OF g6], rule gives_bind, rule e, assumption, erule sc,
              rule patch_jump [where pre = ?pre and post = "pop_code @ ce"])
            (use m small len in \<open>auto simp: jump_code_def branch_code_def\<close>)
      qed (use small in auto)
    qed
  qed
qed

lemma compile_core_expr:
  assumes "expr_code pw ns e bs" "length bs \<le> 0x7FFF"
  shows "eventually_compiles pw ns e bs"
  using assms
proof (induction rule: expr_code.induct)
  case (int p i)
  show ?case by (rule eventually_compiles0) (auto simp: emit_int_def literal_code_def intro!: emit)
next
  case (float p d)
  show ?case by (rule eventually_compiles0) (auto simp: emit_float_def literal_code_def intro!: emit)
next
  case (bool p b)
  show ?case by (rule eventually_compiles0) (auto simp: emit_bool_def literal_code_def intro!: emit)
next
  case (null p)
  show ?case by (rule eventually_compiles0) (auto simp: literal_code_def intro!: emit)
next
  case (ident x i p)
  show ?case by (rule eventually_compiles0) (auto intro!: emit_load_slot [OF _ ident(1)])
next
  case (folded op l r v p)
  have "op \<noteq> TOK_AND" "op \<noteq> TOK_OR" "immediate v" "v \<noteq> VAL_NULL"
    using fold_not_short [OF folded(2)] fold_immediate [OF folded(2)] by simp_all
  then show ?case
    by (intro eventually_compiles0) (simp add: compile_binary_def calls_to_simps folded(2) literal_compiles)
next
  case (binary op l r opc cl cr p)
  then have "eventually_compiles pw ns l cl" "eventually_compiles pw ns r cr" by simp_all
  then show ?case
  proof (rule eventually_compiles2)
    fix n c0 pre c assume a: "compiles_to n pw ns l cl" "compiles_to n pw ns r cr" "grows c0 pre c" "in_scope ns c"
    have "gives (do { c \<leftarrow> cc_expr (calls_to n pw) c l; c \<leftarrow> cc_expr (calls_to n pw) c r; emit_op c opc line })
        (grows c0 (pre @ cl @ cr @ [opcode_byte opc]))" for line
      by (rule gives_bind, rule compiles_toD [OF a(1,3,4)], rule gives_bind, rule compiles_toD [OF a(2)], assumption+, rule emit_op) auto
    then show "gives (expr_case (calls_to n pw) c (AST_BINARY p op l r)) (grows c0 (pre @ cl @ cr @ [opcode_byte opc]))"
      using binary(1-4) by (simp add: compile_binary_def calls_to_simps emit_operator_def)
  qed
next
  case (and_also l cl r cr p)
  then have "eventually_compiles pw ns l cl" "eventually_compiles pw ns r cr" by (simp_all add: jump_code_def)
  then show ?case
    by (rule eventually_compiles2)
      (use and_also.prems in \<open>auto simp: compile_binary_def jump_code_def intro!: short_circuit_compiles [unfolded jump_code_def, simplified]\<close>)
next
  case (or_else l cl r cr p)
  then have "eventually_compiles pw ns l cl" "eventually_compiles pw ns r cr" by (simp_all add: jump_code_def)
  then show ?case
    by (rule eventually_compiles2)
      (use or_else.prems in \<open>auto simp: compile_binary_def jump_code_def intro!: short_circuit_compiles [unfolded jump_code_def, simplified]\<close>)
next
  case (unary op opc e ce p)
  then have "eventually_compiles pw ns e ce" by simp
  then show ?case
  proof (rule eventually_compiles1)
    fix n c0 pre c assume a: "compiles_to n pw ns e ce" "grows c0 pre c" "in_scope ns c"
    have "gives (do { c \<leftarrow> cc_expr (calls_to n pw) c e; emit_op c opc line }) (grows c0 (pre @ ce @ [opcode_byte opc]))" for line
      by (rule gives_bind, rule compiles_toD [OF a], rule emit_op) auto
    then show "gives (expr_case (calls_to n pw) c (AST_UNARY p op e)) (grows c0 (pre @ ce @ [opcode_byte opc]))"
      using unary(1) by (simp add: compile_unary_def emit_operator_def)
  qed
next
  case (ternary c cc t ct e ce p)
  then have IH: "eventually_compiles pw ns c cc" "eventually_compiles pw ns t ct" "eventually_compiles pw ns e ce"
    by (simp_all add: branch_code_def jump_code_def)
  have len: "length ct + 4 \<le> 0x7FFF" "length ce + 1 \<le> 0x7FFF" using ternary.prems by (simp_all add: branch_code_def jump_code_def)
  obtain N where N: "\<And>n. N \<le> n \<Longrightarrow> compiles_to n pw ns c cc \<and> compiles_to n pw ns t ct \<and> compiles_to n pw ns e ce"
    using IH unfolding eventually_compiles_def by (metis max.bounded_iff)
  show ?case unfolding eventually_compiles_def
  proof (intro exI allI impI)
    fix n assume "Suc N \<le> n"
    then obtain m where m: "n = Suc m" "N \<le> m" by (cases n) auto
    have K: "compiles_to m pw ns c cc" "compiles_to m pw ns t ct" "compiles_to m pw ns e ce" using N [OF m(2)] by simp_all
    show "compiles_to n pw ns (AST_TERNARY p c t e) (branch_code cc ct ce)" unfolding m(1)
      by (rule compiles_toI, simp only: expr_case.simps compile_ternary_def)
        (rule branch_compiles [OF compiles_toD [OF K(1)] compiles_toD [OF K(2)] compiles_toD [OF K(3)] _ _ len]; assumption)
  qed
next
  case (assign x i e ce p q)
  then have "eventually_compiles pw ns e ce" by simp
  then show ?case
    by (rule eventually_compiles1)
      (simp add: compile_assign_def, rule gives_bind, erule (2) compiles_toD,
        simp add: known_resolved [OF _ assign(1)], erule emit_store_slot [OF _ assign(1)], assumption, simp)
next
  case (walrus x i e ce p)
  then have "eventually_compiles pw ns e ce" by simp
  then show ?case
    by (rule eventually_compiles1)
      (simp add: compile_walrus_def, rule gives_bind, erule (2) compiles_toD,
        simp add: known_resolved [OF _ walrus(1)], erule emit_store_slot [OF _ walrus(1)], assumption, simp)
next
  case (augmented x i e ce op opc p q)
  then have "eventually_compiles pw ns e ce" by (simp add: slot_code_def)
  then show ?case
  proof (rule eventually_compiles1)
    fix n c0 pre c assume a: "compiles_to n pw ns e ce" "grows c0 pre c" "in_scope ns c"
    have sc: "in_scope ns c'" if "grows c0 bs c'" for bs c' using in_scope_grows [OF a(2)] in_scope_grows [OF that] a(3) by blast
    have "gives (do {
        c \<leftarrow> emit_load_var c x line;
        c \<leftarrow> cc_expr (calls_to n pw) c e;
        c \<leftarrow> emit_aug_op c op line;
        emit_store_var c x line }) (grows c0 (pre @ slot_code OP_LOAD_LOCAL i @ ce @ [opcode_byte opc] @ slot_code OP_STORE_LOCAL i))" for line
      unfolding emit_aug_op_def augmented(3) option.case
      by (rule gives_bind, rule emit_load_slot [OF a(3) augmented(1) a(2)], rule gives_bind, rule compiles_toD [OF a(1)], assumption, erule sc,
          rule gives_bind, rule emit_op, assumption, rule emit_store_slot [OF sc augmented(1)], assumption, assumption) simp
    then show "gives (expr_case (calls_to n pw) c (AST_AUGMENTED_ASSIGN p (AST_IDENT q x) e op))
        (grows c0 (pre @ slot_code OP_LOAD_LOCAL i @ ce @ [opcode_byte opc] @ slot_code OP_STORE_LOCAL i))"
      using known_resolved(3) [OF a(3) augmented(1)] by (simp add: compile_aug_assign_def)
  qed
qed



end
