(* ===== verification/CompilerBlocks.thy ===== *)
theory CompilerBlocks
  imports CompilerCode
begin

text \<open>
  Statements of the core: the compiler declares their names in the current frame, appends their code, and leaves a
  scope as it entered it.
\<close>

section \<open>Changing the current frame\<close>

definition map_frame :: "(compiler_frame \<Rightarrow> compiler_frame) \<Rightarrow> compiler \<Rightarrow> compiler" where
  "map_frame g c = c\<lparr>cp_frames := (case cp_frames c of [] \<Rightarrow> [] | f # fs \<Rightarrow> g f # fs)\<rparr>"

definition same_function :: "(compiler_frame \<Rightarrow> compiler_frame) \<Rightarrow> bool" where
  "same_function g \<longleftrightarrow> (\<forall>f. cf_function (g f) = cf_function f)"

lemma upd_frame_map: "cp_frames c = f # fs \<Longrightarrow> upd_frame g c = Some (map_frame g c)"
  by (simp add: upd_frame_def map_frame_def)

lemma map_frame_map: "map_frame g (map_frame h c) = map_frame (g \<circ> h) c"
  by (cases "cp_frames c") (simp_all add: map_frame_def)

lemma map_frame_had_error [simp]: "cp_had_error (map_frame g c) = cp_had_error c"
  by (simp add: map_frame_def)

lemma map_frame_frames: "cp_frames c = f # fs \<Longrightarrow> cp_frames (map_frame g c) = g f # fs"
  by (simp add: map_frame_def)

lemma grows_map_frame:
  assumes "grows c0 bs c" "same_function g"
  shows "grows (map_frame g c0) bs (map_frame g c)"
proof -
  obtain f fs ob fn ch where a: "cp_frames c0 = f # fs" "hget (vm_heap (cp_vm c0)) (cf_function f) = Some ob"
    "payload ob = OBJ_FUNCTION fn" "ch_code ch = ch_code (fn_chunk fn) @ bs" "ch_constants ch = ch_constants (fn_chunk fn)"
    "c = c0\<lparr>cp_vm := (cp_vm c0)\<lparr>vm_heap := (vm_heap (cp_vm c0))
               [cf_function f := Some (ob\<lparr>payload := OBJ_FUNCTION (fn\<lparr>fn_chunk := ch\<rparr>)\<rparr>)]\<rparr>\<rparr>" using assms(1) unfolding grows_def by blast
  have "cf_function (g f) = cf_function f" using assms(2) by (simp add: same_function_def)
  then show ?thesis unfolding grows_def
    by (intro exI [of _ "g f"] exI [of _ fs] exI [of _ ob] exI [of _ fn] exI [of _ ch]) (simp add: a map_frame_def)
qed

lemma grows_frames: "grows c0 bs c \<Longrightarrow> \<exists>f fs. cp_frames c0 = f # fs \<and> cp_frames c = f # fs"
  by (auto simp: grows_def)

section \<open>Locals\<close>

definition with_locals :: "local_var list \<Rightarrow> compiler_frame \<Rightarrow> compiler_frame" where
  "with_locals ls f = f\<lparr>cf_locals := cf_locals f @ ls\<rparr>"

definition deeper :: "int \<Rightarrow> compiler_frame \<Rightarrow> compiler_frame" where
  "deeper d f = f\<lparr>cf_scope_depth := cf_scope_depth f + d\<rparr>"

lemma same_function_simps [simp]: "same_function (with_locals ls)" "same_function (deeper d)"
  by (simp_all add: same_function_def with_locals_def deeper_def)

lemma with_locals_nil [simp]: "with_locals [] = (\<lambda>f. f)"
  by (rule ext) (simp add: with_locals_def)

lemma with_locals_append: "with_locals ls' \<circ> with_locals ls = with_locals (ls @ ls')"
  by (rule ext) (simp add: with_locals_def)

lemma map_frame_id [simp]: "map_frame (\<lambda>f. f) c = c"
  by (cases "cp_frames c") (simp_all add: map_frame_def)

text \<open>Locals declared by a statement in a scope of depth \<open>d\<close>, for the names \<open>ns\<close>, innermost first.\<close>

definition fresh_locals :: "int \<Rightarrow> string list \<Rightarrow> local_var list \<Rightarrow> bool" where
  "fresh_locals d ns ls \<longleftrightarrow> map lo_name ls = rev ns \<and> (\<forall>l \<in> set ls. lo_depth l = d \<and> \<not> lo_captured l \<and> \<not> lo_is_const l)"

lemma fresh_locals_nil [simp]: "fresh_locals d [] []" by (simp add: fresh_locals_def)

lemma fresh_locals_append: "fresh_locals d ns ls \<Longrightarrow> fresh_locals d ns' ls' \<Longrightarrow> fresh_locals d (ns' @ ns) (ls @ ls')"
  by (auto simp: fresh_locals_def)

lemma fresh_locals_length: "fresh_locals d ns ls \<Longrightarrow> length ls = length ns"
  unfolding fresh_locals_def by (metis length_map length_rev)

text \<open>The depth of the current scope.\<close>

definition scope_is :: "int \<Rightarrow> compiler \<Rightarrow> bool" where
  "scope_is d c \<longleftrightarrow> (\<exists>f fs. cp_frames c = f # fs \<and> cf_scope_depth f = d)"

lemma in_scope_with_locals:
  "in_scope ns c \<Longrightarrow> scope_is d c \<Longrightarrow> fresh_locals d ms ls \<Longrightarrow> length (ms @ ns) \<le> FLUX_MAX_LOCALS \<Longrightarrow>
    in_scope (ms @ ns) (map_frame (with_locals ls) c) \<and> scope_is d (map_frame (with_locals ls) c)"
  by (auto simp: in_scope_def scope_is_def map_frame_def with_locals_def fresh_locals_def)

lemma in_scope_deeper: "in_scope ns c \<Longrightarrow> scope_is d c \<Longrightarrow> in_scope ns (map_frame (deeper 1) c) \<and> scope_is (d + 1) (map_frame (deeper 1) c)"
  by (fastforce simp: in_scope_def scope_is_def map_frame_def deeper_def)

section \<open>Leaving a scope\<close>

lemma scope_pops_code:
  assumes "grows c0 pre c" "cp_frames c = f # fs" "cf_locals f = base @ ls"
    and "\<And>l. l \<in> set ls \<Longrightarrow> cf_scope_depth f < lo_depth l \<and> \<not> lo_captured l" "\<And>l. l \<in> set base \<Longrightarrow> lo_depth l \<le> cf_scope_depth f"
  shows "gives (scope_pops (rev ls @ rev base) c line)
    (grows (map_frame (\<lambda>f. f\<lparr>cf_locals := base\<rparr>) c0) (pre @ replicate (length ls) (opcode_byte OP_POP)))"
  using assms
proof (induction ls arbitrary: c0 pre c f rule: rev_induct)
  case Nil
  have "map_frame (\<lambda>f. f\<lparr>cf_locals := base\<rparr>) c0 = c0"
    using Nil.prems(2,3) grows_frames [OF Nil.prems(1)] by (cases "cp_frames c0") (auto simp: map_frame_def)
  moreover have "scope_pops (rev base) c line = Some c"
  proof (cases base rule: rev_cases)
    case (snoc bs l)
    then show ?thesis using Nil.prems(2,5) by (simp add: cur_frame_def) (metis in_set_conv_decomp linorder_not_less)
  qed simp
  ultimately show ?case using Nil.prems(1) by (simp add: gives_Some)
next
  case (snoc l ls)
  have l: "cf_scope_depth f < lo_depth l" "\<not> lo_captured l" using snoc.prems(4) [of l] by simp_all
  let ?g = "\<lambda>f. f\<lparr>cf_locals := butlast (cf_locals f)\<rparr>"
  have same: "same_function ?g" by (simp add: same_function_def)
  have "gives (do {
      c \<leftarrow> emit_op c OP_POP line;
      c \<leftarrow> upd_frame ?g c;
      scope_pops (rev ls @ rev base) c line })
    (grows (map_frame (\<lambda>f. f\<lparr>cf_locals := base\<rparr>) c0) (pre @ replicate (length (ls @ [l])) (opcode_byte OP_POP)))"
  proof (rule gives_bind, rule emit_op [OF snoc.prems(1)])
    fix c1 assume g1: "grows c0 (pre @ [opcode_byte OP_POP]) c1"
    have f1: "cp_frames c1 = f # fs" using snoc.prems(2) grows_frames [OF snoc.prems(1)] grows_frames [OF g1] by auto
    have g2: "grows (map_frame ?g c0) (pre @ [opcode_byte OP_POP]) (map_frame ?g c1)" by (rule grows_map_frame [OF g1 same])
    have eq: "map_frame (\<lambda>f. f\<lparr>cf_locals := base\<rparr>) (map_frame ?g c0) = map_frame (\<lambda>f. f\<lparr>cf_locals := base\<rparr>) c0"
      by (simp add: map_frame_map o_def)
    have "gives (scope_pops (rev ls @ rev base) (map_frame ?g c1) line)
      (grows (map_frame (\<lambda>f. f\<lparr>cf_locals := base\<rparr>) (map_frame ?g c0)) ((pre @ [opcode_byte OP_POP]) @ replicate (length ls) (opcode_byte OP_POP)))"
      by (rule snoc.IH [OF g2 map_frame_frames [OF f1]]) (use snoc.prems(3-5) in \<open>auto simp: butlast_append\<close>)
    then show "gives (do { c \<leftarrow> upd_frame ?g c1; scope_pops (rev ls @ rev base) c line })
      (grows (map_frame (\<lambda>f. f\<lparr>cf_locals := base\<rparr>) c0) (pre @ replicate (length (ls @ [l])) (opcode_byte OP_POP)))"
      by (simp add: upd_frame_map [OF f1] eq replicate_append_same [symmetric])
  qed
  then show ?case using snoc.prems(2) l by (simp add: cur_frame_def)
qed

section \<open>Statements\<close>

definition stmt_compiles :: "nat \<Rightarrow> power \<Rightarrow> string list \<Rightarrow> ast \<Rightarrow> byte list \<Rightarrow> string list \<Rightarrow> bool" where
  "stmt_compiles n pw ns s bs ms \<longleftrightarrow>
     (\<forall>c0 pre c d. grows c0 pre c \<longrightarrow> in_scope ns c \<longrightarrow> scope_is d c \<longrightarrow>
        gives (cc_node (calls_to n pw) c s)
          (\<lambda>c'. \<exists>ls. fresh_locals d ms ls \<and> grows (map_frame (with_locals ls) c0) (pre @ bs) c'))"

lemma scope_is_grows: "grows c0 bs c \<Longrightarrow> scope_is d c \<longleftrightarrow> scope_is d c0"
  by (simp add: scope_is_def grows_keeps)

lemma scoped_compiles:
  assumes b: "stmt_compiles n pw ns s bs ms" and g: "grows c0 pre c" and s: "in_scope ns c"
  shows "gives (compile_scoped (calls_to n pw) c s line) (grows c0 (pre @ bs @ replicate (length ms) (opcode_byte OP_POP)))"
proof -
  obtain f fs where f: "cp_frames c = f # fs" "cp_frames c0 = f # fs" using grows_frames [OF g] by auto
  let ?d = "cf_scope_depth f"
  have d: "scope_is ?d c" using f by (simp add: scope_is_def)
  let ?c = "map_frame (deeper 1) c" and ?start = "map_frame (deeper 1) c0"
  have g1: "grows ?start pre ?c" by (rule grows_map_frame [OF g]) simp
  have s1: "in_scope ns ?c" "scope_is (?d + 1) ?c" using in_scope_deeper [OF s d] by simp_all
  have body: "gives (cc_node (calls_to n pw) ?c s)
      (\<lambda>c'. \<exists>ls. fresh_locals (?d + 1) ms ls \<and> grows (map_frame (with_locals ls) ?start) (pre @ bs) c')"
    using b g1 s1 unfolding stmt_compiles_def by blast
  have rest: "gives (scope_end c1 line) (grows c0 (pre @ bs @ replicate (length ms) (opcode_byte OP_POP)))"
    if ls: "fresh_locals (?d + 1) ms ls" and g2: "grows (map_frame (with_locals ls) ?start) (pre @ bs) c1" for ls c1
  proof -
    let ?f = "with_locals ls (deeper 1 f)"
    have f1: "cp_frames c1 = ?f # fs" using grows_frames [OF g2] f(2) by (auto simp: map_frame_def)
    let ?g = "\<lambda>f. f\<lparr>cf_scope_depth := cf_scope_depth f - 1\<rparr>"
    have same: "same_function ?g" by (simp add: same_function_def)
    have g3: "grows (map_frame ?g (map_frame (with_locals ls) ?start)) (pre @ bs) (map_frame ?g c1)" by (rule grows_map_frame [OF g2 same])
    have f3: "cp_frames (map_frame ?g c1) = ?g ?f # fs" by (rule map_frame_frames [OF f1])
    have loc: "cf_locals (?g ?f) = cf_locals f @ ls" by (simp add: with_locals_def deeper_def)
    have base: "l \<in> set (cf_locals f) \<Longrightarrow> lo_depth l \<le> ?d" for l using s f(1) by (auto simp: in_scope_def)
    have new: "l \<in> set ls \<Longrightarrow> lo_depth l = ?d + 1 \<and> \<not> lo_captured l" for l using ls by (simp add: fresh_locals_def)
    have eq: "map_frame (\<lambda>h. h\<lparr>cf_locals := cf_locals f\<rparr>) (map_frame ?g (map_frame (with_locals ls) ?start)) = c0"
      using f(2) by (simp add: map_frame_def with_locals_def deeper_def)
    have "gives (scope_pops (rev ls @ rev (cf_locals f)) (map_frame ?g c1) line)
      (grows (map_frame (\<lambda>h. h\<lparr>cf_locals := cf_locals f\<rparr>) (map_frame ?g (map_frame (with_locals ls) ?start)))
        ((pre @ bs) @ replicate (length ls) (opcode_byte OP_POP)))"
      by (rule scope_pops_code [OF g3 f3 loc]) (use new base in \<open>auto simp: with_locals_def deeper_def\<close>)
    then have "gives (scope_pops (rev (cf_locals (?g ?f))) (map_frame ?g c1) line)
      (grows c0 (pre @ bs @ replicate (length ms) (opcode_byte OP_POP)))"
      unfolding eq loc fresh_locals_length [OF ls] by simp
    then show ?thesis by (simp add: scope_end_def upd_frame_map [OF f1] cur_frame_def f3)
  qed
  have "scope_begin c = Some ?c" unfolding scope_begin_def using f(1) by (simp add: upd_frame_map deeper_def [abs_def])
  then show ?thesis unfolding compile_scoped_def
    by (simp, intro gives_bind gives_mono [OF body]) (blast intro: rest)
qed


section \<open>Names declared ahead\<close>

definition predeclares_nothing :: "nat \<Rightarrow> power \<Rightarrow> string list \<Rightarrow> ast \<Rightarrow> bool" where
  "predeclares_nothing n pw ns s \<longleftrightarrow> (\<forall>c line. in_scope ns c \<longrightarrow> cc_predeclare (calls_to n pw) c s line = Some c)"

lemma eventually_all:
  assumes "\<And>x. x \<in> set xs \<Longrightarrow> \<exists>N::nat. \<forall>n \<ge> N. P n x"
  shows "\<exists>N. \<forall>n \<ge> N. \<forall>x \<in> set xs. P n x"
  using assms
proof (induction xs)
  case (Cons x xs)
  obtain N where N: "\<forall>n \<ge> N. P n x" using Cons.prems [of x] by auto
  obtain M where M: "\<forall>n \<ge> M. \<forall>x \<in> set xs. P n x" using Cons.IH Cons.prems by auto
  show ?case by (rule exI [of _ "max N M"]) (use N M in simp)
qed simp

lemma eventually_Suc: "(\<exists>N. \<forall>n \<ge> N. P n) \<Longrightarrow> (\<And>n. P n \<Longrightarrow> Q (Suc n)) \<Longrightarrow> \<exists>N. \<forall>n \<ge> N. Q (n :: nat)"
proof -
  assume a: "\<exists>N. \<forall>n \<ge> N. P n" "\<And>n. P n \<Longrightarrow> Q (Suc n)"
  then obtain N where N: "\<forall>n \<ge> N. P n" by blast
  have "Q n" if "Suc N \<le> n" for n using that N a(2) by (cases n) auto
  then show ?thesis by blast
qed

lemma predeclare_all_nothing:
  "in_scope ns c \<Longrightarrow> (\<And>s. s \<in> set ss \<Longrightarrow> predeclares_nothing n pw ns s) \<Longrightarrow> predeclare_all (calls_to n pw) line ss c = Some c"
  by (induction ss) (simp_all add: predeclare_all_def predeclares_nothing_def)

lemma predeclares_nothing_Suc:
  assumes "\<And>c line. in_scope ns c \<Longrightarrow> predeclare_case (calls_to n pw) c s line = Some c"
  shows "predeclares_nothing (Suc n) pw ns s"
  using assms by (simp add: predeclares_nothing_def calls_to_simps)

lemma eventually_conj: "\<exists>N. \<forall>n \<ge> N. P n \<Longrightarrow> \<exists>N. \<forall>n \<ge> N. Q n \<Longrightarrow> \<exists>N. \<forall>n \<ge> N. P n \<and> Q (n :: nat)"
  by (metis max.bounded_iff)

lemma predeclares_nothing0:
  assumes "\<And>k c line. in_scope ns c \<Longrightarrow> predeclare_case k c s line = Some c"
  shows "\<exists>N. \<forall>n \<ge> N. predeclares_nothing n pw ns s"
  by (rule eventually_Suc [of "\<lambda>_. True"]) (simp, rule predeclares_nothing_Suc, rule assms)

lemma predeclare_known:
  "assigns_known ns s \<Longrightarrow> \<exists>N. \<forall>n \<ge> N. predeclares_nothing n pw ns s"
proof (induction rule: assigns_known.induct)
  case (6 l r p op)
  show ?case
    by (rule eventually_Suc [OF eventually_conj [OF 6(3,4)]], rule predeclares_nothing_Suc) (auto intro!: predeclare_all_nothing)
next
  case (7 e p op)
  show ?case
    by (rule eventually_Suc [OF 7(2)], rule predeclares_nothing_Suc) (simp add: predeclares_nothing_def)
next
  case (8 c t e p)
  show ?case
    by (rule eventually_Suc [OF eventually_conj [OF 8(4) eventually_conj [OF 8(5,6)]]], rule predeclares_nothing_Suc)
      (auto intro!: predeclare_all_nothing)
next
  case (9 x p q e)
  obtain i where "slot_of ns x = Some i" using slot_of_known [OF 9] by blast
  then show ?case
    by (intro predeclares_nothing0) (simp add: known_resolved(2))
next
  case (10 x e p)
  obtain i where "slot_of ns x = Some i" using slot_of_known [OF 10(1)] by blast
  then show ?case
    by - (rule eventually_Suc [OF 10(3)], rule predeclares_nothing_Suc, simp add: known_resolved(2) predeclares_nothing_def)
next
  case (13 e p)
  show ?case
    by (rule eventually_Suc [OF 13(2)], rule predeclares_nothing_Suc) (simp add: predeclares_nothing_def)
next
  case (15 stmts p)
  show ?case
    by (rule eventually_Suc [OF eventually_all [OF 15(2)]], assumption, rule predeclares_nothing_Suc) (simp add: predeclare_all_nothing)
next
  case (16 t p c)
  show ?case
    by (rule eventually_Suc [OF 16(2)], rule predeclares_nothing_Suc) (auto intro!: predeclare_all_nothing)
next
  case (17 t e p c)
  show ?case
    by (rule eventually_Suc [OF eventually_conj [OF 17(3,4)]], rule predeclares_nothing_Suc) (auto intro!: predeclare_all_nothing)
next
  case (18 c b p)
  show ?case
    by (rule eventually_Suc [OF eventually_conj [OF 18(3,4)]], rule predeclares_nothing_Suc) (auto intro!: predeclare_all_nothing)
qed (rule predeclares_nothing0; simp)+

section \<open>Every statement\<close>

definition eventually_stmt :: "power \<Rightarrow> string list \<Rightarrow> ast \<Rightarrow> byte list \<Rightarrow> string list \<Rightarrow> bool" where
  "eventually_stmt pw ns s bs ms \<longleftrightarrow> (\<exists>N. \<forall>n \<ge> N. stmt_compiles n pw ns s bs ms)"

definition stmts_compile :: "nat \<Rightarrow> power \<Rightarrow> string list \<Rightarrow> ast list \<Rightarrow> byte list \<Rightarrow> string list \<Rightarrow> bool" where
  "stmts_compile n pw ns ss bs ms \<longleftrightarrow>
     (\<forall>c0 pre c d. grows c0 pre c \<longrightarrow> in_scope ns c \<longrightarrow> scope_is d c \<longrightarrow>
        gives (cc_nodes (calls_to n pw) c ss)
          (\<lambda>c'. \<exists>ls. fresh_locals d ms ls \<and> grows (map_frame (with_locals ls) c0) (pre @ bs) c'))"

lemma stmt_compilesI:
  assumes "\<And>c0 pre c d. grows c0 pre c \<Longrightarrow> in_scope ns c \<Longrightarrow> scope_is d c \<Longrightarrow>
    gives (node_case (calls_to n pw) c s) (\<lambda>c'. \<exists>ls. fresh_locals d ms ls \<and> grows (map_frame (with_locals ls) c0) (pre @ bs) c')"
  shows "stmt_compiles (Suc n) pw ns s bs ms"
  unfolding stmt_compiles_def using assms by (simp add: calls_to_simps compile_node_def in_scope_def)

text \<open>A statement that declares nothing.\<close>

lemma stmt_compilesI0:
  assumes "\<And>c0 pre c. grows c0 pre c \<Longrightarrow> in_scope ns c \<Longrightarrow> gives (node_case (calls_to n pw) c s) (grows c0 (pre @ bs))"
  shows "stmt_compiles (Suc n) pw ns s bs []"
proof (rule stmt_compilesI)
  fix c0 pre c d assume "grows c0 pre c" "in_scope ns c"
  from assms [OF this] show "gives (node_case (calls_to n pw) c s)
      (\<lambda>c'. \<exists>ls. fresh_locals d [] ls \<and> grows (map_frame (with_locals ls) c0) (pre @ bs) c')"
    by (rule gives_mono) (intro exI [of _ "[]"], simp)
qed


section \<open>Loops\<close>

definition set_loop :: "int \<Rightarrow> nat \<Rightarrow> nat \<Rightarrow> compiler \<Rightarrow> compiler" where
  "set_loop st dp td c = c\<lparr>cp_loop_start := st, cp_loop_depth := dp, cp_try_depth_at_loop := td\<rparr>"

lemma grows_set_loop:
  assumes "grows c0 bs c"
  shows "grows (set_loop st dp td c0) bs (set_loop st dp td c)"
proof -
  obtain f fs ob fn ch where a: "cp_frames c0 = f # fs" "hget (vm_heap (cp_vm c0)) (cf_function f) = Some ob"
    "payload ob = OBJ_FUNCTION fn" "ch_code ch = ch_code (fn_chunk fn) @ bs" "ch_constants ch = ch_constants (fn_chunk fn)"
    "c = c0\<lparr>cp_vm := (cp_vm c0)\<lparr>vm_heap := (vm_heap (cp_vm c0))
               [cf_function f := Some (ob\<lparr>payload := OBJ_FUNCTION (fn\<lparr>fn_chunk := ch\<rparr>)\<rparr>)]\<rparr>\<rparr>" using assms unfolding grows_def by blast
  show ?thesis unfolding grows_def set_loop_def
    by (intro exI [of _ f] exI [of _ fs] exI [of _ ob] exI [of _ fn] exI [of _ ch]) (simp add: a)
qed

lemma in_scope_set_loop [simp]: "in_scope ns (set_loop st dp td c) = in_scope ns c"
  by (simp add: in_scope_def set_loop_def)

lemma set_loop_set_loop [simp]: "set_loop a b d (set_loop a' b' d' c) = set_loop a b d c"
  by (simp add: set_loop_def)

lemma set_loop_same: "set_loop (cp_loop_start c) (cp_loop_depth c) (cp_try_depth_at_loop c) c = c"
  by (simp add: set_loop_def)

lemma code_count_set_loop [simp]: "code_count (set_loop st dp td c) = code_count c"
  by (simp add: code_count_def current_chunk_def cur_function_def cur_frame_def set_loop_def)

lemma loop_leave_eq:
  "cp_break_count c = cp_break_count old \<Longrightarrow>
    loop_leave old c = Some (set_loop (cp_loop_start old) (cp_loop_depth old) (cp_try_depth_at_loop old) c)"
  by (simp add: loop_leave_def set_loop_def)

lemma while_compiles:
  assumes e: "compiles_to n pw ns e ce" and b: "stmt_compiles n pw ns b cb ms"
    and pre: "predeclares_nothing n pw ns e" "predeclares_nothing n pw ns b"
    and g: "grows c0 pre c" and s: "in_scope ns c"
    and small: "length (while_code ce (cb @ replicate (length ms) (opcode_byte OP_POP))) \<le> 0x7FFF"
  shows "gives (compile_while (calls_to n pw) c e b line)
    (grows c0 (pre @ while_code ce (cb @ replicate (length ms) (opcode_byte OP_POP))))"
proof -
  let ?b = "cb @ replicate (length ms) (opcode_byte OP_POP)"
  obtain m where m: "code_count c0 = Some m" using grows_start [OF g] by blast
  have cnt: "code_count c = Some (m + length pre)" by (rule grows_count [OF g m])
  let ?td = "cp_try_depth c" and ?st = "int (m + length pre)" and ?dp = "cp_loop_depth c + 1"
  let ?enter = "set_loop ?st ?dp ?td"
  have p1: "cc_predeclare (calls_to n pw) (set_loop (cp_loop_start c) (cp_loop_depth c) ?td c) e line =
      Some (set_loop (cp_loop_start c) (cp_loop_depth c) ?td c)"
    using pre(1) s unfolding predeclares_nothing_def by simp
  have p2: "cc_predeclare (calls_to n pw) (set_loop (cp_loop_start c) (cp_loop_depth c) ?td c) b line =
      Some (set_loop (cp_loop_start c) (cp_loop_depth c) ?td c)"
    using pre(2) s unfolding predeclares_nothing_def by simp
  have init: "c\<lparr>cp_try_depth_at_loop := ?td\<rparr> = set_loop (cp_loop_start c) (cp_loop_depth c) ?td c" by (simp add: set_loop_def)
  have enter: "loop_enter (set_loop (cp_loop_start c) (cp_loop_depth c) ?td c) (m + length pre) = ?enter c"
    by (simp add: loop_enter_def set_loop_def)
  have g0: "grows (?enter c0) pre (?enter c)" by (rule grows_set_loop [OF g])
  have m0: "code_count (?enter c0) = Some m" using m by simp
  have sc: "in_scope ns c'" if "grows (?enter c0) bs c'" for bs c'
    using in_scope_grows [OF g] in_scope_grows [OF that] s by simp
  have ls: "cp_loop_start c' = ?st" "cp_break_count c' = cp_break_count c" if "grows (?enter c0) bs c'" for bs c'
    using grows_keeps [OF that] grows_keeps [OF g] by (simp_all add: set_loop_def)
  have restored: "set_loop (cp_loop_start c) (cp_loop_depth c) (cp_try_depth_at_loop c) c0 = c0"
    using grows_keeps [OF g] set_loop_same [of c0] by simp
  have len: "length ?b + 4 \<le> 0x7FFF" "length ce + length ?b + 7 \<le> 0x7FFF" using small by (simp_all add: while_code_def jump_code_def)
  have "gives (do {
      c1 \<leftarrow> cc_expr (calls_to n pw) (?enter c) e;
      (exit_jump, c1) \<leftarrow> emit_jump c1 OP_JUMP_IF_FALSE line;
      c1 \<leftarrow> emit_op c1 OP_POP line;
      c1 \<leftarrow> compile_scoped (calls_to n pw) c1 b line;
      c1 \<leftarrow> emit_loop c1 (cp_loop_start c1) line;
      c1 \<leftarrow> patch_jump c1 exit_jump;
      c1 \<leftarrow> emit_op c1 OP_POP line;
      loop_leave c c1 }) (grows c0 (pre @ while_code ce ?b))"
  proof (rule gives_bind, rule compiles_toD [OF e g0 sc [OF g0]], rule gives_bind, rule emit_jump, assumption, rule m0,
      simp only: prod.case, rule gives_bind, rule emit_op, assumption, rule gives_bind)
    fix c1 c2 c3
    assume "grows (?enter c0) (((pre @ ce) @ opcode_byte OP_JUMP_IF_FALSE # le16 0xFFFF) @ [opcode_byte OP_POP]) c3"
    then have g3: "grows (?enter c0) (pre @ ce @ opcode_byte OP_JUMP_IF_FALSE # le16 0xFFFF @ pop_code) c3" by simp
    have "gives (do {
        c1 \<leftarrow> emit_loop c4 (cp_loop_start c4) line;
        c1 \<leftarrow> patch_jump c1 (m + length (pre @ ce) + 1);
        c1 \<leftarrow> emit_op c1 OP_POP line;
        loop_leave c c1 }) (grows c0 (pre @ while_code ce ?b))"
      if g4: "grows (?enter c0) ((pre @ ce @ opcode_byte OP_JUMP_IF_FALSE # le16 0xFFFF @ pop_code) @ ?b) c4" for c4
    proof (rule gives_bind, rule emit_loop [OF g4 m0, where pre = pre and body = "ce @ opcode_byte OP_JUMP_IF_FALSE # le16 0xFFFF @ pop_code @ ?b"])
      fix c5
      let ?L = "opcode_byte OP_LOOP # le16 (of_nat (length ce + length ?b + 7))"
      assume "grows (?enter c0) (((pre @ ce @ opcode_byte OP_JUMP_IF_FALSE # le16 0xFFFF @ pop_code) @ ?b) @
         opcode_byte OP_LOOP # le16 (of_nat (length (ce @ opcode_byte OP_JUMP_IF_FALSE # le16 0xFFFF @ pop_code @ ?b) + 3))) c5"
      moreover have n7: "length (ce @ opcode_byte OP_JUMP_IF_FALSE # le16 0xFFFF @ pop_code @ ?b) + 3 = length ce + length ?b + 7" by simp
      ultimately have g5: "grows (?enter c0) ((pre @ ce @ [opcode_byte OP_JUMP_IF_FALSE]) @ le16 0xFFFF @ pop_code @ ?b @ ?L) c5"
        unfolding n7 by simp
      show "gives (do {
          c1 \<leftarrow> patch_jump c5 (m + length (pre @ ce) + 1);
          c1 \<leftarrow> emit_op c1 OP_POP line;
          loop_leave c c1 }) (grows c0 (pre @ while_code ce ?b))"
      proof (rule gives_bind, rule patch_jump [OF g5 m0 refl])
        fix c6
        assume g6: "grows (?enter c0) ((pre @ ce @ [opcode_byte OP_JUMP_IF_FALSE]) @
          le16 (of_nat (length (pop_code @ ?b @ ?L))) @ pop_code @ ?b @ ?L) c6"
        show "gives (do { c1 \<leftarrow> emit_op c6 OP_POP line; loop_leave c c1 }) (grows c0 (pre @ while_code ce ?b))"
        proof (rule gives_bind, rule emit_op [OF g6])
          fix c7
          assume g7: "grows (?enter c0) (((pre @ ce @ [opcode_byte OP_JUMP_IF_FALSE]) @
            le16 (of_nat (length (pop_code @ ?b @ ?L))) @ pop_code @ ?b @ ?L) @ [opcode_byte OP_POP]) c7"
          have n4: "length (pop_code @ ?b @ ?L) = length ?b + 4" by simp
          have "((pre @ ce @ [opcode_byte OP_JUMP_IF_FALSE]) @ le16 (of_nat (length (pop_code @ ?b @ ?L))) @ pop_code @ ?b @ ?L) @ [opcode_byte OP_POP]
              = pre @ while_code ce ?b" unfolding n4 by (simp add: while_code_def jump_code_def)
          with grows_set_loop [OF g7, of "cp_loop_start c" "cp_loop_depth c" "cp_try_depth_at_loop c"]
          show "gives (loop_leave c c7) (grows c0 (pre @ while_code ce ?b))"
            by (simp add: loop_leave_eq [OF ls(2) [OF g7]] gives_Some restored)
        qed
      qed (use len in auto)
    qed (use ls(1) [OF g4] len in auto)
    then show "gives (compile_scoped (calls_to n pw) c3 b line) (\<lambda>c1. gives (do {
        c1 \<leftarrow> emit_loop c1 (cp_loop_start c1) line;
        c1 \<leftarrow> patch_jump c1 (m + length (pre @ ce) + 1);
        c1 \<leftarrow> emit_op c1 OP_POP line;
        loop_leave c c1 }) (grows c0 (pre @ while_code ce ?b)))"
      by (intro gives_mono [OF scoped_compiles [OF b g3 sc [OF g3]]]) simp
  qed
  then show ?thesis by (simp add: compile_while_def init p1 p2 cnt enter)
qed


section \<open>The compiler emits the code of the core\<close>

lemma if_compiles:
  assumes e: "compiles_to n pw ns e ce" and t: "stmt_compiles n pw ns t ct ms"
    and b: "\<And>c0 pre c P. grows c0 pre c \<Longrightarrow> in_scope ns c \<Longrightarrow> (\<And>c'. grows c0 (pre @ cb) c' \<Longrightarrow> in_scope ns c' \<Longrightarrow> P c') \<Longrightarrow>
        gives (case b of Some b \<Rightarrow> compile_scoped (calls_to n pw) c b line | None \<Rightarrow> Some c) P"
    and pre: "cc_predeclare (calls_to n pw) c node line = Some c"
    and g: "grows c0 pre c" and s: "in_scope ns c"
    and small: "length (branch_code ce (ct @ replicate (length ms) (opcode_byte OP_POP)) cb) \<le> 0x7FFF"
  shows "gives (compile_if (calls_to n pw) c node e t [] [] b line)
    (grows c0 (pre @ branch_code ce (ct @ replicate (length ms) (opcode_byte OP_POP)) cb))"
proof -
  let ?t = "ct @ replicate (length ms) (opcode_byte OP_POP)"
  have len: "length ?t + 4 \<le> 0x7FFF" "length cb + 1 \<le> 0x7FFF" using small by (simp_all add: branch_code_def jump_code_def)
  have T: "gives (compile_scoped (calls_to n pw) c t line) P"
    if "grows c0 pre c" "in_scope ns c" "\<And>c'. grows c0 (pre @ ?t) c' \<Longrightarrow> in_scope ns c' \<Longrightarrow> P c'" for c0 pre c P
    using scoped_compiles [OF t that(1,2), of line] by (rule gives_mono)
      (use that in_scope_grows [OF that(1), of ns] in \<open>auto dest: in_scope_grows [of _ _ _ ns]\<close>)
  have "gives (do {
     c \<leftarrow> cc_expr (calls_to n pw) c e;
     (else_jump, c) \<leftarrow> emit_jump c OP_JUMP_IF_FALSE line;
     c \<leftarrow> emit_op c OP_POP line;
     c \<leftarrow> compile_scoped (calls_to n pw) c t line;
     (end_jump, c) \<leftarrow> emit_jump c OP_JUMP line;
     c \<leftarrow> patch_jump c else_jump;
     c \<leftarrow> emit_op c OP_POP line;
     c \<leftarrow> (case b of Some b \<Rightarrow> compile_scoped (calls_to n pw) c b line | None \<Rightarrow> Some c);
     patch_jump c end_jump
   }) (grows c0 (pre @ branch_code ce ?t cb))"
    by (rule branch_compiles [where ns = ns]) (erule (1) compiles_toD [OF e], blast, erule (1) T, blast, erule (1) b, blast, rule g, rule s, rule len, rule len)
  then show ?thesis unfolding compile_if_def compile_guarded_def pre
    by (simp add: Option.bind_assoc case_prod_unfold cong: option.case_cong)
qed

lemma eventually_stmtI: "\<exists>N. \<forall>n \<ge> N. P n \<Longrightarrow> (\<And>n. P n \<Longrightarrow> stmt_compiles (Suc n) pw ns s bs ms) \<Longrightarrow> eventually_stmt pw ns s bs ms"
  unfolding eventually_stmt_def by (rule eventually_Suc)

lemma stmts_compile_Cons:
  assumes s: "stmt_compiles n pw ns stmt cs ms" and ss: "stmts_compile n pw (ms @ ns) stmts cs' ls"
    and len: "length ns \<le> FLUX_MAX_LOCALS \<Longrightarrow> length (ms @ ns) \<le> FLUX_MAX_LOCALS"
  shows "stmts_compile n pw ns (stmt # stmts) (cs @ cs') (ls @ ms)"
  unfolding stmts_compile_def
proof (intro allI impI)
  fix c0 pre c d assume g: "grows c0 pre c" and sc: "in_scope ns c" and d: "scope_is d c"
  have one: "gives (cc_node (calls_to n pw) c stmt)
      (\<lambda>c'. \<exists>l1. fresh_locals d ms l1 \<and> grows (map_frame (with_locals l1) c0) (pre @ cs) c')"
    using s g sc d unfolding stmt_compiles_def by blast
  have "gives (cc_nodes (calls_to n pw) c1 stmts)
      (\<lambda>c'. \<exists>ls'. fresh_locals d (ls @ ms) ls' \<and> grows (map_frame (with_locals ls') c0) (pre @ cs @ cs') c')"
    if l1: "fresh_locals d ms l1" and g1: "grows (map_frame (with_locals l1) c0) (pre @ cs) c1" for c1 l1
  proof -
    have "in_scope ns c0" "scope_is d c0" using in_scope_grows [OF g] scope_is_grows [OF g] sc d by simp_all
    moreover have "length (ms @ ns) \<le> FLUX_MAX_LOCALS" using len sc by (auto simp: in_scope_def)
    ultimately have "in_scope (ms @ ns) (map_frame (with_locals l1) c0)" "scope_is d (map_frame (with_locals l1) c0)"
      using in_scope_with_locals [OF _ _ l1] by simp_all
    then have "in_scope (ms @ ns) c1" "scope_is d c1" using in_scope_grows [OF g1] scope_is_grows [OF g1] by simp_all
    then have "gives (cc_nodes (calls_to n pw) c1 stmts)
      (\<lambda>c'. \<exists>l2. fresh_locals d ls l2 \<and> grows (map_frame (with_locals l2) (map_frame (with_locals l1) c0)) ((pre @ cs) @ cs') c')"
      using ss g1 unfolding stmts_compile_def by blast
    then show ?thesis
      by (rule gives_mono) (auto simp: map_frame_map with_locals_append intro: fresh_locals_append [OF l1])
  qed
  then show "gives (cc_nodes (calls_to n pw) c (stmt # stmts))
      (\<lambda>c'. \<exists>ls'. fresh_locals d (ls @ ms) ls' \<and> grows (map_frame (with_locals ls') c0) (pre @ cs @ cs') c')"
    unfolding cc_nodes_def fold_opt.simps by (intro gives_bind gives_mono [OF one]) blast
qed

lemma compile_core:
  "stmt_code pw ns s bs ns' \<Longrightarrow> length bs \<le> 0x7FFF \<Longrightarrow> \<exists>ms. ns' = ms @ ns \<and> eventually_stmt pw ns s bs ms"
  "stmts_code pw ns ss bs ns' \<Longrightarrow> length bs \<le> 0x7FFF \<Longrightarrow> \<exists>ms. ns' = ms @ ns \<and> (\<exists>N. \<forall>n \<ge> N. stmts_compile n pw ns ss bs ms)"
proof (induction rule: stmt_code_stmts_code.inducts)
  case (pass ns p)
  show ?case
    by (intro exI [of _ "[]"] conjI) (simp, rule eventually_stmtI [of "\<lambda>_. True"], simp, rule stmt_compilesI0, simp add: gives_Some)
next
  case (expr ns e ce p)
  have "\<exists>N. \<forall>n \<ge> N. compiles_to n pw ns e ce"
    using compile_core_expr [OF expr(1)] expr.prems by (simp add: eventually_compiles_def)
  then have "eventually_stmt pw ns (AST_EXPR_STMT p e) (ce @ pop_code) []"
  proof (rule eventually_stmtI)
    fix n assume e: "compiles_to n pw ns e ce"
    show "stmt_compiles (Suc n) pw ns (AST_EXPR_STMT p e) (ce @ pop_code) []"
    proof (rule stmt_compilesI0)
      fix c0 pre c assume "grows c0 pre c" "in_scope ns c"
      then show "gives (node_case (calls_to n pw) c (AST_EXPR_STMT p e)) (grows c0 (pre @ ce @ pop_code))"
        by (simp add: compile_expr_stmt_def) (rule gives_bind, rule compiles_toD [OF e], assumption+, erule emit_op, simp)
    qed
  qed
  then show ?case by simp
next
  case (decl ns e ce x p)
  have "\<exists>N. \<forall>n \<ge> N. compiles_to n pw ns e ce"
    using compile_core_expr [OF decl(1)] decl.prems by (simp add: eventually_compiles_def)
  then have "eventually_stmt pw ns (AST_LET_DECL p x e False) ce [x]"
  proof (rule eventually_stmtI)
    fix n assume e: "compiles_to n pw ns e ce"
    show "stmt_compiles (Suc n) pw ns (AST_LET_DECL p x e False) ce [x]"
    proof (rule stmt_compilesI)
      fix c0 pre c d assume g: "grows c0 pre c" and s: "in_scope ns c" and d: "scope_is d c"
      show "gives (node_case (calls_to n pw) c (AST_LET_DECL p x e False))
        (\<lambda>c'. \<exists>ls. fresh_locals d [x] ls \<and> grows (map_frame (with_locals ls) c0) (pre @ ce) c')"
        unfolding node_case.simps compile_let_def
      proof (rule gives_bind, rule compiles_toD [OF e g s])
        fix c1 assume g1: "grows c0 (pre @ ce) c1" and s1: "in_scope ns c1"
        obtain f fs where f: "cp_frames c1 = f # fs" "0 < cf_scope_depth f" "length (cf_locals f) = length ns"
          using s1 unfolding in_scope_def by (metis length_map length_rev)
        have d1: "cf_scope_depth f = d" using d f(1) grows_frames [OF g] grows_frames [OF g1] by (auto simp: scope_is_def)
        let ?l = "\<lparr>lo_name = x, lo_depth = cf_scope_depth f, lo_captured = False, lo_is_const = False\<rparr>"
        have c2: "upd_frame (\<lambda>f. f\<lparr>cf_locals := cf_locals f @ [\<lparr>lo_name = take 255 x, lo_depth = cf_scope_depth f, lo_captured = False,
            lo_is_const = False\<rparr>]\<rparr>) c1 = Some (map_frame (with_locals [?l]) c1)"
          using decl(3) by (simp add: upd_frame_def f(1) map_frame_def with_locals_def)
        have c3: "set_local_const (map_frame (with_locals [?l]) c1) (Some (length ns)) False = Some (map_frame (with_locals [?l]) c1)"
          by (simp add: set_local_const_def upd_frame_def map_frame_def f(1,3) with_locals_def nth_append list_update_append)
        have "fresh_locals d [x] [?l]" by (simp add: fresh_locals_def d1)
        moreover have "grows (map_frame (with_locals [?l]) c0) (pre @ ce) (map_frame (with_locals [?l]) c1)"
          by (rule grows_map_frame [OF g1]) simp
        ultimately show "gives (do {
            f \<leftarrow> cur_frame c1;
            if cf_scope_depth f = 0 then do {
              c \<leftarrow> define_global c1 x (int (fst p));
              Some (if False then compiler_mark_global_const c x else c)
            }
            else do { (slot, c) \<leftarrow> add_local c1 x; set_local_const c slot False }
          }) (\<lambda>c'. \<exists>ls. fresh_locals d [x] ls \<and> grows (map_frame (with_locals ls) c0) (pre @ ce) c')"
          using f decl(2) c2 c3 by (auto simp: cur_frame_def add_local_def gives_def)
      qed
    qed
  qed
  then show ?case by simp
next
  case (block ns stmts cs ns' p)
  then obtain ms where ms: "ns' = ms @ ns" "\<exists>N. \<forall>n \<ge> N. stmts_compile n pw ns stmts cs ms" by blast
  have "eventually_stmt pw ns (AST_BLOCK p stmts) cs ms"
    by (rule eventually_stmtI [OF ms(2)], rule stmt_compilesI) (simp add: stmts_compile_def)
  then show ?case using ms(1) by blast
next
  case (if_then ns t c cc ct ns1 p)
  have small: "length ct \<le> 0x7FFF" "length cc \<le> 0x7FFF" using if_then.prems by (simp_all add: branch_code_def)
  obtain ms where ms: "ns1 = ms @ ns" "eventually_stmt pw ns t ct ms" using if_then.IH small by blast
  have code: "ct @ end_scope_code ns ns1 = ct @ replicate (length ms) (opcode_byte OP_POP)" by (simp add: end_scope_code_def ms(1))
  have "assigns_known ns (AST_IF p c t [] [] None)" using if_then(1) by (rule assigns_known.intros)
  note ev = eventually_conj [OF compile_core_expr [OF if_then(2) small(2), unfolded eventually_compiles_def]
      eventually_conj [OF ms(2) [unfolded eventually_stmt_def] predeclare_known [OF this]]]
  have "eventually_stmt pw ns (AST_IF p c t [] [] None) (branch_code cc (ct @ end_scope_code ns ns1) []) []"
  proof (rule eventually_stmtI [OF ev], elim conjE)
    fix n assume n: "compiles_to n pw ns c cc" "stmt_compiles n pw ns t ct ms" "predeclares_nothing n pw ns (AST_IF p c t [] [] None)"
    show "stmt_compiles (Suc n) pw ns (AST_IF p c t [] [] None) (branch_code cc (ct @ end_scope_code ns ns1) []) []"
    proof (rule stmt_compilesI0)
      fix c0 pre c' assume "grows c0 pre c'" "in_scope ns c'"
      then show "gives (node_case (calls_to n pw) c' (AST_IF p c t [] [] None)) (grows c0 (pre @ branch_code cc (ct @ end_scope_code ns ns1) []))"
        unfolding node_case.simps code
        by (intro if_compiles [OF n(1,2)]) (use n(3) if_then.prems in \<open>auto simp: predeclares_nothing_def gives_def code\<close>)
    qed
  qed
  then show ?case by simp
next
  case (if_else ns t e c cc ct ns1 ce ns2 p)
  have small: "length ct \<le> 0x7FFF" "length cc \<le> 0x7FFF" "length ce \<le> 0x7FFF" using if_else.prems by (simp_all add: branch_code_def)
  obtain ms where ms: "ns1 = ms @ ns" "eventually_stmt pw ns t ct ms" using if_else.IH small by blast
  obtain ls where ls: "ns2 = ls @ ns" "eventually_stmt pw ns e ce ls" using if_else.IH small by blast
  have code: "ct @ end_scope_code ns ns1 = ct @ replicate (length ms) (opcode_byte OP_POP)"
    "ce @ end_scope_code ns ns2 = ce @ replicate (length ls) (opcode_byte OP_POP)" by (simp_all add: end_scope_code_def ms(1) ls(1))
  have "assigns_known ns (AST_IF p c t [] [] (Some e))" using if_else(1,2) by (rule assigns_known.intros)
  note ev = eventually_conj [OF compile_core_expr [OF if_else(3) small(2), unfolded eventually_compiles_def]
      eventually_conj [OF ms(2) [unfolded eventually_stmt_def] eventually_conj [OF ls(2) [unfolded eventually_stmt_def] predeclare_known [OF this]]]]
  have "eventually_stmt pw ns (AST_IF p c t [] [] (Some e)) (branch_code cc (ct @ end_scope_code ns ns1) (ce @ end_scope_code ns ns2)) []"
  proof (rule eventually_stmtI [OF ev], elim conjE)
    fix n assume n: "compiles_to n pw ns c cc" "stmt_compiles n pw ns t ct ms" "stmt_compiles n pw ns e ce ls"
      "predeclares_nothing n pw ns (AST_IF p c t [] [] (Some e))"
    have E: "gives (case Some e of Some b \<Rightarrow> compile_scoped (calls_to n pw) c b line | None \<Rightarrow> Some c) P"
      if "grows c0 pre c" "in_scope ns c" "\<And>c'. grows c0 (pre @ ce @ replicate (length ls) (opcode_byte OP_POP)) c' \<Longrightarrow> in_scope ns c' \<Longrightarrow> P c'"
      for c0 pre c P line
      using scoped_compiles [OF n(3) that(1,2), of line] in_scope_grows [OF that(1), of ns] that(2,3)
      by (auto elim!: gives_mono dest: in_scope_grows [of _ _ _ ns])
    show "stmt_compiles (Suc n) pw ns (AST_IF p c t [] [] (Some e))
        (branch_code cc (ct @ end_scope_code ns ns1) (ce @ end_scope_code ns ns2)) []"
    proof (rule stmt_compilesI0)
      fix c0 pre c' assume "grows c0 pre c'" "in_scope ns c'"
      then show "gives (node_case (calls_to n pw) c' (AST_IF p c t [] [] (Some e)))
          (grows c0 (pre @ branch_code cc (ct @ end_scope_code ns ns1) (ce @ end_scope_code ns ns2)))"
        unfolding node_case.simps code
        by (intro if_compiles [OF n(1,2) E]) (use n(4) if_else.prems in \<open>auto simp: predeclares_nothing_def code\<close>)
    qed
  qed
  then show ?case by simp
next
  case (while_loop ns c b cc cb ns1 p)
  have small: "length cb \<le> 0x7FFF" "length cc \<le> 0x7FFF" using while_loop.prems by (simp_all add: while_code_def)
  obtain ms where ms: "ns1 = ms @ ns" "eventually_stmt pw ns b cb ms" using while_loop.IH small by blast
  have code: "cb @ end_scope_code ns ns1 = cb @ replicate (length ms) (opcode_byte OP_POP)" by (simp add: end_scope_code_def ms(1))
  note ev = eventually_conj [OF compile_core_expr [OF while_loop(3) small(2), unfolded eventually_compiles_def]
      eventually_conj [OF ms(2) [unfolded eventually_stmt_def] eventually_conj [OF predeclare_known [OF while_loop(1)] predeclare_known [OF while_loop(2)]]]]
  have "eventually_stmt pw ns (AST_WHILE p c b) (while_code cc (cb @ end_scope_code ns ns1)) []"
  proof (rule eventually_stmtI [OF ev], elim conjE)
    fix n assume n: "compiles_to n pw ns c cc" "stmt_compiles n pw ns b cb ms" "predeclares_nothing n pw ns c" "predeclares_nothing n pw ns b"
    show "stmt_compiles (Suc n) pw ns (AST_WHILE p c b) (while_code cc (cb @ end_scope_code ns ns1)) []"
    proof (rule stmt_compilesI0)
      fix c0 pre c' assume "grows c0 pre c'" "in_scope ns c'"
      then show "gives (node_case (calls_to n pw) c' (AST_WHILE p c b)) (grows c0 (pre @ while_code cc (cb @ end_scope_code ns ns1)))"
        unfolding node_case.simps code
        by (intro while_compiles [OF n]) (use while_loop.prems in \<open>auto simp: code\<close>)
    qed
  qed
  then show ?case by simp
next
  case (all_nil ns)
  show ?case
    by (intro exI [of _ "[]"] conjI exI [of _ 0] allI impI)
      (simp_all add: stmts_compile_def cc_nodes_def gives_def, intro allI impI exI [of _ "[]"], simp)
next
  case (all_cons ns stmt cs ns1 stmts cs' ns2)
  obtain ms where ms: "ns1 = ms @ ns" "eventually_stmt pw ns stmt cs ms" using all_cons by auto
  obtain ls where ls: "ns2 = ls @ ns1" "\<exists>N. \<forall>n \<ge> N. stmts_compile n pw ns1 stmts cs' ls" using all_cons by auto
  have len: "length ns \<le> FLUX_MAX_LOCALS \<Longrightarrow> length (ms @ ns) \<le> FLUX_MAX_LOCALS"
    using stmt_code_names(1) [OF all_cons(1)] ms(1) by simp
  have "\<exists>N. \<forall>n \<ge> N. stmts_compile n pw ns (stmt # stmts) (cs @ cs') (ls @ ms)"
    using eventually_conj [OF ms(2) [unfolded eventually_stmt_def] ls(2)] unfolding ms(1)
    by (auto intro: stmts_compile_Cons [OF _ _ len])
  then show ?case using ms(1) ls(1) by simp
qed

end
