(* ===== verification/CodeRun.thy ===== *)
theory CodeRun
  imports Folding Steps
begin

text \<open>
  The dispatch loop runs the code of \<open>CoreLang\<close> and does what the program means: the named values of the environment
  stand in the slots of the current frame, temporaries above them, and an expression leaves its value on top.
\<close>

section \<open>Code in the current frame\<close>

definition code_at :: "flux_vm \<Rightarrow> nat \<Rightarrow> byte list \<Rightarrow> bool" where
  "code_at vm ip bs \<longleftrightarrow> (\<exists>pre post. frame_code vm = Some (pre @ bs @ post) \<and> length pre = ip)"

lemma code_atE:
  assumes "code_at vm ip bs"
  obtains pre post where "frame_code vm = Some (pre @ bs @ post)" "length pre = ip"
  using assms by (auto simp: code_at_def)

lemma code_at_append: "code_at vm ip (as @ bs) \<longleftrightarrow> code_at vm ip as \<and> code_at vm (ip + length as) bs"
proof
  assume "code_at vm ip (as @ bs)"
  then obtain pre post where p: "frame_code vm = Some (pre @ as @ bs @ post)" "length pre = ip" by (auto simp: code_at_def)
  then show "code_at vm ip as \<and> code_at vm (ip + length as) bs"
    unfolding code_at_def by (intro conjI exI [of _ pre] exI [of _ "bs @ post"] exI [of _ "pre @ as"] exI [of _ post]) simp_all
next
  assume *: "code_at vm ip as \<and> code_at vm (ip + length as) bs"
  obtain pre post where p: "frame_code vm = Some (pre @ as @ post)" "length pre = ip" using * by (auto elim: code_atE)
  obtain pre' post' where q: "frame_code vm = Some (pre' @ bs @ post')" "length pre' = ip + length as" using * by (auto elim: code_atE)
  have "(pre @ as) @ post = pre' @ bs @ post'" using p(1) unfolding q(1) by simp
  then have "drop (length (pre @ as)) ((pre @ as) @ post) = drop (length pre') (pre' @ bs @ post')" using p(2) q(2) by simp
  then have "post = bs @ post'" by simp
  then have "frame_code vm = Some (pre @ (as @ bs) @ post')" using p(1) by simp
  then show "code_at vm ip (as @ bs)" unfolding code_at_def using p(2) by blast
qed

lemma code_at_Cons: "code_at vm ip (b # bs) \<Longrightarrow> code_at vm ip [b] \<and> code_at vm (Suc ip) bs"
  using code_at_append [of vm ip "[b]" bs] by simp

lemma frame_code_stack [simp]: "frame_code (vm\<lparr>vm_stack := st\<rparr>) = frame_code vm"
  by (simp add: frame_code_def top_frame_def frame_function_def)

lemma frame_slots_stack [simp]: "frame_slots (vm\<lparr>vm_stack := st\<rparr>) = frame_slots vm"
  by (simp add: frame_slots_def top_frame_def)

text \<open>The operands behind an opcode.\<close>

lemma read_int64_at: "read_int64 (pre @ le64 v @ post) (length pre) = Some (v, length pre + 8)"
  using read_int64_write [of "chunk_init\<lparr>ch_code := pre\<rparr>" v 0 post] ch_code_bytes8 [of 8 0 "chunk_init\<lparr>ch_code := pre\<rparr>" v 0]
  by (simp add: chunk_write_int64_def le64_def del: upt_Suc)

lemma read_double_at: "read_double (pre @ le64 v @ post) (length pre) = Some (v, length pre + 8)"
  using read_double_write [of "chunk_init\<lparr>ch_code := pre\<rparr>" v 0 post]
  by (simp add: chunk_write_double_def ch_code_bits8 le64_def del: upt_Suc)

lemma read_int16_at: "read_int16 (pre @ le16 v @ post) (length pre) = Some (sint v, length pre + 2)"
  using read_uint16_write [of "chunk_init\<lparr>ch_code := pre\<rparr>" v 0 post]
  by (simp add: read_int16_def ch_code_write_uint16 le16_def)

lemma sint_of_nat16: "n \<le> 0x7FFF \<Longrightarrow> sint (of_nat n :: uint16) = int n"
  by transfer (simp add: signed_take_bit_int_eq_self)

lemma fetch_int16_at:
  assumes "code_at vm ip (le16 (of_nat n))" "n \<le> 0x7FFF"
  shows "fetch_int16 vm ip = Some (int n, ip + 2)"
proof -
  obtain pre post where "frame_code vm = Some (pre @ le16 (of_nat n) @ post)" "length pre = ip" using assms(1) by (rule code_atE)
  then show ?thesis using read_int16_at [of pre "of_nat n" post] sint_of_nat16 [OF assms(2)] by (simp add: fetch_int16_def)
qed

lemma fetch_byte_at: "code_at vm ip [b] \<Longrightarrow> fetch_byte vm ip = Some (unat b, ip + 1)"
  by (erule code_atE) (auto simp: fetch_byte_def read_byte_def nth_opt_def nth_append)

section \<open>Runs\<close>

text \<open>A run from one instruction and stack to another, the rest of the machine unchanged.\<close>

definition runs :: "vm_env \<Rightarrow> nat \<Rightarrow> bool \<Rightarrow> flux_vm \<Rightarrow> nat \<Rightarrow> flux_value list \<Rightarrow> nat \<Rightarrow> flux_value list \<Rightarrow> bool" where
  "runs env base preserve vm ip st ip' st' \<longleftrightarrow>
     flux_reach env base preserve (vm\<lparr>vm_stack := st\<rparr>, ip) (vm\<lparr>vm_stack := st'\<rparr>, ip')"

lemma runs_refl: "runs env base preserve vm ip st ip st"
  by (simp add: runs_def flux_reach.refl)

lemma runs_trans:
  "runs env base preserve vm ip st ip1 st1 \<Longrightarrow> runs env base preserve vm ip1 st1 ip2 st2 \<Longrightarrow> runs env base preserve vm ip st ip2 st2"
  unfolding runs_def by (rule flux_reach_trans)

lemma run_step:
  assumes "code_at vm ip [opcode_byte op]"
    and "dispatch op (run_ctx 0 env) base preserve (vm\<lparr>vm_stack := st\<rparr>) (Suc ip) = Some (Continue (vm\<lparr>vm_stack := st'\<rparr>) ip')"
  shows "runs env base preserve vm ip st ip' st'"
proof -
  obtain pre post where "frame_code vm = Some (pre @ opcode_byte op # post)" "length pre = ip"
    using assms(1) by (auto elim!: code_atE)
  then have "vm_step (run_ctx 0 env) base preserve (vm\<lparr>vm_stack := st\<rparr>) ip = Some (Continue (vm\<lparr>vm_stack := st'\<rparr>) ip')"
    using assms(2) by (simp add: vm_step_def read_byte_def nth_opt_def nth_append)
  then show ?thesis unfolding runs_def by (meson flux_step.continue flux_reach.refl flux_reach.step)
qed


section \<open>Instructions\<close>

lemma immediate_truthy: "truth v = Some t \<Longrightarrow> immediate v \<and> value_is_truthy h v = Some t"
  by (cases v) (auto simp: truth_def)

lemma immediate_view: "immediate v \<Longrightarrow> view h v = Some None"
  by (cases v) simp_all

lemma immediate_compare: "compare_op dop iop [] a b = r \<Longrightarrow> immediate a \<Longrightarrow> immediate b \<Longrightarrow> compare_op dop iop h a b = r"
  by (erule subst, cases a; cases b; simp add: compare_op_def Let_def)

lemma immediate_equal: "value_equal [] a b = r \<Longrightarrow> immediate a \<Longrightarrow> immediate b \<Longrightarrow> value_equal h a b = r"
  by (erule subst, cases a; cases b; simp add: value_equal_def value_equal_depth.simps)

lemma binary_op_at:
  "f a b = Some (Some v) \<Longrightarrow> length st < FLUX_STACK_MAX \<Longrightarrow>
    binary_op f err (vm\<lparr>vm_stack := st @ [a, b]\<rparr>) ip = Some (Continue (vm\<lparr>vm_stack := st @ [v]\<rparr>) ip)"
  by (simp add: binary_op_def vm_pop_def butlast_append push_continue_def vm_push_def)

lemma division_op_at:
  "f a b = Some (Inr v) \<Longrightarrow> length st < FLUX_STACK_MAX \<Longrightarrow>
    division_op f zero err (vm\<lparr>vm_stack := st @ [a, b]\<rparr>) ip = Some (Continue (vm\<lparr>vm_stack := st @ [v]\<rparr>) ip)"
  by (simp add: division_op_def vm_pop_def butlast_append push_continue_def vm_push_def)

lemma compare_at:
  "compared dop iop a b = Some v \<Longrightarrow> immediate a \<Longrightarrow> immediate b \<Longrightarrow> length st < FLUX_STACK_MAX \<Longrightarrow>
    op_compare dop iop (vm\<lparr>vm_stack := st @ [a, b]\<rparr>) ip = Some (Continue (vm\<lparr>vm_stack := st @ [v]\<rparr>) ip)"
  by (auto simp: compared_def operand_result_Some op_compare_def vm_pop_def butlast_append push_continue_def vm_push_def
      dest: immediate_compare [where h = "vm_heap vm"])

lemma equality_at:
  "equality negate a b = Some v \<Longrightarrow> immediate a \<Longrightarrow> immediate b \<Longrightarrow> length st < FLUX_STACK_MAX \<Longrightarrow>
    op_equality negate c (vm\<lparr>vm_stack := st @ [a, b]\<rparr>) ip = Some (Continue (vm\<lparr>vm_stack := st @ [v]\<rparr>) ip)"
  by (auto simp: equality_def op_equality_def vm_pop_def butlast_append push_continue_def vm_push_def
      immediate_view dest: immediate_equal [where h = "vm_heap vm"])

lemma add_at:
  "numeric_binop (+) dbl_add a b = Some (Some v) \<Longrightarrow> immediate a \<Longrightarrow> length st < FLUX_STACK_MAX \<Longrightarrow>
    op_add (vm\<lparr>vm_stack := st @ [a, b]\<rparr>) ip = Some (Continue (vm\<lparr>vm_stack := st @ [v]\<rparr>) ip)"
  by (simp add: op_add_def value_add_def vm_peek_def nth_append immediate_view is_list_def vm_pop_def butlast_append
      push_continue_def vm_push_def)

lemmas operator_ops = op_sub_def op_mul_def op_div_def op_mod_def op_pow_def op_floor_div_def op_bit_and_def op_bit_or_def
  op_bit_xor_def op_shl_def op_shr_def op_eq_def op_neq_def op_lt_def op_lte_def op_gt_def op_gte_def

lemma operator_at:
  assumes "operator_value pw op a b = Some v" "env_pow env = pw" "length st < FLUX_STACK_MAX"
  shows "dispatch op (run_ctx n env) base preserve (vm\<lparr>vm_stack := st @ [a, b]\<rparr>) ip = Some (Continue (vm\<lparr>vm_stack := st @ [v]\<rparr>) ip)"
proof -
  have im: "immediate a" "immediate b" using assms(1) by (auto simp: operator_value_def split: if_splits)
  show ?thesis
    using assms im
    by (cases op)
      (simp_all add: operator_value_def dispatch_def operator_ops operand_result_Some division_result_Some add_at binary_op_at
        division_op_at compare_at equality_at run_ctx_def)
qed

lemma unary_at:
  assumes "unary_value op a = Some v" "length st < FLUX_STACK_MAX"
  shows "dispatch op (run_ctx 0 env) base preserve (vm\<lparr>vm_stack := st @ [a]\<rparr>) ip = Some (Continue (vm\<lparr>vm_stack := st @ [v]\<rparr>) ip)"
proof -
  have im: "immediate a" using assms(1) by (auto simp: unary_value_def split: if_splits)
  show ?thesis
    using assms im
    by (cases op)
      (auto simp: unary_value_def dispatch_def operand_result_Some op_negate_def op_bit_not_def op_not_def unary_op_def vm_pop_def
        push_continue_def vm_push_def dest: immediate_truthy [where h = "vm_heap vm"])
qed

lemma jump_code_at:
  assumes "code_at vm ip (jump_code op n)" "n \<le> 0x7FFF"
  shows "code_at vm ip [opcode_byte op]" "fetch_int16 (vm\<lparr>vm_stack := st\<rparr>) (Suc ip) = Some (int n, ip + 3)"
proof -
  have c: "code_at vm ip [opcode_byte op] \<and> code_at vm (Suc ip) (le16 (of_nat n))"
    using assms(1) code_at_Cons unfolding jump_code_def by blast
  then show "code_at vm ip [opcode_byte op]" by simp
  have "fetch_int16 vm (Suc ip) = Some (int n, ip + 3)" using fetch_int16_at [of vm "Suc ip" n] c assms(2) by simp
  then show "fetch_int16 (vm\<lparr>vm_stack := st\<rparr>) (Suc ip) = Some (int n, ip + 3)" by (simp add: fetch_int16_def)
qed

lemma run_jump:
  assumes "code_at vm ip (jump_code OP_JUMP n)" "n \<le> 0x7FFF"
  shows "runs env base preserve vm ip st (ip + 3 + n) st"
  by (rule run_step [OF jump_code_at(1) [OF assms]])
    (simp add: dispatch_def op_jump_def jump_code_at(2) [OF assms] jump_to_def nat_add_distrib nat_int_add)

lemma run_loop:
  assumes "code_at vm ip (jump_code OP_LOOP n)" "n \<le> 0x7FFF" "n \<le> ip + 3"
  shows "runs env base preserve vm ip st (ip + 3 - n) st"
  by (rule run_step [OF jump_code_at(1) [OF assms(1,2)]])
    (use assms(3) in \<open>simp add: dispatch_def op_loop_def jump_code_at(2) [OF assms(1,2)] jump_to_def nat_diff_distrib'\<close>)

text \<open>A conditional jump on the top of the stack; it stays there.\<close>

lemma run_branch:
  assumes "code_at vm ip (jump_code op n)" "n \<le> 0x7FFF" "truth v = Some t"
    and "op = OP_JUMP_IF_FALSE \<and> \<not> b \<or> op = OP_AND \<and> \<not> b \<or> op = OP_OR \<and> b"
  shows "runs env base preserve vm ip (st @ [v]) (if t = b then ip + 3 + n else ip + 3) (st @ [v])"
  by (rule run_step [OF jump_code_at(1) [OF assms(1,2)]])
    (use assms(4) immediate_truthy [OF assms(3)] in \<open>auto simp: dispatch_def op_jump_if_false_def op_and_def op_or_def jump_when_def
      jump_code_at(2) [OF assms(1,2)] vm_peek_def jump_to_def nat_int_add\<close>)

lemma run_pop: "code_at vm ip pop_code \<Longrightarrow> runs env base preserve vm ip (st @ [v]) (Suc ip) st"
  by (erule run_step) (simp add: dispatch_def op_pop_def vm_pop_def)

lemma run_pops:
  "code_at vm ip (replicate (length vs) (opcode_byte OP_POP)) \<Longrightarrow> runs env base preserve vm ip (st @ vs) (ip + length vs) st"
proof (induction vs arbitrary: ip rule: rev_induct)
  case (snoc v vs)
  have c: "code_at vm ip pop_code" "code_at vm (Suc ip) (replicate (length vs) (opcode_byte OP_POP))"
    using snoc.prems by (simp_all add: code_at_Cons)
  have "runs env base preserve vm ip ((st @ vs) @ [v]) (Suc ip) (st @ vs)" by (rule run_pop [OF c(1)])
  from runs_trans [OF this snoc.IH [OF c(2)]] show ?case by simp
qed (simp add: runs_refl)

lemma slot_code_at:
  assumes "code_at vm ip (slot_code op i)" "i < 256"
  shows "code_at vm ip [opcode_byte op]" "fetch_byte (vm\<lparr>vm_stack := st\<rparr>) (Suc ip) = Some (i, ip + 2)"
proof -
  have c: "code_at vm ip [opcode_byte op] \<and> code_at vm (Suc ip) [of_nat i]"
    using assms(1) code_at_Cons unfolding slot_code_def by blast
  then show "code_at vm ip [opcode_byte op]" by simp
  have "unat (of_nat i :: byte) = i" using assms(2) by (simp add: unat_of_nat)
  then show "fetch_byte (vm\<lparr>vm_stack := st\<rparr>) (Suc ip) = Some (i, ip + 2)" using fetch_byte_at [of vm "Suc ip" "of_nat i"] c by (simp add: fetch_byte_def)
qed

lemma run_load:
  assumes "code_at vm ip (slot_code OP_LOAD_LOCAL i)" "i < 256" "frame_slots vm = Some (length lo)"
    and "i < length vs" "length (lo @ vs @ st) < FLUX_STACK_MAX"
  shows "runs env base preserve vm ip (lo @ vs @ st) (ip + 2) (lo @ vs @ st @ [vs ! i])"
  by (rule run_step [OF slot_code_at(1) [OF assms(1,2)]])
    (use assms(3-5) in \<open>simp add: dispatch_def op_load_local_def slot_code_at(2) [OF assms(1,2)] nth_opt_def nth_append
      push_continue_def vm_push_def\<close>)

lemma run_store:
  assumes "code_at vm ip (slot_code OP_STORE_LOCAL i)" "i < 256" "frame_slots vm = Some (length lo)" "i < length vs"
  shows "runs env base preserve vm ip (lo @ vs @ st @ [v]) (ip + 2) (lo @ vs[i := v] @ st @ [v])"
  by (rule run_step [OF slot_code_at(1) [OF assms(1,2)]])
    (use assms(3,4) in \<open>simp add: dispatch_def op_store_local_def slot_code_at(2) [OF assms(1,2)] vm_peek_def set_nth_def
      list_update_append nth_append\<close>)

lemma run_literal:
  assumes "code_at vm ip (literal_code v)" "immediate v" "length st < FLUX_STACK_MAX"
  shows "runs env base preserve vm ip st (ip + length (literal_code v)) (st @ [v])"
proof -
  have c: "code_at vm ip [opcode_byte op] \<and> code_at vm (Suc ip) bs" if "literal_code v = opcode_byte op # bs" for op bs
    using assms(1) code_at_Cons that by simp
  show ?thesis
  proof (cases v)
    case (VAL_INT i)
    then have "code_at vm ip [opcode_byte OP_PUSH_INT]" "code_at vm (Suc ip) (le64 i)"
      using c [of OP_PUSH_INT "le64 i"] by (simp_all add: literal_code_def)
    moreover from this obtain pre post where "frame_code vm = Some (pre @ le64 i @ post)" "length pre = Suc ip" by (auto elim: code_atE)
    ultimately show ?thesis using VAL_INT assms(3) read_int64_at [of pre i post]
      by (intro run_step) (auto simp: dispatch_def op_push_int_def push_continue_def vm_push_def literal_code_def)
  next
    case (VAL_FLOAT d)
    then have "code_at vm ip [opcode_byte OP_PUSH_FLOAT]" "code_at vm (Suc ip) (le64 d)"
      using c [of OP_PUSH_FLOAT "le64 d"] by (simp_all add: literal_code_def)
    moreover from this obtain pre post where "frame_code vm = Some (pre @ le64 d @ post)" "length pre = Suc ip" by (auto elim: code_atE)
    ultimately show ?thesis using VAL_FLOAT assms(3) read_double_at [of pre d post]
      by (intro run_step) (auto simp: dispatch_def op_push_float_def push_continue_def vm_push_def literal_code_def)
  next
    case (VAL_BOOL b)
    then have "code_at vm ip [opcode_byte OP_PUSH_BOOL]" "code_at vm (Suc ip) [if b then 1 else 0]"
      using c [of OP_PUSH_BOOL "[if b then 1 else 0]"] by (simp_all add: literal_code_def)
    then show ?thesis using VAL_BOOL assms(3) fetch_byte_at [of vm "Suc ip"]
      by (intro run_step) (auto simp: dispatch_def op_push_bool_def push_continue_def vm_push_def literal_code_def fetch_byte_def)
  next
    case VAL_NULL
    then have "code_at vm ip [opcode_byte OP_PUSH_NULL]" using assms(1) by (simp add: literal_code_def)
    then show ?thesis using VAL_NULL assms(3)
      by (intro run_step) (auto simp: dispatch_def op_push_null_def push_continue_def vm_push_def literal_code_def)
  qed (use assms(2) in simp)
qed

lemma run_operator:
  assumes "code_at vm ip [opcode_byte op]" "operator_value pw op a b = Some v" "env_pow env = pw" "length st < FLUX_STACK_MAX"
  shows "runs env base preserve vm ip (st @ [a, b]) (Suc ip) (st @ [v])"
  by (rule run_step [OF assms(1) operator_at [OF assms(2-4)]])

lemma run_unary:
  assumes "code_at vm ip [opcode_byte op]" "unary_value op a = Some v" "length st < FLUX_STACK_MAX"
  shows "runs env base preserve vm ip (st @ [a]) (Suc ip) (st @ [v])"
  by (rule run_step [OF assms(1) unary_at [OF assms(2,3)]])

section \<open>The environment on the stack\<close>

definition slots :: "env \<Rightarrow> flux_value list" where
  "slots s = rev (map snd s)"

lemma length_slots [simp]: "length (slots s) = length s"
  by (simp add: slots_def)

lemma slot_of_lookup: "slot_of (map fst s) x = Some i \<Longrightarrow> i < length s \<and> map_of s x = Some (slots s ! i)"
  by (induction s) (auto simp: slots_def nth_append split: if_splits)

lemma slots_update: "slot_of (map fst s) x = Some i \<Longrightarrow> slots (AList.update x v s) = (slots s)[i := v]"
  using slot_of_lookup
  by (induction s) (fastforce simp: slots_def list_update_append split: if_splits)+

lemma names_update: "x \<in> fst ` set s \<Longrightarrow> map fst (AList.update x v s) = map fst s"
  by (induction s) auto

lemma slots_append: "slots (t @ s) = slots s @ slots t"
  by (simp add: slots_def)

lemma evals_names: "evals pw s e v s' \<Longrightarrow> map fst s' = map fst s"
proof (induction rule: evals.induct)
  case (assign s e v s1 x p q)
  then show ?case using names_update by metis
next
  case (walrus s e v s1 x p)
  then show ?case using names_update by metis
next
  case (augmented s x a e b s1 op v p q)
  have "x \<in> fst ` set s" using augmented(1) by (metis domI dom_map_of_conv_image_fst)
  then have "x \<in> fst ` set s1" using augmented by (metis list.set_map)
  then show ?case using augmented names_update by metis
qed auto

lemma evals_length: "evals pw s e v s' \<Longrightarrow> length s' = length s"
  using evals_names by (metis length_map)

section \<open>Segments\<close>

text \<open>A piece of code takes one stack to another and ends behind itself; it needs no more room than one value for a byte.\<close>

type_synonym host = "vm_env \<times> nat \<times> bool \<times> flux_vm"

fun segment :: "host \<Rightarrow> byte list \<Rightarrow> flux_value list \<Rightarrow> flux_value list \<Rightarrow> bool" where
  "segment (env, base, preserve, vm) bs st st' \<longleftrightarrow> length st' \<le> length st + length bs \<and>
     (\<forall>ip. code_at vm ip bs \<longrightarrow> length st + length bs \<le> FLUX_STACK_MAX \<longrightarrow> runs env base preserve vm ip st (ip + length bs) st')"

fun hosts :: "host \<Rightarrow> power \<Rightarrow> nat \<Rightarrow> bool" where
  "hosts (env, base, preserve, vm) pw slot \<longleftrightarrow> env_pow env = pw \<and> frame_slots vm = Some slot"

named_theorems segments \<open>rules for pieces of code\<close>

lemma seg_nil [segments]: "segment h [] st st"
  by (cases h) (simp add: runs_refl)

lemma seg_append:
  assumes "segment h as st st1" "segment h bs st1 st2"
  shows "segment h (as @ bs) st st2"
proof (cases h)
  case (fields env base preserve vm)
  show ?thesis unfolding fields segment.simps
  proof (intro conjI allI impI)
    show "length st2 \<le> length st + length (as @ bs)" using assms by (simp add: fields)
    fix ip assume c: "code_at vm ip (as @ bs)" and l: "length st + length (as @ bs) \<le> FLUX_STACK_MAX"
    have "runs env base preserve vm ip st (ip + length as) st1" using assms(1) c l by (simp add: fields code_at_append)
    moreover have "runs env base preserve vm (ip + length as) st1 (ip + length as + length bs) st2"
      using assms c l by (simp add: fields code_at_append)
    ultimately show "runs env base preserve vm ip st (ip + length (as @ bs)) st2" using runs_trans by (simp add: add.assoc)
  qed
qed

lemma seg_literal [segments]: "immediate v \<Longrightarrow> segment h (literal_code v) st (st @ [v])"
proof (cases h)
  case (fields env base preserve vm)
  assume v: "immediate v"
  have l: "1 \<le> length (literal_code v)" by (simp add: literal_code_def split: flux_value.split)
  have "length st < FLUX_STACK_MAX" if "length st + length (literal_code v) \<le> FLUX_STACK_MAX" using l that by linarith
  then show ?thesis unfolding fields segment.simps using run_literal [OF _ v] l by auto
qed

lemma seg_load:
  assumes "hosts h pw (length lo)" "slot_of (map fst s) x = Some i" "length s \<le> 256"
  shows "segment h (slot_code OP_LOAD_LOCAL i) (lo @ slots s @ st) (lo @ slots s @ st @ [the (map_of s x)])"
proof (cases h)
  case (fields env base preserve vm)
  have "i < length s" "the (map_of s x) = slots s ! i" using slot_of_lookup [OF assms(2)] by simp_all
  then show ?thesis using assms(1,3) unfolding fields
    by (auto intro!: run_load [where lo = lo, simplified] simp: slot_code_def)
qed

lemma seg_store:
  assumes "hosts h pw (length lo)" "slot_of (map fst s) x = Some i" "length s \<le> 256"
  shows "segment h (slot_code OP_STORE_LOCAL i) (lo @ slots s @ st @ [v]) (lo @ slots (AList.update x v s) @ st @ [v])"
proof (cases h)
  case (fields env base preserve vm)
  have "i < length s" using slot_of_lookup [OF assms(2)] by simp
  then show ?thesis using assms(1,3) unfolding fields slots_update [OF assms(2)]
    by (auto intro!: run_store [where lo = lo, simplified] simp: slot_code_def)
qed

lemma seg_operator:
  "operator_value pw op a b = Some v \<Longrightarrow> hosts h pw n \<Longrightarrow> segment h [opcode_byte op] (st @ [a, b]) (st @ [v])"
  by (cases h) (auto intro!: run_operator)

lemma seg_unary: "unary_value op a = Some v \<Longrightarrow> segment h [opcode_byte op] (st @ [a]) (st @ [v])"
  by (cases h) (auto intro!: run_unary)

lemma seg_pop [segments]: "segment h pop_code (st @ [v]) st"
  by (cases h) (auto intro!: run_pop)

lemma seg_pops: "length vs = n \<Longrightarrow> segment h (replicate n (opcode_byte OP_POP)) (st @ vs) st"
  by (cases h) (auto intro!: run_pops)

lemma length_jump_code [simp]: "length (jump_code op n) = 3"
  by (simp add: jump_code_def)

lemma seg_skip:
  assumes "length mid \<le> 0x7FFF"
  shows "segment h (jump_code OP_JUMP (length mid) @ mid) st st"
proof (cases h)
  case (fields env base preserve vm)
  show ?thesis unfolding fields using run_jump [where n = "length mid"] assms by (auto simp: code_at_append add.assoc)
qed

definition branches :: "opcode \<Rightarrow> bool \<Rightarrow> bool" where
  "branches op b \<longleftrightarrow> op = OP_JUMP_IF_FALSE \<and> \<not> b \<or> op = OP_AND \<and> \<not> b \<or> op = OP_OR \<and> b"

lemma branches_simps [simp]: "branches OP_JUMP_IF_FALSE False" "branches OP_AND False" "branches OP_OR True"
  by (simp_all add: branches_def)

lemma seg_taken:
  assumes "length mid \<le> 0x7FFF" "truth v = Some b" "branches op b"
  shows "segment h (jump_code op (length mid) @ mid) (st @ [v]) (st @ [v])"
proof (cases h)
  case (fields env base preserve vm)
  show ?thesis unfolding fields
    using run_branch [where n = "length mid", OF _ assms(1,2) assms(3) [unfolded branches_def]] by (auto simp: code_at_append add.assoc)
qed

lemma seg_fall:
  assumes "n \<le> 0x7FFF" "truth v = Some (\<not> b)" "branches op b"
  shows "segment h (jump_code op n) (st @ [v]) (st @ [v])"
proof (cases h)
  case (fields env base preserve vm)
  show ?thesis unfolding fields
    using run_branch [OF _ assms(1,2) assms(3) [unfolded branches_def]] by (cases b) auto
qed

text \<open>Short circuits, conditionals and loops.\<close>

lemma seg_circuit_stop:
  assumes "segment h c st (st1 @ [v])" "truth v = Some b" "branches op b" "length bs < 0x7FFF"
  shows "segment h (c @ jump_code op (length bs + 1) @ pop_code @ bs) st (st1 @ [v])"
  using seg_append [OF assms(1) seg_taken [where mid = "pop_code @ bs", OF _ assms(2,3)]] assms(4) by simp

lemma seg_circuit_go:
  assumes "segment h c st (st1 @ [v])" "truth v = Some (\<not> b)" "branches op b" "segment h bs st1 st2" "length bs < 0x7FFF"
  shows "segment h (c @ jump_code op (length bs + 1) @ pop_code @ bs) st st2"
  by (rule seg_append [OF assms(1) seg_append [OF seg_fall [OF _ assms(2,3)] seg_append [OF seg_pop assms(4)]]])
    (use assms(5) in simp)

lemma seg_branch_then:
  assumes "segment h c st (st1 @ [v])" "truth v = Some True" "segment h t st1 st2" "length (branch_code c t e) \<le> 0x7FFF"
  shows "segment h (branch_code c t e) st st2"
proof -
  have "segment h (jump_code OP_JUMP_IF_FALSE (length t + 4)) (st1 @ [v]) (st1 @ [v])"
    by (rule seg_fall [where b = False]) (use assms(2,4) in \<open>simp_all add: branch_code_def\<close>)
  moreover have "segment h (jump_code OP_JUMP (length e + 1) @ pop_code @ e) st2 st2"
    using seg_skip [where mid = "pop_code @ e"] assms(4) by (simp add: branch_code_def)
  ultimately show ?thesis unfolding branch_code_def
    using seg_append [OF assms(1) seg_append [OF _ seg_append [OF seg_pop seg_append [OF assms(3)]]]] by blast
qed

lemma seg_branch_else:
  assumes "segment h c st (st1 @ [v])" "truth v = Some False" "segment h e st1 st2" "length (branch_code c t e) \<le> 0x7FFF"
  shows "segment h (branch_code c t e) st st2"
proof -
  let ?mid = "pop_code @ t @ jump_code OP_JUMP (length e + 1)"
  have "segment h (jump_code OP_JUMP_IF_FALSE (length ?mid) @ ?mid) (st1 @ [v]) (st1 @ [v])"
    by (rule seg_taken [where b = False]) (use assms(2,4) in \<open>simp_all add: branch_code_def\<close>)
  from seg_append [OF assms(1) seg_append [OF this seg_append [OF seg_pop assms(3)]]]
  show ?thesis by (simp add: branch_code_def add.commute)
qed

lemma expr_code_nonempty: "expr_code pw ns e bs \<Longrightarrow> 0 < length bs"
  by (induction rule: expr_code.induct)
    (simp_all add: literal_code_def slot_code_def branch_code_def jump_code_def split: flux_value.split)

section \<open>Expressions\<close>

inductive_cases literal_evals:
  "evals pw s (AST_INT p i) v s'"
  "evals pw s (AST_FLOAT p d) v s'"

lemma evals_literal: "evals pw s e v s' \<Longrightarrow> literal_value e = Some a \<Longrightarrow> v = a \<and> s' = s"
  by (cases e) (auto elim: literal_evals)

inductive_cases expr_codeE:
  "expr_code pw ns (AST_INT p i) bs"
  "expr_code pw ns (AST_FLOAT p d) bs"
  "expr_code pw ns (AST_BOOL p b) bs"
  "expr_code pw ns (AST_NULL p) bs"
  "expr_code pw ns (AST_IDENT p x) bs"
  "expr_code pw ns (AST_BINARY p op l r) bs"
  "expr_code pw ns (AST_UNARY p op e) bs"
  "expr_code pw ns (AST_TERNARY p c t e) bs"
  "expr_code pw ns (AST_ASSIGN p (AST_IDENT q x) e) bs"
  "expr_code pw ns (AST_WALRUS p x e) bs"
  "expr_code pw ns (AST_AUGMENTED_ASSIGN p (AST_IDENT q x) e op) bs"

lemma short_circuit_code:
  assumes "expr_code pw ns (AST_BINARY p op l r) bs"
  shows "op = TOK_AND \<Longrightarrow> \<exists>cl cr. bs = cl @ jump_code OP_AND (length cr + 1) @ pop_code @ cr \<and> expr_code pw ns l cl \<and> expr_code pw ns r cr"
    and "op = TOK_OR \<Longrightarrow> \<exists>cl cr. bs = cl @ jump_code OP_OR (length cr + 1) @ pop_code @ cr \<and> expr_code pw ns l cl \<and> expr_code pw ns r cr"
  using assms by (auto elim!: expr_codeE(6) dest: fold_not_short)

lemma operator_code:
  assumes "expr_code pw ns (AST_BINARY p op l r) bs" "op \<noteq> TOK_AND" "op \<noteq> TOK_OR"
  shows "(\<exists>v. bs = literal_code v \<and> exact_fold op l r \<and> fold_binary pw op l r = Some (Some v)) \<or>
    (\<exists>opc cl cr. bs = cl @ cr @ [opcode_byte opc] \<and> binary_opcode op = Some opc \<and> expr_code pw ns l cl \<and> expr_code pw ns r cr)"
  using assms by (auto elim!: expr_codeE(6))

text \<open>An expression of the core computes its value and leaves it on the stack.\<close>

lemma run_expr:
  assumes "evals pw s e v s'" "hosts h pw (length lo)"
  shows "expr_code pw (map fst s) e bs \<Longrightarrow> length bs \<le> 0x7FFF \<Longrightarrow> length s \<le> 256 \<Longrightarrow>
    segment h bs (lo @ slots s @ st) (lo @ slots s' @ st @ [v])"
  using assms(1)
proof (induction arbitrary: bs st rule: evals.induct)
  case (int s p i)
  then show ?case using seg_literal [of "VAL_INT i" h "lo @ slots s @ st"] by (auto elim!: expr_codeE)
next
  case (float s p d)
  then show ?case using seg_literal [of "VAL_FLOAT d" h "lo @ slots s @ st"] by (auto elim!: expr_codeE)
next
  case (bool s p b)
  then show ?case using seg_literal [of "VAL_BOOL b" h "lo @ slots s @ st"] by (auto elim!: expr_codeE)
next
  case (null s p)
  then show ?case using seg_literal [of VAL_NULL h "lo @ slots s @ st"] by (auto elim!: expr_codeE)
next
  case (ident s x v p)
  then show ?case using seg_load [OF assms(2), of s x] by (auto elim!: expr_codeE)
next
  case (binary op s l a s1 r b s2 v p)
  have n: "map fst s1 = map fst s" "length s1 = length s" using evals_names [OF binary(3)] evals_length [OF binary(3)] .
  from operator_code [OF binary.prems(1) binary(1,2)] show ?case
  proof (elim disjE exE conjE)
    fix v' assume c: "bs = literal_code v'" "exact_fold op l r" "fold_binary pw op l r = Some (Some v')"
    obtain a' b' where ab: "literal_value l = Some a'" "literal_value r = Some b'" "binary_value pw op a' b' = Some v'"
      using fold_exact [OF c(2,3)] by blast
    have "a = a'" "b = b'" "s2 = s" using evals_literal [OF binary(3) ab(1)] evals_literal [OF binary(4) ab(2)] by simp_all
    then have "v = v'" using ab(3) binary(5) by simp
    moreover have "immediate v'" using fold_immediate [OF c(3)] by simp
    ultimately show ?case using seg_literal [of v' h "lo @ slots s @ st"] c(1) \<open>s2 = s\<close> by simp
  next
    fix opc cl cr assume c: "bs = cl @ cr @ [opcode_byte opc]" "binary_opcode op = Some opc"
      "expr_code pw (map fst s) l cl" "expr_code pw (map fst s) r cr"
    have "segment h cl (lo @ slots s @ st) (lo @ slots s1 @ st @ [a])" using binary.IH(1) binary.prems c by simp
    moreover have "segment h cr (lo @ slots s1 @ st @ [a]) (lo @ slots s2 @ st @ [a, b])"
      using binary.IH(2) [of cr "st @ [a]"] binary.prems c n by simp
    moreover have "operator_value pw opc a b = Some v" using binary(5) c(2) by (simp add: binary_value_code)
    then have "segment h [opcode_byte opc] (lo @ slots s2 @ st @ [a, b]) (lo @ slots s2 @ st @ [v])"
      using seg_operator [OF _ assms(2), of opc a b v "lo @ slots s2 @ st"] by simp
    ultimately show ?case unfolding c(1) by (intro seg_append)
  qed
next
  case (and_stop s l a s1 p r)
  then obtain cl cr where c: "bs = cl @ jump_code OP_AND (length cr + 1) @ pop_code @ cr" "expr_code pw (map fst s) l cl"
    using short_circuit_code(1) by blast
  have "segment h cl (lo @ slots s @ st) ((lo @ slots s1 @ st) @ [a])" using and_stop c by simp
  from seg_circuit_stop [OF this and_stop(2), of OP_AND cr] show ?case using and_stop.prems c by simp
next
  case (and_go s l a s1 r b s2 p)
  then obtain cl cr where c: "bs = cl @ jump_code OP_AND (length cr + 1) @ pop_code @ cr" "expr_code pw (map fst s) l cl"
    "expr_code pw (map fst s) r cr" using short_circuit_code(1) by blast
  have n: "map fst s1 = map fst s" "length s1 = length s" using evals_names [OF and_go(1)] evals_length [OF and_go(1)] .
  have l: "segment h cl (lo @ slots s @ st) ((lo @ slots s1 @ st) @ [a])" using and_go c by simp
  have r: "segment h cr (lo @ slots s1 @ st) (lo @ slots s2 @ st @ [b])" using and_go c n by simp
  from seg_circuit_go [OF l, where b = False and op = OP_AND, OF _ _ r] show ?case using and_go.prems and_go(2) c by simp
next
  case (or_stop s l a s1 p r)
  then obtain cl cr where c: "bs = cl @ jump_code OP_OR (length cr + 1) @ pop_code @ cr" "expr_code pw (map fst s) l cl"
    using short_circuit_code(2) by blast
  have "segment h cl (lo @ slots s @ st) ((lo @ slots s1 @ st) @ [a])" using or_stop c by simp
  from seg_circuit_stop [OF this or_stop(2), of OP_OR cr] show ?case using or_stop.prems c by simp
next
  case (or_go s l a s1 r b s2 p)
  then obtain cl cr where c: "bs = cl @ jump_code OP_OR (length cr + 1) @ pop_code @ cr" "expr_code pw (map fst s) l cl"
    "expr_code pw (map fst s) r cr" using short_circuit_code(2) by blast
  have n: "map fst s1 = map fst s" "length s1 = length s" using evals_names [OF or_go(1)] evals_length [OF or_go(1)] .
  have l: "segment h cl (lo @ slots s @ st) ((lo @ slots s1 @ st) @ [a])" using or_go c by simp
  have r: "segment h cr (lo @ slots s1 @ st) (lo @ slots s2 @ st @ [b])" using or_go c n by simp
  from seg_circuit_go [OF l, where b = True and op = OP_OR, OF _ _ r] show ?case using or_go.prems or_go(2) c by simp
next
  case (unary s e a s1 op v p)
  then obtain opc ce where c: "bs = ce @ [opcode_byte opc]" "unary_opcode op = Some opc" "expr_code pw (map fst s) e ce"
    by (auto elim!: expr_codeE)
  have "segment h ce (lo @ slots s @ st) ((lo @ slots s1 @ st) @ [a])" using unary c by simp
  moreover have "unary_value opc a = Some v" using unary(2) c(2) by (simp add: prefix_value_code)
  ultimately show ?case unfolding c(1) using seg_append [OF _ seg_unary] by fastforce
next
  case (ternary_then s c a s1 t v s2 p e)
  then obtain cc ct ce where k: "bs = branch_code cc ct ce" "expr_code pw (map fst s) c cc" "expr_code pw (map fst s) t ct"
    by (auto elim!: expr_codeE)
  have n: "map fst s1 = map fst s" "length s1 = length s" using evals_names [OF ternary_then(1)] evals_length [OF ternary_then(1)] .
  have len: "length cc \<le> 0x7FFF" "length ct \<le> 0x7FFF" using ternary_then.prems(2) by (simp_all add: k(1) branch_code_def)
  have l: "segment h cc (lo @ slots s @ st) ((lo @ slots s1 @ st) @ [a])" using ternary_then k len by simp
  have r: "segment h ct (lo @ slots s1 @ st) (lo @ slots s2 @ st @ [v])" using ternary_then k n len by simp
  show ?case unfolding k(1) by (rule seg_branch_then [OF l ternary_then(2) r]) (use ternary_then.prems k(1) in simp)
next
  case (ternary_else s c a s1 e v s2 p t)
  then obtain cc ct ce where k: "bs = branch_code cc ct ce" "expr_code pw (map fst s) c cc" "expr_code pw (map fst s) e ce"
    by (auto elim!: expr_codeE)
  have n: "map fst s1 = map fst s" "length s1 = length s" using evals_names [OF ternary_else(1)] evals_length [OF ternary_else(1)] .
  have len: "length cc \<le> 0x7FFF" "length ce \<le> 0x7FFF" using ternary_else.prems(2) by (simp_all add: k(1) branch_code_def)
  have l: "segment h cc (lo @ slots s @ st) ((lo @ slots s1 @ st) @ [a])" using ternary_else k len by simp
  have r: "segment h ce (lo @ slots s1 @ st) (lo @ slots s2 @ st @ [v])" using ternary_else k n len by simp
  show ?case unfolding k(1) by (rule seg_branch_else [OF l ternary_else(2) r]) (use ternary_else.prems k(1) in simp)
next
  case (assign s e v s1 x p q)
  then obtain i ce where c: "bs = ce @ slot_code OP_STORE_LOCAL i" "slot_of (map fst s) x = Some i" "expr_code pw (map fst s) e ce"
    by (auto elim!: expr_codeE)
  have n: "map fst s1 = map fst s" "length s1 = length s" using evals_names [OF assign(1)] evals_length [OF assign(1)] .
  show ?case unfolding c(1)
    by (rule seg_append [OF assign.IH seg_store [OF assms(2)]]) (use assign.prems c n in simp_all)
next
  case (walrus s e v s1 x p)
  then obtain i ce where c: "bs = ce @ slot_code OP_STORE_LOCAL i" "slot_of (map fst s) x = Some i" "expr_code pw (map fst s) e ce"
    by (auto elim!: expr_codeE)
  have n: "map fst s1 = map fst s" "length s1 = length s" using evals_names [OF walrus(1)] evals_length [OF walrus(1)] .
  show ?case unfolding c(1)
    by (rule seg_append [OF walrus.IH seg_store [OF assms(2)]]) (use walrus.prems c n in simp_all)
next
  case (augmented s x a e b s1 op v p q)
  then obtain i ce opc where c: "bs = slot_code OP_LOAD_LOCAL i @ ce @ [opcode_byte opc] @ slot_code OP_STORE_LOCAL i"
    "slot_of (map fst s) x = Some i" "expr_code pw (map fst s) e ce" "aug_opcode op = Some opc"
    by (auto elim!: expr_codeE)
  have n: "map fst s1 = map fst s" "length s1 = length s" using evals_names [OF augmented(2)] evals_length [OF augmented(2)] .
  have "segment h (slot_code OP_LOAD_LOCAL i) (lo @ slots s @ st) (lo @ slots s @ st @ [a])"
    using seg_load [OF assms(2) c(2) augmented.prems(3), of st] augmented(1) by simp
  moreover have "segment h ce (lo @ slots s @ st @ [a]) (lo @ slots s1 @ st @ [a, b])"
    using augmented.IH [of ce "st @ [a]"] augmented.prems c by simp
  moreover have "operator_value pw opc a b = Some v" using augmented(3) c(4) by (simp add: aug_value_code)
  then have "segment h [opcode_byte opc] (lo @ slots s1 @ st @ [a, b]) (lo @ slots s1 @ st @ [v])"
    using seg_operator [OF _ assms(2), of opc a b v "lo @ slots s1 @ st"] by simp
  moreover have "segment h (slot_code OP_STORE_LOCAL i) (lo @ slots s1 @ st @ [v]) (lo @ slots (AList.update x v s1) @ st @ [v])"
    by (rule seg_store [OF assms(2)]) (use augmented.prems c n in simp_all)
  ultimately show ?case unfolding c(1) by (intro seg_append)
qed

section \<open>Statements\<close>

lemma seg_leave:
  assumes "length s1 \<le> length s2"
  shows "segment h (replicate (length s2 - length s1) (opcode_byte OP_POP)) (lo @ slots s2) (lo @ slots (leave_scope s1 s2))"
proof -
  let ?n = "length s2 - length s1"
  have "slots s2 = slots (leave_scope s1 s2) @ slots (take ?n s2)"
    using slots_append [of "take ?n s2" "drop ?n s2"] by (simp add: leave_scope_def)
  moreover have "length (slots (take ?n s2)) = ?n" by simp
  ultimately show ?thesis using seg_pops [of "slots (take ?n s2)" ?n h "lo @ slots (leave_scope s1 s2)"] by simp
qed

lemma seg_while_end:
  assumes "segment h c st (st1 @ [v])" "truth v = Some False" "length (while_code c b) \<le> 0x7FFF"
  shows "segment h (while_code c b) st st1"
proof -
  let ?mid = "pop_code @ b @ jump_code OP_LOOP (length c + length b + 7)"
  have "segment h (jump_code OP_JUMP_IF_FALSE (length ?mid) @ ?mid) (st1 @ [v]) (st1 @ [v])"
    by (rule seg_taken [where b = False]) (use assms(2,3) in \<open>simp_all add: while_code_def\<close>)
  from seg_append [OF assms(1) seg_append [OF this seg_pop]] show ?thesis by (simp add: while_code_def add.commute)
qed

lemma seg_while_turn:
  assumes "segment h c st (st1 @ [v])" "truth v = Some True" "segment h b st1 st2" "segment h (while_code c b) st2 st3"
    and "length (while_code c b) \<le> 0x7FFF" "length st2 \<le> length st"
  shows "segment h (while_code c b) st st3"
proof (cases h)
  case (fields env base preserve vm)
  let ?body = "c @ jump_code OP_JUMP_IF_FALSE (length b + 4) @ pop_code @ b"
  let ?off = "length c + length b + 7"
  have code: "while_code c b = ?body @ jump_code OP_LOOP ?off @ pop_code" by (simp add: while_code_def)
  have "segment h (jump_code OP_JUMP_IF_FALSE (length b + 4)) (st1 @ [v]) (st1 @ [v])"
    by (rule seg_fall [where b = False]) (use assms(2,5) in \<open>simp_all add: while_code_def\<close>)
  from seg_append [OF assms(1) seg_append [OF this seg_append [OF seg_pop assms(3)]]]
  have body: "segment h ?body st st2" .
  have dist: "length ?body + 3 = ?off" "?off \<le> 0x7FFF" using assms(5) by (simp_all add: while_code_def)
  show ?thesis unfolding fields segment.simps
  proof (intro conjI allI impI)
    show "length st3 \<le> length st + length (while_code c b)" using assms(4,6) by (simp add: fields)
    fix ip assume at: "code_at vm ip (while_code c b)" and room: "length st + length (while_code c b) \<le> FLUX_STACK_MAX"
    have at': "code_at vm ip ?body" "code_at vm (ip + length ?body) (jump_code OP_LOOP ?off)"
      using at unfolding code code_at_append by simp_all
    have "length st + length ?body \<le> FLUX_STACK_MAX" using room unfolding code by simp
    then have "runs env base preserve vm ip st (ip + length ?body) st2" using body at'(1) unfolding fields segment.simps by blast
    moreover have "runs env base preserve vm (ip + length ?body) st2 (ip + length ?body + 3 - ?off) st2"
      by (rule run_loop [OF at'(2) dist(2)]) (use dist(1) in linarith)
    moreover have "ip + length ?body + 3 - ?off = ip" using dist(1) by linarith
    moreover have "runs env base preserve vm ip st2 (ip + length (while_code c b)) st3"
      using assms(4,6) at room unfolding fields segment.simps by simp
    ultimately show "runs env base preserve vm ip st (ip + length (while_code c b)) st3" using runs_trans by metis
  qed
qed

inductive_cases stmt_codeE:
  "stmt_code pw ns (AST_PASS p) bs ns'"
  "stmt_code pw ns (AST_EXPR_STMT p e) bs ns'"
  "stmt_code pw ns (AST_LET_DECL p x e k) bs ns'"
  "stmt_code pw ns (AST_BLOCK p stmts) bs ns'"
  "stmt_code pw ns (AST_IF p c t [] [] None) bs ns'"
  "stmt_code pw ns (AST_IF p c t [] [] (Some e)) bs ns'"
  "stmt_code pw ns (AST_WHILE p c b) bs ns'"

inductive_cases stmts_codeE:
  "stmts_code pw ns [] bs ns'"
  "stmts_code pw ns (stmt # stmts) bs ns'"


lemma names_leave_scope: "map fst s2 = ms @ map fst s1 \<Longrightarrow> map fst (leave_scope s1 s2) = map fst s1 \<and> length s1 \<le> length s2"
proof -
  assume n: "map fst s2 = ms @ map fst s1"
  then have "length s2 = length ms + length s1" by (metis length_append length_map)
  then show ?thesis using n by (simp add: leave_scope_def drop_map [symmetric])
qed

text \<open>What is left of a scope after its code and the pops at its end.\<close>

lemma seg_scope:
  assumes "segment h ct (lo @ slots s1) (lo @ slots s2)" "map fst s2 = ns2" "stmt_code pw (map fst s1) t ct ns2"
  shows "segment h (ct @ end_scope_code (map fst s1) ns2) (lo @ slots s1) (lo @ slots (leave_scope s1 s2)) \<and>
    map fst (leave_scope s1 s2) = map fst s1"
proof -
  obtain ms where "ns2 = ms @ map fst s1" using stmt_code_extends(1) [OF assms(3)] by blast
  then have l: "map fst (leave_scope s1 s2) = map fst s1" "length s1 \<le> length s2" using names_leave_scope assms(2) by simp_all
  have "end_scope_code (map fst s1) ns2 = replicate (length s2 - length s1) (opcode_byte OP_POP)"
    using assms(2) by (auto simp: end_scope_code_def)
  then show ?thesis using seg_append [OF assms(1) seg_leave [OF l(2)]] l(1) by simp
qed

lemma run_cond:
  assumes "evals pw s c v s1" "hosts h pw (length lo)" "expr_code pw (map fst s) c cc" "length cc \<le> 0x7FFF" "length s \<le> 256"
  shows "segment h cc (lo @ slots s) ((lo @ slots s1) @ [v]) \<and> map fst s1 = map fst s \<and> length s1 = length s"
  using run_expr [OF assms(1-5), of "[]"] evals_names [OF assms(1)] evals_length [OF assms(1)] by simp

definition does :: "host \<Rightarrow> flux_value list \<Rightarrow> env \<Rightarrow> byte list \<Rightarrow> env \<Rightarrow> string list \<Rightarrow> bool" where
  "does h lo s bs s' ns' \<longleftrightarrow> segment h bs (lo @ slots s) (lo @ slots s') \<and> map fst s' = ns'"

text \<open>A statement of the core changes the variables as it means to and leaves no temporaries.\<close>

lemma run_stmt:
  assumes h: "hosts h pw (length lo)"
  shows "execs pw s a s' \<Longrightarrow> stmt_code pw (map fst s) a bs ns' \<Longrightarrow> length bs \<le> 0x7FFF \<Longrightarrow> length s \<le> 256 \<Longrightarrow> does h lo s bs s' ns'"
    and "execs_all pw s as s' \<Longrightarrow> stmts_code pw (map fst s) as bs ns' \<Longrightarrow> length bs \<le> 0x7FFF \<Longrightarrow> length s \<le> 256 \<Longrightarrow> does h lo s bs s' ns'"
proof (induction arbitrary: bs ns' and bs ns' rule: execs_execs_all.inducts)
  case (pass s p)
  then show ?case by (auto simp: does_def seg_nil elim!: stmt_codeE)
next
  case (expr s e v s' p)
  then obtain ce where c: "bs = ce @ pop_code" "ns' = map fst s" "expr_code pw (map fst s) e ce" by (auto elim!: stmt_codeE)
  then have e: "segment h ce (lo @ slots s) ((lo @ slots s') @ [v])" "map fst s' = map fst s"
    using run_cond [OF expr(1) h c(3)] expr.prems by simp_all
  show ?case unfolding does_def c(1,2) using seg_append [OF e(1) seg_pop] e(2) by simp
next
  case (decl s e v s' p x)
  then have c: "ns' = x # map fst s" "expr_code pw (map fst s) e bs" by (auto elim!: stmt_codeE)
  then show ?case using run_cond [OF decl(1) h c(2)] decl.prems by (simp add: does_def slots_def)
next
  case (block s stmts s' p)
  then show ?case by (auto elim!: stmt_codeE)
next
  case (if_then s c v s1 t s2 p e)
  obtain cc ct ce ns1 where k: "bs = branch_code cc (ct @ end_scope_code (map fst s) ns1) ce" "ns' = map fst s"
    "expr_code pw (map fst s) c cc" "stmt_code pw (map fst s) t ct ns1"
    using if_then.prems(1) by (cases e) (auto elim!: stmt_codeE)
  have len: "length cc \<le> 0x7FFF" "length ct \<le> 0x7FFF" using if_then.prems(2) by (simp_all add: k(1) branch_code_def)
  note cond = run_cond [OF if_then(1) h k(3) len(1) if_then.prems(3)]
  have "does h lo s1 ct s2 ns1" using if_then.IH(3) if_then.prems(3) cond len k(4) by simp
  then have body: "segment h (ct @ end_scope_code (map fst s) ns1) (lo @ slots s1) (lo @ slots (leave_scope s1 s2))"
    "map fst (leave_scope s1 s2) = map fst s"
    using seg_scope [of h ct lo s1 s2 ns1 pw t] cond k(4) by (simp_all add: does_def)
  then show ?case
    using seg_branch_then [OF _ if_then.hyps body(1)] cond if_then.prems(2) by (auto simp: k does_def)
next
  case (if_skip s c v s1 p t)
  obtain cc ct ns1 where k: "bs = branch_code cc (ct @ end_scope_code (map fst s) ns1) []" "ns' = map fst s"
    "expr_code pw (map fst s) c cc" using if_skip.prems(1) by (auto elim!: stmt_codeE)
  have len: "length cc \<le> 0x7FFF" using if_skip.prems(2) by (simp_all add: k(1) branch_code_def)
  note cond = run_cond [OF if_skip(1) h k(3) len if_skip.prems(3)]
  then show ?case
    using seg_branch_else [OF _ if_skip.hyps seg_nil] if_skip.prems(2) by (auto simp: k does_def)
next
  case (if_else s c v s1 e s2 p t)
  obtain cc ct ce ns1 ns2 where k: "bs = branch_code cc (ct @ end_scope_code (map fst s) ns1) (ce @ end_scope_code (map fst s) ns2)"
    "ns' = map fst s" "expr_code pw (map fst s) c cc" "stmt_code pw (map fst s) e ce ns2"
    using if_else.prems(1) by (auto elim!: stmt_codeE)
  have len: "length cc \<le> 0x7FFF" "length ce \<le> 0x7FFF" using if_else.prems(2) by (simp_all add: k(1) branch_code_def)
  note cond = run_cond [OF if_else(1) h k(3) len(1) if_else.prems(3)]
  have "does h lo s1 ce s2 ns2" using if_else.IH(3) if_else.prems(3) cond len k(4) by simp
  then have body: "segment h (ce @ end_scope_code (map fst s) ns2) (lo @ slots s1) (lo @ slots (leave_scope s1 s2))"
    "map fst (leave_scope s1 s2) = map fst s"
    using seg_scope [of h ce lo s1 s2 ns2 pw e] cond k(4) by (simp_all add: does_def)
  then show ?case
    using seg_branch_else [OF _ if_else.hyps body(1)] cond if_else.prems(2) by (auto simp: k does_def)
next
  case (while_end s c v s1 p b)
  obtain cc cb ns1 where k: "bs = while_code cc (cb @ end_scope_code (map fst s) ns1)" "ns' = map fst s"
    "expr_code pw (map fst s) c cc" using while_end.prems(1) by (auto elim!: stmt_codeE)
  have len: "length cc \<le> 0x7FFF" using while_end.prems(2) by (simp_all add: k(1) while_code_def)
  note cond = run_cond [OF while_end(1) h k(3) len while_end.prems(3)]
  then show ?case using seg_while_end [OF _ while_end.hyps] while_end.prems(2) by (auto simp: k does_def)
next
  case (while_turn s c v s1 b s2 p s3)
  obtain cc cb ns1 where k: "bs = while_code cc (cb @ end_scope_code (map fst s) ns1)" "ns' = map fst s"
    "expr_code pw (map fst s) c cc" "stmt_code pw (map fst s) b cb ns1" using while_turn.prems(1) by (auto elim!: stmt_codeE)
  have len: "length cc \<le> 0x7FFF" "length cb \<le> 0x7FFF" using while_turn.prems(2) by (simp_all add: k(1) while_code_def)
  note cond = run_cond [OF while_turn(1) h k(3) len(1) while_turn.prems(3)]
  have "does h lo s1 cb s2 ns1" using while_turn.IH(3) while_turn.prems(3) cond len k(4) by simp
  then have body: "segment h (cb @ end_scope_code (map fst s) ns1) (lo @ slots s1) (lo @ slots (leave_scope s1 s2))"
    "map fst (leave_scope s1 s2) = map fst s"
    using seg_scope [of h cb lo s1 s2 ns1 pw b] cond k(4) by (simp_all add: does_def)
  then have l: "length (leave_scope s1 s2) = length s" by (metis length_map)
  have "does h lo (leave_scope s1 s2) bs s3 ns'"
    using while_turn.IH(5) while_turn.prems body(2) l by simp
  then show ?case
    using seg_while_turn [OF _ while_turn.hyps body(1)] cond while_turn.prems(2) l by (auto simp: k does_def)
next
  case (all_nil s)
  then show ?case by (auto simp: does_def seg_nil elim!: stmts_codeE)
next
  case (all_cons s stmt s1 stmts s2)
  obtain cs cs' ns1 where k: "bs = cs @ cs'" "stmt_code pw (map fst s) stmt cs ns1" "stmts_code pw ns1 stmts cs' ns'"
    using all_cons.prems(1) by (auto elim!: stmts_codeE)
  have first: "does h lo s cs s1 ns1" using all_cons.IH(2) all_cons.prems k by simp
  then have "length ns1 = length s1" by (auto simp: does_def)
  then have "length s1 \<le> 256" using stmt_code_names(1) [OF k(2)] all_cons.prems(3) by (simp add: FLUX_MAX_LOCALS_def)
  then have "does h lo s1 cs' s2 ns'" using all_cons.IH(4) all_cons.prems(2) k first by (simp add: does_def)
  then show ?case using first by (auto simp: does_def k(1) intro: seg_append)
qed
end
