(* ===== verification/CompilerBounds.thy ===== *)
theory CompilerBounds
  imports CompilerDefs
begin

text \<open>
  The fixed arrays of the compiler never overflow: the locals, upvalues and nonlocal names of every frame, the global
  names, the pending breaks and the contexts of \<^verbatim>\<open>try\<close> stay within the arrays of \<^verbatim>\<open>include/flux/compiler.h\<close>, and so do
  the copies of names.  The rules of the collection \<open>fit\<close> follow the structure of a definition.
\<close>

section \<open>The invariant\<close>

definition name_fits :: "string \<Rightarrow> bool" where
  "name_fits s \<longleftrightarrow> length s \<le> 255"

definition frame_fits :: "compiler_frame \<Rightarrow> bool" where
  "frame_fits f \<longleftrightarrow> length (cf_locals f) \<le> FLUX_MAX_LOCALS \<and> length (cf_upvalues f) \<le> FLUX_MAX_UPVALUES \<and>
     length (cf_nonlocals f) \<le> FLUX_MAX_LOCALS \<and>
     list_all (\<lambda>l. name_fits (lo_name l)) (cf_locals f) \<and> list_all name_fits (cf_nonlocals f)"

definition fits :: "compiler \<Rightarrow> bool" where
  "fits c \<longleftrightarrow> list_all frame_fits (cp_frames c) \<and>
     length (cp_globals c) \<le> MAX_GLOBAL_NAMES \<and> list_all (\<lambda>g. name_fits (fst g)) (cp_globals c) \<and>
     length (cp_break_jumps c) \<le> MAX_BREAK_JUMPS \<and> cp_break_count c \<le> MAX_BREAK_JUMPS \<and>
     length (cp_try_stack c) \<le> FLUX_TRY_DEPTH_MAX \<and> cp_try_depth c \<le> FLUX_TRY_DEPTH_MAX"

text \<open>Partial results: a compiler, one with a value, one with two values.\<close>

definition fitC :: "compiler option \<Rightarrow> bool" where
  "fitC m \<longleftrightarrow> (\<forall>c. m = Some c \<longrightarrow> fits c)"

definition fitP :: "('a \<times> compiler) option \<Rightarrow> bool" where
  "fitP m \<longleftrightarrow> (\<forall>x c. m = Some (x, c) \<longrightarrow> fits c)"

definition fitT :: "('a \<times> 'b \<times> compiler) option \<Rightarrow> bool" where
  "fitT m \<longleftrightarrow> (\<forall>x y c. m = Some (x, y, c) \<longrightarrow> fits c)"

lemmas fit_defs = fitC_def fitP_def fitT_def

section \<open>Rules for the combinators\<close>

named_theorems fit \<open>rules for operations that keep the bounds of the compiler\<close>

lemma fit_None [fit]: "fitC None" "fitP None" "fitT None"
  by (simp_all add: fit_defs)

lemma fit_Some [fit]: "fits c \<Longrightarrow> fitC (Some c)" "fits c \<Longrightarrow> fitP (Some (x, c))" "fits c \<Longrightarrow> fitT (Some (x, y, c))"
  by (simp_all add: fit_defs)

lemma fit_bindC [fit]:
  "fitC m \<Longrightarrow> (\<And>c. fits c \<Longrightarrow> fitC (f c)) \<Longrightarrow> fitC (Option.bind m f)"
  "fitC m \<Longrightarrow> (\<And>c. fits c \<Longrightarrow> fitP (g c)) \<Longrightarrow> fitP (Option.bind m g)"
  "fitC m \<Longrightarrow> (\<And>c. fits c \<Longrightarrow> fitT (h c)) \<Longrightarrow> fitT (Option.bind m h)"
  by (auto simp: fit_defs bind_Some_iff)

lemma fit_bindP [fit]:
  "fitP m \<Longrightarrow> (\<And>x c. fits c \<Longrightarrow> fitC (f (x, c))) \<Longrightarrow> fitC (Option.bind m f)"
  "fitP m \<Longrightarrow> (\<And>x c. fits c \<Longrightarrow> fitP (g (x, c))) \<Longrightarrow> fitP (Option.bind m g)"
  "fitP m \<Longrightarrow> (\<And>x c. fits c \<Longrightarrow> fitT (h (x, c))) \<Longrightarrow> fitT (Option.bind m h)"
  by (auto simp: fit_defs bind_Some_iff)

lemma fit_bindT [fit]:
  "fitT m \<Longrightarrow> (\<And>x y c. fits c \<Longrightarrow> fitP (g (x, y, c))) \<Longrightarrow> fitP (Option.bind m g)"
  "fitT m \<Longrightarrow> (\<And>x y c. fits c \<Longrightarrow> fitT (h (x, y, c))) \<Longrightarrow> fitT (Option.bind m h)"
  by (auto simp: fit_defs bind_Some_iff)

text \<open>Everything else only reads; these rules come last.\<close>

lemma fit_bind:
  "(\<And>x. m = Some x \<Longrightarrow> fitC (f x)) \<Longrightarrow> fitC (Option.bind m f)"
  "(\<And>x. m = Some x \<Longrightarrow> fitP (g x)) \<Longrightarrow> fitP (Option.bind m g)"
  "(\<And>x. m = Some x \<Longrightarrow> fitT (h x)) \<Longrightarrow> fitT (Option.bind m h)"
  by (auto simp: fit_defs bind_Some_iff)

lemma fit_if [fit]:
  "(P \<Longrightarrow> fitC a) \<Longrightarrow> (\<not> P \<Longrightarrow> fitC b) \<Longrightarrow> fitC (if P then a else b)"
  "(P \<Longrightarrow> fitP a') \<Longrightarrow> (\<not> P \<Longrightarrow> fitP b') \<Longrightarrow> fitP (if P then a' else b')"
  by simp_all

lemma fit_prod [fit]:
  "(\<And>x y. z = (x, y) \<Longrightarrow> fitC (f x y)) \<Longrightarrow> fitC (case z of (x, y) \<Rightarrow> f x y)"
  "(\<And>x y. z = (x, y) \<Longrightarrow> fitP (g x y)) \<Longrightarrow> fitP (case z of (x, y) \<Rightarrow> g x y)"
  "(\<And>x y. z = (x, y) \<Longrightarrow> fitT (h x y)) \<Longrightarrow> fitT (case z of (x, y) \<Rightarrow> h x y)"
  by (cases z; simp)+

lemma fit_option [fit]:
  "(z = None \<Longrightarrow> fitC a) \<Longrightarrow> (\<And>x. z = Some x \<Longrightarrow> fitC (f x)) \<Longrightarrow> fitC (case z of None \<Rightarrow> a | Some x \<Rightarrow> f x)"
  "(z = None \<Longrightarrow> fitP b) \<Longrightarrow> (\<And>x. z = Some x \<Longrightarrow> fitP (g x)) \<Longrightarrow> fitP (case z of None \<Rightarrow> b | Some x \<Rightarrow> g x)"
  by (cases z; simp)+

lemma fit_list [fit]:
  "fitC a \<Longrightarrow> (\<And>x xs. fitC (f x xs)) \<Longrightarrow> fitC (case z of [] \<Rightarrow> a | x # xs \<Rightarrow> f x xs)"
  by (cases z; simp)

lemma fit_fold [fit]: "(\<And>x c. fits c \<Longrightarrow> fitC (f x c)) \<Longrightarrow> fits c \<Longrightarrow> fitC (fold_opt f xs c)"
  by (induction xs arbitrary: c) (auto intro!: fit)

text \<open>Updates of the fields that the bounds do not read, and errors.\<close>

lemma fits_updates [simp]:
  "fits (c\<lparr>cp_vm := a\<rparr>) = fits c" "fits (c\<lparr>cp_class_ctx := b\<rparr>) = fits c" "fits (c\<lparr>cp_had_error := d\<rparr>) = fits c"
  "fits (c\<lparr>cp_loop_start := i\<rparr>) = fits c" "fits (c\<lparr>cp_loop_depth := n\<rparr>) = fits c"
  "fits (c\<lparr>cp_current_exc_slot := s\<rparr>) = fits c" "fits (c\<lparr>cp_try_depth_at_loop := n\<rparr>) = fits c"
  by (simp_all add: fits_def)

lemma fits_error [simp]: "fits (compile_error c) = fits c" "fits (if P then compile_error c else c) = fits c"
  by (simp_all add: compile_error_def)

lemma fits_counts:
  "fits c \<Longrightarrow> n \<le> MAX_BREAK_JUMPS \<Longrightarrow> fits (c\<lparr>cp_break_count := n\<rparr>)"
  "fits c \<Longrightarrow> n \<le> FLUX_TRY_DEPTH_MAX \<Longrightarrow> fits (c\<lparr>cp_try_depth := n\<rparr>)"
  "fits c \<Longrightarrow> list_all frame_fits fs \<Longrightarrow> fits (c\<lparr>cp_frames := fs\<rparr>)"
  by (simp_all add: fits_def)

lemma fits_outer_try [simp]: "fits c \<Longrightarrow> fits (c\<lparr>cp_try_depth := cp_try_depth c - Suc 0\<rparr>)"
  by (auto simp: fits_def)

lemma fitsD:
  "fits c \<Longrightarrow> cp_break_count c \<le> MAX_BREAK_JUMPS" "fits c \<Longrightarrow> cp_try_depth c \<le> FLUX_TRY_DEPTH_MAX"
  "fits c \<Longrightarrow> list_all frame_fits (cp_frames c)" "fits c \<Longrightarrow> cp_frames c = f # fs \<Longrightarrow> frame_fits f"
  by (simp_all add: fits_def)

lemma cur_frame_fits: "fits c \<Longrightarrow> cur_frame c = Some f \<Longrightarrow> frame_fits f"
  by (auto simp: cur_frame_def fits_def split: list.splits)

lemma length_array_put: "array_put xs i x = Some ys \<Longrightarrow> i < n \<Longrightarrow> length xs \<le> n \<Longrightarrow> length ys \<le> n"
  by (auto simp: array_put_def split: if_splits)

section \<open>Frames and code\<close>

lemma upd_frame_fit [fit]:
  "fits c \<Longrightarrow> (\<And>f. cur_frame c = Some f \<Longrightarrow> frame_fits f \<Longrightarrow> frame_fits (g f)) \<Longrightarrow> fitC (upd_frame g c)"
  by (cases "cp_frames c") (auto simp: upd_frame_def fitC_def fits_def cur_frame_def)

lemma frame_fits_updates [simp]:
  "frame_fits (f\<lparr>cf_scope_depth := d\<rparr>) = frame_fits f" "frame_fits (f\<lparr>cf_has_yield := b\<rparr>) = frame_fits f"
  by (simp_all add: frame_fits_def)

lemma list_all_butlast: "list_all P xs \<Longrightarrow> list_all P (butlast xs)"
  by (auto simp: list_all_iff dest: in_set_butlastD)

lemma list_all_update: "list_all P xs \<Longrightarrow> P x \<Longrightarrow> list_all P (xs[i := x])"
  by (induction xs arbitrary: i) (auto split: nat.splits)

lemma frame_fits_butlast [simp]: "frame_fits f \<Longrightarrow> frame_fits (f\<lparr>cf_locals := butlast (cf_locals f)\<rparr>)"
  by (auto simp: frame_fits_def list_all_butlast)

text \<open>Setting a flag of a local.\<close>

lemma frame_fits_flag [simp]:
  assumes "frame_fits f" "\<And>l. lo_name (g l) = lo_name l"
  shows "frame_fits (f\<lparr>cf_locals := (cf_locals f)[i := g (cf_locals f ! i)]\<rparr>)"
proof (cases "i < length (cf_locals f)")
  case True
  then have "name_fits (lo_name (cf_locals f ! i))" using assms(1) by (simp add: frame_fits_def list_all_length)
  then show ?thesis using assms by (simp add: frame_fits_def list_all_update)
qed (use assms in \<open>simp add: frame_fits_def list_update_beyond\<close>)

lemma code_fit [fit]:
  assumes "fits c"
  shows "fitC (upd_function g c)" "fitC (upd_chunk h c)" "fitC (emit_byte c b line)" "fitC (emit_op c op line)"
    "fitC (emit_uint16 c v line)" "fitC (emit_int64 c i line)" "fitC (emit_double c d line)" "fitC (emit_op_byte c op b line)"
proof -
  have f: "fitC (upd_function g c)" if "fits c" for g c
    unfolding upd_function_def using that by (intro fit fit_bind) simp
  then have u: "fitC (upd_chunk h c)" if "fits c" for h c by (simp add: upd_chunk_def that)
  then have e: "fitC (emit_byte c b line)" if "fits c" for c b line by (simp add: emit_byte_def that)
  show "fitC (upd_function g c)" "fitC (upd_chunk h c)" "fitC (emit_byte c b line)" "fitC (emit_op c op line)"
    "fitC (emit_uint16 c v line)" "fitC (emit_int64 c i line)" "fitC (emit_double c d line)"
    using assms f u e by (simp_all add: emit_op_def emit_uint16_def emit_int64_def emit_double_def)
  show "fitC (emit_op_byte c op b line)"
    unfolding emit_op_byte_def emit_op_def by (intro fit e assms)
qed

lemma jump_fit [fit]:
  assumes "fits c"
  shows "fitP (emit_jump c op line)" "fitC (patch_int16 c p j)" "fitC (patch_jump c p)" "fitP (emit_exception_handler c s line)"
    "fitC (patch_exception_handler c p)" "fitC (emit_loop c start line)"
  unfolding emit_jump_def patch_int16_def patch_jump_def emit_exception_handler_def patch_exception_handler_def emit_loop_def Let_def
  using assms by (intro fit fit_bind; simp)+

lemma constant_fit [fit]:
  assumes "fits c"
  shows "fitP (make_constant c v)" "fitP (string_constant c s)" "fitP (identifier_constant c s)" "fitC (emit_identifier c s line)"
    "fitC (emit_op_name c op s line)"
  unfolding make_constant_def string_constant_def identifier_constant_def emit_identifier_def emit_op_name_def Let_def
  using assms by (intro fit fit_bind; simp)+

section \<open>Scopes, locals and globals\<close>

lemma scope_pops_fit [fit]: "fits c \<Longrightarrow> fitC (scope_pops ls c line)"
proof (induction ls arbitrary: c)
  case (Cons l ls)
  show ?case unfolding scope_pops.simps by (intro fit fit_bind Cons.IH; simp add: Cons.prems)
qed (simp add: fit)

lemma scope_fit [fit]: "fits c \<Longrightarrow> fitC (scope_begin c)" "fits c \<Longrightarrow> fitC (scope_end c line)"
  unfolding scope_begin_def scope_end_def by (intro fit fit_bind; simp)+

lemma name_fits_take [simp]: "name_fits (take 255 s)"
  by (simp add: name_fits_def)

lemma frame_fits_add:
  "frame_fits f \<Longrightarrow> length (cf_locals f) < FLUX_MAX_LOCALS \<Longrightarrow> name_fits (lo_name l) \<Longrightarrow>
    frame_fits (f\<lparr>cf_locals := cf_locals f @ [l]\<rparr>)"
  by (simp add: frame_fits_def)

lemma add_local_fit [fit]: "fits c \<Longrightarrow> fitP (add_local c name)" "fits c \<Longrightarrow> fitP (add_local_tok c name)"
proof -
  show add: "fitP (add_local c name)" if "fits c" for c name
    unfolding add_local_def using that by (intro fit fit_bind; simp add: frame_fits_add)
  show "fits c \<Longrightarrow> fitP (add_local_tok c name)" unfolding add_local_tok_def by (rule add)
qed

lemma add_locals_fit [fit]: "fits c \<Longrightarrow> fitC (add_locals names c)"
  unfolding add_locals_def by (intro fit; simp)

lemma mark_const_keeps: "length (mark_const n gs) = length gs"
  "list_all (\<lambda>g. P (fst g)) (mark_const n gs) = list_all (\<lambda>g. P (fst g)) gs"
  by (induction n gs rule: mark_const.induct) auto

lemma global_fits [simp]: "fits c \<Longrightarrow> fits (compiler_declare_global c name)" "fits (compiler_mark_global_const c name) = fits c"
  by (simp_all add: compiler_declare_global_def compiler_mark_global_const_def fits_def mark_const_keeps)

section \<open>Upvalues and frames\<close>

lemma add_upvalue_fits:
  "add_upvalue vm f i b = Some (u, f', vm') \<Longrightarrow> frame_fits f \<Longrightarrow> frame_fits f'"
  by (auto simp: add_upvalue_def Let_def bind_Some_iff frame_fits_def intro: length_array_put split: if_splits)

lemma capture_local_fits [simp]: "frame_fits f \<Longrightarrow> frame_fits (capture_local i f)"
  unfolding capture_local_def by (rule frame_fits_flag) simp_all

lemma upvalue_in_fits:
  "upvalue_in vm fs name = Some (r, fs', vm') \<Longrightarrow> list_all frame_fits fs \<Longrightarrow> list_all frame_fits fs'"
proof (induction vm fs name arbitrary: r fs' vm' rule: upvalue_in.induct)
  case (3 vm f g fs name)
  then show ?case
    by (auto simp: bind_Some_iff split: option.splits dest!: add_upvalue_fits)
qed auto

lemma resolve_upvalue_fit [fit]: "fits c \<Longrightarrow> fitP (resolve_upvalue c name)"
  unfolding resolve_upvalue_def fitP_def
  by (auto simp: bind_Some_iff fits_counts(3) dest: upvalue_in_fits [OF _ fitsD(3)])

lemma frame_init_fit [fit]: "fits c \<Longrightarrow> fitC (frame_init c kind name)"
  unfolding frame_init_def fitC_def
  by (auto simp: bind_Some_iff Let_def fits_def frame_fits_def name_fits_def FLUX_MAX_LOCALS_def)

lemma frame_end_fit [fit]: "fits c \<Longrightarrow> fitP (frame_end c line)"
proof -
  have "list_all frame_fits (tl (cp_frames c))" if "fits c" for c using that by (cases "cp_frames c") (auto simp: fits_def)
  then show "fits c \<Longrightarrow> fitP (frame_end c line)"
    unfolding frame_end_def by (intro fit fit_bind fits_counts(3)) simp_all
qed

lemma closure_fit [fit]:
  assumes "fits c"
  shows "fitC (emit_closure c inner line)" "fitC (open_function c kind name params)" "fitP (close_function c line)"
  unfolding emit_closure_def emit_upvalue_def open_function_def close_function_def
  using assms by (intro fit fit_bind; simp)+

lemma access_fit [fit]: "fits c \<Longrightarrow> fitC (emit_load_var c name line)" "fits c \<Longrightarrow> fitC (emit_store_var c name line)"
  unfolding emit_load_var_def emit_store_var_def emit_access_def by (intro fit fit_bind; simp)+

section \<open>Expressions\<close>

definition fit_calls :: "compile_calls \<Rightarrow> bool" where
  "fit_calls k \<longleftrightarrow> (\<forall>c a line. fits c \<longrightarrow> fitC (cc_expr k c a) \<and> fitC (cc_node k c a) \<and> fitC (cc_predeclare k c a line))"

lemma fit_calls [fit]:
  assumes "fit_calls k" "fits c"
  shows "fitC (cc_expr k c a)" "fitC (cc_node k c a)" "fitC (cc_predeclare k c a line)" "fitC (cc_exprs k c es)" "fitC (cc_nodes k c es)"
  using assms unfolding cc_exprs_def cc_nodes_def by (auto simp: fit_calls_def intro!: fit)

lemma fit_opt [fit]: "(\<And>x. z = Some x \<Longrightarrow> fitC (f c x)) \<Longrightarrow> fits c \<Longrightarrow> fitC (cc_opt f c z)"
  by (cases z) (simp_all add: cc_opt_def fit)

lemma value_fit [fit]:
  assumes "fits c"
  shows "fitC (emit_int c i line)" "fitC (emit_float c d line)" "fitC (emit_bool c b line)" "fitC (compile_string c s line)"
    "fitC (emit_operator c op line)" "fitC (emit_aug_op c t line)" "fitC (emit_local_load c slot line)"
    "fitC (emit_local_store c slot line)" "fitC (emit_ops c ops line)" "fitC (emit_invoke c attr argc line)" "fitC (emit_call c argc line)"
    "fitC (emit_invoke_exit c slot line)" "fitC (emit_get_super c super attr line)"
  unfolding emit_int_def emit_float_def emit_bool_def compile_string_def emit_operator_def emit_aug_op_def emit_local_load_def
    emit_local_store_def emit_ops_def emit_invoke_def emit_call_def emit_invoke_exit_def emit_get_super_def
  using assms by (intro fit fit_bind; simp)+

lemma folded_fit [fit]: "fits c \<Longrightarrow> fitC (emit_folded c v line)"
  unfolding emit_folded_def by (cases v) (simp_all add: fit)


lemma operator_fit [fit]:
  assumes "fit_calls k" "fits c"
  shows "fitC (compile_short_circuit k op c l r line)" "fitC (compile_binary k c t l r line)" "fitC (compile_unary k c t e line)"
    "fitC (compile_ternary k c e l r line)"
  unfolding compile_binary_def compile_short_circuit_def compile_unary_def compile_ternary_def
  using assms by (intro fit fit_bind; simp)+

lemma call_fit [fit]:
  assumes "fit_calls k" "fits c"
  shows "fitC (compile_call k c callee args line)" "fitC (compile_index k c obj i line)" "fitC (compile_slice k c obj start stop st line)"
    "fitC (compile_attr k c obj attr line)" "fitC (compile_spawn k c e line)" "fitC (compile_pipeline k c l r line)"
  unfolding compile_call_def compile_index_def compile_slice_def compile_bound_def compile_attr_def compile_spawn_def compile_pipeline_def
  using assms by (intro fit fit_bind; simp)+

lemma entries_fit [fit]: "fit_calls k \<Longrightarrow> fits c \<Longrightarrow> fitC (compile_entries k c ks vs)"
proof (induction ks arbitrary: c vs)
  case (Cons e ks)
  then show ?case by (cases vs) (auto intro!: fit)
qed (simp add: fit)

lemma collection_fit [fit]:
  assumes "fit_calls k" "fits c"
  shows "fitC (compile_list k c es line)" "fitC (compile_dict k c ks vs line)" "fitC (compile_fstring_part k line c part)"
    "fitC (compile_fstring k c parts line)"
  unfolding compile_list_def compile_dict_def compile_fstring_def compile_fstring_part_def
  using assms by (intro fit fit_bind; simp)+

section \<open>Assignments\<close>

lemma store_fit [fit]:
  assumes "fits c"
  shows "fitP (unresolved c name)" "fitC m \<Longrightarrow> fitC (store_unless b c m)" "fitC (store_nonlocal c name line)"
    "fitC (store_existing c name line)" "fitC (define_global c name line)" "fitC (new_global c name line)" "fitC (new_local c name line)"
  unfolding unresolved_def store_unless_def store_nonlocal_def store_existing_def define_global_def new_global_def new_local_def Let_def
  using assms by (intro fit fit_bind; simp)+

lemma name_fit [fit]:
  assumes "fits c"
  shows "fitC (assign_name c name line)" "fitC (walrus_name c name line)"
  unfolding assign_name_def walrus_name_def using assms by (intro fit fit_bind; simp)+

lemma assign_fit [fit]:
  assumes "fit_calls k" "fits c"
  shows "fitC (compile_assign k c target e line)" "fitC (compile_aug_assign k c target e t line)" "fitC (compile_walrus k c name e line)"
  unfolding compile_assign_def compile_aug_assign_def compile_walrus_def
  using assms by (intro fit fit_bind; simp)+

section \<open>Functions and comprehensions\<close>

lemma function_fit [fit]:
  assumes "fit_calls k" "fits c"
  shows "fitC (compile_lambda k c params body b line)" "fitC (compile_function k c kind name params body line)"
  unfolding compile_lambda_def compile_function_def using assms by (intro fit fit_bind; simp)+

lemma iter_fit [fit]:
  assumes "fits c"
  shows "fitP (emit_iter_exit c s1 s2 line)" "fitC (emit_iter_element c s1 s2 s3 line)" "fitC (emit_iter_next c s2 line)"
  unfolding emit_iter_exit_def emit_iter_element_def emit_iter_next_def
  using assms by (intro fit fit_bind; simp)+

lemma comp_enter_fits [simp]: "fits c \<Longrightarrow> fits (comp_enter c)" "fits c \<Longrightarrow> fits old \<Longrightarrow> fits (comp_leave old c)"
  by (simp_all add: comp_enter_def comp_leave_def fits_def)

lemma comp_fit:
  assumes "fit_calls k" "fits c" "\<And>slot c. fits c \<Longrightarrow> fitC (add slot c)"
  shows "fitC (compile_comp k c fname create var iter_name idx_name iterable condition add line)"
  unfolding compile_comp_def comp_body_def
  using assms by (intro fit fit_bind; simp)

lemma comprehension_fit [fit]:
  assumes "fit_calls k" "fits c"
  shows "fitC (compile_list_comp k c e var iterable condition line)" "fitC (compile_dict_comp k c key e var iterable condition line)"
  unfolding compile_list_comp_def compile_dict_comp_def list_comp_add_def dict_comp_add_def
  using assms by (intro comp_fit fit fit_bind; simp)+

lemma expr_fit [fit]: "fit_calls k \<Longrightarrow> fits c \<Longrightarrow> fitC (compile_expr k c a)"
  unfolding compile_expr_def by (cases a) (auto intro!: fit)

section \<open>Statements\<close>

lemma predeclare_fit [fit]:
  assumes "fits c"
  shows "fitP (push_local c name line)" "fitC (predeclare_name c name line)" "fitC (predeclare_loop_var line name c)"
  unfolding push_local_def predeclare_name_def predeclare_loop_var_def
  using assms by (intro fit fit_bind; simp)+

lemma predeclare_case_fit [fit]: "fit_calls k \<Longrightarrow> fits c \<Longrightarrow> fitC (predeclare_case k c a line)"
  by (cases a) (auto simp: predeclare_all_def intro!: fit)

lemma simple_fit [fit]:
  assumes "fit_calls k" "fits c"
  shows "fitC (compile_scoped k c a line)" "fitC (compile_expr_stmt k c a line)" "fitC (compile_value k c e line)"
    "fitC (raise_value k c e line)" "fitC (compile_yield k c e line)"
  unfolding compile_scoped_def compile_expr_stmt_def compile_value_def raise_value_def compile_yield_def
  using assms by (intro fit fit_bind; simp)+

lemma unwind_fit [fit]:
  assumes "fit_calls k" "fits c"
  shows "fitC (emit_try_unwind k c stop line b)"
proof -
  have inner: "fitC (unwind_context k line b i c)" if "fits c" "i \<le> FLUX_TRY_DEPTH_MAX" for i c
    unfolding unwind_context_def Let_def using that assms(1) by (intro fit fit_bind; simp add: fits_counts fitsD)
  have "fitC (fold_opt (unwind_context k line b) js c)" if "\<forall>i \<in> set js. i \<le> FLUX_TRY_DEPTH_MAX" "fits c" for js c
    using that by (induction js arbitrary: c) (auto intro!: fit_bindC(1) fit_Some inner)
  moreover have "\<forall>i \<in> set (rev [stop ..< cp_try_depth c]). i \<le> FLUX_TRY_DEPTH_MAX" using fitsD(2) [OF assms(2)] by auto
  ultimately show ?thesis unfolding emit_try_unwind_def using assms(2) by blast
qed

lemma put_context_fit [fit]: "fits c \<Longrightarrow> i < FLUX_TRY_DEPTH_MAX \<Longrightarrow> fitC (put_context c i tc)"
  by (auto simp: put_context_def fitC_def bind_Some_iff fits_def intro: length_array_put)

lemma return_fit [fit]:
  assumes "fit_calls k" "fits c"
  shows "fitC (compile_return k c e line)" "fitC (compile_raise k c e line)"
  unfolding compile_return_def compile_raise_def Let_def
  using assms by (intro fit fit_bind; auto simp: fits_counts split: if_splits dest: fitsD(2))+

lemma try_parts_fit [fit]:
  assumes "fits c"
  shows "fitC (store_exception c slot line)" "fitP (exception_slot c cb cv fb line)" "fitC (enter_result c v line)"
  unfolding store_exception_def exception_slot_def enter_result_def using assms by (intro fit fit_bind; simp)+

lemma catch_fit [fit]:
  assumes "fit_calls k" "fits c"
  shows "i < FLUX_TRY_DEPTH_MAX \<Longrightarrow> fitC (compile_catch k c i h slot b fb line)" "fitC (compile_finally k c h slot fb line)"
  unfolding compile_catch_def compile_finally_def Let_def
  using assms by (intro fit fit_bind; simp add: fits_counts)+

lemma try_fit [fit]:
  assumes "fit_calls k" "fits c"
  shows "fitC (compile_try k c b cv cb fb line)" "fitC (compile_with k c v m b line)"
  unfolding compile_try_def compile_with_def Let_def
  using assms by (intro fit fit_bind; simp add: fits_counts less_imp_le)+

lemma branch_fit [fit]:
  assumes "fit_calls k" "fits c"
  shows "fitP (compile_guarded k c e b line)" "fitC (compile_elifs k line es bs c)" "fitC (compile_if k c n e t es bs el line)"
proof -
  have guarded: "fitP (compile_guarded k c e b line)" if "fits c" for c e b
    unfolding compile_guarded_def using that assms(1) by (intro fit fit_bind; simp)
  have elifs: "fitC (compile_elifs k line es bs c)" if "fits c" for es bs c
    using that
  proof (induction es arbitrary: bs c)
    case (Cons e es)
    then show ?case by (cases bs) (auto intro!: fit guarded)
  qed (simp add: fit)
  show "fitP (compile_guarded k c e b line)" "fitC (compile_elifs k line es bs c)" using guarded elifs assms by blast+
  show "fitC (compile_if k c n e t es bs el line)"
    unfolding compile_if_def using assms by (intro fit fit_bind guarded elifs; simp)
qed

section \<open>Loops\<close>

lemma loop_fits [simp]: "fits (loop_enter c start) = fits c"
  by (simp add: loop_enter_def)

lemma loop_leave_fit [fit]: "fits old \<Longrightarrow> fits c \<Longrightarrow> fitC (loop_leave old c)"
  unfolding loop_leave_def by (intro fit fit_bind; simp add: fits_counts fitsD)

lemma emit_jump_count: "emit_jump c op line = Some (j, c') \<Longrightarrow> cp_break_count c' = cp_break_count c"
  by (auto simp: emit_jump_def emit_op_def emit_byte_def emit_uint16_def upd_chunk_def upd_function_def bind_Some_iff)

lemma record_break:
  "fits c \<Longrightarrow> cp_break_count c < MAX_BREAK_JUMPS \<Longrightarrow> array_put (cp_break_jumps c) (cp_break_count c) j = Some js \<Longrightarrow>
    fits (c\<lparr>cp_break_jumps := js, cp_break_count := Suc (cp_break_count c)\<rparr>)"
  by (auto simp: fits_def intro: length_array_put)

lemma break_fit [fit]:
  assumes "fit_calls k" "fits c"
  shows "fitC (compile_break k c line)" "fitC (compile_continue k c line)"
proof -
  have jump: "fitC (do { (j, c) \<leftarrow> emit_jump c OP_JUMP line; js \<leftarrow> array_put (cp_break_jumps c) (cp_break_count c) j;
      Some (c\<lparr>cp_break_jumps := js, cp_break_count := cp_break_count c + 1\<rparr>) })"
    if "fits c" "cp_break_count c < MAX_BREAK_JUMPS" for c
    using that jump_fit(1) [of c OP_JUMP line]
    by (auto simp: fitC_def fitP_def bind_Some_iff emit_jump_count intro!: record_break)
  show "fitC (compile_break k c line)" "fitC (compile_continue k c line)"
    unfolding compile_break_def compile_continue_def using assms by (intro jump fit_if fit fit_bind; simp)+
qed

lemma while_fit [fit]: "fit_calls k \<Longrightarrow> fits c \<Longrightarrow> fitC (compile_while k c e b line)"
  unfolding compile_while_def by (intro fit fit_bind; simp)

lemma declare_loop_vars_fit [fit]: "fits c \<Longrightarrow> fitP (declare_loop_vars line names c)"
proof (induction names arbitrary: c)
  case (Cons n names)
  show ?case unfolding declare_loop_vars.simps by (intro fit fit_bind Cons.IH; simp add: Cons.prems)
qed (simp add: fit)

lemma loop_vars_fit [fit]: "fits c \<Longrightarrow> fitC (emit_loop_vars c s1 s2 slots line)"
proof -
  have unpack: "fitC (emit_unpack c s1 s2 i s line)" if "fits c" for c i s
    unfolding emit_unpack_def using that by (intro fit)
  show "fits c \<Longrightarrow> fitC (emit_loop_vars c s1 s2 slots line)"
    unfolding emit_loop_vars_def by (intro fit; simp add: unpack split: prod.split)
qed

lemma for_fit [fit]: "fit_calls k \<Longrightarrow> fits c \<Longrightarrow> fitC (compile_for k c vars it b line)"
  unfolding compile_for_def Let_def by (intro fit fit_bind; simp)

section \<open>Declarations and imports\<close>

lemma let_fit [fit]: "fit_calls k \<Longrightarrow> fits c \<Longrightarrow> fitC (compile_let k c name e b line)"
  unfolding compile_let_def set_local_const_def by (intro fit fit_bind; simp)

lemma nonlocal_fit [fit]: "fits c \<Longrightarrow> fitC (compile_nonlocal c names)"
  unfolding compile_nonlocal_def declare_nonlocal_def by (intro fit fit_bind; simp add: frame_fits_def)

lemma import_names_fit [fit]: "fits c \<Longrightarrow> fitC (emit_import_names line ns as c)"
proof (induction ns arbitrary: "as" c)
  case (Cons n ns)
  show ?case
  proof (cases "as")
    case (Cons a as')
    show ?thesis unfolding Cons emit_import_names.simps by (intro fit fit_bind Cons.IH; simp add: Cons.prems)
  qed (simp add: fit)
qed (simp add: fit)

lemma import_fit [fit]:
  assumes "fits c"
  shows "fitC (compile_import c m alias line)" "fitC (compile_from_import c m names aliases line)"
  unfolding compile_import_def compile_from_import_def emit_import_def using assms by (intro fit fit_bind; simp)+

section \<open>Functions, classes, structs and enums\<close>

lemma func_def_fit [fit]: "fit_calls k \<Longrightarrow> fits c \<Longrightarrow> fitC (compile_func_def k c kind name params b decs line)"
  unfolding compile_func_def_def apply_decorator_def by (intro fit fit_bind; simp)

lemma method_fit [fit]:
  assumes "fits c"
  shows "fitC (emit_return_self c line)" "fitC (emit_method c inner name line)" "fitC (emit_class c name line)"
    "fit_calls k \<Longrightarrow> fitC (compile_method k line stmt c)" "fitC (compile_auto_init c fnames line)"
  unfolding emit_return_self_def emit_method_def emit_class_def compile_method_def compile_auto_init_def emit_field_init_def Let_def
  using assms by (intro fit fit_bind; simp)+

lemma class_fit [fit]:
  assumes "fit_calls k" "fits c"
  shows "fitC (compile_class k c name super b line)" "fitC (compile_struct k c name b line)" "fitC (compile_enum k c name ms vs line)"
  unfolding compile_class_def compile_struct_def compile_enum_def compile_member_def set_superclass_def Let_def
  using assms by (intro fit fit_bind; simp)+

section \<open>Match\<close>

lemma test_fit [fit]:
  assumes "fits c"
  shows "fitP (emit_test_jump c line)" "fit_calls k \<Longrightarrow> fitC (compile_compare k op c subject e line)"
    "fitP (compile_isinstance c subject type line)" "fit_calls k \<Longrightarrow> fitT (compile_range k c subject low high line)"
    "fitC (patch_jumps js c)" "fitC (bind_field subject line name c)"
  unfolding emit_test_jump_def compile_compare_def compile_isinstance_def compile_range_def patch_jumps_def bind_field_def
  using assms by (intro fit fit_bind; simp)+

lemma alternatives_fit [fit]: "fit_calls k \<Longrightarrow> fits c \<Longrightarrow> fitT (compile_alternatives k subject line alts c)"
proof (induction alts arbitrary: c rule: induct_list012)
  case (3 a b alts)
  show ?case unfolding compile_alternatives.simps by (intro fit fit_bind "3.IH"(2); simp add: "3.prems")
next
  case (2 a)
  then show ?case by (simp, intro fit; simp)
qed (simp add: fit)

lemma or_fit [fit]: "fit_calls k \<Longrightarrow> fits c \<Longrightarrow> fitP (compile_or k c subject alts line)"
  unfolding compile_or_def by (intro fit fit_bind; simp)

lemma fails_fit [fit]: "fits c \<Longrightarrow> fitC (emit_fails js line c)"
proof (induction js arbitrary: c rule: induct_list012)
  case (3 a b js)
  show ?case unfolding emit_fails.simps by (intro fit fit_bind "3.IH"(2); simp add: "3.prems")
next
  case (2 a)
  then show ?case by (simp, intro fit; simp)
qed (simp add: fit)

lemma arm_fit [fit]:
  assumes "fit_calls k" "fits c"
  shows "fitP (compile_arm k c fails guard b line)" "fitP (compile_destruct k c subject type vars guard b line)"
    "fitP (compile_tests k c subject pat line)"
  unfolding compile_arm_def compile_destruct_def compile_tests_def
  using assms by (intro fit fit_bind; simp)+

lemma bind_fit [fit]: "fit_calls k \<Longrightarrow> fits c \<Longrightarrow> fitP (compile_bind k c subject name sub guard b line)"
  unfolding compile_bind_def by (intro fit fit_bind; simp)

lemma match_arm_fit [fit]: "fit_calls k \<Longrightarrow> fits c \<Longrightarrow> fitP (match_arm k c subject pat guard b line)"
  unfolding match_arm_def by (intro fit fit_bind; simp)

lemma match_arms_fit [fit]: "fit_calls k \<Longrightarrow> fits c \<Longrightarrow> fitP (match_arms k subject line ps bs gs c)"
proof (induction ps arbitrary: bs gs c)
  case (Cons p ps)
  show ?case
  proof (cases bs)
    case (Cons b bs')
    show ?thesis unfolding Cons match_arms.simps by (intro fit fit_bind Cons.IH; simp add: Cons.prems)
  qed (simp add: fit)
qed (simp add: fit)

lemma match_fit [fit]: "fit_calls k \<Longrightarrow> fits c \<Longrightarrow> fitC (compile_match k c subject ps bs gs wild wguard line)"
  unfolding compile_match_def compile_wildcard_def by (intro fit fit_bind; simp)

section \<open>The recursion\<close>

lemma node_fit [fit]: "fit_calls k \<Longrightarrow> fits c \<Longrightarrow> fitC (compile_node k c a)"
  unfolding compile_node_def by (cases a) (auto intro!: fit)

lemma fit_callsI:
  assumes "\<And>c a. fits c \<Longrightarrow> fitC (cc_expr k c a)" "\<And>c a. fits c \<Longrightarrow> fitC (cc_node k c a)"
    "\<And>c a line. fits c \<Longrightarrow> fitC (cc_predeclare k c a line)"
  shows "fit_calls k"
  using assms by (simp add: fit_calls_def)

lemma calls_fit: "fit_calls (calls_to n powf)"
proof (induction n)
  case 0
  show ?case by (simp add: fit_calls_def fit)
next
  case (Suc n)
  then show ?case by (simp add: Let_def, intro fit_callsI) (simp_all add: fit)
qed

text \<open>The entry points, from the state of a fresh compiler on.\<close>

lemma init_fits: "frame_init (compiler_init vm src) kind name = Some c \<Longrightarrow> fits c"
  using frame_init_fit [of "compiler_init vm src"] by (simp add: fitC_def compiler_init_def fits_def)

lemma compile_fits:
  assumes "fits c"
  shows "compile_expr (calls_to n powf) c a = Some c' \<Longrightarrow> fits c'" "compile_node (calls_to n powf) c a = Some c' \<Longrightarrow> fits c'"
    "predeclare_case (calls_to n powf) c a line = Some c' \<Longrightarrow> fits c'"
  using assms calls_fit by (metis expr_fit node_fit predeclare_case_fit fitC_def)+

text \<open>The bounds, with the numbers of the header file.\<close>

lemma fits_frames:
  "fits c \<Longrightarrow> f \<in> set (cp_frames c) \<Longrightarrow>
    length (cf_locals f) \<le> 256 \<and> length (cf_upvalues f) \<le> 256 \<and> length (cf_nonlocals f) \<le> 256 \<and>
    (\<forall>l \<in> set (cf_locals f). length (lo_name l) \<le> 255) \<and> (\<forall>s \<in> set (cf_nonlocals f). length s \<le> 255)"
  by (simp add: fits_def frame_fits_def list_all_iff name_fits_def FLUX_MAX_LOCALS_def FLUX_MAX_UPVALUES_def)

lemma fits_tables:
  "fits c \<Longrightarrow> length (cp_globals c) \<le> 1024 \<and> (\<forall>g \<in> set (cp_globals c). length (fst g) \<le> 255) \<and>
    length (cp_break_jumps c) \<le> 64 \<and> cp_break_count c \<le> 64 \<and> length (cp_try_stack c) \<le> 32 \<and> cp_try_depth c \<le> 32"
  by (simp add: fits_def list_all_iff name_fits_def MAX_GLOBAL_NAMES_def MAX_BREAK_JUMPS_def FLUX_TRY_DEPTH_MAX_def)

end
