(* ===== verification/Closures.thy ===== *)
theory Closures
  imports CompilerBounds
begin

text \<open>
  The variables of enclosing functions.  \<open>enclosing\<close> says which variable a name means by lexical scoping, \<open>captures\<close>
  which variable an upvalue holds when the chain of its descriptors is followed outwards, as \<^verbatim>\<open>OP_CLOSURE\<close> does when
  it builds the closures; \<^verbatim>\<open>resolve_upvalue\<close> makes the two agree.
\<close>

section \<open>Lexical scoping and chains of descriptors\<close>

text \<open>The frame (counted outwards) and the slot of the nearest local of that name.\<close>

fun enclosing :: "compiler_frame list \<Rightarrow> string \<Rightarrow> (nat \<times> nat) option" where
  "enclosing [] name = None"
| "enclosing (f # fs) name =
     (case resolve_local f name of
        Some i \<Rightarrow> Some (0, i)
      | None \<Rightarrow> map_option (\<lambda>(d, i). (Suc d, i)) (enclosing fs name))"

text \<open>The frame (counted outwards from the one around the first) and the slot that an upvalue of the first frame
  stands for.\<close>

fun captures :: "compiler_frame list \<Rightarrow> nat \<Rightarrow> (nat \<times> nat) option" where
  "captures [] u = None"
| "captures (f # fs) u = do {
     d \<leftarrow> nth_opt (cf_upvalues f) u;
     if ud_is_local d then Some (0, unat (ud_index d))
     else map_option (\<lambda>(n, i). (Suc n, i)) (captures fs (unat (ud_index d)))
   }"

text \<open>The functions of the frames are alive and different, and count the upvalues of their frames.\<close>

definition counted :: "flux_vm \<Rightarrow> compiler_frame \<Rightarrow> bool" where
  "counted vm f \<longleftrightarrow> map_option fn_upvalue_count (get_function (vm_heap vm) (cf_function f)) = Some (length (cf_upvalues f))"

definition closures_ok :: "flux_vm \<Rightarrow> compiler_frame list \<Rightarrow> bool" where
  "closures_ok vm fs \<longleftrightarrow> distinct (map cf_function fs) \<and> (\<forall>f \<in> set fs. counted vm f)"

definition has_room :: "compiler_frame \<Rightarrow> bool" where
  "has_room f \<longleftrightarrow> length (cf_locals f) \<le> FLUX_MAX_LOCALS \<and> length (cf_upvalues f) < FLUX_MAX_UPVALUES"

text \<open>A frame after a resolution: more upvalues, and locals that are marked.\<close>

definition extends :: "compiler_frame \<Rightarrow> compiler_frame \<Rightarrow> bool" where
  "extends f f' \<longleftrightarrow> cf_function f' = cf_function f \<and> (\<exists>more. cf_upvalues f' = cf_upvalues f @ more)"

lemma extends_refl [simp]: "extends f f"
  by (simp add: extends_def)

lemma list_all2_extends [simp]: "list_all2 extends fs fs"
  by (simp add: list_all2_refl)

lemma extends_functions: "list_all2 extends fs fs' \<Longrightarrow> map cf_function fs' = map cf_function fs"
  by (induction rule: list_all2_induct) (auto simp: extends_def)

lemma captures_mono: "list_all2 extends fs fs' \<Longrightarrow> captures fs u = Some x \<Longrightarrow> captures fs' u = Some x"
proof (induction arbitrary: u x rule: list_all2_induct)
  case (Cons f fs f' fs')
  from Cons.hyps obtain more where "cf_upvalues f' = cf_upvalues f @ more" by (auto simp: extends_def)
  then have "nth_opt (cf_upvalues f') u = Some d" if "nth_opt (cf_upvalues f) u = Some d" for d
    using that by (auto simp: nth_opt_def nth_append split: if_splits)
  then show ?case using Cons.prems Cons.IH by (fastforce simp: bind_Some_iff split: if_splits)
qed simp

section \<open>Adding a descriptor\<close>

lemma same_upvalue_eq: "same_upvalue i b u \<Longrightarrow> u = \<lparr>ud_index = i, ud_is_local = b\<rparr>"
  by (cases u) (simp add: same_upvalue_def)

lemma nth_seen: "length (takeWhile (\<lambda>u. \<not> P u) us) < length us \<Longrightarrow> P (us ! length (takeWhile (\<lambda>u. \<not> P u) us))"
  using nth_length_takeWhile by blast

text \<open>What adding a descriptor to a frame leaves.\<close>

definition added :: "flux_vm \<Rightarrow> compiler_frame \<Rightarrow> byte \<Rightarrow> bool \<Rightarrow> nat \<Rightarrow> compiler_frame \<Rightarrow> flux_vm \<Rightarrow> bool" where
  "added vm f i b u f' vm' \<longleftrightarrow> extends f f' \<and> cf_locals f' = cf_locals f \<and> counted vm' f' \<and> u < FLUX_MAX_UPVALUES \<and>
     nth_opt (cf_upvalues f') u = Some \<lparr>ud_index = i, ud_is_local = b\<rparr> \<and>
     (\<forall>q. q \<noteq> cf_function f \<longrightarrow> get_function (vm_heap vm') q = get_function (vm_heap vm) q)"

lemma add_upvalue_added:
  assumes "counted vm f" "has_room f"
  shows "\<exists>u f' vm'. add_upvalue vm f i b = Some (u, f', vm') \<and> added vm f i b u f' vm'"
proof -
  obtain fn where fn: "get_function (vm_heap vm) (cf_function f) = Some fn" "fn_upvalue_count fn = length (cf_upvalues f)"
    using assms(1) by (auto simp: counted_def)
  let ?n = "length (takeWhile (\<lambda>u. \<not> same_upvalue i b u) (cf_upvalues f))"
  show ?thesis
  proof (cases "?n < length (cf_upvalues f)")
    case True
    have "cf_upvalues f ! ?n = \<lparr>ud_index = i, ud_is_local = b\<rparr>" using nth_seen [OF True] by (rule same_upvalue_eq)
    then have "added vm f i b ?n f vm" using True assms by (auto simp: added_def nth_opt_def has_room_def)
    moreover have "add_upvalue vm f i b = Some (?n, f, vm)" using fn True by (simp add: add_upvalue_def)
    ultimately show ?thesis by blast
  next
    case False
    obtain ob where ob: "hget (vm_heap vm) (cf_function f) = Some ob"
      using fn(1) by (auto simp: get_function_def hpayload_def split: option.splits)
    let ?pl = "OBJ_FUNCTION (fn\<lparr>fn_upvalue_count := length (cf_upvalues f) + 1\<rparr>)"
    obtain h where h: "hput (vm_heap vm) (cf_function f) ?pl = Some h" using ob by (simp add: hput_def)
    let ?f = "f\<lparr>cf_upvalues := cf_upvalues f @ [\<lparr>ud_index = i, ud_is_local = b\<rparr>]\<rparr>"
    have "add_upvalue vm f i b = Some (length (cf_upvalues f), ?f, vm\<lparr>vm_heap := h\<rparr>)"
      using fn False assms(2) h by (simp add: add_upvalue_def has_room_def array_put_def vm_hput_def)
    moreover have "added vm f i b (length (cf_upvalues f)) ?f (vm\<lparr>vm_heap := h\<rparr>)"
      using assms(2) hpayload_hput [OF h]
      by (auto simp: added_def extends_def counted_def nth_opt_def has_room_def get_function_def)
    ultimately show ?thesis by blast
  qed
qed

section \<open>Resolving a name\<close>

lemma resolve_local_bound: "resolve_local f name = Some i \<Longrightarrow> i < length (cf_locals f)"
  by (auto simp: resolve_local_def find_Some_iff rev_nth)

lemma byte_index: "i < 256 \<Longrightarrow> unat (of_nat i :: byte) = i"
  by (simp add: unat_of_nat)

text \<open>The slot is marked, so that the end of its scope closes the upvalue.\<close>

definition captured_at :: "compiler_frame list \<Rightarrow> nat \<times> nat \<Rightarrow> bool" where
  "captured_at fs v = (\<exists>f l. nth_opt fs (fst v) = Some f \<and> nth_opt (cf_locals f) (snd v) = Some l \<and> lo_captured l)"

definition resolved :: "flux_vm \<Rightarrow> compiler_frame list \<Rightarrow> string \<Rightarrow> nat option \<Rightarrow> compiler_frame list \<Rightarrow> flux_vm \<Rightarrow> bool" where
  "resolved vm fs name r fs' vm' \<longleftrightarrow> list_all2 extends fs fs' \<and> (\<forall>f \<in> set fs'. counted vm' f) \<and>
     (\<forall>q. q \<notin> cf_function ` set fs \<longrightarrow> get_function (vm_heap vm') q = get_function (vm_heap vm) q) \<and>
     (case enclosing (tl fs) name of
        None \<Rightarrow> r = None
      | Some v \<Rightarrow> \<exists>u < FLUX_MAX_UPVALUES. r = Some u \<and> captures fs' u = Some v \<and> captured_at (tl fs') v)"

lemma counted_cong: "get_function (vm_heap vm') (cf_function f) = get_function (vm_heap vm) (cf_function f) \<Longrightarrow> counted vm' f = counted vm f"
  by (simp add: counted_def)

lemma upvalue_in_resolved:
  assumes "closures_ok vm fs" "\<forall>f \<in> set fs. has_room f" "fs \<noteq> []"
  shows "\<exists>r fs' vm'. upvalue_in vm fs name = Some (r, fs', vm') \<and> resolved vm fs name r fs' vm'"
  using assms
proof (induction vm fs name rule: upvalue_in.induct)
  case (2 vm f name)
  then show ?case by (simp add: resolved_def closures_ok_def)
next
  case (3 vm f g fs name)
  show ?case
  proof (cases "resolve_local g name")
    case (Some i)
    have i: "i < length (cf_locals g)" "i < 256"
      using resolve_local_bound [OF Some] "3.prems"(2) by (auto simp: has_room_def FLUX_MAX_LOCALS_def)
    obtain u f' vm' where u: "add_upvalue vm f (of_nat i) True = Some (u, f', vm')" "added vm f (of_nat i) True u f' vm'"
      using add_upvalue_added [of vm f] "3.prems" by (force simp: closures_ok_def)
    have counts: "counted vm' h" if "h \<in> set (g # fs)" for h
      using u(2) that "3.prems"(1) counted_cong [of vm' h vm] by (auto simp: added_def closures_ok_def image_iff)
    have "counted vm' (capture_local i g)" using counts [of g] by (simp add: counted_def capture_local_def)
    then have "resolved vm (f # g # fs) name (Some u) (f' # capture_local i g # fs) vm'"
      using u(2) counts Some i
      by (auto simp: resolved_def added_def extends_def capture_local_def byte_index captured_at_def nth_opt_def)
    then show ?thesis using u(1) Some by simp
  next
    case None
    have pre: "closures_ok vm (g # fs)" "\<forall>f \<in> set (g # fs). has_room f" "g # fs \<noteq> []" using "3.prems" by (auto simp: closures_ok_def)
    obtain r gs vm1 where r: "upvalue_in vm (g # fs) name = Some (r, gs, vm1)" "resolved vm (g # fs) name r gs vm1"
      using "3.IH" [OF None pre] by blast
    have f: "cf_function f \<notin> cf_function ` set (g # fs)" "counted vm f" "has_room f" using "3.prems" by (auto simp: closures_ok_def)
    then have f1: "counted vm1 f" using r(2) counted_cong [of vm1 f vm] by (auto simp: resolved_def)
    have fns: "cf_function ` set gs = cf_function ` set (g # fs)"
      using r(2) extends_functions [of "g # fs" gs] by (metis list.set_map resolved_def)
    show ?thesis
    proof (cases r)
      case r_None: None
      have "resolved vm (f # g # fs) name None (f # gs) vm1"
        using r(2) f1 r_None None by (auto simp: resolved_def split: option.splits)
      then show ?thesis using r(1) None r_None by simp
    next
      case (Some j)
      obtain v where v: "enclosing fs name = Some v" "j < 256" "captures gs j = Some v" "captured_at (tl gs) v"
        using r(2) Some by (auto simp: resolved_def FLUX_MAX_UPVALUES_def split: option.splits)
      obtain u f' vm2 where u: "add_upvalue vm1 f (of_nat j) False = Some (u, f', vm2)" "added vm1 f (of_nat j) False u f' vm2"
        using add_upvalue_added [OF f1 f(3)] by blast
      have counts: "counted vm2 h" if "h \<in> set gs" for h
      proof -
        have "cf_function h \<noteq> cf_function f" using that f(1) fns by (metis imageI)
        then show ?thesis using u(2) that r(2) counted_cong [of vm2 h vm1] by (simp add: added_def resolved_def)
      qed
      have "captured_at gs (Suc (fst v), snd v)" using v(4) by (cases gs) (auto simp: captured_at_def nth_opt_def split: if_splits)
      then have "resolved vm (f # g # fs) name (Some u) (f' # gs) vm2"
        using u(2) counts r(2) v None by (auto simp: resolved_def added_def byte_index nth_opt_def split: prod.splits)
      then show ?thesis using r(1) u(1) None Some by simp
    qed
  qed
qed simp

lemma resolve_upvalue_resolved:
  assumes "closures_ok (cp_vm c) (cp_frames c)" "\<forall>f \<in> set (cp_frames c). has_room f" "cp_frames c \<noteq> []"
  shows "\<exists>r c'. resolve_upvalue c name = Some (r, c') \<and> resolved (cp_vm c) (cp_frames c) name r (cp_frames c') (cp_vm c') \<and>
    closures_ok (cp_vm c') (cp_frames c')"
proof -
  obtain r fs' vm' where r: "upvalue_in (cp_vm c) (cp_frames c) name = Some (r, fs', vm')"
    "resolved (cp_vm c) (cp_frames c) name r fs' vm'"
    using upvalue_in_resolved [OF assms] by blast
  then have "map cf_function fs' = map cf_function (cp_frames c)" by (auto simp: resolved_def intro: extends_functions)
  then have "closures_ok vm' fs'" using assms(1) r(2) by (simp add: closures_ok_def resolved_def)
  then show ?thesis using r by (simp add: resolve_upvalue_def)
qed

end
