(* ===== verification/Compiler_Properties.thy ===== *)
theory Compiler_Properties
  imports CompilerBlocks CodeRun Closures
begin

text \<open>
  The properties of the compiler: the code it emits for the core of the language does, on the machine, what the program
  means; folded constants are what the opcodes compute; its fixed arrays do not overflow; closure variables follow
  lexical scoping.
\<close>

section \<open>Compiled statements\<close>

lemma code_count_chunk: "code_count c = Some n \<longleftrightarrow> (\<exists>ch. current_chunk c = Some ch \<and> n = length (ch_code ch))"
  by (auto simp: code_count_def)

lemma current_chunk_with_locals: "current_chunk (map_frame (with_locals ls) c) = current_chunk c"
  by (cases "cp_frames c") (simp_all add: current_chunk_def cur_function_def cur_frame_def map_frame_def with_locals_def)

lemma statement_compiled:
  assumes "stmt_code pw ns a bs ns'" "length bs \<le> 0x7FFF" "in_scope ns c" "current_chunk c = Some ch0"
  shows "\<exists>N. \<forall>k \<ge> N. \<exists>c' ch. compile_node (calls_to k pw) c a = Some c' \<and> \<not> cp_had_error c' \<and> current_chunk c' = Some ch \<and>
    ch_code ch = ch_code ch0 @ bs"
proof -
  obtain ms N where N: "\<And>k. N \<le> k \<Longrightarrow> stmt_compiles k pw ns a bs ms"
    using compile_core(1) [OF assms(1,2)] unfolding eventually_stmt_def by blast
  obtain d where d: "scope_is d c" using assms(3) by (auto simp: in_scope_def scope_is_def)
  have g: "grows c [] c" by (rule grows_refl) (simp add: chunk_open_def assms(4))
  have "\<exists>c' ch. compile_node (calls_to k pw) c a = Some c' \<and> \<not> cp_had_error c' \<and> current_chunk c' = Some ch \<and> ch_code ch = ch_code ch0 @ bs"
    if k: "N \<le> k" for k
  proof -
    have "stmt_compiles (Suc k) pw ns a bs ms" using N k by simp
    then have "gives (cc_node (calls_to (Suc k) pw) c a)
        (\<lambda>c'. \<exists>ls. fresh_locals d ms ls \<and> grows (map_frame (with_locals ls) c) ([] @ bs) c')"
      unfolding stmt_compiles_def using g assms(3) d by blast
    then obtain c' ls where c: "compile_node (calls_to k pw) c a = Some c'" "grows (map_frame (with_locals ls) c) bs c'"
      by (auto simp: gives_def Let_def)
    have "\<not> cp_had_error c'" using grows_keeps(2) [OF c(2)] assms(3) by (simp add: in_scope_def)
    moreover obtain ch where "current_chunk c' = Some ch" "ch_code ch = ch_code ch0 @ bs"
      using grows_code [OF c(2)] assms(4) by (auto simp: current_chunk_with_locals)
    ultimately show ?thesis using c(1) by blast
  qed
  then show ?thesis by blast
qed

text \<open>C1: The compiler is correct on the core of the language.  Statements of the core are compiled without error, for every
  sufficient bound on the recursion; and whenever a frame of the machine runs a function whose code starts with the
  code compiled so far, with the variables of the scope in its slots, the dispatch loop takes the new code from its
  start to its end and leaves in the slots exactly the variables the program means, and nothing else on the stack.\<close>

theorem compiled_statement_runs:
  assumes "execs pw s a s'" "stmt_code pw (map fst s) a bs ns'" "length bs \<le> 0x7FFF"
    and "in_scope (map fst s) c" "current_chunk c = Some ch0"
  shows "\<exists>N. \<forall>k \<ge> N. \<exists>c' ch. compile_node (calls_to k pw) c a = Some c' \<and> \<not> cp_had_error c' \<and> current_chunk c' = Some ch \<and>
    (\<forall>env base preserve vm lo post. env_pow env = pw \<longrightarrow> frame_slots vm = Some (length lo) \<longrightarrow>
      frame_code vm = Some (ch_code ch @ post) \<longrightarrow> length lo + length s + length bs \<le> FLUX_STACK_MAX \<longrightarrow>
      flux_reach env base preserve (vm\<lparr>vm_stack := lo @ rev (map snd s)\<rparr>, length (ch_code ch0))
        (vm\<lparr>vm_stack := lo @ rev (map snd s')\<rparr>, length (ch_code ch)))"
proof -
  have len: "length s \<le> 256" using assms(4) by (auto simp: in_scope_def FLUX_MAX_LOCALS_def)
  have run: "flux_reach env base preserve (vm\<lparr>vm_stack := lo @ rev (map snd s)\<rparr>, length (ch_code ch0))
      (vm\<lparr>vm_stack := lo @ rev (map snd s')\<rparr>, length (ch_code ch))"
    if h: "env_pow env = pw" "frame_slots vm = Some (length lo)" "frame_code vm = Some (ch_code ch @ post)"
      "length lo + length s + length bs \<le> FLUX_STACK_MAX" "ch_code ch = ch_code ch0 @ bs"
    for env base preserve vm lo post ch
  proof -
    have "hosts (env, base, preserve, vm) pw (length lo)" using h(1,2) by simp
    from run_stmt(1) [OF this assms(1-3) len]
    have "segment (env, base, preserve, vm) bs (lo @ slots s) (lo @ slots s')" by (simp add: does_def)
    moreover have "code_at vm (length (ch_code ch0)) bs" using h(3,5) by (auto simp: code_at_def)
    ultimately show ?thesis using h(4,5) by (auto simp: runs_def slots_def)
  qed
  from statement_compiled [OF assms(2-5)] obtain N where N: "\<forall>k \<ge> N. \<exists>c' ch. compile_node (calls_to k pw) c a = Some c' \<and>
    \<not> cp_had_error c' \<and> current_chunk c' = Some ch \<and> ch_code ch = ch_code ch0 @ bs" by blast
  show ?thesis
  proof (intro exI [of _ N] allI impI)
    fix k assume "N \<le> k"
    then obtain c' ch where "compile_node (calls_to k pw) c a = Some c'" "\<not> cp_had_error c'" "current_chunk c' = Some ch"
      "ch_code ch = ch_code ch0 @ bs" using N by blast
    then show "\<exists>c' ch. compile_node (calls_to k pw) c a = Some c' \<and> \<not> cp_had_error c' \<and> current_chunk c' = Some ch \<and>
      (\<forall>env base preserve vm lo post. env_pow env = pw \<longrightarrow> frame_slots vm = Some (length lo) \<longrightarrow>
        frame_code vm = Some (ch_code ch @ post) \<longrightarrow> length lo + length s + length bs \<le> FLUX_STACK_MAX \<longrightarrow>
        flux_reach env base preserve (vm\<lparr>vm_stack := lo @ rev (map snd s)\<rparr>, length (ch_code ch0))
          (vm\<lparr>vm_stack := lo @ rev (map snd s')\<rparr>, length (ch_code ch)))"
      using run by (intro exI [of _ c'] exI [of _ ch]) blast
  qed
qed

text \<open>A compiler at work on a function with one variable.\<close>

definition sample_compiler :: compiler where
  "sample_compiler = (compiler_init (vm_zero\<lparr>vm_heap := [Some \<lparr>marked = False, payload = OBJ_FUNCTION
       \<lparr>fn_arity = 1, fn_upvalue_count = 0, fn_chunk = chunk_init, fn_name = None, fn_source_file = None,
        fn_is_async = False, fn_is_generator = False\<rparr>\<rparr>]\<rparr>) None)
     \<lparr>cp_frames := [\<lparr>cf_function = 0, cf_kind = FUNC_FUNCTION, cf_has_yield = False,
        cf_locals = [\<lparr>lo_name = [], lo_depth = 0, lo_captured = False, lo_is_const = False\<rparr>,
                     \<lparr>lo_name = ''x'', lo_depth = 1, lo_captured = False, lo_is_const = False\<rparr>],
        cf_scope_depth = 1, cf_upvalues = [], cf_nonlocals = []\<rparr>]\<rparr>"

text \<open>\<^verbatim>\<open>while x:\<close> with the body \<^verbatim>\<open>let y = x - 1; x = y\<close>\<close>

definition sample_body :: ast where
  "sample_body = AST_BLOCK (1, 1) [AST_LET_DECL (1, 1) ''y'' (AST_BINARY (1, 1) TOK_MINUS (AST_IDENT (1, 1) ''x'') (AST_INT (1, 1) 1)) False,
     AST_EXPR_STMT (1, 1) (AST_ASSIGN (1, 1) (AST_IDENT (1, 1) ''x'') (AST_IDENT (1, 1) ''y''))]"

definition sample_loop :: ast where
  "sample_loop = AST_WHILE (1, 1) (AST_IDENT (1, 1) ''x'') sample_body"

definition sample_env :: "int64 \<Rightarrow> env" where
  "sample_env x = [(''x'', VAL_INT x), ([], VAL_NULL)]"

definition sample_body_code :: "byte list" where
  "sample_body_code = (slot_code OP_LOAD_LOCAL 1 @ literal_code (VAL_INT 1) @ [opcode_byte OP_SUB]) @
     ((slot_code OP_LOAD_LOCAL 2 @ slot_code OP_STORE_LOCAL 1) @ pop_code) @ []"

lemma sample_code:
  "stmt_code pw [''x'', []] sample_loop (while_code (slot_code OP_LOAD_LOCAL 1) (sample_body_code @ end_scope_code [''x'', []] [''y'', ''x'', []])) [''x'', []]"
  unfolding sample_loop_def
proof (rule stmt_code_stmts_code.while_loop)
  show "assigns_known [''x'', []] (AST_IDENT (1, 1) ''x'')" by (rule assigns_known.intros)
  show "assigns_known [''x'', []] sample_body"
    unfolding sample_body_def by (auto intro!: assigns_known.intros)
  show "expr_code pw [''x'', []] (AST_IDENT (1, 1) ''x'') (slot_code OP_LOAD_LOCAL 1)" by (rule expr_code.ident) simp
  have one: "stmt_code pw [''x'', []]
      (AST_LET_DECL (1, 1) ''y'' (AST_BINARY (1, 1) TOK_MINUS (AST_IDENT (1, 1) ''x'') (AST_INT (1, 1) 1)) False)
      (slot_code OP_LOAD_LOCAL 1 @ literal_code (VAL_INT 1) @ [opcode_byte OP_SUB]) [''y'', ''x'', []]"
    by (intro stmt_code_stmts_code.decl expr_code.binary expr_code.ident expr_code.int)
      (simp_all add: fold_binary_def binary_opcode_def FLUX_MAX_LOCALS_def)
  have two: "stmt_code pw [''y'', ''x'', []]
      (AST_EXPR_STMT (1, 1) (AST_ASSIGN (1, 1) (AST_IDENT (1, 1) ''x'') (AST_IDENT (1, 1) ''y'')))
      ((slot_code OP_LOAD_LOCAL 2 @ slot_code OP_STORE_LOCAL 1) @ pop_code) [''y'', ''x'', []]"
    by (intro stmt_code_stmts_code.expr expr_code.assign expr_code.ident) simp_all
  show "stmt_code pw [''x'', []] sample_body sample_body_code [''y'', ''x'', []]"
    unfolding sample_body_def sample_body_code_def
    by (intro stmt_code_stmts_code.block stmt_code_stmts_code.all_cons [OF one] stmt_code_stmts_code.all_cons [OF two] stmt_code_stmts_code.all_nil)
qed

lemma sample_turn:
  assumes "int64_range (sint x - 1) = Some y"
  shows "execs pw (sample_env x) sample_body ((''y'', VAL_INT y) # sample_env y)"
proof -
  let ?s = "sample_env x"
  have "binary_value pw TOK_MINUS (VAL_INT x) (VAL_INT 1) = Some (VAL_INT y)"
    using assms by (simp add: exact_value_defs int_result_def)
  then have "evals pw ?s (AST_BINARY (1, 1) TOK_MINUS (AST_IDENT (1, 1) ''x'') (AST_INT (1, 1) 1)) (VAL_INT y) ?s"
    by (intro evals.binary [OF _ _ evals.ident evals.int]) (simp_all add: sample_env_def)
  then have one: "execs pw ?s (AST_LET_DECL (1, 1) ''y'' (AST_BINARY (1, 1) TOK_MINUS (AST_IDENT (1, 1) ''x'') (AST_INT (1, 1) 1)) False)
    ((''y'', VAL_INT y) # ?s)" by (rule execs_execs_all.decl)
  let ?t = "(''y'', VAL_INT y) # ?s"
  have "evals pw ?t (AST_ASSIGN (1, 1) (AST_IDENT (1, 1) ''x'') (AST_IDENT (1, 1) ''y'')) (VAL_INT y) (AList.update ''x'' (VAL_INT y) ?t)"
    by (intro evals.assign evals.ident) (simp_all add: sample_env_def)
  then have two: "execs pw ?t (AST_EXPR_STMT (1, 1) (AST_ASSIGN (1, 1) (AST_IDENT (1, 1) ''x'') (AST_IDENT (1, 1) ''y'')))
    ((''y'', VAL_INT y) # sample_env y)" using execs_execs_all.expr by (fastforce simp: sample_env_def)
  show ?thesis unfolding sample_body_def
    by (intro execs_execs_all.block execs_execs_all.all_cons [OF one] execs_execs_all.all_cons [OF two] execs_execs_all.all_nil)
qed

lemma sample_execs: "execs pw (sample_env 2) sample_loop (sample_env 0)"
proof -
  have turn: "execs pw (sample_env x) sample_loop s" if "int64_range (sint x - 1) = Some y" "x \<noteq> 0" "execs pw (sample_env y) sample_loop s"
    for x y s unfolding sample_loop_def
    by (rule execs_execs_all.while_turn [where ?s1.0 = "sample_env x" and v = "VAL_INT x", OF _ _ sample_turn [OF that(1)]])
      (use that(2,3) in \<open>auto simp: truth_def leave_scope_def sample_env_def sample_loop_def intro!: evals.ident\<close>)
  have "execs pw (sample_env 0) sample_loop (sample_env 0)" unfolding sample_loop_def
    by (rule execs_execs_all.while_end [where v = "VAL_INT 0"]) (auto simp: truth_def sample_env_def intro!: evals.ident)
  then have "execs pw (sample_env 1) sample_loop (sample_env 0)" by (rule turn [rotated 2]) (simp_all add: int64_range_def)
  then show ?thesis by (rule turn [rotated 2]) (simp_all add: int64_range_def)
qed

theorem compiled_statement_runs_witness:
  "\<exists>N. \<forall>k \<ge> N. \<exists>c' ch. compile_node (calls_to k (\<lambda>x y. x)) sample_compiler sample_loop = Some c' \<and> \<not> cp_had_error c' \<and>
    current_chunk c' = Some ch \<and>
    (\<forall>env base preserve vm post. env_pow env = (\<lambda>x y. x) \<longrightarrow> frame_slots vm = Some 0 \<longrightarrow> frame_code vm = Some (ch_code ch @ post) \<longrightarrow>
      flux_reach env base preserve (vm\<lparr>vm_stack := [VAL_NULL, VAL_INT 2]\<rparr>, 0)
        (vm\<lparr>vm_stack := [VAL_NULL, VAL_INT 0]\<rparr>, length (ch_code ch)))"
proof -
  have names: "map fst (sample_env 2) = [''x'', []]" by (simp add: sample_env_def)
  have code: "stmt_code (\<lambda>x y. x) (map fst (sample_env 2)) sample_loop
      (while_code (slot_code OP_LOAD_LOCAL 1) (sample_body_code @ end_scope_code [''x'', []] [''y'', ''x'', []])) [''x'', []]"
    using sample_code by (simp only: names)
  have scope: "in_scope (map fst (sample_env 2)) sample_compiler"
    unfolding names by (simp add: in_scope_def sample_compiler_def compiler_init_def FLUX_MAX_LOCALS_def)
  have chunk: "current_chunk sample_compiler = Some chunk_init"
    by (simp add: sample_compiler_def compiler_init_def current_chunk_def2 hget_def)
  have len: "length (while_code (slot_code OP_LOAD_LOCAL 1) (sample_body_code @ end_scope_code [''x'', []] [''y'', ''x'', []])) = 28"
    by (simp add: while_code_def sample_body_code_def slot_code_def literal_code_def end_scope_code_def)
  from compiled_statement_runs [OF sample_execs code _ scope chunk] obtain N where N:
    "\<forall>k \<ge> N. \<exists>c' ch. compile_node (calls_to k (\<lambda>x y. x)) sample_compiler sample_loop = Some c' \<and> \<not> cp_had_error c' \<and> current_chunk c' = Some ch \<and>
      (\<forall>env base preserve vm lo post. env_pow env = (\<lambda>x y. x) \<longrightarrow> frame_slots vm = Some (length lo) \<longrightarrow>
        frame_code vm = Some (ch_code ch @ post) \<longrightarrow> length lo + length (sample_env 2) + 28 \<le> FLUX_STACK_MAX \<longrightarrow>
        flux_reach env base preserve (vm\<lparr>vm_stack := lo @ rev (map snd (sample_env 2))\<rparr>, length (ch_code chunk_init))
          (vm\<lparr>vm_stack := lo @ rev (map snd (sample_env 0))\<rparr>, length (ch_code ch)))"
    unfolding len by auto
  show ?thesis
  proof (intro exI [of _ N] allI impI)
    fix k assume "N \<le> k"
    then obtain c' ch where c: "compile_node (calls_to k (\<lambda>x y. x)) sample_compiler sample_loop = Some c'" "\<not> cp_had_error c'"
      "current_chunk c' = Some ch" and r: "\<And>env base preserve vm lo post. env_pow env = (\<lambda>x y. x) \<Longrightarrow> frame_slots vm = Some (length lo) \<Longrightarrow>
        frame_code vm = Some (ch_code ch @ post) \<Longrightarrow> length lo + length (sample_env 2) + 28 \<le> FLUX_STACK_MAX \<Longrightarrow>
        flux_reach env base preserve (vm\<lparr>vm_stack := lo @ rev (map snd (sample_env 2))\<rparr>, length (ch_code chunk_init))
          (vm\<lparr>vm_stack := lo @ rev (map snd (sample_env 0))\<rparr>, length (ch_code ch))" using N by blast
    show "\<exists>c' ch. compile_node (calls_to k (\<lambda>x y. x)) sample_compiler sample_loop = Some c' \<and> \<not> cp_had_error c' \<and> current_chunk c' = Some ch \<and>
      (\<forall>env base preserve vm post. env_pow env = (\<lambda>x y. x) \<longrightarrow> frame_slots vm = Some 0 \<longrightarrow> frame_code vm = Some (ch_code ch @ post) \<longrightarrow>
        flux_reach env base preserve (vm\<lparr>vm_stack := [VAL_NULL, VAL_INT 2]\<rparr>, 0)
          (vm\<lparr>vm_stack := [VAL_NULL, VAL_INT 0]\<rparr>, length (ch_code ch)))"
      using c r [where lo = "[]"] by (intro exI [of _ c'] exI [of _ ch])
        (simp add: sample_env_def chunk_init_def FLUX_STACK_MAX_def)
  qed
qed

section \<open>Constant folding\<close>

text \<open>C37: Folding is sound.  Where the operator is one of \<open>+\<close>, \<open>-\<close>, \<open>*\<close> and the bitwise ones on any literals, or any operator
  on integer literals that are not negative, with a divisor other than zero and within 53 bits where the machine
  compares or divides through doubles, the literal that replaces the operation is the value its opcode leaves on the
  stack for the two operands.\<close>

theorem folding_sound:
  assumes "exact_fold op l r" "fold_binary (env_pow env) op l r = Some (Some v)" "length st < FLUX_STACK_MAX"
  shows "\<exists>a b opc. literal_value l = Some a \<and> literal_value r = Some b \<and> binary_opcode op = Some opc \<and>
    dispatch opc (run_ctx n env) base preserve (vm\<lparr>vm_stack := st @ [a, b]\<rparr>) ip = Some (Continue (vm\<lparr>vm_stack := st @ [v]\<rparr>) ip)"
proof -
  obtain a b where ab: "literal_value l = Some a" "literal_value r = Some b" "binary_value (env_pow env) op a b = Some v"
    using fold_exact [OF assms(1,2)] by blast
  obtain opc where "binary_opcode op = Some opc" "operator_value (env_pow env) opc a b = Some v"
    using ab(3) by (auto simp: binary_value_code bind_Some_iff)
  then show ?thesis using ab(1,2) operator_at [OF _ HOL.refl assms(3)] by blast
qed

theorem folding_sound_witness:
  "\<forall>env. op_pow (run_ctx 0 env) (vm_zero\<lparr>vm_stack := [VAL_INT 3, VAL_INT 5]\<rparr>) 7 = Some (Continue (vm_zero\<lparr>vm_stack := [VAL_INT 243]\<rparr>) 7)"
proof
  fix env :: vm_env
  have "exact_fold TOK_STAR_STAR (AST_INT (1, 1) 3) (AST_INT (1, 6) 5)" by (simp add: exact_fold_def plain_ints_def)
  moreover have "fold_pow 5 3 1 = Some 243" by (simp add: fold_pow.simps int64_range_def)
  then have "fold_binary (env_pow env) TOK_STAR_STAR (AST_INT (1, 1) 3) (AST_INT (1, 6) 5) = Some (Some (VAL_INT 243))"
    by (simp add: fold_binary_def fold_other_simps)
  ultimately show "op_pow (run_ctx 0 env) (vm_zero\<lparr>vm_stack := [VAL_INT 3, VAL_INT 5]\<rparr>) 7 = Some (Continue (vm_zero\<lparr>vm_stack := [VAL_INT 243]\<rparr>) 7)"
    using folding_sound [of TOK_STAR_STAR "AST_INT (1, 1) 3" "AST_INT (1, 6) 5" env "VAL_INT 243" "[]" 0 0 False vm_zero 7]
    by (simp add: other_opcodes dispatch_def FLUX_STACK_MAX_def)
qed

text \<open>C38: Folding hides a division by zero.  The compiler replaces \<open>x / 0\<close>, \<open>x // 0\<close> and \<open>x % 0\<close> by a zero, for every integer
  literal, while the opcodes raise an exception for the same operands.\<close>

theorem folding_hides_zero_division:
  "fold_binary powf TOK_SLASH (AST_INT p x) (AST_INT q 0) = Some (Some (VAL_FLOAT (dbl_zero False))) \<and>
   fold_binary powf TOK_SLASH_SLASH (AST_INT p x) (AST_INT q 0) = Some (Some (VAL_INT 0)) \<and>
   fold_binary powf TOK_PERCENT (AST_INT p x) (AST_INT q 0) = Some (Some (VAL_INT 0)) \<and>
   op_div (vm\<lparr>vm_stack := st @ [VAL_INT x, VAL_INT 0]\<rparr>) ip = throw (vm\<lparr>vm_stack := st\<rparr>) ip [''Division by zero''] \<and>
   op_floor_div (vm\<lparr>vm_stack := st @ [VAL_INT x, VAL_INT 0]\<rparr>) ip = throw (vm\<lparr>vm_stack := st\<rparr>) ip [''Division by zero''] \<and>
   op_mod (vm\<lparr>vm_stack := st @ [VAL_INT x, VAL_INT 0]\<rparr>) ip = throw (vm\<lparr>vm_stack := st\<rparr>) ip [''Modulo by zero'']"
proof -
  have "dbl_is_zero (dbl_of_int 0)"
    by (simp add: dbl_of_int_def dbl_of_units_def dbl_round_def round_shift.simps round_half_even_def dbl_is_zero_def
        dbl_exponent_def dbl_fraction_def)
  then show ?thesis
    by (simp add: fold_binary_def fold_other_simps op_div_def op_floor_div_def op_mod_def division_op_def value_div_def
        value_floor_div_def value_mod_def vm_pop_def butlast_append)
qed

section \<open>Fixed arrays\<close>

text \<open>C39: The compiler never overflows its fixed arrays.  It starts within them, and whatever tree it compiles to
  whatever depth, the locals, upvalues and nonlocal names of every function, the global names, the pending breaks and
  the contexts of \<open>try\<close> stay within their arrays, and every copy of a name leaves room for its NUL.\<close>

theorem compiler_arrays_never_overflow:
  assumes "fits c"
    and "compile_node (calls_to n powf) c a = Some c' \<or> compile_expr (calls_to n powf) c a = Some c' \<or>
      predeclare_case (calls_to n powf) c a line = Some c'"
  shows "(\<forall>f \<in> set (cp_frames c'). length (cf_locals f) \<le> 256 \<and> length (cf_upvalues f) \<le> 256 \<and> length (cf_nonlocals f) \<le> 256 \<and>
      (\<forall>l \<in> set (cf_locals f). length (lo_name l) \<le> 255) \<and> (\<forall>s \<in> set (cf_nonlocals f). length s \<le> 255)) \<and>
    length (cp_globals c') \<le> 1024 \<and> (\<forall>g \<in> set (cp_globals c'). length (fst g) \<le> 255) \<and>
    length (cp_break_jumps c') \<le> 64 \<and> cp_break_count c' \<le> 64 \<and> length (cp_try_stack c') \<le> 32 \<and> cp_try_depth c' \<le> 32 \<and>
    (\<forall>vm src kind name c0. frame_init (compiler_init vm src) kind name = Some c0 \<longrightarrow> fits c0) \<and> fits c'"
proof -
  have "fits c'" using assms compile_fits by blast
  then show ?thesis using fits_frames fits_tables init_fits by blast
qed

text \<open>A function whose 256 slots are taken; \<^verbatim>\<open>let z = null\<close> declares one more.\<close>

definition full_compiler :: compiler where
  "full_compiler = sample_compiler\<lparr>cp_frames := [(hd (cp_frames sample_compiler))
     \<lparr>cf_locals := replicate 256 \<lparr>lo_name = ''x'', lo_depth = 1, lo_captured = False, lo_is_const = False\<rparr>\<rparr>]\<rparr>"

theorem compiler_arrays_never_overflow_witness:
  "\<exists>c'. compile_node (calls_to 1 (\<lambda>x y. x)) full_compiler (AST_LET_DECL (1, 1) ''z'' (AST_NULL (1, 1)) False) = Some c' \<and>
    cp_had_error c' \<and> (\<forall>f \<in> set (cp_frames c'). length (cf_locals f) \<le> 256)"
proof -
  let ?z = "AST_LET_DECL (1, 1) ''z'' (AST_NULL (1, 1)) False"
  have "fits full_compiler"
    by (simp add: fits_def frame_fits_def full_compiler_def sample_compiler_def compiler_init_def name_fits_def list_all_iff
        FLUX_MAX_LOCALS_def)
  moreover obtain c' where "compile_node (calls_to 1 (\<lambda>x y. x)) full_compiler ?z = Some c'" "cp_had_error c'"
    by (simp add: Let_def compile_node_def compile_let_def compile_expr_def full_compiler_def sample_compiler_def compiler_init_def emit_op_def
        emit_byte_def upd_chunk_def upd_function_def cur_frame_def get_function_def hpayload_def hget_def vm_hput_def hput_def
        add_local_def set_local_const_def compile_error_def FLUX_MAX_LOCALS_def)
  ultimately show ?thesis using compiler_arrays_never_overflow [where line = 0] by blast
qed

section \<open>Closures\<close>

text \<open>C40: A name that is not local resolves to the variable lexical scoping gives it.  If an enclosing function declares
  it, the result is an upvalue whose chain of descriptors ends at the slot of the nearest declaration, and that slot
  is marked as captured; else there is no upvalue.  The upvalues that were there keep their meaning.\<close>

theorem upvalues_follow_scoping:
  assumes "closures_ok (cp_vm c) (cp_frames c)" "\<forall>f \<in> set (cp_frames c). has_room f" "cp_frames c \<noteq> []"
  shows "\<exists>r c'. resolve_upvalue c name = Some (r, c') \<and>
    (case enclosing (tl (cp_frames c)) name of
       None \<Rightarrow> r = None
     | Some v \<Rightarrow> \<exists>u < 256. r = Some u \<and> captures (cp_frames c') u = Some v \<and> captured_at (tl (cp_frames c')) v) \<and>
    (\<forall>u v. captures (cp_frames c) u = Some v \<longrightarrow> captures (cp_frames c') u = Some v) \<and>
    closures_ok (cp_vm c') (cp_frames c')"
  using resolve_upvalue_resolved [OF assms, of name] captures_mono
  unfolding resolved_def FLUX_MAX_UPVALUES_def by blast

text \<open>Three nested functions; the outermost one declares \<open>x\<close> in its slot 1.\<close>

definition nested_frame :: "ptr \<Rightarrow> local_var list \<Rightarrow> compiler_frame" where
  "nested_frame p ls = \<lparr>cf_function = p, cf_kind = FUNC_FUNCTION, cf_has_yield = False, cf_locals = ls, cf_scope_depth = 1,
     cf_upvalues = [], cf_nonlocals = []\<rparr>"

definition nested_compiler :: compiler where
  "nested_compiler = sample_compiler\<lparr>
     cp_vm := (cp_vm sample_compiler)\<lparr>vm_heap := replicate 3 (hd (vm_heap (cp_vm sample_compiler)))\<rparr>,
     cp_frames := [nested_frame 2 [], nested_frame 1 [], nested_frame 0 (cf_locals (hd (cp_frames sample_compiler)))]\<rparr>"

theorem upvalues_follow_scoping_witness:
  "\<exists>u c'. resolve_upvalue nested_compiler ''x'' = Some (Some u, c') \<and> captures (cp_frames c') u = Some (1, 1) \<and>
    captured_at (tl (cp_frames c')) (1, 1)"
proof -
  note defs = nested_compiler_def nested_frame_def sample_compiler_def compiler_init_def
  have "closures_ok (cp_vm nested_compiler) (cp_frames nested_compiler)"
    by (simp add: closures_ok_def counted_def defs get_function_def hpayload_def hget_def numeral_3_eq_3 numeral_2_eq_2)
  moreover have "\<forall>f \<in> set (cp_frames nested_compiler). has_room f"
    by (simp add: has_room_def defs FLUX_MAX_LOCALS_def FLUX_MAX_UPVALUES_def)
  moreover have "cp_frames nested_compiler \<noteq> []" by (simp add: defs)
  moreover have "enclosing (tl (cp_frames nested_compiler)) ''x'' = Some (1, 1)"
    by (simp add: defs resolve_local_def upt_rec)
  ultimately show ?thesis using upvalues_follow_scoping [of nested_compiler "''x''"] by auto
qed

end
