(* ===== verification/Spec2Isabelle.thy ===== *)
theory Spec2Isabelle
  imports Data_Properties Exec_Properties Machine_Properties Parser_Properties Compiler_Properties
begin

text \<open>
  Flux is an interpreter written in C: a source goes through the lexer and the parser to a syntax tree, a compiler
  translates the tree to byte code, and a stack machine with a garbage-collected heap, coroutines and exceptions runs
  the byte code.  This development models the lexer, the parser, the compiler and the whole machine, and proves what
  makes each part correct.  All paths below are relative to \<^verbatim>\<open>src/\<close> of the repository.

  \<^bold>\<open>Conventions.\<close>  A C function is a HOL function of the same name that returns the new state.  The outer
  \<^verbatim>\<open>option\<close> of a result is \<^verbatim>\<open>None\<close> where C has undefined behaviour (reading behind an array, a NULL or dangling
  pointer, signed overflow) or where a bound of the model is exhausted; errors the program reports are values.
  \<^verbatim>\<open>int64_t\<close>, \<^verbatim>\<open>uint16_t\<close> and bytes are words; counters of memory and positions are natural numbers.  A pointer to
  an object is an index of the heap, a pointer that may be NULL an option.  The value stack is a list of the pushed
  values: the slots of the fixed array above \<^verbatim>\<open>stack_top\<close> are not in it, so an operand that names one
  (\<^verbatim>\<open>OP_LOAD_LOCAL\<close>, \<^verbatim>\<open>OP_STORE_LOCAL\<close>, a cut of the stack) gives \<^verbatim>\<open>None\<close>, where C reads or writes a stale slot.

  \<^bold>\<open>Values and heap.\<close>  \<^verbatim>\<open>Floats\<close>: IEEE doubles as bit patterns.  \<^verbatim>\<open>Values\<close>: \<^verbatim>\<open>include/flux/value.h\<close>.
  \<^verbatim>\<open>Objects\<close>: the object kinds of \<^verbatim>\<open>include/flux/object.h\<close>, one record per struct.  \<^verbatim>\<open>Dicts\<close>, \<^verbatim>\<open>StringTable\<close>,
  \<^verbatim>\<open>ObjectOps\<close>: \<^verbatim>\<open>src/object/object.c\<close>, the open-addressed dictionary, the intern table, the constructors and
  structural equality.  \<^verbatim>\<open>VMState\<close>: the record of \<^verbatim>\<open>include/flux/vm.h\<close> and its stack.  \<^verbatim>\<open>GC\<close>: \<^verbatim>\<open>src/gc/gc.c\<close>.
  The locale of \<^verbatim>\<open>Stores\<close> states what a client of a dictionary relies on and is interpreted on these operations.
  \<^verbatim>\<open>GCProofs\<close>, \<^verbatim>\<open>ObjectProps\<close>, \<^verbatim>\<open>UpvalueProps\<close> prove that a collection keeps exactly the reachable objects, that
  interning makes string identity equality, and that captured variables keep their values.  Reachable means
  reachable along the pointers that \<^verbatim>\<open>blacken_object\<close> follows; the name of a native is not one of them.  The
  theorems on the intern table hold for capacities below \<open>2 ^ 30\<close>, from where \<^verbatim>\<open>capacity * 3\<close> overflows an \<^verbatim>\<open>int\<close>.
  \<^verbatim>\<open>ObjectProps\<close> also says what the comparison of two dictionaries with equal counts comes to.

  \<^bold>\<open>Byte code.\<close>  \<^verbatim>\<open>Chunk\<close>, \<^verbatim>\<open>Disasm\<close>: \<^verbatim>\<open>src/vm/chunk.c\<close> and the operand readers of the interpreter.
  \<^verbatim>\<open>ChunkProps\<close>, \<^verbatim>\<open>Operands\<close>: the line table is searched correctly, operands written are read back.

  \<^bold>\<open>Machine.\<close>  \<^verbatim>\<open>VMCore\<close>, \<^verbatim>\<open>Coroutines\<close>, \<^verbatim>\<open>Arith\<close>, \<^verbatim>\<open>Calls\<close>, \<^verbatim>\<open>Handlers\<close>, \<^verbatim>\<open>IndexOps\<close>, \<^verbatim>\<open>CoreOps\<close>, \<^verbatim>\<open>Machine\<close>:
  \<^verbatim>\<open>src/vm/vm.c\<close>, one definition per function and per case of the dispatch loop.  Natives, libuv, files, the compiler
  and \<^verbatim>\<open>pow\<close> are the record \<^verbatim>\<open>vm_env\<close>, a parameter.  The dispatch loop, nested invocations and natives call each other;
  \<^verbatim>\<open>vm_loop n\<close> bounds the steps, and \<^verbatim>\<open>Fuel\<close> proves that a run which ends with some bound ends in the same way with every
  larger one.  \<^verbatim>\<open>Steps\<close> gives the loop as a step relation; \<^verbatim>\<open>Bounds\<close>, \<^verbatim>\<open>BoundsOps\<close>, \<^verbatim>\<open>BoundsStep\<close> follow
  the sizes of the fixed arrays and the ready queue through every operation and every instruction: the locale
  \<^verbatim>\<open>queue_law\<close> takes any predicate on the queue that enqueueing and dequeueing keep.  It is interpreted twice, with no
  demand on the queue, which gives that the arrays never overflow, and in \<^verbatim>\<open>Fairness\<close> with the order of the queue, which
  gives that the turn of every coroutine comes.  Natives, the compiler and libuv are assumed to keep the bounds
  (\<^verbatim>\<open>env_bounded\<close>) and the order (\<^verbatim>\<open>env_fair\<close>), since they reach these arrays through the operations of the machine
  only.  \<^verbatim>\<open>FrameProps\<close>, \<^verbatim>\<open>SchedProps\<close>: returns, exceptions, context switches.  \<^verbatim>\<open>SliceProps\<close>: the
  positions a slice means and the loops that visit them, for operands and lengths below \<open>2 ^ 30\<close>.

  \<^bold>\<open>Lexer.\<close>  \<^verbatim>\<open>Tokens\<close>, \<^verbatim>\<open>Lexer\<close>: \<^verbatim>\<open>src/lexer/lexer.c\<close>.  \<^verbatim>\<open>LexerProps\<close>, \<^verbatim>\<open>LexerLayout\<close>: every scanner returns,
  a measure falls with every token, the indentation stack and the ring of pending tokens stay well formed.
  \<^verbatim>\<open>LexerWords\<close>, \<^verbatim>\<open>LexerLines\<close>: spelled lexemes and the layout rule \<^verbatim>\<open>offside\<close>; what is printed is read back.  The ring
  of pending tokens has four slots, for the DEDENTs and the EOF at the end of the source, so \<^verbatim>\<open>offside\<close> has
  no tokens for a source with more than three levels open at its end.

  \<^bold>\<open>Parser.\<close>  \<^verbatim>\<open>Ast\<close>: the nodes of \<^verbatim>\<open>include/flux/ast.h\<close>.  \<^verbatim>\<open>Parser\<close>, \<^verbatim>\<open>ParserStmts\<close>, \<^verbatim>\<open>ParserModule\<close>:
  \<^verbatim>\<open>src/parser/parser.c\<close>, error recovery and f-string sub-parsers included.  Its functions take the functions they call
  recursively as the record \<^verbatim>\<open>calls\<close>; \<^verbatim>\<open>parse_calls n\<close> is the recursion to depth \<^verbatim>\<open>n\<close>, and \<^verbatim>\<open>n\<close> also bounds the loops.
  \<^verbatim>\<open>Grammar\<close> is the grammar as an inductive definition.  \<^verbatim>\<open>ParserWords\<close> reduces the parser to the tokens ahead of it
  and says \<^verbatim>\<open>ev\<close> for enough fuel; \<^verbatim>\<open>ParserExprs\<close> to \<^verbatim>\<open>ParserAccepts\<close> follow the rules of the grammar, and
  \<^verbatim>\<open>ParserSound\<close> is the induction over it.

  \<^bold>\<open>Compiler.\<close>  \<^verbatim>\<open>Compiler\<close>, \<^verbatim>\<open>CompilerExprs\<close>, \<^verbatim>\<open>CompilerStmts\<close>, \<^verbatim>\<open>CompilerDefs\<close>: \<^verbatim>\<open>src/compiler/compiler.c\<close>.
  The state is the record \<^verbatim>\<open>compiler\<close>, with the machine it allocates in and the stack of \<^verbatim>\<open>CompilerFrame\<close>s; the code
  grows in the function objects of the heap.  \<^verbatim>\<open>compile_expr\<close>, \<^verbatim>\<open>compile_node\<close> and \<^verbatim>\<open>predeclare_case\<close> take the functions they
  call recursively as the record \<^verbatim>\<open>compile_calls\<close>; \<^verbatim>\<open>calls_to n\<close> is the recursion to depth \<^verbatim>\<open>n\<close>; the theorems hold for every
  sufficient depth.  A compile error is the flag \<^verbatim>\<open>cp_had_error\<close>; its text is printed only.  \<^verbatim>\<open>CoreLang\<close> gives a core
  of the language its meaning (\<^verbatim>\<open>evals\<close>, \<^verbatim>\<open>execs\<close>), with the operators read off the tokens and not off the tables of the
  compiler, and its code (\<^verbatim>\<open>expr_code\<close>, \<^verbatim>\<open>stmt_code\<close>): operators, short circuits,
  conditionals, assignments, \<^verbatim>\<open>let\<close>, blocks, \<^verbatim>\<open>if\<close>/\<^verbatim>\<open>else\<close> and \<^verbatim>\<open>while\<close> over local variables.  \<^verbatim>\<open>CompilerEmit\<close>,
  \<^verbatim>\<open>CompilerCode\<close>, \<^verbatim>\<open>CompilerBlocks\<close> prove that the compiler emits this code, \<^verbatim>\<open>Folding\<close> that folded constants are what
  the opcodes compute, \<^verbatim>\<open>CodeRun\<close> that the dispatch loop does what the program means when it runs the code.  Jumps
  reach 32767 bytes, and a statement needs no more stack than it has bytes of code.  \<^verbatim>\<open>CompilerBounds\<close> proves of every
  statement and expression that the fixed arrays of the compiler do not overflow, \<^verbatim>\<open>Closures\<close> that upvalues stand for
  the variables of lexical scoping, as long as a function has fewer than 256 of them.

  \<^bold>\<open>Properties\<close> stand in \<^verbatim>\<open>Data_Properties\<close>, \<^verbatim>\<open>Exec_Properties\<close>, \<^verbatim>\<open>Machine_Properties\<close>, \<^verbatim>\<open>Lexer_Properties\<close>,
  \<^verbatim>\<open>Parser_Properties\<close> and \<^verbatim>\<open>Compiler_Properties\<close>, each with a witness that applies it to a concrete machine or source.

  \<^bold>\<open>Not modelled.\<close>  The native methods and functions (\<^verbatim>\<open>src/runtime/runtime.c\<close>, \<^verbatim>\<open>src/stdlib\<close>) are parameters of the
  machine, and so is the step from a file to its compiled function in the import machinery.  The modules under
  \<^verbatim>\<open>stdlib\<close> and \<^verbatim>\<open>extension\<close> bind sockets, threads, databases and libuv.  The command line, the embedding API, the
  tools, the printing of values, trees and error messages are input and output.
\<close>

end
